(* ===== verification/Py_Prelude.thy ===== *)
theory Py_Prelude
  imports Main "HOL-Library.Char_ord" "HOL-Library.List_Lexorder"
begin

text \<open>
  The Python run-time notions every component of the model shares: the errors an
  operation may raise, association lists for insertion-ordered dictionaries, and the
  string methods of \<^verbatim>\<open>str\<close> the sources call.  Strings are lists of characters; the
  case mapping and the white space tests are those of ASCII (and Latin-1 blanks), which
  is all the modelled code depends on.
\<close>

named_theorems py_text \<open>definitions of the Python string methods\<close>
named_theorems py_num \<open>definitions of the Python numeric conversions\<close>
named_theorems frames \<open>what an operation leaves unchanged\<close>

section \<open>Errors and results\<close>

datatype py_error =
    ValueError string
  | TypeError
  | OverflowError
  | ZeroDivisionError
  | KeyError string
  | AttributeError
  | OSError

type_synonym 'a res = "py_error + 'a"

text \<open>A comprehension whose body may raise: the first exception is the result.\<close>

fun mapM_res :: "('a \<Rightarrow> 'b res) \<Rightarrow> 'a list \<Rightarrow> 'b list res" where
  "mapM_res f [] = Inr []"
| "mapM_res f (x # xs) =
     (case f x of Inl e \<Rightarrow> Inl e
      | Inr y \<Rightarrow> (case mapM_res f xs of Inl e \<Rightarrow> Inl e | Inr ys \<Rightarrow> Inr (y # ys)))"

lemma mapM_res_Inr: "(\<And>x. x \<in> set xs \<Longrightarrow> f x = Inr (g x)) \<Longrightarrow> mapM_res f xs = Inr (map g xs)"
  by (induction xs) auto

lemma mapM_res_length: "mapM_res f xs = Inr ys \<Longrightarrow> length ys = length xs"
  by (induction xs arbitrary: ys) (auto split: sum.splits)

lemma mapM_res_nth: "mapM_res f xs = Inr ys \<Longrightarrow> list_all2 (\<lambda>x y. f x = Inr y) xs ys"
  by (induction xs arbitrary: ys) (auto split: sum.splits)

section \<open>Lists and dictionaries\<close>

lemma list_all2_mem: "list_all2 P xs ys \<Longrightarrow> x \<in> set xs \<Longrightarrow> \<exists>y \<in> set ys. P x y"
  by (induction rule: list_all2_induct) auto

text \<open>Python's dictionaries keep insertion order and replace a stored value in place.\<close>

fun dict_set :: "'k \<Rightarrow> 'v \<Rightarrow> ('k \<times> 'v) list \<Rightarrow> ('k \<times> 'v) list" where
  "dict_set k v [] = [(k, v)]"
| "dict_set k v ((k', v') # d) = (if k = k' then (k, v) # d else (k', v') # dict_set k v d)"

abbreviation dict_keys :: "('k \<times> 'v) list \<Rightarrow> 'k list" where
  "dict_keys d \<equiv> map fst d"

definition dict_get :: "('k \<times> 'v) list \<Rightarrow> 'k \<Rightarrow> 'v \<Rightarrow> 'v" where
  "dict_get d k dflt = (case map_of d k of None \<Rightarrow> dflt | Some v \<Rightarrow> v)"

lemma map_of_dict_set [simp]: "map_of (dict_set k v d) = (map_of d)(k \<mapsto> v)"
  by (induction d) auto

lemma set_keys_dict_set [simp]: "set (dict_keys (dict_set k v d)) = insert k (set (dict_keys d))"
  by (induction k v d rule: dict_set.induct) (simp_all add: insert_commute)

lemma distinct_dict_set [simp]: "distinct (dict_keys d) \<Longrightarrow> distinct (dict_keys (dict_set k v d))"
proof (induction d)
  case (Cons a d)
  then show ?case using set_keys_dict_set [of k v d] by (cases a) auto
qed simp

lemma keys_dict_set_new: "k \<notin> set (dict_keys d) \<Longrightarrow> dict_set k v d = d @ [(k, v)]"
  by (induction d) auto

lemma map_of_eq_Some_iff_mem:
  "distinct (dict_keys d) \<Longrightarrow> map_of d k = Some v \<longleftrightarrow> (k, v) \<in> set d"
  by (rule map_of_eq_Some_iff)

text \<open>\<^verbatim>\<open>groups.setdefault(f(x), []).append(x)\<close> over a list: keys in order of appearance.\<close>

fun group_by :: "('a \<Rightarrow> 'k) \<Rightarrow> ('k \<times> 'a list) list \<Rightarrow> 'a list \<Rightarrow> ('k \<times> 'a list) list" where
  "group_by f d [] = d"
| "group_by f d (x # xs) = group_by f (dict_set (f x) (dict_get d (f x) [] @ [x]) d) xs"

lemma group_by_get:
  "dict_get (group_by f d xs) k [] = dict_get d k [] @ filter (\<lambda>x. f x = k) xs"
  by (induction f d xs rule: group_by.induct) (auto simp: dict_get_def)

lemma group_by_keys: "set (dict_keys (group_by f d xs)) = set (dict_keys d) \<union> f ` set xs"
proof (induction xs arbitrary: d)
  case (Cons x xs)
  show ?case by (simp add: Cons.IH set_keys_dict_set del: set_map)
qed simp

lemma group_by_distinct: "distinct (dict_keys d) \<Longrightarrow> distinct (dict_keys (group_by f d xs))"
  by (induction f d xs rule: group_by.induct) simp_all

text \<open>The present values of a list.\<close>

definition somes :: "'a option list \<Rightarrow> 'a list" where
  "somes xs = concat (map (\<lambda>x. case x of None \<Rightarrow> [] | Some v \<Rightarrow> [v]) xs)"

lemma set_somes: "set (somes (map f bs)) = {v. \<exists>b \<in> set bs. f b = Some v}"
  by (auto simp: somes_def split: option.splits)

text \<open>Sums over the groups are sums over the list.\<close>

lemma sum_list_dict_set:
  fixes g :: "'v \<Rightarrow> nat"
  assumes "distinct (dict_keys d)"
  shows "sum_list (map (\<lambda>(k, v). g v) (dict_set k v d)) + (case map_of d k of None \<Rightarrow> 0 | Some w \<Rightarrow> g w)
    = sum_list (map (\<lambda>(k, v). g v) d) + g v"
  using assms
proof (induction d)
  case (Cons a d)
  then show ?case by (cases a) (auto simp: map_of_eq_None_iff split: option.splits)
qed simp

lemma group_by_sum:
  fixes g :: "'a list \<Rightarrow> nat"
  assumes g: "\<And>xs ys. g (xs @ ys) = g xs + g ys" and "distinct (dict_keys d)"
  shows "sum_list (map (\<lambda>(k, v). g v) (group_by f d xs)) = sum_list (map (\<lambda>(k, v). g v) d) + g xs"
  using assms(2)
proof (induction xs arbitrary: d)
  case Nil
  have "g [] = 0" using g [of "[]" "[]"] by simp
  then show ?case by simp
next
  case (Cons x xs)
  define old where "old = dict_get d (f x) []"
  have g0: "g [] = 0" using g [of "[]" "[]"] by simp
  have gx: "g (x # xs) = g [x] + g xs" using g [of "[x]" xs] by simp
  have "(case map_of d (f x) of None \<Rightarrow> 0 | Some w \<Rightarrow> g w) = g old"
    by (simp add: old_def dict_get_def g0 split: option.split)
  with sum_list_dict_set [OF Cons.prems, of g "f x" "old @ [x]"]
  have "sum_list (map (\<lambda>(k, v). g v) (dict_set (f x) (old @ [x]) d)) = sum_list (map (\<lambda>(k, v). g v) d) + g [x]"
    by (simp add: g)
  moreover have "distinct (dict_keys (dict_set (f x) (old @ [x]) d))" using Cons.prems by simp
  ultimately show ?case using Cons.IH [of "dict_set (f x) (old @ [x]) d"] gx by (simp add: old_def)
qed

text \<open>The first element with the greatest key, as \<^verbatim>\<open>max(xs, key=f)\<close> returns it.\<close>

fun first_max :: "('a \<Rightarrow> 'b::linorder) \<Rightarrow> 'a \<Rightarrow> 'a list \<Rightarrow> 'a" where
  "first_max f b [] = b"
| "first_max f b (x # xs) = (if f b < f x then first_max f x xs else first_max f b xs)"

lemma first_max_mem: "first_max f b xs \<in> insert b (set xs)"
  by (induction xs arbitrary: b) (simp, metis first_max.simps(2) insert_iff list.simps(15))

lemma first_max_ge: "x \<in> insert b (set xs) \<Longrightarrow> f x \<le> f (first_max f b xs)"
proof (induction xs arbitrary: b x)
  case (Cons a xs)
  show ?case
  proof (cases "f b < f a")
    case True
    have ge: "f y \<le> f (first_max f a xs)" if "y \<in> insert a (set xs)" for y
      using Cons.IH [OF that] .
    have "f b \<le> f (first_max f a xs)" using True ge [of a] by simp
    with True Cons.prems ge show ?thesis by auto
  next
    case False
    have "f b \<le> f (first_max f b xs)" using Cons.IH by simp
    with False Cons show ?thesis by fastforce
  qed
qed simp

lemma filter_length_sum:
  "length (filter P xs) + length (filter (\<lambda>x. \<not> P x) xs) = length xs"
  by (induction xs) auto

lemma length_filter_mono: "(\<And>x. P x \<Longrightarrow> Q x) \<Longrightarrow> length (filter P xs) \<le> length (filter Q xs)"
  by (induction xs) (auto simp: le_SucI)

section \<open>Strings\<close>

definition py_upper_char :: "char \<Rightarrow> char" where
  [py_text]: "py_upper_char c = (let n = (of_char c :: nat) in
     if 97 \<le> n \<and> n \<le> 122 then char_of (n - 32) else c)"

definition py_lower_char :: "char \<Rightarrow> char" where
  [py_text]: "py_lower_char c = (let n = (of_char c :: nat) in
     if 65 \<le> n \<and> n \<le> 90 then char_of (n + 32) else c)"

definition py_upper :: "string \<Rightarrow> string" where
  [py_text]: "py_upper = map py_upper_char"

definition py_lower :: "string \<Rightarrow> string" where
  [py_text]: "py_lower = map py_lower_char"

definition py_space :: "char \<Rightarrow> bool" where
  [py_text]: "py_space c = (let n = (of_char c :: nat) in
     (9 \<le> n \<and> n \<le> 13) \<or> (28 \<le> n \<and> n \<le> 32) \<or> n = 133 \<or> n = 160)"

definition py_strip :: "string \<Rightarrow> string" where
  [py_text]: "py_strip s = rev (dropWhile py_space (rev (dropWhile py_space s)))"

text \<open>\<^verbatim>\<open>s.replace(c, "")\<close> for one character.\<close>

definition py_remove :: "char \<Rightarrow> string \<Rightarrow> string" where
  [py_text]: "py_remove c s = filter (\<lambda>x. x \<noteq> c) s"

fun py_startswith :: "string \<Rightarrow> string \<Rightarrow> bool" where
  "py_startswith s [] = True"
| "py_startswith [] (p # ps) = False"
| "py_startswith (c # cs) (p # ps) = (c = p \<and> py_startswith cs ps)"

text \<open>\<^verbatim>\<open>pat in s\<close>.\<close>

fun py_in :: "string \<Rightarrow> string \<Rightarrow> bool" where
  "py_in pat [] = (pat = [])"
| "py_in pat (c # cs) = (py_startswith (c # cs) pat \<or> py_in pat cs)"

definition py_endswith :: "string \<Rightarrow> string \<Rightarrow> bool" where
  [py_text]: "py_endswith s p = py_startswith (rev s) (rev p)"

text \<open>\<^verbatim>\<open>sep.join(xs)\<close>.\<close>

fun py_join :: "string \<Rightarrow> string list \<Rightarrow> string" where
  "py_join sep [] = []"
| "py_join sep [x] = x"
| "py_join sep (x # y # zs) = x @ sep @ py_join sep (y # zs)"

text \<open>
  \<^verbatim>\<open>s.split(sep)\<close>: the scan takes the separator at its first position and goes on
  behind it.  An empty separator is an error in Python and never occurs here; the model
  then splits nothing.
\<close>

function py_split :: "string \<Rightarrow> string \<Rightarrow> string list" where
  "py_split sep [] = [[]]"
| "py_split sep (c # cs) =
     (if sep \<noteq> [] \<and> py_startswith (c # cs) sep then [] # py_split sep (drop (length sep) (c # cs))
      else case py_split sep cs of [] \<Rightarrow> [[c]] | w # ws \<Rightarrow> (c # w) # ws)"
  by pat_completeness auto
termination
  by (relation "measure (\<lambda>(sep, s). length s)") (auto simp: neq_Nil_conv)

declare py_split.simps(2) [simp del]

lemma py_startswith_append: "py_startswith (p @ s) p"
  by (induction p) auto

lemma py_startswith_iff: "py_startswith s p \<longleftrightarrow> (\<exists>t. s = p @ t)"
  by (induction s p rule: py_startswith.induct) auto

lemma py_in_iff: "py_in p s \<longleftrightarrow> (\<exists>u v. s = u @ p @ v)"
proof (induction s)
  case (Cons c cs)
  show ?case
  proof
    assume "py_in p (c # cs)"
    then consider "py_startswith (c # cs) p" | "py_in p cs" by auto
    then show "\<exists>u v. c # cs = u @ p @ v"
    proof cases
      case 1
      then show ?thesis by (metis append_Nil py_startswith_iff)
    next
      case 2
      then show ?thesis using Cons by (metis append_Cons)
    qed
  next
    assume "\<exists>u v. c # cs = u @ p @ v"
    then obtain u v where uv: "c # cs = u @ p @ v" by blast
    show "py_in p (c # cs)"
    proof (cases u)
      case Nil
      with uv have "py_startswith (c # cs) p" by (metis append_Nil py_startswith_iff)
      then show ?thesis by simp
    next
      case (Cons a u')
      with uv have "cs = u' @ p @ v" by simp
      then show ?thesis using Cons.IH by auto
    qed
  qed
qed auto

lemma py_in_append1: "py_in p s \<Longrightarrow> py_in p (s @ t)"
  unfolding py_in_iff by (metis append.assoc)

lemma py_in_append2: "py_in p t \<Longrightarrow> py_in p (s @ t)"
  unfolding py_in_iff by (metis append.assoc)

lemma py_in_join: "x \<in> set xs \<Longrightarrow> py_in p x \<Longrightarrow> py_in p (py_join sep xs)"
proof (induction sep xs rule: py_join.induct)
  case (3 sep a b zs)
  then show ?case by (auto intro: py_in_append1 py_in_append2)
qed auto

lemma py_split_nonempty: "py_split sep s \<noteq> []"
  by (induction sep s rule: py_split.induct) (auto simp: py_split.simps split: list.splits)

lemma py_split_sep: "sep \<noteq> [] \<Longrightarrow> py_split sep (sep @ s) = [] # py_split sep s"
proof -
  assume ne: "sep \<noteq> []"
  then obtain c cs where c: "sep @ s = c # cs" by (cases sep) auto
  have "py_startswith (c # cs) sep" using py_startswith_append [of sep s] c by simp
  then have "py_split sep (c # cs) = [] # py_split sep (drop (length sep) (c # cs))"
    using ne by (simp add: py_split.simps(2) [of sep c cs])
  then show ?thesis unfolding c [symmetric] by simp
qed

text \<open>
  Splitting undoes joining for a separator of three characters whose middle one occurs in
  no joined word (such as \<^verbatim>\<open>" + "\<close>).
\<close>

lemma py_split_step:
  "\<not> py_startswith (c # cs) sep \<Longrightarrow> py_split sep cs = w # ws \<Longrightarrow> py_split sep (c # cs) = (c # w) # ws"
  by (simp add: py_split.simps(2))

lemma py_split_word:
  assumes "a \<noteq> q" and "q \<notin> set w"
  shows "py_split [a, q, b] (w @ [a, q, b] @ s) = w # py_split [a, q, b] s"
  using assms(2)
proof (induction w)
  case Nil
  then show ?case using py_split_sep [of "[a, q, b]" s] by simp
next
  case (Cons x w)
  have "\<not> py_startswith (x # w @ [a, q, b] @ s) [a, q, b]"
    using Cons.prems assms(1) by (cases w) auto
  moreover have "py_split [a, q, b] (w @ [a, q, b] @ s) = w # py_split [a, q, b] s"
    using Cons by simp
  ultimately show ?case using py_split_step [of x "w @ [a, q, b] @ s"] by simp
qed

lemma py_split_last: "q \<notin> set w \<Longrightarrow> py_split [a, q, b] w = [w]"
proof (induction w)
  case (Cons x w)
  have "\<not> py_startswith (x # w) [a, q, b]" using Cons.prems by (cases w) auto
  with Cons show ?case by (simp add: py_split_step)
qed simp

lemma py_split_join:
  assumes "a \<noteq> q" and "\<forall>w \<in> set ws. q \<notin> set w" and "ws \<noteq> []"
  shows "py_split [a, q, b] (py_join [a, q, b] ws) = ws"
  using assms(2,3)
proof (induction ws)
  case (Cons x ws)
  show ?case
  proof (cases ws)
    case Nil
    with Cons show ?thesis by (simp add: py_split_last)
  next
    case (Cons y zs)
    with Cons.prems Cons.IH have "py_split [a, q, b] (py_join [a, q, b] ws) = ws" by simp
    moreover have "py_join [a, q, b] (x # ws) = x @ [a, q, b] @ py_join [a, q, b] ws"
      using \<open>ws = y # zs\<close> by simp
    ultimately show ?thesis using Cons.prems assms(1) py_split_word [of a q x b] by simp
  qed
qed simp

end
