(* ===== verification/Py_Float.thy ===== *)
theory Py_Float
  imports Complex_Main Py_Prelude
begin

text \<open>
  Python's \<^verbatim>\<open>float\<close> is an IEEE 754 binary64 number.  \<open>fl\<close> rounds an exact rational to
  the nearest such number (ties to even, subnormals included), every arithmetic operation
  rounds its exact result once, and results beyond the largest finite number become
  infinities.  The sign of zero is the one thing not represented.  The lemmas say that
  rounding is monotone, symmetric, exact on representable values, and that the difference
  of two nearby floats is exact (Sterbenz), which is what the time arithmetic of the
  schedulers relies on.
\<close>

section \<open>Rounding a rational to an integer\<close>

definition rne :: "rat \<Rightarrow> int" where
  [py_num]: "rne x = (let f = \<lfloor>x\<rfloor>; d = x - of_int f in
     if d < 1 / 2 then f else if 1 / 2 < d then f + 1 else if even f then f else f + 1)"

lemma rne_of_int [simp]: "rne (of_int n) = n"
  by (simp add: rne_def)

lemma rne_0 [simp]: "rne 0 = 0"
  using rne_of_int [of 0] by simp

lemma rne_numeral [simp]: "rne (numeral k) = numeral k"
  using rne_of_int [of "numeral k"] by simp

lemma rne_floor: "\<lfloor>x\<rfloor> \<le> rne x \<and> rne x \<le> \<lfloor>x\<rfloor> + 1"
  by (simp add: rne_def Let_def)

lemma rne_error: "\<bar>of_int (rne x) - x\<bar> \<le> 1 / 2"
  using of_int_floor_le [of x] floor_correct [of x]
  by (auto simp: rne_def Let_def)

lemma rne_mono: "x \<le> y \<Longrightarrow> rne x \<le> rne y"
proof -
  assume le: "x \<le> y"
  then have fle: "\<lfloor>x\<rfloor> \<le> \<lfloor>y\<rfloor>" by (rule floor_mono)
  show ?thesis
  proof (cases "\<lfloor>x\<rfloor> = \<lfloor>y\<rfloor>")
    case True
    with le show ?thesis by (auto simp: rne_def Let_def)
  next
    case False
    with fle have "\<lfloor>x\<rfloor> + 1 \<le> \<lfloor>y\<rfloor>" by simp
    with rne_floor [of x] rne_floor [of y] show ?thesis by linarith
  qed
qed

lemma rne_unique: "\<bar>of_int n - x\<bar> < 1 / 2 \<Longrightarrow> rne x = n"
proof -
  assume "\<bar>of_int n - x\<bar> < 1 / 2"
  with rne_error [of x] have "\<bar>(of_int n :: rat) - of_int (rne x)\<bar> < 1" by linarith
  then have "\<bar>n - rne x\<bar> < 1" by (metis of_int_1 of_int_abs of_int_diff of_int_less_iff)
  then show ?thesis by simp
qed

lemma rne_minus [simp]: "rne (- x) = - rne x"
proof (cases "x - of_int \<lfloor>x\<rfloor> = 1 / 2")
  case True
  then have "- x = of_int (- \<lfloor>x\<rfloor> - 1) + 1 / 2" by simp
  then have fl: "\<lfloor>- x\<rfloor> = - \<lfloor>x\<rfloor> - 1" by (intro floor_unique) auto
  have "- x - of_int \<lfloor>- x\<rfloor> = 1 / 2" using True unfolding fl by simp
  with True fl show ?thesis by (auto simp: rne_def Let_def)
next
  case False
  have "\<bar>of_int (rne x) - x\<bar> < 1 / 2"
    using False of_int_floor_le [of x] floor_correct [of x] by (auto simp: rne_def Let_def)
  then have "\<bar>of_int (- rne x) - (- x)\<bar> < 1 / 2" by (simp add: abs_minus_commute)
  then show ?thesis by (rule rne_unique)
qed

section \<open>The binary exponent of a rational\<close>

fun blen :: "nat \<Rightarrow> nat" where
  "blen n = (if n = 0 then 0 else Suc (blen (n div 2)))"

declare blen.simps [simp del]

lemma blen_bounds: "0 < n \<Longrightarrow> 2 ^ (blen n - 1) \<le> n \<and> n < 2 ^ blen n"
proof (induction n rule: blen.induct)
  case (1 n)
  show ?case
  proof (cases "n = 1")
    case True
    then show ?thesis by (simp add: blen.simps)
  next
    case False
    with 1 have pos: "0 < n div 2" by auto
    with 1 have IH: "2 ^ (blen (n div 2) - 1) \<le> n div 2 \<and> n div 2 < 2 ^ blen (n div 2)" by simp
    have b: "blen n = Suc (blen (n div 2))" using 1(2) by (simp add: blen.simps [of n])
    have s: "blen (n div 2) = Suc (blen (n div 2) - 1)"
      using pos by (metis Suc_diff_1 blen.simps zero_less_Suc neq0_conv)
    have "2 * 2 ^ (blen (n div 2) - 1) \<le> n" using IH by linarith
    then have "2 ^ blen (n div 2) \<le> n" by (metis power_Suc s)
    moreover have "n < 2 * 2 ^ blen (n div 2)" using IH by linarith
    ultimately show ?thesis unfolding b by simp
  qed
qed

definition ilog2 :: "rat \<Rightarrow> int" where
  [py_num]: "ilog2 x = (let (p, q) = quotient_of x; k = int (blen (nat p)) - int (blen (nat q)) in
     if 2 powi k \<le> x then k else k - 1)"

lemma powi_nat_diff: "(2::rat) powi (int a - int b) = 2 ^ a / 2 ^ b"
  by (simp add: power_int_diff)

lemma ilog2_bounds:
  assumes "0 < x"
  shows "2 powi ilog2 x \<le> x \<and> x < 2 powi (ilog2 x + 1)"
proof -
  obtain p q where pq: "quotient_of x = (p, q)" by (cases "quotient_of x")
  then have x: "x = of_int p / of_int q" and q: "0 < q"
    by (auto simp: quotient_of_div quotient_of_denom_pos)
  with assms have p: "0 < p" by (simp add: zero_less_divide_iff)
  define a where "a = blen (nat p)"
  define b where "b = blen (nat q)"
  have "2 ^ (a - 1) \<le> nat p" "nat p < 2 ^ a" "2 ^ (b - 1) \<le> nat q" "nat q < 2 ^ b"
    using blen_bounds [of "nat p"] blen_bounds [of "nat q"] p q by (auto simp: a_def b_def)
  then have "(2::int) ^ (a - 1) \<le> p" "p < 2 ^ a" "(2::int) ^ (b - 1) \<le> q" "q < 2 ^ b"
    using p q by (metis nat_less_iff nat_le_iff of_nat_power of_nat_numeral less_imp_le
      int_nat_eq of_nat_le_iff of_nat_less_iff)+
  then have r: "(2::rat) ^ (a - 1) \<le> of_int p" "of_int p < (2::rat) ^ a"
      "(2::rat) ^ (b - 1) \<le> of_int q" "of_int q < (2::rat) ^ b"
    by (metis of_int_le_iff of_int_less_iff of_int_numeral of_int_power)+
  have a0: "a = Suc (a - 1)" "b = Suc (b - 1)"
    using p q by (auto simp: a_def b_def blen.simps [of "nat p"] blen.simps [of "nat q"])
  have a2: "(2::rat) ^ a = 2 * 2 ^ (a - 1)" "(2::rat) ^ b = 2 * 2 ^ (b - 1)"
    using a0 by (metis power_Suc)+
  have q': "(0::rat) < of_int q" using q by simp
  have up: "x < 2 * (2 ^ a / 2 ^ b)"
  proof -
    have "x < 2 ^ a / of_int q" using r q' by (simp add: x divide_strict_right_mono)
    also have "\<dots> \<le> 2 ^ a / 2 ^ (b - 1)" using r q' by (intro divide_left_mono) auto
    also have "\<dots> = 2 * (2 ^ a / 2 ^ b)" using a2 by simp
    finally show ?thesis .
  qed
  have low: "2 ^ a / 2 ^ b / 2 \<le> x"
  proof -
    have "2 ^ a / 2 ^ b / 2 = 2 ^ (a - 1) / (2::rat) ^ b" using a2 by simp
    also have "\<dots> \<le> of_int p / 2 ^ b" using r by (simp add: divide_right_mono)
    also have "\<dots> \<le> of_int p / of_int q" using r q' p by (intro divide_left_mono) auto
    finally show ?thesis using x by simp
  qed
  have il: "ilog2 x = (if 2 powi (int a - int b) \<le> x then int a - int b else int a - int b - 1)"
    by (simp add: ilog2_def pq a_def b_def)
  show ?thesis
    using up low
    by (auto simp: il powi_nat_diff power_int_add power_int_diff power_int_minus field_simps)
qed

lemma powi_mono: "i \<le> j \<Longrightarrow> (2::rat) powi i \<le> 2 powi j"
  by (rule power_int_increasing) auto

lemma powi_less_iff: "(2::rat) powi i < 2 powi j \<longleftrightarrow> i < j"
  by (meson linorder_not_le powi_mono power_int_strict_increasing one_less_numeral_iff semiring_norm(76) leD)

lemma ilog2_mono: "0 < x \<Longrightarrow> x \<le> y \<Longrightarrow> ilog2 x \<le> ilog2 y"
proof -
  assume "0 < x" "x \<le> y"
  then have "2 powi ilog2 x < (2::rat) powi (ilog2 y + 1)"
    using ilog2_bounds [of x] ilog2_bounds [of y] by linarith
  then show ?thesis by (simp add: powi_less_iff)
qed

lemma ilog2_less: "0 < x \<Longrightarrow> x < 2 powi k \<Longrightarrow> ilog2 x < k"
  using ilog2_bounds [of x] powi_less_iff [of "ilog2 x" k] by linarith

section \<open>Rounding to binary64\<close>

definition fexp :: "rat \<Rightarrow> int" where
  [py_num]: "fexp x = max (ilog2 \<bar>x\<bar> - 52) (- 1074)"

definition fl :: "rat \<Rightarrow> rat" where
  [py_num]: "fl x = (if x = 0 then 0 else of_int (rne (x / 2 powi fexp x)) * 2 powi fexp x)"

abbreviation is_f64 :: "rat \<Rightarrow> bool" where
  "is_f64 x \<equiv> fl x = x"

lemma powi_pos [simp]: "(0::rat) < 2 powi k"
  by (simp add: zero_less_power_int)

lemma fl_0 [simp]: "fl 0 = 0"
  by (simp add: fl_def)

lemma fl_minus [simp]: "fl (- x) = - fl x"
  by (simp add: fl_def fexp_def)

lemma powi_add_rat: "(2::rat) powi (i + j) = 2 powi i * 2 powi j"
  by (simp add: power_int_add)

lemma fl_exact_lt:
  assumes "x = of_int m * 2 powi e" and "\<bar>m\<bar> < 2 ^ 53" and "- 1074 \<le> e"
  shows "fl x = x"
proof (cases "x = 0")
  case False
  have "\<bar>x\<bar> < 2 ^ 53 * 2 powi e"
  proof -
    have "\<bar>of_int m :: rat\<bar> < 2 ^ 53"
      using assms(2) by (metis of_int_abs of_int_less_iff of_int_numeral of_int_power)
    then show ?thesis by (simp add: assms(1) abs_mult)
  qed
  also have "\<dots> = 2 powi (53 + e)" by (simp add: powi_add_rat)
  finally have "ilog2 \<bar>x\<bar> < 53 + e" using False by (intro ilog2_less) auto
  then have le: "fexp x \<le> e" using assms(3) by (simp add: fexp_def)
  define d where "d = nat (e - fexp x)"
  have "x / 2 powi fexp x = of_int m * 2 powi (e - fexp x)"
    by (simp add: assms(1) power_int_diff)
  also have "\<dots> = of_int (m * 2 ^ d)"
    using le by (simp add: d_def power_int_def)
  finally have q: "x / 2 powi fexp x = of_int (m * 2 ^ d)" .
  then have "rne (x / 2 powi fexp x) = m * 2 ^ d" by (simp only: rne_of_int)
  moreover from q have "x = of_int (m * 2 ^ d) * 2 powi fexp x"
    by (simp add: field_simps)
  ultimately show ?thesis using False by (simp add: fl_def)
qed simp

lemma fl_exact:
  assumes "x = of_int m * 2 powi e" and "\<bar>m\<bar> \<le> 2 ^ 53" and "- 1074 \<le> e"
  shows "fl x = x"
proof (cases "\<bar>m\<bar> = 2 ^ 53")
  case True
  have "x = of_int (sgn m * 2 ^ 52) * 2 powi (e + 1)"
  proof -
    have "m = sgn m * 2 ^ 53" using True by (metis sgn_mult_abs)
    then have "m = (sgn m * 2 ^ 52) * 2" by simp
    then have "(of_int m :: rat) = of_int (sgn m * 2 ^ 52) * 2" by (metis of_int_mult of_int_numeral)
    then show ?thesis using assms(1) by (simp add: powi_add_rat)
  qed
  moreover have "\<bar>sgn m * 2 ^ 52\<bar> < (2 ^ 53 :: int)" using True by (simp add: abs_mult)
  ultimately show ?thesis using assms(3) by (intro fl_exact_lt [of x "sgn m * 2 ^ 52" "e + 1"]) auto
next
  case False
  with assms show ?thesis by (intro fl_exact_lt [of x m e]) auto
qed

lemma fl_of_int: "\<bar>n\<bar> \<le> 2 ^ 53 \<Longrightarrow> fl (of_int n) = of_int n"
  by (rule fl_exact [of _ n 0]) auto

lemma fl_numeral [simp]: "(numeral k :: int) \<le> 9007199254740992 \<Longrightarrow> fl (numeral k) = numeral k"
  using fl_of_int [of "numeral k"] by simp

lemma fl_1 [simp]: "fl 1 = 1"
  using fl_of_int [of 1] by simp

lemma fl_div_pow2: "\<bar>k\<bar> \<le> 2 ^ 53 \<Longrightarrow> j \<le> 1074 \<Longrightarrow> fl (of_int k / 2 ^ j) = of_int k / 2 ^ j"
  by (rule fl_exact [of _ k "- int j"]) (simp_all add: power_int_minus field_simps)

lemma fl_dyadic [simp]:
  "(numeral k :: int) \<le> 9007199254740992 \<Longrightarrow> fl (numeral k / 2) = numeral k / 2"
  "(numeral k :: int) \<le> 9007199254740992 \<Longrightarrow> fl (numeral k / 4) = numeral k / 4"
  "fl (1 / 2) = 1 / 2" "fl (1 / 4) = 1 / 4"
  using fl_div_pow2 [of "numeral k" 1] fl_div_pow2 [of "numeral k" 2]
    fl_div_pow2 [of 1 1] fl_div_pow2 [of 1 2]
  by simp_all

lemma fl_nonneg: "0 \<le> x \<Longrightarrow> 0 \<le> fl x"
proof -
  assume "0 \<le> x"
  then have "0 \<le> rne (x / 2 powi fexp x)" using rne_mono [of 0 "x / 2 powi fexp x"] by simp
  then show ?thesis by (simp add: fl_def)
qed

lemma fexp_mono: "0 < x \<Longrightarrow> x \<le> y \<Longrightarrow> fexp x \<le> fexp y"
  using ilog2_mono [of x y] by (auto simp: fexp_def)

lemma fl_scaled_le: "0 < x \<Longrightarrow> rne (x / 2 powi fexp x) \<le> 2 ^ 53"
proof -
  assume x: "0 < x"
  have "x < 2 powi (ilog2 x + 1)" using ilog2_bounds [OF x] by simp
  also have "\<dots> \<le> 2 powi (53 + fexp x)" using x by (intro powi_mono) (simp add: fexp_def)
  also have "\<dots> = 2 ^ 53 * 2 powi fexp x" by (simp add: powi_add_rat)
  finally have "x / 2 powi fexp x \<le> of_int (2 ^ 53)" by (simp add: field_simps)
  then show ?thesis using rne_mono [of "x / 2 powi fexp x" "of_int (2 ^ 53)"] by (simp only: rne_of_int)
qed

lemma fl_mono_pos: "0 < x \<Longrightarrow> x \<le> y \<Longrightarrow> fl x \<le> fl y"
proof -
  assume x: "0 < x" and le: "x \<le> y"
  consider "fexp x = fexp y" | "fexp x < fexp y" using fexp_mono [OF x le] by linarith
  then show ?thesis
  proof cases
    case 1
    have "rne (x / 2 powi fexp y) \<le> rne (y / 2 powi fexp y)"
      using le by (intro rne_mono divide_right_mono) (auto simp: less_imp_le)
    with 1 x le show ?thesis by (simp add: fl_def)
  next
    case 2
    then have fy: "fexp y = ilog2 y - 52" using x le by (auto simp: fexp_def max_def split: if_splits)
    have "of_int (rne (x / 2 powi fexp x)) \<le> (2 ^ 53 :: rat)"
      using fl_scaled_le [OF x] by (metis of_int_le_iff of_int_numeral of_int_power)
    then have "fl x \<le> 2 ^ 53 * 2 powi fexp x" using x by (simp add: fl_def)
    also have "\<dots> = 2 powi (53 + fexp x)" by (simp add: powi_add_rat)
    also have "\<dots> \<le> 2 powi (52 + fexp y)" using 2 by (intro powi_mono) simp
    also have "\<dots> = 2 ^ 52 * 2 powi fexp y" by (simp add: powi_add_rat)
    finally have up: "fl x \<le> 2 ^ 52 * 2 powi fexp y" .
    have "2 powi ilog2 y \<le> y" using ilog2_bounds [of y] x le by linarith
    moreover have "(2::rat) powi ilog2 y = 2 ^ 52 * 2 powi fexp y"
      using powi_add_rat [of 52 "fexp y"] fy by simp
    ultimately have "2 ^ 52 * 2 powi fexp y \<le> y" by simp
    then have "of_int (2 ^ 52) \<le> y / 2 powi fexp y" by (simp add: field_simps)
    then have "2 ^ 52 \<le> rne (y / 2 powi fexp y)"
      using rne_mono [of "of_int (2 ^ 52)" "y / 2 powi fexp y"] by (simp only: rne_of_int)
    then have "(2 ^ 52 :: rat) \<le> of_int (rne (y / 2 powi fexp y))"
      by (metis of_int_le_iff of_int_numeral of_int_power)
    then have "2 ^ 52 * 2 powi fexp y \<le> fl y" using x le by (simp add: fl_def)
    with up show ?thesis by linarith
  qed
qed

lemma fl_mono: "x \<le> y \<Longrightarrow> fl x \<le> fl y"
proof -
  assume le: "x \<le> y"
  consider "0 < x" | "x \<le> 0" "0 \<le> y" | "y < 0" by linarith
  then show ?thesis
  proof cases
    case 1
    then show ?thesis using le by (rule fl_mono_pos)
  next
    case 2
    then show ?thesis using fl_nonneg [of y] fl_nonneg [of "- x"] by simp
  next
    case 3
    then show ?thesis using fl_mono_pos [of "- y" "- x"] le by simp
  qed
qed

lemma fl_le_exact: "x \<le> c \<Longrightarrow> fl c = c \<Longrightarrow> fl x \<le> c"
  using fl_mono [of x c] by simp

lemma fl_ge_exact: "c \<le> x \<Longrightarrow> fl c = c \<Longrightarrow> c \<le> fl x"
  using fl_mono [of c x] by simp

lemma fl_form_pos:
  assumes "0 < y" and "fl y = y"
  shows "y = of_int (rne (y / 2 powi fexp y)) * 2 powi fexp y" "\<bar>rne (y / 2 powi fexp y)\<bar> \<le> 2 ^ 53"
proof -
  show "y = of_int (rne (y / 2 powi fexp y)) * 2 powi fexp y" using assms by (simp add: fl_def)
  have "0 \<le> rne (y / 2 powi fexp y)" using assms(1) rne_mono [of 0 "y / 2 powi fexp y"] by simp
  with fl_scaled_le [OF assms(1)] show "\<bar>rne (y / 2 powi fexp y)\<bar> \<le> 2 ^ 53" by simp
qed

lemma fl_idem [simp]: "fl (fl x) = fl x"
proof -
  have pos: "fl (fl x) = fl x" if "0 < x" for x
  proof (rule fl_exact [of _ "rne (x / 2 powi fexp x)" "fexp x"])
    show "fl x = of_int (rne (x / 2 powi fexp x)) * 2 powi fexp x" using that by (simp add: fl_def)
    have "0 \<le> rne (x / 2 powi fexp x)" using that rne_mono [of 0 "x / 2 powi fexp x"] by simp
    with fl_scaled_le [OF that] show "\<bar>rne (x / 2 powi fexp x)\<bar> \<le> 2 ^ 53" by simp
  qed (simp add: fexp_def)
  consider "0 < x" | "x = 0" | "0 < - x" by linarith
  then show ?thesis using pos [of x] pos [of "- x"] by cases auto
qed

text \<open>Sterbenz: floats at most a factor of two apart subtract without rounding.\<close>

lemma fl_diff_exact:
  assumes "fl x = x" and "fl y = y" and "y \<le> x" and "x \<le> 2 * y"
  shows "fl (x - y) = x - y"
proof (cases "0 < y")
  case True
  define n m where "n = rne (y / 2 powi fexp y)" and "m = rne (x / 2 powi fexp x)"
  define d where "d = nat (fexp x - fexp y)"
  have y: "y = of_int n * 2 powi fexp y" and n: "\<bar>n\<bar> \<le> 2 ^ 53"
    using fl_form_pos [OF True assms(2)] by (auto simp: n_def)
  have "0 < x" using True assms(3) by simp
  then have x: "x = of_int m * 2 powi fexp x" using fl_form_pos(1) assms(1) by (simp add: m_def)
  have "fexp y \<le> fexp x" using fexp_mono [OF True assms(3)] .
  then have "(2::rat) powi fexp x = 2 ^ d * 2 powi fexp y"
    using powi_add_rat [of "fexp x - fexp y" "fexp y"] by (simp add: d_def power_int_def)
  then have diff: "x - y = of_int (m * 2 ^ d - n) * 2 powi fexp y"
    using x y by (simp add: algebra_simps)
  have "of_int (m * 2 ^ d - n) * 2 powi fexp y \<le> of_int n * (2 :: rat) powi fexp y"
    using diff y assms(4) by linarith
  then have "m * 2 ^ d - n \<le> n"
    by (metis mult_le_cancel_right_pos of_int_le_iff powi_pos)
  moreover have "0 \<le> of_int (m * 2 ^ d - n) * (2::rat) powi fexp y" using diff assms(3) by linarith
  then have "0 \<le> m * 2 ^ d - n"
    by (metis of_int_0_le_iff powi_pos zero_le_mult_iff less_le_not_le)
  ultimately have "\<bar>m * 2 ^ d - n\<bar> \<le> 2 ^ 53" using n by linarith
  with diff show ?thesis by (intro fl_exact [of _ "m * 2 ^ d - n" "fexp y"]) (auto simp: fexp_def)
next
  case False
  with assms show ?thesis by (cases "y = 0") auto
qed

section \<open>Floats with their special values\<close>

datatype f64 = Fin rat | Inf | NInf | NaN

definition f64_of :: "rat \<Rightarrow> f64" where
  [py_num]: "f64_of x = (let y = fl x in
     if y = 0 \<or> ilog2 \<bar>y\<bar> < 1024 then Fin y else if 0 < y then Inf else NInf)"

fun f_lt :: "f64 \<Rightarrow> f64 \<Rightarrow> bool" where
  "f_lt (Fin a) (Fin b) = (a < b)"
| "f_lt NInf (Fin b) = True"
| "f_lt (Fin a) Inf = True"
| "f_lt NInf Inf = True"
| "f_lt _ _ = False"

fun f_eq :: "f64 \<Rightarrow> f64 \<Rightarrow> bool" where
  "f_eq NaN _ = False"
| "f_eq a b = (a = b)"

definition f_le :: "f64 \<Rightarrow> f64 \<Rightarrow> bool" where
  [py_num, simp]: "f_le a b = (f_lt a b \<or> f_eq a b)"

fun f_neg :: "f64 \<Rightarrow> f64" where
  "f_neg (Fin a) = Fin (- a)"
| "f_neg Inf = NInf"
| "f_neg NInf = Inf"
| "f_neg NaN = NaN"

fun f_abs :: "f64 \<Rightarrow> f64" where
  "f_abs (Fin a) = Fin \<bar>a\<bar>"
| "f_abs NInf = Inf"
| "f_abs a = a"

fun f_add :: "f64 \<Rightarrow> f64 \<Rightarrow> f64" where
  "f_add NaN _ = NaN"
| "f_add _ NaN = NaN"
| "f_add Inf NInf = NaN"
| "f_add NInf Inf = NaN"
| "f_add Inf _ = Inf"
| "f_add _ Inf = Inf"
| "f_add NInf _ = NInf"
| "f_add _ NInf = NInf"
| "f_add (Fin a) (Fin b) = f64_of (a + b)"

definition f_sub :: "f64 \<Rightarrow> f64 \<Rightarrow> f64" where
  [py_num]: "f_sub a b = f_add a (f_neg b)"

text \<open>Multiplication and division by a finite positive constant, the only forms used.\<close>

fun f_scale :: "rat \<Rightarrow> f64 \<Rightarrow> f64" where
  "f_scale c (Fin a) = f64_of (a * c)"
| "f_scale c a = a"

text \<open>\<^verbatim>\<open>round(x, n)\<close>: the decimal nearest to the exact value, ties to even, as a float.\<close>

definition rnd :: "nat \<Rightarrow> rat \<Rightarrow> rat" where
  [py_num]: "rnd n x = fl (of_int (rne (x * 10 ^ n)) / 10 ^ n)"

fun f_round :: "nat \<Rightarrow> f64 \<Rightarrow> f64" where
  "f_round n (Fin a) = f64_of (of_int (rne (a * 10 ^ n)) / 10 ^ n)"
| "f_round n a = a"

text \<open>
  \<^verbatim>\<open>sum\<close> of a list of floats, as CPython 3.12 and later compute it: a running total with
  a Neumaier compensation term, added once at the end when it is finite and non-zero.
\<close>

definition f_ge_abs :: "f64 \<Rightarrow> f64 \<Rightarrow> bool" where
  [py_num]: "f_ge_abs a b = f_le (f_abs b) (f_abs a)"

fun f_sum_loop :: "f64 \<Rightarrow> f64 \<Rightarrow> f64 list \<Rightarrow> f64 \<times> f64" where
  "f_sum_loop s c [] = (s, c)"
| "f_sum_loop s c (x # xs) =
     (let t = f_add s x;
          e = (if f_ge_abs s x then f_add (f_sub s t) x else f_add (f_sub x t) s)
      in f_sum_loop t (f_add c e) xs)"

definition f_sum :: "f64 list \<Rightarrow> f64" where
  [py_num]: "f_sum xs = (let (s, c) = f_sum_loop (Fin 0) (Fin 0) xs in
     case c of Fin r \<Rightarrow> if r = 0 then s else f_add s c | _ \<Rightarrow> s)"

text \<open>\<^verbatim>\<open>min\<close> and \<^verbatim>\<open>max\<close> of a non-empty list keep the first of equal values and every
  value a NaN comparison leaves in place.\<close>

fun f_min :: "f64 \<Rightarrow> f64 list \<Rightarrow> f64" where
  "f_min b [] = b"
| "f_min b (x # xs) = f_min (if f_lt x b then x else b) xs"

fun f_max :: "f64 \<Rightarrow> f64 list \<Rightarrow> f64" where
  "f_max b [] = b"
| "f_max b (x # xs) = f_max (if f_lt b x then x else b) xs"

definition finite_f :: "f64 \<Rightarrow> bool" where
  [py_num]: "finite_f x = (case x of Fin _ \<Rightarrow> True | _ \<Rightarrow> False)"

lemma finite_f_simps [simp]:
  "finite_f (Fin a)" "\<not> finite_f Inf" "\<not> finite_f NInf" "\<not> finite_f NaN"
  by (simp_all add: finite_f_def)

lemma f_sub_NInf [simp]: "f_sub (Fin a) NInf = Inf"
  by (simp add: f_sub_def)

lemma f_sub_Fin: "f_sub (Fin a) (Fin b) = f64_of (a - b)"
  by (simp add: f_sub_def)

text \<open>Nothing below two to the power 1023 overflows.\<close>

lemma f64_of_small: "\<bar>x\<bar> \<le> 2 powi 1023 \<Longrightarrow> f64_of x = Fin (fl x)"
proof -
  assume x: "\<bar>x\<bar> \<le> 2 powi 1023"
  have e: "fl (2 powi 1023) = 2 powi 1023" by (rule fl_exact [of _ 1 1023]) auto
  have "fl x \<le> 2 powi 1023" using x e by (intro fl_le_exact) linarith+
  moreover have "fl (- x) \<le> 2 powi 1023" using x e by (intro fl_le_exact) linarith+
  ultimately have "\<bar>fl x\<bar> \<le> 2 powi 1023" unfolding fl_minus by linarith
  also have "\<dots> < (2::rat) powi 1024" unfolding powi_less_iff by simp
  finally have "fl x \<noteq> 0 \<Longrightarrow> ilog2 \<bar>fl x\<bar> < 1024" by (intro ilog2_less) auto
  then have "fl x = 0 \<or> ilog2 \<bar>fl x\<bar> < 1024" by blast
  then show ?thesis unfolding f64_of_def Let_def by (rule if_P)
qed

lemma f64_of_bounded: "\<bar>x\<bar> \<le> 2 ^ 53 \<Longrightarrow> f64_of x = Fin (fl x)"
proof (rule f64_of_small)
  assume "\<bar>x\<bar> \<le> 2 ^ 53"
  also have "(2::rat) ^ 53 = 2 powi 53" using power_int_of_nat [of "2::rat" 53] by simp
  also have "\<dots> \<le> 2 powi 1023" by (rule powi_mono) simp
  finally show "\<bar>x\<bar> \<le> 2 powi 1023" .
qed

lemma f_min_mem: "f_min b xs \<in> insert b (set xs)"
proof (induction xs arbitrary: b)
  case (Cons x xs)
  show ?case using Cons.IH [of "if f_lt x b then x else b"] by (auto split: if_splits)
qed simp

lemma f_max_mem: "f_max b xs \<in> insert b (set xs)"
proof (induction xs arbitrary: b)
  case (Cons x xs)
  show ?case using Cons.IH [of "if f_lt b x then x else b"] by (auto split: if_splits)
qed simp

lemma f_lt_irrefl [simp]: "\<not> f_lt x x"
  by (cases x) auto

lemma f_lt_trans: "f_lt x y \<Longrightarrow> f_lt y z \<Longrightarrow> f_lt x z"
  by (cases x; cases y; cases z) auto

lemma rne_le_iff_int: "x \<le> of_int k \<Longrightarrow> rne x \<le> k"
  using rne_mono [of x "of_int k"] by simp

lemma rnd_mono: "x \<le> y \<Longrightarrow> rnd n x \<le> rnd n y"
  unfolding rnd_def
  by (intro fl_mono divide_right_mono of_int_le_iff [THEN iffD2] rne_mono mult_right_mono) auto

lemma rnd_of_int: "\<bar>k\<bar> \<le> 2 ^ 53 \<Longrightarrow> rnd n (of_int k) = of_int k"
proof -
  assume k: "\<bar>k\<bar> \<le> 2 ^ 53"
  have "rne (of_int k * 10 ^ n) = k * 10 ^ n"
    using rne_of_int [of "k * 10 ^ n"] by simp
  then show ?thesis using fl_of_int [OF k] by (simp add: rnd_def)
qed

end
