(* ===== verification/Py_Values.thy ===== *)
theory Py_Values
  imports Py_Float
begin

text \<open>
  The dynamically typed scalars that reach the modelled code from drivers, configuration
  and storage, and the conversions \<^verbatim>\<open>int(...)\<close>, \<^verbatim>\<open>float(...)\<close>, \<^verbatim>\<open>bool(...)\<close> and
  \<^verbatim>\<open>str(int)\<close> with the exceptions they raise.  Formatted messages keep the template of the
  f-string and its arguments.
\<close>

section \<open>Scalars\<close>

datatype pyval = PNone | PBool bool | PInt int | PFloat f64 | PStr string

fun truthy :: "pyval \<Rightarrow> bool" where
  "truthy PNone = False"
| "truthy (PBool b) = b"
| "truthy (PInt n) = (n \<noteq> 0)"
| "truthy (PFloat x) = (x \<noteq> Fin 0)"
| "truthy (PStr s) = (s \<noteq> [])"

text \<open>An f-string: its template and its arguments.\<close>

datatype message = Msg string "pyval list"

section \<open>Decimal digits\<close>

definition digit_char :: "nat \<Rightarrow> char" where
  [py_num]: "digit_char n = char_of (48 + n)"

definition is_digit :: "char \<Rightarrow> bool" where
  [py_num]: "is_digit c = (let n = (of_char c :: nat) in 48 \<le> n \<and> n \<le> 57)"

definition digit_val :: "char \<Rightarrow> nat" where
  [py_num]: "digit_val c = of_char c - 48"

fun nat_str :: "nat \<Rightarrow> string" where
  "nat_str n = (if n < 10 then [digit_char n] else nat_str (n div 10) @ [digit_char (n mod 10)])"

declare nat_str.simps [simp del]

definition int_str :: "int \<Rightarrow> string" where
  [py_num]: "int_str n = (if n < 0 then CHR ''-'' # nat_str (nat (- n)) else nat_str (nat n))"

definition digits_val :: "string \<Rightarrow> nat" where
  [py_num]: "digits_val = foldl (\<lambda>a c. 10 * a + digit_val c) 0"

lemma digit_chars [simp]:
  "digit_char 0 = CHR ''0''" "digit_char (Suc 0) = CHR ''1''" "digit_char 2 = CHR ''2''"
  "digit_char 3 = CHR ''3''" "digit_char 4 = CHR ''4''" "digit_char 5 = CHR ''5''"
  "digit_char 6 = CHR ''6''" "digit_char 7 = CHR ''7''" "digit_char 8 = CHR ''8''"
  "digit_char 9 = CHR ''9''"
  by code_simp+

lemma is_digit_digit_char: "n < 10 \<Longrightarrow> is_digit (digit_char n)"
  by (simp add: is_digit_def digit_char_def)

lemma digit_val_digit_char: "n < 10 \<Longrightarrow> digit_val (digit_char n) = n"
  by (simp add: digit_val_def digit_char_def)

lemma nat_str_digits: "list_all is_digit (nat_str n) \<and> nat_str n \<noteq> []"
proof (induction n rule: nat_str.induct)
  case (1 n)
  then show ?case by (auto simp: nat_str.simps [of n] is_digit_digit_char)
qed

lemma digits_val_nat_str: "digits_val (nat_str n) = n"
proof (induction n rule: nat_str.induct)
  case (1 n)
  then show ?case
    by (auto simp: nat_str.simps [of n] digits_val_def digit_val_digit_char)
qed

text \<open>Evaluation of \<open>nat_str\<close> on numerals.\<close>

lemma nat_str_numeral [simp]:
  "nat_str (numeral k) = (if numeral k < (10::nat) then [digit_char (numeral k)]
     else nat_str (numeral k div 10) @ [digit_char (numeral k mod 10)])"
  "nat_str 0 = ''0''" "nat_str (Suc 0) = ''1''"
  by (simp_all add: nat_str.simps [of "numeral k"] nat_str.simps [of 0] nat_str.simps [of "Suc 0"])

lemma nat_str_inj: "nat_str m = nat_str n \<longleftrightarrow> m = n"
  by (metis digits_val_nat_str)

section \<open>int(s) and float(s)\<close>

text \<open>Digits with single underscores between them; the list of digits, or None.\<close>

fun digit_group :: "string \<Rightarrow> string option" where
  "digit_group [] = None"
| "digit_group [c] = (if is_digit c then Some [c] else None)"
| "digit_group (c # d # cs) =
     (if \<not> is_digit c then None
      else if d = CHR ''_'' then map_option ((#) c) (digit_group cs)
      else map_option ((#) c) (digit_group (d # cs)))"

lemma digit_group_digits: "list_all is_digit s \<Longrightarrow> s \<noteq> [] \<Longrightarrow> digit_group s = Some s"
proof (induction s rule: digit_group.induct)
  case (3 c d cs)
  have "\<not> is_digit (CHR ''_'')" by (simp add: is_digit_def)
  with 3 show ?case by auto
qed auto

definition unsign :: "string \<Rightarrow> bool \<times> string" where
  [py_num]: "unsign s = (case s of [] \<Rightarrow> (False, []) | c # cs \<Rightarrow>
     if c = CHR ''-'' then (True, cs) else if c = CHR ''+'' then (False, cs) else (False, s))"

definition parse_int :: "string \<Rightarrow> int option" where
  [py_num]: "parse_int s = (let (neg, b) = unsign (py_strip s) in
     map_option (\<lambda>d. let v = int (digits_val d) in if neg then - v else v) (digit_group b))"

lemma strip_digits: "list_all is_digit s \<Longrightarrow> py_strip s = s"
proof -
  have sp: "is_digit c \<Longrightarrow> \<not> py_space c" for c by (auto simp: is_digit_def py_space_def Let_def)
  assume s: "list_all is_digit s"
  then have "dropWhile py_space s = s" by (cases s) (auto simp: sp)
  moreover have "dropWhile py_space (rev s) = rev s"
    using s sp by (cases s rule: rev_cases) auto
  ultimately show ?thesis by (simp add: py_strip_def)
qed

lemma parse_int_nat_str: "parse_int (nat_str n) = Some (int n)"
proof -
  have d: "list_all is_digit (nat_str n)" "nat_str n \<noteq> []" using nat_str_digits by auto
  have m: "\<not> is_digit (CHR ''-'')" "\<not> is_digit (CHR ''+'')" by (simp_all add: is_digit_def)
  have "unsign (nat_str n) = (False, nat_str n)"
    using d m by (auto simp: unsign_def split: list.splits)
  then show ?thesis
    using d by (simp add: parse_int_def strip_digits digit_group_digits digits_val_nat_str)
qed

text \<open>
  The mantissa of a float literal: digits, a point, digits, with at least one digit; the
  value is the pair of all digits and the number of digits behind the point.
\<close>

definition opt_group :: "string \<Rightarrow> string option" where
  [py_num]: "opt_group s = (if s = [] then Some [] else digit_group s)"

definition mantissa :: "string \<Rightarrow> (string \<times> nat) option" where
  [py_num]: "mantissa s =
     (let a = takeWhile (\<lambda>c. c \<noteq> CHR ''.'') s; r = drop (length a) s in
      if r = [] then map_option (\<lambda>d. (d, 0)) (digit_group a)
      else case (opt_group a, opt_group (tl r)) of
             (Some d, Some e) \<Rightarrow> if d = [] \<and> e = [] then None else Some (d @ e, length e)
           | _ \<Rightarrow> None)"

definition exponent_of :: "string \<Rightarrow> int option" where
  [py_num]: "exponent_of s = (let (neg, b) = unsign s in
     map_option (\<lambda>d. let v = int (digits_val d) in if neg then - v else v) (digit_group b))"

definition pow10 :: "int \<Rightarrow> rat" where
  [py_num]: "pow10 k = (if 0 \<le> k then 10 ^ nat k else 1 / 10 ^ nat (- k))"

definition parse_decimal :: "string \<Rightarrow> rat option" where
  [py_num]: "parse_decimal s =
     (let m = takeWhile (\<lambda>c. c \<noteq> CHR ''e'') s; r = drop (length m) s in
      case mantissa m of None \<Rightarrow> None
      | Some (d, k) \<Rightarrow>
          (case (if r = [] then Some 0 else exponent_of (tl r)) of None \<Rightarrow> None
           | Some e \<Rightarrow> Some (of_nat (digits_val d) * pow10 (e - int k))))"

definition parse_float :: "string \<Rightarrow> f64 option" where
  [py_num]: "parse_float s = (let (neg, b) = unsign (py_lower (py_strip s)) in
     if b \<in> {''inf'', ''infinity''} then Some (if neg then NInf else Inf)
     else if b = ''nan'' then Some NaN
     else map_option (\<lambda>r. f64_of (if neg then - r else r)) (parse_decimal b))"

section \<open>Conversions of scalars\<close>

definition trunc_rat :: "rat \<Rightarrow> int" where
  [py_num]: "trunc_rat x = (if 0 \<le> x then \<lfloor>x\<rfloor> else - \<lfloor>- x\<rfloor>)"

text \<open>\<^verbatim>\<open>int(v)\<close>.\<close>

fun py_int :: "pyval \<Rightarrow> int res" where
  "py_int PNone = Inl TypeError"
| "py_int (PBool b) = Inr (of_bool b)"
| "py_int (PInt n) = Inr n"
| "py_int (PFloat (Fin x)) = Inr (trunc_rat x)"
| "py_int (PFloat NaN) = Inl (ValueError ''cannot convert float NaN to integer'')"
| "py_int (PFloat _) = Inl OverflowError"
| "py_int (PStr s) = (case parse_int s of None \<Rightarrow> Inl (ValueError s) | Some n \<Rightarrow> Inr n)"

text \<open>\<^verbatim>\<open>float(v)\<close>; an integer too large for a float raises \<^verbatim>\<open>OverflowError\<close>.\<close>

fun py_float :: "pyval \<Rightarrow> f64 res" where
  "py_float PNone = Inl TypeError"
| "py_float (PBool b) = Inr (Fin (of_bool b))"
| "py_float (PInt n) = (case f64_of (of_int n) of Fin x \<Rightarrow> Inr (Fin x) | _ \<Rightarrow> Inl OverflowError)"
| "py_float (PFloat x) = Inr x"
| "py_float (PStr s) = (case parse_float s of None \<Rightarrow> Inl (ValueError s) | Some x \<Rightarrow> Inr x)"

text \<open>The guard \<^verbatim>\<open>except (TypeError, ValueError)\<close>; an overflow passes through it.\<close>

definition catch_type_value :: "'a res \<Rightarrow> 'a \<Rightarrow> 'a res" where
  [py_num]: "catch_type_value r dflt = (case r of
     Inl TypeError \<Rightarrow> Inr dflt | Inl (ValueError _) \<Rightarrow> Inr dflt | _ \<Rightarrow> r)"

lemma catch_type_value_simps [simp]:
  "catch_type_value (Inr x) d = Inr x"
  "catch_type_value (Inl TypeError) d = Inr d"
  "catch_type_value (Inl (ValueError s)) d = Inr d"
  "catch_type_value (Inl OverflowError) d = Inl OverflowError"
  by (simp_all add: catch_type_value_def)

text \<open>Sequencing: an exception skips the rest.\<close>

definition res_bind :: "'a res \<Rightarrow> ('a \<Rightarrow> 'b res) \<Rightarrow> 'b res" where
  "res_bind r f = (case r of Inl e \<Rightarrow> Inl e | Inr x \<Rightarrow> f x)"

lemma res_bind_simps [simp]: "res_bind (Inr x) f = f x" "res_bind (Inl e) f = Inl e"
  by (simp_all add: res_bind_def)

lemma res_bind_Inr_iff: "res_bind r f = Inr y \<longleftrightarrow> (\<exists>x. r = Inr x \<and> f x = Inr y)"
  by (cases r) auto

lemma map_sum_Inr_iff: "map_sum id g r = Inr y \<longleftrightarrow> (\<exists>x. r = Inr x \<and> y = g x)"
  by (cases r) auto

text \<open>\<^verbatim>\<open>float(v)\<close> with \<^verbatim>\<open>None\<close> for a value of the wrong type or form.\<close>

definition float_or_none :: "pyval \<Rightarrow> f64 option res" where
  [py_num]: "float_or_none v = catch_type_value (map_sum id Some (py_float v)) None"

lemma py_int_cases: "py_int v = Inr n \<or> py_int v = Inl TypeError \<or> (\<exists>s. py_int v = Inl (ValueError s)) \<or> py_int v = Inl OverflowError \<or> (\<exists>n. py_int v = Inr n)"
  by (cases v rule: py_int.cases) (auto split: option.splits)

end
