(* ===== verification/Collector_Schedule.thy ===== *)
theory Collector_Schedule
  imports Py_Values
begin

text \<open>
  \<^verbatim>\<open>app/collectors/base.py\<close>: when a collector may poll, and how failures back it off.
  The scheduling fields of a \<^verbatim>\<open>Collector\<close> are a record; every method that takes
  \<^verbatim>\<open>_lock\<close> is one atomic operation on it.  Each reading of \<^verbatim>\<open>time.time()\<close> is an argument
  (a finite float), in the order the method reads the clock, and the subtraction of two
  readings rounds as the float subtraction does.
\<close>

record collector =
  poll_interval_seconds :: int
  last_poll :: rat
  last_success :: rat
  poll_success :: bool
  consecutive_failures :: nat
  last_failure_time :: rat

definition MAX_PENALTY_SECONDS :: int where
  "MAX_PENALTY_SECONDS = 3600"

definition PENALTY_RESET_HOURS :: int where
  "PENALTY_RESET_HOURS = 24"

definition init_collector :: "int \<Rightarrow> collector" where
  "init_collector interval =
     \<lparr>poll_interval_seconds = interval, last_poll = 0, last_success = 0, poll_success = False,
      consecutive_failures = 0, last_failure_time = 0\<rparr>"

text \<open>The auto-reset writes the counters back, so computing the penalty returns a state.\<close>

definition penalty_seconds_unlocked :: "rat \<Rightarrow> collector \<Rightarrow> int \<times> collector" where
  "penalty_seconds_unlocked now c =
     (if 0 < consecutive_failures c \<and> 0 < last_failure_time c
         \<and> of_int PENALTY_RESET_HOURS \<le> fl (fl (now - last_failure_time c) / 3600)
      then (0, c\<lparr>consecutive_failures := 0, last_failure_time := 0\<rparr>)
      else if consecutive_failures c = 0 then (0, c)
      else (min (30 * 2 ^ (consecutive_failures c - 1)) MAX_PENALTY_SECONDS, c))"

definition effective_interval_unlocked :: "rat \<Rightarrow> collector \<Rightarrow> int \<times> collector" where
  "effective_interval_unlocked now c =
     (let (p, c') = penalty_seconds_unlocked now c in (poll_interval_seconds c + p, c'))"

definition should_poll :: "rat \<Rightarrow> rat \<Rightarrow> collector \<Rightarrow> bool \<times> collector" where
  "should_poll t1 t2 c =
     (let d = fl (t1 - last_poll c); (eff, c') = effective_interval_unlocked t2 c
      in (of_int eff \<le> d, c'))"

text \<open>The recovery message computes the penalty before the counters are cleared.\<close>

definition record_success :: "rat \<Rightarrow> rat \<Rightarrow> collector \<Rightarrow> collector" where
  "record_success t1 t2 c =
     (let c1 = (if 0 < consecutive_failures c then snd (penalty_seconds_unlocked t1 c) else c)
      in c1\<lparr>consecutive_failures := 0, last_failure_time := 0, last_poll := t2,
            last_success := t2, poll_success := True\<rparr>)"

definition record_skip :: "rat \<Rightarrow> collector \<Rightarrow> collector" where
  "record_skip t c = c\<lparr>consecutive_failures := 0, last_failure_time := 0, last_poll := t\<rparr>"

definition record_failure :: "rat \<Rightarrow> rat \<Rightarrow> rat \<Rightarrow> rat \<Rightarrow> collector \<Rightarrow> collector" where
  "record_failure t1 t2 t3 t4 c =
     (let c1 = c\<lparr>poll_success := False, consecutive_failures := Suc (consecutive_failures c),
                 last_failure_time := t1, last_poll := t2\<rparr>;
          c2 = snd (penalty_seconds_unlocked t3 c1)
      in snd (effective_interval_unlocked t4 c2))"

record collector_status =
  st_enabled :: bool
  st_consecutive_failures :: nat
  st_penalty_seconds :: int
  st_poll_interval :: int
  st_effective_interval :: int
  st_last_poll :: rat
  st_last_success :: rat
  st_poll_success :: bool
  st_next_poll_in :: int

definition get_status :: "rat \<Rightarrow> rat \<Rightarrow> rat \<Rightarrow> bool \<Rightarrow> collector \<Rightarrow> collector_status \<times> collector" where
  "get_status now t2 t3 enabled c =
     (let (eff, c1) = effective_interval_unlocked t2 c;
          until_next = max 0 (fl (of_int eff - fl (now - last_poll c1)));
          failures = consecutive_failures c1;
          (pen, c2) = penalty_seconds_unlocked t3 c1
      in (\<lparr>st_enabled = enabled, st_consecutive_failures = failures, st_penalty_seconds = pen,
           st_poll_interval = poll_interval_seconds c2, st_effective_interval = eff,
           st_last_poll = last_poll c2, st_last_success = last_success c2,
           st_poll_success = poll_success c2, st_next_poll_in = trunc_rat until_next\<rparr>, c2))"

section \<open>One run of the orchestrator\<close>

text \<open>
  \<^verbatim>\<open>_process_in_flight\<close> in \<^verbatim>\<open>app/main.py\<close> turns what a finished run left behind into one of
  the three records.  A run skipped because its collect lock was busy records nothing.
\<close>

datatype run_outcome = Skipped_Busy | Run_Success | Run_Failure | Transient_Html | Raised

definition record_outcome :: "rat \<Rightarrow> rat \<Rightarrow> rat \<Rightarrow> rat \<Rightarrow> run_outcome \<Rightarrow> collector \<Rightarrow> collector" where
  "record_outcome t1 t2 t3 t4 r c =
     (case r of Skipped_Busy \<Rightarrow> c
      | Run_Success \<Rightarrow> record_success t1 t2 c
      | Run_Failure \<Rightarrow> record_failure t1 t2 t3 t4 c
      | Transient_Html \<Rightarrow> record_skip t1 c
      | Raised \<Rightarrow> record_failure t1 t2 t3 t4 c)"

section \<open>Facts about single operations\<close>

lemmas schedule_defs = penalty_seconds_unlocked_def effective_interval_unlocked_def
  should_poll_def record_success_def record_skip_def record_failure_def

lemma penalty_frames [frames]:
  "poll_interval_seconds (snd (penalty_seconds_unlocked t c)) = poll_interval_seconds c"
  "last_poll (snd (penalty_seconds_unlocked t c)) = last_poll c"
  "last_success (snd (penalty_seconds_unlocked t c)) = last_success c"
  "poll_success (snd (penalty_seconds_unlocked t c)) = poll_success c"
  by (simp_all add: penalty_seconds_unlocked_def)

lemma snd_effective [simp]:
  "snd (effective_interval_unlocked t c) = snd (penalty_seconds_unlocked t c)"
  "fst (effective_interval_unlocked t c) = poll_interval_seconds c + fst (penalty_seconds_unlocked t c)"
  by (simp_all add: effective_interval_unlocked_def split: prod.splits)

lemma snd_should_poll [simp]:
  "snd (should_poll t1 t2 c) = snd (penalty_seconds_unlocked t2 c)"
  by (simp add: should_poll_def case_prod_beta Let_def)

lemma fst_should_poll:
  "fst (should_poll t1 t2 c) \<longleftrightarrow>
     of_int (poll_interval_seconds c + fst (penalty_seconds_unlocked t2 c)) \<le> fl (t1 - last_poll c)"
  by (simp add: should_poll_def case_prod_beta Let_def)

lemma min_double_bounds: "0 \<le> min (30 * 2 ^ n) (3600::int)" "min (30 * 2 ^ n) (3600::int) \<le> 3600"
  by auto

lemma penalty_bounds: "0 \<le> fst (penalty_seconds_unlocked t c) \<and> fst (penalty_seconds_unlocked t c) \<le> MAX_PENALTY_SECONDS"
  by (simp add: penalty_seconds_unlocked_def MAX_PENALTY_SECONDS_def)

lemma no_penalty: "consecutive_failures c = 0 \<Longrightarrow> penalty_seconds_unlocked t c = (0, c)"
  by (simp add: penalty_seconds_unlocked_def)

text \<open>Within a day of the last failure nothing is reset.\<close>

definition recent :: "rat \<Rightarrow> rat \<Rightarrow> bool" where
  "recent t0 t \<longleftrightarrow> t - t0 \<le> 86000"

lemma recent_idle: "recent t0 t \<Longrightarrow> fl (fl (t - t0) / 3600) < 24"
proof -
  assume "recent t0 t"
  then have "fl (t - t0) \<le> 86000" by (intro fl_le_exact) (auto simp: recent_def)
  then have "fl (fl (t - t0) / 3600) \<le> 24 - 1 / 16"
    using fl_div_pow2 [of 383 4] by (intro fl_le_exact) auto
  then show ?thesis by linarith
qed

lemma penalty_recent:
  "recent (last_failure_time c) t \<Longrightarrow> 0 < consecutive_failures c \<Longrightarrow>
   penalty_seconds_unlocked t c = (min (30 * 2 ^ (consecutive_failures c - 1)) MAX_PENALTY_SECONDS, c)"
  using recent_idle [of "last_failure_time c" t]
  by (simp add: penalty_seconds_unlocked_def PENALTY_RESET_HOURS_def)

lemma penalty_idle_day:
  assumes "0 < last_failure_time c" and "86400 \<le> t - last_failure_time c"
  shows "fst (penalty_seconds_unlocked t c) = 0" "consecutive_failures (snd (penalty_seconds_unlocked t c)) = 0"
proof -
  have "86400 \<le> fl (t - last_failure_time c)" using assms(2) by (intro fl_ge_exact) auto
  then have "24 \<le> fl (fl (t - last_failure_time c) / 3600)" by (intro fl_ge_exact) auto
  with assms(1) show "fst (penalty_seconds_unlocked t c) = 0"
      "consecutive_failures (snd (penalty_seconds_unlocked t c)) = 0"
    by (simp_all add: penalty_seconds_unlocked_def PENALTY_RESET_HOURS_def)
qed

section \<open>The contract of a schedule and the orchestrator that relies on it\<close>

text \<open>
  A tick carries what \<^verbatim>\<open>is_enabled\<close> answers and its clock reading.  The orchestrator of \<^verbatim>\<open>polling_loop\<close> for one collector: a tick submits a run unless one is
  in flight, the collector is disabled or it is not due; a finished run is recorded.  A start is logged with
  the time of the record it follows.
\<close>

datatype orch_event = Tick bool rat | Finished rat run_outcome

fun orch_step ::
  "(rat \<Rightarrow> 's \<Rightarrow> bool \<times> 's) \<Rightarrow> (rat \<Rightarrow> run_outcome \<Rightarrow> 's \<Rightarrow> 's) \<Rightarrow> ('s \<Rightarrow> rat) \<Rightarrow>
   orch_event \<Rightarrow> bool \<times> 's \<Rightarrow> (bool \<times> 's) \<times> (rat \<times> rat) list" where
  "orch_step due settle lastp (Tick enabled t) (busy, s) =
     (if busy \<or> \<not> enabled then ((busy, s), [])
      else let (d, s') = due t s in ((d, s'), if d then [(lastp s, t)] else []))"
| "orch_step due settle lastp (Finished t r) (busy, s) =
     (if busy then ((False, settle t r s), []) else ((busy, s), []))"

fun orch_run ::
  "(rat \<Rightarrow> 's \<Rightarrow> bool \<times> 's) \<Rightarrow> (rat \<Rightarrow> run_outcome \<Rightarrow> 's \<Rightarrow> 's) \<Rightarrow> ('s \<Rightarrow> rat) \<Rightarrow>
   orch_event list \<Rightarrow> bool \<times> 's \<Rightarrow> (bool \<times> 's) \<times> (rat \<times> rat) list" where
  "orch_run due settle lastp [] st = (st, [])"
| "orch_run due settle lastp (e # es) st =
     (let (st', l) = orch_step due settle lastp e st;
          (st'', l') = orch_run due settle lastp es st' in (st'', l @ l'))"

locale poll_schedule =
  fixes due :: "rat \<Rightarrow> 's \<Rightarrow> bool \<times> 's"
    and settle :: "rat \<Rightarrow> run_outcome \<Rightarrow> 's \<Rightarrow> 's"
    and lastp :: "'s \<Rightarrow> rat"
    and interval :: "'s \<Rightarrow> int"
  assumes due_lastp: "lastp (snd (due t s)) = lastp s"
    and due_interval: "interval (snd (due t s)) = interval s"
    and due_gap: "fst (due t s) \<Longrightarrow> of_int (interval s) \<le> fl (t - lastp s)"
    and settle_interval: "interval (settle t r s) = interval s"
    and settle_lastp: "r \<noteq> Skipped_Busy \<Longrightarrow> lastp (settle t r s) = t"
    and settle_busy: "settle t Skipped_Busy s = s"
begin

lemma step_interval: "interval (snd (fst (orch_step due settle lastp e (b, s)))) = interval s"
  by (cases e) (simp_all add: settle_interval due_interval Let_def case_prod_beta)

lemma step_gap:
  "(l, t) \<in> set (snd (orch_step due settle lastp e (b, s))) \<Longrightarrow> of_int (interval s) \<le> fl (t - l)"
  by (cases e) (auto simp: Let_def case_prod_beta due_gap split: if_splits)

lemma starts_apart:
  "(l, t) \<in> set (snd (orch_run due settle lastp es (b, s))) \<Longrightarrow> of_int (interval s) \<le> fl (t - l)"
proof (induction es arbitrary: b s)
  case (Cons e es)
  obtain b' s' l' where st: "orch_step due settle lastp e (b, s) = ((b', s'), l')"
    by (metis prod.collapse)
  have i: "interval s' = interval s" using step_interval [of e b s] st by simp
  from Cons.prems consider "(l, t) \<in> set l'"
    | "(l, t) \<in> set (snd (orch_run due settle lastp es (b', s')))"
    by (auto simp: st Let_def case_prod_beta)
  then show ?case using step_gap [of l t e b s] st i Cons.IH [of b' s'] by cases auto
qed simp

lemma at_most_one_in_flight:
  "fst (fst (orch_step due settle lastp e (True, s))) \<Longrightarrow> snd (orch_step due settle lastp e (True, s)) = []"
  by (cases e) auto

lemma busy_run_forgotten:
  "orch_run due settle lastp [Finished t Skipped_Busy] (True, s) = ((False, s), [])"
  by (simp add: settle_busy)

end

definition due_at :: "rat \<Rightarrow> collector \<Rightarrow> bool \<times> collector" where
  "due_at t c = should_poll t t c"

definition settle_at :: "rat \<Rightarrow> run_outcome \<Rightarrow> collector \<Rightarrow> collector" where
  "settle_at t r c = record_outcome t t t t r c"

lemma record_outcome_interval:
  "poll_interval_seconds (record_outcome t1 t2 t3 t4 r c) = poll_interval_seconds c"
  by (cases r) (simp_all add: record_outcome_def record_success_def record_skip_def
      record_failure_def frames Let_def)

lemma record_outcome_lastp:
  "r \<noteq> Skipped_Busy \<Longrightarrow> last_poll (record_outcome t t t t r c) = t"
  by (cases r) (simp_all add: record_outcome_def record_success_def record_skip_def
      record_failure_def frames Let_def)

lemma record_outcome_busy: "record_outcome t1 t2 t3 t4 Skipped_Busy c = c"
  by (simp add: record_outcome_def)

interpretation sched: poll_schedule due_at settle_at last_poll poll_interval_seconds
proof
  fix t s
  show "fst (due_at t s) \<Longrightarrow> of_int (poll_interval_seconds s) \<le> fl (t - last_poll s)"
    using penalty_bounds [of t s] by (simp add: due_at_def fst_should_poll)
qed (simp_all add: due_at_def settle_at_def frames record_outcome_interval record_outcome_lastp
    record_outcome_busy)

section \<open>Reachable schedules\<close>

text \<open>
  A collector and the clock.  Every operation reads a clock that never goes back; the manual
  poll endpoint and the orchestrator interleave in any order.
\<close>

inductive sched_step :: "rat \<times> collector \<Rightarrow> rat \<times> collector \<Rightarrow> bool" where
  success: "now \<le> t1 \<Longrightarrow> t1 \<le> t2 \<Longrightarrow> sched_step (now, c) (t2, record_success t1 t2 c)"
| skip: "now \<le> t \<Longrightarrow> sched_step (now, c) (t, record_skip t c)"
| failure: "now \<le> t1 \<Longrightarrow> t1 \<le> t2 \<Longrightarrow> t2 \<le> t3 \<Longrightarrow> t3 \<le> t4 \<Longrightarrow>
     sched_step (now, c) (t4, record_failure t1 t2 t3 t4 c)"
| ask: "now \<le> t1 \<Longrightarrow> t1 \<le> t2 \<Longrightarrow> sched_step (now, c) (t2, snd (should_poll t1 t2 c))"
| status: "now \<le> t1 \<Longrightarrow> t1 \<le> t2 \<Longrightarrow> t2 \<le> t3 \<Longrightarrow>
     sched_step (now, c) (t3, snd (get_status t1 t2 t3 en c))"

inductive sched_reachable :: "int \<Rightarrow> rat \<times> collector \<Rightarrow> bool" for interval :: int where
  init: "0 < t \<Longrightarrow> sched_reachable interval (t, init_collector interval)"
| step: "sched_reachable interval s \<Longrightarrow> sched_step s s' \<Longrightarrow> sched_reachable interval s'"

definition sched_inv :: "int \<Rightarrow> rat \<times> collector \<Rightarrow> bool" where
  "sched_inv interval s \<longleftrightarrow> (case s of (now, c) \<Rightarrow>
     0 < now \<and> poll_interval_seconds c = interval \<and>
     last_success c \<le> last_poll c \<and> last_poll c \<le> now \<and> 0 \<le> last_poll c \<and>
     (consecutive_failures c = 0 \<longleftrightarrow> last_failure_time c = 0) \<and>
     0 \<le> last_failure_time c \<and> last_failure_time c \<le> last_poll c \<and>
     (poll_success c \<longrightarrow> consecutive_failures c = 0) \<and>
     (0 < consecutive_failures c \<longrightarrow> last_success c \<le> last_failure_time c))"

lemma sched_inv_init: "0 < t \<Longrightarrow> sched_inv interval (t, init_collector interval)"
  by (simp add: sched_inv_def init_collector_def)

lemma sched_inv_penalty:
  "sched_inv interval (now, c) \<Longrightarrow> now \<le> t \<Longrightarrow> sched_inv interval (t, snd (penalty_seconds_unlocked u c))"
  by (auto simp: sched_inv_def penalty_seconds_unlocked_def)

lemma snd_get_status:
  "snd (get_status t1 t2 t3 en c) = snd (penalty_seconds_unlocked t3 (snd (penalty_seconds_unlocked t2 c)))"
  by (simp add: get_status_def case_prod_beta Let_def)

lemma sched_inv_success:
  "sched_inv interval (now, c) \<Longrightarrow> now \<le> t1 \<Longrightarrow> t1 \<le> t2 \<Longrightarrow> sched_inv interval (t2, record_success t1 t2 c)"
  by (auto simp: sched_inv_def record_success_def Let_def frames)

lemma sched_inv_skip:
  "sched_inv interval (now, c) \<Longrightarrow> now \<le> t \<Longrightarrow> sched_inv interval (t, record_skip t c)"
  by (auto simp: sched_inv_def record_skip_def)

lemma sched_inv_failure:
  assumes "sched_inv interval (now, c)" "now \<le> t1" "t1 \<le> t2" "t2 \<le> t3" "t3 \<le> t4"
  shows "sched_inv interval (t4, record_failure t1 t2 t3 t4 c)"
proof -
  define c1 where "c1 = c\<lparr>poll_success := False, consecutive_failures := Suc (consecutive_failures c),
                 last_failure_time := t1, last_poll := t2\<rparr>"
  have "sched_inv interval (t2, c1)" using assms by (auto simp: sched_inv_def c1_def)
  from sched_inv_penalty [OF this, of t3 t3]
  have "sched_inv interval (t3, snd (penalty_seconds_unlocked t3 c1))" using assms by simp
  from sched_inv_penalty [OF this, of t4 t4]
  have "sched_inv interval (t4, snd (penalty_seconds_unlocked t4 (snd (penalty_seconds_unlocked t3 c1))))"
    using assms by simp
  then show ?thesis by (simp add: record_failure_def c1_def Let_def)
qed

lemma sched_step_inv: "sched_step s s' \<Longrightarrow> sched_inv interval s \<Longrightarrow> sched_inv interval s'"
proof (induction rule: sched_step.induct)
  case (ask now t1 t2 c)
  then show ?case using sched_inv_penalty [of interval now c t2 t2] by simp
next
  case (status now t1 t2 t3 c en)
  then have "sched_inv interval (t2, snd (penalty_seconds_unlocked t2 c))"
    using sched_inv_penalty [of interval now c t2 t2] by simp
  from sched_inv_penalty [OF this, of t3 t3] status show ?case by (simp add: snd_get_status)
qed (auto intro: sched_inv_success sched_inv_skip sched_inv_failure)

lemma sched_reachable_inv: "sched_reachable interval s \<Longrightarrow> sched_inv interval s"
  by (induction rule: sched_reachable.induct) (auto intro: sched_inv_init sched_step_inv)

section \<open>Runs of failures\<close>

fun fail_run :: "rat list \<Rightarrow> collector \<Rightarrow> collector" where
  "fail_run [] c = c"
| "fail_run (t # ts) c = fail_run ts (record_failure t t t t c)"

lemma record_failure_at:
  "record_failure t t t t c = c\<lparr>poll_success := False, consecutive_failures := Suc (consecutive_failures c),
     last_failure_time := t, last_poll := t\<rparr>"
  by (simp add: record_failure_def Let_def penalty_recent recent_def)

lemma fail_run_state:
  "consecutive_failures (fail_run ts c) = consecutive_failures c + length ts"
  "poll_interval_seconds (fail_run ts c) = poll_interval_seconds c"
  by (induction ts arbitrary: c) (simp_all add: record_failure_at)

lemma fail_run_last:
  "ts \<noteq> [] \<Longrightarrow> last_failure_time (fail_run ts c) = last ts \<and> last_poll (fail_run ts c) = last ts"
proof (induction ts arbitrary: c)
  case (Cons t ts)
  then show ?case by (cases "ts = []") (simp_all add: record_failure_at)
qed simp

text \<open>
  Exponential backoff.  After n + 1 failures in a row (whatever the times between them)
  the effective interval, read within a day of the last one, is the poll interval plus
  30 seconds doubled n times, and never more than an hour.  A recorded success drops it back
  to the plain interval.
\<close>

theorem backoff_doubles_to_cap:
  assumes "consecutive_failures c = 0" and "ts \<noteq> []" and "recent (last ts) t"
  shows "fst (effective_interval_unlocked t (fail_run ts c)) =
           poll_interval_seconds c + min (30 * 2 ^ (length ts - 1)) 3600
    \<and> fst (effective_interval_unlocked t' (record_success t1 t2 (fail_run ts c))) = poll_interval_seconds c"
proof (rule conjI)
  have "0 < consecutive_failures (fail_run ts c)" "recent (last_failure_time (fail_run ts c)) t"
    using assms by (simp_all add: fail_run_state fail_run_last)
  then show "fst (effective_interval_unlocked t (fail_run ts c)) =
      poll_interval_seconds c + min (30 * 2 ^ (length ts - 1)) 3600"
    using assms(1) by (simp add: penalty_recent fail_run_state MAX_PENALTY_SECONDS_def)
  show "fst (effective_interval_unlocked t' (record_success t1 t2 (fail_run ts c))) = poll_interval_seconds c"
    by (simp add: record_success_def Let_def no_penalty frames fail_run_state)
qed

theorem backoff_doubles_to_cap_witness:
  "fst (effective_interval_unlocked 100 (fail_run [10, 20, 30] (init_collector 900))) = 1020
   \<and> fst (effective_interval_unlocked 100 (record_success 40 41 (fail_run [10, 20, 30] (init_collector 900)))) = 900"
  using backoff_doubles_to_cap [of "init_collector 900" "[10, 20, 30]" 100 100 40 41]
  by (simp add: init_collector_def recent_def)

text \<open>
  In every state the scheduling operations can reach under a clock that never goes back:
  the last success is no later than the last poll, a failure time is stored exactly while
  failures are counted, a collector that shows a good last poll has no failures counted, and
  the penalty any reading computes lies between zero and one hour.
\<close>

theorem schedule_invariant:
  assumes "sched_reachable interval (now, c)"
  shows "last_success c \<le> last_poll c \<and> last_poll c \<le> now
    \<and> (consecutive_failures c = 0 \<longleftrightarrow> last_failure_time c = 0)
    \<and> (poll_success c \<longrightarrow> consecutive_failures c = 0)
    \<and> 0 \<le> fst (penalty_seconds_unlocked t c) \<and> fst (penalty_seconds_unlocked t c) \<le> MAX_PENALTY_SECONDS"
  using sched_reachable_inv [OF assms] penalty_bounds [of t c] by (auto simp: sched_inv_def)

theorem schedule_invariant_witness:
  "last_success (record_failure 2 2 2 2 (init_collector 900)) \<le> last_poll (record_failure 2 2 2 2 (init_collector 900))
   \<and> last_failure_time (record_failure 2 2 2 2 (init_collector 900)) = 2"
proof -
  have "sched_reachable 900 (2, record_failure 2 2 2 2 (init_collector 900))"
    by (rule sched_reachable.step [OF sched_reachable.init [of 1]]) (auto intro: sched_step.failure)
  from schedule_invariant [OF this] show ?thesis by (simp add: record_failure_at)
qed

text \<open>
  Polling cadence.  For clock readings at most a factor of two apart (as epoch seconds
  are) float subtraction is exact, and a collector whose last poll succeeded at t0 is due at
  t exactly when the poll interval has elapsed.
\<close>

theorem due_after_success_iff:
  assumes "is_f64 t0" and "is_f64 t" and "t0 \<le> t" and "t \<le> 2 * t0"
  shows "fst (should_poll t t' (record_success t1 t0 c)) \<longleftrightarrow> of_int (poll_interval_seconds c) \<le> t - t0"
proof -
  have "fl (t - t0) = t - t0" using assms by (intro fl_diff_exact) auto
  then show ?thesis by (simp add: fst_should_poll record_success_def Let_def no_penalty frames)
qed

theorem due_after_success_iff_witness:
  "\<not> fst (should_poll 1899 1899 (record_success 1000 1000 (init_collector 900)))
   \<and> fst (should_poll 1900 1900 (record_success 1000 1000 (init_collector 900)))"
  using due_after_success_iff [of 1000 1899 1899 1000 "init_collector 900"]
    due_after_success_iff [of 1000 1900 1900 1000 "init_collector 900"]
  by (simp add: init_collector_def)

text \<open>
  Recovery.  A full day after its last failure a collector forgets every failure the
  next time its penalty is computed, however many there were, so one whose interval is at
  most a day is due.
\<close>

theorem idle_day_makes_due:
  assumes "0 < last_failure_time c" and "86400 \<le> t - last_failure_time c"
    and "last_poll c = last_failure_time c" and "poll_interval_seconds c \<le> 86400"
  shows "fst (should_poll t t c) \<and> consecutive_failures (snd (should_poll t t c)) = 0"
proof -
  have "(of_int (poll_interval_seconds c) :: rat) \<le> 86400" using assms(4) by linarith
  also have "\<dots> \<le> fl (t - last_poll c)" using assms by (intro fl_ge_exact) auto
  finally show ?thesis using penalty_idle_day [OF assms(1,2)] by (simp add: fst_should_poll)
qed

theorem idle_day_makes_due_witness:
  "fst (should_poll 100000 100000 (fail_run [1, 2, 3, 4] (init_collector 900)))"
  using idle_day_makes_due [of "fail_run [1, 2, 3, 4] (init_collector 900)" 100000]
  by (simp add: record_failure_at init_collector_def)

text \<open>
  Starts keep their distance.  Whatever ticks, completions, skipped runs and disabled
  periods the main loop goes through, every run it submits starts at least the configured
  interval (as the float subtraction measures it) after the last recorded poll of the
  collector at that moment.
\<close>

theorem starts_spaced:
  assumes "(l, t) \<in> set (snd (orch_run due_at settle_at last_poll es (busy, c)))"
  shows "of_int (poll_interval_seconds c) \<le> fl (t - l)"
  using assms by (rule sched.starts_apart)

theorem starts_spaced_witness:
  "(0, 1000) \<in> set (snd (orch_run due_at settle_at last_poll
      [Tick False 950, Tick True 1000, Tick True 1001, Finished 1002 Run_Success, Tick True 1003]
      (False, init_collector 900)))
    \<and> (900::rat) \<le> fl (1000 - 0)"
proof -
  have *: "(0, 1000) \<in> set (snd (orch_run due_at settle_at last_poll
      [Tick False 950, Tick True 1000, Tick True 1001, Finished 1002 Run_Success, Tick True 1003]
      (False, init_collector 900)))"
    by (simp add: due_at_def should_poll_def init_collector_def schedule_defs Let_def)
  from starts_spaced [OF this] * show ?thesis by (simp add: init_collector_def)
qed

end
