(* ===== verification/Login_Limiter.thy ===== *)
theory Login_Limiter
  imports Py_Values
begin

text \<open>
  \<^verbatim>\<open>LoginRateLimiter\<close> of \<^verbatim>\<open>app/runtime.py\<close>: the login failures of each client address, kept as
  an insertion-ordered dictionary of time stamps, bounded in age by the window and in number
  by \<^verbatim>\<open>max_tracked_ips\<close>.  Every method holds the lock, so each is one operation; a clock
  reading is a finite float and differences of readings are rounded.
\<close>

record limiter =
  max_attempts :: nat
  window :: rat
  lockout_base :: rat
  max_tracked_ips :: nat
  attempts :: "(string \<times> rat list) list"

definition init_limiter :: limiter where
  "init_limiter = \<lparr>max_attempts = 5, window = 900, lockout_base = 30, max_tracked_ips = 2048, attempts = []\<rparr>"

definition fresh_stamps :: "rat \<Rightarrow> rat \<Rightarrow> rat list \<Rightarrow> rat list" where
  "fresh_stamps w now xs = filter (\<lambda>stamp. fl (now - stamp) < w) xs"

definition prune_stamps :: "rat \<Rightarrow> rat \<Rightarrow> (string \<times> rat list) list \<Rightarrow> (string \<times> rat list) list" where
  "prune_stamps w now d =
     filter (\<lambda>(ip, xs). xs \<noteq> []) (map (\<lambda>(ip, xs). (ip, fresh_stamps w now xs)) d)"

definition newest :: "(string \<times> rat list) list \<Rightarrow> string \<Rightarrow> rat" where
  "newest d ip = (case map_of d ip of Some xs \<Rightarrow> if xs = [] then 0 else last xs | None \<Rightarrow> 0)"

definition evict :: "nat \<Rightarrow> (string \<times> rat list) list \<Rightarrow> (string \<times> rat list) list" where
  "evict cap d =
     (if cap < length d
      then let oldest = sort_key (newest d) (dict_keys d);
               victims = set (take (length d - cap) oldest)
           in filter (\<lambda>(ip, xs). ip \<notin> victims) d
      else d)"

definition prune_locked :: "rat \<Rightarrow> limiter \<Rightarrow> limiter" where
  "prune_locked now l =
     l\<lparr>attempts := evict (max_tracked_ips l) (prune_stamps (window l) now (attempts l))\<rparr>"

definition retry_after :: "rat \<Rightarrow> string \<Rightarrow> limiter \<Rightarrow> rat \<times> limiter" where
  "retry_after now ip l =
     (let l' = prune_locked now l; xs = dict_get (attempts l') ip [] in
      if length xs < max_attempts l' then (0, l')
      else let excess = length xs - max_attempts l';
               lockout = fl (lockout_base l' * 2 ^ min excess 8)
           in (max 0 (fl (lockout - fl (now - last xs))), l'))"

definition record_login_failure :: "rat \<Rightarrow> string \<Rightarrow> limiter \<Rightarrow> limiter" where
  "record_login_failure now ip l =
     (let l1 = prune_locked now l;
          l2 = l1\<lparr>attempts := dict_set ip (dict_get (attempts l1) ip [] @ [now]) (attempts l1)\<rparr>
      in prune_locked now l2)"

definition reset_login :: "string \<Rightarrow> limiter \<Rightarrow> limiter" where
  "reset_login ip l = l\<lparr>attempts := filter (\<lambda>(k, xs). k \<noteq> ip) (attempts l)\<rparr>"

section \<open>What pruning keeps\<close>

lemma keys_prune_stamps: "dict_keys (prune_stamps w now d) = map fst (filter (\<lambda>(ip, xs). fresh_stamps w now xs \<noteq> []) d)"
  by (induction d) (auto simp: prune_stamps_def)

lemma distinct_prune_stamps: "distinct (dict_keys d) \<Longrightarrow> distinct (dict_keys (prune_stamps w now d))"
  unfolding keys_prune_stamps by (rule distinct_map_filter)

lemma map_of_prune_stamps:
  "distinct (dict_keys d) \<Longrightarrow> map_of (prune_stamps w now d) ip =
     (case map_of d ip of None \<Rightarrow> None
      | Some xs \<Rightarrow> if fresh_stamps w now xs = [] then None else Some (fresh_stamps w now xs))"
proof (induction d)
  case (Cons a d)
  have "map_of d (fst a) = None" using Cons.prems by (auto simp: map_of_eq_None_iff)
  moreover have "map_of (prune_stamps w now (a # d)) ip =
      (if fst a = ip \<and> fresh_stamps w now (snd a) \<noteq> [] then Some (fresh_stamps w now (snd a))
       else map_of (prune_stamps w now d) ip)"
    by (cases a) (auto simp: prune_stamps_def)
  ultimately show ?case using Cons by (cases a) (auto split: option.splits)
qed (simp add: prune_stamps_def)

lemma nonempty_prune_stamps: "(ip, xs) \<in> set (prune_stamps w now d) \<Longrightarrow> xs \<noteq> []"
  by (auto simp: prune_stamps_def)

lemma evict_subset: "set (evict cap d) \<subseteq> set d"
  by (auto simp: evict_def Let_def)

lemma distinct_evict: "distinct (dict_keys d) \<Longrightarrow> distinct (dict_keys (evict cap d))"
  by (auto simp: evict_def Let_def intro: distinct_map_filter)

lemma map_of_evict:
  "distinct (dict_keys d) \<Longrightarrow> map_of (evict cap d) ip = Some xs \<Longrightarrow> map_of d ip = Some xs"
  using evict_subset [of cap d] distinct_evict [of d cap]
  by (auto dest: map_of_SomeD intro: map_of_is_SomeI)

text \<open>Eviction leaves exactly the permitted number of addresses.\<close>

lemma length_filter_keys:
  assumes "distinct (dict_keys d)" and "V \<subseteq> set (dict_keys d)"
  shows "length (filter (\<lambda>(ip, xs). ip \<notin> V) d) = length d - card V"
proof -
  have "length (filter (\<lambda>(ip, xs). ip \<notin> V) d) = length (filter (\<lambda>ip. ip \<notin> V) (dict_keys d))"
    by (simp add: filter_map comp_def case_prod_beta')
  also have "\<dots> = card (set (dict_keys d) - V)"
    using distinct_card [of "filter (\<lambda>ip. ip \<notin> V) (dict_keys d)"] assms(1)
    by (simp add: set_diff_eq)
  also have "\<dots> = length d - card V"
    using assms distinct_card [of "dict_keys d"] by (simp add: card_Diff_subset finite_subset)
  finally show ?thesis .
qed

lemma length_evict:
  assumes "distinct (dict_keys d)"
  shows "length (evict cap d) = min cap (length d)"
proof (cases "cap < length d")
  case True
  define ks where "ks = take (length d - cap) (sort_key (newest d) (dict_keys d))"
  have "set ks \<subseteq> set (dict_keys d)" unfolding ks_def by (metis set_sort set_take_subset)
  moreover have "distinct ks" using assms by (simp add: ks_def)
  then have "card (set ks) = length d - cap" by (simp add: distinct_card ks_def)
  ultimately have "length (filter (\<lambda>(ip, xs). ip \<notin> set ks) d) = length d - (length d - cap)"
    using length_filter_keys [OF assms] by simp
  then show ?thesis using True by (simp add: evict_def ks_def Let_def)
qed (simp add: evict_def)

text \<open>The addresses evicted are no newer than the ones that stay.\<close>

lemma sorted_take_le:
  "sorted (map f xs) \<Longrightarrow> x \<in> set (take n xs) \<Longrightarrow> y \<in> set (drop n xs) \<Longrightarrow> f x \<le> f y"
proof -
  assume "sorted (map f xs)" "x \<in> set (take n xs)" "y \<in> set (drop n xs)"
  moreover have "map f xs = map f (take n xs) @ map f (drop n xs)"
    by (metis append_take_drop_id map_append)
  ultimately show ?thesis by (auto simp: sorted_append)
qed

lemma evicted_oldest:
  assumes "x \<in> set (dict_keys d)" "x \<notin> set (dict_keys (evict cap d))" "y \<in> set (dict_keys (evict cap d))"
  shows "newest d x \<le> newest d y"
proof -
  define ks where "ks = sort_key (newest d) (dict_keys d)"
  define n where "n = length d - cap"
  have big: "cap < length d" using assms by (auto simp: evict_def split: if_splits)
  then have ev: "evict cap d = filter (\<lambda>(ip, xs). ip \<notin> set (take n ks)) d"
    by (simp add: evict_def ks_def n_def Let_def)
  have x: "x \<in> set (take n ks)" using assms by (auto simp: ev)
  have "y \<notin> set (take n ks)" "y \<in> set (dict_keys d)" using assms(3) by (auto simp: ev)
  then have "y \<in> set (drop n ks)"
    by (metis Un_iff append_take_drop_id ks_def set_append set_sort)
  then show ?thesis using x sorted_take_le [of "newest d" ks x n y] by (simp add: ks_def)
qed

section \<open>Invariant\<close>

definition limiter_inv :: "limiter \<Rightarrow> bool" where
  "limiter_inv l \<longleftrightarrow> distinct (dict_keys (attempts l)) \<and> length (attempts l) \<le> max_tracked_ips l
     \<and> list_all (\<lambda>(ip, xs). xs \<noteq> []) (attempts l)"

lemma limiter_inv_distinct: "limiter_inv l \<Longrightarrow> distinct (dict_keys (attempts l))"
  by (simp add: limiter_inv_def)

lemma prune_locked_frames [frames, simp]:
  "max_attempts (prune_locked now l) = max_attempts l" "window (prune_locked now l) = window l"
  "lockout_base (prune_locked now l) = lockout_base l" "max_tracked_ips (prune_locked now l) = max_tracked_ips l"
  by (simp_all add: prune_locked_def)

lemma prune_locked_inv:
  "distinct (dict_keys (attempts l)) \<Longrightarrow> limiter_inv (prune_locked now l)"
  unfolding limiter_inv_def list_all_iff
  by (auto simp: prune_locked_def distinct_prune_stamps distinct_evict length_evict
      dest: nonempty_prune_stamps subsetD [OF evict_subset])

datatype limiter_op = Prune rat | Ask rat string | Fail rat string | Reset string

fun limiter_step :: "limiter_op \<Rightarrow> limiter \<Rightarrow> limiter" where
  "limiter_step (Prune now) l = prune_locked now l"
| "limiter_step (Ask now ip) l = snd (retry_after now ip l)"
| "limiter_step (Fail now ip) l = record_login_failure now ip l"
| "limiter_step (Reset ip) l = reset_login ip l"

lemma snd_retry_after [simp]: "snd (retry_after now ip l) = prune_locked now l"
  by (simp add: retry_after_def Let_def)

lemma limiter_step_inv: "limiter_inv l \<Longrightarrow> limiter_inv (limiter_step op l)"
proof (cases op)
  case (Fail now ip)
  assume inv: "limiter_inv l"
  then have "limiter_inv (prune_locked now l)" by (intro prune_locked_inv) (simp add: limiter_inv_def)
  with Fail show ?thesis
    by (simp add: record_login_failure_def Let_def) (intro prune_locked_inv; simp add: limiter_inv_def)
next
  case (Reset ip)
  assume "limiter_inv l"
  with Reset show ?thesis
    using length_filter_le [of "\<lambda>(k, xs). k \<noteq> ip" "attempts l"]
    by (auto simp: reset_login_def limiter_inv_def list_all_iff intro: distinct_map_filter
        elim: order_trans [rotated])
qed (simp_all add: prune_locked_inv limiter_inv_distinct)

lemma limiter_step_cap: "max_tracked_ips (limiter_step op l) = max_tracked_ips l"
  by (cases op) (simp_all add: record_login_failure_def reset_login_def Let_def)

lemma limiter_run_inv:
  "limiter_inv l \<Longrightarrow> limiter_inv (fold limiter_step ops l) \<and> max_tracked_ips (fold limiter_step ops l) = max_tracked_ips l"
  by (induction ops arbitrary: l) (simp_all add: limiter_step_inv limiter_step_cap)

text \<open>
  Bounded tracking.  Whatever sequence of prunes, queries, failures and resets a
  limiter goes through, it never holds more than \<^verbatim>\<open>max_tracked_ips\<close> addresses, each once and
  each with at least one failure.
\<close>

theorem limiter_bounded:
  assumes "limiter_inv l"
  shows "length (attempts (fold limiter_step ops l)) \<le> max_tracked_ips l
    \<and> distinct (dict_keys (attempts (fold limiter_step ops l)))
    \<and> (\<forall>(ip, xs) \<in> set (attempts (fold limiter_step ops l)). xs \<noteq> [])"
  using limiter_run_inv [OF assms, of ops] by (auto simp: limiter_inv_def list_all_iff)

theorem limiter_bounded_witness:
  "length (attempts (fold limiter_step [Fail 1 ''a'', Fail 2 ''b'', Reset ''a''] init_limiter)) \<le> 2048"
  using limiter_bounded [of init_limiter "[Fail 1 ''a'', Fail 2 ''b'', Reset ''a'']"]
  by (simp add: init_limiter_def limiter_inv_def)

section \<open>Lockouts\<close>

lemma attempts_pruned:
  assumes "distinct (dict_keys (attempts l))"
    and "map_of (attempts (prune_locked now l)) ip = Some xs"
  obtains ys where "map_of (attempts l) ip = Some ys" "xs = fresh_stamps (window l) now ys" "xs \<noteq> []"
proof -
  have "map_of (prune_stamps (window l) now (attempts l)) ip = Some xs"
    using map_of_evict [OF distinct_prune_stamps] assms by (simp add: prune_locked_def)
  then show ?thesis using that assms(1)
    by (auto simp: map_of_prune_stamps split: option.splits if_splits)
qed

text \<open>
  An address that is told to wait has a failure younger than the window: although the
  nominal lockout doubles up to 2 ^ 8 times its base (7680 seconds by default), pruning
  forgets every failure after the window (900 seconds), so no lockout outlives the window.
\<close>

theorem lockout_within_window:
  assumes "limiter_inv l" and "0 < max_attempts l" and "0 < fst (retry_after now ip l)"
  shows "\<exists>xs. map_of (attempts l) ip = Some xs \<and>
    (\<exists>stamp \<in> set xs. fl (now - stamp) < window l)
    \<and> max_attempts l \<le> length (fresh_stamps (window l) now xs)"
proof -
  define d where "d = attempts (prune_locked now l)"
  have "max_attempts l \<le> length (dict_get d ip [])"
    using assms(3) by (auto simp: retry_after_def d_def Let_def split: if_splits)
  with assms(2) obtain xs where xs: "map_of d ip = Some xs" "max_attempts l \<le> length xs"
    by (auto simp: dict_get_def split: option.splits)
  obtain ys where ys: "map_of (attempts l) ip = Some ys" "xs = fresh_stamps (window l) now ys" "xs \<noteq> []"
    using attempts_pruned [of l now ip xs] xs assms(1) by (auto simp: d_def limiter_inv_def)
  then have "\<exists>stamp \<in> set ys. fl (now - stamp) < window l"
    by (auto simp: fresh_stamps_def filter_empty_conv)
  with ys xs show ?thesis by auto
qed

text \<open>How many other addresses are tracked; with room for one more, nobody is evicted.\<close>

definition others :: "string \<Rightarrow> limiter \<Rightarrow> nat" where
  "others ip l = length (filter (\<lambda>k. k \<noteq> ip) (dict_keys (attempts l)))"

lemma evict_small: "length d \<le> cap \<Longrightarrow> evict cap d = d"
  by (simp add: evict_def)

lemma length_prune_stamps: "length (prune_stamps w now d) \<le> length d"
  unfolding prune_stamps_def by (metis length_filter_le length_map)

lemma length_but_one: "distinct (dict_keys d) \<Longrightarrow> length d \<le> Suc (length (filter (\<lambda>k. k \<noteq> ip) (dict_keys d)))"
proof (induction d)
  case (Cons e d)
  have "filter (\<lambda>k. k \<noteq> ip) (dict_keys d) = dict_keys d" if "fst e = ip"
    using that Cons.prems by (auto simp: filter_id_conv image_iff)
  with Cons show ?case by auto
qed simp

lemma dict_set_subset: "set (dict_set k v d) \<subseteq> insert (k, v) (set d)"
  by (induction k v d rule: dict_set.induct) (auto split: if_splits)

lemma other_keys_dict_set [simp]:
  "filter (\<lambda>k. k \<noteq> ip) (dict_keys (dict_set ip v d)) = filter (\<lambda>k. k \<noteq> ip) (dict_keys d)"
  by (induction ip v d rule: dict_set.induct) auto

lemma other_keys_filter:
  "length (filter P (dict_keys (filter Q d))) \<le> length (filter P (dict_keys d))"
  by (induction d) auto

lemma others_prune_stamps:
  "length (filter P (dict_keys (prune_stamps w now d))) \<le> length (filter P (dict_keys d))"
  by (induction d) (auto simp: prune_stamps_def)

lemma others_prune: "others ip (prune_locked now l) \<le> others ip l"
  using other_keys_filter [of "\<lambda>k. k \<noteq> ip"] others_prune_stamps [of "\<lambda>k. k \<noteq> ip" "window l" now "attempts l"]
  by (auto simp: others_def prune_locked_def evict_def Let_def intro: order_trans)

lemma others_record: "others ip (record_login_failure now ip l) \<le> others ip l"
  using others_prune [of ip now l] others_prune [of ip now
      "(prune_locked now l)\<lparr>attempts := dict_set ip (dict_get (attempts (prune_locked now l)) ip [] @ [now]) (attempts (prune_locked now l))\<rparr>"]
  by (simp add: record_login_failure_def Let_def) (simp add: others_def)

lemma fresh_idem: "fresh_stamps w now (fresh_stamps w now xs) = fresh_stamps w now xs"
  by (simp add: fresh_stamps_def)

lemma pruned_stamps:
  assumes "limiter_inv l"
  shows "attempts (prune_locked now l) = prune_stamps (window l) now (attempts l)"
    and "dict_get (attempts (prune_locked now l)) k [] = fresh_stamps (window l) now (dict_get (attempts l) k [])"
proof -
  show eq: "attempts (prune_locked now l) = prune_stamps (window l) now (attempts l)"
    using assms length_prune_stamps [of "window l" now "attempts l"]
    by (simp add: prune_locked_def limiter_inv_def evict_small)
  show "dict_get (attempts (prune_locked now l)) k [] = fresh_stamps (window l) now (dict_get (attempts l) k [])"
    using assms unfolding eq by (auto simp: limiter_inv_def dict_get_def map_of_prune_stamps fresh_stamps_def split: option.splits)
qed

text \<open>With room, a failure of one address only adds a stamp to that address.\<close>

lemma record_failure_buckets:
  assumes inv: "limiter_inv l" and room: "Suc (others ip l) \<le> max_tracked_ips l" and w: "0 < window l"
  shows "dict_get (attempts (record_login_failure now ip l)) ip' [] =
     (if ip' = ip then fresh_stamps (window l) now (dict_get (attempts l) ip []) @ [now]
      else fresh_stamps (window l) now (dict_get (attempts l) ip' []))"
proof -
  define d1 where "d1 = prune_stamps (window l) now (attempts l)"
  define d2 where "d2 = dict_set ip (dict_get d1 ip [] @ [now]) d1"
  define l2 where "l2 = (prune_locked now l)\<lparr>attempts := d2\<rparr>"
  have p1: "attempts (prune_locked now l) = d1" using pruned_stamps(1) [OF inv] by (simp add: d1_def)
  have g1: "dict_get d1 k [] = fresh_stamps (window l) now (dict_get (attempts l) k [])" for k
    using pruned_stamps(2) [OF inv] by (simp add: p1 [symmetric])
  have dist: "distinct (dict_keys d2)"
    using inv by (simp add: limiter_inv_def d2_def d1_def distinct_prune_stamps)
  have "length (filter (\<lambda>k. k \<noteq> ip) (dict_keys d2)) \<le> others ip l"
    using others_prune_stamps [of "\<lambda>k. k \<noteq> ip" "window l" now "attempts l"] by (simp add: d2_def d1_def others_def)
  then have "length d2 \<le> max_tracked_ips l" using length_but_one [OF dist, of ip] room by linarith
  moreover have "xs \<noteq> []" if "(k, xs) \<in> set d2" for k xs
  proof -
    have "(k, xs) \<in> insert (ip, dict_get d1 ip [] @ [now]) (set d1)"
      using that dict_set_subset unfolding d2_def by fast
    then show ?thesis using nonempty_prune_stamps [of k xs "window l" now "attempts l"] by (auto simp: d1_def)
  qed
  ultimately have inv2: "limiter_inv l2" using dist by (auto simp: limiter_inv_def l2_def list_all_iff)
  have res: "record_login_failure now ip l = prune_locked now l2"
    by (simp add: record_login_failure_def Let_def p1 l2_def d2_def)
  have g2: "dict_get (attempts l2) k [] = (if k = ip then dict_get d1 ip [] @ [now] else dict_get d1 k [])" for k
    by (simp add: l2_def d2_def dict_get_def)
  have now: "fresh_stamps (window l) now [now] = [now]" using w by (simp add: fresh_stamps_def)
  have ap: "fresh_stamps (window l) now (xs @ ys) = fresh_stamps (window l) now xs @ fresh_stamps (window l) now ys" for xs ys
    by (simp add: fresh_stamps_def)
  show ?thesis
    unfolding res pruned_stamps(2) [OF inv2] g2 g1 by (simp add: l2_def ap now fresh_idem)
qed

text \<open>What a limiter with the default settings knows of one address, with room for it.\<close>

definition tracks_ip :: "string \<Rightarrow> rat list \<Rightarrow> limiter \<Rightarrow> bool" where
  "tracks_ip ip xs l \<longleftrightarrow> limiter_inv l \<and> window l = 900 \<and> max_attempts l = 5 \<and> lockout_base l = 30
     \<and> Suc (others ip l) \<le> max_tracked_ips l \<and> dict_get (attempts l) ip [] = xs"

definition all_recent :: "rat \<Rightarrow> rat list \<Rightarrow> bool" where
  "all_recent now xs \<longleftrightarrow> list_all (\<lambda>x. now - x \<le> 899) xs"

lemma all_recent_fresh: "all_recent now xs \<Longrightarrow> fresh_stamps 900 now xs = xs"
proof -
  have "fl (now - x) < 900" if "now - x \<le> 899" for x
    using fl_mono [OF that] by simp
  then show "all_recent now xs \<Longrightarrow> fresh_stamps 900 now xs = xs"
    by (auto simp: all_recent_def fresh_stamps_def filter_id_conv list_all_iff)
qed

lemma tracks_ip_init: "tracks_ip ip [] init_limiter"
  by (simp add: tracks_ip_def init_limiter_def limiter_inv_def others_def dict_get_def)

lemma tracks_ip_prune: "tracks_ip ip xs l \<Longrightarrow> all_recent now xs \<Longrightarrow> tracks_ip ip xs (prune_locked now l)"
  using others_prune [of ip now l] prune_locked_inv [OF limiter_inv_distinct, of l now]
  by (auto simp: tracks_ip_def pruned_stamps(2) all_recent_fresh)

lemma tracks_ip_failure: "tracks_ip ip xs l \<Longrightarrow> all_recent now xs \<Longrightarrow> tracks_ip ip (xs @ [now]) (record_login_failure now ip l)"
  using others_record [of ip now l] limiter_step_inv [of l "Fail now ip"] limiter_step_cap [of "Fail now ip" l]
  by (auto simp: tracks_ip_def record_failure_buckets all_recent_fresh) (simp_all add: record_login_failure_def Let_def)

lemma retry_tracked:
  assumes "tracks_ip ip xs l" "all_recent now xs"
  shows "retry_after now ip l = (if length xs < 5 then 0
    else max 0 (fl (fl (30 * 2 ^ min (length xs - 5) 8) - fl (now - last xs))), prune_locked now l)"
proof -
  have "dict_get (attempts (prune_locked now l)) ip [] = xs" using tracks_ip_prune [OF assms] by (simp add: tracks_ip_def)
  with assms(1) show ?thesis by (simp add: retry_after_def Let_def tracks_ip_def)
qed

lemma fifth_failure_waits:
  assumes "tracks_ip ip xs l" "all_recent now xs" "length xs = 5" "now - last xs \<le> 29"
  shows "0 < fst (retry_after now ip l)"
proof -
  have "fl (now - last xs) \<le> 29" using fl_mono [OF assms(4)] by simp
  then have "fl 1 \<le> fl (30 - fl (now - last xs))" by (intro fl_mono) simp
  then show ?thesis using retry_tracked [OF assms(1,2)] assms(3) by simp
qed

text \<open>Repeated failures at one moment.\<close>

fun fail_many :: "nat \<Rightarrow> rat \<Rightarrow> string \<Rightarrow> limiter \<Rightarrow> limiter" where
  "fail_many 0 now ip l = l"
| "fail_many (Suc n) now ip l = record_login_failure now ip (fail_many n now ip l)"

lemma fresh_replicate: "0 < w \<Longrightarrow> fresh_stamps w now (replicate n now) = replicate n now"
  by (simp add: fresh_stamps_def)

lemma fail_many_state:
  "attempts (fail_many n now ip init_limiter) = (if n = 0 then [] else [(ip, replicate n now)])
   \<and> window (fail_many n now ip init_limiter) = 900 \<and> max_attempts (fail_many n now ip init_limiter) = 5
   \<and> lockout_base (fail_many n now ip init_limiter) = 30 \<and> max_tracked_ips (fail_many n now ip init_limiter) = 2048"
proof (induction n)
  case (Suc n)
  have r: "replicate n now @ [now] = now # replicate n now"
    by (metis replicate_Suc replicate_append_same)
  have f: "fresh_stamps 900 now (now # replicate n now) = now # replicate n now"
    using fresh_replicate [of 900 now "Suc n"] by simp
  show ?case using Suc fresh_replicate [of 900 now n]
    by (cases "n = 0") (simp_all add: record_login_failure_def prune_locked_def prune_stamps_def
        Let_def evict_small dict_get_def r f fresh_stamps_def [of 900 now "[now]"])
qed (simp add: init_limiter_def)

lemma lockout_value:
  assumes "is_f64 t0" "is_f64 t" "t0 \<le> t" "t \<le> 2 * t0" "t - t0 < 900" "0 < n" "other \<noteq> ip"
  shows "fst (retry_after t ip (fail_many n t0 ip init_limiter)) =
           (if n < 5 then 0 else max 0 (fl (30 * 2 ^ min (n - 5) 8 - (t - t0))))
    \<and> fst (retry_after t other (fail_many n t0 ip init_limiter)) = 0"
proof -
  have d: "fl (t - t0) = t - t0" using assms by (intro fl_diff_exact) auto
  then have f: "fresh_stamps 900 t (replicate n t0) = replicate n t0"
    using assms(5) by (simp add: fresh_stamps_def)
  define l where "l = fail_many n t0 ip init_limiter"
  have st: "attempts l = [(ip, replicate n t0)]" "window l = 900" "max_attempts l = 5"
      "lockout_base l = 30" "max_tracked_ips l = 2048"
    using fail_many_state [of n t0 ip] assms(6) by (simp_all add: l_def)
  have pr: "attempts (prune_locked t l) = [(ip, replicate n t0)]"
    using assms(6) by (simp add: prune_locked_def st prune_stamps_def f evict_small)
  have k: "fl (30 * 2 ^ min (n - 5) 8) = 30 * 2 ^ min (n - 5) 8"
  proof -
    have "(2::int) ^ min (n - 5) 8 \<le> 2 ^ 8" by (rule power_increasing) auto
    then show ?thesis using fl_of_int [of "30 * 2 ^ min (n - 5) 8"] by simp
  qed
  show ?thesis using assms(6,7)
    by (auto simp: retry_after_def Let_def l_def [symmetric] pr st dict_get_def d k)
qed

text \<open>
  The lockout.  After n failures of one address at a time t0 a query less than a window
  later answers zero below five failures, and from the fifth on what is left of 30 seconds
  doubled once per further failure, at most eight times; another address is not delayed.
\<close>

theorem lockout_doubles:
  assumes "is_f64 t0" "is_f64 t" "t0 \<le> t" "t \<le> 2 * t0" "t - t0 < 900" "0 < n" "other \<noteq> ip"
  shows "fst (retry_after t ip (fail_many n t0 ip init_limiter)) =
           (if n < 5 then 0 else max 0 (fl (30 * 2 ^ min (n - 5) 8 - (t - t0))))
    \<and> fst (retry_after t other (fail_many n t0 ip init_limiter)) = 0"
  using assms by (rule lockout_value)

theorem lockout_doubles_witness:
  "fst (retry_after 1010 ''a'' (fail_many 7 1000 ''a'' init_limiter)) = 110
   \<and> fst (retry_after 1010 ''b'' (fail_many 7 1000 ''a'' init_limiter)) = 0"
  using lockout_doubles [of 1000 1010 7 "''b''" "''a''"] by simp

theorem lockout_within_window_witness:
  "\<exists>xs. map_of (attempts (fail_many 7 1000 ''a'' init_limiter)) ''a'' = Some xs \<and>
    (\<exists>stamp \<in> set xs. fl (1010 - stamp) < 900)"
proof -
  define l where "l = fail_many 7 1000 ''a'' init_limiter"
  have st: "attempts l = [(''a'', replicate 7 1000)]" "window l = 900" "max_attempts l = 5"
      "max_tracked_ips l = 2048"
    using fail_many_state [of 7 1000 "''a''"] by (simp_all add: l_def)
  have "limiter_inv l" "0 < max_attempts l" by (simp_all add: limiter_inv_def st)
  moreover have "0 < fst (retry_after 1010 ''a'' l)"
    using lockout_value [of 1000 1010 7 "''b''" "''a''"] by (simp add: l_def)
  ultimately show ?thesis
    using lockout_within_window [of l 1010 "''a''"] by (auto simp: l_def [symmetric] st(2))
qed

end
