(* ===== verification/Docsis_Utils.thy ===== *)
theory Docsis_Utils
  imports Py_Values
begin

text \<open>
  \<^verbatim>\<open>app/docsis_utils.py\<close>: parsing of modulation labels, the QAM ranking, the channel family
  taxonomy and the choice of a threshold key.  The textual fields of a channel dictionary are
  a map from field names to strings (absent fields and \<^verbatim>\<open>None\<close> are \<open>None\<close>).
\<close>

type_synonym text_fields = "string \<Rightarrow> string option"

datatype family = Sc_Qam | Ofdm | Ofdma | Unknown_Family

fun family_key :: "family \<Rightarrow> string" where
  "family_key Sc_Qam = ''sc_qam''"
| "family_key Ofdm = ''ofdm''"
| "family_key Ofdma = ''ofdma''"
| "family_key Unknown_Family = ''unknown''"

definition QAM_ORDER :: "(string \<times> nat) list" where
  "QAM_ORDER = [(''QPSK'', 1), (''4QAM'', 1), (''8QAM'', 2), (''16QAM'', 3), (''32QAM'', 4),
     (''64QAM'', 5), (''128QAM'', 6), (''256QAM'', 7), (''512QAM'', 8), (''1024QAM'', 9),
     (''2048QAM'', 10), (''4096QAM'', 11)]"

definition MODULATION_THRESHOLD_ALIASES :: "(string \<times> string) list" where
  "MODULATION_THRESHOLD_ALIASES = [(''OFDM'', ''4096QAM''), (''OFDMA'', ''4096QAM'')]"

text \<open>\<^verbatim>\<open>x or y\<close> on optional strings: an empty string is as good as a missing one.\<close>

definition or_text :: "string option \<Rightarrow> string option \<Rightarrow> string option" where
  "or_text a b = (case a of Some (c # cs) \<Rightarrow> a | _ \<Rightarrow> b)"

definition text_of :: "string option \<Rightarrow> string" where
  "text_of a = (case a of None \<Rightarrow> [] | Some s \<Rightarrow> s)"

definition squash :: "string \<Rightarrow> string" where
  [py_text]: "squash s = py_remove CHR ''_'' (py_remove CHR ''-'' (py_upper s))"

definition compact_text :: "string option list \<Rightarrow> string" where
  "compact_text vs = squash (py_join '' '' (map text_of (filter (\<lambda>v. v \<notin> {None, Some []}) vs)))"

definition direction_key :: "string \<Rightarrow> string res" where
  "direction_key direction =
     (let value = py_lower (py_strip direction) in
      if value \<in> {''ds'', ''downstream''} then Inr ''ds''
      else if value \<in> {''us'', ''upstream''} then Inr ''us''
      else Inl (ValueError ''Unsupported DOCSIS direction''))"

section \<open>Modulation labels\<close>

text \<open>The two alternatives of \<^verbatim>\<open>_QAM_RE\<close>, matched against the whole string.\<close>

definition match_order_qam :: "string \<Rightarrow> string option" where
  "match_order_qam s = (let d = takeWhile is_digit s in
     if d \<noteq> [] \<and> dropWhile py_space (dropWhile is_digit s) = ''QAM'' then Some d else None)"

definition match_qam_order :: "string \<Rightarrow> string option" where
  "match_qam_order s = (if py_startswith s ''QAM'' then
     (let d = dropWhile py_space (drop 3 s) in
      if d \<noteq> [] \<and> list_all is_digit d then Some d else None) else None)"

definition parse_qam_order :: "string option \<Rightarrow> nat option" where
  "parse_qam_order modulation =
     (if text_of modulation = [] then None
      else let mo = py_strip (squash (text_of modulation)) in
        if mo = ''QPSK'' then Some 4
        else case match_order_qam mo of Some d \<Rightarrow> Some (digits_val d)
          | None \<Rightarrow> map_option digits_val (match_qam_order mo))"

definition canonical_modulation_label :: "string option \<Rightarrow> string \<times> nat option" where
  "canonical_modulation_label modulation =
     (if text_of modulation = [] then (''Unknown'', None)
      else let raw = py_strip (py_remove CHR ''-'' (py_upper (text_of modulation))) in
        case parse_qam_order modulation of
          Some n \<Rightarrow> (nat_str n @ ''QAM'', Some n)
        | None \<Rightarrow> if raw \<in> {''OFDM'', ''OFDMA''} then (raw, None) else (''Unknown'', None))"

definition qam_rank :: "string option \<Rightarrow> nat" where
  "qam_rank modulation = (case parse_qam_order modulation of None \<Rightarrow> 0
     | Some n \<Rightarrow> dict_get QAM_ORDER (nat_str n @ ''QAM'') 0)"

section \<open>Channel families\<close>

definition docsis31_plus :: "text_fields \<Rightarrow> bool" where
  "docsis31_plus channel = (let v = text_of (channel ''docsis_version'') in py_in ''3.1'' v \<or> py_in ''4.0'' v)"

definition classify_ds :: "text_fields \<Rightarrow> family" where
  "classify_ds channel =
     (let type_text = compact_text [channel ''type'', channel ''channel_type''];
          modulation_text = compact_text [channel ''modulation''];
          profile_text = compact_text [channel ''profile_modulation'', channel ''profileModulation'']
      in if py_in ''OFDM'' type_text \<or> py_in ''OFDMA'' type_text then Ofdm
         else if py_in ''SCQAM'' type_text \<or> type_text = ''QAM'' then Sc_Qam
         else if py_in ''OFDM'' modulation_text \<or> py_in ''OFDMA'' modulation_text then Ofdm
         else case parse_qam_order (Some modulation_text) of
           Some (Suc n) \<Rightarrow> if 1024 \<le> Suc n \<and> docsis31_plus channel then Ofdm else Sc_Qam
         | _ \<Rightarrow>
             if profile_text \<noteq> [] \<and> docsis31_plus channel then Ofdm
             else if parse_qam_order (Some profile_text) \<notin> {None, Some 0} then Sc_Qam
             else if docsis31_plus channel then Ofdm
             else if py_in ''3.0'' (text_of (channel ''docsis_version'')) then Sc_Qam
             else Unknown_Family)"

definition classify_us :: "text_fields \<Rightarrow> family" where
  "classify_us channel =
     (let type_text = compact_text [channel ''type'', channel ''channel_type''];
          multiplex_text = compact_text [channel ''multiplex''];
          modulation_text = compact_text [channel ''modulation''];
          profile_text = compact_text [channel ''profile_modulation'', channel ''profileModulation''];
          joined = type_text @ '' '' @ multiplex_text
      in if py_in ''OFDMA'' type_text \<or> py_in ''OFDMA'' multiplex_text then Ofdma
         else if list_ex (\<lambda>token. py_in token joined) [''ATDMA'', ''SCQAM'', ''TDMA''] then Sc_Qam
         else if py_in ''OFDMA'' modulation_text then Ofdma
         else if profile_text \<noteq> [] \<and> docsis31_plus channel then Ofdma
         else if docsis31_plus channel then Ofdma
         else if parse_qam_order (Some modulation_text) \<notin> {None, Some 0} then Sc_Qam
         else if py_in ''3.0'' (text_of (channel ''docsis_version'')) then Sc_Qam
         else Unknown_Family)"

definition classify_channel_family :: "string \<Rightarrow> text_fields \<Rightarrow> family res" where
  "classify_channel_family direction channel =
     (case direction_key direction of Inl e \<Rightarrow> Inl e
      | Inr d \<Rightarrow> Inr (if d = ''ds'' then classify_ds channel else classify_us channel))"

definition merge_fields :: "text_fields \<Rightarrow> text_fields \<Rightarrow> text_fields" where
  "merge_fields fallback channel k = (case channel k of Some (c # cs) \<Rightarrow> Some (c # cs) | _ \<Rightarrow> fallback k)"

definition channel_type_label :: "string \<Rightarrow> text_fields \<Rightarrow> text_fields \<Rightarrow> string res" where
  "channel_type_label direction channel fallback =
     map_sum id (\<lambda>f. case f of Sc_Qam \<Rightarrow> ''SC-QAM'' | Ofdm \<Rightarrow> ''OFDM'' | Ofdma \<Rightarrow> ''OFDMA'' | Unknown_Family \<Rightarrow> [])
       (classify_channel_family direction (merge_fields fallback channel))"

definition sc_qam_capacity_family :: "string \<Rightarrow> text_fields \<Rightarrow> string res" where
  "sc_qam_capacity_family direction channel =
     map_sum id (\<lambda>f. if f = Sc_Qam then ''sc_qam'' else ''unsupported'') (classify_channel_family direction channel)"

section \<open>Threshold keys\<close>

text \<open>A threshold section: its entries and the value stored under \<^verbatim>\<open>_default\<close>.\<close>

record 'a thr_section =
  sec_entries :: "(string \<times> 'a) list"
  sec_default :: "pyval option"

definition modulation_threshold_key :: "string option \<Rightarrow> 'a thr_section \<Rightarrow> string \<Rightarrow> string" where
  "modulation_threshold_key modulation sec dflt =
     (let value = py_strip (squash (text_of modulation)) in
      if value \<in> set (dict_keys (sec_entries sec)) then value
      else let fallback = (case sec_default sec of Some (PStr (c # cs)) \<Rightarrow> c # cs | _ \<Rightarrow> dflt)
           in dict_get MODULATION_THRESHOLD_ALIASES value fallback)"

section \<open>Facts\<close>

lemma direction_key_cases:
  "direction_key d = Inr ''ds'' \<or> direction_key d = Inr ''us'' \<or> (\<exists>e. direction_key d = Inl (ValueError e))"
  by (simp add: direction_key_def Let_def)

lemma classify_ds_range: "classify_ds ch \<noteq> Ofdma"
  by (simp add: classify_ds_def Let_def split: option.splits nat.splits)

lemma classify_us_range: "classify_us ch \<noteq> Ofdm"
  by (simp add: classify_us_def Let_def)

lemma classify_31_known: "docsis31_plus ch \<Longrightarrow> classify_ds ch \<noteq> Unknown_Family \<and> classify_us ch \<noteq> Unknown_Family"
  by (simp add: classify_ds_def classify_us_def Let_def split: option.splits nat.splits)

lemma py_upper_digits: "list_all is_digit s \<Longrightarrow> py_upper s = s"
  by (induction s) (auto simp: py_upper_def py_upper_char_def is_digit_def Let_def)

lemma py_remove_digits: "list_all is_digit s \<Longrightarrow> \<not> is_digit c \<Longrightarrow> py_remove c s = s"
  by (induction s) (auto simp: py_remove_def)

lemma squash_digits: "list_all is_digit s \<Longrightarrow> squash s = s"
  by (simp add: squash_def py_upper_digits py_remove_digits is_digit_def)

lemma squash_append: "squash (s @ t) = squash s @ squash t"
  by (simp add: squash_def py_upper_def py_remove_def)

lemma not_space_digit: "is_digit c \<Longrightarrow> \<not> py_space c"
  by (auto simp: is_digit_def py_space_def Let_def)

lemma strip_no_space: "s \<noteq> [] \<Longrightarrow> \<not> py_space (hd s) \<Longrightarrow> \<not> py_space (last s) \<Longrightarrow> py_strip s = s"
proof -
  assume s: "s \<noteq> []" "\<not> py_space (hd s)" "\<not> py_space (last s)"
  then have "dropWhile py_space s = s" by (cases s) auto
  moreover have "dropWhile py_space (rev s) = rev s" using s by (cases s rule: rev_cases) auto
  ultimately show ?thesis by (simp add: py_strip_def)
qed

lemma takeWhile_digits: "list_all is_digit s \<Longrightarrow> \<not> is_digit c \<Longrightarrow> takeWhile is_digit (s @ c # t) = s \<and> dropWhile is_digit (s @ c # t) = c # t"
  by (induction s) auto

lemma qam_lit: "squash ''QAM'' = ''QAM''" "squash ''qam_'' = ''QAM''" "squash ''QAM-'' = ''QAM''"
  by code_simp+

lemma qam_chars: "\<not> is_digit CHR ''Q''" "\<not> py_space CHR ''M''" "\<not> py_space CHR ''Q''"
  by code_simp+

lemma parse_order_first: "parse_qam_order (Some (nat_str n @ ''QAM'')) = Some n"
proof -
  have d: "list_all is_digit (nat_str n)" "nat_str n \<noteq> []" using nat_str_digits by auto
  define s where "s = nat_str n @ ''QAM''"
  have sq: "squash s = s" using d by (simp add: s_def squash_append squash_digits qam_lit)
  have "\<not> py_space (hd s)" using d by (cases "nat_str n") (auto simp: s_def not_space_digit)
  then have st: "py_strip s = s" using qam_chars by (intro strip_no_space) (auto simp: s_def)
  have "s \<noteq> ''QPSK''"
    using d arg_cong [of s "''QPSK''" hd] qam_chars(1) by (cases "nat_str n") (auto simp: s_def)
  moreover have "match_order_qam s = Some (nat_str n)"
    using takeWhile_digits [OF d(1) qam_chars(1), of "''AM''"] d(2) qam_chars(3)
    by (simp add: match_order_qam_def s_def)
  ultimately show ?thesis
    using sq st by (simp add: parse_qam_order_def text_of_def digits_val_nat_str s_def [symmetric])
      (simp add: s_def)
qed

lemma parse_order_last:
  assumes "prefix \<in> {''QAM'', ''qam_'', ''QAM-''}"
  shows "parse_qam_order (Some (prefix @ nat_str n)) = Some n"
proof -
  have d: "list_all is_digit (nat_str n)" "nat_str n \<noteq> []" using nat_str_digits by auto
  define s where "s = ''QAM'' @ nat_str n"
  have sq: "squash (prefix @ nat_str n) = s" using d assms by (auto simp: s_def squash_append squash_digits qam_lit)
  have l: "\<not> py_space (last (nat_str n))"
    using d last_in_set [of "nat_str n"] by (auto simp: list_all_iff not_space_digit)
  then have st: "py_strip s = s" using d qam_chars by (intro strip_no_space) (auto simp: s_def)
  have dw: "dropWhile py_space (nat_str n) = nat_str n" using d by (cases "nat_str n") (auto simp: not_space_digit)
  have m: "match_order_qam s = None" "match_qam_order s = Some (nat_str n)"
    using d qam_chars dw by (simp_all add: match_order_qam_def match_qam_order_def s_def)
  have "prefix @ nat_str n \<noteq> []" using d by simp
  moreover have "s \<noteq> ''QPSK''" by (simp add: s_def)
  ultimately show ?thesis
    using sq st m by (simp add: parse_qam_order_def text_of_def digits_val_nat_str)
qed

lemma canonical_of_order:
  "parse_qam_order m = Some n \<Longrightarrow> canonical_modulation_label m = (nat_str n @ ''QAM'', Some n)"
  by (auto simp: canonical_modulation_label_def parse_qam_order_def split: if_splits)

lemma parse_canonical:
  "canonical_modulation_label m = (l, Some n) \<Longrightarrow> parse_qam_order (Some l) = Some n"
  by (auto simp: canonical_modulation_label_def parse_order_first Let_def split: option.splits if_splits)

text \<open>
  QAM labels.  Every spelling the drivers use for an n-QAM modulation (nQAM, QAMn,
  qam_n, QAM-n) parses to n, all of them get the canonical label nQAM with the order n, and
  parsing a canonical label gives back its order.
\<close>

theorem qam_label_round_trip:
  assumes "m = nat_str n @ ''QAM'' \<or> m = ''QAM'' @ nat_str n \<or> m = ''qam_'' @ nat_str n \<or> m = ''QAM-'' @ nat_str n"
  shows "parse_qam_order (Some m) = Some n
    \<and> canonical_modulation_label (Some m) = (nat_str n @ ''QAM'', Some n)
    \<and> parse_qam_order (Some (fst (canonical_modulation_label (Some m)))) = Some n"
proof -
  have p: "parse_qam_order (Some m) = Some n"
    using assms parse_order_first [of n] parse_order_last [of _ n] by blast
  then show ?thesis using canonical_of_order [OF p] parse_order_first [of n] by simp
qed

theorem qam_label_round_trip_witness:
  "parse_qam_order (Some ''qam_256'') = Some 256
   \<and> canonical_modulation_label (Some ''qam_256'') = (''256QAM'', Some 256)"
proof -
  have "nat_str 256 = ''256''" by simp
  then show ?thesis using qam_label_round_trip [of "''qam_256''" 256] by simp
qed

text \<open>The order every classified label has decides the rank; a better order ranks higher.\<close>

definition order_ranks :: "(nat \<times> nat) list" where
  "order_ranks = [(4, 1), (8, 2), (16, 3), (32, 4), (64, 5), (128, 6), (256, 7), (512, 8),
     (1024, 9), (2048, 10), (4096, 11)]"

lemma dict_get_labels:
  "dict_get (map (\<lambda>(m, r). (nat_str m @ t, r)) xs) (nat_str n @ t) d = dict_get xs n d"
  by (induction xs) (auto simp: dict_get_def nat_str_inj)

lemma QAM_ORDER_labels: "QAM_ORDER = (''QPSK'', 1) # map (\<lambda>(m, r). (nat_str m @ ''QAM'', r)) order_ranks"
  by (simp add: QAM_ORDER_def order_ranks_def)

lemma rank_table: "dict_get QAM_ORDER (nat_str n @ ''QAM'') 0 = dict_get order_ranks n 0"
proof -
  have "nat_str n @ ''QAM'' \<noteq> ''QPSK''"
    using nat_str_digits [of n] qam_chars(1) by (cases "nat_str n") auto
  then have "dict_get QAM_ORDER (nat_str n @ ''QAM'') 0
      = dict_get (map (\<lambda>(m, r). (nat_str m @ ''QAM'', r)) order_ranks) (nat_str n @ ''QAM'') 0"
    unfolding QAM_ORDER_labels by (simp add: dict_get_def)
  then show ?thesis by (simp only: dict_get_labels)
qed

lemma rank_power:
  assumes "parse_qam_order a = Some m" and "0 < qam_rank a"
  shows "m = 2 ^ Suc (qam_rank a)"
proof -
  have "qam_rank a = dict_get order_ranks m 0" using assms(1) by (simp add: qam_rank_def rank_table)
  with assms(2) have "(m, qam_rank a) \<in> set order_ranks"
    by (auto simp: dict_get_def split: option.splits dest: map_of_SomeD)
  then show ?thesis by (auto simp: order_ranks_def)
qed

text \<open>
  Ranking.  For two modulations of known rank, the rank orders them as their QAM order
  does, whichever spelling each has; the event detector's downgrade test rests on this.
\<close>

theorem qam_rank_monotone:
  assumes "parse_qam_order a = Some m" and "parse_qam_order b = Some n"
    and "0 < qam_rank a" and "0 < qam_rank b"
  shows "qam_rank a < qam_rank b \<longleftrightarrow> m < n"
  using rank_power [OF assms(1,3)] rank_power [OF assms(2,4)] by simp

theorem qam_rank_monotone_witness: "qam_rank (Some ''64QAM'') < qam_rank (Some ''qam_256'')"
proof -
  have p: "parse_qam_order (Some ''64QAM'') = Some 64" "parse_qam_order (Some ''qam_256'') = Some 256"
    by code_simp+
  then have "0 < qam_rank (Some ''64QAM'')" "0 < qam_rank (Some ''qam_256'')"
    by (simp_all add: qam_rank_def rank_table del: nat_str_numeral) (simp_all add: order_ranks_def dict_get_def del: nat_str_numeral)
  then show ?thesis using qam_rank_monotone [OF p] by simp
qed

text \<open>
  The family taxonomy.  A direction other than downstream or upstream raises; a
  downstream channel is never OFDMA and an upstream channel never OFDM; with DOCSIS 3.1 or
  4.0 context no channel is unknown; and a downstream channel whose type says OFDM stays OFDM
  whatever its (possibly degraded) modulation and profile labels are.
\<close>

theorem family_taxonomy:
  shows "(\<exists>e. classify_channel_family d ch = Inl (ValueError e)) \<or>
    (\<exists>f. classify_channel_family d ch = Inr f \<and>
       (direction_key d = Inr ''ds'' \<longrightarrow> f \<noteq> Ofdma) \<and>
       (direction_key d = Inr ''us'' \<longrightarrow> f \<noteq> Ofdm) \<and>
       (docsis31_plus ch \<longrightarrow> f \<noteq> Unknown_Family) \<and>
       (direction_key d = Inr ''ds'' \<and> py_in ''OFDM'' (compact_text [ch ''type'', ch ''channel_type'']) \<longrightarrow> f = Ofdm))"
proof -
  have t: "py_in ''OFDM'' (compact_text [ch ''type'', ch ''channel_type'']) \<Longrightarrow> classify_ds ch = Ofdm"
    by (simp add: classify_ds_def Let_def)
  show ?thesis
    using direction_key_cases [of d] classify_ds_range [of ch] classify_us_range [of ch]
      classify_31_known [of ch] t
    by (auto simp: classify_channel_family_def)
qed

definition degraded_ofdm :: text_fields where
  "degraded_ofdm = [''type'' \<mapsto> ''OFDM'', ''modulation'' \<mapsto> ''16QAM'', ''docsis_version'' \<mapsto> ''3.1'']"

theorem family_taxonomy_witness: "classify_channel_family ''DS'' degraded_ofdm = Inr Ofdm"
proof -
  have d: "direction_key ''DS'' = Inr ''ds''" by code_simp
  have t: "py_in ''OFDM'' (compact_text [degraded_ofdm ''type'', degraded_ofdm ''channel_type''])" by code_simp
  have "classify_channel_family ''DS'' degraded_ofdm \<noteq> Inl (ValueError e)" for e
    by (simp add: classify_channel_family_def d)
  with family_taxonomy [of "''DS''" degraded_ofdm] d t show ?thesis by auto
qed

text \<open>A degraded profile: the label keeps naming the OFDM family, and the SC-QAM capacity
  formula is refused.\<close>

lemma capacity_only_sc_qam:
  "sc_qam_capacity_family d ch = Inr ''sc_qam'' \<longleftrightarrow> classify_channel_family d ch = Inr Sc_Qam"
  by (cases "classify_channel_family d ch") (auto simp: sc_qam_capacity_family_def)

lemma threshold_key_in_section:
  "modulation_threshold_key m sec dflt \<in> set (dict_keys (sec_entries sec)) \<union> {''4096QAM'', dflt}
     \<union> {s. sec_default sec = Some (PStr s)}"
  by (auto simp: modulation_threshold_key_def Let_def dict_get_def MODULATION_THRESHOLD_ALIASES_def
      split: option.splits pyval.splits list.splits if_splits)

end
