(* ===== verification/Thresholds.thy ===== *)
theory Thresholds
  imports Docsis_Utils
begin

text \<open>
  The threshold profile of \<^verbatim>\<open>app/analyzer.py\<close>: the loaded profile, the built-in fallback and the
  resolution of the limits of one channel.  A profile is plain JSON data; a section, a band
  or a value it does not have is absent here, and each lookup falls back as the code does.
  Numbers of a profile are finite.
\<close>

record power_band =
  band_good :: "(rat \<times> rat) option"
  band_warning :: "(rat \<times> rat) option"
  band_critical :: "(rat \<times> rat) option"

record snr_band =
  band_good_min :: "rat option"
  band_warning_min :: "rat option"
  band_critical_min :: "rat option"

record thresholds =
  th_downstream_power :: "power_band thr_section"
  th_upstream_power :: "power_band thr_section"
  th_snr :: "snr_band thr_section"
  th_critical_max_qam :: "rat option"
  th_warning_max_qam :: "rat option"
  th_pct_warning :: "rat option"
  th_pct_critical :: "rat option"
  th_min_codewords :: "rat option"
  th_spike_expiry_hours :: "rat option"

definition empty_power_band :: power_band where
  "empty_power_band = \<lparr>band_good = None, band_warning = None, band_critical = None\<rparr>"

definition empty_snr_band :: snr_band where
  "empty_snr_band = \<lparr>band_good_min = None, band_warning_min = None, band_critical_min = None\<rparr>"

definition pband :: "rat \<Rightarrow> rat \<Rightarrow> rat \<Rightarrow> rat \<Rightarrow> rat \<Rightarrow> rat \<Rightarrow> power_band" where
  "pband g1 g2 w1 w2 c1 c2 =
     \<lparr>band_good = Some (g1, g2), band_warning = Some (w1, w2), band_critical = Some (c1, c2)\<rparr>"

definition sband :: "rat \<Rightarrow> rat \<Rightarrow> rat \<Rightarrow> snr_band" where
  "sband g w c = \<lparr>band_good_min = Some g, band_warning_min = Some w, band_critical_min = Some c\<rparr>"

definition FALLBACK_THRESHOLDS :: thresholds where
  "FALLBACK_THRESHOLDS =
     \<lparr>th_downstream_power =
        \<lparr>sec_entries = [(''64QAM'', pband (- 10) 7 (- 12) 12 (- 14) 16),
           (''256QAM'', pband (- 4) 13 (- 6) 15 (- 8) 16),
           (''1024QAM'', pband (- 2) 15 (- 4) 16 (- 6) 16),
           (''4096QAM'', pband (- 2) 15 (- 4) 16 (- 6) 16),
           (''ofdm'', pband (- 12) 12 (- 15) 15 (- 15) 15)],
         sec_default = Some (PStr ''256QAM'')\<rparr>,
      th_upstream_power =
        \<lparr>sec_entries = [(''sc_qam'', pband (fl (411 / 10)) 47 (fl (371 / 10)) 51 35 53),
           (''ofdma'', pband (fl (441 / 10)) 47 (fl (401 / 10)) 48 38 50)],
         sec_default = Some (PStr ''sc_qam'')\<rparr>,
      th_snr =
        \<lparr>sec_entries = [(''64QAM'', sband 27 25 23), (''256QAM'', sband 33 31 29),
           (''ofdm'', sband 27 (51 / 2) (49 / 2)), (''1024QAM'', sband 39 37 36),
           (''4096QAM'', sband 40 38 36)],
         sec_default = Some (PStr ''256QAM'')\<rparr>,
      th_critical_max_qam = Some 4, th_warning_max_qam = Some 16,
      th_pct_warning = Some 1, th_pct_critical = Some 3, th_min_codewords = Some 1000,
      th_spike_expiry_hours = None\<rparr>"

section \<open>The active profile\<close>

text \<open>An empty mapping counts as no profile (\<open>None\<close>).\<close>

record profile_state =
  loaded_thresholds :: "thresholds option"
  profile_id :: "string option"
  profile_version :: "string option"

definition set_thresholds ::
  "thresholds option \<Rightarrow> string option \<Rightarrow> string option \<Rightarrow> profile_state \<Rightarrow> profile_state" where
  "set_thresholds data pid pver s =
     s\<lparr>loaded_thresholds := data, profile_id := pid, profile_version := pver\<rparr>"

definition active_thresholds :: "profile_state \<Rightarrow> thresholds" where
  "active_thresholds s = (case loaded_thresholds s of None \<Rightarrow> FALLBACK_THRESHOLDS | Some t \<Rightarrow> t)"

definition ANALYZER_SCHEMA_VERSION :: int where
  "ANALYZER_SCHEMA_VERSION = 3"

record analysis_meta =
  analyzer_schema :: int
  app_version :: "string option"
  meta_profile :: "string option \<times> string option"

definition get_analysis_metadata :: "string option \<Rightarrow> profile_state \<Rightarrow> analysis_meta" where
  "get_analysis_metadata ver s =
     \<lparr>analyzer_schema = ANALYZER_SCHEMA_VERSION, app_version = ver,
      meta_profile = (profile_id s, profile_version s)\<rparr>"

definition threshold_snapshot :: "profile_state \<Rightarrow> thresholds \<times> string option \<times> string option" where
  "threshold_snapshot s = (active_thresholds s, profile_id s, profile_version s)"

text \<open>\<^verbatim>\<open>get_thresholds\<close> hides the keys that start with an underscore.\<close>

definition strip_section :: "'a thr_section \<Rightarrow> 'a thr_section" where
  "strip_section sec = \<lparr>sec_entries = filter (\<lambda>(k, v). \<not> py_startswith k ''_'') (sec_entries sec),
     sec_default = None\<rparr>"

definition get_thresholds :: "profile_state \<Rightarrow> thresholds" where
  "get_thresholds s = (let t = active_thresholds s in
     t\<lparr>th_downstream_power := strip_section (th_downstream_power t),
       th_upstream_power := strip_section (th_upstream_power t),
       th_snr := strip_section (th_snr t)\<rparr>)"

section \<open>Resolving the limits of a channel\<close>

record power_limits =
  good_min :: rat
  good_max :: rat
  warn_min :: rat
  warn_max :: rat
  crit_min :: rat
  crit_max :: rat

record snr_limits =
  snr_good_min :: rat
  snr_warn_min :: rat
  snr_crit_min :: rat

definition get_or :: "'a option \<Rightarrow> 'a \<Rightarrow> 'a" where
  "get_or x d = (case x of None \<Rightarrow> d | Some v \<Rightarrow> v)"

definition limits_of :: "rat \<times> rat \<Rightarrow> rat \<times> rat \<Rightarrow> power_band \<Rightarrow> power_limits" where
  "limits_of dgood dcrit t =
     (let good = get_or (band_good t) dgood;
          warn = get_or (band_warning t) good;
          crit = get_or (band_critical t) dcrit
      in \<lparr>good_min = fst good, good_max = snd good, warn_min = fst warn, warn_max = snd warn,
          crit_min = fst crit, crit_max = snd crit\<rparr>)"

definition ofdm_or_modulation :: "'a thr_section \<Rightarrow> 'a \<Rightarrow> string option \<Rightarrow> string option \<Rightarrow> 'a" where
  "ofdm_or_modulation sec dflt modulation channel_family =
     (case (if channel_family = Some ''ofdm'' then map_of (sec_entries sec) ''ofdm'' else None) of
        Some t \<Rightarrow> t
      | None \<Rightarrow> dict_get (sec_entries sec) (modulation_threshold_key modulation sec ''256QAM'') dflt)"

definition resolve_ds_power_thresholds :: "string option \<Rightarrow> string option \<Rightarrow> thresholds \<Rightarrow> power_limits" where
  "resolve_ds_power_thresholds modulation channel_family t =
     limits_of (- 4, 13) (- 8, 20)
       (ofdm_or_modulation (th_downstream_power t) empty_power_band modulation channel_family)"

definition get_us_power_thresholds :: "string option \<Rightarrow> thresholds \<Rightarrow> power_limits" where
  "get_us_power_thresholds channel_type t =
     (let us = th_upstream_power t;
          key = (if py_upper (text_of channel_type) = ''OFDMA'' then ''ofdma'' else ''sc_qam'');
          fallback = (case sec_default us of
              None \<Rightarrow> dict_get (sec_entries us) ''sc_qam'' empty_power_band
            | Some (PStr k) \<Rightarrow> dict_get (sec_entries us) k empty_power_band
            | Some _ \<Rightarrow> empty_power_band)
      in limits_of (41, 47) (35, 53) (dict_get (sec_entries us) key fallback))"

definition resolve_snr_thresholds :: "string option \<Rightarrow> string option \<Rightarrow> thresholds \<Rightarrow> snr_limits" where
  "resolve_snr_thresholds modulation channel_family t =
     (let b = ofdm_or_modulation (th_snr t) empty_snr_band modulation channel_family;
          good = get_or (band_good_min b) 33
      in \<lparr>snr_good_min = good, snr_warn_min = get_or (band_warning_min b) good,
          snr_crit_min = get_or (band_critical_min b) 29\<rparr>)"

definition us_modulation_thresholds :: "thresholds \<Rightarrow> rat \<times> rat" where
  "us_modulation_thresholds t = (get_or (th_critical_max_qam t) 4, get_or (th_warning_max_qam t) 16)"

record uncorr_thresholds =
  pct_warning :: rat
  pct_critical :: rat
  min_codewords :: rat

definition get_uncorr_thresholds :: "thresholds \<Rightarrow> uncorr_thresholds" where
  "get_uncorr_thresholds t = \<lparr>pct_warning = get_or (th_pct_warning t) 1,
     pct_critical = get_or (th_pct_critical t) 3, min_codewords = get_or (th_min_codewords t) 1000\<rparr>"

definition get_spike_expiry_hours :: "thresholds \<Rightarrow> rat" where
  "get_spike_expiry_hours t = get_or (th_spike_expiry_hours t) 48"

section \<open>Well-formed profiles\<close>

text \<open>Bands nest: the good range inside the warning range inside the critical one.\<close>

definition nested :: "power_limits \<Rightarrow> bool" where
  "nested l \<longleftrightarrow> crit_min l \<le> warn_min l \<and> warn_min l \<le> good_min l \<and> good_min l \<le> good_max l
     \<and> good_max l \<le> warn_max l \<and> warn_max l \<le> crit_max l"

definition snr_nested :: "snr_limits \<Rightarrow> bool" where
  "snr_nested l \<longleftrightarrow> snr_crit_min l \<le> snr_warn_min l \<and> snr_warn_min l \<le> snr_good_min l"

text \<open>What a resolution promises of a section whose entries have a law.\<close>

lemma ofdm_or_modulation_in:
  assumes "\<And>k v. (k, v) \<in> set (sec_entries sec) \<Longrightarrow> P v" and "P d"
  shows "P (ofdm_or_modulation sec d m f)"
proof -
  have "P (dict_get (sec_entries sec) k d)" for k
    using assms map_of_SomeD by (fastforce simp: dict_get_def split: option.splits)
  then show ?thesis
    using assms(1) map_of_SomeD by (fastforce simp: ofdm_or_modulation_def split: option.splits)
qed

lemma fl_between: "is_f64 a \<Longrightarrow> is_f64 b \<Longrightarrow> a \<le> x \<Longrightarrow> x \<le> b \<Longrightarrow> a \<le> fl x \<and> fl x \<le> b"
  by (simp add: fl_ge_exact fl_le_exact)

lemma fallback_nested:
  "nested (resolve_ds_power_thresholds m f FALLBACK_THRESHOLDS)"
  "nested (get_us_power_thresholds c FALLBACK_THRESHOLDS)"
  "snr_nested (resolve_snr_thresholds m f FALLBACK_THRESHOLDS)"
proof -
  have "nested (limits_of (- 4, 13) (- 8, 20)
      (ofdm_or_modulation (th_downstream_power FALLBACK_THRESHOLDS) empty_power_band m f))"
    by (rule ofdm_or_modulation_in)
      (auto simp: FALLBACK_THRESHOLDS_def pband_def empty_power_band_def limits_of_def nested_def get_or_def Let_def)
  then show "nested (resolve_ds_power_thresholds m f FALLBACK_THRESHOLDS)"
    by (simp add: resolve_ds_power_thresholds_def)
  have "snr_nested (let b = ofdm_or_modulation (th_snr FALLBACK_THRESHOLDS) empty_snr_band m f;
          good = get_or (band_good_min b) 33
      in \<lparr>snr_good_min = good, snr_warn_min = get_or (band_warning_min b) good,
          snr_crit_min = get_or (band_critical_min b) 29\<rparr>)"
    unfolding Let_def
    by (rule ofdm_or_modulation_in)
      (auto simp: FALLBACK_THRESHOLDS_def sband_def empty_snr_band_def snr_nested_def get_or_def)
  then show "snr_nested (resolve_snr_thresholds m f FALLBACK_THRESHOLDS)"
    by (simp add: resolve_snr_thresholds_def)
  have "41 \<le> fl (411 / 10) \<and> fl (411 / 10) \<le> 42" "37 \<le> fl (371 / 10) \<and> fl (371 / 10) \<le> 38"
       "44 \<le> fl (441 / 10) \<and> fl (441 / 10) \<le> 45" "40 \<le> fl (401 / 10) \<and> fl (401 / 10) \<le> 41"
    by (rule fl_between; simp)+
  then show "nested (get_us_power_thresholds c FALLBACK_THRESHOLDS)"
    by (auto simp: FALLBACK_THRESHOLDS_def pband_def get_us_power_thresholds_def limits_of_def nested_def
        get_or_def dict_get_def Let_def)
qed

end
