(* ===== verification/Channel_Health.thy ===== *)
theory Channel_Health
  imports Thresholds
begin

text \<open>
  The per-channel assessment of \<^verbatim>\<open>app/analyzer.py\<close>: modulation, power and signal-quality
  verdicts of a raw driver channel, the composite health of the channel and the metric levels
  read back from its detail string.  A raw channel has text fields (absent or a string), number
  fields (\<open>PNone\<close> when absent or \<^verbatim>\<open>None\<close>) and the optional \<^verbatim>\<open>snr_valid\<close> flag.
\<close>

record raw_channel =
  raw_text :: text_fields
  raw_num :: "string \<Rightarrow> pyval"
  raw_snr_valid :: "bool option"

section \<open>Health levels\<close>

datatype health = Missing | Good | Tolerated | Warning | Critical

fun health_rank :: "health \<Rightarrow> int" where
  "health_rank Missing = - 1"
| "health_rank Good = 0"
| "health_rank Tolerated = 1"
| "health_rank Warning = 2"
| "health_rank Critical = 3"

instantiation health :: linorder
begin

definition less_eq_health :: "health \<Rightarrow> health \<Rightarrow> bool" where
  "less_eq_health a b = (health_rank a \<le> health_rank b)"

definition less_health :: "health \<Rightarrow> health \<Rightarrow> bool" where
  "less_health a b = (health_rank a < health_rank b)"

lemma health_rank_inj: "health_rank a = health_rank b \<Longrightarrow> a = b"
  by (cases a; cases b) auto

instance
  by standard (auto simp: less_eq_health_def less_health_def intro: health_rank_inj)

end

lemmas health_order = less_eq_health_def less_health_def

lemma health_bounds [simp]: "Missing \<le> h" "h \<le> Critical" "Good \<le> h \<longleftrightarrow> h \<noteq> Missing" "Critical \<le> h \<longleftrightarrow> h = Critical"
  by (cases h; simp add: health_order)+

fun health_key :: "health \<Rightarrow> string" where
  "health_key Missing = ''missing''"
| "health_key Good = ''good''"
| "health_key Tolerated = ''tolerated''"
| "health_key Warning = ''warning''"
| "health_key Critical = ''critical''"

definition worst_health :: "health list \<Rightarrow> health" where
  "worst_health values = (case filter (\<lambda>v. v \<noteq> Missing) values of [] \<Rightarrow> Missing
     | v # vs \<Rightarrow> first_max id v vs)"

lemma worst_health_Missing: "worst_health vs = Missing \<longleftrightarrow> (\<forall>v \<in> set vs. v = Missing)"
proof (cases "filter (\<lambda>v. v \<noteq> Missing) vs")
  case (Cons v ws)
  then have "set (v # ws) = {x \<in> set vs. x \<noteq> Missing}" by (metis set_filter)
  moreover have "first_max id v ws \<in> insert v (set ws)" by (rule first_max_mem)
  ultimately show ?thesis using Cons by (auto simp: worst_health_def)
qed (auto simp: worst_health_def filter_empty_conv)

lemma worst_health_ge: "h \<in> set vs \<Longrightarrow> h \<le> worst_health vs"
proof (cases "h = Missing")
  case False
  assume "h \<in> set vs"
  with False have m: "h \<in> set (filter (\<lambda>v. v \<noteq> Missing) vs)" by simp
  then obtain v ws where f: "filter (\<lambda>v. v \<noteq> Missing) vs = v # ws" by (cases "filter (\<lambda>v. v \<noteq> Missing) vs") auto
  with m have "h \<in> insert v (set ws)" by simp
  with f first_max_ge [of h v ws id] show ?thesis by (simp add: worst_health_def)
qed simp

lemma worst_health_mem: "worst_health vs \<noteq> Missing \<Longrightarrow> worst_health vs \<in> set vs"
proof (cases "filter (\<lambda>v. v \<noteq> Missing) vs")
  case (Cons v ws)
  then have "set (v # ws) \<subseteq> set vs" by (metis filter_is_subset)
  then show ?thesis using Cons first_max_mem [of id v ws] by (auto simp: worst_health_def)
qed (simp add: worst_health_def)

lemma worst_health_eqI: "h \<in> set vs \<Longrightarrow> (\<And>v. v \<in> set vs \<Longrightarrow> v \<le> h) \<Longrightarrow> worst_health vs = h"
  by (metis antisym worst_health_ge worst_health_mem health_bounds(1) order_antisym)

section \<open>Modulation\<close>

definition modulation_issue :: "health \<Rightarrow> string option" where
  "modulation_issue h = (if h \<in> {Critical, Warning, Tolerated} then Some (''modulation '' @ health_key h) else None)"

definition assess_ds_modulation :: "string option \<Rightarrow> string \<Rightarrow> health" where
  "assess_ds_modulation modulation docsis_ver =
     (let m = py_strip (py_remove CHR ''-'' (py_upper (text_of modulation))) in
      if m = ''OFDM'' then Good
      else case parse_qam_order (Some m) of None \<Rightarrow> Good
      | Some q \<Rightarrow>
          if docsis_ver = ''3.1'' then
            (if 1024 \<le> q then Good else if 512 \<le> q then Tolerated else if 256 \<le> q then Warning else Critical)
          else if 64 \<le> q then Good else Critical)"

definition channel_modulation :: "raw_channel \<Rightarrow> string option" where
  "channel_modulation ch = or_text (raw_text ch ''modulation'') (or_text (raw_text ch ''type'') (Some []))"

definition profile_modulation :: "raw_channel \<Rightarrow> string option" where
  "profile_modulation ch = or_text (raw_text ch ''profile_modulation'') (raw_text ch ''profileModulation'')"

text \<open>The dictionaries handed to the family classification.\<close>

definition us_view :: "raw_channel \<Rightarrow> string \<Rightarrow> text_fields" where
  "us_view ch docsis_ver = [''type'' \<mapsto> text_of (raw_text ch ''type''), ''multiplex'' \<mapsto> text_of (raw_text ch ''multiplex''),
     ''modulation'' \<mapsto> text_of (channel_modulation ch), ''docsis_version'' \<mapsto> docsis_ver]
     (''profile_modulation'' := profile_modulation ch)"

definition assess_us_modulation :: "thresholds \<Rightarrow> raw_channel \<Rightarrow> string \<Rightarrow> health" where
  "assess_us_modulation t ch docsis_ver =
     (let fam = classify_us (us_view ch docsis_ver);
          m = (if fam = Ofdma \<and> text_of (profile_modulation ch) \<noteq> [] then profile_modulation ch else channel_modulation ch)
      in case parse_qam_order m of None \<Rightarrow> Good
         | Some q \<Rightarrow>
             if docsis_ver = ''3.1'' \<and> fam = Ofdma then
               (if q \<le> 32 then Critical else if q \<le> 64 then Warning else if q \<le> 128 then Tolerated else Good)
             else (let (crit, warn) = us_modulation_thresholds t in
               if of_nat q \<le> crit then Critical else if of_nat q \<le> warn then Warning else Good))"

section \<open>Issues of a channel\<close>

definition outside :: "rat \<Rightarrow> f64 \<Rightarrow> rat \<Rightarrow> bool" where
  "outside lo p hi = (f_lt p (Fin lo) \<or> f_lt (Fin hi) p)"

definition ds_power_issue :: "power_limits \<Rightarrow> f64 \<Rightarrow> string list" where
  "ds_power_issue l p =
     (if outside (crit_min l) p (crit_max l) then [''power critical'']
      else if outside (warn_min l) p (warn_max l) then [''power warning'']
      else if outside (good_min l) p (good_max l) then [''power tolerated''] else [])"

definition us_power_issue :: "power_limits \<Rightarrow> f64 \<Rightarrow> string list" where
  "us_power_issue l p =
     (if f_lt p (Fin (crit_min l)) then [''power critical low'']
      else if f_lt (Fin (crit_max l)) p then [''power critical high'']
      else if f_lt p (Fin (warn_min l)) then [''power warning low'']
      else if f_lt (Fin (warn_max l)) p then [''power warning high'']
      else if f_lt p (Fin (good_min l)) then [''power tolerated low'']
      else if f_lt (Fin (good_max l)) p then [''power tolerated high''] else [])"

definition snr_issue :: "snr_limits \<Rightarrow> f64 \<Rightarrow> string list" where
  "snr_issue l v =
     (if f_lt v (Fin (snr_crit_min l)) then [''snr critical'']
      else if f_lt v (Fin (snr_warn_min l)) then [''snr warning'']
      else if f_lt v (Fin (snr_good_min l)) then [''snr tolerated''] else [])"

definition option_issue :: "('a \<Rightarrow> string list) \<Rightarrow> 'a option \<Rightarrow> string list" where
  "option_issue f v = (case v of None \<Rightarrow> [] | Some x \<Rightarrow> f x)"

definition float_unless_none :: "pyval \<Rightarrow> f64 option res" where
  "float_unless_none v = (if v = PNone then Inr None else float_or_none v)"

definition ds_snr_value :: "raw_channel \<Rightarrow> string \<Rightarrow> f64 option res" where
  "ds_snr_value ch docsis_ver =
     (if docsis_ver = ''3.0'' \<and> raw_num ch ''mse'' \<noteq> PNone
      then map_sum id (map_option f_abs) (float_or_none (raw_num ch ''mse''))
      else if docsis_ver = ''3.1'' \<and> raw_num ch ''mer'' \<noteq> PNone then float_or_none (raw_num ch ''mer'')
      else Inr None)"

definition assess_ds_issues ::
  "thresholds \<Rightarrow> raw_channel \<Rightarrow> string \<Rightarrow> string option \<Rightarrow> string option \<Rightarrow> string list res" where
  "assess_ds_issues t ch docsis_ver modulation_docsis_ver channel_family =
     (let modulation = Some (py_remove CHR ''-'' (py_upper (text_of (channel_modulation ch)))) in
      res_bind (float_unless_none (raw_num ch ''powerLevel'')) (\<lambda>power.
      res_bind (ds_snr_value ch docsis_ver) (\<lambda>snr.
        Inr (option_issue (ds_power_issue (resolve_ds_power_thresholds modulation channel_family t)) power
           @ (if raw_snr_valid ch = Some False then [''snr warning (unavailable)''] else [])
           @ option_issue (snr_issue (resolve_snr_thresholds modulation channel_family t)) snr
           @ option_issue (\<lambda>i. [i]) (modulation_issue (assess_ds_modulation modulation
               (text_of (or_text modulation_docsis_ver (Some docsis_ver)))))))))"

definition us_channel_type :: "raw_channel \<Rightarrow> string \<Rightarrow> string" where
  "us_channel_type ch docsis_ver =
     (if classify_us (us_view ch docsis_ver) = Ofdma then ''OFDMA''
      else py_strip (py_remove CHR ''-'' (py_upper (text_of
        (or_text (raw_text ch ''type'') (or_text (raw_text ch ''multiplex'') (channel_modulation ch)))))))"

definition assess_us_issues :: "thresholds \<Rightarrow> raw_channel \<Rightarrow> string \<Rightarrow> string list res" where
  "assess_us_issues t ch docsis_ver =
     res_bind (float_unless_none (raw_num ch ''powerLevel'')) (\<lambda>power.
       Inr (option_issue (us_power_issue (get_us_power_thresholds (Some (us_channel_type ch docsis_ver)) t)) power
          @ option_issue (\<lambda>i. [i]) (modulation_issue (assess_us_modulation t ch docsis_ver))))"

section \<open>Health, detail and metric levels\<close>

definition channel_health :: "string list \<Rightarrow> health" where
  "channel_health issues =
     (if issues = [] then Good
      else if list_ex (py_in ''critical'') issues then Critical
      else if list_ex (py_in ''warning'') issues then Warning
      else Tolerated)"

definition health_detail :: "string list \<Rightarrow> string" where
  "health_detail issues = (if issues = [] then [] else py_join '' + '' issues)"

definition detail_issues :: "string \<Rightarrow> string list" where
  "detail_issues detail = (if detail = [] then [] else py_split '' + '' detail)"

definition metric_level :: "string \<Rightarrow> string list \<Rightarrow> health option" where
  "metric_level metric issues =
     (if list_ex (\<lambda>i. py_startswith i (metric @ '' critical'')) issues then Some Critical
      else if list_ex (\<lambda>i. py_startswith i (metric @ '' warning'')) issues then Some Warning
      else if list_ex (\<lambda>i. py_startswith i (metric @ '' tolerated'')) issues then Some Tolerated
      else None)"

record metric_healths =
  mh_power :: "health option"
  mh_snr :: "health option"
  mh_modulation :: "health option"

definition metric_healths_of :: "string list \<Rightarrow> metric_healths" where
  "metric_healths_of issues = \<lparr>mh_power = metric_level ''power'' issues, mh_snr = metric_level ''snr'' issues,
     mh_modulation = metric_level ''modulation'' issues\<rparr>"

definition assess_ds_channel ::
  "thresholds \<Rightarrow> raw_channel \<Rightarrow> string \<Rightarrow> string option \<Rightarrow> string option \<Rightarrow> (health \<times> string) res" where
  "assess_ds_channel t ch docsis_ver modulation_docsis_ver channel_family =
     map_sum id (\<lambda>is. (channel_health is, health_detail is))
       (assess_ds_issues t ch docsis_ver modulation_docsis_ver channel_family)"

definition assess_us_channel :: "thresholds \<Rightarrow> raw_channel \<Rightarrow> string \<Rightarrow> (health \<times> string) res" where
  "assess_us_channel t ch docsis_ver =
     map_sum id (\<lambda>is. (channel_health is, health_detail is)) (assess_us_issues t ch docsis_ver)"

section \<open>The vocabulary of the issues\<close>

definition issue_words :: "string list" where
  "issue_words = [''power critical'', ''power warning'', ''power tolerated'',
     ''power critical low'', ''power critical high'', ''power warning low'', ''power warning high'',
     ''power tolerated low'', ''power tolerated high'', ''snr critical'', ''snr warning'', ''snr tolerated'',
     ''snr warning (unavailable)'', ''modulation critical'', ''modulation warning'', ''modulation tolerated'']"

lemma modulation_issue_word: "modulation_issue h = Some i \<Longrightarrow> i \<in> set issue_words"
  by (cases h) (auto simp: modulation_issue_def issue_words_def)

lemma power_words:
  "set (ds_power_issue l p) \<subseteq> set issue_words" "set (us_power_issue l p) \<subseteq> set issue_words"
  "set (snr_issue s p) \<subseteq> set issue_words"
  by (auto simp: ds_power_issue_def us_power_issue_def snr_issue_def issue_words_def split: if_splits)

lemma option_words: "(\<And>x. set (f x) \<subseteq> W) \<Longrightarrow> set (option_issue f v) \<subseteq> W"
  by (cases v) (simp_all add: option_issue_def)

lemma modulation_words: "set (option_issue (\<lambda>i. [i]) (modulation_issue h)) \<subseteq> set issue_words"
  by (cases "modulation_issue h") (simp_all add: option_issue_def modulation_issue_word)

lemma ds_issue_words:
  assumes "assess_ds_issues t ch v mv fam = Inr is"
  shows "set is \<subseteq> set issue_words"
proof -
  have u: "set (if b then [''snr warning (unavailable)''] else []) \<subseteq> set issue_words" for b
    by (cases b) (simp_all add: issue_words_def)
  show ?thesis using assms unfolding assess_ds_issues_def res_bind_Inr_iff Let_def
    by (elim exE conjE) (drule sum.inject(2) [THEN iffD1, OF sym], simp only: set_append,
      intro Un_least option_words power_words modulation_words u)
qed

lemma us_issue_words:
  assumes "assess_us_issues t ch v = Inr is"
  shows "set is \<subseteq> set issue_words"
  using assms unfolding assess_us_issues_def res_bind_Inr_iff
  by (elim exE conjE) (drule sum.inject(2) [THEN iffD1, OF sym], simp only: set_append, intro Un_least option_words power_words modulation_words)

text \<open>Which words carry which level.\<close>

lemma word_levels:
  assumes "i \<in> set issue_words"
  shows "py_in ''critical'' i \<longleftrightarrow> (\<exists>m \<in> {''power'', ''snr'', ''modulation''}. py_startswith i (m @ '' critical''))"
    "py_in ''warning'' i \<longleftrightarrow> (\<exists>m \<in> {''power'', ''snr'', ''modulation''}. py_startswith i (m @ '' warning''))"
    "py_in ''critical'' i \<or> py_in ''warning'' i \<or> (\<exists>m \<in> {''power'', ''snr'', ''modulation''}. py_startswith i (m @ '' tolerated''))"
    "CHR ''+'' \<notin> set i"
  using assms unfolding issue_words_def list.set insert_iff empty_iff by (elim disjE; simp)+

lemma detail_round_trip: "set is \<subseteq> set issue_words \<Longrightarrow> detail_issues (health_detail is) = is"
proof -
  assume w: "set is \<subseteq> set issue_words"
  then have plus: "\<forall>i \<in> set is. CHR ''+'' \<notin> set i" using word_levels(4) by blast
  have ne: "i \<noteq> []" if "i \<in> set is" for i using w that by (auto simp: issue_words_def)
  show ?thesis
  proof (cases "is = []")
    case False
    then have "py_join '' + '' is \<noteq> []" using ne by (cases "is" rule: remdups_adj.cases) auto
    then show ?thesis using False py_split_join [of "CHR '' ''" "CHR ''+''" "is" "CHR '' ''"] plus
      by (simp add: detail_issues_def health_detail_def)
  qed (simp add: detail_issues_def health_detail_def)
qed

definition levels :: "metric_healths \<Rightarrow> health list" where
  "levels m = map the (filter (\<lambda>x. x \<noteq> None) [mh_power m, mh_snr m, mh_modulation m])"

lemma metric_level_cases:
  "metric_level m is = Some Critical \<longleftrightarrow> (\<exists>i \<in> set is. py_startswith i (m @ '' critical''))"
  "metric_level m is \<in> {None, Some Tolerated, Some Warning, Some Critical}"
  by (simp_all add: metric_level_def list_ex_iff)

lemma levels_set:
  "set (levels (metric_healths_of is)) = {h. \<exists>m \<in> {''power'', ''snr'', ''modulation''}. metric_level m is = Some h}"
  by (auto simp: levels_def metric_healths_of_def)

lemma health_is_worst:
  assumes w: "set is \<subseteq> set issue_words"
  shows "channel_health is = worst_health (Good # levels (metric_healths_of is))"
proof -
  let ?M = "{''power'', ''snr'', ''modulation''}"
  let ?L = "set (levels (metric_healths_of is))"
  have crit: "list_ex (py_in ''critical'') is \<longleftrightarrow> Critical \<in> ?L"
    unfolding levels_set list_ex_iff mem_Collect_eq metric_level_cases(1) using w word_levels(1) by blast
  have warn: "Warning \<in> ?L" if "\<not> list_ex (py_in ''critical'') is" "list_ex (py_in ''warning'') is"
  proof -
    from that(2) obtain i m where im: "i \<in> set is" "m \<in> ?M" "py_startswith i (m @ '' warning'')"
      using w word_levels(2) unfolding list_ex_iff by blast
    have "metric_level m is \<noteq> Some Critical" using that(1) crit im(2) unfolding levels_set by blast
    then have "metric_level m is = Some Warning" using im
      by (auto simp: metric_level_def list_ex_iff split: if_splits)
    with im(2) show ?thesis unfolding levels_set by blast
  qed
  have warn': "list_ex (py_in ''warning'') is" if "Warning \<in> ?L"
  proof -
    from that obtain m where "m \<in> ?M" "metric_level m is = Some Warning" unfolding levels_set by blast
    then obtain i where "i \<in> set is" "py_startswith i (m @ '' warning'')" "m \<in> ?M"
      by (auto simp: metric_level_def list_ex_iff split: if_splits)
    then show ?thesis using w word_levels(2) unfolding list_ex_iff by blast
  qed
  have tol: "?L \<noteq> {}" if "is \<noteq> []"
  proof -
    from that obtain i where i: "i \<in> set is" by (cases "is") auto
    then have "\<exists>m \<in> ?M. py_startswith i (m @ '' critical'') \<or> py_startswith i (m @ '' warning'') \<or> py_startswith i (m @ '' tolerated'')"
      using w word_levels(1-3) [of i] by blast
    then obtain m where m: "m \<in> ?M" "py_startswith i (m @ '' critical'') \<or> py_startswith i (m @ '' warning'') \<or> py_startswith i (m @ '' tolerated'')"
      by blast
    with i have "metric_level m is \<noteq> None" unfolding metric_level_def list_ex_iff by auto
    with m(1) obtain m where "m \<in> ?M" "metric_level m is \<noteq> None" by blast
    then show ?thesis unfolding levels_set by blast
  qed
  have rng: "?L \<subseteq> {Tolerated, Warning, Critical}"
  proof
    fix h assume "h \<in> ?L"
    then obtain m where "metric_level m is = Some h" unfolding levels_set by blast
    with metric_level_cases(2) [of m "is"] show "h \<in> {Tolerated, Warning, Critical}" by auto
  qed
  have none: "?L = {}" if "is = []" using that by (simp add: levels_def metric_healths_of_def metric_level_def)
  show ?thesis
  proof (rule worst_health_eqI [symmetric])
    show "channel_health is \<in> set (Good # levels (metric_healths_of is))"
    proof (cases "is = [] \<or> Critical \<in> ?L \<or> Warning \<in> ?L")
      case True
      then show ?thesis using crit warn' by (auto simp: channel_health_def)
    next
      case False
      then have "?L \<noteq> {}" by (intro tol) simp
      then obtain h where h: "h \<in> ?L" by (meson ex_in_conv)
      with rng have "h \<in> {Tolerated, Warning, Critical}" by blast
      with False h have "h = Tolerated" by blast
      with h have "Tolerated \<in> ?L" by simp
      then show ?thesis using False crit warn by (auto simp: channel_health_def)
    qed
    show "v \<le> channel_health is" if "v \<in> set (Good # levels (metric_healths_of is))" for v
      using that crit warn' none rng by (auto simp: channel_health_def health_order)
  qed
qed

lemma good_iff_no_issues: "channel_health is = Good \<longleftrightarrow> is = []"
  by (simp add: channel_health_def)

lemma detail_empty: "set is \<subseteq> set issue_words \<Longrightarrow> health_detail is = [] \<longleftrightarrow> is = []"
  using detail_round_trip [of "is"] by (auto simp: health_detail_def detail_issues_def)

text \<open>
  The detail string carries the whole verdict.  For every raw downstream or upstream
  channel that is assessed, splitting its detail string on the separator gives back the
  issues: the composite health is the worst of the power, signal-quality and modulation
  levels extracted from that string, and the channel is good exactly when the string is empty.
\<close>

theorem health_from_detail:
  assumes "assess_ds_channel t ch v mv fam = Inr (h, d) \<or> assess_us_channel t ch v = Inr (h, d)"
  shows "h = worst_health (Good # levels (metric_healths_of (detail_issues d)))
    \<and> h = channel_health (detail_issues d) \<and> (h = Good \<longleftrightarrow> d = [])"
proof -
  from assms have "\<exists>is. set is \<subseteq> set issue_words \<and> h = channel_health is \<and> d = health_detail is"
    unfolding assess_ds_channel_def assess_us_channel_def map_sum_Inr_iff
    using ds_issue_words us_issue_words by (metis (no_types, lifting) prod.inject)
  then obtain "is" where "set is \<subseteq> set issue_words" "h = channel_health is" "d = health_detail is" by blast
  then show ?thesis
    using detail_round_trip health_is_worst detail_empty good_iff_no_issues by metis
qed

definition demo_raw :: raw_channel where
  "demo_raw = \<lparr>raw_text = [''modulation'' \<mapsto> ''64-QAM'', ''type'' \<mapsto> ''SC-QAM''],
     raw_num = (\<lambda>_. PNone)(''powerLevel'' := PFloat (Fin 17), ''mse'' := PInt (- 26)), raw_snr_valid = Some False\<rparr>"

lemma demo_raw_assessed:
  "assess_ds_channel FALLBACK_THRESHOLDS demo_raw ''3.0'' None None =
     Inr (Critical, ''power critical + snr warning (unavailable) + snr tolerated'')"
proof -
  have k: "modulation_threshold_key (Some ''64QAM'') (th_downstream_power FALLBACK_THRESHOLDS) x = ''64QAM''"
    "modulation_threshold_key (Some ''64QAM'') (th_snr FALLBACK_THRESHOLDS) x = ''64QAM''" for x
    by (simp_all add: modulation_threshold_key_def FALLBACK_THRESHOLDS_def py_text text_of_def)
  have p: "parse_qam_order (Some ''64QAM'') = Some 64"
    using parse_order_first [of 64] by simp
  have m: "py_remove CHR ''-'' (py_upper (text_of (channel_modulation demo_raw))) = ''64QAM''"
    by (simp add: channel_modulation_def demo_raw_def py_text text_of_def or_text_def)
  have a: "assess_ds_modulation (Some ''64QAM'') ''3.0'' = Good"
    using p by (simp add: assess_ds_modulation_def text_of_def py_text)
  have o: "text_of (or_text None (Some ''3.0'')) = ''3.0''" by (simp add: text_of_def or_text_def)
  have f: "f64_of (- 26) = Fin (- 26)" using f64_of_bounded [of "- 26"] by simp
  have v: "float_unless_none (raw_num demo_raw ''powerLevel'') = Inr (Some (Fin 17))"
    "ds_snr_value demo_raw ''3.0'' = Inr (Some (Fin 26))" "raw_snr_valid demo_raw = Some False"
    by (simp_all add: demo_raw_def float_unless_none_def ds_snr_value_def float_or_none_def f)
  have e: "map_of (sec_entries (th_downstream_power FALLBACK_THRESHOLDS)) ''64QAM'' = Some (pband (- 10) 7 (- 12) 12 (- 14) 16)"
    "map_of (sec_entries (th_snr FALLBACK_THRESHOLDS)) ''64QAM'' = Some (sband 27 25 23)"
    by (simp_all add: FALLBACK_THRESHOLDS_def)
  have l: "resolve_ds_power_thresholds (Some ''64QAM'') None FALLBACK_THRESHOLDS =
      \<lparr>good_min = - 10, good_max = 7, warn_min = - 12, warn_max = 12, crit_min = - 14, crit_max = 16\<rparr>"
    "resolve_snr_thresholds (Some ''64QAM'') None FALLBACK_THRESHOLDS =
      \<lparr>snr_good_min = 27, snr_warn_min = 25, snr_crit_min = 23\<rparr>"
    by (simp_all add: resolve_ds_power_thresholds_def resolve_snr_thresholds_def ofdm_or_modulation_def k dict_get_def e
        limits_of_def pband_def sband_def get_or_def Let_def)
  show ?thesis
    by (simp add: assess_ds_channel_def assess_ds_issues_def m a l v o Let_def option_issue_def modulation_issue_def
        ds_power_issue_def snr_issue_def outside_def channel_health_def health_detail_def)
qed

theorem health_from_detail_witness:
  "assess_ds_channel FALLBACK_THRESHOLDS demo_raw ''3.0'' None None =
     Inr (Critical, ''power critical + snr warning (unavailable) + snr tolerated'')
    \<and> Critical = worst_health (Good # levels (metric_healths_of
        (detail_issues ''power critical + snr warning (unavailable) + snr tolerated'')))"
  using health_from_detail [of FALLBACK_THRESHOLDS demo_raw "''3.0''" None None Critical] demo_raw_assessed by blast

lemma ds_us_power_level: "channel_health (ds_power_issue l x) = channel_health (us_power_issue l x)"
  by (simp add: channel_health_def ds_power_issue_def us_power_issue_def outside_def)

text \<open>
  Power verdicts.  On well-nested limits a downstream power raises no issue exactly
  inside the good range, drifting away from the range on either side never improves the
  verdict, and the upstream rule, which also names the side, always agrees on the level.
\<close>

theorem power_verdicts:
  assumes "nested l"
  shows "(ds_power_issue l (Fin p) = [] \<longleftrightarrow> good_min l \<le> p \<and> p \<le> good_max l)
    \<and> (p \<le> q \<and> q \<le> good_max l \<longrightarrow> channel_health (ds_power_issue l (Fin q)) \<le> channel_health (ds_power_issue l (Fin p)))
    \<and> (q \<le> p \<and> good_min l \<le> q \<longrightarrow> channel_health (ds_power_issue l (Fin q)) \<le> channel_health (ds_power_issue l (Fin p)))
    \<and> channel_health (ds_power_issue l x) = channel_health (us_power_issue l x)"
  using assms ds_us_power_level [of l x]
  by (auto simp: nested_def channel_health_def ds_power_issue_def outside_def health_order)

theorem power_verdicts_witness:
  "(let l = resolve_ds_power_thresholds None (Some ''ofdm'') FALLBACK_THRESHOLDS in
    nested l \<and> channel_health (ds_power_issue l (Fin (- 16))) = channel_health (us_power_issue l (Fin (- 16))))"
  using power_verdicts [OF fallback_nested(1) [of None "Some ''ofdm''"], of 0 0 "Fin (- 16)"] fallback_nested(1)
  by (simp add: Let_def)

text \<open>
  The built-in profile is consistent.  Whatever modulation and family a channel reports,
  the limits resolved from the fallback profile nest: critical outside warning outside good,
  for downstream and upstream power and for the signal-to-noise ratio.
\<close>

theorem fallback_profile_nested:
  "nested (resolve_ds_power_thresholds m f FALLBACK_THRESHOLDS)
    \<and> nested (get_us_power_thresholds c FALLBACK_THRESHOLDS)
    \<and> snr_nested (resolve_snr_thresholds m f FALLBACK_THRESHOLDS)"
  by (simp add: fallback_nested)

lemma label_normal: "py_strip (py_remove CHR ''-'' (py_upper (nat_str q @ ''QAM''))) = nat_str q @ ''QAM''"
proof -
  have d: "list_all is_digit (nat_str q)" "nat_str q \<noteq> []" using nat_str_digits [of q] by auto
  have "py_upper (nat_str q @ ''QAM'') = nat_str q @ ''QAM''"
    using py_upper_digits [OF d(1)] by (simp add: py_text)
  moreover have "py_remove CHR ''-'' (nat_str q @ ''QAM'') = nat_str q @ ''QAM''"
    using py_remove_digits [OF d(1), of "CHR ''-''"] by (simp add: py_text is_digit_def)
  moreover have "py_strip (nat_str q @ ''QAM'') = nat_str q @ ''QAM''"
    using d by (intro strip_no_space) (auto simp: not_space_digit qam_chars hd_append list_all_iff)
  ultimately show ?thesis by simp
qed

text \<open>
  A higher modulation is never worse.  For the label of any QAM order, raising the
  order never raises the severity of the downstream modulation verdict, under either DOCSIS
  version, and under DOCSIS 3.1 the verdict is good exactly from 1024QAM on.
\<close>

theorem ds_modulation_antitone:
  "\<not> (q \<le> q' \<and> assess_ds_modulation (Some (nat_str q @ ''QAM'')) v < assess_ds_modulation (Some (nat_str q' @ ''QAM'')) v)
    \<and> (assess_ds_modulation (Some (nat_str q @ ''QAM'')) ''3.1'' = Good \<longleftrightarrow> 1024 \<le> q)"
proof -
  have n: "nat_str n @ ''QAM'' \<noteq> ''OFDM''" for n
    using nat_str_digits [of n] by (cases "nat_str n") (auto simp: is_digit_def)
  show ?thesis
    by (simp add: assess_ds_modulation_def text_of_def label_normal parse_order_first n Let_def health_order)
qed

end
