(* ===== verification/Signal_Families.thy ===== *)
theory Signal_Families
  imports Channel_Health "HOL-Library.Product_Lexorder"
begin

text \<open>
  The signal-family summaries of \<^verbatim>\<open>app/analyzer.py\<close>: statistics, distinct modulations, health
  counts, the cause and the driver of a degraded family, and the grouping of the analysed
  channels into families.
\<close>

text \<open>An analysed channel, as \<^verbatim>\<open>analyze\<close> builds it.\<close>

record channel =
  ch_id :: int
  ch_frequency :: string
  ch_power :: "f64 option"
  ch_modulation :: string
  ch_multiplex :: string
  ch_snr :: "f64 option"
  ch_correctable :: pyval
  ch_uncorrectable :: pyval
  ch_version :: string
  ch_family :: string
  ch_health :: health
  ch_detail :: string
  ch_bitrate :: "f64 option"
  ch_power_health :: "health option"
  ch_snr_health :: "health option"
  ch_modulation_health :: health
  ch_profile :: "string option"
  ch_snr_valid :: "bool option"

section \<open>Statistics\<close>

record metric_stats =
  st_min :: f64
  st_avg :: f64
  st_max :: f64

definition f_avg :: "f64 list \<Rightarrow> f64" where
  "f_avg xs = f_scale (1 / of_nat (length xs)) (f_sum xs)"

definition stats_of :: "f64 list \<Rightarrow> metric_stats option" where
  "stats_of filtered = (case filtered of [] \<Rightarrow> None
     | x # xs \<Rightarrow> Some \<lparr>st_min = f_round 1 (f_min x xs), st_avg = f_round 1 (f_avg (x # xs)),
         st_max = f_round 1 (f_max x xs)\<rparr>)"

definition known :: "'a option list \<Rightarrow> 'a list" where
  "known xs = map the (filter (\<lambda>x. x \<noteq> None) xs)"

definition stats :: "f64 option list \<Rightarrow> metric_stats option" where
  "stats values = stats_of (known values)"

section \<open>Distinct modulations\<close>

definition channel_modulation_value :: "bool \<Rightarrow> channel \<Rightarrow> string option" where
  "channel_modulation_value prefer_profile ch =
     (if prefer_profile then or_text (ch_profile ch) (Some (ch_modulation ch))
      else or_text (Some (ch_modulation ch)) (ch_profile ch))"

definition modulation_sort_key :: "string \<Rightarrow> nat \<times> string" where
  "modulation_sort_key v = (case parse_qam_order (Some v) of None \<Rightarrow> 0 | Some n \<Rightarrow> n, v)"

definition merged_health :: "(string \<times> health) list \<Rightarrow> string \<Rightarrow> health \<Rightarrow> health" where
  "merged_health table v h = (case map_of table v of None \<Rightarrow> h | Some old \<Rightarrow> worst_health [old, h])"

fun modulation_table :: "bool \<Rightarrow> (string \<times> health) list \<Rightarrow> channel list \<Rightarrow> (string \<times> health) list" where
  "modulation_table prefer_profile table [] = table"
| "modulation_table prefer_profile table (ch # chs) =
     (let v = text_of (channel_modulation_value prefer_profile ch) in
      if v = [] then modulation_table prefer_profile table chs
      else modulation_table prefer_profile (dict_set v (merged_health table v (ch_modulation_health ch)) table) chs)"

definition distinct_modulation_healths :: "bool \<Rightarrow> channel list \<Rightarrow> (string \<times> health) list" where
  "distinct_modulation_healths prefer_profile chs =
     sort_key (\<lambda>e. modulation_sort_key (fst e)) (modulation_table prefer_profile [] chs)"

section \<open>Counts, cause and driver\<close>

record health_counts =
  n_good :: nat
  n_tolerated :: nat
  n_warning :: nat
  n_critical :: nat

definition family_health_counts :: "channel list \<Rightarrow> health_counts" where
  "family_health_counts chs = (let n = (\<lambda>h. length (filter (\<lambda>c. ch_health c = h) chs)) in
     \<lparr>n_good = n Good, n_tolerated = n Tolerated, n_warning = n Warning, n_critical = n Critical\<rparr>)"

datatype cause = Power_Cause | Snr_Cause | Mer_Cause | Modulation_Cause

datatype driver_value = DV_Float f64 | DV_Text string

definition driver_value_of :: "bool \<Rightarrow> cause \<Rightarrow> channel \<Rightarrow> (driver_value option \<times> string option)" where
  "driver_value_of prefer_profile cause ch =
     (case cause of
        Power_Cause \<Rightarrow> (map_option DV_Float (ch_power ch), Some ''dBmV'')
      | Modulation_Cause \<Rightarrow> (let v = text_of (channel_modulation_value prefer_profile ch)
            in (if v = [] then None else Some (DV_Text v), None))
      | _ \<Rightarrow> (map_option DV_Float (ch_snr ch), Some ''dB''))"

definition level_or_good :: "health option \<Rightarrow> health" where
  "level_or_good h = (case h of None \<Rightarrow> Good | Some l \<Rightarrow> l)"

definition driver_health :: "cause \<Rightarrow> channel \<Rightarrow> health" where
  "driver_health cause ch =
     (case cause of
        Power_Cause \<Rightarrow> if ch_power ch = None then Missing else level_or_good (ch_power_health ch)
      | Modulation_Cause \<Rightarrow> ch_modulation_health ch
      | _ \<Rightarrow> if ch_snr ch = None then Missing else level_or_good (ch_snr_health ch))"

record driver =
  dr_channel :: int
  dr_dimension :: cause
  dr_family :: string
  dr_direction :: string
  dr_health :: health
  dr_unit :: "string option"
  dr_value :: driver_value

definition driver_candidate :: "string \<Rightarrow> string \<Rightarrow> bool \<Rightarrow> cause \<Rightarrow> channel \<Rightarrow> driver option" where
  "driver_candidate fam direction prefer_profile cause ch =
     (case driver_value_of prefer_profile cause ch of
        (None, _) \<Rightarrow> None
      | (Some v, u) \<Rightarrow>
          if driver_health cause ch = Missing then None
          else Some \<lparr>dr_channel = ch_id ch, dr_dimension = cause, dr_family = fam, dr_direction = direction,
             dr_health = driver_health cause ch, dr_unit = u, dr_value = v\<rparr>)"

definition family_health_driver ::
  "string \<Rightarrow> channel list \<Rightarrow> string \<Rightarrow> cause option \<Rightarrow> health \<Rightarrow> bool \<Rightarrow> driver option" where
  "family_health_driver fam chs direction cause family_health prefer_profile =
     (case cause of None \<Rightarrow> None
      | Some c \<Rightarrow>
          if family_health \<in> {Good, Missing} then None
          else case known (map (driver_candidate fam direction prefer_profile c) chs) of [] \<Rightarrow> None
            | d # ds \<Rightarrow> (case filter (\<lambda>x. dr_health x = family_health) (d # ds) of
                 x # _ \<Rightarrow> Some x
               | [] \<Rightarrow> Some (first_max dr_health d ds)))"

section \<open>The summary of a family\<close>

record family_summary =
  fs_family :: string
  fs_count :: nat
  fs_health :: health
  fs_cause :: "cause option"
  fs_counts :: health_counts
  fs_driver :: "driver option"
  fs_power :: "metric_stats option \<times> health"
  fs_modulations :: "(string \<times> health) list"
  fs_modulation_health :: health
  fs_quality :: "(cause \<times> metric_stats option \<times> health) option"

definition fs_modulation_value :: "family_summary \<Rightarrow> string option" where
  "fs_modulation_value s = (case fs_modulations s of [] \<Rightarrow> None | (v, _) # _ \<Rightarrow> Some v)"

definition fs_modulation_secondary :: "family_summary \<Rightarrow> string option" where
  "fs_modulation_secondary s = (if 1 < length (fs_modulations s) then Some (fst (last (fs_modulations s))) else None)"

definition power_health_of :: "channel list \<Rightarrow> health" where
  "power_health_of chs = worst_health (map (\<lambda>c. level_or_good (ch_power_health c)) (filter (\<lambda>c. ch_power c \<noteq> None) chs))"

definition quality_health_of :: "channel list \<Rightarrow> health" where
  "quality_health_of chs = worst_health (map (\<lambda>c. level_or_good (ch_snr_health c)) (filter (\<lambda>c. ch_snr c \<noteq> None) chs))"

definition family_summary_of :: "string \<Rightarrow> channel list \<Rightarrow> string \<Rightarrow> family_summary" where
  "family_summary_of fam chs direction =
     (let down = (direction = ''downstream'');
          quality_key = (if down \<and> fam = ''ofdm'' then Mer_Cause else Snr_Cause);
          prefer_profile = (fam \<in> {''ofdm'', ''ofdma''});
          mods = distinct_modulation_healths prefer_profile chs;
          ph = power_health_of chs;
          qh = (if down then quality_health_of chs else Missing);
          mh = worst_health (map snd mods);
          fh = worst_health ([ph, mh] @ (if down then [qh] else []));
          cause = (if fh \<in> {Good, Missing} then None
             else if mh = fh then Some Modulation_Cause
             else if ph = fh then Some Power_Cause
             else if down \<and> qh = fh then Some quality_key else None)
      in \<lparr>fs_family = fam, fs_count = length chs, fs_health = fh, fs_cause = cause,
          fs_counts = family_health_counts chs,
          fs_driver = family_health_driver fam chs direction cause fh prefer_profile,
          fs_power = (stats (map ch_power chs), ph),
          fs_modulations = mods, fs_modulation_health = mh,
          fs_quality = (if down then Some (quality_key, stats (map ch_snr chs), qh) else None)\<rparr>)"

text \<open>A stored channel without a family is classified from the fields it still has.\<close>

definition channel_view :: "channel \<Rightarrow> text_fields" where
  "channel_view ch = [''modulation'' \<mapsto> ch_modulation ch, ''multiplex'' \<mapsto> ch_multiplex ch,
     ''docsis_version'' \<mapsto> ch_version ch](''profile_modulation'' := ch_profile ch)"

definition ds_family_name :: "channel \<Rightarrow> string" where
  "ds_family_name ch = (if ch_family ch = [] then family_key (classify_ds (channel_view ch)) else ch_family ch)"

definition us_family_name :: "channel \<Rightarrow> string" where
  "us_family_name ch = (if ch_family ch = [] then family_key (classify_us (channel_view ch)) else ch_family ch)"

definition family_groups :: "(channel \<Rightarrow> string) \<Rightarrow> string list \<Rightarrow> channel list \<Rightarrow> (string \<times> channel list) list" where
  "family_groups name keys chs = filter (\<lambda>(k, g). g \<noteq> []) (group_by name (map (\<lambda>k. (k, [])) keys) chs)"

record direction_summary =
  dir_health :: health
  dir_families :: "(string \<times> family_summary) list"

definition direction_summary_of :: "string \<Rightarrow> (string \<times> channel list) list \<Rightarrow> direction_summary" where
  "direction_summary_of direction groups =
     (let fams = map (\<lambda>(k, g). (k, family_summary_of k g direction)) groups
      in \<lparr>dir_health = worst_health (map (\<lambda>(k, s). fs_health s) fams), dir_families = fams\<rparr>)"

definition build_signal_family_summary :: "channel list \<Rightarrow> channel list \<Rightarrow> direction_summary \<times> direction_summary" where
  "build_signal_family_summary ds us =
     (direction_summary_of ''downstream'' (family_groups ds_family_name [''sc_qam'', ''ofdm'', ''unknown''] ds),
      direction_summary_of ''upstream'' (family_groups us_family_name [''sc_qam'', ''ofdma'', ''unknown''] us))"

section \<open>The worst of several groups\<close>

lemma worst_health_upper: "(\<And>v. v \<in> set vs \<Longrightarrow> v \<le> h) \<Longrightarrow> worst_health vs \<le> h"
  by (metis health_bounds(1) worst_health_mem)

lemma worst_health_cong: "set vs - {Missing} = set ws - {Missing} \<Longrightarrow> worst_health vs = worst_health ws"
proof (rule antisym)
  have le: "worst_health xs \<le> worst_health ys" if "set xs - {Missing} = set ys - {Missing}" for xs ys
  proof (rule worst_health_upper)
    fix v assume "v \<in> set xs"
    then show "v \<le> worst_health ys" using that worst_health_ge [of v ys] by (cases "v = Missing") auto
  qed
  assume "set vs - {Missing} = set ws - {Missing}"
  from le [OF this] le [OF this [symmetric]]
  show "worst_health vs \<le> worst_health ws" "worst_health ws \<le> worst_health vs" by auto
qed

lemma worst_health_concat: "worst_health (map worst_health vss) = worst_health (concat vss)"
proof (rule antisym)
  show "worst_health (map worst_health vss) \<le> worst_health (concat vss)"
  proof (rule worst_health_upper)
    fix v assume "v \<in> set (map worst_health vss)"
    then obtain vs where vs: "vs \<in> set vss" "v = worst_health vs" by auto
    show "v \<le> worst_health (concat vss)" unfolding vs(2)
      by (rule worst_health_upper, rule worst_health_ge) (use vs(1) in auto)
  qed
  show "worst_health (concat vss) \<le> worst_health (map worst_health vss)"
  proof (rule worst_health_upper)
    fix v assume "v \<in> set (concat vss)"
    then obtain vs where vs: "vs \<in> set vss" "v \<in> set vs" by auto
    then have "v \<le> worst_health vs" by (intro worst_health_ge)
    also have "\<dots> \<le> worst_health (map worst_health vss)" by (rule worst_health_ge) (use vs(1) in auto)
    finally show "v \<le> worst_health (map worst_health vss)" .
  qed
qed

section \<open>The modulation table\<close>

lemma set_dict_set: "set (dict_set k v d) \<subseteq> insert (k, v) (set d)"
  by (induction d) (auto split: if_splits)

lemma dict_set_mem: "(k, v) \<in> set (dict_set k v d)"
  by (induction d) auto

lemma dict_set_other: "(k, v) \<in> set d \<Longrightarrow> k \<noteq> k' \<Longrightarrow> (k, v) \<in> set (dict_set k' v' d)"
  by (induction d) auto

lemma worst_pair: "worst_health [a, b] \<in> {a, b}"
  using worst_health_mem [of "[a, b]"] worst_health_Missing [of "[a, b]"] by (cases "worst_health [a, b] = Missing") auto

lemma merged_health_mem: "merged_health t v h = h \<or> (v, merged_health t v h) \<in> set t"
proof (cases "map_of t v")
  case (Some old)
  then show ?thesis using worst_pair [of old h] map_of_SomeD [OF Some] by (auto simp: merged_health_def)
qed (simp add: merged_health_def)

lemma merged_health_ge:
  "h \<le> merged_health t v h" "distinct (dict_keys t) \<Longrightarrow> (v, g) \<in> set t \<Longrightarrow> g \<le> merged_health t v h"
  by (simp_all add: merged_health_def worst_health_ge split: option.split)

abbreviation mod_text :: "bool \<Rightarrow> channel \<Rightarrow> string" where
  "mod_text p ch \<equiv> text_of (channel_modulation_value p ch)"

lemma modulation_table_step:
  "modulation_table p t (c # chs) = (if mod_text p c = [] then modulation_table p t chs
     else modulation_table p (dict_set (mod_text p c) (merged_health t (mod_text p c) (ch_modulation_health c)) t) chs)"
  by (simp add: Let_def)

declare modulation_table.simps(2) [simp del]
declare modulation_table_step [simp]

lemma modulation_table_entries:
  "(v, h) \<in> set (modulation_table p t chs) \<Longrightarrow>
    (v, h) \<in> set t \<or> (\<exists>ch \<in> set chs. mod_text p ch = v \<and> v \<noteq> [] \<and> ch_modulation_health ch = h)"
proof (induction chs arbitrary: t)
  case (Cons c chs)
  show ?case
  proof (cases "mod_text p c = []")
    case True
    then have "(v, h) \<in> set (modulation_table p t chs)" using Cons.prems by simp
    from Cons.IH [OF this] show ?thesis by auto
  next
    case False
    let ?h = "merged_health t (mod_text p c) (ch_modulation_health c)"
    from Cons.prems False have "(v, h) \<in> set (modulation_table p (dict_set (mod_text p c) ?h t) chs)" by simp
    from Cons.IH [OF this] consider "(v, h) \<in> set (dict_set (mod_text p c) ?h t)"
      | "\<exists>ch \<in> set chs. mod_text p ch = v \<and> v \<noteq> [] \<and> ch_modulation_health ch = h" by blast
    then show ?thesis
    proof cases
      case 1
      then have "(v, h) = (mod_text p c, ?h) \<or> (v, h) \<in> set t" using subsetD [OF set_dict_set 1] by simp
      then have "(v, h) \<in> set t \<or> v = mod_text p c \<and> h = ch_modulation_health c"
        using merged_health_mem [of t "mod_text p c" "ch_modulation_health c"] unfolding prod.inject by metis
      then show ?thesis using False by auto
    qed auto
  qed
qed simp

lemma modulation_table_keeps:
  "distinct (dict_keys t) \<Longrightarrow> (v, h) \<in> set t \<Longrightarrow> \<exists>h'. (v, h') \<in> set (modulation_table p t chs) \<and> h \<le> h'"
proof (induction chs arbitrary: t h)
  case (Cons c chs)
  show ?case
  proof (cases "mod_text p c = []")
    case False
    let ?t = "dict_set (mod_text p c) (merged_health t (mod_text p c) (ch_modulation_health c)) t"
    have "\<exists>g. (v, g) \<in> set ?t \<and> h \<le> g"
    proof (cases "v = mod_text p c")
      case True
      then have "h \<le> merged_health t (mod_text p c) (ch_modulation_health c)"
        using merged_health_ge(2) [OF Cons.prems(1), of v h] Cons.prems(2) by simp
      with dict_set_mem True show ?thesis by (intro exI conjI) simp_all
    qed (use dict_set_other [OF Cons.prems(2)] in blast)
    then obtain g where g: "(v, g) \<in> set ?t" "h \<le> g" by blast
    have "distinct (dict_keys ?t)" using Cons.prems(1) by simp
    from Cons.IH [OF this g(1)] g(2) False show ?thesis by auto
  qed (use Cons in simp)
qed auto

lemma modulation_table_ge:
  "distinct (dict_keys t) \<Longrightarrow> ch \<in> set chs \<Longrightarrow> mod_text p ch \<noteq> [] \<Longrightarrow>
    \<exists>h'. (mod_text p ch, h') \<in> set (modulation_table p t chs) \<and> ch_modulation_health ch \<le> h'"
proof (induction chs arbitrary: t)
  case (Cons c chs)
  let ?t = "dict_set (mod_text p c) (merged_health t (mod_text p c) (ch_modulation_health c)) t"
  have d: "distinct (dict_keys ?t)" using Cons.prems(1) by simp
  show ?case
  proof (cases "ch = c")
    case True
    have "(mod_text p c, merged_health t (mod_text p c) (ch_modulation_health c)) \<in> set ?t" by (rule dict_set_mem)
    from modulation_table_keeps [OF d this, of p chs] True Cons.prems(3) merged_health_ge(1) [of "ch_modulation_health c" t "mod_text p c"]
    show ?thesis by (auto intro: order_trans)
  next
    case False
    then show ?thesis using Cons.prems Cons.IH [OF d] Cons.IH [OF Cons.prems(1)] by (cases "mod_text p c = []") auto
  qed
qed simp

lemma modulation_health_exact:
  "worst_health (map snd (distinct_modulation_healths p chs))
    = worst_health (map ch_modulation_health (filter (\<lambda>c. mod_text p c \<noteq> []) chs))"
proof (rule antisym; rule worst_health_upper)
  fix h assume "h \<in> set (map snd (distinct_modulation_healths p chs))"
  then obtain v where "(v, h) \<in> set (modulation_table p [] chs)" by (auto simp: distinct_modulation_healths_def)
  from modulation_table_entries [OF this]
  show "h \<le> worst_health (map ch_modulation_health (filter (\<lambda>c. mod_text p c \<noteq> []) chs))"
    by (auto intro: worst_health_ge)
next
  fix h assume "h \<in> set (map ch_modulation_health (filter (\<lambda>c. mod_text p c \<noteq> []) chs))"
  then obtain ch where ch: "ch \<in> set chs" "mod_text p ch \<noteq> []" "h = ch_modulation_health ch" by auto
  from modulation_table_ge [of "[]" ch chs p] ch obtain h' where
    "(mod_text p ch, h') \<in> set (modulation_table p [] chs)" "h \<le> h'" by auto
  then have "h' \<in> set (map snd (distinct_modulation_healths p chs))"
    by (force simp: distinct_modulation_healths_def)
  with \<open>h \<le> h'\<close> show "h \<le> worst_health (map snd (distinct_modulation_healths p chs))"
    by (meson order_trans worst_health_ge)
qed

section \<open>Levels of a channel and of its family\<close>

definition metric_levels :: "bool \<Rightarrow> channel \<Rightarrow> health list" where
  "metric_levels down ch = (if ch_power ch \<noteq> None then [level_or_good (ch_power_health ch)] else [])
     @ (if ch_modulation ch \<noteq> [] \<or> text_of (ch_profile ch) \<noteq> [] then [ch_modulation_health ch] else [])
     @ (if down \<and> ch_snr ch \<noteq> None then [level_or_good (ch_snr_health ch)] else [])"

lemma has_modulation: "mod_text p ch \<noteq> [] \<longleftrightarrow> ch_modulation ch \<noteq> [] \<or> text_of (ch_profile ch) \<noteq> []"
  by (auto simp: channel_modulation_value_def or_text_def text_of_def split: option.splits list.splits)

lemma family_health_exact:
  "fs_health (family_summary_of fam chs direction)
    = worst_health (concat (map (metric_levels (direction = ''downstream'')) chs))"
proof -
  let ?down = "direction = ''downstream''" and ?p = "fam \<in> {''ofdm'', ''ofdma''}"
  define P where "P = map (\<lambda>c. level_or_good (ch_power_health c)) (filter (\<lambda>c. ch_power c \<noteq> None) chs)"
  define M where "M = map ch_modulation_health (filter (\<lambda>c. mod_text ?p c \<noteq> []) chs)"
  define Q where "Q = (if ?down then map (\<lambda>c. level_or_good (ch_snr_health c)) (filter (\<lambda>c. ch_snr c \<noteq> None) chs) else [])"
  have "fs_health (family_summary_of fam chs direction)
      = worst_health ([worst_health P, worst_health M] @ (if ?down then [worst_health Q] else []))"
    by (simp add: family_summary_of_def Let_def P_def M_def Q_def power_health_of_def quality_health_of_def
        modulation_health_exact)
  also have "\<dots> = worst_health (map worst_health [P, M, Q])"
    by (rule worst_health_cong) (auto simp: Q_def worst_health_def)
  also have "\<dots> = worst_health (concat [P, M, Q])" by (rule worst_health_concat)
  also have "\<dots> = worst_health (concat (map (metric_levels ?down) chs))"
  proof (rule worst_health_cong)
    have "set (concat [P, M, Q]) = set (concat (map (metric_levels ?down) chs))"
      unfolding P_def M_def Q_def metric_levels_def has_modulation by auto
    then show "set (concat [P, M, Q]) - {Missing} = set (concat (map (metric_levels ?down) chs)) - {Missing}" by simp
  qed
  finally show ?thesis .
qed

lemma family_groups_mem:
  assumes "(k, g) \<in> set (family_groups name keys chs)" "distinct keys"
  shows "g = filter (\<lambda>c. name c = k) chs \<and> g \<noteq> []"
proof -
  have d: "distinct (dict_keys (group_by name (map (\<lambda>k. (k, [])) keys) chs))"
    using assms(2) by (intro group_by_distinct) (simp add: comp_def)
  have "(k, g) \<in> set (group_by name (map (\<lambda>k. (k, [])) keys) chs)" "g \<noteq> []"
    using assms(1) by (auto simp: family_groups_def)
  then have "dict_get (group_by name (map (\<lambda>k. (k, [])) keys) chs) k [] = g"
    using d by (simp add: dict_get_def)
  moreover have "dict_get (map (\<lambda>k. (k, [])) keys) k [] = ([] :: channel list)"
    by (auto simp: dict_get_def split: option.split dest: map_of_SomeD)
  ultimately show ?thesis using \<open>g \<noteq> []\<close> by (simp add: group_by_get)
qed

lemma family_groups_keys:
  assumes "distinct keys"
  shows "distinct (dict_keys (family_groups name keys chs))"
    "c \<in> set chs \<Longrightarrow> \<exists>g. (name c, g) \<in> set (family_groups name keys chs) \<and> c \<in> set g"
proof -
  let ?G = "group_by name (map (\<lambda>k. (k, [])) keys) chs"
  have d: "distinct (dict_keys ?G)" using assms by (intro group_by_distinct) (simp add: comp_def)
  show "distinct (dict_keys (family_groups name keys chs))"
    using d by (simp add: family_groups_def distinct_map_filter)
  assume c: "c \<in> set chs"
  have "name c \<in> set (dict_keys ?G)" using c by (subst group_by_keys) simp
  then obtain g where g: "(name c, g) \<in> set ?G" by auto
  have "dict_get ?G (name c) [] = g" using g d by (simp add: dict_get_def)
  moreover have "dict_get ?G (name c) [] = dict_get (map (\<lambda>k. (k, [])) keys) (name c) [] @ filter (\<lambda>x. name x = name c) chs"
    by (rule group_by_get)
  ultimately have "c \<in> set g" using c by auto
  then show "\<exists>g. (name c, g) \<in> set (family_groups name keys chs) \<and> c \<in> set g"
    using g by (auto simp: family_groups_def)
qed

lemma family_groups_count:
  assumes "distinct keys"
  shows "sum_list (map (\<lambda>(k, g). length g) (family_groups name keys chs)) = length chs"
proof -
  let ?G = "group_by name (map (\<lambda>k. (k, [])) keys) chs"
  have z: "sum_list (map (\<lambda>(k, g). length g) (filter (\<lambda>(k, g). g \<noteq> []) G)) = sum_list (map (\<lambda>(k, g). length g) G)"
    for G :: "(string \<times> channel list) list"
    by (induction G) auto
  have "sum_list (map (\<lambda>(k, g). length g) ?G) = sum_list (map (\<lambda>(k, g). length g) (map (\<lambda>k. (k, [] :: channel list)) keys)) + length chs"
    by (rule group_by_sum) (use assms in \<open>simp_all add: comp_def\<close>)
  then show ?thesis by (simp add: family_groups_def z comp_def)
qed

lemma groups_union: "distinct keys \<Longrightarrow> (\<Union>(k, g) \<in> set (family_groups name keys chs). set g) = set chs"
  using family_groups_mem [of _ _ name keys chs] family_groups_keys(2) [of keys _ chs name] by fastforce

lemma direction_health_exact:
  assumes "distinct keys"
  shows "dir_health (direction_summary_of direction (family_groups name keys chs))
    = worst_health (concat (map (metric_levels (direction = ''downstream'')) chs))"
proof -
  let ?L = "metric_levels (direction = ''downstream'')" and ?G = "family_groups name keys chs"
  have "dir_health (direction_summary_of direction ?G)
      = worst_health (map worst_health (map (\<lambda>(k, g). concat (map ?L g)) ?G))"
    by (simp add: direction_summary_of_def Let_def comp_def case_prod_beta family_health_exact)
  also have "\<dots> = worst_health (concat (map (\<lambda>(k, g). concat (map ?L g)) ?G))" by (rule worst_health_concat)
  also have "\<dots> = worst_health (concat (map ?L chs))"
  proof (rule worst_health_cong)
    have "set (concat (map (\<lambda>(k, g). concat (map ?L g)) ?G)) = set (concat (map ?L chs))"
      unfolding set_concat set_map groups_union [OF assms, of name chs, symmetric] by fastforce
    then show "set (concat (map (\<lambda>(k, g). concat (map ?L g)) ?G)) - {Missing} = set (concat (map ?L chs)) - {Missing}"
      by simp
  qed
  finally show ?thesis .
qed

lemma keys_distinct: "distinct [''sc_qam'', ''ofdm'', ''unknown'']" "distinct [''sc_qam'', ''ofdma'', ''unknown'']"
  by simp_all

text \<open>
  The families partition the channels.  For any analysed channels the downstream family
  counts add up to all downstream channels and the upstream ones to all upstream channels, no
  family name occurs twice, and each listed family counts exactly the channels of that name.
\<close>

theorem families_partition:
  "(let (d, u) = build_signal_family_summary ds us in
     sum_list (map (\<lambda>(k, s). fs_count s) (dir_families d)) = length ds
     \<and> sum_list (map (\<lambda>(k, s). fs_count s) (dir_families u)) = length us
     \<and> distinct (dict_keys (dir_families d)) \<and> distinct (dict_keys (dir_families u))
     \<and> list_all (\<lambda>(k, s). fs_family s = k \<and> fs_count s = length (filter (\<lambda>c. ds_family_name c = k) ds)) (dir_families d)
     \<and> list_all (\<lambda>(k, s). fs_family s = k \<and> fs_count s = length (filter (\<lambda>c. us_family_name c = k) us)) (dir_families u))"
proof -
  have sums: "sum_list (map (\<lambda>(k, s). fs_count s) (dir_families (direction_summary_of dr G)))
      = sum_list (map (\<lambda>(k, g). length g) G)" for dr G
    by (simp add: direction_summary_of_def family_summary_of_def Let_def comp_def split_def)
  have keys: "dict_keys (dir_families (direction_summary_of dr G)) = dict_keys G" for dr G
    by (simp add: direction_summary_of_def Let_def comp_def case_prod_beta)
  have members: "list_all (\<lambda>(k, s). fs_family s = k \<and> fs_count s = length (filter (\<lambda>c. name c = k) chs))
      (dir_families (direction_summary_of dr (family_groups name ks chs)))" if "distinct ks" for dr name ks chs
    using family_groups_mem [OF _ that, of _ _ name chs]
    by (fastforce simp: direction_summary_of_def family_summary_of_def Let_def list_all_iff)
  show ?thesis
    using family_groups_count [OF keys_distinct(1), of ds_family_name ds] family_groups_count [OF keys_distinct(2), of us_family_name us]
      family_groups_keys(1) [OF keys_distinct(1), of ds_family_name ds] family_groups_keys(1) [OF keys_distinct(2), of us_family_name us]
      members [OF keys_distinct(1), of ds_family_name ds "''downstream''"] members [OF keys_distinct(2), of us_family_name us "''upstream''"]
    unfolding build_signal_family_summary_def Let_def prod.case sums keys by blast
qed

text \<open>
  Direction health is exact.  The health reported for a direction is the worst of all
  metric levels of its channels: power where a power was read, modulation where a modulation
  is known and, downstream only, signal quality where it was read.  The grouping into
  families neither hides nor invents a level.
\<close>

theorem direction_health_is_worst_metric:
  "(let (d, u) = build_signal_family_summary ds us in
     dir_health d = worst_health (concat (map (metric_levels True) ds))
     \<and> dir_health u = worst_health (concat (map (metric_levels False) us)))"
  using direction_health_exact [OF keys_distinct(1), of "''downstream''" ds_family_name ds]
    direction_health_exact [OF keys_distinct(2), of "''upstream''" us_family_name us]
  by (simp add: build_signal_family_summary_def)

section \<open>The driver of a degraded family\<close>

lemma known_mem: "x \<in> set (known xs) \<longleftrightarrow> Some x \<in> set xs"
  by (force simp: known_def)

lemma candidate_some:
  "driver_candidate fam dir p c ch = Some d \<longleftrightarrow>
     (\<exists>v. fst (driver_value_of p c ch) = Some v \<and> driver_health c ch \<noteq> Missing \<and>
       d = \<lparr>dr_channel = ch_id ch, dr_dimension = c, dr_family = fam, dr_direction = dir,
           dr_health = driver_health c ch, dr_unit = snd (driver_value_of p c ch), dr_value = v\<rparr>)"
  by (auto simp: driver_candidate_def split: prod.splits option.splits)

lemma driver_found:
  assumes "ch \<in> set chs" "fst (driver_value_of p c ch) \<noteq> None" "driver_health c ch = h" "h \<notin> {Good, Missing}"
  shows "\<exists>d ch'. family_health_driver fam chs dir (Some c) h p = Some d \<and> ch' \<in> set chs \<and>
    dr_channel d = ch_id ch' \<and> dr_dimension d = c \<and> dr_health d = h \<and> driver_health c ch' = h"
proof -
  let ?K = "known (map (driver_candidate fam dir p c) chs)"
  from assms obtain d0 where d0: "driver_candidate fam dir p c ch = Some d0" "dr_health d0 = h"
    by (auto simp: candidate_some)
  with assms(1) have m: "d0 \<in> set ?K" unfolding known_mem by (metis image_eqI list.set_map)
  with d0 have "d0 \<in> set (filter (\<lambda>x. dr_health x = h) ?K)" by simp
  then obtain d ds where f: "filter (\<lambda>x. dr_health x = h) ?K = d # ds"
    by (cases "filter (\<lambda>x. dr_health x = h) ?K") auto
  then have d: "d \<in> set ?K" "dr_health d = h" by (auto dest: filter_eq_ConsD)
  then obtain ch' where ch': "ch' \<in> set chs" "driver_candidate fam dir p c ch' = Some d"
    unfolding known_mem by auto
  have "family_health_driver fam chs dir (Some c) h p = Some d"
    using assms(4) f m by (cases ?K) (auto simp: family_health_driver_def)
  with ch' d(2) show ?thesis by (auto simp: candidate_some)
qed

text \<open>
  A degraded family names its driver.  When a family's health is neither good nor
  missing, the summary has a cause, and its driver is a channel of the family whose level in
  that very dimension is the family's health; a good or missing family names neither.
\<close>

theorem degraded_family_has_driver:
  "(let s = family_summary_of fam chs direction in
     (fs_health s \<in> {Good, Missing} \<and> fs_cause s = None \<and> fs_driver s = None)
     \<or> (\<exists>c d ch. fs_cause s = Some c \<and> fs_driver s = Some d \<and> ch \<in> set chs \<and> dr_channel d = ch_id ch
          \<and> dr_dimension d = c \<and> dr_health d = fs_health s \<and> driver_health c ch = fs_health s))"
proof -
  define down where "down = (direction = ''downstream'')"
  define qk where "qk = (if down \<and> fam = ''ofdm'' then Mer_Cause else Snr_Cause)"
  define p where "p = (fam \<in> {''ofdm'', ''ofdma''})"
  define ph where "ph = power_health_of chs"
  define qh where "qh = (if down then quality_health_of chs else Missing)"
  define mh where "mh = worst_health (map snd (distinct_modulation_healths p chs))"
  define fh where "fh = worst_health ([ph, mh] @ (if down then [qh] else []))"
  define s where "s = family_summary_of fam chs direction"
  define c where "c = (if mh = fh then Modulation_Cause else if ph = fh then Power_Cause else qk)"
  have h: "fs_health s = fh"
    by (simp add: s_def family_summary_of_def Let_def fh_def down_def qk_def p_def ph_def qh_def mh_def)
  have mem: "fh = ph \<or> fh = mh \<or> (down \<and> fh = qh)" if "fh \<noteq> Missing"
    using worst_health_mem [of "[ph, mh] @ (if down then [qh] else [])"] that by (auto simp: fh_def split: if_splits)
  have cause: "fs_cause s = (if fh \<in> {Good, Missing} then None else Some c)"
    using mem by (auto simp: s_def family_summary_of_def Let_def c_def fh_def down_def qk_def p_def ph_def qh_def mh_def)
  have driver: "fs_driver s = family_health_driver fam chs direction (fs_cause s) fh p"
  proof -
    have "fs_driver s = family_health_driver fam chs direction (fs_cause s) (fs_health s) p"
      by (simp only: s_def p_def family_summary_of_def Let_def family_summary.select_convs)
    then show ?thesis by (simp only: h)
  qed
  show ?thesis
  proof (cases "fh \<in> {Good, Missing}")
    case True
    then show ?thesis unfolding s_def [symmetric] Let_def h cause driver by (simp add: family_health_driver_def)
  next
    case False
    have "\<exists>ch \<in> set chs. fst (driver_value_of p c ch) \<noteq> None \<and> driver_health c ch = fh"
    proof (cases "mh = fh")
      case True
      with False have "fh \<in> set (map ch_modulation_health (filter (\<lambda>c. mod_text p c \<noteq> []) chs))"
        using worst_health_mem unfolding mh_def modulation_health_exact by blast
      then show ?thesis using True by (auto simp: c_def driver_value_of_def driver_health_def Let_def)
    next
      case m: False
      show ?thesis
      proof (cases "ph = fh")
        case True
        with False have "fh \<in> set (map (\<lambda>c. level_or_good (ch_power_health c)) (filter (\<lambda>c. ch_power c \<noteq> None) chs))"
          using worst_health_mem unfolding ph_def power_health_of_def by blast
        then show ?thesis using m True by (auto simp: c_def driver_value_of_def driver_health_def)
      next
        case p: False
        with m mem False have "down" "qh = fh" by auto
        with False have "fh \<in> set (map (\<lambda>c. level_or_good (ch_snr_health c)) (filter (\<lambda>c. ch_snr c \<noteq> None) chs))"
          using worst_health_mem unfolding qh_def quality_health_of_def by (metis insertI1 insertI2)
        then show ?thesis using m p by (auto simp: c_def qk_def driver_value_of_def driver_health_def)
      qed
    qed
    then obtain ch where "ch \<in> set chs" "fst (driver_value_of p c ch) \<noteq> None" "driver_health c ch = fh" by blast
    from driver_found [OF this False, of fam direction] show ?thesis
      using False unfolding s_def [symmetric] Let_def h cause driver by auto
  qed
qed

end
