(* ===== verification/Counter_Unwrap.thy ===== *)
theory Counter_Unwrap
  imports Py_Values "HOL-Library.Word"
begin

text \<open>
  \<^verbatim>\<open>app/storage/error_counters.py\<close>: unsigned 32-bit hardware counters as a growing series.
  A row is a map from keys to scalars; the per-key state holds the accumulated offset and the
  last raw and unwrapped values.  Python integers are unbounded, so everything is \<open>int\<close>;
  the width of the hardware counter appears as reduction modulo 2 ^ 32 and, in the exactness
  theorem, as a 32-bit word.
\<close>

definition UINT32_COUNTER_SIZE :: int where
  "UINT32_COUNTER_SIZE = 2 ^ 32"

definition UINT32_WRAP_PREVIOUS_MIN :: int where
  "UINT32_WRAP_PREVIOUS_MIN = 3221225472"

definition UINT32_WRAP_CURRENT_MAX :: int where
  "UINT32_WRAP_CURRENT_MAX = 1073741824"

lemmas uint32_defs = UINT32_COUNTER_SIZE_def UINT32_WRAP_PREVIOUS_MIN_def UINT32_WRAP_CURRENT_MAX_def

definition coerce_counter :: "pyval \<Rightarrow> int option res" where
  "coerce_counter v = (if v = PNone then Inr None else catch_type_value (map_sum id Some (py_int v)) None)"

definition looks_like_uint32_wrap :: "bool \<Rightarrow> int \<Rightarrow> int \<Rightarrow> bool" where
  "looks_like_uint32_wrap allow_aggregate previous_raw current_raw =
     (if previous_raw \<le> current_raw then False
      else let previous_mod = previous_raw mod UINT32_COUNTER_SIZE;
               current_mod = current_raw mod UINT32_COUNTER_SIZE
           in if UINT32_WRAP_PREVIOUS_MIN \<le> previous_mod \<and> current_mod \<le> UINT32_WRAP_CURRENT_MAX then True
              else if \<not> allow_aggregate then False
              else UINT32_WRAP_PREVIOUS_MIN \<le> (previous_raw - current_raw) mod UINT32_COUNTER_SIZE)"

text \<open>The inner \<^verbatim>\<open>while\<close>: periods are added until the value exceeds the previous one.\<close>

function raise_offset :: "int \<Rightarrow> int \<Rightarrow> int \<Rightarrow> int" where
  "raise_offset raw prev off =
     (if raw + off \<le> prev then raise_offset raw prev (off + UINT32_COUNTER_SIZE) else off)"
  by pat_completeness auto
termination
  by (relation "measure (\<lambda>(raw, prev, off). nat (prev - raw - off + 1))") (auto simp: uint32_defs)

declare raise_offset.simps [simp del]

record unwrap_state =
  offset :: int
  previous :: "(int \<times> int) option"

definition init_unwrap :: unwrap_state where
  "init_unwrap = \<lparr>offset = 0, previous = None\<rparr>"

definition unwrap_step :: "bool \<Rightarrow> unwrap_state \<Rightarrow> int \<Rightarrow> int \<times> unwrap_state" where
  "unwrap_step allow s raw =
     (let off = (case previous s of None \<Rightarrow> offset s
        | Some (praw, punw) \<Rightarrow>
            if looks_like_uint32_wrap allow praw raw
            then raise_offset raw punw (offset s + UINT32_COUNTER_SIZE)
            else if raw < praw then 0 else offset s)
      in (raw + off, \<lparr>offset = off, previous = Some (raw, raw + off)\<rparr>))"

type_synonym counter_row = "string \<Rightarrow> pyval option"

fun unwrap_row :: "bool \<Rightarrow> string list \<Rightarrow> (string \<Rightarrow> unwrap_state) \<Rightarrow> counter_row
    \<Rightarrow> ((string \<Rightarrow> unwrap_state) \<times> counter_row) res" where
  "unwrap_row allow [] st row = Inr (st, row)"
| "unwrap_row allow (k # ks) st row =
     (case row k of None \<Rightarrow> unwrap_row allow ks st row
      | Some v \<Rightarrow> (case coerce_counter v of Inl e \<Rightarrow> Inl e
          | Inr None \<Rightarrow> unwrap_row allow ks st row
          | Inr (Some raw) \<Rightarrow>
              (let (u, s') = unwrap_step allow (st k) raw
               in unwrap_row allow ks (st(k := s')) (row(k \<mapsto> PInt u)))))"

fun unwrap_rows :: "bool \<Rightarrow> string list \<Rightarrow> (string \<Rightarrow> unwrap_state) \<Rightarrow> counter_row list \<Rightarrow> counter_row list res" where
  "unwrap_rows allow ks st [] = Inr []"
| "unwrap_rows allow ks st (r # rs) =
     (case unwrap_row allow ks st r of Inl e \<Rightarrow> Inl e
      | Inr (st', r') \<Rightarrow> map_sum id ((#) r') (unwrap_rows allow ks st' rs))"

definition unwrap_uint32_counter_series :: "bool \<Rightarrow> counter_row list \<Rightarrow> string list \<Rightarrow> counter_row list res" where
  "unwrap_uint32_counter_series allow rows keys = unwrap_rows allow (remdups keys) (\<lambda>_. init_unwrap) rows"

section \<open>One counter\<close>

lemma raise_offset_props:
  "prev < raw + raise_offset raw prev off \<and> off \<le> raise_offset raw prev off
   \<and> UINT32_COUNTER_SIZE dvd (raise_offset raw prev off - off)
   \<and> (off < raise_offset raw prev off \<longrightarrow> raw + raise_offset raw prev off \<le> prev + UINT32_COUNTER_SIZE)"
proof (induction raw prev off rule: raise_offset.induct)
  case (1 raw prev off)
  show ?case
  proof (cases "raw + off \<le> prev")
    case True
    have r: "raise_offset raw prev off = raise_offset raw prev (off + UINT32_COUNTER_SIZE)"
      using True by (simp add: raise_offset.simps [of raw prev off])
    have "UINT32_COUNTER_SIZE dvd (raise_offset raw prev (off + UINT32_COUNTER_SIZE) - off)"
      using 1 [OF True] dvd_add [of UINT32_COUNTER_SIZE
        "raise_offset raw prev (off + UINT32_COUNTER_SIZE) - (off + UINT32_COUNTER_SIZE)" UINT32_COUNTER_SIZE]
      by simp
    with 1 [OF True] True show ?thesis unfolding r by (auto simp: uint32_defs)
  next
    case False
    then show ?thesis by (simp add: raise_offset.simps [of raw prev off])
  qed
qed

definition unwrap_inv :: "unwrap_state \<Rightarrow> bool" where
  "unwrap_inv s \<longleftrightarrow> 0 \<le> offset s \<and> UINT32_COUNTER_SIZE dvd offset s \<and>
     (case previous s of None \<Rightarrow> True | Some (praw, punw) \<Rightarrow> punw = praw + offset s)"

lemma unwrap_inv_init: "unwrap_inv init_unwrap"
  by (simp add: unwrap_inv_def init_unwrap_def)

lemma raise_offset_dvd:
  "UINT32_COUNTER_SIZE dvd off \<Longrightarrow> UINT32_COUNTER_SIZE dvd raise_offset raw prev off"
  using raise_offset_props [of prev raw off] dvd_add [of UINT32_COUNTER_SIZE "raise_offset raw prev off - off" off]
  by simp

lemma unwrap_step_inv: "unwrap_inv s \<Longrightarrow> unwrap_inv (snd (unwrap_step allow s raw))"
proof (cases "previous s")
  case (Some p)
  assume inv: "unwrap_inv s"
  obtain praw punw where p: "p = (praw, punw)" by (cases p)
  have "0 \<le> raise_offset raw punw (offset s + UINT32_COUNTER_SIZE)"
    using raise_offset_props [of punw raw "offset s + UINT32_COUNTER_SIZE"] inv
    by (simp add: unwrap_inv_def uint32_defs)
  moreover have "UINT32_COUNTER_SIZE dvd raise_offset raw punw (offset s + UINT32_COUNTER_SIZE)"
    using inv by (intro raise_offset_dvd) (simp add: unwrap_inv_def)
  ultimately show ?thesis using inv Some p by (simp add: unwrap_step_def Let_def unwrap_inv_def)
qed (simp add: unwrap_step_def unwrap_inv_def Let_def)

lemma unwrap_step_congruent:
  "unwrap_inv s \<Longrightarrow> fst (unwrap_step allow s raw) mod UINT32_COUNTER_SIZE = raw mod UINT32_COUNTER_SIZE"
proof -
  assume "unwrap_inv s"
  from unwrap_step_inv [OF this, of allow raw]
  obtain k where "offset (snd (unwrap_step allow s raw)) = UINT32_COUNTER_SIZE * k"
    by (auto simp: unwrap_inv_def dvd_def)
  moreover have "fst (unwrap_step allow s raw) = raw + offset (snd (unwrap_step allow s raw))"
    by (simp add: unwrap_step_def Let_def)
  ultimately show ?thesis by simp
qed

text \<open>
  One step of the unwrapping, from any state the series can be in.  The result is
  congruent to the raw value modulo 2 ^ 32; growth of the raw counter appears unchanged; a
  drop recognised as a rollover still gives a strictly larger value; any other drop is a
  reset, and the series restarts at the raw value.
\<close>

theorem unwrap_step_behaviour:
  assumes "unwrap_inv s" and "previous s = Some (praw, punw)"
  shows "fst (unwrap_step allow s raw) mod 2 ^ 32 = raw mod 2 ^ 32
    \<and> (praw \<le> raw \<longrightarrow> fst (unwrap_step allow s raw) - punw = raw - praw)
    \<and> (looks_like_uint32_wrap allow praw raw \<longrightarrow> punw < fst (unwrap_step allow s raw))
    \<and> (raw < praw \<and> \<not> looks_like_uint32_wrap allow praw raw \<longrightarrow> fst (unwrap_step allow s raw) = raw)"
proof -
  have "\<not> looks_like_uint32_wrap allow praw raw" if "praw \<le> raw"
    using that by (simp add: looks_like_uint32_wrap_def)
  then show ?thesis
    using assms unwrap_step_congruent [OF assms(1), of allow raw]
      raise_offset_props [of punw raw "offset s + UINT32_COUNTER_SIZE"]
    by (auto simp: unwrap_step_def Let_def unwrap_inv_def UINT32_COUNTER_SIZE_def)
qed

theorem unwrap_step_behaviour_witness:
  "4294967290 < fst (unwrap_step False \<lparr>offset = 0, previous = Some (4294967290, 4294967290)\<rparr> 5)"
  using unwrap_step_behaviour [of "\<lparr>offset = 0, previous = Some (4294967290, 4294967290)\<rparr>"
      4294967290 4294967290 False 5]
  by (simp add: unwrap_inv_def looks_like_uint32_wrap_def uint32_defs)

section \<open>Series\<close>

fun unwrap_series :: "bool \<Rightarrow> unwrap_state \<Rightarrow> int list \<Rightarrow> int list" where
  "unwrap_series allow s [] = []"
| "unwrap_series allow s (r # rs) = (let (u, s') = unwrap_step allow s r in u # unwrap_series allow s' rs)"

text \<open>The column of one key in the rows is the series of its raw values.\<close>

definition column :: "string \<Rightarrow> counter_row list \<Rightarrow> int list" where
  "column k rows = map (\<lambda>r. case r k of Some (PInt n) \<Rightarrow> n | _ \<Rightarrow> 0) rows"

definition int_rows :: "string list \<Rightarrow> counter_row list \<Rightarrow> bool" where
  "int_rows ks rows \<longleftrightarrow> (\<forall>r \<in> set rows. \<forall>k \<in> set ks. \<exists>n. r k = Some (PInt n))"

lemma coerce_PInt [simp]: "coerce_counter (PInt n) = Inr (Some n)"
  by (simp add: coerce_counter_def)

lemma unwrap_row_ints:
  assumes "distinct ks" and "\<forall>k \<in> set ks. \<exists>n. row k = Some (PInt n)"
  shows "\<exists>st' row'. unwrap_row allow ks st row = Inr (st', row') \<and>
    (\<forall>k. k \<notin> set ks \<longrightarrow> st' k = st k \<and> row' k = row k) \<and>
    (\<forall>k n. k \<in> set ks \<longrightarrow> row k = Some (PInt n) \<longrightarrow>
       row' k = Some (PInt (fst (unwrap_step allow (st k) n))) \<and> st' k = snd (unwrap_step allow (st k) n))"
  using assms
proof (induction ks arbitrary: st row)
  case (Cons a ks)
  then obtain n where n: "row a = Some (PInt n)" by auto
  obtain u s' where us: "unwrap_step allow (st a) n = (u, s')" by (cases "unwrap_step allow (st a) n")
  have "\<forall>k \<in> set ks. \<exists>n. (row(a \<mapsto> PInt u)) k = Some (PInt n)" using Cons.prems by auto
  with Cons.prems(1) have "\<exists>st' row'. unwrap_row allow ks (st(a := s')) (row(a \<mapsto> PInt u)) = Inr (st', row') \<and>
    (\<forall>k. k \<notin> set ks \<longrightarrow> st' k = (st(a := s')) k \<and> row' k = (row(a \<mapsto> PInt u)) k) \<and>
    (\<forall>k n. k \<in> set ks \<longrightarrow> (row(a \<mapsto> PInt u)) k = Some (PInt n) \<longrightarrow>
       row' k = Some (PInt (fst (unwrap_step allow ((st(a := s')) k) n)))
       \<and> st' k = snd (unwrap_step allow ((st(a := s')) k) n))"
    by (intro Cons.IH) auto
  then obtain st' row' where rec: "unwrap_row allow ks (st(a := s')) (row(a \<mapsto> PInt u)) = Inr (st', row')"
    and out: "\<forall>k. k \<notin> set ks \<longrightarrow> st' k = (st(a := s')) k \<and> row' k = (row(a \<mapsto> PInt u)) k"
    and inn: "\<forall>k n. k \<in> set ks \<longrightarrow> (row(a \<mapsto> PInt u)) k = Some (PInt n) \<longrightarrow>
       row' k = Some (PInt (fst (unwrap_step allow ((st(a := s')) k) n)))
       \<and> st' k = snd (unwrap_step allow ((st(a := s')) k) n)"
    by blast
  have "unwrap_row allow (a # ks) st row = Inr (st', row')" using rec n us by simp
  moreover have "k \<noteq> a" if "k \<in> set ks" for k using that Cons.prems(1) by auto
  ultimately show ?case using out inn n us Cons.prems(1)
    by (intro exI [of _ st'] exI [of _ row']) auto
qed simp

lemma unwrap_rows_columns:
  assumes "distinct ks" and "int_rows ks rows"
  shows "\<exists>rows'. unwrap_rows allow ks st rows = Inr rows' \<and> length rows' = length rows \<and> int_rows ks rows' \<and>
    (\<forall>k \<in> set ks. column k rows' = unwrap_series allow (st k) (column k rows))"
  using assms(2)
proof (induction rows arbitrary: st)
  case (Cons r rows)
  from Cons.prems have r: "\<forall>k \<in> set ks. \<exists>n. r k = Some (PInt n)" and rs: "int_rows ks rows"
    by (auto simp: int_rows_def)
  from unwrap_row_ints [OF assms(1) r, of allow st]
  obtain st' r' where row: "unwrap_row allow ks st r = Inr (st', r')"
    and inn: "\<forall>k n. k \<in> set ks \<longrightarrow> r k = Some (PInt n) \<longrightarrow>
       r' k = Some (PInt (fst (unwrap_step allow (st k) n))) \<and> st' k = snd (unwrap_step allow (st k) n)"
    by blast
  from Cons.IH [OF rs, of st'] obtain rows' where rec: "unwrap_rows allow ks st' rows = Inr rows'"
    "length rows' = length rows" "int_rows ks rows'"
    "\<forall>k \<in> set ks. column k rows' = unwrap_series allow (st' k) (column k rows)" by auto
  have col: "column k (r' # rows') = unwrap_series allow (st k) (column k (r # rows))" if k: "k \<in> set ks" for k
  proof -
    from r k obtain n where n: "r k = Some (PInt n)" by auto
    with inn k have "r' k = Some (PInt (fst (unwrap_step allow (st k) n)))"
      "st' k = snd (unwrap_step allow (st k) n)" by auto
    with n rec(4) k show ?thesis by (simp add: column_def case_prod_beta Let_def)
  qed
  have "int_rows ks (r' # rows')" using rec(3) inn r by (fastforce simp: int_rows_def)
  with row rec col show ?case by simp
qed (simp add: column_def)

text \<open>A hardware counter: the low 32 bits of what it really counted.\<close>

definition hw_counter :: "int \<Rightarrow> int" where
  "hw_counter v = uint (word_of_int v :: 32 word)"

lemma hw_counter_mod: "hw_counter v = v mod 2 ^ 32"
  by (simp add: hw_counter_def uint_word_of_int)

fun slow_growth :: "int \<Rightarrow> int list \<Rightarrow> bool" where
  "slow_growth v [] = True"
| "slow_growth v (w # ws) = (v \<le> w \<and> w - v \<le> 2 ^ 30 \<and> slow_growth w ws)"

lemma hw_step:
  assumes "v \<le> w" "w - v \<le> 2 ^ 30" "2 ^ 32 dvd base" "v - base = hw_counter v + off" "0 \<le> off" "2 ^ 32 dvd off"
  shows "unwrap_step False \<lparr>offset = off, previous = Some (hw_counter v, v - base)\<rparr> (hw_counter w)
    = (w - base, \<lparr>offset = w - base - hw_counter w, previous = Some (hw_counter w, w - base)\<rparr>)"
proof -
  define a b where "a = v mod 2 ^ 32" and "b = w mod 2 ^ 32"
  have ab: "0 \<le> a" "a < 2 ^ 32" "0 \<le> b" "b < 2 ^ 32" by (simp_all add: a_def b_def)
  have "2 ^ 32 dvd (w - v) - (b - a)"
    unfolding a_def b_def by (metis mod_diff_eq mod_eq_dvd_iff mod_mod_trivial)
  then obtain k where k: "(w - v) - (b - a) = 2 ^ 32 * k" by (auto simp: dvd_def)
  have k01: "k = (if a \<le> b then 0 else 1)"
    using k ab assms(1,2) by (auto split: if_splits)
  have hv: "hw_counter v = a" "hw_counter w = b" by (simp_all add: hw_counter_mod a_def b_def)
  have vb: "v - base = a + off" using assms(4) hv by simp
  show ?thesis
  proof (cases "a \<le> b")
    case True
    then have wb: "w - base = b + off" using k k01 vb by simp
    have "\<not> looks_like_uint32_wrap False a b" using True by (simp add: looks_like_uint32_wrap_def)
    then show ?thesis using True unfolding hv vb wb by (simp add: unwrap_step_def Let_def)
  next
    case False
    then have w: "w - v = b - a + 2 ^ 32" using k k01 by simp
    then have wb: "w - base = b + (off + UINT32_COUNTER_SIZE)" using vb by (simp add: UINT32_COUNTER_SIZE_def)
    have thr: "UINT32_WRAP_PREVIOUS_MIN \<le> a" "b \<le> UINT32_WRAP_CURRENT_MAX"
      using assms(2) ab w by (simp_all add: uint32_defs)
    have "a mod UINT32_COUNTER_SIZE = a" "b mod UINT32_COUNTER_SIZE = b"
      using ab by (simp_all add: UINT32_COUNTER_SIZE_def)
    then have lw: "looks_like_uint32_wrap False a b"
      using False thr by (simp add: looks_like_uint32_wrap_def)
    have "raise_offset b (a + off) (off + UINT32_COUNTER_SIZE) = off + UINT32_COUNTER_SIZE"
      using ab by (subst raise_offset.simps) (simp add: UINT32_COUNTER_SIZE_def)
    then show ?thesis using lw unfolding hv vb wb by (simp add: unwrap_step_def Let_def)
  qed
qed

lemma hw_series:
  assumes "slow_growth v ws" "2 ^ 32 dvd base" "v - base = hw_counter v + off" "0 \<le> off" "2 ^ 32 dvd off"
  shows "unwrap_series False \<lparr>offset = off, previous = Some (hw_counter v, v - base)\<rparr> (map hw_counter ws)
    = map (\<lambda>w. w - base) ws"
  using assms
proof (induction ws arbitrary: v off)
  case (Cons w ws)
  define off' where "off' = w - base - hw_counter w"
  have st: "unwrap_step False \<lparr>offset = off, previous = Some (hw_counter v, v - base)\<rparr> (hw_counter w)
    = (w - base, \<lparr>offset = off', previous = Some (hw_counter w, w - base)\<rparr>)"
    using hw_step [of v w base off] Cons.prems by (simp add: off'_def)
  have hw: "w - hw_counter w = 2 ^ 32 * (w div 2 ^ 32)"
    unfolding hw_counter_mod by (rule minus_mod_eq_mult_div)
  have off': "off' = 2 ^ 32 * (w div 2 ^ 32) - base" using hw by (simp add: off'_def)
  have d: "2 ^ 32 dvd off'" unfolding off' using Cons.prems(2) by (intro dvd_diff dvd_triv_left)
  have "0 \<le> v - base" using Cons.prems by (simp add: hw_counter_mod)
  then have "0 \<le> w - base" using Cons.prems(1) by simp
  moreover obtain b where b: "base = 2 ^ 32 * b" using Cons.prems(2) by (auto simp: dvd_def)
  ultimately have "0 \<le> off'" unfolding off' b by (simp add: div_int_pos_iff zdiv_mono1)
  with Cons.IH [of w off'] Cons.prems d st show ?case by (simp add: off'_def)
qed simp

text \<open>
  C9. Exact reconstruction.  Let a counter really take the non-decreasing values v, ws, and
  let the hardware report their low 32 bits.  If it grows by at most 2 ^ 30 between two
  polls, the rows the function returns contain the true values, up to the constant multiple
  of 2 ^ 32 already lost before the first row: no rollover is missed and none is invented.
\<close>

theorem unwrap_reconstructs:
  assumes "slow_growth v ws" and "k \<in> set keys"
    and "int_rows keys rows" and "column k rows = map hw_counter (v # ws)"
  shows "\<exists>rows'. unwrap_uint32_counter_series False rows keys = Inr rows'
    \<and> column k rows' = map (\<lambda>w. w - (v - v mod 2 ^ 32)) (v # ws)"
proof -
  have ir: "int_rows (remdups keys) rows" using assms(3) by (simp add: int_rows_def)
  from unwrap_rows_columns [OF distinct_remdups ir, of False "\<lambda>_. init_unwrap"]
  obtain rows' where r: "unwrap_rows False (remdups keys) (\<lambda>_. init_unwrap) rows = Inr rows'"
    "\<forall>k \<in> set keys. column k rows' = unwrap_series False init_unwrap (column k rows)" by auto
  define base where "base = v - v mod 2 ^ 32"
  have "unwrap_series False init_unwrap (map hw_counter (v # ws)) =
      (v - base) # unwrap_series False \<lparr>offset = 0, previous = Some (hw_counter v, v - base)\<rparr> (map hw_counter ws)"
    by (simp add: unwrap_step_def init_unwrap_def base_def hw_counter_mod)
  also have "\<dots> = map (\<lambda>w. w - base) (v # ws)"
    using hw_series [OF assms(1), of base 0] by (simp add: base_def hw_counter_mod)
  finally show ?thesis using r assms(2,4) by (simp add: unwrap_uint32_counter_series_def base_def)
qed

theorem unwrap_reconstructs_witness:
  "\<exists>rows'. unwrap_uint32_counter_series False
     [[''e'' \<mapsto> PInt 4294967290], [''e'' \<mapsto> PInt 4]] [''e''] = Inr rows' \<and> column ''e'' rows' = [4294967290, 4294967300]"
  using unwrap_reconstructs [of 4294967290 "[4294967300]" "''e''" "[''e'']"
      "[[''e'' \<mapsto> PInt 4294967290], [''e'' \<mapsto> PInt 4]]"]
  by (simp add: int_rows_def column_def hw_counter_mod)

end
