(* ===== verification/Error_Counters.thy ===== *)
theory Error_Counters
  imports Counter_Unwrap
begin

text \<open>
  \<^verbatim>\<open>app/error_counters.py\<close>: aggregation of the downstream error counters and their growth
  between snapshots.  A channel contributes the two raw counters and the identity fields;
  a counter that cannot be read as an integer is unknown (\<open>None\<close>).
\<close>

record counter_channel =
  cc_correctable :: pyval
  cc_uncorrectable :: pyval
  cc_docsis_version :: "string option"
  cc_channel_family :: "string option"
  cc_channel_id :: "int option"
  cc_frequency :: "string option"

record counter_coverage =
  total_channels :: nat
  correctable_channels :: nat
  uncorrectable_channels :: nat
  comparable_channels :: nat
  partial_channels :: nat
  unsupported_channels :: nat

record counter_aggregate =
  raw_correctable :: "int option"
  raw_uncorrectable :: "int option"
  comparable_correctable :: "int option"
  comparable_uncorrectable :: "int option"
  coverage :: counter_coverage
  family_coverage :: "(string \<times> counter_coverage) list"
  comparable_keys :: "string list"

definition supported :: "counter_aggregate \<Rightarrow> bool" where
  "supported a = (raw_correctable a \<noteq> None \<or> raw_uncorrectable a \<noteq> None)"

text \<open>\<^verbatim>\<open>str(channel.get(key) or "")\<close>.\<close>

definition key_text :: "string option \<Rightarrow> string" where
  "key_text s = (case s of None \<Rightarrow> [] | Some t \<Rightarrow> t)"

definition key_int :: "int option \<Rightarrow> string" where
  "key_int n = (case n of None \<Rightarrow> [] | Some m \<Rightarrow> if m = 0 then [] else int_str m)"

definition channel_key :: "counter_channel \<Rightarrow> string" where
  "channel_key c = py_join ''|'' [key_text (cc_docsis_version c), key_text (cc_channel_family c),
     key_int (cc_channel_id c), key_text (cc_frequency c)]"

section \<open>Aggregation of one snapshot\<close>

text \<open>A channel with both counters read.\<close>

type_synonym counted = "counter_channel \<times> int option \<times> int option"

definition read_counters :: "counter_channel \<Rightarrow> counted res" where
  "read_counters c = (case coerce_counter (cc_correctable c) of Inl e \<Rightarrow> Inl e
     | Inr a \<Rightarrow> map_sum id (\<lambda>b. (c, a, b)) (coerce_counter (cc_uncorrectable c)))"

definition corr :: "counted \<Rightarrow> int option" where "corr r = fst (snd r)"
definition uncorr :: "counted \<Rightarrow> int option" where "uncorr r = snd (snd r)"

abbreviation count :: "('a \<Rightarrow> bool) \<Rightarrow> 'a list \<Rightarrow> nat" where
  "count P xs \<equiv> length (filter P xs)"

definition coverage_of :: "counted list \<Rightarrow> counter_coverage" where
  "coverage_of rows =
     (let comparable = count (\<lambda>r. corr r \<noteq> None \<and> uncorr r \<noteq> None) rows;
          unsupported = count (\<lambda>r. corr r = None \<and> uncorr r = None) rows
      in \<lparr>total_channels = length rows,
          correctable_channels = count (\<lambda>r. corr r \<noteq> None) rows,
          uncorrectable_channels = count (\<lambda>r. uncorr r \<noteq> None) rows,
          comparable_channels = comparable,
          partial_channels = length rows - comparable - unsupported,
          unsupported_channels = unsupported\<rparr>)"

definition sum_known :: "int option list \<Rightarrow> int option" where
  "sum_known xs = (let known = map the (filter (\<lambda>x. x \<noteq> None) xs) in
     if known = [] then None else Some (sum_list known))"

definition row_family :: "counted \<Rightarrow> string" where
  "row_family r = (case cc_channel_family (fst r) of Some (c # cs) \<Rightarrow> c # cs | _ \<Rightarrow> ''unknown'')"

definition aggregate_rows :: "counted list \<Rightarrow> counter_aggregate" where
  "aggregate_rows rows =
     (let comparable = filter (\<lambda>r. corr r \<noteq> None \<and> uncorr r \<noteq> None) rows
      in \<lparr>raw_correctable = sum_known (map corr rows),
          raw_uncorrectable = sum_known (map uncorr rows),
          comparable_correctable = sum_known (map corr comparable),
          comparable_uncorrectable = sum_known (map uncorr comparable),
          coverage = coverage_of rows,
          family_coverage = map (\<lambda>(f, g). (f, coverage_of g)) (group_by row_family [] rows),
          comparable_keys = sort (map (channel_key \<circ> fst) comparable)\<rparr>)"

definition aggregate_error_counters :: "counter_channel list \<Rightarrow> counter_aggregate res" where
  "aggregate_error_counters channels = map_sum id aggregate_rows (mapM_res read_counters channels)"

definition uncorrectable_percentage :: "int option \<Rightarrow> int option \<Rightarrow> rat \<Rightarrow> f64 option res" where
  "uncorrectable_percentage correctable uncorrectable min_codewords =
     (case (correctable, uncorrectable) of
        (Some c, Some u) \<Rightarrow>
          (let total = c + u in
           if of_int total < min_codewords then Inr (Some (Fin 0))
           else if total = 0 then Inl ZeroDivisionError
           else (case f64_of (of_int u / of_int total) of
                   Fin q \<Rightarrow> Inr (Some (f_round 2 (f_scale 100 (Fin q))))
                 | _ \<Rightarrow> Inl OverflowError))
      | _ \<Rightarrow> Inr None)"

section \<open>Growth between snapshots\<close>

record error_baseline =
  bl_comparable_keys :: "string list option"
  bl_comparable_correctable :: "int option"
  bl_comparable_uncorrectable :: "int option"
  bl_raw_uncorrectable :: "int option"

definition empty_baseline :: error_baseline where
  "empty_baseline = \<lparr>bl_comparable_keys = None, bl_comparable_correctable = None,
     bl_comparable_uncorrectable = None, bl_raw_uncorrectable = None\<rparr>"

record counter_growth =
  comparable_correctable_baseline :: "int option"
  comparable_uncorrectable_baseline :: "int option"
  raw_uncorrectable_baseline :: "int option"
  comparable_correctable_recent_delta :: "int option"
  comparable_uncorrectable_recent_delta :: "int option"
  raw_uncorrectable_recent_delta :: "int option"
  comparable_correctable_delta :: "int option"
  comparable_uncorrectable_delta :: "int option"
  raw_uncorrectable_delta :: "int option"
  growth_keys :: "string list"
  comparable_counter_reset :: bool
  raw_uncorrectable_counter_reset :: bool
  schema_baseline :: bool

definition counter_reset :: "counter_growth \<Rightarrow> bool" where
  "counter_reset g = (comparable_counter_reset g \<or> raw_uncorrectable_counter_reset g)"

definition delta :: "int option \<Rightarrow> int option \<Rightarrow> int option" where
  "delta current prev = (case (current, prev) of (Some a, Some b) \<Rightarrow> Some (a - b) | _ \<Rightarrow> None)"

definition negative :: "int option \<Rightarrow> bool" where
  "negative d = (case d of Some n \<Rightarrow> n < 0 | None \<Rightarrow> False)"

definition or_else :: "'a option \<Rightarrow> 'a option \<Rightarrow> 'a option" where
  "or_else a b = (case a of None \<Rightarrow> b | Some _ \<Rightarrow> a)"

definition zero_if_known :: "int option \<Rightarrow> int option" where
  "zero_if_known x = (case x of None \<Rightarrow> None | Some _ \<Rightarrow> Some 0)"

definition calculate_error_counter_growth ::
  "counter_aggregate \<Rightarrow> counter_aggregate \<Rightarrow> error_baseline option \<Rightarrow> bool \<Rightarrow> counter_growth" where
  "calculate_error_counter_growth current prev previous_baseline force_fresh =
     (let baseline = (case previous_baseline of None \<Rightarrow> empty_baseline | Some b \<Rightarrow> b);
          previous_keys = comparable_keys prev;
          baseline_keys = (case bl_comparable_keys baseline of Some ks \<Rightarrow> ks | None \<Rightarrow> previous_keys);
          cohort_changed = (comparable_keys current \<noteq> previous_keys \<or> comparable_keys current \<noteq> baseline_keys);
          base_corr = or_else (bl_comparable_correctable baseline) (comparable_correctable prev);
          base_uncorr = or_else (bl_comparable_uncorrectable baseline) (comparable_uncorrectable prev);
          base_raw = or_else (bl_raw_uncorrectable baseline) (raw_uncorrectable prev);
          comparable_reset = (cohort_changed
            \<or> negative (delta (comparable_correctable current) (comparable_correctable prev))
            \<or> negative (delta (comparable_uncorrectable current) (comparable_uncorrectable prev))
            \<or> negative (delta (comparable_correctable current) base_corr)
            \<or> negative (delta (comparable_uncorrectable current) base_uncorr));
          raw_reset = (negative (delta (raw_uncorrectable current) (raw_uncorrectable prev))
            \<or> negative (delta (raw_uncorrectable current) base_raw));
          fresh_c = (force_fresh \<or> comparable_reset);
          fresh_r = (force_fresh \<or> raw_reset);
          bc = (if fresh_c then comparable_correctable current else base_corr);
          bu = (if fresh_c then comparable_uncorrectable current else base_uncorr);
          br = (if fresh_r then raw_uncorrectable current else base_raw)
      in \<lparr>comparable_correctable_baseline = bc,
          comparable_uncorrectable_baseline = bu,
          raw_uncorrectable_baseline = br,
          comparable_correctable_recent_delta =
            (if fresh_c then zero_if_known bc else delta (comparable_correctable current) (comparable_correctable prev)),
          comparable_uncorrectable_recent_delta =
            (if fresh_c then zero_if_known bu else delta (comparable_uncorrectable current) (comparable_uncorrectable prev)),
          raw_uncorrectable_recent_delta =
            (if fresh_r then zero_if_known br else delta (raw_uncorrectable current) (raw_uncorrectable prev)),
          comparable_correctable_delta =
            (if fresh_c then zero_if_known bc else delta (comparable_correctable current) bc),
          comparable_uncorrectable_delta =
            (if fresh_c then zero_if_known bu else delta (comparable_uncorrectable current) bu),
          raw_uncorrectable_delta =
            (if fresh_r then zero_if_known br else delta (raw_uncorrectable current) br),
          growth_keys = comparable_keys current,
          comparable_counter_reset = (comparable_reset \<and> \<not> force_fresh),
          raw_uncorrectable_counter_reset = (raw_reset \<and> \<not> force_fresh),
          schema_baseline = force_fresh\<rparr>)"

section \<open>Growth across identical cohorts\<close>

text \<open>The counter read for an observation: no booleans, no fractional floats, no overflow.\<close>

definition observed_value :: "pyval \<Rightarrow> int option" where
  "observed_value raw =
     (case coerce_counter raw of Inl _ \<Rightarrow> None
      | Inr None \<Rightarrow> None
      | Inr (Some n) \<Rightarrow> (case raw of PBool _ \<Rightarrow> None
          | PFloat x \<Rightarrow> if x = Fin (of_int n) then Some n else None
          | _ \<Rightarrow> Some n))"

fun observed_loop :: "(string \<times> int) list \<Rightarrow> (string \<times> pyval) list \<Rightarrow> (string \<times> int) list" where
  "observed_loop values [] = values"
| "observed_loop values ((key, raw) # chs) =
     (case observed_value raw of None \<Rightarrow> observed_loop values chs
      | Some n \<Rightarrow> if n < 0 then observed_loop values chs
          else if key \<in> set (dict_keys values) then []
          else observed_loop (dict_set key n values) chs)"

definition observed_counter_values ::
  "counter_channel list \<Rightarrow> (counter_channel \<Rightarrow> pyval) \<Rightarrow> (string \<times> int) list" where
  "observed_counter_values channels field = observed_loop [] (map (\<lambda>c. (channel_key c, field c)) channels)"

definition row_of :: "(string \<times> int) list \<Rightarrow> counter_row" where
  "row_of d k = map_option PInt (map_of d k)"

definition row_int :: "counter_row \<Rightarrow> string \<Rightarrow> int" where
  "row_int r k = (case r k of Some (PInt n) \<Rightarrow> n | _ \<Rightarrow> 0)"

definition observed_counter_increase ::
  "counter_channel list \<Rightarrow> counter_channel list \<Rightarrow> (counter_channel \<Rightarrow> pyval) \<Rightarrow> int option" where
  "observed_counter_increase prev current field =
     (let before = observed_counter_values prev field; after = observed_counter_values current field in
      if before = [] \<or> set (dict_keys before) \<noteq> set (dict_keys after) then None
      else case unwrap_uint32_counter_series False [row_of before, row_of after] (dict_keys before) of
        Inr [r0, r1] \<Rightarrow>
          (let deltas = map (\<lambda>k. row_int r1 k - row_int r0 k) (dict_keys before)
           in if list_all (\<lambda>d. 0 \<le> d) deltas then Some (sum_list deltas) else None)
      | _ \<Rightarrow> None)"

section \<open>Coverage\<close>

lemma coverage_partition:
  "comparable_channels (coverage_of rows) + partial_channels (coverage_of rows)
     + unsupported_channels (coverage_of rows) = length rows"
proof -
  have "count (\<lambda>r. corr r \<noteq> None \<and> uncorr r \<noteq> None) rows + count (\<lambda>r. corr r = None \<and> uncorr r = None) rows
      \<le> length rows"
    by (induction rows) auto
  then show ?thesis by (simp add: coverage_of_def Let_def)
qed

lemma coverage_inclusion:
  "comparable_channels (coverage_of rows) + unsupported_channels (coverage_of rows)
     + partial_channels (coverage_of rows) + comparable_channels (coverage_of rows)
   = correctable_channels (coverage_of rows) + uncorrectable_channels (coverage_of rows)
     + unsupported_channels (coverage_of rows)"
proof -
  have "count (\<lambda>r. corr r \<noteq> None) rows + count (\<lambda>r. uncorr r \<noteq> None) rows + count (\<lambda>r. corr r = None \<and> uncorr r = None) rows
      = length rows + count (\<lambda>r. corr r \<noteq> None \<and> uncorr r \<noteq> None) rows"
    by (induction rows) auto
  then show ?thesis using coverage_partition [of rows] by (simp add: coverage_of_def Let_def)
qed

lemma family_totals:
  "sum_list (map (\<lambda>(f, c). total_channels c) (family_coverage (aggregate_rows rows))) = length rows"
proof -
  have "sum_list (map (\<lambda>(k, g). length g) (group_by row_family [] rows)) = length rows"
    using group_by_sum [of length "[]" row_family rows] by simp
  then have "sum_list (map (\<lambda>p. length (snd p)) (group_by row_family [] rows)) = length rows"
    by (simp only: split_def)
  then show ?thesis by (simp add: aggregate_rows_def Let_def comp_def case_prod_beta coverage_of_def)
qed

lemma sum_known_None: "sum_known xs = None \<longleftrightarrow> (\<forall>x \<in> set xs. x = None)"
  by (auto simp: sum_known_def Let_def filter_empty_conv)

text \<open>
  Coverage accounting.  When the counters of a snapshot can be read, every channel is
  counted exactly once as comparable, partial or unsupported, a channel exposing a counter is
  counted under it (so the two counter counts exceed the channels with any counter by the
  comparable ones), the family coverages add up to the whole, and a raw total is unknown
  exactly when no channel exposes that counter.
\<close>

theorem coverage_accounting:
  assumes "mapM_res read_counters channels = Inr rows" and "aggregate_error_counters channels = Inr a"
  shows "comparable_channels (coverage a) + partial_channels (coverage a) + unsupported_channels (coverage a)
      = length channels
    \<and> correctable_channels (coverage a) + uncorrectable_channels (coverage a)
      = comparable_channels (coverage a) + (comparable_channels (coverage a) + partial_channels (coverage a))
    \<and> sum_list (map (\<lambda>(f, c). total_channels c) (family_coverage a)) = length channels
    \<and> (raw_correctable a = None \<longleftrightarrow> correctable_channels (coverage a) = 0)"
proof -
  have a: "a = aggregate_rows rows" and l: "length rows = length channels"
    using assms mapM_res_length [OF assms(1)] by (simp_all add: aggregate_error_counters_def)
  have c: "coverage a = coverage_of rows" by (simp add: a aggregate_rows_def Let_def)
  have "raw_correctable a = None \<longleftrightarrow> correctable_channels (coverage a) = 0"
    unfolding c by (simp add: a aggregate_rows_def Let_def sum_known_None coverage_of_def filter_empty_conv)
  then show ?thesis
    using coverage_partition [of rows] coverage_inclusion [of rows] family_totals [of rows] l
    by (simp add: c a [symmetric])
qed

text \<open>Two channels: one with both counters, one that cannot report corrected codewords.\<close>

definition demo_channels :: "counter_channel list" where
  "demo_channels =
     [\<lparr>cc_correctable = PInt 10, cc_uncorrectable = PInt 2, cc_docsis_version = Some ''3.0'',
        cc_channel_family = Some ''sc_qam'', cc_channel_id = Some 1, cc_frequency = Some ''602''\<rparr>,
      \<lparr>cc_correctable = PNone, cc_uncorrectable = PInt 3, cc_docsis_version = Some ''3.1'',
        cc_channel_family = Some ''ofdm'', cc_channel_id = Some 2, cc_frequency = None\<rparr>]"

lemma demo_rows:
  "mapM_res read_counters demo_channels =
     Inr [(demo_channels ! 0, Some 10, Some 2), (demo_channels ! 1, None, Some 3)]"
  by (simp add: demo_channels_def read_counters_def coerce_counter_def)

theorem coverage_accounting_witness:
  "\<exists>a. aggregate_error_counters demo_channels = Inr a
    \<and> comparable_channels (coverage a) + partial_channels (coverage a) + unsupported_channels (coverage a) = 2"
proof -
  have "aggregate_error_counters demo_channels =
      Inr (aggregate_rows [(demo_channels ! 0, Some 10, Some 2), (demo_channels ! 1, None, Some 3)])"
    by (simp add: aggregate_error_counters_def demo_rows)
  from coverage_accounting [OF demo_rows this] show ?thesis
    by (simp add: aggregate_error_counters_def demo_rows) (simp add: demo_channels_def)
qed

section \<open>The percentage\<close>

lemma ratio_bounds:
  assumes "0 \<le> u" "0 \<le> c" "0 < c + u"
  shows "0 \<le> (of_int u / of_int (c + u) :: rat) \<and> (of_int u / of_int (c + u) :: rat) \<le> 1"
  using assms by (simp add: divide_le_eq zero_le_divide_iff)

lemma f_round_hundred:
  assumes "0 \<le> x" "x \<le> 100"
  shows "f_round 2 (Fin x) = Fin (rnd 2 x) \<and> 0 \<le> rnd 2 x \<and> rnd 2 x \<le> 100"
proof -
  have r: "0 \<le> rnd 2 x" "rnd 2 x \<le> 100"
    using rnd_mono [OF assms(1), of 2] rnd_mono [OF assms(2), of 2] rnd_of_int [of 0 2] rnd_of_int [of 100 2]
    by simp_all
  have "0 \<le> rne (x * 10 ^ 2)" "rne (x * 10 ^ 2) \<le> 10000"
    using rne_mono [of 0 "x * 10 ^ 2"] rne_mono [of "x * 10 ^ 2" 10000] assms by simp_all
  then have "\<bar>of_int (rne (x * 10 ^ 2)) / 10 ^ 2 :: rat\<bar> \<le> 2 ^ 53"
    by (simp add: divide_le_eq)
  then show ?thesis using r by (simp add: f64_of_bounded rnd_def)
qed

lemma percentage_value:
  assumes "0 \<le> u" "0 \<le> c" "min_codewords \<le> of_int (c + u)" "0 < c + u"
  shows "\<exists>p. uncorrectable_percentage (Some c) (Some u) min_codewords = Inr (Some (Fin p)) \<and> 0 \<le> p \<and> p \<le> 100"
proof -
  define q :: rat where "q = of_int u / of_int (c + u)"
  have qd: "q = of_int u / (of_int c + of_int u)" by (simp add: q_def)
  have q: "0 \<le> q" "q \<le> 1" using ratio_bounds assms by (auto simp: q_def)
  then have "\<bar>q\<bar> \<le> 2 ^ 53" by simp
  then have f1: "f64_of q = Fin (fl q)" by (rule f64_of_bounded)
  have fq: "0 \<le> fl q" "fl q \<le> 1" using q fl_nonneg fl_le_exact [of q 1] by auto
  then have "\<bar>fl q * 100\<bar> \<le> 2 ^ 53" by simp
  then have f2: "f64_of (fl q * 100) = Fin (fl (fl q * 100))" by (rule f64_of_bounded)
  have "0 \<le> fl (fl q * 100)" "fl (fl q * 100) \<le> 100"
    using fq fl_nonneg fl_le_exact [of "fl q * 100" 100] by auto
  from f_round_hundred [OF this] show ?thesis
    using assms f1 f2 by (auto simp: uncorrectable_percentage_def qd [symmetric] Let_def)
qed

text \<open>
  The error percentage.  For counters that are not negative the function never raises
  once the sample is large enough to be scored: it answers a finite float between 0 and 100;
  below the minimum number of codewords it answers 0, and it is unknown exactly when one of
  the counters is.
\<close>

theorem percentage_bounded:
  assumes "0 \<le> u" and "0 \<le> c" and "0 < min_codewords"
  shows "(\<exists>p. uncorrectable_percentage (Some c) (Some u) min_codewords = Inr (Some (Fin p)) \<and> 0 \<le> p \<and> p \<le> 100)
    \<and> (of_int (c + u) < min_codewords \<longrightarrow> uncorrectable_percentage (Some c) (Some u) min_codewords = Inr (Some (Fin 0)))
    \<and> uncorrectable_percentage None x min_codewords = Inr None \<and> uncorrectable_percentage x None min_codewords = Inr None"
proof -
  have "0 < c + u" if "min_codewords \<le> of_int (c + u)"
  proof -
    have "(0::rat) < of_int (c + u)" using that assms(3) by linarith
    then show ?thesis by simp
  qed
  then show ?thesis using percentage_value [OF assms(1,2), of min_codewords]
    by (cases "of_int (c + u) < min_codewords") (auto simp: uncorrectable_percentage_def Let_def split: option.splits)
qed

theorem percentage_bounded_witness:
  "\<exists>p. uncorrectable_percentage (Some 9000) (Some 1000) 1000 = Inr (Some (Fin p)) \<and> 0 \<le> p \<and> p \<le> 100"
  using percentage_bounded [of 1000 9000 1000 None] by simp

section \<open>Growth\<close>

lemma delta_trans: "delta a b = Some m \<Longrightarrow> delta b c = Some n \<Longrightarrow> delta a c = Some (m + n)"
  by (auto simp: delta_def split: option.splits)

lemma not_negative_zero [simp]: "\<not> negative (zero_if_known x)"
  by (simp add: zero_if_known_def negative_def split: option.splits)

lemmas growth_def = calculate_error_counter_growth_def

text \<open>
  Two snapshots that cannot be compared: the comparable channels are not those of the previous
  snapshot or of the stored baseline, or a comparable total lies below the one of either.
\<close>

definition fallen :: "int option \<Rightarrow> int option \<Rightarrow> bool" where
  "fallen now before = (case (now, before) of (Some a, Some b) \<Rightarrow> a < b | _ \<Rightarrow> False)"

definition breaks_with_previous :: "counter_aggregate \<Rightarrow> counter_aggregate \<Rightarrow> bool" where
  "breaks_with_previous cur prev \<longleftrightarrow> comparable_keys cur \<noteq> comparable_keys prev
     \<or> fallen (comparable_correctable cur) (comparable_correctable prev)
     \<or> fallen (comparable_uncorrectable cur) (comparable_uncorrectable prev)"

definition breaks_with_baseline :: "counter_aggregate \<Rightarrow> error_baseline option \<Rightarrow> bool" where
  "breaks_with_baseline cur bl = (case bl of None \<Rightarrow> False | Some b \<Rightarrow>
     (case bl_comparable_keys b of None \<Rightarrow> False | Some ks \<Rightarrow> comparable_keys cur \<noteq> ks)
     \<or> fallen (comparable_correctable cur) (bl_comparable_correctable b)
     \<or> fallen (comparable_uncorrectable cur) (bl_comparable_uncorrectable b))"

text \<open>A comparison that starts over: no growth, both baselines at the current totals.\<close>

definition started_over :: "counter_aggregate \<Rightarrow> counter_growth \<Rightarrow> bool" where
  "started_over cur g \<longleftrightarrow>
     comparable_correctable_baseline g = comparable_correctable cur
     \<and> comparable_uncorrectable_baseline g = comparable_uncorrectable cur
     \<and> comparable_correctable_delta g = zero_if_known (comparable_correctable cur)
     \<and> comparable_uncorrectable_delta g = zero_if_known (comparable_uncorrectable cur)
     \<and> comparable_correctable_recent_delta g = zero_if_known (comparable_correctable cur)
     \<and> comparable_uncorrectable_recent_delta g = zero_if_known (comparable_uncorrectable cur)"

lemma growth_started_over:
  "comparable_counter_reset (calculate_error_counter_growth cur prev bl force) \<or> force
   \<Longrightarrow> started_over cur (calculate_error_counter_growth cur prev bl force)"
  by (cases force) (simp_all add: growth_def Let_def started_over_def)

lemma negative_fallen: "negative (delta x y) \<longleftrightarrow> fallen x y"
  by (simp add: fallen_def negative_def delta_def split: option.split)

lemma growth_breaks:
  assumes "breaks_with_previous cur prev \<or> breaks_with_baseline cur bl"
  shows "comparable_counter_reset (calculate_error_counter_growth cur prev bl force) \<or> force"
proof -
  have or: "fallen x b \<Longrightarrow> fallen x (or_else b p)" for x b p :: "int option"
    by (cases b) (simp_all add: or_else_def fallen_def split: option.splits)
  show ?thesis
  proof (cases "breaks_with_previous cur prev")
    case True
    then show ?thesis by (auto simp: growth_def Let_def breaks_with_previous_def negative_fallen)
  next
    case False
    with assms obtain b where b: "bl = Some b" by (cases bl) (auto simp: breaks_with_baseline_def)
    from False assms consider ks where "bl_comparable_keys b = Some ks" "comparable_keys cur \<noteq> ks"
      | "fallen (comparable_correctable cur) (bl_comparable_correctable b)"
      | "fallen (comparable_uncorrectable cur) (bl_comparable_uncorrectable b)"
      by (auto simp: breaks_with_baseline_def b split: option.splits)
    then show ?thesis
    proof cases
      case 1
      then show ?thesis by (auto simp: growth_def Let_def b)
    next
      case 2
      from or [OF this] show ?thesis by (simp add: growth_def Let_def b negative_fallen)
    next
      case 3
      from or [OF this] show ?thesis by (simp add: growth_def Let_def b negative_fallen)
    qed
  qed
qed

text \<open>
  C38. Growth never crosses a reset.  Whatever the two snapshots and the stored baseline, none of
  the six reported growths is negative.  When the set of comparable channels differs from the
  previous snapshot's or from the one stored with the baseline, or a comparable total has fallen
  below either, the four comparable growths, cumulative and since the last snapshot, are zero (or
  unknown), both comparable baselines move to the current totals and, unless a fresh baseline was
  forced, the reset is reported.
\<close>

theorem growth_never_negative:
  "(let g = calculate_error_counter_growth cur prev bl force in
    \<not> negative (comparable_correctable_recent_delta g) \<and> \<not> negative (comparable_uncorrectable_recent_delta g)
    \<and> \<not> negative (raw_uncorrectable_recent_delta g) \<and> \<not> negative (comparable_correctable_delta g)
    \<and> \<not> negative (comparable_uncorrectable_delta g) \<and> \<not> negative (raw_uncorrectable_delta g)
    \<and> (breaks_with_previous cur prev \<or> breaks_with_baseline cur bl \<longrightarrow>
         started_over cur g \<and> (comparable_counter_reset g \<or> force)))"
  unfolding Let_def
proof (intro conjI impI)
  let ?g = "calculate_error_counter_growth cur prev bl force"
  show "\<not> negative (comparable_correctable_recent_delta ?g)" "\<not> negative (comparable_uncorrectable_recent_delta ?g)"
      "\<not> negative (raw_uncorrectable_recent_delta ?g)" "\<not> negative (comparable_correctable_delta ?g)"
      "\<not> negative (comparable_uncorrectable_delta ?g)" "\<not> negative (raw_uncorrectable_delta ?g)"
    by (simp_all add: growth_def Let_def)
  assume "breaks_with_previous cur prev \<or> breaks_with_baseline cur bl"
  from growth_breaks [OF this] growth_started_over
  show "started_over cur ?g" "comparable_counter_reset ?g \<or> force" by blast+
qed

text \<open>The baseline a growth leaves for the next snapshot, as the analyzer stores it.\<close>

definition next_baseline :: "counter_growth \<Rightarrow> error_baseline" where
  "next_baseline g = \<lparr>bl_comparable_keys = Some (growth_keys g),
     bl_comparable_correctable = comparable_correctable_baseline g,
     bl_comparable_uncorrectable = comparable_uncorrectable_baseline g,
     bl_raw_uncorrectable = raw_uncorrectable_baseline g\<rparr>"

fun growth_run :: "counter_aggregate \<Rightarrow> error_baseline \<Rightarrow> counter_aggregate list \<Rightarrow> counter_growth list" where
  "growth_run prev bl [] = []"
| "growth_run prev bl (a # as) =
     (let g = calculate_error_counter_growth a prev (Some bl) False
      in g # growth_run a (next_baseline g) as)"

fun growing :: "counter_aggregate \<Rightarrow> int \<Rightarrow> int \<Rightarrow> counter_aggregate list \<Rightarrow> bool" where
  "growing p c u [] = True"
| "growing p c u (a # as) = (comparable_keys a = comparable_keys p \<and>
     (\<exists>c' u'. comparable_correctable a = Some c' \<and> comparable_uncorrectable a = Some u' \<and> c \<le> c' \<and> u \<le> u' \<and>
        growing p c' u' as))"

lemma growth_step:
  assumes "comparable_correctable prev = Some c" "comparable_uncorrectable prev = Some u"
    "bl_comparable_keys bl = Some (comparable_keys prev)" "comparable_keys a = comparable_keys prev"
    "bl_comparable_correctable bl = Some bc" "bl_comparable_uncorrectable bl = Some bu"
    "comparable_correctable a = Some c'" "comparable_uncorrectable a = Some u'"
    "c \<le> c'" "u \<le> u'" "bc \<le> c" "bu \<le> u"
  shows "let g = calculate_error_counter_growth a prev (Some bl) False in
    comparable_uncorrectable_delta g = Some (u' - bu) \<and> comparable_correctable_delta g = Some (c' - bc)
    \<and> comparable_uncorrectable_recent_delta g = Some (u' - u)
    \<and> \<not> comparable_counter_reset g
    \<and> bl_comparable_keys (next_baseline g) = Some (comparable_keys prev)
    \<and> bl_comparable_correctable (next_baseline g) = Some bc \<and> bl_comparable_uncorrectable (next_baseline g) = Some bu"
  using assms by (simp add: growth_def Let_def negative_def delta_def or_else_def next_baseline_def)

lemma growth_run_telescopes:
  assumes "comparable_correctable prev = Some c" "comparable_uncorrectable prev = Some u"
    "bl_comparable_keys bl = Some (comparable_keys prev)"
    "bl_comparable_correctable bl = Some bc" "bl_comparable_uncorrectable bl = Some bu" "bc \<le> c" "bu \<le> u"
    "comparable_keys p = comparable_keys prev" "growing p c u as"
  shows "list_all (\<lambda>g. \<not> comparable_counter_reset g) (growth_run prev bl as)
    \<and> (as \<noteq> [] \<longrightarrow> comparable_uncorrectable_delta (last (growth_run prev bl as)) =
         map_option (\<lambda>x. x - bu) (comparable_uncorrectable (last as)))
    \<and> map_option (\<lambda>x. x - u) (if as = [] then Some u else comparable_uncorrectable (last as)) =
        Some (sum_list (map (the \<circ> comparable_uncorrectable_recent_delta) (growth_run prev bl as)))"
  using assms
proof (induction as arbitrary: prev bl c u)
  case (Cons a as)
  from Cons.prems obtain c' u' where a: "comparable_correctable a = Some c'" "comparable_uncorrectable a = Some u'"
    "c \<le> c'" "u \<le> u'" "growing p c' u' as" "comparable_keys a = comparable_keys prev" by auto
  define g where "g = calculate_error_counter_growth a prev (Some bl) False"
  have g: "comparable_uncorrectable_delta g = Some (u' - bu)" "comparable_uncorrectable_recent_delta g = Some (u' - u)"
    "\<not> comparable_counter_reset g" "bl_comparable_keys (next_baseline g) = Some (comparable_keys a)"
    "bl_comparable_correctable (next_baseline g) = Some bc" "bl_comparable_uncorrectable (next_baseline g) = Some bu"
    using growth_step [OF Cons.prems(1-3) a(6) Cons.prems(4,5) a(1-4) Cons.prems(6,7)] a(6)
    by (simp_all add: g_def Let_def)
  have ih: "list_all (\<lambda>g. \<not> comparable_counter_reset g) (growth_run a (next_baseline g) as)
    \<and> (as \<noteq> [] \<longrightarrow> comparable_uncorrectable_delta (last (growth_run a (next_baseline g) as)) =
         map_option (\<lambda>x. x - bu) (comparable_uncorrectable (last as)))
    \<and> map_option (\<lambda>x. x - u') (if as = [] then Some u' else comparable_uncorrectable (last as)) =
        Some (sum_list (map (the \<circ> comparable_uncorrectable_recent_delta) (growth_run a (next_baseline g) as)))"
    using a g Cons.prems by (intro Cons.IH [of a c' u' "next_baseline g"]) auto
  have ne: "as \<noteq> [] \<Longrightarrow> growth_run a (next_baseline g) as \<noteq> []" by (cases as) (simp_all add: Let_def)
  show ?case using ih g a ne
    by (cases "as = []") (auto simp: g_def [symmetric] Let_def comp_def)
qed simp

text \<open>
  Cumulative growth telescopes.  Along any run of snapshots with the same comparable
  channels whose totals do not fall, starting right after a fresh baseline, no reset is ever
  reported, the last cumulative growth is the last total minus the baseline, and it equals
  the sum of the growths reported poll by poll.
\<close>

theorem growth_telescopes:
  assumes "comparable_correctable p = Some c" and "comparable_uncorrectable p = Some u"
    and "growing p c u as" and "as \<noteq> []"
  shows "(let gs = growth_run p (next_baseline (calculate_error_counter_growth p p None True)) as in
    list_all (\<lambda>g. \<not> comparable_counter_reset g) gs
    \<and> comparable_uncorrectable_delta (last gs) = map_option (\<lambda>x. x - u) (comparable_uncorrectable (last as))
    \<and> comparable_uncorrectable_delta (last gs) = Some (sum_list (map (the \<circ> comparable_uncorrectable_recent_delta) gs)))"
proof -
  define bl where "bl = next_baseline (calculate_error_counter_growth p p None True)"
  have "bl_comparable_keys bl = Some (comparable_keys p)" "bl_comparable_correctable bl = Some c"
      "bl_comparable_uncorrectable bl = Some u"
    using assms by (simp_all add: bl_def next_baseline_def growth_def Let_def)
  from growth_run_telescopes [OF assms(1,2) this order_refl order_refl refl assms(3)] assms(4)
  show ?thesis by (simp add: bl_def [symmetric] Let_def)
qed

definition demo_total :: "int \<Rightarrow> int \<Rightarrow> counter_aggregate" where
  "demo_total c u = aggregate_rows [(demo_channels ! 0, Some c, Some u)]"

theorem growth_telescopes_witness:
  "(let gs = growth_run (demo_total 10 2) (next_baseline (calculate_error_counter_growth (demo_total 10 2) (demo_total 10 2) None True))
      [demo_total 15 2, demo_total 20 9] in
    comparable_uncorrectable_delta (last gs) = Some 7)"
proof -
  have k: "comparable_keys (demo_total c u) = comparable_keys (demo_total 10 2)" for c u
    by (simp add: demo_total_def aggregate_rows_def corr_def uncorr_def Let_def)
  have v: "comparable_correctable (demo_total c u) = Some c" "comparable_uncorrectable (demo_total c u) = Some u" for c u
    by (simp_all add: demo_total_def aggregate_rows_def corr_def uncorr_def sum_known_def Let_def)
  have "growing (demo_total 10 2) 10 2 [demo_total 15 2, demo_total 20 9]"
    using k [of 15 2] k [of 20 9] by (simp add: v)
  from growth_telescopes [OF v this] show ?thesis by (simp add: Let_def v)
qed

text \<open>The baseline knows no channel, the two snapshots agree.\<close>

theorem growth_never_negative_witness:
  "let g = calculate_error_counter_growth (demo_total 15 2) (demo_total 10 2)
      (Some (empty_baseline\<lparr>bl_comparable_keys := Some []\<rparr>)) False
   in started_over (demo_total 15 2) g \<and> comparable_counter_reset g"
proof -
  have "comparable_keys (demo_total 15 2) \<noteq> []"
    by (simp add: demo_total_def aggregate_rows_def corr_def uncorr_def Let_def)
  then have "breaks_with_baseline (demo_total 15 2) (Some (empty_baseline\<lparr>bl_comparable_keys := Some []\<rparr>))"
    by (simp add: breaks_with_baseline_def)
  with growth_never_negative [of "demo_total 15 2" "demo_total 10 2" "Some (empty_baseline\<lparr>bl_comparable_keys := Some []\<rparr>)" False]
  show ?thesis by (simp add: Let_def)
qed

end
