(* ===== verification/Analyzer.thy ===== *)
theory Analyzer
  imports Signal_Families Error_Counters "HOL-Library.Multiset"
begin

text \<open>
  \<^verbatim>\<open>analyze\<close> of \<^verbatim>\<open>app/analyzer.py\<close> and its two post-processing steps: parsing of the raw channels,
  the summary with its aggregated issues and health, the scoring of error counters against
  their observed growth, and the suppression of an expired error spike.
\<close>

section \<open>Channel capacity\<close>

definition BITS_PER_SYMBOL :: "(nat \<times> nat) list" where
  "BITS_PER_SYMBOL = [(4, 2), (8, 3), (16, 4), (32, 5), (64, 6), (128, 7), (256, 8), (512, 9),
     (1024, 10), (2048, 11), (4096, 12)]"

definition DEFAULT_US_SC_QAM_SYMBOL_RATE :: int where
  "DEFAULT_US_SC_QAM_SYMBOL_RATE = 5120"

definition DEFAULT_DS_SC_QAM_SYMBOL_RATE :: int where
  "DEFAULT_DS_SC_QAM_SYMBOL_RATE = 6952"

definition channel_bitrate_mbps :: "string option \<Rightarrow> pyval \<Rightarrow> pyval \<Rightarrow> f64 option res" where
  "channel_bitrate_mbps modulation symbol_rate default_rate =
     (case parse_qam_order modulation of None \<Rightarrow> Inr None
      | Some q \<Rightarrow> (case map_of BITS_PER_SYMBOL q of None \<Rightarrow> Inr None
         | Some bits \<Rightarrow>
             (let rate = (if symbol_rate \<noteq> PNone then symbol_rate else default_rate) in
              if rate = PNone then Inr None
              else map_sum id (\<lambda>x. Some (f_round 2 (f_scale (1 / 1000) (f_scale (of_nat bits) x)))) (py_float rate))))"

definition capacity_coverage :: "channel list \<Rightarrow> nat \<times> nat \<times> nat" where
  "capacity_coverage chs = (let total = length chs;
       calculated = length (filter (\<lambda>c. ch_bitrate c \<noteq> None) chs)
     in (calculated, total, total - calculated))"

section \<open>Raw channels\<close>

definition parse_channel_id :: "pyval \<Rightarrow> int res" where
  "parse_channel_id v = catch_type_value (res_bind (py_float v) (\<lambda>x. py_int (PFloat x))) 0"

definition modulation_or_type :: "raw_channel \<Rightarrow> string" where
  "modulation_or_type ch = text_of (or_text (raw_text ch ''modulation'') (raw_text ch ''type''))"

text \<open>\<^verbatim>\<open>channel["profile_modulation"]\<close> is only set when the value is not empty.\<close>

definition set_profile :: "string option \<Rightarrow> string option" where
  "set_profile p = (if text_of p = [] then None else p)"

definition ds_view :: "raw_channel \<Rightarrow> text_fields" where
  "ds_view ch = [''type'' \<mapsto> text_of (raw_text ch ''type''), ''modulation'' \<mapsto> modulation_or_type ch,
     ''docsis_version'' \<mapsto> ''3.1''](''profile_modulation'' := profile_modulation ch)"

text \<open>The common tail of the four parsing loops: metric levels, bit rate, identity.\<close>

definition make_channel ::
  "raw_channel \<Rightarrow> f64 option \<Rightarrow> f64 option \<Rightarrow> string \<Rightarrow> string \<Rightarrow> string \<Rightarrow> health \<times> string \<Rightarrow> health
    \<Rightarrow> string option \<Rightarrow> bool option \<Rightarrow> f64 option res \<Rightarrow> channel res" where
  "make_channel ch pw snr multiplex version fam verdict mod_health profile valid bitrate =
     (let mh = metric_healths_of (detail_issues (snd verdict)) in
      res_bind bitrate (\<lambda>rate. res_bind (parse_channel_id (raw_num ch ''channelID'')) (\<lambda>cid.
        Inr \<lparr>ch_id = cid, ch_frequency = text_of (raw_text ch ''frequency''), ch_power = pw,
          ch_modulation = modulation_or_type ch, ch_multiplex = multiplex, ch_snr = snr,
          ch_correctable = raw_num ch ''corrErrors'', ch_uncorrectable = raw_num ch ''nonCorrErrors'',
          ch_version = version, ch_family = fam, ch_health = fst verdict, ch_detail = snd verdict,
          ch_bitrate = rate, ch_power_health = mh_power mh, ch_snr_health = mh_snr mh,
          ch_modulation_health = mod_health, ch_profile = set_profile profile, ch_snr_valid = valid\<rparr>)))"

definition ds30_channel :: "thresholds \<Rightarrow> raw_channel \<Rightarrow> channel res" where
  "ds30_channel t ch =
     res_bind (float_or_none (raw_num ch ''powerLevel'')) (\<lambda>pw.
     res_bind (map_sum id (map_option f_abs) (float_unless_none (raw_num ch ''mse''))) (\<lambda>snr.
     res_bind (assess_ds_channel t ch ''3.0'' None None) (\<lambda>verdict.
       make_channel ch pw snr [] ''3.0'' ''sc_qam'' verdict
         (assess_ds_modulation (Some (modulation_or_type ch)) ''3.0'') (profile_modulation ch) (raw_snr_valid ch)
         (channel_bitrate_mbps (Some (modulation_or_type ch)) (raw_num ch ''symbolRate'') (PInt DEFAULT_DS_SC_QAM_SYMBOL_RATE)))))"

definition ds31_channel :: "thresholds \<Rightarrow> raw_channel \<Rightarrow> channel res" where
  "ds31_channel t ch =
     res_bind (float_unless_none (raw_num ch ''powerLevel'')) (\<lambda>pw.
     res_bind (float_unless_none (raw_num ch ''mer'')) (\<lambda>snr.
       let fam = classify_ds (ds_view ch);
           mver = (if fam = Sc_Qam then ''3.0'' else ''3.1'') in
       res_bind (assess_ds_channel t ch ''3.1'' (Some mver) (Some (family_key fam))) (\<lambda>verdict.
         make_channel ch pw snr [] ''3.1'' (family_key fam) verdict
           (assess_ds_modulation (Some (modulation_or_type ch)) mver) (profile_modulation ch) (raw_snr_valid ch)
           (if fam = Sc_Qam then channel_bitrate_mbps (Some (modulation_or_type ch)) (raw_num ch ''symbolRate'')
                (PInt DEFAULT_DS_SC_QAM_SYMBOL_RATE) else Inr None))))"

definition us30_channel :: "thresholds \<Rightarrow> raw_channel \<Rightarrow> channel res" where
  "us30_channel t ch =
     res_bind (assess_us_channel t ch ''3.0'') (\<lambda>verdict.
     res_bind (float_or_none (raw_num ch ''powerLevel'')) (\<lambda>pw.
       make_channel ch pw None (text_of (raw_text ch ''multiplex'')) ''3.0'' ''sc_qam'' verdict
         (assess_us_modulation t ch ''3.0'') (raw_text ch ''profile_modulation'') None
         (channel_bitrate_mbps (Some (modulation_or_type ch)) (raw_num ch ''symbolRate'') (PInt DEFAULT_US_SC_QAM_SYMBOL_RATE))))"

definition us31_channel :: "thresholds \<Rightarrow> raw_channel \<Rightarrow> channel res" where
  "us31_channel t ch =
     res_bind (assess_us_channel t ch ''3.1'') (\<lambda>verdict.
     res_bind (float_unless_none (raw_num ch ''powerLevel'')) (\<lambda>pw.
       let fam = classify_us (us_view ch ''3.1'') in
       make_channel ch pw None (text_of (raw_text ch ''multiplex'')) ''3.1'' (family_key fam) verdict
         (assess_us_modulation t ch ''3.1'') (profile_modulation ch) None
         (if fam = Sc_Qam then channel_bitrate_mbps (Some (modulation_or_type ch)) (raw_num ch ''symbolRate'')
              (PInt DEFAULT_US_SC_QAM_SYMBOL_RATE) else Inr None)))"

text \<open>Both driver formats; the flat one names its DOCSIS version, 3.1 when it does not.\<close>

datatype docsis_data =
    Flat "string option" "raw_channel list" "raw_channel list"
  | Fritz "raw_channel list" "raw_channel list" "raw_channel list" "raw_channel list"

fun raw_lists :: "docsis_data \<Rightarrow> (raw_channel list \<times> raw_channel list) \<times> (raw_channel list \<times> raw_channel list)" where
  "raw_lists (Flat ver ds us) =
     (if get_or ver ''3.1'' = ''3.1'' then (([], ds), ([], us)) else ((ds, []), (us, [])))"
| "raw_lists (Fritz ds30 ds31 us30 us31) = ((ds30, ds31), (us30, us31))"

definition parse_channels ::
  "(raw_channel \<Rightarrow> channel res) \<Rightarrow> (raw_channel \<Rightarrow> channel res) \<Rightarrow> raw_channel list \<times> raw_channel list \<Rightarrow> channel list res" where
  "parse_channels f30 f31 raws =
     res_bind (mapM_res f30 (fst raws)) (\<lambda>a. res_bind (mapM_res f31 (snd raws)) (\<lambda>b.
       Inr (sort_key ch_id (a @ b))))"

section \<open>The summary\<close>

datatype overall = O_Good | O_Tolerated | O_Marginal | O_Critical

definition health_of_issues :: "string list \<Rightarrow> overall" where
  "health_of_issues issues =
     (if issues = [] then O_Good
      else if list_ex (py_in ''critical'') issues then O_Critical
      else if list_ex (py_in ''marginal'') issues then O_Marginal
      else O_Tolerated)"

definition any_detail :: "string \<Rightarrow> channel list \<Rightarrow> bool" where
  "any_detail p chs = list_ex (\<lambda>c. py_in p (ch_detail c)) chs"

definition graded :: "string \<Rightarrow> string \<Rightarrow> channel list \<Rightarrow> string list" where
  "graded metric prefix chs =
     (if any_detail (metric @ '' critical'') chs then [prefix @ ''_critical'']
      else if any_detail (metric @ '' warning'') chs then [prefix @ ''_marginal'']
      else if any_detail (metric @ '' tolerated'') chs then [prefix @ ''_tolerated''] else [])"

definition us_power_issues :: "channel list \<Rightarrow> string list" where
  "us_power_issues us =
     (let crit_low = any_detail ''power critical low'' us; crit_high = any_detail ''power critical high'' us;
          warn_low = any_detail ''power warning low'' us; warn_high = any_detail ''power warning high'' us;
          tol_low = any_detail ''power tolerated low'' us; tol_high = any_detail ''power tolerated high'' us
      in (if crit_low then [''us_power_critical_low''] else [])
       @ (if crit_high then [''us_power_critical_high''] else [])
       @ (if warn_low \<and> \<not> crit_low then [''us_power_marginal_low''] else [])
       @ (if warn_high \<and> \<not> crit_high then [''us_power_marginal_high''] else [])
       @ (if tol_low \<and> \<not> crit_low \<and> \<not> warn_low then [''us_power_tolerated_low''] else [])
       @ (if tol_high \<and> \<not> crit_high \<and> \<not> warn_high then [''us_power_tolerated_high''] else []))"

definition us_modulation_issues :: "channel list \<Rightarrow> string list" where
  "us_modulation_issues us =
     (if any_detail ''modulation critical'' us then [''us_modulation_critical'']
      else if any_detail ''modulation warning'' us then [''us_modulation_marginal''] else [])"

definition uncorr_issues :: "thresholds \<Rightarrow> f64 option \<Rightarrow> string list" where
  "uncorr_issues t pct = (let et = get_uncorr_thresholds t in
     case pct of None \<Rightarrow> []
     | Some x \<Rightarrow> if f_le (Fin (pct_critical et)) x then [''uncorr_errors_critical'']
         else if f_le (Fin (pct_warning et)) x then [''uncorr_errors_high''] else [])"

definition channel_issues :: "channel list \<Rightarrow> channel list \<Rightarrow> string list" where
  "channel_issues ds us = graded ''power'' ''ds_power'' ds @ graded ''modulation'' ''ds_modulation'' ds
     @ us_power_issues us @ us_modulation_issues us @ graded ''snr'' ''snr'' ds"

record spike_suppression =
  sp_last_spike :: rat
  sp_hours_since :: f64
  sp_expiry_hours :: rat

record summary =
  ds_total :: nat
  us_total :: nat
  ds_power :: "f64 \<times> f64 \<times> f64"
  us_power :: "f64 \<times> f64 \<times> f64"
  ds_snr :: "f64 \<times> f64 \<times> f64"
  counters :: counter_aggregate
  errors_supported :: bool
  ds_capacity :: "f64 option"
  us_capacity :: "f64 option"
  capacity_ds :: "nat \<times> nat \<times> nat"
  capacity_us :: "nat \<times> nat \<times> nat"
  families :: "direction_summary \<times> direction_summary"
  ds_scqam_power_avg :: "f64 option"
  ds_scqam_snr_avg :: "f64 option"
  ds_ofdm_power_avg :: "f64 option"
  ds_ofdm_mer_avg :: "f64 option"
  us_scqam_power_avg :: "f64 option"
  us_ofdma_power_avg :: "f64 option"
  uncorr_pct :: "f64 option"
  overall_health :: overall
  health_issues :: "string list"
  error_growth :: "counter_growth option"
  suppression :: "spike_suppression option"

record analysis =
  an_summary :: summary
  an_ds :: "channel list"
  an_us :: "channel list"

text \<open>The minimum, maximum and average fields; without a reading the summary holds 0.\<close>

definition min_max_avg :: "f64 option list \<Rightarrow> f64 \<times> f64 \<times> f64" where
  "min_max_avg values = (case stats values of None \<Rightarrow> (Fin 0, Fin 0, Fin 0)
     | Some s \<Rightarrow> (st_min s, st_max s, st_avg s))"

definition family_average :: "string \<Rightarrow> direction_summary \<Rightarrow> f64 option" where
  "family_average fam d = (case map_of (dir_families d) fam of None \<Rightarrow> None
     | Some s \<Rightarrow> map_option st_avg (fst (fs_power s)))"

definition family_quality_average :: "string \<Rightarrow> cause \<Rightarrow> direction_summary \<Rightarrow> f64 option" where
  "family_quality_average fam key d = (case map_of (dir_families d) fam of None \<Rightarrow> None
     | Some s \<Rightarrow> (case fs_quality s of Some (k, st, _) \<Rightarrow> if k = key then map_option st_avg st else None
        | None \<Rightarrow> None))"

definition capacity :: "channel list \<Rightarrow> f64 option" where
  "capacity chs = (case known (map ch_bitrate chs) of [] \<Rightarrow> None | xs \<Rightarrow> Some (f_round 1 (f_sum xs)))"

definition counter_channel_of :: "channel \<Rightarrow> counter_channel" where
  "counter_channel_of c = \<lparr>cc_correctable = ch_correctable c, cc_uncorrectable = ch_uncorrectable c,
     cc_docsis_version = Some (ch_version c), cc_channel_family = Some (ch_family c),
     cc_channel_id = Some (ch_id c), cc_frequency = Some (ch_frequency c)\<rparr>"

definition analyze :: "thresholds \<Rightarrow> docsis_data \<Rightarrow> analysis res" where
  "analyze t data =
     res_bind (parse_channels (ds30_channel t) (ds31_channel t) (fst (raw_lists data))) (\<lambda>ds.
     res_bind (parse_channels (us30_channel t) (us31_channel t) (snd (raw_lists data))) (\<lambda>us.
     res_bind (aggregate_error_counters (map counter_channel_of ds)) (\<lambda>cnt.
     res_bind (uncorrectable_percentage (comparable_correctable cnt) (comparable_uncorrectable cnt)
         (min_codewords (get_uncorr_thresholds t))) (\<lambda>pct.
       let fams = build_signal_family_summary ds us;
           issues = channel_issues ds us @ uncorr_issues t pct in
       Inr \<lparr>an_summary =
           \<lparr>ds_total = length ds, us_total = length us,
            ds_power = min_max_avg (map ch_power ds), us_power = min_max_avg (map ch_power us),
            ds_snr = min_max_avg (map ch_snr ds),
            counters = cnt, errors_supported = supported cnt, ds_capacity = capacity ds, us_capacity = capacity us,
            capacity_ds = capacity_coverage ds, capacity_us = capacity_coverage us,
            families = fams,
            ds_scqam_power_avg = family_average ''sc_qam'' (fst fams),
            ds_scqam_snr_avg = family_quality_average ''sc_qam'' Snr_Cause (fst fams),
            ds_ofdm_power_avg = family_average ''ofdm'' (fst fams),
            ds_ofdm_mer_avg = family_quality_average ''ofdm'' Mer_Cause (fst fams),
            us_scqam_power_avg = family_average ''sc_qam'' (snd fams),
            us_ofdma_power_avg = family_average ''ofdma'' (snd fams),
            uncorr_pct = pct, overall_health = health_of_issues issues, health_issues = issues,
            error_growth = None, suppression = None\<rparr>,
         an_ds = ds, an_us = us\<rparr>))))"

section \<open>Error counters against their growth\<close>

text \<open>What the step reads of the stored previous analysis.\<close>

record previous_analysis =
  pv_channels :: "counter_channel list"
  pv_baseline :: "error_baseline option"
  pv_schema :: "int option"
  pv_provenance :: bool

definition uncorr_issue :: "string \<Rightarrow> bool" where
  "uncorr_issue issue = py_in ''uncorr'' issue"

definition recalculate_summary_health :: "summary \<Rightarrow> summary" where
  "recalculate_summary_health s = s\<lparr>overall_health := health_of_issues (health_issues s)\<rparr>"

text \<open>A stored time stamp: one that cannot be parsed, or a point in time in seconds.\<close>

datatype stamp = Bad_Stamp | Stamp rat

definition hours_since :: "rat \<Rightarrow> rat \<Rightarrow> rat" where
  "hours_since now spike = fl (fl (now - spike) / 3600)"

definition recent_spike_active :: "thresholds \<Rightarrow> rat \<Rightarrow> stamp option \<Rightarrow> bool" where
  "recent_spike_active t now last_spike = (case last_spike of
     Some (Stamp s) \<Rightarrow> hours_since now s < get_spike_expiry_hours t | _ \<Rightarrow> False)"

definition apply_cumulative_error_baseline ::
  "thresholds \<Rightarrow> bool \<Rightarrow> previous_analysis option \<Rightarrow> analysis \<Rightarrow> analysis res" where
  "apply_cumulative_error_baseline t spike_active stored a =
     (case stored of None \<Rightarrow> Inr a
      | Some p \<Rightarrow> if spike_active then Inr a else
          res_bind (aggregate_error_counters (map counter_channel_of (an_ds a))) (\<lambda>cur.
          res_bind (aggregate_error_counters (pv_channels p)) (\<lambda>prev.
            let growth = calculate_error_counter_growth cur prev (pv_baseline p)
                  (pv_schema p \<noteq> Some ANALYZER_SCHEMA_VERSION \<or> \<not> pv_provenance p) in
            res_bind (uncorrectable_percentage (comparable_correctable_delta growth)
                (comparable_uncorrectable_delta growth) (min_codewords (get_uncorr_thresholds t))) (\<lambda>pct.
              let s = an_summary a in
              Inr (a\<lparr>an_summary := recalculate_summary_health
                (s\<lparr>uncorr_pct := pct,
                   health_issues := filter (\<lambda>i. \<not> uncorr_issue i) (health_issues s) @ uncorr_issues t pct,
                   error_growth := Some growth\<rparr>)\<rparr>)))))"

definition apply_spike_suppression :: "thresholds \<Rightarrow> rat \<Rightarrow> stamp option \<Rightarrow> analysis \<Rightarrow> analysis res" where
  "apply_spike_suppression t now last_spike a =
     (case last_spike of None \<Rightarrow> Inr a
      | Some Bad_Stamp \<Rightarrow> Inl (ValueError ''Invalid isoformat string'')
      | Some (Stamp sp) \<Rightarrow>
          if hours_since now sp < get_spike_expiry_hours t then Inr a
          else (let s = an_summary a;
                    recent = (case error_growth s of None \<Rightarrow> None | Some g \<Rightarrow> comparable_uncorrectable_recent_delta g)
                in if recent \<notin> {None, Some 0} \<and> list_ex uncorr_issue (health_issues s) then Inr a
                   else Inr (a\<lparr>an_summary := recalculate_summary_health
                     (s\<lparr>uncorr_pct := (if uncorr_pct s = None then None else Some (Fin 0)),
                        health_issues := filter (\<lambda>i. \<not> uncorr_issue i) (health_issues s),
                        suppression := Some \<lparr>sp_last_spike = sp,
                          sp_hours_since = f_round 1 (Fin (hours_since now sp)),
                          sp_expiry_hours = get_spike_expiry_hours t\<rparr>\<rparr>)\<rparr>)))"

section \<open>Substrings of a joined text\<close>

lemma py_in_nil [simp]: "p \<noteq> [] \<Longrightarrow> \<not> py_in p []"
  by simp

lemma py_in_across:
  assumes "c \<notin> set p" "p \<noteq> []"
  shows "py_in p (x @ c # y) \<longleftrightarrow> py_in p x \<or> py_in p y"
proof
  assume "py_in p (x @ c # y)"
  then obtain u v where e: "x @ c # y = u @ p @ v" unfolding py_in_iff by blast
  then obtain us where "x = u @ us \<and> us @ c # y = p @ v \<or> x @ us = u \<and> c # y = us @ p @ v"
    unfolding append_eq_append_conv2 by blast
  then show "py_in p x \<or> py_in p y"
  proof (elim disjE conjE)
    assume x: "x = u @ us" and "us @ c # y = p @ v"
    then obtain vs where "us = p @ vs \<and> vs @ c # y = v \<or> us @ vs = p \<and> c # y = vs @ v"
      unfolding append_eq_append_conv2 by blast
    then show ?thesis
    proof (elim disjE conjE)
      assume "us = p @ vs"
      then show ?thesis using x unfolding py_in_iff by blast
    next
      assume p: "us @ vs = p" and vs: "c # y = vs @ v"
      then have "vs = []" using assms(1) by (cases vs) auto
      then show ?thesis using p x unfolding py_in_iff by (metis append_Nil2)
    qed
  next
    assume "x @ us = u" and cy: "c # y = us @ p @ v"
    then have "us \<noteq> []" using assms by (cases us) (cases p; auto)+
    then obtain us' where "us = c # us'" using cy by (cases us) auto
    then have "y = us' @ p @ v" using cy by simp
    then show ?thesis unfolding py_in_iff by blast
  qed
next
  assume "py_in p x \<or> py_in p y"
  then show "py_in p (x @ c # y)" using py_in_append1 [of p x] py_in_append2 [of p "c # y" x] by auto
qed

lemma py_in_space_edges:
  assumes "p \<noteq> []" "hd p \<noteq> c" "last p \<noteq> c"
  shows "py_in p (c # y) \<longleftrightarrow> py_in p y" "py_in p (x @ [c]) \<longleftrightarrow> py_in p x"
proof -
  show "py_in p (c # y) \<longleftrightarrow> py_in p y" using assms by (cases p) auto
  show "py_in p (x @ [c]) \<longleftrightarrow> py_in p x"
  proof
    assume "py_in p (x @ [c])"
    then obtain u v where e: "x @ [c] = u @ p @ v" unfolding py_in_iff by blast
    have "v \<noteq> []"
    proof
      assume "v = []"
      with e have "last (x @ [c]) = last p" using assms(1) by (metis append_Nil2 last_appendR)
      then show False using assms(3) by simp
    qed
    then have "x = u @ p @ butlast v" using e by (metis append_is_Nil_conv butlast_append butlast_snoc)
    then show "py_in p x" unfolding py_in_iff by blast
  qed (rule py_in_append1)
qed

lemma py_in_join_iff:
  assumes "p \<noteq> []" "hd p \<noteq> CHR '' ''" "last p \<noteq> CHR '' ''" "CHR ''+'' \<notin> set p"
  shows "py_in p (py_join '' + '' ws) \<longleftrightarrow> (\<exists>w \<in> set ws. py_in p w)"
proof (induction "'' + ''" ws rule: py_join.induct)
  case (3 x y zs)
  have "py_join '' + '' (x # y # zs) = (x @ [CHR '' '']) @ CHR ''+'' # (CHR '' '' # py_join '' + '' (y # zs))" by simp
  then have "py_in p (py_join '' + '' (x # y # zs)) \<longleftrightarrow> py_in p x \<or> py_in p (py_join '' + '' (y # zs))"
    unfolding py_in_across [OF assms(4,1)] py_in_space_edges [OF assms(1-3)] by (simp only: py_in_across [OF assms(4,1)] py_in_space_edges [OF assms(1-3)])
  with 3 show ?case by simp
qed (use assms(1) in simp_all)

section \<open>What a parsed channel carries\<close>

definition ds_words :: "string list" where
  "ds_words = [''power critical'', ''power warning'', ''power tolerated'', ''snr critical'', ''snr warning'',
     ''snr tolerated'', ''snr warning (unavailable)'', ''modulation critical'', ''modulation warning'',
     ''modulation tolerated'']"

definition us_words :: "string list" where
  "us_words = [''power critical low'', ''power critical high'', ''power warning low'', ''power warning high'',
     ''power tolerated low'', ''power tolerated high'', ''modulation critical'', ''modulation warning'',
     ''modulation tolerated'']"

definition verdict_ok :: "string list \<Rightarrow> health \<times> string \<Rightarrow> bool" where
  "verdict_ok W v = (\<exists>is. set is \<subseteq> set W \<and> fst v = channel_health is \<and> snd v = health_detail is)"

lemma verdict_okI: "set is \<subseteq> set W \<Longrightarrow> verdict_ok W (channel_health is, health_detail is)"
  by (auto simp: verdict_ok_def)

lemma words_sub: "set ds_words \<subseteq> set issue_words" "set us_words \<subseteq> set issue_words"
  by (simp_all add: ds_words_def us_words_def issue_words_def)

lemma modulation_issue_in: "set (option_issue (\<lambda>i. [i]) (modulation_issue h)) \<subseteq> set ds_words"
  "set (option_issue (\<lambda>i. [i]) (modulation_issue h)) \<subseteq> set us_words"
  by (cases h; simp add: option_issue_def modulation_issue_def ds_words_def us_words_def)+

lemma power_issue_in: "set (ds_power_issue l x) \<subseteq> set ds_words" "set (us_power_issue l x) \<subseteq> set us_words"
  "set (snr_issue q x) \<subseteq> set ds_words"
  by (auto simp: ds_power_issue_def us_power_issue_def snr_issue_def ds_words_def us_words_def split: if_splits)

lemma assess_verdict_ok:
  "assess_ds_channel t ch v mv fam = Inr r \<Longrightarrow> verdict_ok ds_words r"
  "assess_us_channel t ch v = Inr r \<Longrightarrow> verdict_ok us_words r"
proof -
  have u: "set (if b then [''snr warning (unavailable)''] else []) \<subseteq> set ds_words" for b
    by (cases b) (simp_all add: ds_words_def)
  have "set is \<subseteq> set ds_words" if "assess_ds_issues t ch v mv fam = Inr is" for "is"
    using that unfolding assess_ds_issues_def res_bind_Inr_iff Let_def
    by (elim exE conjE) (drule sum.inject(2) [THEN iffD1, OF sym], simp only: set_append,
      intro Un_least option_words power_issue_in modulation_issue_in u)
  then show "assess_ds_channel t ch v mv fam = Inr r \<Longrightarrow> verdict_ok ds_words r"
    unfolding assess_ds_channel_def map_sum_Inr_iff by (elim exE conjE) (simp add: verdict_okI)
  have "set is \<subseteq> set us_words" if "assess_us_issues t ch v = Inr is" for "is"
    using that unfolding assess_us_issues_def res_bind_Inr_iff
    by (elim exE conjE) (drule sum.inject(2) [THEN iffD1, OF sym], simp only: set_append,
      intro Un_least option_words power_issue_in modulation_issue_in)
  then show "assess_us_channel t ch v = Inr r \<Longrightarrow> verdict_ok us_words r"
    unfolding assess_us_channel_def map_sum_Inr_iff by (elim exE conjE) (simp add: verdict_okI)
qed

abbreviation channel_ok :: "string list \<Rightarrow> channel \<Rightarrow> bool" where
  "channel_ok W c \<equiv> verdict_ok W (ch_health c, ch_detail c)"

lemma make_channel_ok: "make_channel ch pw q mx ver fam v m pr va br = Inr c \<Longrightarrow> verdict_ok W v \<Longrightarrow> channel_ok W c"
  by (auto simp: make_channel_def res_bind_Inr_iff Let_def)

lemma parsed_channel_ok:
  "ds30_channel t ch = Inr c \<Longrightarrow> channel_ok ds_words c" "ds31_channel t ch = Inr c \<Longrightarrow> channel_ok ds_words c"
  "us30_channel t ch = Inr c \<Longrightarrow> channel_ok us_words c" "us31_channel t ch = Inr c \<Longrightarrow> channel_ok us_words c"
  unfolding ds30_channel_def ds31_channel_def us30_channel_def us31_channel_def res_bind_Inr_iff Let_def
  by (elim exE conjE, erule make_channel_ok, erule assess_verdict_ok)+

lemma mapM_res_mem: "mapM_res f xs = Inr ys \<Longrightarrow> y \<in> set ys \<Longrightarrow> \<exists>x \<in> set xs. f x = Inr y"
  by (induction xs arbitrary: ys) (auto split: sum.splits)

lemma mapM_res_map: "mapM_res f xs = Inr ys \<Longrightarrow> map f xs = map Inr ys"
  by (induction xs arbitrary: ys) (auto split: sum.splits)

lemma parse_channels_mem:
  assumes "parse_channels f g raws = Inr chs" "c \<in> set chs"
  shows "(\<exists>r \<in> set (fst raws). f r = Inr c) \<or> (\<exists>r \<in> set (snd raws). g r = Inr c)"
  using assms mapM_res_mem unfolding parse_channels_def res_bind_Inr_iff by fastforce

text \<open>Substrings of a detail are substrings of one of its issues.\<close>

lemma detail_in:
  assumes "p \<noteq> []" "hd p \<noteq> CHR '' ''" "last p \<noteq> CHR '' ''" "CHR ''+'' \<notin> set p"
  shows "py_in p (health_detail is) \<longleftrightarrow> (\<exists>w \<in> set is. py_in p w)"
  using py_in_join_iff [OF assms, of "is"] assms(1) by (auto simp: health_detail_def)

lemma channel_health_words:
  "channel_health is = Critical \<longleftrightarrow> (\<exists>w \<in> set is. py_in ''critical'' w)"
  "channel_health is = Warning \<Longrightarrow> \<exists>w \<in> set is. py_in ''warning'' w"
  "channel_health is \<noteq> Missing"
  by (auto simp: channel_health_def list_ex_iff split: if_splits)

lemma ds_levels:
  assumes "channel_ok ds_words c"
  shows "ch_health c = Critical \<longleftrightarrow> py_in ''power critical'' (ch_detail c) \<or> py_in ''modulation critical'' (ch_detail c)
      \<or> py_in ''snr critical'' (ch_detail c)"
    and "ch_health c = Warning \<Longrightarrow> py_in ''power warning'' (ch_detail c) \<or> py_in ''modulation warning'' (ch_detail c)
      \<or> py_in ''snr warning'' (ch_detail c)"
    and "ch_health c = Tolerated \<Longrightarrow> py_in ''power tolerated'' (ch_detail c) \<or> py_in ''modulation tolerated'' (ch_detail c)
      \<or> py_in ''snr tolerated'' (ch_detail c)"
    and "ch_health c \<noteq> Missing"
proof -
  from assms obtain "is" where i: "set is \<subseteq> set ds_words" "ch_health c = channel_health is" "ch_detail c = health_detail is"
    by (auto simp: verdict_ok_def)
  have w: "py_in ''critical'' w \<longleftrightarrow> py_in ''power critical'' w \<or> py_in ''modulation critical'' w \<or> py_in ''snr critical'' w"
    "py_in ''warning'' w \<longleftrightarrow> py_in ''power warning'' w \<or> py_in ''modulation warning'' w \<or> py_in ''snr warning'' w"
    "py_in ''critical'' w \<or> py_in ''warning'' w \<or> py_in ''power tolerated'' w \<or> py_in ''modulation tolerated'' w \<or> py_in ''snr tolerated'' w"
    if "w \<in> set ds_words" for w
    using that unfolding ds_words_def list.set insert_iff empty_iff by (elim disjE; simp)+
  show "ch_health c = Critical \<longleftrightarrow> py_in ''power critical'' (ch_detail c) \<or> py_in ''modulation critical'' (ch_detail c)
      \<or> py_in ''snr critical'' (ch_detail c)"
  proof -
    have "(\<exists>w \<in> set is. py_in ''critical'' w) \<longleftrightarrow> (\<exists>w \<in> set is. py_in ''power critical'' w \<or> py_in ''modulation critical'' w \<or> py_in ''snr critical'' w)"
      by (rule bex_cong [OF refl]) (use i(1) w(1) in blast)
    then show ?thesis unfolding i(2,3) by (simp add: detail_in bex_disj_distrib  channel_health_words(1))
  qed
  show "py_in ''power warning'' (ch_detail c) \<or> py_in ''modulation warning'' (ch_detail c)
      \<or> py_in ''snr warning'' (ch_detail c)" if "ch_health c = Warning"
  proof -
    have "(\<exists>w \<in> set is. py_in ''warning'' w) \<longleftrightarrow> (\<exists>w \<in> set is. py_in ''power warning'' w \<or> py_in ''modulation warning'' w \<or> py_in ''snr warning'' w)"
      by (rule bex_cong [OF refl]) (use i(1) w(2) in blast)
    then show ?thesis using that using channel_health_words(2) [of "is"] unfolding i(2,3) by (simp add: detail_in bex_disj_distrib)
  qed
  show "py_in ''power tolerated'' (ch_detail c) \<or> py_in ''modulation tolerated'' (ch_detail c)
      \<or> py_in ''snr tolerated'' (ch_detail c)" if "ch_health c = Tolerated"
  proof -
    from that have "is \<noteq> []" "\<not> list_ex (py_in ''critical'') is" "\<not> list_ex (py_in ''warning'') is"
      unfolding i(2) by (auto simp: channel_health_def split: if_splits)
    then obtain x where x: "x \<in> set is" "\<not> py_in ''critical'' x" "\<not> py_in ''warning'' x" by (cases "is") (auto simp: list_ex_iff)
    with i(1) w(3) have "py_in ''power tolerated'' x \<or> py_in ''modulation tolerated'' x \<or> py_in ''snr tolerated'' x" by blast
    then show ?thesis using x(1) unfolding i(3) by (auto simp: detail_in)
  qed
  show "ch_health c \<noteq> Missing" by (simp add: i(2) channel_health_words(3))
qed

lemma us_levels:
  assumes "channel_ok us_words c"
  shows "ch_health c = Critical \<longleftrightarrow> py_in ''power critical low'' (ch_detail c) \<or> py_in ''power critical high'' (ch_detail c)
      \<or> py_in ''modulation critical'' (ch_detail c)"
    and "ch_health c = Warning \<Longrightarrow> py_in ''power warning low'' (ch_detail c) \<or> py_in ''power warning high'' (ch_detail c)
      \<or> py_in ''modulation warning'' (ch_detail c)"
    and "ch_health c \<noteq> Missing"
proof -
  from assms obtain "is" where i: "set is \<subseteq> set us_words" "ch_health c = channel_health is" "ch_detail c = health_detail is"
    by (auto simp: verdict_ok_def)
  have w: "py_in ''critical'' w \<longleftrightarrow> py_in ''power critical low'' w \<or> py_in ''power critical high'' w \<or> py_in ''modulation critical'' w"
    "py_in ''warning'' w \<longleftrightarrow> py_in ''power warning low'' w \<or> py_in ''power warning high'' w \<or> py_in ''modulation warning'' w"
    if "w \<in> set us_words" for w
    using that unfolding us_words_def list.set insert_iff empty_iff by (elim disjE; simp)+
  show "ch_health c = Critical \<longleftrightarrow> py_in ''power critical low'' (ch_detail c) \<or> py_in ''power critical high'' (ch_detail c)
      \<or> py_in ''modulation critical'' (ch_detail c)"
  proof -
    have "(\<exists>w \<in> set is. py_in ''critical'' w) \<longleftrightarrow> (\<exists>w \<in> set is. py_in ''power critical low'' w \<or> py_in ''power critical high'' w \<or> py_in ''modulation critical'' w)"
      by (rule bex_cong [OF refl]) (use i(1) w(1) in blast)
    then show ?thesis unfolding i(2,3) by (simp add: detail_in bex_disj_distrib  channel_health_words(1))
  qed
  show "py_in ''power warning low'' (ch_detail c) \<or> py_in ''power warning high'' (ch_detail c)
      \<or> py_in ''modulation warning'' (ch_detail c)" if "ch_health c = Warning"
  proof -
    have "(\<exists>w \<in> set is. py_in ''warning'' w) \<longleftrightarrow> (\<exists>w \<in> set is. py_in ''power warning low'' w \<or> py_in ''power warning high'' w \<or> py_in ''modulation warning'' w)"
      by (rule bex_cong [OF refl]) (use i(1) w(2) in blast)
    then show ?thesis using that using channel_health_words(2) [of "is"] unfolding i(2,3) by (simp add: detail_in bex_disj_distrib)
  qed
  show "ch_health c \<noteq> Missing" by (simp add: i(2) channel_health_words(3))
qed

section \<open>From channels to the summary\<close>

lemma issues_critical:
  "list_ex (py_in ''critical'') (channel_issues ds us) \<longleftrightarrow>
     any_detail ''power critical'' ds \<or> any_detail ''modulation critical'' ds \<or> any_detail ''snr critical'' ds
     \<or> any_detail ''power critical low'' us \<or> any_detail ''power critical high'' us \<or> any_detail ''modulation critical'' us"
  by (auto simp: channel_issues_def graded_def us_power_issues_def us_modulation_issues_def Let_def)

lemma issues_marginal:
  "any_detail ''power warning'' ds \<or> any_detail ''modulation warning'' ds \<or> any_detail ''snr warning'' ds
     \<or> any_detail ''power warning low'' us \<or> any_detail ''power warning high'' us \<or> any_detail ''modulation warning'' us
   \<Longrightarrow> list_ex (py_in ''critical'') (channel_issues ds us) \<or> list_ex (py_in ''marginal'') (channel_issues ds us)"
  unfolding issues_critical
  by (auto simp: channel_issues_def graded_def us_power_issues_def us_modulation_issues_def Let_def)

lemma issues_tolerated:
  "any_detail ''power tolerated'' ds \<or> any_detail ''modulation tolerated'' ds \<or> any_detail ''snr tolerated'' ds
   \<Longrightarrow> channel_issues ds us \<noteq> []"
  by (auto simp: channel_issues_def graded_def)

lemma uncorr_critical: "list_ex (py_in ''critical'') (uncorr_issues t pct) \<longleftrightarrow> ''uncorr_errors_critical'' \<in> set (uncorr_issues t pct)"
  by (cases pct) (simp_all add: uncorr_issues_def Let_def del: f_le_def)

lemma uncorr_not_channel: "''uncorr_errors_critical'' \<notin> set (channel_issues ds us)"
  by (simp add: channel_issues_def graded_def us_power_issues_def us_modulation_issues_def Let_def)

lemma analyze_parts:
  assumes "analyze t data = Inr a"
  shows "parse_channels (ds30_channel t) (ds31_channel t) (fst (raw_lists data)) = Inr (an_ds a)"
    and "parse_channels (us30_channel t) (us31_channel t) (snd (raw_lists data)) = Inr (an_us a)"
    and "aggregate_error_counters (map counter_channel_of (an_ds a)) = Inr (counters (an_summary a))"
    and "health_issues (an_summary a) = channel_issues (an_ds a) (an_us a) @ uncorr_issues t (uncorr_pct (an_summary a))"
    and "overall_health (an_summary a) = health_of_issues (health_issues (an_summary a))"
    and "ds_total (an_summary a) = length (an_ds a) \<and> us_total (an_summary a) = length (an_us a)"
    and "families (an_summary a) = build_signal_family_summary (an_ds a) (an_us a)"
  using assms unfolding analyze_def res_bind_Inr_iff Let_def by (elim exE conjE; simp add: sum.inject; fastforce)+

lemma analyzed_ok:
  assumes "analyze t data = Inr a"
  shows "c \<in> set (an_ds a) \<Longrightarrow> channel_ok ds_words c" "c \<in> set (an_us a) \<Longrightarrow> channel_ok us_words c"
  using parse_channels_mem [OF analyze_parts(1) [OF assms]] parse_channels_mem [OF analyze_parts(2) [OF assms]] parsed_channel_ok
  by blast+

lemma critical_channels:
  assumes "analyze t data = Inr a"
  shows "list_ex (py_in ''critical'') (channel_issues (an_ds a) (an_us a)) \<longleftrightarrow>
    (\<exists>c \<in> set (an_ds a) \<union> set (an_us a). ch_health c = Critical)"
proof -
  have "(\<exists>c \<in> set (an_ds a). ch_health c = Critical) \<longleftrightarrow> (\<exists>c \<in> set (an_ds a). py_in ''power critical'' (ch_detail c)
      \<or> py_in ''modulation critical'' (ch_detail c) \<or> py_in ''snr critical'' (ch_detail c))"
    by (rule bex_cong [OF refl ds_levels(1) [OF analyzed_ok(1) [OF assms]]])
  moreover have "(\<exists>c \<in> set (an_us a). ch_health c = Critical) \<longleftrightarrow> (\<exists>c \<in> set (an_us a). py_in ''power critical low'' (ch_detail c)
      \<or> py_in ''power critical high'' (ch_detail c) \<or> py_in ''modulation critical'' (ch_detail c))"
    by (rule bex_cong [OF refl us_levels(1) [OF analyzed_ok(2) [OF assms]]])
  ultimately show ?thesis unfolding issues_critical unfolding any_detail_def list_ex_iff bex_Un by blast
qed

lemma warned_channels:
  assumes "analyze t data = Inr a" "c \<in> set (an_ds a) \<union> set (an_us a)" "ch_health c = Warning"
  shows "list_ex (py_in ''critical'') (channel_issues (an_ds a) (an_us a)) \<or> list_ex (py_in ''marginal'') (channel_issues (an_ds a) (an_us a))"
proof (rule issues_marginal)
  show "any_detail ''power warning'' (an_ds a) \<or> any_detail ''modulation warning'' (an_ds a) \<or> any_detail ''snr warning'' (an_ds a)
     \<or> any_detail ''power warning low'' (an_us a) \<or> any_detail ''power warning high'' (an_us a) \<or> any_detail ''modulation warning'' (an_us a)"
    using assms(2) ds_levels(2) [OF analyzed_ok(1) [OF assms(1)] assms(3)] us_levels(2) [OF analyzed_ok(2) [OF assms(1)] assms(3)]
    unfolding any_detail_def list_ex_iff by blast
qed

text \<open>
  C1. The summary reflects the channels.  After a successful analysis the overall health is
  critical exactly when some channel is critical or the uncorrectable error ratio is; a channel
  in the warning state makes it at least marginal; and it is good only when every downstream
  channel is good and no upstream channel is worse than tolerated.
\<close>

theorem summary_health_from_channels:
  assumes "analyze t data = Inr a"
  shows "(overall_health (an_summary a) = O_Critical \<longleftrightarrow>
        list_ex (\<lambda>c. ch_health c = Critical) (an_ds a @ an_us a) \<or> ''uncorr_errors_critical'' \<in> set (health_issues (an_summary a)))
    \<and> (list_ex (\<lambda>c. ch_health c = Warning) (an_ds a @ an_us a) \<longrightarrow> overall_health (an_summary a) \<in> {O_Marginal, O_Critical})
    \<and> (overall_health (an_summary a) = O_Good \<longrightarrow>
        list_all (\<lambda>c. ch_health c = Good) (an_ds a) \<and> list_all (\<lambda>c. ch_health c \<in> {Good, Tolerated}) (an_us a))"
proof -
  let ?i = "channel_issues (an_ds a) (an_us a)" and ?u = "uncorr_issues t (uncorr_pct (an_summary a))"
  note p = analyze_parts [OF assms]
  have h: "overall_health (an_summary a) = health_of_issues (?i @ ?u)" using p by simp
  have crit: "overall_health (an_summary a) = O_Critical \<longleftrightarrow> list_ex (py_in ''critical'') (?i @ ?u)"
    unfolding h by (auto simp: health_of_issues_def)
  have warn: "overall_health (an_summary a) \<in> {O_Marginal, O_Critical}"
    if "list_ex (py_in ''critical'') ?i \<or> list_ex (py_in ''marginal'') ?i"
    using that unfolding h by (auto simp: health_of_issues_def)
  have "''uncorr_errors_critical'' \<in> set (health_issues (an_summary a)) \<longleftrightarrow> list_ex (py_in ''critical'') ?u"
    unfolding p(4) uncorr_critical using uncorr_not_channel by simp
  then have 1: "overall_health (an_summary a) = O_Critical \<longleftrightarrow>
      list_ex (\<lambda>c. ch_health c = Critical) (an_ds a @ an_us a) \<or> ''uncorr_errors_critical'' \<in> set (health_issues (an_summary a))"
    using critical_channels [OF assms] unfolding crit list_ex_append by (auto simp: list_ex_iff)
  have 2: "overall_health (an_summary a) \<in> {O_Marginal, O_Critical}" if "c \<in> set (an_ds a) \<union> set (an_us a)" "ch_health c = Warning" for c
    by (rule warn [OF warned_channels [OF assms that]])
  have 3: "ch_health c = Good" if g: "overall_health (an_summary a) = O_Good" and c: "c \<in> set (an_ds a)" for c
  proof -
    have "?i = []" using g unfolding h by (auto simp: health_of_issues_def split: if_splits)
    then have "ch_health c \<noteq> Tolerated"
      using issues_tolerated [of "an_ds a" "an_us a"] ds_levels(3) [OF analyzed_ok(1) [OF assms c]] c
      unfolding any_detail_def list_ex_iff by blast
    moreover have "ch_health c \<noteq> Critical" using 1 g c by (auto simp: list_ex_iff)
    moreover have "ch_health c \<noteq> Warning" using 2 [of c] g c by auto
    ultimately show ?thesis using ds_levels(4) [OF analyzed_ok(1) [OF assms c]] by (cases "ch_health c") auto
  qed
  have 4: "ch_health c \<in> {Good, Tolerated}" if g: "overall_health (an_summary a) = O_Good" and c: "c \<in> set (an_us a)" for c
  proof -
    have "ch_health c \<noteq> Critical" using 1 g c by (auto simp: list_ex_iff)
    moreover have "ch_health c \<noteq> Warning" using 2 [of c] g c by auto
    ultimately show ?thesis using us_levels(3) [OF analyzed_ok(2) [OF assms c]] by (cases "ch_health c") auto
  qed
  from 1 2 3 4 show ?thesis unfolding list_ex_iff list_all_iff by auto
qed

lemma demo_raw_parsed:
  "\<exists>c. ds30_channel FALLBACK_THRESHOLDS demo_raw = Inr c \<and> ch_health c = Critical
     \<and> ch_correctable c = PNone \<and> ch_uncorrectable c = PNone"
proof -
  have m: "modulation_or_type demo_raw = ''64-QAM''"
    by (simp add: modulation_or_type_def demo_raw_def or_text_def text_of_def)
  have p: "parse_qam_order (Some ''64-QAM'') = Some 64"
  proof -
    have "parse_qam_order (Some ''64-QAM'') = parse_qam_order (Some ''64QAM'')"
      by (simp add: parse_qam_order_def text_of_def py_text)
    then show ?thesis using parse_order_first [of 64] by simp
  qed
  have r: "f64_of 6952 = Fin 6952" using f64_of_bounded [of 6952] by simp
  have "\<exists>x. channel_bitrate_mbps (Some ''64-QAM'') PNone (PInt DEFAULT_DS_SC_QAM_SYMBOL_RATE) = Inr (Some x)"
    by (simp add: channel_bitrate_mbps_def p BITS_PER_SYMBOL_def DEFAULT_DS_SC_QAM_SYMBOL_RATE_def Let_def r)
  moreover have "raw_num demo_raw ''symbolRate'' = PNone" "parse_channel_id (raw_num demo_raw ''channelID'') = Inr 0"
    "raw_num demo_raw ''corrErrors'' = PNone" "raw_num demo_raw ''nonCorrErrors'' = PNone"
    by (simp_all add: demo_raw_def parse_channel_id_def)
  moreover have "\<exists>x. float_or_none (raw_num demo_raw ''powerLevel'') = Inr x" "\<exists>x. float_unless_none (raw_num demo_raw ''mse'') = Inr x"
    using f64_of_bounded [of "- 26"] by (simp_all add: demo_raw_def float_or_none_def float_unless_none_def)
  ultimately show ?thesis
    by (auto simp: ds30_channel_def make_channel_def demo_raw_assessed m Let_def)
qed

lemma demo_analysis:
  "\<exists>a c. analyze FALLBACK_THRESHOLDS (Flat (Some ''3.0'') [demo_raw] []) = Inr a \<and> an_ds a = [c] \<and> an_us a = [] \<and> ch_health c = Critical
     \<and> ch_correctable c = PNone \<and> ch_uncorrectable c = PNone"
proof -
  obtain c where c: "ds30_channel FALLBACK_THRESHOLDS demo_raw = Inr c" "ch_health c = Critical"
    "ch_correctable c = PNone" "ch_uncorrectable c = PNone" using demo_raw_parsed by blast
  have "\<exists>a. analyze FALLBACK_THRESHOLDS (Flat (Some ''3.0'') [demo_raw] []) = Inr a \<and> an_ds a = [c] \<and> an_us a = []"
    using c by (simp add: analyze_def parse_channels_def get_or_def aggregate_error_counters_def counter_channel_of_def
        read_counters_def coerce_counter_def aggregate_rows_def sum_known_def uncorrectable_percentage_def corr_def Let_def)
  with c show ?thesis by blast
qed

theorem summary_health_from_channels_witness:
  "\<exists>a. analyze FALLBACK_THRESHOLDS (Flat (Some ''3.0'') [demo_raw] []) = Inr a \<and> overall_health (an_summary a) = O_Critical"
proof -
  obtain a c where a: "analyze FALLBACK_THRESHOLDS (Flat (Some ''3.0'') [demo_raw] []) = Inr a" "an_ds a = [c]" "ch_health c = Critical"
    using demo_analysis by blast
  from summary_health_from_channels [OF a(1)] have "overall_health (an_summary a) = O_Critical" using a(2,3) by simp
  with a(1) show ?thesis by blast
qed

lemma channels_kept:
  assumes "analyze t data = Inr a"
  shows "mset (map Inr (an_ds a)) = mset (map (ds30_channel t) (fst (fst (raw_lists data))) @ map (ds31_channel t) (snd (fst (raw_lists data))))
    \<and> mset (map Inr (an_us a)) = mset (map (us30_channel t) (fst (snd (raw_lists data))) @ map (us31_channel t) (snd (snd (raw_lists data))))
    \<and> sorted (map ch_id (an_ds a)) \<and> sorted (map ch_id (an_us a))
    \<and> ds_total (an_summary a) = length (fst (fst (raw_lists data))) + length (snd (fst (raw_lists data)))"
proof -
  have parse: "mset (map Inr chs) = mset (map f (fst raws) @ map g (snd raws)) \<and> sorted (map ch_id chs)
      \<and> length chs = length (fst raws) + length (snd raws)"
    if pc: "parse_channels f g raws = Inr chs" for f g raws chs
  proof -
    from pc obtain xs ys where x: "mapM_res f (fst raws) = Inr xs" "mapM_res g (snd raws) = Inr ys" "chs = sort_key ch_id (xs @ ys)"
      by (auto simp: parse_channels_def res_bind_Inr_iff)
    then have "mset (map Inr chs) = image_mset Inr (mset xs + mset ys)" by simp
    also have "\<dots> = mset (map Inr xs @ map Inr ys)" by simp
    finally show ?thesis using x mapM_res_map [OF x(1)] mapM_res_map [OF x(2)] mapM_res_length [OF x(1)] mapM_res_length [OF x(2)]
      by simp
  qed
  from parse [OF analyze_parts(1) [OF assms]] parse [OF analyze_parts(2) [OF assms]] analyze_parts(6) [OF assms]
  show ?thesis by simp
qed

text \<open>
  No channel is lost.  The channels of a successful analysis are the parsed raw channels
  of both DOCSIS lists, each exactly as often as it was delivered, ordered by channel id, and
  the summary counts them.
\<close>

theorem analysis_keeps_channels:
  assumes "analyze t data = Inr a"
  shows "mset (map Inr (an_ds a)) = mset (map (ds30_channel t) (fst (fst (raw_lists data))) @ map (ds31_channel t) (snd (fst (raw_lists data))))
    \<and> mset (map Inr (an_us a)) = mset (map (us30_channel t) (fst (snd (raw_lists data))) @ map (us31_channel t) (snd (snd (raw_lists data))))
    \<and> sorted (map ch_id (an_ds a)) \<and> sorted (map ch_id (an_us a))
    \<and> ds_total (an_summary a) = length (fst (fst (raw_lists data))) + length (snd (fst (raw_lists data)))"
  using assms by (rule channels_kept)

theorem analysis_keeps_channels_witness:
  "\<exists>a. analyze FALLBACK_THRESHOLDS (Flat (Some ''3.0'') [demo_raw] []) = Inr a \<and> ds_total (an_summary a) = 1"
proof -
  from demo_analysis obtain a where
    a: "analyze FALLBACK_THRESHOLDS (Flat (Some ''3.0'') [demo_raw] []) = Inr a" by blast
  from analysis_keeps_channels [OF this] a show ?thesis by (simp add: get_or_def)
qed

section \<open>When analysis succeeds\<close>

fun overflow_free :: "pyval \<Rightarrow> bool" where
  "overflow_free (PInt n) = (\<bar>n\<bar> \<le> 2 ^ 53)"
| "overflow_free (PFloat x) = (x \<notin> {Inf, NInf})"
| "overflow_free (PStr s) = (parse_float s \<notin> {Some Inf, Some NInf})"
| "overflow_free _ = True"

definition counter_ok :: "pyval \<Rightarrow> bool" where
  "counter_ok v = (case coerce_counter v of Inl _ \<Rightarrow> False | Inr None \<Rightarrow> True | Inr (Some n) \<Rightarrow> 0 \<le> n)"

definition rate_ok :: "pyval \<Rightarrow> bool" where
  "rate_ok v = (v = PNone \<or> (case py_float v of Inl _ \<Rightarrow> False | Inr _ \<Rightarrow> True))"

definition raw_ok :: "raw_channel \<Rightarrow> bool" where
  "raw_ok ch = (list_all (\<lambda>k. overflow_free (raw_num ch k)) [''powerLevel'', ''mse'', ''mer'', ''channelID'']
     \<and> list_all (\<lambda>k. counter_ok (raw_num ch k)) [''corrErrors'', ''nonCorrErrors''] \<and> rate_ok (raw_num ch ''symbolRate''))"

lemma int_float: "\<bar>n\<bar> \<le> 2 ^ 53 \<Longrightarrow> f64_of (of_int n) = Fin (of_int n)"
proof -
  assume n: "\<bar>n\<bar> \<le> 2 ^ 53"
  then have "\<bar>of_int n :: rat\<bar> \<le> 2 ^ 53" by (metis (mono_tags, lifting) of_int_abs of_int_le_iff of_int_numeral of_int_power)
  then show ?thesis using f64_of_bounded [of "of_int n"] fl_of_int [OF n] by simp
qed

lemma float_or_none_ok: "overflow_free v \<Longrightarrow> \<exists>x. float_or_none v = Inr x"
  by (cases v) (auto simp: float_or_none_def int_float split: option.split)

lemma float_unless_none_ok: "overflow_free v \<Longrightarrow> \<exists>x. float_unless_none v = Inr x"
  by (simp add: float_unless_none_def float_or_none_ok)

lemma channel_id_float: "x \<notin> {Inf, NInf} \<Longrightarrow> \<exists>n. catch_type_value (py_int (PFloat x)) 0 = Inr n"
  by (cases x) auto

lemma channel_id_ok: "overflow_free v \<Longrightarrow> \<exists>n. parse_channel_id v = Inr n"
proof (cases v)
  case (PStr s)
  assume v: "overflow_free v"
  then show ?thesis using PStr channel_id_float by (cases "parse_float s") (auto simp: parse_channel_id_def)
next
  case (PFloat x)
  assume "overflow_free v"
  then show ?thesis using PFloat channel_id_float [of x] by (simp add: parse_channel_id_def)
qed (auto simp: parse_channel_id_def int_float)

lemma bitrate_ok: "rate_ok v \<Longrightarrow> \<exists>r. channel_bitrate_mbps m v (PInt n) = Inr r" if "\<bar>n\<bar> \<le> 2 ^ 53"
  using that by (auto simp: channel_bitrate_mbps_def rate_ok_def Let_def int_float split: option.split sum.splits)

lemma make_channel_total:
  assumes "raw_ok ch" "\<exists>r. br = Inr r"
  shows "\<exists>c. make_channel ch pw q mx ver fam v m pr va br = Inr c \<and> counter_ok (ch_correctable c) \<and> counter_ok (ch_uncorrectable c)"
  using assms channel_id_ok [of "raw_num ch ''channelID''"] by (auto simp: make_channel_def raw_ok_def Let_def)

lemma assess_total:
  assumes "raw_ok ch"
  shows "\<exists>r. assess_ds_channel t ch v mv fam = Inr r" "\<exists>r. assess_us_channel t ch v = Inr r"
proof -
  have ok: "overflow_free (raw_num ch ''powerLevel'')" "overflow_free (raw_num ch ''mse'')" "overflow_free (raw_num ch ''mer'')"
    using assms by (simp_all add: raw_ok_def)
  then obtain p e m where "float_unless_none (raw_num ch ''powerLevel'') = Inr p"
    "float_or_none (raw_num ch ''mse'') = Inr e" "float_or_none (raw_num ch ''mer'') = Inr m"
    using float_or_none_ok float_unless_none_ok by (metis ok)
  then show "\<exists>r. assess_ds_channel t ch v mv fam = Inr r" "\<exists>r. assess_us_channel t ch v = Inr r"
    by (auto simp: assess_ds_channel_def assess_ds_issues_def assess_us_channel_def assess_us_issues_def ds_snr_value_def Let_def)
qed

lemma parse_total:
  assumes "raw_ok ch"
  shows "\<exists>c. ds30_channel t ch = Inr c \<and> counter_ok (ch_correctable c) \<and> counter_ok (ch_uncorrectable c)"
    "\<exists>c. ds31_channel t ch = Inr c \<and> counter_ok (ch_correctable c) \<and> counter_ok (ch_uncorrectable c)"
    "\<exists>c. us30_channel t ch = Inr c" "\<exists>c. us31_channel t ch = Inr c"
proof -
  have ok: "overflow_free (raw_num ch ''powerLevel'')" "overflow_free (raw_num ch ''mse'')" "overflow_free (raw_num ch ''mer'')"
    "rate_ok (raw_num ch ''symbolRate'')" using assms by (simp_all add: raw_ok_def)
  obtain p p' e e' m where f: "float_or_none (raw_num ch ''powerLevel'') = Inr p" "float_unless_none (raw_num ch ''powerLevel'') = Inr p'"
    "float_or_none (raw_num ch ''mse'') = Inr e" "float_unless_none (raw_num ch ''mse'') = Inr e'"
    "float_unless_none (raw_num ch ''mer'') = Inr m"
    using ok float_or_none_ok float_unless_none_ok by metis
  have r: "\<exists>r. channel_bitrate_mbps x (raw_num ch ''symbolRate'') (PInt DEFAULT_DS_SC_QAM_SYMBOL_RATE) = Inr r"
    "\<exists>r. channel_bitrate_mbps x (raw_num ch ''symbolRate'') (PInt DEFAULT_US_SC_QAM_SYMBOL_RATE) = Inr r" for x
    using bitrate_ok [OF _ ok(4)] by (simp_all add: DEFAULT_DS_SC_QAM_SYMBOL_RATE_def DEFAULT_US_SC_QAM_SYMBOL_RATE_def)
  note mk = make_channel_total [OF assms]
  have mk': "\<exists>c. make_channel ch pw q mx ver fam v md pr va br = Inr c" if "\<exists>r. br = Inr r" for pw q mx ver fam v md pr va br
    using mk [OF that] by metis
  obtain v where "assess_ds_channel t ch ''3.0'' None None = Inr v" using assess_total(1) [OF assms] by blast
  then show "\<exists>c. ds30_channel t ch = Inr c \<and> counter_ok (ch_correctable c) \<and> counter_ok (ch_uncorrectable c)"
    using f by (simp add: ds30_channel_def mk r)
  obtain v where "assess_ds_channel t ch ''3.1'' (Some (if classify_ds (ds_view ch) = Sc_Qam then ''3.0'' else ''3.1''))
      (Some (family_key (classify_ds (ds_view ch)))) = Inr v" using assess_total(1) [OF assms] by blast
  then show "\<exists>c. ds31_channel t ch = Inr c \<and> counter_ok (ch_correctable c) \<and> counter_ok (ch_uncorrectable c)"
    using f by (simp add: ds31_channel_def Let_def mk r)
  obtain v where "assess_us_channel t ch ''3.0'' = Inr v" using assess_total(2) [OF assms] by blast
  then show "\<exists>c. us30_channel t ch = Inr c" using f by (simp add: us30_channel_def mk' r)
  obtain v where "assess_us_channel t ch ''3.1'' = Inr v" using assess_total(2) [OF assms] by blast
  then show "\<exists>c. us31_channel t ch = Inr c" using f by (simp add: us31_channel_def Let_def mk' r)
qed

lemma mapM_res_total: "(\<And>x. x \<in> set xs \<Longrightarrow> \<exists>y. f x = Inr y) \<Longrightarrow> \<exists>ys. mapM_res f xs = Inr ys"
proof (induction xs)
  case (Cons x xs)
  then obtain y ys where "f x = Inr y" "mapM_res f xs = Inr ys" by (metis list.set_intros)
  then show ?case by simp
qed simp

lemma parse_channels_total:
  assumes "\<And>x. x \<in> set (fst raws) \<Longrightarrow> \<exists>y. f x = Inr y" "\<And>x. x \<in> set (snd raws) \<Longrightarrow> \<exists>y. g x = Inr y"
  shows "\<exists>chs. parse_channels f g raws = Inr chs"
proof -
  obtain a b where "mapM_res f (fst raws) = Inr a" "mapM_res g (snd raws) = Inr b"
    using mapM_res_total [of "fst raws" f] mapM_res_total [of "snd raws" g] assms by blast
  then show ?thesis by (simp add: parse_channels_def)
qed

lemma counter_ok_read: "counter_ok v \<Longrightarrow> \<exists>x. coerce_counter v = Inr x \<and> (\<forall>n. x = Some n \<longrightarrow> 0 \<le> n)"
  by (auto simp: counter_ok_def split: sum.splits option.splits)

lemma sum_known_nonneg: "(\<And>n. Some n \<in> set xs \<Longrightarrow> 0 \<le> n) \<Longrightarrow> sum_known xs = Some m \<Longrightarrow> 0 \<le> m"
  by (auto simp: sum_known_def Let_def intro!: sum_list_nonneg split: if_splits)

lemma aggregate_total:
  assumes "\<And>c. c \<in> set chs \<Longrightarrow> counter_ok (cc_correctable c) \<and> counter_ok (cc_uncorrectable c)"
  shows "\<exists>a. aggregate_error_counters chs = Inr a \<and> (\<forall>n. comparable_correctable a = Some n \<longrightarrow> 0 \<le> n)
     \<and> (\<forall>n. comparable_uncorrectable a = Some n \<longrightarrow> 0 \<le> n)"
proof -
  have read: "\<exists>r. read_counters c = Inr r \<and> (\<forall>n. corr r = Some n \<or> uncorr r = Some n \<longrightarrow> 0 \<le> n)" if "c \<in> set chs" for c
    using assms [OF that] counter_ok_read [of "cc_correctable c"] counter_ok_read [of "cc_uncorrectable c"]
    by (auto simp: read_counters_def corr_def uncorr_def)
  then obtain rows where rows: "mapM_res read_counters chs = Inr rows" using mapM_res_total [of chs read_counters] by blast
  have nn: "0 \<le> n" if "r \<in> set rows" "corr r = Some n \<or> uncorr r = Some n" for r n
    using mapM_res_mem [OF rows that(1)] read that(2) by (metis sum.inject(2))
  define ok where "ok = filter (\<lambda>r. corr r \<noteq> None \<and> uncorr r \<noteq> None) rows"
  have "comparable_correctable (aggregate_rows rows) = sum_known (map corr ok)"
    "comparable_uncorrectable (aggregate_rows rows) = sum_known (map uncorr ok)"
    by (simp_all add: aggregate_rows_def Let_def ok_def)
  moreover have "0 \<le> m" if "sum_known (map corr ok) = Some m" for m
    by (rule sum_known_nonneg [OF _ that]) (use nn in \<open>force simp: ok_def\<close>)
  moreover have "0 \<le> m" if "sum_known (map uncorr ok) = Some m" for m
    by (rule sum_known_nonneg [OF _ that]) (use nn in \<open>force simp: ok_def\<close>)
  ultimately show ?thesis by (simp add: aggregate_error_counters_def rows)
qed

lemma percentage_total:
  assumes "\<And>n. c = Some n \<Longrightarrow> 0 \<le> n" "\<And>n. u = Some n \<Longrightarrow> 0 \<le> n" "0 < m"
  shows "\<exists>p. uncorrectable_percentage c u m = Inr p"
proof (cases "\<exists>x y. c = Some x \<and> u = Some y")
  case True
  then obtain x y where xy: "c = Some x" "u = Some y" by blast
  show ?thesis
  proof (cases "of_int (x + y) < m")
    case False
    then have "(0::rat) < of_int (x + y)" using assms(3) by linarith
    then have "0 < x + y" by simp
    with percentage_value [of y x m] assms(1,2) xy False show ?thesis by auto
  qed (simp add: xy uncorrectable_percentage_def Let_def)
next
  case False
  then show ?thesis by (cases c; cases u) (auto simp: uncorrectable_percentage_def)
qed

lemma parsed_counters_ok:
  assumes "\<And>r. r \<in> set (fst raws) \<union> set (snd raws) \<Longrightarrow> raw_ok r"
    and "parse_channels (ds30_channel t) (ds31_channel t) raws = Inr chs" "c \<in> set chs"
  shows "counter_ok (ch_correctable c) \<and> counter_ok (ch_uncorrectable c)"
  using parse_channels_mem [OF assms(2,3)] assms(1) parse_total(1,2) by (metis UnCI sum.inject(2))

definition data_ok :: "docsis_data \<Rightarrow> bool" where
  "data_ok d = (case raw_lists d of ((a, b), (c, e)) \<Rightarrow> list_all raw_ok (a @ b @ c @ e))"

lemma analyze_returns:
  assumes "data_ok data" and "0 < min_codewords (get_uncorr_thresholds t)"
  shows "\<exists>a. analyze t data = Inr a"
proof -
  obtain d30 d31 u30 u31 where l: "raw_lists data = ((d30, d31), (u30, u31))" by (metis prod.collapse)
  with assms(1) have ok: "raw_ok r" if "r \<in> set d30 \<union> set d31 \<union> set u30 \<union> set u31" for r
    using that by (auto simp: data_ok_def list_all_iff)
  obtain ds where ds: "parse_channels (ds30_channel t) (ds31_channel t) (d30, d31) = Inr ds"
    using parse_channels_total [of "(d30, d31)" "ds30_channel t" "ds31_channel t"] parse_total(1,2) ok by fastforce
  obtain us where us: "parse_channels (us30_channel t) (us31_channel t) (u30, u31) = Inr us"
    using parse_channels_total [of "(u30, u31)" "us30_channel t" "us31_channel t"] parse_total(3,4) ok by fastforce
  have "counter_ok (ch_correctable c) \<and> counter_ok (ch_uncorrectable c)" if "c \<in> set ds" for c
    by (rule parsed_counters_ok [OF _ ds that]) (use ok in auto)
  then have "\<exists>a. aggregate_error_counters (map counter_channel_of ds) = Inr a \<and> (\<forall>n. comparable_correctable a = Some n \<longrightarrow> 0 \<le> n)
     \<and> (\<forall>n. comparable_uncorrectable a = Some n \<longrightarrow> 0 \<le> n)"
    by (intro aggregate_total) (auto simp: counter_channel_of_def)
  then obtain cnt where cnt: "aggregate_error_counters (map counter_channel_of ds) = Inr cnt"
    "\<And>n. comparable_correctable cnt = Some n \<Longrightarrow> 0 \<le> n" "\<And>n. comparable_uncorrectable cnt = Some n \<Longrightarrow> 0 \<le> n" by blast
  then obtain pct where "uncorrectable_percentage (comparable_correctable cnt) (comparable_uncorrectable cnt)
      (min_codewords (get_uncorr_thresholds t)) = Inr pct"
    using percentage_total [OF cnt(2,3) assms(2)] by blast
  with l ds us cnt(1) show ?thesis by (simp add: analyze_def Let_def)
qed

text \<open>
  Analysis is total on driver data.  Whatever text the fields of the raw channels hold,
  analysis returns a result, provided no number overflows a float, the error counters read
  as nothing or as non-negative integers, the symbol rate reads as a number and the profile
  asks for at least some codewords.
\<close>

theorem analyze_total:
  assumes "data_ok data" and "0 < min_codewords (get_uncorr_thresholds t)"
  shows "\<exists>a. analyze t data = Inr a"
  using assms by (rule analyze_returns)

theorem analyze_total_witness:
  "data_ok (Flat None [demo_raw\<lparr>raw_num := (\<lambda>_. PNone)(''powerLevel'' := PStr ''n/a'', ''corrErrors'' := PInt 7)\<rparr>] [demo_raw])
    \<and> (\<exists>a. analyze FALLBACK_THRESHOLDS
        (Flat None [demo_raw\<lparr>raw_num := (\<lambda>_. PNone)(''powerLevel'' := PStr ''n/a'', ''corrErrors'' := PInt 7)\<rparr>] [demo_raw]) = Inr a)"
proof -
  have p: "parse_float ''n/a'' = None"
    by (simp add: parse_float_def py_text unsign_def parse_decimal_def mantissa_def opt_group_def is_digit_def)
  have ok: "data_ok (Flat None [demo_raw\<lparr>raw_num := (\<lambda>_. PNone)(''powerLevel'' := PStr ''n/a'', ''corrErrors'' := PInt 7)\<rparr>] [demo_raw])"
    by (simp add: data_ok_def get_or_def raw_ok_def demo_raw_def counter_ok_def coerce_counter_def rate_ok_def p)
  have "0 < min_codewords (get_uncorr_thresholds FALLBACK_THRESHOLDS)"
    by (simp add: get_uncorr_thresholds_def FALLBACK_THRESHOLDS_def get_or_def)
  from analyze_total [OF ok this] ok show ?thesis by blast
qed

section \<open>Growth scoring and spike suppression\<close>

lemma uncorr_issues_all: "list_all uncorr_issue (uncorr_issues t pct)"
  by (cases pct) (simp_all add: uncorr_issues_def uncorr_issue_def Let_def del: f_le_def)

lemma filter_not_uncorr: "filter (\<lambda>i. \<not> uncorr_issue i) (uncorr_issues t pct) = []"
  using uncorr_issues_all by (simp add: filter_empty_conv list_all_iff)

lemma fresh_percentage:
  assumes "uncorrectable_percentage (comparable_correctable_delta (calculate_error_counter_growth cur prev bl True))
      (comparable_uncorrectable_delta (calculate_error_counter_growth cur prev bl True)) m = Inr pct" "0 < m"
  shows "pct \<in> {None, Some (Fin 0)}"
  using assms by (auto simp: uncorrectable_percentage_def growth_def Let_def zero_if_known_def split: option.splits if_splits)

text \<open>
  Scoring against growth.  When the cumulative baseline step runs it touches nothing but
  the error part of the summary: channels and all other issues stay, the health is again that
  of the issues, running it again on its own result changes nothing, and against a previous
  analysis of another schema, whose totals are no baseline, no error issue remains.
\<close>

theorem cumulative_scoring:
  assumes "apply_cumulative_error_baseline t False (Some p) a = Inr b"
    and "0 < min_codewords (get_uncorr_thresholds t)" "0 < pct_warning (get_uncorr_thresholds t)" "0 < pct_critical (get_uncorr_thresholds t)"
  shows "an_ds b = an_ds a \<and> an_us b = an_us a
    \<and> filter (\<lambda>i. \<not> uncorr_issue i) (health_issues (an_summary b)) = filter (\<lambda>i. \<not> uncorr_issue i) (health_issues (an_summary a))
    \<and> overall_health (an_summary b) = health_of_issues (health_issues (an_summary b))
    \<and> apply_cumulative_error_baseline t False (Some p) b = Inr b
    \<and> (pv_schema p = Some ANALYZER_SCHEMA_VERSION \<or> list_all (\<lambda>i. \<not> uncorr_issue i) (health_issues (an_summary b)))"
proof -
  define force where "force = (pv_schema p \<noteq> Some ANALYZER_SCHEMA_VERSION \<or> \<not> pv_provenance p)"
  from assms(1) obtain cur prev pct where
    r: "aggregate_error_counters (map counter_channel_of (an_ds a)) = Inr cur" "aggregate_error_counters (pv_channels p) = Inr prev"
    and pct: "uncorrectable_percentage (comparable_correctable_delta (calculate_error_counter_growth cur prev (pv_baseline p) force))
       (comparable_uncorrectable_delta (calculate_error_counter_growth cur prev (pv_baseline p) force))
       (min_codewords (get_uncorr_thresholds t)) = Inr pct"
    and b: "b = a\<lparr>an_summary := recalculate_summary_health ((an_summary a)\<lparr>uncorr_pct := pct,
       health_issues := filter (\<lambda>i. \<not> uncorr_issue i) (health_issues (an_summary a)) @ uncorr_issues t pct,
       error_growth := Some (calculate_error_counter_growth cur prev (pv_baseline p) force)\<rparr>)\<rparr>"
    by (auto simp: apply_cumulative_error_baseline_def res_bind_Inr_iff Let_def force_def)
  have again: "apply_cumulative_error_baseline t False (Some p) b = Inr b"
    using r pct unfolding b
    by (simp add: apply_cumulative_error_baseline_def Let_def force_def recalculate_summary_health_def filter_not_uncorr)
  have fresh: "list_all (\<lambda>i. \<not> uncorr_issue i) (health_issues (an_summary b))" if "pv_schema p \<noteq> Some ANALYZER_SCHEMA_VERSION"
  proof -
    have "pct \<in> {None, Some (Fin 0)}" using that pct assms(2) by (intro fresh_percentage) (auto simp: force_def)
    then have "uncorr_issues t pct = []" using assms(3,4) by (auto simp: uncorr_issues_def Let_def)
    then show ?thesis by (simp add: b recalculate_summary_health_def list_all_iff)
  qed
  show ?thesis using again fresh by (auto simp: b recalculate_summary_health_def filter_not_uncorr)
qed

definition demo_previous :: previous_analysis where
  "demo_previous = \<lparr>pv_channels = [], pv_baseline = None, pv_schema = Some 2, pv_provenance = False\<rparr>"

lemma fallback_uncorr: "get_uncorr_thresholds FALLBACK_THRESHOLDS = \<lparr>pct_warning = 1, pct_critical = 3, min_codewords = 1000\<rparr>"
  by (simp add: get_uncorr_thresholds_def FALLBACK_THRESHOLDS_def get_or_def)

theorem cumulative_scoring_witness:
  "\<exists>a b. analyze FALLBACK_THRESHOLDS (Flat (Some ''3.0'') [demo_raw] []) = Inr a
    \<and> apply_cumulative_error_baseline FALLBACK_THRESHOLDS False (Some demo_previous) a = Inr b
    \<and> list_all (\<lambda>i. \<not> uncorr_issue i) (health_issues (an_summary b))"
proof -
  obtain a c where a: "analyze FALLBACK_THRESHOLDS (Flat (Some ''3.0'') [demo_raw] []) = Inr a" "an_ds a = [c]"
    "ch_correctable c = PNone" "ch_uncorrectable c = PNone" using demo_analysis by blast
  have agg: "\<exists>x. aggregate_error_counters (map counter_channel_of (an_ds a)) = Inr x \<and> comparable_correctable x = None"
    by (simp add: a aggregate_error_counters_def read_counters_def counter_channel_of_def coerce_counter_def
        aggregate_rows_def sum_known_def corr_def uncorr_def Let_def)
  have "\<exists>b. apply_cumulative_error_baseline FALLBACK_THRESHOLDS False (Some demo_previous) a = Inr b"
    using agg by (auto simp: apply_cumulative_error_baseline_def demo_previous_def aggregate_error_counters_def Let_def
        growth_def zero_if_known_def uncorrectable_percentage_def ANALYZER_SCHEMA_VERSION_def)
  then obtain b where b: "apply_cumulative_error_baseline FALLBACK_THRESHOLDS False (Some demo_previous) a = Inr b" by blast
  from cumulative_scoring [OF this] a(1) b show ?thesis
    by (auto simp: fallback_uncorr demo_previous_def ANALYZER_SCHEMA_VERSION_def)
qed

fun overall_rank :: "overall \<Rightarrow> nat" where
  "overall_rank O_Good = 0"
| "overall_rank O_Tolerated = 1"
| "overall_rank O_Marginal = 2"
| "overall_rank O_Critical = 3"

lemma health_of_issues_mono: "set is \<subseteq> set js \<Longrightarrow> overall_rank (health_of_issues is) \<le> overall_rank (health_of_issues js)"
  by (auto simp: health_of_issues_def list_ex_iff subset_iff)

lemma suppression_cases:
  assumes "apply_spike_suppression t now ts a = Inr b"
  shows "(b = a \<and> \<not> (\<exists>s. ts = Some (Stamp s) \<and> \<not> recent_spike_active t now ts \<and> error_growth (an_summary a) = None))
    \<or> (\<not> recent_spike_active t now ts
       \<and> health_issues (an_summary b) = filter (\<lambda>i. \<not> uncorr_issue i) (health_issues (an_summary a))
       \<and> an_ds b = an_ds a \<and> an_us b = an_us a
       \<and> overall_health (an_summary b) = health_of_issues (filter (\<lambda>i. \<not> uncorr_issue i) (health_issues (an_summary a))))"
proof (cases ts)
  case (Some st)
  show ?thesis
  proof (cases st)
    case (Stamp s)
    with assms \<open>ts = Some st\<close> show ?thesis
      by (cases "error_growth (an_summary a)")
        (auto simp: apply_spike_suppression_def recent_spike_active_def recalculate_summary_health_def Let_def split: if_splits)
  qed (use assms Some in \<open>simp add: apply_spike_suppression_def\<close>)
qed (use assms in \<open>simp add: apply_spike_suppression_def\<close>)

text \<open>
  Spike suppression only relaxes.  On a summary whose health is that of its issues the
  step never worsens the health, adds no issue and leaves the channels alone; while the last
  spike is inside its expiry window it changes nothing; and past the window, without newly
  observed growth, no error issue remains and every other issue does.
\<close>

theorem suppression_only_relaxes:
  assumes "apply_spike_suppression t now ts a = Inr b"
    and "overall_health (an_summary a) = health_of_issues (health_issues (an_summary a))"
  shows "overall_rank (overall_health (an_summary b)) \<le> overall_rank (overall_health (an_summary a))
    \<and> overall_health (an_summary b) = health_of_issues (health_issues (an_summary b))
    \<and> an_ds b = an_ds a \<and> an_us b = an_us a
    \<and> filter (\<lambda>i. \<not> uncorr_issue i) (health_issues (an_summary b)) = filter (\<lambda>i. \<not> uncorr_issue i) (health_issues (an_summary a))
    \<and> (recent_spike_active t now ts \<longrightarrow> b = a)
    \<and> (ts = Some (Stamp sp) \<and> \<not> recent_spike_active t now ts \<and> error_growth (an_summary a) = None \<longrightarrow>
        list_all (\<lambda>i. \<not> uncorr_issue i) (health_issues (an_summary b)))"
proof -
  let ?keep = "filter (\<lambda>i. \<not> uncorr_issue i) (health_issues (an_summary a))"
  have mono: "overall_rank (health_of_issues ?keep) \<le> overall_rank (health_of_issues (health_issues (an_summary a)))"
    by (rule health_of_issues_mono) auto
  from suppression_cases [OF assms(1)] show ?thesis
  proof (elim disjE)
    assume "b = a \<and> \<not> (\<exists>s. ts = Some (Stamp s) \<and> \<not> recent_spike_active t now ts \<and> error_growth (an_summary a) = None)"
    then show ?thesis using assms(2) by auto
  next
    assume "\<not> recent_spike_active t now ts \<and> health_issues (an_summary b) = ?keep \<and> an_ds b = an_ds a \<and> an_us b = an_us a
      \<and> overall_health (an_summary b) = health_of_issues ?keep"
    then show ?thesis using assms(2) mono by (simp add: list_all_iff)
  qed
qed

theorem suppression_only_relaxes_witness:
  "\<exists>a b. analyze FALLBACK_THRESHOLDS (Flat (Some ''3.0'') [demo_raw] []) = Inr a
    \<and> apply_spike_suppression FALLBACK_THRESHOLDS 1000000 (Some (Stamp 1000)) a = Inr b
    \<and> overall_health (an_summary b) = health_of_issues (health_issues (an_summary b))"
proof -
  obtain a where a: "analyze FALLBACK_THRESHOLDS (Flat (Some ''3.0'') [demo_raw] []) = Inr a" using demo_analysis by blast
  have "\<exists>b. apply_spike_suppression FALLBACK_THRESHOLDS 1000000 (Some (Stamp 1000)) a = Inr b"
    by (auto simp: apply_spike_suppression_def Let_def)
  then obtain b where b: "apply_spike_suppression FALLBACK_THRESHOLDS 1000000 (Some (Stamp 1000)) a = Inr b" by blast
  from suppression_only_relaxes [OF b analyze_parts(5) [OF a]] a b show ?thesis by blast
qed

end
