(* ===== verification/Event_Detector.thy ===== *)
theory Event_Detector
  imports Thresholds "HOL-Library.Product_Lexorder"
begin

text \<open>
  \<^verbatim>\<open>app/event_detector.py\<close>: comparison of consecutive snapshots.  A snapshot is the persisted
  analysis: a summary and the two channel lists.  Numeric fields are floats or absent, as
  \<^verbatim>\<open>app/types.py\<close> declares them; channel ids are integers, text or absent.  The order in which
  Python walks a set of channel keys is not specified; the model walks the later snapshot.
\<close>

datatype chan_id = Id_None | Id_Int int | Id_Text string

record ev_channel =
  ec_id :: chan_id
  ec_text :: text_fields
  ec_snr :: "f64 option"
  ec_snr_health :: "string option"
  ec_modulation_health :: "string option"
  ec_correctable :: "int option"
  ec_uncorrectable :: "int option"

text \<open>A total is missing (\<open>None\<close>), unknown (\<open>Some None\<close>) or a count.\<close>

record ev_summary =
  es_health :: "string option"
  es_ds_power_avg :: "f64 option"
  es_us_power_avg :: "f64 option"
  es_ds_snr_min :: "f64 option"
  es_ds_total :: int
  es_us_total :: int
  es_errors_supported :: "bool option"
  es_correctable :: "int option option"
  es_uncorrectable :: "int option option"
  es_recent_deltas :: "(int option \<times> int option) option"

record snapshot =
  sn_summary :: ev_summary
  sn_ds :: "ev_channel list"
  sn_us :: "ev_channel list"

section \<open>Channel keys and values\<close>

datatype id_key = K_Int int | K_Float f64 | K_Str string

definition is_integer :: "f64 \<Rightarrow> int option" where
  "is_integer x = (case x of Fin q \<Rightarrow> if q = of_int \<lfloor>q\<rfloor> then Some \<lfloor>q\<rfloor> else None | _ \<Rightarrow> None)"

definition text_key :: "string \<Rightarrow> id_key option" where
  "text_key s = (if s = [] then None
     else case parse_int s of Some n \<Rightarrow> Some (K_Int n)
     | None \<Rightarrow> (case parse_float s of None \<Rightarrow> Some (K_Str s)
         | Some x \<Rightarrow> (case is_integer x of Some n \<Rightarrow> Some (K_Int n) | None \<Rightarrow> Some (K_Float x))))"

fun normalize_channel_id :: "chan_id \<Rightarrow> id_key option" where
  "normalize_channel_id Id_None = None"
| "normalize_channel_id (Id_Int n) = Some (K_Int n)"
| "normalize_channel_id (Id_Text s) = text_key (py_strip s)"

fun id_str :: "chan_id \<Rightarrow> string" where
  "id_str Id_None = ''None''"
| "id_str (Id_Int n) = int_str n"
| "id_str (Id_Text s) = s"

definition coerce_float :: "f64 option \<Rightarrow> rat option" where
  "coerce_float v = (case v of Some (Fin x) \<Rightarrow> Some x | _ \<Rightarrow> None)"

fun channel_map :: "(id_key \<times> ev_channel) list \<Rightarrow> ev_channel list \<Rightarrow> (id_key \<times> ev_channel) list" where
  "channel_map m [] = m"
| "channel_map m (ch # chs) = (case normalize_channel_id (ec_id ch) of None \<Rightarrow> channel_map m chs
     | Some k \<Rightarrow> channel_map (dict_set k ch m) chs)"

text \<open>\<^verbatim>\<open>cur.get(k) or prev.get(k) or ""\<close>.\<close>

definition either_text :: "string \<Rightarrow> ev_channel \<Rightarrow> ev_channel \<Rightarrow> string" where
  "either_text k cur prev = text_of (or_text (ec_text cur k) (ec_text prev k))"

definition type_label :: "string \<Rightarrow> ev_channel \<Rightarrow> text_fields \<Rightarrow> string" where
  "type_label direction ch fallback = (case channel_type_label direction (ec_text ch) fallback of Inr s \<Rightarrow> s | Inl _ \<Rightarrow> [])"

section \<open>Events\<close>

datatype severity = Info | Warn | Crit

record snr_change =
  sc_channel :: chan_id
  sc_frequency :: string
  sc_version :: string
  sc_type :: string
  sc_modulation :: string
  sc_prev :: rat
  sc_current :: rat
  sc_delta :: f64
  sc_healths :: "(string \<times> string) option"
  sc_threshold :: string

record channel_detail =
  cd_channel :: chan_id
  cd_frequency :: string
  cd_version :: string
  cd_type :: string
  cd_modulation :: string

record modulation_change =
  mc_channel :: chan_id
  mc_direction :: string
  mc_prev :: string
  mc_current :: string
  mc_prev_rank :: nat
  mc_current_rank :: nat
  mc_rank_drop :: int
  mc_version :: string
  mc_prev_health :: string
  mc_current_health :: string
  mc_type :: string
  mc_frequency :: string

datatype details =
    D_Started string
  | D_Health string string
  | D_Power string rat rat rat
  | D_Snr rat rat string "rat option" "snr_change list"
  | D_Channels string int int bool "channel_detail list" "channel_detail list"
  | D_Modulation "modulation_change list" bool
  | D_Errors int int int "int option" "int option"
  | D_Restart nat nat "int option" "int option" "int option" "int option"

record event =
  ev_time :: string
  ev_severity :: severity
  ev_type :: string
  ev_message :: message
  ev_details :: details
  ev_snapshot :: "int option"
  ev_previous_snapshot :: "int option"

definition mk_event :: "string \<Rightarrow> severity \<Rightarrow> string \<Rightarrow> message \<Rightarrow> details \<Rightarrow> event" where
  "mk_event ts sev ty msg d = \<lparr>ev_time = ts, ev_severity = sev, ev_type = ty, ev_message = msg, ev_details = d,
     ev_snapshot = None, ev_previous_snapshot = None\<rparr>"

definition annotate :: "int option \<Rightarrow> int option \<Rightarrow> event \<Rightarrow> event" where
  "annotate sid prev_sid e = e\<lparr>ev_snapshot := sid, ev_previous_snapshot := prev_sid\<rparr>"

section \<open>The detector and its health state\<close>

record detector =
  dt_prev :: "(snapshot \<times> int option) option"
  dt_hysteresis :: int
  dt_confirmed :: "string option"
  dt_pending :: "string option"
  dt_pending_count :: nat

definition seed :: "(snapshot \<times> int option) option \<Rightarrow> detector \<Rightarrow> detector" where
  "seed analysis d = (case analysis of None \<Rightarrow> d
     | Some (s, sid) \<Rightarrow> d\<lparr>dt_prev := Some (s, sid),
         dt_confirmed := (if 2 \<le> dt_hysteresis d then Some (get_or (es_health (sn_summary s)) ''good'') else dt_confirmed d),
         dt_pending := None, dt_pending_count := 0\<rparr>)"

definition init_detector :: "int \<Rightarrow> (snapshot \<times> int option) option \<Rightarrow> detector" where
  "init_detector hysteresis baseline = seed baseline
     \<lparr>dt_prev = None, dt_hysteresis = max 0 hysteresis, dt_confirmed = None, dt_pending = None, dt_pending_count = 0\<rparr>"

definition health_order :: "string \<Rightarrow> nat" where
  "health_order h = dict_get [(''good'', 0), (''tolerated'', 1), (''marginal'', 2), (''critical'', 3)] h 0"

definition health_event :: "string \<Rightarrow> string \<Rightarrow> string \<Rightarrow> event" where
  "health_event ts prev_health cur_health =
     (if health_order prev_health < health_order cur_health
      then mk_event ts (if cur_health = ''critical'' then Crit else Warn) ''health_change''
        (Msg ''Health changed from {prev_health} to {cur_health}'' [PStr prev_health, PStr cur_health])
        (D_Health prev_health cur_health)
      else mk_event ts Info ''health_change''
        (Msg ''Health recovered from {prev_health} to {cur_health}'' [PStr prev_health, PStr cur_health])
        (D_Health prev_health cur_health))"

definition check_health :: "string \<Rightarrow> ev_summary \<Rightarrow> ev_summary \<Rightarrow> detector \<Rightarrow> event list \<times> detector" where
  "check_health ts cur prev d =
     (let cur_health = get_or (es_health cur) ''good''; prev_health = get_or (es_health prev) ''good'' in
      if dt_hysteresis d < 2 then
        (if cur_health = prev_health then [] else [health_event ts prev_health cur_health], d)
      else (let confirmed = get_or (dt_confirmed d) prev_health; d1 = d\<lparr>dt_confirmed := Some confirmed\<rparr> in
        if cur_health = confirmed then ([], d1\<lparr>dt_pending := None, dt_pending_count := 0\<rparr>)
        else (let n = (if dt_pending d = Some cur_health then dt_pending_count d + 1 else 1);
                  d2 = d1\<lparr>dt_pending := Some cur_health, dt_pending_count := n\<rparr> in
          if dt_hysteresis d \<le> int n
          then ([health_event ts confirmed cur_health],
                d2\<lparr>dt_confirmed := Some cur_health, dt_pending := None, dt_pending_count := 0\<rparr>)
          else ([], d2))))"

section \<open>Power\<close>

definition POWER_SHIFT_THRESHOLD :: rat where
  "POWER_SHIFT_THRESHOLD = 2"

definition power_shift :: "string \<Rightarrow> string \<Rightarrow> string \<Rightarrow> f64 option \<Rightarrow> f64 option \<Rightarrow> event list" where
  "power_shift ts label direction cur prev =
     (case (coerce_float cur, coerce_float prev) of
        (Some c, Some p) \<Rightarrow>
          if f_lt (Fin POWER_SHIFT_THRESHOLD) (f_abs (f_sub (Fin c) (Fin p)))
          then [mk_event ts Warn ''power_change'' (Msg (label @ '' power avg shifted from {prev} to {cur} dBmV'')
                 [PFloat (Fin p), PFloat (Fin c)]) (D_Power direction p c POWER_SHIFT_THRESHOLD)]
          else []
      | _ \<Rightarrow> [])"

definition check_power :: "string \<Rightarrow> ev_summary \<Rightarrow> ev_summary \<Rightarrow> event list" where
  "check_power ts cur prev = power_shift ts ''DS'' ''downstream'' (es_ds_power_avg cur) (es_ds_power_avg prev)
     @ power_shift ts ''US'' ''upstream'' (es_us_power_avg cur) (es_us_power_avg prev)"

section \<open>Signal to noise ratio\<close>

definition channel_rank :: "string \<Rightarrow> int" where
  "channel_rank h = dict_get [(''missing'', - 1), (''good'', 0), (''tolerated'', 1), (''warning'', 2), (''critical'', 3)] h 0"

definition analyzer_health :: "string option \<Rightarrow> ev_channel \<Rightarrow> string option" where
  "analyzer_health h ch = (if text_of h = [] \<and> ec_text ch ''channel_family'' \<in> {Some ''sc_qam'', Some ''ofdm''}
     then Some ''good'' else h)"

definition snr_change_of :: "ev_channel \<Rightarrow> ev_channel \<Rightarrow> rat \<Rightarrow> rat \<Rightarrow> (string \<times> string) option \<Rightarrow> string \<Rightarrow> snr_change" where
  "snr_change_of cur prev c p healths threshold =
     \<lparr>sc_channel = ec_id cur, sc_frequency = either_text ''frequency'' cur prev,
      sc_version = either_text ''docsis_version'' cur prev, sc_type = type_label ''DS'' cur (ec_text prev),
      sc_modulation = either_text ''modulation'' cur prev, sc_prev = p, sc_current = c,
      sc_delta = f_round 1 (f_sub (Fin c) (Fin p)), sc_healths = healths, sc_threshold = threshold\<rparr>"

text \<open>
  The comparison of analyzer healths: \<open>None\<close> when a comparable channel has no health
  (legacy data), otherwise whether anything was comparable and the degraded channels.
\<close>

fun snr_health_loop ::
  "(id_key \<times> ev_channel) list \<Rightarrow> bool \<Rightarrow> snr_change list \<Rightarrow> ev_channel list \<Rightarrow> (bool \<times> snr_change list) option" where
  "snr_health_loop prevs found affected [] = Some (found, affected)"
| "snr_health_loop prevs found affected (cur # chs) =
     (case normalize_channel_id (ec_id cur) of None \<Rightarrow> snr_health_loop prevs found affected chs
      | Some key \<Rightarrow> (case map_of prevs key of None \<Rightarrow> snr_health_loop prevs found affected chs
        | Some prev \<Rightarrow> (case (coerce_float (ec_snr prev), coerce_float (ec_snr cur)) of
            (Some p, Some c) \<Rightarrow>
              (let ph = text_of (analyzer_health (ec_snr_health prev) prev);
                   ch = text_of (analyzer_health (ec_snr_health cur) cur) in
               if ph = [] \<or> ch = [] then None
               else if channel_rank ch \<le> channel_rank ph \<or> channel_rank ch \<le> channel_rank ''good''
               then snr_health_loop prevs True affected chs
               else snr_health_loop prevs True (affected @ [snr_change_of cur prev c p (Some (ph, ch)) ch]) chs)
          | _ \<Rightarrow> snr_health_loop prevs found affected chs)))"

definition severity_position :: "string \<Rightarrow> nat" where
  "severity_position h = dict_get [(''critical'', 0), (''warning'', 1), (''tolerated'', 2)] h 3"

definition snr_affected_channels_by_health :: "ev_channel list \<Rightarrow> ev_channel list \<Rightarrow> snr_change list option" where
  "snr_affected_channels_by_health cur prev =
     (case snr_health_loop (channel_map [] prev) False [] cur of
        Some (True, affected) \<Rightarrow> Some (sort_key
          (\<lambda>a. (severity_position (sc_threshold a), sc_current a, id_str (sc_channel a))) affected)
      | _ \<Rightarrow> None)"

fun last_crossed :: "(string \<times> rat) list \<Rightarrow> rat \<Rightarrow> rat \<Rightarrow> string option" where
  "last_crossed [] c p = None"
| "last_crossed ((label, t) # ts) c p = (case last_crossed ts c p of Some l \<Rightarrow> Some l
     | None \<Rightarrow> if c < t \<and> t \<le> p then Some label else None)"

fun snr_crossing_loop :: "(id_key \<times> ev_channel) list \<Rightarrow> (string \<times> rat) list \<Rightarrow> ev_channel list \<Rightarrow> snr_change list" where
  "snr_crossing_loop prevs thr [] = []"
| "snr_crossing_loop prevs thr (cur # chs) =
     (case normalize_channel_id (ec_id cur) of None \<Rightarrow> snr_crossing_loop prevs thr chs
      | Some key \<Rightarrow> (case map_of prevs key of None \<Rightarrow> snr_crossing_loop prevs thr chs
        | Some prev \<Rightarrow> (case (coerce_float (ec_snr prev), coerce_float (ec_snr cur)) of
            (Some p, Some c) \<Rightarrow> (case last_crossed thr c p of None \<Rightarrow> snr_crossing_loop prevs thr chs
              | Some label \<Rightarrow> snr_change_of cur prev c p None label # snr_crossing_loop prevs thr chs)
          | _ \<Rightarrow> snr_crossing_loop prevs thr chs)))"

definition snr_affected_channels :: "ev_channel list \<Rightarrow> ev_channel list \<Rightarrow> (string \<times> rat) list \<Rightarrow> snr_change list" where
  "snr_affected_channels cur prev thr =
     sort_key (\<lambda>a. (sc_current a, id_str (sc_channel a))) (snr_crossing_loop (channel_map [] prev) thr cur)"

definition worst_rank :: "snr_change \<Rightarrow> nat" where
  "worst_rank a = dict_get [(''good'', 0), (''tolerated'', 1), (''warning'', 2), (''critical'', 3)] (sc_threshold a) 0"

definition check_snr :: "thresholds \<Rightarrow> string \<Rightarrow> snapshot \<Rightarrow> snapshot \<Rightarrow> event list" where
  "check_snr t ts cur prev =
     (case (coerce_float (es_ds_snr_min (sn_summary cur)), coerce_float (es_ds_snr_min (sn_summary prev))) of
        (Some c, Some p) \<Rightarrow>
          if c = p then []
          else (case snr_affected_channels_by_health (sn_ds cur) (sn_ds prev) of
            Some [] \<Rightarrow> []
          | Some (a # as) \<Rightarrow>
              (let h = sc_threshold (first_max worst_rank a as) in
               [mk_event ts (if h = ''critical'' then Crit else Warn) ''snr_change''
                 (Msg ''DS SNR/MER health changed to {current_health} (min: {snr_cur} dB)'' [PStr h, PFloat (Fin c)])
                 (D_Snr p c h None (a # as))])
          | None \<Rightarrow>
              (let st = resolve_snr_thresholds None None t; crit = snr_crit_min st; warn = snr_good_min st in
               if c < crit \<and> crit \<le> p then
                 [mk_event ts Crit ''snr_change''
                   (Msg ''DS SNR min dropped to {snr_cur} dB (critical threshold: {snr_crit})'' [PFloat (Fin c), PFloat (Fin crit)])
                   (D_Snr p c ''critical'' (Some crit)
                     (snr_affected_channels (sn_ds cur) (sn_ds prev) [(''warning'', warn), (''critical'', crit)]))]
               else if c < warn \<and> warn \<le> p then
                 [mk_event ts Warn ''snr_change''
                   (Msg ''DS SNR min dropped to {snr_cur} dB (warning threshold: {snr_warn})'' [PFloat (Fin c), PFloat (Fin warn)])
                   (D_Snr p c ''warning'' (Some warn)
                     (snr_affected_channels (sn_ds cur) (sn_ds prev) [(''warning'', warn)]))]
               else []))
      | _ \<Rightarrow> [])"

section \<open>Channel counts\<close>

definition channel_detail_of :: "string \<Rightarrow> ev_channel \<Rightarrow> channel_detail" where
  "channel_detail_of direction ch =
     \<lparr>cd_channel = ec_id ch, cd_frequency = text_of (ec_text ch ''frequency''), cd_version = text_of (ec_text ch ''docsis_version''),
      cd_type = type_label direction ch (\<lambda>_. None), cd_modulation = text_of (ec_text ch ''modulation'')\<rparr>"

definition changed_channels ::
  "string \<Rightarrow> ev_channel list \<Rightarrow> ev_channel list \<Rightarrow> channel_detail list \<times> channel_detail list" where
  "changed_channels direction cur prev =
     (let cm = channel_map [] cur; pm = channel_map [] prev;
          order = sort_key (\<lambda>d. id_str (cd_channel d));
          only = (\<lambda>a b. map (\<lambda>(k, ch). channel_detail_of direction ch) (filter (\<lambda>(k, ch). k \<notin> set (dict_keys b)) a))
      in (order (only pm cm), order (only cm pm)))"

definition count_change :: "string \<Rightarrow> string \<Rightarrow> string \<Rightarrow> int \<Rightarrow> int \<Rightarrow> ev_channel list \<Rightarrow> ev_channel list \<Rightarrow> event list" where
  "count_change ts label direction cur prev chs prev_chs =
     (if cur = prev then []
      else (let (lost, added) = changed_channels label chs prev_chs in
        [mk_event ts (if cur < prev then Warn else Info) ''channel_change''
          (Msg (label @ '' channel count changed from {prev} to {cur}'') [PInt prev, PInt cur])
          (D_Channels direction prev cur (cur < prev) lost added)]))"

definition check_channels :: "string \<Rightarrow> snapshot \<Rightarrow> snapshot \<Rightarrow> event list" where
  "check_channels ts cur prev =
     count_change ts ''DS'' ''downstream'' (es_ds_total (sn_summary cur)) (es_ds_total (sn_summary prev)) (sn_ds cur) (sn_ds prev)
     @ count_change ts ''US'' ''upstream'' (es_us_total (sn_summary cur)) (es_us_total (sn_summary prev)) (sn_us cur) (sn_us prev)"

section \<open>Modulation\<close>

definition QAM_CRITICAL_DROP :: int where
  "QAM_CRITICAL_DROP = 3"

definition change_entry :: "string \<Rightarrow> ev_channel \<Rightarrow> ev_channel \<Rightarrow> modulation_change" where
  "change_entry direction cur prev =
     (let cm = text_of (ec_text cur ''modulation''); pm = text_of (ec_text prev ''modulation'');
          cr = qam_rank (Some cm); pr = qam_rank (Some pm)
      in \<lparr>mc_channel = ec_id cur, mc_direction = direction, mc_prev = pm, mc_current = cm,
          mc_prev_rank = pr, mc_current_rank = cr, mc_rank_drop = int pr - int cr,
          mc_version = either_text ''docsis_version'' cur prev,
          mc_prev_health = text_of (ec_modulation_health prev), mc_current_health = text_of (ec_modulation_health cur),
          mc_type = type_label direction cur (ec_text prev), mc_frequency = either_text ''frequency'' cur prev\<rparr>)"

definition modulation_changes :: "string \<Rightarrow> ev_channel list \<Rightarrow> ev_channel list \<Rightarrow> modulation_change list" where
  "modulation_changes direction cur prev =
     (let pm = channel_map [] prev in
      concat (map (\<lambda>(k, c). case map_of pm k of None \<Rightarrow> []
          | Some p \<Rightarrow> if text_of (ec_text c ''modulation'') \<noteq> text_of (ec_text p ''modulation'')
              then [change_entry direction c p] else [])
        (channel_map [] cur)))"

definition is_downgrade :: "modulation_change \<Rightarrow> bool" where
  "is_downgrade m = (mc_current_rank m < mc_prev_rank m)"

definition modulation_severity :: "modulation_change list \<Rightarrow> severity" where
  "modulation_severity downgrades =
     (let ranks = map (\<lambda>d. dict_get [(''good'', 0), (''tolerated'', 1), (''warning'', 2), (''critical'', 3)] (mc_current_health d) (0::nat))
            (filter (\<lambda>d. mc_current_health d \<noteq> []) downgrades);
          max_drop = (case map mc_rank_drop downgrades of [] \<Rightarrow> 0 | x # xs \<Rightarrow> first_max id x xs);
          max_health = (case ranks of [] \<Rightarrow> 0 | x # xs \<Rightarrow> first_max id x xs)
      in if 3 \<le> max_health \<or> (ranks = [] \<and> QAM_CRITICAL_DROP \<le> max_drop) then Crit else Warn)"

definition check_modulation :: "string \<Rightarrow> snapshot \<Rightarrow> snapshot \<Rightarrow> event list" where
  "check_modulation ts cur prev =
     (let changes = modulation_changes ''DS'' (sn_ds cur) (sn_ds prev) @ modulation_changes ''US'' (sn_us cur) (sn_us prev);
          downgrades = filter is_downgrade changes; upgrades = filter (\<lambda>m. \<not> is_downgrade m) changes
      in (if downgrades = [] then []
          else [mk_event ts (modulation_severity downgrades) ''modulation_change''
            (Msg ''Modulation dropped on {len(downgrades)} channel(s)'' [PInt (int (length downgrades))]) (D_Modulation downgrades True)])
       @ (if upgrades = [] then []
          else [mk_event ts Info ''modulation_change''
            (Msg ''Modulation improved on {len(upgrades)} channel(s)'' [PInt (int (length upgrades))]) (D_Modulation upgrades False)]))"

section \<open>Error spikes\<close>

definition UNCORR_SPIKE_THRESHOLD :: int where
  "UNCORR_SPIKE_THRESHOLD = 1000"

definition check_errors :: "string \<Rightarrow> ev_summary \<Rightarrow> ev_summary \<Rightarrow> event list" where
  "check_errors ts cur prev =
     (if es_errors_supported cur = Some False \<or> es_errors_supported prev = Some False then []
      else case (get_or (es_uncorrectable cur) (Some 0), get_or (es_uncorrectable prev) (Some 0)) of
        (Some c, Some p) \<Rightarrow>
          if UNCORR_SPIKE_THRESHOLD < c - p
          then [mk_event ts Warn ''error_spike''
              (Msg ''Uncorrectable errors jumped by {delta:,} (from {uncorr_prev:,} to {uncorr_cur:,})''
                [PInt (c - p), PInt p, PInt c])
              (D_Errors p c (c - p)
                (case es_recent_deltas cur of None \<Rightarrow> None | Some (raw, _) \<Rightarrow> raw)
                (case es_recent_deltas cur of None \<Rightarrow> None | Some (_, cmp) \<Rightarrow> cmp))]
          else []
      | _ \<Rightarrow> [])"

section \<open>Restarts\<close>

definition RESTART_CHANNEL_THRESHOLD :: rat where
  "RESTART_CHANNEL_THRESHOLD = fl (8 / 10)"

definition RESTART_MIN_OVERLAP :: nat where
  "RESTART_MIN_OVERLAP = 4"

definition RESTART_MIN_CONTINUITY :: rat where
  "RESTART_MIN_CONTINUITY = 1 / 2"

text \<open>Here the raw channel ids are the keys.\<close>

fun id_map :: "(chan_id \<times> ev_channel) list \<Rightarrow> ev_channel list \<Rightarrow> (chan_id \<times> ev_channel) list" where
  "id_map m [] = m"
| "id_map m (ch # chs) = id_map (dict_set (ec_id ch) ch m) chs"

definition pair_both :: "int option \<Rightarrow> int option \<Rightarrow> (int \<times> int) option" where
  "pair_both a b = (case (a, b) of (Some x, Some y) \<Rightarrow> Some (x, y) | _ \<Rightarrow> None)"

definition has_counters :: "ev_channel \<times> ev_channel \<Rightarrow> bool" where
  "has_counters pc = (pair_both (ec_correctable (fst pc)) (ec_correctable (snd pc)) \<noteq> None
     \<or> pair_both (ec_uncorrectable (fst pc)) (ec_uncorrectable (snd pc)) \<noteq> None)"

definition declined :: "(int \<times> int) option \<Rightarrow> bool" where
  "declined x = (case x of Some (p, c) \<Rightarrow> c < p | None \<Rightarrow> False)"

definition not_grown :: "(int \<times> int) option \<Rightarrow> bool" where
  "not_grown x = (case x of Some (p, c) \<Rightarrow> c \<le> p | None \<Rightarrow> True)"

definition declining :: "ev_channel \<times> ev_channel \<Rightarrow> bool" where
  "declining pc =
     (let corr = pair_both (ec_correctable (fst pc)) (ec_correctable (snd pc));
          uncorr = pair_both (ec_uncorrectable (fst pc)) (ec_uncorrectable (snd pc))
      in (declined corr \<or> declined uncorr) \<and> not_grown corr \<and> not_grown uncorr)"

definition ratio_below :: "nat \<Rightarrow> nat \<Rightarrow> rat \<Rightarrow> bool" where
  "ratio_below a b r = (fl (of_nat a / of_nat b) < r)"

definition overlap_pairs :: "ev_channel list \<Rightarrow> ev_channel list \<Rightarrow> (ev_channel \<times> ev_channel) list" where
  "overlap_pairs cur prev = (let pm = id_map [] prev in
     concat (map (\<lambda>(k, c). case map_of pm k of None \<Rightarrow> [] | Some p \<Rightarrow> [(p, c)]) (id_map [] cur)))"

definition totals_not_falling :: "int option \<Rightarrow> int option \<Rightarrow> int option \<Rightarrow> int option \<Rightarrow> bool" where
  "totals_not_falling pc pu cc cu = (case (pc, pu, cc, cu) of
     (Some a, Some b, Some c, Some d) \<Rightarrow> a \<le> c \<and> b \<le> d | _ \<Rightarrow> False)"

definition check_restart :: "string \<Rightarrow> snapshot \<Rightarrow> snapshot \<Rightarrow> event list" where
  "check_restart ts cur prev =
     (let prev_count = length (id_map [] (sn_ds prev)); cur_count = length (id_map [] (sn_ds cur));
          pairs = overlap_pairs (sn_ds cur) (sn_ds prev); overlap = length pairs;
          valid = length (filter has_counters pairs);
          falling = length (filter declining (filter has_counters pairs));
          flat = (\<lambda>x. get_or x None);
          pc = flat (es_correctable (sn_summary prev)); pu = flat (es_uncorrectable (sn_summary prev));
          cc = flat (es_correctable (sn_summary cur)); cu = flat (es_uncorrectable (sn_summary cur))
      in if overlap < RESTART_MIN_OVERLAP then []
         else if 0 < prev_count \<and> ratio_below overlap prev_count RESTART_MIN_CONTINUITY then []
         else if 0 < cur_count \<and> ratio_below overlap cur_count RESTART_MIN_CONTINUITY then []
         else if valid < RESTART_MIN_OVERLAP then []
         else if ratio_below falling valid RESTART_CHANNEL_THRESHOLD then []
         else if totals_not_falling pc pu cc cu then []
         else [mk_event ts Info ''modem_restart_detected'' (Msg ''Detected modem restart or counter reset pattern'' [])
           (D_Restart falling valid pc pu cc cu)])"

section \<open>One poll\<close>

definition compare_snapshots :: "thresholds \<Rightarrow> string \<Rightarrow> snapshot \<Rightarrow> snapshot \<Rightarrow> detector \<Rightarrow> event list \<times> detector" where
  "compare_snapshots t ts cur prev d =
     (let (health_events, d') = check_health ts (sn_summary cur) (sn_summary prev) d
      in (health_events @ check_power ts (sn_summary cur) (sn_summary prev) @ check_snr t ts cur prev
          @ check_channels ts cur prev @ check_modulation ts cur prev @ check_restart ts cur prev
          @ check_errors ts (sn_summary cur) (sn_summary prev), d'))"

definition check :: "thresholds \<Rightarrow> string \<Rightarrow> snapshot \<Rightarrow> int option \<Rightarrow> detector \<Rightarrow> event list \<times> detector" where
  "check t ts cur sid d =
     (let d1 = d\<lparr>dt_prev := Some (cur, sid)\<rparr> in
      case dt_prev d of
        None \<Rightarrow> (let h = get_or (es_health (sn_summary cur)) ''unknown'' in
          ([annotate sid None (mk_event ts Info ''monitoring_started'' (Msg ''Monitoring started (Health: {health})'' [PStr h])
             (D_Started h))], d1))
      | Some (prev, psid) \<Rightarrow>
          (let (evs, d2) = compare_snapshots t ts cur prev d1 in (map (annotate sid psid) evs, d2)))"

section \<open>Runs of the detector\<close>

definition health_of :: "snapshot \<Rightarrow> string" where
  "health_of s = get_or (es_health (sn_summary s)) ''good''"

type_synonym poll = "string \<times> snapshot \<times> int option"

fun check_run :: "thresholds \<Rightarrow> poll list \<Rightarrow> detector \<Rightarrow> event list \<times> detector" where
  "check_run t [] d = ([], d)"
| "check_run t ((ts, s, sid) # ps) d =
     (let (evs, d1) = check t ts s sid d; (evs', d2) = check_run t ps d1 in (evs @ evs', d2))"

definition is_health_event :: "event \<Rightarrow> bool" where
  "is_health_event e = (case ev_details e of D_Health _ _ \<Rightarrow> True | _ \<Rightarrow> False)"

text \<open>The detector in confirmed mode: the pending streak is shorter than the hysteresis.\<close>

definition detector_inv :: "detector \<Rightarrow> bool" where
  "detector_inv d \<longleftrightarrow> (dt_pending d = None \<longleftrightarrow> dt_pending_count d = 0)
     \<and> (2 \<le> dt_hysteresis d \<longrightarrow> int (dt_pending_count d) < dt_hysteresis d)
     \<and> (dt_pending d \<noteq> None \<longrightarrow> dt_confirmed d \<noteq> None \<and> dt_pending d \<noteq> dt_confirmed d)
     \<and> (2 \<le> dt_hysteresis d \<or> dt_pending d = None)"

inductive detector_reachable :: "int \<Rightarrow> detector \<Rightarrow> bool" for n :: int where
  start: "detector_reachable n (init_detector n baseline)"
| seeded: "detector_reachable n d \<Longrightarrow> detector_reachable n (seed analysis d)"
| polled: "detector_reachable n d \<Longrightarrow> detector_reachable n (snd (check t ts s sid d))"

inductive_cases detector_reachableE: "detector_reachable n d"

lemma check_split:
  "dt_prev d = Some (prev, psid) \<Longrightarrow> check t ts cur sid d =
    (map (annotate sid psid) (fst (compare_snapshots t ts cur prev (d\<lparr>dt_prev := Some (cur, sid)\<rparr>))),
     snd (check_health ts (sn_summary cur) (sn_summary prev) (d\<lparr>dt_prev := Some (cur, sid)\<rparr>)))"
  by (simp add: check_def compare_snapshots_def case_prod_beta Let_def)

lemma check_first: "dt_prev d = None \<Longrightarrow> snd (check t ts cur sid d) = d\<lparr>dt_prev := Some (cur, sid)\<rparr>"
  by (simp add: check_def Let_def)

lemma check_health_frames [frames]:
  "dt_hysteresis (snd (check_health ts cur prev d)) = dt_hysteresis d"
  "dt_prev (snd (check_health ts cur prev d)) = dt_prev d"
  by (simp_all add: check_health_def Let_def)

lemma check_hysteresis [frames]: "dt_hysteresis (snd (check t ts s sid d)) = dt_hysteresis d"
proof (cases "dt_prev d")
  case None
  then show ?thesis by (simp add: check_first)
next
  case (Some p)
  then show ?thesis by (cases p) (simp add: check_split frames)
qed

lemma check_prev [frames]: "dt_prev (snd (check t ts s sid d)) = Some (s, sid)"
proof (cases "dt_prev d")
  case None
  then show ?thesis by (simp add: check_first)
next
  case (Some p)
  then show ?thesis by (cases p) (simp add: check_split frames)
qed

lemma check_health_inv: "detector_inv d \<Longrightarrow> detector_inv (snd (check_health ts cur prev d))"
  by (auto simp: detector_inv_def check_health_def get_or_def Let_def split: option.splits)

lemma detector_inv_prev [simp]: "detector_inv (d\<lparr>dt_prev := x\<rparr>) = detector_inv d"
  by (simp add: detector_inv_def)

lemma check_inv: "detector_inv d \<Longrightarrow> detector_inv (snd (check t ts s sid d))"
proof (cases "dt_prev d")
  case None
  assume "detector_inv d"
  with None show ?thesis by (simp add: check_first)
next
  case (Some p)
  assume "detector_inv d"
  with Some show ?thesis by (cases p) (simp add: check_split check_health_inv)
qed

lemma seed_inv: "detector_inv d \<Longrightarrow> detector_inv (seed a d)"
  by (auto simp: detector_inv_def seed_def split: option.splits)

lemma seed_hysteresis [frames]: "dt_hysteresis (seed a d) = dt_hysteresis d"
  by (simp add: seed_def split: option.split prod.split)

lemma reachable_inv: "detector_reachable n d \<Longrightarrow> detector_inv d \<and> dt_hysteresis d = max 0 n"
proof (induction rule: detector_reachable.induct)
  case (start baseline)
  have "detector_inv \<lparr>dt_prev = None, dt_hysteresis = max 0 n, dt_confirmed = None, dt_pending = None, dt_pending_count = 0\<rparr>"
    by (simp add: detector_inv_def max_def)
  then show ?case unfolding init_detector_def by (simp add: seed_inv frames)
qed (simp_all add: seed_inv check_inv frames)

section \<open>The health state machine\<close>

lemma is_health_mk [simp]: "is_health_event (mk_event ts sv ty m d) = (case d of D_Health _ _ \<Rightarrow> True | _ \<Rightarrow> False)"
  by (simp add: is_health_event_def mk_event_def)

lemma other_checks_not_health:
  "list_all (\<lambda>e. \<not> is_health_event e) (check_power ts c p)" "list_all (\<lambda>e. \<not> is_health_event e) (check_snr t ts s q)"
  "list_all (\<lambda>e. \<not> is_health_event e) (check_channels ts s q)" "list_all (\<lambda>e. \<not> is_health_event e) (check_modulation ts s q)"
  "list_all (\<lambda>e. \<not> is_health_event e) (check_restart ts s q)" "list_all (\<lambda>e. \<not> is_health_event e) (check_errors ts c p)"
proof -
  show "list_all (\<lambda>e. \<not> is_health_event e) (check_power ts c p)"
    by (simp add: check_power_def power_shift_def split: option.split)
  show "list_all (\<lambda>e. \<not> is_health_event e) (check_snr t ts s q)"
    by (simp add: check_snr_def Let_def split: option.split list.split)
  show "list_all (\<lambda>e. \<not> is_health_event e) (check_channels ts s q)"
    by (simp add: check_channels_def count_change_def split: prod.split)
  show "list_all (\<lambda>e. \<not> is_health_event e) (check_modulation ts s q)"
    by (simp add: check_modulation_def Let_def)
  show "list_all (\<lambda>e. \<not> is_health_event e) (check_restart ts s q)"
    by (simp add: check_restart_def Let_def)
  show "list_all (\<lambda>e. \<not> is_health_event e) (check_errors ts c p)"
    by (simp add: check_errors_def split: option.split)
qed

lemma no_other_health:
  "filter is_health_event (check_power ts a b @ check_snr t ts s q @ check_channels ts s q @ check_modulation ts s q
      @ check_restart ts s q @ check_errors ts a b) = []"
  using other_checks_not_health by (simp add: filter_empty_conv list_all_iff)

lemma health_events_of_check:
  assumes "dt_prev d = Some (prev, psid)"
  shows "filter is_health_event (fst (check t ts cur sid d)) =
    map (annotate sid psid) (fst (check_health ts (sn_summary cur) (sn_summary prev) d))"
proof -
  have h: "list_all is_health_event (fst (check_health ts (sn_summary cur) (sn_summary prev) d))"
    by (simp add: check_health_def health_event_def is_health_event_def mk_event_def Let_def)
  have p: "fst (check_health ts c q (d\<lparr>dt_prev := x\<rparr>)) = fst (check_health ts c q d)" for c q x
    by (simp add: check_health_def Let_def)
  have a: "is_health_event (annotate sid psid e) = is_health_event e" for e
    by (simp add: is_health_event_def annotate_def)
  have m: "filter is_health_event (map (annotate sid psid) evs) = map (annotate sid psid) (filter is_health_event evs)" for evs
    by (simp add: filter_map comp_def a)
  have "filter is_health_event (fst (compare_snapshots t ts cur prev (d\<lparr>dt_prev := Some (cur, sid)\<rparr>)))
      = filter is_health_event (fst (check_health ts (sn_summary cur) (sn_summary prev) d))"
    by (simp only: compare_snapshots_def Let_def case_prod_beta fst_conv p filter_append [of _ "fst (check_health _ _ _ _)"] no_other_health append_Nil2)
  moreover have "filter is_health_event (fst (check_health ts (sn_summary cur) (sn_summary prev) d)) = fst (check_health ts (sn_summary cur) (sn_summary prev) d)"
    using h by (simp add: list_all_iff)
  ultimately show ?thesis unfolding check_split [OF assms] fst_conv m by simp
qed

text \<open>One poll in confirmed mode, seen as a step on the confirmed health and the streak.\<close>

lemma check_health_streak:
  assumes "2 \<le> dt_hysteresis d" "dt_prev d = Some (prev, psid)"
    and "c = get_or (dt_confirmed d) (health_of prev)" "h = health_of s"
    and "n = (if dt_pending d = Some h then dt_pending_count d + 1 else 1)"
    and "d' = snd (check t ts s sid d)"
  shows "h = c \<Longrightarrow> dt_confirmed d' = Some c \<and> dt_pending d' = None \<and> dt_pending_count d' = 0
      \<and> filter is_health_event (fst (check t ts s sid d)) = []"
    and "h \<noteq> c \<Longrightarrow> int n < dt_hysteresis d \<Longrightarrow> dt_confirmed d' = Some c \<and> dt_pending d' = Some h \<and> dt_pending_count d' = n
      \<and> filter is_health_event (fst (check t ts s sid d)) = []"
    and "h \<noteq> c \<Longrightarrow> dt_hysteresis d \<le> int n \<Longrightarrow> dt_confirmed d' = Some h \<and> dt_pending d' = None \<and> dt_pending_count d' = 0
      \<and> filter is_health_event (fst (check t ts s sid d)) = [annotate sid psid (health_event ts c h)]"
proof -
  have ev: "filter is_health_event (fst (check t ts s sid d)) = map (annotate sid psid) (fst (check_health ts (sn_summary s) (sn_summary prev) d))"
    by (rule health_events_of_check [OF assms(2)])
  have st: "d' = snd (check_health ts (sn_summary s) (sn_summary prev) (d\<lparr>dt_prev := Some (s, sid)\<rparr>))"
    unfolding assms(6) check_split [OF assms(2)] by simp
  have h: "get_or (es_health (sn_summary s)) ''good'' = h" "get_or (es_health (sn_summary prev)) ''good'' = health_of prev"
    by (simp_all add: assms(4) health_of_def)
  have c: "get_or (dt_confirmed d) (health_of prev) = c" by (simp add: assms(3))
  have m: "\<not> dt_hysteresis d < 2" using assms(1) by simp
  show "h = c \<Longrightarrow> dt_confirmed d' = Some c \<and> dt_pending d' = None \<and> dt_pending_count d' = 0
      \<and> filter is_health_event (fst (check t ts s sid d)) = []"
    "h \<noteq> c \<Longrightarrow> int n < dt_hysteresis d \<Longrightarrow> dt_confirmed d' = Some c \<and> dt_pending d' = Some h \<and> dt_pending_count d' = n
      \<and> filter is_health_event (fst (check t ts s sid d)) = []"
    "h \<noteq> c \<Longrightarrow> dt_hysteresis d \<le> int n \<Longrightarrow> dt_confirmed d' = Some h \<and> dt_pending d' = None \<and> dt_pending_count d' = 0
      \<and> filter is_health_event (fst (check t ts s sid d)) = [annotate sid psid (health_event ts c h)]"
    unfolding ev st check_health_def Let_def h c using m by (simp_all add: assms(5) c split: if_splits)
qed

text \<open>
  The pending streak never reaches the hysteresis.  Whatever snapshots a detector is
  seeded with and polled with, in any order, a pending health differs from the confirmed one,
  exists exactly when its counter is positive, and its counter stays below the hysteresis; in
  immediate mode nothing is ever pending.
\<close>

theorem detector_invariant:
  assumes "detector_reachable n d"
  shows "detector_inv d \<and> dt_hysteresis d = max 0 n"
  by (rule reachable_inv [OF assms])

definition demo_snapshot :: "string \<Rightarrow> snapshot" where
  "demo_snapshot h = \<lparr>sn_summary = \<lparr>es_health = Some h, es_ds_power_avg = Some (Fin 3), es_us_power_avg = Some (Fin 44),
     es_ds_snr_min = Some (Fin 36), es_ds_total = 0, es_us_total = 0, es_errors_supported = Some True,
     es_correctable = Some (Some 10), es_uncorrectable = Some (Some 0), es_recent_deltas = None\<rparr>, sn_ds = [], sn_us = []\<rparr>"

definition demo_detector :: detector where
  "demo_detector = init_detector 2 (Some (demo_snapshot ''good'', Some 7))"

theorem detector_invariant_witness:
  "(let d = snd (check FALLBACK_THRESHOLDS ''t'' (demo_snapshot ''critical'') (Some 8) demo_detector) in
     detector_reachable 2 d \<and> dt_pending_count d = 1 \<and> detector_inv d)"
proof -
  define d where "d = snd (check FALLBACK_THRESHOLDS ''t'' (demo_snapshot ''critical'') (Some 8) demo_detector)"
  have r: "detector_reachable 2 d" unfolding d_def demo_detector_def by (intro detector_reachable.intros)
  have p: "dt_prev demo_detector = Some (demo_snapshot ''good'', Some 7)"
    by (simp add: demo_detector_def init_detector_def seed_def)
  have "dt_pending_count d = 1"
    unfolding d_def check_split [OF p]
    by (simp add: check_health_def demo_detector_def init_detector_def seed_def demo_snapshot_def get_or_def Let_def)
  with r detector_invariant [OF r] show ?thesis by (simp add: d_def [symmetric])
qed

text \<open>The streak of equal healths at the end of a history.\<close>

lemma run_inv:
  assumes "detector_inv d" "2 \<le> dt_hysteresis d" "dt_prev d \<noteq> None" "dt_confirmed d \<noteq> None"
  shows "(let d' = snd (check_run t ps d) in detector_inv d' \<and> dt_hysteresis d' = dt_hysteresis d \<and> dt_prev d' \<noteq> None
    \<and> dt_confirmed d' \<noteq> None)"
  using assms
proof (induction ps arbitrary: d)
  case (Cons q ps)
  obtain ts s sid where q: "q = (ts, s, sid)" by (metis prod_cases3)
  obtain prev psid where p: "dt_prev d = Some (prev, psid)" using Cons.prems(3) by auto
  define d1 where "d1 = snd (check t ts s sid d)"
  have c: "dt_confirmed d1 \<noteq> None"
    using check_health_streak [OF Cons.prems(2) p refl refl refl d1_def] by (cases "dt_confirmed d1") force+
  have "detector_inv d1" "dt_hysteresis d1 = dt_hysteresis d" "dt_prev d1 \<noteq> None"
    using check_inv [OF Cons.prems(1)] by (simp_all add: d1_def frames)
  then show ?case using Cons.IH [of d1] c Cons.prems(2) by (simp add: q case_prod_beta Let_def d1_def)
qed (simp add: Let_def)

lemma run_streak:
  assumes "detector_inv d" "2 \<le> dt_hysteresis d" "dt_prev d \<noteq> None" "dt_confirmed d \<noteq> None"
    and "\<And>h. dt_pending d = Some h \<Longrightarrow> \<exists>ys. hist = ys @ replicate (dt_pending_count d) h"
    and "dt_pending (snd (check_run t ps d)) = Some h"
  shows "\<exists>ys. hist @ map (\<lambda>(ts, s, sid). health_of s) ps = ys @ replicate (dt_pending_count (snd (check_run t ps d))) h"
  using assms
proof (induction ps arbitrary: d hist)
  case (Cons q ps)
  obtain ts s sid where q: "q = (ts, s, sid)" by (metis prod_cases3)
  obtain prev psid where p: "dt_prev d = Some (prev, psid)" using Cons.prems(3) by auto
  define d1 where "d1 = snd (check t ts s sid d)"
  note st = check_health_streak [OF Cons.prems(2) p refl refl refl d1_def]
  have inv: "detector_inv d1" "dt_hysteresis d1 = dt_hysteresis d" "dt_prev d1 \<noteq> None" "dt_confirmed d1 \<noteq> None"
    using run_inv [OF Cons.prems(1-4), of t "[q]"] by (simp_all add: q case_prod_beta Let_def d1_def)
  have hist: "\<exists>ys. hist @ [health_of s] = ys @ replicate (dt_pending_count d1) g" if "dt_pending d1 = Some g" for g
  proof -
    define n where "n = (if dt_pending d = Some (health_of s) then dt_pending_count d + 1 else 1)"
    consider "health_of s = get_or (dt_confirmed d) (health_of prev)"
      | "health_of s \<noteq> get_or (dt_confirmed d) (health_of prev)" "int n < dt_hysteresis d"
      | "health_of s \<noteq> get_or (dt_confirmed d) (health_of prev)" "dt_hysteresis d \<le> int n" by linarith
    then have g: "g = health_of s" "dt_pending_count d1 = n"
      using that st [folded n_def] by (cases; simp)+
    show ?thesis
    proof (cases "dt_pending d = Some (health_of s)")
      case True
      from Cons.prems(5) [OF True] obtain ys where "hist = ys @ replicate (dt_pending_count d) (health_of s)" by blast
      then have "hist @ [health_of s] = ys @ replicate (dt_pending_count d1) g"
        using True g by (simp add: n_def replicate_append_same)
      then show ?thesis by blast
    qed (simp add: g n_def)
  qed
  have "snd (check_run t (q # ps) d) = snd (check_run t ps d1)" by (simp add: q case_prod_beta Let_def d1_def)
  with Cons.IH [OF inv(1) _ inv(3,4) hist] inv(2) Cons.prems(2,6)
  show ?case by (simp add: q)
qed simp

lemma init_seeded:
  assumes "2 \<le> n" "d0 = init_detector n (Some (s0, sid0))"
  shows "detector_inv d0" "dt_hysteresis d0 = n" "dt_prev d0 \<noteq> None" "dt_confirmed d0 \<noteq> None" "dt_pending d0 = None"
proof -
  have "detector_reachable n d0" unfolding assms(2) by (rule detector_reachable.start)
  from reachable_inv [OF this] show "detector_inv d0" "dt_hysteresis d0 = n" using assms(1) by auto
  show "dt_prev d0 \<noteq> None" "dt_confirmed d0 \<noteq> None" "dt_pending d0 = None"
    using assms by (simp_all add: init_detector_def seed_def)
qed

text \<open>
  C10. A health event needs a full streak.  With a hysteresis of n of at least two, after any
  polls from a seeded detector, a poll that reports a change from p to q carries that health q
  itself, p is the health confirmed so far and differs from q, and the last n polls, this one
  included, all had health q.
\<close>

theorem health_event_needs_streak:
  assumes "2 \<le> n" and "d = snd (check_run t ps (init_detector n (Some (s0, sid0))))"
    and "e \<in> set (fst (check t ts s sid d))" and "ev_details e = D_Health p q"
  shows "q = health_of s \<and> p \<noteq> q \<and> dt_confirmed d = Some p
    \<and> (\<exists>ys. map (\<lambda>(ts, s, sid). health_of s) ps @ [q] = ys @ replicate (nat n) q)"
proof -
  define d0 where "d0 = init_detector n (Some (s0, sid0))"
  note i = init_seeded [OF assms(1) d0_def]
  have inv: "detector_inv d" "dt_hysteresis d = n" "dt_prev d \<noteq> None" "dt_confirmed d \<noteq> None"
    using run_inv [OF i(1) _ i(3,4), of t ps] i(2) assms(1) by (simp_all add: assms(2) d0_def Let_def)
  obtain prev psid where pr: "dt_prev d = Some (prev, psid)" using inv(3) by auto
  obtain c where c: "dt_confirmed d = Some c" using inv(4) by auto
  have h2: "2 \<le> dt_hysteresis d" using inv(2) assms(1) by simp
  define m where "m = (if dt_pending d = Some (health_of s) then dt_pending_count d + 1 else 1)"
  note st = check_health_streak [OF h2 pr refl refl m_def refl, of t ts sid, unfolded c get_or_def option.case]
  have "e \<in> set (filter is_health_event (fst (check t ts s sid d)))"
    using assms(3,4) by (simp add: is_health_event_def)
  with st have hc: "health_of s \<noteq> c" "n \<le> int m" "e = annotate sid psid (health_event ts c (health_of s))"
    using inv(2) by (cases "health_of s = c"; cases "int m < n"; simp)+
  then have pq: "p = c" "q = health_of s" using assms(4) by (simp_all add: annotate_def health_event_def mk_event_def split: if_splits)
  have pend: "dt_pending d = Some (health_of s)" using hc(2) assms(1) by (simp add: m_def split: if_splits)
  have "int (dt_pending_count d) < n" using inv(1,2) assms(1) by (simp add: detector_inv_def)
  with hc(2) pend have cnt: "Suc (dt_pending_count d) = nat n" by (simp add: m_def)
  have "2 \<le> dt_hysteresis d0" using i(2) assms(1) by simp
  from run_streak [OF i(1) this i(3,4), of "[]" t ps "health_of s"] i(5) pend
  obtain ys where "map (\<lambda>(ts, s, sid). health_of s) ps = ys @ replicate (dt_pending_count d) (health_of s)"
    by (auto simp: assms(2) d0_def)
  then have "map (\<lambda>(ts, s, sid). health_of s) ps @ [q] = ys @ replicate (nat n) q"
    using pq(2) cnt by (simp add: replicate_append_same [symmetric] cnt [symmetric])
  then show ?thesis using pq hc(1) c by auto
qed

lemma same_health_run:
  assumes "detector_inv d" "2 \<le> dt_hysteresis d" "dt_prev d \<noteq> None" "dt_confirmed d \<noteq> None"
    and "list_all (\<lambda>(ts, s, sid). health_of s = h) ps"
    and "dt_hysteresis d \<le> int (length ps) + (if dt_pending d = Some h then int (dt_pending_count d) else 0) \<or> dt_confirmed d = Some h"
    and "ps \<noteq> []"
  shows "dt_confirmed (snd (check_run t ps d)) = Some h \<and> dt_pending (snd (check_run t ps d)) = None"
  using assms
proof (induction ps arbitrary: d)
  case (Cons q ps)
  obtain ts s sid where q: "q = (ts, s, sid)" by (metis prod_cases3)
  obtain prev psid where pr: "dt_prev d = Some (prev, psid)" using Cons.prems(3) by auto
  obtain c where c: "dt_confirmed d = Some c" using Cons.prems(4) by auto
  have hs: "health_of s = h" using Cons.prems(5) by (simp add: q)
  define d1 where "d1 = snd (check t ts s sid d)"
  define n where "n = (if dt_pending d = Some h then dt_pending_count d + 1 else 1)"
  note st = check_health_streak [OF Cons.prems(2) pr refl hs [symmetric] n_def d1_def, unfolded c get_or_def option.case]
  have inv: "detector_inv d1" "dt_hysteresis d1 = dt_hysteresis d" "dt_prev d1 \<noteq> None" "dt_confirmed d1 \<noteq> None"
    using run_inv [OF Cons.prems(1-4), of t "[q]"] by (simp_all add: q case_prod_beta Let_def d1_def)
  have run: "snd (check_run t (q # ps) d) = snd (check_run t ps d1)" by (simp add: q case_prod_beta Let_def d1_def)
  have fin: "dt_confirmed d1 = Some h \<and> dt_pending d1 = None
      \<or> (dt_pending d1 = Some h \<and> dt_pending_count d1 = n \<and> int n < dt_hysteresis d \<and> c \<noteq> h)"
    using st by (cases "h = c"; cases "int n < dt_hysteresis d") auto
  show ?case
  proof (cases "ps = []")
    case True
    then have "snd (check_run t (q # ps) d) = d1" using run by simp
    with fin Cons.prems(6) c True show ?thesis by (auto simp: n_def split: if_splits)
  next
    case False
    have "dt_hysteresis d1 \<le> int (length ps) + (if dt_pending d1 = Some h then int (dt_pending_count d1) else 0) \<or> dt_confirmed d1 = Some h"
      using fin Cons.prems(6) c inv(2) by (auto simp: n_def split: if_splits)
    moreover have "2 \<le> dt_hysteresis d1" "list_all (\<lambda>(ts, s, sid). health_of s = h) ps"
      using inv(2) Cons.prems(2,5) by simp_all
    ultimately show ?thesis unfolding run using Cons.IH [OF inv(1) _ inv(3,4) _ _ False] by blast
  qed
qed simp

text \<open>
  C11. A lasting change is confirmed.  In a detector with a hysteresis of n, at least two, polls that started
  from a stored snapshot: whatever streak was pending, once n polls in a row report the same health
  the detector has confirmed it, and afterwards nothing is pending.
\<close>

theorem lasting_health_confirmed:
  assumes "2 \<le> n" and "d = snd (check_run t ps (init_detector n (Some (s0, sid0))))"
    and "length qs = nat n" and "list_all (\<lambda>(ts, s, sid). health_of s = h) qs"
  shows "dt_confirmed (snd (check_run t qs d)) = Some h \<and> dt_pending (snd (check_run t qs d)) = None"
proof -
  define d0 where "d0 = init_detector n (Some (s0, sid0))"
  note i = init_seeded [OF assms(1) d0_def]
  have inv: "detector_inv d" "dt_hysteresis d = n" "dt_prev d \<noteq> None" "dt_confirmed d \<noteq> None"
    using run_inv [OF i(1) _ i(3,4), of t ps] i(2) assms(1) by (simp_all add: assms(2) d0_def Let_def)
  show ?thesis by (rule same_health_run [OF inv(1) _ inv(3,4) assms(4)]) (use inv(2) assms(1,3) in auto)
qed

text \<open>A seeded detector that sees two critical polls with a hysteresis of two.\<close>

definition demo_polls :: "poll list" where
  "demo_polls = [(''t1'', demo_snapshot ''critical'', Some 8)]"

lemma demo_prev: "dt_prev demo_detector = Some (demo_snapshot ''good'', Some 7)"
  by (simp add: demo_detector_def init_detector_def seed_def)

lemma demo_second_poll:
  "(let d = snd (check_run FALLBACK_THRESHOLDS demo_polls demo_detector) in
    annotate (Some 9) (Some 8) (health_event ''t2'' ''good'' ''critical'')
      \<in> set (fst (check FALLBACK_THRESHOLDS ''t2'' (demo_snapshot ''critical'') (Some 9) d)))"
proof -
  define d where "d = snd (check_run FALLBACK_THRESHOLDS demo_polls demo_detector)"
  have d: "d = demo_detector\<lparr>dt_prev := Some (demo_snapshot ''critical'', Some 8), dt_confirmed := Some ''good'',
      dt_pending := Some ''critical'', dt_pending_count := 1\<rparr>"
    unfolding d_def demo_polls_def
    by (simp add: case_prod_beta Let_def check_split [OF demo_prev])
      (simp add: check_health_def demo_detector_def init_detector_def seed_def demo_snapshot_def get_or_def Let_def)
  then have p: "dt_prev d = Some (demo_snapshot ''critical'', Some 8)" by simp
  have "filter is_health_event (fst (check FALLBACK_THRESHOLDS ''t2'' (demo_snapshot ''critical'') (Some 9) d))
      = [annotate (Some 9) (Some 8) (health_event ''t2'' ''good'' ''critical'')]"
    unfolding health_events_of_check [OF p]
    by (simp add: d check_health_def demo_detector_def init_detector_def seed_def demo_snapshot_def get_or_def Let_def)
  then have "annotate (Some 9) (Some 8) (health_event ''t2'' ''good'' ''critical'')
      \<in> set (filter is_health_event (fst (check FALLBACK_THRESHOLDS ''t2'' (demo_snapshot ''critical'') (Some 9) d)))"
    by (simp only: list.set_intros)
  then show ?thesis unfolding d_def [symmetric] Let_def set_filter mem_Collect_eq by (rule conjunct1)
qed

theorem health_event_needs_streak_witness:
  "(let d = snd (check_run FALLBACK_THRESHOLDS demo_polls (init_detector 2 (Some (demo_snapshot ''good'', Some 7)))) in
     dt_confirmed d = Some ''good'' \<and> (\<exists>ys. [''critical'', ''critical''] = ys @ replicate 2 ''critical''))"
proof -
  define d where "d = snd (check_run FALLBACK_THRESHOLDS demo_polls (init_detector 2 (Some (demo_snapshot ''good'', Some 7))))"
  have e: "ev_details (annotate (Some 9) (Some 8) (health_event ''t2'' ''good'' ''critical'')) = D_Health ''good'' ''critical''"
    by (simp add: annotate_def health_event_def mk_event_def)
  have m: "annotate (Some 9) (Some 8) (health_event ''t2'' ''good'' ''critical'')
      \<in> set (fst (check FALLBACK_THRESHOLDS ''t2'' (demo_snapshot ''critical'') (Some 9) d))"
    using demo_second_poll unfolding d_def demo_detector_def Let_def .
  have h: "map (\<lambda>(ts, s, sid). health_of s) demo_polls @ [''critical''] = [''critical'', ''critical'']" "nat 2 = 2"
    by (simp_all add: demo_polls_def demo_snapshot_def health_of_def get_or_def)
  from health_event_needs_streak [OF _ d_def m e, unfolded h] show ?thesis unfolding d_def [symmetric] Let_def by blast
qed

theorem lasting_health_confirmed_witness:
  "dt_confirmed (snd (check_run FALLBACK_THRESHOLDS
      [(''t1'', demo_snapshot ''critical'', Some 8), (''t2'', demo_snapshot ''critical'', Some 9)]
      (init_detector 2 (Some (demo_snapshot ''good'', Some 7))))) = Some ''critical''"
  using lasting_health_confirmed [of 2 _ FALLBACK_THRESHOLDS "[]" "demo_snapshot ''good''" "Some 7"
      "[(''t1'', demo_snapshot ''critical'', Some 8), (''t2'', demo_snapshot ''critical'', Some 9)]" "''critical''"]
  by (simp add: health_of_def demo_snapshot_def get_or_def del: check_run.simps(2))

section \<open>Quiet polls, channel counts and restarts\<close>

lemma dict_keys_mem: "map_of m k = Some v \<Longrightarrow> k \<in> set (dict_keys m)"
  by (metis map_of_SomeD fst_conv imageI list.set_map)

lemma channel_map_distinct: "distinct (dict_keys m) \<Longrightarrow> distinct (dict_keys (channel_map m chs))"
  by (induction m chs rule: channel_map.induct) (simp_all split: option.split)

lemma modulation_same: "modulation_changes dir chs chs = []"
proof -
  have d: "distinct (dict_keys (channel_map [] chs))" by (rule channel_map_distinct) simp
  then have "map_of (channel_map [] chs) k = Some c" if "(k, c) \<in> set (channel_map [] chs)" for k c
    using that by simp
  then show ?thesis by (auto simp: modulation_changes_def Let_def split: option.split)
qed

lemma id_map_distinct: "distinct (dict_keys m) \<Longrightarrow> distinct (dict_keys (id_map m chs))"
  by (induction m chs rule: id_map.induct) simp_all

lemma overlap_same: "pc \<in> set (overlap_pairs chs chs) \<Longrightarrow> fst pc = snd pc"
proof -
  have d: "distinct (dict_keys (id_map [] chs))" by (rule id_map_distinct) simp
  assume "pc \<in> set (overlap_pairs chs chs)"
  then obtain k c p where "(k, c) \<in> set (id_map [] chs)" "map_of (id_map [] chs) k = Some p" "pc = (p, c)"
    by (auto simp: overlap_pairs_def Let_def split: option.splits)
  with map_of_is_SomeI [OF d] show ?thesis by simp
qed

lemma no_decline_no_restart:
  assumes "\<And>pc. pc \<in> set (overlap_pairs (sn_ds cur) (sn_ds prev)) \<Longrightarrow> \<not> declining pc"
  shows "check_restart ts cur prev = []"
proof -
  have f: "filter declining (filter has_counters (overlap_pairs (sn_ds cur) (sn_ds prev))) = []"
    using assms by (auto simp: filter_empty_conv)
  have "1 / 2 \<le> fl (8 / 10)" by (rule fl_ge_exact) simp_all
  then show ?thesis unfolding check_restart_def Let_def f by (simp add: ratio_below_def RESTART_CHANNEL_THRESHOLD_def)
qed

text \<open>
  Nothing changed, nothing reported.  A detector that is in immediate mode, or whose
  confirmed health is the one of the snapshot, emits no event at all when it is polled with
  the very snapshot it saw last.
\<close>

theorem quiet_on_same_snapshot:
  assumes "dt_prev d = Some (s, psid)" and "dt_hysteresis d < 2 \<or> dt_confirmed d = Some (health_of s)"
  shows "fst (check t ts s sid d) = []"
proof -
  have h: "fst (check_health ts (sn_summary s) (sn_summary s) (d\<lparr>dt_prev := Some (s, sid)\<rparr>)) = []"
    using assms(2) by (auto simp: check_health_def health_of_def get_or_def Let_def)
  have p: "check_power ts (sn_summary s) (sn_summary s) = []"
    by (auto simp: check_power_def power_shift_def POWER_SHIFT_THRESHOLD_def f_sub_Fin f64_of_def split: option.split)
  have n: "check_snr t ts s s = []" by (simp add: check_snr_def split: option.split)
  have m: "check_modulation ts s s = []" by (simp add: check_modulation_def modulation_same Let_def)
  have r: "check_restart ts s s = []"
    by (rule no_decline_no_restart) (use overlap_same in \<open>auto simp: declining_def declined_def pair_both_def Let_def split: option.splits\<close>)
  have e: "check_errors ts (sn_summary s) (sn_summary s) = []"
    by (simp add: check_errors_def UNCORR_SPIKE_THRESHOLD_def split: option.split)
  show ?thesis
    by (simp add: check_split [OF assms(1)] compare_snapshots_def case_prod_beta Let_def h p n m r e check_channels_def count_change_def)
qed

theorem quiet_on_same_snapshot_witness:
  "fst (check FALLBACK_THRESHOLDS ''t'' (demo_snapshot ''good'') (Some 8) demo_detector) = []"
  by (rule quiet_on_same_snapshot [OF demo_prev])
    (simp add: demo_detector_def init_detector_def seed_def health_of_def demo_snapshot_def get_or_def)

lemma length_filter_le_ratio:
  assumes "\<not> ratio_below f v RESTART_CHANNEL_THRESHOLD" "0 < v"
  shows "3 * v < 4 * f"
proof (rule ccontr)
  assume "\<not> 3 * v < 4 * f"
  then have "(of_nat f :: rat) / of_nat v \<le> 3 / 4"
    using assms(2) by (simp add: divide_le_eq)
  then have "fl (of_nat f / of_nat v) \<le> 3 / 4" by (rule fl_le_exact) simp
  moreover have "51 / 64 \<le> fl (8 / 10)"
    by (rule fl_ge_exact) (use fl_div_pow2 [of 51 6] in simp_all)
  ultimately show False using assms(1) by (simp add: ratio_below_def RESTART_CHANNEL_THRESHOLD_def)
qed

text \<open>
  A restart is not reported lightly.  Whenever two snapshots yield a restart event, at
  least four channels had comparable counters, more than three quarters of them are declining
  (some counter fell and none grew), and the totals, when all four are known, do not both
  hold or grow.
\<close>

theorem restart_needs_decline:
  assumes "e \<in> set (check_restart ts cur prev)" and "ev_details e = D_Restart f v pc pu cc cu"
  shows "4 \<le> v \<and> f \<le> v \<and> 3 * v < 4 * f
    \<and> v = length (filter has_counters (overlap_pairs (sn_ds cur) (sn_ds prev)))
    \<and> f = length (filter (\<lambda>pc. has_counters pc \<and> declining pc) (overlap_pairs (sn_ds cur) (sn_ds prev)))
    \<and> \<not> totals_not_falling pc pu cc cu"
proof -
  let ?v = "filter has_counters (overlap_pairs (sn_ds cur) (sn_ds prev))"
  from assms have v: "\<not> length ?v < RESTART_MIN_OVERLAP" "\<not> ratio_below f v RESTART_CHANNEL_THRESHOLD"
      "\<not> totals_not_falling pc pu cc cu" and e: "f = length (filter declining ?v)" "v = length ?v"
    by (simp_all add: check_restart_def Let_def mk_event_def del: filter_filter split: if_splits)
  have "4 \<le> v" using v(1) e(2) by (simp add: RESTART_MIN_OVERLAP_def)
  moreover have "f = length (filter (\<lambda>pc. has_counters pc \<and> declining pc) (overlap_pairs (sn_ds cur) (sn_ds prev)))"
    using e(1) by (simp add: conj_commute)
  moreover have "3 * v < 4 * f" by (rule length_filter_le_ratio [OF v(2)]) (use \<open>4 \<le> v\<close> in simp)
  moreover have "f \<le> v" using e by (simp del: filter_filter)
  ultimately show ?thesis using v(3) e(2) by blast
qed

definition demo_channel :: "int \<Rightarrow> int \<Rightarrow> ev_channel" where
  "demo_channel i n = \<lparr>ec_id = Id_Int i, ec_text = [''modulation'' \<mapsto> ''256QAM''], ec_snr = Some (Fin 36),
     ec_snr_health = None, ec_modulation_health = None, ec_correctable = Some n, ec_uncorrectable = None\<rparr>"

definition demo_counters :: "int \<Rightarrow> snapshot" where
  "demo_counters n = (demo_snapshot ''good'')\<lparr>sn_ds := map (\<lambda>i. demo_channel i n) [1, 2, 3, 4]\<rparr>"

definition demo_before :: snapshot where
  "demo_before = (demo_counters 90)\<lparr>sn_summary := (sn_summary (demo_counters 90))\<lparr>es_correctable := Some (Some 360)\<rparr>\<rparr>"

lemma demo_restart:
  "check_restart ts (demo_counters 0) demo_before
    = [mk_event ts Info ''modem_restart_detected'' (Msg ''Detected modem restart or counter reset pattern'' [])
        (D_Restart 4 4 (Some 360) (Some 0) (Some 10) (Some 0))]"
proof -
  let ?chs = "\<lambda>n. map (\<lambda>i. demo_channel i n) [1, 2, 3, 4]"
  let ?prs = "map (\<lambda>i. (demo_channel i 90, demo_channel i 0)) [1, 2, 3, 4]"
  have p: "overlap_pairs (?chs 0) (?chs 90) = ?prs"
    by (simp add: overlap_pairs_def demo_channel_def Let_def)
  have f: "filter has_counters ?prs = ?prs" "filter declining ?prs = ?prs"
    by (simp_all add: has_counters_def declining_def pair_both_def declined_def not_grown_def demo_channel_def Let_def)
  have l: "length (id_map [] (?chs n)) = 4" "length ?prs = 4" for n
    by (simp_all add: demo_channel_def)
  have "fl (8 / 10) \<le> 1" by (rule fl_le_exact) simp_all
  then have r: "ratio_below 4 4 RESTART_MIN_CONTINUITY = False" "ratio_below 4 4 RESTART_CHANNEL_THRESHOLD = False"
    by (simp_all add: ratio_below_def RESTART_MIN_CONTINUITY_def RESTART_CHANNEL_THRESHOLD_def)
  have s: "sn_ds (demo_counters 0) = ?chs 0" "sn_ds demo_before = ?chs 90"
    by (simp_all add: demo_counters_def demo_before_def)
  have t: "get_or (es_correctable (sn_summary demo_before)) None = Some 360" "get_or (es_uncorrectable (sn_summary demo_before)) None = Some 0"
    "get_or (es_correctable (sn_summary (demo_counters 0))) None = Some 10" "get_or (es_uncorrectable (sn_summary (demo_counters 0))) None = Some 0"
    by (simp_all add: demo_counters_def demo_before_def demo_snapshot_def get_or_def)
  have tot: "totals_not_falling (Some 360) (Some 0) (Some 10) (Some 0) = False" by (simp add: totals_not_falling_def)
  show ?thesis unfolding check_restart_def Let_def s p f l t r tot by (simp only: RESTART_MIN_OVERLAP_def) simp
qed

theorem restart_needs_decline_witness:
  "3 * 4 < 4 * (4::nat) \<and> \<not> totals_not_falling (Some 360) (Some 0) (Some 10) (Some 0)"
proof -
  have "mk_event ''t'' Info ''modem_restart_detected'' (Msg ''Detected modem restart or counter reset pattern'' [])
        (D_Restart 4 4 (Some 360) (Some 0) (Some 10) (Some 0)) \<in> set (check_restart ''t'' (demo_counters 0) demo_before)"
    unfolding demo_restart by simp
  from restart_needs_decline [OF this, of 4 4 "Some 360" "Some 0" "Some 10" "Some 0"] show ?thesis
    by (simp add: mk_event_def)
qed

definition keyed :: "ev_channel list \<Rightarrow> bool" where
  "keyed chs = (distinct (map (normalize_channel_id \<circ> ec_id) chs) \<and> None \<notin> set (map (normalize_channel_id \<circ> ec_id) chs))"

lemma length_dict_set_new: "k \<notin> set (dict_keys d) \<Longrightarrow> length (dict_set k v d) = Suc (length d)"
  by (induction d) auto

lemma channel_map_length:
  "keyed chs \<Longrightarrow> (\<And>k. k \<in> set (dict_keys m) \<Longrightarrow> Some k \<notin> set (map (normalize_channel_id \<circ> ec_id) chs)) \<Longrightarrow>
    length (channel_map m chs) = length m + length chs"
proof (induction m chs rule: channel_map.induct)
  case (2 m ch chs)
  obtain k where k: "normalize_channel_id (ec_id ch) = Some k" using 2(3) by (cases "normalize_channel_id (ec_id ch)") (auto simp: keyed_def)
  have new: "k \<notin> set (dict_keys m)" using 2(4) [of k] k by auto
  have "length (channel_map (dict_set k ch m) chs) = length (dict_set k ch m) + length chs"
  proof (rule 2(2) [OF k])
    show "keyed chs" using 2(3) by (simp add: keyed_def)
    show "Some j \<notin> set (map (normalize_channel_id \<circ> ec_id) chs)" if "j \<in> set (dict_keys (dict_set k ch m))" for j
    proof -
      from that have "j = k \<or> j \<in> set (dict_keys m)" by (simp add: set_keys_dict_set del: set_map)
      then show ?thesis using 2(3,4) k by (auto simp: keyed_def)
    qed
  qed
  then show ?case using k new by (simp add: length_dict_set_new)
qed simp

lemma common_counts:
  fixes a b :: "('k \<times> 'v) list"
  assumes "distinct (dict_keys a)" "distinct (dict_keys b)"
  shows "length (filter (\<lambda>(k, v). k \<notin> set (dict_keys b)) a) + length b = length (filter (\<lambda>(k, v). k \<notin> set (dict_keys a)) b) + length a"
proof -
  have c: "length (filter (\<lambda>(k, v). k \<notin> set (dict_keys y)) x) = card (set (dict_keys x) - set (dict_keys y))"
    if "distinct (dict_keys x)" for x y :: "('k \<times> 'v) list"
  proof -
    have "dict_keys (filter (\<lambda>(k, v). P k) x) = filter P (dict_keys x)" for P
      by (induction x) auto
    note this [of "\<lambda>k. k \<notin> set (dict_keys y)"]
    then have "length (filter (\<lambda>(k, v). k \<notin> set (dict_keys y)) x) = length (filter (\<lambda>k. k \<notin> set (dict_keys y)) (dict_keys x))"
      by (metis length_map)
    also have "\<dots> = card (set (filter (\<lambda>k. k \<notin> set (dict_keys y)) (dict_keys x)))"
      using that by (intro distinct_card [symmetric] distinct_filter)
    finally show ?thesis unfolding set_filter set_diff_eq .
  qed
  have "length a = card (set (dict_keys a))" "length b = card (set (dict_keys b))"
    using distinct_card [OF assms(1)] distinct_card [OF assms(2)] by simp_all
  moreover have "card (set (dict_keys a) - set (dict_keys b)) + card (set (dict_keys b)) = card (set (dict_keys b) - set (dict_keys a)) + card (set (dict_keys a))"
    by (metis Un_commute Un_Diff_cancel card_Un_disjoint Diff_disjoint List.finite_set finite_Diff add.commute inf_commute)
  ultimately show ?thesis unfolding c [OF assms(1)] c [OF assms(2)] by simp
qed

text \<open>
  A changed channel count is fully explained.  When every channel of both snapshots has
  its own id, the listed lost and added channels account for the whole difference of the
  counts, whatever channels were swapped in between.
\<close>

theorem channel_change_explained:
  assumes "keyed cur" and "keyed prev" and "changed_channels direction cur prev = (lost, added)"
  shows "int (length cur) - int (length prev) = int (length added) - int (length lost)"
proof -
  have d: "distinct (dict_keys (channel_map [] chs))" for chs by (rule channel_map_distinct) simp
  have l: "length (channel_map [] cur) = length cur" "length (channel_map [] prev) = length prev"
    using channel_map_length [OF assms(1), of "[]"] channel_map_length [OF assms(2), of "[]"] by simp_all
  have "length lost = length (filter (\<lambda>(k, ch). k \<notin> set (dict_keys (channel_map [] cur))) (channel_map [] prev))"
    "length added = length (filter (\<lambda>(k, ch). k \<notin> set (dict_keys (channel_map [] prev))) (channel_map [] cur))"
    using assms(3) by (auto simp: changed_channels_def Let_def)
  then show ?thesis using common_counts [OF d d, of prev cur] l by linarith
qed

theorem channel_change_explained_witness:
  "(case changed_channels ''DS'' (sn_ds (demo_counters 0)) [demo_channel 1 0, demo_channel 9 0] of (lost, added) \<Rightarrow>
     int (length added) - int (length lost) = 2)"
proof -
  have k: "keyed (sn_ds (demo_counters 0))" "keyed [demo_channel 1 0, demo_channel 9 0]"
    by (simp_all add: keyed_def demo_counters_def demo_channel_def)
  show ?thesis using channel_change_explained [OF k, of "''DS''"] by (auto simp: demo_counters_def split: prod.split)
qed

end
