(* ===== verification/Cooldowns.thy ===== *)
theory Cooldowns
  imports Py_Float
begin

text \<open>
  What the components that limit how often they act share: windows over clock readings that
  are pruned at every use, and memories that keep only the newest reading of each key.  Each
  loses nothing its owner can still ask for.  The laws are stated as locales; the guard chain
  of Smart Capture and the notification dispatcher interpret them.
\<close>

section \<open>Sliding windows\<close>

text \<open>
  Two of the guards keep a list of clock readings and drop what left their window at every
  use.  Dropping early is invisible later, because a reading never comes back into a window.
\<close>

locale sliding_window =
  fixes keep :: "rat \<Rightarrow> rat \<Rightarrow> bool"
  assumes leaves: "keep now' t \<Longrightarrow> now \<le> now' \<Longrightarrow> keep now t"
begin

definition tracks :: "rat \<Rightarrow> rat list \<Rightarrow> rat list \<Rightarrow> bool" where
  "tracks now kept full \<longleftrightarrow> (\<forall>now' \<ge> now. length (filter (keep now') kept) = length (filter (keep now') full))"

lemma prune: "now \<le> now' \<Longrightarrow> filter (keep now') (filter (keep now) ts) = filter (keep now') ts"
  by (induction ts) (auto dest: leaves)

lemma tracks_prune: "tracks now kept full \<Longrightarrow> tracks now (filter (keep now) kept) full"
  unfolding tracks_def using prune by simp

lemma tracks_add: "tracks now kept full \<Longrightarrow> tracks now (kept @ [t]) (t # full)"
  by (auto simp: tracks_def)

lemma tracks_later: "tracks now kept full \<Longrightarrow> now \<le> now' \<Longrightarrow> tracks now' kept full"
  by (auto simp: tracks_def)

lemma tracks_count: "tracks now kept full \<Longrightarrow> length (filter (keep now) kept) = length (filter (keep now) full)"
  by (simp add: tracks_def)

lemma tracks_Nil: "tracks now [] []"
  by (simp add: tracks_def)

end

section \<open>Cooldowns\<close>

text \<open>A cooldown remembers only the newest reading; that decides for all of them.\<close>

definition newest_of :: "rat option \<Rightarrow> rat list \<Rightarrow> bool" where
  "newest_of m ts \<longleftrightarrow> (case m of None \<Rightarrow> ts = [] | Some t0 \<Rightarrow> t0 \<in> set ts \<and> (\<forall>t \<in> set ts. t \<le> t0))"

lemma newest_add: "(\<And>t. t \<in> set ts \<Longrightarrow> t \<le> now) \<Longrightarrow> newest_of (Some now) (now # ts)"
  by (auto simp: newest_of_def)

lemma newest_rested:
  assumes "newest_of m ts"
  shows "list_all (\<lambda>t. c \<le> fl (now - t)) ts \<longleftrightarrow> (case m of None \<Rightarrow> True | Some t0 \<Rightarrow> c \<le> fl (now - t0))"
proof (cases m)
  case None
  with assms show ?thesis by (simp add: newest_of_def)
next
  case (Some t0)
  with assms have t0: "t0 \<in> set ts" "\<And>t. t \<in> set ts \<Longrightarrow> t \<le> t0" by (auto simp: newest_of_def)
  have "c \<le> fl (now - t)" if "c \<le> fl (now - t0)" "t \<in> set ts" for t
    using that(1) fl_mono [of "now - t0" "now - t"] t0(2) [OF that(2)] by simp
  with t0(1) show ?thesis by (auto simp: Some list_all_iff)
qed

section \<open>Clock readings that never run backwards\<close>

fun ascending :: "rat \<Rightarrow> (rat \<times> 'b) list \<Rightarrow> bool" where
  "ascending t [] = True"
| "ascending t ((now, b) # bs) = (t \<le> now \<and> ascending now bs)"

section \<open>Logs of keyed events\<close>

text \<open>Newest first.\<close>

type_synonym 'k entry = "rat \<times> 'k"

abbreviation times :: "'k entry list \<Rightarrow> rat list" where
  "times es \<equiv> map fst es"

abbreviation times_of :: "'k \<Rightarrow> 'k entry list \<Rightarrow> rat list" where
  "times_of key es \<equiv> map fst (filter (\<lambda>e. snd e = key) es)"

locale fire_memory =
  fixes last_of :: "'s \<Rightarrow> 'k \<Rightarrow> rat option" and store :: "'k \<Rightarrow> rat \<Rightarrow> 's \<Rightarrow> 's"
  assumes last_of_store: "last_of (store key now s) = (last_of s)(key \<mapsto> now)"
begin

definition remembers :: "'s \<Rightarrow> 'k entry list \<Rightarrow> bool" where
  "remembers s es \<longleftrightarrow> (\<forall>key. newest_of (last_of s key) (times_of key es))"

lemma remembersD: "remembers s es \<Longrightarrow> newest_of (last_of s key) (times_of key es)"
  by (simp add: remembers_def)

lemma remembers_store:
  assumes "remembers s es" and "\<And>e. e \<in> set es \<Longrightarrow> fst e \<le> now"
  shows "remembers (store key now s) ((now, key) # es)"
  using assms unfolding remembers_def last_of_store by (fastforce intro!: newest_add)

lemma remembers_Nil: "remembers s [] \<longleftrightarrow> (\<forall>key. last_of s key = None)"
  by (auto simp: remembers_def newest_of_def split: option.splits)

end

end
