(* ===== verification/Notifier.thy ===== *)
theory Notifier
  imports Py_Values Cooldowns
begin

text \<open>
  \<^verbatim>\<open>app/notifier.py\<close>: the dispatcher that routes events to notification channels through the
  severity filter and the cooldowns, the payload each channel builds, and the Web Push channel
  that drops dead subscriptions.  A configuration lookup is a function to scalars; the JSON of
  \<^verbatim>\<open>notify_cooldowns\<close> arrives parsed; the text of a float, the outcome of a request and the
  push service are arguments, being code of other packages.
\<close>

section \<open>Events and payloads\<close>

text \<open>A detail is a scalar or a nested value, which \<^verbatim>\<open>json.dumps\<close> turned into text.\<close>

datatype detail = Scalar pyval | Nested string

record note_event =
  ne_timestamp :: "string option"
  ne_severity :: "string option"
  ne_type :: "string option"
  ne_message :: "string option"
  ne_details :: "(string \<times> detail) list option"

record payload =
  pl_timestamp :: string
  pl_severity :: string
  pl_type :: string
  pl_message :: string
  pl_details :: "(string \<times> detail) list"

definition or_default :: "'a option \<Rightarrow> 'a \<Rightarrow> 'a" where
  "or_default v d = (case v of None \<Rightarrow> d | Some x \<Rightarrow> x)"

definition build_payload :: "string \<Rightarrow> note_event \<Rightarrow> payload" where
  "build_payload utc_now ev =
     \<lparr>pl_timestamp = or_default (ne_timestamp ev) utc_now, pl_severity = or_default (ne_severity ev) ''info'',
      pl_type = or_default (ne_type ev) ''unknown'', pl_message = or_default (ne_message ev) [],
      pl_details = or_default (ne_details ev) []\<rparr>"

section \<open>Text of the details\<close>

definition py_alpha :: "char \<Rightarrow> bool" where
  [py_text]: "py_alpha c = (let n = (of_char c :: nat) in (65 \<le> n \<and> n \<le> 90) \<or> (97 \<le> n \<and> n \<le> 122))"

text \<open>\<^verbatim>\<open>s.title()\<close>: the first letter of every run of letters in upper case, the others in lower case.\<close>

fun title_from :: "bool \<Rightarrow> string \<Rightarrow> string" where
  "title_from inside [] = []"
| "title_from inside (c # cs) =
     (if py_alpha c then (if inside then py_lower_char c else py_upper_char c) # title_from True cs
      else c # title_from False cs)"

definition spaced :: "string \<Rightarrow> string" where
  "spaced s = map (\<lambda>c. if c = CHR ''_'' then CHR '' '' else c) s"

definition headline :: "string \<Rightarrow> string" where
  "headline s = title_from False (spaced s)"

fun scalar_str :: "(f64 \<Rightarrow> string) \<Rightarrow> pyval \<Rightarrow> string" where
  "scalar_str show_float PNone = ''None''"
| "scalar_str show_float (PBool b) = (if b then ''True'' else ''False'')"
| "scalar_str show_float (PInt n) = int_str n"
| "scalar_str show_float (PFloat x) = show_float x"
| "scalar_str show_float (PStr s) = s"

fun detail_str :: "(f64 \<Rightarrow> string) \<Rightarrow> detail \<Rightarrow> string" where
  "detail_str show_float (Scalar v) = scalar_str show_float v"
| "detail_str show_float (Nested json) = json"

section \<open>Discord embeds\<close>

definition DISCORD_TITLE_MAX :: nat where "DISCORD_TITLE_MAX = 256"
definition DISCORD_DESC_MAX :: nat where "DISCORD_DESC_MAX = 4096"
definition DISCORD_FIELD_NAME_MAX :: nat where "DISCORD_FIELD_NAME_MAX = 256"
definition DISCORD_FIELD_VALUE_MAX :: nat where "DISCORD_FIELD_VALUE_MAX = 1024"
definition DISCORD_FIELDS_MAX :: nat where "DISCORD_FIELDS_MAX = 25"
definition DISCORD_TOTAL_MAX :: nat where "DISCORD_TOTAL_MAX = 6000"

definition DISCORD_SEVERITY_COLORS :: "(string \<times> nat) list" where
  "DISCORD_SEVERITY_COLORS = [(''info'', 0x3498DB), (''warning'', 0xF39C12), (''critical'', 0xE74C3C)]"

lemmas discord_limits = DISCORD_TITLE_MAX_def DISCORD_DESC_MAX_def DISCORD_FIELD_NAME_MAX_def
  DISCORD_FIELD_VALUE_MAX_def DISCORD_FIELDS_MAX_def DISCORD_TOTAL_MAX_def

record embed_field =
  ef_name :: string
  ef_value :: string
  ef_inline :: bool

record embed =
  em_title :: string
  em_description :: string
  em_color :: nat
  em_timestamp :: string
  em_footer :: string
  em_fields :: "embed_field list"

text \<open>The loop over the details: a field that would pass the total limit ends it, and so does
  the field that reaches the limit on their number.\<close>

fun embed_fields :: "(f64 \<Rightarrow> string) \<Rightarrow> nat \<Rightarrow> embed_field list \<Rightarrow> (string \<times> detail) list \<Rightarrow> embed_field list" where
  "embed_fields show_float used acc [] = acc"
| "embed_fields show_float used acc ((key, v) # ds) =
     (let text = detail_str show_float v;
          name = take DISCORD_FIELD_NAME_MAX (headline key);
          val_str = take DISCORD_FIELD_VALUE_MAX text;
          used' = used + (length name + length val_str)
      in if DISCORD_TOTAL_MAX < used' then acc
         else (let acc' = acc @ [\<lparr>ef_name = name, ef_value = val_str, ef_inline = length text < 40\<rparr>] in
           if DISCORD_FIELDS_MAX \<le> length acc' then acc' else embed_fields show_float used' acc' ds))"

definition format_embed :: "(f64 \<Rightarrow> string) \<Rightarrow> payload \<Rightarrow> embed" where
  "format_embed show_float p =
     (let title = take DISCORD_TITLE_MAX (py_upper (pl_severity p) @ '': '' @ headline (pl_type p));
          description = take DISCORD_DESC_MAX (pl_message p);
          footer = ''DOCSight''
      in \<lparr>em_title = title, em_description = description,
          em_color = dict_get DISCORD_SEVERITY_COLORS (pl_severity p) 0x95A5A6,
          em_timestamp = pl_timestamp p, em_footer = footer,
          em_fields = embed_fields show_float (length title + length description + length footer) [] (pl_details p)\<rparr>)"

section \<open>Apprise and Web Push payloads\<close>

definition apprise_body :: "(f64 \<Rightarrow> string) \<Rightarrow> payload \<Rightarrow> string" where
  "apprise_body show_float p =
     (if pl_details p = [] then pl_message p
      else pl_message p @ [CHR 0x0A, CHR 0x0A] @ ''Details:'' @ [CHR 0x0A] @
        py_join [CHR 0x0A] (map (\<lambda>(k, v). spaced k @ '': '' @ detail_str show_float v) (pl_details p)))"

record apprise_payload =
  ap_title :: string
  ap_body :: string
  ap_type :: string
  ap_tag :: "string option"

definition apprise_type :: "string \<Rightarrow> string" where
  "apprise_type severity = dict_get [(''info'', ''info''), (''warning'', ''warning''), (''critical'', ''failure'')] severity ''info''"

definition apprise_message :: "(f64 \<Rightarrow> string) \<Rightarrow> string \<Rightarrow> payload \<Rightarrow> apprise_payload" where
  "apprise_message show_float tag p =
     \<lparr>ap_title = ''DOCSight: '' @ headline (pl_type p), ap_body = apprise_body show_float p,
      ap_type = apprise_type (pl_severity p), ap_tag = (if py_strip tag = [] then None else Some (py_strip tag))\<rparr>"

record push_payload =
  pp_title :: string
  pp_body :: string
  pp_severity :: string
  pp_type :: string
  pp_timestamp :: string
  pp_url :: string

definition notification_url :: "string \<Rightarrow> string" where
  "notification_url event_type = (if event_type = ''test'' then ''/?source=pwa#live'' else ''/?source=pwa#events'')"

definition nonempty_or :: "string \<Rightarrow> string \<Rightarrow> string" where
  "nonempty_or s d = (if s = [] then d else s)"

definition push_message :: "payload \<Rightarrow> push_payload" where
  "push_message p =
     (let severity = nonempty_or (pl_severity p) ''info''; event_type = nonempty_or (pl_type p) ''unknown'' in
      \<lparr>pp_title = take 100 (''DOCSight '' @ severity @ '': '' @ headline event_type),
       pp_body = take 240 (nonempty_or (pl_message p) ''DOCSight notification''),
       pp_severity = severity, pp_type = event_type, pp_timestamp = pl_timestamp p,
       pp_url = notification_url event_type\<rparr>)"

section \<open>Webhook addresses\<close>

text \<open>
  The pattern of a Discord webhook, letters matched in either case.  Each repetition ends where
  the text that follows it begins, so matching never goes back.  \<open>py_word\<close> is \<^verbatim>\<open>\w\<close>.
\<close>

definition py_word :: "char \<Rightarrow> bool" where
  [py_text]: "py_word c = (let n = (of_char c :: nat) in
     py_alpha c \<or> is_digit c \<or> n = 95 \<or> n \<in> {170, 178, 179, 181, 185, 186, 188, 189, 190}
     \<or> (192 \<le> n \<and> n \<noteq> 215 \<and> n \<noteq> 247))"

fun strip_ci :: "string \<Rightarrow> string \<Rightarrow> string option" where
  "strip_ci [] s = Some s"
| "strip_ci (p # ps) [] = None"
| "strip_ci (p # ps) (c # cs) = (if py_lower_char c = p then strip_ci ps cs else None)"

definition strip_opt :: "string list \<Rightarrow> string \<Rightarrow> string" where
  "strip_opt ps s = (case filter (\<lambda>r. r \<noteq> None) (map (\<lambda>p. strip_ci p s) ps) of Some r # _ \<Rightarrow> r | _ \<Rightarrow> s)"

definition strip_run :: "(char \<Rightarrow> bool) \<Rightarrow> string \<Rightarrow> string option" where
  "strip_run P s = (if takeWhile P s = [] then None else Some (dropWhile P s))"

definition strip_version :: "string \<Rightarrow> string" where
  "strip_version s = (case strip_ci ''/v'' s of None \<Rightarrow> s | Some r \<Rightarrow> (case strip_run is_digit r of None \<Rightarrow> s | Some r' \<Rightarrow> r'))"

definition token_tail :: "string \<Rightarrow> bool" where
  "token_tail s = (case strip_run (\<lambda>c. py_word c \<or> c = CHR ''-'') s of None \<Rightarrow> False
     | Some [] \<Rightarrow> True
     | Some (c # q) \<Rightarrow> c = CHR ''?'' \<and> strip_run (\<lambda>c. py_word c \<or> c = CHR ''='' \<or> c = CHR ''&'') q = Some [])"

definition is_discord_webhook_url :: "string \<Rightarrow> bool" where
  "is_discord_webhook_url url =
     (case Option.bind (strip_ci ''https://'' url) (\<lambda>r.
        Option.bind (strip_ci ''discord'' (strip_opt [''ptb.'', ''canary.''] r)) (\<lambda>r.
        Option.bind (strip_ci ''.com/api'' (strip_opt [''app''] r)) (\<lambda>r.
        Option.bind (strip_ci ''/webhooks/'' (strip_version r)) (\<lambda>r.
        Option.bind (strip_run is_digit r) (strip_ci ''/''))))) of
      None \<Rightarrow> False | Some r \<Rightarrow> token_tail r)"

text \<open>The label the logs show, from what \<^verbatim>\<open>urlsplit\<close> finds; a port it cannot read is left out.\<close>

record url_parts =
  up_scheme :: string
  up_hostname :: string
  up_port :: "nat option"

definition safe_endpoint_label :: "url_parts option \<Rightarrow> string" where
  "safe_endpoint_label parsed =
     (case parsed of None \<Rightarrow> ''webhook endpoint''
      | Some u \<Rightarrow>
          if up_scheme u = [] \<or> up_hostname u = [] then ''webhook endpoint''
          else (let host = (if CHR '':'' \<in> set (up_hostname u) \<and> \<not> py_startswith (up_hostname u) ''[''
                            then ''['' @ up_hostname u @ '']'' else up_hostname u)
                in up_scheme u @ ''://'' @ host @ (case up_port u of None \<Rightarrow> [] | Some p \<Rightarrow> '':'' @ nat_str p)))"

section \<open>Channels\<close>

datatype notify_channel =
    Webhook string "(string \<times> string) list"
  | Discord string
  | Apprise string string string string
  | Web_Push string string

definition config_text :: "(string \<Rightarrow> pyval) \<Rightarrow> string \<Rightarrow> string" where
  "config_text cfg key = (case cfg key of PStr s \<Rightarrow> s | _ \<Rightarrow> [])"

definition webhook_channels :: "(string \<Rightarrow> pyval) \<Rightarrow> notify_channel list" where
  "webhook_channels cfg =
     (let url = config_text cfg ''notify_webhook_url''; token = config_text cfg ''notify_webhook_token'' in
      if url = [] then []
      else if is_discord_webhook_url url then [Discord url]
      else [Webhook url (if token = [] then [] else [(''Authorization'', ''Bearer '' @ token)])])"

definition apprise_channels :: "(string \<Rightarrow> pyval) \<Rightarrow> notify_channel list" where
  "apprise_channels cfg =
     (let url = config_text cfg ''notify_apprise_url'' in
      if truthy (cfg ''notify_apprise_enabled'') \<and> url \<noteq> []
      then [Apprise url (config_text cfg ''notify_apprise_key'') (config_text cfg ''notify_apprise_tag'')
              (config_text cfg ''notify_apprise_token'')]
      else [])"

definition push_channels :: "(string \<Rightarrow> pyval) \<Rightarrow> bool \<Rightarrow> notify_channel list" where
  "push_channels cfg has_storage =
     (if truthy (cfg ''notify_pwa_push_enabled'') \<and> has_storage
         \<and> config_text cfg ''notify_pwa_push_vapid_public_key'' \<noteq> []
         \<and> config_text cfg ''notify_pwa_push_vapid_private_key'' \<noteq> []
      then [Web_Push (config_text cfg ''notify_pwa_push_vapid_private_key'')
              (nonempty_or (config_text cfg ''notify_pwa_push_vapid_subject'') ''mailto:admin@example.com'')]
      else [])"

definition get_channels :: "(string \<Rightarrow> pyval) \<Rightarrow> bool \<Rightarrow> notify_channel list" where
  "get_channels cfg has_storage = webhook_channels cfg @ apprise_channels cfg @ push_channels cfg has_storage"

section \<open>Web Push\<close>

text \<open>The push service accepts a message, refuses it with a status or fails with an exception.\<close>

datatype push_outcome = Push_Ok | Push_Refused "nat option" | Push_Failed string "nat option"

record subscription =
  sb_endpoint :: string
  sb_info :: string

definition status_str :: "nat option \<Rightarrow> string" where
  "status_str st = (case st of None \<Rightarrow> ''unknown'' | Some n \<Rightarrow> if n = 0 then ''unknown'' else nat_str n)"

definition gone :: "nat option \<Rightarrow> string \<Rightarrow> bool" where
  "gone st endpoint = (st \<in> {Some 404, Some 410} \<and> endpoint \<noteq> [])"

definition push_error :: "push_outcome \<Rightarrow> string \<Rightarrow> string option" where
  "push_error r endpoint =
     (case r of Push_Ok \<Rightarrow> None
      | Push_Refused st \<Rightarrow> Some (if gone st endpoint then ''expired:'' @ status_str st else ''HTTP '' @ status_str st)
      | Push_Failed name st \<Rightarrow> Some (if gone st endpoint then ''expired:'' @ status_str st else name))"

definition push_gone :: "push_outcome \<Rightarrow> string \<Rightarrow> bool" where
  "push_gone r endpoint = (case r of Push_Ok \<Rightarrow> False | Push_Refused st \<Rightarrow> gone st endpoint | Push_Failed _ st \<Rightarrow> gone st endpoint)"

text \<open>One pass over the subscriptions read at its start; a dead one is deleted by its endpoint.\<close>

fun push_all :: "(subscription \<Rightarrow> push_outcome) \<Rightarrow> subscription list \<Rightarrow> subscription list \<Rightarrow> string list \<times> subscription list" where
  "push_all push [] stored = ([], stored)"
| "push_all push (sb # sbs) stored =
     (let r = push sb;
          stored1 = (if push_gone r (sb_endpoint sb) then filter (\<lambda>x. sb_endpoint x \<noteq> sb_endpoint sb) stored else stored);
          (errs, stored2) = push_all push sbs stored1
      in ((case push_error r (sb_endpoint sb) of None \<Rightarrow> errs | Some e \<Rightarrow> e # errs), stored2))"

definition web_push_send :: "bool \<Rightarrow> (subscription \<Rightarrow> push_outcome) \<Rightarrow> string \<Rightarrow> subscription list \<Rightarrow> bool \<times> string \<times> subscription list" where
  "web_push_send available push private_key stored =
     (if \<not> available then (False, ''Web Push dependency unavailable'', stored)
      else if py_strip private_key = [] then (False, ''Web Push is not configured'', stored)
      else if stored = [] then (False, ''No browser subscriptions'', stored)
      else (let (errs, stored') = push_all push stored stored in
        if errs = [] then (True, [], stored') else (False, py_join ''; '' errs, stored')))"

section \<open>Apprise requests\<close>

text \<open>\<^verbatim>\<open>quote(key, safe='')\<close>: letters, digits and \<^verbatim>\<open>_.-~\<close> stay, every other byte of the UTF-8 text
  becomes a percent escape.\<close>

definition hex_char :: "nat \<Rightarrow> char" where
  "hex_char n = (if n < 10 then char_of (48 + n) else char_of (55 + n))"

definition utf8_bytes :: "char \<Rightarrow> nat list" where
  "utf8_bytes c = (let n = of_char c in if n < 128 then [n] else [192 + n div 64, 128 + n mod 64])"

definition unreserved :: "char \<Rightarrow> bool" where
  "unreserved c = (py_alpha c \<or> is_digit c \<or> c \<in> {CHR ''_'', CHR ''.'', CHR ''-'', CHR ''~''})"

definition quote_char :: "char \<Rightarrow> string" where
  "quote_char c = (if unreserved c then [c] else concat (map (\<lambda>b. [CHR ''%'', hex_char (b div 16), hex_char (b mod 16)]) (utf8_bytes c)))"

definition py_quote :: "string \<Rightarrow> string" where
  "py_quote s = concat (map quote_char s)"

definition rstrip_slash :: "string \<Rightarrow> string" where
  "rstrip_slash s = rev (dropWhile (\<lambda>c. c = CHR ''/'') (rev s))"

definition notify_url :: "string \<Rightarrow> string \<Rightarrow> string" where
  "notify_url base key =
     (if py_strip key = [] then rstrip_slash base @ ''/notify''
      else rstrip_slash base @ ''/notify/'' @ py_quote (py_strip key))"

text \<open>What became of a request: accepted, an HTTP error with its status, another exception.\<close>

datatype http_outcome = Http_Ok | Http_Error "nat option" | Http_Exception string

definition http_accepted :: "http_outcome \<Rightarrow> bool" where
  "http_accepted r = (r = Http_Ok)"

definition apprise_error :: "http_outcome \<Rightarrow> string" where
  "apprise_error r = (case r of Http_Ok \<Rightarrow> [] | Http_Exception name \<Rightarrow> name
     | Http_Error st \<Rightarrow> ''HTTP '' @ (case st of None \<Rightarrow> ''unknown'' | Some n \<Rightarrow> nat_str n))"

section \<open>The dispatcher\<close>

definition SEVERITY_ORDER :: "(string \<times> nat) list" where
  "SEVERITY_ORDER = [(''info'', 0), (''warning'', 1), (''critical'', 2)]"

text \<open>\<^verbatim>\<open>notify_cooldowns\<close> parsed: text that is no JSON, JSON that is no object, or an object, whose
  nested values count as \<^verbatim>\<open>None\<close> (\<^verbatim>\<open>int\<close> refuses them alike).\<close>

datatype json_doc = Bad_Json | Other_Json | Json_Object "(string \<times> pyval) list"

record notify_config =
  nc_min_severity :: string
  nc_cooldown :: pyval
  nc_overrides :: json_doc

definition cooldown_overrides :: "notify_config \<Rightarrow> (string \<times> pyval) list" where
  "cooldown_overrides cfg = (case nc_overrides cfg of Json_Object d \<Rightarrow> d | _ \<Rightarrow> [])"

definition coerce_cooldown :: "pyval \<Rightarrow> int \<Rightarrow> int res" where
  "coerce_cooldown v dflt = catch_type_value (py_int v) dflt"

definition event_type_of :: "note_event \<Rightarrow> string" where
  "event_type_of ev = nonempty_or (or_default (ne_type ev) ''unknown'') ''unknown''"

definition severity_of :: "note_event \<Rightarrow> string" where
  "severity_of ev = py_lower (nonempty_or (or_default (ne_severity ev) ''info'') ''info'')"

definition severity_key :: "note_event \<Rightarrow> string" where
  "severity_key ev = event_type_of ev @ '':'' @ severity_of ev"

definition severe_enough :: "notify_config \<Rightarrow> note_event \<Rightarrow> bool" where
  "severe_enough cfg ev =
     (dict_get SEVERITY_ORDER (nc_min_severity cfg) 1 \<le> dict_get SEVERITY_ORDER (or_default (ne_severity ev) ''info'') 0)"

definition effective_cooldown :: "notify_config \<Rightarrow> note_event \<Rightarrow> int res" where
  "effective_cooldown cfg ev =
     res_bind (coerce_cooldown (nc_cooldown cfg) 3600) (\<lambda>default_cooldown.
       (let overrides = cooldown_overrides cfg;
            v = (case map_of overrides (severity_key ev) of Some v \<Rightarrow> v
                 | None \<Rightarrow> dict_get overrides (event_type_of ev) (PInt default_cooldown))
        in coerce_cooldown v default_cooldown))"

type_synonym tracker = "(string \<times> rat) list"

definition should_send :: "notify_config \<Rightarrow> rat \<Rightarrow> note_event \<Rightarrow> tracker \<Rightarrow> (bool \<times> tracker) res" where
  "should_send cfg now ev tr =
     (if \<not> severe_enough cfg ev then Inr (False, tr)
      else res_bind (effective_cooldown cfg ev) (\<lambda>cooldown.
        if cooldown = 0 then Inr (False, tr)
        else if (case map_of tr (severity_key ev) of None \<Rightarrow> False | Some t \<Rightarrow> fl (now - t) < of_int cooldown)
        then Inr (False, tr)
        else Inr (True, dict_set (severity_key ev) now tr)))"

text \<open>
  A dispatch: with no channel nothing happens; otherwise every qualifying event goes to every
  channel, whose failures are only logged.  Each event comes with the clock reading it is
  judged at.  An exception of the cooldown computation ends the dispatch.
\<close>

fun dispatch_events :: "notify_config \<Rightarrow> string \<Rightarrow> 'c list \<Rightarrow> (rat \<times> note_event) list \<Rightarrow> tracker \<Rightarrow> ('c \<times> payload) list \<times> tracker \<times> py_error option" where
  "dispatch_events cfg utc_now chans [] tr = ([], tr, None)"
| "dispatch_events cfg utc_now chans ((now, ev) # evs) tr =
     (case should_send cfg now ev tr of
        Inl e \<Rightarrow> ([], tr, Some e)
      | Inr (False, tr1) \<Rightarrow> dispatch_events cfg utc_now chans evs tr1
      | Inr (True, tr1) \<Rightarrow>
          (let (sent, tr2, err) = dispatch_events cfg utc_now chans evs tr1
           in (map (\<lambda>c. (c, build_payload utc_now ev)) chans @ sent, tr2, err)))"

definition dispatch :: "notify_config \<Rightarrow> string \<Rightarrow> 'c list \<Rightarrow> (rat \<times> note_event) list \<Rightarrow> tracker \<Rightarrow> ('c \<times> payload) list \<times> tracker \<times> py_error option" where
  "dispatch cfg utc_now chans evs tr = (if chans = [] then ([], tr, None) else dispatch_events cfg utc_now chans evs tr)"

text \<open>The test message: every channel that fails adds its error.\<close>

definition test_payload :: "string \<Rightarrow> payload" where
  "test_payload utc_now = \<lparr>pl_timestamp = utc_now, pl_severity = ''info'', pl_type = ''test'',
     pl_message = ''DOCSight test notification'', pl_details = [(''test'', Scalar (PBool True))]\<rparr>"

datatype send_outcome = Sent | Refused string | Raised

definition test_channels :: "('c \<Rightarrow> string) \<Rightarrow> ('c \<Rightarrow> send_outcome) \<Rightarrow> 'c list \<Rightarrow> bool \<times> string" where
  "test_channels class_name send chans =
     (if chans = [] then (False, ''No notification channels configured'')
      else (let errors = concat (map (\<lambda>c. case send c of Sent \<Rightarrow> []
                  | Refused d \<Rightarrow> [class_name c @ '': '' @ nonempty_or d ''send returned false'']
                  | Raised \<Rightarrow> [class_name c @ '': test failed; check server logs'']) chans)
            in if errors = [] then (True, []) else (False, py_join ''; '' errors)))"

section \<open>Embeds stay within the limits\<close>

definition field_chars :: "embed_field list \<Rightarrow> nat" where
  "field_chars fs = sum_list (map (\<lambda>f. length (ef_name f) + length (ef_value f)) fs)"

definition field_of :: "(f64 \<Rightarrow> string) \<Rightarrow> string \<times> detail \<Rightarrow> embed_field" where
  "field_of show_float kv = \<lparr>ef_name = take DISCORD_FIELD_NAME_MAX (headline (fst kv)),
     ef_value = take DISCORD_FIELD_VALUE_MAX (detail_str show_float (snd kv)),
     ef_inline = length (detail_str show_float (snd kv)) < 40\<rparr>"

lemma embed_fields_total:
  "base + field_chars acc = used \<Longrightarrow> used \<le> DISCORD_TOTAL_MAX \<Longrightarrow> length acc < DISCORD_FIELDS_MAX
    \<Longrightarrow> base + field_chars (embed_fields show_float used acc ds) \<le> DISCORD_TOTAL_MAX
      \<and> length (embed_fields show_float used acc ds) \<le> DISCORD_FIELDS_MAX"
  by (induction show_float used acc ds rule: embed_fields.induct) (auto simp: Let_def field_chars_def)

lemma embed_fields_Cons:
  fixes sf :: "f64 \<Rightarrow> string"
  defines "chars kv \<equiv> length (ef_name (field_of sf kv)) + length (ef_value (field_of sf kv))"
  shows "embed_fields sf used acc (kv # ds) =
    (if DISCORD_TOTAL_MAX < used + chars kv then acc
     else if DISCORD_FIELDS_MAX \<le> length (acc @ [field_of sf kv]) then acc @ [field_of sf kv]
     else embed_fields sf (used + chars kv) (acc @ [field_of sf kv]) ds)"
  by (cases kv) (simp add: chars_def field_of_def Let_def)

lemma embed_fields_prefix: "\<exists>k. embed_fields sf used acc ds = acc @ map (field_of sf) (take k ds)"
proof (induction ds arbitrary: used acc)
  case (Cons kv ds)
  have "\<exists>k. acc = acc @ map (field_of sf) (take k (kv # ds))" by (rule exI [of _ 0]) simp
  moreover have "\<exists>k. acc @ [field_of sf kv] = acc @ map (field_of sf) (take k (kv # ds))" by (rule exI [of _ 1]) simp
  moreover have "\<exists>k. embed_fields sf u (acc @ [field_of sf kv]) ds = acc @ map (field_of sf) (take k (kv # ds))" for u
  proof -
    obtain k where "embed_fields sf u (acc @ [field_of sf kv]) ds = (acc @ [field_of sf kv]) @ map (field_of sf) (take k ds)"
      using Cons.IH by blast
    then show ?thesis by (intro exI [of _ "Suc k"]) simp
  qed
  ultimately show ?case unfolding embed_fields_Cons by presburger
qed simp

lemma embed_field_limits:
  "f \<in> set (map (field_of show_float) ds) \<Longrightarrow> length (ef_name f) \<le> DISCORD_FIELD_NAME_MAX \<and> length (ef_value f) \<le> DISCORD_FIELD_VALUE_MAX"
  by (auto simp: field_of_def)

section \<open>Escaped keys\<close>

lemma hex_char_range: "n < 16 \<Longrightarrow> unreserved (hex_char n)"
  by (simp add: hex_char_def unreserved_def is_digit_def py_alpha_def Let_def)

lemma utf8_range: "b \<in> set (utf8_bytes c) \<Longrightarrow> b < 256"
proof -
  have n: "of_char c < (256 :: nat)" by simp
  then have "of_char c div 64 < (4 :: nat)" by (intro less_mult_imp_div_less) simp
  then show "b \<in> set (utf8_bytes c) \<Longrightarrow> b < 256"
    using n mod_less_divisor [of 64 "of_char c :: nat"] by (auto simp: utf8_bytes_def Let_def split: if_splits)
qed

lemma py_quote_chars: "list_all (\<lambda>c. unreserved c \<or> c = CHR ''%'') (py_quote s)"
proof -
  have "list_all (\<lambda>c. unreserved c \<or> c = CHR ''%'') (quote_char c)" for c
    using hex_char_range utf8_range [of _ c] by (auto simp: quote_char_def list_all_iff less_mult_imp_div_less)
  then show ?thesis by (auto simp: py_quote_def list_all_iff)
qed

section \<open>Subscriptions\<close>

lemma push_error_None: "push_error r e = None \<longleftrightarrow> r = Push_Ok"
  by (cases r) (auto simp: push_error_def)

lemma push_Ok [simp]: "push_error Push_Ok e = None" "\<not> push_gone Push_Ok e"
  by (simp_all add: push_error_def push_gone_def)

lemma push_all_errors: "fst (push_all push sbs stored) = [] \<longleftrightarrow> (\<forall>sb \<in> set sbs. push sb = Push_Ok)"
  by (induction sbs arbitrary: stored) (auto simp: Let_def split_def push_error_None split: option.splits)

lemma push_all_stored:
  "snd (push_all push sbs stored)
   = filter (\<lambda>x. \<not> (\<exists>sb \<in> set sbs. push_gone (push sb) (sb_endpoint sb) \<and> sb_endpoint sb = sb_endpoint x)) stored"
  by (induction sbs arbitrary: stored) (auto simp: Let_def split_def intro!: filter_cong)

section \<open>The specification of the cooldowns\<close>

text \<open>
  The specification remembers every event sent, newest first: an event goes out when it is
  severe enough, its cooldown is not zero and everything sent under its key is at least the
  cooldown old.
\<close>

interpretation sent: fire_memory map_of "\<lambda>key now. dict_set key now"
  by unfold_locales simp

definition spec_send :: "notify_config \<Rightarrow> rat \<Rightarrow> note_event \<Rightarrow> string entry list \<Rightarrow> bool res" where
  "spec_send cfg now ev es =
     (if \<not> severe_enough cfg ev then Inr False
      else map_sum id (\<lambda>c. c \<noteq> 0 \<and> list_all (\<lambda>t. of_int c \<le> fl (now - t)) (times_of (severity_key ev) es))
             (effective_cooldown cfg ev))"

fun spec_dispatch :: "notify_config \<Rightarrow> string \<Rightarrow> 'c list \<Rightarrow> (rat \<times> note_event) list \<Rightarrow> string entry list \<Rightarrow> ('c \<times> payload) list \<times> py_error option" where
  "spec_dispatch cfg utc_now chans [] es = ([], None)"
| "spec_dispatch cfg utc_now chans ((now, ev) # evs) es =
     (case spec_send cfg now ev es of
        Inl e \<Rightarrow> ([], Some e)
      | Inr False \<Rightarrow> spec_dispatch cfg utc_now chans evs es
      | Inr True \<Rightarrow>
          (let (out, err) = spec_dispatch cfg utc_now chans evs ((now, severity_key ev) # es)
           in (map (\<lambda>c. (c, build_payload utc_now ev)) chans @ out, err)))"

lemma should_send_spec:
  assumes "sent.remembers tr es"
  shows "should_send cfg now ev tr =
    map_sum id (\<lambda>b. (b, if b then dict_set (severity_key ev) now tr else tr)) (spec_send cfg now ev es)"
proof -
  define m where "m = map_of tr (severity_key ev)"
  have n: "list_all (\<lambda>t. of_int c \<le> fl (now - t)) (times_of (severity_key ev) es)
      \<longleftrightarrow> \<not> (case m of None \<Rightarrow> False | Some t \<Rightarrow> fl (now - t) < of_int c)" for c
    unfolding newest_rested [OF sent.remembersD [OF assms]] m_def by (simp add: not_less split: option.split)
  show ?thesis
    unfolding should_send_def spec_send_def n m_def [symmetric]
    by (cases "effective_cooldown cfg ev") auto
qed

lemma dispatch_events_refines:
  assumes "sent.remembers tr es" and "ascending t evs" and "\<And>e. e \<in> set es \<Longrightarrow> fst e \<le> t"
  shows "(fst (dispatch_events cfg utc_now chans evs tr), snd (snd (dispatch_events cfg utc_now chans evs tr)))
    = spec_dispatch cfg utc_now chans evs es"
  using assms
proof (induction evs arbitrary: t tr es)
  case (Cons ne evs)
  obtain now ev where ne: "ne = (now, ev)" by (cases ne)
  with Cons.prems have asc: "t \<le> now" "ascending now evs" by simp_all
  have old: "fst e \<le> now" if "e \<in> set es" for e using Cons.prems(3) [OF that] asc(1) by simp
  have later: "sent.remembers (dict_set (severity_key ev) now tr) ((now, severity_key ev) # es)"
    by (rule sent.remembers_store [OF Cons.prems(1) old])
  have new: "fst e \<le> now" if "e \<in> set ((now, severity_key ev) # es)" for e
    using that old by (metis fst_conv order_refl set_ConsD)
  note step = should_send_spec [OF Cons.prems(1), of cfg now ev]
  note no = Cons.IH [OF Cons.prems(1) asc(2) old] and yes = Cons.IH [OF later asc(2) new]
  show ?case
  proof (cases "spec_send cfg now ev es")
    case (Inl e)
    then show ?thesis by (simp add: ne step)
  next
    case (Inr b)
    then show ?thesis
      using no yes [symmetric] by (cases b) (simp_all add: ne step Let_def split_def)
  qed
qed simp

lemma effective_cooldown_Inf:
  "map_of (cooldown_overrides cfg) (severity_key ev) = Some (PFloat Inf) \<Longrightarrow> py_int (nc_cooldown cfg) = Inr n
    \<Longrightarrow> effective_cooldown cfg ev = Inl OverflowError"
  by (simp add: effective_cooldown_def coerce_cooldown_def)

section \<open>Properties\<close>

text \<open>
  C12. The dispatcher keeps one clock reading per event type and severity, yet sends exactly
  what the specification that remembers every message sends: for events judged at clock
  readings that never run backwards, an event reaches every channel if and only if it is severe
  enough, its cooldown (the override for its type and severity, else for its type, else the
  default) is not zero, and every earlier message of the same type and severity is at least
  the cooldown old; errors end both at the same event.
\<close>

theorem dispatch_refines_cooldowns:
  assumes "ascending t evs" and "chans \<noteq> []"
  shows "(fst (dispatch cfg utc_now chans evs []), snd (snd (dispatch cfg utc_now chans evs []))) = spec_dispatch cfg utc_now chans evs []"
  using dispatch_events_refines [of "[]" "[]" t evs] assms by (simp add: dispatch_def sent.remembers_Nil)

definition sample_event :: "string \<Rightarrow> note_event" where
  "sample_event sev = \<lparr>ne_timestamp = None, ne_severity = Some sev, ne_type = Some ''error_spike'',
     ne_message = Some ''errors'', ne_details = Some [(''delta'', Scalar (PInt 5))]\<rparr>"

definition sample_notify :: notify_config where
  "sample_notify = \<lparr>nc_min_severity = ''warning'', nc_cooldown = PInt 3600,
     nc_overrides = Json_Object [(''error_spike:critical'', PFloat Inf)]\<rparr>"

theorem dispatch_refines_cooldowns_witness:
  "(fst (dispatch sample_notify ''now'' [1::nat] [(0, sample_event ''warning''), (60, sample_event ''warning'')] []),
    snd (snd (dispatch sample_notify ''now'' [1::nat] [(0, sample_event ''warning''), (60, sample_event ''warning'')] [])))
   = spec_dispatch sample_notify ''now'' [1] [(0, sample_event ''warning''), (60, sample_event ''warning'')] []"
  by (rule dispatch_refines_cooldowns [of 0]) simp_all

text \<open>
  Whatever an event carries, its Discord embed stays within the limits of the service: the
  title, the description, the number of fields, each name and value and the total of all
  characters; and the fields are the first details of the event, in their order.
\<close>

theorem discord_embed_bounds:
  "length (em_title (format_embed sf p)) \<le> 256 \<and> length (em_description (format_embed sf p)) \<le> 4096
   \<and> length (em_fields (format_embed sf p)) \<le> 25
   \<and> list_all (\<lambda>f. length (ef_name f) \<le> 256 \<and> length (ef_value f) \<le> 1024) (em_fields (format_embed sf p))
   \<and> length (em_title (format_embed sf p)) + length (em_description (format_embed sf p))
      + length (em_footer (format_embed sf p)) + field_chars (em_fields (format_embed sf p)) \<le> 6000
   \<and> (\<exists>k. em_fields (format_embed sf p) = map (field_of sf) (take k (pl_details p)))"
proof -
  define e where "e = format_embed sf p"
  define base where "base = length (em_title e) + length (em_description e) + length (em_footer e)"
  have lens: "length (em_title e) \<le> 256" "length (em_description e) \<le> 4096" "length (em_footer e) = 8"
    by (simp_all add: e_def format_embed_def Let_def discord_limits)
  have fs: "em_fields e = embed_fields sf base [] (pl_details p)"
    by (simp add: e_def base_def format_embed_def Let_def)
  obtain k where k: "em_fields e = map (field_of sf) (take k (pl_details p))"
    using embed_fields_prefix [of sf base "[]"] fs by auto
  have "base \<le> DISCORD_TOTAL_MAX" using lens by (simp add: base_def discord_limits)
  then have "base + field_chars (em_fields e) \<le> 6000" "length (em_fields e) \<le> 25"
    using embed_fields_total [of base "[]" base sf "pl_details p"] by (simp_all add: fs field_chars_def discord_limits)
  moreover have "list_all (\<lambda>f. length (ef_name f) \<le> 256 \<and> length (ef_value f) \<le> 1024) (em_fields e)"
    using embed_field_limits [of _ sf] unfolding k list_all_iff discord_limits by blast
  ultimately show ?thesis using lens k unfolding base_def e_def [symmetric] by auto
qed

text \<open>
  A cooldown override of the JSON number \<^verbatim>\<open>1e999\<close>, which the parser reads as infinity, is
  not replaced by the default: \<^verbatim>\<open>int\<close> raises \<^verbatim>\<open>OverflowError\<close>, which the guard does not catch, so
  the dispatch ends and no later event of the batch reaches any channel.
\<close>

theorem infinite_override_aborts_dispatch:
  assumes "severe_enough cfg ev" and "map_of (cooldown_overrides cfg) (severity_key ev) = Some (PFloat Inf)"
    and "py_int (nc_cooldown cfg) = Inr n"
  shows "dispatch cfg utc_now chans ((now, ev) # evs) tr = ([], tr, if chans = [] then None else Some OverflowError)"
  using effective_cooldown_Inf [OF assms(2,3)] assms(1) by (simp add: dispatch_def should_send_def)

theorem infinite_override_aborts_dispatch_witness:
  "dispatch sample_notify ''now'' [1::nat] [(0, sample_event ''critical''), (1, sample_event ''warning'')] []
   = ([], [], if [1::nat] = [] then None else Some OverflowError)"
  by (rule infinite_override_aborts_dispatch [of _ _ 3600])
    (code_simp, code_simp, simp add: sample_notify_def)

text \<open>
  An Apprise configuration key, whatever characters it has, stays one segment of the path:
  what follows \<^verbatim>\<open>/notify/\<close> consists of unreserved characters and percent escapes, so that it
  never adds a segment, a query or a fragment.
\<close>

theorem apprise_key_one_segment:
  assumes "py_strip key \<noteq> []"
  shows "\<exists>seg. notify_url base key = rstrip_slash base @ ''/notify/'' @ seg
    \<and> list_all (\<lambda>c. unreserved c \<or> c = CHR ''%'') seg \<and> set seg \<inter> {CHR ''/'', CHR ''?'', CHR ''#''} = {}"
proof -
  have "\<not> unreserved c \<and> c \<noteq> CHR ''%''" if "c \<in> {CHR ''/'', CHR ''?'', CHR ''#''}" for c
    using that by (auto simp: unreserved_def is_digit_def py_alpha_def)
  moreover note q = py_quote_chars [of "py_strip key"]
  ultimately have "set (py_quote (py_strip key)) \<inter> {CHR ''/'', CHR ''?'', CHR ''#''} = {}"
    unfolding list_all_iff by blast
  with q assms show ?thesis by (intro exI [of _ "py_quote (py_strip key)"]) (simp add: notify_url_def)
qed

theorem apprise_key_one_segment_witness:
  "\<exists>seg. notify_url ''http://a/'' ''x/../y?z'' = rstrip_slash ''http://a/'' @ ''/notify/'' @ seg
    \<and> list_all (\<lambda>c. unreserved c \<or> c = CHR ''%'') seg \<and> set seg \<inter> {CHR ''/'', CHR ''?'', CHR ''#''} = {}"
  by (rule apprise_key_one_segment) code_simp

text \<open>
  Web Push reports success exactly when the service accepted the message for every stored
  subscription, and afterwards the store lacks exactly the subscriptions whose endpoint the
  service called gone (404 or 410); every other failure keeps the subscription.
\<close>

theorem web_push_drops_gone:
  assumes "stored \<noteq> []" and "py_strip private_key \<noteq> []"
  shows "fst (web_push_send True push private_key stored) = (\<forall>sb \<in> set stored. push sb = Push_Ok)
    \<and> snd (snd (web_push_send True push private_key stored))
      = filter (\<lambda>x. \<not> (\<exists>sb \<in> set stored. push_gone (push sb) (sb_endpoint sb) \<and> sb_endpoint sb = sb_endpoint x)) stored"
  unfolding push_all_errors [of push stored stored, symmetric] push_all_stored [of push stored stored, symmetric]
  using assms by (simp add: web_push_send_def split_def Let_def)

theorem web_push_drops_gone_witness:
  "let stored = [\<lparr>sb_endpoint = ''a'', sb_info = []\<rparr>, \<lparr>sb_endpoint = ''b'', sb_info = []\<rparr>];
       push = (\<lambda>sb. if sb_endpoint sb = ''a'' then Push_Refused (Some 410) else Push_Ok)
   in fst (web_push_send True push ''key'' stored) = (\<forall>sb \<in> set stored. push sb = Push_Ok)
    \<and> snd (snd (web_push_send True push ''key'' stored))
      = filter (\<lambda>x. \<not> (\<exists>sb \<in> set stored. push_gone (push sb) (sb_endpoint sb) \<and> sb_endpoint sb = sb_endpoint x)) stored"
  unfolding Let_def by (rule web_push_drops_gone) (simp, code_simp)

end
