(* ===== verification/Guardrails.thy ===== *)
theory Guardrails
  imports Docsis_Utils Cooldowns
begin

text \<open>
  \<^verbatim>\<open>app/smart_capture/types.py\<close>, \<^verbatim>\<open>sub_filters.py\<close> and \<^verbatim>\<open>guardrails.py\<close>: which events a trigger
  matches, the per-trigger filters, and the chain of flapping protection, cooldowns and the
  hourly limit.  Clock readings are rationals and their differences round as floats; a
  cooldown that never fired (\<^verbatim>\<open>-inf\<close>) is \<open>None\<close>.  Limits are the integers \<^verbatim>\<open>int(...)\<close> reads from
  the configuration.
\<close>

section \<open>Events and triggers\<close>

record qam_change =
  qc_direction :: string
  qc_current_rank :: nat

record cap_event =
  ce_id :: "int option"
  ce_time :: "string option"
  ce_message :: message
  ce_type :: string
  ce_severity :: "string option"
  ce_fields :: "string \<Rightarrow> pyval"
  ce_changes :: "qam_change list"
  ce_delta :: int
  ce_loss :: f64
  ce_stamp :: "rat option"

definition SEVERITY_RANK :: "(string \<times> nat) list" where
  "SEVERITY_RANK = [(''info'', 0), (''warning'', 1), (''critical'', 2)]"

datatype sub_filter = No_Filter | Modulation_Filter | Snr_Filter | Error_Spike_Filter | Health_Filter | Packet_Loss_Filter

record trigger =
  tr_event_type :: string
  tr_config_key :: "string option"
  tr_min_severity :: "string option"
  tr_require :: "(string \<times> pyval) list"
  tr_filter :: sub_filter

text \<open>Equality of scalars: \<^verbatim>\<open>True == 1 == 1.0\<close>.\<close>

fun numeric :: "pyval \<Rightarrow> f64 option" where
  "numeric (PBool b) = Some (Fin (of_bool b))"
| "numeric (PInt n) = Some (Fin (of_int n))"
| "numeric (PFloat x) = Some x"
| "numeric _ = None"

definition py_eq :: "pyval \<Rightarrow> pyval \<Rightarrow> bool" where
  "py_eq a b = (case (numeric a, numeric b) of (Some x, Some y) \<Rightarrow> f_eq x y | _ \<Rightarrow> a = b)"

definition matches :: "trigger \<Rightarrow> cap_event \<Rightarrow> bool" where
  "matches t ev =
     (ce_type ev = tr_event_type t
      \<and> (text_of (tr_min_severity t) = []
         \<or> dict_get SEVERITY_RANK (text_of (tr_min_severity t)) 0
             \<le> dict_get SEVERITY_RANK (case ce_severity ev of None \<Rightarrow> ''info'' | Some s \<Rightarrow> s) 0)
      \<and> list_all (\<lambda>(k, v). py_eq (ce_fields ev k) v) (tr_require t))"

section \<open>Sub-filters\<close>

record filter_config =
  fc_direction :: string
  fc_min_qam :: string
  fc_min_delta :: int
  fc_health_level :: string
  fc_min_loss :: pyval

definition modulation_sub_filter :: "filter_config \<Rightarrow> cap_event \<Rightarrow> bool" where
  "modulation_sub_filter cfg ev =
     (ce_changes ev = [] \<or>
      (let min_rank = (if fc_min_qam cfg = [] then 0 else qam_rank (Some (fc_min_qam cfg)))
       in list_ex (\<lambda>c. (fc_direction cfg = ''both'' \<or> py_upper (qc_direction c) = py_upper (fc_direction cfg))
            \<and> (min_rank = 0 \<or> qc_current_rank c \<le> min_rank)) (ce_changes ev)))"

definition error_spike_sub_filter :: "filter_config \<Rightarrow> cap_event \<Rightarrow> bool" where
  "error_spike_sub_filter cfg ev = (fc_min_delta cfg \<le> 0 \<or> fc_min_delta cfg \<le> ce_delta ev)"

definition health_sub_filter :: "filter_config \<Rightarrow> cap_event \<Rightarrow> bool" where
  "health_sub_filter cfg ev = (fc_health_level cfg = ''any_degradation'' \<or> py_eq (ce_fields ev ''current'') (PStr ''critical''))"

definition packet_loss_sub_filter :: "filter_config \<Rightarrow> cap_event \<Rightarrow> bool res" where
  "packet_loss_sub_filter cfg ev =
     map_sum id (\<lambda>m. f_le m (ce_loss ev)) (catch_type_value (py_float (fc_min_loss cfg)) (Fin 5))"

definition apply_sub_filter :: "sub_filter \<Rightarrow> filter_config \<Rightarrow> cap_event \<Rightarrow> bool res" where
  "apply_sub_filter f cfg ev =
     (case f of
        Modulation_Filter \<Rightarrow> Inr (modulation_sub_filter cfg ev)
      | Error_Spike_Filter \<Rightarrow> Inr (error_spike_sub_filter cfg ev)
      | Health_Filter \<Rightarrow> Inr (health_sub_filter cfg ev)
      | Packet_Loss_Filter \<Rightarrow> packet_loss_sub_filter cfg ev
      | _ \<Rightarrow> Inr True)"

section \<open>The chain\<close>

record guard_config =
  gc_global_cooldown :: int
  gc_flapping_window :: int
  gc_flapping_threshold :: int
  gc_trigger_cooldown :: int
  gc_max_per_hour :: int

record guardrails =
  last_global_fire :: "rat option"
  last_trigger_fire :: "(string \<times> rat) list"
  hourly_fires :: "rat list"
  match_history :: "(string \<times> rat list) list"

definition init_guardrails :: guardrails where
  "init_guardrails = \<lparr>last_global_fire = None, last_trigger_fire = [], hourly_fires = [], match_history = []\<rparr>"

definition cooling :: "int \<Rightarrow> rat option \<Rightarrow> rat \<Rightarrow> bool" where
  "cooling cd prev_fire now = (0 < cd \<and> (case prev_fire of None \<Rightarrow> False | Some t \<Rightarrow> fl (now - t) < of_int cd))"

definition remaining :: "int \<Rightarrow> rat option \<Rightarrow> rat \<Rightarrow> int" where
  "remaining cd prev_fire now = (case prev_fire of None \<Rightarrow> cd | Some t \<Rightarrow> trunc_rat (fl (fl (of_int cd) - fl (now - t))))"

record 'e verdict =
  vd_trigger :: trigger
  vd_event :: 'e
  vd_allowed :: bool
  vd_reason :: "message option"

definition blocked :: "trigger \<times> 'e \<Rightarrow> message \<Rightarrow> 'e verdict" where
  "blocked te reason = \<lparr>vd_trigger = fst te, vd_event = snd te, vd_allowed = False, vd_reason = Some reason\<rparr>"

definition allowed :: "trigger \<times> 'e \<Rightarrow> 'e verdict" where
  "allowed te = \<lparr>vd_trigger = fst te, vd_event = snd te, vd_allowed = True, vd_reason = None\<rparr>"

definition record_match :: "guard_config \<Rightarrow> rat \<Rightarrow> string \<Rightarrow> guardrails \<Rightarrow> guardrails" where
  "record_match cfg now key g =
     g\<lparr>match_history := dict_set key
       (filter (\<lambda>t. fl (now - t) < of_int (gc_flapping_window cfg)) (dict_get (match_history g) key []) @ [now])
       (match_history g)\<rparr>"

definition check_one ::
  "guard_config \<Rightarrow> rat \<Rightarrow> bool \<Rightarrow> message \<Rightarrow> trigger \<times> 'e \<Rightarrow> guardrails \<Rightarrow> 'e verdict \<times> guardrails" where
  "check_one cfg now global_blocked global_reason te g =
     (let key = tr_event_type (fst te);
          g1 = record_match cfg now key g;
          history = dict_get (match_history g1) key [];
          last_fire = map_of (last_trigger_fire g1) key
      in if 0 < gc_flapping_threshold cfg \<and> gc_flapping_threshold cfg < int (length history)
         then (blocked te (Msg ''flapping: {len(history)} matches in {window}s for {trigger_key}''
                 [PInt (int (length history)), PInt (gc_flapping_window cfg), PStr key]), g1)
         else if global_blocked then (blocked te global_reason, g1)
         else if cooling (gc_trigger_cooldown cfg) last_fire now
         then (blocked te (Msg ''trigger_cooldown: {remaining}s remaining for {trigger_key}''
                 [PInt (remaining (gc_trigger_cooldown cfg) last_fire now), PStr key]), g1)
         else (let recent = filter (\<lambda>t. fl (now - 3600) < t) (hourly_fires g1);
                   g2 = g1\<lparr>hourly_fires := recent\<rparr> in
           if 0 < gc_max_per_hour cfg \<and> gc_max_per_hour cfg \<le> int (length recent)
           then (blocked te (Msg ''max_actions_per_hour: {len(hourly_fires)}/{max_per_hour} used''
                   [PInt (int (length recent)), PInt (gc_max_per_hour cfg)]), g2)
           else (allowed te, g2\<lparr>last_trigger_fire := dict_set key now (last_trigger_fire g2),
                   hourly_fires := recent @ [now]\<rparr>)))"

fun check_each ::
  "guard_config \<Rightarrow> rat \<Rightarrow> bool \<Rightarrow> message \<Rightarrow> (trigger \<times> 'e) list \<Rightarrow> guardrails \<Rightarrow> 'e verdict list \<times> guardrails" where
  "check_each cfg now gb gr [] g = ([], g)"
| "check_each cfg now gb gr (te # tes) g =
     (let (v, g1) = check_one cfg now gb gr te g; (vs, g2) = check_each cfg now gb gr tes g1 in (v # vs, g2))"

definition check_batch :: "guard_config \<Rightarrow> rat \<Rightarrow> (trigger \<times> 'e) list \<Rightarrow> guardrails \<Rightarrow> 'e verdict list \<times> guardrails" where
  "check_batch cfg now trigger_results g =
     (if trigger_results = [] then ([], g)
      else (let global_blocked = cooling (gc_global_cooldown cfg) (last_global_fire g) now;
                reason = Msg ''global_cooldown: {remaining}s remaining''
                  [PInt (remaining (gc_global_cooldown cfg) (last_global_fire g) now)];
                (vs, g1) = check_each cfg now global_blocked reason trigger_results g
            in (vs, if list_ex vd_allowed vs then g1\<lparr>last_global_fire := Some now\<rparr> else g1)))"

section \<open>A batch keeps its entries\<close>

lemma check_one_entry: "(vd_trigger (fst (check_one cfg now gb gr te g)), vd_event (fst (check_one cfg now gb gr te g))) = te"
  by (simp add: check_one_def blocked_def allowed_def Let_def)

lemma check_each_entries: "map (\<lambda>v. (vd_trigger v, vd_event v)) (fst (check_each cfg now gb gr tes g)) = tes"
  by (induction tes arbitrary: g) (simp_all add: check_one_entry case_prod_beta Let_def)

lemma check_one_reason: "vd_allowed (fst (check_one cfg now gb gr te g)) \<longleftrightarrow> vd_reason (fst (check_one cfg now gb gr te g)) = None"
  by (simp add: check_one_def blocked_def allowed_def Let_def)

lemma check_each_reason: "v \<in> set (fst (check_each cfg now gb gr tes g)) \<Longrightarrow> vd_allowed v \<longleftrightarrow> vd_reason v = None"
  by (induction tes arbitrary: g) (auto simp: check_one_reason case_prod_beta Let_def)

section \<open>Sliding windows\<close>

definition flap_keep :: "guard_config \<Rightarrow> rat \<Rightarrow> rat \<Rightarrow> bool" where
  "flap_keep cfg now t = (fl (now - t) < of_int (gc_flapping_window cfg))"

definition hour_keep :: "rat \<Rightarrow> rat \<Rightarrow> bool" where
  "hour_keep now t = (fl (now - 3600) < t)"

interpretation flap: sliding_window "flap_keep cfg"
proof
  show "flap_keep cfg now t" if "flap_keep cfg now' t" "now \<le> now'" for now now' t
    using that fl_mono [of "now - t" "now' - t"] by (simp add: flap_keep_def)
qed

interpretation hour: sliding_window hour_keep
proof
  show "hour_keep now t" if "hour_keep now' t" "now \<le> now'" for now now' t
    using that fl_mono [of "now - 3600" "now' - 3600"] by (simp add: hour_keep_def)
qed

section \<open>Cooldowns\<close>

interpretation fires: fire_memory map_of "\<lambda>key now. dict_set key now"
  by unfold_locales simp

lemma newest_cooling:
  assumes "newest_of m ts"
  shows "\<not> cooling cd m now \<longleftrightarrow> cd \<le> 0 \<or> list_all (\<lambda>t. of_int cd \<le> fl (now - t)) ts"
  unfolding newest_rested [OF assms] by (auto simp: cooling_def split: option.splits)

section \<open>The abstract chain\<close>

text \<open>
  The specification keeps every match and every fire ever seen, newest first, and states each
  guard as a condition on them: fewer than the threshold of earlier matches of the key in the
  flapping window, every fire of an earlier batch at least the global cooldown old, every fire
  of the key at least its cooldown old, and fewer fires than the limit in the last hour.
\<close>

record guard_log =
  lg_matches :: "string entry list"
  lg_fires :: "string entry list"

definition not_flapping :: "guard_config \<Rightarrow> rat \<Rightarrow> string \<Rightarrow> string entry list \<Rightarrow> bool" where
  "not_flapping cfg now key ms \<longleftrightarrow> gc_flapping_threshold cfg \<le> 0
     \<or> int (length (filter (flap_keep cfg now) (times_of key ms))) < gc_flapping_threshold cfg"

definition rested :: "int \<Rightarrow> rat \<Rightarrow> rat list \<Rightarrow> bool" where
  "rested cd now ts \<longleftrightarrow> cd \<le> 0 \<or> list_all (\<lambda>t. of_int cd \<le> fl (now - t)) ts"

definition under_limit :: "guard_config \<Rightarrow> rat \<Rightarrow> rat list \<Rightarrow> bool" where
  "under_limit cfg now ts \<longleftrightarrow> gc_max_per_hour cfg \<le> 0
     \<or> int (length (filter (hour_keep now) ts)) < gc_max_per_hour cfg"

definition may_fire :: "guard_config \<Rightarrow> rat \<Rightarrow> string entry list \<Rightarrow> string \<Rightarrow> guard_log \<Rightarrow> bool" where
  "may_fire cfg now before key l \<longleftrightarrow>
     not_flapping cfg now key (lg_matches l)
     \<and> rested (gc_global_cooldown cfg) now (times before)
     \<and> rested (gc_trigger_cooldown cfg) now (times_of key (lg_fires l))
     \<and> under_limit cfg now (times (lg_fires l))"

definition log_one :: "guard_config \<Rightarrow> rat \<Rightarrow> string entry list \<Rightarrow> string \<Rightarrow> guard_log \<Rightarrow> bool \<times> guard_log" where
  "log_one cfg now before key l =
     (may_fire cfg now before key l,
      \<lparr>lg_matches = (now, key) # lg_matches l,
       lg_fires = (if may_fire cfg now before key l then (now, key) # lg_fires l else lg_fires l)\<rparr>)"

fun log_each :: "guard_config \<Rightarrow> rat \<Rightarrow> string entry list \<Rightarrow> string list \<Rightarrow> guard_log \<Rightarrow> bool list \<times> guard_log" where
  "log_each cfg now before [] l = ([], l)"
| "log_each cfg now before (k # ks) l =
     (let (a, l1) = log_one cfg now before k l; (as, l2) = log_each cfg now before ks l1 in (a # as, l2))"

fun log_run :: "guard_config \<Rightarrow> (rat \<times> (trigger \<times> 'e) list) list \<Rightarrow> guard_log \<Rightarrow> bool list list \<times> guard_log" where
  "log_run cfg [] l = ([], l)"
| "log_run cfg ((now, b) # bs) l =
     (let (as, l1) = log_each cfg now (lg_fires l) (map (tr_event_type \<circ> fst) b) l; (ass, l2) = log_run cfg bs l1
      in (as # ass, l2))"

fun guard_run :: "guard_config \<Rightarrow> (rat \<times> (trigger \<times> 'e) list) list \<Rightarrow> guardrails \<Rightarrow> 'e verdict list list \<times> guardrails" where
  "guard_run cfg [] g = ([], g)"
| "guard_run cfg ((now, b) # bs) g =
     (let (vs, g1) = check_batch cfg now b g; (vss, g2) = guard_run cfg bs g1 in (vs # vss, g2))"

text \<open>The pruned state stands for the log.\<close>

definition stands_for :: "guard_config \<Rightarrow> rat \<Rightarrow> guardrails \<Rightarrow> guard_log \<Rightarrow> bool" where
  "stands_for cfg now g l \<longleftrightarrow>
     (\<forall>key. flap.tracks cfg now (dict_get (match_history g) key []) (times_of key (lg_matches l)))
     \<and> hour.tracks now (hourly_fires g) (times (lg_fires l))
     \<and> fires.remembers (last_trigger_fire g) (lg_fires l)
     \<and> (\<forall>e \<in> set (lg_fires l). fst e \<le> now)"

lemmas stands_forD = stands_for_def [THEN iffD1, THEN conjunct1, rule_format]
  stands_for_def [THEN iffD1, THEN conjunct2, THEN conjunct1]
  stands_for_def [THEN iffD1, THEN conjunct2, THEN conjunct2, THEN conjunct1]
  stands_for_def [THEN iffD1, THEN conjunct2, THEN conjunct2, THEN conjunct2, rule_format]

lemma stands_for_later: "stands_for cfg now g l \<Longrightarrow> now \<le> now' \<Longrightarrow> stands_for cfg now' g l"
  unfolding stands_for_def by (meson flap.tracks_later hour.tracks_later order_trans)

lemma dict_get_set: "dict_get (dict_set k v d) k' x = (if k' = k then v else dict_get d k' x)"
  by (simp add: dict_get_def)

lemma record_match_stands:
  assumes "stands_for cfg now g l"
  shows "stands_for cfg now (record_match cfg now key g) (l\<lparr>lg_matches := (now, key) # lg_matches l\<rparr>)"
proof -
  have "flap.tracks cfg now (dict_get (match_history (record_match cfg now key g)) k [])
      (times_of k ((now, key) # lg_matches l))" for k
    using stands_forD(1) [OF assms, of k]
    by (auto simp: record_match_def dict_get_set flap_keep_def [symmetric] flap.tracks_prune intro!: flap.tracks_add)
  then show ?thesis using assms by (simp add: stands_for_def record_match_def)
qed

lemma record_match_length:
  assumes "stands_for cfg now g l"
  shows "length (dict_get (match_history (record_match cfg now key g)) key [])
    = Suc (length (filter (flap_keep cfg now) (times_of key (lg_matches l))))"
  using flap.tracks_count [OF stands_forD(1) [OF assms]]
  by (simp add: record_match_def dict_get_set flap_keep_def [symmetric])

lemma fire_stands:
  assumes "stands_for cfg now g l"
  shows "stands_for cfg now
    (g\<lparr>last_trigger_fire := dict_set key now (last_trigger_fire g),
       hourly_fires := filter (hour_keep now) (hourly_fires g) @ [now]\<rparr>) (l\<lparr>lg_fires := (now, key) # lg_fires l\<rparr>)"
proof -
  have "fires.remembers (dict_set key now (last_trigger_fire g)) ((now, key) # lg_fires l)"
    using stands_forD(3,4) [OF assms] by (intro fires.remembers_store)
  then show ?thesis
    using assms by (simp add: stands_for_def hour.tracks_prune hour.tracks_add)
qed

lemma prune_stands:
  "stands_for cfg now g l \<Longrightarrow> stands_for cfg now (g\<lparr>hourly_fires := filter (hour_keep now) (hourly_fires g)\<rparr>) l"
  by (simp add: stands_for_def hour.tracks_prune)

lemma check_one_refines:
  fixes te :: "trigger \<times> 'e" and reason :: message
  assumes "stands_for cfg now g l" and "newest_of (last_global_fire g) (times before)"
  defines "r \<equiv> check_one cfg now (cooling (gc_global_cooldown cfg) (last_global_fire g) now) reason te g"
  defines "r' \<equiv> log_one cfg now before (tr_event_type (fst te)) l"
  shows "vd_allowed (fst r) = fst r' \<and> stands_for cfg now (snd r) (snd r') \<and> last_global_fire (snd r) = last_global_fire g"
proof -
  define key where "key = tr_event_type (fst te)"
  define g1 where "g1 = record_match cfg now key g"
  define l1 where "l1 = l\<lparr>lg_matches := (now, key) # lg_matches l\<rparr>"
  have s1: "stands_for cfg now g1 l1" unfolding g1_def l1_def by (rule record_match_stands [OF assms(1)])
  have keep: "last_global_fire g1 = last_global_fire g" "last_trigger_fire g1 = last_trigger_fire g"
    "hourly_fires g1 = hourly_fires g" by (simp_all add: g1_def record_match_def)
  define flap where "flap = (0 < gc_flapping_threshold cfg \<and> gc_flapping_threshold cfg < int (length (dict_get (match_history g1) key [])))"
  define recent where "recent = filter (hour_keep now) (hourly_fires g1)"
  define full where "full = (0 < gc_max_per_hour cfg \<and> gc_max_per_hour cfg \<le> int (length recent))"
  have F: "\<not> flap \<longleftrightarrow> not_flapping cfg now key (lg_matches l)"
    using record_match_length [OF assms(1), of key] by (auto simp: flap_def not_flapping_def g1_def)
  have G: "\<not> cooling (gc_global_cooldown cfg) (last_global_fire g) now \<longleftrightarrow> rested (gc_global_cooldown cfg) now (times before)"
    using newest_cooling [OF assms(2)] by (simp add: rested_def)
  have T: "\<not> cooling (gc_trigger_cooldown cfg) (map_of (last_trigger_fire g1) key) now
      \<longleftrightarrow> rested (gc_trigger_cooldown cfg) now (times_of key (lg_fires l))"
    using newest_cooling [OF fires.remembersD [OF stands_forD(3) [OF assms(1)]]] keep by (simp add: rested_def)
  have H: "\<not> full \<longleftrightarrow> under_limit cfg now (times (lg_fires l))"
    using hour.tracks_count [OF stands_forD(2) [OF assms(1)]] keep by (auto simp: full_def recent_def under_limit_def)
  have A: "may_fire cfg now before key l \<longleftrightarrow> \<not> flap \<and> \<not> cooling (gc_global_cooldown cfg) (last_global_fire g) now
      \<and> \<not> cooling (gc_trigger_cooldown cfg) (map_of (last_trigger_fire g1) key) now \<and> \<not> full"
    unfolding may_fire_def F G T H by simp
  have R: "vd_allowed (fst r) = may_fire cfg now before key l"
    "snd r = (if may_fire cfg now before key l
        then g1\<lparr>last_trigger_fire := dict_set key now (last_trigger_fire g1), hourly_fires := recent @ [now]\<rparr>
        else if flap \<or> cooling (gc_global_cooldown cfg) (last_global_fire g) now
          \<or> cooling (gc_trigger_cooldown cfg) (map_of (last_trigger_fire g1) key) now then g1
        else g1\<lparr>hourly_fires := recent\<rparr>)"
    unfolding A r_def check_one_def Let_def key_def [symmetric] g1_def [symmetric] hour_keep_def [symmetric]
      recent_def [symmetric] flap_def [symmetric] full_def [symmetric]
    by (simp_all add: blocked_def allowed_def)
  have R': "fst r' = may_fire cfg now before key l"
    "snd r' = (if may_fire cfg now before key l then l1\<lparr>lg_fires := (now, key) # lg_fires l1\<rparr> else l1)"
    by (simp_all add: r'_def log_one_def key_def l1_def)
  show ?thesis
    unfolding R R' using s1 fire_stands [OF s1, of key] prune_stands [OF s1] keep
    by (simp add: recent_def)
qed

lemma check_each_refines:
  fixes tes :: "(trigger \<times> 'e) list" and reason :: message
  assumes "stands_for cfg now g l" and "newest_of m (times before)" and "last_global_fire g = m"
  defines "r \<equiv> check_each cfg now (cooling (gc_global_cooldown cfg) m now) reason tes g"
  defines "r' \<equiv> log_each cfg now before (map (tr_event_type \<circ> fst) tes) l"
  shows "map vd_allowed (fst r) = fst r' \<and> stands_for cfg now (snd r) (snd r') \<and> last_global_fire (snd r) = m"
  unfolding r_def r'_def using assms(1,3)
proof (induction tes arbitrary: g l)
  case (Cons te tes)
  note one = check_one_refines [OF Cons.prems(1), of before reason te, unfolded Cons.prems(2), OF assms(2)]
  show ?case
    using one Cons.IH [of "snd (check_one cfg now (cooling (gc_global_cooldown cfg) m now) reason te g)"
        "snd (log_one cfg now before (tr_event_type (fst te)) l)"]
    by (simp add: split_def Let_def)
qed simp

lemma log_each_times:
  "times (lg_fires (snd (log_each cfg now before ks l)))
   = replicate (length (filter id (fst (log_each cfg now before ks l)))) now @ times (lg_fires l)"
  by (induction ks arbitrary: l) (simp_all add: split_def Let_def log_one_def replicate_app_Cons_same)

lemma check_batch_refines:
  fixes tes :: "(trigger \<times> 'e) list"
  assumes "stands_for cfg now g l" and "newest_of (last_global_fire g) (times (lg_fires l))"
  defines "r \<equiv> check_batch cfg now tes g"
  defines "r' \<equiv> log_each cfg now (lg_fires l) (map (tr_event_type \<circ> fst) tes) l"
  shows "map vd_allowed (fst r) = fst r' \<and> stands_for cfg now (snd r) (snd r')
    \<and> newest_of (last_global_fire (snd r)) (times (lg_fires (snd r')))"
proof (cases tes)
  case Nil
  with assms show ?thesis by (simp add: check_batch_def)
next
  case (Cons te tes')
  define reason where "reason = Msg ''global_cooldown: {remaining}s remaining''
    [PInt (remaining (gc_global_cooldown cfg) (last_global_fire g) now)]"
  define e where "e = check_each cfg now (cooling (gc_global_cooldown cfg) (last_global_fire g) now) reason tes g"
  define ks where "ks = map (tr_event_type \<circ> fst) tes"
  have e: "map vd_allowed (fst e) = fst r'" "stands_for cfg now (snd e) (snd r')" "last_global_fire (snd e) = last_global_fire g"
    using check_each_refines [OF assms(1,2) refl, of reason tes] by (simp_all add: e_def r'_def)
  have r: "r = (fst e, if list_ex vd_allowed (fst e) then (snd e)\<lparr>last_global_fire := Some now\<rparr> else snd e)"
    unfolding r_def check_batch_def by (simp add: Cons e_def reason_def split_def Let_def)
  have fires: "times (lg_fires (snd r')) = replicate (length (filter id (fst r'))) now @ times (lg_fires l)"
    unfolding r'_def by (rule log_each_times)
  have any: "list_ex vd_allowed (fst e) \<longleftrightarrow> filter id (fst r') \<noteq> []"
    unfolding e(1) [symmetric] by (auto simp: list_ex_iff filter_empty_conv)
  have "stands_for cfg now (snd r) (snd r')"
    using e(2) by (simp add: r stands_for_def)
  moreover have "newest_of (last_global_fire (snd r)) (times (lg_fires (snd r')))"
  proof (cases "list_ex vd_allowed (fst e)")
    case True
    have "t \<le> now" if "t \<in> set (times (lg_fires (snd r')))" for t
      using that stands_forD(4) [OF e(2)] by auto
    with True any show ?thesis by (simp add: r newest_of_def fires)
  next
    case False
    with any show ?thesis using assms(2) e(3) by (simp add: r fires)
  qed
  ultimately show ?thesis using e(1) by (simp add: r)
qed

lemma guard_run_refines_from:
  assumes "stands_for cfg t g l" and "newest_of (last_global_fire g) (times (lg_fires l))" and "ascending t bs"
  shows "map (map vd_allowed) (fst (guard_run cfg bs g)) = fst (log_run cfg bs l)"
  using assms
proof (induction bs arbitrary: t g l)
  case (Cons nb bs)
  obtain now b where nb: "nb = (now, b)" by (cases nb)
  with Cons.prems have asc: "t \<le> now" "ascending now bs" by simp_all
  note st = check_batch_refines [OF stands_for_later [OF Cons.prems(1) asc(1)] Cons.prems(2), of b]
  show ?case
    using st Cons.IH [OF st [THEN conjunct2, THEN conjunct1] st [THEN conjunct2, THEN conjunct2] asc(2)]
    by (simp add: nb split_def Let_def)
qed simp

lemma stands_for_init: "stands_for cfg t init_guardrails \<lparr>lg_matches = [], lg_fires = []\<rparr>"
  by (simp add: stands_for_def init_guardrails_def dict_get_def flap.tracks_Nil hour.tracks_Nil fires.remembers_Nil)

section \<open>The hourly limit\<close>

text \<open>The clock readings of the fires of a run, newest first.\<close>

definition fire_times :: "(rat \<times> 'b) list \<Rightarrow> bool list list \<Rightarrow> rat list" where
  "fire_times bs ass = rev (concat (map2 (\<lambda>(now, _) as. replicate (length (filter id as)) now) bs ass))"

fun hourly_limited :: "guard_config \<Rightarrow> rat list \<Rightarrow> bool" where
  "hourly_limited cfg [] = True"
| "hourly_limited cfg (t # older) = (under_limit cfg t older \<and> hourly_limited cfg older)"

lemma log_each_limited:
  "hourly_limited cfg (times (lg_fires l)) \<Longrightarrow> hourly_limited cfg (times (lg_fires (snd (log_each cfg now before ks l))))"
  by (induction ks arbitrary: l) (simp_all add: split_def Let_def log_one_def may_fire_def)

lemma log_run_limited:
  "hourly_limited cfg (times (lg_fires l)) \<Longrightarrow> hourly_limited cfg (times (lg_fires (snd (log_run cfg bs l))))"
proof (induction bs arbitrary: l)
  case (Cons nb bs)
  then show ?case using log_each_limited by (cases nb) (simp add: split_def Let_def)
qed simp

lemma log_run_times:
  "times (lg_fires (snd (log_run cfg bs l))) = fire_times bs (fst (log_run cfg bs l)) @ times (lg_fires l)"
proof (induction bs arbitrary: l)
  case (Cons nb bs)
  then show ?case by (cases nb) (simp add: split_def Let_def fire_times_def log_each_times)
qed (simp add: fire_times_def)

section \<open>Properties\<close>

text \<open>
  C3. The guard chain of Smart Capture keeps only pruned histories, the last fires and the
  readings of the last hour, yet decides exactly as the specification that remembers every
  match and every fire: along any sequence of batches with a monotonic clock, an entry is
  allowed if and only if its key matched fewer than the threshold of times in the flapping
  window, every fire of an earlier batch is at least the global cooldown old, every fire of
  the key at least the trigger cooldown old, and the last hour holds fewer fires than the limit.
\<close>

theorem guard_chain_refines:
  assumes "ascending t bs"
  shows "map (map vd_allowed) (fst (guard_run cfg bs init_guardrails)) = fst (log_run cfg bs \<lparr>lg_matches = [], lg_fires = []\<rparr>)"
  by (rule guard_run_refines_from [OF stands_for_init _ assms]) (simp add: init_guardrails_def newest_of_def)

definition sample_trigger :: trigger where
  "sample_trigger = \<lparr>tr_event_type = ''error_spike'', tr_config_key = None, tr_min_severity = None, tr_require = [], tr_filter = No_Filter\<rparr>"

definition sample_guards :: guard_config where
  "sample_guards = \<lparr>gc_global_cooldown = 300, gc_flapping_window = 3600, gc_flapping_threshold = 3,
     gc_trigger_cooldown = 900, gc_max_per_hour = 4\<rparr>"

theorem guard_chain_refines_witness:
  "map (map vd_allowed) (fst (guard_run sample_guards [(0, [(sample_trigger, 1::nat)]), (100, [(sample_trigger, 2)])] init_guardrails))
   = fst (log_run sample_guards [(0, [(sample_trigger, 1::nat)]), (100, [(sample_trigger, 2)])] \<lparr>lg_matches = [], lg_fires = []\<rparr>)"
  by (rule guard_chain_refines [of 0]) simp

text \<open>
  However many triggers match, the chain never lets more actions through than the hourly
  limit: every allowed entry finds fewer than \<^verbatim>\<open>sc_max_actions_per_hour\<close> allowed entries in the
  hour before it.
\<close>

theorem hourly_limit_holds:
  assumes "ascending t bs"
  shows "hourly_limited cfg (fire_times bs (map (map vd_allowed) (fst (guard_run cfg bs init_guardrails))))"
  using guard_run_refines_from [OF stands_for_init _ assms, of cfg]
    log_run_limited [of cfg "\<lparr>lg_matches = [], lg_fires = []\<rparr>" bs] log_run_times [of cfg bs "\<lparr>lg_matches = [], lg_fires = []\<rparr>"]
  by (simp add: init_guardrails_def newest_of_def)

theorem hourly_limit_holds_witness:
  "hourly_limited sample_guards (fire_times [(0, [(sample_trigger, 1::nat)]), (1000, [(sample_trigger, 2::nat)])]
     (map (map vd_allowed) (fst (guard_run sample_guards [(0, [(sample_trigger, 1::nat)]), (1000, [(sample_trigger, 2)])] init_guardrails))))"
  by (rule hourly_limit_holds [of 0]) simp

end
