(* ===== verification/Execution_Store.thy ===== *)
theory Execution_Store
  imports Py_Values
begin

text \<open>
  \<^verbatim>\<open>app/storage/smart_capture.py\<close>: the table of Smart Capture executions.  Rows are listed in
  the order of insertion, so of their ids.  Stored times have the resolution of
  \<^verbatim>\<open>utc_now\<close>, one second, and compare as numbers, their text having a fixed width.
\<close>

section \<open>Rows\<close>

datatype exec_status = Pending | Fired | Completed | Suppressed | Expired

definition status_value :: "exec_status \<Rightarrow> string" where
  "status_value s = (case s of Pending \<Rightarrow> ''pending'' | Fired \<Rightarrow> ''fired'' | Completed \<Rightarrow> ''completed''
     | Suppressed \<Rightarrow> ''suppressed'' | Expired \<Rightarrow> ''expired'')"

record execution =
  ex_id :: nat
  ex_event_id :: "int option"
  ex_trigger_time :: "string option"
  ex_trigger_type :: string
  ex_action :: string
  ex_status :: exec_status
  ex_fired_at :: "int option"
  ex_completed_at :: "int option"
  ex_attempts :: nat
  ex_last_error :: "message option"
  ex_reason :: "message option"
  ex_linked :: "int option"
  ex_created_at :: int

record exec_store =
  st_rows :: "execution list"
  st_next :: nat

definition empty_store :: exec_store where
  "empty_store = \<lparr>st_rows = [], st_next = 1\<rparr>"

section \<open>Operations\<close>

record new_execution =
  ne_trigger_type :: string
  ne_action :: string
  ne_status :: exec_status
  ne_event_id :: "int option"
  ne_trigger_time :: "string option"
  ne_fired_at :: "int option"
  ne_reason :: "message option"

definition initial_row :: "nat \<Rightarrow> int \<Rightarrow> new_execution \<Rightarrow> execution" where
  "initial_row i now n = \<lparr>ex_id = i, ex_event_id = ne_event_id n, ex_trigger_time = ne_trigger_time n,
     ex_trigger_type = ne_trigger_type n, ex_action = ne_action n, ex_status = ne_status n,
     ex_fired_at = ne_fired_at n, ex_completed_at = None, ex_attempts = 0, ex_last_error = None,
     ex_reason = ne_reason n, ex_linked = None, ex_created_at = now\<rparr>"

definition save_execution :: "int \<Rightarrow> new_execution \<Rightarrow> exec_store \<Rightarrow> nat \<times> exec_store" where
  "save_execution now n st =
     (st_next st, \<lparr>st_rows = st_rows st @ [initial_row (st_next st) now n], st_next = Suc (st_next st)\<rparr>)"

definition get_execution :: "nat \<Rightarrow> exec_store \<Rightarrow> execution option" where
  "get_execution i st = find (\<lambda>r. ex_id r = i) (st_rows st)"

text \<open>\<^verbatim>\<open>UPDATE ... WHERE\<close>: the rows it changes and their number.\<close>

definition update_where :: "(execution \<Rightarrow> bool) \<Rightarrow> (execution \<Rightarrow> execution) \<Rightarrow> exec_store \<Rightarrow> exec_store" where
  "update_where P f st = st\<lparr>st_rows := map (\<lambda>r. if P r then f r else r) (st_rows st)\<rparr>"

definition count_where :: "(execution \<Rightarrow> bool) \<Rightarrow> exec_store \<Rightarrow> nat" where
  "count_where P st = length (filter P (st_rows st))"

text \<open>The optional fields of an update; \<open>None\<close> leaves the column as it is.\<close>

record exec_update =
  up_status :: "exec_status option"
  up_fired_at :: "int option"
  up_completed_at :: "int option"
  up_linked :: "int option"
  up_last_error :: "message option"
  up_attempts :: "nat option"
  up_reason :: "message option"

definition no_update :: exec_update where
  "no_update = \<lparr>up_status = None, up_fired_at = None, up_completed_at = None, up_linked = None,
     up_last_error = None, up_attempts = None, up_reason = None\<rparr>"

definition keep_or :: "'a option \<Rightarrow> 'a option \<Rightarrow> 'a option" where
  "keep_or new old = (case new of None \<Rightarrow> old | Some x \<Rightarrow> Some x)"

definition apply_update :: "exec_update \<Rightarrow> execution \<Rightarrow> execution" where
  "apply_update u r = r\<lparr>
     ex_status := (case up_status u of None \<Rightarrow> ex_status r | Some s \<Rightarrow> s),
     ex_fired_at := keep_or (up_fired_at u) (ex_fired_at r),
     ex_completed_at := keep_or (up_completed_at u) (ex_completed_at r),
     ex_linked := keep_or (up_linked u) (ex_linked r),
     ex_last_error := keep_or (up_last_error u) (ex_last_error r),
     ex_attempts := (case up_attempts u of None \<Rightarrow> ex_attempts r | Some n \<Rightarrow> n),
     ex_reason := keep_or (up_reason u) (ex_reason r)\<rparr>"

definition update_execution :: "nat \<Rightarrow> exec_update \<Rightarrow> exec_store \<Rightarrow> exec_store" where
  "update_execution i u st = update_where (\<lambda>r. ex_id r = i) (apply_update u) st"

definition claimable :: "nat \<Rightarrow> exec_status \<Rightarrow> execution \<Rightarrow> bool" where
  "claimable i expected r = (ex_id r = i \<and> ex_status r = expected)"

definition claim_execution :: "nat \<Rightarrow> exec_status \<Rightarrow> exec_update \<Rightarrow> exec_store \<Rightarrow> bool \<times> exec_store" where
  "claim_execution i expected u st =
     (0 < count_where (claimable i expected) st, update_where (claimable i expected) (apply_update u) st)"

definition fired_unmatched :: "string \<Rightarrow> execution \<Rightarrow> bool" where
  "fired_unmatched action r = (ex_status r = Fired \<and> ex_linked r = None \<and> ex_action r = action)"

text \<open>\<^verbatim>\<open>ORDER BY\<close>: insertion in front of the first row that does not come before; rows that tie
  keep their order.\<close>

fun insert_by :: "('a \<Rightarrow> 'a \<Rightarrow> bool) \<Rightarrow> 'a \<Rightarrow> 'a list \<Rightarrow> 'a list" where
  "insert_by le x [] = [x]"
| "insert_by le x (y # ys) = (if le x y then x # y # ys else y # insert_by le x ys)"

definition order_by :: "('a \<Rightarrow> 'a \<Rightarrow> bool) \<Rightarrow> 'a list \<Rightarrow> 'a list" where
  "order_by le xs = foldr (insert_by le) xs []"

text \<open>A row without a time comes first.\<close>

definition older_fire :: "execution \<Rightarrow> execution \<Rightarrow> bool" where
  "older_fire a b = (case (ex_fired_at a, ex_fired_at b) of
     (None, _) \<Rightarrow> True | (Some _, None) \<Rightarrow> False | (Some s, Some t) \<Rightarrow> s \<le> t)"

definition get_fired_unmatched :: "string \<Rightarrow> exec_store \<Rightarrow> execution list" where
  "get_fired_unmatched action st = order_by older_fire (filter (fired_unmatched action) (st_rows st))"

definition fires_of_action :: "string \<Rightarrow> exec_store \<Rightarrow> int list" where
  "fires_of_action action st = concat (map (\<lambda>r. case ex_fired_at r of
     Some t \<Rightarrow> if ex_action r = action then [t] else [] | None \<Rightarrow> []) (st_rows st))"

definition get_latest_fire :: "string \<Rightarrow> exec_store \<Rightarrow> int option" where
  "get_latest_fire action st = (let ts = fires_of_action action st in if ts = [] then None else Some (Max (set ts)))"

definition count_fires_since :: "string \<Rightarrow> int \<Rightarrow> exec_store \<Rightarrow> nat" where
  "count_fires_since action since st = length (filter (\<lambda>t. since \<le> t) (fires_of_action action st))"

definition stale_fired :: "int \<Rightarrow> string option \<Rightarrow> execution \<Rightarrow> bool" where
  "stale_fired cutoff action r =
     (ex_status r = Fired \<and> (case ex_fired_at r of None \<Rightarrow> False | Some t \<Rightarrow> t < cutoff) \<and> ex_linked r = None
      \<and> (case action of None \<Rightarrow> True | Some a \<Rightarrow> a = [] \<or> ex_action r = a))"

definition expire_stale_fired :: "int \<Rightarrow> string option \<Rightarrow> exec_store \<Rightarrow> nat \<times> exec_store" where
  "expire_stale_fired cutoff action st =
     (count_where (stale_fired cutoff action) st,
      update_where (stale_fired cutoff action)
        (\<lambda>r. r\<lparr>ex_status := Expired, ex_last_error := Some (Msg ''no matching result within timeout window'' [])\<rparr>) st)"

definition stale_pending :: "int \<Rightarrow> execution \<Rightarrow> bool" where
  "stale_pending cutoff r = (ex_status r = Pending \<and> ex_created_at r < cutoff)"

definition expire_stale_pending :: "int \<Rightarrow> exec_store \<Rightarrow> nat \<times> exec_store" where
  "expire_stale_pending cutoff st =
     (count_where (stale_pending cutoff) st,
      update_where (stale_pending cutoff)
        (\<lambda>r. r\<lparr>ex_status := Expired, ex_last_error := Some (Msg ''no action adapter configured'' [])\<rparr>) st)"

text \<open>The clean-up of \<^verbatim>\<open>app/storage/cleanup.py\<close>; the ids are \<^verbatim>\<open>AUTOINCREMENT\<close>, so none is used again.\<close>

definition delete_old_executions :: "int \<Rightarrow> exec_store \<Rightarrow> nat \<times> exec_store" where
  "delete_old_executions cutoff st =
     (count_where (\<lambda>r. ex_created_at r < cutoff) st,
      st\<lparr>st_rows := filter (\<lambda>r. \<not> ex_created_at r < cutoff) (st_rows st)\<rparr>)"

text \<open>Newest first by the time of creation, then by id, cut to a page.\<close>

definition newer_row :: "execution \<Rightarrow> execution \<Rightarrow> bool" where
  "newer_row a b = (ex_created_at b < ex_created_at a \<or> (ex_created_at a = ex_created_at b \<and> ex_id b \<le> ex_id a))"

definition get_executions :: "nat \<Rightarrow> nat \<Rightarrow> exec_status option \<Rightarrow> exec_store \<Rightarrow> execution list" where
  "get_executions limit off status st =
     take limit (drop off (order_by newer_row
       (filter (\<lambda>r. case status of None \<Rightarrow> True | Some s \<Rightarrow> ex_status r = s) (st_rows st))))"

section \<open>Sorting\<close>

lemma set_insert_by [simp]: "set (insert_by le x ys) = insert x (set ys)"
  by (induction ys) auto

lemma set_order_by [simp]: "set (order_by le xs) = set xs"
  by (induction xs) (simp_all add: order_by_def)

lemma length_insert_by [simp]: "length (insert_by le x ys) = Suc (length ys)"
  by (induction ys) auto

lemma length_order_by [simp]: "length (order_by le xs) = length xs"
  by (induction xs) (simp_all add: order_by_def)

lemma distinct_insert_by: "distinct (x # ys) \<Longrightarrow> distinct (insert_by le x ys)"
  by (induction ys) auto

lemma distinct_order_by: "distinct xs \<Longrightarrow> distinct (order_by le xs)"
proof (induction xs)
  case (Cons x xs)
  then have "distinct (x # order_by le xs)" by simp
  then show ?case unfolding order_by_def by (simp add: distinct_insert_by)
qed (simp add: order_by_def)

lemma sorted_insert_by:
  assumes total: "\<And>a b. le a b \<or> le b a" and trans: "\<And>a b c. le a b \<Longrightarrow> le b c \<Longrightarrow> le a c"
  shows "sorted_wrt le ys \<Longrightarrow> sorted_wrt le (insert_by le x ys)"
proof (induction ys)
  case (Cons y ys)
  show ?case
  proof (cases "le x y")
    case True
    with Cons.prems show ?thesis by (auto intro: trans)
  next
    case False
    then have "le y x" using total by blast
    with False Cons show ?thesis by auto
  qed
qed simp

lemma sorted_order_by:
  assumes "\<And>a b. le a b \<or> le b a" and "\<And>a b c. le a b \<Longrightarrow> le b c \<Longrightarrow> le a c"
  shows "sorted_wrt le (order_by le xs)"
  by (induction xs) (simp_all add: order_by_def sorted_insert_by [OF assms])

lemma older_fire_total: "older_fire a b \<or> older_fire b a"
  by (auto simp: older_fire_def split: option.split)

lemma older_fire_trans: "older_fire a b \<Longrightarrow> older_fire b c \<Longrightarrow> older_fire a c"
  by (auto simp: older_fire_def split: option.splits)

lemma get_fired_unmatched_sorted: "sorted_wrt older_fire (get_fired_unmatched action st)"
  unfolding get_fired_unmatched_def using older_fire_total older_fire_trans by (rule sorted_order_by)

lemma get_fired_unmatched_set:
  "r \<in> set (get_fired_unmatched action st) \<longleftrightarrow> r \<in> set (st_rows st) \<and> fired_unmatched action r"
  by (auto simp: get_fired_unmatched_def)

section \<open>The shape of the table\<close>

text \<open>Ids grow and are never used twice; no operation but saving adds a row and only the clean-up removes one.\<close>

definition store_ok :: "exec_store \<Rightarrow> bool" where
  "store_ok st \<longleftrightarrow> sorted_wrt (<) (map ex_id (st_rows st)) \<and> (\<forall>r \<in> set (st_rows st). ex_id r < st_next st)"

lemma store_ok_empty: "store_ok empty_store"
  by (simp add: store_ok_def empty_store_def)

lemma store_ok_save: "store_ok st \<Longrightarrow> store_ok (snd (save_execution now n st))"
  by (auto simp: store_ok_def save_execution_def initial_row_def sorted_wrt_append)

lemma st_next_update [simp]: "st_next (update_where P f st) = st_next st"
  by (simp add: update_where_def)

lemma map_update_where:
  "(\<And>r. ex_id (f r) = ex_id r) \<Longrightarrow> map ex_id (st_rows (update_where P f st)) = map ex_id (st_rows st)"
  by (simp add: update_where_def)

lemma store_ok_update:
  assumes "\<And>r. ex_id (f r) = ex_id r" and "store_ok st"
  shows "store_ok (update_where P f st)"
proof -
  have "map ex_id (st_rows (update_where P f st)) = map ex_id (st_rows st)"
    using assms(1) by (rule map_update_where)
  moreover have "ex_id r < st_next st" if "r \<in> set (st_rows (update_where P f st))" for r
    using that assms by (auto simp: store_ok_def update_where_def)
  ultimately show ?thesis using assms(2) unfolding store_ok_def by simp
qed

lemma store_ok_distinct: "store_ok st \<Longrightarrow> distinct (map ex_id (st_rows st))"
  by (simp add: store_ok_def strict_sorted_iff)

lemma get_execution_Some:
  assumes "store_ok st"
  shows "get_execution i st = Some r \<longleftrightarrow> r \<in> set (st_rows st) \<and> ex_id r = i"
proof
  show "r \<in> set (st_rows st) \<and> ex_id r = i" if "get_execution i st = Some r"
    using that by (auto simp: get_execution_def find_Some_iff)
  show "get_execution i st = Some r" if "r \<in> set (st_rows st) \<and> ex_id r = i"
  proof -
    have "get_execution i st \<noteq> None"
      using that by (auto simp: get_execution_def find_None_iff)
    then obtain r' where r': "get_execution i st = Some r'" by blast
    then have "r' \<in> set (st_rows st)" "ex_id r' = i" by (auto simp: get_execution_def find_Some_iff)
    then have "r' = r" using that store_ok_distinct [OF assms] by (auto simp: distinct_map dest: inj_onD)
    with r' show ?thesis by simp
  qed
qed

lemma store_ok_delete: "store_ok st \<Longrightarrow> store_ok (snd (delete_old_executions cutoff st))"
  by (auto simp: store_ok_def delete_old_executions_def sorted_wrt_map intro: sorted_wrt_filter)

lemma st_next_delete [simp]: "st_next (snd (delete_old_executions cutoff st)) = st_next st"
  by (simp add: delete_old_executions_def)

text \<open>What each statement does to one execution.\<close>

lemma get_execution_id: "get_execution i st = Some r \<Longrightarrow> ex_id r = i"
  by (auto simp: get_execution_def find_Some_iff)

lemma get_execution_update:
  "(\<And>r. ex_id (f r) = ex_id r) \<Longrightarrow>
   get_execution i (update_where P f st) = map_option (\<lambda>r. if P r then f r else r) (get_execution i st)"
proof -
  assume f: "\<And>r. ex_id (f r) = ex_id r"
  have "find (\<lambda>r. ex_id r = i) (map (\<lambda>r. if P r then f r else r) rs)
      = map_option (\<lambda>r. if P r then f r else r) (find (\<lambda>r. ex_id r = i) rs)" for rs
    by (induction rs) (auto simp: f)
  then show ?thesis by (simp add: get_execution_def update_where_def)
qed

lemma get_execution_save:
  assumes "store_ok st"
  shows "get_execution i (snd (save_execution now n st)) =
    (if i = st_next st then Some (initial_row i now n) else get_execution i st)"
proof -
  have "find (\<lambda>r. ex_id r = i) (rs @ [x]) = (case find (\<lambda>r. ex_id r = i) rs of
      None \<Rightarrow> if ex_id x = i then Some x else None | Some r \<Rightarrow> Some r)" for rs and x :: execution
    by (induction rs) auto
  moreover have "find (\<lambda>r. ex_id r = st_next st) (st_rows st) = None"
    using assms by (auto simp: find_None_iff store_ok_def)
  ultimately show ?thesis
    by (auto simp: get_execution_def save_execution_def initial_row_def split: option.split)
qed

lemma get_execution_delete:
  assumes "store_ok st"
  shows "get_execution i (snd (delete_old_executions cutoff st)) =
    (case get_execution i st of None \<Rightarrow> None | Some r \<Rightarrow> if ex_created_at r < cutoff then None else Some r)"
proof -
  have "get_execution i (snd (delete_old_executions cutoff st)) = Some r \<longleftrightarrow>
      get_execution i st = Some r \<and> \<not> ex_created_at r < cutoff" for r
    unfolding get_execution_Some [OF assms] get_execution_Some [OF store_ok_delete [OF assms]]
    by (auto simp: delete_old_executions_def)
  then show ?thesis by (cases "get_execution i (snd (delete_old_executions cutoff st))") (fastforce split: option.split)+
qed

text \<open>An update of the row just saved touches no other row.\<close>

lemma update_saved:
  assumes "store_ok st"
  shows "st_rows (update_execution (st_next st) u (snd (save_execution now n st)))
    = st_rows st @ [apply_update u (initial_row (st_next st) now n)]"
proof -
  have "(if ex_id r = st_next st then apply_update u r else r) = r" if "r \<in> set (st_rows st)" for r
    using assms that by (auto simp: store_ok_def)
  then show ?thesis
    by (simp add: update_execution_def update_where_def save_execution_def initial_row_def cong: map_cong)
qed

lemma st_next_saved [simp]:
  "st_next (snd (save_execution now n st)) = Suc (st_next st)"
  "st_next (update_execution i u st) = st_next st"
  by (simp_all add: save_execution_def update_execution_def)

end
