(* ===== verification/Smart_Capture.thy ===== *)
theory Smart_Capture
  imports Guardrails Execution_Store
begin

text \<open>
  \<^verbatim>\<open>app/smart_capture/engine.py\<close>, \<^verbatim>\<open>adapters/speedtest.py\<close> and the wiring of both in \<^verbatim>\<open>app/main.py\<close>:
  events become executions, the adapter starts speed tests for them, imported results are
  linked to the executions that caused them, and the main loop expires what found no result.
  The remote service, the clocks and the cached results are read through an environment that
  is an argument of the operations.
\<close>

section \<open>Registration\<close>

text \<open>Triggers compare without their sub-filter, which is declared \<^verbatim>\<open>compare=False\<close>.\<close>

definition same_trigger :: "trigger \<Rightarrow> trigger \<Rightarrow> bool" where
  "same_trigger a b = (tr_event_type a = tr_event_type b \<and> tr_config_key a = tr_config_key b
     \<and> tr_min_severity a = tr_min_severity b \<and> tr_require a = tr_require b)"

definition register_trigger :: "trigger \<Rightarrow> trigger list \<Rightarrow> trigger list" where
  "register_trigger t ts = (if list_ex (same_trigger t) ts then ts else ts @ [t])"

definition mk_trigger :: "string \<Rightarrow> string \<Rightarrow> string option \<Rightarrow> (string \<times> pyval) list \<Rightarrow> sub_filter \<Rightarrow> trigger" where
  "mk_trigger ty key sev req flt = \<lparr>tr_event_type = ty, tr_config_key = Some key, tr_min_severity = sev,
     tr_require = req, tr_filter = flt\<rparr>"

definition capture_triggers :: "trigger list" where
  "capture_triggers = fold register_trigger
     [mk_trigger ''modulation_change'' ''sc_trigger_modulation'' (Some ''warning'') [(''direction'', PStr ''downgrade'')] Modulation_Filter,
      mk_trigger ''snr_change'' ''sc_trigger_snr'' (Some ''warning'') [] Snr_Filter,
      mk_trigger ''error_spike'' ''sc_trigger_error_spike'' None [] Error_Spike_Filter,
      mk_trigger ''health_change'' ''sc_trigger_health'' (Some ''warning'') [] Health_Filter,
      mk_trigger ''cm_packet_loss_warning'' ''sc_trigger_packet_loss'' None [] Packet_Loss_Filter] []"

section \<open>Configuration and environment\<close>

record capture_config =
  cc_enabled :: pyval
  cc_flag :: "string \<Rightarrow> pyval"
  cc_filters :: filter_config
  cc_guards :: guard_config
  cc_min_interval :: pyval
  cc_max_per_day :: pyval
  cc_match_window :: pyval

definition capture_enabled :: "capture_config \<Rightarrow> bool" where
  "capture_enabled cfg = (case cc_enabled cfg of
     PStr s \<Rightarrow> py_lower s \<in> {''true'', ''1'', ''yes'', ''on''} | v \<Rightarrow> truthy v)"

text \<open>The answer to the request that starts a test.\<close>

datatype post_outcome = Answered nat string | Read_Timeout | Post_Failed string

text \<open>
  What the handling of one execution meets: the time of its row, the current time (for an event
  without a readable time stamp), the newest cached and remote result, the answer of the
  service and the time at which the fire is recorded.
\<close>

record world =
  wd_created :: int
  wd_now :: rat
  wd_cached :: "rat option"
  wd_remote :: "rat option"
  wd_post :: post_outcome
  wd_fired :: int

record fired_event =
  fe_time :: int
  fe_trigger :: string
  fe_execution :: nat
  fe_source :: message
  fe_state :: string

record capture =
  cp_store :: exec_store
  cp_guards :: guardrails
  cp_events :: "fired_event list"

abbreviation capture_action :: string where "capture_action \<equiv> ''capture''"

definition get_int :: "pyval \<Rightarrow> int \<Rightarrow> int res" where
  "get_int v dflt = catch_type_value (py_int v) dflt"

section \<open>The speed test adapter\<close>

definition interval_reason :: "rat option \<Rightarrow> rat \<Rightarrow> int \<Rightarrow> string \<Rightarrow> message option" where
  "interval_reason prev_ts ref min_interval code =
     (case prev_ts of None \<Rightarrow> None
      | Some p \<Rightarrow>
          (let e = fl (ref - p); elapsed = (if e < 0 then 0 else e) in
           if elapsed < of_int min_interval
           then Some (Msg ''{code}: {remaining}s remaining''
                  [PStr code, PInt (trunc_rat (fl (fl (of_int min_interval) - elapsed)))])
           else None))"

definition latest_result :: "world \<Rightarrow> rat option" where
  "latest_result w = (case (wd_cached w, wd_remote w) of
     (Some a, Some b) \<Rightarrow> Some (max a b) | (Some a, None) \<Rightarrow> Some a | (None, r) \<Rightarrow> r)"

definition interval_check :: "world \<Rightarrow> rat \<Rightarrow> int \<Rightarrow> exec_store \<Rightarrow> message option" where
  "interval_check w ref min_interval st =
     (if 0 < min_interval then
        (case interval_reason (latest_result w) ref min_interval ''recent_speedtest_result'' of
           Some r \<Rightarrow> Some r
         | None \<Rightarrow> interval_reason (map_option of_int (get_latest_fire capture_action st)) ref min_interval ''speedtest_min_interval'')
      else None)"

definition daily_check :: "rat \<Rightarrow> int \<Rightarrow> exec_store \<Rightarrow> message option" where
  "daily_check ref max_per_day st =
     (if 0 < max_per_day then
        (let n = count_fires_since capture_action \<lfloor>ref - 86400\<rfloor> st in
         if max_per_day \<le> int n
         then Some (Msg ''speedtest_daily_cap: {used}/{max_per_day} used in rolling 24h'' [PInt (int n), PInt max_per_day])
         else None)
      else None)"

definition preflight :: "capture_config \<Rightarrow> world \<Rightarrow> rat \<Rightarrow> exec_store \<Rightarrow> message option res" where
  "preflight cfg w ref st =
     res_bind (get_int (cc_min_interval cfg) 14400) (\<lambda>min_interval.
       case interval_check w ref min_interval st of
         Some r \<Rightarrow> Inr (Some r)
       | None \<Rightarrow> map_sum id (\<lambda>max_per_day. daily_check ref max_per_day st) (get_int (cc_max_per_day cfg) 4))"

definition fired_update :: "int \<Rightarrow> message option \<Rightarrow> exec_update" where
  "fired_update t err = no_update\<lparr>up_status := Some Fired, up_fired_at := Some t, up_attempts := Some 1, up_last_error := err\<rparr>"

definition failed_update :: "message \<Rightarrow> exec_update" where
  "failed_update err = no_update\<lparr>up_status := Some Expired, up_last_error := Some err, up_attempts := Some 1\<rparr>"

definition suppressed_update :: "message \<Rightarrow> exec_update" where
  "suppressed_update reason = no_update\<lparr>up_status := Some Suppressed, up_reason := Some reason\<rparr>"

definition mark_fired :: "world \<Rightarrow> nat \<Rightarrow> cap_event \<Rightarrow> message option \<Rightarrow> capture \<Rightarrow> capture" where
  "mark_fired w i ev err cp =
     cp\<lparr>cp_store := update_execution i (fired_update (wd_fired w) err) (cp_store cp),
        cp_events := cp_events cp @ [\<lparr>fe_time = wd_fired w, fe_trigger = ce_type ev, fe_execution = i,
          fe_source = ce_message ev, fe_state = (if err = None then ''accepted'' else ''unknown'')\<rparr>]\<rparr>"

definition mark_failed :: "nat \<Rightarrow> message \<Rightarrow> capture \<Rightarrow> capture" where
  "mark_failed i err cp = cp\<lparr>cp_store := update_execution i (failed_update err) (cp_store cp)\<rparr>"

definition mark_suppressed :: "nat \<Rightarrow> message \<Rightarrow> capture \<Rightarrow> capture" where
  "mark_suppressed i reason cp = cp\<lparr>cp_store := update_execution i (suppressed_update reason) (cp_store cp)\<rparr>"

definition start_test :: "world \<Rightarrow> nat \<Rightarrow> cap_event \<Rightarrow> capture \<Rightarrow> (bool \<times> message option) \<times> capture" where
  "start_test w i ev cp =
     (case wd_post w of
        Answered code body \<Rightarrow>
          if code \<in> {200, 201, 202, 204} then ((True, None), mark_fired w i ev None cp)
          else (let err = Msg ''STT returned {status}: {text}'' [PInt (int code), PStr (take 200 body)]
                in ((False, Some err), mark_failed i err cp))
      | Read_Timeout \<Rightarrow>
          ((True, None), mark_fired w i ev
             (Some (Msg ''trigger response timeout; external run state unknown, awaiting result import'' [])) cp)
      | Post_Failed text \<Rightarrow> ((False, Some (Msg text [])), mark_failed i (Msg text []) cp))"

definition execute_capture :: "capture_config \<Rightarrow> world \<Rightarrow> nat \<Rightarrow> cap_event \<Rightarrow> capture \<Rightarrow> ((bool \<times> message option) \<times> capture) res" where
  "execute_capture cfg w i ev cp =
     (let ref = (case ce_stamp ev of None \<Rightarrow> wd_now w | Some t \<Rightarrow> t) in
      map_sum id (\<lambda>r. case r of
          Some reason \<Rightarrow> ((False, Some reason), mark_suppressed i reason cp)
        | None \<Rightarrow> start_test w i ev cp)
        (preflight cfg w ref (cp_store cp)))"

section \<open>The engine\<close>

definition new_row :: "cap_event \<Rightarrow> exec_status \<Rightarrow> message option \<Rightarrow> new_execution" where
  "new_row ev status reason = \<lparr>ne_trigger_type = ce_type ev, ne_action = capture_action, ne_status = status,
     ne_event_id = ce_id ev, ne_trigger_time = ce_time ev, ne_fired_at = None, ne_reason = reason\<rparr>"

text \<open>An exception of the adapter is logged and leaves the execution pending.\<close>

definition record_verdict :: "capture_config \<Rightarrow> bool \<Rightarrow> (nat \<Rightarrow> world) \<Rightarrow> cap_event verdict \<Rightarrow> capture \<Rightarrow> capture" where
  "record_verdict cfg adapter env v cp =
     (let ev = vd_event v; i = st_next (cp_store cp); w = env i in
      if vd_allowed v then
        (let cp1 = cp\<lparr>cp_store := snd (save_execution (wd_created w) (new_row ev Pending None) (cp_store cp))\<rparr> in
         if adapter then (case execute_capture cfg w i ev cp1 of Inl _ \<Rightarrow> cp1 | Inr (_, cp2) \<Rightarrow> cp2) else cp1)
      else cp\<lparr>cp_store := snd (save_execution (wd_created w) (new_row ev Suppressed (vd_reason v)) (cp_store cp))\<rparr>)"

fun filter_res :: "('a \<Rightarrow> bool res) \<Rightarrow> 'a list \<Rightarrow> 'a list res" where
  "filter_res P [] = Inr []"
| "filter_res P (x # xs) = res_bind (P x) (\<lambda>b. map_sum id (\<lambda>ys. if b then x # ys else ys) (filter_res P xs))"

definition switched_on :: "capture_config \<Rightarrow> trigger \<Rightarrow> bool" where
  "switched_on cfg t = (case tr_config_key t of None \<Rightarrow> True | Some k \<Rightarrow> truthy (cc_flag cfg k))"

definition qualifying :: "capture_config \<Rightarrow> trigger list \<Rightarrow> cap_event \<Rightarrow> (trigger \<times> cap_event) list res" where
  "qualifying cfg triggers ev =
     map_sum id (map (\<lambda>t. (t, ev)))
       (filter_res (\<lambda>t. apply_sub_filter (tr_filter t) (cc_filters cfg) ev)
          (filter (switched_on cfg) (filter (\<lambda>t. matches t ev) triggers)))"

definition evaluate_event ::
  "capture_config \<Rightarrow> trigger list \<Rightarrow> bool \<Rightarrow> (nat \<Rightarrow> world) \<Rightarrow> rat \<Rightarrow> cap_event \<Rightarrow> capture \<Rightarrow> capture res" where
  "evaluate_event cfg triggers adapter env now ev cp =
     map_sum id (\<lambda>ms. let (vs, g) = check_batch (cc_guards cfg) now ms (cp_guards cp)
                      in fold (record_verdict cfg adapter env) vs (cp\<lparr>cp_guards := g\<rparr>))
       (qualifying cfg triggers ev)"

text \<open>An exception of a sub-filter leaves the events that follow unevaluated.\<close>

fun evaluate_events ::
  "capture_config \<Rightarrow> trigger list \<Rightarrow> bool \<Rightarrow> (nat \<Rightarrow> world) \<Rightarrow> (rat \<times> cap_event) list \<Rightarrow> capture \<Rightarrow> capture \<times> py_error option" where
  "evaluate_events cfg triggers adapter env [] cp = (cp, None)"
| "evaluate_events cfg triggers adapter env ((now, ev) # evs) cp =
     (case evaluate_event cfg triggers adapter env now ev cp of
        Inl e \<Rightarrow> (cp, Some e)
      | Inr cp1 \<Rightarrow> evaluate_events cfg triggers adapter env evs cp1)"

definition evaluate ::
  "capture_config \<Rightarrow> trigger list \<Rightarrow> bool \<Rightarrow> (nat \<Rightarrow> world) \<Rightarrow> (rat \<times> cap_event) list \<Rightarrow> capture \<Rightarrow> capture \<times> py_error option" where
  "evaluate cfg triggers adapter env evs cp =
     (if \<not> capture_enabled cfg \<or> triggers = [] then (cp, None)
      else evaluate_events cfg triggers adapter env evs cp)"

section \<open>Linking results\<close>

text \<open>A result: its id and its time, \<open>None\<close> when that cannot be read.\<close>

type_synonym result = "int \<times> rat option"

definition parsed_results :: "result list \<Rightarrow> (int \<times> rat) list" where
  "parsed_results rs = concat (map (\<lambda>(i, t). case t of None \<Rightarrow> [] | Some x \<Rightarrow> [(i, x)]) rs)"

text \<open>The first of the nearest results in the window that is not linked yet.\<close>

fun best_result :: "int list \<Rightarrow> rat \<Rightarrow> rat \<Rightarrow> (int \<times> rat) option \<Rightarrow> (int \<times> rat) list \<Rightarrow> (int \<times> rat) option" where
  "best_result matched lo hi best [] = best"
| "best_result matched lo hi best ((i, t) # rs) =
     best_result matched lo hi
       (if i \<in> set matched \<or> \<not> (lo \<le> t \<and> t \<le> hi) then best
        else (let d = \<bar>fl (t - lo)\<bar> in
          case best of None \<Rightarrow> Some (i, d) | Some (_, d') \<Rightarrow> if d < d' then Some (i, d) else best)) rs"

definition claim_result :: "int \<Rightarrow> nat \<Rightarrow> int \<Rightarrow> exec_store \<Rightarrow> bool \<times> exec_store" where
  "claim_result now i rid st = claim_execution i Fired
     (no_update\<lparr>up_status := Some Completed, up_completed_at := Some now, up_linked := Some rid\<rparr>) st"

fun link_results :: "int \<Rightarrow> int \<Rightarrow> (int \<times> rat) list \<Rightarrow> execution list \<Rightarrow> int list \<Rightarrow> exec_store \<Rightarrow> exec_store" where
  "link_results now window rs [] matched st = st"
| "link_results now window rs (x # xs) matched st =
     (case ex_fired_at x of None \<Rightarrow> link_results now window rs xs matched st
      | Some t \<Rightarrow>
          (case best_result matched (of_int t) (of_int (t + window)) None rs of
             None \<Rightarrow> link_results now window rs xs matched st
           | Some (rid, _) \<Rightarrow>
               (let (ok, st1) = claim_result now (ex_id x) rid st
                in link_results now window rs xs (if ok then rid # matched else matched) st1)))"

definition match_window :: "capture_config \<Rightarrow> int res" where
  "match_window cfg = map_sum id (max 1) (get_int (cc_match_window cfg) 900)"

definition on_results_imported :: "capture_config \<Rightarrow> int \<Rightarrow> result list \<Rightarrow> exec_store \<Rightarrow> exec_store res" where
  "on_results_imported cfg now results st =
     (let fired = get_fired_unmatched capture_action st; rs = parsed_results results in
      if fired = [] \<or> rs = [] then Inr st
      else map_sum id (\<lambda>window. link_results now window rs fired [] st) (match_window cfg))"

section \<open>Expiry in the main loop\<close>

definition expiry_minutes :: "capture_config \<Rightarrow> int res" where
  "expiry_minutes cfg = catch_type_value (map_sum id (\<lambda>n. max 10 (n div 60 + 5)) (py_int (cc_match_window cfg))) 20"

definition expire_at :: "int \<Rightarrow> exec_store \<Rightarrow> exec_store" where
  "expire_at cutoff st = snd (expire_stale_pending cutoff (snd (expire_stale_fired cutoff (Some capture_action) st)))"

definition expiry_tick :: "capture_config \<Rightarrow> int \<Rightarrow> nat \<times> exec_store \<Rightarrow> (nat \<times> exec_store) res" where
  "expiry_tick cfg now s =
     (let n = fst s + 1 in
      if 60 \<le> n then map_sum id (\<lambda>m. (0, expire_at (now - 60 * m) (snd s))) (expiry_minutes cfg)
      else Inr (n, snd s))"

section \<open>The life of an execution\<close>

text \<open>The abstract automaton of \<^verbatim>\<open>ExecutionStatus\<close>.\<close>

inductive lifecycle :: "exec_status \<Rightarrow> exec_status \<Rightarrow> bool" where
  start: "lifecycle Pending Fired"
| skip: "lifecycle Pending Suppressed"
| fail: "lifecycle Pending Expired"
| finish: "lifecycle Fired Completed"
| stale: "lifecycle Fired Expired"

inductive_cases lifecycle_cases: "lifecycle s t"

definition final_status :: "exec_status \<Rightarrow> bool" where
  "final_status s \<longleftrightarrow> s \<in> {Completed, Suppressed, Expired}"

definition advanced :: "execution \<Rightarrow> execution \<Rightarrow> bool" where
  "advanced r r' \<longleftrightarrow> ex_id r' = ex_id r \<and> ex_created_at r' = ex_created_at r \<and> lifecycle\<^sup>*\<^sup>* (ex_status r) (ex_status r') \<and> (final_status (ex_status r) \<longrightarrow> r' = r)"

lemma advanced_refl [simp]: "advanced r r"
  by (simp add: advanced_def)

lemma advanced_trans: "advanced a b \<Longrightarrow> advanced b c \<Longrightarrow> advanced a c"
  unfolding advanced_def by (metis rtranclp_trans)

lemma advancedI: "ex_id r' = ex_id r \<Longrightarrow> ex_created_at r' = ex_created_at r \<Longrightarrow> lifecycle (ex_status r) (ex_status r') \<Longrightarrow> advanced r r'"
  by (auto simp: advanced_def final_status_def elim: lifecycle_cases)

section \<open>What a row records\<close>

definition row_ok :: "execution \<Rightarrow> bool" where
  "row_ok r \<longleftrightarrow> ex_action r = capture_action \<and> (case ex_status r of
     Pending \<Rightarrow> ex_fired_at r = None \<and> ex_linked r = None \<and> ex_completed_at r = None \<and> ex_reason r = None \<and> ex_attempts r = 0
   | Fired \<Rightarrow> ex_fired_at r \<noteq> None \<and> ex_linked r = None \<and> ex_completed_at r = None \<and> ex_reason r = None \<and> ex_attempts r = 1
   | Completed \<Rightarrow> ex_fired_at r \<noteq> None \<and> ex_linked r \<noteq> None \<and> ex_completed_at r \<noteq> None \<and> ex_reason r = None \<and> ex_attempts r = 1
   | Suppressed \<Rightarrow> ex_fired_at r = None \<and> ex_linked r = None \<and> ex_completed_at r = None \<and> ex_reason r \<noteq> None \<and> ex_attempts r = 0
   | Expired \<Rightarrow> ex_linked r = None \<and> ex_completed_at r = None \<and> ex_reason r = None \<and> ex_last_error r \<noteq> None)"

definition capture_ok :: "exec_store \<Rightarrow> bool" where
  "capture_ok st \<longleftrightarrow> store_ok st \<and> (\<forall>r \<in> set (st_rows st). row_ok r)"

lemma capture_ok_update:
  assumes "capture_ok st" and "\<And>r. ex_id (f r) = ex_id r" and "\<And>r. P r \<Longrightarrow> row_ok r \<Longrightarrow> row_ok (f r)"
  shows "capture_ok (update_where P f st)"
proof -
  have "store_ok (update_where P f st)" using assms(1,2) by (intro store_ok_update) (auto simp: capture_ok_def)
  moreover have "row_ok r" if "r \<in> set (st_rows (update_where P f st))" for r
    using that assms by (auto simp: capture_ok_def update_where_def)
  ultimately show ?thesis by (simp add: capture_ok_def)
qed

lemmas apply_update_simps = apply_update_def no_update_def keep_or_def

lemma claim_result_ok: "capture_ok st \<Longrightarrow> capture_ok (snd (claim_result now i rid st))"
  unfolding claim_result_def claim_execution_def
  by (simp, erule capture_ok_update) (auto simp: apply_update_simps claimable_def row_ok_def)

lemma link_results_ok: "capture_ok st \<Longrightarrow> capture_ok (link_results now window rs xs matched st)"
proof (induction xs arbitrary: matched st)
  case (Cons x xs)
  then show ?case using claim_result_ok by (simp split: option.split add: split_def Let_def)
qed simp

lemma expire_at_ok: "capture_ok st \<Longrightarrow> capture_ok (expire_at cutoff st)"
proof -
  have "capture_ok (snd (expire_stale_fired cutoff (Some capture_action) st))" if "capture_ok st" for st
    unfolding expire_stale_fired_def using that
    by (simp, elim capture_ok_update) (auto simp: stale_fired_def row_ok_def)
  moreover have "capture_ok (snd (expire_stale_pending cutoff st))" if "capture_ok st" for st
    unfolding expire_stale_pending_def using that
    by (simp, elim capture_ok_update) (auto simp: stale_pending_def row_ok_def)
  ultimately show "capture_ok st \<Longrightarrow> ?thesis" unfolding expire_at_def by blast
qed

section \<open>One row for every verdict\<close>

definition outcome_update :: "exec_update \<Rightarrow> bool" where
  "outcome_update u \<longleftrightarrow> (\<exists>t err. u = fired_update t err) \<or> (\<exists>err. u = failed_update err) \<or> (\<exists>reason. u = suppressed_update reason)"

lemma outcome_update_simps [simp]:
  "outcome_update (fired_update t err)" "outcome_update (failed_update msg)" "outcome_update (suppressed_update msg)"
  by (auto simp: outcome_update_def)

lemma execute_capture_outcome:
  assumes "execute_capture cfg w i ev cp = Inr (res, cp')"
  shows "\<exists>u. outcome_update u \<and> cp_store cp' = update_execution i u (cp_store cp) \<and> cp_guards cp' = cp_guards cp"
proof -
  consider reason where "cp' = mark_suppressed i reason cp" | "(res, cp') = start_test w i ev cp"
    using assms by (auto simp: execute_capture_def Let_def map_sum_Inr_iff split: option.splits)
  then show ?thesis
  proof cases
    case 1
    then show ?thesis by (intro exI [of _ "suppressed_update reason"]) (simp add: mark_suppressed_def)
  next
    case 2
    then show ?thesis
      by (auto simp: start_test_def mark_fired_def mark_failed_def Let_def intro: outcome_update_simps split: post_outcome.splits if_splits)
  qed
qed

lemma outcome_row_ok:
  "outcome_update u \<Longrightarrow> row_ok (apply_update u (initial_row i now (new_row ev Pending None)))"
  by (auto simp: outcome_update_def fired_update_def failed_update_def suppressed_update_def apply_update_simps
      initial_row_def new_row_def row_ok_def)

lemma saved_rows: "st_rows (snd (save_execution now n st)) = st_rows st @ [initial_row (st_next st) now n]"
  by (simp add: save_execution_def)

text \<open>What the row of a verdict says.\<close>

definition row_of_verdict :: "bool \<Rightarrow> cap_event verdict \<Rightarrow> execution \<Rightarrow> bool" where
  "row_of_verdict adapter v r \<longleftrightarrow> row_ok r \<and> ex_trigger_type r = ce_type (vd_event v)
     \<and> (\<not> vd_allowed v \<longrightarrow> ex_status r = Suppressed \<and> ex_reason r = vd_reason v)
     \<and> (vd_allowed v \<and> \<not> adapter \<longrightarrow> ex_status r = Pending)"

lemma record_verdict_row:
  assumes "store_ok (cp_store cp)" and "vd_allowed v \<longleftrightarrow> vd_reason v = None"
  shows "\<exists>r. st_rows (cp_store (record_verdict cfg adapter env v cp)) = st_rows (cp_store cp) @ [r]
    \<and> ex_id r = st_next (cp_store cp) \<and> st_next (cp_store (record_verdict cfg adapter env v cp)) = Suc (st_next (cp_store cp))
    \<and> row_of_verdict adapter v r"
proof -
  define i where "i = st_next (cp_store cp)"
  define w where "w = env i"
  define row where "row = initial_row i (wd_created w) (new_row (vd_event v) Pending None)"
  define cp1 where "cp1 = cp\<lparr>cp_store := snd (save_execution (wd_created w) (new_row (vd_event v) Pending None) (cp_store cp))\<rparr>"
  have row: "row_ok row" "ex_id row = i" "ex_trigger_type row = ce_type (vd_event v)" "ex_status row = Pending"
    by (simp_all add: row_def initial_row_def new_row_def row_ok_def)
  show ?thesis
  proof (cases "vd_allowed v")
    case False
    define r where "r = initial_row i (wd_created w) (new_row (vd_event v) Suppressed (vd_reason v))"
    have "record_verdict cfg adapter env v cp = cp\<lparr>cp_store := snd (save_execution (wd_created w) (new_row (vd_event v) Suppressed (vd_reason v)) (cp_store cp))\<rparr>"
      using False by (simp add: record_verdict_def i_def w_def Let_def)
    moreover have "row_of_verdict adapter v r"
      using False assms(2) by (auto simp: row_of_verdict_def r_def initial_row_def new_row_def row_ok_def)
    ultimately show ?thesis by (intro exI [of _ r]) (simp add: saved_rows r_def i_def initial_row_def)
  next
    case True
    have rv: "record_verdict cfg adapter env v cp
        = (if adapter then (case execute_capture cfg w i (vd_event v) cp1 of Inl _ \<Rightarrow> cp1 | Inr (_, cp2) \<Rightarrow> cp2) else cp1)"
      unfolding record_verdict_def Let_def i_def [symmetric] w_def [symmetric] cp1_def [symmetric] using True by simp
    show ?thesis
    proof (cases "\<exists>res cp2. adapter \<and> execute_capture cfg w i (vd_event v) cp1 = Inr (res, cp2)")
      case False
      then have "record_verdict cfg adapter env v cp = cp1" unfolding rv by (auto split: sum.split)
      then show ?thesis
        using row False by (intro exI [of _ row]) (simp add: cp1_def saved_rows row_def i_def row_of_verdict_def True)
    next
      case ex: True
      then obtain res cp2 where cp2: "adapter" "execute_capture cfg w i (vd_event v) cp1 = Inr (res, cp2)" by blast
      then have rv2: "record_verdict cfg adapter env v cp = cp2" unfolding rv by simp
      obtain u where u: "outcome_update u" "cp_store cp2 = update_execution i u (cp_store cp1)"
        using execute_capture_outcome [OF cp2(2)] by blast
      have "st_rows (cp_store cp2) = st_rows (cp_store cp) @ [apply_update u row]"
        using update_saved [OF assms(1)] by (simp add: u(2) cp1_def i_def row_def)
      moreover have "row_ok (apply_update u row)" using outcome_row_ok [OF u(1)] by (simp add: row_def)
      ultimately show ?thesis
        unfolding rv2 using cp2(1) True row
        by (intro exI [of _ "apply_update u row"]) (simp add: row_of_verdict_def u(2) cp1_def i_def apply_update_def)
    qed
  qed
qed

lemma record_verdicts_rows:
  assumes "capture_ok (cp_store cp)" and "\<forall>v \<in> set vs. vd_allowed v \<longleftrightarrow> vd_reason v = None"
  shows "capture_ok (cp_store (fold (record_verdict cfg adapter env) vs cp))
    \<and> (\<exists>new. st_rows (cp_store (fold (record_verdict cfg adapter env) vs cp)) = st_rows (cp_store cp) @ new
         \<and> list_all2 (row_of_verdict adapter) vs new)"
  using assms
proof (induction vs arbitrary: cp)
  case (Cons v vs)
  define cp1 where "cp1 = record_verdict cfg adapter env v cp"
  have ok: "store_ok (cp_store cp)" "\<forall>r \<in> set (st_rows (cp_store cp)). row_ok r"
    using Cons.prems(1) by (simp_all add: capture_ok_def)
  obtain r where r: "st_rows (cp_store cp1) = st_rows (cp_store cp) @ [r]" "ex_id r = st_next (cp_store cp)"
      "st_next (cp_store cp1) = Suc (st_next (cp_store cp))" "row_of_verdict adapter v r"
    using record_verdict_row [OF ok(1), of v cfg adapter env] Cons.prems(2) unfolding cp1_def by auto
  have "capture_ok (cp_store cp1)"
    using ok r unfolding capture_ok_def store_ok_def row_of_verdict_def by (auto simp: sorted_wrt_append)
  from Cons.IH [OF this] Cons.prems(2) obtain new where
    "capture_ok (cp_store (fold (record_verdict cfg adapter env) vs cp1))"
    "st_rows (cp_store (fold (record_verdict cfg adapter env) vs cp1)) = st_rows (cp_store cp1) @ new"
    "list_all2 (row_of_verdict adapter) vs new" by auto
  then show ?case using r by (simp add: cp1_def [symmetric])
qed simp

lemma check_batch_reason: "v \<in> set (fst (check_batch cfg now tes g)) \<Longrightarrow> vd_allowed v \<longleftrightarrow> vd_reason v = None"
  using check_each_reason by (fastforce simp: check_batch_def Let_def split_def split: if_splits)

lemma check_batch_entries: "map (\<lambda>v. (vd_trigger v, vd_event v)) (fst (check_batch cfg now tes g)) = tes"
  by (simp add: check_batch_def Let_def split_def check_each_entries)

lemma evaluate_event_rows:
  assumes "capture_ok (cp_store cp)" and "evaluate_event cfg triggers adapter env now ev cp = Inr cp'" and "qualifying cfg triggers ev = Inr ms"
  shows "capture_ok (cp_store cp') \<and> (\<exists>new. st_rows (cp_store cp') = st_rows (cp_store cp) @ new
    \<and> list_all2 (row_of_verdict adapter) (fst (check_batch (cc_guards cfg) now ms (cp_guards cp))) new)"
proof -
  define vs where "vs = fst (check_batch (cc_guards cfg) now ms (cp_guards cp))"
  define g where "g = snd (check_batch (cc_guards cfg) now ms (cp_guards cp))"
  have "cp' = fold (record_verdict cfg adapter env) vs (cp\<lparr>cp_guards := g\<rparr>)"
    using assms(2,3) by (simp add: evaluate_event_def vs_def g_def split_def Let_def)
  moreover have "\<forall>v \<in> set vs. vd_allowed v \<longleftrightarrow> vd_reason v = None"
    unfolding vs_def using check_batch_reason by blast
  ultimately show ?thesis
    using record_verdicts_rows [of "cp\<lparr>cp_guards := g\<rparr>" vs cfg adapter env] assms(1)
    unfolding vs_def by simp
qed

lemma evaluate_event_ok:
  assumes "capture_ok (cp_store cp)" and "evaluate_event cfg triggers adapter env now ev cp = Inr cp'"
  shows "capture_ok (cp_store cp')"
proof -
  obtain ms where "qualifying cfg triggers ev = Inr ms"
    using assms(2) by (auto simp: evaluate_event_def map_sum_Inr_iff)
  from evaluate_event_rows [OF assms this] show ?thesis by blast
qed

lemma evaluate_events_ok:
  "capture_ok (cp_store cp) \<Longrightarrow> capture_ok (cp_store (fst (evaluate_events cfg triggers adapter env evs cp)))"
proof (induction evs arbitrary: cp)
  case (Cons ne evs)
  obtain now ev where ne: "ne = (now, ev)" by (cases ne)
  show ?case
  proof (cases "evaluate_event cfg triggers adapter env now ev cp")
    case (Inl e)
    with Cons.prems show ?thesis by (simp add: ne)
  next
    case (Inr cp1)
    from evaluate_event_ok [OF Cons.prems Inr] Cons.IH [of cp1] show ?thesis by (simp add: ne Inr)
  qed
qed simp

lemma evaluate_ok:
  "capture_ok (cp_store cp) \<Longrightarrow> capture_ok (cp_store (fst (evaluate cfg triggers adapter env evs cp)))"
  using evaluate_events_ok by (simp add: evaluate_def)

section \<open>The running system\<close>

text \<open>
  The operations that change the executions, one after the other in any order: an evaluation of events,
  a round of linking, an expiry and the deletion of old executions.  The linking round may work on a list of fired executions read at any
  earlier time, because the main loop may expire executions between the query and the claim.
\<close>

inductive capture_step :: "capture_config \<Rightarrow> trigger list \<Rightarrow> bool \<Rightarrow> capture \<Rightarrow> capture \<Rightarrow> bool"
  for cfg triggers adapter where
  evaluated: "capture_step cfg triggers adapter cp (fst (evaluate cfg triggers adapter env evs cp))"
| linked: "capture_step cfg triggers adapter cp (cp\<lparr>cp_store := link_results now window rs stale [] (cp_store cp)\<rparr>)"
| expired: "capture_step cfg triggers adapter cp (cp\<lparr>cp_store := expire_at cutoff (cp_store cp)\<rparr>)"
| deleted: "capture_step cfg triggers adapter cp (cp\<lparr>cp_store := snd (delete_old_executions cutoff (cp_store cp))\<rparr>)"

definition init_capture :: capture where
  "init_capture = \<lparr>cp_store = empty_store, cp_guards = init_guardrails, cp_events = []\<rparr>"

definition capture_reachable :: "capture_config \<Rightarrow> trigger list \<Rightarrow> bool \<Rightarrow> capture \<Rightarrow> bool" where
  "capture_reachable cfg triggers adapter cp \<longleftrightarrow> (capture_step cfg triggers adapter)\<^sup>*\<^sup>* init_capture cp"

lemma delete_ok: "capture_ok st \<Longrightarrow> capture_ok (snd (delete_old_executions cutoff st))"
  using store_ok_delete [of st cutoff] by (auto simp: capture_ok_def) (simp add: delete_old_executions_def)

lemma capture_step_ok:
  "capture_step cfg triggers adapter cp cp' \<Longrightarrow> capture_ok (cp_store cp) \<Longrightarrow> capture_ok (cp_store cp')"
  by (cases rule: capture_step.cases) (auto intro: evaluate_ok link_results_ok expire_at_ok delete_ok)

lemma capture_ok_init: "capture_ok (cp_store init_capture)"
  by (simp add: capture_ok_def init_capture_def store_ok_empty) (simp add: empty_store_def)

lemma capture_reachable_ok: "capture_reachable cfg triggers adapter cp \<Longrightarrow> capture_ok (cp_store cp)"
  unfolding capture_reachable_def
  by (induction rule: rtranclp_induct) (auto intro: capture_ok_init capture_step_ok)

section \<open>Statement by statement\<close>

text \<open>
  The same operations on several threads: the unit is one SQL statement.  \<open>rn_calls\<close> are the executions
  whose call of the adapter is under way: an evaluation has saved them as pending, the adapter has yet to
  update them, and that update asks nothing of the status it overwrites.  Any statement of any other
  operation may come in between.  \<open>rn_cutoffs\<close> records the deletions.
\<close>

record running =
  rn_store :: exec_store
  rn_calls :: "nat list"
  rn_cutoffs :: "int list"

definition init_running :: running where
  "init_running = \<lparr>rn_store = empty_store, rn_calls = [], rn_cutoffs = []\<rparr>"

abbreviation stores :: "exec_store \<Rightarrow> running \<Rightarrow> running" where
  "stores st R \<equiv> R\<lparr>rn_store := st\<rparr>"

inductive capture_statement :: "bool \<Rightarrow> running \<Rightarrow> running \<Rightarrow> bool" for adapter where
  opened: "capture_statement adapter R (stores (snd (save_execution t (new_row ev Pending None) (rn_store R))) R
      \<lparr>rn_calls := (if adapter then [st_next (rn_store R)] else []) @ rn_calls R\<rparr>)"
| refused: "capture_statement adapter R (stores (snd (save_execution t (new_row ev Suppressed reason) (rn_store R))) R)"
| answered: "i \<in> set (rn_calls R) \<Longrightarrow> outcome_update u \<Longrightarrow>
    capture_statement adapter R (stores (update_execution i u (rn_store R)) R\<lparr>rn_calls := removeAll i (rn_calls R)\<rparr>)"
| raised: "capture_statement adapter R (R\<lparr>rn_calls := removeAll i (rn_calls R)\<rparr>)"
| claimed: "capture_statement adapter R (stores (snd (claim_result now i rid (rn_store R))) R)"
| gave_up: "capture_statement adapter R (stores (snd (expire_stale_fired cutoff action (rn_store R))) R)"
| timed_out: "capture_statement adapter R (stores (snd (expire_stale_pending cutoff (rn_store R))) R)"
| cleaned: "capture_statement adapter R (stores (snd (delete_old_executions cutoff (rn_store R))) R\<lparr>rn_cutoffs := cutoff # rn_cutoffs R\<rparr>)"

text \<open>
  No execution expires while its call is under way: the expiry spares what is younger than ten minutes, and
  a call waits fifteen seconds for its answer.
\<close>

definition timely_statement :: "bool \<Rightarrow> running \<Rightarrow> running \<Rightarrow> bool" where
  "timely_statement adapter R R' \<longleftrightarrow> capture_statement adapter R R'
     \<and> list_all (\<lambda>r. ex_id r \<in> set (rn_calls R') \<longrightarrow> ex_status r \<noteq> Expired) (st_rows (rn_store R'))"

definition running_ok :: "running \<Rightarrow> bool" where
  "running_ok R \<longleftrightarrow> store_ok (rn_store R)
     \<and> (\<forall>i \<in> set (rn_calls R). i < st_next (rn_store R)
          \<and> (case get_execution i (rn_store R) of None \<Rightarrow> True | Some r \<Rightarrow> ex_status r = Pending))"

text \<open>What becomes of one execution.\<close>

definition fate :: "int list \<Rightarrow> execution option \<Rightarrow> execution option \<Rightarrow> bool" where
  "fate cutoffs x x' \<longleftrightarrow> (case x of
      None \<Rightarrow> x' = None
    | Some r \<Rightarrow> (case x' of None \<Rightarrow> \<exists>c \<in> set cutoffs. ex_created_at r < c | Some r' \<Rightarrow> advanced r r'))"

lemma fate_refl [simp]: "fate cs x x"
  by (simp add: fate_def split: option.split)

lemma fate_trans: "fate cs x y \<Longrightarrow> fate cs' y z \<Longrightarrow> set cs \<subseteq> set cs' \<Longrightarrow> fate cs' x z"
  by (auto simp: fate_def split: option.splits intro: advanced_trans) (metis advanced_def)

lemma fate_update:
  assumes "\<And>r. ex_id (f r) = ex_id r" and "\<And>r. get_execution i st = Some r \<Longrightarrow> P r \<Longrightarrow> advanced r (f r)"
  shows "fate cs (get_execution i st) (get_execution i (update_where P f st))"
  using assms(2) by (auto simp: get_execution_update [OF assms(1)] fate_def split: option.split)

lemma claim_update:
  "snd (claim_result now i rid st) = update_where (claimable i Fired)
     (apply_update (no_update\<lparr>up_status := Some Completed, up_completed_at := Some now, up_linked := Some rid\<rparr>)) st"
  by (simp add: claim_result_def claim_execution_def)

lemma statement_fate:
  assumes "capture_statement adapter R R'" "running_ok R" "j < st_next (rn_store R)"
  shows "fate (rn_cutoffs R') (get_execution j (rn_store R)) (get_execution j (rn_store R'))"
  using assms(1)
proof cases
  case (answered i u)
  have "advanced r (apply_update u r)" if "get_execution j (rn_store R) = Some r" "ex_id r = i" for r
  proof -
    have "ex_id r = j" by (rule get_execution_id [OF that(1)])
    then have "ex_status r = Pending" using assms(2) that answered(2) by (auto simp: running_ok_def)
    then show ?thesis using answered(3)
      by (intro advancedI) (auto simp: outcome_update_def fired_update_def failed_update_def suppressed_update_def
          apply_update_simps intro: lifecycle.intros)
  qed
  then show ?thesis unfolding answered(1) update_execution_def
    by (simp, intro fate_update) (auto simp: apply_update_def)
next
  case (claimed now i rid)
  then show ?thesis unfolding claimed claim_update
    by (simp, intro fate_update, simp add: apply_update_def)
      (rule advancedI; auto simp: apply_update_simps claimable_def intro: lifecycle.finish)
next
  case (gave_up cutoff action)
  then show ?thesis unfolding gave_up expire_stale_fired_def
    by (simp, intro fate_update, simp) (rule advancedI; auto simp: stale_fired_def intro: lifecycle.stale)
next
  case (timed_out cutoff)
  then show ?thesis unfolding timed_out expire_stale_pending_def
    by (simp, intro fate_update, simp) (rule advancedI; auto simp: stale_pending_def intro: lifecycle.fail)
next
  case (cleaned cutoff)
  then show ?thesis using assms(2)
    by (auto simp: running_ok_def get_execution_delete fate_def split: option.split)
qed (use assms(2,3) in \<open>auto simp: running_ok_def get_execution_save\<close>)

lemma statement_store:
  assumes "capture_statement adapter R R'" "store_ok (rn_store R)"
  shows "store_ok (rn_store R') \<and> st_next (rn_store R) \<le> st_next (rn_store R') \<and> set (rn_cutoffs R) \<subseteq> set (rn_cutoffs R')"
  using assms(1)
proof cases
  case (answered i u)
  then show ?thesis using assms(2)
    by (simp add: update_execution_def) (rule store_ok_update; simp add: apply_update_def)
next
  case (claimed now i rid)
  then show ?thesis unfolding claimed claim_update using assms(2)
    by simp (rule store_ok_update; simp add: apply_update_def)
next
  case (gave_up cutoff action)
  then show ?thesis using assms(2) by (simp add: expire_stale_fired_def) (rule store_ok_update; simp)
next
  case (timed_out cutoff)
  then show ?thesis using assms(2) by (simp add: expire_stale_pending_def) (rule store_ok_update; simp)
next
  case (cleaned cutoff)
  then show ?thesis using store_ok_delete [OF assms(2), of cutoff] by (auto simp: delete_old_executions_def)
qed (use store_ok_save [OF assms(2)] assms(2) in \<open>auto simp: save_execution_def\<close>)

lemma lifecycle_from_pending: "lifecycle\<^sup>*\<^sup>* Pending s \<Longrightarrow> s \<noteq> Pending \<Longrightarrow> s \<in> {Fired, Suppressed, Expired, Completed}"
  by (cases s) auto

lemma timely_ok:
  assumes "timely_statement adapter R R'" "running_ok R"
  shows "running_ok R'"
proof -
  have st: "capture_statement adapter R R'" using assms(1) by (simp add: timely_statement_def)
  have store: "store_ok (rn_store R)" using assms(2) by (simp add: running_ok_def)
  note later = statement_store [OF st store]
  have "(case get_execution j (rn_store R') of None \<Rightarrow> True | Some r \<Rightarrow> ex_status r = Pending) \<and> j < st_next (rn_store R')"
    if j: "j \<in> set (rn_calls R')" for j
    using st
  proof cases
    case (opened t ev)
    then show ?thesis using j assms(2)
      by (auto simp: running_ok_def get_execution_save initial_row_def new_row_def split: if_splits)
  next
    case (refused t ev reason)
    then show ?thesis using j assms(2) by (auto simp: running_ok_def get_execution_save)
  next
    case (answered i u)
    then have "j \<noteq> i" "j \<in> set (rn_calls R)" using j by auto
    moreover from this(1) have "get_execution j (rn_store R') = get_execution j (rn_store R)"
      unfolding answered(1) update_execution_def using get_execution_id [of j "rn_store R"]
      by (cases "get_execution j (rn_store R)") (simp_all add: get_execution_update apply_update_def)
    ultimately show ?thesis using assms(2) by (simp add: answered(1) running_ok_def update_execution_def)
  next
    case (raised i)
    then show ?thesis using j assms(2) by (auto simp: running_ok_def)
  next
    case (claimed now i rid)
    then have "j \<in> set (rn_calls R)" using j by simp
    then show ?thesis using assms(2) unfolding claimed claim_update
      by (auto simp: running_ok_def get_execution_update apply_update_def claimable_def split: option.splits)
  next
    case (gave_up cutoff action)
    then have "j \<in> set (rn_calls R)" using j by simp
    then show ?thesis using assms(2) unfolding gave_up expire_stale_fired_def
      by (auto simp: running_ok_def get_execution_update stale_fired_def split: option.splits)
  next
    case (timed_out cutoff)
    then have jR: "j \<in> set (rn_calls R)" using j by simp
    have "ex_status r \<noteq> Expired" if "get_execution j (rn_store R') = Some r" for r
      using that assms(1) j get_execution_id [OF that] get_execution_Some [of "rn_store R'" j r] later by (auto simp: timely_statement_def list_all_iff)
    then show ?thesis using assms(2) jR unfolding timed_out expire_stale_pending_def
      by (auto simp: running_ok_def get_execution_update stale_pending_def split: option.splits if_splits)
  next
    case (cleaned cutoff)
    then show ?thesis using j assms(2)
      by (auto simp: running_ok_def get_execution_delete split: option.splits if_splits)
  qed
  with later show ?thesis by (auto simp: running_ok_def)
qed

lemma timely_run:
  assumes "(timely_statement adapter)\<^sup>*\<^sup>* R R'" "running_ok R"
  shows "running_ok R' \<and> st_next (rn_store R) \<le> st_next (rn_store R') \<and> set (rn_cutoffs R) \<subseteq> set (rn_cutoffs R')
    \<and> (\<forall>j < st_next (rn_store R). fate (rn_cutoffs R') (get_execution j (rn_store R)) (get_execution j (rn_store R')))"
  using assms(1)
proof (induction rule: rtranclp_induct)
  case base
  then show ?case using assms(2) by simp
next
  case (step y z)
  have y: "running_ok y" using step.IH by blast
  have st: "capture_statement adapter y z" using step.hyps(2) by (simp add: timely_statement_def)
  have store: "store_ok (rn_store y)" using y by (simp add: running_ok_def)
  note now = statement_store [OF st store]
  have "fate (rn_cutoffs z) (get_execution j (rn_store R)) (get_execution j (rn_store z))" if "j < st_next (rn_store R)" for j
  proof (rule fate_trans)
    show "fate (rn_cutoffs y) (get_execution j (rn_store R)) (get_execution j (rn_store y))" using step.IH that by blast
    show "fate (rn_cutoffs z) (get_execution j (rn_store y)) (get_execution j (rn_store z))"
      using step.IH that by (intro statement_fate [OF st y]) simp
    show "set (rn_cutoffs y) \<subseteq> set (rn_cutoffs z)" using now by blast
  qed
  moreover have "st_next (rn_store R) \<le> st_next (rn_store z)" "set (rn_cutoffs R) \<subseteq> set (rn_cutoffs z)"
    using step.IH now by auto
  ultimately show ?case using timely_ok [OF step.hyps(2) y] by blast
qed

lemma running_ok_init: "running_ok init_running"
  by (simp add: running_ok_def init_running_def store_ok_empty)

text \<open>Each operation, run alone, is a sequence of these statements.\<close>

definition quiet :: "exec_store \<Rightarrow> int list \<Rightarrow> running" where
  "quiet st cutoffs = \<lparr>rn_store = st, rn_calls = [], rn_cutoffs = cutoffs\<rparr>"

lemma quiet_step: "capture_statement adapter R R' \<Longrightarrow> rn_calls R' = [] \<Longrightarrow> (timely_statement adapter)\<^sup>*\<^sup>* R R'"
  by (rule r_into_rtranclp) (simp add: timely_statement_def list_all_iff)

lemma quiet_store_ok: "(timely_statement adapter)\<^sup>*\<^sup>* (quiet st cs) R \<Longrightarrow> store_ok st \<Longrightarrow> store_ok (rn_store R)"
  using timely_run [of adapter "quiet st cs" R] by (simp add: running_ok_def quiet_def)

lemma record_verdict_statements:
  assumes "store_ok (cp_store cp)"
  shows "(timely_statement adapter)\<^sup>*\<^sup>* (quiet (cp_store cp) cs) (quiet (cp_store (record_verdict cfg adapter env v cp)) cs)"
proof -
  define i where "i = st_next (cp_store cp)"
  define w where "w = env i"
  define ev where "ev = vd_event v"
  define cp1 where "cp1 = cp\<lparr>cp_store := snd (save_execution (wd_created w) (new_row ev Pending None) (cp_store cp))\<rparr>"
  define R1 where "R1 = \<lparr>rn_store = cp_store cp1, rn_calls = (if adapter then [i] else []), rn_cutoffs = cs\<rparr>"
  consider "\<not> vd_allowed v" | "vd_allowed v" "\<not> adapter" | "vd_allowed v" "adapter" by blast
  then show ?thesis
  proof cases
    case 1
    then have "quiet (cp_store (record_verdict cfg adapter env v cp)) cs =
        stores (snd (save_execution (wd_created w) (new_row ev Suppressed (vd_reason v)) (cp_store cp))) (quiet (cp_store cp) cs)"
      by (simp add: record_verdict_def quiet_def Let_def w_def i_def ev_def)
    then show ?thesis using capture_statement.refused [of adapter "quiet (cp_store cp) cs" "wd_created w" ev "vd_reason v"]
      by (intro quiet_step) (simp_all add: quiet_def)
  next
    case 2
    then have "quiet (cp_store (record_verdict cfg adapter env v cp)) cs = R1"
      by (simp add: record_verdict_def quiet_def Let_def w_def i_def ev_def R1_def cp1_def)
    then show ?thesis using 2 capture_statement.opened [of adapter "quiet (cp_store cp) cs" "wd_created w" ev]
      by (intro quiet_step) (simp_all add: quiet_def R1_def cp1_def)
  next
    case 3
    have "capture_statement adapter (quiet (cp_store cp) cs) R1"
      using 3(2) capture_statement.opened [of adapter "quiet (cp_store cp) cs" "wd_created w" ev]
      by (simp add: quiet_def R1_def cp1_def i_def)
    moreover have "list_all (\<lambda>r. ex_id r \<in> set (rn_calls R1) \<longrightarrow> ex_status r \<noteq> Expired) (st_rows (rn_store R1))"
      using assms by (auto simp: R1_def cp1_def i_def save_execution_def initial_row_def new_row_def list_all_iff store_ok_def)
    ultimately have one: "(timely_statement adapter)\<^sup>*\<^sup>* (quiet (cp_store cp) cs) R1"
      by (intro r_into_rtranclp) (simp add: timely_statement_def)
    have rv: "record_verdict cfg adapter env v cp
        = (case execute_capture cfg w i ev cp1 of Inl _ \<Rightarrow> cp1 | Inr (_, cp2) \<Rightarrow> cp2)"
      unfolding record_verdict_def Let_def i_def [symmetric] w_def [symmetric] ev_def [symmetric] cp1_def [symmetric]
      using 3 by simp
    have "capture_statement adapter R1 (quiet (cp_store (record_verdict cfg adapter env v cp)) cs)"
    proof (cases "execute_capture cfg w i ev cp1")
      case (Inl e)
      then have "record_verdict cfg adapter env v cp = cp1" by (simp add: rv)
      then show ?thesis using 3 capture_statement.raised [of adapter R1 i] by (simp add: quiet_def R1_def)
    next
      case (Inr x)
      then obtain res cp2 where x: "execute_capture cfg w i ev cp1 = Inr (res, cp2)" by (cases x) auto
      obtain u where "outcome_update u" "cp_store cp2 = update_execution i u (cp_store cp1)"
        using execute_capture_outcome [OF x] by blast
      moreover have "record_verdict cfg adapter env v cp = cp2" by (simp add: rv x)
      ultimately show ?thesis using 3 capture_statement.answered [of i R1 u adapter] by (simp add: quiet_def R1_def)
    qed
    then have "(timely_statement adapter)\<^sup>*\<^sup>* R1 (quiet (cp_store (record_verdict cfg adapter env v cp)) cs)"
      by (rule quiet_step) (simp add: quiet_def)
    with one show ?thesis by (rule rtranclp_trans)
  qed
qed

lemma record_verdicts_statements:
  "store_ok (cp_store cp) \<Longrightarrow>
   (timely_statement adapter)\<^sup>*\<^sup>* (quiet (cp_store cp) cs) (quiet (cp_store (fold (record_verdict cfg adapter env) vs cp)) cs)"
proof (induction vs arbitrary: cp)
  case (Cons v vs)
  note one = record_verdict_statements [OF Cons.prems, of adapter cs cfg env v]
  have "store_ok (cp_store (record_verdict cfg adapter env v cp))"
    using quiet_store_ok [OF one Cons.prems] by (simp add: quiet_def)
  from rtranclp_trans [OF one Cons.IH [OF this]] show ?case by simp
qed simp

lemma evaluate_events_statements:
  "store_ok (cp_store cp) \<Longrightarrow>
   (timely_statement adapter)\<^sup>*\<^sup>* (quiet (cp_store cp) cs) (quiet (cp_store (fst (evaluate_events cfg triggers adapter env evs cp))) cs)"
proof (induction evs arbitrary: cp)
  case (Cons ne evs)
  obtain now ev where ne: "ne = (now, ev)" by (cases ne)
  show ?case
  proof (cases "evaluate_event cfg triggers adapter env now ev cp")
    case (Inr cp1)
    then obtain vs g where "cp1 = fold (record_verdict cfg adapter env) vs (cp\<lparr>cp_guards := g\<rparr>)"
      by (auto simp: evaluate_event_def map_sum_Inr_iff split_def Let_def)
    then have one: "(timely_statement adapter)\<^sup>*\<^sup>* (quiet (cp_store cp) cs) (quiet (cp_store cp1) cs)"
      using record_verdicts_statements [of "cp\<lparr>cp_guards := g\<rparr>" adapter cs cfg env vs] Cons.prems by simp
    have "store_ok (cp_store cp1)" using quiet_store_ok [OF one Cons.prems] by (simp add: quiet_def)
    from rtranclp_trans [OF one Cons.IH [OF this]] show ?thesis by (simp add: ne Inr)
  qed (simp add: ne)
qed simp

lemma link_results_statements:
  "(timely_statement adapter)\<^sup>*\<^sup>* (quiet st cs) (quiet (link_results now window rs xs matched st) cs)"
proof (induction xs arbitrary: matched st)
  case (Cons x xs)
  have one: "(timely_statement adapter)\<^sup>*\<^sup>* (quiet st cs) (quiet (snd (claim_result now i rid st)) cs)" for i rid
    using capture_statement.claimed [of adapter "quiet st cs" now i rid] by (intro quiet_step) (simp_all add: quiet_def)
  have "(timely_statement adapter)\<^sup>*\<^sup>* (quiet st cs)
      (quiet (link_results now window rs xs matched' (snd (claim_result now i rid st))) cs)" for i rid matched'
    by (rule rtranclp_trans [OF one Cons.IH])
  with Cons.IH show ?case by (simp add: split_def Let_def split: option.split)
qed simp

lemma operations_are_statements:
  assumes "capture_step cfg triggers adapter cp cp'" "store_ok (cp_store cp)"
  shows "\<exists>cs'. (timely_statement adapter)\<^sup>*\<^sup>* (quiet (cp_store cp) cs) (quiet (cp_store cp') cs')"
  using assms(1)
proof cases
  case (evaluated env evs)
  have "(timely_statement adapter)\<^sup>*\<^sup>* (quiet (cp_store cp) cs) (quiet (cp_store (fst (evaluate cfg triggers adapter env evs cp))) cs)"
    using evaluate_events_statements [OF assms(2), of adapter cs cfg triggers env evs] by (simp add: evaluate_def)
  then show ?thesis using evaluated by auto
next
  case (linked now window rs stale)
  then show ?thesis using link_results_statements [of adapter "cp_store cp" cs now window rs stale "[]"] by auto
next
  case (expired cutoff)
  define st where "st = snd (expire_stale_fired cutoff (Some capture_action) (cp_store cp))"
  have "(timely_statement adapter)\<^sup>*\<^sup>* (quiet (cp_store cp) cs) (quiet st cs)"
    using capture_statement.gave_up [of adapter "quiet (cp_store cp) cs" cutoff "Some capture_action"]
    by (intro quiet_step) (simp_all add: quiet_def st_def)
  moreover have "(timely_statement adapter)\<^sup>*\<^sup>* (quiet st cs) (quiet (expire_at cutoff (cp_store cp)) cs)"
    using capture_statement.timed_out [of adapter "quiet st cs" cutoff]
    by (intro quiet_step) (simp_all add: quiet_def st_def expire_at_def)
  ultimately show ?thesis using expired by (auto intro: rtranclp_trans)
next
  case (deleted cutoff)
  have "(timely_statement adapter)\<^sup>*\<^sup>* (quiet (cp_store cp) cs) (quiet (snd (delete_old_executions cutoff (cp_store cp))) (cutoff # cs))"
    using capture_statement.cleaned [of adapter "quiet (cp_store cp) cs" cutoff]
    by (intro quiet_step) (simp_all add: quiet_def)
  then show ?thesis using deleted by auto
qed

lemma reachable_statements:
  assumes "capture_reachable cfg triggers adapter cp"
  shows "\<exists>cs. (timely_statement adapter)\<^sup>*\<^sup>* init_running (quiet (cp_store cp) cs)"
  using assms unfolding capture_reachable_def
proof (induction rule: rtranclp_induct)
  case base
  have "init_running = quiet (cp_store init_capture) []" by (simp add: init_running_def quiet_def init_capture_def)
  then show ?case by (metis rtranclp.rtrancl_refl)
next
  case (step y z)
  then have "store_ok (cp_store y)"
    using capture_reachable_ok [of cfg triggers adapter y] by (simp add: capture_ok_def capture_reachable_def)
  with step show ?case using operations_are_statements rtranclp_trans by meson
qed

text \<open>
  A call that outlasts the expiry: its execution, already expired, becomes fired when the answer comes, because
  the update of the answer does not ask for the status it overwrites.
\<close>

theorem late_answer_revives:
  "\<exists>R R'. (capture_statement True)\<^sup>*\<^sup>* init_running R \<and> capture_statement True R R'
    \<and> map ex_status (st_rows (rn_store R)) = [Expired] \<and> map ex_status (st_rows (rn_store R')) = [Fired]"
proof -
  define ev where "ev = \<lparr>ce_id = None, ce_time = None, ce_message = Msg [] [], ce_type = ''error_spike'', ce_severity = None,
     ce_fields = (\<lambda>_. PNone), ce_changes = [], ce_delta = 0, ce_loss = Fin 0, ce_stamp = None\<rparr>"
  define R1 where "R1 = \<lparr>rn_store = snd (save_execution 0 (new_row ev Pending None) empty_store), rn_calls = [1], rn_cutoffs = []\<rparr>"
  define R2 where "R2 = R1\<lparr>rn_store := snd (expire_stale_pending 601 (rn_store R1))\<rparr>"
  define R3 where "R3 = R2\<lparr>rn_store := update_execution 1 (fired_update 700 None) (rn_store R2), rn_calls := []\<rparr>"
  have "capture_statement True init_running R1"
    using capture_statement.opened [of True init_running 0 ev] by (simp add: init_running_def R1_def empty_store_def)
  moreover have "capture_statement True R1 R2"
    using capture_statement.timed_out [of True R1 601] by (simp add: R2_def)
  moreover have "capture_statement True R2 R3"
    using capture_statement.answered [of 1 R2 "fired_update 700 None" True] by (simp add: R3_def R2_def R1_def)
  moreover have "map ex_status (st_rows (rn_store R2)) = [Expired]" "map ex_status (st_rows (rn_store R3)) = [Fired]"
    by (simp_all add: R3_def R2_def R1_def save_execution_def empty_store_def initial_row_def new_row_def expire_stale_pending_def
        update_where_def stale_pending_def update_execution_def fired_update_def apply_update_simps)
  ultimately show ?thesis by (meson rtranclp.rtrancl_into_rtrancl rtranclp.rtrancl_refl)
qed

section \<open>Which result an execution gets\<close>

definition candidate :: "int list \<Rightarrow> rat \<Rightarrow> rat \<Rightarrow> int \<times> rat \<Rightarrow> bool" where
  "candidate matched lo hi c \<longleftrightarrow> fst c \<notin> set matched \<and> lo \<le> snd c \<and> snd c \<le> hi"

definition distance :: "rat \<Rightarrow> rat \<Rightarrow> rat" where
  "distance lo t = \<bar>fl (t - lo)\<bar>"

lemma best_result_Cons:
  "best_result matched lo hi best (c # rs) = best_result matched lo hi
     (if \<not> candidate matched lo hi c then best
      else case best of None \<Rightarrow> Some (fst c, distance lo (snd c))
        | Some b \<Rightarrow> if distance lo (snd c) < snd b then Some (fst c, distance lo (snd c)) else best) rs"
  by (cases c; cases best) (auto simp: candidate_def distance_def Let_def)

lemma best_result_from:
  "best_result matched lo hi best rs = Some b \<Longrightarrow>
   best = Some b \<or> (\<exists>c \<in> set rs. candidate matched lo hi c \<and> b = (fst c, distance lo (snd c)))"
proof (induction rs arbitrary: best)
  case (Cons c rs)
  from Cons.IH [OF Cons.prems [unfolded best_result_Cons]] show ?case
    by (auto split: if_splits option.splits)
qed simp

lemma best_result_keeps:
  "best = Some b \<Longrightarrow> \<exists>b'. best_result matched lo hi best rs = Some b' \<and> snd b' \<le> snd b"
proof (induction rs arbitrary: best b)
  case (Cons c rs)
  define best' where "best' = (if \<not> candidate matched lo hi c then best
      else case best of None \<Rightarrow> Some (fst c, distance lo (snd c))
        | Some b \<Rightarrow> if distance lo (snd c) < snd b then Some (fst c, distance lo (snd c)) else best)"
  have "\<exists>b1. best' = Some b1 \<and> snd b1 \<le> snd b" using Cons.prems by (auto simp: best'_def simp del: split_paired_Ex)
  then obtain b1 where b1: "best' = Some b1" "snd b1 \<le> snd b" by blast
  from Cons.IH [OF b1(1)] b1(2) show ?case by (auto simp: best_result_Cons best'_def [symmetric])
qed simp

lemma best_result_nearest:
  "c \<in> set rs \<Longrightarrow> candidate matched lo hi c \<Longrightarrow>
   \<exists>b. best_result matched lo hi best rs = Some b \<and> snd b \<le> distance lo (snd c)"
proof (induction rs arbitrary: best)
  case (Cons a rs)
  show ?case
  proof (cases "a = c")
    case True
    define best' where "best' = (case best of None \<Rightarrow> Some (fst c, distance lo (snd c))
        | Some b \<Rightarrow> if distance lo (snd c) < snd b then Some (fst c, distance lo (snd c)) else best)"
    have "\<exists>b1. best' = Some b1 \<and> snd b1 \<le> distance lo (snd c)"
      by (cases best) (auto simp: best'_def not_less)
    then obtain b1 where b1: "best' = Some b1" "snd b1 \<le> distance lo (snd c)" by blast
    from best_result_keeps [OF b1(1), of matched lo hi rs] b1(2) obtain b' where
      "best_result matched lo hi best' rs = Some b'" "snd b' \<le> distance lo (snd c)" by auto
    then show ?thesis using Cons.prems(2) True by (simp add: best_result_Cons best'_def [symmetric])
  next
    case False
    with Cons.prems Cons.IH show ?thesis by (simp add: best_result_Cons)
  qed
qed simp

text \<open>The links a round makes when every claim succeeds, as pairs of execution and result.\<close>

fun assign :: "int \<Rightarrow> (int \<times> rat) list \<Rightarrow> execution list \<Rightarrow> int list \<Rightarrow> (nat \<times> int) list" where
  "assign window rs [] matched = []"
| "assign window rs (x # xs) matched =
     (case ex_fired_at x of None \<Rightarrow> assign window rs xs matched
      | Some t \<Rightarrow> (case best_result matched (of_int t) (of_int (t + window)) None rs of
          None \<Rightarrow> assign window rs xs matched
        | Some b \<Rightarrow> (ex_id x, fst b) # assign window rs xs (fst b # matched)))"

lemma assign_fst: "fst ` set (assign window rs xs matched) \<subseteq> ex_id ` set xs"
  by (induction xs arbitrary: matched) (fastforce split: option.splits)+

lemma assign_distinct_ids: "distinct (map ex_id xs) \<Longrightarrow> distinct (map fst (assign window rs xs matched))"
proof (induction xs arbitrary: matched)
  case (Cons x xs)
  have "ex_id x \<notin> fst ` set (assign window rs xs m)" for m
    using assign_fst [of window rs xs m] Cons.prems by auto
  with Cons show ?case by (auto split: option.split)
qed simp

lemma assign_distinct_results:
  "distinct (map snd (assign window rs xs matched)) \<and> snd ` set (assign window rs xs matched) \<inter> set matched = {}"
proof (induction xs arbitrary: matched)
  case (Cons x xs)
  show ?case
  proof (cases "ex_fired_at x")
    case None
    with Cons.IH show ?thesis by simp
  next
    case (Some t)
    show ?thesis
    proof (cases "best_result matched (of_int t) (of_int (t + window)) None rs")
      case None
      with Some Cons.IH show ?thesis by simp
    next
      case b: (Some b)
      from best_result_from [OF b] have "fst b \<notin> set matched" by (auto simp: candidate_def)
      with Cons.IH [of "fst b # matched"] show ?thesis by (auto simp: Some b simp del: of_int_add)
    qed
  qed
qed simp

text \<open>Each link is the nearest result of the window that no earlier link took.\<close>

definition nearest_link :: "int \<Rightarrow> (int \<times> rat) list \<Rightarrow> int list \<Rightarrow> execution list \<Rightarrow> nat \<times> int \<Rightarrow> bool" where
  "nearest_link window rs taken xs p \<longleftrightarrow>
     (\<exists>x \<in> set xs. \<exists>f t. ex_id x = fst p \<and> ex_fired_at x = Some f \<and> (snd p, t) \<in> set rs
        \<and> candidate taken (of_int f) (of_int (f + window)) (snd p, t)
        \<and> (\<forall>c \<in> set rs. candidate taken (of_int f) (of_int (f + window)) c \<longrightarrow> distance (of_int f) t \<le> distance (of_int f) (snd c)))"

lemma best_result_link:
  assumes "ex_fired_at x = Some f" and "best_result taken (of_int f) (of_int (f + window)) None rs = Some b" and "x \<in> set xs"
  shows "nearest_link window rs taken xs (ex_id x, fst b)"
proof -
  obtain c where c: "c \<in> set rs" "candidate taken (of_int f) (of_int (f + window)) c" "b = (fst c, distance (of_int f) (snd c))"
    using best_result_from [OF assms(2)] by auto
  have "distance (of_int f) (snd c) \<le> distance (of_int f) (snd c')"
    if "c' \<in> set rs" "candidate taken (of_int f) (of_int (f + window)) c'" for c'
    using best_result_nearest [OF that, of None] assms(2) c(3) by auto
  then show ?thesis
    unfolding nearest_link_def using assms(1,3) c
    by (intro bexI [of _ x] exI [of _ f] exI [of _ "snd c"]) auto
qed

lemma candidate_taken: "set taken = set taken' \<Longrightarrow> candidate taken = candidate taken'"
  by (simp add: candidate_def fun_eq_iff)

lemma nearest_link_mono: "nearest_link window rs taken xs p \<Longrightarrow> nearest_link window rs taken (x # xs) p"
  by (fastforce simp: nearest_link_def)

lemma nearest_link_taken: "set taken = set taken' \<Longrightarrow> nearest_link window rs taken xs p \<Longrightarrow> nearest_link window rs taken' xs p"
  by (simp add: nearest_link_def candidate_taken [of taken taken'])

lemma assign_nearest:
  "assign window rs xs matched = ps @ p # qs \<Longrightarrow> nearest_link window rs (matched @ map snd ps) xs p"
proof (induction xs arbitrary: matched ps)
  case (Cons x xs)
  show ?case
  proof (cases "ex_fired_at x")
    case None
    with Cons show ?thesis by (auto intro: nearest_link_mono)
  next
    case (Some t)
    show ?thesis
    proof (cases "best_result matched (of_int t) (of_int (t + window)) None rs")
      case None
      with Some Cons show ?thesis by (auto intro: nearest_link_mono)
    next
      case b: (Some b)
      with Some Cons.prems have eq: "(ex_id x, fst b) # assign window rs xs (fst b # matched) = ps @ p # qs"
        by (simp del: of_int_add)
      show ?thesis
      proof (cases ps)
        case Nil
        with eq show ?thesis using best_result_link [OF Some b] by auto
      next
        case (Cons p' ps')
        with eq have "assign window rs xs (fst b # matched) = ps' @ p # qs" "p' = (ex_id x, fst b)" by auto
        with Cons.IH [of "fst b # matched" ps'] have "nearest_link window rs ((fst b # matched) @ map snd ps') xs p" by simp
        then have "nearest_link window rs (matched @ map snd ps) xs p"
          by (rule nearest_link_taken [rotated]) (auto simp: \<open>ps = p' # ps'\<close> \<open>p' = (ex_id x, fst b)\<close>)
        then show ?thesis by (rule nearest_link_mono)
      qed
    qed
  qed
qed simp

text \<open>An execution left unlinked has no result of its window left.\<close>

lemma assign_complete:
  assumes "x \<in> set xs" and "ex_fired_at x = Some f" and "ex_id x \<notin> fst ` set (assign window rs xs matched)" and "c \<in> set rs"
  shows "\<not> candidate (matched @ map snd (assign window rs xs matched)) (of_int f) (of_int (f + window)) c"
  using assms
proof (induction xs arbitrary: matched)
  case (Cons y xs)
  show ?case
  proof (cases "ex_fired_at y")
    case None
    with Cons show ?thesis by auto
  next
    case (Some t)
    show ?thesis
    proof (cases "best_result matched (of_int t) (of_int (t + window)) None rs")
      case None
      show ?thesis
      proof (cases "x = y")
        case True
        with None Some Cons.prems(2,4) have "\<not> candidate matched (of_int f) (of_int (f + window)) c"
          using best_result_nearest [of c rs matched _ _ None] by fastforce
        then show ?thesis by (auto simp: candidate_def)
      next
        case False
        with None Some Cons show ?thesis by auto
      qed
    next
      case b: (Some b)
      with Some Cons.prems have ne: "x \<noteq> y" "ex_id x \<notin> fst ` set (assign window rs xs (fst b # matched))"
        by (auto simp del: of_int_add)
      with Cons.IH [of "fst b # matched"] Cons.prems
      have "\<not> candidate ((fst b # matched) @ map snd (assign window rs xs (fst b # matched))) (of_int f) (of_int (f + window)) c"
        by simp
      then show ?thesis using Some b by (auto simp: candidate_def simp del: of_int_add)
    qed
  qed
qed simp

definition completed_update :: "int \<Rightarrow> int \<Rightarrow> exec_update" where
  "completed_update now rid = no_update\<lparr>up_status := Some Completed, up_completed_at := Some now, up_linked := Some rid\<rparr>"

definition complete :: "int \<Rightarrow> (nat \<times> int) list \<Rightarrow> execution \<Rightarrow> execution" where
  "complete now pairs r = (if ex_status r = Fired then
     (case map_of pairs (ex_id r) of None \<Rightarrow> r | Some rid \<Rightarrow> apply_update (completed_update now rid) r) else r)"

definition still_fired :: "execution list \<Rightarrow> exec_store \<Rightarrow> bool" where
  "still_fired xs st \<longleftrightarrow> (\<forall>x \<in> set xs. \<exists>r \<in> set (st_rows st). ex_id r = ex_id x \<and> ex_status r = Fired)"

lemma complete_Nil [simp]: "complete now [] = (\<lambda>r. r)"
  by (auto simp: complete_def fun_eq_iff)

lemma claim_fired:
  assumes "r \<in> set (st_rows st)" "ex_id r = i" "ex_status r = Fired"
  shows "fst (claim_result now i rid st) \<and> st_rows (snd (claim_result now i rid st)) = map (complete now [(i, rid)]) (st_rows st)"
proof -
  have "(if claimable i Fired r then apply_update (completed_update now rid) r else r) = complete now [(i, rid)] r" for r
    by (auto simp: claimable_def complete_def)
  moreover have "filter (claimable i Fired) (st_rows st) \<noteq> []"
    using assms by (auto simp: filter_empty_conv claimable_def)
  ultimately show ?thesis
    by (simp add: claim_result_def claim_execution_def count_where_def update_where_def completed_update_def [symmetric])
qed

lemma complete_complete:
  "i \<notin> fst ` set pairs \<Longrightarrow> complete now pairs (complete now [(i, rid)] r) = complete now ((i, rid) # pairs) r"
  by (cases "ex_id r = i"; cases "map_of pairs (ex_id r)")
    (auto simp: complete_def completed_update_def apply_update_simps dest: map_of_SomeD)

lemma still_fired_claim:
  assumes "still_fired xs st" and "i \<notin> ex_id ` set xs" and "st_rows st' = map (complete now [(i, rid)]) (st_rows st)"
  shows "still_fired xs st'"
  unfolding still_fired_def
proof
  fix x assume x: "x \<in> set xs"
  then obtain r where r: "r \<in> set (st_rows st)" "ex_id r = ex_id x" "ex_status r = Fired"
    using assms(1) by (auto simp: still_fired_def)
  have "complete now [(i, rid)] r = r" using r(2) x assms(2) by (auto simp: complete_def)
  then have "r \<in> set (st_rows st')" unfolding assms(3) using r(1) by (metis image_eqI list.set_map)
  with r show "\<exists>r \<in> set (st_rows st'). ex_id r = ex_id x \<and> ex_status r = Fired" by blast
qed

lemma link_results_rows:
  "still_fired xs st \<Longrightarrow> distinct (map ex_id xs) \<Longrightarrow>
   st_rows (link_results now window rs xs matched st) = map (complete now (assign window rs xs matched)) (st_rows st)"
proof (induction xs arbitrary: matched st)
  case Nil
  then show ?case by simp
next
  case (Cons x xs)
  have rest: "still_fired xs st" "distinct (map ex_id xs)" "ex_id x \<notin> ex_id ` set xs"
    using Cons.prems by (auto simp: still_fired_def)
  show ?case
  proof (cases "ex_fired_at x")
    case None
    with Cons.IH [OF rest(1,2)] show ?thesis by simp
  next
    case (Some t)
    show ?thesis
    proof (cases "best_result matched (of_int t) (of_int (t + window)) None rs")
      case None
      with Some Cons.IH [OF rest(1,2)] show ?thesis by simp
    next
      case b: (Some b)
      obtain r where r: "r \<in> set (st_rows st)" "ex_id r = ex_id x" "ex_status r = Fired"
        using Cons.prems(1) by (auto simp: still_fired_def)
      define st1 where "st1 = snd (claim_result now (ex_id x) (fst b) st)"
      have st1: "fst (claim_result now (ex_id x) (fst b) st)" "st_rows st1 = map (complete now [(ex_id x, fst b)]) (st_rows st)"
        using claim_fired [OF r] by (simp_all add: st1_def)
      have "ex_id x \<notin> fst ` set (assign window rs xs (fst b # matched))"
        using assign_fst rest(3) by fastforce
      with Cons.IH [OF still_fired_claim [OF rest(1,3) st1(2)] rest(2), of "fst b # matched"] st1 Some b
      show ?thesis by (simp add: split_def Let_def st1_def complete_complete o_def del: of_int_add)
    qed
  qed
qed

lemma fired_list_ok:
  assumes "store_ok st"
  shows "still_fired (get_fired_unmatched capture_action st) st" "distinct (map ex_id (get_fired_unmatched capture_action st))"
proof -
  show "still_fired (get_fired_unmatched capture_action st) st"
    by (auto simp: still_fired_def get_fired_unmatched_set fired_unmatched_def)
  have "distinct (get_fired_unmatched capture_action st)"
    unfolding get_fired_unmatched_def using store_ok_distinct [OF assms]
    by (intro distinct_order_by distinct_filter) (simp add: distinct_map)
  moreover have "inj_on ex_id (set (get_fired_unmatched capture_action st))"
    using store_ok_distinct [OF assms] by (auto simp: distinct_map get_fired_unmatched_set inj_on_def)
  ultimately show "distinct (map ex_id (get_fired_unmatched capture_action st))" by (simp add: distinct_map)
qed

text \<open>A round of linking in one equation.\<close>

lemma on_results_imported_rows:
  assumes "store_ok st" and "on_results_imported cfg now results st = Inr st'" and "match_window cfg = Inr window"
  shows "st_rows st' = map (complete now (assign window (parsed_results results) (get_fired_unmatched capture_action st) [])) (st_rows st)"
proof (cases "get_fired_unmatched capture_action st = [] \<or> parsed_results results = []")
  case True
  have none: "assign window [] xs [] = []" for xs by (induction xs) (auto split: option.split)
  from True have "assign window (parsed_results results) (get_fired_unmatched capture_action st) [] = []" using none by auto
  then show ?thesis using True assms(2) by (auto simp: on_results_imported_def Let_def)
next
  case False
  with assms(2,3) have "st' = link_results now window (parsed_results results) (get_fired_unmatched capture_action st) [] st"
    by (simp add: on_results_imported_def Let_def)
  then show ?thesis using link_results_rows [OF fired_list_ok [OF assms(1)]] by simp
qed

section \<open>The budget of speed tests\<close>

lemma interval_reason_None:
  "interval_reason (Some p) ref n code = None \<Longrightarrow> 0 < n \<Longrightarrow> of_int n \<le> fl (ref - p)"
  by (auto simp: interval_reason_def Let_def split: if_splits)

lemma Max_fire:
  assumes "interval_reason (map_option of_int (get_latest_fire action st)) ref n code = None" and "0 < n" and "t \<in> set (fires_of_action action st)"
  shows "of_int n \<le> fl (ref - of_int t)"
proof -
  define m where "m = Max (set (fires_of_action action st))"
  have ne: "fires_of_action action st \<noteq> []" using assms(3) by auto
  then have "get_latest_fire action st = Some m" by (simp add: get_latest_fire_def m_def)
  with assms(1,2) have "of_int n \<le> fl (ref - of_int m)" using interval_reason_None by simp
  also have "\<dots> \<le> fl (ref - of_int t)" using assms(3) by (intro fl_mono) (simp add: m_def)
  finally show ?thesis .
qed

lemma execute_accepted:
  assumes "execute_capture cfg w i ev cp = Inr ((True, err), cp')"
  shows "preflight cfg w (case ce_stamp ev of None \<Rightarrow> wd_now w | Some t \<Rightarrow> t) (cp_store cp) = Inr None"
  using assms by (auto simp: execute_capture_def Let_def map_sum_Inr_iff split: option.splits)

section \<open>Properties\<close>

text \<open>
  C15. In every state the system can reach, by evaluations, rounds of linking on fresh or stale
  lists, expiries and deletions of old executions in any order, the ids of the executions grow and each row is consistent
  with its status: a pending row has no fire and no result, a fired one its time of fire and
  one attempt, a completed one its result and both times, a suppressed one its reason and no
  fire, an expired one its error and no result.
\<close>

theorem execution_invariant:
  assumes "capture_reachable cfg triggers adapter cp"
  shows "store_ok (cp_store cp) \<and> list_all row_ok (st_rows (cp_store cp))"
  using capture_reachable_ok [OF assms] by (simp add: capture_ok_def list_all_iff)

definition sample_capture :: capture_config where
  "sample_capture = \<lparr>cc_enabled = PBool True, cc_flag = (\<lambda>_. PBool True),
     cc_filters = \<lparr>fc_direction = ''both'', fc_min_qam = [], fc_min_delta = 0, fc_health_level = ''any_degradation'', fc_min_loss = PInt 5\<rparr>,
     cc_guards = sample_guards, cc_min_interval = PInt 14400, cc_max_per_day = PInt 4, cc_match_window = PInt 900\<rparr>"

definition sample_spike :: cap_event where
  "sample_spike = \<lparr>ce_id = None, ce_time = None, ce_message = Msg [] [], ce_type = ''error_spike'', ce_severity = Some ''warning'',
     ce_fields = (\<lambda>_. PNone), ce_changes = [], ce_delta = 5000, ce_loss = Fin 0, ce_stamp = Some 100000\<rparr>"

definition sample_world :: world where
  "sample_world = \<lparr>wd_created = 100000, wd_now = 100000, wd_cached = None, wd_remote = None, wd_post = Answered 201 [], wd_fired = 100001\<rparr>"

definition spike_trigger :: trigger where
  "spike_trigger = mk_trigger ''error_spike'' ''sc_trigger_error_spike'' None [] Error_Spike_Filter"

definition sample_evaluated :: capture where
  "sample_evaluated = fst (evaluate sample_capture [spike_trigger] True (\<lambda>_. sample_world) [(0, sample_spike)] init_capture)"

lemma sample_step: "capture_step sample_capture [spike_trigger] True init_capture sample_evaluated"
  unfolding sample_evaluated_def by (rule capture_step.evaluated)

lemma sample_reachable: "capture_reachable sample_capture [spike_trigger] True sample_evaluated"
  unfolding capture_reachable_def using sample_step by (rule r_into_rtranclp)

theorem execution_invariant_witness:
  "store_ok (cp_store sample_evaluated) \<and> list_all row_ok (st_rows (cp_store sample_evaluated))"
  by (rule execution_invariant [OF sample_reachable])

lemma sample_qualifying: "qualifying sample_capture [spike_trigger] sample_spike = Inr [(spike_trigger, sample_spike)]"
  by (simp add: qualifying_def spike_trigger_def mk_trigger_def matches_def sample_spike_def sample_capture_def switched_on_def
     apply_sub_filter_def error_spike_sub_filter_def text_of_def)

lemma sample_batch: "check_batch sample_guards 0 [(spike_trigger, sample_spike)] init_guardrails
  = ([allowed (spike_trigger, sample_spike)], \<lparr>last_global_fire = Some 0, last_trigger_fire = [(''error_spike'', 0)],
      hourly_fires = [0], match_history = [(''error_spike'', [0])]\<rparr>)"
  by (simp add: check_batch_def check_one_def record_match_def init_guardrails_def sample_guards_def cooling_def dict_get_def
      spike_trigger_def mk_trigger_def allowed_def Let_def)

definition sample_row :: execution where
  "sample_row = (initial_row 1 100000 (new_row sample_spike Pending None))\<lparr>ex_status := Fired, ex_fired_at := Some 100001, ex_attempts := 1\<rparr>"

lemma sample_preflight: "fires_of_action capture_action st = [] \<Longrightarrow> preflight sample_capture sample_world 100000 st = Inr None"
  by (simp add: preflight_def Let_def get_int_def interval_check_def interval_reason_def latest_result_def sample_world_def
      get_latest_fire_def daily_check_def count_fires_since_def sample_capture_def)

lemma sample_execute:
  "fires_of_action capture_action (cp_store cp) = [] \<Longrightarrow>
   execute_capture sample_capture sample_world i sample_spike cp = Inr ((True, None), mark_fired sample_world i sample_spike None cp)"
  using sample_preflight [of "cp_store cp"]
  by (simp add: execute_capture_def sample_spike_def) (simp add: start_test_def sample_world_def)

lemma sample_recorded:
  assumes "cp_store cp = empty_store"
  shows "cp_store (record_verdict sample_capture True (\<lambda>_. sample_world) (allowed (spike_trigger, sample_spike)) cp) = \<lparr>st_rows = [sample_row], st_next = 2\<rparr>"
proof -
  define cp1 where "cp1 = cp\<lparr>cp_store := snd (save_execution 100000 (new_row sample_spike Pending None) (cp_store cp))\<rparr>"
  have "fires_of_action capture_action (cp_store cp1) = []"
    by (simp add: cp1_def assms saved_rows empty_store_def fires_of_action_def initial_row_def new_row_def)
  then have "record_verdict sample_capture True (\<lambda>_. sample_world) (allowed (spike_trigger, sample_spike)) cp = mark_fired sample_world 1 sample_spike None cp1"
    using sample_execute [of cp1 1]
    by (simp add: record_verdict_def allowed_def assms empty_store_def Let_def cp1_def) (simp add: sample_world_def)
  then show ?thesis
    by (simp add: mark_fired_def cp1_def assms save_execution_def empty_store_def fired_update_def apply_update_simps
        update_execution_def update_where_def sample_world_def sample_row_def initial_row_def new_row_def)
qed

lemma sample_store: "cp_store sample_evaluated = \<lparr>st_rows = [sample_row], st_next = 2\<rparr>"
proof -
  have eq: "sample_evaluated = record_verdict sample_capture True (\<lambda>_. sample_world) (allowed (spike_trigger, sample_spike))
      (init_capture\<lparr>cp_guards := snd (check_batch sample_guards 0 [(spike_trigger, sample_spike)] init_guardrails)\<rparr>)"
    by (simp add: sample_evaluated_def evaluate_def evaluate_event_def sample_qualifying capture_enabled_def)
      (simp add: sample_capture_def init_capture_def sample_batch)
  show ?thesis unfolding eq by (rule sample_recorded) (simp add: init_capture_def)
qed

text \<open>
  C4. The executions refine the automaton of their status.  The statements of evaluations, answers of the
  adapter, linking rounds, expiries and clean-ups interleave in any order, so long as no execution
  expires while its call of the adapter is under way.  Then, whatever comes later, an execution keeps
  its id and moves only along pending, then fired, suppressed or expired, and from fired to completed
  or expired; once it is completed, suppressed or expired its row never changes again; it is gone only
  after a clean-up with a cutoff behind its creation, and an id that is gone never returns.  (The
  statements themselves succeed; the conversion of local times at the first start is not among them.)
\<close>

theorem executions_refine_lifecycle:
  assumes "(timely_statement adapter)\<^sup>*\<^sup>* init_running R" and "(timely_statement adapter)\<^sup>*\<^sup>* R R'"
    and "i < st_next (rn_store R)"
  shows "case get_execution i (rn_store R) of
      None \<Rightarrow> get_execution i (rn_store R') = None
    | Some r \<Rightarrow> (case get_execution i (rn_store R') of
          None \<Rightarrow> \<exists>cutoff \<in> set (rn_cutoffs R'). ex_created_at r < cutoff
        | Some r' \<Rightarrow> ex_id r' = i \<and> lifecycle\<^sup>*\<^sup>* (ex_status r) (ex_status r') \<and> (final_status (ex_status r) \<longrightarrow> r' = r))"
proof -
  have "running_ok R" using timely_run [OF assms(1) running_ok_init] by blast
  from timely_run [OF assms(2) this] assms(3)
  have "fate (rn_cutoffs R') (get_execution i (rn_store R)) (get_execution i (rn_store R'))" by blast
  then show ?thesis using get_execution_id [of i "rn_store R'"] by (auto simp: fate_def advanced_def split: option.splits)
qed

theorem executions_refine_lifecycle_witness:
  "case get_execution 1 (link_results 100600 900 [(7, 100300)] [sample_row] [] (cp_store sample_evaluated)) of
     None \<Rightarrow> False | Some r' \<Rightarrow> lifecycle\<^sup>*\<^sup>* (ex_status sample_row) (ex_status r')"
proof -
  define st where "st = link_results 100600 900 [(7, 100300)] [sample_row] [] (cp_store sample_evaluated)"
  obtain cs where run: "(timely_statement True)\<^sup>*\<^sup>* init_running (quiet (cp_store sample_evaluated) cs)"
    using reachable_statements [OF sample_reachable] by blast
  have later: "(timely_statement True)\<^sup>*\<^sup>* (quiet (cp_store sample_evaluated) cs) (quiet st cs)"
    unfolding st_def by (rule link_results_statements)
  have row: "get_execution 1 (rn_store (quiet (cp_store sample_evaluated) cs)) = Some sample_row"
    by (simp add: quiet_def sample_store get_execution_def sample_row_def initial_row_def)
  have "ex_id x = 1 \<Longrightarrow> get_execution 1 (link_results 100600 900 [(7, 100300)] [sample_row] [] \<lparr>st_rows = [x], st_next = 2\<rparr>) \<noteq> None" for x
    by (simp add: get_execution_def claim_update update_where_def apply_update_def split_def Let_def split: option.split)
  from this [of sample_row] have "get_execution 1 st \<noteq> None"
    by (simp add: st_def sample_store sample_row_def initial_row_def)
  then obtain r' where r': "get_execution 1 st = Some r'" by blast
  have "1 < st_next (rn_store (quiet (cp_store sample_evaluated) cs))" by (simp add: quiet_def sample_store)
  from executions_refine_lifecycle [OF run later this] show ?thesis
    unfolding st_def [symmetric] r' row by (simp add: quiet_def r' del: One_nat_def)
qed

text \<open>
  A round of linking completes executions and changes nothing else: the pairs it links are
  of different fired executions without result and of different imported results; each result
  lies in the window of its execution and is a nearest among those no older execution took; and
  an execution stays without result only when every result of its window went to another.
\<close>

theorem import_links_nearest:
  assumes "capture_reachable cfg triggers adapter cp"
    and "on_results_imported cfg now results (cp_store cp) = Inr st'" and "match_window cfg = Inr window"
  shows "\<exists>pairs. st_rows st' = map (complete now pairs) (st_rows (cp_store cp)) \<and> distinct (map fst pairs) \<and> distinct (map snd pairs)
    \<and> (\<forall>ps p qs. pairs = ps @ p # qs \<longrightarrow> nearest_link window (parsed_results results) (map snd ps) (get_fired_unmatched capture_action (cp_store cp)) p)
    \<and> (\<forall>x \<in> set (get_fired_unmatched capture_action (cp_store cp)). \<forall>f. ex_fired_at x = Some f \<and> ex_id x \<notin> fst ` set pairs \<longrightarrow>
         \<not> list_ex (candidate (map snd pairs) (of_int f) (of_int (f + window))) (parsed_results results))"
proof -
  define fired where "fired = get_fired_unmatched capture_action (cp_store cp)"
  define pairs where "pairs = assign window (parsed_results results) fired []"
  have ok: "store_ok (cp_store cp)" using capture_reachable_ok [OF assms(1)] by (simp add: capture_ok_def)
  have "st_rows st' = map (complete now pairs) (st_rows (cp_store cp))"
    unfolding pairs_def fired_def by (rule on_results_imported_rows [OF ok assms(2,3)])
  moreover have "distinct (map fst pairs)"
    unfolding pairs_def fired_def by (rule assign_distinct_ids [OF fired_list_ok(2) [OF ok]])
  moreover have "distinct (map snd pairs)" unfolding pairs_def using assign_distinct_results by blast
  moreover have "nearest_link window (parsed_results results) (map snd ps) fired p" if "pairs = ps @ p # qs" for ps p qs
    using assign_nearest [of window _ fired "[]"] that by (simp add: pairs_def)
  moreover have "\<not> list_ex (candidate (map snd pairs) (of_int f) (of_int (f + window))) (parsed_results results)"
    if "x \<in> set fired" "ex_fired_at x = Some f" "ex_id x \<notin> fst ` set pairs" for x f
    using assign_complete [OF that(1,2), of window "parsed_results results" "[]"] that(3)
    by (auto simp: pairs_def list_ex_iff simp del: of_int_add)
  ultimately show ?thesis unfolding fired_def by blast
qed

lemma sample_window: "match_window sample_capture = Inr 900"
  by (simp add: match_window_def get_int_def sample_capture_def)

theorem import_links_nearest_witness:
  "\<exists>pairs. st_rows (link_results 100600 900 [(7, 100300)] [sample_row] [] (cp_store sample_evaluated)) = map (complete 100600 pairs) (st_rows (cp_store sample_evaluated))
    \<and> distinct (map fst pairs) \<and> distinct (map snd pairs)"
proof -
  have "on_results_imported sample_capture 100600 [(7, Some 100300), (8, None)] (cp_store sample_evaluated)
      = Inr (link_results 100600 900 [(7, 100300)] [sample_row] [] (cp_store sample_evaluated))"
    by (simp add: on_results_imported_def sample_store get_fired_unmatched_def fired_unmatched_def order_by_def sample_row_def
      initial_row_def new_row_def parsed_results_def sample_window)
  from import_links_nearest [OF sample_reachable this sample_window] show ?thesis by (elim exE conjE) (intro exI conjI)
qed

text \<open>
  A speed test is started only within the budget: when the adapter accepts an execution, the
  newest known result and every earlier fire lie at least the minimum interval before the
  reference time, and fewer than the daily maximum of fires lie in the 24 hours before it.
\<close>

theorem capture_budget:
  assumes "execute_capture cfg w i ev cp = Inr ((True, err), cp')"
    and "get_int (cc_min_interval cfg) 14400 = Inr n" and "get_int (cc_max_per_day cfg) 4 = Inr d"
    and "ref = (case ce_stamp ev of None \<Rightarrow> wd_now w | Some t \<Rightarrow> t)"
  shows "(0 < n \<longrightarrow> list_all (\<lambda>t. of_int n \<le> fl (ref - of_int t)) (fires_of_action capture_action (cp_store cp))
      \<and> (case latest_result w of None \<Rightarrow> True | Some t \<Rightarrow> of_int n \<le> fl (ref - t)))
    \<and> (0 < d \<longrightarrow> int (count_fires_since capture_action \<lfloor>ref - 86400\<rfloor> (cp_store cp)) < d)"
proof -
  have none: "interval_check w ref n (cp_store cp) = None" "daily_check ref d (cp_store cp) = None"
    using execute_accepted [OF assms(1)] assms(2,3)
    unfolding assms(4) [symmetric] by (auto simp: preflight_def split: option.splits)
  have "list_all (\<lambda>t. of_int n \<le> fl (ref - of_int t)) (fires_of_action capture_action (cp_store cp))" if "0 < n"
    using none(1) that Max_fire [of capture_action "cp_store cp" ref n]
    by (auto simp: interval_check_def list_all_iff split: option.splits)
  moreover have "case latest_result w of None \<Rightarrow> True | Some t \<Rightarrow> of_int n \<le> fl (ref - t)" if "0 < n"
    using none(1) that interval_reason_None by (auto simp: interval_check_def split: option.splits)
  moreover have "int (count_fires_since capture_action \<lfloor>ref - 86400\<rfloor> (cp_store cp)) < d" if "0 < d"
    using none(2) that by (auto simp: daily_check_def Let_def split: if_splits)
  ultimately show ?thesis by blast
qed

theorem capture_budget_witness:
  "let ref = (case ce_stamp sample_spike of None \<Rightarrow> wd_now sample_world | Some t \<Rightarrow> t) in
   list_all (\<lambda>t. of_int 14400 \<le> fl (ref - of_int t)) (fires_of_action capture_action (cp_store init_capture))
      \<and> (case latest_result sample_world of None \<Rightarrow> True | Some t \<Rightarrow> of_int 14400 \<le> fl (ref - t))
    \<and> int (count_fires_since capture_action \<lfloor>ref - 86400\<rfloor> (cp_store init_capture)) < 4"
proof -
  have "execute_capture sample_capture sample_world 1 sample_spike init_capture
      = Inr ((True, None), mark_fired sample_world 1 sample_spike None init_capture)"
    by (rule sample_execute) (simp add: init_capture_def empty_store_def fires_of_action_def)
  from capture_budget [OF this, of 14400 4] show ?thesis unfolding Let_def by (simp add: get_int_def sample_capture_def)
qed

lemma expiry_horizon:
  assumes "match_window cfg = Inr window" and "expiry_minutes cfg = Inr m"
  shows "window + 240 < 60 * m"
proof -
  consider n where "py_int (cc_match_window cfg) = Inr n" | "window = 900" "m = 20"
    using assms by (cases "py_int (cc_match_window cfg)")
      (auto simp: match_window_def get_int_def expiry_minutes_def catch_type_value_def split: py_error.splits)
  then show ?thesis
  proof cases
    case 1
    with assms have "window = max 1 n" "m = max 10 (n div 60 + 5)"
      by (auto simp: match_window_def get_int_def expiry_minutes_def)
    moreover have "60 * (n div 60) + n mod 60 = n" "n mod 60 < 60" by simp_all
    ultimately show ?thesis unfolding max_def by (auto split: if_splits)
  qed simp
qed

text \<open>
  The expiry of the main loop leaves time to import: it never expires an execution before
  the match window and four more minutes have passed since its fire, whatever the configured
  window, including the text the adapter and the main loop replace by their own defaults.
\<close>

theorem expiry_after_window:
  assumes "expiry_tick cfg now (k, st) = Inr (k', st')" and "match_window cfg = Inr window"
    and "r \<in> set (st_rows st)" and "ex_status r = Fired" and "ex_fired_at r = Some f" and "now \<le> f + window + 240"
  shows "r \<in> set (st_rows st')"
proof (cases "60 \<le> k + 1")
  case True
  then obtain m where m: "expiry_minutes cfg = Inr m" "st' = expire_at (now - 60 * m) st"
    using assms(1) by (auto simp: expiry_tick_def Let_def map_sum_Inr_iff)
  have "\<not> stale_fired (now - 60 * m) a r" for a
    using expiry_horizon [OF assms(2) m(1)] assms(5,6) by (simp add: stale_fired_def)
  moreover have "\<not> stale_pending c r" for c using assms(4) by (simp add: stale_pending_def)
  ultimately show ?thesis
    using assms(3) by (force simp: m(2) expire_at_def expire_stale_fired_def expire_stale_pending_def update_where_def image_iff)
next
  case False
  then show ?thesis using assms(1,3) by (simp add: expiry_tick_def Let_def)
qed

theorem expiry_after_window_witness:
  "sample_row \<in> set (st_rows (expire_at (101140 - 60 * 20) (cp_store sample_evaluated)))"
  by (rule expiry_after_window [of sample_capture 101140 59 "cp_store sample_evaluated" 0 _ 900 _ 100001])
    (simp_all add: sample_window sample_store expiry_tick_def expiry_minutes_def sample_row_def, simp add: sample_capture_def)

text \<open>
  An evaluated event leaves one execution for every trigger that qualifies, in the order of
  registration and behind all earlier rows, which it does not touch: with the type of the
  event; suppressed with the reason of the guard that refused it; and otherwise started by the
  adapter, or pending when no adapter is registered.
\<close>

theorem evaluation_rows:
  assumes "capture_reachable cfg triggers adapter cp"
    and "qualifying cfg triggers ev = Inr ms" and "evaluate_event cfg triggers adapter env now ev cp = Inr cp'"
  shows "\<exists>new. st_rows (cp_store cp') = st_rows (cp_store cp) @ new \<and> length new = length ms
    \<and> list_all2 (row_of_verdict adapter) (fst (check_batch (cc_guards cfg) now ms (cp_guards cp))) new"
proof -
  obtain new where new: "st_rows (cp_store cp') = st_rows (cp_store cp) @ new"
      "list_all2 (row_of_verdict adapter) (fst (check_batch (cc_guards cfg) now ms (cp_guards cp))) new"
    using evaluate_event_rows [OF capture_reachable_ok [OF assms(1)] assms(3,2)] by blast
  have "length (fst (check_batch (cc_guards cfg) now ms (cp_guards cp))) = length ms"
    using arg_cong [OF check_batch_entries, of length "cc_guards cfg" now ms "cp_guards cp"] by simp
  with new show ?thesis using list_all2_lengthD [OF new(2)] by auto
qed

theorem evaluation_rows_witness:
  "\<exists>new. st_rows (cp_store (fold (record_verdict sample_capture False (\<lambda>_. sample_world)) [allowed (spike_trigger, sample_spike)]
      (init_capture\<lparr>cp_guards := snd (check_batch sample_guards 0 [(spike_trigger, sample_spike)] init_guardrails)\<rparr>)))
      = st_rows (cp_store init_capture) @ new \<and> length new = length [(spike_trigger, sample_spike)]
    \<and> list_all2 (row_of_verdict False) (fst (check_batch (cc_guards sample_capture) 0 [(spike_trigger, sample_spike)] (cp_guards init_capture))) new"
proof (rule evaluation_rows)
  show "capture_reachable sample_capture [spike_trigger] False init_capture" by (simp add: capture_reachable_def)
  show "qualifying sample_capture [spike_trigger] sample_spike = Inr [(spike_trigger, sample_spike)]" by (rule sample_qualifying)
  show "evaluate_event sample_capture [spike_trigger] False (\<lambda>_. sample_world) 0 sample_spike init_capture
    = Inr (fold (record_verdict sample_capture False (\<lambda>_. sample_world)) [allowed (spike_trigger, sample_spike)]
        (init_capture\<lparr>cp_guards := snd (check_batch sample_guards 0 [(spike_trigger, sample_spike)] init_guardrails)\<rparr>))"
    by (simp add: evaluate_event_def sample_qualifying)
      (simp add: sample_capture_def init_capture_def sample_batch)
qed

end
