(* ===== verification/Compensation.thy ===== *)
theory Compensation
  imports Py_Values
begin

text \<open>
  \<^verbatim>\<open>app/modules/de_tkg_compensation/rules.py\<close>: the calculation of German outage compensation.
  A date is its day number (\<^verbatim>\<open>date.toordinal()\<close>), by which Python orders and subtracts dates;
  a result keeps the date where the code keeps its ISO text.  Amounts are integer cents.  The
  decimal arithmetic is exact, which it is for fees below ten to the power 26 (the context of
  \<^verbatim>\<open>decimal\<close> has 28 digits).
\<close>

section \<open>Data\<close>

record rule_set =
  rs_version :: string
  rs_jurisdiction :: string
  rs_effective :: string
  rs_review :: string
  rs_sources :: "(string \<times> string) list"
  rs_note :: string

datatype category = Day_3_4 | Day_5_Plus | Missed_Appointment

datatype basis = Percent | Flat

record entitlement =
  en_date :: "int option"
  en_index :: int
  en_category :: category
  en_basis :: basis
  en_flat :: int
  en_percentage :: int
  en_percentage_cents :: int
  en_amount :: int
  en_rounded :: bool
  en_ref :: string

datatype exclusion_reason = Waiting_Period | Replacement_Solution

record excluded_day =
  xd_date :: int
  xd_index :: int
  xd_reason :: exclusion_reason

record breakdown =
  bd_days :: "entitlement list"
  bd_exclusions :: "excluded_day list"
  bd_total :: int
  bd_rules :: rule_set
  bd_rounding_note :: bool

datatype rule_error =
    Fee_Required | Fee_Invalid | Fee_Negative
  | Report_In_Future | Restored_Before_Report | Restored_In_Future
  | Claim_Window_Required | Claim_Window_Reversed
  | Confirmed_Outside_Claim_Window | Confirmed_Outside_Window | Replacement_Unconfirmed

type_synonym 'a checked = "rule_error + 'a"

section \<open>Amounts\<close>

definition empty_breakdown :: "rule_set \<Rightarrow> breakdown" where
  "empty_breakdown rs = \<lparr>bd_days = [], bd_exclusions = [], bd_total = 0, bd_rules = rs, bd_rounding_note = False\<rparr>"

definition validate_fee :: "pyval \<Rightarrow> int checked" where
  "validate_fee fee = (case fee of
     PNone \<Rightarrow> Inl Fee_Required
   | PBool _ \<Rightarrow> Inl Fee_Required
   | PInt n \<Rightarrow> if n < 0 then Inl Fee_Negative else Inr n
   | _ \<Rightarrow> Inl Fee_Invalid)"

text \<open>\<^verbatim>\<open>ROUND_HALF_UP\<close> of a hundredth of the product, and whether that changed it.\<close>

definition percentage_amount :: "int \<Rightarrow> int \<Rightarrow> int \<times> bool" where
  "percentage_amount fee percentage =
     (let p = fee * percentage; q = p div 100; r = p mod 100 in (if 50 \<le> r then q + 1 else q, r \<noteq> 0))"

definition rule_ref :: "string \<Rightarrow> string" where
  "rule_ref clause = ''TKG '' @ [CHR 0xA7] @ ''58 '' @ clause"

definition entitlement_for_index :: "int \<Rightarrow> int \<Rightarrow> int \<Rightarrow> string \<Rightarrow> entitlement" where
  "entitlement_for_index day idx fee ref =
     (let (cat, flat_cents, pct) = (if idx \<in> {3, 4} then (Day_3_4, 500, 10) else (Day_5_Plus, 1000, 20));
          (cents, rounded) = percentage_amount fee pct
      in \<lparr>en_date = Some day, en_index = idx, en_category = cat,
          en_basis = (if flat_cents < cents then Percent else Flat), en_flat = flat_cents, en_percentage = pct,
          en_percentage_cents = cents, en_amount = max flat_cents cents, en_rounded = rounded, en_ref = ref\<rparr>)"

definition missed_appointment :: "pyval \<Rightarrow> entitlement checked" where
  "missed_appointment fee =
     map_sum id (\<lambda>n. let (cents, rounded) = percentage_amount n 20 in
       \<lparr>en_date = None, en_index = 0, en_category = Missed_Appointment, en_basis = (if 1000 < cents then Percent else Flat),
        en_flat = 1000, en_percentage = 20, en_percentage_cents = cents, en_amount = max 1000 cents,
        en_rounded = rounded, en_ref = rule_ref ''Abs.4''\<rparr>)
       (validate_fee fee)"

section \<open>The claim\<close>

record claim =
  cl_report :: int
  cl_restored :: "int option"
  cl_confirmed :: "int list"
  cl_fee :: pyval
  cl_replacement :: "int list"
  cl_window_start :: "int option"
  cl_window_end :: "int option"
  cl_rules :: rule_set
  cl_today :: int

definition check_dates :: "claim \<Rightarrow> unit checked" where
  "check_dates c =
     (if cl_today c < cl_report c then Inl Report_In_Future
      else case cl_restored c of
        None \<Rightarrow> Inr ()
      | Some r \<Rightarrow> if r < cl_report c then Inl Restored_Before_Report
                  else if cl_today c < r then Inl Restored_In_Future else Inr ())"

definition check_window :: "claim \<Rightarrow> unit checked" where
  "check_window c = (case (cl_window_start c, cl_window_end c) of
     (None, None) \<Rightarrow> Inr ()
   | (Some s, Some e) \<Rightarrow> if e < s then Inl Claim_Window_Reversed else Inr ()
   | _ \<Rightarrow> Inl Claim_Window_Required)"

definition outage_end :: "claim \<Rightarrow> int" where
  "outage_end c = (case cl_restored c of None \<Rightarrow> cl_today c | Some r \<Rightarrow> r)"

definition in_claim_window :: "claim \<Rightarrow> int \<Rightarrow> bool" where
  "in_claim_window c d = (case (cl_window_start c, cl_window_end c) of (Some s, Some e) \<Rightarrow> s \<le> d \<and> d \<le> e | _ \<Rightarrow> True)"

definition in_outage :: "claim \<Rightarrow> int \<Rightarrow> bool" where
  "in_outage c d = (cl_report c \<le> d \<and> d \<le> outage_end c \<and> d \<le> cl_today c)"

fun check_days :: "claim \<Rightarrow> int list \<Rightarrow> unit checked" where
  "check_days c [] = Inr ()"
| "check_days c (d # ds) =
     (if \<not> in_claim_window c d then Inl Confirmed_Outside_Claim_Window
      else if \<not> in_outage c d then Inl Confirmed_Outside_Window
      else check_days c ds)"

definition check_replacement :: "claim \<Rightarrow> unit checked" where
  "check_replacement c = (if set (cl_replacement c) \<subseteq> set (cl_confirmed c) then Inr () else Inl Replacement_Unconfirmed)"

definition confirmed_days :: "claim \<Rightarrow> int list" where
  "confirmed_days c = sort (remdups (cl_confirmed c))"

fun walk_days :: "claim \<Rightarrow> int \<Rightarrow> int list \<Rightarrow> entitlement list \<times> excluded_day list" where
  "walk_days c fee [] = ([], [])"
| "walk_days c fee (d # ds) =
     (let idx = d - cl_report c; (es, xs) = walk_days c fee ds in
      if idx < 3 then (es, \<lparr>xd_date = d, xd_index = idx, xd_reason = Waiting_Period\<rparr> # xs)
      else if d \<in> set (cl_replacement c) then (es, \<lparr>xd_date = d, xd_index = idx, xd_reason = Replacement_Solution\<rparr> # xs)
      else (entitlement_for_index d idx fee (rule_ref ''Abs.3'') # es, xs))"

definition then_check :: "'a checked \<Rightarrow> ('a \<Rightarrow> 'b checked) \<Rightarrow> 'b checked" where
  "then_check r f = (case r of Inl e \<Rightarrow> Inl e | Inr x \<Rightarrow> f x)"

definition outage_compensation :: "claim \<Rightarrow> breakdown checked" where
  "outage_compensation c =
     then_check (validate_fee (cl_fee c)) (\<lambda>fee.
     then_check (check_dates c) (\<lambda>_.
     then_check (check_window c) (\<lambda>_.
     then_check (check_days c (confirmed_days c)) (\<lambda>_.
     then_check (check_replacement c) (\<lambda>_.
       (let (es, xs) = walk_days c fee (confirmed_days c) in
        Inr \<lparr>bd_days = es, bd_exclusions = xs, bd_total = sum_list (map en_amount es), bd_rules = cl_rules c,
             bd_rounding_note = list_ex en_rounded es\<rparr>))))))"

section \<open>Facts\<close>

lemma percentage_amount_bounds:
  assumes "percentage_amount fee pct = (c, r)"
  shows "100 * c - 50 \<le> fee * pct \<and> fee * pct < 100 * c + 50 \<and> (r \<longleftrightarrow> 100 * c \<noteq> fee * pct)"
proof -
  define p where "p = fee * pct"
  define q where "q = p div 100"
  define m where "m = p mod 100"
  have p: "p = 100 * q + m" "0 \<le> m" "m < 100" by (simp_all add: q_def m_def)
  have c: "c = (if 50 \<le> m then q + 1 else q)" "r = (m \<noteq> 0)"
    using assms unfolding percentage_amount_def Let_def p_def [symmetric] q_def [symmetric] m_def [symmetric] by auto
  show ?thesis unfolding c p_def [symmetric] using p by auto
qed

text \<open>Rounding half up in one formula.\<close>

lemma percentage_amount_div: "fst (percentage_amount fee pct) = (fee * pct + 50) div 100"
proof -
  define p where "p = fee * pct"
  obtain c r where cr: "percentage_amount fee pct = (c, r)" by (cases "percentage_amount fee pct")
  from percentage_amount_bounds [OF cr] have "100 * c - 50 \<le> p" "p < 100 * c + 50" by (simp_all add: p_def)
  then have "(p + 50) div 100 = c" by (intro int_div_pos_eq [of _ _ _ "p + 50 - 100 * c"]) auto
  with cr show ?thesis by (simp add: p_def)
qed

definition day_amount :: "claim \<Rightarrow> int \<Rightarrow> int \<Rightarrow> int" where
  "day_amount c fee d =
     (if d - cl_report c < 3 \<or> d \<in> set (cl_replacement c) then 0
      else if d - cl_report c < 5 then max 500 ((fee * 10 + 50) div 100)
      else max 1000 ((fee * 20 + 50) div 100))"

lemma entitlement_amount:
  "en_amount (entitlement_for_index d idx fee ref)
   = (if idx \<in> {3, 4} then max 500 ((fee * 10 + 50) div 100) else max 1000 ((fee * 20 + 50) div 100))"
  by (simp add: entitlement_for_index_def Let_def split_def percentage_amount_div)

lemma walk_days_amount: "sum_list (map en_amount (fst (walk_days c fee ds))) = sum_list (map (day_amount c fee) ds)"
proof (induction ds)
  case (Cons d ds)
  have "(d - cl_report c \<in> {3, 4}) = (d - cl_report c < 5)" if "\<not> d - cl_report c < 3" using that by auto
  with Cons show ?case by (simp add: Let_def split_def entitlement_amount day_amount_def)
qed simp

lemma check_days_ok: "check_days c ds = Inr () \<longleftrightarrow> list_all (\<lambda>d. in_claim_window c d \<and> in_outage c d) ds"
  by (induction ds) auto

definition claim_valid :: "claim \<Rightarrow> bool" where
  "claim_valid c \<longleftrightarrow> cl_report c \<le> cl_today c
     \<and> (\<forall>r. cl_restored c = Some r \<longrightarrow> cl_report c \<le> r \<and> r \<le> cl_today c)
     \<and> (cl_window_start c = None \<longleftrightarrow> cl_window_end c = None)
     \<and> (\<forall>s e. cl_window_start c = Some s \<and> cl_window_end c = Some e \<longrightarrow> s \<le> e)
     \<and> (\<forall>d \<in> set (cl_confirmed c). in_claim_window c d \<and> in_outage c d)
     \<and> set (cl_replacement c) \<subseteq> set (cl_confirmed c)"

lemma then_check_Inr: "then_check r f = Inr y \<longleftrightarrow> (\<exists>x. r = Inr x \<and> f x = Inr y)"
  by (cases r) (auto simp: then_check_def)

lemma outage_compensation_Inr:
  "outage_compensation c = Inr b \<longleftrightarrow> (\<exists>fee. validate_fee (cl_fee c) = Inr fee \<and> claim_valid c
     \<and> b = \<lparr>bd_days = fst (walk_days c fee (confirmed_days c)), bd_exclusions = snd (walk_days c fee (confirmed_days c)),
            bd_total = sum_list (map en_amount (fst (walk_days c fee (confirmed_days c)))), bd_rules = cl_rules c,
            bd_rounding_note = list_ex en_rounded (fst (walk_days c fee (confirmed_days c)))\<rparr>)"
proof -
  have a: "check_dates c = Inr () \<longleftrightarrow> cl_report c \<le> cl_today c \<and> (\<forall>r. cl_restored c = Some r \<longrightarrow> cl_report c \<le> r \<and> r \<le> cl_today c)"
    by (auto simp: check_dates_def split: option.splits)
  have b: "check_window c = Inr () \<longleftrightarrow> (cl_window_start c = None \<longleftrightarrow> cl_window_end c = None)
      \<and> (\<forall>s e. cl_window_start c = Some s \<and> cl_window_end c = Some e \<longrightarrow> s \<le> e)"
    by (auto simp: check_window_def split: option.splits)
  have d: "check_days c (confirmed_days c) = Inr () \<longleftrightarrow> (\<forall>d \<in> set (cl_confirmed c). in_claim_window c d \<and> in_outage c d)"
    by (simp add: check_days_ok confirmed_days_def list_all_iff)
  have e: "check_replacement c = Inr () \<longleftrightarrow> set (cl_replacement c) \<subseteq> set (cl_confirmed c)"
    by (simp add: check_replacement_def)
  have "claim_valid c \<longleftrightarrow> check_dates c = Inr () \<and> check_window c = Inr ()
      \<and> check_days c (confirmed_days c) = Inr () \<and> check_replacement c = Inr ()"
    by (simp only: claim_valid_def a b d e conj_assoc)
  then show ?thesis
    unfolding outage_compensation_def then_check_Inr by (auto simp: split_def Let_def)
qed

lemma walk_days_dates:
  "set (map Some (map xd_date (snd (walk_days c fee ds)))) \<union> set (map en_date (fst (walk_days c fee ds))) = Some ` set ds
   \<and> length (fst (walk_days c fee ds)) + length (snd (walk_days c fee ds)) = length ds"
  by (induction ds) (auto simp: Let_def split_def entitlement_for_index_def)

lemma sum_confirmed: "sum_list (map f (confirmed_days c)) = (\<Sum>d \<in> set (cl_confirmed c). f d)" for f :: "int \<Rightarrow> int"
proof -
  have "distinct (confirmed_days c)" "set (confirmed_days c) = set (cl_confirmed c)" by (simp_all add: confirmed_days_def)
  then show ?thesis by (simp add: sum_list_distinct_conv_sum_set)
qed

lemma total_sum:
  assumes "cl_fee c = PInt fee" and "outage_compensation c = Inr b"
  shows "bd_total b = (\<Sum>d \<in> set (cl_confirmed c). day_amount c fee d)"
proof -
  obtain n where n: "validate_fee (cl_fee c) = Inr n" "bd_total b = sum_list (map en_amount (fst (walk_days c n (confirmed_days c))))"
    using assms(2) by (auto simp: outage_compensation_Inr)
  then have "n = fee" using assms(1) by (auto simp: validate_fee_def split: if_splits)
  with n(2) show ?thesis by (simp add: walk_days_amount sum_confirmed)
qed

lemma day_amount_nonneg: "0 \<le> day_amount c fee d"
  by (simp add: day_amount_def max_def)

lemma day_amount_mono:
  assumes "fee \<le> fee'" and "cl_report c = cl_report c'" and "set (cl_replacement c) = set (cl_replacement c')"
  shows "day_amount c fee d \<le> day_amount c' fee' d"
proof -
  have "(fee * k + 50) div 100 \<le> (fee' * k + 50) div 100" if "0 \<le> k" for k
    using assms(1) that by (intro zdiv_mono1 add_right_mono mult_right_mono) auto
  from this [of 10] this [of 20] show ?thesis using assms(2,3) by (auto simp: day_amount_def)
qed

section \<open>Properties\<close>

text \<open>
  The calculation accepts a claim exactly when its fee is an amount of at least zero and its dates
  are consistent, and then grants exactly what the law's table gives for each different
  confirmed day: nothing before the third day after the report or with a replacement solution,
  the greater of five euros and ten percent of the fee on the third and fourth day, and the
  greater of ten euros and twenty percent afterwards, percentages rounded half up to the cent.
\<close>

theorem compensation_by_the_table:
  assumes "cl_fee c = PInt fee"
  shows "((\<exists>b. outage_compensation c = Inr b) \<longleftrightarrow> 0 \<le> fee \<and> claim_valid c)
    \<and> (\<forall>b. outage_compensation c = Inr b \<longrightarrow> bd_total b = (\<Sum>d \<in> set (cl_confirmed c). day_amount c fee d))"
proof -
  have "(\<exists>n. validate_fee (cl_fee c) = Inr n) \<longleftrightarrow> 0 \<le> fee" using assms by (auto simp: validate_fee_def)
  then have "(\<exists>b. outage_compensation c = Inr b) \<longleftrightarrow> 0 \<le> fee \<and> claim_valid c"
    unfolding outage_compensation_Inr by blast
  with total_sum [OF assms] show ?thesis by blast
qed

definition sample_claim :: "int \<Rightarrow> int list \<Rightarrow> claim" where
  "sample_claim fee days = \<lparr>cl_report = 100, cl_restored = None, cl_confirmed = days, cl_fee = PInt fee, cl_replacement = [],
     cl_window_start = None, cl_window_end = None,
     cl_rules = \<lparr>rs_version = [], rs_jurisdiction = [], rs_effective = [], rs_review = [], rs_sources = [], rs_note = []\<rparr>,
     cl_today = 120\<rparr>"

lemma sample_claim_valid: "set days \<subseteq> {100..120} \<Longrightarrow> claim_valid (sample_claim fee days)"
  by (auto simp: claim_valid_def sample_claim_def in_claim_window_def in_outage_def outage_end_def)

lemma sample_claim_accepted: "0 \<le> fee \<Longrightarrow> set days \<subseteq> {100..120} \<Longrightarrow> \<exists>b. outage_compensation (sample_claim fee days) = Inr b"
  using sample_claim_valid [of days fee] by (simp add: outage_compensation_Inr) (simp add: sample_claim_def validate_fee_def)

theorem compensation_by_the_table_witness:
  "\<exists>b. outage_compensation (sample_claim 4999 [103, 105, 103]) = Inr b \<and>
     bd_total b = (\<Sum>d \<in> set (cl_confirmed (sample_claim 4999 [103, 105, 103])). day_amount (sample_claim 4999 [103, 105, 103]) 4999 d)"
proof -
  have fee: "cl_fee (sample_claim 4999 [103, 105, 103]) = PInt 4999" by (simp add: sample_claim_def)
  have "claim_valid (sample_claim 4999 [103, 105, 103])" by (rule sample_claim_valid) simp
  then show ?thesis using compensation_by_the_table [OF fee] by auto
qed

text \<open>
  Every confirmed day appears exactly once in an accepted claim, as an entitlement or as an
  exclusion; the total is the sum of the entitlements; and an entitlement is never below its
  flat amount and is explained by its basis, the percentage when that gives more, else the flat
  amount.
\<close>

theorem compensation_accounts_for_days:
  assumes "outage_compensation c = Inr b"
  shows "bd_total b = sum_list (map en_amount (bd_days b))
    \<and> set (map en_date (bd_days b)) \<union> Some ` set (map xd_date (bd_exclusions b)) = Some ` set (cl_confirmed c)
    \<and> length (bd_days b) + length (bd_exclusions b) = card (set (cl_confirmed c))
    \<and> list_all (\<lambda>e. en_flat e \<le> en_amount e \<and> en_amount e = (if en_basis e = Percent then en_percentage_cents e else en_flat e)
         \<and> 3 \<le> en_index e) (bd_days b)"
proof -
  obtain fee where b: "b = \<lparr>bd_days = fst (walk_days c fee (confirmed_days c)), bd_exclusions = snd (walk_days c fee (confirmed_days c)),
            bd_total = sum_list (map en_amount (fst (walk_days c fee (confirmed_days c)))), bd_rules = cl_rules c,
            bd_rounding_note = list_ex en_rounded (fst (walk_days c fee (confirmed_days c)))\<rparr>"
    using assms by (auto simp: outage_compensation_Inr)
  have "list_all (\<lambda>e. en_flat e \<le> en_amount e \<and> en_amount e = (if en_basis e = Percent then en_percentage_cents e else en_flat e)
       \<and> 3 \<le> en_index e) (fst (walk_days c fee ds))" for ds
    by (induction ds) (auto simp: Let_def split_def entitlement_for_index_def max_def)
  moreover have "set (confirmed_days c) = set (cl_confirmed c)" "length (confirmed_days c) = card (set (cl_confirmed c))"
    by (simp_all add: confirmed_days_def length_remdups_card_conv)
  ultimately show ?thesis
    using walk_days_dates [of c fee "confirmed_days c"] by (simp add: b Un_commute image_image)
qed

theorem compensation_accounts_for_days_witness:
  "\<exists>b :: breakdown. bd_total b = sum_list (map en_amount (bd_days b))
    \<and> set (map en_date (bd_days b)) \<union> Some ` set (map xd_date (bd_exclusions b)) = Some ` set (cl_confirmed (sample_claim 4999 [101, 103]))
    \<and> length (bd_days b) + length (bd_exclusions b) = card (set (cl_confirmed (sample_claim 4999 [101, 103])))
    \<and> list_all (\<lambda>e. en_flat e \<le> en_amount e \<and> en_amount e = (if en_basis e = Percent then en_percentage_cents e else en_flat e)
         \<and> 3 \<le> en_index e) (bd_days b)"
proof -
  have "\<exists>b. outage_compensation (sample_claim 4999 [101, 103]) = Inr b"
    by (rule sample_claim_accepted) simp_all
  then obtain b where "outage_compensation (sample_claim 4999 [101, 103]) = Inr b" by blast
  from compensation_accounts_for_days [OF this] show ?thesis by (rule exI [of _ b])
qed

text \<open>
  A higher fee, more confirmed days or both never lower an accepted compensation, all else
  being equal: rounding and the change from percentage to flat amounts lose nothing.
\<close>

theorem compensation_monotone:
  assumes "outage_compensation c = Inr b" and "outage_compensation c' = Inr b'"
    and "cl_fee c = PInt fee" and "cl_fee c' = PInt fee'" and "fee \<le> fee'"
    and "cl_report c = cl_report c'" and "set (cl_replacement c) = set (cl_replacement c')"
    and "set (cl_confirmed c) \<subseteq> set (cl_confirmed c')"
  shows "bd_total b \<le> bd_total b'"
proof -
  have "(\<Sum>d \<in> set (cl_confirmed c). day_amount c fee d) \<le> (\<Sum>d \<in> set (cl_confirmed c). day_amount c' fee' d)"
    using day_amount_mono [OF assms(5,6,7)] by (intro sum_mono)
  also have "\<dots> \<le> (\<Sum>d \<in> set (cl_confirmed c'). day_amount c' fee' d)"
    using assms(8) by (intro sum_mono2) (auto simp: day_amount_nonneg)
  finally show ?thesis using total_sum [OF assms(3,1)] total_sum [OF assms(4,2)] by simp
qed

theorem compensation_monotone_witness:
  "\<exists>b b'. outage_compensation (sample_claim 4999 [103]) = Inr b \<and> outage_compensation (sample_claim 6000 [103, 106]) = Inr b'
    \<and> bd_total b \<le> bd_total b'"
proof -
  have "\<exists>b. outage_compensation (sample_claim 4999 [103]) = Inr b" "\<exists>b. outage_compensation (sample_claim 6000 [103, 106]) = Inr b"
    by (rule sample_claim_accepted; simp)+
  then obtain b b' where "outage_compensation (sample_claim 4999 [103]) = Inr b" "outage_compensation (sample_claim 6000 [103, 106]) = Inr b'"
    by blast
  moreover from compensation_monotone [OF this, of 4999 6000] have "bd_total b \<le> bd_total b'" by (simp add: sample_claim_def)
  ultimately show ?thesis by blast
qed

end
