(* ===== verification/Web_Paths.thy ===== *)
theory Web_Paths
  imports Docsis_Utils "HOL-Library.Sublist"
begin

text \<open>
  \<^verbatim>\<open>app/base_path.py\<close>, the mount path a reverse proxy announces, and \<^verbatim>\<open>app/path_safety.py\<close>, the
  paths of installed modules and themes.  The list parser of \<^verbatim>\<open>werkzeug\<close> and the resolution of
  symbolic links by the file system are arguments.  Paths are those of POSIX: the separator is
  a slash and \<^verbatim>\<open>normcase\<close> changes nothing.
\<close>

abbreviation slash :: char where "slash \<equiv> CHR ''/''"

section \<open>Splitting at one character\<close>

lemma split_char_sep: "q \<notin> set w \<Longrightarrow> py_split [q] (w @ q # s) = w # py_split [q] s"
proof (induction w)
  case Nil
  then show ?case using py_split_sep [of "[q]" s] by simp
next
  case (Cons x w)
  then have "\<not> py_startswith (x # w @ q # s) [q]" by auto
  with Cons show ?case using py_split_step [of x "w @ q # s" "[q]"] by simp
qed

lemma split_char_last: "q \<notin> set w \<Longrightarrow> py_split [q] w = [w]"
proof (induction w)
  case (Cons x w)
  then have "\<not> py_startswith (x # w) [q]" by auto
  with Cons show ?case by (simp add: py_split_step)
qed simp

lemma split_char_join: "ws \<noteq> [] \<Longrightarrow> \<forall>w \<in> set ws. q \<notin> set w \<Longrightarrow> py_split [q] (py_join [q] ws) = ws"
proof (induction ws)
  case (Cons x ws)
  show ?case
  proof (cases ws)
    case Nil
    with Cons show ?thesis by (simp add: split_char_last)
  next
    case (Cons y zs)
    with Cons.IH Cons.prems have "py_split [q] (py_join [q] ws) = ws" by simp
    with Cons Cons.prems show ?thesis using split_char_sep [of q x "py_join [q] ws"] by simp
  qed
qed simp

lemma split_char_Cons: "py_split [q] (c # cs) = (if c = q then [] # py_split [q] cs
    else (case py_split [q] cs of [] \<Rightarrow> [[c]] | w # ws \<Rightarrow> (c # w) # ws))"
  by (simp add: py_split.simps(2))

lemma join_split_char: "py_join [q] (py_split [q] s) = s \<and> (\<forall>w \<in> set (py_split [q] s). q \<notin> set w)"
proof (induction s)
  case (Cons c cs)
  obtain w ws where w: "py_split [q] cs = w # ws" using py_split_nonempty [of "[q]" cs] by (cases "py_split [q] cs") auto
  have "py_join [q] ((c # w) # ws) = c # py_join [q] (w # ws)" by (cases ws) auto
  moreover have "py_join [q] ([] # w # ws) = q # py_join [q] (w # ws)" by simp
  ultimately show ?case using Cons by (auto simp: split_char_Cons w)
qed simp

section \<open>Base paths\<close>

definition MAX_BASE_PATH_LENGTH :: nat where "MAX_BASE_PATH_LENGTH = 1024"
definition MAX_SEGMENT_LENGTH :: nat where "MAX_SEGMENT_LENGTH = 128"
definition MAX_TRUSTED_PREFIX_HOPS :: int where "MAX_TRUSTED_PREFIX_HOPS = 32"

definition ascii_alnum :: "char \<Rightarrow> bool" where
  "ascii_alnum c = (let n = (of_char c :: nat) in (48 \<le> n \<and> n \<le> 57) \<or> (65 \<le> n \<and> n \<le> 90) \<or> (97 \<le> n \<and> n \<le> 122))"

definition segment_char :: "char \<Rightarrow> bool" where
  "segment_char c = (ascii_alnum c \<or> c \<in> set ''._~-'')"

definition valid_segment :: "string \<Rightarrow> bool" where
  "valid_segment seg = (seg \<noteq> [] \<and> length seg \<le> MAX_SEGMENT_LENGTH \<and> seg \<notin> {''.'', ''..''} \<and> list_all segment_char seg)"

definition base_path_error :: "py_error" where
  "base_path_error = ValueError ''BASE_PATH is invalid''"

definition control_char :: "char \<Rightarrow> bool" where
  "control_char c = ((of_char c :: nat) < 32 \<or> (of_char c :: nat) = 127)"

definition normalize_base_path :: "string option \<Rightarrow> string res" where
  "normalize_base_path value =
     (case value of None \<Rightarrow> Inr []
      | Some v \<Rightarrow>
          if v = [] \<or> v = ''/'' then Inr []
          else if MAX_BASE_PATH_LENGTH < length v then Inl base_path_error
          else if v \<noteq> py_strip v \<or> \<not> py_startswith v ''/'' \<or> py_endswith v ''/'' then Inl base_path_error
          else if list_ex control_char v then Inl base_path_error
          else if list_ex (\<lambda>m. py_in m v) [[CHR 0x5C], ''%'', ''?'', ''#'', ''//''] then Inl base_path_error
          else if list_ex (\<lambda>seg. \<not> valid_segment seg) (py_split ''/'' (tl v)) then Inl base_path_error
          else Inr v)"

definition hops_text :: "string \<Rightarrow> bool" where
  "hops_text s = (s = ''0'' \<or> (s \<noteq> [] \<and> list_all is_digit s \<and> hd s \<noteq> CHR ''0''))"

definition hops_error :: "py_error" where
  "hops_error = ValueError ''REVERSE_PROXY_PREFIX is invalid''"

definition parse_trusted_prefix_hops :: "string option \<Rightarrow> int res" where
  "parse_trusted_prefix_hops value =
     (case value of None \<Rightarrow> Inr 0
      | Some v \<Rightarrow>
          if v = [] then Inr 0
          else if \<not> hops_text v then Inl hops_error
          else (let hops = int (digits_val v) in if MAX_TRUSTED_PREFIX_HOPS < hops then Inl hops_error else Inr hops))"

definition trusted_header_value :: "(string \<Rightarrow> string list) \<Rightarrow> nat \<Rightarrow> string option \<Rightarrow> string option" where
  "trusted_header_value parse_list hops header =
     (if hops = 0 then None
      else (let vs = parse_list (text_of header) in
        if hops \<le> length vs then (let v = vs ! (length vs - hops) in if v = [] then None else Some v) else None))"

text \<open>A request is refused or passed on with its \<^verbatim>\<open>SCRIPT_NAME\<close>.\<close>

datatype routed = Bad_Request | Mounted string

definition or_else :: "'a option \<Rightarrow> 'a option \<Rightarrow> 'a option" where
  "or_else a b = (case a of None \<Rightarrow> b | Some x \<Rightarrow> Some x)"

definition source :: "'a option \<Rightarrow> 'a list" where
  "source v = (case v of None \<Rightarrow> [] | Some x \<Rightarrow> [x])"

definition mount_request :: "(string \<Rightarrow> string list) \<Rightarrow> string option \<Rightarrow> nat \<Rightarrow> string \<Rightarrow> string option \<Rightarrow> routed" where
  "mount_request parse_list fixed hops script_name header =
     (let selected_raw = trusted_header_value parse_list hops header in
      if hops \<noteq> 0 \<and> selected_raw = None then Bad_Request
      else (case (if script_name = [] then Inr None else map_sum id Some (normalize_base_path (Some script_name))) of
        Inl _ \<Rightarrow> Bad_Request
      | Inr existing \<Rightarrow>
          (case (case selected_raw of None \<Rightarrow> Inr None | Some r \<Rightarrow> map_sum id Some (normalize_base_path (Some r))) of
            Inl _ \<Rightarrow> Bad_Request
          | Inr selected \<Rightarrow>
              (let sources = source fixed @ source selected @ source existing in
               if 1 < length (remdups sources) then Bad_Request
               else Mounted (text_of (or_else fixed (or_else selected existing)))))))"

definition cookie_path :: "string option \<Rightarrow> bool \<Rightarrow> string \<Rightarrow> string" where
  "cookie_path configured in_request script_name =
     (case configured of Some p \<Rightarrow> p
      | None \<Rightarrow> if \<not> in_request \<or> script_name = [] then ''/'' else script_name @ ''/'')"

definition configure_base_path :: "string option \<Rightarrow> string option \<Rightarrow> (string option \<times> nat) res" where
  "configure_base_path base hops =
     res_bind (normalize_base_path base) (\<lambda>p.
       map_sum id (\<lambda>h. (if base = None \<or> base = Some [] then None else Some p, nat h)) (parse_trusted_prefix_hops hops))"

section \<open>Installed paths\<close>

text \<open>\<^verbatim>\<open>os.path.join\<close>, and \<^verbatim>\<open>os.path.commonpath\<close> of two absolute paths.\<close>

definition path_join :: "string \<Rightarrow> string \<Rightarrow> string" where
  "path_join base name =
     (if py_startswith name ''/'' then name
      else if base = [] \<or> py_endswith base ''/'' then base @ name
      else base @ slash # name)"

definition components :: "string \<Rightarrow> string list" where
  "components p = filter (\<lambda>w. w \<noteq> [] \<and> w \<noteq> ''.'') (py_split ''/'' p)"

definition commonpath :: "string \<Rightarrow> string \<Rightarrow> string" where
  "commonpath a b = slash # py_join ''/'' (longest_common_prefix (components a) (components b))"

definition rstrip_sep :: "string \<Rightarrow> string" where
  "rstrip_sep s = rev (dropWhile (\<lambda>c. c = slash) (rev s))"

text \<open>
  The patterns of names.  In Python's \<^verbatim>\<open>re\<close> the anchor \<^verbatim>\<open>$\<close> also matches before a line break
  at the end of the text.
\<close>

definition before_newline :: "string \<Rightarrow> string" where
  "before_newline s = (if s \<noteq> [] \<and> last s = CHR 0x0A then butlast s else s)"

definition lower_letter :: "char \<Rightarrow> bool" where
  "lower_letter c = (let n = (of_char c :: nat) in 97 \<le> n \<and> n \<le> 122)"

definition id_char :: "char \<Rightarrow> bool" where
  "id_char c = (lower_letter c \<or> is_digit c \<or> c = CHR ''_'' \<or> c = CHR ''.'')"

definition id_text :: "string \<Rightarrow> bool" where
  "id_text s = (2 \<le> length s \<and> lower_letter (hd s) \<and> list_all id_char (tl s))"

definition id_pattern :: "string \<Rightarrow> bool" where
  "id_pattern s = (id_text s \<or> id_text (before_newline s))"

definition filename_text :: "string \<Rightarrow> bool" where
  "filename_text s = (s \<noteq> [] \<and> ascii_alnum (hd s) \<and> list_all (\<lambda>c. ascii_alnum c \<or> c \<in> set ''._-'') (tl s))"

definition filename_pattern :: "string \<Rightarrow> bool" where
  "filename_pattern s = (filename_text s \<or> filename_text (before_newline s))"

definition safe_child_path :: "(string \<Rightarrow> string) \<Rightarrow> string \<Rightarrow> string \<Rightarrow> string res" where
  "safe_child_path realpath base name =
     (if \<not> id_pattern name then Inl (ValueError ''Invalid ID'')
      else (let real_base = realpath base; real = realpath (path_join base name) in
        if real = real_base \<or> \<not> py_startswith real (rstrip_sep real_base @ ''/'')
        then Inl (ValueError ''Path escapes base directory'') else Inr real))"

definition safe_child_file :: "(string \<Rightarrow> string) \<Rightarrow> string \<Rightarrow> string \<Rightarrow> string res" where
  "safe_child_file realpath dir name =
     (if name \<notin> {''manifest.json'', ''theme.json''} then Inl (ValueError ''Filename not in allowlist'')
      else (let real_dir = realpath dir; real = realpath (path_join dir name) in
        if commonpath real_dir real \<noteq> real_dir then Inl (ValueError ''Child file escapes directory'') else Inr real))"

definition safe_manifest_subpath :: "(string \<Rightarrow> string) \<Rightarrow> string \<Rightarrow> string \<Rightarrow> string res" where
  "safe_manifest_subpath realpath dir sub =
     (if sub = [] then Inl (ValueError ''Unsafe manifest subpath'')
      else if ''..'' \<in> set (py_split ''/'' sub) \<or> py_in [CHR 0x5C] sub then Inl (ValueError ''Unsafe manifest subpath'')
      else (let real_base = realpath dir; real = realpath (path_join dir sub) in
        if \<not> py_startswith real (real_base @ ''/'') \<and> real \<noteq> real_base
        then Inl (ValueError ''Manifest subpath escapes module directory'') else Inr real))"

definition safe_manifest_ref :: "(string \<Rightarrow> string) \<Rightarrow> string \<Rightarrow> string \<Rightarrow> string res" where
  "safe_manifest_ref realpath dir name =
     (if \<not> filename_pattern name then Inl (ValueError ''Unsafe manifest reference'')
      else (let real_base = realpath dir; real = realpath (path_join dir name) in
        if commonpath real_base real \<noteq> real_base then Inl (ValueError ''Manifest reference escapes module directory'') else Inr real))"

section \<open>Containment\<close>

text \<open>A path lies inside a directory when the directory's components begin its own.\<close>

definition inside :: "string \<Rightarrow> string \<Rightarrow> bool" where
  "inside dir p \<longleftrightarrow> prefix (components dir) (components p)"

lemma split_append_sep: "py_split ''/'' (d @ slash # r) = py_split ''/'' d @ py_split ''/'' r"
proof (induction d)
  case (Cons c d)
  obtain w ws where "py_split ''/'' d = w # ws"
    using py_split_nonempty [of "''/''" d] by (cases "py_split ''/'' d") auto
  with Cons show ?case by (simp add: split_char_Cons)
qed (simp add: split_char_Cons)

lemma components_append_sep: "components (d @ slash # r) = components d @ components r"
  by (simp add: components_def split_append_sep)

lemma components_rstrip: "components (rstrip_sep d) = components d"
proof (induction d rule: rev_induct)
  case (snoc c d)
  have "components (d @ ''/'') = components d" using components_append_sep [of d "[]"] by (simp add: components_def)
  with snoc show ?case by (auto simp: rstrip_sep_def)
qed (simp add: rstrip_sep_def)

lemma startswith_inside: "py_startswith p (rstrip_sep d @ ''/'') \<Longrightarrow> inside d p"
proof -
  assume "py_startswith p (rstrip_sep d @ ''/'')"
  then obtain r where "p = rstrip_sep d @ slash # r" by (auto simp: py_startswith_iff)
  then show ?thesis by (simp add: inside_def components_append_sep components_rstrip)
qed

lemma startswith_inside': "py_startswith p (d @ ''/'') \<Longrightarrow> inside d p"
proof -
  assume "py_startswith p (d @ ''/'')"
  then obtain r where "p = d @ slash # r" by (auto simp: py_startswith_iff)
  then show ?thesis by (simp add: inside_def components_append_sep)
qed

lemma components_join:
  assumes "\<forall>w \<in> set ws. slash \<notin> set w \<and> w \<noteq> [] \<and> w \<noteq> ''.''"
  shows "components (slash # py_join ''/'' ws) = ws"
proof (cases "ws = []")
  case False
  then have "py_split ''/'' (py_join ''/'' ws) = ws" using assms by (intro split_char_join) auto
  moreover have "filter (\<lambda>w. w \<noteq> [] \<and> w \<noteq> ''.'') ws = ws" using assms by (simp add: filter_id_conv)
  ultimately show ?thesis by (simp add: components_def split_char_Cons)
qed (simp add: components_def split_char_Cons)

lemma commonpath_inside:
  assumes "commonpath d p = d"
  shows "inside d p"
proof -
  define l where "l = longest_common_prefix (components d) (components p)"
  have pre: "prefix l (components d)" "prefix l (components p)"
    by (simp_all add: l_def longest_common_prefix_prefix1 longest_common_prefix_prefix2)
  have "\<forall>w \<in> set l. slash \<notin> set w \<and> w \<noteq> [] \<and> w \<noteq> ''.''"
    using set_mono_prefix [OF pre(1)] join_split_char [of slash d] by (auto simp: components_def)
  then have "components (commonpath d p) = l"
    unfolding commonpath_def l_def [symmetric] by (rule components_join)
  with assms pre(2) show ?thesis by (simp add: inside_def)
qed

section \<open>The grammar of base paths\<close>

definition mount_path :: "string list \<Rightarrow> string" where
  "mount_path segs = concat (map ((#) slash) segs)"

lemma mount_path_join: "segs \<noteq> [] \<Longrightarrow> mount_path segs = slash # py_join ''/'' segs"
proof (induction segs)
  case (Cons x segs)
  then show ?case by (cases segs) (simp_all add: mount_path_def)
qed simp

lemma segment_char_plain: "segment_char c \<Longrightarrow> c \<noteq> slash \<and> \<not> py_space c \<and> \<not> control_char c \<and> c \<notin> set [CHR 0x5C, CHR ''%'', CHR ''?'', CHR ''#'']"
  by (auto simp: segment_char_def ascii_alnum_def py_space_def control_char_def Let_def)

lemma valid_segment_chars: "valid_segment seg \<Longrightarrow> c \<in> set seg \<Longrightarrow> segment_char c"
  by (simp add: valid_segment_def list_all_iff)

lemma split_mount_path:
  assumes "segs \<noteq> []" and "list_all valid_segment segs"
  shows "py_split ''/'' (tl (mount_path segs)) = segs"
proof -
  have "\<forall>w \<in> set segs. slash \<notin> set w"
    using assms(2) valid_segment_chars segment_char_plain unfolding list_all_iff by blast
  with assms(1) show ?thesis by (simp add: mount_path_join split_char_join)
qed

lemma mount_path_chars: "list_all valid_segment segs \<Longrightarrow> c \<in> set (mount_path segs) \<Longrightarrow> c = slash \<or> segment_char c"
  by (auto simp: mount_path_def list_all_iff dest: valid_segment_chars split: if_splits)

lemma mount_path_last:
  assumes "segs \<noteq> []" and "list_all valid_segment segs"
  shows "mount_path segs \<noteq> [] \<and> segment_char (last (mount_path segs))"
proof -
  obtain ss x where sx: "segs = ss @ [x]" using assms(1) by (cases segs rule: rev_cases) auto
  with assms(2) have "valid_segment x" by simp
  then have "x \<noteq> []" "segment_char (last x)" using valid_segment_chars [of x "last x"] by (auto simp: valid_segment_def)
  then show ?thesis by (simp add: sx mount_path_def)
qed

lemma strip_plain: "s \<noteq> [] \<Longrightarrow> \<not> py_space (hd s) \<Longrightarrow> \<not> py_space (last s) \<Longrightarrow> py_strip s = s"
proof -
  assume s: "s \<noteq> []" "\<not> py_space (hd s)" "\<not> py_space (last s)"
  have "dropWhile py_space s = s" using s by (cases s) auto
  moreover have "dropWhile py_space (rev s) = rev s" using s by (cases s rule: rev_cases) auto
  ultimately show ?thesis by (simp add: py_strip_def)
qed

lemma no_double_slash:
  assumes "segs \<noteq> []" and "list_all valid_segment segs"
  shows "\<not> py_in ''//'' (mount_path segs)"
proof
  assume "py_in ''//'' (mount_path segs)"
  then obtain u w where "mount_path segs = u @ slash # slash # w" by (auto simp: py_in_iff)
  then have sp: "py_split ''/'' (mount_path segs) = py_split ''/'' u @ [] # py_split ''/'' w"
    by (simp add: split_append_sep split_char_Cons)
  have "py_split ''/'' (mount_path segs) = [] # segs"
    using split_mount_path [OF assms] assms(1) by (simp add: mount_path_join split_char_Cons)
  with sp have "[] \<in> set segs" using py_split_nonempty [of "''/''" u]
    by (cases "py_split ''/'' u") auto
  with assms(2) show False by (auto simp: list_all_iff valid_segment_def)
qed

lemma char_in: "py_in [m] v \<longleftrightarrow> m \<in> set v"
  by (auto simp: py_in_iff in_set_conv_decomp)

lemma normalize_mount_path:
  assumes "segs \<noteq> []" and "list_all valid_segment segs" and "length (mount_path segs) \<le> MAX_BASE_PATH_LENGTH"
  shows "normalize_base_path (Some (mount_path segs)) = Inr (mount_path segs)"
proof -
  define v where "v = mount_path segs"
  have l: "v \<noteq> []" "segment_char (last v)" using mount_path_last [OF assms(1,2)] by (simp_all add: v_def)
  have hd: "v = slash # tl v" using assms(1) by (simp add: v_def mount_path_join)
  have sp: "\<not> py_space slash" by (simp add: py_space_def)
  have "v \<noteq> ''/''" using l(2) segment_char_plain [of slash] by auto
  moreover have "py_strip v = v" using strip_plain [of v] l hd sp segment_char_plain by (metis list.sel(1))
  moreover have "py_startswith v ''/''" by (subst hd) simp
  moreover have "\<not> py_endswith v ''/''"
    using l segment_char_plain by (cases v rule: rev_cases) (auto simp: py_endswith_def)
  moreover have "\<not> list_ex control_char v" "\<not> list_ex (\<lambda>m. py_in m v) [[CHR 0x5C], ''%'', ''?'', ''#'', ''//'']"
    using mount_path_chars [OF assms(2)] segment_char_plain no_double_slash [OF assms(1,2)]
    by (force simp: v_def list_ex_iff control_char_def char_in)+
  moreover have "\<not> list_ex (\<lambda>seg. \<not> valid_segment seg) (py_split ''/'' (tl v))"
    using split_mount_path [OF assms(1,2)] assms(2) by (auto simp: v_def list_ex_iff list_all_iff)
  ultimately show ?thesis
    using l(1) assms(3) unfolding v_def [symmetric] normalize_base_path_def by simp
qed

lemma normalize_accepts:
  assumes "normalize_base_path (Some v) = Inr p" and "v \<noteq> []" and "v \<noteq> ''/''"
  shows "p = v \<and> length v \<le> MAX_BASE_PATH_LENGTH \<and> (\<exists>segs. segs \<noteq> [] \<and> list_all valid_segment segs \<and> v = mount_path segs)"
proof -
  have p: "p = v" "length v \<le> MAX_BASE_PATH_LENGTH" "py_startswith v ''/''"
      "\<not> list_ex (\<lambda>seg. \<not> valid_segment seg) (py_split ''/'' (tl v))"
    using assms by (auto simp: normalize_base_path_def split: if_splits)
  define segs where "segs = py_split ''/'' (tl v)"
  have "v = slash # tl v" using p(3) assms(2) by (cases v) auto
  moreover have "segs \<noteq> []" unfolding segs_def by (rule py_split_nonempty)
  moreover have "py_join ''/'' segs = tl v" using join_split_char [of slash "tl v"] by (simp add: segs_def)
  moreover have "list_all valid_segment segs" using p(4) by (auto simp: segs_def list_ex_iff list_all_iff)
  ultimately show ?thesis using p by (metis mount_path_join)
qed

lemma normalize_empty: "normalize_base_path (Some []) = Inr []"
  by (simp add: normalize_base_path_def)

lemma normalize_idem: "normalize_base_path (Some v) = Inr x \<Longrightarrow> normalize_base_path (Some x) = Inr x"
  using normalize_accepts [of v x] normalize_empty by (cases "v \<in> {[], ''/''}") (auto simp: normalize_base_path_def)

section \<open>Properties\<close>

lemma normalize_iff:
  "normalize_base_path (Some v) = Inr p \<longleftrightarrow>
     (v \<in> {[], ''/''} \<and> p = [])
     \<or> (p = v \<and> length v \<le> MAX_BASE_PATH_LENGTH \<and> (\<exists>segs. segs \<noteq> [] \<and> list_all valid_segment segs \<and> v = mount_path segs))"
proof (cases "v \<in> {[], ''/''}")
  case True
  have "\<not> (\<exists>segs. segs \<noteq> [] \<and> list_all valid_segment segs \<and> v = mount_path segs)"
  proof
    assume "\<exists>segs. segs \<noteq> [] \<and> list_all valid_segment segs \<and> v = mount_path segs"
    then obtain segs where s: "segs \<noteq> []" "list_all valid_segment segs" "v = mount_path segs" by blast
    have "v \<noteq> []" "segment_char (last v)" using mount_path_last [OF s(1,2)] s(3) by simp_all
    with True show False using segment_char_plain [of slash] by auto
  qed
  with True show ?thesis by (auto simp: normalize_base_path_def)
next
  case False
  then have "v \<noteq> []" "v \<noteq> ''/''" by simp_all
  then have "q = v \<and> length v \<le> MAX_BASE_PATH_LENGTH \<and> (\<exists>segs. segs \<noteq> [] \<and> list_all valid_segment segs \<and> v = mount_path segs)"
    if "normalize_base_path (Some v) = Inr q" for q
    using normalize_accepts [OF that] by simp
  moreover have "normalize_base_path (Some v) = Inr v"
    if "length v \<le> MAX_BASE_PATH_LENGTH" "\<exists>segs. segs \<noteq> [] \<and> list_all valid_segment segs \<and> v = mount_path segs"
    using that normalize_mount_path by auto
  ultimately show ?thesis using False by metis
qed

text \<open>
  The accepted base paths are exactly a grammar: besides the empty text and a single slash,
  which mean no mount path, a text of at most 1024 characters that is a sequence of at least one
  segment, each behind a slash and made of at most 128 unreserved characters, none of them a dot
  or two dots; and an accepted path is returned unchanged.
\<close>

theorem base_path_grammar:
  "normalize_base_path (Some v) = Inr p \<longleftrightarrow>
     (v \<in> {[], ''/''} \<and> p = [])
     \<or> (p = v \<and> length v \<le> 1024 \<and> (\<exists>segs. segs \<noteq> [] \<and> v = concat (map ((#) slash) segs)
          \<and> list_all (\<lambda>s. s \<noteq> [] \<and> length s \<le> 128 \<and> s \<notin> {''.'', ''..''} \<and> list_all (\<lambda>c. ascii_alnum c \<or> c \<in> set ''._~-'') s) segs))"
proof -
  have "(\<lambda>s. s \<noteq> [] \<and> length s \<le> 128 \<and> s \<notin> {''.'', ''..''} \<and> list_all (\<lambda>c. ascii_alnum c \<or> c \<in> set ''._~-'') s) = valid_segment"
    by (auto simp: fun_eq_iff valid_segment_def MAX_SEGMENT_LENGTH_def segment_char_def list_all_iff)
  then show ?thesis using normalize_iff [of v p] unfolding mount_path_def MAX_BASE_PATH_LENGTH_def by auto
qed

lemma mounted_sources:
  assumes "mount_request parse_list fixed hops script_name header = Mounted p" and "\<And>f. fixed = Some f \<Longrightarrow> normalize_base_path (Some f) = Inr f"
  shows "normalize_base_path (Some p) = Inr p
    \<and> (\<forall>f. fixed = Some f \<longrightarrow> p = f)
    \<and> (script_name \<noteq> [] \<longrightarrow> normalize_base_path (Some script_name) = Inr p)
    \<and> (hops \<noteq> 0 \<longrightarrow> (\<exists>r. trusted_header_value parse_list hops header = Some r \<and> normalize_base_path (Some r) = Inr p))"
proof -
  define raw where "raw = trusted_header_value parse_list hops header"
  obtain existing where ex: "(if script_name = [] then Inr None else map_sum id Some (normalize_base_path (Some script_name))) = Inr existing"
    using assms(1) by (cases "(if script_name = [] then Inr None else map_sum id Some (normalize_base_path (Some script_name)))")
      (auto simp: mount_request_def Let_def split: if_splits)
  obtain selected where sel: "(case raw of None \<Rightarrow> Inr None | Some r \<Rightarrow> map_sum id Some (normalize_base_path (Some r))) = Inr selected"
    using assms(1) ex by (cases "(case raw of None \<Rightarrow> Inr None | Some r \<Rightarrow> map_sum id Some (normalize_base_path (Some r)))")
      (auto simp: mount_request_def Let_def raw_def split: if_splits)
  have one: "length (remdups (source fixed @ source selected @ source existing)) \<le> 1" "hops = 0 \<or> raw \<noteq> None"
      "p = text_of (or_else fixed (or_else selected existing))"
    using assms(1) ex sel unfolding mount_request_def Let_def raw_def [symmetric] by (auto split: if_splits)
  have agree: "a = b" if "a \<in> set (source fixed @ source selected @ source existing)" "b \<in> set (source fixed @ source selected @ source existing)" for a b
    using one(1) that card_le_Suc0_iff_eq [of "set (source fixed @ source selected @ source existing)"]
    unfolding length_remdups_card_conv by auto
  have p: "x = p" if "x \<in> set (source fixed @ source selected @ source existing)" for x
    using agree [OF that, of p] that one(3)
    by (cases fixed; cases selected; cases existing) (auto simp: source_def or_else_def text_of_def)
  have e: "normalize_base_path (Some script_name) = Inr p" if "script_name \<noteq> []"
    using ex that p by (cases existing) (auto simp: map_sum_Inr_iff source_def)
  have r: "\<exists>r. raw = Some r \<and> normalize_base_path (Some r) = Inr p" if "hops \<noteq> 0"
    using sel one(2) that p by (cases raw; cases selected) (auto simp: map_sum_Inr_iff source_def)
  have f: "\<forall>f. fixed = Some f \<longrightarrow> p = f" using p by (auto simp: source_def)
  have "normalize_base_path (Some p) = Inr p"
  proof (cases "fixed = None \<and> script_name = [] \<and> hops = 0")
    case True
    then have "selected = None" "existing = None" using ex sel by (auto simp: raw_def trusted_header_value_def)
    with True one(3) have "p = []" by (simp add: or_else_def text_of_def)
    then show ?thesis by (simp add: normalize_empty)
  next
    case False
    then show ?thesis using e r f normalize_idem assms(2) by (cases fixed) auto
  qed
  with e r f show ?thesis unfolding raw_def by blast
qed

text \<open>
  A request reaches the application only under a mount path that is valid, that the
  configured prefix, the header of the trusted proxy and an earlier \<^verbatim>\<open>SCRIPT_NAME\<close> agree on as
  far as they are present, and, when a proxy is trusted, that the header really carries; the
  configured prefix is one the start-up check accepted.
\<close>

theorem mounted_under_agreed_path:
  assumes "mount_request parse_list fixed hops script_name header = Mounted p"
    and "configure_base_path base hops_value = Inr (fixed, hops)"
  shows "normalize_base_path (Some p) = Inr p
    \<and> (\<forall>f. fixed = Some f \<longrightarrow> p = f)
    \<and> (script_name \<noteq> [] \<longrightarrow> normalize_base_path (Some script_name) = Inr p)
    \<and> (hops \<noteq> 0 \<longrightarrow> (\<exists>r. trusted_header_value parse_list hops header = Some r \<and> normalize_base_path (Some r) = Inr p))"
proof (rule mounted_sources [OF assms(1)])
  show "normalize_base_path (Some f) = Inr f" if f: "fixed = Some f" for f
  proof -
    obtain v where "base = Some v" "normalize_base_path (Some v) = Inr f"
      using assms(2) f by (cases base) (auto simp: configure_base_path_def res_bind_Inr_iff map_sum_Inr_iff split: if_splits)
    then show ?thesis using normalize_idem by simp
  qed
qed

theorem mounted_under_agreed_path_witness:
  "normalize_base_path (Some ''/app'') = Inr ''/app''
    \<and> (\<forall>f. (Some ''/app'') = Some f \<longrightarrow> ''/app'' = f)
    \<and> ([] \<noteq> ([] :: string) \<longrightarrow> normalize_base_path (Some []) = Inr ''/app'')
    \<and> ((1 :: nat) \<noteq> 0 \<longrightarrow> (\<exists>r. trusted_header_value (\<lambda>h. [h]) 1 (Some ''/app'') = Some r \<and> normalize_base_path (Some r) = Inr ''/app''))"
proof (rule mounted_under_agreed_path)
  show "mount_request (\<lambda>h. [h]) (Some ''/app'') 1 [] (Some ''/app'') = Mounted ''/app''" by code_simp
  show "configure_base_path (Some ''/app'') (Some ''1'') = Inr (Some ''/app'', 1)" by code_simp
qed

lemma id_text_plain: "id_text s \<Longrightarrow> slash \<notin> set s \<and> s \<notin> {''.'', ''..'', []}"
  by (cases s) (auto simp: id_text_def id_char_def lower_letter_def is_digit_def list_all_iff Let_def)

lemma id_pattern_plain: "id_pattern s \<Longrightarrow> slash \<notin> set s \<and> s \<notin> {''.'', ''..'', []}"
proof -
  assume "id_pattern s"
  then consider "id_text s" | "id_text (before_newline s)" "s \<noteq> before_newline s" unfolding id_pattern_def by metis
  then show ?thesis
  proof cases
    case 1
    then show ?thesis by (rule id_text_plain)
  next
    case 2
    then obtain t where "s = t @ [CHR 0x0A]" "id_text t"
      by (cases s rule: rev_cases) (auto simp: before_newline_def split: if_splits)
    with id_text_plain [of t] show ?thesis by (cases t) auto
  qed
qed

text \<open>
  Whatever symbolic links the file system resolves, a path these helpers return lies in the
  directory it was asked for: its components begin with those of the resolved directory, for
  module and theme names (which also never resolve to the directory itself, and contain no
  slash), for the two known files, for sub-paths and for file names of a manifest.
\<close>

theorem installed_paths_contained:
  "(safe_child_path realpath base name = Inr p \<longrightarrow> inside (realpath base) p \<and> p \<noteq> realpath base \<and> slash \<notin> set name \<and> name \<notin> {''.'', ''..''})
   \<and> (safe_child_file realpath base name = Inr p \<longrightarrow> inside (realpath base) p)
   \<and> (safe_manifest_subpath realpath base name = Inr p \<longrightarrow> inside (realpath base) p \<and> ''..'' \<notin> set (py_split ''/'' name))
   \<and> (safe_manifest_ref realpath base name = Inr p \<longrightarrow> inside (realpath base) p)"
proof -
  have "inside (realpath base) p \<and> p \<noteq> realpath base \<and> slash \<notin> set name \<and> name \<notin> {''.'', ''..''}"
    if "safe_child_path realpath base name = Inr p"
    using that id_pattern_plain startswith_inside by (auto simp: safe_child_path_def Let_def split: if_splits)
  moreover have "inside (realpath base) p" if "safe_child_file realpath base name = Inr p"
    using that commonpath_inside by (auto simp: safe_child_file_def Let_def split: if_splits)
  moreover have "inside (realpath base) p \<and> ''..'' \<notin> set (py_split ''/'' name)" if "safe_manifest_subpath realpath base name = Inr p"
    using that startswith_inside' [of p "realpath base"] by (auto simp: safe_manifest_subpath_def inside_def Let_def split: if_splits)
  moreover have "inside (realpath base) p" if "safe_manifest_ref realpath base name = Inr p"
    using that commonpath_inside by (auto simp: safe_manifest_ref_def Let_def split: if_splits)
  ultimately show ?thesis by blast
qed

theorem installed_paths_contained_witness:
  "(safe_child_path id ''/data'' ''my.theme'' = Inr ''/data/my.theme'' \<longrightarrow> inside (id ''/data'') ''/data/my.theme''
      \<and> ''/data/my.theme'' \<noteq> id ''/data'' \<and> slash \<notin> set ''my.theme'' \<and> ''my.theme'' \<notin> {''.'', ''..''})
   \<and> (safe_child_file id ''/data'' ''my.theme'' = Inr ''/data/my.theme'' \<longrightarrow> inside (id ''/data'') ''/data/my.theme'')
   \<and> (safe_manifest_subpath id ''/data'' ''my.theme'' = Inr ''/data/my.theme'' \<longrightarrow> inside (id ''/data'') ''/data/my.theme'' \<and> ''..'' \<notin> set (py_split ''/'' ''my.theme''))
   \<and> (safe_manifest_ref id ''/data'' ''my.theme'' = Inr ''/data/my.theme'' \<longrightarrow> inside (id ''/data'') ''/data/my.theme'')"
  by (rule installed_paths_contained)

text \<open>
  A module or theme name may end in a line break: the anchor of the pattern matches before
  it, so that every valid name stays accepted with a line break appended, although the
  documentation of the check admits only lower case letters, digits, dots and underscores.
\<close>

theorem trailing_newline_accepted:
  assumes "id_text name" and "realpath (path_join base (name @ [CHR 0x0A])) = p" and "p \<noteq> realpath base"
    and "py_startswith p (rstrip_sep (realpath base) @ ''/'')"
  shows "safe_child_path realpath base (name @ [CHR 0x0A]) = Inr p \<and> \<not> list_all id_char (name @ [CHR 0x0A])"
proof -
  have "id_pattern (name @ [CHR 0x0A])" using assms(1) by (simp add: id_pattern_def before_newline_def)
  moreover have "\<not> id_char (CHR 0x0A)" by (simp add: id_char_def lower_letter_def is_digit_def)
  ultimately show ?thesis using assms(2-) by (simp add: safe_child_path_def Let_def)
qed

theorem trailing_newline_accepted_witness:
  "safe_child_path id ''/data'' (''evil'' @ [CHR 0x0A]) = Inr (''/data/evil'' @ [CHR 0x0A]) \<and> \<not> list_all id_char (''evil'' @ [CHR 0x0A])"
  by (rule trailing_newline_accepted) code_simp+

end
