(* ===== verification/Gaming_Index.thy ===== *)
theory Gaming_Index
  imports Py_Values
begin

text \<open>
  \<^verbatim>\<open>app/gaming_index.py\<close>: the rating of one speed test for online games.  A missing field of the
  result reads as \<^verbatim>\<open>None\<close>.  The three scorers share one contract, stated as a locale: they never
  rate a worse measurement higher.
\<close>

section \<open>Scorers\<close>

definition score_latency :: "rat \<Rightarrow> nat" where
  "score_latency v = (if v < 20 then 100 else if v \<le> 50 then 80 else if v \<le> 80 then 60 else if v \<le> 120 then 30 else 0)"

definition score_jitter :: "rat \<Rightarrow> nat" where
  "score_jitter v = (if v < 5 then 100 else if v \<le> 15 then 80 else if v \<le> 30 then 60 else if v \<le> 50 then 30 else 0)"

definition score_packet_loss :: "rat \<Rightarrow> nat" where
  "score_packet_loss v = (if v = 0 then 100 else if v < 1 / 2 then 80 else if v < 1 then 60 else if v < 2 then 30 else 0)"

datatype grade = A | B | C | D | F

definition grade_of :: "nat \<Rightarrow> grade" where
  "grade_of s = (if 90 \<le> s then A else if 75 \<le> s then B else if 50 \<le> s then C else if 25 \<le> s then D else F)"

record component =
  co_score :: nat
  co_value :: rat
  co_unit :: string

record gaming_index =
  gi_score :: nat
  gi_grade :: grade
  gi_components :: "(string \<times> component) list"

text \<open>A measurement that counts: a finite number of at least zero, no truth value, and for the
  packet loss at most one hundred.\<close>

definition measured :: "string \<Rightarrow> pyval \<Rightarrow> rat option" where
  "measured name v = (case v of PNone \<Rightarrow> None | PBool _ \<Rightarrow> None
     | _ \<Rightarrow> (case py_float v of
         Inr (Fin x) \<Rightarrow> if x < 0 \<or> (name = ''packet_loss'' \<and> 100 < x) then None else Some x
       | _ \<Rightarrow> None))"

definition metrics :: "(string \<times> string \<times> string \<times> (rat \<Rightarrow> nat)) list" where
  "metrics = [(''latency'', ''ping_ms'', ''ms'', score_latency), (''jitter'', ''jitter_ms'', ''ms'', score_jitter),
     (''packet_loss'', ''packet_loss_pct'', ''%'', score_packet_loss)]"

fun rate :: "(string \<Rightarrow> pyval) \<Rightarrow> (string \<times> string \<times> string \<times> (rat \<Rightarrow> nat)) list \<Rightarrow> (string \<times> component) list option" where
  "rate st [] = Some []"
| "rate st ((name, field, unit, scorer) # ms) =
     (case measured name (st field) of None \<Rightarrow> None
      | Some v \<Rightarrow> map_option ((#) (name, \<lparr>co_score = scorer v, co_value = v, co_unit = unit\<rparr>)) (rate st ms))"

definition compute_gaming_index :: "(string \<Rightarrow> pyval) option \<Rightarrow> gaming_index option" where
  "compute_gaming_index speedtest =
     (case speedtest of None \<Rightarrow> None
      | Some st \<Rightarrow> map_option (\<lambda>cs. let score = Min (set (map (co_score \<circ> snd) cs)) in
          \<lparr>gi_score = score, gi_grade = grade_of score, gi_components = cs\<rparr>) (rate st metrics))"

section \<open>The contract of a scorer\<close>

locale antitone_scorer =
  fixes scorer :: "rat \<Rightarrow> nat"
  assumes worse: "0 \<le> v \<Longrightarrow> v \<le> w \<Longrightarrow> scorer w \<le> scorer v"
    and range: "scorer v \<in> {0, 30, 60, 80, 100}"
begin

lemma min_worse: "0 \<le> v \<Longrightarrow> v \<le> w \<Longrightarrow> m' \<le> m \<Longrightarrow> min (scorer w) m' \<le> min (scorer v) m"
  using worse [of v w] by (auto simp: min_le_iff_disj)

lemma bounded: "scorer v \<le> 100"
  using range [of v] by auto

end

interpretation latency: antitone_scorer score_latency
  by unfold_locales (auto simp: score_latency_def)

interpretation jitter: antitone_scorer score_jitter
  by unfold_locales (auto simp: score_jitter_def)

interpretation packet_loss: antitone_scorer score_packet_loss
  by unfold_locales (auto simp: score_packet_loss_def)

lemma measured_nonneg: "measured name v = Some x \<Longrightarrow> 0 \<le> x"
  by (cases v) (auto simp: measured_def split: sum.splits f64.splits option.splits if_splits)

lemma compute_Some:
  "compute_gaming_index (Some st) = Some g \<longleftrightarrow>
   (\<exists>l j p. measured ''latency'' (st ''ping_ms'') = Some l \<and> measured ''jitter'' (st ''jitter_ms'') = Some j
      \<and> measured ''packet_loss'' (st ''packet_loss_pct'') = Some p
      \<and> g = (let s = min (score_latency l) (min (score_jitter j) (score_packet_loss p)) in
          \<lparr>gi_score = s, gi_grade = grade_of s, gi_components =
            [(''latency'', \<lparr>co_score = score_latency l, co_value = l, co_unit = ''ms''\<rparr>),
             (''jitter'', \<lparr>co_score = score_jitter j, co_value = j, co_unit = ''ms''\<rparr>),
             (''packet_loss'', \<lparr>co_score = score_packet_loss p, co_value = p, co_unit = ''%''\<rparr>)]\<rparr>))"
  by (auto simp: compute_gaming_index_def metrics_def Let_def split: option.splits)

instantiation grade :: linorder
begin

fun rank_of :: "grade \<Rightarrow> nat" where
  "rank_of A = 4" | "rank_of B = 3" | "rank_of C = 2" | "rank_of D = 1" | "rank_of F = 0"

definition less_eq_grade :: "grade \<Rightarrow> grade \<Rightarrow> bool" where
  "a \<le> b \<longleftrightarrow> rank_of a \<le> rank_of b"

definition less_grade :: "grade \<Rightarrow> grade \<Rightarrow> bool" where
  "a < b \<longleftrightarrow> rank_of a < rank_of b"

instance
proof
  fix a b c :: grade
  show "a < b \<longleftrightarrow> a \<le> b \<and> \<not> b \<le> a" by (auto simp: less_eq_grade_def less_grade_def)
  show "a \<le> a" by (simp add: less_eq_grade_def)
  show "a \<le> c" if "a \<le> b" "b \<le> c" using that by (simp add: less_eq_grade_def)
  show "a = b" if "a \<le> b" "b \<le> a" using that by (cases a; cases b) (simp_all add: less_eq_grade_def)
  show "a \<le> b \<or> b \<le> a" by (auto simp: less_eq_grade_def)
qed

end

lemma grade_mono: "s \<le> t \<Longrightarrow> grade_of s \<le> grade_of t"
  by (auto simp: grade_of_def less_eq_grade_def)

text \<open>The first result is at least as bad in every measurement both have.\<close>

definition nowhere_better :: "(string \<Rightarrow> pyval) \<Rightarrow> (string \<Rightarrow> pyval) \<Rightarrow> bool" where
  "nowhere_better st' st \<longleftrightarrow> list_all (\<lambda>(name, field, _). case (measured name (st field), measured name (st' field)) of
     (Some l, Some l') \<Rightarrow> l \<le> l' | _ \<Rightarrow> True) metrics"

section \<open>Properties\<close>

text \<open>
  The rating rests on complete measurements and is governed by the worst of them: it exists
  exactly when latency, jitter and packet loss are all usable numbers, its score is the least of
  the three scores and at most one hundred, and a result that is nowhere better is rated
  nowhere better, neither in score nor in grade.
\<close>

theorem gaming_index_worst_of_three:
  assumes "compute_gaming_index (Some st) = Some g" and "compute_gaming_index (Some st') = Some g'"
    and "nowhere_better st' st"
  shows "gi_score g' \<le> gi_score g \<and> gi_grade g' \<le> gi_grade g \<and> gi_score g \<le> 100
    \<and> (\<forall>c \<in> set (gi_components g). gi_score g \<le> co_score (snd c)) \<and> (\<exists>c \<in> set (gi_components g). gi_score g = co_score (snd c))"
proof -
  obtain l j p where f: "measured ''latency'' (st ''ping_ms'') = Some l" "measured ''jitter'' (st ''jitter_ms'') = Some j"
      "measured ''packet_loss'' (st ''packet_loss_pct'') = Some p"
      "gi_score g = min (score_latency l) (min (score_jitter j) (score_packet_loss p))" "gi_grade g = grade_of (gi_score g)"
      "gi_components g = [(''latency'', \<lparr>co_score = score_latency l, co_value = l, co_unit = ''ms''\<rparr>),
         (''jitter'', \<lparr>co_score = score_jitter j, co_value = j, co_unit = ''ms''\<rparr>),
         (''packet_loss'', \<lparr>co_score = score_packet_loss p, co_value = p, co_unit = ''%''\<rparr>)]"
    using assms(1) by (auto simp: compute_Some Let_def)
  obtain l' j' p' where f': "measured ''latency'' (st' ''ping_ms'') = Some l'" "measured ''jitter'' (st' ''jitter_ms'') = Some j'"
      "measured ''packet_loss'' (st' ''packet_loss_pct'') = Some p'"
      "gi_score g' = min (score_latency l') (min (score_jitter j') (score_packet_loss p'))" "gi_grade g' = grade_of (gi_score g')"
    using assms(2) by (auto simp: compute_Some Let_def)
  have "gi_score g' \<le> gi_score g"
    unfolding f(4) f'(4) using f(1-3) f'(1-3) assms(3)
    by (intro latency.min_worse jitter.min_worse packet_loss.worse)
      (auto simp: nowhere_better_def metrics_def intro: measured_nonneg)
  moreover have "gi_score g \<le> 100" using latency.bounded [of l] by (simp add: f(4))
  moreover have "(\<forall>c \<in> set (gi_components g). gi_score g \<le> co_score (snd c)) \<and> (\<exists>c \<in> set (gi_components g). gi_score g = co_score (snd c))"
    using f(4,6) by (auto simp: min_def)
  ultimately show ?thesis using grade_mono f(5) f'(5) by simp
qed

theorem gaming_index_worst_of_three_witness:
  "let st = (\<lambda>f. if f = ''ping_ms'' then PInt 12 else if f = ''jitter_ms'' then PInt 8 else PInt 0);
       st' = (\<lambda>f. if f = ''ping_ms'' then PInt 12 else if f = ''jitter_ms'' then PInt 40 else PInt 0)
   in \<exists>g g'. compute_gaming_index (Some st) = Some g \<and> compute_gaming_index (Some st') = Some g'
    \<and> gi_score g' \<le> gi_score g \<and> gi_grade g' \<le> gi_grade g \<and> gi_score g \<le> 100
    \<and> (\<forall>c \<in> set (gi_components g). gi_score g \<le> co_score (snd c)) \<and> (\<exists>c \<in> set (gi_components g). gi_score g = co_score (snd c))"
proof -
  define st where "st = (\<lambda>f. if f = ''ping_ms'' then PInt 12 else if f = ''jitter_ms'' then PInt 8 else PInt 0)"
  define st' where "st' = (\<lambda>f. if f = ''ping_ms'' then PInt 12 else if f = ''jitter_ms'' then PInt 40 else PInt 0)"
  have f: "f64_of 12 = Fin 12" "f64_of 8 = Fin 8" "f64_of 40 = Fin 40" "f64_of 0 = Fin 0"
    using fl_of_int [of 12] fl_of_int [of 8] fl_of_int [of 40] by (simp_all add: f64_of_bounded)
  have m: "measured ''latency'' (st ''ping_ms'') = Some 12" "measured ''jitter'' (st ''jitter_ms'') = Some 8" "measured ''packet_loss'' (st ''packet_loss_pct'') = Some 0"
    "measured ''latency'' (st' ''ping_ms'') = Some 12" "measured ''jitter'' (st' ''jitter_ms'') = Some 40" "measured ''packet_loss'' (st' ''packet_loss_pct'') = Some 0"
    by (simp_all add: measured_def st_def st'_def f)
  obtain g g' where g: "compute_gaming_index (Some st) = Some g" "compute_gaming_index (Some st') = Some g'"
    using m by (auto simp: compute_Some)
  have "nowhere_better st' st" using m by (simp add: nowhere_better_def metrics_def)
  from gaming_index_worst_of_three [OF g this] g
  have "compute_gaming_index (Some st) = Some g \<and> compute_gaming_index (Some st') = Some g'
    \<and> gi_score g' \<le> gi_score g \<and> gi_grade g' \<le> gi_grade g \<and> gi_score g \<le> 100
    \<and> (\<forall>c \<in> set (gi_components g). gi_score g \<le> co_score (snd c)) \<and> (\<exists>c \<in> set (gi_components g). gi_score g = co_score (snd c))"
    by simp
  then show ?thesis unfolding Let_def st_def [symmetric] st'_def [symmetric] by (intro exI [of _ g] exI [of _ g'])
qed

end
