(* ===== verification/Probe_Engine.thy ===== *)
theory Probe_Engine
  imports Py_Values "HOL-Library.Word"
begin

unbundle bit_operations_syntax

text \<open>
  \<^verbatim>\<open>app/modules/connection_monitor/probe.py\<close>: the probe over TCP, the ICMP packet and its
  checksum, the loops that wait for an echo reply, the helper program, the choice of the method,
  and the sequence number that all probes of one engine share.  What sockets, the helper and the
  monotonic clock answer is an argument.
\<close>

section \<open>Results\<close>

definition PROBE_TIMEOUT_S :: rat where "PROBE_TIMEOUT_S = 2"

record probe_result =
  pr_latency :: "f64 option"
  pr_timeout :: bool
  pr_method :: string

definition no_answer :: "string \<Rightarrow> probe_result" where
  "no_answer m = \<lparr>pr_latency = None, pr_timeout = True, pr_method = m\<rparr>"

definition answered_after :: "string \<Rightarrow> rat \<Rightarrow> probe_result" where
  "answered_after m s = \<lparr>pr_latency = Some (Fin (rnd 2 (fl (s * 1000)))), pr_timeout = False, pr_method = m\<rparr>"

section \<open>Probing over TCP\<close>

text \<open>One attempt per resolved address: no socket, connected or failed after some seconds.\<close>

datatype attempt = No_Socket | Connected rat | Failed rat

text \<open>The result and the seconds it took.\<close>

fun tcp_probe :: "attempt list \<Rightarrow> probe_result \<times> rat" where
  "tcp_probe [] = (no_answer ''tcp'', 0)"
| "tcp_probe (a # as) =
     (case a of
        No_Socket \<Rightarrow> tcp_probe as
      | Connected s \<Rightarrow> (answered_after ''tcp'' s, s)
      | Failed s \<Rightarrow> (let (r, d) = tcp_probe as in (r, s + d)))"

section \<open>Packets\<close>

text \<open>\<^verbatim>\<open>struct.pack("!H", n)\<close> of a value in range, and its inverse.\<close>

definition pack16 :: "int \<Rightarrow> 8 word list" where
  "pack16 n = [word_of_int (drop_bit 8 n), word_of_int n]"

definition unpack16 :: "8 word \<Rightarrow> 8 word \<Rightarrow> int" where
  "unpack16 a b = push_bit 8 (uint a) + uint b"

definition pack_header :: "int \<Rightarrow> int \<Rightarrow> int \<Rightarrow> int \<Rightarrow> 8 word list" where
  "pack_header ty checksum ident sq = [word_of_int ty, 0] @ pack16 checksum @ pack16 ident @ pack16 sq"

text \<open>\<^verbatim>\<open>struct.unpack("!BBHHH", b)\<close>; None for the \<^verbatim>\<open>struct.error\<close> of a wrong length.\<close>

fun unpack_header :: "8 word list \<Rightarrow> (int \<times> int \<times> int \<times> int \<times> int) option" where
  "unpack_header [a, b, c, d, e, f, g, h] = Some (uint a, uint b, unpack16 c d, unpack16 e f, unpack16 g h)"
| "unpack_header _ = None"

fun words_total :: "8 word list \<Rightarrow> int" where
  "words_total (a # b # ds) = (push_bit 8 (uint a) + uint b) + words_total ds"
| "words_total _ = 0"

definition icmp_checksum :: "8 word list \<Rightarrow> int" where
  "icmp_checksum data =
     (let d = (if odd (length data) then data @ [0] else data); t = words_total d;
          t1 = drop_bit 16 t + (t AND 0xFFFF); t2 = t1 + drop_bit 16 t1
      in NOT t2 AND 0xFFFF)"

definition build_icmp_packet :: "int \<Rightarrow> int \<Rightarrow> int \<Rightarrow> 8 word list" where
  "build_icmp_packet sq ident ty =
     (let header = pack_header ty 0 ident sq; payload = replicate 32 0 in
      if ty = 8 then pack_header ty (icmp_checksum (header @ payload)) ident sq @ payload
      else header @ payload)"

subsection \<open>The checksum verifies\<close>

lemma and_FFFF: "(n :: int) AND 0xFFFF = n mod 65536"
proof -
  have "(0xFFFF :: int) = mask 16" by (simp add: mask_eq_exp_minus_1)
  then show ?thesis by (simp only: take_bit_eq_mask [symmetric]) (simp add: take_bit_eq_mod)
qed

lemma drop16: "drop_bit 16 (n :: int) = n div 65536"
  by (simp add: drop_bit_eq_div)

text \<open>The sum of 16 bit words folded to 16 bits, in arithmetic.\<close>

definition fold16 :: "int \<Rightarrow> int" where
  "fold16 t = (let t1 = t div 65536 + t mod 65536 in (t1 + t1 div 65536) mod 65536)"

lemma mod_eqI: "(x :: int) = a + m * k \<Longrightarrow> 0 \<le> a \<Longrightarrow> a < m \<Longrightarrow> x mod m = a"
  by simp

lemma div_modE:
  fixes t m :: int
  assumes "0 < m"
  obtains q r where "t = m * q + r" "0 \<le> r" "r < m" "t div m = q" "t mod m = r"
  using assms by (metis mult_div_mod_eq pos_mod_bound pos_mod_sign)

lemma not_mod: "(NOT (t :: int)) mod 65536 = 65535 - t mod 65536"
proof -
  obtain q r where t: "t = 65536 * q + r" "0 \<le> r" "r < 65536" "t mod 65536 = r"
    by (rule div_modE [of 65536 t]) auto
  show ?thesis unfolding t(4) by (rule mod_eqI [where k = "- q - 1"]) (use t in \<open>auto simp: not_int_def\<close>)
qed

lemma icmp_checksum_fold:
  assumes "even (length d)"
  shows "icmp_checksum d = 65535 - fold16 (words_total d)"
  using assms by (simp add: icmp_checksum_def Let_def and_FFFF drop16 fold16_def not_mod)

lemma fold16_cong:
  assumes t: "0 < t" "t < 65536 * 65536"
  shows "fold16 t = (if t mod 65535 = 0 then 65535 else t mod 65535)"
proof -
  obtain q r where qr: "t = 65536 * q + r" "0 \<le> r" "r < 65536" "t div 65536 = q" "t mod 65536 = r"
    by (rule div_modE [of 65536 t]) auto
  have q: "0 \<le> q" "q < 65536" using t qr(1-3) by auto
  have f: "fold16 t = (q + r + (q + r) div 65536) mod 65536" by (simp add: fold16_def Let_def qr(4,5))
  consider "q + r < 65535" | "65535 = q + r" | "65536 \<le> q + r" "q + r < 2 * 65535" | "q + r = 2 * 65535"
    using q qr(2,3) by linarith
  then show ?thesis
  proof cases
    case 1
    have "t mod 65535 = q + r" by (rule mod_eqI [where k = q]) (use 1 q qr(1,2) in auto)
    moreover have "fold16 t = q + r" using 1 q qr(2) unfolding f by simp
    moreover have "0 < q + r" using t(1) q qr(1,2) by auto
    ultimately show ?thesis by simp
  next
    case 2
    have "t mod 65535 = 0" by (rule mod_eqI [where k = "q + 1"]) (use 2 q qr(1,2) in auto)
    moreover have "fold16 t = 65535" using 2 [symmetric] unfolding f by simp
    ultimately show ?thesis by simp
  next
    case 3
    have d: "(q + r) div 65536 = 1" by (rule int_div_pos_eq [where r = "q + r - 65536"]) (use 3 in auto)
    have "t mod 65535 = q + r - 65535" by (rule mod_eqI [where k = "q + 1"]) (use 3 q qr(1,2) in auto)
    moreover have "fold16 t = q + r - 65535" unfolding f d by (rule mod_eqI [where k = 1]) (use 3 in auto)
    ultimately show ?thesis using 3 by auto
  next
    case 4
    have "t mod 65535 = 0" by (rule mod_eqI [where k = "q + 2"]) (use 4 q qr(1,2) in auto)
    moreover have "fold16 t = 65535" unfolding f 4 by simp
    ultimately show ?thesis by simp
  qed
qed

text \<open>Adding the complement of the folded sum makes the folded sum all ones.\<close>

lemma fold16_range: "0 < t \<Longrightarrow> t < 65536 * 65536 \<Longrightarrow> 0 < fold16 t \<and> fold16 t \<le> 65535"
  using pos_mod_sign [of 65535 t] pos_mod_bound [of 65535 t] by (auto simp: fold16_cong less_le)

lemma fold16_complement:
  assumes "0 < t" and "t < 65536 * 65535"
  shows "fold16 (t + (65535 - fold16 t)) = 65535"
proof -
  obtain q r where t: "t = 65535 * q + r" "0 \<le> r" "r < 65535" "t mod 65535 = r"
    by (rule div_modE [of 65535 t]) auto
  have f: "fold16 t = (if r = 0 then 65535 else r)" using assms t(4) by (subst fold16_cong) auto
  have "(t + (65535 - fold16 t)) mod 65535 = 0"
    by (rule mod_eqI [where k = "if r = 0 then q else q + 1"]) (use f t(1) in auto)
  then show ?thesis using assms fold16_range [of t] by (subst fold16_cong) auto
qed

lemma unpack16_bounds: "0 \<le> unpack16 a b \<and> unpack16 a b < 65536"
  using unsigned_less [of a, where ?'a = int] unsigned_less [of b, where ?'a = int] by (simp add: unpack16_def push_bit_eq_mult)

lemma unpack16_pack16: "0 \<le> n \<Longrightarrow> n < 65536 \<Longrightarrow> unpack16 (word_of_int (drop_bit 8 n)) (word_of_int n) = n"
  by (simp add: unpack16_def push_bit_eq_mult drop_bit_eq_div unsigned_of_int take_bit_eq_mod pos_imp_zdiv_nonneg_iff)

lemma words_total_append: "even (length d) \<Longrightarrow> words_total (d @ e) = words_total d + words_total e"
  by (induction d rule: words_total.induct) auto

lemma words_total_zeros: "list_all ((=) 0) d \<Longrightarrow> words_total d = 0"
  by (induction d rule: words_total.induct) auto

lemma words_total_header:
  assumes "0 \<le> ck" "ck < 65536" "0 \<le> ident" "ident < 65536" "0 \<le> sq" "sq < 65536"
  shows "words_total (pack_header 8 ck ident sq) = 2048 + ck + ident + sq"
proof -
  have "words_total (pack_header 8 ck ident sq) = 2048
      + unpack16 (word_of_int (drop_bit 8 ck)) (word_of_int ck)
      + unpack16 (word_of_int (drop_bit 8 ident)) (word_of_int ident)
      + unpack16 (word_of_int (drop_bit 8 sq)) (word_of_int sq)"
    by (simp add: pack_header_def pack16_def unpack16_def push_bit_eq_mult)
  then show ?thesis using assms by (simp add: unpack16_pack16)
qed

lemma unpack_pack_header:
  assumes "0 \<le> ty" "ty < 256" "0 \<le> ck" "ck < 65536" "0 \<le> ident" "ident < 65536" "0 \<le> sq" "sq < 65536"
  shows "unpack_header (pack_header ty ck ident sq) = Some (ty, 0, ck, ident, sq)"
  using assms by (simp add: pack_header_def pack16_def unpack16_pack16 unsigned_of_int take_bit_eq_mod)

lemma length_pack_header: "length (pack_header ty ck ident sq) = 8"
  by (simp add: pack_header_def pack16_def)

lemma header_payload_total:
  "words_total (pack_header ty ck ident sq @ replicate 32 0) = words_total (pack_header ty ck ident sq)"
  by (simp add: words_total_append length_pack_header words_total_zeros list_all_iff)

text \<open>
  C19. The echo request for IPv4 is 40 bytes whose header reads back as type 8, code 0, the
  process and the sequence number, and whose checksum field verifies: the checksum of the whole
  packet, its own checksum included, is zero, as RFC 1071 asks of the receiver.
\<close>

theorem icmp_packet_verifies:
  assumes "0 \<le> ident" "ident < 65536" "0 \<le> sq" "sq < 65536"
  shows "let p = build_icmp_packet sq ident 8 in
    length p = 40 \<and> icmp_checksum p = 0
    \<and> (\<exists>ck. unpack_header (take 8 p) = Some (8, 0, ck, ident, sq) \<and> 0 \<le> ck \<and> ck < 65536)"
proof -
  let ?t = "2048 + ident + sq" and ?pay = "replicate 32 (0 :: 8 word)"
  define ck where "ck = 65535 - fold16 ?t"
  have f: "fold16 ?t = (if ?t mod 65535 = 0 then 65535 else ?t mod 65535)" using assms by (intro fold16_cong) auto
  have ck: "0 \<le> ck" "ck < 65536"
    using f pos_mod_bound [of 65535 ?t] pos_mod_sign [of 65535 ?t] unfolding ck_def by (auto split: if_splits)
  have "icmp_checksum (pack_header 8 0 ident sq @ ?pay) = ck"
    using assms by (simp add: icmp_checksum_fold length_pack_header header_payload_total words_total_header ck_def)
  then have p: "build_icmp_packet sq ident 8 = pack_header 8 ck ident sq @ ?pay"
    by (simp add: build_icmp_packet_def Let_def)
  have "icmp_checksum (pack_header 8 ck ident sq @ ?pay) = 65535 - fold16 (?t + (65535 - fold16 ?t))"
    using assms ck by (simp add: icmp_checksum_fold length_pack_header header_payload_total words_total_header)
      (simp add: ck_def algebra_simps)
  also have "\<dots> = 0" using fold16_complement [of ?t] assms by simp
  finally show ?thesis unfolding p Let_def
    using assms ck by (auto simp: length_pack_header unpack_pack_header)
qed

lemma icmp_packet_verifies_witness: "icmp_checksum (build_icmp_packet 1 4242 8) = 0"
  using icmp_packet_verifies [of 4242 1] by (simp add: Let_def)

section \<open>Waiting for an echo reply\<close>

text \<open>
  What one received packet means: skip it, accept it, or the \<^verbatim>\<open>struct.error\<close> of a header too
  short to unpack, which only the loop for IPv6 guards against.
\<close>

datatype reply_verdict = Skip | Accept | Too_Short

definition match_reply :: "int \<Rightarrow> int \<Rightarrow> int \<Rightarrow> 8 word list \<Rightarrow> reply_verdict" where
  "match_reply reply_type ident sq header =
     (case unpack_header header of
        None \<Rightarrow> Too_Short
      | Some (ty, _, _, pkt_id, pkt_seq) \<Rightarrow> if ty = reply_type \<and> pkt_id = ident \<and> pkt_seq = sq then Accept else Skip)"

definition v4_verdict :: "int \<Rightarrow> int \<Rightarrow> 8 word list \<Rightarrow> reply_verdict" where
  "v4_verdict ident sq data = match_reply 0 ident sq (take 8 (drop 20 data))"

definition v6_verdict :: "int \<Rightarrow> int \<Rightarrow> 8 word list \<Rightarrow> reply_verdict" where
  "v6_verdict ident sq data = (if length data < 8 then Skip else match_reply 129 ident sq (take 8 data))"

text \<open>
  One round of the loop: the clock before, what \<^verbatim>\<open>recvfrom\<close> did, the sequence number of the
  engine when the packet is compared, the clock after.
\<close>

datatype reception = Packet "8 word list" | Recv_Failed

record round =
  rd_clock :: rat
  rd_got :: reception
  rd_seq :: int
  rd_after :: rat

datatype probe_end = Ended probe_result | Struct_Error

definition decide_round :: "(int \<Rightarrow> 8 word list \<Rightarrow> reply_verdict) \<Rightarrow> rat \<Rightarrow> round \<Rightarrow> probe_end option" where
  "decide_round verdict start r =
     (if fl (PROBE_TIMEOUT_S - fl (rd_clock r - start)) \<le> 0 then Some (Ended (no_answer ''icmp''))
      else case rd_got r of
        Recv_Failed \<Rightarrow> Some (Ended (no_answer ''icmp''))
      | Packet data \<Rightarrow>
          (case verdict (rd_seq r) data of
             Too_Short \<Rightarrow> Some Struct_Error
           | Skip \<Rightarrow> None
           | Accept \<Rightarrow> Some (Ended (answered_after ''icmp'' (fl (rd_after r - start))))))"

partial_function (option) await_reply ::
  "(int \<Rightarrow> 8 word list \<Rightarrow> reply_verdict) \<Rightarrow> rat \<Rightarrow> (nat \<Rightarrow> round) \<Rightarrow> nat \<Rightarrow> probe_end option" where
  "await_reply verdict start env i =
     (case decide_round verdict start (env i) of
        Some r \<Rightarrow> Some r
      | None \<Rightarrow> await_reply verdict start env (Suc i))"

text \<open>The first round that decides gives the result.\<close>

lemma await_reply_first:
  assumes "decide_round v start (env (i + n)) \<noteq> None"
  shows "\<exists>m \<le> n. (\<forall>j < m. decide_round v start (env (i + j)) = None)
    \<and> decide_round v start (env (i + m)) \<noteq> None
    \<and> await_reply v start env i = decide_round v start (env (i + m))"
  using assms
proof (induction n arbitrary: i)
  case 0
  then show ?case by (auto simp: await_reply.simps [of v start env i] split: option.splits)
next
  case (Suc n)
  show ?case
  proof (cases "decide_round v start (env i)")
    case (Some r)
    then show ?thesis by (intro exI [of _ 0]) (simp add: await_reply.simps [of v start env i])
  next
    case None
    have "decide_round v start (env (Suc i + n)) \<noteq> None" using Suc.prems by simp
    from Suc.IH [OF this] obtain m where m: "m \<le> n" "\<And>j. j < m \<Longrightarrow> decide_round v start (env (Suc i + j)) = None"
      "decide_round v start (env (Suc i + m)) \<noteq> None"
      "await_reply v start env (Suc i) = decide_round v start (env (Suc i + m))" by blast
    have "decide_round v start (env (i + j)) = None" if "j < Suc m" for j
      using that None m(2) [of "j - 1"] by (cases j) auto
    with m None show ?thesis
      by (intro exI [of _ "Suc m"]) (simp add: await_reply.simps [of v start env i])
  qed
qed

lemma deadline_decides:
  assumes "PROBE_TIMEOUT_S \<le> fl (rd_clock r - start)"
  shows "decide_round v start r = Some (Ended (no_answer ''icmp''))"
proof -
  have "fl (PROBE_TIMEOUT_S - fl (rd_clock r - start)) \<le> fl 0" using assms by (intro fl_mono) simp
  then show ?thesis by (simp add: decide_round_def)
qed

text \<open>
  C6. Waiting for an echo reply ends: as soon as the monotonic clock reads the deadline of two
  seconds at the start of some round, the loop has returned, at that round or before, and the
  result is that of the first round that decides, however many foreign packets arrive.
\<close>

theorem reply_wait_ends:
  assumes "PROBE_TIMEOUT_S \<le> fl (rd_clock (env n) - start)"
  shows "\<exists>m \<le> n. (\<forall>j < m. decide_round v start (env j) = None)
    \<and> decide_round v start (env m) \<noteq> None \<and> await_reply v start env 0 = decide_round v start (env m)"
  using await_reply_first [of v start env 0 n] deadline_decides [OF assms, of v] by simp

lemma reply_wait_ends_witness:
  "\<exists>m \<le> 3. await_reply (v4_verdict 1 ) 10 (\<lambda>i. \<lparr>rd_clock = 10 + of_nat i, rd_got = Packet (replicate 28 0), rd_seq = 5, rd_after = 11\<rparr>) 0
    = decide_round (v4_verdict 1) 10 ((\<lambda>i. \<lparr>rd_clock = 10 + of_nat i, rd_got = Packet (replicate 28 0), rd_seq = 5, rd_after = 11\<rparr>) m)"
  using reply_wait_ends [of "\<lambda>i. \<lparr>rd_clock = 10 + of_nat i, rd_got = Packet (replicate 28 0), rd_seq = 5, rd_after = 11\<rparr>" 3 10 "v4_verdict 1"]
  by (auto simp: PROBE_TIMEOUT_S_def)

section \<open>A raw probe and the choice between addresses\<close>

datatype raw_run = No_Raw_Socket | Send_Failed | Sent rat "nat \<Rightarrow> round"

definition raw_probe :: "(int \<Rightarrow> 8 word list \<Rightarrow> reply_verdict) \<Rightarrow> raw_run \<Rightarrow> probe_end option" where
  "raw_probe verdict run =
     (case run of
        Sent start env \<Rightarrow> await_reply verdict start env 0
      | _ \<Rightarrow> Some (Ended (no_answer ''icmp'')))"

text \<open>The resolved addresses: whether IPv6, and what the socket did.\<close>

fun probe_addresses :: "int \<Rightarrow> (bool \<times> raw_run) list \<Rightarrow> probe_end option" where
  "probe_addresses ident [] = Some (Ended (no_answer ''icmp''))"
| "probe_addresses ident ((v6, run) # rest) =
     (case raw_probe (if v6 then v6_verdict ident else v4_verdict ident) run of
        Some (Ended r) \<Rightarrow> if pr_timeout r then probe_addresses ident rest else Some (Ended r)
      | other \<Rightarrow> other)"

text \<open>The helper program: could not run, or its exit code and its output.\<close>

datatype helper_run = Helper_Failed | Helper_Exit int string

definition helper_check :: "bool \<Rightarrow> helper_run \<Rightarrow> bool" where
  "helper_check available run =
     (available \<and> (case run of Helper_Failed \<Rightarrow> False | Helper_Exit code _ \<Rightarrow> code = 0))"

definition icmp_probe_with_helper :: "bool \<Rightarrow> helper_run \<Rightarrow> probe_result option" where
  "icmp_probe_with_helper available run =
     (if \<not> available then None
      else case run of
        Helper_Failed \<Rightarrow> None
      | Helper_Exit code out \<Rightarrow>
          if code = 0 then
            map_option (\<lambda>x. \<lparr>pr_latency = Some (f_round 2 x), pr_timeout = False, pr_method = ''icmp''\<rparr>) (parse_float (py_strip out))
          else if code = 1 then Some (no_answer ''icmp'')
          else None)"

definition icmp_probe :: "bool \<Rightarrow> helper_run \<Rightarrow> int \<Rightarrow> (bool \<times> raw_run) list \<Rightarrow> probe_end option" where
  "icmp_probe available run ident addresses =
     (case icmp_probe_with_helper available run of
        Some r \<Rightarrow> Some (Ended r)
      | None \<Rightarrow> probe_addresses ident addresses)"

subsection \<open>The engine\<close>

record probe_engine =
  pe_method :: string
  pe_reason :: "string option"
  pe_seq :: int

definition detect_method :: "bool \<Rightarrow> bool \<Rightarrow> string \<times> string option" where
  "detect_method helper_ok raw_ok =
     (if helper_ok \<or> raw_ok then (''icmp'', None) else (''tcp'', Some ''ICMP probing is unavailable''))"

definition init_engine :: "string \<Rightarrow> bool \<Rightarrow> bool \<Rightarrow> probe_engine res" where
  "init_engine m helper_ok raw_ok =
     (if m = ''auto'' then
        (let (d, reason) = detect_method helper_ok raw_ok in Inr \<lparr>pe_method = d, pe_reason = reason, pe_seq = 0\<rparr>)
      else if m \<in> {''icmp'', ''tcp''} then Inr \<lparr>pe_method = m, pe_reason = None, pe_seq = 0\<rparr>
      else Inl (ValueError m))"

definition capability_info :: "probe_engine \<Rightarrow> (string \<times> string) list" where
  "capability_info e =
     (''method'', pe_method e)
     # (case pe_reason e of None \<Rightarrow> []
        | Some r \<Rightarrow> [(''reason'', r), (''hint'', ''Add cap_add: [NET_RAW] to your Docker Compose file for ICMP probing (more accurate).'')])"

definition run_probe ::
  "probe_engine \<Rightarrow> bool \<Rightarrow> helper_run \<Rightarrow> int \<Rightarrow> (bool \<times> raw_run) list \<Rightarrow> attempt list \<Rightarrow> probe_end option" where
  "run_probe e available run ident addresses attempts =
     (if pe_method e = ''icmp'' then icmp_probe available run ident addresses
      else Some (Ended (fst (tcp_probe attempts))))"

section \<open>Short packets\<close>

lemma unpack_header_None: "length h \<noteq> 8 \<Longrightarrow> unpack_header h = None"
  by (cases h rule: unpack_header.cases) auto

text \<open>
  A packet of fewer than 28 bytes that reaches the raw socket for IPv4 before the deadline
  ends the probe with the uncaught \<^verbatim>\<open>struct.error\<close> of its first round, whereas the loop for IPv6
  skips a packet too short for a header and waits on.
\<close>

theorem short_packet_crashes_v4_only:
  assumes "rd_got (env 0) = Packet data" and "0 < fl (PROBE_TIMEOUT_S - fl (rd_clock (env 0) - start))"
  shows "(length data < 28 \<longrightarrow> raw_probe (v4_verdict ident) (Sent start env) = Some Struct_Error)
    \<and> (length data < 8 \<longrightarrow> raw_probe (v6_verdict ident) (Sent start env) = await_reply (v6_verdict ident) start env 1)"
  using assms
  by (auto simp: raw_probe_def await_reply.simps [of _ start env 0] decide_round_def v4_verdict_def v6_verdict_def
      match_reply_def unpack_header_None)

lemma short_packet_crashes_v4_only_witness:
  "raw_probe (v4_verdict 7) (Sent 1 (\<lambda>i. \<lparr>rd_clock = 1, rd_got = Packet [69, 0], rd_seq = 1, rd_after = 1\<rparr>)) = Some Struct_Error"
  using short_packet_crashes_v4_only [of "\<lambda>i. \<lparr>rd_clock = 1, rd_got = Packet [69, 0], rd_seq = 1, rd_after = 1\<rparr>" "[69, 0]" 1 7]
  by (simp add: PROBE_TIMEOUT_S_def)

section \<open>Probes in parallel\<close>

text \<open>
  The collector runs the probes of a cycle in parallel threads over one engine.  A probe first
  counts up the shared sequence number, then sends its packet with the number it finds, and
  compares every packet it receives with the number the engine then has.
\<close>

record shared_seq =
  ss_seq :: int
  ss_sent :: "(nat \<times> int) list"
  ss_done :: "nat list"

datatype seq_action = Bump nat | Send nat | Deliver nat "8 word list"

definition next_seq :: "int \<Rightarrow> int" where
  "next_seq n = (n + 1) AND 0xFFFF"

fun seq_step :: "int \<Rightarrow> seq_action \<Rightarrow> shared_seq \<Rightarrow> shared_seq" where
  "seq_step ident (Bump p) s = s\<lparr>ss_seq := next_seq (ss_seq s)\<rparr>"
| "seq_step ident (Send p) s = s\<lparr>ss_sent := dict_set p (ss_seq s) (ss_sent s)\<rparr>"
| "seq_step ident (Deliver p data) s =
     (if p \<in> set (dict_keys (ss_sent s)) \<and> p \<notin> set (ss_done s) \<and> v4_verdict ident (ss_seq s) data = Accept
      then s\<lparr>ss_done := p # ss_done s\<rparr> else s)"

abbreviation seq_run :: "int \<Rightarrow> seq_action list \<Rightarrow> shared_seq \<Rightarrow> shared_seq" where
  "seq_run ident steps s \<equiv> fold (seq_step ident) steps s"

definition idle_engine :: "int \<Rightarrow> shared_seq" where
  "idle_engine sq = \<lparr>ss_seq = sq, ss_sent = [], ss_done = []\<rparr>"

text \<open>An echo reply to the request with some sequence number.\<close>

definition reply_to :: "int \<Rightarrow> int \<Rightarrow> 8 word list \<Rightarrow> bool" where
  "reply_to ident sq data \<longleftrightarrow> (\<exists>c ck. unpack_header (take 8 (drop 20 data)) = Some (0, c, ck, ident, sq))"

lemma v4_accepts: "v4_verdict ident sq data = Accept \<longleftrightarrow> reply_to ident sq data"
  by (auto simp: v4_verdict_def match_reply_def reply_to_def split: option.splits prod.splits if_splits)

lemma deliver_only:
  assumes "list_all (\<lambda>st. \<exists>d. st = Deliver p d) steps" and "p \<in> set (dict_keys (ss_sent s))"
  shows "ss_seq (seq_run ident steps s) = ss_seq s \<and> ss_sent (seq_run ident steps s) = ss_sent s
    \<and> (p \<in> set (ss_done (seq_run ident steps s)) \<longleftrightarrow>
        p \<in> set (ss_done s) \<or> (\<exists>d. Deliver p d \<in> set steps \<and> reply_to ident (ss_seq s) d))"
  using assms
proof (induction steps arbitrary: s)
  case (Cons st steps)
  then obtain d where st: "st = Deliver p d" by auto
  let ?s = "seq_step ident st s"
  have p: "p \<in> set (dict_keys (ss_sent ?s))" "ss_seq ?s = ss_seq s" "ss_sent ?s = ss_sent s"
    "p \<in> set (ss_done ?s) \<longleftrightarrow> p \<in> set (ss_done s) \<or> reply_to ident (ss_seq s) d"
    using Cons.prems(2) by (auto simp: st v4_accepts)
  have "list_all (\<lambda>st. \<exists>d. st = Deliver p d) steps" using Cons.prems(1) by simp
  from Cons.IH [OF this p(1)] p show ?case by (auto simp: st)
qed simp

text \<open>
  A probe that runs alone on its engine succeeds exactly when it receives an echo reply that
  carries its process and its own sequence number.
\<close>

theorem single_probe_exact:
  assumes "list_all (\<lambda>st. \<exists>d. st = Deliver p d) steps"
  shows "p \<in> set (ss_done (seq_run ident ([Bump p, Send p] @ steps) (idle_engine sq))) \<longleftrightarrow>
    (\<exists>d. Deliver p d \<in> set steps \<and> reply_to ident (next_seq sq) d)"
  using deliver_only [OF assms, of "seq_run ident [Bump p, Send p] (idle_engine sq)" ident]
  by (simp add: idle_engine_def)

lemma single_probe_exact_witness:
  "3 \<in> set (ss_done (seq_run 9 ([Bump 3, Send 3] @ [Deliver 3 (replicate 20 0 @ pack_header 0 77 9 6)]) (idle_engine 5)))"
proof -
  have "reply_to 9 (next_seq 5) (replicate 20 0 @ pack_header 0 77 9 6)"
    by (simp add: reply_to_def next_seq_def and_FFFF unpack_pack_header length_pack_header)
  then show ?thesis by (subst single_probe_exact) auto
qed

lemma next_seq_differs: "next_seq (next_seq sq) \<noteq> next_seq sq"
proof
  assume a: "next_seq (next_seq sq) = next_seq sq"
  obtain q r where r: "sq + 1 = 65536 * q + r" "0 \<le> r" "r < 65536" "(sq + 1) mod 65536 = r"
    by (rule div_modE [of 65536 "sq + 1"]) auto
  from a r(4) have "(r + 1) mod 65536 = r" by (simp only: next_seq_def and_FFFF)
  with r(2,3) show False by (cases "r = 65535") auto
qed

text \<open>
  C24. Two probes that run in parallel on one engine take each other's replies: once the second
  has counted up the shared number, the first one ignores the reply to its own request, which
  bears another number, and takes the reply to the request of the second for its own, so a
  target that is down is measured as up while another target answers.
\<close>

theorem parallel_probes_mix_replies:
  assumes "a \<noteq> b"
  shows "let s = seq_run ident [Bump a, Send a, Bump b, Send b] (idle_engine sq);
             own = the (map_of (ss_sent s) a); other = the (map_of (ss_sent s) b)
         in own \<noteq> other
            \<and> (\<forall>d. reply_to ident own d \<longrightarrow> seq_step ident (Deliver a d) s = s)
            \<and> (\<forall>d. reply_to ident other d \<longrightarrow> a \<in> set (ss_done (seq_step ident (Deliver a d) s)))"
  using assms next_seq_differs [of sq]
  by (auto simp: idle_engine_def v4_accepts reply_to_def Let_def)

lemma parallel_probes_mix_replies_witness:
  "the (map_of (ss_sent (seq_run 9 [Bump 1, Send 1, Bump 2, Send 2] (idle_engine 5))) 1)
   \<noteq> the (map_of (ss_sent (seq_run 9 [Bump 1, Send 1, Bump 2, Send 2] (idle_engine 5))) 2)"
  using parallel_probes_mix_replies [of 1 2 9 5] by (simp add: Let_def)

end
