(* ===== verification/Connection_Monitor.thy ===== *)
theory Connection_Monitor
  imports Probe_Engine Cooldowns
begin

text \<open>
  \<^verbatim>\<open>app/modules/connection_monitor\<close>: the event rules over probe results (\<^verbatim>\<open>event_rules.py\<close>), the
  trigger of trace routes (\<^verbatim>\<open>traceroute_trigger.py\<close>) and one cycle of the collector
  (\<^verbatim>\<open>collector.py\<close>).  The ends of the probes with the seconds they took, the loss a window shows
  and the clocks are arguments.
\<close>

section \<open>Event rules\<close>

definition LOSS_COOLDOWN_S :: rat where "LOSS_COOLDOWN_S = 300"

record target_state =
  ts_timeouts :: nat
  ts_outage :: bool

definition fresh_target :: target_state where
  "fresh_target = \<lparr>ts_timeouts = 0, ts_outage = False\<rparr>"

record event_rules =
  er_threshold :: int
  er_loss_pct :: f64
  er_states :: "(int \<times> target_state) list"
  er_cooldown :: "(int \<times> rat) list"

definition init_rules :: "int \<Rightarrow> f64 \<Rightarrow> event_rules" where
  "init_rules threshold loss = \<lparr>er_threshold = threshold, er_loss_pct = loss, er_states = [], er_cooldown = []\<rparr>"

datatype cm_event = Unreachable int nat | Recovered int nat | Loss_Warning int f64 int

fun event_target :: "cm_event \<Rightarrow> int" where
  "event_target (Unreachable t n) = t"
| "event_target (Recovered t n) = t"
| "event_target (Loss_Warning t p w) = t"

fun cm_type :: "cm_event \<Rightarrow> string" where
  "cm_type (Unreachable t n) = ''cm_target_unreachable''"
| "cm_type (Recovered t n) = ''cm_target_recovered''"
| "cm_type (Loss_Warning t p w) = ''cm_packet_loss_warning''"

fun cm_severity :: "cm_event \<Rightarrow> string" where
  "cm_severity (Unreachable t n) = ''critical''"
| "cm_severity (Recovered t n) = ''info''"
| "cm_severity (Loss_Warning t p w) = ''warning''"

definition target_state_of :: "int \<Rightarrow> event_rules \<Rightarrow> target_state" where
  "target_state_of tid er = dict_get (er_states er) tid fresh_target"

definition check_probe_result :: "int \<Rightarrow> bool \<Rightarrow> event_rules \<Rightarrow> cm_event list \<times> event_rules" where
  "check_probe_result tid timeout er =
     (let s = target_state_of tid er; keep = (\<lambda>s'. er\<lparr>er_states := dict_set tid s' (er_states er)\<rparr>) in
      if timeout then
        (let n = Suc (ts_timeouts s) in
         if er_threshold er \<le> int n \<and> \<not> ts_outage s
         then ([Unreachable tid n], keep \<lparr>ts_timeouts = n, ts_outage = True\<rparr>)
         else ([], keep \<lparr>ts_timeouts = n, ts_outage = ts_outage s\<rparr>))
      else (if ts_outage s then [Recovered tid (ts_timeouts s)] else [], keep fresh_target))"

definition check_window_stats :: "rat \<Rightarrow> int \<Rightarrow> f64 \<Rightarrow> int \<Rightarrow> event_rules \<Rightarrow> cm_event list \<times> event_rules" where
  "check_window_stats now tid loss window er =
     (if f_le (er_loss_pct er) loss \<and> LOSS_COOLDOWN_S \<le> fl (now - dict_get (er_cooldown er) tid 0)
      then ([Loss_Warning tid loss window], er\<lparr>er_cooldown := dict_set tid now (er_cooldown er)\<rparr>)
      else ([], er))"

text \<open>What happens to the rules: the outcome of a probe or the loss of a window.\<close>

datatype rule_input = Probe_Result int bool | Window_Stats rat int f64 int

fun rule_step :: "rule_input \<Rightarrow> event_rules \<Rightarrow> cm_event list \<times> event_rules" where
  "rule_step (Probe_Result tid timeout) er = check_probe_result tid timeout er"
| "rule_step (Window_Stats now tid loss w) er = check_window_stats now tid loss w er"

fun run_rules :: "rule_input list \<Rightarrow> event_rules \<Rightarrow> cm_event list \<times> event_rules" where
  "run_rules [] er = ([], er)"
| "run_rules (i # is) er = (let (e, er1) = rule_step i er; (es, er2) = run_rules is er1 in (e @ es, er2))"

section \<open>Trace routes\<close>

definition TRACE_COOLDOWN_S :: rat where "TRACE_COOLDOWN_S = 300"

text \<open>
  The trigger queues a job for its single worker; the worker notes the time when it starts the
  job.  \<open>tc_started\<close> is the log of the jobs started, newest first.
\<close>

record tracer =
  tc_last :: "(int \<times> rat) list"
  tc_queue :: "(int \<times> string) list"
  tc_started :: "int entry list"

definition init_tracer :: tracer where
  "init_tracer = \<lparr>tc_last = [], tc_queue = [], tc_started = []\<rparr>"

definition trace_cooldown_ok :: "rat \<Rightarrow> int \<Rightarrow> tracer \<Rightarrow> bool" where
  "trace_cooldown_ok now tid tr = (TRACE_COOLDOWN_S \<le> fl (now - dict_get (tc_last tr) tid 0))"

definition trace_on_event :: "rat \<Rightarrow> (int \<Rightarrow> bool) \<Rightarrow> cm_event \<Rightarrow> tracer \<Rightarrow> tracer" where
  "trace_on_event now known ev tr =
     (let reason = (case ev of Unreachable _ _ \<Rightarrow> Some ''outage'' | Loss_Warning _ _ _ \<Rightarrow> Some ''packet_loss'' | _ \<Rightarrow> None) in
      case reason of None \<Rightarrow> tr
      | Some r \<Rightarrow> if trace_cooldown_ok now (event_target ev) tr \<and> known (event_target ev)
                  then tr\<lparr>tc_queue := tc_queue tr @ [(event_target ev, r)]\<rparr> else tr)"

definition trace_start :: "rat \<Rightarrow> tracer \<Rightarrow> tracer" where
  "trace_start now tr =
     (case tc_queue tr of [] \<Rightarrow> tr
      | (tid, r) # q \<Rightarrow> tr\<lparr>tc_last := dict_set tid now (tc_last tr), tc_queue := q, tc_started := (now, tid) # tc_started tr\<rparr>)"

section \<open>One cycle of the collector\<close>

record cm_target =
  ct_id :: int
  ct_enabled :: bool
  ct_interval_ms :: int

record cm_collector =
  co_rules :: event_rules
  co_tracer :: tracer
  co_last_probe :: "(int \<times> rat) list"
  co_samples :: "(int \<times> rat \<times> probe_result) list"

text \<open>A probe that finished: its target, its result and the seconds it took.\<close>

record finished =
  fi_target :: int
  fi_end :: probe_end
  fi_seconds :: rat

text \<open>A probe that raised counts as a timeout by the method error.\<close>

definition fi_result :: "finished \<Rightarrow> probe_result" where
  "fi_result f = (case fi_end f of Ended r \<Rightarrow> r | Struct_Error \<Rightarrow> no_answer ''error'')"

definition AS_COMPLETED_TIMEOUT :: rat where "AS_COMPLETED_TIMEOUT = 5"

definition due_targets :: "rat \<Rightarrow> cm_collector \<Rightarrow> cm_target list \<Rightarrow> cm_target list" where
  "due_targets now c ts =
     filter (\<lambda>t. fl (of_int (ct_interval_ms t) / 1000) \<le> fl (now - dict_get (co_last_probe c) (ct_id t) 0)) (filter ct_enabled ts)"

text \<open>Probes in the order of completion; those done in time are noted even when others time out.\<close>

definition in_time :: "finished \<Rightarrow> bool" where
  "in_time f = (fi_seconds f \<le> AS_COMPLETED_TIMEOUT)"

definition note_probes :: "rat \<Rightarrow> finished list \<Rightarrow> cm_collector \<Rightarrow> cm_collector" where
  "note_probes now fs c = c\<lparr>co_last_probe := fold (\<lambda>f. dict_set (fi_target f) now) (filter in_time fs) (co_last_probe c)\<rparr>"

fun probe_events :: "finished list \<Rightarrow> event_rules \<Rightarrow> cm_event list \<times> event_rules" where
  "probe_events [] er = ([], er)"
| "probe_events (f # fs) er =
     (let (e, er1) = check_probe_result (fi_target f) (pr_timeout (fi_result f)) er; (es, er2) = probe_events fs er1
      in (e @ es, er2))"

fun window_events :: "rat \<Rightarrow> (int \<Rightarrow> f64) \<Rightarrow> int list \<Rightarrow> event_rules \<Rightarrow> cm_event list \<times> event_rules" where
  "window_events now loss [] er = ([], er)"
| "window_events now loss (tid # ts) er =
     (let (e, er1) = check_window_stats now tid (loss tid) 60 er; (es, er2) = window_events now loss ts er1
      in (e @ es, er2))"

text \<open>The targets of the samples, each once, in order of their first sample.\<close>

definition checked_targets :: "finished list \<Rightarrow> int list" where
  "checked_targets fs = rev (remdups (rev (map fi_target fs)))"

datatype cycle = Idle | Cycle_Failed | Probed nat

definition collect_cycle ::
  "rat \<Rightarrow> cm_target list \<Rightarrow> (int \<Rightarrow> bool) \<Rightarrow> (cm_target list \<Rightarrow> finished list) \<Rightarrow> (int \<Rightarrow> f64) \<Rightarrow> cm_collector
    \<Rightarrow> cycle \<times> cm_event list \<times> cm_collector" where
  "collect_cycle now targets known probe loss c =
     (let due = due_targets now c targets in
      if due = [] then (Idle, [], c)
      else (let fs = probe due; c1 = note_probes now fs c in
        if \<not> list_all in_time fs then (Cycle_Failed, [], c1)
        else (let (es1, er1) = probe_events fs (co_rules c1);
                  (es2, er2) = window_events now loss (checked_targets fs) er1;
                  es = es1 @ es2
              in (Probed (length due), es,
                  c1\<lparr>co_rules := er2, co_tracer := fold (trace_on_event now known) es (co_tracer c1),
                     co_samples := co_samples c1 @ map (\<lambda>f. (fi_target f, now, fi_result f)) fs\<rparr>))))"

section \<open>What the rules remember\<close>

text \<open>The timeouts of a target since its last answer, in a history with the newest input first.\<close>

fun outcomes :: "int \<Rightarrow> rule_input list \<Rightarrow> bool list" where
  "outcomes tid [] = []"
| "outcomes tid (Probe_Result t b # is) = (if t = tid then b # outcomes tid is else outcomes tid is)"
| "outcomes tid (Window_Stats _ _ _ _ # is) = outcomes tid is"

definition unanswered :: "int \<Rightarrow> rule_input list \<Rightarrow> nat" where
  "unanswered tid h = length (takeWhile id (outcomes tid h))"

lemma outcomes_append: "outcomes tid (g @ h) = outcomes tid g @ outcomes tid h"
  by (induction g rule: outcomes.induct) auto

definition outage_from :: "event_rules \<Rightarrow> nat" where
  "outage_from er = nat (max 1 (er_threshold er))"

lemma run_rules_append:
  "run_rules (g @ h) er = (let (e, er1) = run_rules g er; (es, er2) = run_rules h er1 in (e @ es, er2))"
  by (induction g arbitrary: er) (auto simp: Let_def split: prod.splits)

lemma rule_step_frame:
  "er_threshold (snd (rule_step i er)) = er_threshold er \<and> er_loss_pct (snd (rule_step i er)) = er_loss_pct er"
  by (cases i) (auto simp: check_probe_result_def check_window_stats_def Let_def)

lemma run_rules_frame:
  "er_threshold (snd (run_rules is er)) = er_threshold er \<and> er_loss_pct (snd (run_rules is er)) = er_loss_pct er"
  by (induction "is" arbitrary: er) (auto simp: Let_def rule_step_frame split: prod.splits, (metis rule_step_frame snd_conv)+)

text \<open>The state of every target, as its history decides.\<close>

definition counts :: "event_rules \<Rightarrow> rule_input list \<Rightarrow> bool" where
  "counts er h \<longleftrightarrow> (\<forall>tid. target_state_of tid er =
     \<lparr>ts_timeouts = unanswered tid h, ts_outage = (outage_from er \<le> unanswered tid h)\<rparr>)"

lemma outage_reached: "er_threshold er \<le> 1 + int n \<longleftrightarrow> outage_from er \<le> Suc n"
  by (auto simp: outage_from_def)

lemma outage_from_pos: "0 < outage_from er"
  by (simp add: outage_from_def)

lemma target_state_set:
  "target_state_of tid (er\<lparr>er_states := dict_set t s (er_states er)\<rparr>) = (if t = tid then s else target_state_of tid er)"
  by (simp add: target_state_of_def dict_get_def)

lemma counts_step:
  assumes "counts er h"
  shows "counts (snd (rule_step i er)) (i # h)"
proof (cases i)
  case (Window_Stats now tid loss w)
  then show ?thesis using assms
    by (auto simp: counts_def check_window_stats_def unanswered_def target_state_of_def outage_from_def)
next
  case (Probe_Result t b)
  have of: "outage_from (er\<lparr>er_states := d\<rparr>) = outage_from er" for d by (simp add: outage_from_def)
  have s: "target_state_of tid er = \<lparr>ts_timeouts = unanswered tid h, ts_outage = (outage_from er \<le> unanswered tid h)\<rparr>" for tid
    using assms by (simp add: counts_def)
  have "0 < outage_from er" by (rule outage_from_pos)
  then show ?thesis unfolding Probe_Result counts_def
    by (auto simp: check_probe_result_def Let_def s of target_state_set unanswered_def fresh_target_def outage_reached)
qed

lemma counts_run: "counts er h \<Longrightarrow> counts (snd (run_rules is er)) (rev is @ h)"
proof (induction "is" arbitrary: er h)
  case (Cons i "is")
  have "counts (snd (run_rules is (snd (rule_step i er)))) (rev is @ i # h)"
    by (rule Cons.IH [OF counts_step [OF Cons.prems]])
  then show ?case by (simp add: Let_def case_prod_beta)
qed simp

lemma counts_init: "counts (init_rules thr loss) []"
  by (simp add: counts_def target_state_of_def init_rules_def dict_get_def fresh_target_def unanswered_def outage_from_def)

lemma check_probe_result_counts:
  assumes "counts er h"
  shows "fst (check_probe_result tid timeout er) =
    (if timeout then (if Suc (unanswered tid h) = outage_from er then [Unreachable tid (outage_from er)] else [])
     else if outage_from er \<le> unanswered tid h then [Recovered tid (unanswered tid h)] else [])"
  using assms by (auto simp: counts_def check_probe_result_def Let_def outage_reached)

text \<open>
  The outage events are a function of the history of a target alone, whatever happened to
  other targets and windows in between: a timeout reports the target unreachable exactly when it
  completes the threshold (at least one) of timeouts in a row, and an answer reports recovery
  exactly when the timeouts before it had reached the threshold, with their number.
\<close>

theorem outage_events_by_history:
  "fst (rule_step (Probe_Result tid timeout) (snd (run_rules is (init_rules thr loss)))) =
    (let k = unanswered tid (rev is); m = nat (max 1 thr) in
     if timeout then (if Suc k = m then [Unreachable tid m] else [])
     else if m \<le> k then [Recovered tid k] else [])"
proof -
  let ?er = "snd (run_rules is (init_rules thr loss))"
  have "counts ?er (rev is)" using counts_run [OF counts_init] by (metis append.right_neutral)
  moreover have "outage_from ?er = nat (max 1 thr)"
    using run_rules_frame [of "is" "init_rules thr loss"] by (simp add: outage_from_def init_rules_def)
  ultimately show ?thesis by (simp add: check_probe_result_counts Let_def)
qed

section \<open>Warnings of packet loss\<close>

fun warned :: "cm_event list \<Rightarrow> int list" where
  "warned [] = []"
| "warned (Loss_Warning t p w # es) = t # warned es"
| "warned (_ # es) = warned es"

fun input_time :: "rule_input \<Rightarrow> rat option" where
  "input_time (Window_Stats now t p w) = Some now"
| "input_time (Probe_Result t b) = None"

text \<open>The warnings given, with their times, newest first.\<close>

fun warning_log :: "rule_input list \<Rightarrow> event_rules \<Rightarrow> int entry list \<Rightarrow> int entry list" where
  "warning_log [] er lg = lg"
| "warning_log (i # is) er lg =
     (let (es, er1) = rule_step i er in
      warning_log is er1 (case input_time i of None \<Rightarrow> lg | Some now \<Rightarrow> map (Pair now) (warned es) @ lg))"

fun clock_ok :: "rat \<Rightarrow> rule_input list \<Rightarrow> bool" where
  "clock_ok t [] = True"
| "clock_ok t (i # is) = (case input_time i of None \<Rightarrow> clock_ok t is | Some now \<Rightarrow> t \<le> now \<and> clock_ok now is)"

interpretation loss: fire_memory "\<lambda>d. map_of (d :: (int \<times> rat) list)" dict_set
  by unfold_locales simp

lemma warned_probe: "warned (fst (check_probe_result tid b er)) = []"
  by (simp add: check_probe_result_def Let_def)

lemma probe_cooldown: "er_cooldown (snd (check_probe_result tid b er)) = er_cooldown er"
  by (simp add: check_probe_result_def Let_def)

text \<open>The rules remember the newest warning of every target.\<close>

definition remembers_warnings :: "rat \<Rightarrow> event_rules \<Rightarrow> int entry list \<Rightarrow> bool" where
  "remembers_warnings t er lg \<longleftrightarrow> loss.remembers (er_cooldown er) lg \<and> (\<forall>e \<in> set lg. fst e \<le> t)"

lemma remembers_window:
  assumes "remembers_warnings t er lg" and "t \<le> now"
  shows "remembers_warnings now (snd (check_window_stats now tid p w er))
    (map (Pair now) (warned (fst (check_window_stats now tid p w er))) @ lg)"
proof -
  have le: "fst e \<le> now" if "e \<in> set lg" for e
    using assms that by (force simp: remembers_warnings_def)
  show ?thesis using assms le loss.remembers_store [of "er_cooldown er" lg now tid]
    by (auto simp: remembers_warnings_def check_window_stats_def)
qed

lemma remembers_run:
  assumes "remembers_warnings t er lg" and "clock_ok t is" and "\<And>now. Some now \<in> set (map input_time is) \<Longrightarrow> now \<le> end_time" and "t \<le> end_time"
  shows "remembers_warnings end_time (snd (run_rules is er)) (warning_log is er lg)"
  using assms
proof (induction "is" arbitrary: t er lg)
  case Nil
  then show ?case by (force simp: remembers_warnings_def)
next
  case (Cons i "is")
  show ?case
  proof (cases i)
    case (Probe_Result tid b)
    have "remembers_warnings t (snd (check_probe_result tid b er)) lg"
      using Cons.prems(1) by (simp add: remembers_warnings_def probe_cooldown)
    from Cons.IH [OF this] Cons.prems show ?thesis by (simp add: Probe_Result case_prod_beta Let_def)
  next
    case (Window_Stats now tid p w)
    have "t \<le> now" using Cons.prems(2) by (simp add: Window_Stats)
    from Cons.IH [OF remembers_window [OF Cons.prems(1) this, of tid p w]] Cons.prems show ?thesis
      by (simp add: Window_Stats case_prod_beta Let_def)
  qed
qed

text \<open>
  A window whose loss reaches the configured share warns exactly when every earlier warning
  of the same target, and the epoch, lie at least 300 seconds back, on a clock that never runs
  backwards; warnings of other targets and outages do not count.
\<close>

theorem loss_warning_by_history:
  assumes "clock_ok 0 (is @ [Window_Stats now tid p w])"
  shows "fst (rule_step (Window_Stats now tid p w) (snd (run_rules is (init_rules thr limit)))) \<noteq> [] \<longleftrightarrow>
    f_le limit p \<and> list_all (\<lambda>t. 300 \<le> fl (now - t)) (times_of tid (warning_log is (init_rules thr limit) []))
    \<and> (300 \<le> fl now \<or> times_of tid (warning_log is (init_rules thr limit) []) \<noteq> [])"
proof -
  have bound: "clock_ok t (js @ [Window_Stats now tid p w]) \<Longrightarrow>
      t \<le> now \<and> clock_ok t js \<and> (\<forall>n. Some n \<in> set (map input_time js) \<longrightarrow> n \<le> now)" for t js
    by (induction js arbitrary: t) (force split: option.splits)+
  let ?er = "snd (run_rules is (init_rules thr limit))" and ?log = "warning_log is (init_rules thr limit) []"
  have "remembers_warnings 0 (init_rules thr limit) []"
    by (simp add: remembers_warnings_def init_rules_def loss.remembers_Nil)
  then have "remembers_warnings now ?er ?log"
    by (rule remembers_run) (use bound [OF assms] in auto)
  then have "newest_of (map_of (er_cooldown ?er) tid) (times_of tid ?log)"
    by (auto simp: remembers_warnings_def intro: loss.remembersD)
  note newest_rested [OF this, of 300 now] this
  moreover have "er_loss_pct ?er = limit"
    using run_rules_frame [of "is" "init_rules thr limit"] by (simp add: init_rules_def)
  ultimately show ?thesis
    by (auto simp: check_window_stats_def LOSS_COOLDOWN_S_def dict_get_def newest_of_def filter_empty_conv split: option.splits)
qed

lemma loss_warning_by_history_witness:
  "fst (rule_step (Window_Stats 1000 7 (Fin 5) 60) (snd (run_rules [Probe_Result 7 True] (init_rules 5 (Fin 2))))) \<noteq> []"
  using loss_warning_by_history [of "[Probe_Result 7 True]" 1000 7 "Fin 5" 60 5 "Fin 2"]
  by (simp add: f_le_def case_prod_beta)

section \<open>Trace routes against their cooldown\<close>

text \<open>
  The cooldown of trace routes is noted when the worker starts a job, not when it is queued:
  two events of one batch about the same known target, an outage and a loss warning, both
  queue a trace, and the worker starts both, however close together, so the cooldown of 300
  seconds between two traces of a target does not hold.
\<close>

theorem queued_traces_ignore_cooldown:
  assumes "known t" and "trace_cooldown_ok now t tr" and "tc_queue tr = []"
  shows "let tr1 = fold (trace_on_event now known) [Unreachable t n, Loss_Warning t p w] tr;
             tr2 = trace_start s2 (trace_start s1 tr1)
         in tc_queue tr1 = [(t, ''outage''), (t, ''packet_loss'')] \<and> tc_queue tr2 = []
            \<and> tc_started tr2 = [(s2, t), (s1, t)] @ tc_started tr"
  using assms by (simp add: Let_def trace_on_event_def trace_start_def trace_cooldown_ok_def)

lemma queued_traces_ignore_cooldown_witness:
  "tc_started (trace_start 1001 (trace_start 1000
     (fold (trace_on_event 1000 (\<lambda>_. True)) [Unreachable 1 5, Loss_Warning 1 (Fin 10) 60] init_tracer))) = [(1001, 1), (1000, 1)]"
  using queued_traces_ignore_cooldown [of "\<lambda>_. True" 1 1000 init_tracer 5 "Fin 10" 60 1001 1000]
  by (simp add: Let_def trace_cooldown_ok_def TRACE_COOLDOWN_S_def init_tracer_def dict_get_def)

section \<open>The rules inside the collector\<close>

lemma probe_events_run:
  "probe_events fs er = run_rules (map (\<lambda>f. Probe_Result (fi_target f) (pr_timeout (fi_result f))) fs) er"
  by (induction fs arbitrary: er) auto

lemma window_events_run:
  "window_events now loss ts er = run_rules (map (\<lambda>t. Window_Stats now t (loss t) 60) ts) er"
  by (induction ts arbitrary: er) auto

lemma run_rules_split:
  "run_rules (g @ h) er =
    (fst (run_rules g er) @ fst (run_rules h (snd (run_rules g er))), snd (run_rules h (snd (run_rules g er))))"
  by (simp add: run_rules_append Let_def case_prod_beta)

lemma note_probes_frame:
  "co_rules (note_probes now fs c) = co_rules c" "co_tracer (note_probes now fs c) = co_tracer c"
  "co_samples (note_probes now fs c) = co_samples c"
  by (simp_all add: note_probes_def)

lemma note_probes_noted:
  "map_of (co_last_probe (note_probes now fs c)) t =
    (if t \<in> fi_target ` set (filter in_time fs) then Some now else map_of (co_last_probe c) t)"
proof -
  have "map_of (fold (\<lambda>f. dict_set (fi_target f) now) gs d) t =
      (if t \<in> fi_target ` set gs then Some now else map_of d t)" for gs :: "finished list" and d
    by (induction gs arbitrary: d) auto
  then show ?thesis by (simp add: note_probes_def)
qed

lemma rule_events_target: "e \<in> set (fst (rule_step i er)) \<Longrightarrow>
    event_target e = (case i of Probe_Result t b \<Rightarrow> t | Window_Stats n t p w \<Rightarrow> t)"
  by (cases i) (auto simp: check_probe_result_def check_window_stats_def Let_def split: if_splits)

text \<open>
  One cycle of the collector, when every probe ends in time, feeds the rules first the
  results in the order of completion and then one window per probed target, hands every
  event to the trace trigger in that order and stores one sample per probe; when one probe
  outlasts the limit of five seconds the cycle fails: no sample is stored and the rules see
  nothing, not even of the targets that answered, but these count as probed.
\<close>

theorem collect_cycle_outcome:
  assumes "due_targets now c ts \<noteq> []"
  shows "let fs = probe (due_targets now c ts);
             inputs = map (\<lambda>f. Probe_Result (fi_target f) (pr_timeout (fi_result f))) fs
                      @ map (\<lambda>t. Window_Stats now t (loss t) 60) (checked_targets fs);
             (r, es, c') = collect_cycle now ts known probe loss c
         in (\<forall>t. map_of (co_last_probe c') t =
               (if t \<in> fi_target ` set (filter in_time fs) then Some now else map_of (co_last_probe c) t))
            \<and> (if list_all in_time fs
                then r = Probed (length (due_targets now c ts)) \<and> (es, co_rules c') = run_rules inputs (co_rules c)
                  \<and> co_tracer c' = fold (trace_on_event now known) es (co_tracer c)
                  \<and> co_samples c' = co_samples c @ map (\<lambda>f. (fi_target f, now, fi_result f)) fs
                else r = Cycle_Failed \<and> es = [] \<and> co_rules c' = co_rules c \<and> co_tracer c' = co_tracer c
                  \<and> co_samples c' = co_samples c)"
  using assms
  by (simp add: collect_cycle_def Let_def probe_events_run window_events_run run_rules_split case_prod_beta
      note_probes_frame note_probes_noted)

lemma collect_cycle_outcome_witness:
  "fst (collect_cycle 100 [\<lparr>ct_id = 1, ct_enabled = True, ct_interval_ms = 5000\<rparr>] (\<lambda>_. True)
     (map (\<lambda>t. \<lparr>fi_target = ct_id t, fi_end = Ended (no_answer ''tcp''), fi_seconds = 2\<rparr>)) (\<lambda>_. Fin 0)
     \<lparr>co_rules = init_rules 5 (Fin 2), co_tracer = init_tracer, co_last_probe = [], co_samples = []\<rparr>) = Probed 1"
  using collect_cycle_outcome [of 100 "\<lparr>co_rules = init_rules 5 (Fin 2), co_tracer = init_tracer, co_last_probe = [], co_samples = []\<rparr>"
    "[\<lparr>ct_id = 1, ct_enabled = True, ct_interval_ms = 5000\<rparr>]"
    "map (\<lambda>t. \<lparr>fi_target = ct_id t, fi_end = Ended (no_answer ''tcp''), fi_seconds = 2\<rparr>)" "\<lambda>_. Fin 0" "\<lambda>_. True"]
  by (simp add: due_targets_def dict_get_def Let_def case_prod_beta in_time_def AS_COMPLETED_TIMEOUT_def)

lemma tcp_probe_dead:
  assumes "list_all (\<lambda>a. \<exists>s \<ge> PROBE_TIMEOUT_S. a = Failed s) as"
  shows "fst (tcp_probe as) = no_answer ''tcp'' \<and> of_nat (length as) * PROBE_TIMEOUT_S \<le> snd (tcp_probe as)"
  using assms by (induction as) (auto simp: case_prod_beta algebra_simps)

lemma collect_cycle_late:
  assumes "due_targets now c ts \<noteq> []" and "f \<in> set (probe (due_targets now c ts))" and "\<not> in_time f"
  shows "fst (collect_cycle now ts known probe loss c) = Cycle_Failed
    \<and> co_rules (snd (snd (collect_cycle now ts known probe loss c))) = co_rules c
    \<and> fst (snd (collect_cycle now ts known probe loss c)) = []"
  using assms by (auto simp: collect_cycle_def Let_def note_probes_frame list_all_iff)

text \<open>
  The probe over TCP waits two seconds for each address a host resolves to, one after the
  other, but the cycle gives up after five: a host with three or more addresses none of which
  answers makes every cycle that probes it fail, so its timeouts are never counted and no
  outage is ever reported for it, or for the other targets of the cycle.
\<close>

theorem dead_host_silences_cycle:
  assumes "f \<in> set (probe (due_targets now c ts))" and "fi_end f = Ended (fst (tcp_probe as))" and "fi_seconds f = snd (tcp_probe as)"
    and "3 \<le> length as" and "list_all (\<lambda>a. \<exists>s \<ge> PROBE_TIMEOUT_S. a = Failed s) as"
    and "due_targets now c ts \<noteq> []"
  shows "let (r, es, c') = collect_cycle now ts known probe loss c
    in pr_timeout (fi_result f) \<and> r = Cycle_Failed \<and> es = [] \<and> co_rules c' = co_rules c"
proof -
  have d: "fst (tcp_probe as) = fi_result f" "snd (tcp_probe as) = fi_seconds f"
    using assms(2,3) by (simp_all add: fi_result_def)
  have "(3::rat) * 2 \<le> of_nat (length as) * 2" using assms(4) by simp
  then have "\<not> in_time f"
    using tcp_probe_dead [OF assms(5)] d by (simp add: in_time_def AS_COMPLETED_TIMEOUT_def PROBE_TIMEOUT_S_def)
  from collect_cycle_late [of now c ts f probe, OF assms(6,1) this] tcp_probe_dead [OF assms(5)] d
  show ?thesis by (simp add: case_prod_beta no_answer_def)
qed

lemma dead_host_silences_cycle_witness:
  "fst (collect_cycle 100 [\<lparr>ct_id = 1, ct_enabled = True, ct_interval_ms = 5000\<rparr>] (\<lambda>_. True)
     (map (\<lambda>t. \<lparr>fi_target = ct_id t, fi_end = Ended (no_answer ''tcp''), fi_seconds = 6\<rparr>)) (\<lambda>_. Fin 0)
     \<lparr>co_rules = init_rules 5 (Fin 2), co_tracer = init_tracer, co_last_probe = [], co_samples = []\<rparr>) = Cycle_Failed"
  using dead_host_silences_cycle [of "\<lparr>fi_target = 1, fi_end = Ended (no_answer ''tcp''), fi_seconds = 6\<rparr>"
    "map (\<lambda>t. \<lparr>fi_target = ct_id t, fi_end = Ended (no_answer ''tcp''), fi_seconds = 6\<rparr>)" 100
    "\<lparr>co_rules = init_rules 5 (Fin 2), co_tracer = init_tracer, co_last_probe = [], co_samples = []\<rparr>"
    "[\<lparr>ct_id = 1, ct_enabled = True, ct_interval_ms = 5000\<rparr>]"
    "[Failed 2, Failed 2, Failed 2]" "\<lambda>_. True" "\<lambda>_. Fin 0"]
  by (simp add: due_targets_def dict_get_def Let_def case_prod_beta PROBE_TIMEOUT_S_def)

end
