(* ===== verification/Sample_Store.thy ===== *)
theory Sample_Store
  imports Py_Values "HOL-Library.Multiset"
begin

text \<open>
  \<^verbatim>\<open>app/modules/connection_monitor/storage.py\<close>: the table of samples and the table of aggregated
  buckets, with the cascade that turns old samples into buckets of 60, 300 and 3600 seconds, the
  retention, the outages derived from the samples, and the summary of a window.  A latency is a
  finite float; the averages may overflow.  The day of a time stamp (\<^verbatim>\<open>date(..., 'localtime')\<close>) is an
  argument; the start of a bucket is exact, since a multiple of its length below \<open>2 ^ 53\<close> is a float.
\<close>

section \<open>Tables\<close>

record sample =
  sm_target :: int
  sm_time :: rat
  sm_latency :: "rat option"
  sm_timeout :: bool

record bucket =
  bk_target :: int
  bk_start :: int
  bk_seconds :: int
  bk_avg :: "f64 option"
  bk_min :: "rat option"
  bk_max :: "rat option"
  bk_p95 :: "rat option"
  bk_loss :: f64
  bk_count :: nat

record sample_store =
  ss_samples :: "sample list"
  ss_buckets :: "bucket list"
  ss_pinned :: "string list"

text \<open>The table of buckets is unique in target, start and length.\<close>

definition bk_key :: "bucket \<Rightarrow> int \<times> int \<times> int" where
  "bk_key b = (bk_target b, bk_start b, bk_seconds b)"

text \<open>\<^verbatim>\<open>INSERT OR REPLACE\<close>.\<close>

definition upsert_bucket :: "bucket \<Rightarrow> bucket list \<Rightarrow> bucket list" where
  "upsert_bucket b bs = filter (\<lambda>x. bk_key x \<noteq> bk_key b) bs @ [b]"

definition bucket_of :: "rat \<Rightarrow> int \<Rightarrow> int" where
  "bucket_of ts len = \<lfloor>ts / of_int len\<rfloor> * len"

section \<open>Samples to buckets\<close>

definition latencies :: "sample list \<Rightarrow> rat list" where
  "latencies ss = concat (map (\<lambda>s. case sm_latency s of Some l \<Rightarrow> if sm_timeout s then [] else [l] | None \<Rightarrow> []) ss)"

definition f_mean :: "rat list \<Rightarrow> f64" where
  "f_mean xs = f_scale (1 / of_nat (length xs)) (f_sum (map Fin xs))"

text \<open>The rank \<^verbatim>\<open>min(int(n * 0.95), n - 1)\<close>.\<close>

definition p95_index :: "nat \<Rightarrow> nat" where
  "p95_index n = min (nat (trunc_rat (fl (of_nat n * fl (95 / 100))))) (n - 1)"

definition raw_bucket :: "int \<Rightarrow> int \<Rightarrow> int \<Rightarrow> sample list \<Rightarrow> bucket" where
  "raw_bucket tid len start ss =
     (let ls = latencies ss; n = length ss; timeouts = length (filter sm_timeout ss);
          opt = (\<lambda>v. if ls = [] then None else Some v)
      in \<lparr>bk_target = tid, bk_start = start, bk_seconds = len,
          bk_avg = (if ls = [] then None else Some (f_mean ls)),
          bk_min = opt (Min (set ls)), bk_max = opt (Max (set ls)),
          bk_p95 = opt (sort ls ! p95_index (length ls)),
          bk_loss = Fin (if 0 < n then rnd 2 (fl (fl (of_nat timeouts / of_nat n) * 100)) else 0),
          bk_count = n\<rparr>)"

definition aged :: "int \<Rightarrow> rat \<Rightarrow> sample \<Rightarrow> bool" where
  "aged tid cutoff s = (sm_target s = tid \<and> sm_time s < cutoff)"

text \<open>
  \<open>day\<close> is the local date of a time stamp.  The samples of a pinned day are aggregated like all
  others but stay in the table.
\<close>

definition aggregate_raw_to_buckets ::
  "(rat \<Rightarrow> string) \<Rightarrow> int \<Rightarrow> rat \<Rightarrow> int \<Rightarrow> sample_store \<Rightarrow> nat \<times> sample_store" where
  "aggregate_raw_to_buckets day tid cutoff len st =
     (let rows = sort_key sm_time (filter (aged tid cutoff) (ss_samples st)) in
      if rows = [] then (0, st)
      else (let groups = group_by (\<lambda>s. bucket_of (sm_time s) len) [] rows in
        (length groups,
         st\<lparr>ss_buckets := fold (\<lambda>(start, ss). upsert_bucket (raw_bucket tid len start ss)) groups (ss_buckets st),
            ss_samples := filter (\<lambda>s. \<not> (aged tid cutoff s \<and> day (sm_time s) \<notin> set (ss_pinned st))) (ss_samples st)\<rparr>)))"

section \<open>Buckets to larger buckets\<close>

text \<open>
  Minimum and maximum range over the sources with an average, which all have both
  (\<open>bucket_ok\<close> below); so they are never taken over a missing value.
\<close>

definition rolled_bucket :: "int \<Rightarrow> int \<Rightarrow> int \<Rightarrow> bucket list \<Rightarrow> bucket" where
  "rolled_bucket tid len start sources =
     (let total = sum_list (map bk_count sources);
          non_null = filter (\<lambda>b. bk_avg b \<noteq> None) sources;
          weight = sum_list (map bk_count non_null);
          mins = somes (map bk_min non_null); maxs = somes (map bk_max non_null); p95s = somes (map bk_p95 non_null)
      in \<lparr>bk_target = tid, bk_start = start, bk_seconds = len,
          bk_avg = (if non_null \<noteq> [] \<and> 0 < weight
                    then Some (f_scale (1 / of_nat weight) (f_sum (map (\<lambda>b. f_scale (of_nat (bk_count b)) (the (bk_avg b))) non_null)))
                    else None),
          bk_min = (if mins = [] then None else Some (Min (set mins))),
          bk_max = (if maxs = [] then None else Some (Max (set maxs))),
          bk_p95 = (if p95s = [] then None else Some (Max (set p95s))),
          bk_loss = (if 0 < total
                     then f_round 2 (f_scale (1 / of_nat total) (f_sum (map (\<lambda>b. f_scale (of_nat (bk_count b)) (bk_loss b)) sources)))
                     else Fin 0),
          bk_count = total\<rparr>)"

definition rolls :: "int \<Rightarrow> int \<Rightarrow> rat \<Rightarrow> bucket \<Rightarrow> bool" where
  "rolls tid len cutoff b = (bk_target b = tid \<and> bk_seconds b = len \<and> of_int (bk_start b) < cutoff)"

definition reaggregate_buckets :: "int \<Rightarrow> rat \<Rightarrow> int \<Rightarrow> int \<Rightarrow> sample_store \<Rightarrow> nat \<times> sample_store" where
  "reaggregate_buckets tid cutoff source_len target_len st =
     (let rows = sort_key bk_start (filter (rolls tid source_len cutoff) (ss_buckets st)) in
      if rows = [] then (0, st)
      else (let groups = group_by (\<lambda>b. bucket_of (of_int (bk_start b)) target_len) [] rows;
                bs = fold (\<lambda>(start, src). upsert_bucket (rolled_bucket tid target_len start src)) groups (ss_buckets st)
            in (length groups, st\<lparr>ss_buckets := filter (\<lambda>b. \<not> rolls tid source_len cutoff b) bs\<rparr>)))"

section \<open>The cascade and the retention\<close>

definition TIER_RAW :: rat where "TIER_RAW = 7 * 86400"
definition TIER_60S :: rat where "TIER_60S = 30 * 86400"
definition TIER_300S :: rat where "TIER_300S = 90 * 86400"

definition aggregate_target :: "(rat \<Rightarrow> string) \<Rightarrow> rat \<Rightarrow> int \<Rightarrow> sample_store \<Rightarrow> sample_store" where
  "aggregate_target day now tid st =
     (let st1 = snd (aggregate_raw_to_buckets day tid (fl (now - TIER_RAW)) 60 st);
          st2 = snd (reaggregate_buckets tid (fl (now - TIER_60S)) 60 300 st1)
      in snd (reaggregate_buckets tid (fl (now - TIER_300S)) 300 3600 st2))"

definition aggregate :: "(rat \<Rightarrow> string) \<Rightarrow> rat \<Rightarrow> int list \<Rightarrow> sample_store \<Rightarrow> sample_store" where
  "aggregate day now tids st = fold (aggregate_target day now) tids st"

definition cleanup :: "(rat \<Rightarrow> string) \<Rightarrow> rat \<Rightarrow> int \<Rightarrow> sample_store \<Rightarrow> nat \<times> sample_store" where
  "cleanup day now retention st =
     (if retention \<le> 0 then (0, st)
      else (let cutoff = fl (now - of_int (retention * 86400));
                old = (\<lambda>s. sm_time s < cutoff \<and> day (sm_time s) \<notin> set (ss_pinned st));
                oldb = (\<lambda>b. of_int (bk_start b) < cutoff)
            in (length (filter old (ss_samples st)) + length (filter oldb (ss_buckets st)),
                st\<lparr>ss_samples := filter (\<lambda>s. \<not> old s) (ss_samples st), ss_buckets := filter (\<lambda>b. \<not> oldb b) (ss_buckets st)\<rparr>)))"

definition save_samples :: "sample list \<Rightarrow> sample_store \<Rightarrow> sample_store" where
  "save_samples ss st = st\<lparr>ss_samples := ss_samples st @ ss\<rparr>"

definition pin_day :: "string \<Rightarrow> sample_store \<Rightarrow> sample_store" where
  "pin_day d st = (if d \<in> set (ss_pinned st) then st else st\<lparr>ss_pinned := ss_pinned st @ [d]\<rparr>)"

definition unpin_day :: "string \<Rightarrow> sample_store \<Rightarrow> bool \<times> sample_store" where
  "unpin_day d st = (d \<in> set (ss_pinned st), st\<lparr>ss_pinned := filter ((\<noteq>) d) (ss_pinned st)\<rparr>)"

text \<open>Removing a target cascades to its samples and buckets.\<close>

definition delete_target :: "int \<Rightarrow> sample_store \<Rightarrow> sample_store" where
  "delete_target tid st =
     st\<lparr>ss_samples := filter (\<lambda>s. sm_target s \<noteq> tid) (ss_samples st), ss_buckets := filter (\<lambda>b. bk_target b \<noteq> tid) (ss_buckets st)\<rparr>"

section \<open>What aggregation keeps\<close>

text \<open>All samples a store accounts for: those in the table and those its buckets count.\<close>

definition counted :: "bucket list \<Rightarrow> nat" where
  "counted bs = sum_list (map bk_count bs)"

definition held :: "sample_store \<Rightarrow> nat" where
  "held st = length (ss_samples st) + counted (ss_buckets st)"

text \<open>What the buckets with one of some keys count.\<close>

definition counted_at :: "(int \<times> int \<times> int) set \<Rightarrow> bucket list \<Rightarrow> nat" where
  "counted_at ks bs = counted (filter (\<lambda>b. bk_key b \<in> ks) bs)"

lemma counted_simps [simp]:
  "counted [] = 0" "counted (b # bs) = bk_count b + counted bs" "counted (bs @ cs) = counted bs + counted cs"
  by (simp_all add: counted_def)

lemma counted_filter: "counted (filter P bs) + counted (filter (\<lambda>b. \<not> P b) bs) = counted bs"
  by (induction bs) auto

lemma counted_upsert: "counted (upsert_bucket b bs) + counted_at {bk_key b} bs = counted bs + bk_count b"
  using counted_filter [of "\<lambda>x. bk_key x = bk_key b" bs] by (simp add: upsert_bucket_def counted_at_def)

lemma counted_at_insert:
  "k \<notin> ks \<Longrightarrow> counted_at (insert k ks) bs = counted_at {k} bs + counted_at ks bs"
  by (induction bs) (auto simp: counted_at_def)

lemma counted_at_upsert: "bk_key b \<notin> ks \<Longrightarrow> counted_at ks (upsert_bucket b bs) = counted_at ks bs"
  by (induction bs) (auto simp: counted_at_def upsert_bucket_def)

text \<open>Writing the buckets of distinct groups replaces what had their keys.\<close>

lemma counted_groups:
  assumes "distinct (dict_keys gs)" and key: "\<And>start xs. bk_key (mk start xs) = (tid, start, len)"
  shows "counted (fold (\<lambda>(start, xs). upsert_bucket (mk start xs)) gs bs)
      + counted_at ((\<lambda>start. (tid, start, len)) ` set (dict_keys gs)) bs
    = counted bs + sum_list (map (\<lambda>(start, xs). bk_count (mk start xs)) gs)"
  using assms(1)
proof (induction gs arbitrary: bs)
  case (Cons g gs)
  obtain start xs where g: "g = (start, xs)" by (cases g)
  let ?ks = "(\<lambda>start. (tid, start, len)) ` set (dict_keys gs)" and ?b = "mk start xs"
  have nin: "bk_key ?b \<notin> ?ks" using Cons.prems by (auto simp: g key)
  have "counted_at (insert (bk_key ?b) ?ks) bs = counted_at {bk_key ?b} bs + counted_at ?ks bs"
    by (rule counted_at_insert [OF nin])
  moreover have "counted_at ?ks (upsert_bucket ?b bs) = counted_at ?ks bs" by (rule counted_at_upsert [OF nin])
  ultimately show ?case using Cons.IH [of "upsert_bucket ?b bs"] Cons.prems counted_upsert [of ?b bs]
    by (simp add: g key)
qed (simp add: counted_at_def)

lemma sum_list_groups_length:
  "sum_list (map (\<lambda>(start, xs). length xs) (group_by f [] xs)) = length xs"
  using group_by_sum [of length "[]" f xs] by simp

lemma sum_list_groups_counted:
  "sum_list (map (\<lambda>(start, xs). counted xs) (group_by f [] bs)) = counted bs"
  using group_by_sum [of counted "[]" f bs] by simp

lemma raw_bucket_key [simp]: "bk_key (raw_bucket tid len start ss) = (tid, start, len)"
  "bk_count (raw_bucket tid len start ss) = length ss"
  by (simp_all add: raw_bucket_def bk_key_def Let_def)

lemma rolled_bucket_key [simp]: "bk_key (rolled_bucket tid len start bs) = (tid, start, len)"
  "bk_count (rolled_bucket tid len start bs) = counted bs"
  by (simp_all add: rolled_bucket_def bk_key_def Let_def counted_def)

lemma group_by_keys_Nil: "set (dict_keys (group_by f [] xs)) = f ` set xs"
  using group_by_keys [of f "[]" xs] by simp

lemma counted_sort: "counted (sort_key f bs) = counted bs"
  unfolding counted_def by (metis mset_map mset_sort sum_mset_sum_list)

lemma length_filter_split: "length (filter P xs) = length (filter (\<lambda>x. P x \<and> Q x) xs) + length (filter (\<lambda>x. P x \<and> \<not> Q x) xs)"
  by (induction xs) auto

text \<open>
  C29. Turning old samples into buckets accounts for every sample: what the store holds
  afterwards, and what the buckets it replaced had counted, is what it held before and the old
  samples of pinned days, which are counted in a bucket and stay in the table as well.
\<close>

theorem raw_aggregation_accounts:
  "held (snd (aggregate_raw_to_buckets day tid cutoff len st))
     + counted_at ((\<lambda>s. (tid, bucket_of (sm_time s) len, len)) ` set (filter (aged tid cutoff) (ss_samples st))) (ss_buckets st)
   = held st + length (filter (\<lambda>s. aged tid cutoff s \<and> day (sm_time s) \<in> set (ss_pinned st)) (ss_samples st))"
proof -
  let ?old = "filter (aged tid cutoff) (ss_samples st)"
  let ?pin = "\<lambda>s. day (sm_time s) \<in> set (ss_pinned st)"
  let ?gs = "group_by (\<lambda>s. bucket_of (sm_time s) len) [] (sort_key sm_time ?old)"
  show ?thesis
  proof (cases "sort_key sm_time ?old = []")
    case True
    then have "?old = []" by (metis length_0_conv length_sort)
    then show ?thesis by (auto simp: aggregate_raw_to_buckets_def counted_at_def filter_empty_conv)
  next
    case False
    have keys: "(\<lambda>start. (tid, start, len)) ` set (dict_keys ?gs) = (\<lambda>s. (tid, bucket_of (sm_time s) len, len)) ` set ?old"
      by (simp only: group_by_keys_Nil set_sort image_image)
    have "counted (ss_buckets (snd (aggregate_raw_to_buckets day tid cutoff len st)))
        + counted_at ((\<lambda>s. (tid, bucket_of (sm_time s) len, len)) ` set ?old) (ss_buckets st)
      = counted (ss_buckets st) + length ?old"
      using counted_groups [of ?gs "raw_bucket tid len" tid len "ss_buckets st"] False
        group_by_distinct [of "[]" "\<lambda>s. bucket_of (sm_time s) len" "sort_key sm_time ?old"]
        sum_list_groups_length [of "\<lambda>s. bucket_of (sm_time s) len" "sort_key sm_time ?old"]
      unfolding keys by (simp add: aggregate_raw_to_buckets_def Let_def)
    moreover have "length (ss_samples (snd (aggregate_raw_to_buckets day tid cutoff len st))) + length ?old
      = length (ss_samples st) + length (filter (\<lambda>s. aged tid cutoff s \<and> ?pin s) (ss_samples st))"
      using False sum_length_filter_compl [of "\<lambda>s. aged tid cutoff s \<and> \<not> ?pin s" "ss_samples st"]
        length_filter_split [of "aged tid cutoff" "ss_samples st" ?pin]
      by (simp add: aggregate_raw_to_buckets_def Let_def)
    ultimately show ?thesis by (simp add: held_def)
  qed
qed

text \<open>
  Rolling buckets up into larger ones accounts for every sample they count: what the store
  holds afterwards, and what the larger buckets it replaced had counted, is what it held before;
  so nothing is lost exactly when none of the larger buckets existed with samples.
\<close>

theorem rollup_accounts:
  assumes "source_len \<noteq> target_len"
  shows "held (snd (reaggregate_buckets tid cutoff source_len target_len st))
     + counted_at ((\<lambda>b. (tid, bucket_of (of_int (bk_start b)) target_len, target_len))
          ` set (filter (rolls tid source_len cutoff) (ss_buckets st))) (ss_buckets st)
   = held st"
proof -
  let ?P = "rolls tid source_len cutoff" and ?st' = "snd (reaggregate_buckets tid cutoff source_len target_len st)"
  let ?rows = "sort_key bk_start (filter ?P (ss_buckets st))"
  let ?gs = "group_by (\<lambda>b. bucket_of (of_int (bk_start b)) target_len) [] ?rows"
  let ?mk = "rolled_bucket tid target_len"
  show ?thesis
  proof (cases "?rows = []")
    case True
    then have "filter ?P (ss_buckets st) = []" by (metis length_0_conv length_sort)
    then show ?thesis by (auto simp: reaggregate_buckets_def counted_at_def filter_empty_conv)
  next
    case False
    let ?bs = "fold (\<lambda>(start, src). upsert_bucket (?mk start src)) ?gs (ss_buckets st)"
    have keep: "filter ?P (fold (\<lambda>(start, src). upsert_bucket (?mk start src)) gs bs) = filter ?P bs" for gs bs
    proof (induction gs arbitrary: bs)
      case (Cons g gs)
      have "filter ?P (upsert_bucket (?mk a src) bs) = filter ?P bs" for a src
        using assms by (auto simp: upsert_bucket_def rolls_def rolled_bucket_def bk_key_def Let_def intro: filter_cong)
      then show ?case using Cons.IH by (cases g) simp
    qed simp
    have keys: "(\<lambda>start. (tid, start, target_len)) ` set (dict_keys ?gs)
        = (\<lambda>b. (tid, bucket_of (of_int (bk_start b)) target_len, target_len)) ` set (filter ?P (ss_buckets st))"
      by (simp only: group_by_keys_Nil set_sort image_image)
    have "counted ?bs + counted_at ((\<lambda>b. (tid, bucket_of (of_int (bk_start b)) target_len, target_len))
          ` set (filter ?P (ss_buckets st))) (ss_buckets st)
        = counted (ss_buckets st) + counted (filter ?P (ss_buckets st))"
      using counted_groups [of ?gs ?mk tid target_len "ss_buckets st"]
        group_by_distinct [of "[]" "\<lambda>b. bucket_of (of_int (bk_start b)) target_len" ?rows]
        sum_list_groups_counted [of "\<lambda>b. bucket_of (of_int (bk_start b)) target_len" ?rows]
      unfolding keys by (simp add: counted_sort)
    moreover have "counted (filter ?P (ss_buckets st)) + counted (ss_buckets ?st') = counted ?bs"
      using counted_filter [of ?P ?bs] keep [of ?gs "ss_buckets st"] False
      by (simp add: reaggregate_buckets_def Let_def)
    moreover have "ss_samples ?st' = ss_samples st" using False by (simp add: reaggregate_buckets_def Let_def)
    ultimately show ?thesis by (simp add: held_def)
  qed
qed

definition hour_example :: sample_store where
  "hour_example = \<lparr>ss_samples = [],
     ss_buckets = [\<lparr>bk_target = 1, bk_start = 7200, bk_seconds = 3600, bk_avg = Some (Fin 10), bk_min = Some 9, bk_max = Some 12,
                     bk_p95 = Some 11, bk_loss = Fin 0, bk_count = 540\<rparr>,
                   \<lparr>bk_target = 1, bk_start = 9900, bk_seconds = 300, bk_avg = Some (Fin 10), bk_min = Some 9, bk_max = Some 12,
                     bk_p95 = Some 11, bk_loss = Fin 0, bk_count = 60\<rparr>],
     ss_pinned = []\<rparr>"

lemma rollup_accounts_witness:
  "held hour_example = 600 \<and> held (snd (reaggregate_buckets 1 10200 300 3600 hour_example)) = 60"
proof -
  have "bucket_of 9900 3600 = 7200" by (simp add: bucket_of_def floor_divide_of_int_eq [of 9900 3600, simplified])
  then show ?thesis using rollup_accounts [of 300 3600 1 10200 hour_example]
    by (simp add: hour_example_def held_def rolls_def counted_at_def bk_key_def)
qed

text \<open>What a run writes into one bucket, whatever else the store holds.\<close>

definition in_bucket :: "int \<Rightarrow> int \<Rightarrow> int \<Rightarrow> sample \<Rightarrow> bool" where
  "in_bucket tid len b s \<longleftrightarrow> sm_target s = tid \<and> bucket_of (sm_time s) len = b"

definition buckets_at :: "int \<Rightarrow> int \<Rightarrow> int \<Rightarrow> sample_store \<Rightarrow> bucket list" where
  "buckets_at tid len b st = filter (\<lambda>x. bk_key x = (tid, b, len)) (ss_buckets st)"

lemma group_by_map_of:
  assumes "filter (\<lambda>x. f x = k) xs \<noteq> []"
  shows "map_of (group_by f [] xs) k = Some (filter (\<lambda>x. f x = k) xs)"
  using group_by_get [of f "[]" xs k] assms by (cases "map_of (group_by f [] xs) k") (simp_all add: dict_get_def)

lemma written_groups:
  assumes "distinct (dict_keys gs)"
  shows "filter (\<lambda>x. bk_key x = (tid, b, len)) (fold (\<lambda>(start, ss). upsert_bucket (raw_bucket tid len start ss)) gs bs)
    = (case map_of gs b of None \<Rightarrow> filter (\<lambda>x. bk_key x = (tid, b, len)) bs | Some ss \<Rightarrow> [raw_bucket tid len b ss])"
  using assms
proof (induction gs arbitrary: bs)
  case (Cons g gs)
  obtain start ss where g: "g = (start, ss)" by (cases g)
  have up: "filter (\<lambda>x. bk_key x = (tid, b, len)) (upsert_bucket (raw_bucket tid len start ss) bs)
      = (if start = b then [raw_bucket tid len b ss] else filter (\<lambda>x. bk_key x = (tid, b, len)) bs)"
    by (auto simp: upsert_bucket_def filter_empty_conv intro!: filter_cong)
  have "map_of gs start = None" using Cons.prems by (auto simp: g map_of_eq_None_iff)
  with Cons.IH [of "upsert_bucket (raw_bucket tid len start ss) bs"] Cons.prems show ?case
    unfolding up by (cases "start = b") (simp_all add: g)
qed simp

lemma bucket_written:
  assumes "filter (\<lambda>s. in_bucket tid len b s \<and> sm_time s < cutoff) (ss_samples st) \<noteq> []"
  shows "buckets_at tid len b (snd (aggregate_raw_to_buckets day tid cutoff len st))
    = [raw_bucket tid len b (sort_key sm_time (filter (\<lambda>s. in_bucket tid len b s \<and> sm_time s < cutoff) (ss_samples st)))]"
proof -
  let ?rows = "sort_key sm_time (filter (aged tid cutoff) (ss_samples st))" and ?f = "\<lambda>s. bucket_of (sm_time s) len"
  let ?mine = "filter (\<lambda>s. in_bucket tid len b s \<and> sm_time s < cutoff) (ss_samples st)"
  have "filter (\<lambda>s. ?f s = b) ?rows = sort_key sm_time (filter (\<lambda>s. aged tid cutoff s \<and> ?f s = b) (ss_samples st))"
    by (simp add: filter_sort conj_commute)
  also have "filter (\<lambda>s. aged tid cutoff s \<and> ?f s = b) (ss_samples st) = ?mine"
    by (intro filter_cong) (auto simp: aged_def in_bucket_def)
  finally have mine: "filter (\<lambda>s. ?f s = b) ?rows = sort_key sm_time ?mine" .
  have ne: "sort_key sm_time ?mine \<noteq> []" using assms by (metis length_0_conv length_sort)
  then have "?rows \<noteq> []" using mine by (metis filter.simps(1))
  moreover have "map_of (group_by ?f [] ?rows) b = Some (sort_key sm_time ?mine)"
    using group_by_map_of [of ?f b ?rows] ne by (simp only: mine simp_thms)
  ultimately show ?thesis
    using written_groups [OF group_by_distinct [of "[]" ?f ?rows], of tid b len "ss_buckets st"]
    by (simp add: aggregate_raw_to_buckets_def buckets_at_def Let_def)
qed

lemma samples_after:
  assumes "\<And>s. s \<in> set (ss_samples st) \<Longrightarrow> in_bucket tid len b s \<Longrightarrow> day (sm_time s) \<notin> set (ss_pinned st)"
  shows "filter (in_bucket tid len b) (ss_samples (snd (aggregate_raw_to_buckets day tid cutoff len st)))
    = filter (\<lambda>s. in_bucket tid len b s \<and> cutoff \<le> sm_time s) (ss_samples st)"
proof (cases "sort_key sm_time (filter (aged tid cutoff) (ss_samples st)) = []")
  case True
  then have "filter (aged tid cutoff) (ss_samples st) = []" by (metis length_0_conv length_sort)
  then have "s \<in> set (ss_samples st) \<Longrightarrow> in_bucket tid len b s \<Longrightarrow> cutoff \<le> sm_time s" for s
    by (auto simp: filter_empty_conv aged_def in_bucket_def not_less)
  then show ?thesis using True by (auto simp: aggregate_raw_to_buckets_def intro!: filter_cong)
next
  case False
  then show ?thesis using assms
    by (auto simp: aggregate_raw_to_buckets_def Let_def aged_def in_bucket_def not_less intro!: filter_cong)
qed

lemma pins_kept: "ss_pinned (snd (aggregate_raw_to_buckets day tid cutoff len st)) = ss_pinned st"
  by (simp add: aggregate_raw_to_buckets_def Let_def)

text \<open>
  C33. The limit of a run of the aggregation is not aligned with the buckets.  When it falls inside a
  bucket of a target whose day is not pinned, the first run writes the bucket from the samples before
  the limit and removes them, and the next run replaces it by one made of the remaining samples only:
  afterwards the samples of the first part are not in the table and no bucket of that length counts them.  Other targets,
  other samples and the buckets that exist do not matter.
\<close>

theorem cut_bucket_loses_samples:
  assumes "c1 < c2"
    and "\<And>s. s \<in> set (ss_samples st) \<Longrightarrow> in_bucket tid len b s \<Longrightarrow> day (sm_time s) \<notin> set (ss_pinned st)"
    and "filter (\<lambda>s. in_bucket tid len b s \<and> sm_time s < c1) (ss_samples st) \<noteq> []"
    and "filter (\<lambda>s. in_bucket tid len b s \<and> c1 \<le> sm_time s \<and> sm_time s < c2) (ss_samples st) \<noteq> []"
  shows "let early = filter (\<lambda>s. in_bucket tid len b s \<and> sm_time s < c1) (ss_samples st);
             late = filter (\<lambda>s. in_bucket tid len b s \<and> c1 \<le> sm_time s \<and> sm_time s < c2) (ss_samples st);
             st1 = snd (aggregate_raw_to_buckets day tid c1 len st);
             st2 = snd (aggregate_raw_to_buckets day tid c2 len st1)
         in buckets_at tid len b st1 = [raw_bucket tid len b (sort_key sm_time early)]
            \<and> buckets_at tid len b st2 = [raw_bucket tid len b (sort_key sm_time late)]
            \<and> filter (in_bucket tid len b) (ss_samples st2) = filter (\<lambda>s. in_bucket tid len b s \<and> c2 \<le> sm_time s) (ss_samples st)
            \<and> counted (buckets_at tid len b st2) + length (filter (in_bucket tid len b) (ss_samples st2)) + length early
              = length (filter (in_bucket tid len b) (ss_samples st))"
proof -
  let ?in = "in_bucket tid len b"
  let ?early = "filter (\<lambda>s. ?in s \<and> sm_time s < c1) (ss_samples st)"
  let ?late = "filter (\<lambda>s. ?in s \<and> c1 \<le> sm_time s \<and> sm_time s < c2) (ss_samples st)"
  define st1 where "st1 = snd (aggregate_raw_to_buckets day tid c1 len st)"
  define st2 where "st2 = snd (aggregate_raw_to_buckets day tid c2 len st1)"
  have s1: "filter ?in (ss_samples st1) = filter (\<lambda>s. ?in s \<and> c1 \<le> sm_time s) (ss_samples st)"
    unfolding st1_def using assms(2) by (rule samples_after)
  have cut: "filter (\<lambda>s. ?in s \<and> P s) (ss_samples st1) = filter (\<lambda>s. ?in s \<and> c1 \<le> sm_time s \<and> P s) (ss_samples st)" for P
    using arg_cong [OF s1, of "filter P"] by (simp add: conj_ac)
  have "day (sm_time s) \<notin> set (ss_pinned st1)" if "s \<in> set (ss_samples st1)" "?in s" for s
  proof -
    have "s \<in> set (filter ?in (ss_samples st1))" using that by simp
    then have "s \<in> set (ss_samples st)" unfolding s1 by simp
    with that assms(2) show ?thesis by (simp add: st1_def pins_kept)
  qed
  then have s2: "filter ?in (ss_samples st2) = filter (\<lambda>s. ?in s \<and> c1 \<le> sm_time s \<and> c2 \<le> sm_time s) (ss_samples st)"
    unfolding st2_def cut [symmetric] by (intro samples_after)
  also have "\<dots> = filter (\<lambda>s. ?in s \<and> c2 \<le> sm_time s) (ss_samples st)" using assms(1) by (intro filter_cong) auto
  finally have rest: "filter ?in (ss_samples st2) = filter (\<lambda>s. ?in s \<and> c2 \<le> sm_time s) (ss_samples st)" .
  have b1: "buckets_at tid len b st1 = [raw_bucket tid len b (sort_key sm_time ?early)]"
    unfolding st1_def by (rule bucket_written [OF assms(3)])
  have b2: "buckets_at tid len b st2 = [raw_bucket tid len b (sort_key sm_time ?late)]"
    unfolding st2_def using bucket_written [of tid len b c2 st1 day] assms(4) unfolding cut .
  have "length (filter ?in xs) = length (filter (\<lambda>s. ?in s \<and> sm_time s < c1) xs)
      + length (filter (\<lambda>s. ?in s \<and> c1 \<le> sm_time s \<and> sm_time s < c2) xs) + length (filter (\<lambda>s. ?in s \<and> c2 \<le> sm_time s) xs)" for xs
    using assms(1) by (induction xs) auto
  then show ?thesis unfolding st1_def [symmetric] Let_def st2_def [symmetric] rest b1 b2 by simp
qed

definition cut_store :: sample_store where
  "cut_store = \<lparr>ss_samples = [\<lparr>sm_target = 1, sm_time = 10, sm_latency = Some 5, sm_timeout = False\<rparr>,
     \<lparr>sm_target = 2, sm_time = 20, sm_latency = Some 6, sm_timeout = False\<rparr>,
     \<lparr>sm_target = 1, sm_time = 40, sm_latency = Some 7, sm_timeout = False\<rparr>], ss_buckets = [], ss_pinned = [''e'']\<rparr>"

lemma cut_bucket_loses_samples_witness:
  "let st2 = snd (aggregate_raw_to_buckets (\<lambda>_. ''d'') 1 50 60 (snd (aggregate_raw_to_buckets (\<lambda>_. ''d'') 1 30 60 cut_store)))
   in counted (buckets_at 1 60 0 st2) = 1 \<and> filter (in_bucket 1 60 0) (ss_samples st2) = []
      \<and> length (filter (in_bucket 1 60 0) (ss_samples cut_store)) = 2"
proof -
  have b: "in_bucket 1 60 0 s \<longleftrightarrow> sm_target s = 1 \<and> 0 \<le> sm_time s \<and> sm_time s < 60" for s
    by (auto simp: in_bucket_def bucket_of_def floor_eq_iff)
  have p: "''d'' \<notin> set (ss_pinned cut_store)" by (simp add: cut_store_def)
  have e: "filter (\<lambda>s. in_bucket 1 60 0 s \<and> sm_time s < 30) (ss_samples cut_store) \<noteq> []"
    "filter (\<lambda>s. in_bucket 1 60 0 s \<and> 30 \<le> sm_time s \<and> sm_time s < 50) (ss_samples cut_store) \<noteq> []"
    by (simp_all add: cut_store_def b)
  have "(30 :: rat) < 50" by simp
  from cut_bucket_loses_samples [of 30 50 cut_store 1 60 0 "\<lambda>_. ''d''", OF this p e] show ?thesis
    by (simp add: Let_def) (simp add: cut_store_def b)
qed

text \<open>Two answers of one target.\<close>

definition two_answers :: sample_store where
  "two_answers = \<lparr>ss_samples = [\<lparr>sm_target = 1, sm_time = 10, sm_latency = Some 5, sm_timeout = False\<rparr>,
     \<lparr>sm_target = 1, sm_time = 40, sm_latency = Some 7, sm_timeout = False\<rparr>], ss_buckets = [], ss_pinned = []\<rparr>"

section \<open>Well-formed buckets\<close>

text \<open>
  A bucket starts at a multiple of its length, counts at least one sample, and has either none of
  its latency columns or all of them, in order.
\<close>

definition bucket_ok :: "bucket \<Rightarrow> bool" where
  "bucket_ok b \<longleftrightarrow> 0 < bk_count b \<and> bk_seconds b dvd bk_start b \<and>
     (case (bk_avg b, bk_min b, bk_p95 b, bk_max b) of
        (None, None, None, None) \<Rightarrow> True
      | (Some _, Some lo, Some p, Some hi) \<Rightarrow> lo \<le> p \<and> p \<le> hi
      | _ \<Rightarrow> False)"

definition store_ok :: "sample_store \<Rightarrow> bool" where
  "store_ok st \<longleftrightarrow> list_all bucket_ok (ss_buckets st) \<and> distinct (map bk_key (ss_buckets st))"

lemma bucket_okE:
  assumes "bucket_ok b"
  obtains "bk_avg b = None" "bk_min b = None" "bk_p95 b = None" "bk_max b = None" "0 < bk_count b"
  | a lo p hi where "bk_avg b = Some a" "bk_min b = Some lo" "bk_p95 b = Some p" "bk_max b = Some hi" "lo \<le> p" "p \<le> hi" "0 < bk_count b"
  using assms by (auto simp: bucket_ok_def split: option.splits)

lemma upsert_ok:
  assumes "list_all bucket_ok bs" and "distinct (map bk_key bs)" and "bucket_ok b"
  shows "list_all bucket_ok (upsert_bucket b bs) \<and> distinct (map bk_key (upsert_bucket b bs))"
  using assms by (auto simp: upsert_bucket_def list_all_iff distinct_map inj_on_def)

lemma groups_ok:
  assumes "list_all bucket_ok bs" and "distinct (map bk_key bs)"
    and "\<And>start xs. (start, xs) \<in> set gs \<Longrightarrow> bucket_ok (mk start xs)"
  shows "list_all bucket_ok (fold (\<lambda>(start, xs). upsert_bucket (mk start xs)) gs bs)
    \<and> distinct (map bk_key (fold (\<lambda>(start, xs). upsert_bucket (mk start xs)) gs bs))"
  using assms
proof (induction gs arbitrary: bs)
  case (Cons g gs)
  obtain start xs where g: "g = (start, xs)" by (cases g)
  have "bucket_ok (mk start xs)" using Cons.prems(3) by (simp add: g)
  note up = upsert_ok [OF Cons.prems(1,2) this]
  from Cons.IH [OF conjunct1 [OF up] conjunct2 [OF up]] Cons.prems(3) show ?case by (simp add: g)
qed simp

lemma group_member:
  assumes "(k, ys) \<in> set (group_by f [] xs)"
  shows "ys = filter (\<lambda>x. f x = k) xs \<and> ys \<noteq> [] \<and> k \<in> f ` set xs"
proof -
  have d: "distinct (dict_keys (group_by f [] xs))" by (rule group_by_distinct) simp
  have k: "k \<in> f ` set xs" using assms by (metis group_by_keys_Nil image_eqI fst_conv set_map)
  have "map_of (group_by f [] xs) k = Some ys" using d assms by simp
  then have "ys = filter (\<lambda>x. f x = k) xs" using group_by_get [of f "[]" xs k] by (simp add: dict_get_def)
  with k show ?thesis by (auto simp: filter_empty_conv)
qed

lemma bucket_of_dvd: "len dvd bucket_of ts len"
  by (simp add: bucket_of_def)

lemma raw_bucket_ok:
  assumes "ss \<noteq> []" and "len dvd start"
  shows "bucket_ok (raw_bucket tid len start ss)"
proof (cases "latencies ss = []")
  case False
  let ?ls = "latencies ss" and ?p = "sort (latencies ss) ! p95_index (length (latencies ss))"
  have "p95_index (length ?ls) < length ?ls" using False by (cases "latencies ss") (simp_all add: p95_index_def min_less_iff_disj)
  then have "?p \<in> set ?ls" using nth_mem [of "p95_index (length ?ls)" "sort ?ls"] by simp
  then have "Min (set ?ls) \<le> ?p" "?p \<le> Max (set ?ls)" by simp_all
  with False assms show ?thesis by (simp add: bucket_ok_def raw_bucket_def Let_def)
qed (use assms in \<open>simp add: bucket_ok_def raw_bucket_def Let_def\<close>)

lemma rolled_bucket_ok:
  assumes "sources \<noteq> []" and "len dvd start" and ok: "\<And>b. b \<in> set sources \<Longrightarrow> bucket_ok b"
  shows "bucket_ok (rolled_bucket tid len start sources)"
proof -
  define nn where "nn = filter (\<lambda>b. bk_avg b \<noteq> None) sources"
  obtain b0 where "b0 \<in> set sources" using assms(1) by (meson list.set_sel(1))
  then have "0 < bk_count b0" "bk_count b0 \<le> sum_list (map bk_count sources)"
    using ok [of b0] member_le_sum_list [of "bk_count b0" "map bk_count sources"] by (auto simp: bucket_ok_def)
  then have total: "0 < sum_list (map bk_count sources)" by linarith
  show ?thesis
  proof (cases "nn = []")
    case True
    with total assms(2) show ?thesis unfolding bucket_ok_def rolled_bucket_def Let_def nn_def [symmetric] by (simp add: somes_def)
  next
    case False
    define mins maxs ps where s: "mins = somes (map bk_min nn)" "maxs = somes (map bk_max nn)" "ps = somes (map bk_p95 nn)"
    obtain b1 where b1: "b1 \<in> set nn" using False by (meson list.set_sel(1))
    have okn: "bucket_ok b" "bk_avg b \<noteq> None" if "b \<in> set nn" for b using that ok by (auto simp: nn_def)
    have w: "0 < sum_list (map bk_count nn)"
      using okn(1) [OF b1] member_le_sum_list [of "bk_count b1" "map bk_count nn"] b1 by (force simp: bucket_ok_def)
    obtain lo p hi where v: "bk_min b1 = Some lo" "bk_p95 b1 = Some p" "bk_max b1 = Some hi" "lo \<le> p"
      using okn [OF b1] by (auto elim: bucket_okE)
    have m: "lo \<in> set mins" "p \<in> set ps" "hi \<in> set maxs" using b1 v by (auto simp: s set_somes)
    have "Max (set ps) \<in> set ps" using m by (intro Max_in) auto
    then obtain b2 where b2: "b2 \<in> set nn" "bk_p95 b2 = Some (Max (set ps))" by (auto simp: s set_somes)
    obtain hi2 where h2: "bk_max b2 = Some hi2" "Max (set ps) \<le> hi2" using okn [OF b2(1)] b2(2) by (auto elim: bucket_okE)
    have "hi2 \<in> set maxs" using b2(1) h2(1) by (auto simp: s set_somes)
    then have "Max (set ps) \<le> Max (set maxs)" using h2(2) by (meson List.finite_set Max_ge order_trans)
    moreover have "Min (set mins) \<le> Max (set ps)"
      using m v(4) by (meson List.finite_set Min_le Max_ge order_trans)
    moreover have "mins \<noteq> []" "maxs \<noteq> []" "ps \<noteq> []" using m by auto
    ultimately show ?thesis using False w total assms(2)
      unfolding bucket_ok_def rolled_bucket_def Let_def nn_def [symmetric] s [symmetric] by simp
  qed
qed

lemma aggregate_raw_ok:
  assumes "store_ok st"
  shows "store_ok (snd (aggregate_raw_to_buckets day tid cutoff len st))"
proof -
  let ?rows = "sort_key sm_time (filter (aged tid cutoff) (ss_samples st))"
  let ?gs = "group_by (\<lambda>s. bucket_of (sm_time s) len) [] ?rows"
  have "bucket_ok (raw_bucket tid len start xs)" if "(start, xs) \<in> set ?gs" for start xs
    using group_member [OF that] by (intro raw_bucket_ok) (auto simp: bucket_of_dvd)
  then show ?thesis using assms groups_ok [of "ss_buckets st" ?gs "raw_bucket tid len"]
    by (simp add: store_ok_def aggregate_raw_to_buckets_def Let_def)
qed

lemma reaggregate_ok:
  assumes "store_ok st"
  shows "store_ok (snd (reaggregate_buckets tid cutoff source_len target_len st))"
proof -
  let ?rows = "sort_key bk_start (filter (rolls tid source_len cutoff) (ss_buckets st))"
  let ?gs = "group_by (\<lambda>b. bucket_of (of_int (bk_start b)) target_len) [] ?rows"
  have "bucket_ok (rolled_bucket tid target_len start xs)" if "(start, xs) \<in> set ?gs" for start xs
    using group_member [OF that] assms
    by (intro rolled_bucket_ok) (auto simp: bucket_of_dvd store_ok_def list_all_iff)
  then have "list_all bucket_ok (fold (\<lambda>(start, xs). upsert_bucket (rolled_bucket tid target_len start xs)) ?gs (ss_buckets st))
    \<and> distinct (map bk_key (fold (\<lambda>(start, xs). upsert_bucket (rolled_bucket tid target_len start xs)) ?gs (ss_buckets st)))"
    using assms by (intro groups_ok) (auto simp: store_ok_def)
  with assms show ?thesis
    by (auto simp: store_ok_def reaggregate_buckets_def Let_def list_all_iff distinct_map inj_on_def)
qed

lemma aggregate_ok: "store_ok st \<Longrightarrow> store_ok (aggregate day now tids st)"
  unfolding aggregate_def
  by (induction tids arbitrary: st) (auto simp: aggregate_target_def Let_def intro: aggregate_raw_ok reaggregate_ok)

text \<open>
  C7. The table of buckets stays well formed under the cascade, the retention, new samples and
  the removal of a target: one bucket per target, start and length, each on a multiple of its
  length with at least one sample, and with all of its latency columns in order or with none.
\<close>

theorem buckets_well_formed:
  assumes "store_ok st"
  shows "store_ok (aggregate day now tids st) \<and> store_ok (snd (cleanup day now retention st))
    \<and> store_ok (save_samples ss st) \<and> store_ok (delete_target tid st)"
  using assms aggregate_ok [OF assms]
  by (auto simp: store_ok_def cleanup_def save_samples_def delete_target_def Let_def list_all_iff distinct_map inj_on_def)

lemma buckets_well_formed_witness:
  "store_ok hour_example \<and> store_ok (aggregate (\<lambda>_. ''d'') 8000000 [1] hour_example)"
proof -
  have "store_ok hour_example" by (simp add: store_ok_def hour_example_def bucket_ok_def bk_key_def)
  then show ?thesis using buckets_well_formed [of hour_example] by blast
qed

section \<open>Outages\<close>

record outage =
  ou_start :: rat
  ou_end :: "rat option"
  ou_seconds :: rat
  ou_count :: nat

text \<open>
  The loop over the rows in order of time: start of the current run of timeouts and its length.
  A threshold of zero or less reaches \<^verbatim>\<open>timestamp - None\<close> and raises.
\<close>

fun outage_loop :: "int \<Rightarrow> sample list \<Rightarrow> rat option \<Rightarrow> nat \<Rightarrow> outage list \<Rightarrow> (rat option \<times> nat \<times> outage list) res" where
  "outage_loop thr [] start n acc = Inr (start, n, acc)"
| "outage_loop thr (r # rs) start n acc =
     (if sm_timeout r then
        outage_loop thr rs (if start = None then Some (sm_time r) else start) (Suc n) acc
      else if thr \<le> int n then
        (case start of None \<Rightarrow> Inl TypeError
         | Some s \<Rightarrow> outage_loop thr rs None 0
             (acc @ [\<lparr>ou_start = s, ou_end = Some (sm_time r), ou_seconds = rnd 1 (fl (sm_time r - s)), ou_count = n\<rparr>]))
      else outage_loop thr rs None 0 acc)"

definition in_range :: "rat option \<Rightarrow> rat option \<Rightarrow> rat \<Rightarrow> bool" where
  "in_range lo hi t = ((case lo of None \<Rightarrow> True | Some a \<Rightarrow> a \<le> t) \<and> (case hi of None \<Rightarrow> True | Some b \<Rightarrow> t \<le> b))"

definition outage_rows :: "int \<Rightarrow> rat option \<Rightarrow> rat option \<Rightarrow> sample_store \<Rightarrow> sample list" where
  "outage_rows tid lo hi st = sort_key sm_time (filter (\<lambda>s. sm_target s = tid \<and> in_range lo hi (sm_time s)) (ss_samples st))"

definition outages_of :: "rat \<Rightarrow> int \<Rightarrow> sample list \<Rightarrow> outage list res" where
  "outages_of now thr rows =
     (case outage_loop thr rows None 0 [] of
        Inl e \<Rightarrow> Inl e
      | Inr (start, n, acc) \<Rightarrow>
          if thr \<le> int n then
            (case start of None \<Rightarrow> Inl TypeError
             | Some s \<Rightarrow> (let last_ts = (if rows = [] then now else sm_time (last rows)) in
                 Inr (acc @ [\<lparr>ou_start = s, ou_end = None, ou_seconds = rnd 1 (fl (last_ts - s)), ou_count = n\<rparr>])))
          else Inr acc)"

definition get_outages :: "rat \<Rightarrow> int \<Rightarrow> int \<Rightarrow> rat option \<Rightarrow> rat option \<Rightarrow> sample_store \<Rightarrow> outage list res" where
  "get_outages now tid thr lo hi st = outages_of now thr (outage_rows tid lo hi st)"

text \<open>The outages as the runs of timeouts: cut the rows at the answers, keep the long runs.\<close>

definition outage_of_run :: "sample list \<Rightarrow> sample list \<Rightarrow> outage" where
  "outage_of_run run rest =
     (let t0 = sm_time (hd run); t1 = sm_time (if rest = [] then last run else hd rest) in
      \<lparr>ou_start = t0, ou_end = (if rest = [] then None else Some t1), ou_seconds = rnd 1 (fl (t1 - t0)), ou_count = length run\<rparr>)"

function run_outages :: "nat \<Rightarrow> sample list \<Rightarrow> outage list" where
  "run_outages m rows =
     (case dropWhile (\<lambda>r. \<not> sm_timeout r) rows of
        [] \<Rightarrow> []
      | r # rs \<Rightarrow>
          (let run = r # takeWhile sm_timeout rs; rest = dropWhile sm_timeout rs in
           (if m \<le> length run then [outage_of_run run rest] else []) @ run_outages m rest))"
  by pat_completeness auto

termination
proof (relation "measure (\<lambda>(m, rows). length rows)")
  fix m :: nat and rows :: "sample list" and r rs x y
  assume d: "dropWhile (\<lambda>r. \<not> sm_timeout r) rows = r # rs" and y: "y = dropWhile sm_timeout rs"
  have "length (r # rs) \<le> length rows" by (metis d length_dropWhile_le)
  moreover have "length y \<le> length rs" by (simp add: y length_dropWhile_le)
  ultimately show "((m, y), (m, rows)) \<in> measure (\<lambda>(m, rows). length rows)" by simp
qed simp

declare run_outages.simps [simp del]

lemma run_outages_Nil: "run_outages m [] = []"
  by (simp add: run_outages.simps)

lemma run_outages_answer: "\<not> sm_timeout r \<Longrightarrow> run_outages m (r # rs) = run_outages m rs"
  by (simp add: run_outages.simps [of m "r # rs"] run_outages.simps [of m rs])

lemma run_outages_run:
  assumes "run \<noteq> []" and "list_all sm_timeout run" and "rest = [] \<or> \<not> sm_timeout (hd rest)"
  shows "run_outages m (run @ rest) = (if m \<le> length run then [outage_of_run run rest] else []) @ run_outages m rest"
proof -
  obtain r rs where run: "run = r # rs" using assms(1) by (cases run) auto
  then have "takeWhile sm_timeout (rs @ rest) = rs" "dropWhile sm_timeout (rs @ rest) = rest"
    using assms(2,3) by (cases rest; auto simp: list_all_iff takeWhile_append2 dropWhile_append2)+
  then show ?thesis using assms(2) by (simp add: run run_outages.simps [of m "r # rs @ rest"] Let_def)
qed

definition run_start :: "sample list \<Rightarrow> rat option" where
  "run_start run = (if run = [] then None else Some (sm_time (hd run)))"

lemma run_start_snoc: "run_start (run @ [r]) = (if run_start run = None then Some (sm_time r) else run_start run)"
  by (simp add: run_start_def)

lemma outage_loop_runs:
  assumes "0 < thr" and "list_all sm_timeout run" and "run @ rs \<noteq> [] \<Longrightarrow> last_ts = sm_time (last (run @ rs))"
  shows "(case outage_loop thr rs (run_start run) (length run) acc of
       Inl e \<Rightarrow> Inl e
     | Inr (start, n, acc') \<Rightarrow>
         if thr \<le> int n then
           (case start of None \<Rightarrow> Inl TypeError
            | Some s \<Rightarrow> Inr (acc' @ [\<lparr>ou_start = s, ou_end = None, ou_seconds = rnd 1 (fl (last_ts - s)), ou_count = n\<rparr>]))
         else Inr acc') = Inr (acc @ run_outages (nat thr) (run @ rs))"
  using assms(2,3)
proof (induction rs arbitrary: run acc)
  case Nil
  show ?case
  proof (cases "run = []")
    case True
    with assms(1) show ?thesis by (simp add: run_start_def run_outages_Nil)
  next
    case False
    with run_outages_run [OF False Nil.prems(1), of "[]" "nat thr"] Nil.prems(2) show ?thesis
      by (simp add: run_start_def run_outages_Nil outage_of_run_def Let_def nat_le_iff)
  qed
next
  case (Cons r rs)
  show ?case
  proof (cases "sm_timeout r")
    case True
    with Cons.IH [of "run @ [r]" acc] Cons.prems show ?thesis by (simp add: run_start_snoc)
  next
    case r: False
    note IH = Cons.IH [of "[]"]
    have lt: "[] @ rs \<noteq> [] \<Longrightarrow> last_ts = sm_time (last ([] @ rs))" using Cons.prems(2) by simp
    show ?thesis
    proof (cases "run = []")
      case True
      with IH [of acc] lt r assms(1) show ?thesis by (simp add: run_start_def run_outages_answer)
    next
      case False
      have "run_outages (nat thr) (run @ r # rs) =
          (if nat thr \<le> length run then [outage_of_run run (r # rs)] else []) @ run_outages (nat thr) rs"
        using run_outages_run [OF False Cons.prems(1), of "r # rs" "nat thr"] r by (simp add: run_outages_answer)
      with IH [of "acc @ (if nat thr \<le> length run then [outage_of_run run (r # rs)] else [])"] lt r False show ?thesis
        by (simp add: run_start_def outage_of_run_def Let_def nat_le_iff split: if_splits)
    qed
  qed
qed

text \<open>
  The outages the loop derives from the samples of a range are the maximal runs of at least
  the threshold of timeouts in a row, in order, each from its first timeout to the answer that
  ends it, or open, up to the last sample.
\<close>

theorem outages_are_long_runs:
  assumes "0 < thr"
  shows "get_outages now tid thr lo hi st = Inr (run_outages (nat thr) (outage_rows tid lo hi st))"
proof -
  have "outages_of now thr rows = Inr (run_outages (nat thr) rows)" for rows
    unfolding outages_of_def Let_def
    using outage_loop_runs [OF assms, of "[]" rows "if rows = [] then now else sm_time (last rows)" "[]"]
    by (simp add: run_start_def)
  then show ?thesis by (simp add: get_outages_def)
qed

lemma outages_are_long_runs_witness: "get_outages 100 1 2 None None two_answers = Inr []"
proof -
  have "outage_rows 1 None None two_answers = ss_samples two_answers"
    by (simp add: outage_rows_def two_answers_def in_range_def)
  then show ?thesis using outages_are_long_runs [of 2 100 1 None None two_answers]
    by (simp add: two_answers_def run_outages_answer run_outages_Nil)
qed

lemma outage_loop_first_answer: "thr \<le> 0 \<Longrightarrow> \<not> sm_timeout r \<Longrightarrow> outage_loop thr (r # rs) None 0 acc = Inl TypeError"
  by simp

lemma outage_loop_last_answer:
  "thr \<le> 0 \<Longrightarrow> rs \<noteq> [] \<Longrightarrow> \<not> sm_timeout (last rs) \<Longrightarrow> outage_loop thr rs start n acc = Inr (s, m, acc') \<Longrightarrow> s = None"
  by (induction thr rs start n acc rule: outage_loop.induct) (auto split: if_splits option.splits)

lemma outage_loop_TypeError: "outage_loop thr rs start n acc = Inl e \<Longrightarrow> e = TypeError"
  by (induction thr rs start n acc rule: outage_loop.induct) (auto split: if_splits option.splits)

text \<open>
  The threshold comes from the request; one of zero or less makes the query raise
  \<^verbatim>\<open>TypeError\<close> whenever the range is empty or begins or ends with an answer.
\<close>

theorem zero_threshold_raises:
  assumes "thr \<le> 0"
    and "outage_rows tid lo hi st = [] \<or> \<not> sm_timeout (hd (outage_rows tid lo hi st)) \<or> \<not> sm_timeout (last (outage_rows tid lo hi st))"
  shows "get_outages now tid thr lo hi st = Inl TypeError"
proof (cases "outage_rows tid lo hi st")
  case Nil
  with assms(1) show ?thesis by (simp add: get_outages_def outages_of_def)
next
  case (Cons r rs)
  show ?thesis
  proof (cases "outage_loop thr (r # rs) None 0 []")
    case (Inl e)
    with Cons show ?thesis using outage_loop_TypeError [OF Inl] by (simp only: get_outages_def outages_of_def sum.case)
  next
    case (Inr x)
    obtain s n acc where x: "x = (s, n, acc)" by (cases x)
    have "sm_timeout r" using Inr outage_loop_first_answer [OF assms(1), of r rs "[]"] by (cases "sm_timeout r") auto
    with assms(2) Cons have "\<not> sm_timeout (last (r # rs))" by simp
    with Inr x have "s = None" using outage_loop_last_answer [OF assms(1), of "r # rs"] by blast
    with Inr x Cons assms(1) show ?thesis by (simp only: get_outages_def outages_of_def sum.case) simp
  qed
qed

lemma zero_threshold_raises_witness: "get_outages 100 1 0 None None two_answers = Inl TypeError"
  by (rule zero_threshold_raises) (simp_all add: outage_rows_def two_answers_def in_range_def)

end
