(* ===== verification/Device_Tracking.thy ===== *)
theory Device_Tracking
  imports Docsis_Utils
begin

text \<open>
  The device part of a modem poll (\<^verbatim>\<open>app/collectors/modem.py\<close>, with the one-row table of
  \<^verbatim>\<open>app/storage/device.py\<close>): the answers of the driver are compared with the last known values,
  at most one event is logged, and the table keeps the last known values.
\<close>

section \<open>State and answers\<close>

record device_state =
  dv_uptime :: "int option"
  dv_sw :: "string option"
  dv_ipv4 :: "string option"
  dv_ipv6 :: "string option"
  dv_updated :: string

record device_info =
  di_uptime :: "int option"
  di_sw :: "string option"
  di_ipv4 :: "string option"
  di_ipv6 :: "string option"
  di_reason :: "string option"

text \<open>\<^verbatim>\<open>format_uptime\<close>: days, hours, minutes; None for the text "unknown".\<close>

definition format_uptime :: "int option \<Rightarrow> (int \<times> int \<times> int) option" where
  "format_uptime seconds =
     (case seconds of None \<Rightarrow> None
      | Some s \<Rightarrow> let r = s mod (24 * 3600) in Some (s div (24 * 3600), r div 3600, (r mod 3600) div 60))"

section \<open>Events\<close>

datatype part =
    Prior_Uptime "int \<times> int \<times> int"
  | Sw_Change string string
  | Wan_Both string string string string
  | Wan_V4 string string
  | Wan_V6 string string
  | Reason string

datatype device_details =
    Sw_Update string string "string option" "int option" bool
  | Reboot "string option" "int option" bool
  | Ip_Change "string option" "string option" "string option" "string option"

record device_event =
  de_time :: string
  de_severity :: string
  de_type :: string
  de_parts :: "part list"
  de_details :: device_details

text \<open>A value that is known before and now, not empty, and different: \<^verbatim>\<open>new and old and new != old\<close>.\<close>

definition text_changed :: "string option \<Rightarrow> string option \<Rightarrow> bool" where
  "text_changed old new = (text_of new \<noteq> [] \<and> text_of old \<noteq> [] \<and> new \<noteq> old)"

definition uptime_decreased :: "int option \<Rightarrow> int option \<Rightarrow> bool" where
  "uptime_decreased old new = (case (new, old) of (Some n, Some k) \<Rightarrow> n < k | _ \<Rightarrow> False)"

text \<open>The old values: all missing before the first poll.\<close>

definition old_values :: "device_state option \<Rightarrow> device_state" where
  "old_values st = (case st of None \<Rightarrow> \<lparr>dv_uptime = None, dv_sw = None, dv_ipv4 = None, dv_ipv6 = None, dv_updated = []\<rparr> | Some s \<Rightarrow> s)"

definition ip_part :: "device_state \<Rightarrow> device_info \<Rightarrow> part list" where
  "ip_part old new =
     (let c4 = text_changed (dv_ipv4 old) (di_ipv4 new); c6 = text_changed (dv_ipv6 old) (di_ipv6 new) in
      if c4 \<and> c6 then [Wan_Both (text_of (dv_ipv4 old)) (text_of (dv_ipv6 old)) (text_of (di_ipv4 new)) (text_of (di_ipv6 new))]
      else if c4 then [Wan_V4 (text_of (dv_ipv4 old)) (text_of (di_ipv4 new))]
      else if c6 then [Wan_V6 (text_of (dv_ipv6 old)) (text_of (di_ipv6 new))]
      else [])"

definition reason_part :: "device_info \<Rightarrow> part list" where
  "reason_part new = (if text_of (di_reason new) = [] then [] else [Reason (text_of (di_reason new))])"

definition uptime_part :: "device_state \<Rightarrow> part list" where
  "uptime_part old = (case format_uptime (dv_uptime old) of None \<Rightarrow> [] | Some u \<Rightarrow> [Prior_Uptime u])"

definition device_events :: "string \<Rightarrow> device_state \<Rightarrow> device_info \<Rightarrow> device_event list" where
  "device_events now old new =
     (let sw_changed = text_changed (dv_sw old) (di_sw new);
          ip = ip_part old new; ip_changed = (ip \<noteq> [])
      in if sw_changed then
           [\<lparr>de_time = now, de_severity = ''info'', de_type = ''device_sw_update'',
             de_parts = uptime_part old @ [Sw_Change (text_of (dv_sw old)) (text_of (di_sw new))] @ ip @ reason_part new,
             de_details = Sw_Update (text_of (dv_sw old)) (text_of (di_sw new)) (di_reason new) (dv_uptime old) ip_changed\<rparr>]
         else if uptime_decreased (dv_uptime old) (di_uptime new) then
           [\<lparr>de_time = now, de_severity = ''warning'', de_type = ''device_reboot'',
             de_parts = uptime_part old @ ip @ reason_part new,
             de_details = Reboot (di_reason new) (dv_uptime old) ip_changed\<rparr>]
         else if ip_changed then
           [\<lparr>de_time = now, de_severity = ''info'', de_type = ''device_ip_change'', de_parts = ip,
             de_details = Ip_Change (dv_ipv4 old) (di_ipv4 new) (dv_ipv6 old) (di_ipv6 new)\<rparr>]
         else [])"

section \<open>The table\<close>

definition known :: "'a option \<Rightarrow> 'a option \<Rightarrow> 'a option" where
  "known old new = (if new \<noteq> None then new else old)"

definition update_device_state :: "string \<Rightarrow> device_state \<Rightarrow> device_info \<Rightarrow> device_state" where
  "update_device_state now old new =
     \<lparr>dv_uptime = known (dv_uptime old) (di_uptime new), dv_sw = known (dv_sw old) (di_sw new),
      dv_ipv4 = known (dv_ipv4 old) (di_ipv4 new), dv_ipv6 = known (dv_ipv6 old) (di_ipv6 new), dv_updated = now\<rparr>"

text \<open>One poll; the driver may return no device information at all.\<close>

definition track_device :: "string \<Rightarrow> device_info option \<Rightarrow> device_state option \<Rightarrow> device_event list \<times> device_state option" where
  "track_device now info st =
     (case info of None \<Rightarrow> ([], st)
      | Some new \<Rightarrow> (device_events now (old_values st) new, Some (update_device_state now (old_values st) new)))"

fun track_run :: "(string \<times> device_info option) list \<Rightarrow> device_state option \<Rightarrow> device_event list \<times> device_state option" where
  "track_run [] st = ([], st)"
| "track_run ((now, info) # ps) st =
     (let (es, st1) = track_device now info st; (es', st2) = track_run ps st1 in (es @ es', st2))"

section \<open>What is detected\<close>

lemma ip_part_changed: "ip_part old new \<noteq> [] \<longleftrightarrow>
    text_changed (dv_ipv4 old) (di_ipv4 new) \<or> text_changed (dv_ipv6 old) (di_ipv6 new)"
  by (simp add: ip_part_def Let_def)

text \<open>
  A poll logs at most one device event: a software update if the version changed, else a
  reboot if the uptime fell, else a change of address; an address that changed together with an
  update or a reboot is a part of that event.
\<close>

theorem device_event_priority:
  "let old = old_values st; es = fst (track_device now (Some new) st);
       sw = text_changed (dv_sw old) (di_sw new); rb = uptime_decreased (dv_uptime old) (di_uptime new);
       ip = text_changed (dv_ipv4 old) (di_ipv4 new) \<or> text_changed (dv_ipv6 old) (di_ipv6 new)
   in map de_type es = (if sw then [''device_sw_update''] else if rb then [''device_reboot'']
        else if ip then [''device_ip_change''] else [])
      \<and> (\<forall>e \<in> set es. set (ip_part old new) \<subseteq> set (de_parts e)
          \<and> (case de_details e of Sw_Update _ _ _ _ b \<Rightarrow> b = ip | Reboot _ _ b \<Rightarrow> b = ip | Ip_Change _ _ _ _ \<Rightarrow> ip))"
  using ip_part_changed [of "old_values st" new]
  by (auto simp: track_device_def device_events_def Let_def)

lemma device_event_priority_witness:
  "map de_type (fst (track_device ''t'' (Some \<lparr>di_uptime = Some 60, di_sw = Some ''2.0'', di_ipv4 = None, di_ipv6 = None, di_reason = None\<rparr>)
     (Some \<lparr>dv_uptime = Some 9000, dv_sw = Some ''1.0'', dv_ipv4 = None, dv_ipv6 = None, dv_updated = ''s''\<rparr>))) = [''device_sw_update'']"
  using device_event_priority [of "Some \<lparr>dv_uptime = Some 9000, dv_sw = Some ''1.0'', dv_ipv4 = None, dv_ipv6 = None, dv_updated = ''s''\<rparr>" "''t''"
    "\<lparr>di_uptime = Some 60, di_sw = Some ''2.0'', di_ipv4 = None, di_ipv6 = None, di_reason = None\<rparr>"]
  by (simp add: Let_def old_values_def text_changed_def text_of_def)

section \<open>What the table remembers\<close>

text \<open>The newest value a driver gave in a history of polls, oldest first.\<close>

definition newest_value :: "(device_info \<Rightarrow> 'a option) \<Rightarrow> (string \<times> device_info option) list \<Rightarrow> 'a option" where
  "newest_value f ps = fold (\<lambda>p acc. case snd p of None \<Rightarrow> acc | Some i \<Rightarrow> known acc (f i)) ps None"

lemma track_device_values:
  "old_values (snd (track_device now info st)) =
     (case info of None \<Rightarrow> old_values st | Some new \<Rightarrow> update_device_state now (old_values st) new)"
  by (simp add: track_device_def old_values_def split: option.splits)

lemma track_run_values:
  "dv_uptime (old_values (snd (track_run ps st))) = fold (\<lambda>p acc. case snd p of None \<Rightarrow> acc | Some i \<Rightarrow> known acc (di_uptime i)) ps (dv_uptime (old_values st))"
  "dv_sw (old_values (snd (track_run ps st))) = fold (\<lambda>p acc. case snd p of None \<Rightarrow> acc | Some i \<Rightarrow> known acc (di_sw i)) ps (dv_sw (old_values st))"
  "dv_ipv4 (old_values (snd (track_run ps st))) = fold (\<lambda>p acc. case snd p of None \<Rightarrow> acc | Some i \<Rightarrow> known acc (di_ipv4 i)) ps (dv_ipv4 (old_values st))"
  "dv_ipv6 (old_values (snd (track_run ps st))) = fold (\<lambda>p acc. case snd p of None \<Rightarrow> acc | Some i \<Rightarrow> known acc (di_ipv6 i)) ps (dv_ipv6 (old_values st))"
proof -
  have step: "snd (track_run ((now, info) # qs) s) = snd (track_run qs (snd (track_device now info s)))" for now info qs s
    by (simp add: case_prod_beta Let_def)
  show "dv_uptime (old_values (snd (track_run ps st))) = fold (\<lambda>p acc. case snd p of None \<Rightarrow> acc | Some i \<Rightarrow> known acc (di_uptime i)) ps (dv_uptime (old_values st))"
    by (induction ps arbitrary: st) (auto simp del: track_run.simps(2) simp: step track_device_values update_device_state_def split: option.splits)
  show "dv_sw (old_values (snd (track_run ps st))) = fold (\<lambda>p acc. case snd p of None \<Rightarrow> acc | Some i \<Rightarrow> known acc (di_sw i)) ps (dv_sw (old_values st))"
    by (induction ps arbitrary: st) (auto simp del: track_run.simps(2) simp: step track_device_values update_device_state_def split: option.splits)
  show "dv_ipv4 (old_values (snd (track_run ps st))) = fold (\<lambda>p acc. case snd p of None \<Rightarrow> acc | Some i \<Rightarrow> known acc (di_ipv4 i)) ps (dv_ipv4 (old_values st))"
    by (induction ps arbitrary: st) (auto simp del: track_run.simps(2) simp: step track_device_values update_device_state_def split: option.splits)
  show "dv_ipv6 (old_values (snd (track_run ps st))) = fold (\<lambda>p acc. case snd p of None \<Rightarrow> acc | Some i \<Rightarrow> known acc (di_ipv6 i)) ps (dv_ipv6 (old_values st))"
    by (induction ps arbitrary: st) (auto simp del: track_run.simps(2) simp: step track_device_values update_device_state_def split: option.splits)
qed

text \<open>
  After any number of polls the table holds, for uptime, software version and addresses, the
  newest value any poll reported, whatever polls without that value came after it.
\<close>

theorem device_state_is_last_known:
  "let s = old_values (snd (track_run ps None)) in
     dv_uptime s = newest_value di_uptime ps \<and> dv_sw s = newest_value di_sw ps
     \<and> dv_ipv4 s = newest_value di_ipv4 ps \<and> dv_ipv6 s = newest_value di_ipv6 ps"
  by (simp add: track_run_values newest_value_def Let_def) (simp add: old_values_def)

text \<open>
  An empty text counts as known: several drivers report an empty version or address when
  they cannot read one, it replaces the last value in the table, and the next poll compares
  with the empty text; so no update and no change of address is logged across such a poll.
\<close>

theorem blank_poll_hides_change:
  assumes "di_sw blank = Some []" and "di_ipv4 blank = Some []" and "di_ipv6 blank = Some []" and "di_uptime blank = None"
    and "di_uptime new = None"
  shows "fst (track_run [(t1, Some blank), (t2, Some new)] st) = []"
  using assms
  by (simp add: track_device_def device_events_def old_values_def update_device_state_def known_def ip_part_def
      text_changed_def text_of_def uptime_decreased_def Let_def split: option.splits)

lemma blank_poll_hides_change_witness:
  "fst (track_run [(''a'', Some \<lparr>di_uptime = None, di_sw = Some [], di_ipv4 = Some [], di_ipv6 = Some [], di_reason = None\<rparr>),
      (''b'', Some \<lparr>di_uptime = None, di_sw = Some ''2.0'', di_ipv4 = Some ''10.0.0.2'', di_ipv6 = None, di_reason = None\<rparr>)]
     (Some \<lparr>dv_uptime = None, dv_sw = Some ''1.0'', dv_ipv4 = Some ''10.0.0.1'', dv_ipv6 = None, dv_updated = []\<rparr>)) = []"
  by (rule blank_poll_hides_change) simp_all

end
