(* ===== verification/Modem_Poll.thy ===== *)
theory Modem_Poll
  imports Event_Detector Smart_Capture Connection_Monitor Device_Tracking
begin

text \<open>
  Where the components meet: the events of the detector and of the connection monitor as Smart
  Capture reads them, and one poll of the modem (\<^verbatim>\<open>ModemCollector.collect\<close>): device tracking, then
  the detector, then Smart Capture over the events of the detector.
\<close>

section \<open>Shapes of the events\<close>

definition severity_text :: "severity \<Rightarrow> string" where
  "severity_text s = (case s of Info \<Rightarrow> ''info'' | Warn \<Rightarrow> ''warning'' | Crit \<Rightarrow> ''critical'')"

text \<open>The type and the severities an event with some details has.\<close>

fun shape :: "details \<Rightarrow> string \<times> severity set" where
  "shape (D_Started h) = (''monitoring_started'', {Info})"
| "shape (D_Health p c) = (''health_change'',
     if health_order p < health_order c then (if c = ''critical'' then {Crit} else {Warn}) else {Info})"
| "shape (D_Power _ _ _ _) = (''power_change'', {Warn})"
| "shape (D_Snr _ _ _ _ _) = (''snr_change'', {Warn, Crit})"
| "shape (D_Channels _ p c _ _ _) = (''channel_change'', if c < p then {Warn} else {Info})"
| "shape (D_Modulation _ down) = (''modulation_change'', if down then {Warn, Crit} else {Info})"
| "shape (D_Errors _ _ _ _ _) = (''error_spike'', {Warn})"
| "shape (D_Restart _ _ _ _ _ _) = (''modem_restart_detected'', {Info})"

definition shaped :: "event \<Rightarrow> bool" where
  "shaped e \<longleftrightarrow> ev_type e = fst (shape (ev_details e)) \<and> ev_severity e \<in> snd (shape (ev_details e))"

lemma shaped_mk: "shaped (mk_event ts sev ty msg d) \<longleftrightarrow> ty = fst (shape d) \<and> sev \<in> snd (shape d)"
  by (simp add: shaped_def mk_event_def)

lemma shaped_annotate [simp]: "shaped (annotate a b e) = shaped e"
  by (simp add: shaped_def annotate_def)

lemma health_event_shaped: "shaped (health_event ts p c)"
  by (simp add: health_event_def shaped_mk)

lemma checks_shaped:
  "list_all shaped (fst (check_health ts c p d))" "list_all shaped (check_power ts c p)"
  "list_all shaped (check_snr t ts s s')" "list_all shaped (check_channels ts s s')"
  "list_all shaped (check_modulation ts s s')" "list_all shaped (check_restart ts s s')"
  "list_all shaped (check_errors ts c p)"
proof -
  show "list_all shaped (fst (check_health ts c p d))"
    by (simp add: check_health_def Let_def health_event_shaped)
  show "list_all shaped (check_power ts c p)"
    by (simp add: check_power_def power_shift_def shaped_mk split: option.splits)
  show "list_all shaped (check_snr t ts s s')"
    by (simp add: check_snr_def shaped_mk Let_def split: option.splits list.splits)
  show "list_all shaped (check_channels ts s s')"
    by (simp add: check_channels_def count_change_def shaped_mk Let_def case_prod_beta)
  show "list_all shaped (check_modulation ts s s')"
    by (simp add: check_modulation_def shaped_mk modulation_severity_def Let_def)
  show "list_all shaped (check_restart ts s s')"
    by (simp add: check_restart_def shaped_mk Let_def)
  show "list_all shaped (check_errors ts c p)"
    by (simp add: check_errors_def shaped_mk split: option.splits)
qed

lemma check_shaped: "list_all shaped (fst (check t ts s sid d))"
proof (cases "dt_prev d")
  case None
  then show ?thesis by (simp add: check_def Let_def shaped_mk)
next
  case (Some x)
  then show ?thesis
    by (cases x) (simp add: check_split compare_snapshots_def case_prod_beta Let_def checks_shaped list.pred_map comp_def)
qed

text \<open>
  C8. Every event of a run of the detector is well typed: its type is the one its details
  belong to, and its severity is one that goes with them (a change of health that is no
  degradation is informative, a loss of channels a warning, a drop of modulation at least a
  warning, and so on).
\<close>

theorem detector_events_typed:
  "list_all (\<lambda>e. ev_type e = fst (shape (ev_details e)) \<and> ev_severity e \<in> snd (shape (ev_details e))) (fst (check_run t ps d))"
proof -
  have "list_all shaped (fst (check_run t ps d))"
  proof (induction ps arbitrary: d)
    case (Cons p ps)
    then show ?case by (cases p) (simp add: case_prod_beta Let_def check_shaped)
  qed simp
  then show ?thesis by (simp add: shaped_def list_all_iff)
qed

section \<open>Events as Smart Capture reads them\<close>

text \<open>\<^verbatim>\<open>details.get(k)\<close> of the scalar entries.\<close>

definition fields_of :: "(string \<times> pyval) list \<Rightarrow> string \<Rightarrow> pyval" where
  "fields_of d k = dict_get d k PNone"

definition direction_text :: "bool \<Rightarrow> string" where
  "direction_text down = (if down then ''downgrade'' else ''upgrade'')"

fun detail_fields :: "details \<Rightarrow> (string \<times> pyval) list" where
  "detail_fields (D_Started h) = [(''health'', PStr h)]"
| "detail_fields (D_Health p c) = [(''prev'', PStr p), (''current'', PStr c)]"
| "detail_fields (D_Power dir p c td) = [(''direction'', PStr dir), (''prev'', PFloat (Fin p)), (''current'', PFloat (Fin c)), (''threshold_delta'', PFloat (Fin td))]"
| "detail_fields (D_Snr p c th _ _) = [(''prev'', PFloat (Fin p)), (''current'', PFloat (Fin c)), (''threshold'', PStr th)]"
| "detail_fields (D_Channels dir p c loss _ _) =
     [(''direction'', PStr dir), (''prev'', PInt p), (''current'', PInt c), (''change'', PStr (if loss then ''loss'' else ''gain''))]"
| "detail_fields (D_Modulation _ down) = [(''direction'', PStr (direction_text down))]"
| "detail_fields (D_Errors p c delta _ _) = [(''prev'', PInt p), (''current'', PInt c), (''delta'', PInt delta)]"
| "detail_fields (D_Restart _ _ _ _ _ _) = []"

definition qam_change_of :: "modulation_change \<Rightarrow> qam_change" where
  "qam_change_of m = \<lparr>qc_direction = mc_direction m, qc_current_rank = mc_current_rank m\<rparr>"

definition cap_of_event :: "(string \<Rightarrow> rat option) \<Rightarrow> int option \<Rightarrow> event \<Rightarrow> cap_event" where
  "cap_of_event stamp eid e =
     \<lparr>ce_id = eid, ce_time = Some (ev_time e), ce_message = ev_message e, ce_type = ev_type e,
      ce_severity = Some (severity_text (ev_severity e)), ce_fields = fields_of (detail_fields (ev_details e)),
      ce_changes = (case ev_details e of D_Modulation ms _ \<Rightarrow> map qam_change_of ms | _ \<Rightarrow> []),
      ce_delta = (case ev_details e of D_Errors _ _ delta _ _ \<Rightarrow> delta | _ \<Rightarrow> 0),
      ce_loss = Fin 0, ce_stamp = stamp (ev_time e)\<rparr>"

definition cap_of_cm :: "string \<Rightarrow> rat option \<Rightarrow> int option \<Rightarrow> cm_event \<Rightarrow> cap_event" where
  "cap_of_cm ts stamp eid e =
     \<lparr>ce_id = eid, ce_time = Some ts, ce_message = Msg (cm_type e) [PInt (event_target e)], ce_type = cm_type e,
      ce_severity = Some (cm_severity e),
      ce_fields = fields_of (case e of
          Unreachable t n \<Rightarrow> [(''target_id'', PInt t), (''consecutive_timeouts'', PInt (int n))]
        | Recovered t n \<Rightarrow> [(''target_id'', PInt t), (''was_down_for'', PInt (int n))]
        | Loss_Warning t p w \<Rightarrow> [(''target_id'', PInt t), (''packet_loss_pct'', PFloat p), (''window_seconds'', PInt w)]),
      ce_changes = [], ce_delta = 0, ce_loss = (case e of Loss_Warning t p w \<Rightarrow> p | _ \<Rightarrow> Fin 0), ce_stamp = stamp\<rparr>"

lemma capture_triggers_eq:
  "capture_triggers =
     [mk_trigger ''modulation_change'' ''sc_trigger_modulation'' (Some ''warning'') [(''direction'', PStr ''downgrade'')] Modulation_Filter,
      mk_trigger ''snr_change'' ''sc_trigger_snr'' (Some ''warning'') [] Snr_Filter,
      mk_trigger ''error_spike'' ''sc_trigger_error_spike'' None [] Error_Spike_Filter,
      mk_trigger ''health_change'' ''sc_trigger_health'' (Some ''warning'') [] Health_Filter,
      mk_trigger ''cm_packet_loss_warning'' ''sc_trigger_packet_loss'' None [] Packet_Loss_Filter]"
  by (simp add: capture_triggers_def register_trigger_def same_trigger_def mk_trigger_def)

text \<open>What counts as a degradation, by the details alone.\<close>

fun degradation :: "details \<Rightarrow> bool" where
  "degradation (D_Health p c) = (health_order p < health_order c)"
| "degradation (D_Snr _ _ _ _ _) = True"
| "degradation (D_Modulation _ down) = down"
| "degradation (D_Errors _ _ _ _ _) = True"
| "degradation _ = False"

lemma shaped_matches:
  assumes "shaped e"
  shows "list_ex (\<lambda>tr. matches tr (cap_of_event stamp eid e)) capture_triggers \<longleftrightarrow> degradation (ev_details e)"
  using assms
  by (cases "ev_details e")
    (auto simp: capture_triggers_eq matches_def mk_trigger_def cap_of_event_def shaped_def SEVERITY_RANK_def severity_text_def text_of_def
      fields_of_def dict_get_def py_eq_def direction_text_def split: if_splits)

text \<open>
  C5. Of all events the detector ever reports exactly the degradations match a trigger of Smart
  Capture: a worse health, a downstream signal to noise change, a drop of modulation and an
  error spike; recoveries, upgrades, power and channel changes and restarts never do.
\<close>

theorem captures_only_degradations:
  assumes "e \<in> set (fst (check_run t ps d))"
  shows "list_ex (\<lambda>tr. matches tr (cap_of_event stamp eid e)) capture_triggers \<longleftrightarrow> degradation (ev_details e)"
proof -
  have "list_all shaped (fst (check_run t ps d))"
  proof (induction ps arbitrary: d)
    case (Cons p ps)
    then show ?case by (cases p) (simp add: case_prod_beta Let_def check_shaped)
  qed simp
  with assms have "shaped e" by (simp add: list_all_iff)
  then show ?thesis by (rule shaped_matches)
qed

lemma captures_only_degradations_witness:
  "list_ex (\<lambda>tr. matches tr (cap_of_event (\<lambda>_. None) (Some 3) (annotate (Some 9) (Some 8) (health_event ''t2'' ''good'' ''critical'')))) capture_triggers"
proof -
  define d where "d = snd (check_run FALLBACK_THRESHOLDS demo_polls demo_detector)"
  have "annotate (Some 9) (Some 8) (health_event ''t2'' ''good'' ''critical'')
      \<in> set (fst (check_run FALLBACK_THRESHOLDS [(''t2'', demo_snapshot ''critical'', Some 9)] d))"
    using demo_second_poll by (simp add: d_def Let_def case_prod_beta)
  from captures_only_degradations [OF this] show ?thesis
    by (simp add: annotate_def health_event_def mk_event_def health_order_def dict_get_def)
qed

text \<open>
  Of the events of the connection monitor exactly the loss warnings match a trigger, and with
  its filter they qualify exactly when the loss reaches the configured share, five percent when
  the configuration holds no number.
\<close>

theorem captures_of_connection_events:
  "filter (\<lambda>tr. matches tr (cap_of_cm ts stamp eid e)) capture_triggers =
     (case e of Loss_Warning _ _ _ \<Rightarrow> [mk_trigger ''cm_packet_loss_warning'' ''sc_trigger_packet_loss'' None [] Packet_Loss_Filter] | _ \<Rightarrow> [])
   \<and> (\<forall>t p w. e = Loss_Warning t p w \<and> fc_min_loss (cc_filters cfg) = PNone \<and> truthy (cc_flag cfg ''sc_trigger_packet_loss'') \<longrightarrow>
        qualifying cfg capture_triggers (cap_of_cm ts stamp eid e) =
          Inr (if f_le (Fin 5) p then [(mk_trigger ''cm_packet_loss_warning'' ''sc_trigger_packet_loss'' None [] Packet_Loss_Filter,
                                        cap_of_cm ts stamp eid e)] else []))"
proof -
  have m: "filter (\<lambda>tr. matches tr (cap_of_cm ts stamp eid e)) capture_triggers =
     (case e of Loss_Warning _ _ _ \<Rightarrow> [mk_trigger ''cm_packet_loss_warning'' ''sc_trigger_packet_loss'' None [] Packet_Loss_Filter] | _ \<Rightarrow> [])"
    by (cases e) (simp_all add: capture_triggers_eq matches_def mk_trigger_def cap_of_cm_def text_of_def)
  moreover have "qualifying cfg capture_triggers (cap_of_cm ts stamp eid e) =
      Inr (if f_le (Fin 5) p then [(mk_trigger ''cm_packet_loss_warning'' ''sc_trigger_packet_loss'' None [] Packet_Loss_Filter,
                                    cap_of_cm ts stamp eid e)] else [])"
    if "e = Loss_Warning t p w" "fc_min_loss (cc_filters cfg) = PNone" "truthy (cc_flag cfg ''sc_trigger_packet_loss'')" for t p w
    using that m unfolding qualifying_def
    by (simp add: switched_on_def mk_trigger_def apply_sub_filter_def packet_loss_sub_filter_def cap_of_cm_def del: f_le_def)
  ultimately show ?thesis by blast
qed

lemma captures_of_connection_events_witness:
  "qualifying (sample_capture\<lparr>cc_filters := (cc_filters sample_capture)\<lparr>fc_min_loss := PNone\<rparr>\<rparr>) capture_triggers
     (cap_of_cm ''t'' None None (Loss_Warning 1 (Fin 7) 60))
   = Inr [(mk_trigger ''cm_packet_loss_warning'' ''sc_trigger_packet_loss'' None [] Packet_Loss_Filter,
           cap_of_cm ''t'' None None (Loss_Warning 1 (Fin 7) 60))]"
  using captures_of_connection_events [of "''t''" None None "Loss_Warning 1 (Fin 7) 60"
    "sample_capture\<lparr>cc_filters := (cc_filters sample_capture)\<lparr>fc_min_loss := PNone\<rparr>\<rparr>"]
  by (simp add: sample_capture_def)

section \<open>One poll\<close>

record modem =
  md_device :: "device_state option"
  md_detector :: detector
  md_capture :: capture

text \<open>
  The times, the answer of the driver and the analysed snapshot with its id come from outside; the
  clock of each evaluation and the ids the store gave are arguments.
\<close>

record poll_input =
  pi_now :: string
  pi_device :: "device_info option"
  pi_snapshot :: snapshot
  pi_sid :: "int option"
  pi_clock :: rat
  pi_ids :: "event \<Rightarrow> int option"

definition poll_captures :: "(string \<Rightarrow> rat option) \<Rightarrow> poll_input \<Rightarrow> event list \<Rightarrow> (rat \<times> cap_event) list" where
  "poll_captures stamp i evs = map (\<lambda>e. (pi_clock i, cap_of_event stamp (pi_ids i e) e)) evs"

definition modem_poll ::
  "thresholds \<Rightarrow> capture_config \<Rightarrow> bool \<Rightarrow> (nat \<Rightarrow> world) \<Rightarrow> (string \<Rightarrow> rat option) \<Rightarrow> poll_input \<Rightarrow> modem
     \<Rightarrow> (device_event list \<times> event list) \<times> modem" where
  "modem_poll t cfg adapter env stamp i m =
     (let (devs, st) = track_device (pi_now i) (pi_device i) (md_device m);
          (evs, d) = check t (pi_now i) (pi_snapshot i) (pi_sid i) (md_detector m);
          cp = (if evs = [] then md_capture m
                else fst (evaluate cfg capture_triggers adapter env (poll_captures stamp i evs) (md_capture m)))
      in ((devs, evs), m\<lparr>md_device := st, md_detector := d, md_capture := cp\<rparr>))"

lemma evaluate_event_unmatched:
  assumes "\<not> list_ex (\<lambda>tr. matches tr ev) triggers"
  shows "evaluate_event cfg triggers adapter env now ev cp = Inr cp"
proof -
  have "filter (\<lambda>tr. matches tr ev) triggers = []" using assms by (auto simp: list_ex_iff filter_empty_conv)
  then show ?thesis by (simp add: evaluate_event_def qualifying_def check_batch_def)
qed

lemma evaluate_events_unmatched:
  "list_all (\<lambda>(now, ev). \<not> list_ex (\<lambda>tr. matches tr ev) triggers) evs \<Longrightarrow>
    evaluate_events cfg triggers adapter env evs cp = (cp, None)"
  by (induction evs) (auto simp: evaluate_event_unmatched)

text \<open>
  A poll of the modem that finds no degradation leaves Smart Capture as it was, its
  executions, guards and clocks, whatever the driver said about the device and however many
  recoveries, upgrades, restarts or device events the poll reports.
\<close>

theorem calm_poll_captures_nothing:
  assumes "list_all (\<lambda>e. \<not> degradation (ev_details e)) (snd (fst (modem_poll t cfg adapter env stamp i m)))"
  shows "md_capture (snd (modem_poll t cfg adapter env stamp i m)) = md_capture m"
proof -
  let ?evs = "fst (check t (pi_now i) (pi_snapshot i) (pi_sid i) (md_detector m))"
  have "snd (fst (modem_poll t cfg adapter env stamp i m)) = ?evs" by (simp add: modem_poll_def case_prod_beta Let_def)
  with assms have calm: "list_all (\<lambda>e. \<not> degradation (ev_details e)) ?evs" by simp
  have "list_all (\<lambda>(now, ev). \<not> list_ex (\<lambda>tr. matches tr ev) capture_triggers) (poll_captures stamp i ?evs)"
    using calm check_shaped [of t "pi_now i" "pi_snapshot i" "pi_sid i" "md_detector m"]
    by (auto simp: poll_captures_def list_all_iff shaped_matches)
  then have "fst (evaluate cfg capture_triggers adapter env (poll_captures stamp i ?evs) (md_capture m)) = md_capture m"
    by (simp add: evaluate_def evaluate_events_unmatched)
  then show ?thesis by (simp add: modem_poll_def case_prod_beta Let_def)
qed

definition first_input :: poll_input where
  "first_input = \<lparr>pi_now = ''t'', pi_device = None, pi_snapshot = demo_snapshot ''good'', pi_sid = Some 1, pi_clock = 0, pi_ids = (\<lambda>_. Some 1)\<rparr>"

definition first_modem :: modem where
  "first_modem = \<lparr>md_device = None, md_detector = init_detector 2 None, md_capture = init_capture\<rparr>"

lemma first_poll_events:
  "snd (fst (modem_poll FALLBACK_THRESHOLDS cfg True env stamp first_input first_modem))
    = [annotate (Some 1) None (mk_event ''t'' Info ''monitoring_started'' (Msg ''Monitoring started (Health: {health})'' [PStr ''good'']) (D_Started ''good''))]"
  by (simp add: modem_poll_def first_input_def first_modem_def init_detector_def seed_def check_def demo_snapshot_def get_or_def case_prod_beta Let_def)

lemma calm_poll_captures_nothing_witness:
  "md_capture (snd (modem_poll FALLBACK_THRESHOLDS sample_capture True (\<lambda>_. sample_world) (\<lambda>_. None) first_input first_modem)) = init_capture"
  using calm_poll_captures_nothing [of FALLBACK_THRESHOLDS sample_capture True "\<lambda>_. sample_world" "\<lambda>_. None" first_input first_modem]
  unfolding first_poll_events by (simp add: annotate_def mk_event_def) (simp add: first_modem_def)

end
