(* ===== verification/Modulation.thy ===== *)
theory Modulation
  imports Docsis_Utils Py_Values "HOL-Library.List_Lexorder" "HOL-Library.Char_ord" "HOL-Library.Multiset"
begin

text \<open>
  \<^verbatim>\<open>app/modules/modulation/engine.py\<close>: health indices, distributions and timelines of channel
  modulations over stored snapshots.  A channel has an id and an identity of any ordered type (the
  id, or the frequency of a channel that has no id), text fields, and the raw values of bit rate
  and symbol rate.  The local time of a time stamp and the base 2 logarithm of the C library
  are arguments; \<^verbatim>\<open>math.log2\<close> raises at zero.
\<close>

section \<open>Channels\<close>

record 'i mchan =
  mo_id :: "'i option"
  mo_ident :: "'i option"
  mo_text :: text_fields
  mo_bitrate :: pyval
  mo_symbol :: pyval

definition mo_modulation :: "'i mchan \<Rightarrow> string" where
  "mo_modulation ch = text_of (or_text (mo_text ch ''profile_modulation'') (or_text (mo_text ch ''modulation'') (mo_text ch ''type'')))"

definition mo_version :: "'i mchan \<Rightarrow> string" where
  "mo_version ch = (case mo_text ch ''docsis_version'' of None \<Rightarrow> ''3.0'' | Some v \<Rightarrow> v)"

definition mo_label :: "'i mchan \<Rightarrow> string \<times> nat option" where
  "mo_label ch = canonical_modulation_label (Some (mo_modulation ch))"

definition py_log2 :: "(nat \<Rightarrow> rat) \<Rightarrow> nat \<Rightarrow> rat res" where
  "py_log2 lg n = (if n = 0 then Inl (ValueError ''math domain error'') else Inr (lg n))"

definition MAX_QAM :: "((string \<times> string) \<times> nat) list" where
  "MAX_QAM = [((''ds'', ''3.0''), 256), ((''ds'', ''3.1''), 4096), ((''us'', ''3.0''), 64), ((''us'', ''3.1''), 1024)]"

definition DEGRADED_QAM_THRESHOLDS :: "((string \<times> string) \<times> nat) list" where
  "DEGRADED_QAM_THRESHOLDS = [((''us'', ''3.1''), 64)]"

definition degraded_qam_threshold :: "string \<Rightarrow> string \<Rightarrow> nat \<Rightarrow> nat" where
  "degraded_qam_threshold direction version dflt = dict_get DEGRADED_QAM_THRESHOLDS (direction, version) dflt"

section \<open>Capacity\<close>

definition DEFAULT_CAPACITY_SYMBOL_RATES :: "string \<Rightarrow> rat" where
  "DEFAULT_CAPACITY_SYMBOL_RATES d = (if d = ''ds'' then 6952 else 5120)"

definition capacity_symbol_rate :: "'i mchan \<Rightarrow> string \<Rightarrow> f64 res" where
  "capacity_symbol_rate ch direction =
     (let dflt = Fin (DEFAULT_CAPACITY_SYMBOL_RATES direction) in
      if mo_symbol ch \<in> {PNone, PStr []} then Inr dflt
      else catch_type_value (py_float (mo_symbol ch)) dflt)"

text \<open>\<^verbatim>\<open>round(rate * log2(order) / 1000, 2)\<close>.\<close>

definition channel_capacity_mbps :: "(nat \<Rightarrow> rat) \<Rightarrow> 'i mchan \<Rightarrow> string \<Rightarrow> f64 option res" where
  "channel_capacity_mbps lg ch direction =
     res_bind (sc_qam_capacity_family direction (mo_text ch)) (\<lambda>fam.
       if fam \<noteq> ''sc_qam'' then Inr None
       else res_bind (if mo_bitrate ch = PNone then Inr None else float_or_none (mo_bitrate ch)) (\<lambda>given.
         case given of
           Some x \<Rightarrow> Inr (Some (f_round 2 x))
         | None \<Rightarrow>
             (case parse_qam_order (Some (mo_modulation ch)) of
                None \<Rightarrow> Inr None
              | Some n \<Rightarrow>
                  res_bind (capacity_symbol_rate ch direction) (\<lambda>rate.
                    map_sum id (\<lambda>bits. Some (f_round 2 (f_scale (1 / 1000) (f_scale bits rate)))) (py_log2 lg n)))))"

record snapshot_capacity =
  sc_capacity :: "f64 option"
  sc_calculated :: nat
  sc_total :: nat
  sc_unsupported :: "(family \<times> nat) list"

definition tally :: "'k \<Rightarrow> ('k \<times> nat) list \<Rightarrow> ('k \<times> nat) list" where
  "tally k d = dict_set k (Suc (dict_get d k 0)) d"

text \<open>
  The families of the channels without capacity keep their order of appearance here; the code
  lists them sorted by name.
\<close>

fun capacity_loop ::
  "(nat \<Rightarrow> rat) \<Rightarrow> string \<Rightarrow> 'i mchan list \<Rightarrow> f64 list \<times> (family \<times> nat) list \<Rightarrow> (f64 list \<times> (family \<times> nat) list) res" where
  "capacity_loop lg d [] acc = Inr acc"
| "capacity_loop lg d (ch # chs) acc =
     (case channel_capacity_mbps lg ch d of
        Inl e \<Rightarrow> Inl e
      | Inr (Some c) \<Rightarrow> capacity_loop lg d chs (fst acc @ [c], snd acc)
      | Inr None \<Rightarrow>
          (case classify_channel_family d (mo_text ch) of
             Inl e \<Rightarrow> Inl e
           | Inr fam \<Rightarrow> capacity_loop lg d chs (fst acc, tally fam (snd acc))))"

definition snapshot_capacity_of :: "(nat \<Rightarrow> rat) \<Rightarrow> 'i mchan list \<Rightarrow> string \<Rightarrow> snapshot_capacity res" where
  "snapshot_capacity_of lg chs d =
     map_sum id (\<lambda>(caps, fams). \<lparr>sc_capacity = (if caps = [] then None else Some (f_round 1 (f_sum caps))),
        sc_calculated = length caps, sc_total = length chs, sc_unsupported = fams\<rparr>)
       (capacity_loop lg d chs ([], []))"

record capacity_history =
  ch_samples :: nat
  ch_capacities :: "f64 list"
  ch_current :: "f64 option"
  ch_calculated :: nat
  ch_total :: nat
  ch_unsupported :: "(family \<times> nat) list"
  ch_full :: nat

definition no_history :: capacity_history where
  "no_history = \<lparr>ch_samples = 0, ch_capacities = [], ch_current = None, ch_calculated = 0, ch_total = 0, ch_unsupported = [], ch_full = 0\<rparr>"

definition add_tally :: "family \<times> nat \<Rightarrow> (family \<times> nat) list \<Rightarrow> (family \<times> nat) list" where
  "add_tally = (\<lambda>(fam, n) d. dict_set fam (dict_get d fam 0 + n) d)"

definition note_snapshot :: "snapshot_capacity \<Rightarrow> capacity_history \<Rightarrow> capacity_history" where
  "note_snapshot sc h =
     h\<lparr>ch_samples := Suc (ch_samples h), ch_calculated := ch_calculated h + sc_calculated sc, ch_total := ch_total h + sc_total sc,
       ch_unsupported := fold add_tally (sc_unsupported sc) (ch_unsupported h),
       ch_full := (if sc_total sc \<noteq> 0 \<and> sc_calculated sc = sc_total sc then Suc (ch_full h) else ch_full h),
       ch_capacities := (case sc_capacity sc of None \<Rightarrow> ch_capacities h | Some c \<Rightarrow> ch_capacities h @ [c]),
       ch_current := (case sc_capacity sc of None \<Rightarrow> ch_current h | Some c \<Rightarrow> Some c)\<rparr>"

text \<open>The snapshots of the requested day, by their channels; those without channels do not count.\<close>

fun history_loop :: "(nat \<Rightarrow> rat) \<Rightarrow> string \<Rightarrow> 'i mchan list list \<Rightarrow> capacity_history \<Rightarrow> capacity_history res" where
  "history_loop lg d [] h = Inr h"
| "history_loop lg d (chs # snaps) h =
     (if chs = [] then history_loop lg d snaps h
      else case snapshot_capacity_of lg chs d of
        Inl e \<Rightarrow> Inl e
      | Inr sc \<Rightarrow> history_loop lg d snaps (note_snapshot sc h))"

record capacity_summary =
  cs_history :: capacity_history
  cs_min :: "f64 option"
  cs_avg :: "f64 option"
  cs_max :: "f64 option"
  cs_unsupported :: nat
  cs_coverage :: rat
  cs_status :: string

definition summarise_capacity :: "capacity_history \<Rightarrow> capacity_summary" where
  "summarise_capacity h =
     (let cs = ch_capacities h; opt = (\<lambda>v. if cs = [] then None else Some (f_round 1 v)) in
      \<lparr>cs_history = h, cs_min = opt (f_min (hd cs) (tl cs)), cs_avg = opt (f_scale (1 / of_nat (length cs)) (f_sum cs)),
       cs_max = opt (f_max (hd cs) (tl cs)), cs_unsupported = ch_total h - ch_calculated h,
       cs_coverage = (if ch_total h = 0 then 0 else rnd 1 (fl (fl (of_nat (ch_calculated h) / of_nat (ch_total h)) * 100))),
       cs_status = (if cs = [] then ''unavailable'' else ''observed'')\<rparr>)"

definition capacity_history_for ::
  "(nat \<Rightarrow> rat) \<Rightarrow> string \<Rightarrow> 'i mchan list list \<Rightarrow> capacity_summary res" where
  "capacity_history_for lg d snaps = map_sum id summarise_capacity (history_loop lg d snaps no_history)"

section \<open>Health indices\<close>

text \<open>\<^verbatim>\<open>max(0, min(100, x))\<close>.\<close>

definition clamp100 :: "f64 \<Rightarrow> f64" where
  "clamp100 x = (let y = (if f_lt x (Fin 100) then x else Fin 100) in if f_lt (Fin 0) y then y else Fin 0)"

text \<open>\<^verbatim>\<open>100 * (bits - 2) / denominator\<close>, in floats.\<close>

definition index_of :: "f64 \<Rightarrow> rat \<Rightarrow> f64" where
  "index_of bits denominator = f_scale (1 / denominator) (f_scale 100 (f_sub bits (Fin 2)))"

definition health_index_for_group :: "(nat \<Rightarrow> rat) \<Rightarrow> (string \<times> nat option) list \<Rightarrow> string \<Rightarrow> string \<Rightarrow> f64 option res" where
  "health_index_for_group lg observations direction version =
     (let numeric = somes (map snd observations) in
      if numeric = [] then Inr None
      else (let max_qam = dict_get MAX_QAM (direction, version) 4096; denominator = fl (lg max_qam - 2) in
        if denominator \<le> 0 then Inr (Some (Fin 100))
        else map_sum id (\<lambda>bits. Some (f_round 1 (clamp100
               (index_of (f_scale (1 / of_nat (length numeric)) (f_sum (map Fin bits))) denominator))))
             (mapM_res (py_log2 lg) numeric)))"

definition baseline_score :: "(nat \<Rightarrow> rat) \<Rightarrow> ('i \<times> nat) list \<Rightarrow> 'i \<times> nat \<Rightarrow> f64 res" where
  "baseline_score lg baselines = (\<lambda>(cid, qam).
     (let b = dict_get baselines cid 0; baseline_qam = (if b = 0 then qam else b);
          denominator = fl (lg (max baseline_qam 4) - 2)
      in if denominator \<le> 0 then Inr (Fin 100)
         else map_sum id (\<lambda>bits. clamp100 (index_of (Fin bits) denominator)) (py_log2 lg qam)))"

definition health_index_for_channel_baselines ::
  "(nat \<Rightarrow> rat) \<Rightarrow> ('i option \<times> string \<times> nat option) list \<Rightarrow> ('i \<times> nat) list \<Rightarrow> f64 option res" where
  "health_index_for_channel_baselines lg observations baselines =
     (let numeric = somes (map (\<lambda>(c, l, q). case (c, q) of (Some i, Some n) \<Rightarrow> Some (i, n) | _ \<Rightarrow> None) observations) in
      if numeric = [] then Inr None
      else map_sum id (\<lambda>scores. Some (f_round 1 (f_scale (1 / of_nat (length scores)) (f_sum scores))))
             (mapM_res (baseline_score lg baselines) numeric))"

section \<open>Distributions\<close>

definition pct1 :: "nat \<Rightarrow> nat \<Rightarrow> rat" where
  "pct1 n tot = rnd 1 (fl (fl (of_nat n / of_nat tot) * 100))"

definition weighted_pct_from_counts :: "nat \<Rightarrow> nat \<Rightarrow> rat" where
  "weighted_pct_from_counts low tot = (if tot = 0 then 0 else pct1 low tot)"

definition label_counts :: "(string \<times> nat option) list \<Rightarrow> (string \<times> nat) list" where
  "label_counts observations = fold (\<lambda>(l, q). tally l) observations []"

definition distribution_pct :: "(string \<times> nat option) list \<Rightarrow> (string \<times> rat) list" where
  "distribution_pct observations =
     map (\<lambda>(l, n). (l, pct1 n (length observations))) (sort_key fst (label_counts observations))"

definition low_qam_counts :: "(string \<times> nat option) list \<Rightarrow> nat \<Rightarrow> nat \<times> nat" where
  "low_qam_counts observations threshold =
     (let numeric = somes (map snd observations) in (length (filter (\<lambda>q. q \<le> threshold) numeric), length numeric))"

section \<open>One protocol group\<close>

text \<open>The days: local date and the channel lists of its snapshots, in order of appearance.\<close>

type_synonym 'i days = "(string \<times> 'i mchan list list) list"

definition of_version :: "string \<Rightarrow> 'i mchan list \<Rightarrow> 'i mchan list" where
  "of_version v chs = filter (\<lambda>ch. mo_version ch = v) chs"

definition channel_baselines :: "'i days \<Rightarrow> string \<Rightarrow> ('i \<times> nat) list" where
  "channel_baselines days v =
     fold (\<lambda>ch b. case (mo_ident ch, snd (mo_label ch)) of
         (Some i, Some q) \<Rightarrow> dict_set i (max (dict_get b i 0) q) b
       | _ \<Rightarrow> b)
       (of_version v (concat (concat (map snd days)))) []"

definition low_channel :: "nat \<Rightarrow> 'i mchan \<Rightarrow> bool" where
  "low_channel threshold ch = (case snd (mo_label ch) of None \<Rightarrow> False | Some q \<Rightarrow> q \<le> threshold)"

text \<open>Channels count by their id here, while the group counts them by their identity.\<close>

definition degraded_channels :: "'i mchan list list \<Rightarrow> string \<Rightarrow> nat \<Rightarrow> nat" where
  "degraded_channels groups v threshold = card (mo_id ` set (filter (low_channel threshold) (of_version v (concat groups))))"

record mod_day =
  da_date :: string
  da_health :: "f64 option"
  da_low_pct :: rat
  da_distribution :: "(string \<times> rat) list"
  da_degraded :: nat
  da_samples :: nat
  da_numeric :: nat
  da_low :: nat

record mod_group =
  gr_version :: string
  gr_max_qam :: nat
  gr_channels :: nat
  gr_health :: "f64 option"
  gr_low_pct :: rat
  gr_dominant :: "string option"
  gr_degraded :: nat
  gr_distribution :: "(string \<times> rat) list"
  gr_samples :: nat
  gr_numeric :: nat
  gr_low :: nat
  gr_days :: "mod_day list"

definition health_of_channels :: "(nat \<Rightarrow> rat) \<Rightarrow> string \<Rightarrow> string \<Rightarrow> ('i \<times> nat) list \<Rightarrow> 'i mchan list \<Rightarrow> f64 option res" where
  "health_of_channels lg direction v baselines chs =
     (if direction = ''ds''
      then health_index_for_channel_baselines lg (map (\<lambda>ch. (mo_ident ch, mo_label ch)) chs) baselines
      else health_index_for_group lg (map mo_label chs) direction v)"

definition dominant :: "(string \<times> rat) list \<Rightarrow> string option" where
  "dominant shares = (case shares of [] \<Rightarrow> None | x # xs \<Rightarrow> Some (fst (first_max snd x xs)))"

definition mod_day_of ::
  "(nat \<Rightarrow> rat) \<Rightarrow> string \<Rightarrow> string \<Rightarrow> nat \<Rightarrow> ('i \<times> nat) list \<Rightarrow> string \<times> 'i mchan list list \<Rightarrow> mod_day option res" where
  "mod_day_of lg direction v threshold baselines = (\<lambda>(date, groups).
     (let chs = of_version v (concat groups); obs = map mo_label chs; (low, numeric) = low_qam_counts obs threshold in
      if obs = [] then Inr None
      else map_sum id (\<lambda>hi. Some \<lparr>da_date = date, da_health = hi, da_low_pct = weighted_pct_from_counts low (length obs),
             da_distribution = distribution_pct obs, da_degraded = degraded_channels groups v threshold,
             da_samples = length obs, da_numeric = numeric, da_low = low\<rparr>)
           (health_of_channels lg direction v baselines chs)))"

text \<open>The identities are sorted at the end, which raises when a missing one is among others.\<close>

definition build_protocol_group ::
  "(nat \<Rightarrow> rat) \<Rightarrow> string \<Rightarrow> string \<Rightarrow> nat \<Rightarrow> 'i days \<Rightarrow> mod_group res" where
  "build_protocol_group lg v direction dflt days =
     (let threshold = degraded_qam_threshold direction v dflt; baselines = channel_baselines days v;
          chs = of_version v (concat (concat (map snd days))); obs = map mo_label chs;
          (low, numeric) = low_qam_counts obs threshold; shares = distribution_pct obs
      in res_bind (mapM_res (mod_day_of lg direction v threshold baselines) days) (\<lambda>ds.
         map_sum id (\<lambda>hi.
           \<lparr>gr_version = v, gr_max_qam = dict_get MAX_QAM (direction, v) 4096, gr_channels = card (mo_ident ` set chs),
            gr_health = hi, gr_low_pct = weighted_pct_from_counts low (length obs), gr_dominant = dominant shares,
            gr_degraded = degraded_channels (concat (map snd days)) v threshold, gr_distribution = shares,
            gr_samples = length obs, gr_numeric = numeric, gr_low = low, gr_days = somes ds\<rparr>)
         (res_bind (health_of_channels lg direction v baselines chs)
           (\<lambda>hi. if None \<in> mo_ident ` set chs \<and> mo_ident ` set chs \<noteq> {None} then Inl TypeError else Inr hi))))"

section \<open>The overview\<close>

record 'i msnap =
  ms_time :: string
  ms_ds :: "'i mchan list"
  ms_us :: "'i mchan list"

definition snap_channels :: "string \<Rightarrow> 'i msnap \<Rightarrow> 'i mchan list" where
  "snap_channels direction s = (if direction = ''us'' then ms_us s else ms_ds s)"

text \<open>\<open>loc\<close> turns the time stamp into local time, whose first ten characters are the date.\<close>

definition snaps_by_date :: "(string \<Rightarrow> string) \<Rightarrow> string \<Rightarrow> 'i msnap list \<Rightarrow> 'i days" where
  "snaps_by_date loc direction snaps =
     sort_key fst (map (\<lambda>(date, ss). (date, map (snap_channels direction) ss))
       (group_by (\<lambda>s. take 10 (loc (ms_time s))) [] (filter (\<lambda>s. snap_channels direction s \<noteq> []) snaps)))"

definition mod_versions :: "'i days \<Rightarrow> string list" where
  "mod_versions days = sort (remdups (map mo_version (concat (concat (map snd days)))))"

definition weighted_avg :: "(f64 \<times> nat) list \<Rightarrow> f64 option" where
  "weighted_avg vs =
     (let w = sum_list (map snd vs) in
      if w = 0 then None else Some (f_scale (1 / of_nat w) (f_sum (map (\<lambda>(v, n). f_scale (of_nat n) v) vs))))"

record mod_overview =
  ov_groups :: "mod_group list"
  ov_health :: "f64 option"
  ov_low_pct :: rat
  ov_snapshots :: nat

definition compute_distribution_v2 ::
  "(nat \<Rightarrow> rat) \<Rightarrow> (string \<Rightarrow> string) \<Rightarrow> 'i msnap list \<Rightarrow> string \<Rightarrow> nat \<Rightarrow> mod_overview res" where
  "compute_distribution_v2 lg loc snaps direction dflt =
     (let days = snaps_by_date loc direction snaps in
      if days = [] then Inr \<lparr>ov_groups = [], ov_health = None, ov_low_pct = 0, ov_snapshots = 0\<rparr>
      else map_sum id (\<lambda>gs.
        \<lparr>ov_groups = gs,
         ov_health = map_option (f_round 1)
           (weighted_avg (somes (map (\<lambda>g. map_option (\<lambda>h. (h, gr_channels g)) (gr_health g)) gs))),
         ov_low_pct = rnd 1 (weighted_pct_from_counts (sum_list (map gr_low gs)) (sum_list (map gr_samples gs))),
         ov_snapshots = sum_list (map (length \<circ> snd) days)\<rparr>)
       (mapM_res (\<lambda>v. build_protocol_group lg v direction dflt days) (mod_versions days)))"

section \<open>One day, per channel\<close>

type_synonym observation = "string \<times> string \<times> nat option"

record period =
  pe_start :: string
  pe_end :: string
  pe_label :: string
  pe_qam :: "nat option"
  pe_count :: nat

fun period_loop :: "period \<Rightarrow> observation list \<Rightarrow> period list" where
  "period_loop p [] = [p]"
| "period_loop p ((t, l, q) # os) =
     (if l = pe_label p then period_loop (p\<lparr>pe_end := t, pe_count := Suc (pe_count p)\<rparr>) os
      else p # period_loop \<lparr>pe_start = t, pe_end = t, pe_label = l, pe_qam = q, pe_count = 1\<rparr> os)"

definition modulation_periods :: "observation list \<Rightarrow> period list" where
  "modulation_periods timeline = (case timeline of [] \<Rightarrow> []
     | (t, l, q) # os \<Rightarrow> period_loop \<lparr>pe_start = t, pe_end = t, pe_label = l, pe_qam = q, pe_count = 1\<rparr> os)"

fun simplify_loop :: "string \<Rightarrow> observation list \<Rightarrow> (string \<times> string) list" where
  "simplify_loop prev [] = []"
| "simplify_loop prev ((t, l, q) # os) = (if l \<noteq> prev then (t, l) # simplify_loop l os else simplify_loop l os)"

definition simplify_timeline :: "observation list \<Rightarrow> (string \<times> string) list" where
  "simplify_timeline timeline = (case timeline of [] \<Rightarrow> [] | (t, l, q) # os \<Rightarrow> (t, l) # simplify_loop l os)"

definition low_period :: "nat \<Rightarrow> period \<Rightarrow> bool" where
  "low_period threshold p = (case pe_qam p of None \<Rightarrow> False | Some q \<Rightarrow> q \<le> threshold)"

text \<open>\<^verbatim>\<open>round(count / total * 100)\<close>, an integer.\<close>

definition pct0 :: "nat \<Rightarrow> nat \<Rightarrow> int" where
  "pct0 n tot = (if tot = 0 then 0 else rne (fl (fl (of_nat n / of_nat tot) * 100)))"

definition period_hours :: "nat \<Rightarrow> rat" where
  "period_hours n = rnd 1 (of_nat n / 4)"

text \<open>\<^verbatim>\<open>strptime(s, "%H:%M")\<close>: minutes since midnight.\<close>

definition clock_part :: "string \<Rightarrow> nat \<Rightarrow> nat option" where
  "clock_part s bound = (if s \<noteq> [] \<and> length s \<le> 2 \<and> list_all is_digit s \<and> digits_val s < bound then Some (digits_val s) else None)"

definition parse_clock :: "string \<Rightarrow> int option" where
  "parse_clock s = (let h = takeWhile (\<lambda>c. c \<noteq> CHR '':'') s; r = drop (length h) s in
     if r = [] then None
     else case (clock_part h 24, clock_part (tl r) 60) of (Some a, Some b) \<Rightarrow> Some (int (60 * a + b)) | _ \<Rightarrow> None)"

definition event_duration_minutes :: "string \<Rightarrow> string \<Rightarrow> int" where
  "event_duration_minutes a b = (case (parse_clock a, parse_clock b) of
     (Some x, Some y) \<Rightarrow> if y < x then y - x + 24 * 60 else y - x | _ \<Rightarrow> 0)"

record low_event =
  le_start :: string
  le_end :: string
  le_label :: string
  le_qam :: nat
  le_count :: nat
  le_hours :: rat
  le_minutes :: int
  le_pct :: int
  le_point :: bool

definition build_degraded_events :: "period list \<Rightarrow> nat \<Rightarrow> low_event list" where
  "build_degraded_events ps threshold =
     (let tot = sum_list (map pe_count ps) in
      map (\<lambda>p. \<lparr>le_start = pe_start p, le_end = pe_end p, le_label = pe_label p, le_qam = the (pe_qam p), le_count = pe_count p,
             le_hours = period_hours (pe_count p), le_minutes = event_duration_minutes (pe_start p) (pe_end p),
             le_pct = pct0 (pe_count p) tot, le_point = (pe_start p = pe_end p)\<rparr>)
        (filter (low_period threshold) ps))"

text \<open>The summary as its parts: hours, share, label, begin, and the end unless it is one point.\<close>

definition channel_summary :: "period list \<Rightarrow> nat \<Rightarrow> (rat \<times> int \<times> string \<times> string \<times> string option) list" where
  "channel_summary ps threshold =
     (let tot = sum_list (map pe_count ps) in
      map (\<lambda>p. (period_hours (pe_count p), pct0 (pe_count p) tot, pe_label p, pe_start p,
             if pe_start p = pe_end p then None else Some (pe_end p)))
        (filter (low_period threshold) ps))"

fun first_min_event :: "low_event \<Rightarrow> low_event list \<Rightarrow> low_event" where
  "first_min_event e [] = e"
| "first_min_event e (x # xs) =
     first_min_event (if le_qam x < le_qam e \<or> (le_qam x = le_qam e \<and> le_count e < le_count x) then x else e) xs"

definition worst_modulation :: "low_event list \<Rightarrow> string" where
  "worst_modulation es = (case es of [] \<Rightarrow> [] | e # es' \<Rightarrow> le_label (first_min_event e es'))"

record 'i day_channel =
  dc_id :: "'i option"
  dc_frequency :: string
  dc_health :: "f64 option"
  dc_degraded :: bool
  dc_summary :: "(rat \<times> int \<times> string \<times> string \<times> string option) list"
  dc_events :: "low_event list"
  dc_low_pct :: int
  dc_worst :: string
  dc_timeline :: "(string \<times> string) list"

record channel_data =
  cd_version :: string
  cd_freq :: string
  cd_timeline :: "observation list"

text \<open>The snapshots of the day: local hour and minute, and the channels; sorted by time.\<close>

definition day_snapshots :: "(string \<Rightarrow> string) \<Rightarrow> string \<Rightarrow> string \<Rightarrow> 'i msnap list \<Rightarrow> (string \<times> 'i mchan list) list" where
  "day_snapshots loc direction date snaps =
     sort_key fst (map (\<lambda>s. (take 5 (drop 11 (loc (ms_time s))), snap_channels direction s))
       (filter (\<lambda>s. take 10 (loc (ms_time s)) = date \<and> snap_channels direction s \<noteq> []) snaps))"

definition observe :: "string \<times> 'i mchan \<Rightarrow> ('i option \<times> channel_data) list \<Rightarrow> ('i option \<times> channel_data) list" where
  "observe = (\<lambda>(t, ch) d.
     (let old = dict_get d (mo_id ch) \<lparr>cd_version = mo_version ch,
            cd_freq = (case mo_text ch ''frequency'' of None \<Rightarrow> [] | Some f \<Rightarrow> f), cd_timeline = []\<rparr>
      in dict_set (mo_id ch) (old\<lparr>cd_timeline := cd_timeline old @ [(t, mo_label ch)]\<rparr>) d))"

definition channel_timelines :: "(string \<times> 'i mchan list) list \<Rightarrow> ('i option \<times> channel_data) list" where
  "channel_timelines snaps = fold observe (concat (map (\<lambda>(t, chs). map (Pair t) chs) snaps)) []"

definition day_channel_of ::
  "(nat \<Rightarrow> rat) \<Rightarrow> string \<Rightarrow> nat \<Rightarrow> 'i option \<times> channel_data \<Rightarrow> 'i day_channel res" where
  "day_channel_of lg direction dflt = (\<lambda>(cid, cd).
     (let timeline = cd_timeline cd; v = cd_version cd; ps = modulation_periods timeline;
          obs = map snd timeline; qams = somes (map snd obs); threshold = degraded_qam_threshold direction v dflt;
          events = build_degraded_events ps threshold
      in map_sum id (\<lambda>hi.
           \<lparr>dc_id = cid, dc_frequency = cd_freq cd, dc_health = hi, dc_degraded = (events \<noteq> []),
            dc_summary = channel_summary ps threshold, dc_events = events, dc_low_pct = sum_list (map le_pct events),
            dc_worst = worst_modulation events, dc_timeline = simplify_timeline timeline\<rparr>)
         (if direction = ''ds''
          then health_index_for_channel_baselines lg (map (Pair cid) obs)
                 (case (cid, qams) of (Some i, q # qs) \<Rightarrow> [(i, Max (set (q # qs)))] | _ \<Rightarrow> [])
          else health_index_for_group lg obs direction v)))"

record 'i day_group =
  dg_version :: string
  dg_max_qam :: nat
  dg_channels :: "'i day_channel list"

definition by_channel_id :: "(('i::linorder) option \<times> 'a) list \<Rightarrow> ('i option \<times> 'a) list res" where
  "by_channel_id xs =
     (if None \<in> set (map fst xs) \<and> set (map fst xs) \<noteq> {None} then Inl TypeError else Inr (sort_key (the \<circ> fst) xs))"

definition compute_intraday ::
  "(nat \<Rightarrow> rat) \<Rightarrow> (string \<Rightarrow> string) \<Rightarrow> ('i::linorder) msnap list \<Rightarrow> string \<Rightarrow> string \<Rightarrow> nat \<Rightarrow> 'i day_group list res" where
  "compute_intraday lg loc snaps direction date dflt =
     (let data = channel_timelines (day_snapshots loc direction date snaps) in
      mapM_res (\<lambda>v. res_bind (by_channel_id (filter (\<lambda>x. cd_version (snd x) = v) data)) (\<lambda>chs.
          map_sum id (\<lambda>cs. \<lparr>dg_version = v, dg_max_qam = dict_get MAX_QAM (direction, v) 4096, dg_channels = cs\<rparr>)
            (mapM_res (day_channel_of lg direction dflt) chs)))
        (sort (remdups (map (cd_version \<circ> snd) data))))"

section \<open>Periods\<close>

lemma period_loop_labels:
  "concat (map (\<lambda>p. replicate (pe_count p) (pe_label p)) (period_loop p os)) = replicate (pe_count p) (pe_label p) @ map (fst \<circ> snd) os"
  by (induction p os rule: period_loop.induct) (auto simp flip: replicate_append_same)

lemma period_loop_head: "\<exists>p' ps. period_loop p os = p' # ps \<and> pe_label p' = pe_label p"
  by (induction p os rule: period_loop.induct) auto

fun neighbours_differ :: "string list \<Rightarrow> bool" where
  "neighbours_differ (a # b # xs) = (a \<noteq> b \<and> neighbours_differ (b # xs))"
| "neighbours_differ _ = True"

lemma period_loop_differ: "neighbours_differ (map pe_label (period_loop p os))"
proof (induction p os rule: period_loop.induct)
  case (2 p t l q os)
  let ?p = "\<lparr>pe_start = t, pe_end = t, pe_label = l, pe_qam = q, pe_count = 1\<rparr>"
  obtain p' ps where "period_loop ?p os = p' # ps" "pe_label p' = l"
    using period_loop_head [of ?p os] by (simp, blast)
  with 2 show ?case by (cases "l = pe_label p") auto
qed simp

lemma period_loop_simplify:
  "map (\<lambda>p. (pe_start p, pe_label p)) (period_loop p os) = (pe_start p, pe_label p) # simplify_loop (pe_label p) os"
  by (induction p os rule: period_loop.induct) auto

text \<open>
  The periods of a timeline are its run-length encoding: written out, their labels are the
  labels observed, one by one; neighbouring periods differ; and the timeline reduced to its
  changes is exactly the beginnings of the periods with their labels.
\<close>

theorem periods_are_runs:
  "concat (map (\<lambda>p. replicate (pe_count p) (pe_label p)) (modulation_periods timeline)) = map (fst \<circ> snd) timeline
   \<and> neighbours_differ (map pe_label (modulation_periods timeline))
   \<and> simplify_timeline timeline = map (\<lambda>p. (pe_start p, pe_label p)) (modulation_periods timeline)"
  by (cases timeline)
    (auto simp: modulation_periods_def simplify_timeline_def period_loop_labels period_loop_differ period_loop_simplify)

subsection \<open>Exposure\<close>

text \<open>A label determines the order of the modulation.\<close>

lemma label_order:
  "snd (canonical_modulation_label m) = (let l = fst (canonical_modulation_label m) in
     if \<exists>n. l = nat_str n @ ''QAM'' then Some (THE n. l = nat_str n @ ''QAM'') else None)"
proof -
  have digit: "is_digit (hd (nat_str n))" "nat_str n \<noteq> []" for n
    using nat_str_digits [of n] by (cases "nat_str n"; simp)+
  have no: "s \<noteq> nat_str n @ ''QAM''" if "s = [] \<or> \<not> is_digit (hd s)" for s n
    using digit [of n] that by (cases "nat_str n") auto
  have u: "\<not> is_digit CHR ''U''" "\<not> is_digit CHR ''O''" by code_simp+
  show ?thesis
    by (auto simp: canonical_modulation_label_def Let_def nat_str_inj no u split: option.splits)
qed

lemma label_determines:
  "fst (canonical_modulation_label a) = fst (canonical_modulation_label b) \<Longrightarrow>
    snd (canonical_modulation_label a) = snd (canonical_modulation_label b)"
  by (simp only: label_order)

definition labelled :: "observation \<Rightarrow> bool" where
  "labelled ob \<longleftrightarrow> (\<exists>m. snd ob = canonical_modulation_label m)"

definition low_obs :: "nat \<Rightarrow> observation \<Rightarrow> bool" where
  "low_obs threshold ob = (case snd (snd ob) of None \<Rightarrow> False | Some q \<Rightarrow> q \<le> threshold)"

lemma period_loop_low:
  assumes "list_all labelled os" and "\<exists>m. (pe_label p, pe_qam p) = canonical_modulation_label m"
  shows "sum_list (map pe_count (filter (low_period threshold) (period_loop p os)))
    = (if low_period threshold p then pe_count p else 0) + length (filter (low_obs threshold) os)"
  using assms
proof (induction p os rule: period_loop.induct)
  case (2 p t l q os)
  obtain m where m: "(l, q) = canonical_modulation_label m" using "2.prems"(1) by (auto simp: labelled_def)
  obtain k where k: "(pe_label p, pe_qam p) = canonical_modulation_label k" using "2.prems"(2) by blast
  have os: "list_all labelled os" using "2.prems"(1) by simp
  show ?case
  proof (cases "l = pe_label p")
    case True
    then have "q = pe_qam p" using label_determines [of m k] m k by (metis fst_conv snd_conv)
    then have same: "low_obs threshold (t, l, q) = low_period threshold p"
      "low_period threshold (p\<lparr>pe_end := t, pe_count := Suc (pe_count p)\<rparr>) = low_period threshold p"
      by (simp_all add: low_period_def low_obs_def)
    have "\<exists>m. (pe_label (p\<lparr>pe_end := t, pe_count := Suc (pe_count p)\<rparr>), pe_qam (p\<lparr>pe_end := t, pe_count := Suc (pe_count p)\<rparr>)) = canonical_modulation_label m"
      using k by auto
    from "2.IH"(1) [OF True os this] True same show ?thesis by simp
  next
    case False
    let ?p = "\<lparr>pe_start = t, pe_end = t, pe_label = l, pe_qam = q, pe_count = 1\<rparr>"
    have same: "low_obs threshold (t, l, q) = low_period threshold ?p" by (simp add: low_period_def low_obs_def)
    have "\<exists>m. (pe_label ?p, pe_qam ?p) = canonical_modulation_label m" using m by auto
    from "2.IH"(2) [OF False os this] False same show ?thesis by simp
  qed
qed simp

text \<open>
  The degraded events of a channel count every observation at or below the threshold exactly
  once: their counts add up to the low observations of its timeline.
\<close>

theorem degraded_events_cover_low:
  assumes "list_all labelled timeline"
  shows "sum_list (map le_count (build_degraded_events (modulation_periods timeline) threshold)) = length (filter (low_obs threshold) timeline)"
proof -
  have "sum_list (map le_count (build_degraded_events ps threshold)) = sum_list (map pe_count (filter (low_period threshold) ps))" for ps
    by (simp add: build_degraded_events_def Let_def comp_def)
  moreover have "sum_list (map pe_count (filter (low_period threshold) (modulation_periods timeline))) = length (filter (low_obs threshold) timeline)"
    using assms period_loop_low
    by (cases timeline) (force simp: modulation_periods_def labelled_def low_period_def low_obs_def)+
  ultimately show ?thesis by simp
qed

lemma low_obs_label:
  "canonical_modulation_label (Some ''16QAM'') = (''16QAM'', Some 16)" "canonical_modulation_label (Some ''64QAM'') = (''64QAM'', Some 64)"
  by code_simp+

lemma degraded_events_cover_low_witness:
  "sum_list (map le_count (build_degraded_events (modulation_periods
     [(''10:00'', ''16QAM'', Some 16), (''10:15'', ''64QAM'', Some 64), (''10:30'', ''16QAM'', Some 16)]) 16)) = 2"
proof -
  have "list_all labelled [(''10:00'', ''16QAM'', Some 16), (''10:15'', ''64QAM'', Some 64), (''10:30'', ''16QAM'', Some 16)]"
    by (simp add: labelled_def) (metis low_obs_label)
  from degraded_events_cover_low [OF this, of 16] show ?thesis by (simp add: low_obs_def)
qed

text \<open>Periods of one observation.\<close>

lemma period_loop_single:
  assumes "neighbours_differ (pe_label p # map (fst \<circ> snd) os)" and "pe_count p = Suc 0"
  shows "list_all (\<lambda>p. pe_count p = Suc 0) (period_loop p os)"
  using assms by (induction p os rule: period_loop.induct) auto

lemma pct0_small:
  assumes "256 \<le> tot"
  shows "pct0 1 tot = 0"
proof -
  have "(1 :: rat) / of_nat tot \<le> 1 / 256" using assms by (intro divide_left_mono) auto
  then have "fl (1 / of_nat tot) \<le> 1 / 256" by (rule fl_le_exact) (use fl_div_pow2 [of 1 8] in simp)
  then have "fl (1 / of_nat tot) * 100 \<le> 25 / 64" by simp
  then have hi: "fl (fl (1 / of_nat tot) * 100) \<le> 25 / 64" by (rule fl_le_exact) (use fl_div_pow2 [of 25 6] in simp)
  have "0 \<le> fl (fl (1 / of_nat tot) * 100)" by (intro fl_nonneg mult_nonneg_nonneg) (auto intro: fl_nonneg)
  with hi have "rne (fl (fl (1 / of_nat tot) * 100)) = 0" by (intro rne_unique) simp
  with assms show ?thesis by (simp add: pct0_def)
qed

text \<open>
  The share of low samples of a channel is the sum of the shares of its periods, each rounded
  to a whole percent first: on a day with at least 256 samples a channel whose modulation changes
  with every sample shows zero percent, however many of its samples are low.
\<close>

theorem flapping_share_vanishes:
  assumes "256 \<le> length timeline" and "neighbours_differ (map (fst \<circ> snd) timeline)"
  shows "sum_list (map le_pct (build_degraded_events (modulation_periods timeline) threshold)) = 0"
proof -
  let ?ps = "modulation_periods timeline"
  have one: "list_all (\<lambda>p. pe_count p = 1) ?ps"
    using assms(2) by (cases timeline) (auto simp: modulation_periods_def intro!: period_loop_single)
  have "sum_list (map pe_count ?ps) = length (concat (map (\<lambda>p. replicate (pe_count p) (pe_label p)) ?ps))"
    by (simp add: length_concat comp_def)
  also have "concat (map (\<lambda>p. replicate (pe_count p) (pe_label p)) ?ps) = map (fst \<circ> snd) timeline"
    by (cases timeline) (auto simp: modulation_periods_def period_loop_labels)
  finally have "256 \<le> sum_list (map pe_count ?ps)" using assms(1) by simp
  then have "pct0 (pe_count p) (sum_list (map pe_count ?ps)) = 0" if "p \<in> set ?ps" for p
    using one that pct0_small by (simp add: list_all_iff)
  then have "map le_pct (build_degraded_events ?ps threshold) = map (\<lambda>_. 0) (filter (low_period threshold) ?ps)"
    by (simp add: build_degraded_events_def Let_def)
  then show ?thesis by simp
qed

definition flapping_day :: "nat \<Rightarrow> observation list" where
  "flapping_day n = concat (replicate n [(''10:00'', ''16QAM'', Some 16), (''10:01'', ''64QAM'', Some 64)])"

lemma flapping_day_shape:
  "length (flapping_day n) = 2 * n \<and> neighbours_differ (''64QAM'' # map (fst \<circ> snd) (flapping_day n))
    \<and> length (filter (low_obs 16) (flapping_day n)) = n"
  by (induction n) (simp_all add: flapping_day_def low_obs_def)

lemma flapping_share_vanishes_witness:
  "length (filter (low_obs 16) (flapping_day 128)) = 128 \<and> length (flapping_day 128) = 256
   \<and> sum_list (map le_pct (build_degraded_events (modulation_periods (flapping_day 128)) 16)) = 0"
proof -
  have "neighbours_differ (map (fst \<circ> snd) (flapping_day 128))"
    using flapping_day_shape [of 128] by (cases "map (fst \<circ> snd) (flapping_day 128)") auto
  then show ?thesis using flapping_share_vanishes [of "flapping_day 128" 16] flapping_day_shape [of 128] by simp
qed

section \<open>Bounds of the health index\<close>

lemma rnd1_pct: "0 \<le> x \<Longrightarrow> x \<le> 100 \<Longrightarrow> 0 \<le> rnd 1 x \<and> rnd 1 x \<le> 100"
  using rnd_mono [of 0 x 1] rnd_mono [of x 100 1] rnd_of_int [of 100 1] rnd_of_int [of 0 1] by simp

lemma f_round_pct:
  assumes "0 \<le> x" and "x \<le> 100"
  shows "f_round 1 (Fin x) = Fin (rnd 1 x)"
proof -
  have "0 \<le> rne (x * 10)" "rne (x * 10) \<le> 1000"
    using rne_mono [of 0 "x * 10"] rne_le_iff_int [of "x * 10" 1000] assms by simp_all
  then have "\<bar>of_int (rne (x * 10)) / 10 :: rat\<bar> \<le> 2 ^ 53" by simp
  then show ?thesis by (simp add: rnd_def f64_of_bounded)
qed

lemma clamp100_range: "\<exists>r. clamp100 x = Fin r \<and> 0 \<le> r \<and> r \<le> 100"
  by (cases x) (auto simp: clamp100_def Let_def)

text \<open>
  Whatever the modulations and whatever the logarithm returns, a health index of a protocol
  group is a finite number between 0 and 100.
\<close>

theorem group_health_bounded:
  assumes "health_index_for_group lg observations direction version = Inr (Some h)"
  shows "\<exists>r. h = Fin r \<and> 0 \<le> r \<and> r \<le> 100"
proof -
  have "h = Fin 100 \<or> (\<exists>x. h = f_round 1 (clamp100 x))"
    using assms by (auto simp: health_index_for_group_def Let_def map_sum_Inr_iff split: if_splits)
  then show ?thesis
  proof
    assume "\<exists>x. h = f_round 1 (clamp100 x)"
    then obtain x where h: "h = f_round 1 (clamp100 x)" by blast
    obtain r where r: "clamp100 x = Fin r" "0 \<le> r" "r \<le> 100" using clamp100_range by blast
    show ?thesis unfolding h r(1) f_round_pct [OF r(2,3)] using rnd1_pct [OF r(2,3)] by blast
  qed simp
qed

subsection \<open>Sums of whole numbers are exact\<close>

lemma f64_int: "\<bar>m\<bar> \<le> 2 ^ 53 \<Longrightarrow> f64_of (of_int m) = Fin (of_int m)"
proof -
  assume m: "\<bar>m\<bar> \<le> 2 ^ 53"
  then have "\<bar>of_int m :: rat\<bar> \<le> 2 ^ 53" by (metis of_int_abs of_int_le_iff of_int_numeral of_int_power)
  then show ?thesis using fl_of_int [OF m] by (simp add: f64_of_bounded)
qed

lemma f_add_int: "\<bar>a + b\<bar> \<le> 2 ^ 53 \<Longrightarrow> f_add (Fin (of_int a)) (Fin (of_int b)) = Fin (of_int (a + b))"
  using f64_int [of "a + b"] by simp

lemma f_sub_int: "\<bar>a - b\<bar> \<le> 2 ^ 53 \<Longrightarrow> f_sub (Fin (of_int a)) (Fin (of_int b)) = Fin (of_int (a - b))"
  using f64_int [of "a - b"] by (simp add: f_sub_Fin)

lemma f_sum_loop_ints:
  assumes "0 \<le> a" and "list_all ((\<le>) 0) ns" and "a + sum_list ns \<le> 2 ^ 53"
  shows "f_sum_loop (Fin (of_int a)) (Fin 0) (map (\<lambda>n. Fin (of_int n)) ns) = (Fin (of_int (a + sum_list ns)), Fin 0)"
  using assms
proof (induction ns arbitrary: a)
  case (Cons n ns)
  have n: "0 \<le> n" "0 \<le> sum_list ns" using Cons.prems(2) by (auto simp: list_all_iff intro: sum_list_nonneg)
  have b: "\<bar>a + n\<bar> \<le> 2 ^ 53" "\<bar>a\<bar> \<le> 2 ^ 53" "\<bar>n\<bar> \<le> 2 ^ 53" "0 \<le> a + n" "a + n + sum_list ns \<le> 2 ^ 53"
    using Cons.prems n by (auto simp: algebra_simps)
  have t: "f_add (Fin (of_int a)) (Fin (of_int n)) = Fin (of_int (a + n))" by (rule f_add_int [OF b(1)])
  have z: "f_add (Fin (of_int m)) (Fin (of_int (- m))) = Fin 0" for m
    using f_add_int [of m "- m"] by simp
  have e: "f_add (f_sub (Fin (of_int a)) (Fin (of_int (a + n)))) (Fin (of_int n)) = Fin 0"
    "f_add (f_sub (Fin (of_int n)) (Fin (of_int (a + n)))) (Fin (of_int a)) = Fin 0"
    using f_sub_int [of a "a + n"] f_sub_int [of n "a + n"] z [of "- n"] z [of "- a"] b by simp_all
  have c: "f_add (Fin 0) (Fin 0) = Fin 0" using z [of 0] by simp
  have "f_sum_loop (Fin (of_int a)) (Fin 0) (map (\<lambda>n. Fin (of_int n)) (n # ns))
      = f_sum_loop (Fin (of_int (a + n))) (Fin 0) (map (\<lambda>n. Fin (of_int n)) ns)"
    by (simp only: list.map f_sum_loop.simps Let_def t e c if_cancel)
  with Cons.IH [OF b(4) _ b(5)] Cons.prems(2) show ?case by (simp add: add.assoc)
qed simp

lemma f_sum_ints:
  assumes "list_all ((\<le>) 0) ns" and "sum_list ns \<le> 2 ^ 53"
  shows "f_sum (map (\<lambda>n. Fin (of_int n)) ns) = Fin (of_int (sum_list ns))"
  using f_sum_loop_ints [of 0 ns] assms by (simp add: f_sum_def)

lemma group_health_bounded_witness: "\<exists>r. Fin 100 = Fin r \<and> 0 \<le> r \<and> r \<le> (100 :: rat)"
  by (rule group_health_bounded [of "\<lambda>n. 2" "[(''16QAM'', Some 16)]" "''us''" "''9''"]) (simp add: health_index_for_group_def somes_def MAX_QAM_def dict_get_def)

lemma max_qam_power:
  obtains k where "dict_get MAX_QAM (direction, version) 4096 = 2 ^ k" "2 < k" "k \<le> 12"
proof -
  let ?m = "dict_get MAX_QAM (direction, version) 4096"
  have "?m \<in> {256, 4096, 64, 1024}" by (auto simp: MAX_QAM_def dict_get_def)
  then have "?m = 2 ^ 8 \<or> ?m = 2 ^ 12 \<or> ?m = 2 ^ 6 \<or> ?m = 2 ^ 10" by auto
  then show ?thesis using that [of 8] that [of 12] that [of 6] that [of 10] by auto
qed

text \<open>
  When every numeric observation of a protocol group is the highest order the group can carry,
  its health index is exactly 100, provided the logarithm is exact on powers of two.
\<close>

theorem full_rate_scores_100:
  assumes lg: "\<And>k. lg (2 ^ k) = of_nat k"
    and num: "somes (map snd observations) = replicate (Suc n) (dict_get MAX_QAM (direction, version) 4096)" and "n < 2 ^ 40"
  shows "health_index_for_group lg observations direction version = Inr (Some (Fin 100))"
proof -
  obtain k where k: "dict_get MAX_QAM (direction, version) 4096 = 2 ^ k" "2 < k" "k \<le> 12" by (rule max_qam_power)
  have bits: "mapM_res (py_log2 lg) (replicate (Suc n) (2 ^ k)) = Inr (replicate (Suc n) (of_nat k))"
  proof -
    have "mapM_res (py_log2 lg) (replicate (Suc n) (2 ^ k)) = Inr (map (\<lambda>_. of_nat k) (replicate (Suc n) (2 ^ k :: nat)))"
      by (rule mapM_res_Inr) (use lg [of k] in \<open>auto simp: py_log2_def simp del: replicate_Suc split: if_splits\<close>)
    then show ?thesis by (simp only: map_replicate)
  qed
  have le: "int k * int (Suc n) \<le> 2 ^ 53"
  proof -
    have "int k * int (Suc n) \<le> 12 * 2 ^ 40" using k(3) assms(3) by (intro mult_mono) auto
    then show ?thesis by simp
  qed
  have "f_sum (map (\<lambda>n. Fin (of_int n)) (replicate (Suc n) (int k))) = Fin (of_int (sum_list (replicate (Suc n) (int k))))"
    by (rule f_sum_ints) (use le in \<open>simp_all add: sum_list_replicate list_all_iff algebra_simps\<close>)
  then have sm: "f_sum (map Fin (replicate (Suc n) (of_nat k))) = Fin (of_int (int k * int (Suc n)))"
    by (simp add: sum_list_replicate mult.commute del: replicate_Suc)
  have mean: "f_scale (1 / of_nat (Suc n)) (Fin (of_int (int k * int (Suc n)))) = Fin (of_nat k)"
    using f64_int [of "int k"] k(3) by simp
  have den: "fl (of_nat k - 2) = (of_nat k - 2 :: rat)" using fl_of_int [of "int k - 2"] k(2,3) by simp
  have sub: "f_sub (Fin (of_nat k)) (Fin 2) = Fin (of_nat k - 2)" using f_sub_int [of "int k" 2] k(2,3) by simp
  have h: "f_scale 100 (Fin (of_nat k - 2)) = Fin (100 * (of_nat k - 2))"
    using f64_int [of "100 * (int k - 2)"] k(2,3) by (simp add: mult.commute)
  have pos: "0 < (of_nat k - 2 :: rat)" using k(2) by simp
  have "100 * (of_nat k - 2) * (1 / (of_nat k - 2)) = (100 :: rat)" using pos by (simp only: mult.assoc) simp
  then have "f_scale (1 / (of_nat k - 2)) (Fin (100 * (of_nat k - 2))) = Fin 100"
    using f64_int [of 100] by (simp only: f_scale.simps) simp
  then have idx: "index_of (Fin (of_nat k)) (of_nat k - 2) = Fin 100" by (simp only: index_of_def sub h)
  have top: "f_round 1 (clamp100 (Fin 100)) = Fin 100"
    using f_round_pct [of 100] rnd_of_int [of 100 1] by (simp only: clamp100_def Let_def) simp
  show ?thesis
    unfolding health_index_for_group_def Let_def num k(1) lg den bits
    using pos by (simp only: sm mean idx top map_sum.simps length_replicate) simp
qed

lemma full_rate_scores_100_witness:
  "health_index_for_group (\<lambda>n. of_nat (blen n) - 1) [(''64QAM'', Some 64), (''OFDMA'', None), (''64QAM'', Some 64)] ''us'' ''3.0'' = Inr (Some (Fin 100))"
proof (rule full_rate_scores_100)
  show "(of_nat (blen (2 ^ k)) - 1 :: rat) = of_nat k" for k
  proof -
    have "blen (2 ^ k) = Suc k" by (induction k) (simp_all add: blen.simps [of "Suc _"] blen.simps)
    then show ?thesis by simp
  qed
  show "somes (map snd [(''64QAM'', Some 64), (''OFDMA'', None), (''64QAM'', Some 64)])
      = replicate (Suc 1) (dict_get MAX_QAM (''us'', ''3.0'') 4096)"
    by (simp add: somes_def MAX_QAM_def dict_get_def)
qed simp

section \<open>The overview counts every observation once\<close>

lemma somes_simps [simp]: "somes [] = []" "somes (None # xs) = somes xs" "somes (Some x # xs) = x # somes xs"
  by (simp_all add: somes_def)

lemma length_somes_le: "length (somes xs) \<le> length xs"
  by (induction xs) (auto simp: somes_def split: option.splits)

lemma low_qam_le: "fst (low_qam_counts obs t) \<le> snd (low_qam_counts obs t) \<and> snd (low_qam_counts obs t) \<le> length obs"
  using length_somes_le [of "map snd obs"] by (simp add: low_qam_counts_def Let_def)

lemma build_group_counts:
  assumes "build_protocol_group lg v direction dflt days = Inr g"
  shows "gr_version g = v \<and> gr_samples g = length (of_version v (concat (concat (map snd days))))
    \<and> gr_low g \<le> gr_numeric g \<and> gr_numeric g \<le> gr_samples g"
  using assms low_qam_le [of "map mo_label (of_version v (concat (concat (map snd days))))" "degraded_qam_threshold direction v dflt"]
  by (auto simp: build_protocol_group_def Let_def case_prod_beta res_bind_Inr_iff map_sum_Inr_iff split: if_splits)

lemma mapM_res_image:
  assumes "mapM_res f xs = Inr ys" and "\<And>x y. f x = Inr y \<Longrightarrow> h y = k x"
  shows "map h ys = map k xs"
  using mapM_res_nth [OF assms(1)] assms(2) by (induction rule: list_all2_induct) auto

lemma sum_versions:
  assumes "distinct vs" and "mo_version ` set chs \<subseteq> set vs"
  shows "sum_list (map (\<lambda>v. length (of_version v chs)) vs) = length chs"
  using assms(2)
proof (induction chs)
  case (Cons ch chs)
  have "sum_list (map (\<lambda>v. length (of_version v (ch # chs))) vs)
      = sum_list (map (\<lambda>v. (if v = mo_version ch then 1 else 0) + length (of_version v chs)) vs)"
    by (rule arg_cong [of _ _ sum_list]) (auto simp: of_version_def)
  also have "\<dots> = sum_list (map (\<lambda>v. if v = mo_version ch then 1 else 0) vs) + sum_list (map (\<lambda>v. length (of_version v chs)) vs)"
    by (rule sum_list_addf)
  also have "sum_list (map (\<lambda>v. if v = mo_version ch then 1 else 0) vs) = (1 :: nat)"
    using assms(1) Cons.prems by (simp add: sum_list_distinct_conv_sum_set)
  finally show ?case using Cons by simp
qed (simp add: of_version_def)

lemma length_mapped_groups:
  "length (concat (concat (map snd (map (\<lambda>(d, ss). (d, map f ss)) gs)))) = sum_list (map (\<lambda>(d, ss). length (concat (map f ss))) gs)"
  by (induction gs) auto

lemma length_groups:
  "length (concat (concat (map snd (map (\<lambda>(d, ss). (d, map f ss)) (group_by k [] xs))))) = length (concat (map f xs))"
  unfolding length_mapped_groups
  using group_by_sum [of "\<lambda>ss. length (concat (map f ss))" "[]" k xs] by simp

lemma length_concat_sort: "length (concat (concat (map snd (sort_key f xs)))) = length (concat (concat (map snd xs)))"
proof -
  have "length (concat (concat (map snd zs))) = sum_list (map (\<lambda>z. length (concat (snd z))) zs)" for zs :: "('x \<times> 'y list list) list"
    by (induction zs) auto
  then show ?thesis using mset_sort [of f xs] by (metis mset_map sum_mset_sum_list)
qed

lemma days_channels:
  "length (concat (concat (map snd (snaps_by_date loc direction snaps)))) = length (concat (map (snap_channels direction) snaps))"
proof -
  have "concat (map (snap_channels direction) (filter (\<lambda>s. snap_channels direction s \<noteq> []) snaps)) = concat (map (snap_channels direction) snaps)"
    by (induction snaps) auto
  then show ?thesis unfolding snaps_by_date_def length_concat_sort length_groups by simp
qed

lemma pct1_range: "n \<le> tot \<Longrightarrow> 0 < tot \<Longrightarrow> 0 \<le> pct1 n tot \<and> pct1 n tot \<le> 100"
proof -
  assume n: "n \<le> tot" "0 < tot"
  have "(of_nat n / of_nat tot :: rat) \<le> 1" "(0 :: rat) \<le> of_nat n / of_nat tot" using n by simp_all
  then have "fl (of_nat n / of_nat tot) \<le> 1" "0 \<le> fl (of_nat n / of_nat tot)"
    by (auto intro: fl_le_exact fl_nonneg)
  then have "fl (fl (of_nat n / of_nat tot) * 100) \<le> 100" "0 \<le> fl (fl (of_nat n / of_nat tot) * 100)"
    by (auto intro: fl_le_exact fl_nonneg)
  then show ?thesis using rnd1_pct by (simp add: pct1_def)
qed

text \<open>
  The overview of a range counts every observed channel exactly once: the samples of its
  protocol groups add up to all channel observations of the range, in each group the low ones
  are among the numeric ones and those among all, and its low share is between 0 and 100.
\<close>

theorem overview_counts_all:
  assumes "compute_distribution_v2 lg loc snaps direction dflt = Inr ov"
  shows "sum_list (map gr_samples (ov_groups ov)) = length (concat (map (snap_channels direction) snaps))
    \<and> list_all (\<lambda>g. gr_low g \<le> gr_numeric g \<and> gr_numeric g \<le> gr_samples g) (ov_groups ov)
    \<and> 0 \<le> ov_low_pct ov \<and> ov_low_pct ov \<le> 100"
proof -
  let ?days = "snaps_by_date loc direction snaps"
  let ?chs = "concat (concat (map snd ?days))"
  show ?thesis
  proof (cases "?days = []")
    case True
    then show ?thesis using assms days_channels [of loc direction snaps] by (auto simp: compute_distribution_v2_def)
  next
    case False
    obtain gs where gs: "mapM_res (\<lambda>v. build_protocol_group lg v direction dflt ?days) (mod_versions ?days) = Inr gs"
      "ov_groups ov = gs" "ov_low_pct ov = rnd 1 (weighted_pct_from_counts (sum_list (map gr_low gs)) (sum_list (map gr_samples gs)))"
      using assms False by (auto simp: compute_distribution_v2_def Let_def map_sum_Inr_iff)
    have "map gr_samples gs = map (\<lambda>v. length (of_version v ?chs)) (mod_versions ?days)"
      by (rule mapM_res_image [OF gs(1)]) (use build_group_counts in blast)
    moreover have "sum_list (map (\<lambda>v. length (of_version v ?chs)) (mod_versions ?days)) = length ?chs"
      by (rule sum_versions) (auto simp: mod_versions_def)
    ultimately have samples: "sum_list (map gr_samples gs) = length (concat (map (snap_channels direction) snaps))"
      by (simp add: days_channels)
    have counts: "gr_low g \<le> gr_numeric g \<and> gr_numeric g \<le> gr_samples g" if "g \<in> set gs" for g
      using mapM_res_nth [OF gs(1)] that build_group_counts by (fastforce simp: list_all2_conv_all_nth in_set_conv_nth)
    have "sum_list (map gr_low gs) \<le> sum_list (map gr_samples gs)"
      by (rule sum_list_mono) (use counts le_trans in blast)
    then have "0 \<le> weighted_pct_from_counts (sum_list (map gr_low gs)) (sum_list (map gr_samples gs))
        \<and> weighted_pct_from_counts (sum_list (map gr_low gs)) (sum_list (map gr_samples gs)) \<le> 100"
      unfolding weighted_pct_from_counts_def using pct1_range by (cases "sum_list (map gr_samples gs) = 0") (simp_all only: if_True if_False, auto)
    then have "0 \<le> ov_low_pct ov \<and> ov_low_pct ov \<le> 100"
      unfolding gs(3) using rnd1_pct by blast
    with samples counts show ?thesis by (simp add: gs(2) list_all_iff)
  qed
qed

definition sample_mchan :: "nat mchan" where
  "sample_mchan = \<lparr>mo_id = Some 3, mo_ident = Some 3, mo_text = (\<lambda>k. if k = ''modulation'' then Some ''16QAM'' else None),
     mo_bitrate = PNone, mo_symbol = PNone\<rparr>"

definition sample_msnap :: "nat msnap" where
  "sample_msnap = \<lparr>ms_time = ''2026-01-01T10:00:00'', ms_ds = [], ms_us = [sample_mchan, sample_mchan]\<rparr>"

lemma sample_overview: "\<exists>ov. compute_distribution_v2 (\<lambda>_. 2) id [sample_msnap] ''us'' 16 = Inr ov"
proof -
  have d: "snaps_by_date id ''us'' [sample_msnap] = [(''2026-01-01'', [[sample_mchan, sample_mchan]])]"
    by (simp add: snaps_by_date_def snap_channels_def sample_msnap_def dict_get_def)
  have v: "mo_version sample_mchan = ''3.0''" by (simp add: mo_version_def sample_mchan_def)
  have l: "mo_label sample_mchan = (''16QAM'', Some 16)"
    by (simp add: mo_label_def mo_modulation_def sample_mchan_def or_text_def text_of_def low_obs_label)
  have vs: "mod_versions [(''2026-01-01'', [[sample_mchan, sample_mchan]])] = [''3.0'']" by (simp add: mod_versions_def v)
  have h: "health_of_channels (\<lambda>_. 2) ''us'' ''3.0'' b [sample_mchan, sample_mchan] = Inr (Some (Fin 100))" for b
    by (simp add: health_of_channels_def health_index_for_group_def l)
  have g: "\<exists>g. build_protocol_group (\<lambda>_. 2) ''3.0'' ''us'' 16 [(''2026-01-01'', [[sample_mchan, sample_mchan]])] = Inr g"
    by (simp add: build_protocol_group_def mod_day_of_def of_version_def v h Let_def case_prod_beta)
  show ?thesis unfolding compute_distribution_v2_def d Let_def vs using g by auto
qed

lemma overview_counts_all_witness:
  "\<exists>ov. compute_distribution_v2 (\<lambda>_. 2) id [sample_msnap] ''us'' 16 = Inr ov \<and> sum_list (map gr_samples (ov_groups ov)) = 2"
proof -
  obtain ov where ov: "compute_distribution_v2 (\<lambda>_. 2) id [sample_msnap] ''us'' 16 = Inr ov" using sample_overview by blast
  from overview_counts_all [OF ov] ov show ?thesis by (auto simp: snap_channels_def sample_msnap_def)
qed

section \<open>Coverage of the capacity\<close>

definition tally_sum :: "(family \<times> nat) list \<Rightarrow> nat" where
  "tally_sum d = sum_list (map snd d)"

lemma tally_sum_add: "distinct (dict_keys d) \<Longrightarrow> tally_sum (dict_set fam (dict_get d fam 0 + n) d) = tally_sum d + n
    \<and> distinct (dict_keys (dict_set fam (dict_get d fam 0 + n) d))"
  using sum_list_dict_set [of d "\<lambda>n. n" fam "dict_get d fam 0 + n"]
  by (auto simp: tally_sum_def dict_get_def case_prod_beta' split: option.splits)

lemma capacity_loop_counts:
  assumes "capacity_loop lg d chs acc = Inr r" and "distinct (dict_keys (snd acc))"
  shows "length (fst r) + tally_sum (snd r) = length (fst acc) + tally_sum (snd acc) + length chs \<and> distinct (dict_keys (snd r))"
  using assms
proof (induction chs arbitrary: acc)
  case (Cons ch chs)
  have t: "tally_sum (tally f (snd acc)) = Suc (tally_sum (snd acc)) \<and> distinct (dict_keys (tally f (snd acc)))" for f
    using tally_sum_add [of "snd acc" f 1] Cons.prems(2) by (simp add: tally_def)
  obtain c where c: "channel_capacity_mbps lg ch d = Inr c" using Cons.prems(1) by (auto split: sum.splits)
  show ?case
  proof (cases c)
    case (Some x)
    with Cons.IH [of "(fst acc @ [x], snd acc)"] Cons.prems c show ?thesis by simp
  next
    case None
    obtain f where f: "classify_channel_family d (mo_text ch) = Inr f"
      using Cons.prems(1) c None by (auto split: sum.splits)
    with Cons.IH [of "(fst acc, tally f (snd acc))"] Cons.prems(1) t [of f] c None show ?thesis by simp
  qed
qed simp

lemma snapshot_counts:
  "snapshot_capacity_of lg chs d = Inr sc \<Longrightarrow> sc_calculated sc + tally_sum (sc_unsupported sc) = sc_total sc \<and> sc_total sc = length chs"
  using capacity_loop_counts [of lg d chs "([], [])"]
  by (auto simp: snapshot_capacity_of_def map_sum_Inr_iff tally_sum_def)

lemma add_tallies: "distinct (dict_keys d) \<Longrightarrow> tally_sum (fold add_tally xs d) = tally_sum d + tally_sum xs
    \<and> distinct (dict_keys (fold add_tally xs d))"
proof (induction xs arbitrary: d)
  case (Cons x xs)
  obtain f n where x: "x = (f, n)" by (cases x)
  show ?case using Cons.IH [of "add_tally x d"] tally_sum_add [OF Cons.prems, of f n]
    by (simp add: x add_tally_def) (simp add: tally_sum_def)
qed (simp add: tally_sum_def)

definition history_ok :: "capacity_history \<Rightarrow> bool" where
  "history_ok h \<longleftrightarrow> ch_calculated h + tally_sum (ch_unsupported h) = ch_total h \<and> distinct (dict_keys (ch_unsupported h))
     \<and> ch_full h \<le> ch_samples h \<and> length (ch_capacities h) \<le> ch_samples h"

lemma note_snapshot_ok:
  assumes "history_ok h" and "sc_calculated sc + tally_sum (sc_unsupported sc) = sc_total sc"
  shows "history_ok (note_snapshot sc h)"
  using assms add_tallies [of "ch_unsupported h" "sc_unsupported sc"]
  by (auto simp: history_ok_def note_snapshot_def split: option.splits)

lemma history_loop_ok:
  assumes "history_loop lg d snaps h = Inr h'" and "history_ok h"
  shows "history_ok h' \<and> ch_total h' = ch_total h + length (concat snaps)"
  using assms
proof (induction lg d snaps h rule: history_loop.induct)
  case (2 lg d chs snaps h)
  show ?case
  proof (cases "chs = []")
    case False
    then obtain sc where sc: "snapshot_capacity_of lg chs d = Inr sc" "history_loop lg d snaps (note_snapshot sc h) = Inr h'"
      using 2(3) by (auto split: sum.splits)
    note c = snapshot_counts [OF sc(1)]
    have "ch_total (note_snapshot sc h) = ch_total h + length chs" using c by (simp add: note_snapshot_def)
    with 2(2) [OF False sc(1) sc(2) note_snapshot_ok [OF 2(4) conjunct1 [OF c]]] show ?thesis by simp
  qed (use 2 in simp)
qed simp

text \<open>
  In the capacity summary of a range every channel of every snapshot counts exactly once,
  as calculated or under the one family that keeps it from being so; the coverage is between 0
  and 100 percent, and no more samples are complete or have a capacity than there are.
\<close>

theorem capacity_covers_all:
  assumes "capacity_history_for lg d snaps = Inr cs"
  shows "ch_calculated (cs_history cs) + tally_sum (ch_unsupported (cs_history cs)) = length (concat snaps)
    \<and> cs_unsupported cs = tally_sum (ch_unsupported (cs_history cs))
    \<and> 0 \<le> cs_coverage cs \<and> cs_coverage cs \<le> 100
    \<and> ch_full (cs_history cs) \<le> ch_samples (cs_history cs) \<and> length (ch_capacities (cs_history cs)) \<le> ch_samples (cs_history cs)"
proof -
  obtain h where h: "history_loop lg d snaps no_history = Inr h" "cs = summarise_capacity h"
    using assms by (auto simp: capacity_history_for_def map_sum_Inr_iff)
  have "history_ok no_history" by (simp add: history_ok_def no_history_def tally_sum_def)
  note ok = history_loop_ok [OF h(1) this]
  then have k: "history_ok h" "ch_total h = length (concat snaps)" by (simp_all add: no_history_def)
  have "0 \<le> cs_coverage cs \<and> cs_coverage cs \<le> 100"
    using pct1_range [of "ch_calculated h" "ch_total h"] k(1) by (auto simp: h(2) summarise_capacity_def Let_def pct1_def history_ok_def)
  with k show ?thesis by (auto simp: h(2) summarise_capacity_def Let_def history_ok_def)
qed

lemma sample_capacity: "\<exists>c. channel_capacity_mbps (\<lambda>_. 2) sample_mchan ''us'' = Inr (Some c)"
proof -
  have f: "sc_qam_capacity_family ''us'' (mo_text sample_mchan) = Inr ''sc_qam''"
    by (simp add: sample_mchan_def) code_simp
  have q: "parse_qam_order (Some (mo_modulation sample_mchan)) = Some 16"
    by (simp add: sample_mchan_def mo_modulation_def or_text_def text_of_def) code_simp
  show ?thesis by (simp add: channel_capacity_mbps_def f q) (simp add: sample_mchan_def capacity_symbol_rate_def py_log2_def)
qed

lemma capacity_covers_all_witness:
  "\<exists>cs. capacity_history_for (\<lambda>_. 2) ''us'' [[sample_mchan], []] = Inr cs
    \<and> ch_calculated (cs_history cs) + tally_sum (ch_unsupported (cs_history cs)) = 1 \<and> cs_coverage cs \<le> 100"
proof -
  obtain c where c: "channel_capacity_mbps (\<lambda>_. 2) sample_mchan ''us'' = Inr (Some c)" using sample_capacity by blast
  obtain cs where cs: "capacity_history_for (\<lambda>_. 2) ''us'' [[sample_mchan], []] = Inr cs"
    by (simp add: capacity_history_for_def snapshot_capacity_of_def c)
  from capacity_covers_all [OF cs] cs show ?thesis by auto
qed

end
