(* ===== verification/Migrations.thy ===== *)
theory Migrations
  imports Py_Prelude "HOL-Library.Sublist"
begin

text \<open>
  \<^verbatim>\<open>app/storage/migrations.py\<close>, the declarations of \<^verbatim>\<open>app/storage/schema.py\<close> and the
  migrations of the journal: the runner that applies or stamps each step in a transaction of
  its own, and the steps themselves on a model of the schema.  A table is its columns and its
  rows, a row its values in the order of the columns; an index is its name and its table.
  The steps act on the tables only, never on the registry of the runner.  What a failing
  statement raises is kept by its kind, together with the tables as they stand at the raise: what
  the step has changed until then is undone by the transaction, not by the step.  Not kept: the types and constraints of the columns
  (the code relies on them only in the copied attachments, where they are written out),
  views and triggers.
\<close>

section \<open>The database\<close>

datatype sql = Null | IntV int | TextV string | BlobV string

datatype db_error = OperationalError string | IntegrityError string

type_synonym row = "(string \<times> sql) list"

record sql_table =
  cols :: "string list"
  rows :: "row list"

record schema =
  tables :: "(string \<times> sql_table) list"
  indexes :: "(string \<times> string) list"

record database =
  shape :: schema
  registry :: "(string \<times> string) list option"

definition table_exists :: "schema \<Rightarrow> string \<Rightarrow> bool" where
  "table_exists s t \<longleftrightarrow> map_of (tables s) t \<noteq> None"

definition table_columns :: "schema \<Rightarrow> string \<Rightarrow> string list" where
  "table_columns s t = (case map_of (tables s) t of None \<Rightarrow> [] | Some tb \<Rightarrow> cols tb)"

definition rows_of :: "schema \<Rightarrow> string \<Rightarrow> row list" where
  "rows_of s t = (case map_of (tables s) t of None \<Rightarrow> [] | Some tb \<Rightarrow> rows tb)"

abbreviation has_columns :: "string list \<Rightarrow> schema \<Rightarrow> string \<Rightarrow> bool" where
  "has_columns cs s t \<equiv> list_all (\<lambda>c. c \<in> set (table_columns s t)) cs"

definition with_table :: "string \<Rightarrow> sql_table \<Rightarrow> schema \<Rightarrow> schema" where
  "with_table t tb s = s\<lparr>tables := dict_set t tb (tables s)\<rparr>"

text \<open>\<^verbatim>\<open>CREATE TABLE IF NOT EXISTS\<close> and \<^verbatim>\<open>CREATE INDEX IF NOT EXISTS\<close>.\<close>

definition create_table :: "string \<Rightarrow> string list \<Rightarrow> schema \<Rightarrow> schema" where
  "create_table t cs s = (if table_exists s t then s else with_table t \<lparr>cols = cs, rows = []\<rparr> s)"

definition unique_on :: "string list \<Rightarrow> row list \<Rightarrow> bool" where
  "unique_on cs rs = distinct (filter (\<lambda>vs. Null \<notin> set vs) (map (\<lambda>r. map (\<lambda>c. dict_get r c Null) cs) rs))"

definition create_index :: "bool \<Rightarrow> string \<Rightarrow> string \<Rightarrow> string list \<Rightarrow> schema \<Rightarrow> db_error + schema" where
  "create_index unique idx t cs s =
     (if \<not> table_exists s t then Inl (OperationalError ''no such table'')
      else if idx \<in> set (dict_keys (indexes s)) then Inr s
      else if \<not> has_columns cs s t then Inl (OperationalError ''no such column'')
      else if unique \<and> \<not> unique_on cs (rows_of s t) then Inl (IntegrityError ''unique'')
      else Inr (s\<lparr>indexes := indexes s @ [(idx, t)]\<rparr>))"

datatype statement =
    CreateTable string "string list"
  | CreateIndex bool string string "string list"

fun execute :: "statement \<Rightarrow> schema \<Rightarrow> db_error + schema" where
  "execute (CreateTable t cs) s = Inr (create_table t cs s)"
| "execute (CreateIndex unique idx t cs) s = create_index unique idx t cs s"

text \<open>A step that raises leaves the tables as the statements before the raise made them.\<close>

type_synonym step_result = "(db_error \<times> schema) + schema"

fun execute_schema :: "statement list \<Rightarrow> schema \<Rightarrow> step_result" where
  "execute_schema [] s = Inr s"
| "execute_schema (st # sts) s = (case execute st s of Inl e \<Rightarrow> Inl (e, s) | Inr s' \<Rightarrow> execute_schema sts s')"

text \<open>\<^verbatim>\<open>add_column_if_missing\<close>: every row gets the declared default.\<close>

definition add_column :: "string \<Rightarrow> string \<Rightarrow> sql \<Rightarrow> schema \<Rightarrow> schema" where
  "add_column t c dflt s =
     (case map_of (tables s) t of
        None \<Rightarrow> s
      | Some tb \<Rightarrow> with_table t (tb\<lparr>cols := cols tb @ [c], rows := map (\<lambda>r. r @ [(c, dflt)]) (rows tb)\<rparr>) s)"

definition add_column_if_missing :: "string \<Rightarrow> string \<Rightarrow> sql \<Rightarrow> schema \<Rightarrow> schema" where
  "add_column_if_missing t c dflt s =
     (if \<not> table_exists s t \<or> c \<in> set (table_columns s t) then s else add_column t c dflt s)"

text \<open>\<^verbatim>\<open>ALTER TABLE incidents RENAME TO journal_entries\<close> and \<^verbatim>\<open>DROP TABLE\<close>; the indexes follow.\<close>

definition rename_table :: "string \<Rightarrow> string \<Rightarrow> schema \<Rightarrow> schema" where
  "rename_table old new s =
     s\<lparr>tables := map (\<lambda>(t, tb). (if t = old then new else t, tb)) (tables s),
       indexes := map (\<lambda>(idx, t). (idx, if t = old then new else t)) (indexes s)\<rparr>"

definition drop_table :: "string \<Rightarrow> schema \<Rightarrow> schema" where
  "drop_table t s =
     s\<lparr>tables := filter (\<lambda>(t', tb). t' \<noteq> t) (tables s),
       indexes := filter (\<lambda>(idx, t'). t' \<noteq> t) (indexes s)\<rparr>"

section \<open>The runner\<close>

record migration =
  migration_id :: string
  apply_step :: "schema \<Rightarrow> step_result"
  is_applied :: "schema \<Rightarrow> db_error + bool"

definition recorded :: "database \<Rightarrow> string set" where
  "recorded db = (case registry db of None \<Rightarrow> {} | Some reg \<Rightarrow> fst ` set reg)"

definition ensure_registry :: "database \<Rightarrow> database" where
  "ensure_registry db = (if registry db = None then db\<lparr>registry := Some []\<rparr> else db)"

definition record_migration :: "(string \<Rightarrow> string) \<Rightarrow> migration \<Rightarrow> database \<Rightarrow> database" where
  "record_migration clock m db =
     db\<lparr>registry := map_option (\<lambda>reg. reg @ [(migration_id m, clock (migration_id m))]) (registry db)\<rparr>"

text \<open>
  \<^verbatim>\<open>write_transaction\<close> of \<^verbatim>\<open>app/storage/sqlite.py\<close>: the body works on the connection's view, which
  becomes the database at the commit and is dropped by the rollback when the body raises.
  (Opening the connection and the commit itself succeed.)
\<close>

record connection =
  committed :: database
  working :: database

definition begin_immediate :: "database \<Rightarrow> connection" where
  "begin_immediate db = \<lparr>committed = db, working = db\<rparr>"

definition commit_transaction :: "connection \<Rightarrow> connection" where
  "commit_transaction c = c\<lparr>committed := working c\<rparr>"

definition rollback_transaction :: "connection \<Rightarrow> connection" where
  "rollback_transaction c = c\<lparr>working := committed c\<rparr>"

definition write_transaction ::
  "(database \<Rightarrow> database \<times> (db_error + 'a)) \<Rightarrow> database \<Rightarrow> database \<times> (db_error + 'a)" where
  "write_transaction body db =
     (let c = begin_immediate db in
      case body (working c) of
        (d, Inl e) \<Rightarrow> (committed (rollback_transaction (c\<lparr>working := d\<rparr>)), Inl e)
      | (d, Inr x) \<Rightarrow> (committed (commit_transaction (c\<lparr>working := d\<rparr>)), Inr x))"

text \<open>The body of the loop; a step that raises leaves its partial work in the view.\<close>

definition migrate_step :: "(string \<Rightarrow> string) \<Rightarrow> migration \<Rightarrow> database \<Rightarrow> database \<times> (db_error + string list)" where
  "migrate_step clock m db =
     (if migration_id m \<in> recorded db then (db, Inr [])
      else case is_applied m (shape db) of
        Inl e \<Rightarrow> (db, Inl e)
      | Inr True \<Rightarrow> (record_migration clock m db, Inr [migration_id m])
      | Inr False \<Rightarrow>
          (case apply_step m (shape db) of
             Inl (e, s) \<Rightarrow> (db\<lparr>shape := s\<rparr>, Inl e)
           | Inr s \<Rightarrow> (record_migration clock m (db\<lparr>shape := s\<rparr>), Inr [migration_id m])))"

definition migrate :: "(string \<Rightarrow> string) \<Rightarrow> migration \<Rightarrow> database \<Rightarrow> database \<times> (db_error + string list)" where
  "migrate clock m = write_transaction (migrate_step clock m)"

fun migrate_all ::
  "(string \<Rightarrow> string) \<Rightarrow> migration list \<Rightarrow> database \<Rightarrow> database \<times> (db_error + string list)" where
  "migrate_all clock [] db = (db, Inr [])"
| "migrate_all clock (m # ms) db =
     (case migrate clock m db of
        (db', Inl e) \<Rightarrow> (db', Inl e)
      | (db', Inr ids) \<Rightarrow>
          (case migrate_all clock ms db' of
             (db'', Inl e) \<Rightarrow> (db'', Inl e)
           | (db'', Inr ids') \<Rightarrow> (db'', Inr (ids @ ids'))))"

definition run_migrations ::
  "(string \<Rightarrow> string) \<Rightarrow> migration list \<Rightarrow> database \<Rightarrow> database \<times> (db_error + string list)" where
  "run_migrations clock ms db =
     (if ms = [] then (db, Inr [])
      else if registry db \<noteq> None \<and> list_all (\<lambda>m. migration_id m \<in> recorded db) ms then (db, Inr [])
      else migrate_all clock ms (ensure_registry db))"

section \<open>The steps of the core\<close>

definition SCHEMA_VERSION :: int where
  "SCHEMA_VERSION = 2"

definition CORE_SCHEMA :: "statement list" where
  "CORE_SCHEMA =
    [CreateTable ''_docsight_meta'' [''key'', ''value''],
     CreateTable ''snapshots'' [''id'', ''timestamp'', ''summary_json'', ''ds_channels_json'',
       ''us_channels_json'', ''raw_json'', ''analysis_meta_json''],
     CreateTable ''device_state'' [''id'', ''uptime_seconds'', ''sw_version'', ''wan_ipv4'', ''wan_ipv6'',
       ''updated_at''],
     CreateIndex False ''idx_snapshots_ts'' ''snapshots'' [''timestamp''],
     CreateTable ''events'' [''id'', ''timestamp'', ''severity'', ''event_type'', ''message'', ''details'',
       ''acknowledged''],
     CreateIndex False ''idx_events_ts'' ''events'' [''timestamp''],
     CreateIndex False ''idx_events_ack'' ''events'' [''acknowledged''],
     CreateIndex False ''idx_events_type_ts'' ''events'' [''event_type'', ''timestamp''],
     CreateIndex False ''idx_snapshots_ts_id'' ''snapshots'' [''timestamp'', ''id''],
     CreateTable ''weather_data'' [''id'', ''timestamp'', ''temperature'', ''is_demo''],
     CreateIndex False ''idx_weather_ts'' ''weather_data'' [''timestamp''],
     CreateTable ''api_tokens'' [''id'', ''name'', ''token_hash'', ''token_prefix'', ''created_at'',
       ''last_used_at'', ''revoked''],
     CreateTable ''pwa_push_subscriptions'' [''id'', ''endpoint'', ''subscription_json'', ''user_agent'',
       ''created_at'', ''updated_at''],
     CreateIndex False ''idx_pwa_push_subscriptions_updated'' ''pwa_push_subscriptions'' [''updated_at''],
     CreateTable ''smart_capture_executions'' [''id'', ''trigger_event_id'', ''trigger_timestamp'',
       ''trigger_type'', ''action_type'', ''status'', ''fired_at'', ''completed_at'', ''claimed_at'',
       ''attempt_count'', ''last_error'', ''suppression_reason'', ''linked_result_id'', ''details'',
       ''created_at''],
     CreateIndex False ''idx_sc_exec_status'' ''smart_capture_executions'' [''status''],
     CreateIndex False ''idx_sc_exec_created'' ''smart_capture_executions'' [''created_at'']]"

definition SEGMENT_SCHEMA :: "statement list" where
  "SEGMENT_SCHEMA =
    [CreateTable ''segment_utilization'' [''id'', ''timestamp'', ''ds_total'', ''us_total'', ''ds_own'', ''us_own''],
     CreateIndex True ''idx_segment_util_ts'' ''segment_utilization'' [''timestamp''],
     CreateTable ''segment_utilization_events'' [''id'', ''direction'', ''start_ts'', ''end_ts'',
       ''duration_minutes'', ''peak_total'', ''peak_own'', ''peak_neighbor_load'', ''confidence'', ''threshold'',
       ''min_minutes''],
     CreateIndex True ''idx_segment_util_events_key'' ''segment_utilization_events''
       [''direction'', ''start_ts'', ''threshold'', ''min_minutes'']]"

text \<open>The move of the old incidents to the journal.\<close>

definition LEGACY_INCIDENT_COLUMNS :: "string list" where
  "LEGACY_INCIDENT_COLUMNS = [''id'', ''date'', ''title'', ''description'', ''created_at'', ''updated_at'']"

definition ATTACHMENT_COLUMNS :: "string list" where
  "ATTACHMENT_COLUMNS = [''id'', ''incident_id'', ''filename'', ''mime_type'', ''data'', ''created_at'']"

definition JOURNAL_ATTACHMENT_COLUMNS :: "string list" where
  "JOURNAL_ATTACHMENT_COLUMNS = [''id'', ''entry_id'', ''filename'', ''mime_type'', ''data'', ''created_at'']"

definition incidents_migration_applied :: "schema \<Rightarrow> db_error + bool" where
  "incidents_migration_applied s =
     (let title = ''title'' \<in> set (table_columns s ''incidents'');
          journal_exists = table_exists s ''journal_entries''
      in if title \<and> journal_exists then Inr True
         else if title \<and> \<not> has_columns LEGACY_INCIDENT_COLUMNS s ''incidents'' then Inr True
         else Inr (\<not> title))"

text \<open>
  One copied attachment (the insertion of them all is one statement, which leaves the table as it was when
  it fails): its identifier is the integer key of the new table (a null one is
  drawn), every other column of the insertion is declared \<^verbatim>\<open>NOT NULL\<close>.
\<close>

definition int_ids :: "row list \<Rightarrow> int list" where
  "int_ids rs = concat (map (\<lambda>r. case dict_get r ''id'' Null of IntV n \<Rightarrow> [n] | _ \<Rightarrow> []) rs)"

definition fresh_id :: "row list \<Rightarrow> int" where
  "fresh_id rs = fold max (int_ids rs) 0 + 1"

definition attachment_values :: "row \<Rightarrow> row" where
  "attachment_values a =
     [(''id'', dict_get a ''id'' Null), (''entry_id'', dict_get a ''incident_id'' Null),
      (''filename'', dict_get a ''filename'' Null), (''mime_type'', dict_get a ''mime_type'' Null),
      (''data'', dict_get a ''data'' Null), (''created_at'', dict_get a ''created_at'' Null)]"

definition insert_attachment :: "row \<Rightarrow> sql_table \<Rightarrow> db_error + sql_table" where
  "insert_attachment a tb =
     (let vs = attachment_values a;
          put = (\<lambda>n. Inr (tb\<lparr>rows := rows tb @ [map (\<lambda>c. (c, dict_get (dict_set ''id'' (IntV n) vs) c Null)) (cols tb)]\<rparr>))
      in if \<not> set JOURNAL_ATTACHMENT_COLUMNS \<subseteq> set (cols tb) then Inl (OperationalError ''no such column'')
         else if Null \<in> set (map snd (tl vs)) then Inl (IntegrityError ''not null'')
         else case dict_get vs ''id'' Null of
           IntV n \<Rightarrow> if n \<in> set (int_ids (rows tb)) then Inl (IntegrityError ''unique'') else put n
         | Null \<Rightarrow> put (fresh_id (rows tb))
         | _ \<Rightarrow> Inl (IntegrityError ''datatype mismatch''))"

fun insert_attachments :: "row list \<Rightarrow> sql_table \<Rightarrow> db_error + sql_table" where
  "insert_attachments [] tb = Inr tb"
| "insert_attachments (a # as) tb =
     (case insert_attachment a tb of Inl e \<Rightarrow> Inl e | Inr tb' \<Rightarrow> insert_attachments as tb')"

text \<open>\<^verbatim>\<open>incident_id IN (SELECT id FROM journal_entries)\<close>: a null is in no set.\<close>

definition adopted :: "schema \<Rightarrow> row \<Rightarrow> bool" where
  "adopted s a \<longleftrightarrow>
     (let i = dict_get a ''incident_id'' Null
      in i \<noteq> Null \<and> i \<in> set (map (\<lambda>r. dict_get r ''id'' Null) (rows_of s ''journal_entries'')))"

definition move_attachments :: "schema \<Rightarrow> db_error + schema" where
  "move_attachments s =
     (if \<not> table_exists s ''incident_attachments'' \<or> \<not> has_columns ATTACHMENT_COLUMNS s ''incident_attachments''
      then Inr s
      else let as = rows_of s ''incident_attachments''; orphans = filter (\<lambda>a. \<not> adopted s a) as
        in case map_of (tables s) ''journal_attachments'' of
             None \<Rightarrow> Inl (OperationalError ''no such table'')
           | Some tb \<Rightarrow>
               (case insert_attachments (filter (adopted s) as) tb of
                  Inl e \<Rightarrow> Inl e
                | Inr tb' \<Rightarrow>
                    let s' = with_table ''journal_attachments'' tb' s
                    in Inr (if orphans \<noteq> [] then s' else drop_table ''incident_attachments'' s')))"

definition apply_incidents_migration :: "schema \<Rightarrow> step_result" where
  "apply_incidents_migration s =
     (if \<not> has_columns LEGACY_INCIDENT_COLUMNS s ''incidents'' \<or> table_exists s ''journal_entries'' then Inr s
      else let s1 = rename_table ''incidents'' ''journal_entries'' s;
               s2 = create_table ''journal_attachments'' JOURNAL_ATTACHMENT_COLUMNS s1
        in case move_attachments s2 of
             Inl e \<Rightarrow> Inl (e, s2)
           | Inr s3 \<Rightarrow>
               Inr (add_column_if_missing ''journal_entries'' ''icon'' Null
                     (add_column_if_missing ''journal_entries'' ''incident_id'' Null s3)))"

text \<open>The remaining steps.\<close>

definition DEMO_TABLES :: "string list" where
  "DEMO_TABLES = [''snapshots'', ''events'', ''journal_entries'', ''incidents'', ''speedtest_results'',
     ''bqm_graphs'', ''bnetz_measurements'', ''weather_data'']"

definition flag_applied :: "string list \<Rightarrow> schema \<Rightarrow> db_error + bool" where
  "flag_applied ts s = Inr (list_all (\<lambda>t. \<not> table_exists s t \<or> ''is_demo'' \<in> set (table_columns s t)) ts)"

definition apply_flag :: "string list \<Rightarrow> schema \<Rightarrow> step_result" where
  "apply_flag ts s = Inr (fold (\<lambda>t. add_column_if_missing t ''is_demo'' (IntV 0)) ts s)"

definition snapshot_columns_applied :: "schema \<Rightarrow> db_error + bool" where
  "snapshot_columns_applied s =
     Inr (table_columns s ''snapshots'' = [] \<or> has_columns [''analysis_meta_json'', ''raw_json''] s ''snapshots'')"

definition apply_snapshot_columns :: "schema \<Rightarrow> step_result" where
  "apply_snapshot_columns s =
     Inr (add_column_if_missing ''snapshots'' ''raw_json'' Null
           (add_column_if_missing ''snapshots'' ''analysis_meta_json'' Null s))"

definition is_version :: "row \<Rightarrow> bool" where
  "is_version r \<longleftrightarrow> dict_get r ''key'' Null = TextV ''schema_version''"

definition meta_version_applied :: "schema \<Rightarrow> db_error + bool" where
  "meta_version_applied s =
     (if \<not> table_exists s ''_docsight_meta'' then Inr False
      else if \<not> has_columns [''key'', ''value''] s ''_docsight_meta'' then Inl (OperationalError ''no such column'')
      else Inr (case filter is_version (rows_of s ''_docsight_meta'') of
          [] \<Rightarrow> False
        | r # _ \<Rightarrow> dict_get r ''value'' Null = TextV ''2''))"

definition apply_meta_version :: "schema \<Rightarrow> step_result" where
  "apply_meta_version s =
     (case map_of (tables s) ''_docsight_meta'' of
        None \<Rightarrow> Inl (OperationalError ''no such table'', s)
      | Some tb \<Rightarrow>
          if \<not> {''key'', ''value''} \<subseteq> set (cols tb) then Inl (OperationalError ''no such column'', s)
          else Inr (with_table ''_docsight_meta''
            (if list_ex is_version (rows tb)
             then tb\<lparr>rows := map (\<lambda>r. if is_version r then dict_set ''value'' (TextV ''2'') r else r) (rows tb)\<rparr>
             else tb\<lparr>rows := rows tb @
               [map (\<lambda>c. (c, dict_get [(''key'', TextV ''schema_version''), (''value'', TextV ''2'')] c Null)) (cols tb)]\<rparr>) s))"

definition token_scope_applied :: "schema \<Rightarrow> db_error + bool" where
  "token_scope_applied s = Inr (''scope'' \<in> set (table_columns s ''api_tokens''))"

definition apply_token_scope :: "schema \<Rightarrow> step_result" where
  "apply_token_scope s = Inr (add_column_if_missing ''api_tokens'' ''scope'' (TextV ''api'') s)"

definition CORE_MIGRATIONS :: "migration list" where
  "CORE_MIGRATIONS =
    [\<lparr>migration_id = ''core-0001-baseline'', apply_step = execute_schema CORE_SCHEMA, is_applied = (\<lambda>s. Inr False)\<rparr>,
     \<lparr>migration_id = ''core-0002-incidents-to-journal'', apply_step = apply_incidents_migration,
       is_applied = incidents_migration_applied\<rparr>,
     \<lparr>migration_id = ''core-0003-demo-flags'', apply_step = apply_flag DEMO_TABLES, is_applied = flag_applied DEMO_TABLES\<rparr>,
     \<lparr>migration_id = ''core-0004-snapshot-columns'', apply_step = apply_snapshot_columns,
       is_applied = snapshot_columns_applied\<rparr>,
     \<lparr>migration_id = ''core-0005-meta-version'', apply_step = apply_meta_version, is_applied = meta_version_applied\<rparr>,
     \<lparr>migration_id = ''core-0006-token-scope'', apply_step = apply_token_scope, is_applied = token_scope_applied\<rparr>]"

definition SEGMENT_MIGRATIONS :: "migration list" where
  "SEGMENT_MIGRATIONS =
    [\<lparr>migration_id = ''segment-0001-baseline'', apply_step = execute_schema SEGMENT_SCHEMA,
       is_applied = (\<lambda>s. Inr False)\<rparr>]"

text \<open>\<^verbatim>\<open>app/modules/journal/migrations.py\<close>.\<close>

definition JOURNAL_SCHEMA :: "statement list" where
  "JOURNAL_SCHEMA =
    [CreateTable ''journal_entries'' [''id'', ''date'', ''title'', ''description'', ''icon'', ''incident_id'',
       ''created_at'', ''updated_at'', ''is_demo''],
     CreateTable ''journal_attachments'' JOURNAL_ATTACHMENT_COLUMNS,
     CreateTable ''incidents'' [''id'', ''name'', ''description'', ''status'', ''start_date'', ''end_date'', ''icon'',
       ''created_at'', ''updated_at'', ''is_demo'']]"

definition JOURNAL_MIGRATIONS :: "migration list" where
  "JOURNAL_MIGRATIONS =
    [\<lparr>migration_id = ''journal-0001-baseline'', apply_step = execute_schema JOURNAL_SCHEMA, is_applied = (\<lambda>s. Inr False)\<rparr>,
     \<lparr>migration_id = ''journal-0002-demo-flags'', apply_step = apply_flag [''journal_entries'', ''incidents''],
       is_applied = flag_applied [''journal_entries'', ''incidents'']\<rparr>]"

section \<open>What the runner keeps\<close>

lemma recorded_ensure [simp]: "recorded (ensure_registry db) = recorded db" "shape (ensure_registry db) = shape db"
  "registry (ensure_registry db) \<noteq> None"
  by (simp_all add: ensure_registry_def recorded_def)

lemma recorded_record [simp]:
  "registry db \<noteq> None \<Longrightarrow> recorded (record_migration clock m db) = insert (migration_id m) (recorded db)"
  "registry (record_migration clock m db) = None \<longleftrightarrow> registry db = None"
  "shape (record_migration clock m db) = shape db"
  by (auto simp: recorded_def record_migration_def)

lemma recorded_shape [simp]: "recorded (db\<lparr>shape := s\<rparr>) = recorded db"
  by (simp add: recorded_def)

text \<open>What one step that does not raise did to the shape, and what it recorded.\<close>

definition stage :: "migration \<Rightarrow> schema \<Rightarrow> schema \<Rightarrow> bool" where
  "stage m s s' \<longleftrightarrow> is_applied m s = Inr True \<and> s' = s \<or> is_applied m s = Inr False \<and> apply_step m s = Inr s'"

lemma transaction_simps [simp]:
  "body db = (d, Inl e) \<Longrightarrow> write_transaction body db = (db, Inl e)"
  "body db = (d, Inr x) \<Longrightarrow> write_transaction body db = (d, Inr x)"
  by (simp_all add: write_transaction_def begin_immediate_def commit_transaction_def rollback_transaction_def)

lemma migrate_eq:
  "migrate clock m db =
     (if migration_id m \<in> recorded db then (db, Inr [])
      else case is_applied m (shape db) of
        Inl e \<Rightarrow> (db, Inl e)
      | Inr True \<Rightarrow> (record_migration clock m db, Inr [migration_id m])
      | Inr False \<Rightarrow>
          (case apply_step m (shape db) of
             Inl (e, s) \<Rightarrow> (db, Inl e)
           | Inr s \<Rightarrow> (record_migration clock m (db\<lparr>shape := s\<rparr>), Inr [migration_id m])))"
  unfolding migrate_def
  by (cases "migrate_step clock m db"; cases "snd (migrate_step clock m db)")
    (auto simp: migrate_step_def split: if_splits sum.splits bool.splits)

lemma migrate_cases:
  assumes "migrate clock m db = (db', Inr ids)"
  obtains "migration_id m \<in> recorded db" "db' = db" "ids = []"
  | s where "migration_id m \<notin> recorded db" "stage m (shape db) s"
      "db' = record_migration clock m (db\<lparr>shape := s\<rparr>)" "ids = [migration_id m]"
  using assms by (auto simp: migrate_eq stage_def split: if_splits sum.splits bool.splits)

lemma migrate_failed:
  assumes "migrate clock m db = (db', Inl e)"
  shows "db' = db \<and> migration_id m \<notin> recorded db
    \<and> (is_applied m (shape db) = Inl e \<or> is_applied m (shape db) = Inr False \<and> (\<exists>half. apply_step m (shape db) = Inl (e, half)))"
  using assms by (auto simp: migrate_eq split: if_splits sum.splits bool.splits)

lemma migrate_recorded:
  assumes "migrate clock m db = (db', Inr ids)" "registry db \<noteq> None"
  shows "recorded db' = insert (migration_id m) (recorded db) \<and> registry db' \<noteq> None
    \<and> ids = (if migration_id m \<in> recorded db then [] else [migration_id m])"
  using assms(1) by (cases rule: migrate_cases) (use assms(2) in auto)

lemma migrate_all_recorded:
  assumes "migrate_all clock ms db = (db', Inr ids)" "registry db \<noteq> None"
  shows "recorded db' = migration_id ` set ms \<union> recorded db \<and> registry db' \<noteq> None"
  using assms
proof (induction ms arbitrary: db ids)
  case (Cons m ms)
  then obtain db1 ids1 ids2 where m: "migrate clock m db = (db1, Inr ids1)" "migrate_all clock ms db1 = (db', Inr ids2)"
    by (auto split: sum.splits prod.splits)
  from migrate_recorded [OF m(1) Cons.prems(2)] Cons.IH [OF m(2)] show ?case by auto
qed simp

lemma migrate_all_registry: "registry db \<noteq> None \<Longrightarrow> registry (fst (migrate_all clock ms db)) \<noteq> None"
proof (induction ms arbitrary: db)
  case (Cons m ms)
  obtain db1 r where m: "migrate clock m db = (db1, r)" by fastforce
  show ?case
  proof (cases r)
    case (Inl e)
    with m migrate_failed [of clock m db db1 e] Cons.prems show ?thesis by simp
  next
    case (Inr ids)
    with Cons.IH [of db1] migrate_recorded [of clock m db db1 ids] m Cons.prems show ?thesis
      by (auto split: prod.splits sum.splits)
  qed
qed simp

lemma migrate_all_ids:
  assumes "migrate_all clock ms db = (db', Inr ids)" "registry db \<noteq> None" "distinct (map migration_id ms)"
  shows "ids = filter (\<lambda>i. i \<notin> recorded db) (map migration_id ms)"
  using assms
proof (induction ms arbitrary: db ids)
  case (Cons m ms)
  then obtain db1 ids1 ids2 where m: "migrate clock m db = (db1, Inr ids1)" "migrate_all clock ms db1 = (db', Inr ids2)"
    and ids: "ids = ids1 @ ids2"
    by (auto split: sum.splits prod.splits)
  from migrate_recorded [OF m(1) Cons.prems(2)]
  have r: "recorded db1 = insert (migration_id m) (recorded db)" "registry db1 \<noteq> None"
    "ids1 = (if migration_id m \<in> recorded db then [] else [migration_id m])" by blast+
  have "ids2 = filter (\<lambda>i. i \<notin> recorded db1) (map migration_id ms)"
    using Cons.IH [OF m(2) r(2)] Cons.prems(3) by simp
  also have "\<dots> = filter (\<lambda>i. i \<notin> recorded db) (map migration_id ms)"
    using Cons.prems(3) r(1) by (intro filter_cong) (force simp: image_iff)+
  finally show ?case using ids r(3) by simp
qed simp

lemma migrate_all_skips:
  "migration_id ` set ms \<subseteq> recorded db \<Longrightarrow> migrate_all clock ms db = (db, Inr [])"
  by (induction ms) (simp_all add: migrate_eq)

lemma migrate_all_stop:
  "migrate_all clock ms db = (db', Inl e) \<Longrightarrow> migrate_all clock (ms @ ns) db = (db', Inl e)"
  by (induction ms arbitrary: db) (auto split: sum.splits prod.splits)

lemma migrate_all_append:
  "migrate_all clock ms db = (db', Inr ids) \<Longrightarrow>
   migrate_all clock (ms @ ns) db =
     (case migrate_all clock ns db' of (d, Inl e) \<Rightarrow> (d, Inl e) | (d, Inr ids') \<Rightarrow> (d, Inr (ids @ ids')))"
  by (induction ms arbitrary: db ids) (auto split: sum.splits prod.splits)

lemma run_is_migrate_all:
  "ms \<noteq> [] \<Longrightarrow> run_migrations clock ms db =
     (if migration_id ` set ms \<subseteq> recorded db \<and> registry db \<noteq> None then (db, Inr [])
      else migrate_all clock ms (ensure_registry db))"
  by (auto simp: run_migrations_def list_all_iff)

lemma run_noop: "migration_id ` set ms \<subseteq> recorded db \<Longrightarrow> registry db \<noteq> None \<Longrightarrow> run_migrations clock ms db = (db, Inr [])"
  by (auto simp: run_migrations_def list_all_iff)

lemma run_recorded:
  assumes "run_migrations clock ms db = (db', Inr ids)" "ms \<noteq> []"
  shows "migration_id ` set ms \<subseteq> recorded db' \<and> registry db' \<noteq> None"
  using assms(1) migrate_all_recorded [OF _ recorded_ensure(3), of clock ms db db' ids]
  by (auto simp: run_is_migrate_all [OF assms(2)] split: if_splits)

text \<open>
  A successful run applies exactly the steps that were not recorded, in their order; it
  leaves every step recorded, and another run, at whatever time, then changes nothing.
\<close>

theorem migrations_run_once:
  assumes "run_migrations clock ms db = (db', Inr ids)" and "distinct (map migration_id ms)"
  shows "ids = filter (\<lambda>i. i \<notin> recorded db) (map migration_id ms)
    \<and> run_migrations clock' ms db' = (db', Inr [])"
proof (cases "ms = []")
  case True
  then show ?thesis using assms(1) by (simp add: run_migrations_def)
next
  case False
  have ids: "ids = filter (\<lambda>i. i \<notin> recorded db) (map migration_id ms)"
  proof (cases "migration_id ` set ms \<subseteq> recorded db \<and> registry db \<noteq> None")
    case True
    then have "ids = []" using assms(1) by (simp add: run_is_migrate_all [OF False])
    with True show ?thesis by (auto simp: filter_empty_conv image_subset_iff)
  next
    case skip: False
    then have "migrate_all clock ms (ensure_registry db) = (db', Inr ids)"
      using assms(1) by (simp add: run_is_migrate_all [OF False] split: if_splits)
    from migrate_all_ids [OF this recorded_ensure(3) assms(2)] show ?thesis by simp
  qed
  from run_recorded [OF assms(1) False] have "run_migrations clock' ms db' = (db', Inr [])" by (intro run_noop) auto
  with ids show ?thesis by blast
qed

text \<open>Runs that differ in the readings of their clocks only.\<close>

definition same_but_stamps :: "database \<Rightarrow> database \<Rightarrow> bool" where
  "same_but_stamps db1 db2 \<longleftrightarrow>
     shape db1 = shape db2 \<and> map_option (map fst) (registry db1) = map_option (map fst) (registry db2)"

lemma same_recorded: "same_but_stamps db1 db2 \<Longrightarrow> recorded db1 = recorded db2"
proof -
  have "recorded db = (case map_option (map fst) (registry db) of None \<Rightarrow> {} | Some is \<Rightarrow> set is)" for db
    by (simp add: recorded_def split: option.splits)
  then show "same_but_stamps db1 db2 \<Longrightarrow> recorded db1 = recorded db2" unfolding same_but_stamps_def by metis
qed

lemma same_record: "same_but_stamps db1 db2 \<Longrightarrow>
    same_but_stamps (record_migration c1 m db1) (record_migration c2 m db2)"
  by (auto simp: same_but_stamps_def record_migration_def map_option_case split: option.splits)

lemma same_migrate:
  assumes "same_but_stamps db1 db2"
  shows "rel_prod same_but_stamps (=) (migrate c1 m db1) (migrate c2 m db2)"
proof -
  have shape: "shape db1 = shape db2" using assms by (simp add: same_but_stamps_def)
  have "same_but_stamps (db1\<lparr>shape := s\<rparr>) (db2\<lparr>shape := s\<rparr>)" for s
    using assms by (simp add: same_but_stamps_def)
  from same_record [OF this] same_record [OF assms] assms show ?thesis
    unfolding migrate_eq same_recorded [OF assms] shape by (auto split: sum.split bool.split)
qed

lemma same_migrate_all:
  assumes "same_but_stamps db1 db2"
  shows "rel_prod same_but_stamps (=) (migrate_all c1 ms db1) (migrate_all c2 ms db2)"
  using assms
proof (induction ms arbitrary: db1 db2)
  case (Cons m ms)
  obtain d1 d2 r where m: "migrate c1 m db1 = (d1, r)" "migrate c2 m db2 = (d2, r)" "same_but_stamps d1 d2"
    using same_migrate [OF Cons.prems, of c1 m c2] by (auto elim!: rel_prod.cases)
  from Cons.IH [OF m(3)] m show ?case
    by (cases r; cases "migrate_all c1 ms d1"; cases "migrate_all c2 ms d2") (auto split: sum.splits)
qed simp

lemma same_run:
  assumes "same_but_stamps db1 db2"
  shows "rel_prod same_but_stamps (=) (run_migrations c1 ms db1) (run_migrations c2 ms db2)"
proof -
  have "registry db1 = None \<longleftrightarrow> registry db2 = None" using assms by (auto simp: same_but_stamps_def)
  moreover from assms this have "same_but_stamps (ensure_registry db1) (ensure_registry db2)"
    by (auto simp: ensure_registry_def same_but_stamps_def)
  ultimately show ?thesis
    using assms same_migrate_all [of "ensure_registry db1" "ensure_registry db2" c1 ms c2]
    by (simp add: run_migrations_def same_recorded [OF assms])
qed

lemma migrate_all_failed:
  assumes "migrate_all c ms db = (d, Inl e)"
  shows "\<exists>ms1 m ms2 ids. ms = ms1 @ m # ms2 \<and> migrate_all c ms1 db = (d, Inr ids) \<and> migrate c m d = (d, Inl e)"
  using assms
proof (induction ms arbitrary: db)
  case (Cons m ms)
  obtain db1 r where m: "migrate c m db = (db1, r)" by fastforce
  show ?case
  proof (cases r)
    case (Inl e')
    with m migrate_failed [of c m db db1 e'] Cons.prems
    have "migrate_all c [] db = (d, Inr [])" "migrate c m d = (d, Inl e)" by simp_all
    then show ?thesis by (metis append_Nil)
  next
    case (Inr ids1)
    with m Cons.prems have "migrate_all c ms db1 = (d, Inl e)" by (auto split: prod.splits sum.splits)
    from Cons.IH [OF this] obtain ms1 m' ms2 ids where
      s: "ms = ms1 @ m' # ms2" "migrate_all c ms1 db1 = (d, Inr ids)" "migrate c m' d = (d, Inl e)" by blast
    have "m # ms = (m # ms1) @ m' # ms2 \<and> migrate_all c (m # ms1) db = (d, Inr (ids1 @ ids)) \<and> migrate c m' d = (d, Inl e)"
      using s m Inr by simp
    then show ?thesis by blast
  qed
qed simp

text \<open>A run over what an interrupted run left ends where the run would have ended.\<close>

lemma resumed_all:
  assumes "registry db \<noteq> None"
  shows "fst (migrate_all c ms (fst (migrate_all c (take k ms) db))) = fst (migrate_all c ms db)
    \<and> (snd (migrate_all c ms (fst (migrate_all c (take k ms) db))) = Inl e \<longleftrightarrow> snd (migrate_all c ms db) = Inl e)"
proof (cases "migrate_all c (take k ms) db")
  case (Pair d r)
  show ?thesis
  proof (cases r)
    case (Inl e')
    from migrate_all_failed [of c "take k ms" db d e'] Pair Inl obtain ms1 m ms2 ids where
      s: "take k ms = ms1 @ m # ms2" "migrate_all c ms1 db = (d, Inr ids)" "migrate c m d = (d, Inl e')" by auto
    from migrate_all_recorded [OF s(2) assms] have "migrate_all c ms1 d = (d, Inr [])"
      by (intro migrate_all_skips) auto
    from migrate_all_append [OF this, of "m # ms2"] have "migrate_all c (take k ms) d = (d, Inl e')"
      unfolding s(1) by (simp add: s(3))
    from migrate_all_stop [OF this, of "drop k ms"] migrate_all_stop [of c "take k ms" db d e' "drop k ms"] Pair Inl
    show ?thesis by simp
  next
    case (Inr ids)
    from migrate_all_recorded [of c "take k ms" db d ids] Pair Inr assms
    have skip: "migrate_all c (take k ms) d = (d, Inr [])" by (intro migrate_all_skips) auto
    have all: "take k ms @ drop k ms = ms" by simp
    from migrate_all_append [OF skip, of "drop k ms"] migrate_all_append [of c "take k ms" db d ids "drop k ms"] Pair Inr
    show ?thesis by (auto simp: all split: prod.splits sum.splits)
  qed
qed

text \<open>
  C13. A run that is stopped between two steps, by the end of the process or by a step that
  raises, loses nothing: run again later over what it left, the same list ends with the tables
  and the recorded steps the undisturbed run would have ended with, and raises what it raised.
\<close>

theorem stopped_run_resumes:
  "let stopped = fst (migrate_all clock (take k ms) (ensure_registry db));
       again = run_migrations clock' ms stopped;
       undisturbed = run_migrations clock ms (ensure_registry db)
   in shape (fst again) = shape (fst undisturbed) \<and> recorded (fst again) = recorded (fst undisturbed)
    \<and> (snd again = Inl e \<longleftrightarrow> snd undisturbed = Inl e)"
proof (cases "ms = []")
  case True
  then show ?thesis by (simp add: run_migrations_def)
next
  case False
  let ?d = "ensure_registry db" let ?s = "fst (migrate_all clock (take k ms) ?d)"
  have run: "fst (run_migrations clock ms x) = fst (migrate_all clock ms x)
      \<and> (snd (run_migrations clock ms x) = Inl e \<longleftrightarrow> snd (migrate_all clock ms x) = Inl e)"
    if "registry x \<noteq> None" for x
    using that migrate_all_skips [of ms x clock] by (auto simp: run_is_migrate_all [OF False] ensure_registry_def)
  have reg: "registry ?s \<noteq> None" by (rule migrate_all_registry) simp
  have same: "rel_prod same_but_stamps (=) (run_migrations clock' ms ?s) (run_migrations clock ms ?s)"
    by (rule same_run) (simp add: same_but_stamps_def)
  then have later: "same_but_stamps (fst (run_migrations clock' ms ?s)) (fst (run_migrations clock ms ?s))"
    and err: "snd (run_migrations clock' ms ?s) = snd (run_migrations clock ms ?s)"
    by (simp_all add: rel_prod_sel)
  from later have "shape (fst (run_migrations clock' ms ?s)) = shape (fst (run_migrations clock ms ?s))"
    by (simp add: same_but_stamps_def)
  with same_recorded [OF later] err run [OF reg] run [of ?d] resumed_all [of ?d clock ms k e] show ?thesis by (simp add: Let_def)
qed

text \<open>
  C37. A step that raises is rolled back and stops the run.  Whatever statements of the step took effect before
  the raise, the database a failed run leaves is exactly the one that running the steps before it, and
  nothing else, leaves; recorded are the steps that were recorded before the run and those steps, so the
  step is not, and one after it only when an earlier run had recorded it; and the error of the run is the
  one that the step, or the test whether it is needed, raises on the tables that are left.  (Commits succeed.)
\<close>

theorem failed_step_rolls_back:
  assumes "run_migrations clock ms db = (db', Inl e)"
  shows "\<exists>before m after ids. ms = before @ m # after
    \<and> migrate_all clock before (ensure_registry db) = (db', Inr ids)
    \<and> recorded db' = recorded db \<union> migration_id ` set before \<and> migration_id m \<notin> recorded db'
    \<and> (is_applied m (shape db') = Inl e
       \<or> is_applied m (shape db') = Inr False \<and> (\<exists>half. apply_step m (shape db') = Inl (e, half)))"
proof -
  from assms have "migrate_all clock ms (ensure_registry db) = (db', Inl e)"
    by (auto simp: run_migrations_def split: if_splits)
  from migrate_all_failed [OF this] obtain before m after ids where
    s: "ms = before @ m # after" "migrate_all clock before (ensure_registry db) = (db', Inr ids)" "migrate clock m db' = (db', Inl e)"
    by blast
  from migrate_all_recorded [OF s(2) recorded_ensure(3)] have "recorded db' = recorded db \<union> migration_id ` set before" by auto
  with s(1,2) migrate_failed [OF s(3)] show ?thesis by blast
qed

section \<open>What the steps keep\<close>

named_theorems db_simps \<open>the tables after an operation on the schema\<close>

lemma with_table_simps [db_simps]:
  "map_of (tables (with_table t tb s)) = (map_of (tables s))(t \<mapsto> tb)"
  "indexes (with_table t tb s) = indexes s"
  by (simp_all add: with_table_def)

lemma create_table_map [db_simps]:
  "map_of (tables (create_table t cs s)) =
     (if table_exists s t then map_of (tables s) else (map_of (tables s))(t \<mapsto> \<lparr>cols = cs, rows = []\<rparr>))"
  by (simp add: create_table_def db_simps)

lemma create_table_other: "t \<noteq> t' \<Longrightarrow> map_of (tables (create_table t' cs s)) t = map_of (tables s) t"
  by (simp add: db_simps)

lemma create_index_tables: "create_index u idx t cs s = Inr s' \<Longrightarrow> tables s' = tables s"
  by (auto simp: create_index_def split: if_splits)

lemma add_column_map [db_simps]:
  "map_of (tables (add_column t c v s)) =
     (map_of (tables s))(t := map_option
       (\<lambda>tb. tb\<lparr>cols := cols tb @ [c], rows := map (\<lambda>r. r @ [(c, v)]) (rows tb)\<rparr>) (map_of (tables s) t))"
  by (auto simp: add_column_def db_simps fun_eq_iff split: option.splits)

lemma rename_table_map [db_simps]:
  assumes "\<not> table_exists s new" "old \<noteq> new"
  shows "map_of (tables (rename_table old new s)) = (map_of (tables s))(old := None, new := map_of (tables s) old)"
proof
  fix t
  have "map_of (map (\<lambda>(t, tb). (if t = old then new else t, tb)) ts) t =
      ((map_of ts)(old := None, new := map_of ts old)) t" if "map_of ts new = None" for ts :: "(string \<times> sql_table) list"
    using that assms(2) by (induction ts) (auto split: if_splits)
  then show "map_of (tables (rename_table old new s)) t = ((map_of (tables s))(old := None, new := map_of (tables s) old)) t"
    using assms(1) by (simp add: rename_table_def table_exists_def)
qed

lemma drop_table_map [db_simps]: "map_of (tables (drop_table t s)) = (map_of (tables s))(t := None)"
proof
  fix x
  have "map_of (filter (\<lambda>(t', tb). t' \<noteq> t) ts) x = ((map_of ts)(t := None)) x" for ts :: "(string \<times> sql_table) list"
    by (induction ts) auto
  then show "map_of (tables (drop_table t s)) x = ((map_of (tables s))(t := None)) x" by (simp add: drop_table_def)
qed

text \<open>Rows are kept when each stays in its place and is at most extended by new columns.\<close>

definition grown :: "row list \<Rightarrow> row list \<Rightarrow> bool" where
  "grown rs rs' \<longleftrightarrow> list_all2 prefix rs (take (length rs) rs')"

lemma grown_refl [simp]: "grown rs rs" "grown [] rs"
  by (simp_all add: grown_def list.rel_refl)

lemma grown_trans:
  assumes "grown a b" "grown b c"
  shows "grown a c"
proof -
  have l: "length a \<le> length b" using assms(1) by (auto simp: grown_def dest: list_all2_lengthD)
  have "list_all2 prefix (take (length a) b) (take (length a) (take (length b) c))"
    using assms(2) unfolding grown_def by (rule list_all2_takeI)
  with l have "list_all2 prefix (take (length a) b) (take (length a) c)" by (simp add: min_def)
  with assms(1) show ?thesis
    unfolding grown_def by (rule list_all2_trans [rotated]) (rule prefix_order.trans)
qed

lemma grown_map: "(\<And>r. prefix r (f r)) \<Longrightarrow> grown rs (map f rs)"
  by (simp add: grown_def list_all2_conv_all_nth)

lemma grown_append: "grown rs (rs @ new)"
  by (simp add: grown_def list.rel_refl)

lemma grown_mem: "grown rs rs' \<Longrightarrow> r \<in> set rs \<Longrightarrow> \<exists>r' \<in> set rs'. prefix r r'"
  unfolding grown_def by (auto dest!: list_all2_mem dest: in_set_takeD)

definition keeps :: "schema \<Rightarrow> schema \<Rightarrow> string \<Rightarrow> bool" where
  "keeps s s' t \<longleftrightarrow> grown (rows_of s t) (rows_of s' t) \<and> set (table_columns s t) \<subseteq> set (table_columns s' t)
     \<and> (table_exists s t \<longrightarrow> table_exists s' t)"

lemma keeps_refl [simp]: "keeps s s t"
  by (simp add: keeps_def)

lemma keeps_trans: "keeps s1 s2 t \<Longrightarrow> keeps s2 s3 t \<Longrightarrow> keeps s1 s3 t"
  using grown_trans [of "rows_of s1 t" "rows_of s2 t" "rows_of s3 t"] unfolding keeps_def by blast

lemma keeps_same: "map_of (tables s') t = map_of (tables s) t \<Longrightarrow> keeps s s' t"
  by (simp add: keeps_def table_columns_def table_exists_def rows_of_def)

lemma execute_existing: "execute st s = Inr s' \<Longrightarrow> table_exists s t \<Longrightarrow> map_of (tables s') t = map_of (tables s) t"
  by (cases st) (auto simp: db_simps create_index_tables)

lemma execute_schema_existing:
  "execute_schema sts s = Inr s' \<Longrightarrow> table_exists s t \<Longrightarrow> map_of (tables s') t = map_of (tables s) t"
proof (induction sts arbitrary: s)
  case (Cons st sts)
  then obtain s1 where s1: "execute st s = Inr s1" "execute_schema sts s1 = Inr s'" by (auto split: sum.splits)
  from execute_existing [OF s1(1) Cons.prems(2)] Cons.IH [OF s1(2)] Cons.prems(2) show ?case
    by (simp add: table_exists_def)
qed simp

lemma keeps_execute_schema: "execute_schema sts s = Inr s' \<Longrightarrow> keeps s s' t"
  using execute_schema_existing [of sts s s' t] keeps_same [of s' t s]
  by (cases "table_exists s t") (auto simp: keeps_def table_columns_def table_exists_def rows_of_def)

lemma keeps_add_column: "keeps s (add_column_if_missing t' c v s) t"
  using grown_map [of "\<lambda>r. r @ [(c, v)]"]
  by (auto simp: keeps_def add_column_if_missing_def table_columns_def table_exists_def rows_of_def db_simps split: option.splits)

lemma add_column_other: "t \<noteq> t' \<Longrightarrow> map_of (tables (add_column_if_missing t' c v s)) t = map_of (tables s) t"
  by (simp add: add_column_if_missing_def db_simps)

lemma exists_add_column [simp]: "table_exists (add_column_if_missing t' c v s) t = table_exists s t"
  by (auto simp: add_column_if_missing_def table_exists_def db_simps)

lemma added_column [simp]:
  "table_exists s t \<Longrightarrow> c \<in> set (table_columns (add_column_if_missing t c v s) t)"
  by (auto simp: add_column_if_missing_def table_columns_def table_exists_def rows_of_def db_simps split: option.splits)

lemma apply_flag_keeps:
  "apply_flag ts s = Inr s' \<Longrightarrow> keeps s s' t \<and> (table_exists s' t \<longleftrightarrow> table_exists s t)
    \<and> (t \<in> set ts \<longrightarrow> table_exists s t \<longrightarrow> ''is_demo'' \<in> set (table_columns s' t))"
proof (induction ts arbitrary: s)
  case (Cons t' ts)
  let ?s = "add_column_if_missing t' ''is_demo'' (IntV 0) s"
  from Cons.prems have "apply_flag ts ?s = Inr s'" by (simp add: apply_flag_def)
  from Cons.IH [OF this] keeps_trans [OF keeps_add_column [of s t' "''is_demo''" "IntV 0" t]]
    added_column [of s t' "''is_demo''" "IntV 0"] show ?case
    by (auto simp: keeps_def [of ?s] split: if_splits)
qed (simp add: apply_flag_def)

lemma snapshot_columns_keeps:
  assumes "apply_snapshot_columns s = Inr s'"
  shows "keeps s s' t \<and> (table_exists s' t \<longleftrightarrow> table_exists s t)
    \<and> (table_exists s ''snapshots'' \<longrightarrow> has_columns [''analysis_meta_json'', ''raw_json''] s' ''snapshots'')"
proof -
  define s1 where "s1 = add_column_if_missing ''snapshots'' ''analysis_meta_json'' Null s"
  have s': "s' = add_column_if_missing ''snapshots'' ''raw_json'' Null s1"
    using assms by (simp add: apply_snapshot_columns_def s1_def)
  have "keeps s s1 t" "keeps s1 s' t" by (simp_all add: s1_def s' keeps_add_column)
  then have "keeps s s' t" by (rule keeps_trans)
  moreover have "set (table_columns s1 ''snapshots'') \<subseteq> set (table_columns s' ''snapshots'')"
    using keeps_add_column by (simp add: s' keeps_def)
  moreover have "table_exists s' t \<longleftrightarrow> table_exists s t" by (simp add: s1_def s')
  moreover have "table_exists s ''snapshots'' \<longrightarrow>
      ''analysis_meta_json'' \<in> set (table_columns s1 ''snapshots'') \<and> ''raw_json'' \<in> set (table_columns s' ''snapshots'')"
    by (simp add: s1_def s')
  ultimately show ?thesis by auto
qed

lemma token_scope_keeps:
  "apply_token_scope s = Inr s' \<Longrightarrow> keeps s s' t \<and> (table_exists s' t \<longleftrightarrow> table_exists s t)
    \<and> (table_exists s ''api_tokens'' \<longrightarrow> ''scope'' \<in> set (table_columns s' ''api_tokens''))"
  using keeps_add_column by (auto simp: apply_token_scope_def)

lemma version_row:
  "dict_get (dict_set ''value'' (TextV ''2'') r) ''value'' Null = TextV ''2''"
  "is_version (dict_set ''value'' (TextV ''2'') r) \<longleftrightarrow> is_version r"
  by (simp_all add: dict_get_def is_version_def)

lemma dict_get_map: "dict_get (map (\<lambda>c. (c, f c)) cs) c d = (if c \<in> set cs then f c else d)"
  by (simp add: dict_get_def map_of_map_restrict restrict_map_def)

lemma meta_version_map:
  assumes "apply_meta_version s = Inr s'"
  obtains tb where "map_of (tables s) ''_docsight_meta'' = Some tb" "{''key'', ''value''} \<subseteq> set (cols tb)"
    "map_of (tables s') = (map_of (tables s))(''_docsight_meta'' \<mapsto>
      (if list_ex is_version (rows tb)
       then tb\<lparr>rows := map (\<lambda>r. if is_version r then dict_set ''value'' (TextV ''2'') r else r) (rows tb)\<rparr>
       else tb\<lparr>rows := rows tb @
         [map (\<lambda>c. (c, dict_get [(''key'', TextV ''schema_version''), (''value'', TextV ''2'')] c Null)) (cols tb)]\<rparr>))"
  using assms by (auto simp: apply_meta_version_def db_simps split: option.splits if_splits)

lemma first_version:
  "filter is_version (map (\<lambda>r. if is_version r then dict_set ''value'' (TextV ''2'') r else r) rs) =
     map (dict_set ''value'' (TextV ''2'')) (filter is_version rs)"
  by (induction rs) (simp_all add: version_row)

lemma meta_version_keeps:
  assumes "apply_meta_version s = Inr s'"
  shows "(t \<noteq> ''_docsight_meta'' \<longrightarrow> keeps s s' t) \<and> (table_exists s' t \<longleftrightarrow> table_exists s t)
    \<and> table_columns s' t = table_columns s t \<and> meta_version_applied s' = Inr True"
  using assms
proof (cases rule: meta_version_map)
  case (1 tb)
  let ?new = "map (\<lambda>c. (c, dict_get [(''key'', TextV ''schema_version''), (''value'', TextV ''2'')] c Null)) (cols tb)"
  have new: "is_version ?new" "dict_get ?new ''value'' Null = TextV ''2''"
    using 1(2) by (simp_all add: is_version_def dict_get_map) (simp_all add: dict_get_def)
  have "meta_version_applied s' = Inr True"
  proof (cases "list_ex is_version (rows tb)")
    case True
    then obtain r rs where "filter is_version (rows tb) = r # rs"
      by (cases "filter is_version (rows tb)") (auto simp: filter_empty_conv list_ex_iff)
    then show ?thesis
      using 1 True first_version [of "rows tb"]
      by (simp add: meta_version_applied_def table_exists_def table_columns_def rows_of_def version_row)
  next
    case False
    then have "filter is_version (rows tb) = []" by (auto simp: filter_empty_conv list_ex_iff)
    then show ?thesis
      using 1 False new by (simp add: meta_version_applied_def table_exists_def table_columns_def rows_of_def)
  qed
  then show ?thesis
    using 1 by (auto simp: table_exists_def table_columns_def rows_of_def intro: keeps_same)
qed

text \<open>A copied attachment keeps every value, its identifier unless it had none.\<close>

definition copied :: "row \<Rightarrow> row \<Rightarrow> bool" where
  "copied a r \<longleftrightarrow> list_all (\<lambda>(c, v). map_of r c = Some v) (tl (attachment_values a))
     \<and> (dict_get a ''id'' Null \<noteq> Null \<longrightarrow> map_of r ''id'' = Some (dict_get a ''id'' Null))"

lemma copied_prefix: "copied a r \<Longrightarrow> prefix r r' \<Longrightarrow> copied a r'"
  by (auto simp: copied_def attachment_values_def map_add_Some_iff elim!: prefixE)

lemma dict_get_Cons: "dict_get ((k, v) # d) c x = (if c = k then v else dict_get d c x)"
  by (simp add: dict_get_def)

lemma copied_new:
  assumes "set JOURNAL_ATTACHMENT_COLUMNS \<subseteq> set cs" "dict_get a ''id'' Null \<in> {IntV n, Null}"
  shows "copied a (map (\<lambda>c. (c, dict_get (dict_set ''id'' (IntV n) (attachment_values a)) c Null)) cs)"
proof -
  have m: "map_of (map (\<lambda>c. (c, f c)) cs) c = (if c \<in> set cs then Some (f c) else None)" for f :: "string \<Rightarrow> sql" and c
    by (simp add: map_of_map_restrict restrict_map_def)
  show ?thesis
    using assms unfolding copied_def
    by (auto simp: m attachment_values_def JOURNAL_ATTACHMENT_COLUMNS_def dict_get_Cons)
qed

lemma insert_attachment_row:
  assumes "insert_attachment a tb = Inr tb'"
  shows "\<exists>r. tb' = tb\<lparr>rows := rows tb @ [r]\<rparr> \<and> copied a r \<and> map fst r = cols tb"
proof -
  let ?r = "\<lambda>n. map (\<lambda>c. (c, dict_get (dict_set ''id'' (IntV n) (attachment_values a)) c Null)) (cols tb)"
  have id: "dict_get (attachment_values a) ''id'' Null = dict_get a ''id'' Null"
    by (simp add: attachment_values_def dict_get_def)
  have cs: "set JOURNAL_ATTACHMENT_COLUMNS \<subseteq> set (cols tb)"
    using assms by (auto simp: insert_attachment_def Let_def split: if_splits)
  obtain n where "tb' = tb\<lparr>rows := rows tb @ [?r n]\<rparr>" "dict_get a ''id'' Null \<in> {IntV n, Null}"
    using assms by (auto simp: insert_attachment_def Let_def id split: if_splits sql.splits)
  then show ?thesis using copied_new [OF cs, of a n] by (intro exI [of _ "?r n"]) (simp add: comp_def)
qed

lemma insert_attachments_rows:
  "insert_attachments as tb = Inr tb' \<Longrightarrow>
   cols tb' = cols tb \<and> (\<exists>new. rows tb' = rows tb @ new \<and> list_all2 copied as new \<and> list_all (\<lambda>r. map fst r = cols tb) new)"
proof (induction as arbitrary: tb)
  case (Cons a as)
  then obtain tb1 where tb1: "insert_attachment a tb = Inr tb1" "insert_attachments as tb1 = Inr tb'"
    by (auto split: sum.splits)
  from insert_attachment_row [OF tb1(1)] obtain r where r: "tb1 = tb\<lparr>rows := rows tb @ [r]\<rparr>" "copied a r" "map fst r = cols tb"
    by blast
  from Cons.IH [OF tb1(2)] r(1) obtain new where
    "cols tb' = cols tb" "rows tb' = rows tb @ r # new" "list_all2 copied as new" "list_all (\<lambda>r. map fst r = cols tb) new" by auto
  with r show ?case by auto
qed simp

lemma move_attachments_keeps:
  assumes "move_attachments s = Inr s'"
  shows "(t \<notin> {''incident_attachments'', ''journal_attachments''} \<longrightarrow> map_of (tables s') t = map_of (tables s) t)
    \<and> keeps s s' ''journal_attachments''
    \<and> (\<forall>a \<in> set (rows_of s ''incident_attachments'').
         a \<in> set (rows_of s' ''incident_attachments'') \<or> (\<exists>r \<in> set (rows_of s' ''journal_attachments''). copied a r))"
proof (cases "\<not> table_exists s ''incident_attachments'' \<or> \<not> has_columns ATTACHMENT_COLUMNS s ''incident_attachments''")
  case True
  then show ?thesis using assms by (auto simp: move_attachments_def)
next
  case False
  let ?as = "rows_of s ''incident_attachments''"
  from assms have eq: "(case map_of (tables s) ''journal_attachments'' of
      None \<Rightarrow> Inl (OperationalError ''no such table'')
    | Some tb \<Rightarrow> (case insert_attachments (filter (adopted s) ?as) tb of Inl e \<Rightarrow> Inl e
        | Inr tb' \<Rightarrow> let s1 = with_table ''journal_attachments'' tb' s
            in Inr (if filter (\<lambda>a. \<not> adopted s a) ?as \<noteq> [] then s1 else drop_table ''incident_attachments'' s1))) = Inr s'"
    unfolding move_attachments_def if_not_P [OF False] Let_def .
  obtain tb where tb: "map_of (tables s) ''journal_attachments'' = Some tb"
    using eq by (cases "map_of (tables s) ''journal_attachments''") auto
  moreover obtain tb' where tb': "insert_attachments (filter (adopted s) ?as) tb = Inr tb'"
    using eq tb by (cases "insert_attachments (filter (adopted s) ?as) tb") auto
  ultimately have s': "s' = (let s1 = with_table ''journal_attachments'' tb' s
      in if filter (\<lambda>a. \<not> adopted s a) ?as \<noteq> [] then s1 else drop_table ''incident_attachments'' s1)"
    using eq by (simp add: Let_def del: filter_False)
  from insert_attachments_rows [OF tb'] obtain new where new: "cols tb' = cols tb" "rows tb' = rows tb @ new"
    "list_all2 copied (filter (adopted s) ?as) new" by blast
  have ja: "map_of (tables s') ''journal_attachments'' = Some tb'" by (simp add: s' Let_def db_simps)
  have "keeps s s' ''journal_attachments''"
    using tb ja new by (simp add: keeps_def table_columns_def table_exists_def rows_of_def grown_append)
  moreover have "a \<in> set (rows_of s' ''incident_attachments'') \<or> (\<exists>r \<in> set (rows_of s' ''journal_attachments''). copied a r)"
    if "a \<in> set ?as" for a
  proof (cases "adopted s a")
    case True
    then have "\<exists>r \<in> set new. copied a r" using list_all2_mem [OF new(3), of a] that by simp
    then show ?thesis using ja new by (auto simp: rows_of_def)
  next
    case False
    with that have "filter (\<lambda>a. \<not> adopted s a) ?as \<noteq> []" by (auto simp: filter_empty_conv)
    then have "map_of (tables s') ''incident_attachments'' = map_of (tables s) ''incident_attachments''"
      unfolding s' by (simp add: Let_def db_simps del: filter_False)
    then show ?thesis using that by (simp add: rows_of_def)
  qed
  ultimately show ?thesis by (auto simp: s' Let_def db_simps)
qed

lemma incidents_step_other:
  assumes "apply_incidents_migration s = Inr s'"
    and t: "t \<notin> {''incidents'', ''incident_attachments'', ''journal_entries'', ''journal_attachments''}"
  shows "map_of (tables s') t = map_of (tables s) t"
proof (cases "\<not> has_columns LEGACY_INCIDENT_COLUMNS s ''incidents'' \<or> table_exists s ''journal_entries''")
  case True
  then show ?thesis using assms by (auto simp: apply_incidents_migration_def)
next
  case False
  define s1 where "s1 = rename_table ''incidents'' ''journal_entries'' s"
  define s2 where "s2 = create_table ''journal_attachments'' JOURNAL_ATTACHMENT_COLUMNS s1"
  from assms(1) False obtain s3 where s3: "move_attachments s2 = Inr s3"
    and s': "s' = add_column_if_missing ''journal_entries'' ''icon'' Null
      (add_column_if_missing ''journal_entries'' ''incident_id'' Null s3)"
    by (auto simp: apply_incidents_migration_def s1_def s2_def Let_def split: sum.splits)
  have "map_of (tables s') t = map_of (tables s3) t" using t by (simp add: s' add_column_other)
  also have "\<dots> = map_of (tables s2) t" using move_attachments_keeps [OF s3, of t] t by simp
  also have "\<dots> = map_of (tables s1) t" using t by (simp add: s2_def create_table_other)
  also have "\<dots> = map_of (tables s) t" unfolding s1_def using False t by (subst rename_table_map) auto
  finally show ?thesis .
qed

definition incidents_moved :: "schema \<Rightarrow> schema \<Rightarrow> bool" where
  "incidents_moved s s' \<longleftrightarrow> grown (rows_of s ''incidents'') (rows_of s' ''journal_entries'')
     \<and> table_exists s' ''journal_entries''"

definition attachments_safe :: "schema \<Rightarrow> schema \<Rightarrow> bool" where
  "attachments_safe s s' \<longleftrightarrow> (\<forall>a \<in> set (rows_of s ''incident_attachments'').
     (\<exists>a' \<in> set (rows_of s' ''incident_attachments''). prefix a a')
     \<or> (\<exists>r \<in> set (rows_of s' ''journal_attachments''). copied a r))"

lemma incidents_step_keeps:
  assumes "apply_incidents_migration s = Inr s'"
  shows "(t \<notin> {''incidents'', ''incident_attachments''} \<longrightarrow> keeps s s' t)
    \<and> (s' = s \<or> incidents_moved s s') \<and> attachments_safe s s'"
proof (cases "\<not> has_columns LEGACY_INCIDENT_COLUMNS s ''incidents'' \<or> table_exists s ''journal_entries''")
  case True
  then have "s' = s" using assms by (auto simp: apply_incidents_migration_def)
  then show ?thesis by (auto simp: attachments_safe_def)
next
  case False
  define s1 where "s1 = rename_table ''incidents'' ''journal_entries'' s"
  define s2 where "s2 = create_table ''journal_attachments'' JOURNAL_ATTACHMENT_COLUMNS s1"
  from assms False obtain s3 where s3: "move_attachments s2 = Inr s3"
    and s': "s' = add_column_if_missing ''journal_entries'' ''icon'' Null
      (add_column_if_missing ''journal_entries'' ''incident_id'' Null s3)"
    by (auto simp: apply_incidents_migration_def s1_def s2_def Let_def split: sum.splits)
  have last: "keeps s3 s' t" for t unfolding s' using keeps_trans [OF keeps_add_column keeps_add_column] .
  have other: "map_of (tables s') t = map_of (tables s3) t" if "t \<noteq> ''journal_entries''" for t
    using that by (simp add: s' add_column_if_missing_def db_simps)
  have s1: "map_of (tables s1) = (map_of (tables s))
      (''incidents'' := None, ''journal_entries'' := map_of (tables s) ''incidents'')"
    unfolding s1_def using False by (intro rename_table_map) auto
  have s2: "map_of (tables s2) t = map_of (tables s1) t" if "t \<noteq> ''journal_attachments''" for t
    using that by (simp add: s2_def create_table_def db_simps)
  have k2: "keeps s1 s2 ''journal_attachments''"
    using keeps_same [of s2 _ s1]
    by (cases "table_exists s1 ''journal_attachments''") (auto simp: s2_def db_simps keeps_def table_exists_def table_columns_def rows_of_def)
  note move = move_attachments_keeps [OF s3]
  have inc: "table_exists s ''incidents''"
    using False by (cases "map_of (tables s) ''incidents''")
      (simp_all add: table_exists_def table_columns_def rows_of_def LEGACY_INCIDENT_COLUMNS_def)
  have je: "map_of (tables s3) ''journal_entries'' = map_of (tables s) ''incidents''"
    using move [of "''journal_entries''"] s2 [of "''journal_entries''"] s1 by simp
  have keep: "keeps s s' t" if "t \<notin> {''incidents'', ''incident_attachments''}"
  proof -
    consider "t = ''journal_entries''" | "t = ''journal_attachments''"
      | "t \<notin> {''journal_entries'', ''journal_attachments'', ''incidents'', ''incident_attachments''}" using \<open>t \<notin> _\<close> by blast
    then show ?thesis
    proof cases
      case 1
      then show ?thesis using False by (simp add: keeps_def table_exists_def table_columns_def rows_of_def)
    next
      case 2
      have "keeps s s1 t" by (rule keeps_same) (simp add: s1 2)
      from keeps_trans [OF this keeps_trans [OF k2 [folded 2] keeps_trans [OF _ last]]] move 2 show ?thesis by blast
    next
      case 3
      then show ?thesis using other [of t] move [of t] s2 [of t] s1 by (intro keeps_same) simp
    qed
  qed
  have moved: "incidents_moved s s'"
    using last [of "''journal_entries''"] je inc
    by (auto simp: incidents_moved_def keeps_def table_exists_def rows_of_def)
  have "rows_of s2 ''incident_attachments'' = rows_of s ''incident_attachments''"
    using s2 [of "''incident_attachments''"] s1 by (simp add: rows_of_def)
  moreover have "rows_of s' ''incident_attachments'' = rows_of s3 ''incident_attachments''"
    "rows_of s' ''journal_attachments'' = rows_of s3 ''journal_attachments''"
    by (simp_all add: rows_of_def other)
  ultimately have "attachments_safe s s'"
    using move [THEN conjunct2, THEN conjunct2] prefix_order.refl unfolding attachments_safe_def by metis
  with keep moved show ?thesis by blast
qed

section \<open>A run of the core\<close>

fun chain :: "(migration \<Rightarrow> schema \<Rightarrow> schema \<Rightarrow> bool) \<Rightarrow> migration list \<Rightarrow> schema \<Rightarrow> schema \<Rightarrow> bool" where
  "chain R [] s s' \<longleftrightarrow> s = s'"
| "chain R (m # ms) s s' \<longleftrightarrow> (\<exists>s1. R m s s1 \<and> chain R ms s1 s')"

lemma migrate_all_chain:
  assumes "migrate_all clock ms db = (db', Inr ids)"
  shows "chain (\<lambda>m s s'. s = s' \<or> stage m s s') ms (shape db) (shape db')"
  using assms
proof (induction ms arbitrary: db ids)
  case (Cons m ms)
  then obtain db1 ids1 ids2 where m: "migrate clock m db = (db1, Inr ids1)" "migrate_all clock ms db1 = (db', Inr ids2)"
    by (auto split: sum.splits prod.splits)
  have "shape db = shape db1 \<or> stage m (shape db) (shape db1)" using m(1) by (cases rule: migrate_cases) auto
  with Cons.IH [OF m(2)] show ?case by auto
qed simp

lemma migrate_all_stages:
  assumes "migrate_all clock ms db = (db', Inr ids)" "registry db \<noteq> None" "distinct (map migration_id ms)"
    and "migration_id ` set ms \<inter> recorded db = {}"
  shows "chain stage ms (shape db) (shape db')"
  using assms
proof (induction ms arbitrary: db ids)
  case (Cons m ms)
  then obtain db1 ids1 ids2 where m: "migrate clock m db = (db1, Inr ids1)" "migrate_all clock ms db1 = (db', Inr ids2)"
    by (auto split: sum.splits prod.splits)
  have st: "stage m (shape db) (shape db1)"
    using m(1) by (cases rule: migrate_cases) (use Cons.prems(4) in auto)
  from migrate_recorded [OF m(1) Cons.prems(2)] Cons.prems
  have "registry db1 \<noteq> None" "migration_id ` set ms \<inter> recorded db1 = {}" by (auto simp: image_iff)
  with Cons.IH [OF m(2)] Cons.prems(3) st show ?case by auto
qed simp

lemma run_chain:
  assumes "run_migrations clock ms db = (db', Inr ids)"
  shows "chain (\<lambda>m s s'. s = s' \<or> stage m s s') ms (shape db) (shape db')"
proof -
  have "chain (\<lambda>m s s'. s = s' \<or> stage m s s') ms s s" for s by (induction ms) auto
  moreover from assms have "db' = db \<or> migrate_all clock ms (ensure_registry db) = (db', Inr ids)"
    by (simp add: run_migrations_def split: if_splits)
  ultimately show ?thesis using migrate_all_chain [of clock ms "ensure_registry db" db' ids] recorded_ensure(2) by metis
qed

lemma run_stages:
  assumes "run_migrations clock ms db = (db', Inr ids)" "migration_id ` set ms \<inter> recorded db = {}"
    "distinct (map migration_id ms)"
  shows "chain stage ms (shape db) (shape db')"
proof (cases "ms = []")
  case True
  then show ?thesis using assms(1) by (simp add: run_migrations_def)
next
  case False
  then have "\<not> migration_id ` set ms \<subseteq> recorded db" using assms(2) by (cases ms) auto
  then have "migrate_all clock ms (ensure_registry db) = (db', Inr ids)"
    using assms(1) by (simp add: run_is_migrate_all [OF False])
  from migrate_all_stages [OF this recorded_ensure(3) assms(3)] assms(2) show ?thesis by simp
qed

text \<open>The shapes between the six steps; a step that was recorded or stamped changes nothing.\<close>

lemma core_chain:
  assumes "run_migrations clock CORE_MIGRATIONS db = (db', Inr ids)"
  obtains s1 s2 s3 s4 s5 where
    "shape db = s1 \<or> execute_schema CORE_SCHEMA (shape db) = Inr s1"
    "s1 = s2 \<or> apply_incidents_migration s1 = Inr s2"
    "s2 = s3 \<or> apply_flag DEMO_TABLES s2 = Inr s3"
    "s3 = s4 \<or> apply_snapshot_columns s3 = Inr s4"
    "s4 = s5 \<or> apply_meta_version s4 = Inr s5"
    "s5 = shape db' \<or> apply_token_scope s5 = Inr (shape db')"
proof -
  have R: "(\<lambda>m s s'. s = s' \<or> stage m s s') = (\<lambda>m s s'. s = s' \<or> is_applied m s = Inr False \<and> apply_step m s = Inr s')"
    by (auto simp: stage_def fun_eq_iff)
  show thesis
    using run_chain [OF assms] that unfolding R CORE_MIGRATIONS_def chain.simps migration.simps by blast
qed

lemma core_tail_keeps:
  assumes "s2 = s3 \<or> apply_flag DEMO_TABLES s2 = Inr s3" "s3 = s4 \<or> apply_snapshot_columns s3 = Inr s4"
    "s4 = s5 \<or> apply_meta_version s4 = Inr s5" "s5 = s6 \<or> apply_token_scope s5 = Inr s6" "t \<noteq> ''_docsight_meta''"
  shows "keeps s2 s6 t"
proof -
  have "keeps s2 s3 t" using assms(1) apply_flag_keeps [of DEMO_TABLES s2 s3 t] keeps_refl by auto
  moreover have "keeps s3 s4 t" using assms(2) snapshot_columns_keeps [of s3 s4 t] keeps_refl by auto
  moreover have "keeps s4 s5 t" using assms(3,5) meta_version_keeps [of s4 s5 t] keeps_refl by auto
  moreover have "keeps s5 s6 t" using assms(4) token_scope_keeps [of s5 s6 t] keeps_refl by auto
  ultimately show ?thesis by (blast intro: keeps_trans)
qed

lemma attachments_safe_later:
  assumes "attachments_safe s s1" "keeps s1 s2 ''incident_attachments''" "keeps s1 s2 ''journal_attachments''"
  shows "attachments_safe s s2"
  unfolding attachments_safe_def
proof
  fix a assume "a \<in> set (rows_of s ''incident_attachments'')"
  with assms(1) consider a' where "a' \<in> set (rows_of s1 ''incident_attachments'')" "prefix a a'"
    | r where "r \<in> set (rows_of s1 ''journal_attachments'')" "copied a r" by (auto simp: attachments_safe_def)
  then show "(\<exists>a' \<in> set (rows_of s2 ''incident_attachments''). prefix a a') \<or>
      (\<exists>r \<in> set (rows_of s2 ''journal_attachments''). copied a r)"
  proof cases
    case 1
    then show ?thesis using assms(2) grown_mem prefix_order.trans unfolding keeps_def by meson
  next
    case 2
    then show ?thesis using assms(3) grown_mem copied_prefix unfolding keeps_def by meson
  qed
qed

text \<open>
  The entries of \<^verbatim>\<open>_docsight_meta\<close>: each keeps its place and all its values, but that the entry of the
  schema version takes the current one.
\<close>

definition entries_kept :: "schema \<Rightarrow> schema \<Rightarrow> bool" where
  "entries_kept s s' \<longleftrightarrow>
     list_all2 (\<lambda>r r'. r' = r \<or> is_version r \<and> r' = dict_set ''value'' (TextV ''2'') r)
       (rows_of s ''_docsight_meta'') (take (length (rows_of s ''_docsight_meta'')) (rows_of s' ''_docsight_meta''))
     \<and> set (table_columns s ''_docsight_meta'') \<subseteq> set (table_columns s' ''_docsight_meta'')
     \<and> (table_exists s ''_docsight_meta'' \<longrightarrow> table_exists s' ''_docsight_meta'')"

lemma entries_kept_same: "map_of (tables s') ''_docsight_meta'' = map_of (tables s) ''_docsight_meta'' \<Longrightarrow> entries_kept s s'"
  by (auto simp: entries_kept_def rows_of_def table_columns_def table_exists_def list_all2_same)

lemma meta_version_entries:
  assumes "apply_meta_version s = Inr s'"
  shows "entries_kept s s'"
  using assms
proof (cases rule: meta_version_map)
  case (1 tb)
  then show ?thesis
    by (auto simp: entries_kept_def rows_of_def table_columns_def table_exists_def list_all2_same list_all2_map2)
qed

lemma core_entries_kept:
  assumes "run_migrations clock CORE_MIGRATIONS db = (db', Inr ids)"
  shows "entries_kept (shape db) (shape db')"
  using assms
proof (cases rule: core_chain)
  case (1 s1 s2 s3 s4 s5)
  let ?m = "\<lambda>s. map_of (tables s) ''_docsight_meta''"
  have "?m s2 = ?m s1" using 1(2) incidents_step_other [of s1 s2 "''_docsight_meta''"] by auto
  moreover have "?m (fold (\<lambda>t. add_column_if_missing t ''is_demo'' (IntV 0)) ts s) = ?m s"
    if "''_docsight_meta'' \<notin> set ts" for ts s
    using that by (induction ts arbitrary: s) (auto simp: add_column_other)
  from this [of DEMO_TABLES s2] have "?m s3 = ?m s2" using 1(3) by (auto simp: apply_flag_def DEMO_TABLES_def)
  moreover have "?m s4 = ?m s3" using 1(4) by (auto simp: apply_snapshot_columns_def add_column_other)
  moreover have "?m (shape db') = ?m s5" using 1(6) add_column_other [of "''_docsight_meta''" "''api_tokens''"]
    by (auto simp: apply_token_scope_def dest: sym)
  moreover have "entries_kept s4 s5" using 1(5) meta_version_entries entries_kept_same [of s4 s4] by auto
  ultimately have later: "entries_kept s1 (shape db')"
    by (simp add: entries_kept_def rows_of_def table_columns_def table_exists_def)
  show ?thesis
  proof (cases "table_exists (shape db) ''_docsight_meta''")
    case True
    then have "?m s1 = ?m (shape db)" using 1(1) execute_schema_existing by auto
    with later show ?thesis by (simp add: entries_kept_def rows_of_def table_columns_def table_exists_def)
  next
    case False
    then show ?thesis by (simp add: entries_kept_def rows_of_def table_columns_def table_exists_def)
  qed
qed


text \<open>
  A database of the first releases: two incidents, three attachments, one of them without its
  incident.  Every step applies, and the attachments are still all there.
\<close>

definition old_incident :: "int \<Rightarrow> row" where
  "old_incident n = [(''id'', IntV n), (''date'', TextV ''2025-01-01''), (''title'', TextV ''t''), (''description'', Null),
     (''created_at'', TextV ''c''), (''updated_at'', TextV ''u'')]"

definition old_attachment :: "int \<Rightarrow> int \<Rightarrow> row" where
  "old_attachment n i = [(''id'', IntV n), (''incident_id'', IntV i), (''filename'', TextV ''f''),
     (''mime_type'', TextV ''text/plain''), (''data'', BlobV ''d''), (''created_at'', TextV ''c'')]"

definition old_database :: database where
  "old_database = \<lparr>shape = \<lparr>
     tables =
       [(''incidents'', \<lparr>cols = LEGACY_INCIDENT_COLUMNS, rows = [old_incident 1, old_incident 2]\<rparr>),
        (''incident_attachments'', \<lparr>cols = ATTACHMENT_COLUMNS,
           rows = [old_attachment 7 1, old_attachment 8 2, old_attachment 9 5]\<rparr>)],
     indexes = []\<rparr>, registry = None\<rparr>"

abbreviation old_run :: "database \<times> (db_error + string list)" where
  "old_run \<equiv> run_migrations (\<lambda>i. ''day one'') CORE_MIGRATIONS old_database"

lemma old_run_ids: "snd old_run = Inr (map migration_id CORE_MIGRATIONS)"
  by code_simp

lemma old_run_pair: "old_run = (fst old_run, Inr (map migration_id CORE_MIGRATIONS))"
  by (metis old_run_ids prod.collapse)

lemma core_ids_distinct: "distinct (map migration_id CORE_MIGRATIONS)"
  by code_simp


theorem migrations_run_once_witness:
  "run_migrations (\<lambda>i. ''day two'') CORE_MIGRATIONS (fst old_run) = (fst old_run, Inr [])"
  using migrations_run_once [OF old_run_pair core_ids_distinct] by blast

definition odd_database :: database where
  "odd_database = \<lparr>shape = \<lparr>tables = [(''events'', \<lparr>cols = [''id''], rows = []\<rparr>)], indexes = []\<rparr>, registry = None\<rparr>"

lemma odd_run: "snd (run_migrations (\<lambda>i. ''now'') CORE_MIGRATIONS odd_database) = Inl (OperationalError ''no such column'')"
  by code_simp

text \<open>The baseline creates tables before it meets the odd one; none of them is there afterwards.\<close>

lemma odd_half: "case execute_schema CORE_SCHEMA (shape odd_database) of Inr s \<Rightarrow> False
  | Inl (e, half) \<Rightarrow> table_exists half ''snapshots''"
  by code_simp

theorem failed_step_rolls_back_witness:
  "let r = run_migrations (\<lambda>i. ''now'') CORE_MIGRATIONS odd_database
   in shape (fst r) = shape odd_database \<and> recorded (fst r) = {}
    \<and> (case execute_schema CORE_SCHEMA (shape odd_database) of Inr s \<Rightarrow> False
        | Inl (e, half) \<Rightarrow> table_exists half ''snapshots'' \<and> \<not> table_exists (shape (fst r)) ''snapshots'')"
proof -
  define r where "r = run_migrations (\<lambda>i. ''now'') CORE_MIGRATIONS odd_database"
  have r: "run_migrations (\<lambda>i. ''now'') CORE_MIGRATIONS odd_database = (fst r, Inl (OperationalError ''no such column''))"
    using odd_run by (simp add: r_def prod_eq_iff)
  from failed_step_rolls_back [OF r] obtain before m after ids where
    f: "CORE_MIGRATIONS = before @ m # after" "migrate_all (\<lambda>i. ''now'') before (ensure_registry odd_database) = (fst r, Inr ids)"
      "recorded (fst r) = recorded odd_database \<union> migration_id ` set before" by blast
  have none: "recorded odd_database = {}" by (simp add: recorded_def odd_database_def)
  have e: "snd (migrate_all (\<lambda>i. ''now'') [hd CORE_MIGRATIONS] (ensure_registry odd_database)) \<noteq> Inr ids'" for ids'
  proof -
    have "isl (snd (migrate_all (\<lambda>i. ''now'') [hd CORE_MIGRATIONS] (ensure_registry odd_database)))" by code_simp
    then show ?thesis by (cases "snd (migrate_all (\<lambda>i. ''now'') [hd CORE_MIGRATIONS] (ensure_registry odd_database))") auto
  qed
  have "before = []"
  proof (cases before)
    case (Cons b bs)
    have "b = hd CORE_MIGRATIONS" unfolding f(1) Cons by simp
    with f(2) Cons e show ?thesis by (auto split: prod.splits sum.splits)
  qed
  then have "fst r = ensure_registry odd_database" "recorded (fst r) = {}" using f(2,3) none by simp_all
  then have "shape (fst r) = shape odd_database" "recorded (fst r) = {}" by simp_all
  moreover have "\<not> table_exists (shape odd_database) ''snapshots''" by code_simp
  ultimately show ?thesis using odd_half by (auto simp: r_def Let_def split: sum.splits)
qed

section \<open>The shape a run ends with\<close>

lemma execute_schema_creates:
  "execute_schema sts s = Inr s' \<Longrightarrow> CreateTable t cs \<in> set sts \<Longrightarrow> table_exists s' t"
proof (induction sts arbitrary: s)
  case (Cons st sts)
  then obtain s1 where s1: "execute st s = Inr s1" "execute_schema sts s1 = Inr s'" by (auto split: sum.splits)
  show ?case
  proof (cases "st = CreateTable t cs")
    case True
    with s1(1) have "table_exists s1 t" by (auto simp: table_exists_def db_simps)
    with execute_schema_existing [OF s1(2)] show ?thesis by (simp add: table_exists_def)
  next
    case False
    with Cons.prems(2) Cons.IH [OF s1(2)] show ?thesis by simp
  qed
qed simp

definition fits :: "sql_table \<Rightarrow> bool" where
  "fits tb \<longleftrightarrow> cols tb \<noteq> [] \<and> list_all (\<lambda>r. map fst r = cols tb) (rows tb)"

definition well_shaped :: "schema \<Rightarrow> bool" where
  "well_shaped s \<longleftrightarrow> distinct (dict_keys (tables s)) \<and> list_all (\<lambda>(t, tb). fits tb) (tables s)"

lemma well_shapedD: "well_shaped s \<Longrightarrow> map_of (tables s) t = Some tb \<Longrightarrow> fits tb"
  by (auto simp: well_shaped_def list_all_iff dest!: map_of_SomeD)

lemma well_shapedI:
  "distinct (dict_keys (tables s)) \<Longrightarrow> (\<And>t tb. map_of (tables s) t = Some tb \<Longrightarrow> fits tb) \<Longrightarrow> well_shaped s"
  by (auto simp: well_shaped_def list_all_iff)

lemma well_shaped_with_table: "well_shaped s \<Longrightarrow> fits tb \<Longrightarrow> well_shaped (with_table t tb s)"
  by (rule well_shapedI) (auto simp: with_table_def well_shaped_def list_all_iff dest!: map_of_SomeD split: if_splits)

lemma well_shaped_execute:
  assumes "execute st s = Inr s'" "well_shaped s" "case st of CreateTable t cs \<Rightarrow> cs \<noteq> [] | _ \<Rightarrow> True"
  shows "well_shaped s'"
proof (cases st)
  case (CreateTable t cs)
  with assms show ?thesis
    by (auto simp: create_table_def fits_def intro!: well_shaped_with_table split: if_splits)
next
  case (CreateIndex u idx t cs)
  with assms create_index_tables show ?thesis by (simp add: well_shaped_def)
qed

lemma well_shaped_execute_schema:
  "execute_schema sts s = Inr s' \<Longrightarrow> well_shaped s \<Longrightarrow>
   list_all (\<lambda>st. case st of CreateTable t cs \<Rightarrow> cs \<noteq> [] | _ \<Rightarrow> True) sts \<Longrightarrow> well_shaped s'"
  by (induction sts arbitrary: s) (auto split: sum.splits dest: well_shaped_execute)

lemma well_shaped_add_column: "well_shaped s \<Longrightarrow> well_shaped (add_column_if_missing t c v s)"
  by (auto simp: add_column_if_missing_def add_column_def fits_def list_all_iff
      intro!: well_shaped_with_table dest: well_shapedD split: option.splits)

lemma well_shaped_flag: "well_shaped s \<Longrightarrow> apply_flag ts s = Inr s' \<Longrightarrow> well_shaped s'"
proof -
  have "well_shaped s \<Longrightarrow> well_shaped (fold (\<lambda>t. add_column_if_missing t ''is_demo'' (IntV 0)) ts s)"
    by (induction ts arbitrary: s) (simp_all add: well_shaped_add_column)
  then show "well_shaped s \<Longrightarrow> apply_flag ts s = Inr s' \<Longrightarrow> well_shaped s'" by (auto simp: apply_flag_def)
qed

lemma well_shaped_rename:
  assumes "well_shaped s" "\<not> table_exists s new" "old \<noteq> new"
  shows "well_shaped (rename_table old new s)"
proof (rule well_shapedI)
  let ?g = "\<lambda>t. if t = old then new else t"
  have keys: "dict_keys (tables (rename_table old new s)) = map ?g (dict_keys (tables s))"
    by (auto simp: rename_table_def)
  have "inj_on ?g (set (dict_keys (tables s)))"
    using assms(2) by (auto simp: inj_on_def table_exists_def map_of_eq_None_iff)
  with assms(1) show "distinct (dict_keys (tables (rename_table old new s)))"
    unfolding keys by (subst distinct_map) (simp add: well_shaped_def)
qed (use assms in \<open>auto simp: db_simps dest: well_shapedD split: if_splits\<close>)

lemma well_shaped_drop: "well_shaped s \<Longrightarrow> well_shaped (drop_table t s)"
  by (auto simp: well_shaped_def drop_table_def list_all_iff distinct_map_filter)

lemma fits_insert_attachments: "insert_attachments as tb = Inr tb' \<Longrightarrow> fits tb \<Longrightarrow> fits tb'"
  using insert_attachments_rows [of as tb tb'] by (auto simp: fits_def list_all_iff)

lemma well_shaped_incidents:
  assumes "well_shaped s" "apply_incidents_migration s = Inr s'"
  shows "well_shaped s'"
proof (cases "\<not> has_columns LEGACY_INCIDENT_COLUMNS s ''incidents'' \<or> table_exists s ''journal_entries''")
  case True
  then have "s' = s" using assms(2) by (auto simp: apply_incidents_migration_def)
  then show ?thesis using assms(1) by simp
next
  case False
  define s1 where "s1 = rename_table ''incidents'' ''journal_entries'' s"
  define s2 where "s2 = create_table ''journal_attachments'' JOURNAL_ATTACHMENT_COLUMNS s1"
  from assms(2) False obtain s3 where s3: "move_attachments s2 = Inr s3"
    and s': "s' = add_column_if_missing ''journal_entries'' ''icon'' Null
      (add_column_if_missing ''journal_entries'' ''incident_id'' Null s3)"
    by (auto simp: apply_incidents_migration_def s1_def s2_def Let_def split: sum.splits)
  have "well_shaped s1" using well_shaped_rename [OF assms(1)] False by (simp add: s1_def)
  then have s2: "well_shaped s2"
    by (auto simp: s2_def create_table_def fits_def JOURNAL_ATTACHMENT_COLUMNS_def intro: well_shaped_with_table)
  have "well_shaped s3"
  proof (cases "s3 = s2")
    case False
    with s3 obtain tb where tb: "map_of (tables s2) ''journal_attachments'' = Some tb"
      by (cases "map_of (tables s2) ''journal_attachments''") (simp_all add: move_attachments_def Let_def split: if_splits)
    with s3 False obtain tb' where tb': "insert_attachments (filter (adopted s2) (rows_of s2 ''incident_attachments'')) tb = Inr tb'"
      "s3 = with_table ''journal_attachments'' tb' s2
       \<or> s3 = drop_table ''incident_attachments'' (with_table ''journal_attachments'' tb' s2)"
      by (cases "insert_attachments (filter (adopted s2) (rows_of s2 ''incident_attachments'')) tb")
        (simp_all add: move_attachments_def Let_def split: if_splits)
    have "well_shaped (with_table ''journal_attachments'' tb' s2)"
      using fits_insert_attachments [OF tb'(1)] well_shapedD [OF s2 tb] by (intro well_shaped_with_table s2)
    with tb'(2) show ?thesis by (auto intro: well_shaped_drop)
  qed (simp add: s2)
  then show ?thesis unfolding s' by (intro well_shaped_add_column)
qed

lemma keys_replaced: "k \<in> set (dict_keys d) \<Longrightarrow> dict_keys (dict_set k v d) = dict_keys d"
  by (induction k v d rule: dict_set.induct) auto

lemma well_shaped_meta:
  assumes "well_shaped s" "apply_meta_version s = Inr s'"
  shows "well_shaped s'"
proof -
  from assms(2) obtain tb where tb: "map_of (tables s) ''_docsight_meta'' = Some tb" "{''key'', ''value''} \<subseteq> set (cols tb)"
    "s' = with_table ''_docsight_meta'' (if list_ex is_version (rows tb)
       then tb\<lparr>rows := map (\<lambda>r. if is_version r then dict_set ''value'' (TextV ''2'') r else r) (rows tb)\<rparr>
       else tb\<lparr>rows := rows tb @
         [map (\<lambda>c. (c, dict_get [(''key'', TextV ''schema_version''), (''value'', TextV ''2'')] c Null)) (cols tb)]\<rparr>) s"
    by (auto simp: apply_meta_version_def split: option.splits if_splits)
  have "fits tb" by (rule well_shapedD [OF assms(1) tb(1)])
  then have "fits (if list_ex is_version (rows tb)
       then tb\<lparr>rows := map (\<lambda>r. if is_version r then dict_set ''value'' (TextV ''2'') r else r) (rows tb)\<rparr>
       else tb\<lparr>rows := rows tb @
         [map (\<lambda>c. (c, dict_get [(''key'', TextV ''schema_version''), (''value'', TextV ''2'')] c Null)) (cols tb)]\<rparr>)"
    using tb(2) by (auto simp: fits_def list_all_iff keys_replaced comp_def)
  then show ?thesis unfolding tb(3) by (rule well_shaped_with_table [OF assms(1)])
qed

definition shapes :: "(schema \<Rightarrow> step_result) \<Rightarrow> bool" where
  "shapes f \<longleftrightarrow> (\<forall>s s'. well_shaped s \<longrightarrow> f s = Inr s' \<longrightarrow> well_shaped s')"

lemma migrate_all_shaped:
  assumes "list_all (\<lambda>m. shapes (apply_step m)) ms" and "well_shaped (shape db)"
  shows "well_shaped (shape (fst (migrate_all clock ms db)))"
  using assms
proof (induction ms arbitrary: db)
  case (Cons m ms)
  obtain db1 r where m: "migrate clock m db = (db1, r)" by fastforce
  show ?case
  proof (cases r)
    case (Inl e)
    with m migrate_failed [of clock m db db1 e] Cons.prems show ?thesis by simp
  next
    case (Inr ids)
    have "migrate clock m db = (db1, Inr ids)" using m Inr by simp
    then have "well_shaped (shape db1)"
      by (cases rule: migrate_cases) (use Cons.prems in \<open>auto simp: stage_def shapes_def\<close>)
    with Cons.IH [of db1] Cons.prems(1) m Inr show ?thesis by (auto split: prod.splits sum.splits)
  qed
qed simp

lemma schemas_have_columns:
  "list_all (\<lambda>st. case st of CreateTable t cs \<Rightarrow> cs \<noteq> [] | _ \<Rightarrow> True) (CORE_SCHEMA @ SEGMENT_SCHEMA @ JOURNAL_SCHEMA)"
  by code_simp

lemma shapes_schema:
  "list_all (\<lambda>st. case st of CreateTable t cs \<Rightarrow> cs \<noteq> [] | _ \<Rightarrow> True) sts \<Longrightarrow> shapes (execute_schema sts)"
  unfolding shapes_def using well_shaped_execute_schema by blast

lemma steps_shaped:
  "list_all (\<lambda>m. shapes (apply_step m)) (CORE_MIGRATIONS @ SEGMENT_MIGRATIONS @ JOURNAL_MIGRATIONS)"
proof -
  have "shapes (execute_schema CORE_SCHEMA)" "shapes (execute_schema SEGMENT_SCHEMA)" "shapes (execute_schema JOURNAL_SCHEMA)"
    using schemas_have_columns unfolding list_all_append by (blast intro: shapes_schema)+
  moreover have "shapes apply_incidents_migration" "shapes apply_meta_version"
    unfolding shapes_def by (blast intro: well_shaped_incidents, blast intro: well_shaped_meta)
  moreover have "shapes (apply_flag ts)" for ts
    unfolding shapes_def by (blast intro: well_shaped_flag)
  moreover have "shapes apply_snapshot_columns" "shapes apply_token_scope"
    by (auto simp: shapes_def apply_snapshot_columns_def apply_token_scope_def well_shaped_add_column)
  ultimately show ?thesis
    by (simp add: CORE_MIGRATIONS_def SEGMENT_MIGRATIONS_def JOURNAL_MIGRATIONS_def)
qed

text \<open>
  Whatever list of migrations runs, and wherever it stops, a database whose rows have
  exactly the columns of their tables, with every table named once, is one afterwards.
\<close>

theorem migrations_keep_rows_typed:
  assumes "set ms \<subseteq> set (CORE_MIGRATIONS @ SEGMENT_MIGRATIONS @ JOURNAL_MIGRATIONS)" and "well_shaped (shape db)"
  shows "well_shaped (shape (fst (run_migrations clock ms db)))"
proof -
  have "list_all (\<lambda>m. shapes (apply_step m)) ms" using steps_shaped assms(1) unfolding list_all_iff by blast
  from migrate_all_shaped [OF this, of "ensure_registry db" clock] assms(2) show ?thesis
    by (simp add: run_migrations_def)
qed

theorem migrations_keep_rows_typed_witness:
  "well_shaped (shape (fst old_run))"
proof (rule migrations_keep_rows_typed)
  show "well_shaped (shape old_database)" by code_simp
qed simp

lemma keeps_existing: "keeps s s' t \<Longrightarrow> table_exists s t \<Longrightarrow> table_exists s' t"
  by (simp add: keeps_def)

lemma keeps_columns: "keeps s s' t \<Longrightarrow> c \<in> set (table_columns s t) \<Longrightarrow> c \<in> set (table_columns s' t)"
  by (auto simp: keeps_def)

lemma core_stages:
  assumes "run_migrations clock CORE_MIGRATIONS db = (db', Inr ids)" "registry db = None"
  obtains s1 s2 s3 s4 s5 where
    "execute_schema CORE_SCHEMA (shape db) = Inr s1"
    "incidents_migration_applied s1 = Inr True \<and> s1 = s2 \<or> apply_incidents_migration s1 = Inr s2"
    "flag_applied DEMO_TABLES s2 = Inr True \<and> s2 = s3 \<or> apply_flag DEMO_TABLES s2 = Inr s3"
    "snapshot_columns_applied s3 = Inr True \<and> s3 = s4 \<or> apply_snapshot_columns s3 = Inr s4"
    "meta_version_applied s4 = Inr True \<and> s4 = s5 \<or> apply_meta_version s4 = Inr s5"
    "token_scope_applied s5 = Inr True \<and> s5 = shape db' \<or> apply_token_scope s5 = Inr (shape db')"
proof -
  have "chain stage CORE_MIGRATIONS (shape db) (shape db')"
    by (rule run_stages [OF assms(1) _ core_ids_distinct]) (simp add: recorded_def assms(2))
  with that show thesis unfolding CORE_MIGRATIONS_def chain.simps stage_def migration.simps by fast
qed

text \<open>The steps after the incidents: none creates a table, each keeps the rows, and each reaches its shape.\<close>

lemma core_tail_head:
  assumes "flag_applied DEMO_TABLES s2 = Inr True \<and> s2 = s3 \<or> apply_flag DEMO_TABLES s2 = Inr s3"
    "snapshot_columns_applied s3 = Inr True \<and> s3 = s4 \<or> apply_snapshot_columns s3 = Inr s4"
    "meta_version_applied s4 = Inr True \<and> s4 = s5 \<or> apply_meta_version s4 = Inr s5"
    "token_scope_applied s5 = Inr True \<and> s5 = s6 \<or> apply_token_scope s5 = Inr s6"
  shows "table_exists s6 t \<longleftrightarrow> table_exists s2 t"
    and "t \<in> set DEMO_TABLES \<Longrightarrow> \<not> table_exists s6 t \<or> ''is_demo'' \<in> set (table_columns s6 t)"
    and "table_columns s2 ''snapshots'' \<noteq> [] \<Longrightarrow> has_columns [''analysis_meta_json'', ''raw_json''] s6 ''snapshots''"
    and "table_exists s2 ''api_tokens'' \<Longrightarrow> ''scope'' \<in> set (table_columns s6 ''api_tokens'')"
    and "meta_version_applied s6 = Inr True"
proof -
  have k2: "keeps s2 s3 t" "table_exists s3 t \<longleftrightarrow> table_exists s2 t" for t
    using assms(1) apply_flag_keeps [of DEMO_TABLES s2 s3 t] by auto
  have k3: "keeps s3 s4 t" "table_exists s4 t \<longleftrightarrow> table_exists s3 t" for t
    using assms(2) snapshot_columns_keeps [of s3 s4 t] by auto
  have k4: "t = ''_docsight_meta'' \<or> keeps s4 s5 t" "table_exists s5 t \<longleftrightarrow> table_exists s4 t" for t
    using assms(3) meta_version_keeps [of s4 s5 t] by auto
  have k5: "keeps s5 s6 t" "table_exists s6 t \<longleftrightarrow> table_exists s5 t" for t
    using assms(4) token_scope_keeps [of s5 s6 t] by auto
  show "table_exists s6 t \<longleftrightarrow> table_exists s2 t" by (simp add: k2 k3 k4 k5)
  show "\<not> table_exists s6 t \<or> ''is_demo'' \<in> set (table_columns s6 t)" if t: "t \<in> set DEMO_TABLES"
  proof -
    have "\<not> table_exists s3 t \<or> ''is_demo'' \<in> set (table_columns s3 t)"
      using assms(1) apply_flag_keeps [of DEMO_TABLES s2 s3 t] t by (auto simp: flag_applied_def list_all_iff)
    moreover have "t \<noteq> ''_docsight_meta''" using t by (auto simp: DEMO_TABLES_def)
    ultimately show ?thesis using k3 [of t] k4 [of t] k5 [of t] by (auto dest!: keeps_columns)
  qed
  show "has_columns [''analysis_meta_json'', ''raw_json''] s6 ''snapshots''" if "table_columns s2 ''snapshots'' \<noteq> []"
  proof -
    have "table_columns s3 ''snapshots'' \<noteq> []" using that k2(1) [of "''snapshots''"] by (auto simp: keeps_def)
    moreover from this have "table_exists s3 ''snapshots''"
      by (cases "map_of (tables s3) ''snapshots''") (simp_all add: table_exists_def table_columns_def)
    ultimately have "has_columns [''analysis_meta_json'', ''raw_json''] s4 ''snapshots''"
      using assms(2) snapshot_columns_keeps [of s3 s4 "''snapshots''"] by (auto simp: snapshot_columns_applied_def)
    then show ?thesis using k4(1) [of "''snapshots''"] k5(1) [of "''snapshots''"] by (auto dest: keeps_columns)
  qed
  show "''scope'' \<in> set (table_columns s6 ''api_tokens'')" if "table_exists s2 ''api_tokens''"
    using that assms(4) token_scope_keeps [of s5 s6 "''api_tokens''"] k2 k3 k4 by (auto simp: token_scope_applied_def)
  have "meta_version_applied s5 = Inr True" using assms(3) meta_version_keeps [of s4 s5 undefined] by auto
  moreover have "s5 = s6 \<or> s6 = add_column_if_missing ''api_tokens'' ''scope'' (TextV ''api'') s5"
    using assms(4) by (auto simp: apply_token_scope_def)
  then have "map_of (tables s6) ''_docsight_meta'' = map_of (tables s5) ''_docsight_meta''"
    by (elim disjE) (simp_all add: add_column_other)
  then have "meta_version_applied s6 = meta_version_applied s5"
    by (simp only: meta_version_applied_def table_exists_def table_columns_def rows_of_def)
  ultimately show "meta_version_applied s6 = Inr True" by simp
qed

text \<open>
  A database that adopts the registry has the current shape when the run succeeds, whatever
  it held before: every table of demo data that exists has its flag, snapshots have the later
  columns, tokens a scope, and the version entry reads the current version.
\<close>

theorem core_migrations_reach_head:
  assumes "run_migrations clock CORE_MIGRATIONS db = (db', Inr ids)" "registry db = None" "well_shaped (shape db)"
  shows "list_all (\<lambda>t. \<not> table_exists (shape db') t \<or> ''is_demo'' \<in> set (table_columns (shape db') t)) DEMO_TABLES
    \<and> has_columns [''analysis_meta_json'', ''raw_json''] (shape db') ''snapshots''
    \<and> ''scope'' \<in> set (table_columns (shape db') ''api_tokens'')
    \<and> meta_version_applied (shape db') = Inr True"
  using assms(1,2)
proof (cases rule: core_stages)
  case st: (1 s1 s2 s3 s4 s5)
  have made: "table_exists s1 ''snapshots''" "table_exists s1 ''api_tokens''"
    by (rule execute_schema_creates [OF st(1)]; simp add: CORE_SCHEMA_def)+
  have "well_shaped s1"
    using st(1) assms(3) schemas_have_columns unfolding list_all_append by (blast intro: well_shaped_execute_schema)
  then have "table_columns s1 ''snapshots'' \<noteq> []"
    using made(1) well_shapedD [of s1 "''snapshots''"] by (auto simp: table_exists_def table_columns_def fits_def)
  moreover have "keeps s1 s2 t" if "t \<notin> {''incidents'', ''incident_attachments''}" for t
    using st(2) incidents_step_keeps [of s1 s2 t] that by auto
  from this [of "''snapshots''"] this [of "''api_tokens''"] have "keeps s1 s2 ''snapshots''" "keeps s1 s2 ''api_tokens''" by simp_all
  ultimately have "table_columns s2 ''snapshots'' \<noteq> []" "table_exists s2 ''api_tokens''"
    using made(2) by (auto simp: keeps_def)
  with core_tail_head [OF st(3-6)] show ?thesis by (simp add: list_all_iff)
qed

theorem core_migrations_reach_head_witness:
  "meta_version_applied (shape (fst old_run)) = Inr True
   \<and> ''is_demo'' \<in> set (table_columns (shape (fst old_run)) ''journal_entries'')"
proof -
  have "well_shaped (shape old_database)" "registry old_database = None" by code_simp+
  from core_migrations_reach_head [OF old_run_pair this(2,1)]
  have head: "meta_version_applied (shape (fst old_run)) = Inr True"
    "\<not> table_exists (shape (fst old_run)) ''journal_entries'' \<or> ''is_demo'' \<in> set (table_columns (shape (fst old_run)) ''journal_entries'')"
    by (simp_all add: DEMO_TABLES_def)
  moreover have "table_exists (shape (fst old_run)) ''journal_entries''" by code_simp
  ultimately show ?thesis by blast
qed

section \<open>The core, then the journal\<close>

lemma execute_schema_creates_only:
  "execute_schema sts s = Inr s' \<Longrightarrow> \<not> table_exists s t \<Longrightarrow> list_all (\<lambda>st. case st of CreateTable t' cs \<Rightarrow> t' \<noteq> t | _ \<Rightarrow> True) sts
    \<Longrightarrow> \<not> table_exists s' t"
proof (induction sts arbitrary: s)
  case (Cons st sts)
  then obtain s1 where s1: "execute st s = Inr s1" "execute_schema sts s1 = Inr s'" by (auto split: sum.splits)
  have "\<not> table_exists s1 t"
    using s1(1) Cons.prems(2,3) by (cases st) (auto simp: table_exists_def db_simps create_index_tables)
  with Cons.IH [OF s1(2)] Cons.prems(3) show ?case by simp
qed simp

lemma moved_away:
  assumes "apply_incidents_migration s = Inr s'" "has_columns LEGACY_INCIDENT_COLUMNS s ''incidents''"
    "\<not> table_exists s ''journal_entries''"
  shows "\<not> table_exists s' ''incidents'' \<and> incidents_moved s s'"
proof -
  define s1 where "s1 = rename_table ''incidents'' ''journal_entries'' s"
  define s2 where "s2 = create_table ''journal_attachments'' JOURNAL_ATTACHMENT_COLUMNS s1"
  from assms obtain s3 where s3: "move_attachments s2 = Inr s3"
    and s': "s' = add_column_if_missing ''journal_entries'' ''icon'' Null
      (add_column_if_missing ''journal_entries'' ''incident_id'' Null s3)"
    by (auto simp: apply_incidents_migration_def s1_def s2_def Let_def split: sum.splits)
  have "map_of (tables s1) ''incidents'' = None"
    unfolding s1_def using assms(3) by (subst rename_table_map) auto
  then have gone: "\<not> table_exists s' ''incidents''"
    using move_attachments_keeps [OF s3, of "''incidents''"] 
    by (simp add: s') (simp add: table_exists_def s2_def db_simps split: if_splits)
  have "table_exists s ''incidents''"
    using assms(2) by (cases "map_of (tables s) ''incidents''")
      (simp_all add: table_exists_def table_columns_def LEGACY_INCIDENT_COLUMNS_def)
  with gone have "s' \<noteq> s" by auto
  with incidents_step_keeps [OF assms(1)] gone show ?thesis by blast
qed

lemma upgrade_core:
  assumes "run_migrations clock CORE_MIGRATIONS db = (db1, Inr ids)" "registry db = None"
    and "has_columns LEGACY_INCIDENT_COLUMNS (shape db) ''incidents''" "\<not> table_exists (shape db) ''journal_entries''"
  shows "grown (rows_of (shape db) ''incidents'') (rows_of (shape db1) ''journal_entries'')
    \<and> \<not> table_exists (shape db1) ''incidents''"
  using assms(1,2)
proof (cases rule: core_stages)
  case st: (1 a b c d e)
  let ?s = "shape db" and ?s1 = "shape db1"
  have inc: "table_exists ?s ''incidents''"
    using assms(3) by (cases "map_of (tables ?s) ''incidents''")
      (simp_all add: table_exists_def table_columns_def LEGACY_INCIDENT_COLUMNS_def)
  note same = execute_schema_existing [OF st(1) inc]
  have a: "has_columns LEGACY_INCIDENT_COLUMNS a ''incidents''" "rows_of a ''incidents'' = rows_of ?s ''incidents''"
    using assms(3) same by (simp_all add: table_columns_def rows_of_def)
  have "\<not> table_exists a ''journal_entries''"
    by (rule execute_schema_creates_only [OF st(1) assms(4)]) (simp add: CORE_SCHEMA_def)
  with a(1) st(2) moved_away [of a b] have b: "\<not> table_exists b ''incidents''" "incidents_moved a b"
    by (auto simp: incidents_migration_applied_def LEGACY_INCIDENT_COLUMNS_def)
  have "keeps b ?s1 ''journal_entries''" by (rule core_tail_keeps [of b c d e]) (use st(3-6) in auto)
  with b(2) a(2) have "grown (rows_of ?s ''incidents'') (rows_of ?s1 ''journal_entries'')"
    unfolding incidents_moved_def keeps_def by (simp add: grown_trans [of _ "rows_of b ''journal_entries''"])
  with b(1) core_tail_head(1) [OF st(3-6)] show ?thesis by simp
qed

lemma upgrade_journal:
  assumes "chain stage JOURNAL_MIGRATIONS s s'" "\<not> table_exists s ''incidents''"
  shows "keeps s s' ''journal_entries''
    \<and> map_of (tables s') ''incidents'' = Some \<lparr>cols = [''id'', ''name'', ''description'', ''status'',
      ''start_date'', ''end_date'', ''icon'', ''created_at'', ''updated_at'', ''is_demo''], rows = []\<rparr>"
proof -
  from assms(1) obtain f where f: "execute_schema JOURNAL_SCHEMA s = Inr f"
    "f = s' \<or> apply_flag [''journal_entries'', ''incidents''] f = Inr s'"
    unfolding JOURNAL_MIGRATIONS_def chain.simps stage_def migration.simps by fast
  have "\<not> table_exists (create_table ''journal_attachments'' JOURNAL_ATTACHMENT_COLUMNS (create_table ''journal_entries''
      [''id'', ''date'', ''title'', ''description'', ''icon'', ''incident_id'', ''created_at'', ''updated_at'', ''is_demo''] s))
      ''incidents''"
    using assms(2) by (simp add: table_exists_def create_table_other)
  then have new: "map_of (tables f) ''incidents'' = Some \<lparr>cols = [''id'', ''name'', ''description'', ''status'',
      ''start_date'', ''end_date'', ''icon'', ''created_at'', ''updated_at'', ''is_demo''], rows = []\<rparr>"
    using f(1) by (auto simp: JOURNAL_SCHEMA_def create_table_map [of "''incidents''"])
  have "''is_demo'' \<in> set (table_columns (add_column_if_missing ''journal_entries'' ''is_demo'' (IntV 0) f) ''incidents'')"
    using new by (simp add: table_columns_def add_column_other)
  then have "apply_flag [''journal_entries'', ''incidents''] f =
      Inr (add_column_if_missing ''journal_entries'' ''is_demo'' (IntV 0) f)"
    by (simp add: apply_flag_def add_column_if_missing_def [of "''incidents''"])
  with f(2) have s': "s' \<in> {f, add_column_if_missing ''journal_entries'' ''is_demo'' (IntV 0) f}" by auto
  then have "map_of (tables s') ''incidents'' = map_of (tables f) ''incidents''"
    using add_column_other [of "''incidents''" "''journal_entries''" "''is_demo''" "IntV 0" f] by auto
  moreover have "keeps f s' ''journal_entries''" using s' keeps_add_column by auto
  with keeps_execute_schema [OF f(1)] have "keeps s s' ''journal_entries''" by (rule keeps_trans)
  ultimately show ?thesis using new by simp
qed

text \<open>
  Upgrading an old installation: when the core and then the journal migrate a database with
  the old incidents and no journal, the old rows are the journal entries, and the incidents are a
  new, empty table of the new form.
\<close>

theorem old_incidents_become_journal:
  assumes "run_migrations clock CORE_MIGRATIONS db = (db1, Inr ids1)" "registry db = None"
    and "has_columns LEGACY_INCIDENT_COLUMNS (shape db) ''incidents''" "\<not> table_exists (shape db) ''journal_entries''"
    and "run_migrations clock' JOURNAL_MIGRATIONS db1 = (db2, Inr ids2)"
  shows "grown (rows_of (shape db) ''incidents'') (rows_of (shape db2) ''journal_entries'')
    \<and> rows_of (shape db2) ''incidents'' = []
    \<and> has_columns [''name'', ''status'', ''start_date'', ''end_date'', ''is_demo''] (shape db2) ''incidents''"
proof -
  note core = upgrade_core [OF assms(1-4)]
  have "recorded db = {}" using assms(2) by (simp add: recorded_def)
  then have "recorded db1 = migration_id ` set CORE_MIGRATIONS"
    using migrate_all_recorded [of clock CORE_MIGRATIONS "ensure_registry db" db1 ids1] assms(1,2)
    by (simp add: run_migrations_def CORE_MIGRATIONS_def)
  then have ids: "migration_id ` set JOURNAL_MIGRATIONS \<inter> recorded db1 = {}"
    by (simp add: CORE_MIGRATIONS_def JOURNAL_MIGRATIONS_def)
  have "chain stage JOURNAL_MIGRATIONS (shape db1) (shape db2)"
    by (rule run_stages [OF assms(5) ids]) (simp add: JOURNAL_MIGRATIONS_def)
  note journal = upgrade_journal [OF this conjunct2 [OF core]]
  have "grown (rows_of (shape db) ''incidents'') (rows_of (shape db2) ''journal_entries'')"
    using core journal by (auto simp: keeps_def intro: grown_trans)
  with journal show ?thesis by (simp add: rows_of_def table_columns_def)
qed

definition old_journal_database :: database where
  "old_journal_database = \<lparr>shape = \<lparr>
     tables = [(''incidents'', \<lparr>cols = LEGACY_INCIDENT_COLUMNS, rows = [old_incident 1, old_incident 2]\<rparr>)],
     indexes = []\<rparr>, registry = None\<rparr>"

theorem old_incidents_become_journal_witness:
  "let db1 = fst (run_migrations (\<lambda>i. ''t'') CORE_MIGRATIONS old_journal_database);
       db2 = fst (run_migrations (\<lambda>i. ''t'') JOURNAL_MIGRATIONS db1)
   in grown [old_incident 1, old_incident 2] (rows_of (shape db2) ''journal_entries'')
    \<and> rows_of (shape db2) ''incidents'' = []"
proof -
  let ?r1 = "run_migrations (\<lambda>i. ''t'') CORE_MIGRATIONS old_journal_database"
  let ?r2 = "run_migrations (\<lambda>i. ''t'') JOURNAL_MIGRATIONS (fst ?r1)"
  have "snd ?r1 = Inr (map migration_id CORE_MIGRATIONS)" "snd ?r2 = Inr (map migration_id JOURNAL_MIGRATIONS)"
    by code_simp+
  then have r: "?r1 = (fst ?r1, Inr (map migration_id CORE_MIGRATIONS))"
    "?r2 = (fst ?r2, Inr (map migration_id JOURNAL_MIGRATIONS))" by (metis prod.collapse)+
  have "has_columns LEGACY_INCIDENT_COLUMNS (shape old_journal_database) ''incidents''"
    "\<not> table_exists (shape old_journal_database) ''journal_entries''" "registry old_journal_database = None"
    "rows_of (shape old_journal_database) ''incidents'' = [old_incident 1, old_incident 2]" by code_simp+
  with old_incidents_become_journal [OF r(1) this(3,1,2) r(2)] show ?thesis by (simp add: Let_def)
qed

end
