(* ===== verification/Calendar.thy ===== *)
theory Calendar
  imports Py_Values
begin

text \<open>
  The part of \<^verbatim>\<open>datetime\<close> the program computes with: naive date-times of the proleptic
  Gregorian calendar, their number of seconds, and the way back.  The main facts are that the
  two are inverse to each other on the years 1 to 9999 and that the numbers are ordered as the
  fields are, from the year down to the second.
\<close>

section \<open>Dates and their ordinals\<close>

definition is_leap :: "int \<Rightarrow> bool" where
  "is_leap y \<longleftrightarrow> y mod 4 = 0 \<and> (y mod 100 \<noteq> 0 \<or> y mod 400 = 0)"

definition leap_day :: "int \<Rightarrow> int" where
  "leap_day y = (if is_leap y then 1 else 0)"

definition days_in_month :: "int \<Rightarrow> int \<Rightarrow> int" where
  "days_in_month y m = (if m = 2 then 28 + leap_day y else if m \<in> {4, 6, 9, 11} then 30 else 31)"

definition days_before_year :: "int \<Rightarrow> int" where
  "days_before_year y = (let p = y - 1 in 365 * p + p div 4 - p div 100 + p div 400)"

definition days_before_month :: "int \<Rightarrow> int \<Rightarrow> int" where
  "days_before_month y m =
     (if m \<le> 1 then 0 else if m = 2 then 31 else leap_day y +
       (if m = 3 then 59 else if m = 4 then 90 else if m = 5 then 120 else if m = 6 then 151
        else if m = 7 then 181 else if m = 8 then 212 else if m = 9 then 243 else if m = 10 then 273
        else if m = 11 then 304 else if m = 12 then 334 else 365))"

record naive =
  nv_year :: int
  nv_month :: int
  nv_day :: int
  nv_hour :: int
  nv_minute :: int
  nv_second :: int

definition valid_ymd :: "int \<Rightarrow> int \<Rightarrow> int \<Rightarrow> bool" where
  "valid_ymd y m d \<longleftrightarrow> 1 \<le> y \<and> y \<le> 9999 \<and> 1 \<le> m \<and> m \<le> 12 \<and> 1 \<le> d \<and> d \<le> days_in_month y m"

definition valid_naive :: "naive \<Rightarrow> bool" where
  "valid_naive v \<longleftrightarrow> valid_ymd (nv_year v) (nv_month v) (nv_day v)
     \<and> 0 \<le> nv_hour v \<and> nv_hour v < 24 \<and> 0 \<le> nv_minute v \<and> nv_minute v < 60 \<and> 0 \<le> nv_second v \<and> nv_second v < 60"

definition ordinal :: "int \<Rightarrow> int \<Rightarrow> int \<Rightarrow> int" where
  "ordinal y m d = days_before_year y + days_before_month y m + d"

text \<open>Seconds since midnight of the day before the first of January of the year 1.\<close>

definition seconds :: "naive \<Rightarrow> int" where
  "seconds v = ordinal (nv_year v) (nv_month v) (nv_day v) * 86400
     + nv_hour v * 3600 + nv_minute v * 60 + nv_second v"

definition year_of :: "int \<Rightarrow> int" where
  "year_of n = (let y = n * 400 div 146097 + 1
     in if n \<le> days_before_year y then y - 1 else if days_before_year (y + 1) < n then y + 1 else y)"

definition month_of :: "int \<Rightarrow> int \<Rightarrow> int" where
  "month_of y r =
     (if r \<le> days_before_month y 2 then 1 else if r \<le> days_before_month y 3 then 2
      else if r \<le> days_before_month y 4 then 3 else if r \<le> days_before_month y 5 then 4
      else if r \<le> days_before_month y 6 then 5 else if r \<le> days_before_month y 7 then 6
      else if r \<le> days_before_month y 8 then 7 else if r \<le> days_before_month y 9 then 8
      else if r \<le> days_before_month y 10 then 9 else if r \<le> days_before_month y 11 then 10
      else if r \<le> days_before_month y 12 then 11 else 12)"

definition civil :: "int \<Rightarrow> naive" where
  "civil u = (let n = u div 86400; s = u mod 86400; y = year_of n; r = n - days_before_year y; m = month_of y r
     in \<lparr>nv_year = y, nv_month = m, nv_day = r - days_before_month y m,
         nv_hour = s div 3600, nv_minute = s mod 3600 div 60, nv_second = s mod 60\<rparr>)"

text \<open>The instants of the years 1 to 9999; arithmetic that leaves them overflows.\<close>

definition MIN_SECONDS :: int where "MIN_SECONDS = 86400"

definition MAX_SECONDS :: int where "MAX_SECONDS = 3652060 * 86400 - 1"

definition checked :: "int \<Rightarrow> naive res" where
  "checked u = (if MIN_SECONDS \<le> u \<and> u \<le> MAX_SECONDS then Inr (civil u) else Inl OverflowError)"

section \<open>Arithmetic of years and months\<close>

lemma div_step:
  assumes "0 < (k::int)"
  shows "y div k = (y - 1) div k + (if y mod k = 0 then 1 else 0)"
proof -
  have y: "y = k * (y div k) + y mod k" and r: "0 \<le> y mod k" "y mod k < k" using assms by simp_all
  show ?thesis
  proof (cases "y mod k = 0")
    case True
    then have "(y - 1) div k = y div k - 1"
      using y assms by (intro int_div_pos_eq [of _ _ _ "k - 1"]) (simp_all add: algebra_simps)
    then show ?thesis using True by simp
  next
    case False
    then have "(y - 1) div k = y div k"
      using y r by (intro int_div_pos_eq [of _ _ _ "y mod k - 1"]) simp_all
    then show ?thesis using False by simp
  qed
qed

lemma leap_range: "0 \<le> leap_day y" "leap_day y \<le> 1"
  by (simp_all add: leap_day_def)

lemma days_next_year: "days_before_year (y + 1) = days_before_year y + 365 + leap_day y"
proof -
  define e :: "int \<Rightarrow> int" where "e k = (if y mod k = 0 then 1 else 0)" for k
  have dvd: "400 dvd y \<Longrightarrow> 100 dvd y" "100 dvd y \<Longrightarrow> 4 dvd y"
    using dvd_trans [of 100 400 y] dvd_trans [of 4 100 y] by simp_all
  have "(if A \<and> (\<not> B \<or> C) then 1 else 0) = (if A then 1 else 0) - (if B then 1 else 0) + (if C then 1 else (0 :: int))"
    if "C \<Longrightarrow> B" "B \<Longrightarrow> A" for A B C
    using that by (cases A; cases B; cases C; simp)
  from this [OF dvd] have "leap_day y = e 4 - e 100 + e 400"
    unfolding leap_day_def is_leap_def e_def mod_eq_0_iff_dvd by simp
  moreover have "y div 4 = (y - 1) div 4 + e 4" "y div 100 = (y - 1) div 100 + e 100" "y div 400 = (y - 1) div 400 + e 400"
    unfolding e_def by (rule div_step, simp)+
  moreover have "days_before_year (y + 1) = 365 * y + y div 4 - y div 100 + y div 400"
    "days_before_year y = 365 * (y - 1) + (y - 1) div 4 - (y - 1) div 100 + (y - 1) div 400"
    by (simp_all add: days_before_year_def Let_def)
  moreover have "n' = n + 365 + l" if "l = e4 - e100 + e400" "a = a' + e4" "b = b' + e100" "c = c' + e400"
    "n' = 365 * y + a - b + c" "n = 365 * (y - 1) + a' - b' + c'" for n n' l e4 e100 e400 a a' b b' c c' :: int
    using that by simp
  ultimately show ?thesis by blast
qed

lemma days_year_mono: "y < y' \<Longrightarrow> days_before_year (y + 1) \<le> days_before_year y'"
proof -
  have "days_before_year (y + 1) \<le> days_before_year (y + 1 + int k)" for k
  proof (induction k)
    case (Suc k)
    then show ?case using days_next_year [of "y + 1 + int k"] leap_range(1) [of "y + 1 + int k"] by (simp add: ac_simps)
  qed simp
  moreover assume "y < y'"
  ultimately show ?thesis using zero_le_imp_eq_int [of "y' - (y + 1)"] by (metis add.commute diff_add_cancel diff_ge_0_iff_ge zless_imp_add1_zle)
qed

lemma days_next_month: "1 \<le> m \<Longrightarrow> m \<le> 12 \<Longrightarrow> days_before_month y (m + 1) = days_before_month y m + days_in_month y m"
proof -
  assume "1 \<le> m" "m \<le> 12"
  then have "m = 1 \<or> m = 2 \<or> m = 3 \<or> m = 4 \<or> m = 5 \<or> m = 6 \<or> m = 7 \<or> m = 8 \<or> m = 9 \<or> m = 10 \<or> m = 11 \<or> m = 12"
    by presburger
  then show "days_before_month y (m + 1) = days_before_month y m + days_in_month y m"
    by (elim disjE) (simp_all add: days_before_month_def days_in_month_def)
qed

lemma days_in_month_range: "28 \<le> days_in_month y m" "days_in_month y m \<le> 31"
  using leap_range [of y] by (auto simp: days_in_month_def)

lemma days_month_mono:
  assumes "1 \<le> m" "m < m'" "m' \<le> 13"
  shows "days_before_month y (m + 1) \<le> days_before_month y m'"
proof -
  have "k + m + 1 \<le> 13 \<Longrightarrow> days_before_month y (m + 1) \<le> days_before_month y (m + 1 + k)" if "0 \<le> k" for k
    using that
  proof (induction k rule: int_ge_induct)
    case (step k)
    then show ?case
      using days_next_month [of "m + 1 + k" y] days_in_month_range(1) [of y "m + 1 + k"] assms(1) by (simp add: ac_simps)
  qed simp
  from this [of "m' - (m + 1)"] assms show ?thesis by simp
qed

lemma days_before_13: "days_before_month y 13 = 365 + leap_day y"
  by (simp add: days_before_month_def)

text \<open>Which year, and which month of it, a day belongs to.\<close>

lemma year_of_bounds:
  assumes "1 \<le> n"
  shows "days_before_year (year_of n) < n \<and> n \<le> days_before_year (year_of n + 1)"
proof -
  define p where "p = n * 400 div 146097"
  have p: "146097 * p \<le> 400 * n" "400 * n < 146097 * (p + 1)" unfolding p_def by auto
  have low: "400 * days_before_year (q + 1) \<le> 146097 * q + 396" and high: "146097 * q - 699 \<le> 400 * days_before_year (q + 1)" for q
    unfolding days_before_year_def Let_def by auto
  note step = days_next_year leap_range
  have y: "year_of n = (if n \<le> days_before_year (p + 1) then p else if days_before_year (p + 2) < n then p + 2 else p + 1)"
  proof -
    have "p + 1 + 1 = p + 2" by simp
    then show ?thesis unfolding year_of_def p_def [symmetric] Let_def by (simp only: add_diff_cancel_right')
  qed
  have "p + 1 + 1 = p + 2" by simp
  with high [of "p + 1"] have "146097 * (p + 1) - 699 \<le> 400 * days_before_year (p + 2)" by metis
  with low [of p] p have b: "days_before_year (p + 1) \<le> n" "n \<le> days_before_year (p + 2) + 1" by linarith+
  consider "n \<le> days_before_year (p + 1)" | "days_before_year (p + 1) < n" "days_before_year (p + 2) < n"
    | "days_before_year (p + 1) < n" "n \<le> days_before_year (p + 2)" by linarith
  then show ?thesis
  proof cases
    case 1
    then have "year_of n = p" by (simp add: y)
    then show ?thesis using 1 b step [of p] by simp
  next
    case 2
    then have "year_of n = p + 2" by (simp add: y)
    then show ?thesis using 2 b step [of "p + 2"] by simp
  next
    case 3
    then have "year_of n = p + 1" by (simp add: y)
    then show ?thesis using 3 \<open>p + 1 + 1 = p + 2\<close> by metis
  qed
qed

lemma year_unique:
  assumes "days_before_year y < n" "n \<le> days_before_year (y + 1)"
    and "days_before_year y' < n" "n \<le> days_before_year (y' + 1)"
  shows "y = y'"
  using assms days_year_mono [of y y'] days_year_mono [of y' y] by linarith

lemma month_of_bounds:
  assumes "1 \<le> r" "r \<le> 365 + leap_day y"
  shows "1 \<le> month_of y r \<and> month_of y r \<le> 12 \<and> days_before_month y (month_of y r) < r
    \<and> r \<le> days_before_month y (month_of y r + 1)"
  using assms leap_range [of y]
  by (auto simp: month_of_def) (auto simp: days_before_month_def)

lemma month_unique:
  assumes "1 \<le> m" "m \<le> 12" "days_before_month y m < r" "r \<le> days_before_month y (m + 1)"
    and "1 \<le> m'" "m' \<le> 12" "days_before_month y m' < r" "r \<le> days_before_month y (m' + 1)"
  shows "m = m'"
  using assms days_month_mono [of m m' y] days_month_mono [of m' m y] by linarith

lemma ordinal_bounds:
  assumes "valid_ymd y m d"
  shows "days_before_year y < ordinal y m d" "ordinal y m d \<le> days_before_year (y + 1)"
    "days_before_month y m < ordinal y m d - days_before_year y"
    "ordinal y m d - days_before_year y \<le> days_before_month y (m + 1)"
proof -
  have m: "1 \<le> m" "m \<le> 12" "1 \<le> d" "d \<le> days_in_month y m" using assms by (auto simp: valid_ymd_def)
  have "0 \<le> days_before_month y m" using leap_range [of y] by (auto simp: days_before_month_def)
  moreover have "days_before_month y (m + 1) \<le> 365 + leap_day y"
    using m days_month_mono [of "m" 13 y] days_before_13 [of y] by simp
  ultimately show "days_before_year y < ordinal y m d" "ordinal y m d \<le> days_before_year (y + 1)"
    "days_before_month y m < ordinal y m d - days_before_year y"
    "ordinal y m d - days_before_year y \<le> days_before_month y (m + 1)"
    using m days_next_month [of m y] days_next_year [of y] by (simp_all add: ordinal_def)
qed

lemma year_of_ordinal: "valid_ymd y m d \<Longrightarrow> year_of (ordinal y m d) = y"
proof -
  assume v: "valid_ymd y m d"
  have "1 \<le> ordinal y m d"
  proof -
    have "y = 1 \<or> 1 < y" using v by (auto simp: valid_ymd_def)
    then have "0 \<le> days_before_year y"
      using days_year_mono [of 1 y] by (auto simp: days_before_year_def)
    with ordinal_bounds(1) [OF v] show ?thesis by simp
  qed
  from year_of_bounds [OF this] ordinal_bounds(1,2) [OF v] show "year_of (ordinal y m d) = y"
    by (blast intro: year_unique)
qed

lemma month_of_ordinal: "valid_ymd y m d \<Longrightarrow> month_of y (ordinal y m d - days_before_year y) = m"
proof -
  assume v: "valid_ymd y m d"
  let ?r = "ordinal y m d - days_before_year y"
  have "1 \<le> ?r" "?r \<le> 365 + leap_day y" using ordinal_bounds [OF v] days_next_year [of y] by simp_all
  from month_of_bounds [OF this] ordinal_bounds(3,4) [OF v] v show "month_of y ?r = m"
    by (intro month_unique [of _ y ?r]) (auto simp: valid_ymd_def)
qed

text \<open>Reading the fields of an instant, and the instant of the fields, are inverse.\<close>

lemma civil_seconds:
  assumes "valid_naive v"
  shows "civil (seconds v) = v"
proof -
  obtain y m d h mi s where v: "v = \<lparr>nv_year = y, nv_month = m, nv_day = d, nv_hour = h, nv_minute = mi, nv_second = s\<rparr>"
    by (cases v)
  with assms have ok: "valid_ymd y m d" "0 \<le> h" "h < 24" "0 \<le> mi" "mi < 60" "0 \<le> s" "s < 60"
    by (simp_all add: valid_naive_def)
  define t where "t = h * 3600 + mi * 60 + s"
  have t: "0 \<le> t" "t < 86400" using ok by (simp_all add: t_def)
  have sec: "seconds v = ordinal y m d * 86400 + t" by (simp add: seconds_def v t_def)
  have day: "seconds v div 86400 = ordinal y m d" "seconds v mod 86400 = t"
    using t by (auto simp: sec intro!: int_div_pos_eq [of _ _ _ t] int_mod_pos_eq [of _ _ "ordinal y m d"])
  have hm: "t = 3600 * h + (mi * 60 + s)" "t = 60 * (60 * h + mi) + s" by (simp_all add: t_def)
  have "t div 3600 = h" by (rule int_div_pos_eq [OF hm(1)]) (use ok in linarith)+
  moreover have "t mod 3600 = mi * 60 + s" by (rule int_mod_pos_eq [OF hm(1)]) (use ok in linarith)+
  moreover from this have "t mod 3600 div 60 = mi" by (intro int_div_pos_eq [of _ _ _ s]) (use ok in simp_all)
  moreover have "t mod 60 = s" by (rule int_mod_pos_eq [OF hm(2)]) (use ok in linarith)+
  ultimately have hms: "t div 3600 = h" "t mod 3600 div 60 = mi" "t mod 60 = s" by simp_all
  show ?thesis
    unfolding civil_def Let_def day hms year_of_ordinal [OF ok(1)] month_of_ordinal [OF ok(1)]
    by (simp add: v ordinal_def)
qed

lemma civil_valid:
  assumes "MIN_SECONDS \<le> u" "u \<le> MAX_SECONDS"
  shows "valid_naive (civil u)" "seconds (civil u) = u"
proof -
  define n y r m where "n = u div 86400" and "y = year_of n" and "r = n - days_before_year y" and "m = month_of y r"
  define t where "t = u mod 86400"
  have t: "0 \<le> t" "t < 86400" by (simp_all add: t_def)
  have n: "1 \<le> n" "n < 3652060" using assms by (simp_all add: n_def MIN_SECONDS_def MAX_SECONDS_def)
  note yb = year_of_bounds [OF n(1), folded y_def]
  have y: "1 \<le> y" "y \<le> 9999"
  proof -
    have "days_before_year 1 = 0" "days_before_year 10000 = 3652059" by (simp_all add: days_before_year_def)
    moreover have "y < 1 \<Longrightarrow> days_before_year (y + 1) \<le> days_before_year 1" by (rule days_year_mono)
    moreover have "9999 < y \<Longrightarrow> days_before_year (9999 + 1) \<le> days_before_year y" by (rule days_year_mono)
    ultimately have "\<not> y < 1" "\<not> 9999 < y" using yb n by auto
    then show "1 \<le> y" "y \<le> 9999" by simp_all
  qed
  have r: "1 \<le> r" "r \<le> 365 + leap_day y" using yb days_next_year [of y] by (simp_all add: r_def)
  note mb = month_of_bounds [OF r, folded m_def]
  have ymd: "valid_ymd y m (r - days_before_month y m)"
    using y mb days_next_month [of m y] by (simp add: valid_ymd_def)
  have c: "civil u = \<lparr>nv_year = y, nv_month = m, nv_day = r - days_before_month y m,
      nv_hour = t div 3600, nv_minute = t mod 3600 div 60, nv_second = t mod 60\<rparr>"
    by (simp add: civil_def Let_def n_def [symmetric] y_def [symmetric] r_def [symmetric] m_def [symmetric] t_def)
  have hms: "0 \<le> t div 3600" "t div 3600 < 24" "0 \<le> t mod 3600 div 60" "t mod 3600 div 60 < 60" "0 \<le> t mod 60" "t mod 60 < 60"
    using t zdiv_mono1 [of t 86399 3600] zdiv_mono1 [of "t mod 3600" 3599 60] by (simp_all add: pos_imp_zdiv_nonneg_iff)
  show "valid_naive (civil u)" unfolding c valid_naive_def naive.simps using ymd hms by blast
  have "t mod 3600 mod 60 = t mod 60" by (rule mod_mod_cancel) simp
  then have "t = t div 3600 * 3600 + t mod 3600 div 60 * 60 + t mod 60"
    using div_mult_mod_eq [of t 3600] div_mult_mod_eq [of "t mod 3600" 60] by linarith
  then have "seconds (civil u) = n * 86400 + t" by (simp add: c seconds_def ordinal_def r_def)
  then show "seconds (civil u) = u" by (simp add: n_def t_def)
qed

section \<open>The order of the fields is the order of the instants\<close>

definition fields_of :: "naive \<Rightarrow> int list" where
  "fields_of v = [nv_year v, nv_month v, nv_day v, nv_hour v, nv_minute v, nv_second v]"

lemma fields_inj: "fields_of v = fields_of w \<longleftrightarrow> v = w"
  by (cases v; cases w) (simp add: fields_of_def)

lemma day_order:
  assumes "valid_ymd y m d" "valid_ymd y' m' d'" "[y, m, d] < [y', m', d']"
  shows "ordinal y m d < ordinal y' m' d'"
proof -
  from assms(3) consider "y < y'" | "y = y'" "m < m'" | "y = y'" "m = m'" "d < d'" by auto
  then show ?thesis
  proof cases
    case 1
    with ordinal_bounds [OF assms(1)] ordinal_bounds [OF assms(2)] days_year_mono [of y y'] show ?thesis by linarith
  next
    case 2
    with ordinal_bounds [OF assms(1)] ordinal_bounds [OF assms(2)] days_month_mono [of m m' y] assms(1,2) show ?thesis
      by (simp add: valid_ymd_def)
  next
    case 3
    then show ?thesis by (simp add: ordinal_def)
  qed
qed

lemma seconds_mono:
  assumes "valid_naive v" "valid_naive w" "fields_of v < fields_of w"
  shows "seconds v < seconds w"
proof -
  let ?o = "\<lambda>v. ordinal (nv_year v) (nv_month v) (nv_day v)"
  let ?t = "\<lambda>v. nv_hour v * 3600 + nv_minute v * 60 + nv_second v"
  have t: "0 \<le> ?t v" "?t v < 86400" "0 \<le> ?t w" "?t w < 86400" using assms(1,2) by (auto simp: valid_naive_def)
  have s: "seconds v = ?o v * 86400 + ?t v" "seconds w = ?o w * 86400 + ?t w" by (simp_all add: seconds_def)
  have ymd: "valid_ymd (nv_year v) (nv_month v) (nv_day v)" "valid_ymd (nv_year w) (nv_month w) (nv_day w)"
    using assms(1,2) by (auto simp: valid_naive_def)
  from assms(3) consider "[nv_year v, nv_month v, nv_day v] < [nv_year w, nv_month w, nv_day w]"
    | "nv_year v = nv_year w" "nv_month v = nv_month w" "nv_day v = nv_day w"
      "[nv_hour v, nv_minute v, nv_second v] < [nv_hour w, nv_minute w, nv_second w]"
    by (auto simp: fields_of_def)
  then show ?thesis
  proof cases
    case 1
    with day_order [OF ymd] have "?o v < ?o w" by blast
    with s t show ?thesis by linarith
  next
    case 2
    have "?t v < ?t w" using 2(4) assms(1,2) by (auto simp: valid_naive_def)
    with s 2 show ?thesis by simp
  qed
qed

lemma seconds_less_iff:
  assumes "valid_naive v" "valid_naive w"
  shows "seconds v < seconds w \<longleftrightarrow> fields_of v < fields_of w"
  using seconds_mono [OF assms] seconds_mono [OF assms(2,1)] fields_inj [of v w]
  by (cases "fields_of v" "fields_of w" rule: linorder_cases) auto

lemma seconds_range:
  assumes "valid_naive v"
  shows "MIN_SECONDS \<le> seconds v \<and> seconds v \<le> MAX_SECONDS"
proof -
  have ymd: "valid_ymd (nv_year v) (nv_month v) (nv_day v)" using assms by (simp add: valid_naive_def)
  have "1 \<le> nv_year v" "nv_year v \<le> 9999" using ymd by (auto simp: valid_ymd_def)
  moreover have "days_before_year 1 = 0" "days_before_year 10000 = 3652059" by (simp_all add: days_before_year_def)
  moreover have "1 < nv_year v \<Longrightarrow> days_before_year (1 + 1) \<le> days_before_year (nv_year v)" by (rule days_year_mono)
  moreover have "nv_year v < 9999 \<Longrightarrow> days_before_year (nv_year v + 1) \<le> days_before_year 9999" by (rule days_year_mono)
  moreover have "days_before_year (1 + 1) = 365" "days_before_year 9999 = 3651694" by (simp_all add: days_before_year_def)
  ultimately have "0 \<le> days_before_year (nv_year v)" "days_before_year (nv_year v + 1) \<le> 3652059"
    by (cases "nv_year v = 1"; cases "nv_year v = 9999"; force)+
  with ordinal_bounds(1,2) [OF ymd] assms show ?thesis
    by (simp add: valid_naive_def seconds_def MIN_SECONDS_def MAX_SECONDS_def)
qed

end
