(* ===== verification/Timestamps.thy ===== *)
theory Timestamps
  imports Calendar "HOL-Library.Monad_Syntax"
begin

text \<open>
  \<^verbatim>\<open>app/tz.py\<close> and \<^verbatim>\<open>app/time_ranges.py\<close>: every timestamp the program stores is the text
  \<^verbatim>\<open>YYYY-MM-DDTHH:MM:SSZ\<close>, compared and cut as text; local times exist at the edges only.
  \<^verbatim>\<open>strftime\<close> and \<^verbatim>\<open>strptime\<close> are those of CPython 3.13 for the formats of the code (years are
  written with four digits, the other fields read with one or two).  A time zone of \<^verbatim>\<open>zoneinfo\<close>
  is its two readings: the offset at an instant, and the offset of a wall clock reading, the
  first of the two where clocks are set back.
\<close>

section \<open>Writing and reading timestamps\<close>

fun pad :: "nat \<Rightarrow> nat \<Rightarrow> string" where
  "pad 0 n = []"
| "pad (Suc k) n = pad k (n div 10) @ [digit_char (n mod 10)]"

definition date_text :: "naive \<Rightarrow> string" where
  "date_text v = pad 4 (nat (nv_year v)) @ ''-'' @ pad 2 (nat (nv_month v)) @ ''-'' @ pad 2 (nat (nv_day v))"

definition stamp :: "naive \<Rightarrow> string" where
  "stamp v = date_text v @ ''T'' @ pad 2 (nat (nv_hour v)) @ '':'' @ pad 2 (nat (nv_minute v)) @ '':''
     @ pad 2 (nat (nv_second v))"

definition utc_stamp :: "int \<Rightarrow> string" where
  "utc_stamp u = stamp (civil u) @ ''Z''"

definition split_at :: "(char \<Rightarrow> bool) \<Rightarrow> string \<Rightarrow> (string \<times> string) option" where
  "split_at p s = (case dropWhile (\<lambda>c. \<not> p c) s of [] \<Rightarrow> None | c # t \<Rightarrow> Some (takeWhile (\<lambda>c. \<not> p c) s, t))"

definition number_field :: "int \<Rightarrow> int \<Rightarrow> string \<Rightarrow> int option" where
  "number_field lo hi t =
     (if length t \<in> {1, 2} \<and> list_all is_digit t \<and> lo \<le> int (digits_val t) \<and> int (digits_val t) \<le> hi
      then Some (int (digits_val t)) else None)"

definition day_field :: "string \<Rightarrow> int option" where
  "day_field t =
     (case t of [b, c] \<Rightarrow> if b = CHR '' '' then number_field 1 9 [c] else number_field 1 31 t
      | _ \<Rightarrow> number_field 1 31 t)"

definition year_field :: "string \<Rightarrow> int option" where
  "year_field t = (if length t = 4 \<and> list_all is_digit t then Some (int (digits_val t)) else None)"

text \<open>The pattern of the format; letters of the format are matched in either case.\<close>

definition date_fields :: "string \<Rightarrow> string \<Rightarrow> string \<Rightarrow> (int \<times> int \<times> int) option" where
  "date_fields ys ms ds = do {
     y \<leftarrow> year_field ys;
     m \<leftarrow> number_field 1 12 ms;
     d \<leftarrow> day_field ds;
     Some (y, m, d)
   }"

definition strptime_fields :: "string \<Rightarrow> naive option" where
  "strptime_fields s = do {
     (ys, r1) \<leftarrow> split_at (\<lambda>c. c = CHR ''-'') s;
     (ms, r2) \<leftarrow> split_at (\<lambda>c. c = CHR ''-'') r1;
     (ds, r3) \<leftarrow> split_at (\<lambda>c. c = CHR ''T'' \<or> c = CHR ''t'') r2;
     (hs, r4) \<leftarrow> split_at (\<lambda>c. c = CHR '':'') r3;
     (mis, ss) \<leftarrow> split_at (\<lambda>c. c = CHR '':'') r4;
     (y, m, d) \<leftarrow> date_fields ys ms ds;
     h \<leftarrow> number_field 0 23 hs;
     mi \<leftarrow> number_field 0 59 mis;
     sec \<leftarrow> number_field 0 61 ss;
     Some \<lparr>nv_year = y, nv_month = m, nv_day = d, nv_hour = h, nv_minute = mi, nv_second = sec\<rparr>
   }"

definition strptime_local :: "string \<Rightarrow> naive res" where
  "strptime_local s =
     (case strptime_fields s of
        None \<Rightarrow> Inl (ValueError ''time data does not match'')
      | Some v \<Rightarrow> if valid_naive v then Inr v else Inl (ValueError ''out of range''))"

definition strptime_date :: "string \<Rightarrow> (int \<times> int \<times> int) option" where
  "strptime_date s = do {
     (ys, r1) \<leftarrow> split_at (\<lambda>c. c = CHR ''-'') s;
     (ms, ds) \<leftarrow> split_at (\<lambda>c. c = CHR ''-'') r1;
     (y, m, d) \<leftarrow> date_fields ys ms ds;
     if valid_ymd y m d then Some (y, m, d) else None
   }"

text \<open>\<^verbatim>\<open>_DATE_RE\<close>, whose end also matches before a final line feed, and \<^verbatim>\<open>valid_date\<close>.\<close>

definition date_pattern :: "string \<Rightarrow> bool" where
  "date_pattern s \<longleftrightarrow>
     (let t = (if s \<noteq> [] \<and> last s = CHR 0x0A then butlast s else s)
      in length t = 10 \<and> t ! 4 = CHR ''-'' \<and> t ! 7 = CHR ''-''
       \<and> list_all is_digit (take 4 t) \<and> list_all is_digit (take 2 (drop 5 t)) \<and> list_all is_digit (drop 8 t))"

definition valid_date :: "string \<Rightarrow> bool" where
  "valid_date s \<longleftrightarrow> s \<noteq> [] \<and> date_pattern s \<and> strptime_date s \<noteq> None"

section \<open>Zones and conversions\<close>

record zone =
  utc_offset :: "int \<Rightarrow> int"
  wall_offset :: "int \<Rightarrow> int"

type_synonym zones = "string \<Rightarrow> zone res"

definition rstrip_Z :: "string \<Rightarrow> string" where
  "rstrip_Z s = rev (dropWhile (\<lambda>c. c = CHR ''Z'') (rev s))"

definition clean_stamp :: "string \<Rightarrow> string" where
  "clean_stamp s = takeWhile (\<lambda>c. c \<noteq> CHR ''.'') (rstrip_Z s)"

definition parse_utc :: "string \<Rightarrow> int res" where
  "parse_utc s = map_sum id seconds (strptime_local (clean_stamp s))"

definition to_local :: "zones \<Rightarrow> string \<Rightarrow> string \<Rightarrow> string res" where
  "to_local zs ts tz =
     (if ts = [] \<or> tz = [] then Inr (rstrip_Z ts)
      else res_bind (parse_utc ts) (\<lambda>u.
        res_bind (zs tz) (\<lambda>z.
          map_sum id stamp (checked (u + utc_offset z u)))))"

definition local_to_utc :: "zones \<Rightarrow> string \<Rightarrow> string \<Rightarrow> string res" where
  "local_to_utc zs ts tz =
     (if ts = [] then Inr []
      else if tz = [] then Inr (ts @ ''Z'')
      else res_bind (strptime_local (clean_stamp ts)) (\<lambda>v.
        res_bind (zs tz) (\<lambda>z.
          map_sum id (\<lambda>w. stamp w @ ''Z'') (checked (seconds v - wall_offset z (seconds v))))))"

definition local_today :: "zones \<Rightarrow> int \<Rightarrow> string \<Rightarrow> string res" where
  "local_today zs now tz =
     (if tz = [] then Inr (date_text (civil now))
      else res_bind (zs tz) (\<lambda>z. map_sum id date_text (checked (now + utc_offset z now))))"

definition local_date_to_utc_range :: "zones \<Rightarrow> string \<Rightarrow> string \<Rightarrow> (string \<times> string) res" where
  "local_date_to_utc_range zs d tz =
     (if tz = [] then Inr (d @ ''T00:00:00Z'', d @ ''T23:59:59Z'')
      else res_bind (local_to_utc zs (d @ ''T00:00:00'') tz) (\<lambda>a.
        res_bind (local_to_utc zs (d @ ''T23:59:59'') tz) (\<lambda>b. Inr (a, b))))"

definition utc_now :: "int \<Rightarrow> string" where
  "utc_now now = utc_stamp now"

definition utc_cutoff :: "int \<Rightarrow> int \<Rightarrow> int \<Rightarrow> int \<Rightarrow> string res" where
  "utc_cutoff now days hours minutes =
     map_sum id (\<lambda>v. stamp v @ ''Z'') (checked (now - (days * 86400 + hours * 3600 + minutes * 60)))"

text \<open>\<^verbatim>\<open>localize_timestamps\<close> on one item; the first conversion that raises ends it.\<close>

definition LOCALIZED_KEYS :: "string list" where
  "LOCALIZED_KEYS = [''timestamp'', ''created_at'', ''updated_at'', ''last_used_at'']"

definition localized :: "zones \<Rightarrow> string \<Rightarrow> string \<Rightarrow> (string \<times> pyval) list \<Rightarrow> (string \<times> pyval) list res" where
  "localized zs tz k item =
     (case map_of item k of
        Some (PStr s) \<Rightarrow>
          if s \<noteq> [] \<and> py_endswith s ''Z'' then map_sum id (\<lambda>l. dict_set k (PStr l) item) (to_local zs s tz) else Inr item
      | _ \<Rightarrow> Inr item)"

fun localize_keys :: "zones \<Rightarrow> string \<Rightarrow> string list \<Rightarrow> (string \<times> pyval) list \<Rightarrow> (string \<times> pyval) list res" where
  "localize_keys zs tz [] item = Inr item"
| "localize_keys zs tz (k # ks) item = res_bind (localized zs tz k item) (localize_keys zs tz ks)"

definition localize_timestamps ::
  "zones \<Rightarrow> string \<Rightarrow> (string \<times> pyval) list list \<Rightarrow> (string \<times> pyval) list list res" where
  "localize_timestamps zs tz items =
     (if tz = [] then Inr items else mapM_res (localize_keys zs tz LOCALIZED_KEYS) items)"

text \<open>The time ranges of the pages.\<close>

definition TIME_RANGE_HOURS :: "(string \<times> int) list" where
  "TIME_RANGE_HOURS = [(''1h'', 1), (''6h'', 6), (''1d'', 24), (''2d'', 48), (''3d'', 72), (''7d'', 168),
     (''30d'', 720), (''90d'', 2160)]"

definition LEGACY_RANGE_HOURS :: "(string \<times> int) list" where
  "LEGACY_RANGE_HOURS = [(''day'', 24), (''week'', 168), (''month'', 720)]"

definition parse_time_range_hours :: "string \<Rightarrow> string \<Rightarrow> bool \<Rightarrow> int option" where
  "parse_time_range_hours v dflt allow_legacy =
     (let n = py_lower (py_strip (if v = [] then dflt else v))
      in case map_of TIME_RANGE_HOURS n of
           Some h \<Rightarrow> Some h
         | None \<Rightarrow> if allow_legacy then map_of LEGACY_RANGE_HOURS n else None)"

section \<open>Timestamps as text\<close>

lemma length_pad [simp]: "length (pad k n) = k"
  by (induction k arbitrary: n) auto

lemma pad_digits: "list_all is_digit (pad k n)"
  by (induction k arbitrary: n) (auto simp: is_digit_digit_char)

lemma digits_val_append: "digits_val (s @ [c]) = 10 * digits_val s + digit_val c"
  by (simp add: digits_val_def)

lemma digits_val_pad: "n < 10 ^ k \<Longrightarrow> digits_val (pad k n) = n"
proof (induction k arbitrary: n)
  case 0
  then show ?case by (simp add: digits_val_def)
next
  case (Suc k)
  then have "n div 10 < 10 ^ k" by (simp add: less_mult_imp_div_less mult.commute)
  with Suc.IH show ?case by (simp add: digits_val_append digit_val_digit_char)
qed

lemma digit_char_less: "m < 10 \<Longrightarrow> n < 10 \<Longrightarrow> digit_char m < digit_char n \<longleftrightarrow> m < n"
  by (simp add: digit_char_def less_char_def)

lemma append_less_iff:
  fixes a b :: "'a::linorder list"
  shows "length a = length b \<Longrightarrow> a @ s < b @ t \<longleftrightarrow> a < b \<or> a = b \<and> s < t"
  by (induction a b rule: list_induct2) auto

lemma pad_less_iff: "m < 10 ^ k \<Longrightarrow> n < 10 ^ k \<Longrightarrow> pad k m < pad k n \<longleftrightarrow> m < n"
proof (induction k arbitrary: m n)
  case (Suc k)
  have d: "m div 10 < 10 ^ k" "n div 10 < 10 ^ k" using Suc.prems by (simp_all add: less_mult_imp_div_less mult.commute)
  have e: "pad k (m div 10) = pad k (n div 10) \<longleftrightarrow> m div 10 = n div 10"
    using d digits_val_pad by metis
  have "q * 10 + r < p * 10 + s \<longleftrightarrow> q < p \<or> q = p \<and> r < s" if "r < 10" "s < 10" for p q r s :: nat
    using that by arith
  from this [of "m mod 10" "n mod 10" "m div 10" "n div 10"]
  have "m < n \<longleftrightarrow> m div 10 < n div 10 \<or> m div 10 = n div 10 \<and> m mod 10 < n mod 10"
    by simp
  then show ?case by (simp add: append_less_iff Suc.IH [OF d] e digit_char_less)
qed simp

lemma valid_naive_ranges:
  assumes "valid_naive v"
  shows "nat (nv_year v) < 10 ^ 4" "nat (nv_month v) < 10 ^ 2" "nat (nv_day v) < 10 ^ 2"
    "nat (nv_hour v) < 10 ^ 2" "nat (nv_minute v) < 10 ^ 2" "nat (nv_second v) < 10 ^ 2"
    "0 \<le> nv_year v" "0 \<le> nv_month v" "0 \<le> nv_day v" "0 \<le> nv_hour v" "0 \<le> nv_minute v" "0 \<le> nv_second v"
  using assms days_in_month_range(2) [of "nv_year v" "nv_month v"]
  by (auto simp: valid_naive_def valid_ymd_def)

lemma nat_pad_less:
  "0 \<le> a \<Longrightarrow> 0 \<le> b \<Longrightarrow> nat a < 10 ^ k \<Longrightarrow> nat b < 10 ^ k \<Longrightarrow> pad k (nat a) < pad k (nat b) \<longleftrightarrow> a < b"
  using pad_less_iff [of "nat a" k "nat b"] by (auto simp: zless_nat_eq_int_zless)

lemma nat_pad_eq:
  "0 \<le> a \<Longrightarrow> 0 \<le> b \<Longrightarrow> nat a < 10 ^ k \<Longrightarrow> nat b < 10 ^ k \<Longrightarrow> pad k (nat a) = pad k (nat b) \<longleftrightarrow> a = b"
  using digits_val_pad [of "nat a" k] digits_val_pad [of "nat b" k] by (metis nat_0_le)

lemma stamp_less_fields:
  assumes "valid_naive v" "valid_naive w"
  shows "stamp v < stamp w \<longleftrightarrow> fields_of v < fields_of w"
proof -
  note r = valid_naive_ranges [OF assms(1)] valid_naive_ranges [OF assms(2)]
  show ?thesis
    unfolding stamp_def date_text_def fields_of_def append_assoc
    by (simp only: append_less_iff length_pad append_Cons append_Nil Cons_less_Cons nat_pad_less nat_pad_eq r simp_thms
        less_irrefl)
qed

lemma utc_stamp_order:
  assumes "MIN_SECONDS \<le> u" "u \<le> MAX_SECONDS" "MIN_SECONDS \<le> w" "w \<le> MAX_SECONDS"
  shows "utc_stamp u < utc_stamp w \<longleftrightarrow> u < w" "utc_stamp u \<le> utc_stamp w \<longleftrightarrow> u \<le> w"
proof -
  note v = civil_valid [OF assms(1,2)] civil_valid [OF assms(3,4)]
  have len: "length (stamp v) = 19" for v by (simp add: stamp_def date_text_def)
  have less: "utc_stamp u < utc_stamp w \<longleftrightarrow> u < w" if "valid_naive (civil u)" "valid_naive (civil w)"
    "seconds (civil u) = u" "seconds (civil w) = w" for u w
    using stamp_less_fields [OF that(1,2)] seconds_less_iff [OF that(1,2)] that(3,4)
    by (simp add: utc_stamp_def append_less_iff len)
  show "utc_stamp u < utc_stamp w \<longleftrightarrow> u < w" using less v by blast
  show "utc_stamp u \<le> utc_stamp w \<longleftrightarrow> u \<le> w" using less [OF v(3,1,4,2)] by (simp add: linorder_not_less [symmetric])
qed

lemma split_at_first: "list_all (\<lambda>c. \<not> p c) a \<Longrightarrow> p c \<Longrightarrow> split_at p (a @ c # t) = Some (a, t)"
  by (induction a) (auto simp: split_at_def split: list.splits)

lemma digit_not:
  "list_all is_digit s \<Longrightarrow> \<not> is_digit x \<Longrightarrow> list_all (\<lambda>c. c \<noteq> x) s"
  by (auto simp: list_all_iff)

lemma separators: "\<not> is_digit (CHR ''-'')" "\<not> is_digit (CHR ''T'')" "\<not> is_digit (CHR ''t'')" "\<not> is_digit (CHR '':'')"
  "\<not> is_digit (CHR '' '')" "\<not> is_digit (CHR ''.'')" "\<not> is_digit (CHR ''Z'')"
  by (simp_all add: is_digit_def)

lemma number_field_pad:
  "0 \<le> n \<Longrightarrow> lo \<le> n \<Longrightarrow> n \<le> hi \<Longrightarrow> nat n < 10 ^ 2 \<Longrightarrow> number_field lo hi (pad 2 (nat n)) = Some n"
  by (simp add: number_field_def pad_digits digits_val_pad)

lemma day_field_pad:
  assumes "1 \<le> n" "n \<le> 31"
  shows "day_field (pad 2 (nat n)) = Some n"
proof -
  obtain b c where bc: "pad 2 (nat n) = [b, c]"
    by (metis (no_types, opaque_lifting) One_nat_def Suc_1 length_0_conv length_Suc_conv length_pad)
  have "is_digit b" using pad_digits [of 2 "nat n"] bc by simp
  then have "b \<noteq> CHR '' ''" using separators(5) by blast
  then have "day_field (pad 2 (nat n)) = number_field 1 31 (pad 2 (nat n))" by (simp add: day_field_def bc)
  then show ?thesis using assms by (simp add: number_field_pad)
qed

lemma year_field_pad: "0 \<le> y \<Longrightarrow> nat y < 10 ^ 4 \<Longrightarrow> year_field (pad 4 (nat y)) = Some y"
  by (simp add: year_field_def pad_digits digits_val_pad)

lemma date_fields_pad:
  assumes "valid_naive v"
  shows "date_fields (pad 4 (nat (nv_year v))) (pad 2 (nat (nv_month v))) (pad 2 (nat (nv_day v)))
    = Some (nv_year v, nv_month v, nv_day v)"
proof -
  have "1 \<le> nv_month v" "nv_month v \<le> 12" "1 \<le> nv_day v" "nv_day v \<le> 31"
    using assms days_in_month_range(2) [of "nv_year v" "nv_month v"] by (auto simp: valid_naive_def valid_ymd_def)
  then show ?thesis
    unfolding date_fields_def using valid_naive_ranges [OF assms]
    by (simp add: year_field_pad number_field_pad day_field_pad)
qed

lemma split_pad:
  "x \<in> {CHR ''-'', CHR '':''} \<Longrightarrow> split_at (\<lambda>c. c = x) (pad k n @ x # t) = Some (pad k n, t)"
  "split_at (\<lambda>c. c = CHR ''T'' \<or> c = CHR ''t'') (pad k n @ CHR ''T'' # t) = Some (pad k n, t)"
proof -
  show "split_at (\<lambda>c. c = x) (pad k n @ x # t) = Some (pad k n, t)" if "x \<in> {CHR ''-'', CHR '':''}"
    by (rule split_at_first) (use that separators in \<open>auto intro: digit_not pad_digits\<close>)
  show "split_at (\<lambda>c. c = CHR ''T'' \<or> c = CHR ''t'') (pad k n @ CHR ''T'' # t) = Some (pad k n, t)"
    by (rule split_at_first) (use separators pad_digits [of k n] in \<open>auto simp: list_all_iff\<close>)
qed

lemma strptime_stamp:
  assumes "valid_naive v"
  shows "strptime_local (stamp v) = Inr v"
proof -
  have "strptime_fields (stamp v) = Some v"
    using valid_naive_ranges [OF assms] assms date_fields_pad [OF assms]
    unfolding strptime_fields_def stamp_def date_text_def append_assoc append_Cons append_Nil
    by (simp add: split_pad number_field_pad valid_naive_def)
  with assms show ?thesis by (simp add: strptime_local_def)
qed

lemma stamp_chars: "list_all (\<lambda>c. is_digit c \<or> c \<in> {CHR ''-'', CHR ''T'', CHR '':''}) (stamp v)"
  using pad_digits by (auto simp: stamp_def date_text_def list_all_iff)

lemma last_digit: "\<exists>t c. stamp v = t @ [c] \<and> is_digit c"
proof -
  obtain t c where p: "pad 2 (nat (nv_second v)) = t @ [c]"
    by (metis length_pad append_butlast_last_id list.size(3) zero_neq_numeral)
  then have "is_digit c" using pad_digits [of 2 "nat (nv_second v)"] by simp
  with p show ?thesis by (simp add: stamp_def)
qed

lemma rstrip_stamp: "rstrip_Z (stamp v @ ''Z'') = stamp v" "rstrip_Z (stamp v) = stamp v"
proof -
  obtain t c where "stamp v = t @ [c]" "is_digit c" using last_digit by blast
  moreover from this have "c \<noteq> CHR ''Z''" using separators(7) by blast
  ultimately show "rstrip_Z (stamp v @ ''Z'') = stamp v" "rstrip_Z (stamp v) = stamp v" by (simp_all add: rstrip_Z_def)
qed

lemma clean_stamps: "clean_stamp (stamp v @ ''Z'') = stamp v" "clean_stamp (stamp v) = stamp v"
proof -
  have "c \<noteq> CHR ''.''" if "c \<in> set (stamp v)" for c
    using stamp_chars [of v] that separators(6) by (auto simp: list_all_iff)
  then have "takeWhile (\<lambda>c. c \<noteq> CHR ''.'') (stamp v) = stamp v" by (simp add: takeWhile_eq_all_conv)
  then show "clean_stamp (stamp v @ ''Z'') = stamp v" "clean_stamp (stamp v) = stamp v"
    by (simp_all add: clean_stamp_def rstrip_stamp)
qed

lemma parse_stamp: "valid_naive v \<Longrightarrow> parse_utc (stamp v @ ''Z'') = Inr (seconds v)"
  by (simp add: parse_utc_def clean_stamps strptime_stamp)

lemma parse_utc_stamp: "MIN_SECONDS \<le> u \<Longrightarrow> u \<le> MAX_SECONDS \<Longrightarrow> parse_utc (utc_stamp u) = Inr u"
  unfolding utc_stamp_def using parse_stamp civil_valid by simp

text \<open>
  C20. The stored form of a timestamp is faithful: between the years 1 and 9999 reading the text
  of an instant gives the instant, and the texts are ordered as the instants are, so that every
  comparison the database makes on them is a comparison of times.
\<close>

theorem timestamps_faithful:
  assumes "MIN_SECONDS \<le> u" "u \<le> MAX_SECONDS" "MIN_SECONDS \<le> w" "w \<le> MAX_SECONDS"
  shows "parse_utc (utc_stamp u) = Inr u \<and> (utc_stamp u < utc_stamp w \<longleftrightarrow> u < w)
    \<and> (utc_stamp u = utc_stamp w \<longleftrightarrow> u = w)"
  using parse_utc_stamp assms utc_stamp_order [OF assms] by (metis order_eq_iff linorder_not_less less_irrefl sum.inject(2))

theorem timestamps_faithful_witness:
  "utc_stamp 63904593600 = ''2026-01-20T12:00:00Z'' \<and> parse_utc (utc_stamp 63904593600) = Inr 63904593600"
  using timestamps_faithful [of 63904593600 63904593600] by (simp add: MIN_SECONDS_def MAX_SECONDS_def) code_simp

section \<open>Local times\<close>

lemma checked_ok: "MIN_SECONDS \<le> u \<Longrightarrow> u \<le> MAX_SECONDS \<Longrightarrow> checked u = Inr (civil u)"
  by (simp add: checked_def)

lemma stamp_nonempty: "stamp v \<noteq> []" "utc_stamp u \<noteq> []"
  by (simp_all add: stamp_def utc_stamp_def)

lemma to_local_stamp:
  assumes "zs tz = Inr z" "tz \<noteq> []" "MIN_SECONDS \<le> u" "u \<le> MAX_SECONDS"
    "MIN_SECONDS \<le> u + utc_offset z u" "u + utc_offset z u \<le> MAX_SECONDS"
  shows "to_local zs (utc_stamp u) tz = Inr (stamp (civil (u + utc_offset z u)))"
  using assms by (simp add: to_local_def stamp_nonempty parse_utc_stamp checked_ok)

lemma local_to_utc_stamp:
  assumes "zs tz = Inr z" "tz \<noteq> []" "valid_naive v"
    "MIN_SECONDS \<le> seconds v - wall_offset z (seconds v)" "seconds v - wall_offset z (seconds v) \<le> MAX_SECONDS"
  shows "local_to_utc zs (stamp v) tz = Inr (utc_stamp (seconds v - wall_offset z (seconds v)))"
  using assms by (simp add: local_to_utc_def stamp_nonempty clean_stamps strptime_stamp checked_ok utc_stamp_def)

text \<open>
  Showing a stored time in a zone and storing what is shown gives the time back, for every
  instant that is not the second of two with the same wall clock reading.
\<close>

theorem local_time_round_trip:
  assumes "zs tz = Inr z" "tz \<noteq> []" "MIN_SECONDS \<le> u" "u \<le> MAX_SECONDS"
    "MIN_SECONDS \<le> u + utc_offset z u" "u + utc_offset z u \<le> MAX_SECONDS"
    and "wall_offset z (u + utc_offset z u) = utc_offset z u"
  shows "\<exists>l. to_local zs (utc_stamp u) tz = Inr l \<and> local_to_utc zs l tz = Inr (utc_stamp u)"
proof -
  note v = civil_valid [OF assms(5,6)]
  have "local_to_utc zs (stamp (civil (u + utc_offset z u))) tz = Inr (utc_stamp u)"
    using local_to_utc_stamp [of zs tz z "civil (u + utc_offset z u)"] assms(1-4,7) v by simp
  with to_local_stamp [of zs tz z u, OF assms(1-6)] show ?thesis by blast
qed

definition berlin_winter :: zone where
  "berlin_winter = \<lparr>utc_offset = (\<lambda>u. 3600), wall_offset = (\<lambda>w. 3600)\<rparr>"

theorem local_time_round_trip_witness:
  "\<exists>l. to_local (\<lambda>tz. Inr berlin_winter) (utc_stamp 63904593600) ''Europe/Berlin'' = Inr l
     \<and> local_to_utc (\<lambda>tz. Inr berlin_winter) l ''Europe/Berlin'' = Inr (utc_stamp 63904593600)"
  by (rule local_time_round_trip [of _ _ berlin_winter]) (simp_all add: berlin_winter_def MIN_SECONDS_def MAX_SECONDS_def)

section \<open>Local days as ranges of stored times\<close>

abbreviation day_start :: "int \<Rightarrow> int \<Rightarrow> int \<Rightarrow> naive" where
  "day_start y m d \<equiv> \<lparr>nv_year = y, nv_month = m, nv_day = d, nv_hour = 0, nv_minute = 0, nv_second = 0\<rparr>"

abbreviation day_end :: "int \<Rightarrow> int \<Rightarrow> int \<Rightarrow> naive" where
  "day_end y m d \<equiv> \<lparr>nv_year = y, nv_month = m, nv_day = d, nv_hour = 23, nv_minute = 59, nv_second = 59\<rparr>"

definition ymd_text :: "int \<Rightarrow> int \<Rightarrow> int \<Rightarrow> string" where
  "ymd_text y m d = date_text (day_start y m d)"

lemma pad_two_lit: "pad 2 n = [digit_char (n div 10 mod 10), digit_char (n mod 10)]"
  by (simp add: numeral_2_eq_2)

lemma day_texts:
  "ymd_text y m d @ ''T00:00:00'' = stamp (day_start y m d)"
  "ymd_text y m d @ ''T23:59:59'' = stamp (day_end y m d)"
  by (simp_all add: ymd_text_def stamp_def date_text_def pad_two_lit)

lemma day_seconds:
  "valid_ymd y m d \<Longrightarrow> valid_naive (day_start y m d) \<and> seconds (day_start y m d) = ordinal y m d * 86400"
  "valid_ymd y m d \<Longrightarrow> valid_naive (day_end y m d) \<and> seconds (day_end y m d) = ordinal y m d * 86400 + 86399"
  by (simp_all add: valid_naive_def seconds_def)

lemma day_range_stamps:
  assumes "zs tz = Inr z" "tz \<noteq> []" "valid_ymd y m d" "D = ordinal y m d * 86400"
    "MIN_SECONDS \<le> D - wall_offset z D" "D - wall_offset z D \<le> MAX_SECONDS"
    "MIN_SECONDS \<le> D + 86399 - wall_offset z (D + 86399)" "D + 86399 - wall_offset z (D + 86399) \<le> MAX_SECONDS"
  shows "local_date_to_utc_range zs (ymd_text y m d) tz =
    Inr (utc_stamp (D - wall_offset z D), utc_stamp (D + 86399 - wall_offset z (D + 86399)))"
  using assms day_seconds [OF assms(3)] local_to_utc_stamp [of zs tz z "day_start y m d"]
    local_to_utc_stamp [of zs tz z "day_end y m d"]
  by (simp add: local_date_to_utc_range_def day_texts)

text \<open>
  The stored range of a local day holds exactly the instants of that day, also on a day on
  which clocks change, as long as they do not change across a midnight: with offset \<open>k1\<close>
  before and \<open>k2\<close> from the change on, an instant lies in the range if and only if its wall
  clock shows that day.
\<close>

theorem day_range_exact:
  assumes "zs tz = Inr z" "tz \<noteq> []" "valid_ymd y m d" "D = ordinal y m d * 86400"
    and "wall_offset z D = k1" "wall_offset z (D + 86399) = k2"
    and "utc_offset z u = (if u < change then k1 else k2)"
    and "D < change + min k1 k2" "change + max k1 k2 \<le> D + 86399"
    and "MIN_SECONDS \<le> D - k1" "D - k1 \<le> MAX_SECONDS" "MIN_SECONDS \<le> D + 86399 - k2" "D + 86399 - k2 \<le> MAX_SECONDS"
    and "MIN_SECONDS \<le> u" "u \<le> MAX_SECONDS"
  shows "\<exists>a b. local_date_to_utc_range zs (ymd_text y m d) tz = Inr (a, b)
    \<and> (a \<le> utc_stamp u \<and> utc_stamp u \<le> b \<longleftrightarrow> (u + utc_offset z u) div 86400 = ordinal y m d)"
proof -
  have "local_date_to_utc_range zs (ymd_text y m d) tz = Inr (utc_stamp (D - k1), utc_stamp (D + 86399 - k2))"
    using day_range_stamps [of zs tz z y m d D] assms by simp
  moreover have "utc_stamp (D - k1) \<le> utc_stamp u \<and> utc_stamp u \<le> utc_stamp (D + 86399 - k2)
      \<longleftrightarrow> D - k1 \<le> u \<and> u \<le> D + 86399 - k2"
    using utc_stamp_order(2) assms(10-15) by simp
  moreover have "D - k1 \<le> u \<and> u \<le> D + 86399 - k2 \<longleftrightarrow> D \<le> u + utc_offset z u \<and> u + utc_offset z u < D + 86400"
    using assms(7-9) by (cases "u < change") auto
  moreover have "D \<le> x \<and> x < D + 86400 \<longleftrightarrow> x div 86400 = ordinal y m d" for x
    using assms(4) by (auto intro: int_div_pos_eq [of _ _ _ "x - D"])
  ultimately show ?thesis by auto
qed

text \<open>The end of summer time in Berlin, 2025: at 01:00 UTC the offset falls from two hours to one.\<close>

definition berlin :: zone where
  "berlin = \<lparr>utc_offset = (\<lambda>u. if u < 63897123600 then 7200 else 3600),
     wall_offset = (\<lambda>w. if w < 63897130800 then 7200 else 3600)\<rparr>"

theorem day_range_exact_witness:
  "\<exists>a b. local_date_to_utc_range (\<lambda>tz. Inr berlin) (ymd_text 2025 10 26) ''Europe/Berlin'' = Inr (a, b)
    \<and> (a \<le> utc_stamp 63897123600 \<and> utc_stamp 63897123600 \<le> b
       \<longleftrightarrow> (63897123600 + utc_offset berlin 63897123600) div 86400 = ordinal 2025 10 26)"
  by (rule day_range_exact [of _ _ _ 2025 10 26 63897120000 7200 3600 _ 63897123600])
    (simp_all add: berlin_def MIN_SECONDS_def MAX_SECONDS_def valid_ymd_def days_in_month_def ordinal_def
      days_before_year_def days_before_month_def leap_day_def is_leap_def)

text \<open>Where clocks are set back at midnight, as in Beirut, the hour before it is read twice.\<close>

definition beirut :: zone where
  "beirut = \<lparr>utc_offset = (\<lambda>u. if u < 63897109200 then 10800 else 7200),
     wall_offset = (\<lambda>w. if w < 63897120000 then 10800 else 7200)\<rparr>"

lemma fold_hour_day:
  assumes "0 \<le> s" "s < 3600"
  shows "\<exists>l. to_local (\<lambda>tz. Inr beirut) (utc_stamp (63897109200 + s)) ''Asia/Beirut'' = Inr l \<and> take 10 l = ''2025-10-25''"
proof -
  let ?u = "63897109200 + s" and ?zs = "\<lambda>tz :: string. (Inr beirut :: zone res)"
  have "(?u + 7200) div 86400 = 739549" by (rule int_div_pos_eq [of _ _ _ "82800 + s"]) (use assms in simp_all)
  moreover have "year_of 739549 = 2025" "days_before_year 2025 = 739251" "month_of 2025 298 = 10" "days_before_month 2025 10 = 273"
    by code_simp+
  ultimately have "date_text (civil (?u + 7200)) = date_text (day_start 2025 10 25)"
    by (simp add: civil_def Let_def date_text_def)
  also have "\<dots> = ''2025-10-25''" by code_simp
  finally have "take 10 (stamp (civil (?u + 7200))) = ''2025-10-25''" by (simp add: stamp_def)
  moreover have "to_local ?zs (utc_stamp ?u) ''Asia/Beirut'' = Inr (stamp (civil (?u + 7200)))"
    using to_local_stamp [of ?zs "''Asia/Beirut''" beirut ?u] assms by (simp add: beirut_def MIN_SECONDS_def MAX_SECONDS_def)
  ultimately show ?thesis by blast
qed

lemma beirut_ranges:
  "local_date_to_utc_range (\<lambda>tz. Inr beirut) ''2025-10-25'' ''Asia/Beirut'' = Inr (utc_stamp 63897022800, utc_stamp 63897109199)"
  "local_date_to_utc_range (\<lambda>tz. Inr beirut) ''2025-10-26'' ''Asia/Beirut'' = Inr (utc_stamp 63897112800, utc_stamp 63897199199)"
proof -
  have "ymd_text 2025 10 25 = ''2025-10-25''" "ymd_text 2025 10 26 = ''2025-10-26''" by code_simp+
  then show "local_date_to_utc_range (\<lambda>tz. Inr beirut) ''2025-10-25'' ''Asia/Beirut'' = Inr (utc_stamp 63897022800, utc_stamp 63897109199)"
    "local_date_to_utc_range (\<lambda>tz. Inr beirut) ''2025-10-26'' ''Asia/Beirut'' = Inr (utc_stamp 63897112800, utc_stamp 63897199199)"
    using day_range_stamps [of "\<lambda>tz. Inr beirut" "''Asia/Beirut''" beirut 2025 10 25]
      day_range_stamps [of "\<lambda>tz. Inr beirut" "''Asia/Beirut''" beirut 2025 10 26]
    by (simp_all add: beirut_def MIN_SECONDS_def MAX_SECONDS_def valid_ymd_def days_in_month_def ordinal_def
      days_before_year_def days_before_month_def leap_day_def is_leap_def)
qed

text \<open>
  An hour that belongs to no day: when clocks go back from midnight to 23:00, the wall
  clock shows the old day for another hour, yet the stored range of that day ends before this
  hour and the range of the next day starts after it.
\<close>

theorem fold_hour_in_no_day:
  assumes "0 \<le> s" "s < 3600"
  shows "\<exists>l a b a' b'. to_local (\<lambda>tz. Inr beirut) (utc_stamp (63897109200 + s)) ''Asia/Beirut'' = Inr l
    \<and> take 10 l = ''2025-10-25''
    \<and> local_date_to_utc_range (\<lambda>tz. Inr beirut) ''2025-10-25'' ''Asia/Beirut'' = Inr (a, b) \<and> b < utc_stamp (63897109200 + s)
    \<and> local_date_to_utc_range (\<lambda>tz. Inr beirut) ''2025-10-26'' ''Asia/Beirut'' = Inr (a', b') \<and> utc_stamp (63897109200 + s) < a'"
proof -
  have "utc_stamp 63897109199 < utc_stamp (63897109200 + s)" "utc_stamp (63897109200 + s) < utc_stamp 63897112800"
    using assms by (subst utc_stamp_order(1); simp add: MIN_SECONDS_def MAX_SECONDS_def)+
  with beirut_ranges fold_hour_day [OF assms] show ?thesis by blast
qed

theorem fold_hour_in_no_day_witness:
  "\<exists>a b a' b'. local_date_to_utc_range (\<lambda>tz. Inr beirut) ''2025-10-25'' ''Asia/Beirut'' = Inr (a, b)
    \<and> local_date_to_utc_range (\<lambda>tz. Inr beirut) ''2025-10-26'' ''Asia/Beirut'' = Inr (a', b')
    \<and> b < utc_stamp 63897109200 \<and> utc_stamp 63897109200 < a'"
  using fold_hour_in_no_day [of 0] by auto

section \<open>Dates a request may name\<close>

lemma digit_char_val: "is_digit c \<Longrightarrow> digit_char (digit_val c) = c"
  by (simp add: is_digit_def digit_char_def digit_val_def Let_def)

lemma digit_val_less: "is_digit c \<Longrightarrow> digit_val c < 10"
  by (auto simp: is_digit_def digit_val_def Let_def)

lemma pad_digits_val: "list_all is_digit t \<Longrightarrow> pad (length t) (digits_val t) = t"
  by (induction t rule: rev_induct) (simp_all add: digits_val_append digit_char_val digit_val_less)

lemma number_field_Some:
  "number_field lo hi t = Some n \<longleftrightarrow> length t \<in> {1, 2} \<and> list_all is_digit t \<and> n = int (digits_val t) \<and> lo \<le> n \<and> n \<le> hi"
  by (auto simp: number_field_def)

lemma split_at_Some: "split_at p s = Some (a, t) \<Longrightarrow> \<exists>c. s = a @ c # t \<and> p c"
proof -
  assume "split_at p s = Some (a, t)"
  then obtain c where c: "dropWhile (\<lambda>c. \<not> p c) s = c # t" "a = takeWhile (\<lambda>c. \<not> p c) s"
    by (auto simp: split_at_def split: list.splits)
  then have "p c" using hd_dropWhile [of "\<lambda>c. \<not> p c" s] by auto
  with c show ?thesis using takeWhile_dropWhile_id [of "\<lambda>c. \<not> p c" s] by metis
qed

lemma strptime_ymd_text:
  assumes "valid_ymd y m d"
  shows "strptime_date (ymd_text y m d) = Some (y, m, d)"
proof -
  have v: "valid_naive (day_start y m d)" using day_seconds(1) [OF assms] by simp
  show ?thesis
    unfolding strptime_date_def ymd_text_def date_text_def append_assoc append_Cons append_Nil
    using date_fields_pad [OF v] assms by (simp add: split_pad)
qed

lemma date_pattern_ymd_text: "date_pattern (ymd_text y m d) \<and> ymd_text y m d \<noteq> []"
proof -
  obtain t c where p: "pad 2 (nat d) = t @ [c]" "is_digit c"
    by (simp add: pad_two_lit is_digit_digit_char)
  then have "last (ymd_text y m d) = c" by (simp add: ymd_text_def date_text_def)
  moreover have "c \<noteq> CHR 0x0A" using p(2) by (auto simp: is_digit_def)
  moreover have "length (pad 4 n) = 4" "length (pad 2 n) = 2" for n by simp_all
  ultimately show ?thesis
    using pad_digits [of 4 "nat y"] pad_digits [of 2 "nat m"] pad_digits [of 2 "nat d"]
    by (simp add: date_pattern_def Let_def ymd_text_def date_text_def nth_append)
qed

lemma strptime_date_Some:
  assumes "strptime_date s = Some (y, m, d)"
  obtains ys ms ds where "s = ys @ CHR ''-'' # ms @ CHR ''-'' # ds" "year_field ys = Some y"
    "number_field 1 12 ms = Some m" "day_field ds = Some d" "valid_ymd y m d"
proof -
  from assms obtain ys r ms ds where sp: "split_at (\<lambda>c. c = CHR ''-'') s = Some (ys, r)"
    "split_at (\<lambda>c. c = CHR ''-'') r = Some (ms, ds)"
    and f: "year_field ys = Some y" "number_field 1 12 ms = Some m" "day_field ds = Some d" "valid_ymd y m d"
    by (auto simp: strptime_date_def date_fields_def Option.bind_eq_Some_conv split: if_splits)
  from split_at_Some [OF sp(1)] split_at_Some [OF sp(2)] have "s = ys @ CHR ''-'' # ms @ CHR ''-'' # ds" by auto
  with f that show thesis by blast
qed

lemma day_field_chars:
  assumes "day_field ds = Some d"
  shows "\<exists>t c. ds = t @ [c] \<and> is_digit c" "CHR ''-'' \<notin> set ds"
    "list_all is_digit ds \<Longrightarrow> number_field 1 31 ds = Some d"
proof -
  consider c where "ds = [CHR '' '', c]" "number_field 1 9 [c] = Some d" | "number_field 1 31 ds = Some d"
    using assms by (auto simp: day_field_def split: list.splits if_splits)
  note cases = this
  have digit: "is_digit x \<Longrightarrow> x \<noteq> CHR ''-'' \<and> x \<noteq> CHR '' ''" for x using separators by blast
  show "\<exists>t c. ds = t @ [c] \<and> is_digit c"
    using cases
  proof cases
    case 2
    then have "ds \<noteq> []" "list_all is_digit ds" by (auto simp: number_field_Some)
    then show ?thesis by (metis append_butlast_last_id last_in_set list_all_iff)
  qed (auto simp: number_field_Some)
  show "CHR ''-'' \<notin> set ds" using cases digit by cases (auto simp: number_field_Some list_all_iff)
  show "list_all is_digit ds \<Longrightarrow> number_field 1 31 ds = Some d" using cases digit by cases auto
qed

text \<open>
  A request's date is accepted if and only if it is the ten characters of a date of the
  calendar, leap years included; the line feed the pattern would let pass is refused.
\<close>

theorem valid_date_iff:
  "valid_date s \<longleftrightarrow> (\<exists>y m d. valid_ymd y m d \<and> s = ymd_text y m d)"
proof
  assume v: "valid_date s"
  then obtain y m d where "strptime_date s = Some (y, m, d)" by (auto simp: valid_date_def)
  then obtain ys ms ds where s: "s = ys @ CHR ''-'' # ms @ CHR ''-'' # ds" and f: "year_field ys = Some y"
    "number_field 1 12 ms = Some m" "day_field ds = Some d" "valid_ymd y m d" by (rule strptime_date_Some)
  from day_field_chars(1) [OF f(3)] obtain t c where ds: "ds = t @ [c]" "is_digit c" by blast
  have "last s = c" by (simp add: s ds)
  moreover have "c \<noteq> CHR 0x0A" using ds(2) by (auto simp: is_digit_def)
  ultimately have p: "length s = 10" "s ! 7 = CHR ''-''" "list_all is_digit (drop 8 s)"
    using v by (auto simp: valid_date_def date_pattern_def Let_def)
  have ys: "length ys = 4" "list_all is_digit ys" "y = int (digits_val ys)"
    using f(1) by (auto simp: year_field_def split: if_splits)
  have ms: "length ms \<in> {1, 2}" "list_all is_digit ms" "m = int (digits_val ms)"
    using f(2) by (simp_all add: number_field_Some)
  have "length ms \<noteq> 1"
  proof
    assume "length ms = 1"
    then have "s ! 7 = ds ! 0" "length ds = 3" using ys(1) p(1) by (simp_all add: s nth_append)
    then have "CHR ''-'' \<in> set ds" using p(2) by (metis nth_mem zero_less_numeral)
    then show False using day_field_chars(2) [OF f(3)] by blast
  qed
  with ms have len: "length ms = 2" "length ds = 2" using ys(1) p(1) by (auto simp: s)
  have "number_field 1 31 ds = Some d"
    using p(3) by (intro day_field_chars(3) [OF f(3)]) (simp add: s ys(1) len)
  then have d: "list_all is_digit ds" "d = int (digits_val ds)" by (simp_all add: number_field_Some)
  have "ymd_text y m d = s"
    using pad_digits_val [OF ys(2)] pad_digits_val [OF ms(2)] pad_digits_val [OF d(1)] ys ms(3) d len
    by (simp add: ymd_text_def date_text_def s)
  with f(4) show "\<exists>y m d. valid_ymd y m d \<and> s = ymd_text y m d" by blast
next
  assume "\<exists>y m d. valid_ymd y m d \<and> s = ymd_text y m d"
  then show "valid_date s" using strptime_ymd_text date_pattern_ymd_text by (auto simp: valid_date_def)
qed

end
