(* ===== verification/Retention.thy ===== *)
theory Retention
  imports Timestamps
begin

text \<open>
  \<^verbatim>\<open>app/storage/cleanup.py\<close> with \<^verbatim>\<open>delete_old_events\<close> of \<^verbatim>\<open>storage/events.py\<close>: the clean-up that
  follows every stored snapshot and spares the days of incidents, the removal of demo data, and
  the one-time conversion of local timestamps.  A row is its identifier and the timestamp the
  deletion looks at; a table that may be missing is an option.  The clock is read once per run.
\<close>

section \<open>The clean-up\<close>

record stamped =
  st_id :: int
  st_time :: string

record archive =
  ar_snapshots :: "stamped list"
  ar_events :: "stamped list"
  ar_bqm :: "stamped list option"
  ar_weather :: "stamped list option"
  ar_executions :: "stamped list option"
  ar_incidents :: "(string option \<times> string option) list option"

text \<open>\<^verbatim>\<open>_incident_retention_ranges\<close>: a window that cannot be computed is skipped.\<close>

definition incident_window :: "zones \<Rightarrow> string \<Rightarrow> string \<Rightarrow> string \<times> string \<Rightarrow> (string \<times> string) list" where
  "incident_window zs tz today w =
     (case local_date_to_utc_range zs (fst w) tz of
        Inl e \<Rightarrow> []
      | Inr (start_ts, _) \<Rightarrow>
          (case local_date_to_utc_range zs (if snd w = [] then today else snd w) tz of
             Inl e \<Rightarrow> []
           | Inr (_, end_ts) \<Rightarrow> [(start_ts, end_ts)]))"

definition dated_incidents :: "(string option \<times> string option) list \<Rightarrow> (string \<times> string) list" where
  "dated_incidents rs =
     concat (map (\<lambda>(s, e). case s of
        None \<Rightarrow> []
      | Some d \<Rightarrow> if d = [] then [] else [(d, case e of None \<Rightarrow> [] | Some x \<Rightarrow> x)]) rs)"

definition incident_windows ::
  "zones \<Rightarrow> int \<Rightarrow> string \<Rightarrow> (string option \<times> string option) list option \<Rightarrow> (string \<times> string) list res" where
  "incident_windows zs now tz incidents =
     (case incidents of
        None \<Rightarrow> Inr []
      | Some rs \<Rightarrow>
          res_bind (local_today zs now tz) (\<lambda>today.
            Inr (concat (map (incident_window zs tz today) (dated_incidents rs)))))"

definition protected_time :: "(string \<times> string) list \<Rightarrow> string \<Rightarrow> bool" where
  "protected_time ws t \<longleftrightarrow> list_ex (\<lambda>(a, b). a \<le> t \<and> t \<le> b) ws"

definition delete_expired :: "(string \<times> string) list \<Rightarrow> string \<Rightarrow> stamped list \<Rightarrow> stamped list" where
  "delete_expired ws cutoff rs =
     (if ws = [] then filter (\<lambda>r. \<not> st_time r < cutoff) rs
      else filter (\<lambda>r. \<not> (st_time r < cutoff \<and> \<not> protected_time ws (st_time r))) rs)"

definition delete_old_events :: "zones \<Rightarrow> int \<Rightarrow> string \<Rightarrow> int \<Rightarrow> archive \<Rightarrow> archive \<times> unit res" where
  "delete_old_events zs now tz days a =
     (if days \<le> 0 then (a, Inr ())
      else case utc_cutoff now days 0 0 of
        Inl e \<Rightarrow> (a, Inl e)
      | Inr cutoff \<Rightarrow>
          (case incident_windows zs now tz (ar_incidents a) of
             Inl e \<Rightarrow> (a, Inl e)
           | Inr ws \<Rightarrow> (a\<lparr>ar_events := delete_expired ws cutoff (ar_events a)\<rparr>, Inr ())))"

definition days_before_today :: "zones \<Rightarrow> int \<Rightarrow> string \<Rightarrow> int \<Rightarrow> string res" where
  "days_before_today zs now tz days =
     res_bind (local_today zs now tz) (\<lambda>today.
       case strptime_date today of
         None \<Rightarrow> Inl (ValueError ''time data does not match'')
       | Some (y, m, d) \<Rightarrow> map_sum id date_text (checked ((ordinal y m d - days) * 86400)))"

definition delete_before :: "string \<Rightarrow> stamped list \<Rightarrow> stamped list" where
  "delete_before t = filter (\<lambda>r. \<not> st_time r < t)"

definition clean_up :: "zones \<Rightarrow> int \<Rightarrow> string \<Rightarrow> int \<Rightarrow> archive \<Rightarrow> archive \<times> unit res" where
  "clean_up zs now tz days a =
     (if days \<le> 0 then (a, Inr ())
      else case utc_cutoff now days 0 0 of
        Inl e \<Rightarrow> (a, Inl e)
      | Inr cutoff \<Rightarrow>
     (case incident_windows zs now tz (ar_incidents a) of
        Inl e \<Rightarrow> (a, Inl e)
      | Inr ws \<Rightarrow>
      let a1 = a\<lparr>ar_snapshots := delete_expired ws cutoff (ar_snapshots a)\<rparr>
      in case days_before_today zs now tz days of
           Inl e \<Rightarrow> (a1, Inl e)
         | Inr cutoff_date \<Rightarrow>
      let a2 = a1\<lparr>ar_bqm := map_option (delete_before cutoff_date) (ar_bqm a1)\<rparr>;
          a3 = a2\<lparr>ar_weather := map_option (delete_before cutoff) (ar_weather a2)\<rparr>
      in case delete_old_events zs now tz days a3 of
           (a4, Inl e) \<Rightarrow> (a4, Inl e)
         | (a4, Inr _) \<Rightarrow> (a4\<lparr>ar_executions := map_option (delete_before cutoff) (ar_executions a4)\<rparr>, Inr ())))"

section \<open>Demo data\<close>

record demo_entry =
  de_id :: int
  de_incident :: "int option"
  de_demo :: bool

record demo_row =
  dr_id :: int
  dr_demo :: bool

record demo_data =
  dm_attachments :: "(int \<times> int) list option"
  dm_entries :: "demo_entry list option"
  dm_incidents :: "demo_row list option"
  dm_others :: "(string \<times> demo_row list option) list"

definition purge_attachments :: "demo_data \<Rightarrow> demo_data" where
  "purge_attachments d =
     (case (dm_attachments d, dm_entries d) of
        (Some as, Some es) \<Rightarrow>
          d\<lparr>dm_attachments := Some (filter (\<lambda>(i, e). e \<notin> set (map de_id (filter de_demo es))) as)\<rparr>
      | _ \<Rightarrow> d)"

definition unassign :: "int list \<Rightarrow> demo_entry \<Rightarrow> demo_entry" where
  "unassign demo e = (case de_incident e of
     None \<Rightarrow> e
   | Some i \<Rightarrow> if i \<in> set demo then e\<lparr>de_incident := None\<rparr> else e)"

definition unassign_entries :: "demo_data \<Rightarrow> demo_data" where
  "unassign_entries d =
     (case (dm_entries d, dm_incidents d) of
        (Some es, Some ins) \<Rightarrow>
          d\<lparr>dm_entries := Some (map (unassign (map dr_id (filter dr_demo ins))) es)\<rparr>
      | _ \<Rightarrow> d)"

definition purge_rows :: "('a \<Rightarrow> bool) \<Rightarrow> 'a list option \<Rightarrow> 'a list option \<times> nat" where
  "purge_rows demo t =
     (case t of
        None \<Rightarrow> (None, 0)
      | Some rs \<Rightarrow> (Some (filter (\<lambda>r. \<not> demo r) rs), length (filter demo rs)))"

definition purge_demo_data :: "demo_data \<Rightarrow> demo_data \<times> nat" where
  "purge_demo_data d =
     (let d1 = unassign_entries (purge_attachments d);
          (es, n1) = purge_rows de_demo (dm_entries d1);
          (ins, n2) = purge_rows dr_demo (dm_incidents d1);
          others = map (\<lambda>(t, rs). (t, purge_rows dr_demo rs)) (dm_others d1)
      in (d1\<lparr>dm_entries := es, dm_incidents := ins, dm_others := map (\<lambda>(t, p). (t, fst p)) others\<rparr>,
          n1 + n2 + sum_list (map (\<lambda>(t, p). snd p) others)))"

section \<open>The conversion to UTC\<close>

text \<open>
  A column of timestamps is its cells; \<^verbatim>\<open>NOT LIKE '%Z'\<close> does not look at the case.  The flag of
  the conversion is the entry of the meta table; \<^verbatim>\<open>ZoneInfoNotFoundError\<close> is a \<^verbatim>\<open>KeyError\<close>.
\<close>

record tz_store =
  tz_columns :: "((string \<times> string) \<times> string option list) list"
  tz_migrated :: "string option"

definition needs_utc :: "string option \<Rightarrow> bool" where
  "needs_utc c \<longleftrightarrow> (case c of None \<Rightarrow> False | Some t \<Rightarrow> t \<noteq> [] \<and> last t \<notin> {CHR ''Z'', CHR ''z''})"

definition convert_cell :: "zones \<Rightarrow> string \<Rightarrow> string option \<Rightarrow> string option res" where
  "convert_cell zs tz c =
     (if \<not> needs_utc c then Inr c
      else case local_to_utc zs (the c) tz of
        Inr t \<Rightarrow> Inr (Some t)
      | Inl (ValueError m) \<Rightarrow> Inr c
      | Inl (KeyError k) \<Rightarrow> Inr c
      | Inl e \<Rightarrow> Inl e)"

definition convert_column ::
  "zones \<Rightarrow> string \<Rightarrow> (string \<times> string) \<times> string option list \<Rightarrow> ((string \<times> string) \<times> string option list) res" where
  "convert_column zs tz p = map_sum id (Pair (fst p)) (mapM_res (convert_cell zs tz) (snd p))"

definition migrate_to_utc :: "zones \<Rightarrow> string \<Rightarrow> string \<Rightarrow> tz_store \<Rightarrow> tz_store \<times> bool res" where
  "migrate_to_utc zs now tz s =
     (if tz_migrated s \<noteq> None then (s, Inr False)
      else case mapM_res (convert_column zs tz) (tz_columns s) of
        Inl e \<Rightarrow> (s, Inl e)
      | Inr cs \<Rightarrow> (\<lparr>tz_columns = cs, tz_migrated = Some (tz @ ''|'' @ now)\<rparr>, Inr True))"

section \<open>What the clean-up keeps\<close>

lemma expired_iff: "r \<in> set (delete_expired ws c rs) \<longleftrightarrow> r \<in> set rs \<and> (c \<le> st_time r \<or> protected_time ws (st_time r))"
  by (auto simp: delete_expired_def protected_time_def linorder_not_less)

lemma expired_idem: "delete_expired ws c (delete_expired ws c rs) = delete_expired ws c rs"
  by (simp add: delete_expired_def conj_absorb)

lemma delete_before_iff: "r \<in> set (delete_before t rs) \<longleftrightarrow> r \<in> set rs \<and> t \<le> st_time r"
  by (auto simp: delete_before_def linorder_not_less)

lemma delete_before_idem: "delete_before t (delete_before t rs) = delete_before t rs"
  by (simp add: delete_before_def)

lemma option_delete_idem: "map_option (delete_before t) (map_option (delete_before t) x) = map_option (delete_before t) x"
  by (cases x) (simp_all add: delete_before_idem)

text \<open>A run that succeeds, as one equation.\<close>

definition cleaned :: "(string \<times> string) list \<Rightarrow> string \<Rightarrow> string \<Rightarrow> archive \<Rightarrow> archive" where
  "cleaned ws cutoff cutoff_date a =
     \<lparr>ar_snapshots = delete_expired ws cutoff (ar_snapshots a), ar_events = delete_expired ws cutoff (ar_events a),
      ar_bqm = map_option (delete_before cutoff_date) (ar_bqm a), ar_weather = map_option (delete_before cutoff) (ar_weather a),
      ar_executions = map_option (delete_before cutoff) (ar_executions a), ar_incidents = ar_incidents a\<rparr>"

lemma clean_up_eq:
  assumes "0 < days" "utc_cutoff now days 0 0 = Inr cutoff" "incident_windows zs now tz (ar_incidents a) = Inr ws"
    "days_before_today zs now tz days = Inr cutoff_date"
  shows "clean_up zs now tz days a = (cleaned ws cutoff cutoff_date a, Inr ())"
  using assms by (simp add: clean_up_def delete_old_events_def Let_def cleaned_def)

lemma clean_up_success:
  assumes "clean_up zs now tz days a = (a', Inr ())" "0 < days"
  obtains cutoff ws cutoff_date where "utc_cutoff now days 0 0 = Inr cutoff"
    "incident_windows zs now tz (ar_incidents a) = Inr ws" "days_before_today zs now tz days = Inr cutoff_date"
    "a' = cleaned ws cutoff cutoff_date a"
proof -
  obtain cutoff where 1: "utc_cutoff now days 0 0 = Inr cutoff"
    using assms by (cases "utc_cutoff now days 0 0") (simp_all add: clean_up_def)
  obtain ws where 2: "incident_windows zs now tz (ar_incidents a) = Inr ws"
    using assms 1 by (cases "incident_windows zs now tz (ar_incidents a)") (simp_all add: clean_up_def)
  obtain cd where 3: "days_before_today zs now tz days = Inr cd"
    using assms 1 2 by (cases "days_before_today zs now tz days") (simp_all add: clean_up_def Let_def)
  from that [OF 1 2 3] clean_up_eq [OF assms(2) 1 2 3] assms(1) show thesis by simp
qed

text \<open>Whatever the outcome, the snapshots and the events lose at most what is old and in no window.\<close>

lemma clean_up_rows:
  "\<exists>c. (utc_cutoff now days 0 0 = Inr c \<or> ar_snapshots (fst (clean_up zs now tz days a)) = ar_snapshots a
        \<and> ar_events (fst (clean_up zs now tz days a)) = ar_events a)
    \<and> (ar_snapshots (fst (clean_up zs now tz days a)) = ar_snapshots a
       \<or> (\<exists>ws. incident_windows zs now tz (ar_incidents a) = Inr ws
            \<and> ar_snapshots (fst (clean_up zs now tz days a)) = delete_expired ws c (ar_snapshots a)))
    \<and> (ar_events (fst (clean_up zs now tz days a)) = ar_events a
       \<or> (\<exists>ws. incident_windows zs now tz (ar_incidents a) = Inr ws
            \<and> ar_events (fst (clean_up zs now tz days a)) = delete_expired ws c (ar_events a)))"
proof (cases "days \<le> 0 \<or> (\<exists>e. utc_cutoff now days 0 0 = Inl e)")
  case True
  then show ?thesis by (auto simp: clean_up_def)
next
  case False
  then obtain c where c: "utc_cutoff now days 0 0 = Inr c" "0 < days" by (cases "utc_cutoff now days 0 0") auto
  show ?thesis
  proof (cases "incident_windows zs now tz (ar_incidents a)")
    case (Inl e)
    then show ?thesis using c by (intro exI [of _ c]) (simp add: clean_up_def)
  next
    case (Inr ws)
    show ?thesis
    proof (cases "days_before_today zs now tz days")
      case (Inl e)
      then show ?thesis using c Inr by (intro exI [of _ c]) (simp add: clean_up_def Let_def)
    next
      case (Inr cd)
      then show ?thesis using c \<open>incident_windows _ _ _ _ = _\<close>
        by (intro exI [of _ c]) (simp add: clean_up_eq cleaned_def)
    qed
  qed
qed

lemma window_listed:
  assumes "(Some s, e) \<in> set rs" "s \<noteq> []" "local_date_to_utc_range zs s tz = Inr (a, a')"
    and "local_date_to_utc_range zs (case e of None \<Rightarrow> today | Some x \<Rightarrow> if x = [] then today else x) tz = Inr (b', b)"
    and "local_today zs now tz = Inr today" "incident_windows zs now tz (Some rs) = Inr ws"
  shows "(a, b) \<in> set ws"
proof -
  have ws: "ws = concat (map (incident_window zs tz today) (dated_incidents rs))"
    using assms(5,6) by (simp add: incident_windows_def)
  have "(s, case e of None \<Rightarrow> [] | Some x \<Rightarrow> x) \<in> set (dated_incidents rs)"
    using assms(1,2) unfolding dated_incidents_def by force
  moreover have "incident_window zs tz today (s, case e of None \<Rightarrow> [] | Some x \<Rightarrow> x) = [(a, b)]"
    using assms(3,4) by (auto simp: incident_window_def split: option.splits if_splits)
  ultimately show ?thesis unfolding ws by force
qed

lemma windowed_rows_survive:
  assumes "\<And>ws. incident_windows zs now tz (ar_incidents a) = Inr ws \<Longrightarrow> protected_time ws (st_time r)"
  shows "(r \<in> set (ar_snapshots a) \<longrightarrow> r \<in> set (ar_snapshots (fst (clean_up zs now tz days a))))
    \<and> (r \<in> set (ar_events a) \<longrightarrow> r \<in> set (ar_events (fst (clean_up zs now tz days a))))"
  using clean_up_rows [of now days zs tz a] assms expired_iff by metis

lemma window_rows_survive:
  assumes "ar_incidents a = Some rs" "(Some s, e) \<in> set rs" "s \<noteq> []" "local_today zs now tz = Inr today"
    and "local_date_to_utc_range zs s tz = Inr (from_ts, from_end)"
    and "local_date_to_utc_range zs (case e of None \<Rightarrow> today | Some x \<Rightarrow> if x = [] then today else x) tz = Inr (to_start, to_ts)"
    and "from_ts \<le> st_time r" "st_time r \<le> to_ts"
  shows "(r \<in> set (ar_snapshots a) \<longrightarrow> r \<in> set (ar_snapshots (fst (clean_up zs now tz days a))))
    \<and> (r \<in> set (ar_events a) \<longrightarrow> r \<in> set (ar_events (fst (clean_up zs now tz days a))))"
proof (rule windowed_rows_survive)
  fix ws assume "incident_windows zs now tz (ar_incidents a) = Inr ws"
  with assms(1) have "(from_ts, to_ts) \<in> set ws" by (intro window_listed [OF assms(2,3,5,6,4)]) simp
  with assms(7,8) show "protected_time ws (st_time r)" by (auto simp: protected_time_def list_ex_iff)
qed

text \<open>
  What a zone of \<^verbatim>\<open>zoneinfo\<close> promises.  Offsets are shorter than a day.  Near a moment its clocks change
  at most once, from one offset to another less than a day away, and a reading of the wall clock is
  taken as PEP 495 has it: with the old offset until the clock is past both the readings it showed at the
  change, so the first of two instants that show it, and in a gap the offset before.
\<close>

definition utc_zone :: zone where
  "utc_zone = \<lparr>utc_offset = (\<lambda>u. 0), wall_offset = (\<lambda>w. 0)\<rparr>"

definition zone_of :: "zones \<Rightarrow> string \<Rightarrow> zone res" where
  "zone_of zs tz = (if tz = [] then Inr utc_zone else zs tz)"

definition short_offsets :: "zone \<Rightarrow> bool" where
  "short_offsets z \<longleftrightarrow> (\<forall>u. \<bar>utc_offset z u\<bar> < 86400 \<and> \<bar>wall_offset z u\<bar> < 86400)"

definition regular_near :: "zone \<Rightarrow> int \<Rightarrow> bool" where
  "regular_near z w \<longleftrightarrow> (\<exists>change before after. \<bar>after - before\<bar> < 86400
     \<and> (\<forall>u. \<bar>u - w\<bar> \<le> 172800 \<longrightarrow> utc_offset z u = (if u < change then before else after))
     \<and> (\<forall>x. \<bar>x - w\<bar> \<le> 86400 \<longrightarrow> wall_offset z x = (if x < change + max before after then before else after)))"

abbreviation local_clock :: "zone \<Rightarrow> int \<Rightarrow> int" where
  "local_clock z u \<equiv> u + utc_offset z u"

lemma day_begins:
  assumes "regular_near z w" "short_offsets z" "local_clock z v \<in> {w, w - 1}" "w \<le> local_clock z u"
  shows "w - wall_offset z w \<le> u"
proof -
  obtain t b a where near: "\<And>u. \<bar>u - w\<bar> \<le> 172800 \<Longrightarrow> utc_offset z u = (if u < t then b else a)"
    and walls: "\<And>x. \<bar>x - w\<bar> \<le> 86400 \<Longrightarrow> wall_offset z x = (if x < t + max b a then b else a)"
    using assms(1) unfolding regular_near_def by blast
  have wall: "wall_offset z w = (if w < t + max b a then b else a)" by (rule walls) simp
  have short: "\<bar>utc_offset z x\<bar> < 86400" "\<bar>wall_offset z x\<bar> < 86400" for x using assms(2) by (auto simp: short_offsets_def)
  show ?thesis
  proof (cases "\<bar>u - w\<bar> \<le> 172800")
    case True
    have v: "utc_offset z v = (if v < t then b else a)" using assms(3) short(1) [of v] by (intro near) auto
    show ?thesis using near [OF True] wall v assms(3,4) by (auto simp: max_def split: if_splits)
  next
    case False
    then show ?thesis using assms(4) short(1) [of u] short(2) [of w] by arith
  qed
qed

lemma day_ends:
  assumes "regular_near z w" "short_offsets z" "local_clock z u \<le> w"
    and "local_clock z u \<le> w - 86400 \<or> wall_offset z (local_clock z u) = utc_offset z u
      \<or> (\<forall>v v'. local_clock z v = w \<longrightarrow> local_clock z v' = w \<longrightarrow> v = v')"
  shows "u \<le> w - wall_offset z w"
proof -
  obtain t b a where near: "\<And>u. \<bar>u - w\<bar> \<le> 172800 \<Longrightarrow> utc_offset z u = (if u < t then b else a)"
    and wall: "\<And>x. \<bar>x - w\<bar> \<le> 86400 \<Longrightarrow> wall_offset z x = (if x < t + max b a then b else a)" and ab: "\<bar>a - b\<bar> < 86400"
    using assms(1) unfolding regular_near_def by blast
  have short: "\<bar>utc_offset z x\<bar> < 86400" "\<bar>wall_offset z x\<bar> < 86400" for x using assms(2) by (auto simp: short_offsets_def)
  show ?thesis
  proof (cases "\<bar>u - w\<bar> \<le> 172800")
    case far: False
    then show ?thesis using assms(3) short(1) [of u] short(2) [of w] by arith
  next
    case True
    note u = near [OF True]
    have w: "wall_offset z w = (if w < t + max b a then b else a)" by (rule wall) simp
    show ?thesis
    proof (rule ccontr)
      assume late: "\<not> u \<le> w - wall_offset z w"
      then have fold: "t \<le> u" "utc_offset z u = a" "wall_offset z w = b" "a < b" "w < t + b" "u + a \<le> w"
        using u w assms(3) by (auto simp: max_def split: if_splits)
      have near_u: "\<bar>local_clock z u - w\<bar> \<le> 86400" using fold ab by auto
      from assms(4) consider "local_clock z u \<le> w - 86400" | "wall_offset z (local_clock z u) = utc_offset z u"
        | "\<forall>v v'. local_clock z v = w \<longrightarrow> local_clock z v' = w \<longrightarrow> v = v'" by blast
      then show False
      proof cases
        case 1
        then show ?thesis using fold ab by auto
      next
        case 2
        then show ?thesis using wall [OF near_u] fold by auto
      next
        case 3
        have "\<bar>(w - a) - w\<bar> \<le> 172800" "\<bar>(w - b) - w\<bar> \<le> 172800" using short(1) [of u] short(2) [of w] fold by auto
        note at = near [OF this(1)] near [OF this(2)]
        have "local_clock z (w - a) = w" using at(1) fold by (auto split: if_splits)
        moreover have "local_clock z (w - b) = w" using at(2) fold by (auto split: if_splits)
        ultimately have "w - a = w - b" using 3 by blast
        then show ?thesis using fold(4) by simp
      qed
    qed
  qed
qed

definition names_day :: "string \<Rightarrow> int \<Rightarrow> bool" where
  "names_day s n \<longleftrightarrow> (\<exists>y m d. valid_ymd y m d \<and> s = ymd_text y m d \<and> n = ordinal y m d)"

lemma day_range:
  assumes "zone_of zs tz = Inr z" "short_offsets z" "names_day s n" "2 \<le> n" "n \<le> 3652058"
  shows "local_date_to_utc_range zs s tz =
    Inr (utc_stamp (n * 86400 - wall_offset z (n * 86400)), utc_stamp (n * 86400 + 86399 - wall_offset z (n * 86400 + 86399)))"
proof -
  obtain y m d where ymd: "valid_ymd y m d" "s = ymd_text y m d" "n = ordinal y m d"
    using assms(3) by (auto simp: names_day_def)
  show ?thesis
  proof (cases "tz = []")
    case True
    then have "z = utc_zone" using assms(1) by (simp add: zone_of_def)
    moreover have "civil (n * 86400) = day_start y m d" "civil (n * 86400 + 86399) = day_end y m d"
      using day_seconds [OF ymd(1)] civil_seconds [of "day_start y m d"] civil_seconds [of "day_end y m d"] ymd(3) by simp_all
    then have "utc_stamp (n * 86400) = (s @ ''T00:00:00'') @ ''Z''" "utc_stamp (n * 86400 + 86399) = (s @ ''T23:59:59'') @ ''Z''"
      unfolding ymd(2) day_texts utc_stamp_def by simp_all
    ultimately show ?thesis using True by (simp add: local_date_to_utc_range_def utc_zone_def)
  next
    case False
    have "\<bar>wall_offset z x\<bar> < 86400" for x using assms(2) by (simp add: short_offsets_def)
    from this [of "n * 86400"] this [of "n * 86400 + 86399"] have
      "MIN_SECONDS \<le> n * 86400 - wall_offset z (n * 86400)" "n * 86400 - wall_offset z (n * 86400) \<le> MAX_SECONDS"
      "MIN_SECONDS \<le> n * 86400 + 86399 - wall_offset z (n * 86400 + 86399)"
      "n * 86400 + 86399 - wall_offset z (n * 86400 + 86399) \<le> MAX_SECONDS"
      using assms(4,5) unfolding MIN_SECONDS_def MAX_SECONDS_def by linarith+
    then show ?thesis
      unfolding ymd(2) using False assms(1) ymd by (intro day_range_stamps) (simp_all add: zone_of_def)
  qed
qed

lemma today_named:
  assumes "zone_of zs tz = Inr z" "n = local_clock z now div 86400" "2 \<le> n" "n \<le> 3652058"
  shows "\<exists>today. local_today zs now tz = Inr today \<and> names_day today n"
proof -
  define x where "x = local_clock z now"
  have b: "MIN_SECONDS \<le> x" "x \<le> MAX_SECONDS" using assms(2-4) by (auto simp: x_def MIN_SECONDS_def MAX_SECONDS_def)
  note v = civil_valid [OF b]
  let ?v = "civil x"
  have "x div 86400 = ordinal (nv_year ?v) (nv_month ?v) (nv_day ?v)"
    using v by (intro int_div_pos_eq [of _ _ _ "nv_hour ?v * 3600 + nv_minute ?v * 60 + nv_second ?v"])
      (auto simp: seconds_def valid_naive_def)
  then have "names_day (date_text ?v) n"
    using v(1) assms(2) unfolding names_day_def x_def [symmetric]
    by (intro exI [of _ "nv_year ?v"] exI [of _ "nv_month ?v"] exI [of _ "nv_day ?v"])
      (simp add: valid_naive_def ymd_text_def date_text_def)
  moreover have "local_today zs now tz = Inr (date_text ?v)"
    using assms(1) b by (auto simp: local_today_def zone_of_def utc_zone_def checked_def x_def)
  ultimately show ?thesis by blast
qed

text \<open>
  C25. The data of an incident is not aged out.  The incident has a first day, and a last day that is its end date
  or, while it has none, the local day on which the clean-up runs (days of the years 1 to 9999, but for the very
  first and last).  No clean-up, whether it succeeds or fails and however short the retention, removes a snapshot or an
  event stored at an instant whose local day is the first, the last or between them, with one exception: where the
  clocks are set back at the end of the last day, so that its last second is shown twice, the second showing of the
  repeated time is not spared (\<open>incident_hour_deleted\<close>).  (The zone is as described above near both ends,
  and the first midnight, or the second before it, is a time its clocks show.)
\<close>

theorem incident_days_survive:
  assumes "ar_incidents a = Some rs" "(Some s, e) \<in> set rs" "zone_of zs tz = Inr z" "short_offsets z"
    and "names_day s from_day" "2 \<le> from_day" "to_day \<le> 3652058"
    and "case e of None \<Rightarrow> to_day = local_clock z now div 86400
      | Some x \<Rightarrow> if x = [] then to_day = local_clock z now div 86400 else names_day x to_day"
    and "regular_near z (from_day * 86400)" "local_clock z v \<in> {from_day * 86400, from_day * 86400 - 1}"
    and "regular_near z (to_day * 86400 + 86399)"
    and "st_time r = utc_stamp u" "MIN_SECONDS \<le> u" "u \<le> MAX_SECONDS"
    and "from_day \<le> local_clock z u div 86400" "local_clock z u div 86400 \<le> to_day"
    and "local_clock z u div 86400 < to_day \<or> wall_offset z (local_clock z u) = utc_offset z u
      \<or> (\<forall>v v'. local_clock z v = to_day * 86400 + 86399 \<longrightarrow> local_clock z v' = to_day * 86400 + 86399 \<longrightarrow> v = v')"
  shows "(r \<in> set (ar_snapshots a) \<longrightarrow> r \<in> set (ar_snapshots (fst (clean_up zs now tz days a))))
    \<and> (r \<in> set (ar_events a) \<longrightarrow> r \<in> set (ar_events (fst (clean_up zs now tz days a))))"
proof (cases "\<exists>today. local_today zs now tz = Inr today")
  case False
  then have "incident_windows zs now tz (ar_incidents a) \<noteq> Inr ws" for ws
    using assms(1) by (cases "local_today zs now tz") (auto simp: incident_windows_def)
  then show ?thesis by (intro windowed_rows_survive) blast
next
  case True
  then obtain today where today: "local_today zs now tz = Inr today" by blast
  have bounds: "2 \<le> to_day" "from_day \<le> 3652058" using assms(6,7,15,16) by auto
  have "names_day today to_day" if "to_day = local_clock z now div 86400"
    using today_named [OF assms(3) that bounds(1) assms(7)] today by auto
  then have day: "names_day (case e of None \<Rightarrow> today | Some x \<Rightarrow> if x = [] then today else x) to_day"
    using assms(8) by (auto split: option.splits if_splits)
  have u: "from_day * 86400 \<le> local_clock z u" "local_clock z u \<le> to_day * 86400 + 86399"
    "local_clock z u div 86400 < to_day \<Longrightarrow> local_clock z u \<le> to_day * 86400 + 86399 - 86400"
    using assms(15,16) by linarith+
  have from_u: "from_day * 86400 - wall_offset z (from_day * 86400) \<le> u" by (rule day_begins [OF assms(9,4,10) u(1)])
  have to_u: "u \<le> to_day * 86400 + 86399 - wall_offset z (to_day * 86400 + 86399)"
    using assms(17) u(3) by (intro day_ends [OF assms(11,4) u(2)]) blast
  have "\<bar>wall_offset z x\<bar> < 86400" for x using assms(4) by (simp add: short_offsets_def)
  from this [of "from_day * 86400"] this [of "to_day * 86400 + 86399"]
  have range: "MIN_SECONDS \<le> from_day * 86400 - wall_offset z (from_day * 86400)"
    "from_day * 86400 - wall_offset z (from_day * 86400) \<le> MAX_SECONDS"
    "MIN_SECONDS \<le> to_day * 86400 + 86399 - wall_offset z (to_day * 86400 + 86399)"
    "to_day * 86400 + 86399 - wall_offset z (to_day * 86400 + 86399) \<le> MAX_SECONDS"
    using assms(6,7) bounds unfolding MIN_SECONDS_def MAX_SECONDS_def by linarith+
  have "s \<noteq> []" using assms(5) by (auto simp: names_day_def ymd_text_def date_text_def)
  from window_rows_survive [OF assms(1,2) this today day_range [OF assms(3,4,5,6) bounds(2)] day_range [OF assms(3,4) day bounds(1) assms(7)]]
  show ?thesis using utc_stamp_order(2) from_u to_u range assms(12-14) by simp
qed

text \<open>
  An incident on the day summer time ends in Berlin: the second showing of half past two, which is not at the end of
  the day, is spared.
\<close>

definition berlin_archive :: archive where
  "berlin_archive = \<lparr>ar_snapshots = [\<lparr>st_id = 1, st_time = utc_stamp 63897125400\<rparr>], ar_events = [], ar_bqm = None,
     ar_weather = None, ar_executions = None, ar_incidents = Some [(Some (ymd_text 2025 10 26), Some (ymd_text 2025 10 26))]\<rparr>"

lemma berlin_regular: "regular_near berlin w"
  unfolding regular_near_def
  by (intro exI [of _ 63897123600] exI [of _ 7200] exI [of _ 3600]) (simp add: berlin_def)

theorem incident_days_survive_witness:
  "\<lparr>st_id = 1, st_time = utc_stamp 63897125400\<rparr>
     \<in> set (ar_snapshots (fst (clean_up (\<lambda>tz. Inr berlin) 63904593600 ''Europe/Berlin'' 1 berlin_archive)))"
proof -
  have day: "names_day (ymd_text 2025 10 26) 739550"
    unfolding names_day_def by (intro exI [of _ 2025] exI [of _ 10] exI [of _ 26])
      (simp add: valid_ymd_def days_in_month_def ordinal_def days_before_year_def days_before_month_def leap_day_def is_leap_def)
  have "(r \<in> set (ar_snapshots berlin_archive) \<longrightarrow>
      r \<in> set (ar_snapshots (fst (clean_up (\<lambda>tz. Inr berlin) 63904593600 ''Europe/Berlin'' 1 berlin_archive))))
    \<and> (r \<in> set (ar_events berlin_archive) \<longrightarrow>
      r \<in> set (ar_events (fst (clean_up (\<lambda>tz. Inr berlin) 63904593600 ''Europe/Berlin'' 1 berlin_archive))))"
    if "st_time r = utc_stamp 63897125400" for r
    by (rule incident_days_survive [where z = berlin and from_day = 739550 and to_day = 739550 and v = "739550 * 86400 - 7200", OF _ _ _ _ day])
      (use day berlin_regular that in \<open>auto simp: berlin_archive_def zone_of_def short_offsets_def berlin_def MIN_SECONDS_def
         MAX_SECONDS_def ymd_text_def date_text_def split: if_splits\<close>)
  from this [of "\<lparr>st_id = 1, st_time = utc_stamp 63897125400\<rparr>"] show ?thesis by (simp add: berlin_archive_def)
qed

text \<open>A store without a zone: one day of retention, an incident in 2020, a snapshot of that day.\<close>

definition sample_archive :: archive where
  "sample_archive = \<lparr>ar_snapshots = [\<lparr>st_id = 1, st_time = ''2020-01-01T12:00:00Z''\<rparr>, \<lparr>st_id = 2, st_time = ''2020-01-03T12:00:00Z''\<rparr>],
     ar_events = [], ar_bqm = None, ar_weather = None, ar_executions = None,
     ar_incidents = Some [(Some ''2020-01-01'', Some ''2020-01-02'')]\<rparr>"

definition sample_now :: int where
  "sample_now = 63904593600"

lemma cutoff_stamp:
  assumes "utc_cutoff now days 0 0 = Inr c"
  shows "c = utc_stamp (now - days * 86400) \<and> MIN_SECONDS \<le> now - days * 86400 \<and> now - days * 86400 \<le> MAX_SECONDS"
  using assms by (auto simp: utc_cutoff_def checked_def utc_stamp_def split: if_splits)

text \<open>
  A clean-up that succeeds deletes exactly what it may: a snapshot or an event stays if it
  is not older than the retention or lies in a window of an incident, a finished execution stays
  only in the first case.  The times compared are instants.
\<close>

theorem clean_up_exact:
  assumes "clean_up zs now tz days a = (a', Inr ())" "0 < days"
    and "st_time r = utc_stamp u" "MIN_SECONDS \<le> u" "u \<le> MAX_SECONDS"
  shows "\<exists>ws. incident_windows zs now tz (ar_incidents a) = Inr ws
    \<and> (r \<in> set (ar_snapshots a') \<longleftrightarrow> r \<in> set (ar_snapshots a) \<and> (now - days * 86400 \<le> u \<or> protected_time ws (st_time r)))
    \<and> (r \<in> set (ar_events a') \<longleftrightarrow> r \<in> set (ar_events a) \<and> (now - days * 86400 \<le> u \<or> protected_time ws (st_time r)))
    \<and> (r \<in> set (case ar_executions a' of None \<Rightarrow> [] | Some rs \<Rightarrow> rs)
       \<longleftrightarrow> r \<in> set (case ar_executions a of None \<Rightarrow> [] | Some rs \<Rightarrow> rs) \<and> now - days * 86400 \<le> u)"
  using assms(1,2)
proof (cases rule: clean_up_success)
  case (1 cutoff ws cutoff_date)
  note c = cutoff_stamp [OF 1(1)]
  have "cutoff \<le> st_time r \<longleftrightarrow> now - days * 86400 \<le> u"
    using utc_stamp_order(2) assms(3-5) c by simp
  with 1 show ?thesis
    by (auto simp: cleaned_def expired_iff delete_before_iff split: option.splits)
qed

abbreviation no_zone :: zones where
  "no_zone \<equiv> \<lambda>tz. Inl (KeyError tz)"

lemma strptime_date_text: "valid_naive v \<Longrightarrow> strptime_date (date_text v) = Some (nv_year v, nv_month v, nv_day v)"
  using strptime_ymd_text [of "nv_year v" "nv_month v" "nv_day v"] by (simp add: valid_naive_def ymd_text_def date_text_def)

lemma days_before_local:
  assumes "local_today zs now tz = Inr (date_text (civil u))" "MIN_SECONDS \<le> u" "u \<le> MAX_SECONDS"
  shows "days_before_today zs now tz days = map_sum id date_text (checked ((u div 86400 - days) * 86400))"
proof -
  let ?v = "civil u"
  note v = civil_valid [OF assms(2,3)]
  have "u div 86400 = ordinal (nv_year ?v) (nv_month ?v) (nv_day ?v)"
    using v by (intro int_div_pos_eq [of _ _ _ "nv_hour ?v * 3600 + nv_minute ?v * 60 + nv_second ?v"])
      (auto simp: seconds_def valid_naive_def)
  then show ?thesis using assms(1) strptime_date_text [OF v(1)] by (simp add: days_before_today_def)
qed

lemma sample_clean_up: "snd (clean_up no_zone sample_now [] 1 sample_archive) = Inr ()"
proof -
  have today: "local_today no_zone sample_now [] = Inr (date_text (civil sample_now))" by (simp add: local_today_def)
  have "\<exists>c. utc_cutoff sample_now 1 0 0 = Inr c"
    by (simp add: utc_cutoff_def checked_def sample_now_def MIN_SECONDS_def MAX_SECONDS_def)
  moreover have "\<exists>ws. incident_windows no_zone sample_now [] (ar_incidents sample_archive) = Inr ws"
    by (simp add: incident_windows_def today sample_archive_def)
  moreover have "\<exists>d. days_before_today no_zone sample_now [] 1 = Inr d"
    using days_before_local [OF today] by (simp add: checked_def sample_now_def MIN_SECONDS_def MAX_SECONDS_def)
  ultimately show ?thesis using clean_up_eq [of 1 sample_now _ no_zone "[]" sample_archive] by auto
qed

theorem clean_up_exact_witness:
  "\<exists>ws. incident_windows no_zone sample_now [] (ar_incidents sample_archive) = Inr ws
    \<and> (\<lparr>st_id = 3, st_time = utc_stamp 63904593600\<rparr> \<in> set (ar_snapshots (fst (clean_up no_zone sample_now [] 1 sample_archive)))
       \<longleftrightarrow> \<lparr>st_id = 3, st_time = utc_stamp 63904593600\<rparr> \<in> set (ar_snapshots sample_archive))"
proof -
  have "clean_up no_zone sample_now [] 1 sample_archive = (fst (clean_up no_zone sample_now [] 1 sample_archive), Inr ())"
    using sample_clean_up by (metis prod.collapse)
  from clean_up_exact [OF this, of "\<lparr>st_id = 3, st_time = utc_stamp 63904593600\<rparr>" 63904593600] show ?thesis
    by (auto simp: sample_now_def MIN_SECONDS_def MAX_SECONDS_def)
qed

text \<open>
  A second clean-up at the same time finds nothing left to delete.\<close>

theorem clean_up_idempotent:
  assumes "clean_up zs now tz days a = (a', Inr ())"
  shows "clean_up zs now tz days a' = (a', Inr ())"
proof (cases "days \<le> 0")
  case True
  then show ?thesis using assms by (simp add: clean_up_def)
next
  case False
  then have "0 < days" by simp
  with assms show ?thesis
  proof (cases rule: clean_up_success)
    case (1 cutoff ws cutoff_date)
    then have "incident_windows zs now tz (ar_incidents a') = Inr ws" by (simp add: cleaned_def)
    from clean_up_eq [OF \<open>0 < days\<close> 1(1) this 1(3)] show ?thesis
      by (simp add: 1(4) cleaned_def expired_idem option_delete_idem)
  qed
qed

theorem clean_up_idempotent_witness:
  "clean_up no_zone sample_now [] 1 (fst (clean_up no_zone sample_now [] 1 sample_archive))
    = (fst (clean_up no_zone sample_now [] 1 sample_archive), Inr ())"
  by (rule clean_up_idempotent [of _ _ _ _ sample_archive]) (metis prod.collapse sample_clean_up)

definition beirut_archive :: "int \<Rightarrow> archive" where
  "beirut_archive s = \<lparr>ar_snapshots = [\<lparr>st_id = 1, st_time = utc_stamp (63897109200 + s)\<rparr>], ar_events = [], ar_bqm = None,
     ar_weather = None, ar_executions = None, ar_incidents = Some [(Some ''2025-10-25'', Some ''2025-10-25'')]\<rparr>"

abbreviation in_beirut :: zones where
  "in_beirut \<equiv> \<lambda>tz. Inr beirut"

lemma beirut_window:
  assumes "0 \<le> s" "incident_windows in_beirut sample_now ''Asia/Beirut'' (ar_incidents (beirut_archive s)) = Inr ws"
  shows "\<not> protected_time ws (utc_stamp (63897109200 + s)) \<or> 63897109200 + s > MAX_SECONDS"
proof -
  have "ws = [(utc_stamp 63897022800, utc_stamp 63897109199)]"
    using beirut_ranges(1) assms(2)
    by (auto simp: incident_windows_def res_bind_Inr_iff beirut_archive_def dated_incidents_def incident_window_def)
  moreover have "\<not> utc_stamp (63897109200 + s) \<le> utc_stamp 63897109199" if "63897109200 + s \<le> MAX_SECONDS"
    using that assms(1) by (subst utc_stamp_order(2)) (simp_all add: MIN_SECONDS_def MAX_SECONDS_def)
  ultimately show ?thesis by (cases "63897109200 + s \<le> MAX_SECONDS") (auto simp: protected_time_def)
qed

text \<open>
  Where the clocks go back at midnight the last hour of an incident's day is not spared:
  the wall clock shows the day of the incident, and the clean-up deletes the snapshot.
\<close>

theorem incident_hour_deleted:
  assumes "0 \<le> s" "s < 3600"
    and "clean_up in_beirut sample_now ''Asia/Beirut'' 7 (beirut_archive s) = (a', Inr ())"
  shows "(\<exists>l. to_local in_beirut (utc_stamp (63897109200 + s)) ''Asia/Beirut'' = Inr l \<and> take 10 l = ''2025-10-25'')
    \<and> ar_snapshots a' = []"
proof
  show "\<exists>l. to_local in_beirut (utc_stamp (63897109200 + s)) ''Asia/Beirut'' = Inr l \<and> take 10 l = ''2025-10-25''"
    using fold_hour_day [OF assms(1,2)] by blast
  show "ar_snapshots a' = []"
  proof (rule clean_up_success [OF assms(3)])
    fix cutoff ws cutoff_date
    assume 2: "utc_cutoff sample_now 7 0 0 = Inr cutoff"
      "incident_windows in_beirut sample_now ''Asia/Beirut'' (ar_incidents (beirut_archive s)) = Inr ws"
      "days_before_today in_beirut sample_now ''Asia/Beirut'' 7 = Inr cutoff_date"
      "a' = cleaned ws cutoff cutoff_date (beirut_archive s)"
    have range: "63897109200 + s \<le> MAX_SECONDS" "MIN_SECONDS \<le> 63897109200 + s"
      using assms(1,2) by (simp_all add: MAX_SECONDS_def MIN_SECONDS_def)
    with beirut_window [OF assms(1) 2(2)] have "\<not> protected_time ws (utc_stamp (63897109200 + s))" by simp
    moreover have "utc_stamp (63897109200 + s) < cutoff"
      using cutoff_stamp [OF 2(1)] range assms(1,2) by (simp add: utc_stamp_order(1) sample_now_def)
    ultimately show ?thesis
      by (simp add: 2(4) cleaned_def delete_expired_def beirut_archive_def)
  qed simp
qed

theorem incident_hour_deleted_witness:
  "ar_snapshots (fst (clean_up in_beirut sample_now ''Asia/Beirut'' 7 (beirut_archive 0))) = []"
proof -
  have today: "local_today in_beirut sample_now ''Asia/Beirut'' = Inr (date_text (civil (sample_now + 7200)))"
    by (simp add: local_today_def beirut_def sample_now_def checked_def MIN_SECONDS_def MAX_SECONDS_def)
  have "\<exists>c. utc_cutoff sample_now 7 0 0 = Inr c"
    by (simp add: utc_cutoff_def checked_def sample_now_def MIN_SECONDS_def MAX_SECONDS_def)
  moreover have "\<exists>ws. incident_windows in_beirut sample_now ''Asia/Beirut'' (ar_incidents (beirut_archive 0)) = Inr ws"
    by (simp add: incident_windows_def today beirut_archive_def)
  moreover have "\<exists>d. days_before_today in_beirut sample_now ''Asia/Beirut'' 7 = Inr d"
    using days_before_local [OF today] by (simp add: checked_def sample_now_def MIN_SECONDS_def MAX_SECONDS_def)
  ultimately obtain a where "clean_up in_beirut sample_now ''Asia/Beirut'' 7 (beirut_archive 0) = (a, Inr ())"
    using clean_up_eq [of 7 sample_now _ in_beirut "''Asia/Beirut''" "beirut_archive 0"] by fastforce
  with incident_hour_deleted [of 0 a] show ?thesis by simp
qed

section \<open>The removal of demo data\<close>

definition entries_of :: "demo_data \<Rightarrow> demo_entry list" where
  "entries_of d = (case dm_entries d of None \<Rightarrow> [] | Some es \<Rightarrow> es)"

definition incidents_of :: "demo_data \<Rightarrow> demo_row list" where
  "incidents_of d = (case dm_incidents d of None \<Rightarrow> [] | Some rs \<Rightarrow> rs)"

definition attachments_of :: "demo_data \<Rightarrow> (int \<times> int) list" where
  "attachments_of d = (case dm_attachments d of None \<Rightarrow> [] | Some rs \<Rightarrow> rs)"

definition demo_ids :: "demo_data \<Rightarrow> int list" where
  "demo_ids d = map dr_id (filter dr_demo (incidents_of d))"

lemma unassign_simps [simp]: "de_demo (unassign ids e) = de_demo e" "de_id (unassign ids e) = de_id e" "unassign [] e = e"
  by (simp_all add: unassign_def split: option.splits)

lemma unassign_incident:
  "de_incident (unassign ids e) = (case de_incident e of None \<Rightarrow> None | Some i \<Rightarrow> if i \<in> set ids then None else Some i)"
  by (simp add: unassign_def split: option.splits)

lemma purge_entries:
  "entries_of (fst (purge_demo_data d)) = map (unassign (demo_ids d)) (filter (\<lambda>e. \<not> de_demo e) (entries_of d))"
proof -
  have "filter (\<lambda>e. \<not> de_demo e) (map (unassign ids) es) = map (unassign ids) (filter (\<lambda>e. \<not> de_demo e) es)" for ids es
    by (induction es) simp_all
  moreover have "unassign [] = id" by (simp add: fun_eq_iff)
  ultimately show ?thesis
    by (auto simp: purge_demo_data_def purge_rows_def purge_attachments_def unassign_entries_def entries_of_def incidents_of_def
        demo_ids_def Let_def split: option.splits prod.splits)
qed

lemma purge_incidents: "incidents_of (fst (purge_demo_data d)) = filter (\<lambda>r. \<not> dr_demo r) (incidents_of d)"
  by (auto simp: purge_demo_data_def purge_rows_def purge_attachments_def unassign_entries_def incidents_of_def
      Let_def split: option.splits prod.splits)

lemma purge_attachments_of:
  "dm_entries d \<noteq> None \<Longrightarrow> attachments_of (fst (purge_demo_data d)) =
     filter (\<lambda>(i, e). e \<notin> set (map de_id (filter de_demo (entries_of d)))) (attachments_of d)"
  by (auto simp: purge_demo_data_def purge_rows_def purge_attachments_def unassign_entries_def attachments_of_def entries_of_def
      Let_def split: option.splits prod.splits)

lemma purge_others:
  "dm_others (fst (purge_demo_data d)) =
     map (\<lambda>(t, rs). (t, map_option (filter (\<lambda>r. \<not> dr_demo r)) rs)) (dm_others d)"
  by (auto simp: purge_demo_data_def purge_rows_def purge_attachments_def unassign_entries_def
      Let_def split: option.splits prod.splits)

lemma purge_count:
  "snd (purge_demo_data d) = length (filter de_demo (entries_of d)) + length (filter dr_demo (incidents_of d))
     + sum_list (map (\<lambda>(t, rs). length (filter dr_demo (case rs of None \<Rightarrow> [] | Some x \<Rightarrow> x))) (dm_others d))"
proof -
  have e: "de_demo \<circ> unassign ids = de_demo" for ids by (simp add: fun_eq_iff)
  have o: "sum_list (map (\<lambda>(t, p). snd p) (map (\<lambda>(t, rs). (t, purge_rows dr_demo rs)) ts)) =
      sum_list (map (\<lambda>(t, rs). length (filter dr_demo (case rs of None \<Rightarrow> [] | Some x \<Rightarrow> x))) ts)" for ts :: "(string \<times> demo_row list option) list"
    by (induction ts) (auto simp: purge_rows_def split: option.splits)
  show ?thesis
    unfolding purge_demo_data_def Let_def
    by (cases "dm_attachments d"; cases "dm_entries d"; cases "dm_incidents d")
      (auto simp: purge_rows_def [of de_demo] purge_rows_def [of dr_demo "dm_incidents _"] purge_rows_def [of dr_demo None]
        purge_rows_def [of dr_demo "Some _"] purge_attachments_def unassign_entries_def entries_of_def incidents_of_def filter_map e o
        simp del: map_map split: prod.splits)
qed

text \<open>
  Purging removes the demo data and nothing else: the rows without the flag all stay, in
  their order; no attachment of a deleted entry and no reference to a deleted incident remains;
  and the count it returns is that of the deleted rows.
\<close>

theorem purge_removes_demo_only:
  assumes "purge_demo_data d = (d', n)" "dm_entries d \<noteq> None"
  shows "incidents_of d' = filter (\<lambda>r. \<not> dr_demo r) (incidents_of d)
    \<and> map de_id (entries_of d') = map de_id (filter (\<lambda>e. \<not> de_demo e) (entries_of d))
    \<and> list_all (\<lambda>e. case de_incident e of None \<Rightarrow> True | Some i \<Rightarrow> i \<notin> set (demo_ids d)) (entries_of d')
    \<and> attachments_of d' = filter (\<lambda>(i, e). e \<notin> set (map de_id (filter de_demo (entries_of d)))) (attachments_of d)
    \<and> dm_others d' = map (\<lambda>(t, rs). (t, map_option (filter (\<lambda>r. \<not> dr_demo r)) rs)) (dm_others d)
    \<and> n = length (filter de_demo (entries_of d)) + length (filter dr_demo (incidents_of d))
        + sum_list (map (\<lambda>(t, rs). length (filter dr_demo (case rs of None \<Rightarrow> [] | Some x \<Rightarrow> x))) (dm_others d))"
proof -
  have d': "d' = fst (purge_demo_data d)" using assms(1) by simp
  have "map de_id (map (unassign ids) es) = map de_id es" for ids es by simp
  moreover have "list_all (\<lambda>e. case de_incident e of None \<Rightarrow> True | Some i \<Rightarrow> i \<notin> set ids) (map (unassign ids) es)" for ids es
    by (induction es) (auto simp: unassign_incident split: option.splits)
  ultimately show ?thesis
    unfolding d' purge_entries purge_incidents purge_attachments_of [OF assms(2)] purge_others
    using purge_count [of d] assms(1) by simp
qed

definition sample_demo :: demo_data where
  "sample_demo = \<lparr>dm_attachments = Some [(1, 10), (2, 11)],
     dm_entries = Some [\<lparr>de_id = 10, de_incident = None, de_demo = True\<rparr>, \<lparr>de_id = 11, de_incident = Some 5, de_demo = False\<rparr>],
     dm_incidents = Some [\<lparr>dr_id = 5, dr_demo = True\<rparr>], dm_others = [(''events'', Some [\<lparr>dr_id = 1, dr_demo = True\<rparr>])]\<rparr>"

theorem purge_removes_demo_only_witness:
  "incidents_of (fst (purge_demo_data sample_demo)) = [] \<and> attachments_of (fst (purge_demo_data sample_demo)) = [(2, 11)]
   \<and> snd (purge_demo_data sample_demo) = 3"
  using purge_removes_demo_only [of sample_demo "fst (purge_demo_data sample_demo)" "snd (purge_demo_data sample_demo)"]
  by (simp add: sample_demo_def incidents_of_def attachments_of_def entries_of_def)

section \<open>The conversion to UTC\<close>

text \<open>
  Timestamps in the local form become the stored form of the same instant; those that end
  in Z, are empty or missing stay as they are; and the conversion happens once: run again, with
  whatever zone, it changes nothing.
\<close>

theorem conversion_by_zone:
  assumes "migrate_to_utc zs now tz s = (s', Inr True)" "zs tz = Inr z" "tz \<noteq> []"
    and "(col, cells) \<in> set (tz_columns s)"
  shows "\<exists>cells'. (col, cells') \<in> set (tz_columns s') \<and> list_all2 (\<lambda>c c'.
      (\<not> needs_utc c \<longrightarrow> c' = c) \<and>
      (\<forall>v. c = Some (stamp v) \<longrightarrow> valid_naive v \<longrightarrow> MIN_SECONDS \<le> seconds v - wall_offset z (seconds v) \<longrightarrow>
         seconds v - wall_offset z (seconds v) \<le> MAX_SECONDS \<longrightarrow>
         c' = Some (utc_stamp (seconds v - wall_offset z (seconds v))))) cells cells'
    \<and> migrate_to_utc zs' now' tz' s' = (s', Inr False)"
proof -
  from assms(1) obtain cs where cs: "mapM_res (convert_column zs tz) (tz_columns s) = Inr cs" "tz_columns s' = cs" "tz_migrated s' \<noteq> None"
    by (auto simp: migrate_to_utc_def split: if_splits sum.splits)
  from list_all2_mem [OF mapM_res_nth [OF cs(1)] assms(4)] obtain p where
    p: "p \<in> set cs" "convert_column zs tz (col, cells) = Inr p" by blast
  then obtain cells' where c': "p = (col, cells')" "mapM_res (convert_cell zs tz) cells = Inr cells'"
    by (auto simp: convert_column_def map_sum_Inr_iff)
  have needs: "needs_utc (Some (stamp v))" for v
    using last_digit [of v] separators(7) stamp_nonempty(1) [of v] by (auto simp: needs_utc_def is_digit_def)
  have "(\<not> needs_utc c \<longrightarrow> c' = c) \<and>
      (\<forall>v. c = Some (stamp v) \<longrightarrow> valid_naive v \<longrightarrow> MIN_SECONDS \<le> seconds v - wall_offset z (seconds v) \<longrightarrow>
         seconds v - wall_offset z (seconds v) \<le> MAX_SECONDS \<longrightarrow> c' = Some (utc_stamp (seconds v - wall_offset z (seconds v))))"
    if "convert_cell zs tz c = Inr c'" for c c'
    using that needs local_to_utc_stamp [of zs tz z] assms(2,3) by (auto simp: convert_cell_def)
  with mapM_res_nth [OF c'(2)] have "list_all2 (\<lambda>c c'.
      (\<not> needs_utc c \<longrightarrow> c' = c) \<and>
      (\<forall>v. c = Some (stamp v) \<longrightarrow> valid_naive v \<longrightarrow> MIN_SECONDS \<le> seconds v - wall_offset z (seconds v) \<longrightarrow>
         seconds v - wall_offset z (seconds v) \<le> MAX_SECONDS \<longrightarrow>
         c' = Some (utc_stamp (seconds v - wall_offset z (seconds v))))) cells cells'"
    by (rule list_all2_mono)
  moreover have "migrate_to_utc zs' now' tz' s' = (s', Inr False)" using cs(3) by (simp add: migrate_to_utc_def)
  ultimately show ?thesis using p(1) c'(1) cs(2) by blast
qed

text \<open>
  A zone the system does not know is remembered as done: not one timestamp is converted,
  each is reported as skipped, yet the flag is set, so that no later run with the right zone
  converts them either.
\<close>

theorem unknown_zone_marks_migrated:
  assumes "zs tz = Inl (KeyError k)" "tz \<noteq> []" "tz_migrated s = None"
  shows "\<exists>s'. migrate_to_utc zs now tz s = (s', Inr True) \<and> tz_columns s' = tz_columns s
    \<and> migrate_to_utc zs' now' tz' s' = (s', Inr False)"
proof -
  have cell: "convert_cell zs tz c = Inr c" for c
    using assms(1,2) by (cases "strptime_local (clean_stamp (the c))")
      (auto simp: convert_cell_def local_to_utc_def needs_utc_def strptime_local_def res_bind_def split: option.splits if_splits)
  have "mapM_res (convert_cell zs tz) cs = Inr cs" for cs
    using mapM_res_Inr [of cs "convert_cell zs tz" "\<lambda>x. x"] by (simp add: cell)
  then have "mapM_res (convert_column zs tz) cols = Inr cols" for cols
    using mapM_res_Inr [of cols "convert_column zs tz" "\<lambda>x. x"] by (simp add: convert_column_def)
  with assms(3) show ?thesis by (simp add: migrate_to_utc_def)
qed

definition sample_tz_store :: tz_store where
  "sample_tz_store = \<lparr>tz_columns = [((''events'', ''timestamp''), [Some ''2026-01-20T12:00:00'', None])], tz_migrated = None\<rparr>"

theorem unknown_zone_marks_migrated_witness:
  "\<exists>s'. migrate_to_utc no_zone ''now'' ''Mars/Phobos'' sample_tz_store = (s', Inr True) \<and> tz_columns s' = tz_columns sample_tz_store
    \<and> migrate_to_utc (\<lambda>tz. Inr berlin) ''later'' ''Europe/Berlin'' s' = (s', Inr False)"
  by (rule unknown_zone_marks_migrated [of no_zone _ "''Mars/Phobos''"]) (simp_all add: sample_tz_store_def)

theorem conversion_by_zone_witness:
  "\<exists>s'. migrate_to_utc (\<lambda>tz. Inr berlin_winter) ''now'' ''Europe/Berlin'' sample_tz_store = (s', Inr True)
    \<and> migrate_to_utc no_zone ''later'' [] s' = (s', Inr False)"
proof -
  let ?zs = "\<lambda>tz. Inr berlin_winter :: zone res"
  obtain s' where s': "migrate_to_utc ?zs ''now'' ''Europe/Berlin'' sample_tz_store = (s', Inr True)"
  proof -
    let ?v = "\<lparr>nv_year = 2026, nv_month = 1, nv_day = 20, nv_hour = 12, nv_minute = 0, nv_second = 0\<rparr>"
    have v: "stamp ?v = ''2026-01-20T12:00:00''" by code_simp
    have ok: "valid_naive ?v" by (simp add: valid_naive_def valid_ymd_def days_in_month_def)
    have "MIN_SECONDS \<le> seconds ?v - 3600 \<and> seconds ?v - 3600 \<le> MAX_SECONDS"
      by (simp add: seconds_def ordinal_def days_before_year_def days_before_month_def leap_day_def is_leap_def
          MIN_SECONDS_def MAX_SECONDS_def)
    with local_to_utc_stamp [of ?zs "''Europe/Berlin''" berlin_winter ?v] ok
    have "local_to_utc ?zs ''2026-01-20T12:00:00'' ''Europe/Berlin'' = Inr (utc_stamp (seconds ?v - 3600))"
      unfolding v by (simp add: berlin_winter_def)
    then have "snd (migrate_to_utc ?zs ''now'' ''Europe/Berlin'' sample_tz_store) = Inr True"
      by (simp add: migrate_to_utc_def sample_tz_store_def convert_column_def convert_cell_def needs_utc_def)
    with that show thesis by (metis prod.collapse)
  qed
  from conversion_by_zone [OF this refl, of "(''events'', ''timestamp'')" "[Some ''2026-01-20T12:00:00'', None]"]
  show ?thesis using s' by (auto simp: sample_tz_store_def)
qed

end
