(* ===== verification/Json_Values.thy ===== *)
theory Json_Values
  imports Py_Values
begin

text \<open>
  The values \<^verbatim>\<open>json.load\<close> returns, which configuration files, request bodies and module
  manifests hold: scalars, lists and insertion-ordered dictionaries.  A string outside ASCII
  is its UTF-8 encoding, which is enough where the code compares strings for equality.
\<close>

datatype json =
    JNull | JBool bool | JInt int | JFloat f64 | JStr string
  | JList "json list" | JDict "(string \<times> json) list"

fun j_truthy :: "json \<Rightarrow> bool" where
  "j_truthy JNull = False"
| "j_truthy (JBool b) = b"
| "j_truthy (JInt n) = (n \<noteq> 0)"
| "j_truthy (JFloat x) = (x \<noteq> Fin 0)"
| "j_truthy (JStr s) = (s \<noteq> [])"
| "j_truthy (JList xs) = (xs \<noteq> [])"
| "j_truthy (JDict d) = (d \<noteq> [])"

text \<open>\<^verbatim>\<open>int(value)\<close>, and \<^verbatim>\<open>isinstance(value, int)\<close>, which holds of booleans.\<close>

fun j_int :: "json \<Rightarrow> int res" where
  "j_int (JBool b) = py_int (PBool b)"
| "j_int (JInt n) = Inr n"
| "j_int (JFloat x) = py_int (PFloat x)"
| "j_int (JStr s) = py_int (PStr s)"
| "j_int JNull = Inl TypeError"
| "j_int (JList xs) = Inl TypeError"
| "j_int (JDict d) = Inl TypeError"

fun j_is_int :: "json \<Rightarrow> bool" where
  "j_is_int (JBool b) = True"
| "j_is_int (JInt n) = True"
| "j_is_int v = False"

fun j_is_str :: "json \<Rightarrow> bool" where
  "j_is_str (JStr s) = True"
| "j_is_str v = False"

lemma j_is_strE: "j_is_str v \<Longrightarrow> (\<And>s. v = JStr s \<Longrightarrow> P) \<Longrightarrow> P"
  by (cases v) auto

lemma j_truthy_not_null: "j_truthy v \<Longrightarrow> v \<noteq> JNull"
  by auto

text \<open>A method of \<^verbatim>\<open>str\<close> called on a value that may not be one.\<close>

fun on_str :: "(string \<Rightarrow> 'a) \<Rightarrow> json \<Rightarrow> 'a res" where
  "on_str f (JStr s) = Inr (f s)"
| "on_str f v = Inl AttributeError"

lemma on_str_Inr: "on_str f v = Inr y \<longleftrightarrow> (\<exists>s. v = JStr s \<and> y = f s)"
  by (cases v) auto

text \<open>\<^verbatim>\<open>d.get(k)\<close> and \<^verbatim>\<open>del d[k]\<close> on dictionaries.\<close>

definition j_get :: "(string \<times> json) list \<Rightarrow> string \<Rightarrow> json" where
  "j_get d k = dict_get d k JNull"

definition dict_del :: "'k \<Rightarrow> ('k \<times> 'v) list \<Rightarrow> ('k \<times> 'v) list" where
  "dict_del k d = filter (\<lambda>(k', v). k' \<noteq> k) d"

lemma map_of_filter_keys: "map_of (filter (\<lambda>(k, v). P k) d) k = (if P k then map_of d k else None)"
  by (induction d) auto

lemma map_of_dict_del [simp]: "map_of (dict_del k d) = (map_of d)(k := None)"
  by (rule ext) (simp add: dict_del_def map_of_filter_keys)

lemma distinct_filter_keys: "distinct (dict_keys d) \<Longrightarrow> distinct (dict_keys (filter P d))"
  by (rule distinct_map_filter)

lemma distinct_dict_del [simp]: "distinct (dict_keys d) \<Longrightarrow> distinct (dict_keys (dict_del k d))"
  by (simp add: dict_del_def distinct_filter_keys)

text \<open>\<^verbatim>\<open>d.update(e)\<close>.\<close>

definition dict_update :: "('k \<times> 'v) list \<Rightarrow> ('k \<times> 'v) list \<Rightarrow> ('k \<times> 'v) list" where
  "dict_update d e = foldl (\<lambda>a (k, v). dict_set k v a) d e"

lemma map_of_dict_update:
  "distinct (dict_keys e) \<Longrightarrow> map_of (dict_update d e) k = (case map_of e k of None \<Rightarrow> map_of d k | Some v \<Rightarrow> Some v)"
proof (induction e arbitrary: d)
  case (Cons p e)
  obtain a b where p: "p = (a, b)" by (cases p)
  from Cons.prems have e: "distinct (dict_keys e)" and a: "map_of e a = None"
    by (simp_all add: p map_of_eq_None_iff)
  show ?case using Cons.IH [OF e, of "dict_set a b d"] a
    by (auto simp: p dict_update_def split: option.split)
qed (simp add: dict_update_def)

lemma distinct_dict_update: "distinct (dict_keys d) \<Longrightarrow> distinct (dict_keys (dict_update d e))"
proof (induction e arbitrary: d)
  case (Cons p e)
  obtain a b where p: "p = (a, b)" by (cases p)
  show ?case using Cons.IH [of "dict_set a b d"] Cons.prems by (simp add: p dict_update_def)
qed (simp add: dict_update_def)

end
