(* ===== verification/Config_Store.thy ===== *)
theory Config_Store
  imports Json_Values
begin

text \<open>
  \<^verbatim>\<open>app/config.py\<close>: the configuration read from the environment and \<^verbatim>\<open>config.json\<close>, with secrets
  encrypted and the administrator's password hashed at rest.  The sets of key names are lists
  without an order that matters.  Werkzeug's hash, Fernet's encryption (with the salt or the
  time of the call fixed) and the check \<^verbatim>\<open>urlsplit\<close> makes of a network location are parameters;
  the file holds a dictionary, cannot be parsed or does not exist.
\<close>

section \<open>Tables\<close>

definition SECRET_KEYS :: "string list" where
  "SECRET_KEYS =
    [''modem_password'', ''mqtt_password'', ''speedtest_tracker_token'', ''notify_webhook_token'',
     ''notify_apprise_key'', ''notify_apprise_token'', ''notify_pwa_push_vapid_private_key'']"

definition DEMO_HIDE_KEYS :: "string list" where
  "DEMO_HIDE_KEYS =
    [''bqm_url'', ''speedtest_tracker_url'', ''notify_webhook_url'', ''notify_apprise_url'',
     ''notify_apprise_key'', ''notify_apprise_token'', ''notify_apprise_tag'',
     ''notify_pwa_push_vapid_private_key'', ''mqtt_host'', ''mqtt_user'', ''mqtt_topic_prefix'',
     ''mqtt_discovery_prefix'']"

definition HASH_KEYS :: "string list" where
  "HASH_KEYS =
    [''admin_password'']"

definition INT_KEYS :: "string list" where
  "INT_KEYS =
    [''poll_interval'', ''web_port'', ''history_days'', ''booked_download'', ''booked_upload'',
     ''notify_cooldown'', ''health_hysteresis'', ''sc_global_cooldown'', ''sc_trigger_cooldown'',
     ''sc_max_actions_per_hour'', ''sc_speedtest_min_interval'', ''sc_speedtest_max_actions_per_day'',
     ''sc_speedtest_match_window'', ''sc_flapping_window'', ''sc_flapping_threshold'',
     ''sc_trigger_error_spike_min_delta'']"

definition BOOL_KEYS :: "string list" where
  "BOOL_KEYS =
    [''demo_mode'', ''update_check_enabled'', ''gaming_quality_enabled'',
     ''segment_utilization_enabled'', ''notify_apprise_enabled'', ''notify_pwa_push_enabled'',
     ''metrics_require_token'', ''speedtest_tls_insecure'', ''sc_enabled'', ''sc_trigger_modulation'',
     ''sc_trigger_snr'', ''sc_trigger_error_spike'', ''sc_trigger_health'', ''sc_trigger_packet_loss'']"

definition URL_KEYS :: "string list" where
  "URL_KEYS =
    [''modem_url'', ''bqm_url'', ''speedtest_tracker_url'', ''notify_webhook_url'',
     ''notify_apprise_url'']"

definition DEFAULTS :: "(string \<times> json) list" where
  "DEFAULTS =
    [(''modem_type'', JStr ''fritzbox''), (''modem_url'', JStr ''http://192.168.178.1''),
     (''modem_user'', JStr []), (''modem_password'', JStr []), (''poll_interval'', JInt 900),
     (''web_port'', JInt 8765), (''public_url'', JStr []), (''history_days'', JInt 0),
     (''snapshot_time'', JStr ''06:00''), (''theme'', JStr ''dark''),
     (''font_family'', JStr ''outfit''), (''language'', JStr ''en''),
     (''temperature_unit'', JStr ''celsius''), (''isp_name'', JStr []), (''admin_password'', JStr []),
     (''metrics_require_token'', JBool False), (''dismissed_notice_ids'', JList []),
     (''update_check_enabled'', JBool False), (''demo_mode'', JBool False),
     (''gaming_quality_enabled'', JBool True), (''segment_utilization_enabled'', JBool True),
     (''speedtest_tls_insecure'', JBool False), (''booked_download'', JInt 0),
     (''booked_upload'', JInt 0), (''notify_webhook_url'', JStr []),
     (''notify_webhook_token'', JStr []), (''notify_apprise_enabled'', JBool False),
     (''notify_apprise_url'', JStr []), (''notify_apprise_key'', JStr []),
     (''notify_apprise_token'', JStr []), (''notify_apprise_tag'', JStr []),
     (''notify_pwa_push_enabled'', JBool False), (''notify_pwa_push_vapid_public_key'', JStr []),
     (''notify_pwa_push_vapid_private_key'', JStr []),
     (''notify_pwa_push_vapid_subject'', JStr ''mailto:admin@example.com''),
     (''notify_min_severity'', JStr ''warning''), (''notify_cooldown'', JInt 3600),
     (''notify_cooldowns'', JStr ''{}''), (''timezone'', JStr []),
     (''disabled_modules'', JStr ''docsight.smokeping''), (''active_theme'', JStr []),
     (''theme_registry_url'', JStr ''https://raw.githubusercontent.com/itsDNNS/docsight-themes/main/registry.json''),
     (''module_registry_url'', JStr ''https://raw.githubusercontent.com/itsDNNS/docsight-modules/main/registry.json''),
     (''health_hysteresis'', JInt 0), (''sc_enabled'', JBool False), (''sc_global_cooldown'', JInt 300),
     (''sc_trigger_cooldown'', JInt 900), (''sc_max_actions_per_hour'', JInt 4),
     (''sc_speedtest_min_interval'', JInt 14400), (''sc_speedtest_max_actions_per_day'', JInt 4),
     (''sc_speedtest_match_window'', JInt 900), (''sc_flapping_window'', JInt 3600),
     (''sc_flapping_threshold'', JInt 3), (''sc_trigger_modulation'', JBool True),
     (''sc_trigger_modulation_direction'', JStr ''both''), (''sc_trigger_modulation_min_qam'', JStr []),
     (''sc_trigger_snr'', JBool False), (''sc_trigger_error_spike'', JBool False),
     (''sc_trigger_error_spike_min_delta'', JInt 0), (''sc_trigger_health'', JBool False),
     (''sc_trigger_health_level'', JStr ''any_degradation''), (''sc_trigger_packet_loss'', JBool False),
     (''sc_trigger_packet_loss_min_pct'', JStr ''5.0'')]"

definition ENV_MAP :: "(string \<times> string) list" where
  "ENV_MAP =
    [(''modem_type'', ''MODEM_TYPE''), (''modem_url'', ''MODEM_URL''), (''modem_user'', ''MODEM_USER''),
     (''modem_password'', ''MODEM_PASSWORD''), (''mqtt_host'', ''MQTT_HOST''),
     (''mqtt_port'', ''MQTT_PORT''), (''mqtt_user'', ''MQTT_USER''),
     (''mqtt_password'', ''MQTT_PASSWORD''), (''mqtt_tls_insecure'', ''MQTT_TLS_INSECURE''),
     (''mqtt_topic_prefix'', ''MQTT_TOPIC_PREFIX''),
     (''mqtt_discovery_prefix'', ''MQTT_DISCOVERY_PREFIX''), (''poll_interval'', ''POLL_INTERVAL''),
     (''web_port'', ''WEB_PORT''), (''public_url'', ''PUBLIC_URL''),
     (''history_days'', ''HISTORY_DAYS''), (''data_dir'', ''DATA_DIR''),
     (''admin_password'', ''ADMIN_PASSWORD''), (''metrics_require_token'', ''METRICS_REQUIRE_TOKEN''),
     (''bqm_url'', ''BQM_URL''), (''speedtest_tracker_url'', ''SPEEDTEST_TRACKER_URL''),
     (''speedtest_tracker_token'', ''SPEEDTEST_TRACKER_TOKEN''),
     (''speedtest_tls_insecure'', ''SPEEDTEST_TLS_INSECURE''),
     (''booked_download'', ''BOOKED_DOWNLOAD''), (''booked_upload'', ''BOOKED_UPLOAD''),
     (''demo_mode'', ''DEMO_MODE''), (''update_check_enabled'', ''UPDATE_CHECK_ENABLED''),
     (''gaming_quality_enabled'', ''GAMING_QUALITY_ENABLED''),
     (''segment_utilization_enabled'', ''SEGMENT_UTILIZATION_ENABLED''),
     (''bnetz_enabled'', ''BNETZ_ENABLED''), (''notify_webhook_url'', ''NOTIFY_WEBHOOK_URL''),
     (''notify_webhook_token'', ''NOTIFY_WEBHOOK_TOKEN''),
     (''notify_apprise_enabled'', ''NOTIFY_APPRISE_ENABLED''),
     (''notify_apprise_url'', ''NOTIFY_APPRISE_URL''), (''notify_apprise_key'', ''NOTIFY_APPRISE_KEY''),
     (''notify_apprise_token'', ''NOTIFY_APPRISE_TOKEN''),
     (''notify_apprise_tag'', ''NOTIFY_APPRISE_TAG''),
     (''notify_pwa_push_enabled'', ''NOTIFY_PWA_PUSH_ENABLED''),
     (''notify_pwa_push_vapid_public_key'', ''NOTIFY_PWA_PUSH_VAPID_PUBLIC_KEY''),
     (''notify_pwa_push_vapid_private_key'', ''NOTIFY_PWA_PUSH_VAPID_PRIVATE_KEY''),
     (''notify_pwa_push_vapid_subject'', ''NOTIFY_PWA_PUSH_VAPID_SUBJECT''),
     (''notify_min_severity'', ''NOTIFY_MIN_SEVERITY''), (''notify_cooldown'', ''NOTIFY_COOLDOWN''),
     (''notify_cooldowns'', ''NOTIFY_COOLDOWNS''), (''bnetz_watch_enabled'', ''BNETZ_WATCH_ENABLED''),
     (''bnetz_watch_dir'', ''BNETZ_WATCH_DIR''), (''weather_enabled'', ''WEATHER_ENABLED''),
     (''weather_latitude'', ''WEATHER_LATITUDE''), (''weather_longitude'', ''WEATHER_LONGITUDE''),
     (''health_hysteresis'', ''HEALTH_HYSTERESIS''), (''module_registry_url'', ''MODULE_REGISTRY_URL''),
     (''sc_enabled'', ''SC_ENABLED''), (''sc_global_cooldown'', ''SC_GLOBAL_COOLDOWN''),
     (''sc_trigger_cooldown'', ''SC_TRIGGER_COOLDOWN''),
     (''sc_max_actions_per_hour'', ''SC_MAX_ACTIONS_PER_HOUR''),
     (''sc_speedtest_min_interval'', ''SC_SPEEDTEST_MIN_INTERVAL''),
     (''sc_speedtest_max_actions_per_day'', ''SC_SPEEDTEST_MAX_ACTIONS_PER_DAY''),
     (''sc_speedtest_match_window'', ''SC_SPEEDTEST_MATCH_WINDOW''),
     (''sc_flapping_window'', ''SC_FLAPPING_WINDOW''),
     (''sc_flapping_threshold'', ''SC_FLAPPING_THRESHOLD''),
     (''sc_trigger_modulation'', ''SC_TRIGGER_MODULATION''),
     (''sc_trigger_modulation_direction'', ''SC_TRIGGER_MODULATION_DIRECTION''),
     (''sc_trigger_modulation_min_qam'', ''SC_TRIGGER_MODULATION_MIN_QAM''),
     (''sc_trigger_snr'', ''SC_TRIGGER_SNR''), (''sc_trigger_error_spike'', ''SC_TRIGGER_ERROR_SPIKE''),
     (''sc_trigger_error_spike_min_delta'', ''SC_TRIGGER_ERROR_SPIKE_MIN_DELTA''),
     (''sc_trigger_health'', ''SC_TRIGGER_HEALTH''),
     (''sc_trigger_health_level'', ''SC_TRIGGER_HEALTH_LEVEL''),
     (''sc_trigger_packet_loss'', ''SC_TRIGGER_PACKET_LOSS''),
     (''sc_trigger_packet_loss_min_pct'', ''SC_TRIGGER_PACKET_LOSS_MIN_PCT'')]"

definition LEGACY_ENV_MAP :: "(string \<times> string) list" where
  "LEGACY_ENV_MAP =
    [(''modem_url'', ''FRITZ_URL''), (''modem_user'', ''FRITZ_USER''),
     (''modem_password'', ''FRITZ_PASSWORD'')]"

definition LEGACY_KEY_MAP :: "(string \<times> string) list" where
  "LEGACY_KEY_MAP =
    [(''fritz_url'', ''modem_url''), (''fritz_user'', ''modem_user''),
     (''fritz_password'', ''modem_password'')]"


text \<open>Eight bullets, as UTF-8.\<close>

definition PASSWORD_MASK :: string where
  "PASSWORD_MASK = concat (replicate 8 [CHR 0xE2, CHR 0x80, CHR 0xA2])"

definition TRUE_WORDS :: "string list" where
  "TRUE_WORDS = [''true'', ''1'', ''yes'', ''on'']"

section \<open>Schema, services and state\<close>

text \<open>
  The tables of the process, which the module registry extends; what the class takes from
  libraries and the operating system; one \<^verbatim>\<open>ConfigManager\<close> and its file.
\<close>

record schema =
  defaults :: "(string \<times> json) list"
  secret_keys :: "string list"
  module_secret_keys :: "string list"
  module_secret_owners :: "(string \<times> string) list"
  private_keys :: "string list"
  bool_keys :: "string list"
  int_keys :: "string list"

definition initial_schema :: schema where
  "initial_schema = \<lparr>defaults = DEFAULTS, secret_keys = SECRET_KEYS, module_secret_keys = [],
     module_secret_owners = [], private_keys = [], bool_keys = BOOL_KEYS, int_keys = INT_KEYS\<rparr>"

record services =
  getenv :: "string \<Rightarrow> string option"
  hash_password :: "string \<Rightarrow> string"
  fernet_encrypt :: "string \<Rightarrow> string"
  fernet_decrypt :: "string \<Rightarrow> string option"
  bad_netloc :: "string \<Rightarrow> bool"

datatype config_file = Missing | Damaged | Holds "(string \<times> json) list"

text \<open>How a write of the file ends: it is opened truncated, and only then filled.\<close>

datatype disk_write = Stored | No_Directory | Not_Opened | Torn

record config =
  file_config :: "(string \<times> json) list"
  disk :: config_file

definition is_secret_key :: "schema \<Rightarrow> string \<Rightarrow> bool" where
  "is_secret_key S key \<longleftrightarrow> key \<in> set (secret_keys S) \<or> key \<in> set (module_secret_keys S)"

definition parse_config_bool :: "json \<Rightarrow> bool" where
  "parse_config_bool v =
     (case v of JBool b \<Rightarrow> b
      | JStr s \<Rightarrow> py_lower (py_strip s) \<in> {''1'', ''true'', ''yes'', ''on''}
      | JInt n \<Rightarrow> n = 1
      | _ \<Rightarrow> False)"

definition set_module_secret_registry :: "string list \<Rightarrow> (string \<times> string) list \<Rightarrow> schema \<Rightarrow> schema" where
  "set_module_secret_registry keys owners S =
     S\<lparr>module_secret_keys := keys, module_secret_owners := owners,
       bool_keys := filter (\<lambda>k. k \<notin> set keys) (bool_keys S),
       int_keys := filter (\<lambda>k. k \<notin> set keys) (int_keys S)\<rparr>"

section \<open>Reading\<close>

definition written :: "disk_write \<Rightarrow> (string \<times> json) list \<Rightarrow> config_file \<Rightarrow> config_file" where
  "written w d f = (case w of Stored \<Rightarrow> Holds d | No_Directory \<Rightarrow> f | Not_Opened \<Rightarrow> f | Torn \<Rightarrow> Damaged)"

fun migrate_keys :: "(string \<times> string) list \<Rightarrow> (string \<times> json) list \<Rightarrow> bool \<times> (string \<times> json) list" where
  "migrate_keys [] d = (False, d)"
| "migrate_keys ((old_key, new_key) # m) d =
     (case map_of d old_key of
        Some v \<Rightarrow>
          let d' = (if map_of d new_key = None then dict_set new_key v (dict_del old_key d)
                    else dict_del old_key d)
          in (True, snd (migrate_keys m d'))
      | None \<Rightarrow> migrate_keys m d)"

definition migrate_legacy_keys :: "disk_write \<Rightarrow> config \<Rightarrow> config" where
  "migrate_legacy_keys w c =
     (case migrate_keys LEGACY_KEY_MAP (file_config c) of (migrated, d) \<Rightarrow>
        if migrated then c\<lparr>file_config := d, disk := written w d (disk c)\<rparr> else c)"

definition load_config :: "disk_write \<Rightarrow> config_file \<Rightarrow> config" where
  "load_config w f =
     (case f of
        Holds d \<Rightarrow> migrate_legacy_keys w \<lparr>file_config = d, disk = f\<rparr>
      | _ \<Rightarrow> \<lparr>file_config = [], disk = f\<rparr>)"

definition decrypt_value :: "services \<Rightarrow> json \<Rightarrow> json" where
  "decrypt_value sv v =
     (if \<not> j_truthy v then JStr []
      else case v of
        JStr s \<Rightarrow> (case fernet_decrypt sv s of Some p \<Rightarrow> JStr p | None \<Rightarrow> v)
      | _ \<Rightarrow> v)"

definition is_hash :: "string \<Rightarrow> bool" where
  "is_hash s \<longleftrightarrow> py_startswith s ''scrypt:'' \<or> py_startswith s ''pbkdf2:''"

definition default_disabled_modules :: "(string \<times> json) list \<Rightarrow> json" where
  "default_disabled_modules d =
     (if j_truthy (j_get d ''smokeping_url'') \<and> j_truthy (j_get d ''smokeping_targets'') then JStr []
      else j_get DEFAULTS ''disabled_modules'')"

definition env_value :: "services \<Rightarrow> string option \<Rightarrow> string option" where
  "env_value sv name =
     (case name of None \<Rightarrow> None | Some n \<Rightarrow>
        (case getenv sv n of None \<Rightarrow> None | Some v \<Rightarrow> if v = [] then None else Some v))"

definition int_text :: "string \<Rightarrow> json res" where
  "int_text s = map_sum id JInt (py_int (PStr s))"

definition env_coerced :: "schema \<Rightarrow> string \<Rightarrow> string \<Rightarrow> json res" where
  "env_coerced S key v =
     (if key \<in> set (int_keys S) then int_text v
      else if key \<in> set (bool_keys S) then Inr (JBool (py_lower v \<in> set TRUE_WORDS))
      else Inr (JStr v))"

definition hashed_value :: "services \<Rightarrow> json \<Rightarrow> json res" where
  "hashed_value sv v =
     (if \<not> j_truthy v then Inr (JStr [])
      else res_bind (on_str is_hash v) (\<lambda>h. Inr (if h then v else decrypt_value sv v)))"

definition file_value :: "schema \<Rightarrow> services \<Rightarrow> string \<Rightarrow> json \<Rightarrow> json \<Rightarrow> json res" where
  "file_value S sv key dflt v =
     (if key \<in> set (int_keys S) \<and> \<not> j_is_int v then
        if v = JStr [] \<or> v = JNull then Inr (if dflt = JNull then JInt 0 else dflt)
        else map_sum id JInt (j_int v)
      else if key \<in> set HASH_KEYS then hashed_value sv v
      else if is_secret_key S key \<or> key \<in> set (private_keys S) then Inr (decrypt_value sv v)
      else Inr v)"

text \<open>\<^verbatim>\<open>get(key, default)\<close>; the default \<^verbatim>\<open>None\<close> is \<^verbatim>\<open>JNull\<close>.\<close>

definition config_get :: "schema \<Rightarrow> services \<Rightarrow> config \<Rightarrow> string \<Rightarrow> json \<Rightarrow> json res" where
  "config_get S sv c key dflt =
     (case env_value sv (map_of ENV_MAP key) of Some v \<Rightarrow> env_coerced S key v
      | None \<Rightarrow>
     (case env_value sv (map_of LEGACY_ENV_MAP key) of Some v \<Rightarrow> Inr (JStr v)
      | None \<Rightarrow>
     (case map_of (file_config c) key of Some v \<Rightarrow> file_value S sv key dflt v
      | None \<Rightarrow>
        if key = ''disabled_modules'' then Inr (default_disabled_modules (file_config c))
        else if dflt \<noteq> JNull then Inr dflt
        else Inr (j_get (defaults S) key))))"

definition has_stored_value :: "config \<Rightarrow> string \<Rightarrow> bool" where
  "has_stored_value c key \<longleftrightarrow> map_of (file_config c) key \<noteq> None"

section \<open>Predicates\<close>

text \<open>Python's short-circuit connectives on tests that may raise.\<close>

definition or_res :: "bool res \<Rightarrow> bool res \<Rightarrow> bool res" where
  "or_res a b = res_bind a (\<lambda>x. if x then Inr True else b)"

definition and_res :: "bool res \<Rightarrow> bool res \<Rightarrow> bool res" where
  "and_res a b = res_bind a (\<lambda>x. if x then b else Inr False)"

definition is_set :: "schema \<Rightarrow> services \<Rightarrow> config \<Rightarrow> string \<Rightarrow> bool res" where
  "is_set S sv c key = map_sum id j_truthy (config_get S sv c key JNull)"

definition bool_of :: "json \<Rightarrow> bool" where
  "bool_of v = (case v of JStr s \<Rightarrow> py_lower s \<in> {''true'', ''1'', ''yes''} | _ \<Rightarrow> j_truthy v)"

definition get_bool :: "schema \<Rightarrow> services \<Rightarrow> config \<Rightarrow> string \<Rightarrow> bool res" where
  "get_bool S sv c key = map_sum id bool_of (config_get S sv c key JNull)"

definition is_demo_mode :: "schema \<Rightarrow> services \<Rightarrow> config \<Rightarrow> bool res" where
  "is_demo_mode S sv c = is_set S sv c ''demo_mode''"

definition is_configured :: "schema \<Rightarrow> services \<Rightarrow> config \<Rightarrow> bool res" where
  "is_configured S sv c = or_res (is_demo_mode S sv c) (Inr (has_stored_value c ''modem_type''))"

definition is_demo_mode_forced :: "services \<Rightarrow> bool" where
  "is_demo_mode_forced sv =
     (py_lower (case getenv sv ''DEMO_MODE'' of None \<Rightarrow> [] | Some v \<Rightarrow> v) \<in> set TRUE_WORDS)"

definition is_update_check_enabled :: "schema \<Rightarrow> services \<Rightarrow> config \<Rightarrow> bool res" where
  "is_update_check_enabled S sv c = get_bool S sv c ''update_check_enabled''"

definition is_mqtt_configured :: "schema \<Rightarrow> services \<Rightarrow> config \<Rightarrow> bool res" where
  "is_mqtt_configured S sv c = is_set S sv c ''mqtt_host''"

definition is_smokeping_configured :: "schema \<Rightarrow> services \<Rightarrow> config \<Rightarrow> bool res" where
  "is_smokeping_configured S sv c =
     or_res (and_res (is_set S sv c ''smokeping_url'') (is_set S sv c ''smokeping_targets'')) (is_demo_mode S sv c)"

definition is_bqm_configured :: "schema \<Rightarrow> services \<Rightarrow> config \<Rightarrow> bool res" where
  "is_bqm_configured S sv c = or_res (is_set S sv c ''bqm_url'') (is_demo_mode S sv c)"

definition is_gaming_quality_enabled :: "schema \<Rightarrow> services \<Rightarrow> config \<Rightarrow> bool res" where
  "is_gaming_quality_enabled S sv c = or_res (get_bool S sv c ''gaming_quality_enabled'') (is_demo_mode S sv c)"

definition is_segment_utilization_enabled :: "schema \<Rightarrow> services \<Rightarrow> config \<Rightarrow> bool res" where
  "is_segment_utilization_enabled S sv c = get_bool S sv c ''segment_utilization_enabled''"

definition is_bnetz_enabled :: "schema \<Rightarrow> services \<Rightarrow> config \<Rightarrow> bool res" where
  "is_bnetz_enabled S sv c = get_bool S sv c ''bnetz_enabled''"

definition is_bnetz_watch_configured :: "schema \<Rightarrow> services \<Rightarrow> config \<Rightarrow> bool res" where
  "is_bnetz_watch_configured S sv c = and_res (get_bool S sv c ''bnetz_watch_enabled'') (is_bnetz_enabled S sv c)"

definition pwa_push_configured :: "schema \<Rightarrow> services \<Rightarrow> config \<Rightarrow> bool res" where
  "pwa_push_configured S sv c =
     and_res (get_bool S sv c ''notify_pwa_push_enabled'')
       (and_res (is_set S sv c ''notify_pwa_push_vapid_public_key'')
                (is_set S sv c ''notify_pwa_push_vapid_private_key''))"

definition is_notify_configured :: "schema \<Rightarrow> services \<Rightarrow> config \<Rightarrow> bool res" where
  "is_notify_configured S sv c =
     res_bind (pwa_push_configured S sv c) (\<lambda>pwa.
       or_res (is_set S sv c ''notify_webhook_url'')
         (or_res (and_res (get_bool S sv c ''notify_apprise_enabled'') (is_set S sv c ''notify_apprise_url''))
                 (Inr pwa)))"

definition is_speedtest_configured :: "schema \<Rightarrow> services \<Rightarrow> config \<Rightarrow> bool res" where
  "is_speedtest_configured S sv c =
     or_res (and_res (is_set S sv c ''speedtest_tracker_url'') (is_set S sv c ''speedtest_tracker_token''))
            (is_demo_mode S sv c)"

definition is_weather_configured :: "schema \<Rightarrow> services \<Rightarrow> config \<Rightarrow> bool res" where
  "is_weather_configured S sv c =
     res_bind (is_set S sv c ''weather_latitude'') (\<lambda>lat.
     res_bind (is_set S sv c ''weather_longitude'') (\<lambda>lon.
       or_res (and_res (get_bool S sv c ''weather_enabled'') (Inr (lat \<and> lon))) (is_demo_mode S sv c)))"

definition is_backup_configured :: "schema \<Rightarrow> services \<Rightarrow> config \<Rightarrow> bool res" where
  "is_backup_configured S sv c = and_res (get_bool S sv c ''backup_enabled'') (is_set S sv c ''backup_path'')"

definition get_theme :: "schema \<Rightarrow> services \<Rightarrow> config \<Rightarrow> json res" where
  "get_theme S sv c =
     map_sum id (\<lambda>v. if v \<in> {JStr ''dark'', JStr ''light''} then v else JStr ''dark'')
       (config_get S sv c ''theme'' (JStr ''dark''))"

section \<open>Writing\<close>

text \<open>\<^verbatim>\<open>urlparse(value).scheme\<close>, and the network location \<^verbatim>\<open>urlsplit\<close> checks.\<close>

definition ascii_letter :: "char \<Rightarrow> bool" where
  "ascii_letter c \<longleftrightarrow> py_lower_char c \<in> set ''abcdefghijklmnopqrstuvwxyz''"

definition scheme_char :: "char \<Rightarrow> bool" where
  "scheme_char c \<longleftrightarrow> ascii_letter c \<or> is_digit c \<or> c \<in> set ''+-.''"

definition split_scheme :: "string \<Rightarrow> string \<times> string" where
  "split_scheme url =
     (let s = filter (\<lambda>c. c \<notin> {CHR 0x09, CHR 0x0A, CHR 0x0D}) (dropWhile (\<lambda>c. c \<le> CHR '' '') url);
          a = takeWhile (\<lambda>c. c \<noteq> CHR '':'') s
      in if a \<noteq> s \<and> a \<noteq> [] \<and> ascii_letter (hd a) \<and> list_all scheme_char a
         then (py_lower a, drop (Suc (length a)) s) else ([], s))"

definition url_scheme :: "services \<Rightarrow> string \<Rightarrow> string res" where
  "url_scheme sv url =
     (case split_scheme url of (sch, rest) \<Rightarrow>
        if take 2 rest = ''//'' \<and> bad_netloc sv (takeWhile (\<lambda>c. c \<notin> set ''/?#'') (drop 2 rest))
        then Inl (ValueError ''Invalid URL'') else Inr sch)"

definition validate_url :: "services \<Rightarrow> string \<Rightarrow> json \<Rightarrow> unit res" where
  "validate_url sv key v =
     (if \<not> j_truthy v then Inr ()
      else res_bind (res_bind (on_str (url_scheme sv) v) id) (\<lambda>sch.
        if sch \<in> {''http'', ''https''} then Inr ()
        else Inl (ValueError (''Invalid URL scheme '' @ [CHR 0x27] @ sch @ [CHR 0x27] @ '' for '' @ key
               @ ''. Only http and https are allowed.''))))"

definition validate_urls :: "services \<Rightarrow> (string \<times> json) list \<Rightarrow> unit res" where
  "validate_urls sv data =
     map_sum id (\<lambda>_. ())
       (mapM_res (\<lambda>key. case map_of data key of None \<Rightarrow> Inr () | Some v \<Rightarrow> validate_url sv key v) URL_KEYS)"

definition drop_masked :: "schema \<Rightarrow> (string \<times> json) list \<Rightarrow> (string \<times> json) list" where
  "drop_masked S data =
     filter (\<lambda>(k, v). \<not> ((is_secret_key S k \<or> k \<in> set HASH_KEYS) \<and> v = JStr PASSWORD_MASK)) data"

definition drop_hidden :: "schema \<Rightarrow> (string \<times> json) list \<Rightarrow> (string \<times> json) list" where
  "drop_hidden S data =
     filter (\<lambda>(k, v). \<not> ((k \<in> set DEMO_HIDE_KEYS \<or> k \<in> set (private_keys S)) \<and> \<not> j_truthy v)) data"

definition hash_entry :: "services \<Rightarrow> string \<times> json \<Rightarrow> (string \<times> json) res" where
  "hash_entry sv e =
     (case e of (k, v) \<Rightarrow>
        if k \<in> set HASH_KEYS \<and> j_truthy v
        then map_sum id (\<lambda>s. (k, JStr (if is_hash s then s else hash_password sv s))) (on_str id v)
        else Inr (k, v))"

definition kept_encrypted :: "schema \<Rightarrow> string \<Rightarrow> bool" where
  "kept_encrypted S k \<longleftrightarrow> is_secret_key S k \<or> k \<in> set (private_keys S)"

definition encrypt_entry :: "schema \<Rightarrow> services \<Rightarrow> string \<times> json \<Rightarrow> (string \<times> json) res" where
  "encrypt_entry S sv e =
     (case e of (k, v) \<Rightarrow>
        if kept_encrypted S k \<and> j_truthy v
        then map_sum id (\<lambda>s. (k, JStr (fernet_encrypt sv s))) (on_str id v)
        else Inr (k, v))"

definition cast_int :: "json \<Rightarrow> json res" where
  "cast_int v = catch_type_value (map_sum id JInt (j_int v)) v"

fun cast_ints :: "string list \<Rightarrow> (string \<times> json) list \<Rightarrow> py_error option \<times> (string \<times> json) list" where
  "cast_ints [] d = (None, d)"
| "cast_ints (k # ks) d =
     (case map_of d k of
        None \<Rightarrow> cast_ints ks d
      | Some v \<Rightarrow> (case cast_int v of Inl e \<Rightarrow> (Some e, d) | Inr v' \<Rightarrow> cast_ints ks (dict_set k v' d)))"

definition cast_bools :: "schema \<Rightarrow> (string \<times> json) list \<Rightarrow> (string \<times> json) list" where
  "cast_bools S d =
     map (\<lambda>(k, v). (k, if k \<in> set (bool_keys S) \<and> j_is_str v
                       then JBool (py_lower (case v of JStr s \<Rightarrow> s | _ \<Rightarrow> []) \<in> set TRUE_WORDS) else v)) d"

text \<open>What is merged into the file: the submission after the steps that precede the merge.\<close>

definition submitted :: "schema \<Rightarrow> bool \<Rightarrow> (string \<times> json) list \<Rightarrow> (string \<times> json) list" where
  "submitted S demo data = (if demo then drop_hidden S (drop_masked S data) else drop_masked S data)"

definition prepare :: "schema \<Rightarrow> services \<Rightarrow> config \<Rightarrow> (string \<times> json) list \<Rightarrow> (string \<times> json) list res" where
  "prepare S sv c data =
     res_bind (validate_urls sv data) (\<lambda>_.
     res_bind (is_demo_mode S sv c) (\<lambda>demo.
     res_bind (mapM_res (hash_entry sv) (submitted S demo data))
       (mapM_res (encrypt_entry S sv))))"

definition save :: "schema \<Rightarrow> services \<Rightarrow> disk_write \<Rightarrow> (string \<times> json) list \<Rightarrow> config \<Rightarrow> unit res \<times> config" where
  "save S sv w data c =
     (if w = No_Directory then (Inl OSError, c)
      else case prepare S sv c data of
        Inl e \<Rightarrow> (Inl e, c)
      | Inr d \<Rightarrow>
          (case cast_ints (int_keys S) (dict_update (file_config c) d) of
             (Some e, f) \<Rightarrow> (Inl e, c\<lparr>file_config := f\<rparr>)
           | (None, f) \<Rightarrow>
               let g = cast_bools S f in
               (if w = Stored then Inr () else Inl OSError,
                c\<lparr>file_config := g, disk := written w g (disk c)\<rparr>)))"

definition shown_value :: "schema \<Rightarrow> bool \<Rightarrow> bool \<Rightarrow> string \<Rightarrow> json \<Rightarrow> json" where
  "shown_value S masked demo key v =
     (if masked \<and> demo \<and> key \<in> set (private_keys S) then JStr []
      else if masked \<and> (is_secret_key S key \<or> key \<in> set HASH_KEYS) \<and> j_truthy v then JStr PASSWORD_MASK
      else if masked \<and> demo \<and> key \<in> set DEMO_HIDE_KEYS then JStr []
      else v)"

definition get_all :: "schema \<Rightarrow> services \<Rightarrow> string \<Rightarrow> bool \<Rightarrow> config \<Rightarrow> (string \<times> json) list res" where
  "get_all S sv data_dir masked c =
     res_bind (is_demo_mode S sv c) (\<lambda>demo.
     map_sum id (dict_set ''data_dir'' (JStr (case getenv sv ''DATA_DIR'' of None \<Rightarrow> data_dir | Some v \<Rightarrow> v)))
       (mapM_res (\<lambda>key. map_sum id (\<lambda>v. (key, shown_value S masked demo key v)) (config_get S sv c key JNull))
          (dict_keys (defaults S))))"


section \<open>The module registry\<close>

text \<open>\<^verbatim>\<open>register_module_config\<close> of \<^verbatim>\<open>module_config_registry.py\<close>: one key of a module's schema at a time.\<close>

definition add_key :: "'a \<Rightarrow> 'a list \<Rightarrow> 'a list" where
  "add_key k ks = (if k \<in> set ks then ks else ks @ [k])"

definition declare_key :: "bool \<Rightarrow> string list \<Rightarrow> string list \<Rightarrow> string \<Rightarrow> json \<Rightarrow> schema \<Rightarrow> schema" where
  "declare_key builtin secrets private key v S =
     S\<lparr>defaults := dict_set key v (defaults S),
       secret_keys := (if key \<in> set secrets \<and> builtin then add_key key (secret_keys S) else secret_keys S),
       private_keys := (if key \<in> set private then add_key key (private_keys S) else private_keys S)\<rparr>"

definition type_key :: "string \<Rightarrow> json \<Rightarrow> schema \<Rightarrow> schema" where
  "type_key key v S =
     (if is_secret_key S key then S
      else case v of JBool b \<Rightarrow> S\<lparr>bool_keys := add_key key (bool_keys S)\<rparr>
           | JInt n \<Rightarrow> S\<lparr>int_keys := add_key key (int_keys S)\<rparr>
           | _ \<Rightarrow> S)"

definition register_key ::
  "string \<Rightarrow> bool \<Rightarrow> string list \<Rightarrow> string list \<Rightarrow> string \<times> json \<Rightarrow> schema \<times> string list \<Rightarrow> schema \<times> string list" where
  "register_key module_id builtin secrets private e st =
     (case e of (key, v) \<Rightarrow> case st of (S, registered) \<Rightarrow>
        if key \<in> set secrets \<and> \<not> builtin \<and> map_of (module_secret_owners S) key \<noteq> Some module_id then st
        else if key \<in> set (dict_keys (defaults S)) then
          (if key \<in> set private then S\<lparr>private_keys := add_key key (private_keys S)\<rparr> else S, registered)
        else if \<not> builtin \<and> (key \<in> set (secret_keys S) \<or> key \<in> set (private_keys S) \<or> key \<in> set HASH_KEYS) then st
        else (type_key key v (declare_key builtin secrets private key v S), add_key key registered))"

definition register_module_config ::
  "(string \<times> json) list \<Rightarrow> string \<Rightarrow> bool \<Rightarrow> string list \<Rightarrow> string list \<Rightarrow> schema \<Rightarrow> schema \<times> string list" where
  "register_module_config config_defaults module_id builtin secrets private S =
     fold (register_key module_id builtin secrets (if builtin then private else [])) config_defaults (S, [])"

section \<open>Schemas\<close>

fun j_is_bool :: "json \<Rightarrow> bool" where
  "j_is_bool (JBool b) = True"
| "j_is_bool v = False"

text \<open>What a save leaves of numeric and boolean settings.\<close>

definition shaped :: "schema \<Rightarrow> (string \<times> json) list \<Rightarrow> bool" where
  "shaped S d \<longleftrightarrow> list_all (\<lambda>(k, v). (k \<in> set (int_keys S) \<longrightarrow> \<not> j_is_bool v)
     \<and> (k \<in> set (bool_keys S) \<longrightarrow> \<not> j_is_str v)) d"

text \<open>No key kept encrypted or hashed is also cast, and the defaults have the type of their keys.\<close>

fun j_is_number :: "json \<Rightarrow> bool" where
  "j_is_number (JInt n) = True"
| "j_is_number v = False"

definition default_ok :: "schema \<Rightarrow> string \<times> json \<Rightarrow> bool" where
  "default_ok S e =
     (case e of (k, v) \<Rightarrow>
        if k \<in> set (int_keys S) then j_is_number v
        else if k \<in> set (bool_keys S) then j_is_bool v
        else if kept_encrypted S k \<or> k \<in> set HASH_KEYS then j_is_str v else True)"

definition schema_ok :: "schema \<Rightarrow> bool" where
  "schema_ok S \<longleftrightarrow> distinct (dict_keys (defaults S)) \<and> list_all (default_ok S) (defaults S)
     \<and> list_all (\<lambda>k. \<not> kept_encrypted S k \<and> k \<notin> set HASH_KEYS) (int_keys S @ bool_keys S)
     \<and> list_all (\<lambda>k. k \<notin> set (bool_keys S)) (int_keys S)
     \<and> list_all (\<lambda>k. \<not> kept_encrypted S k) HASH_KEYS
     \<and> list_all (\<lambda>k. k \<in> set (dict_keys (defaults S))) (int_keys S @ bool_keys S @ HASH_KEYS)"

lemma initial_tables:
  "defaults initial_schema = DEFAULTS" "int_keys initial_schema = INT_KEYS" "bool_keys initial_schema = BOOL_KEYS"
  "kept_encrypted initial_schema k \<longleftrightarrow> k \<in> set SECRET_KEYS" "is_secret_key initial_schema k \<longleftrightarrow> k \<in> set SECRET_KEYS"
  "private_keys initial_schema = []" "secret_keys initial_schema = SECRET_KEYS" "module_secret_keys initial_schema = []"
  by (simp_all add: initial_schema_def kept_encrypted_def is_secret_key_def)

lemma distinct_defaults: "distinct (dict_keys DEFAULTS)"
  by (simp add: DEFAULTS_def)

lemma defaults_typed: "list_all (default_ok initial_schema) DEFAULTS"
  by (simp add: default_ok_def initial_tables DEFAULTS_def INT_KEYS_def BOOL_KEYS_def SECRET_KEYS_def HASH_KEYS_def)

lemma cast_keys_plain: "list_all (\<lambda>k. k \<notin> set SECRET_KEYS \<and> k \<notin> set HASH_KEYS) (INT_KEYS @ BOOL_KEYS)"
  by (simp add: INT_KEYS_def BOOL_KEYS_def SECRET_KEYS_def HASH_KEYS_def)

lemma int_not_bool: "list_all (\<lambda>k. k \<notin> set BOOL_KEYS) INT_KEYS"
  by (simp add: INT_KEYS_def BOOL_KEYS_def)

lemma cast_keys_default: "list_all (\<lambda>k. k \<in> set (dict_keys DEFAULTS)) (INT_KEYS @ BOOL_KEYS @ HASH_KEYS)"
  by (simp add: INT_KEYS_def BOOL_KEYS_def HASH_KEYS_def DEFAULTS_def)

lemma initial_schema_ok: "schema_ok initial_schema"
  using distinct_defaults defaults_typed cast_keys_plain int_not_bool cast_keys_default
  by (simp add: schema_ok_def initial_tables) (simp add: SECRET_KEYS_def HASH_KEYS_def)

lemma schema_okD:
  assumes "schema_ok S"
  shows "k \<in> set (int_keys S) \<Longrightarrow> \<not> kept_encrypted S k \<and> k \<notin> set HASH_KEYS \<and> k \<notin> set (bool_keys S)"
    and "k \<in> set (bool_keys S) \<Longrightarrow> \<not> kept_encrypted S k \<and> k \<notin> set HASH_KEYS \<and> k \<notin> set (int_keys S)"
    and "k \<in> set HASH_KEYS \<Longrightarrow> \<not> kept_encrypted S k"
    and "distinct (dict_keys (defaults S))"
  using assms by (auto simp: schema_ok_def list_all_iff)


section \<open>What a save writes\<close>

lemma mapM_res_source: "mapM_res f xs = Inr ys \<Longrightarrow> y \<in> set ys \<Longrightarrow> \<exists>x \<in> set xs. f x = Inr y"
  by (induction xs arbitrary: ys) (auto split: sum.splits)

lemma dict_set_entries: "set (dict_set k v d) \<subseteq> insert (k, v) (set d)"
  by (induction k v d rule: dict_set.induct) (auto split: if_splits)

lemma set_dict_update: "set (dict_update d e) \<subseteq> set d \<union> set e"
proof (induction e arbitrary: d)
  case (Cons p e)
  obtain a b where p: "p = (a, b)" by (cases p)
  show ?case using Cons.IH [of "dict_set a b d"] dict_set_entries [of a b d] by (auto simp: p dict_update_def)
qed (simp add: dict_update_def)

lemma cast_ints_source: "cast_ints ks d = (r, f) \<Longrightarrow> (k, v) \<in> set f \<Longrightarrow> (k, v) \<in> set d \<or> k \<in> set ks"
proof (induction ks d rule: cast_ints.induct)
  case (2 a ks d)
  show ?case
  proof (cases "map_of d a")
    case (Some w)
    with 2 show ?thesis using dict_set_entries [of a _ d] by (auto split: sum.splits)
  qed (use 2 in auto)
qed simp

lemma cast_bools_source: "(k, v) \<in> set (cast_bools S d) \<Longrightarrow> (k, v) \<in> set d \<or> k \<in> set (bool_keys S)"
  by (auto simp: cast_bools_def split: if_splits)

text \<open>A value the merge brings in: hashed, or encrypted, or as submitted.\<close>

lemma hash_entry_Inr:
  "hash_entry sv (k, v) = Inr e \<Longrightarrow> k \<in> set HASH_KEYS \<Longrightarrow> j_truthy v
   \<Longrightarrow> \<exists>s. v = JStr s \<and> e = (k, JStr (if is_hash s then s else hash_password sv s))"
  by (auto simp: hash_entry_def map_sum_Inr_iff on_str_Inr)

lemma hash_entry_other: "hash_entry sv (k, v) = Inr e \<Longrightarrow> k \<notin> set HASH_KEYS \<or> \<not> j_truthy v \<Longrightarrow> e = (k, v)"
  by (auto simp: hash_entry_def)

lemma encrypt_entry_Inr:
  "encrypt_entry S sv (k, v) = Inr e \<Longrightarrow> kept_encrypted S k \<Longrightarrow> j_truthy v
   \<Longrightarrow> \<exists>s. v = JStr s \<and> e = (k, JStr (fernet_encrypt sv s))"
  by (auto simp: encrypt_entry_def map_sum_Inr_iff on_str_Inr)

lemma encrypt_entry_other: "encrypt_entry S sv (k, v) = Inr e \<Longrightarrow> \<not> kept_encrypted S k \<or> \<not> j_truthy v \<Longrightarrow> e = (k, v)"
  by (auto simp: encrypt_entry_def)

text \<open>
  What may stand in the configuration: under a key kept encrypted a token of the cipher, under the password's
  key a digest.  Both are predicates on texts of which only what the cipher and the hash produce is known.
\<close>

definition sealed :: "schema \<Rightarrow> (string \<Rightarrow> bool) \<Rightarrow> (string \<Rightarrow> bool) \<Rightarrow> string \<times> json \<Rightarrow> bool" where
  "sealed S token digest e =
     (case e of (k, v) \<Rightarrow> j_truthy v \<longrightarrow>
        (if kept_encrypted S k then (case v of JStr s \<Rightarrow> token s | _ \<Rightarrow> False)
         else if k \<in> set HASH_KEYS then (case v of JStr s \<Rightarrow> digest s | _ \<Rightarrow> False)
         else True))"

definition at_rest :: "schema \<Rightarrow> (string \<Rightarrow> bool) \<Rightarrow> (string \<Rightarrow> bool) \<Rightarrow> (string \<times> json) list \<Rightarrow> bool" where
  "at_rest S token digest d = list_all (sealed S token digest) d"

lemma at_restI: "(\<And>k v. (k, v) \<in> set d \<Longrightarrow> sealed S token digest (k, v)) \<Longrightarrow> at_rest S token digest d"
  by (auto simp: at_rest_def list_all_iff)

lemma at_restD: "at_rest S token digest d \<Longrightarrow> (k, v) \<in> set d \<Longrightarrow> sealed S token digest (k, v)"
  by (auto simp: at_rest_def list_all_iff)

lemma prepared_sealed:
  assumes p: "prepare S sv c data = Inr d" and mem: "(k, v) \<in> set d"
    and enc: "\<And>s. token (fernet_encrypt sv s)" and hsh: "\<And>s. digest (hash_password sv s)"
    and old: "\<And>s. (''admin_password'', JStr s) \<in> set data \<Longrightarrow> take 7 s \<in> {''scrypt:'', ''pbkdf2:''} \<Longrightarrow> digest s"
    and ok: "schema_ok S"
  shows "sealed S token digest (k, v)"
proof -
  from p obtain d0 d1 demo where h: "mapM_res (hash_entry sv) d0 = Inr d1"
    and e: "mapM_res (encrypt_entry S sv) d1 = Inr d" and "d0 = submitted S demo data"
    by (auto simp: prepare_def res_bind_Inr_iff)
  then have sub: "set d0 \<subseteq> set data" by (auto simp: submitted_def drop_hidden_def drop_masked_def)
  from mapM_res_source [OF e mem] obtain k1 v1 where 1: "(k1, v1) \<in> set d1" "encrypt_entry S sv (k1, v1) = Inr (k, v)" by auto
  from mapM_res_source [OF h 1(1)] obtain k0 v0 where 0: "(k0, v0) \<in> set d0" "hash_entry sv (k0, v0) = Inr (k1, v1)" by auto
  show ?thesis
  proof (cases "kept_encrypted S k1 \<and> j_truthy v1")
    case True
    with encrypt_entry_Inr [OF 1(2)] enc show ?thesis by (auto simp: sealed_def)
  next
    case False
    with encrypt_entry_other [OF 1(2)] have kv: "k = k1" "v = v1" by auto
    show ?thesis
    proof (cases "k0 \<in> set HASH_KEYS \<and> j_truthy v0")
      case True
      with hash_entry_Inr [OF 0(2)] obtain s where s: "v0 = JStr s" "k1 = k0" "v1 = JStr (if is_hash s then s else hash_password sv s)" by auto
      have "digest s" if "is_hash s"
      proof (rule old)
        show "(''admin_password'', JStr s) \<in> set data" using 0(1) sub True s(1) by (auto simp: HASH_KEYS_def)
        show "take 7 s \<in> {''scrypt:'', ''pbkdf2:''}"
          using that by (auto simp: is_hash_def py_startswith_iff)
      qed
      with s True False hsh kv show ?thesis by (auto simp: sealed_def)
    next
      case other: False
      with hash_entry_other [OF 0(2)] have "k1 = k0" "v1 = v0" by auto
      with other False kv show ?thesis by (auto simp: sealed_def)
    qed
  qed
qed

lemma not_sealed_key: "schema_ok S \<Longrightarrow> k \<in> set (int_keys S) \<or> k \<in> set (bool_keys S) \<Longrightarrow> sealed S token digest (k, v)"
  using schema_okD(1,2) [of S k] by (auto simp: sealed_def)

text \<open>Every way a save can change the state.\<close>

lemma save_cases:
  obtains (same) r where "save S sv w data c = (r, c)"
  | (overflow) e d f where "save S sv w data c = (Inl e, c\<lparr>file_config := f\<rparr>)" "prepare S sv c data = Inr d"
      "cast_ints (int_keys S) (dict_update (file_config c) d) = (Some e, f)"
  | (merged) r d f where
      "save S sv w data c = (r, c\<lparr>file_config := cast_bools S f, disk := written w (cast_bools S f) (disk c)\<rparr>)"
      "prepare S sv c data = Inr d" "cast_ints (int_keys S) (dict_update (file_config c) d) = (None, f)"
      "r = (if w = Stored then Inr () else Inl OSError)" "w \<noteq> No_Directory"
proof (cases "w = No_Directory")
  case True
  then show ?thesis using same by (simp add: save_def)
next
  case w: False
  show ?thesis
  proof (cases "prepare S sv c data")
    case (Inl e)
    then show ?thesis using same w by (simp add: save_def)
  next
    case (Inr d)
    obtain o' f where f: "cast_ints (int_keys S) (dict_update (file_config c) d) = (o', f)" by fastforce
    show ?thesis
    proof (cases o')
      case None
      then show ?thesis using merged [OF _ Inr f [unfolded None] refl w] w Inr f by (simp add: save_def Let_def)
    next
      case (Some e)
      then show ?thesis using overflow [OF _ Inr f [unfolded Some]] w Inr f by (simp add: save_def)
    qed
  qed
qed

definition disk_entries :: "config_file \<Rightarrow> (string \<times> json) list" where
  "disk_entries f = (case f of Holds d \<Rightarrow> d | _ \<Rightarrow> [])"

lemma save_at_rest:
  assumes ok: "schema_ok S" and enc: "\<And>s. token (fernet_encrypt sv s)" and hsh: "\<And>s. digest (hash_password sv s)"
    and old: "\<And>s. (''admin_password'', JStr s) \<in> set data \<Longrightarrow> take 7 s \<in> {''scrypt:'', ''pbkdf2:''} \<Longrightarrow> digest s"
    and c: "at_rest S token digest (file_config c)" "at_rest S token digest (disk_entries (disk c))"
  shows "at_rest S token digest (file_config (snd (save S sv w data c)))
    \<and> at_rest S token digest (disk_entries (disk (snd (save S sv w data c))))"
proof -
  have cast: "at_rest S token digest f"
    if p: "prepare S sv c data = Inr d" and f: "cast_ints (int_keys S) (dict_update (file_config c) d) = (r, f)" for d r f
  proof (rule at_restI)
    fix k v assume "(k, v) \<in> set f"
    with cast_ints_source [OF f] set_dict_update [of "file_config c" d]
    consider "(k, v) \<in> set (file_config c)" | "(k, v) \<in> set d" | "k \<in> set (int_keys S)" by blast
    then show "sealed S token digest (k, v)"
      by cases (use at_restD [OF c(1)] prepared_sealed [where token = token and digest = digest, OF p _ enc hsh old ok] not_sealed_key [OF ok] in blast)+
  qed
  have bools: "at_rest S token digest (cast_bools S f)" if "at_rest S token digest f" for f
    using cast_bools_source [of _ _ S f] at_restD [OF that] not_sealed_key [OF ok] by (blast intro: at_restI)
  show ?thesis
  proof (cases rule: save_cases [of S sv w data c])
    case (same r)
    then show ?thesis using c by simp
  next
    case (overflow e d f)
    then show ?thesis using c cast by simp
  next
    case (merged r d f)
    then show ?thesis using c(2) bools [OF cast [OF merged(2,3)]]
      by (cases w) (auto simp: written_def disk_entries_def at_rest_def)
  qed
qed

fun save_all :: "schema \<Rightarrow> (services \<times> disk_write \<times> (string \<times> json) list) list \<Rightarrow> config \<Rightarrow> config" where
  "save_all S [] c = c"
| "save_all S ((sv, w, data) # steps) c = save_all S steps (snd (save S sv w data c))"

text \<open>
  C23. Secrets at rest: starting from a configuration whose secrets are sealed, in memory and in
  \<^verbatim>\<open>config.json\<close> (one the program has written itself; an old file with secrets in clear is read as it is),
  whatever is saved and however the writes of the file end, neither ever holds an encrypted setting other than as a
  token, or the administrator's password other than as a digest.  What counts as a token or a digest
  is open: every output of the cipher is a token and every output of the password hash a digest.  Only
  a password that is submitted as a text beginning with scrypt: or pbkdf2: has to be a digest already,
  because the code takes it for one and stores it as it is.
\<close>

theorem secrets_at_rest:
  assumes "schema_ok S"
    and "\<forall>(sv, w, data) \<in> set steps. (\<forall>s. token (fernet_encrypt sv s) \<and> digest (hash_password sv s))
      \<and> (\<forall>s. (''admin_password'', JStr s) \<in> set data \<and> take 7 s \<in> {''scrypt:'', ''pbkdf2:''} \<longrightarrow> digest s)"
    and "at_rest S token digest (file_config c)" "at_rest S token digest (disk_entries (disk c))"
  shows "at_rest S token digest (file_config (save_all S steps c))
    \<and> at_rest S token digest (disk_entries (disk (save_all S steps c)))"
  using assms
proof (induction S steps c rule: save_all.induct)
  case (2 S sv w data steps c)
  then show ?case using save_at_rest [of S token sv digest data c w] by auto
qed simp

section \<open>One key across a save\<close>

lemma map_of_mapM:
  assumes "mapM_res f xs = Inr ys" and "\<And>e e'. f e = Inr e' \<Longrightarrow> fst e' = fst e"
  shows "case map_of xs k of None \<Rightarrow> map_of ys k = None
    | Some v \<Rightarrow> \<exists>v'. f (k, v) = Inr (k, v') \<and> map_of ys k = Some v'"
  using assms(1)
proof (induction xs arbitrary: ys)
  case (Cons e xs)
  then obtain e' ys' where e': "f e = Inr e'" and ys: "mapM_res f xs = Inr ys'" "ys = e' # ys'"
    by (auto split: sum.splits)
  obtain a v b w where p: "e = (a, v)" "e' = (b, w)" by (cases e, cases e')
  with assms(2) [OF e'] have "b = a" by simp
  with p e' ys Cons.IH [OF ys(1)] show ?case by (auto split: option.splits)
qed simp

lemma hash_entry_key: "hash_entry sv e = Inr e' \<Longrightarrow> fst e' = fst e"
  by (cases e) (auto simp: hash_entry_def map_sum_Inr_iff split: if_splits)

lemma encrypt_entry_key: "encrypt_entry S sv e = Inr e' \<Longrightarrow> fst e' = fst e"
  by (cases e) (auto simp: encrypt_entry_def map_sum_Inr_iff split: if_splits)

lemma map_of_filter_entries:
  "distinct (dict_keys d) \<Longrightarrow> map_of (filter P d) k = (case map_of d k of Some v \<Rightarrow> if P (k, v) then Some v else None | None \<Rightarrow> None)"
proof (induction d)
  case (Cons e d)
  have "map_of (filter P d) (fst e) = None" if "fst e \<notin> fst ` set d"
    using that by (auto simp: map_of_eq_None_iff)
  with Cons show ?case by (cases e) (auto split: option.splits)
qed simp

definition withheld :: "schema \<Rightarrow> bool \<Rightarrow> string \<Rightarrow> json \<Rightarrow> bool" where
  "withheld S demo k v \<longleftrightarrow> (is_secret_key S k \<or> k \<in> set HASH_KEYS) \<and> v = JStr PASSWORD_MASK
     \<or> demo \<and> (k \<in> set DEMO_HIDE_KEYS \<or> k \<in> set (private_keys S)) \<and> \<not> j_truthy v"

lemma map_of_withheld:
  assumes "distinct (dict_keys data)"
  shows "map_of (submitted S demo data) k
    = (case map_of data k of Some v \<Rightarrow> if withheld S demo k v then None else Some v | None \<Rightarrow> None)"
  using assms
  by (auto simp: submitted_def drop_hidden_def drop_masked_def withheld_def map_of_filter_entries distinct_filter_keys split: option.split)

text \<open>What the merge brings in for a key.\<close>

lemma prepared_value:
  assumes "prepare S sv c data = Inr d" and "is_demo_mode S sv c = Inr demo" and "distinct (dict_keys data)"
  shows "case map_of data k of None \<Rightarrow> map_of d k = None
    | Some v \<Rightarrow> if withheld S demo k v then map_of d k = None
        else \<exists>v1 v2. hash_entry sv (k, v) = Inr (k, v1) \<and> encrypt_entry S sv (k, v1) = Inr (k, v2) \<and> map_of d k = Some v2"
proof -
  from assms(1,2) obtain d1 where h: "mapM_res (hash_entry sv) (submitted S demo data) = Inr d1"
    and e: "mapM_res (encrypt_entry S sv) d1 = Inr d"
    by (auto simp: prepare_def res_bind_Inr_iff)
  show ?thesis
    using map_of_mapM [where k = k, OF h hash_entry_key [of sv]] map_of_mapM [where k = k, OF e encrypt_entry_key [of S sv]]
      map_of_withheld [OF assms(3), of S demo k]
    by (auto split: option.splits if_splits)
qed

lemma distinct_prepared:
  assumes "prepare S sv c data = Inr d" and "distinct (dict_keys data)"
  shows "distinct (dict_keys d)"
proof -
  from assms(1) obtain demo d1 where
    h: "mapM_res (hash_entry sv) (submitted S demo data) = Inr d1"
    and e: "mapM_res (encrypt_entry S sv) d1 = Inr d"
    by (auto simp: prepare_def res_bind_Inr_iff)
  have keys: "dict_keys ys = dict_keys xs" if "mapM_res f xs = Inr ys" and "\<And>e e'. f e = Inr e' \<Longrightarrow> fst e' = fst e"
    for f :: "string \<times> json \<Rightarrow> (string \<times> json) res" and xs ys
    using that by (induction xs arbitrary: ys) (auto split: sum.splits)
  show ?thesis
    using keys [OF h hash_entry_key [of sv]] keys [OF e encrypt_entry_key [of S sv]] assms(2)
    by (auto simp: submitted_def drop_hidden_def drop_masked_def distinct_filter_keys)
qed

lemma cast_int_idem: "cast_int v = Inr v' \<Longrightarrow> cast_int v' = Inr v'"
  by (cases "j_int v") (auto simp: cast_int_def catch_type_value_def split: py_error.splits)

lemma cast_ints_value:
  "cast_ints ks d = (None, f) \<Longrightarrow>
   (if k \<in> set ks then (case map_of d k of None \<Rightarrow> map_of f k = None
      | Some v \<Rightarrow> \<exists>v'. cast_int v = Inr v' \<and> map_of f k = Some v')
    else map_of f k = map_of d k)"
proof (induction ks d rule: cast_ints.induct)
  case (2 a ks d)
  show ?case
  proof (cases "map_of d a")
    case None
    with 2 show ?thesis by (auto split: option.splits if_splits)
  next
    case (Some w)
    with "2.prems" obtain w' where w': "cast_int w = Inr w'" "cast_ints ks (dict_set a w' d) = (None, f)"
      by (auto split: sum.splits)
    from "2.IH"(2) [OF Some w'] cast_int_idem [OF w'(1)] Some w'(1) show ?thesis
      by (auto split: option.splits if_splits)
  qed
qed simp

definition cast_bool :: "schema \<Rightarrow> string \<Rightarrow> json \<Rightarrow> json" where
  "cast_bool S k v = (if k \<in> set (bool_keys S) \<and> j_is_str v
     then JBool (py_lower (case v of JStr s \<Rightarrow> s | _ \<Rightarrow> []) \<in> set TRUE_WORDS) else v)"

lemma map_of_cast_bools: "map_of (cast_bools S d) k = map_option (cast_bool S k) (map_of d k)"
  by (induction d) (auto simp: cast_bools_def cast_bool_def)

lemma save_ok:
  assumes "save S sv w data c = (Inr (), c')"
  obtains d f where "prepare S sv c data = Inr d" "cast_ints (int_keys S) (dict_update (file_config c) d) = (None, f)"
    "w = Stored" "c' = c\<lparr>file_config := cast_bools S f, disk := Holds (cast_bools S f)\<rparr>"
  using assms by (auto simp: save_def Let_def written_def split: if_splits sum.splits prod.splits option.splits)

lemma prepare_demo: "prepare S sv c data = Inr d \<Longrightarrow> \<exists>demo. is_demo_mode S sv c = Inr demo"
  by (auto simp: prepare_def res_bind_Inr_iff)

text \<open>A key of the state after a successful save.\<close>

lemma saved_value:
  assumes s: "save S sv w data c = (Inr (), c')" and demo: "is_demo_mode S sv c = Inr demo"
    and data: "distinct (dict_keys data)"
  shows "\<exists>new. (case map_of data k of None \<Rightarrow> new = None
      | Some v \<Rightarrow> if withheld S demo k v then new = None
          else \<exists>v1 v2. hash_entry sv (k, v) = Inr (k, v1) \<and> encrypt_entry S sv (k, v1) = Inr (k, v2) \<and> new = Some v2)
    \<and> (case (case new of None \<Rightarrow> map_of (file_config c) k | Some v \<Rightarrow> Some v) of
         None \<Rightarrow> map_of (file_config c') k = None
       | Some v \<Rightarrow> \<exists>v'. (if k \<in> set (int_keys S) then cast_int v = Inr v' else v' = v)
           \<and> map_of (file_config c') k = Some (cast_bool S k v'))
    \<and> w = Stored \<and> disk c' = Holds (file_config c')"
proof -
  from save_ok [OF s] obtain d f where p: "prepare S sv c data = Inr d"
    and f: "cast_ints (int_keys S) (dict_update (file_config c) d) = (None, f)"
    and c': "w = Stored" "c' = c\<lparr>file_config := cast_bools S f, disk := Holds (cast_bools S f)\<rparr>" .
  show ?thesis
    using prepared_value [OF p demo data, of k] cast_ints_value [OF f, of k] c'
      map_of_dict_update [OF distinct_prepared [OF p data], of "file_config c" k]
    by (intro exI [of _ "map_of d k"]) (auto simp: map_of_cast_bools split: option.splits if_splits)
qed


section \<open>The settings page\<close>

definition from_env :: "services \<Rightarrow> string \<Rightarrow> bool" where
  "from_env sv key \<longleftrightarrow> env_value sv (map_of ENV_MAP key) \<noteq> None \<or> env_value sv (map_of LEGACY_ENV_MAP key) \<noteq> None"

definition file_get :: "schema \<Rightarrow> services \<Rightarrow> string \<Rightarrow> json option \<Rightarrow> json res" where
  "file_get S sv key stored =
     (case stored of Some v \<Rightarrow> file_value S sv key JNull v | None \<Rightarrow> Inr (j_get (defaults S) key))"

lemma config_get_env: "from_env sv key \<Longrightarrow> config_get S sv c' key dflt = config_get S sv c key dflt"
  by (cases "env_value sv (map_of ENV_MAP key)"; cases "env_value sv (map_of LEGACY_ENV_MAP key)")
    (simp_all add: from_env_def config_get_def)

lemma config_get_file:
  "\<not> from_env sv key \<Longrightarrow> key \<noteq> ''disabled_modules'' \<Longrightarrow>
   config_get S sv c key JNull = file_get S sv key (map_of (file_config c) key)"
  by (cases "map_of (file_config c) key") (simp_all add: from_env_def config_get_def file_get_def)

text \<open>How a stored value reads, by the kind of its key.\<close>

lemma file_value_int:
  assumes "schema_ok S" "k \<in> set (int_keys S)"
  shows "file_value S sv k JNull v = (if j_is_int v then Inr v
    else if v = JStr [] \<or> v = JNull then Inr (JInt 0) else map_sum id JInt (j_int v))"
  using schema_okD(1) [OF assms] assms(2) by (simp add: file_value_def kept_encrypted_def)

lemma file_value_hash: "schema_ok S \<Longrightarrow> k \<in> set HASH_KEYS \<Longrightarrow> file_value S sv k dflt v = hashed_value sv v"
  using schema_okD(1) [of S k] by (auto simp: file_value_def)

lemma file_value_encrypted: "schema_ok S \<Longrightarrow> kept_encrypted S k \<Longrightarrow> file_value S sv k dflt v = Inr (decrypt_value sv v)"
  using schema_okD(1,3) [of S k] by (auto simp: file_value_def kept_encrypted_def)

lemma file_value_plain:
  "k \<notin> set (int_keys S) \<Longrightarrow> k \<notin> set HASH_KEYS \<Longrightarrow> \<not> kept_encrypted S k \<Longrightarrow> file_value S sv k dflt v = Inr v"
  by (simp add: file_value_def kept_encrypted_def)

lemma file_value_cast_int:
  assumes ok: "schema_ok S" and k: "k \<in> set (int_keys S)" and "\<not> j_is_bool old"
    and "file_value S sv k JNull old = Inr v" "cast_int old = Inr v'"
  shows "file_value S sv k JNull v' = Inr v"
proof (cases "j_is_int old \<or> old = JStr [] \<or> old = JNull")
  case True
  have "parse_int [] = None" by code_simp
  with True assms(3,5) have "v' = old" by (cases old) (auto simp: cast_int_def)
  with assms(4) show ?thesis by simp
next
  case False
  with assms(4) obtain n where "j_int old = Inr n" "v = JInt n"
    by (auto simp: file_value_int [OF ok k] map_sum_Inr_iff)
  with assms(5) show ?thesis by (auto simp: cast_int_def file_value_int [OF ok k])
qed

lemma j_get_mem: "(k, v) \<in> set d \<Longrightarrow> distinct (dict_keys d) \<Longrightarrow> j_get d k = v"
  by (simp add: j_get_def dict_get_def)

lemma default_typed:
  assumes "schema_ok S" "k \<in> set (dict_keys (defaults S))"
  shows "default_ok S (k, j_get (defaults S) k)"
proof -
  from assms(2) obtain v where "(k, v) \<in> set (defaults S)" by auto
  with assms(1) show ?thesis by (auto simp: schema_ok_def list_all_iff j_get_mem)
qed

definition well_shaped :: "schema \<Rightarrow> string \<Rightarrow> json option \<Rightarrow> bool" where
  "well_shaped S k stored = (case stored of None \<Rightarrow> True | Some w \<Rightarrow>
     (k \<in> set (int_keys S) \<longrightarrow> \<not> j_is_bool w) \<and> (k \<in> set (bool_keys S) \<longrightarrow> \<not> j_is_str w))"

lemma well_shaped_Some [simp]:
  "well_shaped S k (Some w) \<longleftrightarrow> (k \<in> set (int_keys S) \<longrightarrow> \<not> j_is_bool w) \<and> (k \<in> set (bool_keys S) \<longrightarrow> \<not> j_is_str w)"
  by (simp add: well_shaped_def)

text \<open>The type of what a key reads as.\<close>

lemma read_typed:
  assumes ok: "schema_ok S" and key: "k \<in> set (dict_keys (defaults S))" and get: "file_get S sv k stored = Inr v"
    and shape: "well_shaped S k stored"
  shows "k \<in> set (int_keys S) \<Longrightarrow> \<exists>n. v = JInt n"
    and "k \<in> set (bool_keys S) \<Longrightarrow> \<not> j_is_str v"
    and "kept_encrypted S k \<or> k \<in> set HASH_KEYS \<Longrightarrow> j_truthy v \<or> v = JStr []"
proof -
  have d: "default_ok S (k, j_get (defaults S) k)" by (rule default_typed [OF ok key])
  note D = schema_okD(1-3) [OF ok, of k]
  show "\<exists>n. v = JInt n" if k: "k \<in> set (int_keys S)"
  proof (cases stored)
    case None
    with d k get show ?thesis by (cases v) (auto simp: default_ok_def file_get_def)
  next
    case (Some w)
    with shape k have "\<not> j_is_bool w" by simp
    with get Some show ?thesis
      by (cases w) (auto simp: file_get_def file_value_int [OF ok k] map_sum_Inr_iff split: if_splits)
  qed
  show "\<not> j_is_str v" if k: "k \<in> set (bool_keys S)"
  proof (cases stored)
    case None
    with d get k D(2) [OF k] show ?thesis by (cases v) (auto simp: default_ok_def file_get_def)
  next
    case (Some w)
    with shape k have "\<not> j_is_str w" by simp
    with get Some D(2) [OF k] show ?thesis by (simp add: file_get_def file_value_plain)
  qed
  show "j_truthy v \<or> v = JStr []" if k: "kept_encrypted S k \<or> k \<in> set HASH_KEYS"
  proof (cases stored)
    case None
    from k D have "k \<notin> set (int_keys S)" "k \<notin> set (bool_keys S)" by auto
    with None d get k show ?thesis by (cases v) (auto simp: default_ok_def file_get_def)
  next
    case (Some w)
    have w: "j_truthy (decrypt_value sv w) \<or> decrypt_value sv w = JStr []"
      by (cases w) (auto simp: decrypt_value_def split: option.splits)
    from k show ?thesis
    proof
      assume "kept_encrypted S k"
      with w get Some show ?thesis by (auto simp: file_get_def file_value_encrypted [OF ok])
    next
      assume "k \<in> set HASH_KEYS"
      with w get Some show ?thesis
        by (auto simp: file_get_def file_value_hash [OF ok] hashed_value_def res_bind_Inr_iff split: if_splits)
    qed
  qed
qed

text \<open>What the page shows of a key.\<close>

lemma mapM_res_keyed:
  "mapM_res (\<lambda>key. map_sum id (\<lambda>v. (key, g key v)) (f key)) ks = Inr ys \<Longrightarrow>
   dict_keys ys = ks \<and> (k \<in> set ks \<longrightarrow> (\<exists>v. f k = Inr v \<and> map_of ys k = Some (g k v)))
     \<and> (k \<notin> set ks \<longrightarrow> map_of ys k = None)"
  by (induction ks arbitrary: ys) (auto simp: map_sum_Inr_iff split: sum.splits)

lemma get_all_key:
  assumes "get_all S sv dir masked c = Inr form" and "distinct (dict_keys (defaults S))"
  shows "\<exists>demo. is_demo_mode S sv c = Inr demo \<and> distinct (dict_keys form)
    \<and> (k \<noteq> ''data_dir'' \<longrightarrow>
        (k \<in> set (dict_keys (defaults S)) \<longrightarrow>
          (\<exists>v. config_get S sv c k JNull = Inr v \<and> map_of form k = Some (shown_value S masked demo k v)))
      \<and> (k \<notin> set (dict_keys (defaults S)) \<longrightarrow> map_of form k = None))"
proof -
  from assms(1) obtain demo ys where demo: "is_demo_mode S sv c = Inr demo"
    and ys: "mapM_res (\<lambda>key. map_sum id (\<lambda>v. (key, shown_value S masked demo key v)) (config_get S sv c key JNull))
        (dict_keys (defaults S)) = Inr ys"
    and form: "\<exists>d. form = dict_set ''data_dir'' d ys"
    by (auto simp: get_all_def res_bind_Inr_iff map_sum_Inr_iff)
  show ?thesis using mapM_res_keyed [OF ys, of k] demo form assms(2) by auto
qed

text \<open>Saving what the page shows of a key leaves what the key reads as.\<close>

definition fernet_ok :: "services \<Rightarrow> bool" where
  "fernet_ok sv \<longleftrightarrow> (\<forall>s. fernet_encrypt sv s \<noteq> [] \<and> fernet_decrypt sv (fernet_encrypt sv s) = Some s)"

lemma decrypt_encrypted: "fernet_ok sv \<Longrightarrow> decrypt_value sv (JStr (fernet_encrypt sv s)) = JStr s"
  by (simp add: fernet_ok_def decrypt_value_def)

lemma stored_unchanged:
  assumes ok: "schema_ok S" and get: "file_get S sv k stored = Inr v"
    and shape: "well_shaped S k stored"
    and after: "case stored of None \<Rightarrow> stored' = None
      | Some w \<Rightarrow> \<exists>w'. (if k \<in> set (int_keys S) then cast_int w = Inr w' else w' = w) \<and> stored' = Some (cast_bool S k w')"
  shows "file_get S sv k stored' = Inr v"
proof (cases stored)
  case None
  with after get show ?thesis by simp
next
  case (Some w)
  with after obtain w' where w': "if k \<in> set (int_keys S) then cast_int w = Inr w' else w' = w"
    "stored' = Some (cast_bool S k w')" by auto
  from Some get have g: "file_value S sv k JNull w = Inr v" by (simp add: file_get_def)
  show ?thesis
  proof (cases "k \<in> set (int_keys S)")
    case True
    with schema_okD(1) [OF ok True] w' have "stored' = Some w'" by (simp add: cast_bool_def)
    with True w'(1) file_value_cast_int [OF ok True _ g] shape Some show ?thesis by (simp add: file_get_def)
  next
    case False
    with w' shape Some have "stored' = Some w" by (auto simp: cast_bool_def)
    with g show ?thesis by (simp add: file_get_def)
  qed
qed

lemma resubmitted_unchanged:
  assumes ok: "schema_ok S" and fernet: "fernet_ok sv" and key: "k \<in> set (dict_keys (defaults S))"
    and get: "file_get S sv k stored = Inr v"
    and shape: "well_shaped S k stored"
    and new: "hash_entry sv (k, v) = Inr (k, v1)" "encrypt_entry S sv (k, v1) = Inr (k, v2)"
    and plain: "is_secret_key S k \<or> k \<in> set HASH_KEYS \<Longrightarrow> \<not> j_truthy v"
    and cast: "if k \<in> set (int_keys S) then cast_int v2 = Inr v' else v' = v2"
  shows "file_get S sv k (Some (cast_bool S k v')) = Inr v"
proof -
  note typed = read_typed [OF ok key get shape]
  note D = schema_okD(1-3) [OF ok, of k]
  have v1: "v1 = v" using hash_entry_other [OF new(1)] plain by auto
  consider (int) "k \<in> set (int_keys S)" | (bool) "k \<in> set (bool_keys S)" | (hash) "k \<in> set HASH_KEYS"
    | (enc) "kept_encrypted S k" | (none) "k \<notin> set (int_keys S)" "k \<notin> set (bool_keys S)" "k \<notin> set HASH_KEYS" "\<not> kept_encrypted S k"
    by blast
  then show ?thesis
  proof cases
    case int
    with encrypt_entry_other [OF new(2)] D(1) v1 have "v2 = v" by auto
    with typed(1) [OF int] int cast D(1) [OF int] show ?thesis
      by (auto simp: file_get_def file_value_int [OF ok int] cast_int_def cast_bool_def)
  next
    case bool
    with encrypt_entry_other [OF new(2)] D(2) v1 have "v2 = v" by auto
    with typed(2) [OF bool] cast D(2) [OF bool] show ?thesis
      by (simp add: file_get_def file_value_plain cast_bool_def)
  next
    case hash
    with encrypt_entry_other [OF new(2)] D(3) v1 have "v2 = v" by auto
    moreover have "k \<notin> set (int_keys S)" "k \<notin> set (bool_keys S)" using hash D(1,2) by blast+
    ultimately show ?thesis using typed(3) hash plain cast
      by (auto simp: file_get_def file_value_hash [OF ok hash] hashed_value_def cast_bool_def)
  next
    case enc
    then have "k \<notin> set (int_keys S)" "k \<notin> set (bool_keys S)" using D(1,2) by blast+
    then have c: "cast_bool S k v' = v2" using cast by (simp add: cast_bool_def)
    show ?thesis
    proof (cases "j_truthy v")
      case True
      with encrypt_entry_Inr [OF new(2) enc] v1 decrypt_encrypted [OF fernet] c show ?thesis
        by (auto simp: file_get_def file_value_encrypted [OF ok enc])
    next
      case False
      with encrypt_entry_other [OF new(2)] v1 c typed(3) enc show ?thesis
        by (auto simp: file_get_def file_value_encrypted [OF ok enc] decrypt_value_def)
    qed
  next
    case none
    with encrypt_entry_other [OF new(2)] v1 cast show ?thesis
      by (simp add: file_get_def file_value_plain cast_bool_def)
  qed
qed

lemma shapedD: "shaped S d \<Longrightarrow> well_shaped S k (map_of d k)"
  by (cases "map_of d k") (auto simp: shaped_def list_all_iff well_shaped_def dest: map_of_SomeD)

lemma shown_kept:
  assumes "\<not> withheld S demo k (shown_value S True demo k v)"
  shows "shown_value S True demo k v = v \<and> (is_secret_key S k \<or> k \<in> set HASH_KEYS \<longrightarrow> \<not> j_truthy v)"
  using assms by (auto simp: withheld_def shown_value_def split: if_splits)



text \<open>A save leaves the shape the round trip asks for.\<close>

lemma distinct_cast_ints: "cast_ints ks d = (r, f) \<Longrightarrow> distinct (dict_keys d) \<Longrightarrow> distinct (dict_keys f)"
  by (induction ks d rule: cast_ints.induct) (auto split: option.splits sum.splits)

lemma cast_int_not_bool: "cast_int v = Inr v' \<Longrightarrow> \<not> j_is_bool v'"
  by (cases v; cases "j_int v") (auto simp: cast_int_def catch_type_value_def split: py_error.splits)

lemma saved_shaped:
  assumes s: "save S sv w data c = (Inr (), c')" and "distinct (dict_keys data)" and "distinct (dict_keys (file_config c))"
    and ok: "schema_ok S"
  shows "shaped S (file_config c')"
proof -
  from save_ok [OF s] obtain d f where p: "prepare S sv c data = Inr d"
    and f: "cast_ints (int_keys S) (dict_update (file_config c) d) = (None, f)"
    and "c' = c\<lparr>file_config := cast_bools S f, disk := Holds (cast_bools S f)\<rparr>" .
  then have c': "file_config c' = cast_bools S f" by simp
  from prepare_demo [OF p] obtain demo where demo: "is_demo_mode S sv c = Inr demo" ..
  have "distinct (dict_keys f)" by (rule distinct_cast_ints [OF f distinct_dict_update [OF assms(3)]])
  then have dist: "distinct (dict_keys (file_config c'))" by (simp add: c' cast_bools_def o_def case_prod_beta)
  have "(k \<in> set (int_keys S) \<longrightarrow> \<not> j_is_bool v) \<and> (k \<in> set (bool_keys S) \<longrightarrow> \<not> j_is_str v)"
    if "(k, v) \<in> set (file_config c')" for k v
  proof -
    from that dist have "map_of (file_config c') k = Some v" by simp
    with saved_value [OF s demo assms(2), of k] obtain u u' where
      "if k \<in> set (int_keys S) then cast_int u = Inr u' else u' = u" "v = cast_bool S k u'"
      by (auto split: option.splits)
    then show ?thesis using cast_int_not_bool [of u u'] schema_okD(1,2) [OF ok, of k]
      by (auto simp: cast_bool_def split: if_splits)
  qed
  then show ?thesis by (auto simp: shaped_def list_all_iff)
qed

section \<open>Secrets of modules\<close>

definition reserved :: "string \<Rightarrow> schema \<Rightarrow> bool" where
  "reserved k S \<longleftrightarrow> k \<in> set (module_secret_keys S) \<and> k \<notin> set (int_keys S) \<and> k \<notin> set (bool_keys S)"

lemma set_add_key [simp]: "set (add_key k ks) = insert k (set ks)"
  by (auto simp: add_key_def)

lemma reserved_declared: "reserved k (declare_key b secrets private key v S) \<longleftrightarrow> reserved k S"
  by (simp add: reserved_def declare_key_def)

lemma reserved_typed: "reserved k S \<Longrightarrow> reserved k (type_key key v S)"
  by (cases "key = k"; cases v) (simp_all add: reserved_def type_key_def is_secret_key_def)

lemma reserved_registered: "reserved k S \<Longrightarrow> reserved k (fst (register_key i b secrets private e (S, r)))"
  by (cases e) (simp add: register_key_def reserved_declared reserved_typed, simp add: reserved_def)

lemma reserved_fold: "reserved k S \<Longrightarrow> reserved k (fst (fold (register_key i b secrets private) es (S, r)))"
proof (induction es arbitrary: S r)
  case (Cons e es)
  obtain S' r' where e: "register_key i b secrets private e (S, r) = (S', r')" by fastforce
  from reserved_registered [OF Cons.prems, of i b secrets "private" e r] Cons.IH [of S' r'] show ?case by (simp add: e)
qed simp

record registration =
  rg_config :: "(string \<times> json) list"
  rg_module :: string
  rg_builtin :: bool
  rg_secrets :: "string list"
  rg_private :: "string list"

fun register_all :: "registration list \<Rightarrow> schema \<Rightarrow> schema" where
  "register_all [] S = S"
| "register_all (g # gs) S =
     register_all gs (fst (register_module_config (rg_config g) (rg_module g) (rg_builtin g) (rg_secrets g) (rg_private g) S))"

text \<open>
  Reserved secrets stay secrets: after the registry has reserved the secret keys of modules, no
  registration of a module's settings, whatever type its defaults have, makes one of them a setting
  that saving casts to a number or a truth value, so a stored secret keeps its text.
\<close>

theorem reserved_never_cast:
  "k \<in> set keys \<Longrightarrow>
    is_secret_key (register_all gs (set_module_secret_registry keys owners S)) k
    \<and> k \<notin> set (int_keys (register_all gs (set_module_secret_registry keys owners S)))
    \<and> k \<notin> set (bool_keys (register_all gs (set_module_secret_registry keys owners S)))"
proof -
  assume k: "k \<in> set keys"
  have "reserved k S' \<Longrightarrow> reserved k (register_all gs S')" for S'
    by (induction gs S' rule: register_all.induct) (simp_all add: register_module_config_def reserved_fold)
  moreover have "reserved k (set_module_secret_registry keys owners S)"
    using k by (simp add: reserved_def set_module_secret_registry_def)
  ultimately show ?thesis by (simp add: reserved_def is_secret_key_def)
qed

theorem reserved_never_cast_witness:
  "is_secret_key (register_all [\<lparr>rg_config = [(''api_key'', JInt 5)], rg_module = ''m'', rg_builtin = False,
       rg_secrets = [], rg_private = []\<rparr>] (set_module_secret_registry [''api_key''] [(''api_key'', ''m'')] initial_schema)) ''api_key''
    \<and> ''api_key'' \<notin> set (int_keys (register_all [\<lparr>rg_config = [(''api_key'', JInt 5)], rg_module = ''m'', rg_builtin = False,
       rg_secrets = [], rg_private = []\<rparr>] (set_module_secret_registry [''api_key''] [(''api_key'', ''m'')] initial_schema)))
    \<and> ''api_key'' \<notin> set (bool_keys (register_all [\<lparr>rg_config = [(''api_key'', JInt 5)], rg_module = ''m'', rg_builtin = False,
       rg_secrets = [], rg_private = []\<rparr>] (set_module_secret_registry [''api_key''] [(''api_key'', ''m'')] initial_schema)))"
  by (rule reserved_never_cast) simp

section \<open>Writes that fail\<close>

text \<open>
  A torn write opens the instance: the file is truncated before it is filled, so when the disk
  fills up during a save of the settings of an instance with an administrator's password, the next
  start cannot parse the file, reads the defaults, and the password is empty: no login is asked for.
\<close>

theorem torn_save_forgets_password:
  assumes "prepare S sv c data = Inr d" and "fst (cast_ints (int_keys S) (dict_update (file_config c) d)) = None"
    and "\<not> from_env sv ''admin_password''"
  shows "fst (save S sv Torn data c) = Inl OSError
    \<and> config_get S sv (load_config w (disk (snd (save S sv Torn data c)))) ''admin_password'' (JStr []) = Inr (JStr [])"
  using assms by (auto simp: save_def Let_def written_def load_config_def config_get_def from_env_def split: prod.splits)

text \<open>A save whose file cannot be opened is refused, but stays in force until the restart.\<close>

lemma refused_save_in_force:
  assumes "prepare S sv c data = Inr d" and "cast_ints (int_keys S) (dict_update (file_config c) d) = (None, f)"
  shows "save S sv Not_Opened data c = (Inl OSError, c\<lparr>file_config := cast_bools S f\<rparr>)"
  using assms by (simp add: save_def Let_def written_def)

section \<open>Numbers that are not\<close>

text \<open>
  A number that is not one sticks: saving a text that is no number under a numeric key is
  accepted, and from then on every reading of the key, and the settings page itself, raises.
\<close>

theorem bad_number_sticks:
  assumes "key \<in> set (int_keys S)" and "schema_ok S" and "\<not> from_env sv key" and "key \<notin> set URL_KEYS"
    and "s \<noteq> []" and "parse_int s = None" and "key \<notin> set DEMO_HIDE_KEYS"
    and "save S sv w [(key, JStr s)] c = (Inr (), c')"
  shows "config_get S sv c' key dflt = Inl (ValueError s) \<and> get_all S sv dir shown c' \<noteq> Inr page"
proof -
  note D = schema_okD(1) [OF assms(2,1)]
  from save_ok [OF assms(8)] prepare_demo obtain demo where demo: "is_demo_mode S sv c = Inr demo" by metis
  have nh: "\<not> withheld S demo key (JStr s)" using D assms(5) by (auto simp: withheld_def kept_encrypted_def is_secret_key_def)
  from saved_value [OF assms(8) demo, of key] nh assms(1,6) D
  have f: "map_of (file_config c') key = Some (JStr s)"
    by (auto simp: cast_int_def cast_bool_def dest!: hash_entry_other encrypt_entry_other)
  have get: "config_get S sv c' key d = Inl (ValueError s)" for d
    using f assms(1,3,5,6) by (simp add: config_get_def from_env_def file_value_def)
  have "get_all S sv dir shown c' \<noteq> Inr page"
  proof
    assume page: "get_all S sv dir shown c' = Inr page"
    then obtain demo' ys where ys: "mapM_res (\<lambda>key. map_sum id (\<lambda>v. (key, shown_value S shown demo' key v))
        (config_get S sv c' key JNull)) (dict_keys (defaults S)) = Inr ys"
      by (auto simp: get_all_def res_bind_Inr_iff map_sum_Inr_iff)
    have "key \<in> set (dict_keys (defaults S))" using assms(1,2) by (auto simp: schema_ok_def list_all_iff)
    with mapM_res_keyed [OF ys, of key] get [of JNull] show False by auto
  qed
  with get show ?thesis by blast
qed


section \<open>Concrete instances\<close>

definition sample_services :: services where
  "sample_services = \<lparr>getenv = (\<lambda>_. None), hash_password = (\<lambda>s. ''scrypt:'' @ s),
     fernet_encrypt = (\<lambda>s. CHR ''g'' # s), fernet_decrypt = (\<lambda>s. case s of [] \<Rightarrow> None | _ # t \<Rightarrow> Some t),
     bad_netloc = (\<lambda>_. False)\<rparr>"

definition sample_schema :: schema where
  "sample_schema = initial_schema\<lparr>defaults := [(''admin_password'', JStr []), (''modem_password'', JStr []),
       (''poll_interval'', JInt 900), (''demo_mode'', JBool False)],
     bool_keys := [''demo_mode''], int_keys := [''poll_interval'']\<rparr>"

definition sample_config :: config where
  "sample_config = \<lparr>file_config = [(''admin_password'', JStr ''scrypt:x''), (''modem_password'', JStr ''gpw'')],
     disk = Missing\<rparr>"

lemmas sample_defs = sample_services_def sample_schema_def sample_config_def initial_schema_def

lemma sample_schema_ok: "schema_ok sample_schema"
  by (simp add: schema_ok_def sample_defs default_ok_def kept_encrypted_def is_secret_key_def SECRET_KEYS_def HASH_KEYS_def)

lemma sample_fernet: "fernet_ok sample_services"
  by (simp add: fernet_ok_def sample_services_def)

lemma sample_env: "env_value sample_services n = None"
  by (cases n) (simp_all add: env_value_def sample_services_def)

lemma sample_get: "config_get S sample_services c key d = (case map_of (file_config c) key of Some v \<Rightarrow> file_value S sample_services key d v
      | None \<Rightarrow> if key = ''disabled_modules'' then Inr (default_disabled_modules (file_config c))
        else if d \<noteq> JNull then Inr d else Inr (j_get (defaults S) key))"
  by (simp add: config_get_def sample_env)

theorem secrets_at_rest_witness:
  "at_rest initial_schema (\<lambda>s. py_startswith s ''g'') (\<lambda>s. py_startswith s ''scrypt:'') (file_config (save_all initial_schema
      [(sample_services, Stored, [(''admin_password'', JStr ''pw'')]),
       (sample_services, Torn, [(''mqtt_password'', JStr ''pw'')])] \<lparr>file_config = [], disk = Missing\<rparr>))
   \<and> at_rest initial_schema (\<lambda>s. py_startswith s ''g'') (\<lambda>s. py_startswith s ''scrypt:'') (disk_entries (disk (save_all initial_schema
      [(sample_services, Stored, [(''admin_password'', JStr ''pw'')]),
       (sample_services, Torn, [(''mqtt_password'', JStr ''pw'')])] \<lparr>file_config = [], disk = Missing\<rparr>)))"
  by (rule secrets_at_rest [OF initial_schema_ok])
    (simp_all add: sample_services_def at_rest_def disk_entries_def)

text \<open>The exception is real: a password that begins like a digest is stored in clear.\<close>

theorem prefixed_password_in_clear:
  "map_of (disk_entries (disk (snd (save sample_schema sample_services Stored
     [(''admin_password'', JStr ''scrypt:hunter2'')] sample_config)))) ''admin_password'' = Some (JStr ''scrypt:hunter2'')"
  by code_simp

lemma sample_page:
  "get_all sample_schema sample_services ''/data'' True sample_config =
    Inr [(''admin_password'', JStr PASSWORD_MASK), (''modem_password'', JStr PASSWORD_MASK),
      (''poll_interval'', JInt 900), (''demo_mode'', JBool False), (''data_dir'', JStr ''/data'')]"
  by code_simp

lemma sample_saved:
  "save sample_schema sample_services Stored [(''admin_password'', JStr PASSWORD_MASK),
      (''modem_password'', JStr PASSWORD_MASK), (''poll_interval'', JInt 900), (''demo_mode'', JBool False),
      (''data_dir'', JStr ''/data'')] sample_config
   = (Inr (), \<lparr>file_config = file_config sample_config @ [(''poll_interval'', JInt 900), (''demo_mode'', JBool False),
        (''data_dir'', JStr ''/data'')],
      disk = Holds (file_config sample_config @ [(''poll_interval'', JInt 900), (''demo_mode'', JBool False),
        (''data_dir'', JStr ''/data'')])\<rparr>)"
  by code_simp


text \<open>
  A reader with a default of its own may see a change: the days of history, read with the default seven,
  are zero (which keeps everything) once the page of an empty configuration is submitted.
\<close>

definition days_schema :: schema where
  "days_schema = initial_schema\<lparr>defaults := [(''history_days'', JInt 0), (''demo_mode'', JBool False)],
     bool_keys := [''demo_mode''], int_keys := [''history_days'']\<rparr>"

theorem history_days_default_lost:
  "let c = \<lparr>file_config = [], disk = Missing\<rparr>;
       form = [(''history_days'', JInt 0), (''demo_mode'', JBool False), (''data_dir'', JStr ''/data'')]
   in get_all days_schema sample_services ''/data'' True c = Inr form
    \<and> config_get days_schema sample_services c ''history_days'' (JInt 7) = Inr (JInt 7)
    \<and> config_get days_schema sample_services (snd (save days_schema sample_services Stored form c)) ''history_days'' (JInt 7) = Inr (JInt 0)"
  by code_simp

theorem torn_save_forgets_password_witness:
  "fst (save sample_schema sample_services Torn [(''poll_interval'', JInt 60)] sample_config) = Inl OSError
    \<and> config_get sample_schema sample_services (load_config Stored (disk (snd (save sample_schema sample_services Torn
        [(''poll_interval'', JInt 60)] sample_config)))) ''admin_password'' (JStr []) = Inr (JStr [])"
proof (rule torn_save_forgets_password)
  show "prepare sample_schema sample_services sample_config [(''poll_interval'', JInt 60)] = Inr [(''poll_interval'', JInt 60)]"
    by code_simp
qed (code_simp, simp add: from_env_def sample_env)

theorem bad_number_sticks_witness:
  "\<exists>c'. save sample_schema sample_services Stored [(''poll_interval'', JStr ''soon'')] sample_config = (Inr (), c')
    \<and> config_get sample_schema sample_services c' ''poll_interval'' JNull = Inl (ValueError ''soon'')
    \<and> get_all sample_schema sample_services ''/data'' True c' \<noteq> Inr []"
proof -
  have s: "save sample_schema sample_services Stored [(''poll_interval'', JStr ''soon'')] sample_config =
    (Inr (), \<lparr>file_config = file_config sample_config @ [(''poll_interval'', JStr ''soon'')],
       disk = Holds (file_config sample_config @ [(''poll_interval'', JStr ''soon'')])\<rparr>)"
    by code_simp
  have "parse_int ''soon'' = None" by code_simp
  with bad_number_sticks [OF _ sample_schema_ok _ _ _ _ _ s, of JNull "''/data''" True "[]"] s show ?thesis
    by (auto simp: from_env_def sample_env URL_KEYS_def DEMO_HIDE_KEYS_def sample_schema_def)
qed

end
