(* ===== verification/Api_Tokens.thy ===== *)
theory Api_Tokens
  imports Timestamps
begin

text \<open>
  \<^verbatim>\<open>app/storage/tokens.py\<close>: the bearer tokens of the API.  The table is the list of its rows in the
  order of their identifiers, with the next identifier SQLite will hand out; the hash of a token
  and its check are parameters, the random part of a new token and the clock are arguments.
\<close>

section \<open>Rows and operations\<close>

definition TOKEN_PREFIX_LENGTH :: nat where "TOKEN_PREFIX_LENGTH = 8"
definition LAST_USED_WRITE_INTERVAL :: int where "LAST_USED_WRITE_INTERVAL = 60"

record token_row =
  tk_id :: int
  tk_name :: string
  tk_hash :: string
  tk_prefix :: string
  tk_created :: string
  tk_last_used :: "string option"
  tk_revoked :: bool
  tk_scope :: string

record token_table =
  tk_rows :: "token_row list"
  tk_next :: int

record token_info =
  ti_id :: int
  ti_name :: string
  ti_prefix :: string
  ti_created :: string
  ti_scope :: string

definition parse_utc_timestamp :: "string option \<Rightarrow> int option" where
  "parse_utc_timestamp v =
     (case v of None \<Rightarrow> None | Some s \<Rightarrow>
        if s \<noteq> [] \<and> last s \<in> {CHR ''Z'', CHR ''z''}
        then (case strptime_local (butlast s) of Inr t \<Rightarrow> Some (seconds t) | Inl _ \<Rightarrow> None)
        else None)"

definition should_refresh_last_used :: "string option \<Rightarrow> string \<Rightarrow> bool" where
  "should_refresh_last_used before now =
     (case (parse_utc_timestamp before, parse_utc_timestamp (Some now)) of
        (Some p, Some n) \<Rightarrow> LAST_USED_WRITE_INTERVAL \<le> n - p
      | _ \<Rightarrow> True)"

definition create_api_token ::
  "(string \<Rightarrow> string) \<Rightarrow> string \<Rightarrow> string \<Rightarrow> string \<Rightarrow> string \<Rightarrow> token_table \<Rightarrow> (int \<times> string) res \<times> token_table" where
  "create_api_token hash raw now name scope t =
     (if scope \<notin> {''metrics'', ''api''} then (Inl (ValueError ''Token scope must be metrics or api''), t)
      else
        let plaintext = ''dsk_'' @ raw;
            row = \<lparr>tk_id = tk_next t, tk_name = name, tk_hash = hash plaintext,
                   tk_prefix = take TOKEN_PREFIX_LENGTH plaintext, tk_created = now, tk_last_used = None,
                   tk_revoked = False, tk_scope = scope\<rparr>
        in (Inr (tk_next t, plaintext), \<lparr>tk_rows = tk_rows t @ [row], tk_next = tk_next t + 1\<rparr>))"

definition token_matches :: "(string \<Rightarrow> string \<Rightarrow> bool) \<Rightarrow> string \<Rightarrow> token_row \<Rightarrow> bool" where
  "token_matches check tok r \<longleftrightarrow>
     \<not> tk_revoked r \<and> tk_prefix r = take TOKEN_PREFIX_LENGTH tok \<and> check (tk_hash r) tok"

definition info_of :: "token_row \<Rightarrow> token_info" where
  "info_of r = \<lparr>ti_id = tk_id r, ti_name = tk_name r, ti_prefix = tk_prefix r, ti_created = tk_created r,
     ti_scope = tk_scope r\<rparr>"

definition use_row :: "int \<Rightarrow> string \<Rightarrow> token_row \<Rightarrow> token_row" where
  "use_row i now r = (if tk_id r = i then r\<lparr>tk_last_used := Some now\<rparr> else r)"

definition mark_used :: "int \<Rightarrow> string \<Rightarrow> token_table \<Rightarrow> token_table" where
  "mark_used i now t = t\<lparr>tk_rows := map (use_row i now) (tk_rows t)\<rparr>"

definition validate_api_token ::
  "(string \<Rightarrow> string \<Rightarrow> bool) \<Rightarrow> string \<Rightarrow> string \<Rightarrow> token_table \<Rightarrow> token_info option \<times> token_table" where
  "validate_api_token check now tok t =
     (case List.find (token_matches check tok) (tk_rows t) of
        None \<Rightarrow> (None, t)
      | Some r \<Rightarrow> (Some (info_of r), if should_refresh_last_used (tk_last_used r) now then mark_used (tk_id r) now t else t))"

definition get_api_tokens :: "token_table \<Rightarrow> (token_info \<times> string option \<times> bool) list" where
  "get_api_tokens t = rev (map (\<lambda>r. (info_of r, tk_last_used r, tk_revoked r)) (sort_key tk_created (tk_rows t)))"

definition revoke_row :: "int \<Rightarrow> token_row \<Rightarrow> token_row" where
  "revoke_row i r = (if tk_id r = i \<and> \<not> tk_revoked r then r\<lparr>tk_revoked := True\<rparr> else r)"

definition revoke_api_token :: "int \<Rightarrow> token_table \<Rightarrow> bool \<times> token_table" where
  "revoke_api_token i t =
     (list_ex (\<lambda>r. tk_id r = i \<and> \<not> tk_revoked r) (tk_rows t), t\<lparr>tk_rows := map (revoke_row i) (tk_rows t)\<rparr>)"

section \<open>Invariant\<close>

text \<open>Identifiers are unique and below the next one, scopes are the two known ones.\<close>

definition tokens_ok :: "token_table \<Rightarrow> bool" where
  "tokens_ok t \<longleftrightarrow> distinct (map tk_id (tk_rows t))
     \<and> list_all (\<lambda>r. tk_id r < tk_next t \<and> tk_scope r \<in> {''metrics'', ''api''}) (tk_rows t)"

datatype token_op =
    Create string string string string
  | Validate string string
  | Revoke int

fun token_step :: "(string \<Rightarrow> string) \<Rightarrow> (string \<Rightarrow> string \<Rightarrow> bool) \<Rightarrow> token_op \<Rightarrow> token_table \<Rightarrow> token_table" where
  "token_step hash check (Create raw now name scope) t = snd (create_api_token hash raw now name scope t)"
| "token_step hash check (Validate now tok) t = snd (validate_api_token check now tok t)"
| "token_step hash check (Revoke i) t = snd (revoke_api_token i t)"

definition token_run :: "(string \<Rightarrow> string) \<Rightarrow> (string \<Rightarrow> string \<Rightarrow> bool) \<Rightarrow> token_op list \<Rightarrow> token_table \<Rightarrow> token_table" where
  "token_run hash check ops t = fold (token_step hash check) ops t"

lemma row_frames [simp]:
  "tk_id (use_row i now r) = tk_id r" "tk_scope (use_row i now r) = tk_scope r" "tk_hash (use_row i now r) = tk_hash r"
  "info_of (use_row i now r) = info_of r" "tk_revoked (use_row i now r) = tk_revoked r"
  "tk_id (revoke_row i r) = tk_id r" "tk_scope (revoke_row i r) = tk_scope r" "tk_hash (revoke_row i r) = tk_hash r"
  "info_of (revoke_row i r) = info_of r" "tk_revoked (revoke_row i r) \<longleftrightarrow> tk_revoked r \<or> tk_id r = i"
  by (auto simp: use_row_def revoke_row_def info_of_def)

lemma rows_unique: "tokens_ok t \<Longrightarrow> r \<in> set (tk_rows t) \<Longrightarrow> s \<in> set (tk_rows t) \<Longrightarrow> tk_id r = tk_id s \<Longrightarrow> r = s"
  unfolding tokens_ok_def distinct_map by (meson inj_onD)

lemma mapped_ok:
  "tokens_ok t \<Longrightarrow> (\<And>r. tk_id (f r) = tk_id r) \<Longrightarrow> (\<And>r. tk_scope (f r) = tk_scope r) \<Longrightarrow> tokens_ok (t\<lparr>tk_rows := map f (tk_rows t)\<rparr>)"
  by (simp add: tokens_ok_def list_all_iff o_def)

lemma token_step_ok: "tokens_ok t \<Longrightarrow> tokens_ok (token_step hash check op t)"
proof (cases op)
  case (Create raw now name scope)
  assume "tokens_ok t"
  then show ?thesis by (auto simp: Create create_api_token_def tokens_ok_def list_all_iff Let_def)
next
  case (Validate now tok)
  assume "tokens_ok t"
  then show ?thesis by (simp add: Validate validate_api_token_def mark_used_def mapped_ok split: option.splits)
next
  case (Revoke i)
  assume "tokens_ok t"
  then show ?thesis by (simp add: Revoke revoke_api_token_def mapped_ok)
qed

lemma token_run_ok: "tokens_ok t \<Longrightarrow> tokens_ok (token_run hash check ops t)"
  by (induction ops arbitrary: t) (simp_all add: token_run_def token_step_ok)

section \<open>The life of a token\<close>

text \<open>What every operation keeps of a row, and which of them revoke it.\<close>

definition row_later :: "token_row \<Rightarrow> token_row \<Rightarrow> bool" where
  "row_later r r' \<longleftrightarrow> info_of r' = info_of r \<and> tk_hash r' = tk_hash r"

lemma token_step_row:
  "r \<in> set (tk_rows t) \<Longrightarrow> \<exists>r' \<in> set (tk_rows (token_step hash check op t)).
     row_later r r' \<and> (tk_revoked r' \<longleftrightarrow> tk_revoked r \<or> op = Revoke (tk_id r))"
proof (cases op)
  case (Create raw now name scope)
  assume "r \<in> set (tk_rows t)"
  then show ?thesis by (auto simp: Create create_api_token_def Let_def row_later_def)
next
  case (Validate now tok)
  assume "r \<in> set (tk_rows t)"
  then show ?thesis by (auto simp: Validate validate_api_token_def mark_used_def row_later_def split: option.splits)
next
  case (Revoke i)
  assume "r \<in> set (tk_rows t)"
  then show ?thesis by (auto simp: Revoke revoke_api_token_def row_later_def)
qed

lemma token_run_row:
  "r \<in> set (tk_rows t) \<Longrightarrow> \<exists>r' \<in> set (tk_rows (token_run hash check ops t)).
     row_later r r' \<and> (tk_revoked r' \<longleftrightarrow> tk_revoked r \<or> Revoke (tk_id r) \<in> set ops)"
proof (induction ops arbitrary: t r)
  case (Cons op ops)
  from token_step_row [OF Cons.prems] obtain s where s: "s \<in> set (tk_rows (token_step hash check op t))"
    "row_later r s" "tk_revoked s \<longleftrightarrow> tk_revoked r \<or> op = Revoke (tk_id r)" by blast
  have "tk_id s = tk_id r" using s(2) by (simp add: row_later_def info_of_def)
  with Cons.IH [OF s(1)] s(2,3) show ?case by (force simp: token_run_def row_later_def)
qed (auto simp: token_run_def row_later_def)

lemma validate_at:
  assumes "tokens_ok t" "r \<in> set (tk_rows t)"
    and only: "\<And>s. s \<in> set (tk_rows t) \<Longrightarrow> token_matches check tok s \<Longrightarrow> tk_id s = tk_id r"
  shows "fst (validate_api_token check now tok t) = (if token_matches check tok r then Some (info_of r) else None)"
proof (cases "List.find (token_matches check tok) (tk_rows t)")
  case None
  with assms(2) have "\<not> token_matches check tok r" by (auto simp: find_None_iff)
  with None show ?thesis by (simp add: validate_api_token_def)
next
  case (Some s)
  then have s: "s \<in> set (tk_rows t)" "token_matches check tok s" by (auto simp: find_Some_iff)
  with only [of s] rows_unique [OF assms(1) _ assms(2)] have "s = r" by blast
  with Some s show ?thesis by (simp add: validate_api_token_def)
qed

lemma token_life_run:
  assumes "tokens_ok t" and "create_api_token hash raw now name scope t = (Inr (i, plain), t1)"
    and "check (hash plain) plain"
    and "\<forall>r \<in> set (tk_rows (token_run hash check ops t1)). token_matches check plain r \<longrightarrow> tk_id r = i"
  shows "fst (validate_api_token check later plain (token_run hash check ops t1)) =
    (if Revoke i \<in> set ops then None
     else Some \<lparr>ti_id = i, ti_name = name, ti_prefix = take 8 plain, ti_created = now, ti_scope = scope\<rparr>)"
proof -
  define r where "r = \<lparr>tk_id = i, tk_name = name, tk_hash = hash plain, tk_prefix = take 8 plain, tk_created = now,
    tk_last_used = None, tk_revoked = False, tk_scope = scope\<rparr>"
  have t1: "t1 = token_step hash check (Create raw now name scope) t" using assms(2) by simp
  have "r \<in> set (tk_rows t1)"
    using assms(2) by (auto simp: create_api_token_def Let_def r_def TOKEN_PREFIX_LENGTH_def split: if_splits)
  from token_run_row [OF this, of hash check ops] obtain r' where r': "r' \<in> set (tk_rows (token_run hash check ops t1))"
    "row_later r r'" "tk_revoked r' \<longleftrightarrow> Revoke i \<in> set ops" by (auto simp: r_def)
  have ok: "tokens_ok (token_run hash check ops t1)" unfolding t1 by (intro token_run_ok token_step_ok assms(1))
  have r'_fields: "info_of r' = \<lparr>ti_id = i, ti_name = name, ti_prefix = take 8 plain, ti_created = now, ti_scope = scope\<rparr>"
    "tk_hash r' = hash plain" "tk_id r' = i" "tk_prefix r' = take 8 plain"
    using r'(2) by (simp_all add: row_later_def r_def info_of_def)
  have "fst (validate_api_token check later plain (token_run hash check ops t1)) =
    (if token_matches check plain r' then Some (info_of r') else None)"
    using assms(4) r'_fields(3) by (intro validate_at [OF ok r'(1)]) blast
  then show ?thesis using assms(3) r'(3) r'_fields by (simp add: token_matches_def TOKEN_PREFIX_LENGTH_def)
qed

text \<open>
  The life of a token: the plain text handed out at a creation is accepted, with the scope and the
  name of the creation, until the token is revoked, and never after, whatever tokens are created,
  used or revoked in between.  (That no other row hashes to the same text is asked of the hash.)
\<close>

theorem token_life:
  assumes "tokens_ok t" and "create_api_token hash raw now name scope t = (Inr (i, plain), t1)"
    and "check (hash plain) plain"
    and "\<forall>r \<in> set (tk_rows (token_run hash check ops t1)). token_matches check plain r \<longrightarrow> tk_id r = i"
  shows "fst (validate_api_token check later plain (token_run hash check ops t1)) =
    (if Revoke i \<in> set ops then None
     else Some \<lparr>ti_id = i, ti_name = name, ti_prefix = take 8 plain, ti_created = now, ti_scope = scope\<rparr>)"
  using assms by (rule token_life_run)

theorem token_life_witness:
  "fst (validate_api_token (=) ''z'' ''dsk_a'' (token_run id (=) [Validate ''y'' ''dsk_a'', Create ''b'' ''y'' ''n2'' ''api'']
      \<lparr>tk_rows = [\<lparr>tk_id = 1, tk_name = ''n'', tk_hash = ''dsk_a'', tk_prefix = ''dsk_a'', tk_created = ''x'',
         tk_last_used = None, tk_revoked = False, tk_scope = ''metrics''\<rparr>], tk_next = 2\<rparr>)) =
    Some \<lparr>ti_id = 1, ti_name = ''n'', ti_prefix = ''dsk_a'', ti_created = ''x'', ti_scope = ''metrics''\<rparr>"
proof -
  have c: "create_api_token id ''a'' ''x'' ''n'' ''metrics'' \<lparr>tk_rows = [], tk_next = 1\<rparr> =
    (Inr (1, ''dsk_a''), \<lparr>tk_rows = [\<lparr>tk_id = 1, tk_name = ''n'', tk_hash = ''dsk_a'', tk_prefix = ''dsk_a'', tk_created = ''x'',
         tk_last_used = None, tk_revoked = False, tk_scope = ''metrics''\<rparr>], tk_next = 2\<rparr>)"
    by code_simp
  have ok: "tokens_ok \<lparr>tk_rows = [], tk_next = 1\<rparr>" by code_simp
  show ?thesis
    using token_life [OF ok c, of "(=)" "[Validate ''y'' ''dsk_a'', Create ''b'' ''y'' ''n2'' ''api'']" "''z''"]
    by (simp add: token_run_def validate_api_token_def create_api_token_def token_matches_def
        mark_used_def use_row_def TOKEN_PREFIX_LENGTH_def Let_def)
qed

section \<open>How often the use of a token is written\<close>

lemma parse_utc_timestamp_stamp:
  "MIN_SECONDS \<le> u \<Longrightarrow> u \<le> MAX_SECONDS \<Longrightarrow> parse_utc_timestamp (Some (utc_stamp u)) = Some u"
  by (simp add: parse_utc_timestamp_def utc_stamp_def strptime_stamp civil_valid)

text \<open>
  The use of a token is written at most once a minute: when a valid token is presented again less
  than sixty seconds after the use that was last written, the table is not touched.
\<close>

theorem last_used_throttled:
  assumes "MIN_SECONDS \<le> u" "u \<le> v" "v < u + 60" "v \<le> MAX_SECONDS" and "tokens_ok t"
    and "fst (validate_api_token check (utc_stamp u) tok t) = Some i"
    and "should_refresh_last_used (tk_last_used r) (utc_stamp u)" "r \<in> set (tk_rows t)" "tk_id r = ti_id i"
  shows "validate_api_token check (utc_stamp v) tok (snd (validate_api_token check (utc_stamp u) tok t))
    = (Some i, snd (validate_api_token check (utc_stamp u) tok t))"
proof -
  from assms(6) obtain s where s: "List.find (token_matches check tok) (tk_rows t) = Some s" "i = info_of s"
    by (auto simp: validate_api_token_def split: option.splits)
  then have "s \<in> set (tk_rows t)" "tk_id s = ti_id i" by (auto simp: find_Some_iff info_of_def)
  with rows_unique [OF assms(5) _ assms(8)] assms(9) have "s = r" by simp
  with s assms(7) have after: "snd (validate_api_token check (utc_stamp u) tok t) = mark_used (tk_id s) (utc_stamp u) t"
    by (simp add: validate_api_token_def)
  define f where "f = use_row (tk_id s) (utc_stamp u)"
  have m: "token_matches check tok (f r) = token_matches check tok r" for r
    by (simp add: f_def token_matches_def use_row_def)
  have "List.find (token_matches check tok) (map f xs) = map_option f (List.find (token_matches check tok) xs)" for xs
    by (induction xs) (simp_all add: m)
  then have "List.find (token_matches check tok) (tk_rows (mark_used (tk_id s) (utc_stamp u) t)) = Some (f s)"
    using s(1) by (simp add: mark_used_def f_def [symmetric])
  moreover have "info_of (f s) = i" "tk_last_used (f s) = Some (utc_stamp u)" by (simp_all add: f_def s(2) use_row_def info_of_def)
  moreover have "\<not> should_refresh_last_used (Some (utc_stamp u)) (utc_stamp v)"
    using assms(1-4) by (simp add: should_refresh_last_used_def parse_utc_timestamp_stamp LAST_USED_WRITE_INTERVAL_def)
  ultimately show ?thesis unfolding after by (simp add: validate_api_token_def)
qed

theorem last_used_throttled_witness:
  "\<exists>t. snd (validate_api_token (=) (utc_stamp 63900000000) ''dsk_a'' t) \<noteq> t
    \<and> validate_api_token (=) (utc_stamp 63900000059) ''dsk_a'' (snd (validate_api_token (=) (utc_stamp 63900000000) ''dsk_a'' t))
      = (fst (validate_api_token (=) (utc_stamp 63900000000) ''dsk_a'' t),
         snd (validate_api_token (=) (utc_stamp 63900000000) ''dsk_a'' t))"
proof -
  define r where "r = \<lparr>tk_id = 1, tk_name = ''n'', tk_hash = ''dsk_a'', tk_prefix = ''dsk_a'', tk_created = ''x'',
    tk_last_used = None, tk_revoked = False, tk_scope = ''api''\<rparr>"
  define t where "t = \<lparr>tk_rows = [r], tk_next = 2\<rparr>"
  have m: "token_matches (=) ''dsk_a'' r" by (simp add: r_def token_matches_def TOKEN_PREFIX_LENGTH_def)
  have w: "should_refresh_last_used (tk_last_used r) x" for x
    by (simp add: r_def should_refresh_last_used_def parse_utc_timestamp_def)
  have v: "validate_api_token (=) (utc_stamp 63900000000) ''dsk_a'' t = (Some (info_of r), mark_used 1 (utc_stamp 63900000000) t)"
    using w [of "utc_stamp 63900000000"] m by (simp add: validate_api_token_def t_def) (simp add: r_def)
  have ok: "tokens_ok t" by (simp add: tokens_ok_def t_def r_def)
  have "validate_api_token (=) (utc_stamp 63900000059) ''dsk_a'' (snd (validate_api_token (=) (utc_stamp 63900000000) ''dsk_a'' t))
      = (Some (info_of r), snd (validate_api_token (=) (utc_stamp 63900000000) ''dsk_a'' t))"
    by (rule last_used_throttled [where r = r and i = "info_of r" and u = 63900000000])
      (use ok v w in \<open>simp_all add: MIN_SECONDS_def MAX_SECONDS_def t_def info_of_def\<close>)
  moreover have "mark_used 1 (utc_stamp 63900000000) t \<noteq> t" by (simp add: mark_used_def t_def r_def use_row_def)
  ultimately show ?thesis using v by (intro exI [of _ t]) simp
qed

end
