(* ===== verification/Web_Auth.thy ===== *)
theory Web_Auth
  imports Config_Store Login_Limiter Api_Tokens
begin

text \<open>
  \<^verbatim>\<open>app/web_auth.py\<close> with the files of \<^verbatim>\<open>AuthStateStore\<close> in \<^verbatim>\<open>app/runtime.py\<close> and the login and logout
  pages of \<^verbatim>\<open>app/web.py\<close>: the signing key, the durable fingerprint of the administrator's password,
  password-bound sessions, bearer tokens and the login, which composes the configuration store, the
  rate limiter and the token table.  HMAC-SHA256 in hexadecimal, the check of a password hash, fresh
  random keys and tokens, the clock and the outcome of each file write are parameters.
\<close>

section \<open>State\<close>

definition SESSION_LIFETIME_DEFAULT_DAYS :: int where "SESSION_LIFETIME_DEFAULT_DAYS = 30"
definition SESSION_LIFETIME_MIN_DAYS :: int where "SESSION_LIFETIME_MIN_DAYS = 1"
definition SESSION_LIFETIME_MAX_DAYS :: int where "SESSION_LIFETIME_MAX_DAYS = 365"

definition AUTH_MARKER_CONTEXT :: string where
  "AUTH_MARKER_CONTEXT = ''docsight-admin-session-v1'' @ [CHR 0x00]"

definition AUTH_STATE_CONTEXT :: string where
  "AUTH_STATE_CONTEXT = ''docsight-admin-auth-state-v1'' @ [CHR 0x00]"

text \<open>The session a request carries in its signed cookie.\<close>

record web_session =
  authenticated :: bool
  auth_marker :: string
  login_csrf_token :: string
  permanent :: bool

definition cleared :: web_session where
  "cleared = \<lparr>authenticated = False, auth_marker = [], login_csrf_token = [], permanent = False\<rparr>"

text \<open>One application: its active signing key, the two files, and the stores it composes.\<close>

record web_app =
  active_key :: string
  key_file :: "string option"
  fingerprint_file :: "string option"
  app_config :: config
  app_limiter :: limiter
  app_tokens :: token_table
  has_storage :: bool

record crypto =
  mac :: "string \<Rightarrow> string \<Rightarrow> string"
  check_password :: "string \<Rightarrow> string \<Rightarrow> bool res"
  check_token :: "string \<Rightarrow> string \<Rightarrow> bool"

section \<open>Keys, fingerprints and markers\<close>

definition load_or_create_session_key :: "string \<Rightarrow> bool \<Rightarrow> string option \<Rightarrow> string res \<times> string option" where
  "load_or_create_session_key fresh stored_ok file =
     (case file of Some k \<Rightarrow> (Inr k, file)
      | None \<Rightarrow> if stored_ok then (Inr fresh, Some fresh) else (Inl OSError, None))"

definition hex_digit :: "char \<Rightarrow> bool" where
  "hex_digit c \<longleftrightarrow> c \<in> set ''0123456789abcdef''"

definition read_fingerprint :: "string option \<Rightarrow> string option" where
  "read_fingerprint file =
     (case file of None \<Rightarrow> None | Some content \<Rightarrow>
        let v = py_strip content in
        if list_all (\<lambda>c. c < CHR 0x80) content \<and> length v = 64 \<and> list_all hex_digit v then Some v else None)"

definition session_lifetime_days :: "(string \<Rightarrow> string option) \<Rightarrow> int" where
  "session_lifetime_days env =
     (let configured = py_strip (case env ''SESSION_LIFETIME_DAYS'' of None \<Rightarrow> [] | Some v \<Rightarrow> v)
      in if configured = [] then SESSION_LIFETIME_DEFAULT_DAYS
         else case py_int (PStr configured) of
                Inl e \<Rightarrow> SESSION_LIFETIME_DEFAULT_DAYS
              | Inr days \<Rightarrow> max SESSION_LIFETIME_MIN_DAYS (min SESSION_LIFETIME_MAX_DAYS days))"

definition secret_values_match :: "string \<Rightarrow> string \<Rightarrow> bool" where
  "secret_values_match left right \<longleftrightarrow> left = right"

definition admin_password_matches :: "crypto \<Rightarrow> string \<Rightarrow> string \<Rightarrow> bool res" where
  "admin_password_matches cr effective candidate =
     (if is_hash effective then catch_type_value (check_password cr effective candidate) False
      else Inr (secret_values_match effective candidate))"

definition text_of_json :: "json \<Rightarrow> string" where
  "text_of_json v = (case v of JStr s \<Rightarrow> s | _ \<Rightarrow> [])"

text \<open>\<^verbatim>\<open>config.get("admin_password", "")\<close>, which is a text or raises.\<close>

definition admin_password :: "schema \<Rightarrow> services \<Rightarrow> web_app \<Rightarrow> string res" where
  "admin_password S sv A = map_sum id text_of_json (config_get S sv (app_config A) ''admin_password'' (JStr []))"

definition auth_state_fingerprint :: "crypto \<Rightarrow> string \<Rightarrow> string \<Rightarrow> string" where
  "auth_state_fingerprint cr key pw = mac cr key (AUTH_STATE_CONTEXT @ pw)"

definition admin_session_marker :: "crypto \<Rightarrow> string \<Rightarrow> string \<Rightarrow> string" where
  "admin_session_marker cr key pw = (if pw = [] then [] else mac cr key (AUTH_MARKER_CONTEXT @ pw))"

definition rotate_session_key :: "string \<Rightarrow> bool \<Rightarrow> web_app \<Rightarrow> unit res \<times> web_app" where
  "rotate_session_key fresh stored_ok A =
     (if stored_ok then (Inr (), A\<lparr>key_file := Some fresh, active_key := fresh\<rparr>) else (Inl OSError, A))"

definition write_auth_state :: "schema \<Rightarrow> services \<Rightarrow> crypto \<Rightarrow> bool \<Rightarrow> web_app \<Rightarrow> unit res \<times> web_app" where
  "write_auth_state S sv cr stored_ok A =
     (case admin_password S sv A of
        Inl e \<Rightarrow> (Inl e, A)
      | Inr pw \<Rightarrow> if stored_ok then (Inr (), A\<lparr>fingerprint_file := Some (auth_state_fingerprint cr (active_key A) pw)\<rparr>)
                 else (Inl OSError, A))"

text \<open>An operation that may raise, then the next one on the state it left.\<close>

definition and_then :: "unit res \<times> 's \<Rightarrow> ('s \<Rightarrow> 'a res \<times> 's) \<Rightarrow> 'a res \<times> 's" where
  "and_then r f = (case r of (Inl e, s) \<Rightarrow> (Inl e, s) | (Inr u, s) \<Rightarrow> f s)"

definition rotate_and_rebind :: "schema \<Rightarrow> services \<Rightarrow> crypto \<Rightarrow> string \<Rightarrow> bool \<Rightarrow> bool \<Rightarrow> web_app \<Rightarrow> unit res \<times> web_app" where
  "rotate_and_rebind S sv cr fresh w1 w2 A =
     and_then (rotate_session_key fresh w1 A) (write_auth_state S sv cr w2)"

definition init_auth_state :: "schema \<Rightarrow> services \<Rightarrow> crypto \<Rightarrow> string \<Rightarrow> bool \<Rightarrow> bool \<Rightarrow> web_app \<Rightarrow> unit res \<times> web_app" where
  "init_auth_state S sv cr fresh w1 w2 A =
     (case admin_password S sv A of
        Inl e \<Rightarrow> (Inl e, A)
      | Inr pw \<Rightarrow>
          (case read_fingerprint (fingerprint_file A) of
             None \<Rightarrow> write_auth_state S sv cr w2 A
           | Some stored \<Rightarrow>
               if secret_values_match stored (auth_state_fingerprint cr (active_key A) pw) then (Inr (), A)
               else rotate_and_rebind S sv cr fresh w1 w2 A))"

definition sync_auth_state :: "schema \<Rightarrow> services \<Rightarrow> crypto \<Rightarrow> string \<Rightarrow> bool \<Rightarrow> bool \<Rightarrow> web_app \<Rightarrow> unit res \<times> web_app" where
  "sync_auth_state S sv cr fresh w1 w2 A =
     (case admin_password S sv A of
        Inl e \<Rightarrow> (Inl e, A)
      | Inr pw \<Rightarrow>
          if read_fingerprint (fingerprint_file A) = Some (auth_state_fingerprint cr (active_key A) pw) then (Inr (), A)
          else rotate_and_rebind S sv cr fresh w1 w2 A)"

definition session_is_valid :: "schema \<Rightarrow> services \<Rightarrow> crypto \<Rightarrow> web_app \<Rightarrow> web_session \<Rightarrow> (bool \<times> web_session) res" where
  "session_is_valid S sv cr A s =
     (if \<not> authenticated s then Inr (False, s)
      else res_bind (admin_password S sv A) (\<lambda>pw.
        let expected = admin_session_marker cr (active_key A) pw in
        if auth_marker s \<noteq> [] \<and> expected \<noteq> [] \<and> secret_values_match (auth_marker s) expected
        then Inr (True, s) else Inr (False, cleared)))"

definition invalidate_admin_sessions ::
  "schema \<Rightarrow> services \<Rightarrow> crypto \<Rightarrow> string \<Rightarrow> bool \<Rightarrow> bool \<Rightarrow> web_app \<Rightarrow> web_session \<Rightarrow> unit res \<times> web_app \<times> web_session" where
  "invalidate_admin_sessions S sv cr fresh w1 w2 A s =
     (case rotate_and_rebind S sv cr fresh w1 w2 A of
        (Inl e, A') \<Rightarrow> (Inl e, A', s) | (Inr _, A') \<Rightarrow> (Inr (), A', cleared))"

section \<open>Requests\<close>

record web_request =
  rq_ip :: string
  rq_endpoint :: string
  rq_path :: string
  rq_authorization :: string
  rq_csrf :: string
  rq_password :: string

definition bearer :: "web_request \<Rightarrow> string option" where
  "bearer rq = (if py_startswith (rq_authorization rq) ''Bearer '' then Some (drop 7 (rq_authorization rq)) else None)"

datatype answer =
    Served | Metrics_Only | Session_Only | Unauthorized | To_Login | Raised py_error

text \<open>The hook before every request: the information of the token it found, or its refusal.\<close>

definition restrict_metrics_tokens ::
  "crypto \<Rightarrow> string \<Rightarrow> web_request \<Rightarrow> web_app \<Rightarrow> answer option \<times> token_info option \<times> web_app" where
  "restrict_metrics_tokens cr now rq A =
     (if \<not> has_storage A then (None, None, A)
      else case bearer rq of
        None \<Rightarrow> (None, None, A)
      | Some tok \<Rightarrow>
          (case validate_api_token (check_token cr) now tok (app_tokens A) of (info, t) \<Rightarrow>
             (case info of
                Some i \<Rightarrow> if ti_scope i = ''metrics'' \<and> rq_endpoint rq \<noteq> ''metrics_bp.metrics'' then Some Metrics_Only else None
              | None \<Rightarrow> None,
              info, A\<lparr>app_tokens := t\<rparr>)))"

text \<open>The bearer part of \<^verbatim>\<open>_auth_required\<close>: true when the token does not open the route.\<close>

definition token_required ::
  "crypto \<Rightarrow> string \<Rightarrow> bool \<Rightarrow> web_request \<Rightarrow> token_info option \<Rightarrow> web_app \<Rightarrow> bool \<times> token_info option \<times> web_app" where
  "token_required cr now session_only rq cached A =
     (if session_only \<or> \<not> has_storage A then (True, cached, A)
      else case bearer rq of
        None \<Rightarrow> (True, cached, A)
      | Some tok \<Rightarrow>
          (case (case cached of Some i \<Rightarrow> (Some i, app_tokens A)
                 | None \<Rightarrow> validate_api_token (check_token cr) now tok (app_tokens A)) of
             (None, t) \<Rightarrow> (True, cached, A\<lparr>app_tokens := t\<rparr>)
           | (Some i, t) \<Rightarrow> if ti_scope i = ''api'' then (False, Some i, A\<lparr>app_tokens := t\<rparr>)
                            else (True, cached, A\<lparr>app_tokens := t\<rparr>)))"

record sync_args =
  sy_key :: string
  sy_key_written :: bool
  sy_state_written :: bool

definition auth_required ::
  "schema \<Rightarrow> services \<Rightarrow> crypto \<Rightarrow> sync_args \<Rightarrow> string \<Rightarrow> bool \<Rightarrow> web_request \<Rightarrow> token_info option
   \<Rightarrow> web_app \<Rightarrow> web_session \<Rightarrow> (bool \<times> token_info option) res \<times> web_app \<times> web_session" where
  "auth_required S sv cr sy now session_only rq cached A s =
     (case sync_auth_state S sv cr (sy_key sy) (sy_key_written sy) (sy_state_written sy) A of
        (Inl e, A1) \<Rightarrow> (Inl e, A1, s)
      | (Inr _, A1) \<Rightarrow>
          (case admin_password S sv A1 of
             Inl e \<Rightarrow> (Inl e, A1, s)
           | Inr pw \<Rightarrow>
               if pw = [] then (Inr (False, cached), A1, s)
               else case session_is_valid S sv cr A1 s of
                 Inl e \<Rightarrow> (Inl e, A1, s)
               | Inr (valid, s1) \<Rightarrow>
                   if valid then (Inr (False, cached), A1, s1)
                   else (case token_required cr now session_only rq cached A1 of
                           (req, cached', A2) \<Rightarrow> (Inr (req, cached'), A2, s1))))"

definition require_auth ::
  "schema \<Rightarrow> services \<Rightarrow> crypto \<Rightarrow> sync_args \<Rightarrow> string \<Rightarrow> bool \<Rightarrow> web_request \<Rightarrow> token_info option
   \<Rightarrow> web_app \<Rightarrow> web_session \<Rightarrow> answer \<times> web_app \<times> web_session" where
  "require_auth S sv cr sy now session_only rq cached A s =
     (case auth_required S sv cr sy now session_only rq cached A s of
        (Inl e, A1, s1) \<Rightarrow> (Raised e, A1, s1)
      | (Inr (req, cached'), A1, s1) \<Rightarrow>
          (if \<not> req then Served
           else if session_only \<and> (cached' \<noteq> None \<or> bearer rq \<noteq> None) then Session_Only
           else if py_startswith (rq_path rq) ''/api/'' then Unauthorized
           else To_Login,
           A1, s1))"

text \<open>A request to a protected route: the hook, then the decorator.\<close>

definition protected_request ::
  "schema \<Rightarrow> services \<Rightarrow> crypto \<Rightarrow> sync_args \<Rightarrow> string \<Rightarrow> bool \<Rightarrow> web_request \<Rightarrow> web_app \<Rightarrow> web_session
   \<Rightarrow> answer \<times> web_app \<times> web_session" where
  "protected_request S sv cr sy now session_only rq A s =
     (case restrict_metrics_tokens cr now rq A of
        (Some refusal, _, A1) \<Rightarrow> (refusal, A1, s)
      | (None, cached, A1) \<Rightarrow> require_auth S sv cr sy now session_only rq cached A1 s)"

section \<open>Login\<close>

definition get_login_csrf_token :: "string \<Rightarrow> web_session \<Rightarrow> string \<times> web_session" where
  "get_login_csrf_token fresh s =
     (if login_csrf_token s = [] then (fresh, s\<lparr>login_csrf_token := fresh\<rparr>) else (login_csrf_token s, s))"

definition valid_login_csrf_token :: "web_session \<Rightarrow> string \<Rightarrow> bool" where
  "valid_login_csrf_token s candidate \<longleftrightarrow>
     login_csrf_token s \<noteq> [] \<and> candidate \<noteq> [] \<and> login_csrf_token s = candidate"

datatype login_outcome = Login_Failed int | Login_Rate_Limited | Logged_In

text \<open>The check of the password, and the upgrade of one stored in clear to its hash.\<close>

definition check_login_password ::
  "schema \<Rightarrow> services \<Rightarrow> crypto \<Rightarrow> disk_write \<Rightarrow> bool \<Rightarrow> string \<Rightarrow> string \<Rightarrow> web_app \<Rightarrow> (bool \<times> string) res \<times> web_app" where
  "check_login_password S sv cr w w2 stored pw A =
     (if is_hash stored then (map_sum id (\<lambda>b. (b, stored)) (check_password cr stored pw), A)
      else if secret_values_match pw stored \<and> (getenv sv ''ADMIN_PASSWORD'' = None \<or> getenv sv ''ADMIN_PASSWORD'' = Some [])
      then (case save S sv w [(''admin_password'', JStr pw)] (app_config A) of
              (Inl e, c) \<Rightarrow> (Inl e, A\<lparr>app_config := c\<rparr>)
            | (Inr _, c) \<Rightarrow>
                let A1 = A\<lparr>app_config := c\<rparr> in
                (case admin_password S sv A1 of
                   Inl e \<Rightarrow> (Inl e, A1)
                 | Inr stored' \<Rightarrow> and_then (write_auth_state S sv cr w2 A1) (\<lambda>A2. (Inr (True, stored'), A2))))
      else (Inr (secret_values_match pw stored, stored), A))"

definition finish_login ::
  "schema \<Rightarrow> services \<Rightarrow> crypto \<Rightarrow> disk_write \<Rightarrow> bool \<Rightarrow> rat \<Rightarrow> string \<Rightarrow> string \<Rightarrow> web_app \<Rightarrow> web_session
   \<Rightarrow> login_outcome res \<times> web_app \<times> web_session" where
  "finish_login S sv cr w w2 now ip pw A s =
     (case admin_password S sv A of
        Inl e \<Rightarrow> (Inl e, A, s)
      | Inr stored \<Rightarrow>
          (case check_login_password S sv cr w w2 stored pw A of
             (Inl e, A') \<Rightarrow> (Inl e, A', s)
           | (Inr (success, stored'), A') \<Rightarrow>
               if success
               then (Inr Logged_In, A'\<lparr>app_limiter := reset_login ip (app_limiter A')\<rparr>,
                     \<lparr>authenticated = True, auth_marker = admin_session_marker cr (active_key A') stored',
                      login_csrf_token = [], permanent = True\<rparr>)
               else (Inr (Login_Failed 200), A'\<lparr>app_limiter := record_login_failure now ip (app_limiter A')\<rparr>, s)))"

definition client_ip :: "web_request \<Rightarrow> string" where
  "client_ip rq = (if rq_ip rq = [] then ''unknown'' else rq_ip rq)"

definition authenticate_login ::
  "schema \<Rightarrow> services \<Rightarrow> crypto \<Rightarrow> disk_write \<Rightarrow> bool \<Rightarrow> rat \<Rightarrow> web_request \<Rightarrow> web_app \<Rightarrow> web_session
   \<Rightarrow> login_outcome res \<times> web_app \<times> web_session" where
  "authenticate_login S sv cr w w2 now rq A s =
     (let ip = client_ip rq in
      if \<not> valid_login_csrf_token s (rq_csrf rq)
      then (Inr (Login_Failed 400), A\<lparr>app_limiter := record_login_failure now ip (app_limiter A)\<rparr>, s)
      else case retry_after now ip (app_limiter A) of (wait, l) \<Rightarrow>
        let A1 = A\<lparr>app_limiter := l\<rparr> in
        if 0 < wait then (Inr Login_Rate_Limited, A1, s)
        else finish_login S sv cr w w2 now ip (rq_password rq) A1 s)"

definition logout :: "web_session \<Rightarrow> web_session" where
  "logout s = cleared"

datatype login_reply = To_Index | Login_Form int | Page_Error py_error

text \<open>The page of \<^verbatim>\<open>app/web.py\<close>; its status, and the error it shows, follow from the outcome.\<close>

definition login_page ::
  "schema \<Rightarrow> services \<Rightarrow> crypto \<Rightarrow> sync_args \<Rightarrow> disk_write \<Rightarrow> bool \<Rightarrow> rat \<Rightarrow> string \<Rightarrow> bool \<Rightarrow> web_request
   \<Rightarrow> web_app \<Rightarrow> web_session \<Rightarrow> login_reply \<times> web_app \<times> web_session" where
  "login_page S sv cr sy w w2 now fresh_token post rq A s =
     (case sync_auth_state S sv cr (sy_key sy) (sy_key_written sy) (sy_state_written sy) A of
        (Inl e, A1) \<Rightarrow> (Page_Error e, A1, s)
      | (Inr _, A1) \<Rightarrow>
          (case admin_password S sv A1 of
             Inl e \<Rightarrow> (Page_Error e, A1, s)
           | Inr pw \<Rightarrow>
               if pw = [] then (To_Index, A1, s)
               else let s1 = snd (get_login_csrf_token fresh_token s) in
                 if \<not> post then (Login_Form 200, A1, s1)
                 else (case authenticate_login S sv cr w w2 now rq A1 s1 of
                         (Inl e, A2, s2) \<Rightarrow> (Page_Error e, A2, s2)
                       | (Inr Logged_In, A2, s2) \<Rightarrow> (To_Index, A2, s2)
                       | (Inr Login_Rate_Limited, A2, s2) \<Rightarrow> (Login_Form 200, A2, s2)
                       | (Inr (Login_Failed status), A2, s2) \<Rightarrow> (Login_Form status, A2, s2))))"

section \<open>The durable fingerprint\<close>

definition hex_mac :: "crypto \<Rightarrow> bool" where
  "hex_mac cr \<longleftrightarrow> (\<forall>k m. length (mac cr k m) = 64 \<and> list_all hex_digit (mac cr k m))"

lemma hex_digit_plain: "hex_digit c \<Longrightarrow> c < CHR 0x80 \<and> \<not> py_space c"
  by (auto simp: hex_digit_def py_space_def less_char_def)

lemma read_written:
  assumes "length v = 64" "list_all hex_digit v"
  shows "read_fingerprint (Some v) = Some v"
proof -
  have c: "\<And>c. c \<in> set v \<Longrightarrow> c < CHR 0x80 \<and> \<not> py_space c"
    using assms(2) hex_digit_plain by (auto simp: list_all_iff)
  have strip: "dropWhile py_space xs = xs" if "\<And>c. c \<in> set xs \<Longrightarrow> \<not> py_space c" for xs
    using that by (cases xs) auto
  have "dropWhile py_space (rev v) = rev v" "dropWhile py_space v = v" by (rule strip; use c in simp)+
  then have "py_strip v = v" by (simp add: py_strip_def)
  with assms c show ?thesis by (simp add: read_fingerprint_def list_all_iff)
qed

lemma read_mac: "hex_mac cr \<Longrightarrow> read_fingerprint (Some (mac cr k m)) = Some (mac cr k m)"
  by (rule read_written) (simp_all add: hex_mac_def)

lemma mac_nonempty: "hex_mac cr \<Longrightarrow> mac cr k m \<noteq> []"
  by (metis hex_mac_def list.size(3) zero_neq_numeral)

lemma admin_password_frame: "app_config A = app_config B \<Longrightarrow> admin_password S sv A = admin_password S sv B"
  by (simp add: admin_password_def)

definition synced :: "schema \<Rightarrow> services \<Rightarrow> crypto \<Rightarrow> web_app \<Rightarrow> bool" where
  "synced S sv cr A \<longleftrightarrow> (case admin_password S sv A of Inl e \<Rightarrow> False
     | Inr pw \<Rightarrow> read_fingerprint (fingerprint_file A) = Some (auth_state_fingerprint cr (active_key A) pw))"

definition rebound :: "crypto \<Rightarrow> string \<Rightarrow> string \<Rightarrow> web_app \<Rightarrow> web_app" where
  "rebound cr key pw A =
     A\<lparr>key_file := Some key, active_key := key, fingerprint_file := Some (auth_state_fingerprint cr key pw)\<rparr>"

lemma synced_frame:
  "\<lbrakk>app_config A = app_config B; fingerprint_file A = fingerprint_file B; active_key A = active_key B\<rbrakk>
   \<Longrightarrow> synced S sv cr A \<longleftrightarrow> synced S sv cr B"
  by (cases "admin_password S sv B") (simp_all add: synced_def admin_password_frame [of A B])

lemma sync_synced: "synced S sv cr A \<Longrightarrow> sync_auth_state S sv cr fresh w1 w2 A = (Inr (), A)"
  by (auto simp: synced_def sync_auth_state_def split: sum.splits)

lemma sync_unsynced:
  assumes "\<not> synced S sv cr A" and "sync_auth_state S sv cr fresh w1 w2 A = (Inr (), A')"
  shows "\<exists>pw. admin_password S sv A = Inr pw \<and> A' = rebound cr fresh pw A"
proof -
  from assms obtain pw where pw: "admin_password S sv A = Inr pw"
    "read_fingerprint (fingerprint_file A) \<noteq> Some (auth_state_fingerprint cr (active_key A) pw)"
    by (auto simp: synced_def sync_auth_state_def split: sum.splits if_splits)
  moreover have "admin_password S sv (A\<lparr>key_file := Some fresh, active_key := fresh\<rparr>) = Inr pw"
    using pw(1) by (simp add: admin_password_def)
  ultimately show ?thesis using assms(2)
    by (auto simp: sync_auth_state_def rotate_and_rebind_def rotate_session_key_def and_then_def write_auth_state_def
        rebound_def split: if_splits)
qed

lemma sync_succeeds:
  assumes "admin_password S sv A = Inr pw"
  shows "\<exists>A'. sync_auth_state S sv cr fresh True True A = (Inr (), A')"
proof -
  have "admin_password S sv (A\<lparr>key_file := Some fresh, active_key := fresh\<rparr>) = Inr pw"
    using assms by (simp add: admin_password_def)
  with assms show ?thesis
    by (simp add: sync_auth_state_def rotate_and_rebind_def rotate_session_key_def and_then_def write_auth_state_def)
qed

lemma rebound_synced: "hex_mac cr \<Longrightarrow> admin_password S sv A = Inr pw \<Longrightarrow> synced S sv cr (rebound cr key pw A)"
  by (simp add: synced_def rebound_def read_mac auth_state_fingerprint_def admin_password_def)

text \<open>
  The signing key follows the password: after a successful synchronisation the durable
  fingerprint is that of the active key and the effective password, the key is rotated exactly when
  it was not, and a further synchronisation changes nothing, so nobody is logged out twice.
\<close>

theorem sync_rebinds:
  assumes "hex_mac cr" and "sync_auth_state S sv cr fresh w1 w2 A = (Inr (), A')"
  shows "synced S sv cr A' \<and> sync_auth_state S sv cr fresh' w1' w2' A' = (Inr (), A')
    \<and> active_key A' = (if synced S sv cr A then active_key A else fresh)
    \<and> app_config A' = app_config A \<and> app_tokens A' = app_tokens A \<and> app_limiter A' = app_limiter A"
proof (cases "synced S sv cr A")
  case True
  with sync_synced [OF True] assms(2) show ?thesis by (simp add: sync_synced)
next
  case False
  from sync_unsynced [OF False assms(2)] obtain pw where "admin_password S sv A = Inr pw" "A' = rebound cr fresh pw A" by blast
  with rebound_synced [OF assms(1)] sync_synced False show ?thesis by (simp add: rebound_def)
qed

section \<open>Sessions and the password\<close>

text \<open>
  C14. Changing the password ends every session: when the configuration, by whatever way, holds another
  password than the one the sessions were bound to, the next protected request rotates the signing
  key, clears the session it came with and is refused.  (The request carries no bearer token, or the route
  is for sessions only; the key and the fingerprint can be written; and of the keyed hash only that it
  separates the two passwords, and the new marker from the old, is used.)
\<close>

theorem password_change_ends_sessions:
  assumes "hex_mac cr" and old: "admin_password S sv A = Inr pw" "synced S sv cr A"
    and new: "admin_password S sv (A\<lparr>app_config := c\<rparr>) = Inr pw'" "pw' \<noteq> []"
    and sep: "auth_state_fingerprint cr (active_key A) pw \<noteq> auth_state_fingerprint cr (active_key A) pw'"
      "admin_session_marker cr (sy_key sy) pw' \<noteq> auth_marker s"
    and "sy_key_written sy" "sy_state_written sy" and "session_only \<or> bearer rq = None"
  shows "\<exists>A' s'. auth_required S sv cr sy now session_only rq cached (A\<lparr>app_config := c\<rparr>) s = (Inr (True, cached), A', s')
    \<and> \<not> authenticated s' \<and> active_key A' = sy_key sy \<and> key_file A' = Some (sy_key sy) \<and> synced S sv cr A'"
proof -
  define B where "B = A\<lparr>app_config := c\<rparr>"
  have "\<not> synced S sv cr B" using old sep(1) new(1) by (simp add: synced_def B_def)
  then have s1: "sync_auth_state S sv cr (sy_key sy) True True B = (Inr (), rebound cr (sy_key sy) pw' B)"
    using new(1) unfolding B_def [symmetric]
    by (auto simp: synced_def sync_auth_state_def rotate_and_rebind_def rotate_session_key_def and_then_def
        write_auth_state_def rebound_def admin_password_def split: sum.splits)
  define A' where "A' = rebound cr (sy_key sy) pw' B"
  have pw: "admin_password S sv A' = Inr pw'" using new(1) by (simp add: A'_def rebound_def B_def admin_password_def)
  have "session_is_valid S sv cr A' s = Inr (False, if authenticated s then cleared else s)"
    using sep(2) unfolding session_is_valid_def pw res_bind_simps
    by (auto simp: A'_def rebound_def secret_values_match_def Let_def)
  moreover have "token_required cr now session_only rq cached A' = (True, cached, A')"
    using assms(10) by (auto simp: token_required_def)
  ultimately have "auth_required S sv cr sy now session_only rq cached B s =
      (Inr (True, cached), A', if authenticated s then cleared else s)"
    using s1 pw new(2) assms(8,9) by (simp add: auth_required_def A'_def [symmetric])
  moreover have "synced S sv cr A'" using rebound_synced [OF assms(1)] new(1) by (simp add: A'_def B_def)
  ultimately show ?thesis unfolding B_def [symmetric]
    by (auto simp: A'_def rebound_def cleared_def)
qed

section \<open>A login, and what follows\<close>

lemma write_auth_state_synced:
  assumes "hex_mac cr" "write_auth_state S sv cr w A = (Inr (), A')"
  shows "synced S sv cr A' \<and> app_config A' = app_config A \<and> active_key A' = active_key A \<and> key_file A' = key_file A"
proof -
  from assms(2) obtain pw where pw: "admin_password S sv A = Inr pw"
    and A': "A' = A\<lparr>fingerprint_file := Some (auth_state_fingerprint cr (active_key A) pw)\<rparr>"
    by (auto simp: write_auth_state_def split: sum.splits if_splits)
  have "admin_password S sv A' = Inr pw" using pw A' by (simp add: admin_password_def)
  with assms(1) show ?thesis by (simp add: synced_def A' auth_state_fingerprint_def read_mac)
qed

text \<open>What a password check that succeeds leaves: the same key, still bound to the effective password.\<close>

lemma checked_password:
  assumes "hex_mac cr" "synced S sv cr A" "admin_password S sv A = Inr stored"
    and "check_login_password S sv cr w w2 stored pw A = (Inr (True, stored'), A')"
  shows "admin_password S sv A' = Inr stored' \<and> synced S sv cr A' \<and> active_key A' = active_key A \<and> key_file A' = key_file A"
proof -
  from assms(4) consider "A' = A" "stored' = stored"
    | c A1 where "A1 = A\<lparr>app_config := c\<rparr>" "admin_password S sv A1 = Inr stored'"
      "write_auth_state S sv cr w2 A1 = (Inr (), A')"
    by (auto simp: check_login_password_def and_then_def Let_def map_sum_Inr_iff split: if_splits sum.splits prod.splits)
  then show ?thesis
  proof cases
    case 1
    with assms(2,3) show ?thesis by simp
  next
    case (2 c A1)
    from write_auth_state_synced [OF assms(1) 2(3)] 2(1,2) show ?thesis
      by (simp add: admin_password_frame [of A' A1])
  qed
qed

lemma finish_success:
  assumes "finish_login S sv cr w w2 now ip pw A s = (Inr Logged_In, A', s')"
  obtains stored stored' A2 where "admin_password S sv A = Inr stored"
    "check_login_password S sv cr w w2 stored pw A = (Inr (True, stored'), A2)"
    "A' = A2\<lparr>app_limiter := reset_login ip (app_limiter A2)\<rparr>"
    "s' = \<lparr>authenticated = True, auth_marker = admin_session_marker cr (active_key A2) stored',
             login_csrf_token = [], permanent = True\<rparr>"
  using assms by (auto simp: finish_login_def split: if_splits prod.splits sum.splits)

lemma login_finishes:
  assumes "authenticate_login S sv cr w w2 now rq A s = (Inr Logged_In, A', s')"
  obtains l where "finish_login S sv cr w w2 now (client_ip rq) (rq_password rq) (A\<lparr>app_limiter := l\<rparr>) s = (Inr Logged_In, A', s')"
  using assms by (auto simp: authenticate_login_def Let_def split: if_splits prod.splits)

lemma login_success:
  assumes "hex_mac cr" "synced S sv cr A" "authenticate_login S sv cr w w2 now rq A s = (Inr Logged_In, A', s')"
  shows "\<exists>pw. admin_password S sv A' = Inr pw \<and> synced S sv cr A' \<and> active_key A' = active_key A \<and> key_file A' = key_file A
    \<and> s' = \<lparr>authenticated = True, auth_marker = admin_session_marker cr (active_key A') pw,
             login_csrf_token = [], permanent = True\<rparr>"
proof -
  from login_finishes [OF assms(3)] obtain l where
    "finish_login S sv cr w w2 now (client_ip rq) (rq_password rq) (A\<lparr>app_limiter := l\<rparr>) s = (Inr Logged_In, A', s')" .
  then obtain stored stored' A2 where a: "admin_password S sv (A\<lparr>app_limiter := l\<rparr>) = Inr stored"
    "check_login_password S sv cr w w2 stored (rq_password rq) (A\<lparr>app_limiter := l\<rparr>) = (Inr (True, stored'), A2)"
    "A' = A2\<lparr>app_limiter := reset_login (client_ip rq) (app_limiter A2)\<rparr>"
    "s' = \<lparr>authenticated = True, auth_marker = admin_session_marker cr (active_key A2) stored',
             login_csrf_token = [], permanent = True\<rparr>" by (rule finish_success)
  have "synced S sv cr (A\<lparr>app_limiter := l\<rparr>)"
    using assms(2) synced_frame [of "A\<lparr>app_limiter := l\<rparr>" A S sv cr] by simp
  from checked_password [OF assms(1) this a(1,2)] show ?thesis
    using a(3,4) synced_frame [of A' A2 S sv cr] admin_password_frame [of A' A2 S sv] by simp
qed

text \<open>
  C26. A login holds: the session a successful login hands out, also one that replaced a password stored
  in clear by its hash, opens every protected route at the next request, without a rotation of the
  signing key, for as long as the state is the one the login left.  (The login starts from files in step
  with the password, as its page leaves them; the next request carries no bearer token.)
\<close>

theorem login_opens:
  assumes "hex_mac cr" "synced S sv cr A"
    and "authenticate_login S sv cr w w2 now rq A s = (Inr Logged_In, A', s')" and "bearer rq' = None"
  shows "protected_request S sv cr sy later session_only rq' A' s' = (Served, A', s') \<and> active_key A' = active_key A"
proof -
  from login_success [OF assms(1-3)] obtain pw where pw: "admin_password S sv A' = Inr pw" and sy: "synced S sv cr A'"
    and key: "active_key A' = active_key A" and s': "s' = \<lparr>authenticated = True,
        auth_marker = admin_session_marker cr (active_key A') pw, login_csrf_token = [], permanent = True\<rparr>" by blast
  have valid: "session_is_valid S sv cr A' s' = Inr (True, s')" if "pw \<noteq> []"
    using that mac_nonempty [OF assms(1)] unfolding session_is_valid_def pw res_bind_simps
    by (simp add: s' secret_values_match_def admin_session_marker_def)
  have "restrict_metrics_tokens cr later rq' A' = (None, None, A')" using assms(4) by (simp add: restrict_metrics_tokens_def)
  then show ?thesis using valid key
    by (simp add: protected_request_def require_auth_def auth_required_def sync_synced [OF sy] pw)
qed

section \<open>Failures and the lockout\<close>

definition fails :: "schema \<Rightarrow> services \<Rightarrow> crypto \<Rightarrow> web_app \<Rightarrow> web_session \<Rightarrow> web_request \<Rightarrow> bool" where
  "fails S sv cr A s rq \<longleftrightarrow> \<not> valid_login_csrf_token s (rq_csrf rq)
     \<or> (case admin_password S sv A of Inl e \<Rightarrow> False | Inr stored \<Rightarrow>
          if is_hash stored then check_password cr stored (rq_password rq) = Inr False
          else rq_password rq \<noteq> stored)"

text \<open>Login attempts one after the other, each with its reading of the clock and the session the last one left.\<close>

fun login_all ::
  "schema \<Rightarrow> services \<Rightarrow> crypto \<Rightarrow> disk_write \<Rightarrow> bool \<Rightarrow> (rat \<times> web_request) list \<Rightarrow> web_app \<Rightarrow> web_session
   \<Rightarrow> web_app \<times> web_session" where
  "login_all S sv cr w w2 [] A s = (A, s)"
| "login_all S sv cr w w2 ((now, rq) # rqs) A s =
     (case authenticate_login S sv cr w w2 now rq A s of (_, A', s') \<Rightarrow> login_all S sv cr w w2 rqs A' s')"

lemma failed_check:
  assumes "fails S sv cr A s rq" "valid_login_csrf_token s (rq_csrf rq)"
  shows "finish_login S sv cr w w2 now ip (rq_password rq) A s =
    (Inr (Login_Failed 200), A\<lparr>app_limiter := record_login_failure now ip (app_limiter A)\<rparr>, s)"
proof -
  from assms obtain stored where st: "admin_password S sv A = Inr stored"
    "if is_hash stored then check_password cr stored (rq_password rq) = Inr False else rq_password rq \<noteq> stored"
    by (auto simp: fails_def split: sum.splits)
  then have "check_login_password S sv cr w w2 stored (rq_password rq) A = (Inr (False, stored), A)"
    by (auto simp: check_login_password_def secret_values_match_def split: if_splits)
  with st(1) show ?thesis by (simp add: finish_login_def)
qed

lemma fails_frame: "fails S sv cr (A\<lparr>app_limiter := l\<rparr>) s rq = fails S sv cr A s rq"
  by (simp add: fails_def admin_password_def)

lemma failed_attempt:
  assumes "fails S sv cr A s rq" "tracks_ip (client_ip rq) xs (app_limiter A)" "all_recent now xs" "length xs < 5"
  shows "\<exists>status l. authenticate_login S sv cr w w2 now rq A s = (Inr (Login_Failed status), A\<lparr>app_limiter := l\<rparr>, s)
    \<and> tracks_ip (client_ip rq) (xs @ [now]) l"
proof (cases "valid_login_csrf_token s (rq_csrf rq)")
  case True
  define p where "p = prune_locked now (app_limiter A)"
  have wait: "retry_after now (client_ip rq) (app_limiter A) = (0, p)"
    using retry_tracked [OF assms(2,3)] assms(4) by (simp add: p_def)
  have tr: "tracks_ip (client_ip rq) (xs @ [now]) (record_login_failure now (client_ip rq) p)"
    unfolding p_def by (rule tracks_ip_failure [OF tracks_ip_prune [OF assms(2,3)] assms(3)])
  have "finish_login S sv cr w w2 now (client_ip rq) (rq_password rq) (A\<lparr>app_limiter := p\<rparr>) s =
      (Inr (Login_Failed 200), A\<lparr>app_limiter := record_login_failure now (client_ip rq) p\<rparr>, s)"
    using failed_check [of S sv cr "A\<lparr>app_limiter := p\<rparr>" s rq] assms(1) True by (simp add: fails_frame)
  with True wait have "authenticate_login S sv cr w w2 now rq A s =
      (Inr (Login_Failed 200), A\<lparr>app_limiter := record_login_failure now (client_ip rq) p\<rparr>, s)"
    by (simp add: authenticate_login_def)
  with tr show ?thesis by blast
next
  case False
  with tracks_ip_failure [OF assms(2,3)] show ?thesis by (simp add: authenticate_login_def Let_def) blast
qed

lemma failed_attempts:
  assumes "list_all (\<lambda>(now, rq). fails S sv cr A s rq \<and> client_ip rq = ip \<and> first \<le> now \<and> now \<le> first + 870) tries"
    and "tracks_ip ip xs (app_limiter A)" "list_all (\<lambda>x. first \<le> x) xs" "length xs + length tries \<le> 5"
  shows "\<exists>l. login_all S sv cr w w2 tries A s = (A\<lparr>app_limiter := l\<rparr>, s) \<and> tracks_ip ip (xs @ map fst tries) l"
  using assms
proof (induction tries arbitrary: A xs)
  case Nil
  have "A\<lparr>app_limiter := app_limiter A\<rparr> = A" by simp
  with Nil show ?case by (metis append_Nil2 list.map(1) login_all.simps(1))
next
  case (Cons t tries)
  obtain now rq where t: "t = (now, rq)" by fastforce
  have rq: "fails S sv cr A s rq" "client_ip rq = ip" "first \<le> now" "now \<le> first + 870"
    using Cons.prems(1) by (simp_all add: t)
  have "all_recent now xs" using Cons.prems(3) rq(4) by (auto simp: all_recent_def list_all_iff)
  then obtain status l where l: "authenticate_login S sv cr w w2 now rq A s = (Inr (Login_Failed status), A\<lparr>app_limiter := l\<rparr>, s)"
      "tracks_ip ip (xs @ [now]) l"
    using failed_attempt [of S sv cr A s rq xs now w w2] rq(1,2) Cons.prems(2,4) by auto
  have "\<exists>l'. login_all S sv cr w w2 tries (A\<lparr>app_limiter := l\<rparr>) s = (A\<lparr>app_limiter := l\<rparr>\<lparr>app_limiter := l'\<rparr>, s)
      \<and> tracks_ip ip ((xs @ [now]) @ map fst tries) l'"
    using Cons.prems l(2) rq(3) by (intro Cons.IH) (auto simp: fails_frame)
  then show ?case by (simp add: t l(1))
qed

text \<open>
  C30. Five failures lock the address.  The limiter has its default settings, room for the address and no
  failure of it on record; then five login attempts of that address arrive, each at its own
  time within 870 seconds of a first instant, each with a wrong password or a form token that is not
  the session's, and no other request in between.  Whatever password the address sends in the
  twenty-nine seconds after the last of them (if no later than that the clock was set), the right one
  included, it is refused, and neither the five attempts nor the refused one change anything but the
  limiter: not the configuration, not the keys, not the tokens, not the session.
\<close>

theorem five_failures_lock:
  assumes "list_all (\<lambda>(now, rq). fails S sv cr A s rq \<and> client_ip rq = ip \<and> first \<le> now \<and> now \<le> first + 870) tries"
    and "length tries = 5" "tracks_ip ip [] (app_limiter A)"
    and "t - fst (last tries) \<le> 29" "client_ip rq = ip" "valid_login_csrf_token s (rq_csrf rq)"
  shows "\<exists>l l'. login_all S sv cr w w2 tries A s = (A\<lparr>app_limiter := l\<rparr>, s)
    \<and> authenticate_login S sv cr w w2 t rq (A\<lparr>app_limiter := l\<rparr>) s = (Inr Login_Rate_Limited, A\<lparr>app_limiter := l'\<rparr>, s)"
proof -
  obtain l where l: "login_all S sv cr w w2 tries A s = (A\<lparr>app_limiter := l\<rparr>, s)" "tracks_ip ip (map fst tries) l"
    using failed_attempts [OF assms(1,3)] assms(2) by auto
  have ne: "tries \<noteq> []" using assms(2) by auto
  obtain now rq' where "last tries = (now, rq')" by fastforce
  with last_in_set [OF ne] assms(1) have "fst (last tries) \<le> first + 870" by (fastforce simp: list_all_iff)
  with assms(4) have "t \<le> first + 899" by linarith
  then have "all_recent t (map fst tries)" using assms(1) by (fastforce simp: all_recent_def list_all_iff)
  then have "0 < fst (retry_after t ip l)"
    using fifth_failure_waits [OF l(2)] assms(2,4) ne by (simp add: last_map)
  then show ?thesis using l(1) assms(5,6) by (auto simp: authenticate_login_def Let_def split: prod.split)
qed

section \<open>Bearer tokens on protected routes\<close>

lemma validate_again:
  "fst (validate_api_token check now tok t) = None \<Longrightarrow> validate_api_token check now tok t = (None, t)"
  by (simp add: validate_api_token_def split: option.splits)

lemma sync_keeps_stores:
  assumes "admin_password S sv A = Inr pw" and "synced S sv cr A \<or> w1 \<and> w2"
  shows "\<exists>B. sync_auth_state S sv cr fresh w1 w2 A = (Inr (), B) \<and> admin_password S sv B = Inr pw
    \<and> app_tokens B = app_tokens A \<and> has_storage B = has_storage A"
proof (cases "synced S sv cr A")
  case True
  with sync_synced [OF True] assms(1) show ?thesis by simp
next
  case False
  then obtain B where B: "sync_auth_state S sv cr fresh w1 w2 A = (Inr (), B)"
    using sync_succeeds [OF assms(1), of cr fresh] assms(2) by auto
  with sync_unsynced [OF False] have "B = rebound cr fresh pw A" using assms(1) by fastforce
  with B assms(1) show ?thesis by (simp add: rebound_def admin_password_def)
qed

text \<open>
  C17. A token opens what its scope says, until it is revoked.  In an application with a database and an
  administrator's password, whose authentication files are in step with it or can be written, take
  a request without a session, on a protected route other than the metrics endpoint, that presents the
  plain text handed out at the creation of a token, whatever tokens were created, used or revoked
  since.  With the metrics scope it is refused as a scrape-only token; with the API's scope it is served,
  unless the route is for sessions only, which refuses it as needing one; and once the token is
  revoked it is treated as a request whose token is unknown: refused as unauthorized on an API path, sent
  to the login elsewhere, and told that it needs a session on a route for sessions only.
  (Of the check of token hashes: it accepts the text for its own hash, and for no other row.)
\<close>

theorem token_opens_by_scope:
  assumes tok: "tokens_ok t" "create_api_token hash raw now name scope t = (Inr (i, plain), t1)"
      "check_token cr (hash plain) plain"
      "\<forall>r \<in> set (tk_rows (token_run hash (check_token cr) ops t1)). token_matches (check_token cr) plain r \<longrightarrow> tk_id r = i"
    and app: "app_tokens A = token_run hash (check_token cr) ops t1" "has_storage A"
      "synced S sv cr A \<or> sy_key_written sy \<and> sy_state_written sy"
      "admin_password S sv A = Inr pw" "pw \<noteq> []"
    and rq: "bearer rq = Some plain" "rq_endpoint rq \<noteq> ''metrics_bp.metrics''" "\<not> authenticated s"
  shows "fst (protected_request S sv cr sy later session_only rq A s) =
    (if Revoke i \<in> set ops
     then if session_only then Session_Only else if py_startswith (rq_path rq) ''/api/'' then Unauthorized else To_Login
     else if scope = ''metrics'' then Metrics_Only
     else if session_only then Session_Only else Served)"
proof -
  define t2 where "t2 = token_run hash (check_token cr) ops t1"
  define info where "info = \<lparr>ti_id = i, ti_name = name, ti_prefix = take 8 plain, ti_created = now, ti_scope = scope\<rparr>"
  have v: "fst (validate_api_token (check_token cr) later plain t2) = (if Revoke i \<in> set ops then None else Some info)"
    unfolding t2_def info_def by (rule token_life_run [OF tok])
  have scope: "scope = ''metrics'' \<or> scope = ''api''"
    using tok(2) by (auto simp: create_api_token_def split: if_splits)
  have valid: "session_is_valid S sv cr B s = Inr (False, s)" for B using rq(3) by (simp add: session_is_valid_def)
  have required: "\<exists>B. app_tokens B = u \<and> has_storage B
      \<and> auth_required S sv cr sy later session_only rq cached (A\<lparr>app_tokens := u\<rparr>) s =
      (case token_required cr later session_only rq cached B of (req, c', B) \<Rightarrow> (Inr (req, c'), B, s))" for cached u
  proof -
    have a: "admin_password S sv (A\<lparr>app_tokens := u\<rparr>) = Inr pw" using app(4) by (simp add: admin_password_def)
    have b: "synced S sv cr (A\<lparr>app_tokens := u\<rparr>) \<or> sy_key_written sy \<and> sy_state_written sy"
      using app(3) by (simp add: synced_frame [of "A\<lparr>app_tokens := u\<rparr>" A])
    from sync_keeps_stores [OF a b, of "sy_key sy"] obtain B where "sync_auth_state S sv cr (sy_key sy) (sy_key_written sy) (sy_state_written sy)
        (A\<lparr>app_tokens := u\<rparr>) = (Inr (), B)" "admin_password S sv B = Inr pw" "app_tokens B = u" "has_storage B"
      using app(2) by auto
    then show ?thesis using app(5) by (intro exI [of _ B]) (simp add: auth_required_def valid split: prod.split)
  qed
  show ?thesis
  proof (cases "Revoke i \<in> set ops")
    case True
    with v have n: "validate_api_token (check_token cr) later plain t2 = (None, t2)" by (simp add: validate_again)
    from required [of t2 None] obtain B where B: "app_tokens B = t2" "has_storage B"
      "auth_required S sv cr sy later session_only rq None (A\<lparr>app_tokens := t2\<rparr>) s =
        (case token_required cr later session_only rq None B of (req, c', B) \<Rightarrow> (Inr (req, c'), B, s))" by blast
    from n True app(1,2) rq(1) B show ?thesis
      by (simp add: protected_request_def restrict_metrics_tokens_def require_auth_def token_required_def t2_def [symmetric])
  next
    case False
    with v obtain u where u: "validate_api_token (check_token cr) later plain t2 = (Some info, u)"
      by (metis prod.collapse)
    from required [of u "Some info"] obtain B where B: "app_tokens B = u" "has_storage B"
      "auth_required S sv cr sy later session_only rq (Some info) (A\<lparr>app_tokens := u\<rparr>) s =
        (case token_required cr later session_only rq (Some info) B of (req, c', B) \<Rightarrow> (Inr (req, c'), B, s))" by blast
    from u False app(1,2) rq(1,2) scope B show ?thesis
      by (auto simp: protected_request_def restrict_metrics_tokens_def require_auth_def token_required_def
          t2_def [symmetric] info_def)
  qed
qed

section \<open>The lifetime of a session\<close>

lemma strip_spaces:
  assumes "list_all py_space l" "list_all py_space r" "py_strip x = x"
  shows "py_strip (l @ x @ r) = x"
proof -
  have pre: "dropWhile py_space (ws @ y) = dropWhile py_space y" if "list_all py_space ws" for ws y
    using that by (induction ws) auto
  have r: "dropWhile py_space r = []" using pre [OF assms(2), of "[]"] by simp
  show ?thesis
  proof (cases "dropWhile py_space x = []")
    case True
    have "py_strip x = []" unfolding py_strip_def True by simp
    with assms(3) have "x = []" by simp
    with r show ?thesis by (simp only: py_strip_def pre [OF assms(1)] append_Nil rev.simps dropWhile.simps)
  next
    case False
    then have "dropWhile py_space (x @ r) = dropWhile py_space x @ r" by (induction x) (auto split: if_splits)
    moreover have "list_all py_space (rev r)" using assms(2) by simp
    ultimately have "py_strip (l @ x @ r) = py_strip x" by (simp only: py_strip_def pre [OF assms(1)] rev_append pre)
    with assms(3) show ?thesis by simp
  qed
qed

lemma strip_idem: "py_strip (py_strip s) = py_strip s"
proof -
  define y where "y = dropWhile py_space s"
  have d: "dropWhile py_space (dropWhile py_space z) = dropWhile py_space z" for z by (induction z) auto
  have "dropWhile py_space (rev (dropWhile py_space (rev y))) = rev (dropWhile py_space (rev y))"
  proof (cases "dropWhile py_space (rev y) = []")
    case False
    have "rev y = takeWhile py_space (rev y) @ dropWhile py_space (rev y)" by simp
    then have "y = rev (dropWhile py_space (rev y)) @ rev (takeWhile py_space (rev y))" by (metis rev_append rev_rev_ident)
    with False have "hd (rev (dropWhile py_space (rev y))) = hd y" by (metis hd_append2 rev_is_Nil_conv)
    moreover have "y \<noteq> []" using False by auto
    ultimately have "\<not> py_space (hd (rev (dropWhile py_space (rev y))))" using hd_dropWhile [of py_space s] by (simp add: y_def)
    with False show ?thesis by (cases "rev (dropWhile py_space (rev y))") auto
  next
    case True
    show ?thesis unfolding True by simp
  qed
  then show ?thesis by (simp add: py_strip_def y_def [symmetric] d)
qed

lemma lifetime_read:
  assumes "env ''SESSION_LIFETIME_DAYS'' = Some v"
  shows "session_lifetime_days env = (case parse_int v of None \<Rightarrow> 30 | Some n \<Rightarrow> max 1 (min 365 n))"
proof -
  have "parse_int v = None" if "py_strip v = []" using that by (simp add: parse_int_def unsign_def)
  moreover have "parse_int (py_strip v) = parse_int v" by (simp add: parse_int_def strip_idem)
  ultimately show ?thesis using assms
    by (auto simp: session_lifetime_days_def Let_def SESSION_LIFETIME_DEFAULT_DAYS_def SESSION_LIFETIME_MIN_DAYS_def
        SESSION_LIFETIME_MAX_DAYS_def split: option.split)
qed

lemma group_needs_digit: "digit_group s \<noteq> None \<Longrightarrow> \<exists>c \<in> set s. is_digit c"
  by (induction s rule: digit_group.induct) (auto split: if_splits)

lemma number_needs_digit: "parse_int v \<noteq> None \<Longrightarrow> \<exists>c \<in> set v. is_digit c"
proof -
  assume "parse_int v \<noteq> None"
  then obtain c where c: "c \<in> set (snd (unsign (py_strip v)))" "is_digit c"
    using group_needs_digit by (fastforce simp: parse_int_def split: prod.splits)
  then have "c \<in> set (py_strip v)" by (auto simp: unsign_def split: list.splits if_splits)
  then show ?thesis using c(2) by (auto simp: py_strip_def dest!: set_dropWhileD)
qed

lemma parse_spaced_int:
  assumes "list_all py_space l" "list_all py_space r"
  shows "parse_int (l @ int_str n @ r) = Some n"
proof -
  have sp: "\<not> py_space c" if "is_digit c \<or> c = CHR ''-''" for c
    using that by (auto simp: is_digit_def py_space_def Let_def)
  have d: "list_all is_digit (nat_str m)" "nat_str m \<noteq> []" for m using nat_str_digits by auto
  have ns: "\<forall>c \<in> set (int_str n). \<not> py_space c" using d(1) by (auto simp: int_str_def list_all_iff sp)
  have drop: "dropWhile py_space xs = xs" if "\<forall>c \<in> set xs. \<not> py_space c" for xs using that by (cases xs) auto
  have "dropWhile py_space (int_str n) = int_str n" "dropWhile py_space (rev (int_str n)) = rev (int_str n)"
    by (rule drop; use ns in simp)+
  then have "py_strip (int_str n) = int_str n" by (simp add: py_strip_def)
  from strip_spaces [OF assms this] have st: "py_strip (l @ int_str n @ r) = int_str n" .
  have m: "\<not> is_digit (CHR ''-'')" "\<not> is_digit (CHR ''+'')" by (simp_all add: is_digit_def)
  have "unsign (int_str n) = (n < 0, nat_str (nat \<bar>n\<bar>))"
    using d [of "nat n"] m by (auto simp: int_str_def unsign_def split: list.splits)
  then show ?thesis by (auto simp: parse_int_def st digit_group_digits [OF d] digits_val_nat_str Let_def)
qed

text \<open>
  C35. The lifetime of a session is between a day and a year whatever the environment says; thirty days when
  the variable is not set, when its text has no decimal digit (so when it is empty or blank), and when its
  text is none that Python's int() reads; and the number itself, brought within the bounds, when the text is a
  decimal integer of either sign with any white space around it.  (Texts are of 8-bit characters, and the
  number has at most 4300 digits, the longest Python reads by default.)
\<close>

theorem session_lifetime_bounded:
  "1 \<le> session_lifetime_days env \<and> session_lifetime_days env \<le> 365
    \<and> (env ''SESSION_LIFETIME_DAYS'' = None \<longrightarrow> session_lifetime_days env = 30)
    \<and> (\<forall>v. env ''SESSION_LIFETIME_DAYS'' = Some v \<and> (\<forall>c \<in> set v. \<not> is_digit c) \<longrightarrow> session_lifetime_days env = 30)
    \<and> (\<forall>v. env ''SESSION_LIFETIME_DAYS'' = Some v \<and> parse_int v = None \<longrightarrow> session_lifetime_days env = 30)
    \<and> (\<forall>l n r. env ''SESSION_LIFETIME_DAYS'' = Some (l @ int_str n @ r) \<and> list_all py_space l \<and> list_all py_space r
          \<and> length (nat_str (nat \<bar>n\<bar>)) \<le> 4300 \<longrightarrow> session_lifetime_days env = max 1 (min 365 n))"
proof -
  have "1 \<le> session_lifetime_days env \<and> session_lifetime_days env \<le> 365"
    by (auto simp: session_lifetime_days_def Let_def SESSION_LIFETIME_DEFAULT_DAYS_def SESSION_LIFETIME_MIN_DAYS_def
        SESSION_LIFETIME_MAX_DAYS_def split: sum.split)
  moreover have "session_lifetime_days env = 30" if "env ''SESSION_LIFETIME_DAYS'' = None"
    using that by (simp add: session_lifetime_days_def py_strip_def SESSION_LIFETIME_DEFAULT_DAYS_def)
  moreover have "session_lifetime_days env = 30" if "env ''SESSION_LIFETIME_DAYS'' = Some v" "\<forall>c \<in> set v. \<not> is_digit c" for v
    using lifetime_read [of env v] that(1) number_needs_digit [of v] that(2) by (cases "parse_int v") auto
  ultimately show ?thesis by (simp add: lifetime_read parse_spaced_int)
qed

section \<open>Concrete instances\<close>

definition sample_crypto :: crypto where
  "sample_crypto = \<lparr>mac = (\<lambda>k m. replicate 63 (CHR ''0'') @ [digit_char ((length k + length m) mod 10)]),
     check_password = (\<lambda>h p. Inr (h = ''scrypt:'' @ p)), check_token = (=)\<rparr>"

lemma sample_mac: "mac sample_crypto k m = replicate 63 (CHR ''0'') @ [digit_char ((length k + length m) mod 10)]"
  by (simp add: sample_crypto_def)

lemma sample_hex: "hex_mac sample_crypto"
proof -
  have "list_all (\<lambda>n. hex_digit (digit_char n)) [0..<10]" by code_simp
  then have "n < 10 \<Longrightarrow> hex_digit (digit_char n)" for n by (simp add: list_all_iff)
  moreover have "hex_digit (CHR ''0'')" by (simp add: hex_digit_def)
  ultimately show ?thesis by (simp add: hex_mac_def sample_mac list_all_iff)
qed

definition sample_app :: "string \<Rightarrow> web_app" where
  "sample_app pw = \<lparr>active_key = ''key'', key_file = Some ''key'',
     fingerprint_file = Some (mac sample_crypto ''key'' (AUTH_STATE_CONTEXT @ pw)),
     app_config = \<lparr>file_config = [(''admin_password'', JStr pw)], disk = Missing\<rparr>, app_limiter = init_limiter,
     app_tokens = \<lparr>tk_rows = [], tk_next = 1\<rparr>, has_storage = True\<rparr>"

lemma sample_password:
  "is_hash pw \<Longrightarrow> admin_password sample_schema sample_services (sample_app pw) = Inr pw"
  by (cases pw) (auto simp: admin_password_def sample_get sample_app_def file_value_def hashed_value_def text_of_json_def
      HASH_KEYS_def sample_schema_def initial_schema_def is_hash_def)

lemma sample_synced: "is_hash pw \<Longrightarrow> synced sample_schema sample_services sample_crypto (sample_app pw)"
  unfolding synced_def sample_password
  by (simp add: sample_app_def auth_state_fingerprint_def read_mac [OF sample_hex])

theorem sync_rebinds_witness:
  "active_key (snd (sync_auth_state sample_schema sample_services sample_crypto ''new'' True True
      (sample_app ''scrypt:a'' \<lparr>fingerprint_file := None\<rparr>))) = ''new''
   \<and> synced sample_schema sample_services sample_crypto (snd (sync_auth_state sample_schema sample_services sample_crypto
      ''new'' True True (sample_app ''scrypt:a'' \<lparr>fingerprint_file := None\<rparr>)))"
proof -
  define A where "A = sample_app ''scrypt:a'' \<lparr>fingerprint_file := None\<rparr>"
  have pw: "admin_password sample_schema sample_services A = Inr ''scrypt:a''"
    using sample_password [of "''scrypt:a''"] by (simp add: A_def admin_password_def is_hash_def)
  have no: "\<not> synced sample_schema sample_services sample_crypto A"
    by (simp add: synced_def pw) (simp add: A_def read_fingerprint_def)
  from sync_succeeds [OF pw] obtain A' where
    "sync_auth_state sample_schema sample_services sample_crypto ''new'' True True A = (Inr (), A')" by blast
  from sync_rebinds [OF sample_hex this] this no show ?thesis by (simp add: A_def)
qed

theorem password_change_ends_sessions_witness:
  "\<exists>A' s'. auth_required sample_schema sample_services sample_crypto
      \<lparr>sy_key = ''newer key'', sy_key_written = True, sy_state_written = True\<rparr> ''now'' False
      \<lparr>rq_ip = ''1'', rq_endpoint = ''e'', rq_path = ''/'', rq_authorization = [], rq_csrf = [], rq_password = []\<rparr> None
      (sample_app ''scrypt:a'' \<lparr>app_config := app_config (sample_app ''scrypt:bc'')\<rparr>)
      \<lparr>authenticated = True, auth_marker = admin_session_marker sample_crypto ''key'' ''scrypt:a'',
       login_csrf_token = [], permanent = True\<rparr> = (Inr (True, None), A', s')
    \<and> \<not> authenticated s' \<and> active_key A' = ''newer key'' \<and> key_file A' = Some ''newer key''
    \<and> synced sample_schema sample_services sample_crypto A'"
proof -
  have h: "is_hash ''scrypt:a''" "is_hash ''scrypt:bc''" by (simp_all add: is_hash_def)
  have new: "admin_password sample_schema sample_services
      (sample_app ''scrypt:a'' \<lparr>app_config := app_config (sample_app ''scrypt:bc'')\<rparr>) = Inr ''scrypt:bc''"
    using sample_password [OF h(2)] by (simp add: admin_password_def)
  have sep: "auth_state_fingerprint sample_crypto (active_key (sample_app ''scrypt:a'')) ''scrypt:a''
      \<noteq> auth_state_fingerprint sample_crypto (active_key (sample_app ''scrypt:a'')) ''scrypt:bc''" by code_simp
  show ?thesis
    using password_change_ends_sessions [OF sample_hex sample_password [OF h(1)] sample_synced [OF h(1)] new _ sep,
        where sy = "\<lparr>sy_key = ''newer key'', sy_key_written = True, sy_state_written = True\<rparr>"
        and s = "\<lparr>authenticated = True, auth_marker = admin_session_marker sample_crypto ''key'' ''scrypt:a'',
          login_csrf_token = [], permanent = True\<rparr>" and session_only = False
        and rq = "\<lparr>rq_ip = ''1'', rq_endpoint = ''e'', rq_path = ''/'', rq_authorization = [], rq_csrf = [], rq_password = []\<rparr>"]
    by (simp add: bearer_def admin_session_marker_def sample_mac AUTH_MARKER_CONTEXT_def)
qed

definition clear_app :: web_app where
  "clear_app = sample_app ''gw'' \<lparr>fingerprint_file := Some (mac sample_crypto ''key'' (AUTH_STATE_CONTEXT @ ''w''))\<rparr>"

theorem login_opens_witness:
  "\<exists>A' s'. authenticate_login sample_schema sample_services sample_crypto Stored True 1000
      \<lparr>rq_ip = ''1'', rq_endpoint = ''login'', rq_path = ''/login'', rq_authorization = [], rq_csrf = ''t'', rq_password = ''w''\<rparr>
      clear_app \<lparr>authenticated = False, auth_marker = [], login_csrf_token = ''t'', permanent = False\<rparr> = (Inr Logged_In, A', s')
    \<and> protected_request sample_schema sample_services sample_crypto
      \<lparr>sy_key = ''new'', sy_key_written = True, sy_state_written = True\<rparr> ''now'' True
      \<lparr>rq_ip = ''1'', rq_endpoint = ''e'', rq_path = ''/'', rq_authorization = [], rq_csrf = [], rq_password = []\<rparr> A' s'
      = (Served, A', s')"
proof -
  define r where "r = authenticate_login sample_schema sample_services sample_crypto Stored True 1000
      \<lparr>rq_ip = ''1'', rq_endpoint = ''login'', rq_path = ''/login'', rq_authorization = [], rq_csrf = ''t'', rq_password = ''w''\<rparr>
      clear_app \<lparr>authenticated = False, auth_marker = [], login_csrf_token = ''t'', permanent = False\<rparr>"
  have "fst r = Inr Logged_In" unfolding r_def by code_simp
  then obtain A' s' where r: "r = (Inr Logged_In, A', s')" by (metis prod.collapse)
  have pw: "admin_password sample_schema sample_services clear_app = Inr ''w''" by code_simp
  have sy: "synced sample_schema sample_services sample_crypto clear_app"
    unfolding synced_def pw by (simp add: clear_app_def sample_app_def auth_state_fingerprint_def read_mac [OF sample_hex])
  show ?thesis using login_opens [OF sample_hex sy r [unfolded r_def]] r
    by (auto simp: r_def bearer_def)
qed

theorem session_lifetime_bounded_witness:
  "session_lifetime_days (\<lambda>_. None) = 30 \<and> session_lifetime_days (\<lambda>_. Some '' '') = 30
   \<and> session_lifetime_days (\<lambda>_. Some ''1.5'') = 30 \<and> session_lifetime_days (\<lambda>_. Some ('' '' @ int_str (- 4) @ '' '')) = 1
   \<and> session_lifetime_days (\<lambda>_. Some ([] @ int_str 90 @ '' '')) = 90"
proof -
  have "parse_int ''1.5'' = None" by code_simp
  moreover have "py_space (CHR '' '')" by (simp add: py_space_def)
  moreover have "\<not> is_digit (CHR '' '')" by (simp add: is_digit_def)
  moreover have "length (nat_str (nat \<bar>- 4\<bar>)) \<le> 4300" "length (nat_str (nat \<bar>90\<bar>)) \<le> 4300" by simp_all
  moreover note c = session_lifetime_bounded [THEN conjunct2, THEN conjunct2]
  ultimately show ?thesis
    using c [of "\<lambda>_. None", THEN conjunct1]
      c [of "\<lambda>_. Some '' ''", THEN conjunct2, THEN conjunct1, THEN spec, of "'' ''"]
      c [of "\<lambda>_. Some ''1.5''", THEN conjunct2, THEN conjunct2, THEN conjunct1, THEN spec, of "''1.5''"]
      c [of "\<lambda>_. Some ('' '' @ int_str (- 4) @ '' '')", THEN conjunct2, THEN conjunct2, THEN conjunct2,
        THEN spec, THEN spec, THEN spec, of "'' ''" "- 4" "'' ''"]
      c [of "\<lambda>_. Some ([] @ int_str 90 @ '' '')", THEN conjunct2, THEN conjunct2, THEN conjunct2,
        THEN spec, THEN spec, THEN spec, of "[]" 90 "'' ''"]
    by simp
qed

theorem five_failures_lock_witness:
  "\<exists>l l'. login_all sample_schema sample_services sample_crypto Stored True
      (map (\<lambda>now. (now, \<lparr>rq_ip = ''1'', rq_endpoint = [], rq_path = [], rq_authorization = [], rq_csrf = [], rq_password = ''a''\<rparr>))
        [1000, 1100, 1000, 1750, 1870])
      (sample_app ''scrypt:a'') \<lparr>authenticated = False, auth_marker = [], login_csrf_token = ''t'', permanent = False\<rparr>
    = (sample_app ''scrypt:a'' \<lparr>app_limiter := l\<rparr>,
       \<lparr>authenticated = False, auth_marker = [], login_csrf_token = ''t'', permanent = False\<rparr>)
    \<and> authenticate_login sample_schema sample_services sample_crypto Stored True 1899
      \<lparr>rq_ip = ''1'', rq_endpoint = [], rq_path = [], rq_authorization = [], rq_csrf = ''t'', rq_password = ''a''\<rparr>
      (sample_app ''scrypt:a'' \<lparr>app_limiter := l\<rparr>)
      \<lparr>authenticated = False, auth_marker = [], login_csrf_token = ''t'', permanent = False\<rparr>
    = (Inr Login_Rate_Limited, sample_app ''scrypt:a'' \<lparr>app_limiter := l'\<rparr>,
       \<lparr>authenticated = False, auth_marker = [], login_csrf_token = ''t'', permanent = False\<rparr>)"
  by (rule five_failures_lock [where ip = "''1''" and first = 1000])
    (simp_all add: fails_def valid_login_csrf_token_def sample_app_def list_all_iff client_ip_def tracks_ip_init)

theorem token_opens_by_scope_witness:
  "fst (protected_request sample_schema sample_services sample_crypto
      \<lparr>sy_key = ''new'', sy_key_written = True, sy_state_written = True\<rparr> ''z'' False
      \<lparr>rq_ip = ''1'', rq_endpoint = ''e'', rq_path = ''/api/x'', rq_authorization = ''Bearer dsk_a'', rq_csrf = [], rq_password = []\<rparr>
      (sample_app ''scrypt:a'' \<lparr>app_tokens := token_run id (=) [Revoke 7] \<lparr>tk_rows = [\<lparr>tk_id = 1, tk_name = ''n'', tk_hash = ''dsk_a'',
         tk_prefix = ''dsk_a'', tk_created = ''x'', tk_last_used = None, tk_revoked = False, tk_scope = ''metrics''\<rparr>], tk_next = 2\<rparr>\<rparr>)
      cleared) = Metrics_Only"
proof -
  have c: "create_api_token id ''a'' ''x'' ''n'' ''metrics'' \<lparr>tk_rows = [], tk_next = 1\<rparr> =
    (Inr (1, ''dsk_a''), \<lparr>tk_rows = [\<lparr>tk_id = 1, tk_name = ''n'', tk_hash = ''dsk_a'', tk_prefix = ''dsk_a'', tk_created = ''x'',
         tk_last_used = None, tk_revoked = False, tk_scope = ''metrics''\<rparr>], tk_next = 2\<rparr>)"
    by code_simp
  have ok: "tokens_ok \<lparr>tk_rows = [], tk_next = 1\<rparr>" by code_simp
  have eq: "check_token sample_crypto = (=)" by (simp add: sample_crypto_def)
  have h: "is_hash ''scrypt:a''" by (simp add: is_hash_def)
  define A where "A = sample_app ''scrypt:a'' \<lparr>app_tokens := token_run id (=) [Revoke 7] \<lparr>tk_rows = [\<lparr>tk_id = 1, tk_name = ''n'',
      tk_hash = ''dsk_a'', tk_prefix = ''dsk_a'', tk_created = ''x'', tk_last_used = None, tk_revoked = False,
      tk_scope = ''metrics''\<rparr>], tk_next = 2\<rparr>\<rparr>"
  have sy: "synced sample_schema sample_services sample_crypto A"
    using sample_synced [OF h] synced_frame [of A "sample_app ''scrypt:a''"] by (simp add: A_def)
  have pw: "admin_password sample_schema sample_services A = Inr ''scrypt:a''"
    using sample_password [OF h] admin_password_frame [of A "sample_app ''scrypt:a''"] by (simp add: A_def)
  show ?thesis unfolding A_def [symmetric]
    using token_opens_by_scope [OF ok c, of sample_crypto "[Revoke 7]" A sample_schema sample_services _ "''scrypt:a''"
        "\<lparr>rq_ip = ''1'', rq_endpoint = ''e'', rq_path = ''/api/x'', rq_authorization = ''Bearer dsk_a'', rq_csrf = [], rq_password = []\<rparr>"
        cleared] sy pw
    by (simp add: eq token_run_def revoke_api_token_def revoke_row_def bearer_def cleared_def A_def) (simp add: sample_app_def)
qed

end
