(* ===== verification/Settings_Routes.thy ===== *)
theory Settings_Routes
  imports Web_Auth
begin

text \<open>
  \<^verbatim>\<open>app/blueprints/config_bp.py\<close>: the routes that save the settings, manage the tokens and start the demo
  mode, behind the session check of Web_Auth.  A body is a JSON object; whether a time zone is known,
  \<^verbatim>\<open>str\<close> of a value that is no text and the outcome of the change callback are parameters.  The
  first fetch of a BQM graph, which the settings route may add to its answer, is left out.
\<close>

definition POLL_MIN :: int where "POLL_MIN = 60"
definition POLL_MAX :: int where "POLL_MAX = 14400"

record route_env =
  schema_of :: schema
  services_of :: services
  crypto_of :: crypto
  zone_known :: "json \<Rightarrow> bool"
  str_of :: "json \<Rightarrow> string"

section \<open>Saving the settings\<close>

definition candidate_text :: "route_env \<Rightarrow> json \<Rightarrow> string" where
  "candidate_text E v = (if \<not> j_truthy v then [] else case v of JStr s \<Rightarrow> s | _ \<Rightarrow> str_of E v)"

text \<open>A submitted password that is the mask, or the one in force, is not a change.\<close>

definition keep_password :: "route_env \<Rightarrow> string \<Rightarrow> (string \<times> json) list \<Rightarrow> (string \<times> json) list res" where
  "keep_password E previous data =
     (case map_of data ''admin_password'' of
        None \<Rightarrow> Inr data
      | Some v \<Rightarrow>
          if v = JStr PASSWORD_MASK then Inr (dict_del ''admin_password'' data)
          else map_sum id (\<lambda>same. if same then dict_del ''admin_password'' data else data)
                 (admin_password_matches (crypto_of E) previous (candidate_text E v)))"

definition bad_zone :: "route_env \<Rightarrow> (string \<times> json) list \<Rightarrow> bool" where
  "bad_zone E data \<longleftrightarrow> (case map_of data ''timezone'' of None \<Rightarrow> False | Some v \<Rightarrow> j_truthy v \<and> \<not> zone_known E v)"

definition clamp_poll :: "(string \<times> json) list \<Rightarrow> (string \<times> json) list res" where
  "clamp_poll data =
     (case map_of data ''poll_interval'' of
        None \<Rightarrow> Inr data
      | Some v \<Rightarrow> map_sum id (\<lambda>v'. dict_set ''poll_interval'' v' data)
          (catch_type_value (map_sum id (\<lambda>n. JInt (max POLL_MIN (min POLL_MAX n))) (j_int v)) v))"

text \<open>\<^verbatim>\<open>(url or "").strip()\<close>, of which only the exception matters here.\<close>

definition bqm_text :: "json \<Rightarrow> string res" where
  "bqm_text v = (if j_truthy v then on_str py_strip v else Inr [])"

definition check_bqm :: "route_env \<Rightarrow> web_app \<Rightarrow> (string \<times> json) list \<Rightarrow> unit res" where
  "check_bqm E A data =
     res_bind (config_get (schema_of E) (services_of E) (app_config A) ''bqm_url'' JNull) (\<lambda>v.
     res_bind (bqm_text v) (\<lambda>_.
       case map_of data ''bqm_url'' of None \<Rightarrow> Inr () | Some u \<Rightarrow> map_sum id (\<lambda>_. ()) (bqm_text u)))"

text \<open>What is saved: the body after the steps before the save, or the refusal.\<close>

datatype refusal = Invalid_Zone | Refused py_error

definition settings_to_save :: "route_env \<Rightarrow> string \<Rightarrow> web_app \<Rightarrow> (string \<times> json) list \<Rightarrow> refusal + (string \<times> json) list" where
  "settings_to_save E previous A data =
     (case keep_password E previous data of
        Inl e \<Rightarrow> Inl (Refused e)
      | Inr d1 \<Rightarrow> if bad_zone E d1 then Inl Invalid_Zone
          else (case clamp_poll d1 of
                  Inl e \<Rightarrow> Inl (Refused e)
                | Inr d2 \<Rightarrow> (case check_bqm E A d2 of Inl e \<Rightarrow> Inl (Refused e) | Inr _ \<Rightarrow> Inr d2)))"

definition error_status :: "py_error \<Rightarrow> int" where
  "error_status e = (case e of ValueError _ \<Rightarrow> 400 | _ \<Rightarrow> 500)"

record save_args =
  sa_write :: disk_write
  sa_key :: string
  sa_key_written :: bool
  sa_state_written :: bool
  sa_callback :: "py_error option"

text \<open>After the save: end the sessions when the effective password changed, then the callback.\<close>

definition after_save ::
  "route_env \<Rightarrow> save_args \<Rightarrow> bool \<Rightarrow> string \<Rightarrow> web_app \<Rightarrow> web_session \<Rightarrow> int \<times> web_app \<times> web_session" where
  "after_save E a requested previous A s =
     (case admin_password (schema_of E) (services_of E) A of
        Inl e \<Rightarrow> (error_status e, A, s)
      | Inr effective \<Rightarrow>
          (case (if requested \<and> \<not> secret_values_match previous effective
                 then invalidate_admin_sessions (schema_of E) (services_of E) (crypto_of E) (sa_key a)
                        (sa_key_written a) (sa_state_written a) A s
                 else (Inr (), A, s)) of
             (Inl e, A', s') \<Rightarrow> (error_status e, A', s')
           | (Inr _, A', s') \<Rightarrow> (case sa_callback a of None \<Rightarrow> 200 | Some e \<Rightarrow> error_status e, A', s')))"

definition api_config ::
  "route_env \<Rightarrow> save_args \<Rightarrow> (string \<times> json) list \<Rightarrow> web_app \<Rightarrow> web_session \<Rightarrow> int \<times> web_app \<times> web_session" where
  "api_config E a data A s =
     (if data = [] then (400, A, s)
      else case admin_password (schema_of E) (services_of E) A of
        Inl e \<Rightarrow> (error_status e, A, s)
      | Inr previous \<Rightarrow>
          (case settings_to_save E previous A data of
             Inl Invalid_Zone \<Rightarrow> (400, A, s)
           | Inl (Refused e) \<Rightarrow> (error_status e, A, s)
           | Inr d \<Rightarrow>
               (case save (schema_of E) (services_of E) (sa_write a) d (app_config A) of
                  (Inl e, c) \<Rightarrow> (error_status e, A\<lparr>app_config := c\<rparr>, s)
                | (Inr _, c) \<Rightarrow> after_save E a (map_of data ''admin_password'' \<noteq> None) previous (A\<lparr>app_config := c\<rparr>) s)))"

section \<open>Tokens\<close>

datatype token_answer = Token_Created int string string string | Token_Refused int | Token_Revoked

definition api_tokens_create ::
  "(string \<Rightarrow> string) \<Rightarrow> string \<Rightarrow> string \<Rightarrow> (string \<times> json) list \<Rightarrow> web_app \<Rightarrow> token_answer res \<times> web_app" where
  "api_tokens_create hash raw now data A =
     (if \<not> has_storage A then (Inr (Token_Refused 500), A)
      else case on_str py_strip (dict_get data ''name'' (JStr [])) of
        Inl e \<Rightarrow> (Inl e, A)
      | Inr name \<Rightarrow>
          if name = [] then (Inr (Token_Refused 400), A)
          else let scope = dict_get data ''scope'' (JStr ''metrics'') in
            if scope \<notin> {JStr ''metrics'', JStr ''api''} then (Inr (Token_Refused 400), A)
            else (case create_api_token hash raw now name (text_of_json scope) (app_tokens A) of
                    (Inl e, t) \<Rightarrow> (Inl e, A\<lparr>app_tokens := t\<rparr>)
                  | (Inr (i, plain), t) \<Rightarrow> (Inr (Token_Created i plain name (text_of_json scope)), A\<lparr>app_tokens := t\<rparr>)))"

definition api_tokens_revoke :: "int \<Rightarrow> web_app \<Rightarrow> token_answer \<times> web_app" where
  "api_tokens_revoke i A =
     (if \<not> has_storage A then (Token_Refused 500, A)
      else case revoke_api_token i (app_tokens A) of (revoked, t) \<Rightarrow>
        (if revoked then Token_Revoked else Token_Refused 404, A\<lparr>app_tokens := t\<rparr>))"

section \<open>Starting the demo\<close>

record demo_answer =
  da_status :: int
  da_success :: bool
  da_demo_mode :: bool

text \<open>
  One attempt to save and call back; the two writes and the two callbacks are those of the activation
  and of its roll-back.
\<close>

definition save_and_call :: "route_env \<Rightarrow> disk_write \<Rightarrow> py_error option \<Rightarrow> bool \<Rightarrow> config \<Rightarrow> (bool \<times> unit res) \<times> config" where
  "save_and_call E w callback mode c =
     (case save (schema_of E) (services_of E) w [(''demo_mode'', JBool mode)] c of
        (Inl e, c') \<Rightarrow> ((False, Inl e), c')
      | (Inr _, c') \<Rightarrow> ((True, case callback of None \<Rightarrow> Inr () | Some e \<Rightarrow> Inl e), c'))"

definition demo_mode_of :: "route_env \<Rightarrow> config \<Rightarrow> bool" where
  "demo_mode_of E c = (case is_demo_mode (schema_of E) (services_of E) c of Inr b \<Rightarrow> b | Inl e \<Rightarrow> False)"

definition api_demo_start ::
  "route_env \<Rightarrow> disk_write \<Rightarrow> py_error option \<Rightarrow> disk_write \<Rightarrow> py_error option \<Rightarrow> bool \<Rightarrow> config \<Rightarrow> demo_answer \<times> config" where
  "api_demo_start E w1 cb1 w2 cb2 is_json c =
     (if \<not> is_json then (\<lparr>da_status = 415, da_success = False, da_demo_mode = False\<rparr>, c)
      else if demo_mode_of E c then (\<lparr>da_status = 200, da_success = True, da_demo_mode = True\<rparr>, c)
      else if has_stored_value c ''modem_type'' then (\<lparr>da_status = 409, da_success = False, da_demo_mode = False\<rparr>, c)
      else case save_and_call E w1 cb1 True c of
        ((activated, Inr _), c1) \<Rightarrow> (\<lparr>da_status = 200, da_success = True, da_demo_mode = True\<rparr>, c1)
      | ((activated, Inl e), c1) \<Rightarrow>
          let c2 = (if activated then snd (save_and_call E w2 cb2 False c1) else c1)
          in (\<lparr>da_status = 500, da_success = False, da_demo_mode = demo_mode_of E c2\<rparr>, c2))"

section \<open>What changing the password does\<close>

lemma clamp_poll_password:
  assumes "clamp_poll d = Inr d'"
  shows "map_of d' ''admin_password'' = map_of d ''admin_password'' \<and> (distinct (dict_keys d) \<longrightarrow> distinct (dict_keys d'))"
  using assms by (auto simp: clamp_poll_def map_sum_Inr_iff split: option.splits)

lemma saved_settings:
  assumes "settings_to_save E previous A data = Inr d" "map_of data ''admin_password'' = Some (JStr new)" "new \<noteq> []"
    and "new \<noteq> PASSWORD_MASK" "admin_password_matches (crypto_of E) previous new = Inr same" "distinct (dict_keys data)"
  shows "map_of d ''admin_password'' = (if same then None else Some (JStr new)) \<and> distinct (dict_keys d)"
proof -
  have keep: "keep_password E previous data = Inr (if same then dict_del ''admin_password'' data else data)"
    using assms(2-5) by (simp add: keep_password_def candidate_text_def)
  define d1 where "d1 = (if same then dict_del ''admin_password'' data else data)"
  from assms(1) have "clamp_poll d1 = Inr d"
    unfolding settings_to_save_def keep d1_def [symmetric] by (auto split: if_splits sum.splits)
  from clamp_poll_password [OF this] assms(2,6) show ?thesis by (auto simp: d1_def)
qed

lemma password_key_plain:
  assumes "schema_ok S"
  shows "''admin_password'' \<notin> set (int_keys S)" "''admin_password'' \<notin> set (bool_keys S)"
    "\<not> kept_encrypted S ''admin_password''" "''admin_password'' \<in> set HASH_KEYS"
    "\<not> withheld S demo ''admin_password'' (JStr v) \<longleftrightarrow> v \<noteq> PASSWORD_MASK"
proof -
  have h: "''admin_password'' \<in> set HASH_KEYS" by (simp add: HASH_KEYS_def)
  show "''admin_password'' \<notin> set (int_keys S)" "''admin_password'' \<notin> set (bool_keys S)"
    "\<not> kept_encrypted S ''admin_password''" "''admin_password'' \<in> set HASH_KEYS"
    using schema_okD(1-3) [OF assms, of "''admin_password''"] h by blast+
  then show "\<not> withheld S demo ''admin_password'' (JStr v) \<longleftrightarrow> v \<noteq> PASSWORD_MASK"
    by (auto simp: withheld_def kept_encrypted_def DEMO_HIDE_KEYS_def)
qed

lemma password_after_save:
  assumes ok: "schema_ok S" and s: "save S sv w d c = (Inr (), c')" and "distinct (dict_keys d)"
  shows "map_of d ''admin_password'' = None \<Longrightarrow> map_of (file_config c') ''admin_password'' = map_of (file_config c) ''admin_password''"
    and "map_of d ''admin_password'' = Some (JStr new) \<Longrightarrow> new \<noteq> [] \<Longrightarrow> new \<noteq> PASSWORD_MASK \<Longrightarrow> \<not> is_hash new \<Longrightarrow>
      map_of (file_config c') ''admin_password'' = Some (JStr (hash_password sv new))"
proof -
  note key = password_key_plain [OF ok]
  from save_ok [OF s] prepare_demo obtain demo where demo: "is_demo_mode S sv c = Inr demo" by metis
  note v = saved_value [OF s demo assms(3), of "''admin_password''"]
  show "map_of d ''admin_password'' = None \<Longrightarrow> map_of (file_config c') ''admin_password'' = map_of (file_config c) ''admin_password''"
    using v key by (auto simp: cast_bool_def split: option.splits)
  assume new: "map_of d ''admin_password'' = Some (JStr new)" "new \<noteq> []" "new \<noteq> PASSWORD_MASK" "\<not> is_hash new"
  have h: "hash_entry sv (''admin_password'', JStr new) = Inr (''admin_password'', JStr (hash_password sv new))"
    using new key(4) by (simp add: hash_entry_def)
  have e: "encrypt_entry S sv (''admin_password'', x) = Inr (''admin_password'', x)" for x
    using key(3) by (simp add: encrypt_entry_def)
  show "map_of (file_config c') ''admin_password'' = Some (JStr (hash_password sv new))"
    using v new key(1,2) key(5) [of demo new] by (auto simp: h e cast_bool_def)
qed

lemma password_read:
  assumes "schema_ok (schema_of E)" "\<not> from_env (services_of E) ''admin_password''"
    and "map_of (file_config (app_config A)) ''admin_password'' = Some (JStr h)" "is_hash h"
  shows "admin_password (schema_of E) (services_of E) A = Inr h"
  using assms by (auto simp: admin_password_def config_get_def from_env_def file_value_hash [OF assms(1) password_key_plain(4) [OF assms(1)]]
      hashed_value_def text_of_json_def is_hash_def)

lemma password_read_frame:
  assumes "map_of (file_config c) ''admin_password'' = map_of (file_config c') ''admin_password''"
  shows "admin_password S sv (A\<lparr>app_config := c\<rparr>) = admin_password S sv (B\<lparr>app_config := c'\<rparr>)"
  using assms by (simp add: admin_password_def config_get_def split: option.splits)

lemma changed_password:
  assumes "after_save E a True previous A s = (200, A', s')"
    and "admin_password (schema_of E) (services_of E) A = Inr h" "previous \<noteq> h"
  shows "A' = rebound (crypto_of E) (sa_key a) h A \<and> s' = cleared"
proof -
  have pw: "admin_password (schema_of E) (services_of E) (A\<lparr>key_file := Some k, active_key := k\<rparr>) = Inr h" for k
    using assms(2) by (simp add: admin_password_def)
  show ?thesis using assms
    by (cases "sa_key_written a"; cases "sa_state_written a")
      (simp_all add: after_save_def secret_values_match_def invalidate_admin_sessions_def rotate_and_rebind_def
        rotate_session_key_def and_then_def write_auth_state_def pw rebound_def error_status_def)
qed

text \<open>
  Changing the password in the settings: when the form carries the password already in force nothing
  about keys or sessions changes; when it carries another one, a successful save leaves its hash as the
  password in force, a new signing key bound to it, and the session of the request ended.
\<close>

theorem settings_change_password:
  assumes ok: "schema_ok (schema_of E)" and "hex_mac (crypto_of E)"
    and env: "\<not> from_env (services_of E) ''admin_password''"
    and hsh: "\<And>p. is_hash (hash_password (services_of E) p) \<and> check_password (crypto_of E) (hash_password (services_of E) p) p = Inr True"
    and prev: "admin_password (schema_of E) (services_of E) A = Inr previous"
    and new: "map_of data ''admin_password'' = Some (JStr new)" "new \<noteq> []" "new \<noteq> PASSWORD_MASK" "\<not> is_hash new"
      "distinct (dict_keys data)"
    and same: "admin_password_matches (crypto_of E) previous new = Inr same"
    and run: "api_config E a data A s = (200, A', s')" and "sa_callback a = None"
  shows "if same then active_key A' = active_key A \<and> s' = s
       \<and> admin_password (schema_of E) (services_of E) A' = Inr previous
     else active_key A' = sa_key a \<and> s' = cleared \<and> synced (schema_of E) (services_of E) (crypto_of E) A'
       \<and> admin_password (schema_of E) (services_of E) A' = Inr (hash_password (services_of E) new)"
proof -
  have "data \<noteq> []" using new(1) by auto
  with run prev obtain d c where d: "settings_to_save E previous A data = Inr d"
    and c: "save (schema_of E) (services_of E) (sa_write a) d (app_config A) = (Inr (), c)"
    and after: "after_save E a True previous (A\<lparr>app_config := c\<rparr>) s = (200, A', s')"
    using new(1) by (auto simp: api_config_def error_status_def split: sum.splits refusal.splits prod.splits py_error.splits)
  from saved_settings [OF d new(1-3) same new(5)]
  have dd: "map_of d ''admin_password'' = (if same then None else Some (JStr new))" "distinct (dict_keys d)" by blast+
  note kept = password_after_save [OF ok c dd(2)]
  define B where "B = A\<lparr>app_config := c\<rparr>"
  show ?thesis
  proof (cases same)
    case True
    with dd kept(1) have "admin_password (schema_of E) (services_of E) B = Inr previous"
      using prev password_read_frame [of c "app_config A" "schema_of E" "services_of E" A A] by (simp add: B_def)
    moreover from this after True have "A' = B" "s' = s"
      by (simp_all add: after_save_def secret_values_match_def B_def)
    ultimately show ?thesis using True by (simp add: B_def)
  next
    case False
    define h where "h = hash_password (services_of E) new"
    have pw: "admin_password (schema_of E) (services_of E) B = Inr h"
      using False dd kept(2) new(2-4) hsh by (intro password_read [OF ok env]) (simp_all add: B_def h_def)
    have "previous \<noteq> h"
    proof
      assume "previous = h"
      then have "admin_password_matches (crypto_of E) previous new = Inr True"
        using hsh [of new] by (simp add: admin_password_matches_def h_def)
      with same False show False by simp
    qed
    from changed_password [OF after [folded B_def] pw this]
    have r: "A' = rebound (crypto_of E) (sa_key a) h B" "s' = cleared" by blast+
    have "admin_password (schema_of E) (services_of E) A' = Inr h"
      using pw admin_password_frame [of A' B] by (simp add: r(1) rebound_def)
    with False r rebound_synced [OF assms(2) pw] show ?thesis by (simp add: h_def) (simp add: rebound_def)
  qed
qed

section \<open>What a failed start of the demo leaves\<close>

lemma config_get_frame: "file_config c = file_config c' \<Longrightarrow> config_get S sv c k d = config_get S sv c' k d"
  by (simp add: config_get_def cong: option.case_cong)

lemma demo_after_save:
  assumes ok: "schema_ok S" and bool: "''demo_mode'' \<in> set (bool_keys S)" and env: "\<not> from_env sv ''demo_mode''"
    and s: "save S sv w [(''demo_mode'', JBool b)] c = (Inr (), c')"
  shows "is_demo_mode S sv c' = Inr b"
proof -
  note k = schema_okD(2) [OF ok bool]
  from save_ok [OF s] prepare_demo obtain demo where demo: "is_demo_mode S sv c = Inr demo" by metis
  have "\<not> withheld S demo ''demo_mode'' (JBool b)" using k by (auto simp: withheld_def kept_encrypted_def DEMO_HIDE_KEYS_def)
  with saved_value [OF s demo, of "''demo_mode''"] k have "map_of (file_config c') ''demo_mode'' = Some (JBool b)"
    by (auto simp: hash_entry_def encrypt_entry_def cast_bool_def)
  with env k show ?thesis by (simp add: is_demo_mode_def is_set_def config_get_file file_get_def file_value_plain)
qed

text \<open>
  A start of the demo that fails: when the callback raises and the roll-back is written, the
  instance is out of demo mode again; but when the file cannot be opened for the activation itself,
  nothing is rolled back: the answer reports the failure and, truly, that the demo mode is on, while
  the file still says otherwise.
\<close>

theorem failed_demo_start:
  assumes "schema_ok (schema_of E)" "''demo_mode'' \<in> set (bool_keys (schema_of E))"
    and "\<not> from_env (services_of E) ''demo_mode''" "\<not> demo_mode_of E c" "\<not> has_stored_value c ''modem_type''"
    and on: "save (schema_of E) (services_of E) Stored [(''demo_mode'', JBool True)] c = (Inr (), c1)"
    and off: "save (schema_of E) (services_of E) Stored [(''demo_mode'', JBool False)] c1 = (Inr (), c2)"
  shows "api_demo_start E Stored (Some e) Stored None True c = (\<lparr>da_status = 500, da_success = False, da_demo_mode = False\<rparr>, c2)
    \<and> \<not> demo_mode_of E c2
    \<and> api_demo_start E Not_Opened None Stored None True c
        = (\<lparr>da_status = 500, da_success = False, da_demo_mode = True\<rparr>, c\<lparr>file_config := file_config c1\<rparr>)
    \<and> demo_mode_of E (c\<lparr>file_config := file_config c1\<rparr>)"
proof -
  note demo = demo_after_save [OF assms(1-3)]
  have 1: "demo_mode_of E c1" "\<not> demo_mode_of E c2" using demo [OF on] demo [OF off] by (simp_all add: demo_mode_of_def)
  from save_ok [OF on] obtain d f where p: "prepare (schema_of E) (services_of E) c [(''demo_mode'', JBool True)] = Inr d"
    "cast_ints (int_keys (schema_of E)) (dict_update (file_config c) d) = (None, f)"
    and c1: "c1 = c\<lparr>file_config := cast_bools (schema_of E) f, disk := Holds (cast_bools (schema_of E) f)\<rparr>" .
  have "save (schema_of E) (services_of E) Not_Opened [(''demo_mode'', JBool True)] c = (Inl OSError, c\<lparr>file_config := file_config c1\<rparr>)"
    using refused_save_in_force [OF p] by (simp add: c1)
  moreover have "is_demo_mode (schema_of E) (services_of E) (c\<lparr>file_config := file_config c1\<rparr>) = Inr True"
    using demo [OF on] config_get_frame [of "c\<lparr>file_config := file_config c1\<rparr>" c1] by (simp add: is_demo_mode_def is_set_def)
  ultimately show ?thesis using assms(4,5) on off 1
    by (simp add: api_demo_start_def save_and_call_def demo_mode_of_def)
qed

section \<open>Concrete instances\<close>

definition sample_route_env :: route_env where
  "sample_route_env = \<lparr>schema_of = sample_schema, services_of = sample_services, crypto_of = sample_crypto,
     zone_known = (\<lambda>_. True), str_of = (\<lambda>_. [])\<rparr>"

definition all_written :: save_args where
  "all_written = \<lparr>sa_write = Stored, sa_key = ''new'', sa_key_written = True, sa_state_written = True, sa_callback = None\<rparr>"

lemma sample_no_env: "\<not> from_env sample_services k"
  by (simp add: from_env_def sample_env)

lemma sample_hash: "is_hash (hash_password sample_services p) \<and> check_password sample_crypto (hash_password sample_services p) p = Inr True"
  by (simp add: sample_services_def sample_crypto_def is_hash_def)

definition some_session :: web_session where
  "some_session = \<lparr>authenticated = True, auth_marker = ''m'', login_csrf_token = [], permanent = True\<rparr>"

theorem settings_change_password_witness:
  "active_key (fst (snd (api_config sample_route_env all_written [(''admin_password'', JStr ''b'')] (sample_app ''scrypt:a'') some_session))) = ''new''
   \<and> snd (snd (api_config sample_route_env all_written [(''admin_password'', JStr ''b'')] (sample_app ''scrypt:a'') some_session)) = cleared
   \<and> active_key (fst (snd (api_config sample_route_env all_written [(''admin_password'', JStr ''a'')] (sample_app ''scrypt:a'') some_session))) = ''key''"
proof -
  define r where "r p = api_config sample_route_env all_written [(''admin_password'', JStr p)] (sample_app ''scrypt:a'') some_session" for p
  have "fst (r ''b'') = 200" "fst (r ''a'') = 200" unfolding r_def by code_simp+
  then obtain A s B u where b: "r ''b'' = (200, A, s)" and a: "r ''a'' = (200, B, u)" by (metis prod.collapse)
  have env: "schema_ok (schema_of sample_route_env)" "hex_mac (crypto_of sample_route_env)"
    "\<not> from_env (services_of sample_route_env) ''admin_password''"
    "\<And>p. is_hash (hash_password (services_of sample_route_env) p)
       \<and> check_password (crypto_of sample_route_env) (hash_password (services_of sample_route_env) p) p = Inr True"
    by (simp_all add: sample_route_env_def sample_schema_ok sample_hex sample_no_env sample_hash)
  have pw: "admin_password (schema_of sample_route_env) (services_of sample_route_env) (sample_app ''scrypt:a'') = Inr ''scrypt:a''"
    by (simp add: sample_route_env_def sample_password is_hash_def)
  have m: "admin_password_matches (crypto_of sample_route_env) ''scrypt:a'' ''b'' = Inr False"
    "admin_password_matches (crypto_of sample_route_env) ''scrypt:a'' ''a'' = Inr True"
    by (simp_all add: sample_route_env_def admin_password_matches_def is_hash_def sample_crypto_def)
  have mask: "''a'' \<noteq> PASSWORD_MASK" "''b'' \<noteq> PASSWORD_MASK" by code_simp+
  have "active_key A = ''new'' \<and> s = cleared"
    using settings_change_password [OF env pw _ _ mask(2) _ _ m(1) b [unfolded r_def]]
    by (simp add: is_hash_def all_written_def)
  moreover have "active_key B = ''key''"
    using settings_change_password [OF env pw _ _ mask(1) _ _ m(2) a [unfolded r_def]]
    by (simp add: is_hash_def all_written_def sample_app_def)
  ultimately show ?thesis using a b by (simp add: r_def)
qed

theorem failed_demo_start_witness:
  "fst (api_demo_start sample_route_env Not_Opened None Stored None True sample_config)
     = \<lparr>da_status = 500, da_success = False, da_demo_mode = True\<rparr>
   \<and> fst (api_demo_start sample_route_env Stored (Some OSError) Stored None True sample_config)
     = \<lparr>da_status = 500, da_success = False, da_demo_mode = False\<rparr>"
proof -
  define f where "f b = \<lparr>file_config = file_config sample_config @ [(''demo_mode'', JBool b)],
    disk = Holds (file_config sample_config @ [(''demo_mode'', JBool b)])\<rparr>" for b
  have on: "save (schema_of sample_route_env) (services_of sample_route_env) Stored [(''demo_mode'', JBool True)] sample_config = (Inr (), f True)"
    unfolding f_def by code_simp
  have off: "save (schema_of sample_route_env) (services_of sample_route_env) Stored [(''demo_mode'', JBool False)] (f True) = (Inr (), f False)"
    unfolding f_def by code_simp
  have "\<not> demo_mode_of sample_route_env sample_config" "\<not> has_stored_value sample_config ''modem_type''"
    "''demo_mode'' \<in> set (bool_keys (schema_of sample_route_env))" by code_simp+
  with failed_demo_start [OF _ _ _ _ _ on off, of OSError] show ?thesis
    by (simp add: sample_route_env_def sample_schema_ok sample_no_env)
qed

end
