(* ===== verification/Segment_Utilization.thy ===== *)
theory Segment_Utilization
  imports Timestamps
begin

text \<open>
  \<^verbatim>\<open>app/storage/segment_utilization.py\<close>: the utilization samples of a cable segment, their reduction to
  averages of buckets, and the saturation events found in them and stored before the reduction.
  Every time stamp the code stores is the text of a whole second in UTC, so a time is that second
  (\<open>utc_stamp\<close> gives the text, in the same order); \<open>bucket_text\<close> is the SQL expression on the
  text.  SQLite's average is a parameter; a utilization is a finite float.  The number of minutes an
  event must last is at least one, as its defaults and the bounds of the route are.
\<close>

section \<open>Tables\<close>

definition EVENT_DEFAULT_THRESHOLD :: rat where "EVENT_DEFAULT_THRESHOLD = 80"
definition EVENT_DEFAULT_MIN_MINUTES :: nat where "EVENT_DEFAULT_MIN_MINUTES = 3"

record seg_row =
  sg_time :: int
  sg_ds_total :: "rat option"
  sg_us_total :: "rat option"
  sg_ds_own :: "rat option"
  sg_us_own :: "rat option"

record seg_event =
  se_direction :: string
  se_start :: int
  se_end :: int
  se_minutes :: int
  se_peak_total :: rat
  se_peak_own :: rat
  se_peak_neighbor :: rat

text \<open>A stored event carries the parameters it was detected with.\<close>

record seg_store =
  sg_rows :: "seg_row list"
  sg_events :: "((rat \<times> nat) \<times> seg_event) list"

section \<open>Samples\<close>

text \<open>\<^verbatim>\<open>INSERT OR IGNORE\<close> under the unique index on the time stamp.\<close>

definition save_at :: "seg_row \<Rightarrow> seg_store \<Rightarrow> seg_store" where
  "save_at r st = (if sg_time r \<in> sg_time ` set (sg_rows st) then st else st\<lparr>sg_rows := sg_rows st @ [r]\<rparr>)"

definition get_range :: "int \<Rightarrow> int \<Rightarrow> seg_store \<Rightarrow> seg_row list" where
  "get_range lo hi st = sort_key sg_time (filter (\<lambda>r. lo \<le> sg_time r \<and> sg_time r \<le> hi) (sg_rows st))"

definition get_latest :: "nat \<Rightarrow> seg_store \<Rightarrow> seg_row list" where
  "get_latest n st = take n (rev (sort_key sg_time (sg_rows st)))"

text \<open>Count, and average, minimum and maximum of each direction, \<^verbatim>\<open>NULL\<close> when there is no value.\<close>

definition column_stats :: "(rat list \<Rightarrow> rat) \<Rightarrow> rat option list \<Rightarrow> (rat \<times> rat \<times> rat) option" where
  "column_stats avg vs = (let xs = somes vs in if xs = [] then None else Some (avg xs, Min (set xs), Max (set xs)))"

definition get_stats :: "(rat list \<Rightarrow> rat) \<Rightarrow> int \<Rightarrow> int \<Rightarrow> seg_store
    \<Rightarrow> nat \<times> (rat \<times> rat \<times> rat) option \<times> (rat \<times> rat \<times> rat) option" where
  "get_stats avg lo hi st =
     (let rows = get_range lo hi st in
      (length rows, column_stats avg (map sg_ds_total rows), column_stats avg (map sg_us_total rows)))"

definition cleanup_segments :: "int \<Rightarrow> int \<Rightarrow> seg_store \<Rightarrow> nat \<times> seg_store" where
  "cleanup_segments now days st =
     (let cutoff = now - days * 86400; kept = filter (\<lambda>r. cutoff \<le> sg_time r) (sg_rows st)
      in (length (sg_rows st) - length kept, st\<lparr>sg_rows := kept\<rparr>))"

section \<open>Saturation events\<close>

definition minutes_between :: "int \<Rightarrow> int \<Rightarrow> int" where
  "minutes_between a b = rne (fl (of_int (b - a) / 60))"

text \<open>A sample of a run: its time, its total and its own load.\<close>

type_synonym run_sample = "int \<times> rat \<times> rat option"

definition own_load :: "run_sample \<Rightarrow> rat" where
  "own_load x = (case snd (snd x) of Some v \<Rightarrow> v | None \<Rightarrow> 0)"

definition total_load :: "run_sample \<Rightarrow> rat" where
  "total_load x = fst (snd x)"

definition event_of_run :: "string \<Rightarrow> run_sample list \<Rightarrow> seg_event" where
  "event_of_run direction run =
     (let peak = first_max total_load (hd run) (tl run) in
      \<lparr>se_direction = direction, se_start = fst (hd run), se_end = fst (last run),
       se_minutes = minutes_between (fst (hd run)) (fst (last run)) + 1,
       se_peak_total = total_load peak, se_peak_own = own_load peak,
       se_peak_neighbor = Max (set (map (\<lambda>x. fl (total_load x - own_load x)) run))\<rparr>)"

definition flush :: "string \<Rightarrow> nat \<Rightarrow> run_sample list \<Rightarrow> seg_event list \<Rightarrow> seg_event list" where
  "flush direction m run acc = (if run \<noteq> [] \<and> m \<le> length run then acc @ [event_of_run direction run] else acc)"

type_synonym column = "seg_row \<Rightarrow> rat option"

fun detect_loop ::
  "column \<Rightarrow> column \<Rightarrow> string \<Rightarrow> rat \<Rightarrow> nat \<Rightarrow> seg_row list \<Rightarrow> run_sample list \<Rightarrow> int option \<Rightarrow> seg_event list \<Rightarrow> seg_event list" where
  "detect_loop tc oc direction thr m [] run prev acc = flush direction m run acc"
| "detect_loop tc oc direction thr m (r # rs) run prev acc =
     (case tc r of
        None \<Rightarrow> detect_loop tc oc direction thr m rs [] None (flush direction m run acc)
      | Some t \<Rightarrow>
          if t < thr then detect_loop tc oc direction thr m rs [] (Some (sg_time r)) (flush direction m run acc)
          else if prev \<noteq> None \<and> run \<noteq> [] \<and> 90 < sg_time r - the prev
          then detect_loop tc oc direction thr m rs [(sg_time r, t, oc r)] (Some (sg_time r)) (flush direction m run acc)
          else detect_loop tc oc direction thr m rs (run @ [(sg_time r, t, oc r)]) (Some (sg_time r)) acc)"

definition detect_runs :: "column \<Rightarrow> column \<Rightarrow> string \<Rightarrow> rat \<Rightarrow> nat \<Rightarrow> seg_row list \<Rightarrow> seg_event list" where
  "detect_runs tc oc direction thr m rows = detect_loop tc oc direction thr m rows [] None []"

definition detect_both :: "rat \<Rightarrow> nat \<Rightarrow> seg_row list \<Rightarrow> seg_event list" where
  "detect_both thr m rows =
     detect_runs sg_ds_total sg_ds_own ''downstream'' thr m rows @ detect_runs sg_us_total sg_us_own ''upstream'' thr m rows"

text \<open>The first second of the year 2000, where the search for events to store begins.\<close>

definition EPOCH_2000 :: int where
  "EPOCH_2000 = seconds \<lparr>nv_year = 2000, nv_month = 1, nv_day = 1, nv_hour = 0, nv_minute = 0, nv_second = 0\<rparr>"

definition event_key :: "(rat \<times> nat) \<times> seg_event \<Rightarrow> string \<times> int \<times> rat \<times> nat" where
  "event_key e = (se_direction (snd e), se_start (snd e), fst e)"

definition store_event :: "rat \<times> nat \<Rightarrow> seg_event \<Rightarrow> nat \<times> seg_store \<Rightarrow> nat \<times> seg_store" where
  "store_event par ev s =
     (case s of (n, st) \<Rightarrow>
        if event_key (par, ev) \<in> event_key ` set (sg_events st) then (n, st)
        else (Suc n, st\<lparr>sg_events := sg_events st @ [(par, ev)]\<rparr>))"

definition materialize_events_before :: "int \<Rightarrow> rat \<Rightarrow> nat \<Rightarrow> seg_store \<Rightarrow> nat \<times> seg_store" where
  "materialize_events_before before thr m st =
     (let events = filter (\<lambda>e. se_end e < before) (detect_both thr m (get_range EPOCH_2000 before st))
      in fold (store_event (thr, m)) events (0, st))"

definition load_events :: "int \<Rightarrow> int \<Rightarrow> rat \<Rightarrow> nat \<Rightarrow> seg_store \<Rightarrow> seg_event list" where
  "load_events lo hi thr m st =
     sort_key se_start (map snd (filter (\<lambda>(par, e). par = (thr, m) \<and> lo \<le> se_start e \<and> se_start e \<le> hi) (sg_events st)))"

definition merge_event :: "seg_event \<Rightarrow> ((string \<times> int) \<times> seg_event) list \<Rightarrow> ((string \<times> int) \<times> seg_event) list" where
  "merge_event e d = dict_set (se_direction e, se_start e) e d"

definition get_events :: "int \<Rightarrow> int \<Rightarrow> rat \<Rightarrow> nat \<Rightarrow> seg_store \<Rightarrow> seg_event list" where
  "get_events lo hi thr m st =
     (let merged = fold merge_event (detect_both thr m (get_range lo hi st) @ load_events lo hi thr m st) []
      in sort_key se_start (sort_key se_direction (map snd merged)))"

section \<open>Reduction\<close>

text \<open>The SQL expression of a bucket on the text of a time stamp, and the same on the second.\<close>

definition bucket_text :: "nat \<Rightarrow> string \<Rightarrow> string" where
  "bucket_text b ts = take 14 ts @ pad 2 (digits_val (take 2 (drop 14 ts)) div b * b) @ '':00Z''"

definition bucket_start :: "nat \<Rightarrow> int \<Rightarrow> int" where
  "bucket_start b u = u - u mod 3600 + u mod 3600 div 60 div int b * int b * 60"

definition average_row :: "(rat list \<Rightarrow> rat) \<Rightarrow> int \<Rightarrow> seg_row list \<Rightarrow> seg_row" where
  "average_row avg k rs =
     (let mean = (\<lambda>c. let xs = somes (map c rs) in if xs = [] then None else Some (avg xs)) in
      \<lparr>sg_time = k, sg_ds_total = mean sg_ds_total, sg_us_total = mean sg_us_total,
       sg_ds_own = mean sg_ds_own, sg_us_own = mean sg_us_own\<rparr>)"

definition in_bucket :: "int \<Rightarrow> nat \<Rightarrow> int \<Rightarrow> seg_row \<Rightarrow> bool" where
  "in_bucket before b k r \<longleftrightarrow> sg_time r < before \<and> bucket_start b (sg_time r) = k"

text \<open>The buckets with more than one sample before the cut-off, with their averages.\<close>

definition full_buckets :: "(rat list \<Rightarrow> rat) \<Rightarrow> int \<Rightarrow> nat \<Rightarrow> seg_row list \<Rightarrow> (int \<times> seg_row) list" where
  "full_buckets avg before b rows =
     map (\<lambda>(k, rs). (k, average_row avg k rs))
       (filter (\<lambda>(k, rs). 1 < length rs)
         (group_by (\<lambda>r. bucket_start b (sg_time r)) [] (filter (\<lambda>r. sg_time r < before) rows)))"

definition replace_bucket :: "int \<Rightarrow> nat \<Rightarrow> int \<times> seg_row \<Rightarrow> int \<times> seg_row list \<Rightarrow> int \<times> seg_row list" where
  "replace_bucket before b kr s =
     (case kr of (k, row) \<Rightarrow> case s of (removed, rows) \<Rightarrow>
        let kept = filter (\<lambda>r. \<not> in_bucket before b k r) rows;
            rows' = (if k \<in> sg_time ` set kept then kept else kept @ [row])
        in (removed + int (length rows - length kept) - 1, rows'))"

definition downsample_range :: "(rat list \<Rightarrow> rat) \<Rightarrow> int \<Rightarrow> nat \<Rightarrow> seg_store \<Rightarrow> int \<times> seg_store" where
  "downsample_range avg before b st =
     (case fold (replace_bucket before b) (full_buckets avg before b (sg_rows st)) (0, sg_rows st) of
        (removed, rows) \<Rightarrow> (removed, st\<lparr>sg_rows := rows\<rparr>))"

definition downsample :: "(rat list \<Rightarrow> rat) \<Rightarrow> int \<Rightarrow> int \<Rightarrow> nat \<Rightarrow> int \<Rightarrow> nat \<Rightarrow> seg_store \<Rightarrow> int \<times> seg_store" where
  "downsample avg now fine_days fine_min coarse_days coarse_min st =
     (let st1 = snd (materialize_events_before (now - fine_days * 86400) EVENT_DEFAULT_THRESHOLD EVENT_DEFAULT_MIN_MINUTES st) in
      case downsample_range avg (now - coarse_days * 86400) coarse_min st1 of (n1, st2) \<Rightarrow>
      case downsample_range avg (now - fine_days * 86400) fine_min st2 of (n2, st3) \<Rightarrow> (n1 + n2, st3))"

section \<open>The collector\<close>

text \<open>
  \<^verbatim>\<open>app/collectors/segment_utilization.py\<close>.  The log-in and the request are parameters (the text of
  their exception, or the decoded body); an own or total list may be shorter than the list of the
  downstream totals, which ends the loop with \<^verbatim>\<open>IndexError\<close> after the samples before it are stored.
\<close>

definition MAINTENANCE_INTERVAL :: rat where "MAINTENANCE_INTERVAL = 86400"

definition last_non_null :: "'a option list \<Rightarrow> 'a option" where
  "last_non_null vs = (case somes (rev vs) of [] \<Rightarrow> None | v # _ \<Rightarrow> Some v)"

record segment_body =
  sb_total_ds :: "rat option list"
  sb_total_us :: "rat option list"
  sb_own_ds :: "rat option list"
  sb_own_us :: "rat option list"
  sb_last_time :: "int option"
  sb_interval_ms :: "int option"

datatype segment_result =
    Login_Failed string
  | Request_Failed string
  | Parse_Failed string
  | Segment_Read "rat option" "rat option" "rat option" "rat option"

text \<open>The second of a sample: \<^verbatim>\<open>datetime.fromtimestamp\<close> rounds the fraction to microseconds.\<close>

definition UNIX_EPOCH :: int where
  "UNIX_EPOCH = seconds \<lparr>nv_year = 1970, nv_month = 1, nv_day = 1, nv_hour = 0, nv_minute = 0, nv_second = 0\<rparr>"

definition sample_second :: "int \<Rightarrow> int \<Rightarrow> nat \<Rightarrow> nat \<Rightarrow> int" where
  "sample_second last_time interval_ms n i =
     (let interval = fl (of_int interval_ms / 1000);
          epoch = fl (of_int last_time - fl (of_int (int n - 1 - int i) * interval));
          whole = \<lfloor>epoch\<rfloor>
      in UNIX_EPOCH + whole + rne (fl ((epoch - of_int whole) * 1000000)) div 1000000)"

fun save_segment_samples :: "segment_body \<Rightarrow> nat list \<Rightarrow> seg_store \<Rightarrow> seg_store \<times> (string + unit)" where
  "save_segment_samples b [] st = (st, Inr ())"
| "save_segment_samples b (i # is) st =
     (if length (sb_total_us b) \<le> i \<or> length (sb_own_ds b) \<le> i \<or> length (sb_own_us b) \<le> i then (st, Inl ''list index out of range'')
      else if sb_total_ds b ! i = None \<and> sb_total_us b ! i = None then save_segment_samples b is st
      else save_segment_samples b is (save_at
        \<lparr>sg_time = sample_second (case sb_last_time b of None \<Rightarrow> 0 | Some t \<Rightarrow> t)
            (case sb_interval_ms b of None \<Rightarrow> 60000 | Some ms \<Rightarrow> ms) (length (sb_total_ds b)) i,
         sg_ds_total = sb_total_ds b ! i, sg_us_total = sb_total_us b ! i,
         sg_ds_own = sb_own_ds b ! i, sg_us_own = sb_own_us b ! i\<rparr> st))"

definition run_maintenance :: "(rat list \<Rightarrow> rat) \<Rightarrow> rat \<Rightarrow> int \<Rightarrow> rat \<times> seg_store \<Rightarrow> rat \<times> seg_store" where
  "run_maintenance avg clock now s =
     (case s of (last_run, st) \<Rightarrow>
        if fl (clock - last_run) < MAINTENANCE_INTERVAL then s
        else (clock, snd (cleanup_segments now 365 (snd (downsample avg now 7 5 30 15 st)))))"

definition collect_segment :: "(rat list \<Rightarrow> rat) \<Rightarrow> rat \<Rightarrow> int \<Rightarrow> (string + unit) \<Rightarrow> (string + segment_body)
    \<Rightarrow> rat \<times> seg_store \<Rightarrow> (rat \<times> seg_store) \<times> segment_result" where
  "collect_segment avg clock now login fetched s =
     (case login of
        Inl e \<Rightarrow> (s, Login_Failed e)
      | Inr _ \<Rightarrow>
     (case fetched of
        Inl e \<Rightarrow> (s, Request_Failed e)
      | Inr b \<Rightarrow>
     (case save_segment_samples b [0..<length (sb_total_ds b)] (snd s) of
        (st, Inl e) \<Rightarrow> ((fst s, st), Parse_Failed e)
      | (st, Inr _) \<Rightarrow>
          (run_maintenance avg clock now (fst s, st),
           Segment_Read (last_non_null (sb_total_ds b)) (last_non_null (sb_total_us b))
             (last_non_null (sb_own_ds b)) (last_non_null (sb_own_us b))))))"

section \<open>Events are the maximal runs\<close>

definition hot :: "column \<Rightarrow> rat \<Rightarrow> seg_row \<Rightarrow> bool" where
  "hot tc thr r = (case tc r of None \<Rightarrow> False | Some t \<Rightarrow> thr \<le> t)"

definition linked :: "seg_row \<Rightarrow> seg_row \<Rightarrow> bool" where
  "linked r q \<longleftrightarrow> sg_time q - sg_time r \<le> 90"

text \<open>The rows cut into runs of saturated samples without a gap.\<close>

fun runs :: "(seg_row \<Rightarrow> bool) \<Rightarrow> seg_row list \<Rightarrow> seg_row list list" where
  "runs h [] = []"
| "runs h [r] = (if h r then [[r]] else [])"
| "runs h (r # q # rs) =
     (if \<not> h r then runs h (q # rs)
      else if h q \<and> linked r q then (r # hd (runs h (q # rs))) # tl (runs h (q # rs))
      else [r] # runs h (q # rs))"

definition run_sample_of :: "column \<Rightarrow> column \<Rightarrow> seg_row \<Rightarrow> run_sample" where
  "run_sample_of tc oc r = (sg_time r, the (tc r), oc r)"

lemma runs_cold: "\<not> h r \<Longrightarrow> runs h (r # rs) = runs h rs"
  by (cases rs) simp_all

lemma runs_split:
  assumes "pre \<noteq> []" and "list_all h pre" and "successively linked pre"
    and "rs \<noteq> [] \<Longrightarrow> \<not> (h (hd rs) \<and> linked (last pre) (hd rs))"
  shows "runs h (pre @ rs) = pre # runs h rs"
  using assms
proof (induction pre)
  case (Cons r pre)
  show ?case
  proof (cases pre)
    case Nil
    with Cons.prems show ?thesis by (cases rs) auto
  next
    case (Cons q pre')
    with Cons.IH Cons.prems show ?thesis by simp
  qed
qed simp

lemma runs_parts:
  "concat (runs h rs) = filter h rs \<and>
   (\<forall>run \<in> set (runs h rs). run \<noteq> [] \<and> successively linked run) \<and>
   (rs \<noteq> [] \<and> h (hd rs) \<longrightarrow> runs h rs \<noteq> [] \<and> hd (hd (runs h rs)) = hd rs)"
proof (induction h rs rule: runs.induct)
  case (3 h r q rs)
  obtain s ss where "h q \<Longrightarrow> runs h (q # rs) = s # ss" using 3 by (cases "runs h (q # rs)") auto
  with 3 show ?case by (cases s) (auto simp: successively_Cons)
qed simp_all

lemma flush_run:
  assumes "pre \<noteq> []"
  shows "flush d m (map (run_sample_of tc oc) pre) acc =
    acc @ map (\<lambda>run. event_of_run d (map (run_sample_of tc oc) run)) (filter (\<lambda>run. m \<le> length run) [pre])"
  using assms by (simp add: flush_def)

lemma detect_loop_runs:
  fixes tc oc thr
  defines "h \<equiv> hot tc thr" and "f \<equiv> run_sample_of tc oc"
  assumes "list_all h pre" and "successively linked pre" and "pre \<noteq> [] \<Longrightarrow> prev = Some (sg_time (last pre))"
  shows "detect_loop tc oc d thr m rs (map f pre) prev acc =
    acc @ map (\<lambda>run. event_of_run d (map f run)) (filter (\<lambda>run. m \<le> length run) (runs h (pre @ rs)))"
  using assms(3-)
proof (induction rs arbitrary: pre prev acc)
  case Nil
  show ?case
  proof (cases "pre = []")
    case False
    with runs_split [of pre h "[]"] Nil show ?thesis by (simp add: f_def flush_run)
  qed (simp add: flush_def)
next
  case (Cons r rs)
  have cold: "detect_loop tc oc d thr m rs [] p (flush d m (map f pre) acc) =
      acc @ map (\<lambda>run. event_of_run d (map f run)) (filter (\<lambda>run. m \<le> length run) (runs h (pre @ r # rs)))"
    if "\<not> h r" for p
  proof (cases "pre = []")
    case True
    with that Cons.IH [of "[]" p acc] show ?thesis by (simp add: flush_def runs_cold)
  next
    case False
    with that runs_split [of pre h "r # rs"] Cons.prems Cons.IH [of "[]" p "flush d m (map f pre) acc"]
    show ?thesis by (simp add: f_def flush_run runs_cold)
  qed
  show ?case
  proof (cases "h r")
    case False
    then have "tc r = None \<or> (\<exists>t. tc r = Some t \<and> t < thr)" by (auto simp: h_def hot_def split: option.splits)
    then show ?thesis using cold [OF False] by auto
  next
    case True
    then obtain t where t: "tc r = Some t" "thr \<le> t" by (auto simp: h_def hot_def split: option.splits)
    then have fr: "f r = (sg_time r, t, oc r)" by (simp add: f_def run_sample_of_def)
    show ?thesis
    proof (cases "pre \<noteq> [] \<and> \<not> linked (last pre) r")
      case True
      with Cons.IH [of "[r]" "Some (sg_time r)" "flush d m (map f pre) acc"] Cons.prems \<open>h r\<close> t fr
        runs_split [of pre h "r # rs"]
      show ?thesis by (simp add: f_def flush_run linked_def)
    next
      case False
      with Cons.IH [of "pre @ [r]" "Some (sg_time r)" acc] Cons.prems \<open>h r\<close> t fr
      show ?thesis by (auto simp: linked_def successively_append_iff)
    qed
  qed
qed

text \<open>
  C36. The scan of the samples finds exactly the runs of consecutive samples at or above the
  threshold with no gap over ninety seconds, each as one event if it has enough samples.
\<close>

theorem events_are_maximal_runs:
  "detect_runs tc oc d thr m rows =
     map (\<lambda>run. event_of_run d (map (run_sample_of tc oc) run)) (filter (\<lambda>run. m \<le> length run) (runs (hot tc thr) rows)) \<and>
   concat (runs (hot tc thr) rows) = filter (hot tc thr) rows \<and>
   list_all (\<lambda>run. run \<noteq> [] \<and> successively linked run) (runs (hot tc thr) rows)"
  using detect_loop_runs [of tc thr "[]" None oc d m rows "[]"] runs_parts [of "hot tc thr" rows]
  by (simp add: detect_runs_def list_all_iff)

section \<open>Reduction keeps what it must\<close>

lemma div_mult_below: "0 < c \<Longrightarrow> x div c * c \<le> x" for x c :: int
  by (simp add: minus_mod_eq_div_mult [symmetric])

lemma bucket_start_le: "0 < b \<Longrightarrow> bucket_start b u \<le> u"
proof -
  assume "0 < b"
  then have "u mod 3600 div 60 div int b * int b \<le> u mod 3600 div 60" by (intro div_mult_below) simp
  moreover have "u mod 3600 div 60 * 60 \<le> u mod 3600" by (rule div_mult_below) simp
  ultimately have "u mod 3600 div 60 div int b * int b * 60 \<le> u mod 3600" by linarith
  then show ?thesis by (simp add: bucket_start_def)
qed

lemma bucket_start_idem:
  assumes "0 < b"
  shows "bucket_start b (bucket_start b u) = bucket_start b u"
proof -
  define m where "m = u mod 3600 div 60 div int b * int b"
  have m: "0 \<le> m" "m \<le> u mod 3600 div 60" unfolding m_def using assms by (simp_all add: div_mult_below pos_imp_zdiv_nonneg_iff)
  have "u mod 3600 < 3600" by simp
  with m have lt: "m * 60 < 3600" by linarith
  have "bucket_start b u = u div 3600 * 3600 + m * 60"
    by (simp add: bucket_start_def m_def minus_mod_eq_div_mult)
  moreover have "(u div 3600 * 3600 + m * 60) mod 3600 = m * 60" using m lt by simp
  moreover have "m div int b * int b = m" by (simp add: m_def)
  ultimately show ?thesis by (simp add: bucket_start_def)
qed

text \<open>
  The bucket that the SQL expression cuts out of the text of a time stamp is the text of the
  start of the bucket.
\<close>

theorem bucket_text_start:
  assumes "0 < b"
  shows "bucket_text b (utc_stamp u) = utc_stamp (bucket_start b u)"
proof -
  define n s where "n = u div 86400" and "s = u mod 86400"
  define m where "m = s mod 3600 div 60 div int b * int b"
  have s: "0 \<le> s" "s < 86400" and u: "u = n * 86400 + s" by (simp_all add: n_def s_def)
  have um: "u mod 3600 = s mod 3600" unfolding u by (simp add: mod_add_left_eq [symmetric] mod_mult_eq [symmetric])
  have m: "0 \<le> m" "m \<le> s mod 3600 div 60" unfolding m_def using assms by (simp_all add: div_mult_below pos_imp_zdiv_nonneg_iff)
  have le: "m < 60" using m(2) pos_mod_bound [of 3600 s] by linarith
  define h where "h = s div 3600"
  have h: "0 \<le> h" "h < 24" using s by (simp_all add: h_def)
  have b: "bucket_start b u = n * 86400 + (h * 3600 + m * 60)"
  proof -
    have "u - s mod 3600 = n * 86400 + h * 3600" by (simp add: u h_def minus_mod_eq_div_mult [symmetric])
    then show ?thesis unfolding bucket_start_def um m_def [symmetric] by simp
  qed
  have t: "0 \<le> h * 3600 + m * 60" "h * 3600 + m * 60 < 86400" using h m(1) le by linarith+
  have day: "bucket_start b u div 86400 = n" "bucket_start b u mod 86400 = h * 3600 + m * 60"
    unfolding b using t by simp_all
  have f: "(h * 3600 + m * 60) div 3600 = h" "(h * 3600 + m * 60) mod 3600 = m * 60"
    by (rule int_div_pos_eq [of _ _ _ "m * 60"], simp, use m(1) le in linarith, use m(1) le in linarith)
       (rule int_mod_pos_eq [of _ _ h], simp, use m(1) le in linarith, use m(1) le in linarith)
  have "(h * 3600 + m * 60) mod 60 = ((h * 60 + m) * 60) mod 60" by simp
  then have sec: "(h * 3600 + m * 60) mod 60 = 0" by simp
  have "civil (bucket_start b u) = (civil u)\<lparr>nv_minute := m, nv_second := 0\<rparr>"
    unfolding civil_def day n_def [symmetric] s_def [symmetric] f sec Let_def using m le by (simp add: h_def)
  moreover have "nv_minute (civil u) = s mod 3600 div 60" by (simp add: civil_def Let_def s_def)
  moreover have "nat m = nat (s mod 3600 div 60) div b * b"
  proof -
    have "0 \<le> s mod 3600 div 60" by (simp add: pos_imp_zdiv_nonneg_iff)
    then obtain k where k: "s mod 3600 div 60 = int k" by (metis nonneg_int_cases)
    have "int k div int b * int b = int (k div b * b)" by (simp add: zdiv_int)
    then show ?thesis unfolding m_def k by (simp only: nat_int)
  qed
  moreover have "nat (s mod 3600 div 60) < 10 ^ 2" using pos_mod_bound [of 3600 s] by (simp add: nat_less_iff)
  moreover have "pad 2 0 = ''00''" by code_simp
  ultimately show ?thesis
    by (simp add: bucket_text_def utc_stamp_def stamp_def date_text_def digits_val_pad)
qed

lemma bucket_text_start_witness: "bucket_text 5 (utc_stamp 63082369380) = utc_stamp 63082369200"
  using bucket_text_start [of 5 63082369380] by (simp add: bucket_start_def)

definition averages_ok :: "int \<Rightarrow> nat \<Rightarrow> (int \<times> seg_row) list \<Rightarrow> bool" where
  "averages_ok before b krs \<longleftrightarrow> distinct (dict_keys krs) \<and>
     list_all (\<lambda>(k, row). sg_time row = k \<and> k < before \<and> bucket_start b k = k) krs"

lemma averages_okD:
  "averages_ok before b krs \<Longrightarrow> p \<in> set krs \<Longrightarrow> sg_time (snd p) = fst p \<and> fst p < before \<and> bucket_start b (fst p) = fst p"
  by (auto simp: averages_ok_def list_all_iff)

lemma replace_bucket_step:
  assumes "k < before" and "bucket_start b k = k" and "sg_time row = k"
  shows "replace_bucket before b (k, row) (n, rows) =
    (n + int (length rows - length (filter (\<lambda>r. \<not> in_bucket before b k r) rows)) - 1,
     filter (\<lambda>r. \<not> in_bucket before b k r) rows @ [row])"
  using assms by (auto simp: replace_bucket_def in_bucket_def Let_def)

lemma replace_buckets:
  assumes "averages_ok before b krs"
  shows "fold (replace_bucket before b) krs (n, rows) =
    (let rows' = filter (\<lambda>r. \<not> (sg_time r < before \<and> bucket_start b (sg_time r) \<in> fst ` set krs)) rows @ map snd krs
     in (n + int (length rows) - int (length rows'), rows'))"
  using assms
proof (induction krs arbitrary: n rows)
  case (Cons kr krs)
  obtain k row where kr: "kr = (k, row)" by (cases kr)
  have row: "k < before" "bucket_start b k = k" "sg_time row = k" and ok: "averages_ok before b krs" and k: "k \<notin> fst ` set krs"
    using Cons.prems by (auto simp: averages_ok_def kr)
  define kept where "kept = filter (\<lambda>r. \<not> in_bucket before b k r) rows"
  have len: "length kept \<le> length rows" by (simp add: kept_def)
  have two: "filter (\<lambda>r. \<not> (sg_time r < before \<and> bucket_start b (sg_time r) \<in> fst ` set krs)) kept =
      filter (\<lambda>r. \<not> (sg_time r < before \<and> bucket_start b (sg_time r) \<in> fst ` set (kr # krs))) rows"
    unfolding kept_def filter_filter by (rule filter_cong) (auto simp: kr in_bucket_def)
  have "fold (replace_bucket before b) (kr # krs) (n, rows) =
      fold (replace_bucket before b) krs (n + int (length rows - length kept) - 1, kept @ [row])"
    using replace_bucket_step [OF row] by (simp add: kr kept_def)
  also have "\<dots> = (let rows' = filter (\<lambda>r. \<not> (sg_time r < before \<and> bucket_start b (sg_time r) \<in> fst ` set (kr # krs))) rows @ map snd (kr # krs)
     in (n + int (length rows) - int (length rows'), rows'))"
    using Cons.IH [OF ok, of "n + int (length rows - length kept) - 1" "kept @ [row]"] two row k len
    by (simp add: Let_def kr of_nat_diff)
  finally show ?case .
qed (simp add: Let_def)

lemma full_buckets_ok:
  assumes "0 < b"
  shows "averages_ok before b (full_buckets avg before b rows)"
proof -
  let ?g = "group_by (\<lambda>r. bucket_start b (sg_time r)) [] (filter (\<lambda>r. sg_time r < before) rows)"
  have k: "dict_keys (full_buckets avg before b rows) = dict_keys (filter (\<lambda>(k, rs). 1 < length rs) ?g)"
    by (simp add: full_buckets_def case_prod_beta o_def)
  have "distinct (dict_keys ?g)" by (rule group_by_distinct) simp
  then have d: "distinct (dict_keys (full_buckets avg before b rows))"
    unfolding k by (rule distinct_map_filter)
  have "k < before \<and> bucket_start b k = k" if "k \<in> set (dict_keys ?g)" for k
  proof -
    from that have "k \<in> (\<lambda>r. bucket_start b (sg_time r)) ` set (filter (\<lambda>r. sg_time r < before) rows)"
      by (simp only: group_by_keys) simp
    then obtain r where "r \<in> set (filter (\<lambda>r. sg_time r < before) rows)" and k: "k = bucket_start b (sg_time r)"
      by (rule imageE)
    then have r: "sg_time r < before" by simp
    then show ?thesis using k bucket_start_le [OF assms, of "sg_time r"] bucket_start_idem [OF assms] by simp
  qed
  moreover have "sg_time row = k \<and> k \<in> set (dict_keys ?g)" if row: "(k, row) \<in> set (full_buckets avg before b rows)" for k row
  proof -
    obtain rs where "(k, rs) \<in> set ?g" "row = average_row avg k rs" using row by (auto simp: full_buckets_def)
    moreover from this have "k \<in> fst ` set ?g" by (metis fst_conv image_eqI)
    ultimately show ?thesis by (simp add: average_row_def Let_def)
  qed
  ultimately have "sg_time row = k \<and> k < before \<and> bucket_start b k = k" if "(k, row) \<in> set (full_buckets avg before b rows)" for k row
    using that by blast
  with d show ?thesis by (auto simp: averages_ok_def list_all_iff)
qed

lemma full_buckets_iff:
  "k \<in> fst ` set (full_buckets avg before b rows) \<longleftrightarrow> 1 < length (filter (in_bucket before b k) rows)"
proof -
  let ?f = "\<lambda>r. bucket_start b (sg_time r)" and ?xs = "filter (\<lambda>r. sg_time r < before) rows"
  have d: "distinct (dict_keys (group_by ?f [] ?xs))" by (rule group_by_distinct) simp
  have inb: "filter (\<lambda>x. ?f x = k) ?xs = filter (in_bucket before b k) rows"
    by (auto simp: in_bucket_def intro: filter_cong)
  have get: "dict_get (group_by ?f [] ?xs) k [] = filter (in_bucket before b k) rows"
    using group_by_get [of ?f "[]" ?xs k] inb by (simp add: dict_get_def)
  have "k \<in> fst ` set (full_buckets avg before b rows) \<longleftrightarrow> (\<exists>rs. map_of (group_by ?f [] ?xs) k = Some rs \<and> 1 < length rs)"
    unfolding map_of_eq_Some_iff_mem [OF d] by (force simp: full_buckets_def)
  also have "\<dots> \<longleftrightarrow> 1 < length (filter (in_bucket before b k) rows)"
    using get by (cases "map_of (group_by ?f [] ?xs) k") (simp_all only: dict_get_def option.case option.simps, auto)
  finally show ?thesis .
qed

lemma downsample_range_rows:
  fixes st avg before
  assumes "0 < b"
  defines "ks \<equiv> fst ` set (full_buckets avg before b (sg_rows st))"
  shows "downsample_range avg before b st =
    (let rows' = filter (\<lambda>r. \<not> (sg_time r < before \<and> bucket_start b (sg_time r) \<in> ks)) (sg_rows st)
                 @ map snd (full_buckets avg before b (sg_rows st))
     in (int (length (sg_rows st)) - int (length rows'), st\<lparr>sg_rows := rows'\<rparr>))"
  using replace_buckets [OF full_buckets_ok [OF assms(1), of before avg "sg_rows st"], of 0 "sg_rows st"]
  by (simp add: downsample_range_def ks_def Let_def)

lemma average_keys:
  assumes "0 < b"
  shows "map sg_time (map snd (full_buckets avg before b rows)) = dict_keys (full_buckets avg before b rows)"
proof -
  have "sg_time (snd p) = fst p" if "p \<in> set (full_buckets avg before b rows)" for p
    using averages_okD [OF full_buckets_ok [OF assms] that] by simp
  then show ?thesis by (simp add: o_def)
qed

lemma key_once: "distinct ks \<Longrightarrow> length (filter (\<lambda>x. x = k) ks) = (if k \<in> set ks then 1 else 0)"
  by (induction ks) auto

lemma one_per_bucket:
  assumes "0 < b"
  shows "length (filter (in_bucket before b k) (sg_rows (snd (downsample_range avg before b st)))) \<le> 1"
proof -
  let ?krs = "full_buckets avg before b (sg_rows st)"
  note ok = full_buckets_ok [OF assms, of before avg "sg_rows st"]
  have avgs: "filter (in_bucket before b k) (map snd ?krs) = filter (\<lambda>r. sg_time r = k) (map snd ?krs)"
    by (rule filter_cong) (auto simp: in_bucket_def dest!: averages_okD [OF ok])
  have "length (filter (\<lambda>r. sg_time r = k) (map snd ?krs)) = length (filter (\<lambda>x. x = k) (dict_keys ?krs))"
    by (simp add: average_keys [OF assms, symmetric] filter_map o_def)
  also have "\<dots> \<le> (if k \<in> fst ` set ?krs then 1 else 0)"
    using ok key_once [of "dict_keys ?krs" k] by (simp add: averages_ok_def)
  finally have a: "length (filter (in_bucket before b k) (map snd ?krs)) \<le> (if k \<in> fst ` set ?krs then 1 else 0)"
    using avgs by simp
  have "filter (in_bucket before b k) (filter (\<lambda>r. \<not> (sg_time r < before \<and> bucket_start b (sg_time r) \<in> S)) (sg_rows st))
      = (if k \<in> S then [] else filter (in_bucket before b k) (sg_rows st))" for S
    unfolding filter_filter by (auto simp: in_bucket_def filter_empty_conv intro!: filter_cong)
  with a full_buckets_iff [of k avg before b "sg_rows st"] show ?thesis
    by (auto simp: downsample_range_rows [OF assms] Let_def)
qed

lemma reduced_unchanged:
  assumes "\<And>k. length (filter (in_bucket before b k) (sg_rows st)) \<le> 1"
  shows "downsample_range avg before b st = (0, st)"
proof -
  have "fst ` set (full_buckets avg before b (sg_rows st)) = {}"
    using full_buckets_iff [of _ avg before b "sg_rows st"] assms by (metis equals0I linorder_not_less)
  then show ?thesis by (simp add: downsample_range_def)
qed

text \<open>
  Reducing old samples leaves the samples of the cut-off and later as they are, leaves at most
  one sample of each bucket before it, counts the rows it removed, and changes nothing when repeated.
\<close>

theorem reduction_exact:
  assumes "0 < b" and "downsample_range avg before b st = (n, st')"
  shows "filter (\<lambda>r. before \<le> sg_time r) (sg_rows st') = filter (\<lambda>r. before \<le> sg_time r) (sg_rows st) \<and>
    length (filter (in_bucket before b k) (sg_rows st')) \<le> 1 \<and>
    int (length (sg_rows st')) + n = int (length (sg_rows st)) \<and>
    sg_events st' = sg_events st \<and> downsample_range avg before b st' = (0, st')"
proof -
  let ?krs = "full_buckets avg before b (sg_rows st)"
  have st': "st' = snd (downsample_range avg before b st)" using assms(2) by simp
  have one: "length (filter (in_bucket before b j) (sg_rows st')) \<le> 1" for j
    unfolding st' by (rule one_per_bucket [OF assms(1)])
  have "filter (\<lambda>r. before \<le> sg_time r) (map snd ?krs) = []"
    using full_buckets_ok [OF assms(1), of before avg "sg_rows st"] by (force simp: averages_ok_def list_all_iff filter_empty_conv)
  then have "filter (\<lambda>r. before \<le> sg_time r) (sg_rows st') = filter (\<lambda>r. before \<le> sg_time r) (sg_rows st)"
    by (auto simp: st' downsample_range_rows [OF assms(1)] Let_def intro: filter_cong)
  moreover have "int (length (sg_rows st')) + n = int (length (sg_rows st)) \<and> sg_events st' = sg_events st"
    using assms(2) by (auto simp: downsample_range_rows [OF assms(1)] Let_def)
  ultimately show ?thesis using one [of k] reduced_unchanged [of before b st', OF one] by simp
qed

lemma reduction_exact_witness:
  "\<exists>st'. downsample_range hd 600 5 \<lparr>sg_rows = map (\<lambda>t. \<lparr>sg_time = t, sg_ds_total = Some 50, sg_us_total = None, sg_ds_own = None, sg_us_own = None\<rparr>) [0, 60, 300, 660], sg_events = []\<rparr> = (1, st')
     \<and> length (sg_rows st') = 3"
proof -
  let ?st = "\<lparr>sg_rows = map (\<lambda>t. \<lparr>sg_time = t, sg_ds_total = Some 50, sg_us_total = None, sg_ds_own = None, sg_us_own = None\<rparr>) [0, 60, 300, 660], sg_events = []\<rparr>"
  have n: "fst (downsample_range hd 600 5 ?st) = 1" by code_simp
  then obtain st' where st': "downsample_range hd 600 5 ?st = (1, st')" by (metis prod.collapse)
  with reduction_exact [OF _ st', of 0] show ?thesis by auto
qed

section \<open>Stored events\<close>

definition event_at :: "seg_event \<Rightarrow> string \<times> int" where
  "event_at e = (se_direction e, se_start e)"

definition segments_ok :: "seg_store \<Rightarrow> bool" where
  "segments_ok st \<longleftrightarrow> distinct (map sg_time (sg_rows st)) \<and> distinct (map event_key (sg_events st))"

lemma event_key_at: "event_key (par, e) = event_key (par', e') \<longleftrightarrow> par = par' \<and> event_at e = event_at e'"
  by (auto simp: event_key_def event_at_def)

lemma store_events:
  assumes "distinct (map event_at evs)"
  shows "fold (store_event par) evs (n, st) =
    (let new = filter (\<lambda>e. event_key (par, e) \<notin> event_key ` set (sg_events st)) evs
     in (n + length new, st\<lparr>sg_events := sg_events st @ map (Pair par) new\<rparr>))"
  using assms
proof (induction evs arbitrary: n st)
  case (Cons e evs)
  have "filter (\<lambda>x. event_key (par, x) \<notin> insert (event_key (par, e)) K) evs = filter (\<lambda>x. event_key (par, x) \<notin> K) evs" for K
    using Cons.prems by (intro filter_cong) (auto simp: event_key_at image_iff)
  with Cons show ?case by (simp add: store_event_def Let_def insert_commute)
qed (simp add: Let_def)

lemma distinct_heads:
  "list_all (\<lambda>run. run \<noteq> []) rss \<Longrightarrow> distinct (map f (concat rss)) \<Longrightarrow> distinct (map (\<lambda>run. f (hd run)) rss)"
proof (induction rss)
  case (Cons run rss)
  have "f (hd run) \<noteq> f (hd run')" if "run' \<in> set rss" for run'
  proof -
    have "run \<noteq> []" "run' \<noteq> []" using Cons.prems(1) that by (auto simp: list_all_iff)
    moreover from this have "hd run' \<in> set (concat rss)" unfolding set_concat using that hd_in_set by blast
    ultimately have "hd run \<in> set run" "hd run' \<in> set (concat rss)" by simp_all
    with Cons.prems(2) show ?thesis unfolding concat.simps map_append distinct_append set_map by blast
  qed
  with Cons show ?case by auto
qed simp

lemma detected_distinct:
  assumes "distinct (map sg_time rows)"
  shows "distinct (map event_at (detect_both thr m rows))"
proof -
  have one: "distinct (map event_at (detect_runs tc oc d thr m rows)) \<and> (\<forall>e \<in> set (detect_runs tc oc d thr m rows). se_direction e = d)" for tc oc d
  proof -
    let ?rss = "runs (hot tc thr) rows"
    have ne: "list_all (\<lambda>run. run \<noteq> []) ?rss" using runs_parts [of "hot tc thr" rows] by (simp add: list_all_iff)
    have "distinct (map (\<lambda>run. sg_time (hd run)) ?rss)"
      using distinct_heads [OF ne, of sg_time] runs_parts [of "hot tc thr" rows] distinct_map_filter [OF assms] by simp
    then have "distinct (map (\<lambda>run. (d, sg_time (hd run))) (filter (\<lambda>run. m \<le> length run) ?rss))"
      by (intro distinct_map_filter) (simp add: distinct_map inj_on_def)
    moreover have "map (\<lambda>run. (d, sg_time (hd run))) (filter (\<lambda>run. m \<le> length run) ?rss) =
        map event_at (detect_runs tc oc d thr m rows)"
      using ne detect_loop_runs [of tc thr "[]" None oc d m rows "[]"]
      by (auto simp: detect_runs_def event_at_def event_of_run_def Let_def hd_map run_sample_of_def list_all_iff)
    ultimately show ?thesis
      using detect_loop_runs [of tc thr "[]" None oc d m rows "[]"] by (auto simp: detect_runs_def event_of_run_def Let_def)
  qed
  have "event_at e \<noteq> event_at e'"
    if "e \<in> set (detect_runs sg_ds_total sg_ds_own ''downstream'' thr m rows)"
      and "e' \<in> set (detect_runs sg_us_total sg_us_own ''upstream'' thr m rows)" for e e'
    using that one by (auto simp: event_at_def)
  then have "event_at ` set (detect_runs sg_ds_total sg_ds_own ''downstream'' thr m rows) \<inter>
      event_at ` set (detect_runs sg_us_total sg_us_own ''upstream'' thr m rows) = {}" by blast
  with one show ?thesis by (simp add: detect_both_def)
qed

lemma get_range_distinct: "segments_ok st \<Longrightarrow> distinct (map sg_time (get_range lo hi st))"
  by (simp add: segments_ok_def get_range_def distinct_map inj_on_def)

definition detected_before :: "int \<Rightarrow> rat \<Rightarrow> nat \<Rightarrow> seg_store \<Rightarrow> seg_event list" where
  "detected_before before thr m st = filter (\<lambda>e. se_end e < before) (detect_both thr m (get_range EPOCH_2000 before st))"

lemma materialize_eq:
  assumes "segments_ok st"
  shows "materialize_events_before before thr m st =
    (let new = filter (\<lambda>e. event_key ((thr, m), e) \<notin> event_key ` set (sg_events st)) (detected_before before thr m st)
     in (length new, st\<lparr>sg_events := sg_events st @ map (Pair (thr, m)) new\<rparr>))"
proof -
  have "distinct (map event_at (detected_before before thr m st))"
    unfolding detected_before_def by (intro distinct_map_filter detected_distinct get_range_distinct assms)
  from store_events [OF this, of "(thr, m)" 0 st] show ?thesis
    by (simp add: materialize_events_before_def detected_before_def Let_def)
qed

lemma materialize_ok:
  assumes "segments_ok st"
  shows "segments_ok (snd (materialize_events_before before thr m st))"
proof -
  have d: "distinct (map event_at (detected_before before thr m st))"
    unfolding detected_before_def by (intro distinct_map_filter detected_distinct get_range_distinct assms)
  have "distinct (map (\<lambda>e. event_key ((thr, m), e)) (detected_before before thr m st))"
    using d by (auto simp: distinct_map inj_on_def event_key_at)
  then have "distinct (map (\<lambda>e. event_key ((thr, m), e)) (filter P (detected_before before thr m st)))" for P
    by (rule distinct_map_filter)
  with assms show ?thesis by (auto simp: materialize_eq [OF assms] segments_ok_def Let_def o_def)
qed

text \<open>
  Storing the saturation events a second time inserts nothing and changes nothing.
\<close>

theorem materialize_idempotent:
  assumes "segments_ok st" and "materialize_events_before before thr m st = (n, st')"
  shows "materialize_events_before before thr m st' = (0, st') \<and> sg_rows st' = sg_rows st"
proof -
  have ok: "segments_ok st'" using materialize_ok [OF assms(1), of before thr m] assms(2) by simp
  let ?new = "filter (\<lambda>e. event_key ((thr, m), e) \<notin> event_key ` set (sg_events st)) (detected_before before thr m st)"
  have st': "st' = st\<lparr>sg_events := sg_events st @ map (Pair (thr, m)) ?new\<rparr>"
    using assms(2) unfolding materialize_eq [OF assms(1)] Let_def by simp
  have "detected_before before thr m st' = detected_before before thr m st"
    by (simp add: detected_before_def get_range_def st')
  then have "filter (\<lambda>e. event_key ((thr, m), e) \<notin> event_key ` set (sg_events st')) (detected_before before thr m st') = []"
    by (auto simp: filter_empty_conv st')
  then show ?thesis using materialize_eq [OF ok, of before thr m] by (simp add: Let_def) (simp add: st')
qed

lemma merged_last:
  assumes "event_at e \<notin> event_at ` set ys"
  shows "map_of (fold merge_event (xs @ e # ys) d) (event_at e) = Some e"
proof -
  have "map_of (fold merge_event ys d') (event_at e) = map_of d' (event_at e)" for d'
    using assms by (induction ys arbitrary: d') (auto simp: merge_event_def event_at_def)
  then show ?thesis by (simp add: merge_event_def event_at_def)
qed

lemma loaded_events:
  "e \<in> set (load_events lo hi thr m st) \<longleftrightarrow> ((thr, m), e) \<in> set (sg_events st) \<and> lo \<le> se_start e \<and> se_start e \<le> hi"
  by (force simp: load_events_def)

lemma stored_shown:
  assumes "segments_ok st" and "e \<in> set (load_events lo hi thr m st)"
  shows "e \<in> set (get_events lo hi thr m st)"
proof -
  let ?l = "load_events lo hi thr m st"
  obtain xs ys where l: "?l = xs @ e # ys" "e \<notin> set ys" using split_list_last [OF assms(2)] by blast
  have "event_at e \<noteq> event_at y" if "y \<in> set ys" for y
  proof -
    have "y \<in> set ?l" using that l by simp
    then have "((thr, m), y) \<in> set (sg_events st)" "((thr, m), e) \<in> set (sg_events st)"
      using assms(2) by (simp_all add: loaded_events)
    moreover have "y \<noteq> e" using that l by auto
    ultimately have "event_key ((thr, m), y) \<noteq> event_key ((thr, m), e)"
      using assms(1) by (auto simp: segments_ok_def distinct_map inj_on_def)
    then show ?thesis by (simp add: event_key_at)
  qed
  then have "event_at e \<notin> event_at ` set ys" by auto
  from merged_last [OF this, of "detect_both thr m (get_range lo hi st) @ xs" "[]"]
  have "(event_at e, e) \<in> set (fold merge_event (detect_both thr m (get_range lo hi st) @ ?l) [])"
    by (intro map_of_SomeD) (simp add: l)
  then show ?thesis by (force simp: get_events_def Let_def)
qed

lemma range_events_kept: "0 < b \<Longrightarrow> sg_events (snd (downsample_range avg before b st)) = sg_events st"
  by (simp add: downsample_range_rows Let_def)

lemma range_ok:
  assumes "0 < b" and "segments_ok st"
  shows "segments_ok (snd (downsample_range avg before b st))"
proof -
  let ?krs = "full_buckets avg before b (sg_rows st)"
  have new: "distinct (map sg_time (map snd ?krs))"
    using full_buckets_ok [OF assms(1), of before avg "sg_rows st"] unfolding average_keys [OF assms(1)] averages_ok_def by simp
  have old: "sg_time r \<notin> sg_time ` set (map snd ?krs)"
    if "\<not> (sg_time r < before \<and> bucket_start b (sg_time r) \<in> fst ` set ?krs)" for r
  proof
    assume "sg_time r \<in> sg_time ` set (map snd ?krs)"
    then obtain p where p: "p \<in> set ?krs" "sg_time (snd p) = sg_time r" by auto
    with averages_okD [OF full_buckets_ok [OF assms(1)] p(1)] that show False by auto
  qed
  have "distinct (map sg_time (filter P (sg_rows st)))" for P
    using assms(2) by (simp add: segments_ok_def distinct_map_filter)
  with new old assms(2) show ?thesis
    by (auto simp: downsample_range_rows [OF assms(1)] Let_def segments_ok_def)
qed

lemma downsample_events:
  assumes "segments_ok st" and "0 < fb" and "0 < cb"
  shows "segments_ok (snd (downsample avg now fd fb cd cb st)) \<and>
    sg_events (snd (downsample avg now fd fb cd cb st)) =
      sg_events (snd (materialize_events_before (now - fd * 86400) EVENT_DEFAULT_THRESHOLD EVENT_DEFAULT_MIN_MINUTES st))"
proof -
  let ?st1 = "snd (materialize_events_before (now - fd * 86400) EVENT_DEFAULT_THRESHOLD EVENT_DEFAULT_MIN_MINUTES st)"
  let ?st2 = "snd (downsample_range avg (now - cd * 86400) cb ?st1)"
  have eq: "snd (downsample avg now fd fb cd cb st) = snd (downsample_range avg (now - fd * 86400) fb ?st2)"
    by (simp add: downsample_def Let_def split: prod.split)
  have "segments_ok ?st2" by (rule range_ok [OF assms(3) materialize_ok [OF assms(1)]])
  then show ?thesis unfolding eq using range_ok [OF assms(2)] range_events_kept assms by simp
qed

text \<open>
  A saturation event found with the default parameters before the cut-off of the reduction is
  still reported, with its raw peaks, after the samples it was found in have been averaged, unless
  an event of the same start was stored before.
\<close>

theorem peaks_survive_reduction:
  assumes "segments_ok st" and "0 < fine_min" and "0 < coarse_min"
    and "e \<in> set (detect_both EVENT_DEFAULT_THRESHOLD EVENT_DEFAULT_MIN_MINUTES (get_range EPOCH_2000 (now - fine_days * 86400) st))"
    and "se_end e < now - fine_days * 86400" and "lo \<le> se_start e" and "se_start e \<le> hi"
    and "event_key ((EVENT_DEFAULT_THRESHOLD, EVENT_DEFAULT_MIN_MINUTES), e) \<notin> event_key ` set (sg_events st)"
  shows "e \<in> set (get_events lo hi EVENT_DEFAULT_THRESHOLD EVENT_DEFAULT_MIN_MINUTES
    (snd (downsample avg now fine_days fine_min coarse_days coarse_min st)))"
proof (rule stored_shown)
  show "segments_ok (snd (downsample avg now fine_days fine_min coarse_days coarse_min st))"
    using downsample_events [OF assms(1-3)] by blast
  have "e \<in> set (detected_before (now - fine_days * 86400) EVENT_DEFAULT_THRESHOLD EVENT_DEFAULT_MIN_MINUTES st)"
    using assms(4,5) by (simp add: detected_before_def)
  then show "e \<in> set (load_events lo hi EVENT_DEFAULT_THRESHOLD EVENT_DEFAULT_MIN_MINUTES
      (snd (downsample avg now fine_days fine_min coarse_days coarse_min st)))"
    unfolding loaded_events using assms(6-8) downsample_events [OF assms(1-3), of avg now fine_days coarse_days]
    by (simp add: materialize_eq [OF assms(1)] Let_def)
qed

definition minute_rows :: "int \<Rightarrow> nat \<Rightarrow> seg_row list" where
  "minute_rows start n = map (\<lambda>i. \<lparr>sg_time = start + 60 * int i, sg_ds_total = Some 90, sg_us_total = None,
     sg_ds_own = Some 20, sg_us_own = None\<rparr>) [0..<n]"

definition saturated :: "int \<Rightarrow> int \<Rightarrow> seg_event" where
  "saturated start minutes = \<lparr>se_direction = ''downstream'', se_start = start, se_end = start + 60 * (minutes - 1),
     se_minutes = minutes, se_peak_total = 90, se_peak_own = 20, se_peak_neighbor = 70\<rparr>"

text \<open>
  A run of saturated minutes that goes on past the cut-off is stored cut off there, and the
  shorter event replaces the one the samples still show.
\<close>

theorem straddling_run_truncated:
  "detect_both 80 3 (get_range 63100000000 64000000000 \<lparr>sg_rows = minute_rows 63100000230 10, sg_events = []\<rparr>) = [saturated 63100000230 10] \<and>
   get_events 63100000000 64000000000 80 3
     (snd (materialize_events_before 63100000500 80 3 \<lparr>sg_rows = minute_rows 63100000230 10, sg_events = []\<rparr>))
   = [saturated 63100000230 5]"
  by code_simp

lemma materialize_idempotent_witness:
  "materialize_events_before 63100000500 80 3 (snd (materialize_events_before 63100000500 80 3 \<lparr>sg_rows = minute_rows 63100000230 5, sg_events = []\<rparr>))
   = (0, snd (materialize_events_before 63100000500 80 3 \<lparr>sg_rows = minute_rows 63100000230 5, sg_events = []\<rparr>))"
proof -
  let ?st = "\<lparr>sg_rows = minute_rows 63100000230 5, sg_events = []\<rparr>"
  have "segments_ok ?st" by code_simp
  from materialize_idempotent [OF this, of 63100000500 80 3] show ?thesis by (metis prod.collapse)
qed

lemma peaks_survive_reduction_witness:
  "saturated 63100000230 5 \<in> set (get_events 63100000000 63100009000 EVENT_DEFAULT_THRESHOLD EVENT_DEFAULT_MIN_MINUTES
     (snd (downsample hd (63100000630 + 7 * 86400) 7 5 30 15 \<lparr>sg_rows = minute_rows 63100000230 5, sg_events = []\<rparr>)))"
proof (rule peaks_survive_reduction)
  show "saturated 63100000230 5 \<in> set (detect_both EVENT_DEFAULT_THRESHOLD EVENT_DEFAULT_MIN_MINUTES
      (get_range EPOCH_2000 (63100000630 + 7 * 86400 - 7 * 86400) \<lparr>sg_rows = minute_rows 63100000230 5, sg_events = []\<rparr>))"
    by code_simp
  show "segments_ok \<lparr>sg_rows = minute_rows 63100000230 5, sg_events = []\<rparr>" by code_simp
qed (simp_all add: saturated_def)

end
