(* ===== verification/Module_Manifest.thy ===== *)
theory Module_Manifest
  imports Json_Values Web_Paths
begin

text \<open>
  \<^verbatim>\<open>app/manifest_contract.py\<close> and \<^verbatim>\<open>app/module_registry.py\<close>: what a module manifest must be, and the
  discovery of modules in directories.  The text Python prints for a JSON value is a parameter
  (\<open>str_of\<close>); a directory is the list of its entries, each with what reading its manifest file gives,
  if it has one.  Sets of names are lists; the errors print them sorted.
\<close>

section \<open>The contract\<close>

definition VALID_TYPES :: "string list" where
  "VALID_TYPES = [''analysis'', ''integration'', ''theme'']"

definition VALID_CONTRIBUTES :: "string list" where
  "VALID_CONTRIBUTES = [''collector'', ''routes'', ''settings'', ''tab'', ''dialogs'', ''card'', ''i18n'', ''static'',
     ''publisher'', ''thresholds'', ''theme'']"

definition REQUIRED_FIELDS :: "string list" where
  "REQUIRED_FIELDS = [''id'', ''name'', ''description'', ''version'', ''author'', ''minAppVersion'', ''type'', ''contributes'']"

definition OPTIONAL_FIELDS :: "string list" where
  "OPTIONAL_FIELDS = [''homepage'', ''license'', ''config'', ''config_secrets'', ''configPrivate'', ''menu'', ''hints'']"

definition quoted :: "string \<Rightarrow> string" where
  "quoted k = CHR 0x27 # k @ [CHR 0x27]"

definition has_key :: "(string \<times> json) list \<Rightarrow> string \<Rightarrow> bool" where
  "has_key d k \<longleftrightarrow> k \<in> set (dict_keys d)"

text \<open>One check of the contract: its complaint, or nothing.\<close>

definition complain :: "bool \<Rightarrow> string \<Rightarrow> string list" where
  "complain b msg = (if b then [msg] else [])"

definition name_list :: "string \<Rightarrow> string list \<Rightarrow> string list" where
  "name_list msg names = complain (names \<noteq> []) (msg @ py_join '', '' (sort names))"

fun j_dict :: "json \<Rightarrow> (string \<times> json) list option" where
  "j_dict (JDict d) = Some d"
| "j_dict v = None"

fun j_strings :: "json \<Rightarrow> string list option" where
  "j_strings (JList []) = Some []"
| "j_strings (JList (JStr s # vs)) = map_option (Cons s) (j_strings (JList vs))"
| "j_strings v = None"

definition unique_strings :: "json \<Rightarrow> string list option" where
  "unique_strings v = (case j_strings v of Some ss \<Rightarrow> (if distinct ss then Some ss else None) | None \<Rightarrow> None)"

definition unique_string_list :: "(string \<times> json) list \<Rightarrow> string \<Rightarrow> string list \<times> string list" where
  "unique_string_list d k =
     (case unique_strings (dict_get d k (JList [])) of
        Some ss \<Rightarrow> (ss, [])
      | None \<Rightarrow> ([], [quoted k @ '' must be a list of unique strings'']))"

definition filled :: "json \<Rightarrow> bool" where
  "filled v \<longleftrightarrow> (case v of JStr s \<Rightarrow> py_strip s \<noteq> [] | _ \<Rightarrow> False)"

definition nonempty_str :: "json \<Rightarrow> bool" where
  "nonempty_str v \<longleftrightarrow> (case v of JStr s \<Rightarrow> s \<noteq> [] | _ \<Rightarrow> False)"

definition valid_id :: "json \<Rightarrow> bool" where
  "valid_id v \<longleftrightarrow> (case v of JStr s \<Rightarrow> id_text s | _ \<Rightarrow> False)"

text \<open>\<^verbatim>\<open>module_type not in VALID_TYPES\<close> hashes the value, which a list or a dictionary does not allow.\<close>

definition valid_type :: "json \<Rightarrow> bool res" where
  "valid_type v = (case v of
     JStr s \<Rightarrow> Inr (s \<in> set VALID_TYPES)
   | JList vs \<Rightarrow> Inl TypeError
   | JDict d \<Rightarrow> Inl TypeError
   | _ \<Rightarrow> Inr False)"

definition contributes_errors :: "json \<Rightarrow> json \<Rightarrow> string list" where
  "contributes_errors module_type v =
     (case v of
        JDict c \<Rightarrow>
          name_list ''Unknown contributes keys: '' (filter (\<lambda>k. k \<notin> set VALID_CONTRIBUTES) (dict_keys c))
          @ name_list ''Contributes values must be non-empty strings: '' (dict_keys (filter (\<lambda>(k, x). \<not> nonempty_str x) c))
          @ (if module_type = JStr ''theme'' then
               (let forbidden = filter (has_key c) [''collector'', ''publisher'', ''routes''] in
                complain (forbidden \<noteq> []) (''Theme modules must not contribute '' @ py_join '', '' forbidden @ '' (security)''))
             else [])
      | _ \<Rightarrow> [quoted ''contributes'' @ '' must be a dict''])"

definition present :: "(string \<times> json) list \<Rightarrow> string \<Rightarrow> (json \<Rightarrow> bool) \<Rightarrow> bool" where
  "present d k bad \<longleftrightarrow> (case map_of d k of None \<Rightarrow> False | Some v \<Rightarrow> bad v)"

definition config_of :: "(string \<times> json) list \<Rightarrow> (string \<times> json) list" where
  "config_of d = (case j_dict (dict_get d ''config'' (JDict [])) of Some c \<Rightarrow> c | None \<Rightarrow> [])"

definition config_errors :: "bool \<Rightarrow> (string \<times> json) list \<Rightarrow> string list" where
  "config_errors builtin d =
     (let config = config_of d;
          (secrets, e1) = unique_string_list d ''config_secrets'';
          (privates, e2) = unique_string_list d ''configPrivate''
      in complain (j_dict (dict_get d ''config'' (JDict [])) = None) (quoted ''config'' @ '' must be a dict'')
         @ e1
         @ complain (filter (\<lambda>k. \<not> has_key config k) secrets \<noteq> []) (quoted ''config_secrets'' @ '' references undeclared config keys'')
         @ complain (filter (\<lambda>k. present config k (\<lambda>v. \<not> j_is_str v)) secrets \<noteq> []) (quoted ''config_secrets'' @ '' defaults must be strings'')
         @ e2
         @ complain (has_key d ''configPrivate'' \<and> \<not> builtin) (quoted ''configPrivate'' @ '' is available to built-in modules only'')
         @ name_list (quoted ''configPrivate'' @ '' references undeclared config keys: '') (filter (\<lambda>k. \<not> has_key config k) privates))"

definition shape_errors :: "(string \<times> json) list \<Rightarrow> string list" where
  "shape_errors d =
     concat (map (\<lambda>k. complain (present d k (\<lambda>v. j_dict v = None)) (quoted k @ '' must be a dict'')) [''menu'', ''hints''])
     @ concat (map (\<lambda>k. complain (present d k (\<lambda>v. \<not> j_is_str v)) (quoted k @ '' must be a string'')) [''homepage'', ''license''])"

definition field_errors :: "(json \<Rightarrow> string) \<Rightarrow> (string \<times> json) list \<Rightarrow> string list" where
  "field_errors str_of d =
     name_list ''Missing required fields: '' (filter (\<lambda>k. \<not> has_key d k) REQUIRED_FIELDS)
     @ name_list ''Unsupported manifest fields: '' (filter (\<lambda>k. k \<notin> set (REQUIRED_FIELDS @ OPTIONAL_FIELDS)) (dict_keys d))
     @ concat (map (\<lambda>k. complain (present d k (\<lambda>v. \<not> filled v)) (quoted k @ '' must be a non-empty string''))
         [''name'', ''description'', ''version'', ''author'', ''minAppVersion''])
     @ complain (present d ''id'' (\<lambda>v. \<not> valid_id v))
         (''Invalid id '' @ quoted (str_of (j_get d ''id'')) @ '': must be lowercase alphanumeric with dots/underscores, starting with a letter (e.g. ''
            @ quoted ''docsight.weather'' @ '')'')"

definition type_errors :: "(json \<Rightarrow> string) \<Rightarrow> (string \<times> json) list \<Rightarrow> string list res" where
  "type_errors str_of d =
     (case map_of d ''type'' of
        None \<Rightarrow> Inr []
      | Some v \<Rightarrow> map_sum id (\<lambda>ok. complain (\<not> ok)
          (''Invalid type '' @ quoted (str_of v) @ '': must be one of ['' @ py_join '', '' (map quoted VALID_TYPES) @ '']'')) (valid_type v))"

definition validate_manifest_contract :: "(json \<Rightarrow> string) \<Rightarrow> bool \<Rightarrow> json \<Rightarrow> string list res" where
  "validate_manifest_contract str_of builtin raw =
     (case j_dict raw of
        None \<Rightarrow> Inr [''Manifest must be a JSON object'']
      | Some d \<Rightarrow>
          (case type_errors str_of d of
             Inl e \<Rightarrow> Inl e
           | Inr ty \<Rightarrow> Inr (field_errors str_of d @ ty
               @ (case map_of d ''contributes'' of None \<Rightarrow> [] | Some c \<Rightarrow> contributes_errors (j_get d ''type'') c)
               @ config_errors builtin d @ shape_errors d)))"

section \<open>Module metadata\<close>

datatype module_error = ManifestError string | ModuleRegistryError string | RegistrationError string | PyError py_error

record module_info =
  mi_id :: string
  mi_name :: string
  mi_description :: string
  mi_version :: string
  mi_author :: string
  mi_min_app_version :: string
  mi_type :: string
  mi_contributes :: "(string \<times> string) list"
  mi_path :: string
  mi_builtin :: bool
  mi_homepage :: string
  mi_license :: string
  mi_config :: "(string \<times> json) list"
  mi_config_secrets :: "string list"
  mi_config_private :: "string list"
  mi_menu :: "(string \<times> json) list"
  mi_enabled :: bool
  mi_error :: "string option"
  mi_hints :: "(string \<times> json) list"
  mi_thresholds :: "json option"
  mi_theme :: "json option"

definition j_text :: "json \<Rightarrow> string" where
  "j_text v = (case v of JStr s \<Rightarrow> s | _ \<Rightarrow> [])"

definition dict_or_empty :: "json \<Rightarrow> (string \<times> json) list" where
  "dict_or_empty v = (case j_dict v of Some d \<Rightarrow> d | None \<Rightarrow> [])"

definition manifest_info :: "(string \<times> json) list \<Rightarrow> string \<Rightarrow> bool \<Rightarrow> module_info" where
  "manifest_info d module_path builtin =
     (let text = (\<lambda>k. j_text (dict_get d k (JStr []))); dct = (\<lambda>k. dict_or_empty (dict_get d k (JDict []))) in
      \<lparr>mi_id = text ''id'', mi_name = text ''name'', mi_description = text ''description'', mi_version = text ''version'',
       mi_author = text ''author'', mi_min_app_version = text ''minAppVersion'', mi_type = text ''type'',
       mi_contributes = map (\<lambda>(k, v). (k, j_text v)) (dct ''contributes''), mi_path = module_path, mi_builtin = builtin,
       mi_homepage = text ''homepage'', mi_license = text ''license'', mi_config = dct ''config'',
       mi_config_secrets = fst (unique_string_list d ''config_secrets''),
       mi_config_private = fst (unique_string_list d ''configPrivate''),
       mi_menu = dict_update [(''order'', JInt 999)] (dct ''menu''), mi_enabled = True, mi_error = None,
       mi_hints = dct ''hints'', mi_thresholds = None, mi_theme = None\<rparr>)"

definition validate_manifest :: "(json \<Rightarrow> string) \<Rightarrow> json \<Rightarrow> string \<Rightarrow> bool \<Rightarrow> module_error + module_info" where
  "validate_manifest str_of raw module_path builtin =
     (case validate_manifest_contract str_of builtin raw of
        Inl e \<Rightarrow> Inl (PyError e)
      | Inr (msg # msgs) \<Rightarrow> Inl (ManifestError msg)
      | Inr [] \<Rightarrow> Inr (manifest_info (dict_or_empty raw) module_path builtin))"

text \<open>
  Reading a manifest file: \<^verbatim>\<open>JSONDecodeError\<close> and \<^verbatim>\<open>OSError\<close> are caught; a file that is not
  UTF-8 raises a \<^verbatim>\<open>UnicodeDecodeError\<close>, a \<^verbatim>\<open>ValueError\<close>, which is not.
\<close>

datatype manifest_file = Unreadable | Not_Utf8 | Parsed json

definition manifest :: "(json \<Rightarrow> string) \<Rightarrow> string \<Rightarrow> manifest_file \<Rightarrow> bool \<Rightarrow> module_error + module_info" where
  "manifest str_of path mf builtin =
     (case mf of
        Unreadable \<Rightarrow> Inl (if builtin then ModuleRegistryError ''Built-in module manifest could not be read''
                          else ManifestError ''Module manifest could not be read'')
      | Not_Utf8 \<Rightarrow> Inl (PyError (ValueError ''codec error''))
      | Parsed raw \<Rightarrow> validate_manifest str_of raw path builtin)"

section \<open>Discovery\<close>

type_synonym directory = "(string \<times> manifest_file option) list"

fun discover_in :: "(json \<Rightarrow> string) \<Rightarrow> string list \<Rightarrow> string \<Rightarrow> directory \<Rightarrow> string list \<times> module_info list
    \<Rightarrow> module_error + (string list \<times> module_info list)" where
  "discover_in str_of disabled dir [] s = Inr s"
| "discover_in str_of disabled dir ((entry, None) # es) s = discover_in str_of disabled dir es s"
| "discover_in str_of disabled dir ((entry, Some mf) # es) (seen, modules) =
     (case manifest str_of (path_join dir entry) mf False of
        Inl (ManifestError msg) \<Rightarrow> discover_in str_of disabled dir es (seen, modules)
      | Inl e \<Rightarrow> Inl e
      | Inr info \<Rightarrow>
          if mi_id info \<in> set seen then discover_in str_of disabled dir es (seen, modules)
          else discover_in str_of disabled dir es
            (mi_id info # seen, modules @ [info\<lparr>mi_enabled := mi_id info \<notin> set disabled\<rparr>]))"

fun discover_dirs :: "(json \<Rightarrow> string) \<Rightarrow> string list \<Rightarrow> (string \<times> directory option) list \<Rightarrow> string list \<times> module_info list
    \<Rightarrow> module_error + (string list \<times> module_info list)" where
  "discover_dirs str_of disabled [] s = Inr s"
| "discover_dirs str_of disabled ((dir, None) # ds) s = discover_dirs str_of disabled ds s"
| "discover_dirs str_of disabled ((dir, Some es) # ds) s =
     (case discover_in str_of disabled dir (sort_key fst es) s of
        Inl e \<Rightarrow> Inl e
      | Inr s' \<Rightarrow> discover_dirs str_of disabled ds s')"

definition discover_modules ::
  "(json \<Rightarrow> string) \<Rightarrow> (string \<times> directory option) list \<Rightarrow> string list \<Rightarrow> string list \<Rightarrow> module_error + module_info list" where
  "discover_modules str_of search disabled known =
     map_sum id snd (discover_dirs str_of disabled search (known, []))"

fun finalize_builtins :: "string list \<Rightarrow> string \<Rightarrow> string list \<Rightarrow> module_info list \<Rightarrow> module_error + module_info list" where
  "finalize_builtins disabled kind seen [] = Inr []"
| "finalize_builtins disabled kind seen (info # ms) =
     (if mi_id info \<in> set seen then Inl (ModuleRegistryError (''Duplicate built-in '' @ kind @ '' id '' @ mi_id info))
      else map_sum id (Cons (info\<lparr>mi_enabled := mi_id info \<notin> set disabled\<rparr>)) (finalize_builtins disabled kind (mi_id info # seen) ms))"

fun read_builtins :: "(json \<Rightarrow> string) \<Rightarrow> string \<Rightarrow> (string \<Rightarrow> manifest_file) \<Rightarrow> string list \<Rightarrow> module_error + module_info list" where
  "read_builtins str_of base files [] = Inr []"
| "read_builtins str_of base files (entry # es) =
     (case manifest str_of (path_join base entry) (files entry) True of
        Inl (ManifestError msg) \<Rightarrow> Inl (ModuleRegistryError (''Built-in module '' @ entry @ '' manifest is invalid''))
      | Inl e \<Rightarrow> Inl e
      | Inr info \<Rightarrow> map_sum id (Cons info) (read_builtins str_of base files es))"

definition discover_builtin_modules ::
  "(json \<Rightarrow> string) \<Rightarrow> string \<Rightarrow> (string \<Rightarrow> manifest_file) \<Rightarrow> string list \<Rightarrow> string list \<Rightarrow> module_error + module_info list" where
  "discover_builtin_modules str_of base files dirs disabled =
     (case read_builtins str_of base files dirs of
        Inl e \<Rightarrow> Inl e
      | Inr ms \<Rightarrow> finalize_builtins disabled ''module'' [] ms)"

text \<open>A theme or a threshold profile of the application, from its static registry.\<close>

record static_module =
  sm_id :: string
  sm_name :: string
  sm_description :: string
  sm_version :: string
  sm_author :: string
  sm_min_app_version :: string
  sm_homepage :: string
  sm_license :: string
  sm_data :: json

definition static_info :: "string \<Rightarrow> string \<Rightarrow> static_module \<Rightarrow> module_info" where
  "static_info module_type key p =
     \<lparr>mi_id = sm_id p, mi_name = sm_name p, mi_description = sm_description p, mi_version = sm_version p,
      mi_author = sm_author p, mi_min_app_version = sm_min_app_version p, mi_type = module_type,
      mi_contributes = [(key, ''builtin'')], mi_path = [], mi_builtin = True, mi_homepage = (if key = ''theme'' then sm_homepage p else []),
      mi_license = (if key = ''theme'' then sm_license p else []), mi_config = [], mi_config_secrets = [], mi_config_private = [],
      mi_menu = [(''order'', JInt 999)], mi_enabled = True, mi_error = None, mi_hints = [],
      mi_thresholds = (if key = ''thresholds'' then Some (sm_data p) else None),
      mi_theme = (if key = ''theme'' then Some (sm_data p) else None)\<rparr>"

definition discover_builtin_theme_modules :: "string list \<Rightarrow> static_module list \<Rightarrow> module_error + module_info list" where
  "discover_builtin_theme_modules disabled themes =
     finalize_builtins disabled ''theme'' [] (map (static_info ''theme'' ''theme'') themes)"

definition discover_builtin_threshold_modules :: "string list \<Rightarrow> static_module list \<Rightarrow> module_error + module_info list" where
  "discover_builtin_threshold_modules disabled profiles =
     finalize_builtins disabled ''threshold profile'' [] (map (static_info ''analysis'' ''thresholds'') profiles)"

section \<open>What is accepted\<close>

definition contributes_ok :: "json \<Rightarrow> json \<Rightarrow> bool" where
  "contributes_ok module_type v \<longleftrightarrow>
     (case v of
        JDict c \<Rightarrow> list_all (\<lambda>(k, x). k \<in> set VALID_CONTRIBUTES \<and> nonempty_str x) c \<and>
          (module_type = JStr ''theme'' \<longrightarrow> \<not> has_key c ''collector'' \<and> \<not> has_key c ''publisher'' \<and> \<not> has_key c ''routes'')
      | _ \<Rightarrow> False)"

definition strings_ok :: "(string \<times> json) list \<Rightarrow> string \<Rightarrow> (string \<Rightarrow> bool) \<Rightarrow> bool" where
  "strings_ok d k ok \<longleftrightarrow>
     (case unique_strings (dict_get d k (JList [])) of None \<Rightarrow> False | Some ss \<Rightarrow> list_all ok ss)"

definition manifest_ok :: "bool \<Rightarrow> (string \<times> json) list \<Rightarrow> bool" where
  "manifest_ok builtin d \<longleftrightarrow>
     list_all (has_key d) REQUIRED_FIELDS \<and>
     list_all (\<lambda>k. k \<in> set (REQUIRED_FIELDS @ OPTIONAL_FIELDS)) (dict_keys d) \<and>
     list_all (\<lambda>k. filled (j_get d k)) [''name'', ''description'', ''version'', ''author'', ''minAppVersion''] \<and>
     valid_id (j_get d ''id'') \<and> valid_type (j_get d ''type'') = Inr True \<and>
     contributes_ok (j_get d ''type'') (j_get d ''contributes'') \<and>
     j_dict (dict_get d ''config'' (JDict [])) \<noteq> None \<and>
     strings_ok d ''config_secrets'' (\<lambda>k. has_key (config_of d) k \<and> j_is_str (j_get (config_of d) k)) \<and>
     (has_key d ''configPrivate'' \<longrightarrow> builtin) \<and> strings_ok d ''configPrivate'' (has_key (config_of d)) \<and>
     list_all (\<lambda>k. \<not> present d k (\<lambda>v. j_dict v = None)) [''menu'', ''hints''] \<and>
     list_all (\<lambda>k. \<not> present d k (\<lambda>v. \<not> j_is_str v)) [''homepage'', ''license'']"

lemma complain_none [simp]: "complain b msg = [] \<longleftrightarrow> \<not> b"
  by (simp add: complain_def)

lemma name_list_none [simp]: "name_list msg names = [] \<longleftrightarrow> names = []"
  by (simp add: name_list_def)

lemma has_key_get: "has_key d k \<Longrightarrow> map_of d k = Some (j_get d k)"
  by (cases "map_of d k") (auto simp: has_key_def j_get_def dict_get_def map_of_eq_None_iff)

lemma has_key_map: "has_key d k \<longleftrightarrow> map_of d k \<noteq> None"
  by (simp add: has_key_def map_of_eq_None_iff)

lemma present_get: "has_key d k \<Longrightarrow> present d k bad \<longleftrightarrow> bad (j_get d k)"
  by (simp add: present_def has_key_get)

lemma contributes_errors_none: "contributes_errors ty v = [] \<longleftrightarrow> contributes_ok ty v"
  by (cases v) (auto simp: contributes_errors_def contributes_ok_def filter_empty_conv list_all_iff Let_def)

lemma filled_str: "filled v \<Longrightarrow> j_is_str v"
  by (cases v) (auto simp: filled_def)

lemma unique_string_list_errors:
  "unique_string_list d k = (ss, es) \<Longrightarrow> es = [] \<longleftrightarrow> unique_strings (dict_get d k (JList [])) = Some ss"
  by (auto simp: unique_string_list_def split: option.splits)

lemma config_errors_none:
  "config_errors builtin d = [] \<longleftrightarrow>
     j_dict (dict_get d ''config'' (JDict [])) \<noteq> None \<and>
     strings_ok d ''config_secrets'' (\<lambda>k. has_key (config_of d) k \<and> j_is_str (j_get (config_of d) k)) \<and>
     (has_key d ''configPrivate'' \<longrightarrow> builtin) \<and> strings_ok d ''configPrivate'' (has_key (config_of d))"
proof -
  obtain ss e1 where 1: "unique_string_list d ''config_secrets'' = (ss, e1)" by fastforce
  obtain ps e2 where 2: "unique_string_list d ''configPrivate'' = (ps, e2)" by fastforce
  have s: "strings_ok d ''config_secrets'' P \<longleftrightarrow> e1 = [] \<and> list_all P ss"
    and p: "strings_ok d ''configPrivate'' P \<longleftrightarrow> e2 = [] \<and> list_all P ps" for P
    using unique_string_list_errors [OF 1] unique_string_list_errors [OF 2] 1 2
    by (auto simp: strings_ok_def unique_string_list_def split: option.splits)
  show ?thesis unfolding config_errors_def s p Let_def 1 2
    by (auto simp: filter_empty_conv list_all_iff present_get)
qed

lemma field_errors_none:
  "field_errors str_of d = [] \<longleftrightarrow>
     list_all (has_key d) REQUIRED_FIELDS \<and>
     list_all (\<lambda>k. k \<in> set (REQUIRED_FIELDS @ OPTIONAL_FIELDS)) (dict_keys d) \<and>
     list_all (\<lambda>k. filled (j_get d k)) [''name'', ''description'', ''version'', ''author'', ''minAppVersion''] \<and>
     valid_id (j_get d ''id'')"
proof (cases "list_all (has_key d) REQUIRED_FIELDS")
  case True
  then have "has_key d k" if "k \<in> set REQUIRED_FIELDS" for k using that by (simp add: list_all_iff)
  then have "present d ''name'' bad = bad (j_get d ''name'')" "present d ''description'' bad = bad (j_get d ''description'')"
    "present d ''version'' bad = bad (j_get d ''version'')" "present d ''author'' bad = bad (j_get d ''author'')"
    "present d ''minAppVersion'' bad = bad (j_get d ''minAppVersion'')" "present d ''id'' bad = bad (j_get d ''id'')" for bad
    by (simp_all add: present_get REQUIRED_FIELDS_def)
  with True show ?thesis by (simp add: field_errors_def filter_empty_conv list_all_iff)
next
  case False
  then show ?thesis by (auto simp: field_errors_def filter_empty_conv list_all_iff)
qed

lemma shape_errors_none:
  "shape_errors d = [] \<longleftrightarrow> list_all (\<lambda>k. \<not> present d k (\<lambda>v. j_dict v = None)) [''menu'', ''hints''] \<and>
     list_all (\<lambda>k. \<not> present d k (\<lambda>v. \<not> j_is_str v)) [''homepage'', ''license'']"
  by (auto simp: shape_errors_def)

lemma contract_iff: "validate_manifest_contract str_of builtin raw = Inr [] \<longleftrightarrow> (\<exists>d. raw = JDict d \<and> manifest_ok builtin d)"
proof (cases "j_dict raw")
  case None
  then show ?thesis by (auto simp: validate_manifest_contract_def)
next
  case (Some d)
  then have raw: "raw = JDict d" by (cases raw) auto
  show ?thesis
  proof (cases "has_key d ''type'' \<and> has_key d ''contributes''")
    case True
    then show ?thesis
      by (cases "valid_type (j_get d ''type'')")
        (auto simp: raw validate_manifest_contract_def type_errors_def has_key_get manifest_ok_def field_errors_none
          config_errors_none shape_errors_none contributes_errors_none)
  next
    case False
    then have "\<not> list_all (has_key d) REQUIRED_FIELDS" by (auto simp: REQUIRED_FIELDS_def)
    then show ?thesis by (auto simp: raw validate_manifest_contract_def manifest_ok_def field_errors_none split: sum.splits)
  qed
qed

text \<open>
  The contract accepts a manifest exactly when it is an object with every required field, no
  unknown one, each of the right form, no code contributed by a theme, and every secret or private
  key among the settings it declares (private ones for built-in modules only).
\<close>

theorem manifest_contract_exact:
  "validate_manifest_contract str_of builtin raw = Inr [] \<longleftrightarrow> (\<exists>d. raw = JDict d \<and> manifest_ok builtin d)"
  by (rule contract_iff)

section \<open>What discovery returns\<close>

definition community_ok :: "string list \<Rightarrow> module_info \<Rightarrow> bool" where
  "community_ok disabled m \<longleftrightarrow> id_text (mi_id m) \<and> \<not> mi_builtin m \<and> mi_error m = None \<and>
     (mi_enabled m \<longleftrightarrow> mi_id m \<notin> set disabled) \<and> mi_config_private m = [] \<and> distinct (mi_config_secrets m) \<and>
     list_all (\<lambda>k. k \<in> set (dict_keys (mi_config m)) \<and> j_is_str (j_get (mi_config m) k)) (mi_config_secrets m) \<and>
     list_all (\<lambda>k. k \<in> set VALID_CONTRIBUTES) (dict_keys (mi_contributes m)) \<and>
     (mi_type m = ''theme'' \<longrightarrow> ''collector'' \<notin> set (dict_keys (mi_contributes m)) \<and>
        ''publisher'' \<notin> set (dict_keys (mi_contributes m)) \<and> ''routes'' \<notin> set (dict_keys (mi_contributes m)))"

lemma unique_strings_distinct: "unique_strings v = Some ss \<Longrightarrow> distinct ss"
  by (simp add: unique_strings_def split: option.splits if_splits)

lemma validated_info:
  assumes "validate_manifest str_of raw path False = Inr info"
  shows "community_ok disabled (info\<lparr>mi_enabled := mi_id info \<notin> set disabled\<rparr>)"
proof -
  have acc: "validate_manifest_contract str_of False raw = Inr []" and info: "info = manifest_info (dict_or_empty raw) path False"
    using assms by (auto simp: validate_manifest_def split: sum.splits list.splits)
  then obtain d where raw: "raw = JDict d" and ok: "manifest_ok False d" using contract_iff by blast
  have req: "has_key d k" if "k \<in> set REQUIRED_FIELDS" for k using ok that by (auto simp: manifest_ok_def list_all_iff)
  have get: "dict_get d k v = j_get d k" if "has_key d k" for k v
    using has_key_get [OF that] by (simp add: dict_get_def)
  obtain i where i: "j_get d ''id'' = JStr i" "id_text i"
    using ok by (auto simp: manifest_ok_def valid_id_def split: json.splits)
  obtain t where t: "j_get d ''type'' = JStr t"
    using ok by (auto simp: manifest_ok_def valid_type_def split: json.splits)
  obtain c where c: "j_get d ''contributes'' = JDict c" "contributes_ok (JStr t) (JDict c)"
    using ok t by (auto simp: manifest_ok_def contributes_ok_def split: json.splits)
  obtain ss where ss: "unique_strings (dict_get d ''config_secrets'' (JList [])) = Some ss"
      "list_all (\<lambda>k. has_key (config_of d) k \<and> j_is_str (j_get (config_of d) k)) ss"
    using ok by (auto simp: manifest_ok_def strings_ok_def split: option.splits)
  have np: "dict_get d ''configPrivate'' v = v" for v using ok by (simp add: manifest_ok_def has_key_map dict_get_def)
  have g: "dict_get d ''id'' v = JStr i" "dict_get d ''type'' v = JStr t" "dict_get d ''contributes'' v = JDict c" for v
    using get req i(1) t c(1) by (simp_all add: REQUIRED_FIELDS_def)
  have cfg: "dict_or_empty (dict_get d ''config'' (JDict [])) = config_of d"
    by (simp add: dict_or_empty_def config_of_def)
  have f: "mi_id info = i" "mi_type info = t" "mi_config info = config_of d" "mi_config_secrets info = ss"
    "mi_contributes info = map (\<lambda>(k, v). (k, j_text v)) c" "mi_config_private info = []"
    "\<not> mi_builtin info" "mi_error info = None"
    using ss(1) by (simp_all add: info raw manifest_info_def g np cfg j_text_def Let_def unique_string_list_def
        unique_strings_def [of "JList []"] dict_or_empty_def [of "JDict _"])
  have k: "dict_keys (map (\<lambda>(k, v). (k, j_text v)) c) = dict_keys c" by (induction c) auto
  show ?thesis using i c ss(2) unique_strings_distinct [OF ss(1)]
    by (auto simp: community_ok_def f k has_key_def list_all_iff contributes_ok_def) (metis fst_conv image_eqI)+
qed

definition discovered_ok :: "string list \<Rightarrow> string list \<Rightarrow> string list \<times> module_info list \<Rightarrow> bool" where
  "discovered_ok disabled known s \<longleftrightarrow> set (fst s) = set known \<union> mi_id ` set (snd s) \<and> distinct (map mi_id (snd s)) \<and>
     (\<forall>m \<in> set (snd s). mi_id m \<notin> set known \<and> community_ok disabled m)"

lemma discovered_step:
  assumes "discovered_ok disabled known (seen, modules)" and "mi_id info \<notin> set seen"
    and "community_ok disabled (info\<lparr>mi_enabled := mi_id info \<notin> set disabled\<rparr>)"
  shows "discovered_ok disabled known (mi_id info # seen, modules @ [info\<lparr>mi_enabled := mi_id info \<notin> set disabled\<rparr>])"
  using assms by (auto simp: discovered_ok_def)

lemma parsed_info: "manifest str_of path mf False = Inr info \<Longrightarrow> community_ok disabled (info\<lparr>mi_enabled := mi_id info \<notin> set disabled\<rparr>)"
  by (auto simp: manifest_def intro: validated_info split: manifest_file.splits)

lemma discover_in_ok:
  "discovered_ok disabled known s \<Longrightarrow> discover_in str_of disabled dir es s = Inr s' \<Longrightarrow> discovered_ok disabled known s'"
proof (induction str_of disabled dir es s rule: discover_in.induct)
  case (3 str_of disabled dir entry mf es seen modules)
  show ?case
  proof (cases "manifest str_of (path_join dir entry) mf False")
    case (Inl e)
    with 3 show ?thesis by (cases e) auto
  next
    case (Inr info)
    show ?thesis
    proof (cases "mi_id info \<in> set seen")
      case True
      with 3 Inr show ?thesis by simp
    next
      case False
      from 3(3) [OF Inr False discovered_step [OF 3(4) False parsed_info [OF Inr]]] 3(5) Inr False
      show ?thesis by simp
    qed
  qed
qed simp_all

lemma discover_dirs_ok:
  "discovered_ok disabled known s \<Longrightarrow> discover_dirs str_of disabled ds s = Inr s' \<Longrightarrow> discovered_ok disabled known s'"
  by (induction str_of disabled ds s rule: discover_dirs.induct) (auto split: sum.splits dest: discover_in_ok)

lemma discover_ok:
  assumes "discover_modules str_of search disabled known = Inr ms"
  shows "distinct (map mi_id ms) \<and> list_all (\<lambda>m. mi_id m \<notin> set known \<and> community_ok disabled m) ms"
proof -
  obtain s where s: "discover_dirs str_of disabled search (known, []) = Inr s" "ms = snd s"
    using assms by (auto simp: discover_modules_def map_sum_def split: sum.splits)
  have "discovered_ok disabled known (known, [])" by (simp add: discovered_ok_def)
  from discover_dirs_ok [OF this s(1)] s(2) show ?thesis by (simp add: discovered_ok_def list_all_iff)
qed

text \<open>
  Discovery takes a module only once, by its identifier, and never one of a known identifier;
  each has a checked identifier, secrets among its settings with text defaults, no private keys,
  is enabled unless its identifier is disabled, and contributes no code if it is a theme.
\<close>

theorem discovered_modules_valid:
  assumes "discover_modules str_of search disabled known = Inr ms"
  shows "distinct (map mi_id ms) \<and> list_all (\<lambda>m. mi_id m \<notin> set known \<and> community_ok disabled m) ms"
  by (rule discover_ok [OF assms])

definition example_manifest :: json where
  "example_manifest = JDict [(''id'', JStr ''docsight.weather''), (''name'', JStr ''Weather''), (''description'', JStr ''Temperatures''),
     (''version'', JStr ''1.0''), (''author'', JStr ''me''), (''minAppVersion'', JStr ''2.0''), (''type'', JStr ''integration''),
     (''contributes'', JDict [(''tab'', JStr ''tab.html'')]), (''config'', JDict [(''weather_key'', JStr [])]),
     (''config_secrets'', JList [JStr ''weather_key''])]"

lemma discovered_modules_valid_witness:
  "\<exists>m. discover_modules (\<lambda>v. []) [(''/modules'', Some [(''b'', Some (Parsed example_manifest)), (''a'', Some Unreadable),
       (''c'', Some (Parsed example_manifest))])] [''docsight.weather''] [''docsight.backup''] = Inr [m] \<and>
     mi_path m = ''/modules/b'' \<and> community_ok [''docsight.weather''] m"
proof -
  let ?D = "discover_modules (\<lambda>v. []) [(''/modules'', Some [(''b'', Some (Parsed example_manifest)), (''a'', Some Unreadable),
       (''c'', Some (Parsed example_manifest))])] [''docsight.weather''] [''docsight.backup'']"
  have "map_sum id (map mi_path) ?D = Inr [''/modules/b'']" by code_simp
  then obtain ms where ms: "?D = Inr ms" "map mi_path ms = [''/modules/b'']" by (cases ?D) auto
  then obtain m where m: "ms = [m]" "mi_path m = ''/modules/b''" by auto
  with discovered_modules_valid [OF ms(1)] ms(1) show ?thesis by simp
qed

section \<open>What stops discovery\<close>

text \<open>A manifest that raises instead of being rejected.\<close>

definition raising :: "manifest_file \<Rightarrow> bool" where
  "raising mf \<longleftrightarrow> (case mf of
     Not_Utf8 \<Rightarrow> True
   | Parsed (JDict d) \<Rightarrow> (case map_of d ''type'' of Some (JList vs) \<Rightarrow> True | Some (JDict e) \<Rightarrow> True | _ \<Rightarrow> False)
   | _ \<Rightarrow> False)"

lemma valid_type_raises: "valid_type v = Inl e \<longleftrightarrow> e = TypeError \<and> ((\<exists>vs. v = JList vs) \<or> (\<exists>d. v = JDict d))"
  by (cases v) (auto simp: valid_type_def)

lemma manifest_raises: "(\<exists>e. manifest str_of path mf False = Inl (PyError e)) \<longleftrightarrow> raising mf"
proof (cases mf)
  case (Parsed raw)
  have "(\<exists>e. validate_manifest_contract str_of False raw = Inl e) \<longleftrightarrow> raising mf"
  proof (cases raw)
    case (JDict d)
    then show ?thesis
      by (cases "map_of d ''type''")
        (auto simp: Parsed validate_manifest_contract_def type_errors_def raising_def valid_type_def split: json.splits)
  qed (auto simp: Parsed validate_manifest_contract_def raising_def)
  then show ?thesis by (auto simp: Parsed manifest_def validate_manifest_def split: sum.splits list.splits)
qed (auto simp: manifest_def raising_def)

lemma manifest_error_kind: "manifest str_of path mf False = Inl e \<Longrightarrow> (\<exists>m. e = ManifestError m) \<or> (\<exists>p. e = PyError p)"
  by (auto simp: manifest_def validate_manifest_def split: manifest_file.splits sum.splits list.splits)

lemma discover_in_raises:
  "(\<exists>s'. discover_in str_of disabled dir es s = Inr s') \<longleftrightarrow> \<not> list_ex (\<lambda>(n, f). case f of None \<Rightarrow> False | Some mf \<Rightarrow> raising mf) es"
proof (induction str_of disabled dir es s rule: discover_in.induct)
  case (3 str_of disabled dir entry mf es seen modules)
  note r = manifest_raises [of str_of "path_join dir entry" mf]
  show ?case
  proof (cases "manifest str_of (path_join dir entry) mf False")
    case (Inl e)
    with 3(1) r manifest_error_kind [OF Inl] show ?thesis by (cases e) auto
  next
    case (Inr info)
    with 3(2,3) r show ?thesis by (cases "mi_id info \<in> set seen") auto
  qed
qed auto

text \<open>
  Discovery raises exactly when some directory holds a manifest that is not UTF-8 or whose type
  is a list or an object; every other broken manifest is only skipped.
\<close>

theorem broken_manifest_stops_discovery:
  "(\<exists>ms. discover_modules str_of search disabled known = Inr ms) \<longleftrightarrow>
   \<not> list_ex (\<lambda>(dir, es). list_ex (\<lambda>(n, f). case f of None \<Rightarrow> False | Some mf \<Rightarrow> raising mf)
      (case es of None \<Rightarrow> [] | Some xs \<Rightarrow> xs)) search"
proof -
  have sorted: "list_ex P (sort_key fst xs) = list_ex P xs" for P :: "string \<times> manifest_file option \<Rightarrow> bool" and xs by (simp add: list_ex_iff)
  have "(\<exists>s'. discover_dirs str_of disabled search s = Inr s') \<longleftrightarrow>
    \<not> list_ex (\<lambda>(dir, es). list_ex (\<lambda>(n, f). case f of None \<Rightarrow> False | Some mf \<Rightarrow> raising mf)
        (case es of None \<Rightarrow> [] | Some xs \<Rightarrow> xs)) search" for s
  proof (induction str_of disabled search s rule: discover_dirs.induct)
    case (3 str_of disabled dir es ds s)
    note i = discover_in_raises [of str_of disabled dir "sort_key fst es" s, unfolded sorted]
    show ?case
    proof (cases "discover_in str_of disabled dir (sort_key fst es) s")
      case (Inl e)
      with i show ?thesis by simp
    next
      case (Inr s')
      with i 3 [of s', OF Inr] show ?thesis by simp
    qed
  qed simp_all
  from this [of "(known, [])"] show ?thesis
    by (cases "discover_dirs str_of disabled search (known, [])") (auto simp: discover_modules_def)
qed

end
