(* ===== verification/Module_Registry.thy ===== *)
theory Module_Registry
  imports Module_Manifest Config_Store
begin

text \<open>
  \<^verbatim>\<open>app/module_config_registry.py\<close>, \<^verbatim>\<open>app/registration.py\<close>, \<^verbatim>\<open>app/module_loader.py\<close> and the route check
  of \<^verbatim>\<open>app/module_contributions.py\<close>: who owns a setting, which contributions may be registered
  together, and what the accepted modules leave of the settings' schema.  Importing a module's code
  and files is a parameter (\<open>resolve\<close>: the routes it plans, or the exception's type and text); a view
  function is its identity.
\<close>

section \<open>Ownership of settings\<close>

definition CORE_CONFIG_KEYS :: "string list" where
  "CORE_CONFIG_KEYS = dict_keys DEFAULTS"

definition builtin_setting :: "module_info list \<Rightarrow> string \<Rightarrow> bool" where
  "builtin_setting ms k \<longleftrightarrow> list_ex (\<lambda>m. mi_builtin m \<and> k \<in> set (dict_keys (mi_config m))) ms"

definition protected_secret :: "schema \<Rightarrow> module_info list \<Rightarrow> string \<Rightarrow> bool" where
  "protected_secret S ms k \<longleftrightarrow> k \<in> set CORE_CONFIG_KEYS \<or> k \<in> set (secret_keys S) \<or> k \<in> set HASH_KEYS
     \<or> k \<in> set (private_keys S) \<or> builtin_setting ms k"

definition claims :: "(module_info \<Rightarrow> string list) \<Rightarrow> module_info list \<Rightarrow> (string \<times> module_info list) list" where
  "claims f ms = map (\<lambda>(k, ps). (k, map snd ps)) (group_by fst [] (concat (map (\<lambda>m. map (\<lambda>k. (k, m)) (f m)) ms)))"

definition blame :: "string \<Rightarrow> module_info list \<Rightarrow> (string \<times> string) list \<Rightarrow> (string \<times> string) list" where
  "blame msg ms errors = fold (\<lambda>m. dict_set (mi_id m) msg) ms errors"

definition SECRET_PROTECTED :: string where
  "SECRET_PROTECTED = ''Module secret declaration conflicts with protected configuration''"

definition SECRET_CONFLICT :: string where
  "SECRET_CONFLICT = ''Module secret ownership conflict''"

definition own_secret :: "(string \<Rightarrow> bool) \<Rightarrow> (string \<times> module_info list) list \<Rightarrow> string \<times> module_info list
    \<Rightarrow> (string \<times> string) list \<times> (string \<times> string) list \<Rightarrow> (string \<times> string) list \<times> (string \<times> string) list" where
  "own_secret prot config_claims kc s =
     (case kc of (k, claimants) \<Rightarrow> case s of (owners, errors) \<Rightarrow>
        if prot k then (owners, blame SECRET_PROTECTED claimants errors)
        else let users = dict_get config_claims k [] in
          if length claimants \<noteq> 1 \<or> length users \<noteq> 1 \<or> mi_id (hd users) \<noteq> mi_id (hd claimants)
          then (owners, blame SECRET_CONFLICT (claimants @ users) errors)
          else (dict_set k (mi_id (hd claimants)) owners, errors))"

definition evaluate_module_secret_ownership ::
  "schema \<Rightarrow> module_info list \<Rightarrow> string list \<times> (string \<times> string) list \<times> (string \<times> string) list" where
  "evaluate_module_secret_ownership S ms =
     (let community = filter (\<lambda>m. \<not> mi_builtin m) ms;
          config_claims = claims (\<lambda>m. dict_keys (mi_config m)) community;
          secret_claims = claims mi_config_secrets community
      in (filter (\<lambda>k. \<not> protected_secret S ms k) (dict_keys secret_claims),
          fold (own_secret (protected_secret S ms) config_claims) secret_claims ([], [])))"

definition CONFIG_PROTECTED :: string where
  "CONFIG_PROTECTED = ''Module config ownership conflicts with protected configuration''"

definition CONFIG_CONFLICT :: string where
  "CONFIG_CONFLICT = ''Module config ownership conflict''"

definition evaluate_module_config_ownership :: "module_info list \<Rightarrow> (string \<times> string) list" where
  "evaluate_module_config_ownership ms =
     (let active = filter (\<lambda>m. \<not> mi_builtin m \<and> mi_enabled m) ms;
          prot = (\<lambda>k. k \<in> set CORE_CONFIG_KEYS \<or> builtin_setting ms k);
          errors = blame CONFIG_PROTECTED (filter (\<lambda>m. list_ex prot (dict_keys (mi_config m))) active) []
      in fold (\<lambda>(k, claimants) es. if 1 < length claimants then blame CONFIG_CONFLICT claimants es else es)
           (claims (\<lambda>m. dict_keys (mi_config m)) active) errors)"

section \<open>Plans\<close>

record planned_rule =
  pr_rule :: string
  pr_endpoint :: string
  pr_methods :: "string list"
  pr_source :: string
  pr_view :: "nat option"

definition planned_methods :: "string list \<Rightarrow> string list" where
  "planned_methods ms =
     (let us = map py_upper ms; vs = (if ''GET'' \<in> set us then ''HEAD'' # us else us)
      in sort (remdups (''OPTIONS'' # vs)))"

record planned_blueprint =
  pb_name :: string
  pb_source :: string
  pb_rules :: "planned_rule list"
  pb_registered_names :: "string list"

record contribution =
  mc_module_id :: string
  mc_source :: string
  mc_version :: string
  mc_builtin :: bool
  mc_config :: "(string \<times> json) list"
  mc_secret_keys :: "string list"
  mc_private_keys :: "string list"

record plan =
  rp_rules :: "planned_rule list"
  rp_blueprints :: "planned_blueprint list"
  rp_modules :: "contribution list"
  rp_secret_keys :: "string list"
  rp_secret_owners :: "(string \<times> string) list"
  rp_private_keys :: "string list"

definition empty_plan :: plan where
  "empty_plan = \<lparr>rp_rules = [], rp_blueprints = [], rp_modules = [], rp_secret_keys = [], rp_secret_owners = [], rp_private_keys = []\<rparr>"

definition combined :: "plan list \<Rightarrow> plan" where
  "combined ps =
     \<lparr>rp_rules = concat (map rp_rules ps), rp_blueprints = concat (map rp_blueprints ps), rp_modules = concat (map rp_modules ps),
      rp_secret_keys = sort (remdups (concat (map rp_secret_keys ps))),
      rp_secret_owners = sort_key fst (dict_update [] (concat (map rp_secret_owners ps))),
      rp_private_keys = sort (remdups (concat (map rp_private_keys ps)))\<rparr>"

text \<open>The loops over a dictionary that keeps the first claimant of a key and reports the later ones.\<close>

fun collisions :: "('a \<Rightarrow> 'a \<Rightarrow> bool) \<Rightarrow> ('k \<Rightarrow> 'a \<Rightarrow> 'a \<Rightarrow> string) \<Rightarrow> ('k \<times> 'a) list \<Rightarrow> ('k \<times> 'a) list \<Rightarrow> string list" where
  "collisions same msg d [] = []"
| "collisions same msg d ((k, x) # ps) =
     (case map_of d k of
        None \<Rightarrow> collisions same msg (dict_set k x d) ps
      | Some y \<Rightarrow> (if same y x then [] else [msg k y x]) @ collisions same msg d ps)"

definition same_endpoint :: "planned_rule \<Rightarrow> planned_rule \<Rightarrow> bool" where
  "same_endpoint r q \<longleftrightarrow> pr_source r = pr_source q \<and> pr_view r = pr_view q"

definition same_route :: "planned_rule \<Rightarrow> planned_rule \<Rightarrow> bool" where
  "same_route r q \<longleftrightarrow> pr_source r = pr_source q \<and> pr_endpoint r = pr_endpoint q \<and> pr_view r = pr_view q"

definition config_claimed :: "plan \<Rightarrow> (string \<times> string) list" where
  "config_claimed p = concat (map (\<lambda>m. map (\<lambda>k. (k, mc_module_id m)) (dict_keys (mc_config m))) (rp_modules p))"

definition secrets_claimed :: "plan \<Rightarrow> (string \<times> string) list" where
  "secrets_claimed p =
     concat (map (\<lambda>m. map (\<lambda>k. (k, mc_module_id m)) (mc_secret_keys m)) (rp_modules p)) @ rp_secret_owners p"

definition names_claimed :: "plan \<Rightarrow> (string \<times> string) list" where
  "names_claimed p =
     concat (map (\<lambda>b. map (\<lambda>n. (n, pb_source b)) (if pb_registered_names b = [] then [pb_name b] else pb_registered_names b)) (rp_blueprints p))"

definition all_rules :: "planned_rule list \<Rightarrow> plan \<Rightarrow> planned_rule list" where
  "all_rules existing p = existing @ rp_rules p @ concat (map pb_rules (rp_blueprints p))"

definition routes_claimed :: "planned_rule list \<Rightarrow> ((string \<times> string) \<times> planned_rule) list" where
  "routes_claimed rs = concat (map (\<lambda>r. map (\<lambda>m. ((pr_rule r, m), r)) (filter (\<lambda>m. m \<noteq> ''OPTIONS'') (pr_methods r))) rs)"

definition between :: "string \<Rightarrow> string \<Rightarrow> string \<Rightarrow> string" where
  "between what a b = what @ '' between '' @ a @ '' and '' @ b"

text \<open>Every collision of a plan: identifiers, settings, secrets, blueprint names, endpoints, routes.\<close>

definition plan_errors :: "planned_rule list \<Rightarrow> string list \<Rightarrow> plan \<Rightarrow> string list" where
  "plan_errors existing existing_blueprints p =
     collisions (\<lambda>_ _. False) (\<lambda>k _ _. ''duplicate module id '' @ quoted k) [] (map (\<lambda>m. (mc_module_id m, ())) (rp_modules p))
     @ collisions (=) (\<lambda>k a b. between ''config key collision'' a b) [] (config_claimed p)
     @ collisions (=) (\<lambda>k a b. between ''secret ownership collision'' a b) [] (secrets_claimed p)
     @ collisions (\<lambda>_ _. False) (\<lambda>k a b. between (''blueprint name collision '' @ quoted k) a b)
         (map (\<lambda>n. (n, ''existing'')) existing_blueprints) (names_claimed p)
     @ collisions same_endpoint (\<lambda>k a b. between (''endpoint collision '' @ quoted k) (pr_source a) (pr_source b)) []
         (map (\<lambda>r. (pr_endpoint r, r)) (all_rules existing p))
     @ collisions same_route (\<lambda>k a b. between (''route/method collision '' @ quoted (fst k) @ '' '' @ snd k) (pr_source a) (pr_source b)) []
         (routes_claimed (all_rules existing p))"

definition validate_plan :: "planned_rule list \<Rightarrow> string list \<Rightarrow> plan \<Rightarrow> module_error + unit" where
  "validate_plan existing existing_blueprints p =
     (let errors = plan_errors existing existing_blueprints p in
      if errors \<noteq> [] then Inl (RegistrationError (py_join ''; '' (sort (remdups errors)))) else Inr ())"

section \<open>Collisions\<close>

definition agree :: "('a \<Rightarrow> 'a \<Rightarrow> bool) \<Rightarrow> ('k \<times> 'a) list \<Rightarrow> bool" where
  "agree same ps \<longleftrightarrow> (\<forall>p \<in> set ps. \<forall>q \<in> set ps. fst p = fst q \<longrightarrow> same (snd p) (snd q))"

lemma collisions_first:
  assumes "\<And>a. same a a"
  shows "collisions same msg d ps = [] \<longleftrightarrow> (\<forall>p \<in> set ps. same (the (map_of (d @ ps) (fst p))) (snd p))"
proof (induction ps arbitrary: d)
  case (Cons p ps)
  obtain k x where p: "p = (k, x)" by (cases p)
  show ?case
  proof (cases "map_of d k")
    case None
    then have "dict_set k x d = d @ [(k, x)]" by (simp add: keys_dict_set_new map_of_eq_None_iff)
    with Cons.IH [of "d @ [(k, x)]"] None assms show ?thesis by (simp add: p map_add_def)
  next
    case (Some y)
    have "map_of (d @ (k, x) # ps) = map_of (d @ ps)" by (rule ext) (simp add: map_add_def Some split: option.split)
    with Cons.IH [of d] Some show ?thesis by (auto simp: p map_add_def)
  qed
qed simp

lemma collisions_agree:
  assumes "reflp same" and "symp same" and "transp same"
  shows "collisions same msg [] ps = [] \<longleftrightarrow> agree same ps"
proof -
  have first: "(fst p, the (map_of ps (fst p))) \<in> set ps" if "p \<in> set ps" for p
  proof -
    have "map_of ps (fst p) \<noteq> None" using that by (simp add: map_of_eq_None_iff)
    then show ?thesis by (auto intro: map_of_SomeD)
  qed
  have "(\<forall>p \<in> set ps. same (the (map_of ps (fst p))) (snd p)) \<longleftrightarrow> agree same ps"
  proof
    assume f: "\<forall>p \<in> set ps. same (the (map_of ps (fst p))) (snd p)"
    have "same (snd p) (snd q)" if "p \<in> set ps" "q \<in> set ps" "fst p = fst q" for p q
      using f that assms(2,3) by (metis sympD transpD)
    then show "agree same ps" by (simp add: agree_def)
  next
    assume "agree same ps"
    then show "\<forall>p \<in> set ps. same (the (map_of ps (fst p))) (snd p)"
      using first unfolding agree_def by (metis fst_conv snd_conv)
  qed
  with collisions_first [of same msg "[]" ps] assms(1) show ?thesis by (simp add: reflpD)
qed

lemma collisions_distinct:
  "collisions (\<lambda>_ _. False) msg d ps = [] \<longleftrightarrow> distinct (map fst ps) \<and> fst ` set ps \<inter> fst ` set d = {}"
proof (induction "\<lambda>(_ :: 'a) (_ :: 'a). False" msg d ps rule: collisions.induct)
  case (2 msg d k x ps)
  show ?case
  proof (cases "map_of d k")
    case None
    then have "k \<notin> fst ` set d" by (simp add: map_of_eq_None_iff)
    with 2(1) [OF None] None show ?thesis using set_keys_dict_set [of k x d] by auto
  next
    case (Some y)
    then have "k \<in> fst ` set d" by (metis domI dom_map_of_conv_image_fst)
    with Some show ?thesis by simp
  qed
qed simp

definition plan_valid :: "planned_rule list \<Rightarrow> string list \<Rightarrow> plan \<Rightarrow> bool" where
  "plan_valid existing names p \<longleftrightarrow>
     distinct (map mc_module_id (rp_modules p)) \<and> agree (=) (config_claimed p) \<and> agree (=) (secrets_claimed p) \<and>
     distinct (map fst (names_claimed p)) \<and> set (map fst (names_claimed p)) \<inter> set names = {} \<and>
     agree same_endpoint (map (\<lambda>r. (pr_endpoint r, r)) (all_rules existing p)) \<and>
     agree same_route (routes_claimed (all_rules existing p))"

lemma validate_plan_iff: "validate_plan existing names p = Inr () \<longleftrightarrow> plan_valid existing names p"
proof -
  have e: "reflp same_endpoint" "symp same_endpoint" "transp same_endpoint"
    by (auto simp: reflp_def symp_def transp_def same_endpoint_def)
  have r: "reflp same_route" "symp same_route" "transp same_route"
    by (auto simp: reflp_def symp_def transp_def same_route_def)
  have q: "reflp (=)" "symp (=)" "transp (=)" by (auto simp: reflp_def symp_def transp_def)
  have n: "fst ` set (map (\<lambda>n. (n, x)) names) = set names" for x :: string by force
  have i: "map fst (map (\<lambda>m. (mc_module_id m, ())) ms) = map mc_module_id ms" for ms by simp
  show ?thesis
    unfolding validate_plan_def plan_errors_def plan_valid_def Let_def append_is_Nil_conv collisions_distinct
      collisions_agree [OF e] collisions_agree [OF r] collisions_agree [OF q] n i
    by auto
qed

text \<open>
  A plan is valid exactly when no two modules share an identifier, no setting or secret has two
  owners, no blueprint name is taken twice, and rules of the same endpoint, or of the same path and
  method, come from the same source and view.
\<close>

theorem plan_collisions_exact:
  "validate_plan existing names p = Inr () \<longleftrightarrow> plan_valid existing names p"
  by (rule validate_plan_iff)

section \<open>Claims\<close>

definition modules_wf :: "module_info list \<Rightarrow> bool" where
  "modules_wf ms \<longleftrightarrow> list_all (\<lambda>m. distinct (dict_keys (mi_config m)) \<and> distinct (mi_config_secrets m)) ms"

lemma claimed_pairs:
  assumes "list_all (\<lambda>m. distinct (f m)) ms"
  shows "filter (\<lambda>p. fst p = k) (concat (map (\<lambda>m. map (\<lambda>k. (k, m)) (f m)) ms)) = map (Pair k) (filter (\<lambda>m. k \<in> set (f m)) ms)"
  using assms
proof (induction ms)
  case (Cons m ms)
  have "filter (\<lambda>p. fst p = k) (map (\<lambda>k. (k, m)) ks) = (if k \<in> set ks then [(k, m)] else [])" if "distinct ks" for ks
    using that by (induction ks) (auto simp: filter_empty_conv)
  with Cons show ?case by simp
qed simp

lemma claims_get:
  assumes "list_all (\<lambda>m. distinct (f m)) ms"
  shows "dict_get (claims f ms) k [] = filter (\<lambda>m. k \<in> set (f m)) ms"
    and "map_of (claims f ms) k = (if \<exists>m \<in> set ms. k \<in> set (f m) then Some (filter (\<lambda>m. k \<in> set (f m)) ms) else None)"
    and "set (dict_keys (claims f ms)) = (\<Union>m \<in> set ms. set (f m))" and "distinct (dict_keys (claims f ms))"
proof -
  let ?ps = "concat (map (\<lambda>m. map (\<lambda>k. (k, m)) (f m)) ms)"
  have keys: "dict_keys (claims f ms) = dict_keys (group_by fst [] ?ps)" by (simp add: claims_def case_prod_beta o_def)
  have "fst ` set ?ps = (\<Union>m \<in> set ms. set (f m))" by (auto simp: image_iff)
  then show s: "set (dict_keys (claims f ms)) = (\<Union>m \<in> set ms. set (f m))"
    unfolding keys group_by_keys by simp
  show "distinct (dict_keys (claims f ms))" unfolding keys by (rule group_by_distinct) simp
  have "dict_get (group_by fst [] ?ps) k [] = map (Pair k) (filter (\<lambda>m. k \<in> set (f m)) ms)"
    unfolding group_by_get claimed_pairs [OF assms] by (simp add: dict_get_def)
  moreover have "map_of (claims f ms) k = map_option (map snd) (map_of (group_by fst [] ?ps) k)"
    unfolding claims_def by (simp only: map_of_map comp_apply)
  ultimately show g: "dict_get (claims f ms) k [] = filter (\<lambda>m. k \<in> set (f m)) ms"
    by (cases "map_of (group_by fst [] ?ps) k") (auto simp: dict_get_def o_def)
  show "map_of (claims f ms) k = (if \<exists>m \<in> set ms. k \<in> set (f m) then Some (filter (\<lambda>m. k \<in> set (f m)) ms) else None)"
  proof (cases "map_of (claims f ms) k")
    case None
    then have "k \<notin> set (dict_keys (claims f ms))" by (simp add: map_of_eq_None_iff)
    with None s show ?thesis by auto
  next
    case (Some cs)
    then have "k \<in> set (dict_keys (claims f ms))" by (metis domI dom_map_of_conv_image_fst set_map)
    then have "\<exists>m \<in> set ms. k \<in> set (f m)" unfolding s by auto
    with Some g show ?thesis by (simp add: dict_get_def)
  qed
qed

section \<open>Who owns a secret\<close>

definition decided :: "(string \<Rightarrow> bool) \<Rightarrow> (string \<times> module_info list) list \<Rightarrow> string \<times> module_info list \<Rightarrow> bool" where
  "decided prot cc kc \<longleftrightarrow> \<not> prot (fst kc) \<and> length (snd kc) = 1 \<and> length (dict_get cc (fst kc) []) = 1 \<and>
     mi_id (hd (dict_get cc (fst kc) [])) = mi_id (hd (snd kc))"

definition blamed :: "(string \<Rightarrow> bool) \<Rightarrow> (string \<times> module_info list) list \<Rightarrow> string \<times> module_info list \<Rightarrow> module_info list" where
  "blamed prot cc kc = (if prot (fst kc) then snd kc else if decided prot cc kc then [] else snd kc @ dict_get cc (fst kc) [])"

lemma blame_keys: "set (dict_keys (blame msg ms es)) = mi_id ` set ms \<union> set (dict_keys es)"
proof (induction ms arbitrary: es)
  case (Cons m ms)
  have "blame msg (m # ms) es = blame msg ms (dict_set (mi_id m) msg es)" by (simp add: blame_def)
  with Cons [of "dict_set (mi_id m) msg es"] set_keys_dict_set [of "mi_id m" msg es] show ?case by auto
qed (simp add: blame_def)

lemma own_secret_step:
  "own_secret prot cc kc (ow, er) =
     (if decided prot cc kc then dict_set (fst kc) (mi_id (hd (snd kc))) ow else ow,
      if decided prot cc kc then er else blame (if prot (fst kc) then SECRET_PROTECTED else SECRET_CONFLICT) (blamed prot cc kc) er)"
  by (cases kc) (auto simp: own_secret_def decided_def blamed_def Let_def)

lemma own_fold:
  assumes "distinct (dict_keys kcs)" and "fold (own_secret prot cc) kcs (ow, er) = (ow', er')"
  shows "map_of ow' k = (case map_of kcs k of
      Some cs \<Rightarrow> if decided prot cc (k, cs) then Some (mi_id (hd cs)) else map_of ow k | None \<Rightarrow> map_of ow k)"
    and "set (dict_keys er') = set (dict_keys er) \<union> (\<Union>kc \<in> set kcs. mi_id ` set (blamed prot cc kc))"
proof -
  have "map_of ow' k = (case map_of kcs k of
      Some cs \<Rightarrow> if decided prot cc (k, cs) then Some (mi_id (hd cs)) else map_of ow k | None \<Rightarrow> map_of ow k) \<and>
    set (dict_keys er') = set (dict_keys er) \<union> (\<Union>kc \<in> set kcs. mi_id ` set (blamed prot cc kc))"
    using assms
  proof (induction kcs arbitrary: ow er)
    case (Cons kc kcs)
    obtain j cs where kc: "kc = (j, cs)" by (cases kc)
    have new: "map_of kcs j = None" using Cons.prems(1) by (simp add: kc map_of_eq_None_iff)
    obtain ow1 er1 where s: "own_secret prot cc kc (ow, er) = (ow1, er1)" by fastforce
    have ih: "map_of ow' k = (case map_of kcs k of
        Some cs \<Rightarrow> if decided prot cc (k, cs) then Some (mi_id (hd cs)) else map_of ow1 k | None \<Rightarrow> map_of ow1 k)"
      "set (dict_keys er') = set (dict_keys er1) \<union> (\<Union>kc \<in> set kcs. mi_id ` set (blamed prot cc kc))"
      using Cons.IH [of ow1 er1] Cons.prems s by simp_all
    have o: "map_of ow1 = (if decided prot cc kc then (map_of ow)(j \<mapsto> mi_id (hd cs)) else map_of ow)"
      using s unfolding own_secret_step by (auto simp: kc)
    have e: "set (dict_keys er1) = set (dict_keys er) \<union> mi_id ` set (blamed prot cc kc)"
    proof (cases "decided prot cc kc")
      case True
      then have "blamed prot cc kc = []" by (auto simp: blamed_def decided_def)
      with True s show ?thesis unfolding own_secret_step by auto
    next
      case False
      with s show ?thesis unfolding own_secret_step by (auto simp only: Pair_inject if_False blame_keys)
    qed
    show ?case using ih o e new by (auto simp: kc split: option.splits if_splits)
  qed simp
  then show "map_of ow' k = (case map_of kcs k of
      Some cs \<Rightarrow> if decided prot cc (k, cs) then Some (mi_id (hd cs)) else map_of ow k | None \<Rightarrow> map_of ow k)"
    and "set (dict_keys er') = set (dict_keys er) \<union> (\<Union>kc \<in> set kcs. mi_id ` set (blamed prot cc kc))" by simp_all
qed

definition secret_claimants :: "module_info list \<Rightarrow> string \<Rightarrow> module_info list" where
  "secret_claimants ms k = filter (\<lambda>m. \<not> mi_builtin m \<and> k \<in> set (mi_config_secrets m)) ms"

definition setting_users :: "module_info list \<Rightarrow> string \<Rightarrow> module_info list" where
  "setting_users ms k = filter (\<lambda>m. \<not> mi_builtin m \<and> k \<in> set (dict_keys (mi_config m))) ms"

lemma single_same:
  "map f xs = [f (hd xs)] \<and> map f ys = [f (hd xs)] \<longleftrightarrow> length xs = 1 \<and> length ys = 1 \<and> f (hd ys) = f (hd xs)"
  by (cases xs; cases ys) auto

lemma secret_evaluation:
  assumes "modules_wf ms" and "evaluate_module_secret_ownership S ms = (resv, owners, errors)"
  shows "k \<in> set resv \<longleftrightarrow> \<not> protected_secret S ms k \<and> secret_claimants ms k \<noteq> []"
    and "map_of owners k = Some i \<longleftrightarrow>
      \<not> protected_secret S ms k \<and> map mi_id (secret_claimants ms k) = [i] \<and> map mi_id (setting_users ms k) = [i]"
    and "i \<in> set (dict_keys errors) \<longleftrightarrow> (\<exists>k. secret_claimants ms k \<noteq> [] \<and> map_of owners k = None \<and>
      i \<in> mi_id ` set (secret_claimants ms k @ (if protected_secret S ms k then [] else setting_users ms k)))"
proof -
  let ?c = "filter (\<lambda>m. \<not> mi_builtin m) ms"
  let ?cc = "claims (\<lambda>m. dict_keys (mi_config m)) ?c" and ?sc = "claims mi_config_secrets ?c" and ?p = "protected_secret S ms"
  have wf: "list_all (\<lambda>m. distinct (dict_keys (mi_config m))) ?c" "list_all (\<lambda>m. distinct (mi_config_secrets m)) ?c"
    using assms(1) by (auto simp: modules_wf_def list_all_iff)
  have sec: "filter (\<lambda>m. k \<in> set (mi_config_secrets m)) ?c = secret_claimants ms k" for k
    by (simp add: secret_claimants_def conj_commute)
  have use: "dict_get ?cc k [] = setting_users ms k" for k
    unfolding claims_get(1) [OF wf(1)] by (simp add: setting_users_def conj_commute)
  have sc: "map_of ?sc k = (if secret_claimants ms k \<noteq> [] then Some (secret_claimants ms k) else None)" for k
    unfolding claims_get(2) [OF wf(2)] sec by (auto simp: secret_claimants_def filter_empty_conv)
  have mem: "kc \<in> set ?sc \<longleftrightarrow> snd kc = secret_claimants ms (fst kc) \<and> secret_claimants ms (fst kc) \<noteq> []" for kc
    using map_of_eq_Some_iff_mem [OF claims_get(4) [OF wf(2)], of "fst kc" "snd kc"] sc [of "fst kc"] by (auto split: if_splits)
  have r: "resv = filter (\<lambda>k. \<not> ?p k) (dict_keys ?sc)" and f: "fold (own_secret ?p ?cc) ?sc ([], []) = (owners, errors)"
    using assms(2) by (simp_all add: evaluate_module_secret_ownership_def Let_def)
  have "k \<in> set (dict_keys ?sc) \<longleftrightarrow> map_of ?sc k \<noteq> None" for k by (simp add: map_of_eq_None_iff)
  then show "k \<in> set resv \<longleftrightarrow> \<not> protected_secret S ms k \<and> secret_claimants ms k \<noteq> []"
    unfolding r by (auto simp: sc)
  have dec: "decided ?p ?cc (k, secret_claimants ms k) \<longleftrightarrow> \<not> ?p k \<and> map mi_id (secret_claimants ms k) = [mi_id (hd (secret_claimants ms k))] \<and>
      map mi_id (setting_users ms k) = [mi_id (hd (secret_claimants ms k))]" for k
    unfolding decided_def fst_conv snd_conv use single_same [where f = mi_id] by blast
  have own: "map_of owners k = (if secret_claimants ms k \<noteq> [] \<and> decided ?p ?cc (k, secret_claimants ms k)
      then Some (mi_id (hd (secret_claimants ms k))) else None)" for k
    using own_fold(1) [OF claims_get(4) [OF wf(2)] f, of k] by (simp add: sc)
  show "map_of owners k = Some i \<longleftrightarrow>
      \<not> protected_secret S ms k \<and> map mi_id (secret_claimants ms k) = [i] \<and> map mi_id (setting_users ms k) = [i]"
    unfolding own dec by auto
  have "set (dict_keys errors) = (\<Union>kc \<in> set ?sc. mi_id ` set (blamed ?p ?cc kc))"
    using own_fold(2) [OF claims_get(4) [OF wf(2)] f] by simp
  also have "\<dots> = (\<Union>k \<in> {k. secret_claimants ms k \<noteq> []}. mi_id ` set (blamed ?p ?cc (k, secret_claimants ms k)))"
    by (force simp: mem)
  finally have err: "set (dict_keys errors) = \<dots>" .
  have "blamed ?p ?cc (k, secret_claimants ms k) =
      (if map_of owners k = None then secret_claimants ms k @ (if ?p k then [] else setting_users ms k) else [])"
    if "secret_claimants ms k \<noteq> []" for k
    using that unfolding own blamed_def fst_conv snd_conv use by (auto simp: decided_def)
  then show "i \<in> set (dict_keys errors) \<longleftrightarrow> (\<exists>k. secret_claimants ms k \<noteq> [] \<and> map_of owners k = None \<and>
      i \<in> mi_id ` set (secret_claimants ms k @ (if protected_secret S ms k then [] else setting_users ms k)))"
    unfolding err by (auto split: if_splits)
qed

text \<open>
  A secret declared by community modules is owned by the one of them that declares it and the
  one that uses it, if these are the same single module and the key is not protected; otherwise
  every module that declares it, and every one that uses it unless it is protected, has an error.
\<close>

theorem secret_ownership_exact:
  assumes "modules_wf ms" and "evaluate_module_secret_ownership S ms = (resv, owners, errors)"
  shows "(k \<in> set resv \<longleftrightarrow> \<not> protected_secret S ms k \<and> secret_claimants ms k \<noteq> []) \<and>
    (map_of owners k = Some i \<longleftrightarrow>
      \<not> protected_secret S ms k \<and> map mi_id (secret_claimants ms k) = [i] \<and> map mi_id (setting_users ms k) = [i]) \<and>
    (i \<in> set (dict_keys errors) \<longleftrightarrow> (\<exists>k. secret_claimants ms k \<noteq> [] \<and> map_of owners k = None \<and>
      i \<in> mi_id ` set (secret_claimants ms k @ (if protected_secret S ms k then [] else setting_users ms k))))"
  by (intro conjI secret_evaluation [OF assms])

section \<open>Who owns a setting\<close>

lemma conflict_keys:
  "set (dict_keys (fold (\<lambda>(k, cs) es. if 1 < length cs then blame CONFIG_CONFLICT cs es else es) kcs es)) =
   set (dict_keys es) \<union> (\<Union>kc \<in> set kcs. if 1 < length (snd kc) then mi_id ` set (snd kc) else {})"
proof (induction kcs arbitrary: es)
  case (Cons kc kcs)
  obtain k cs where kc: "kc = (k, cs)" by (cases kc)
  show ?case
  proof (cases "1 < length cs")
    case True
    then show ?thesis using Cons [of "blame CONFIG_CONFLICT cs es"] blame_keys [of CONFIG_CONFLICT cs es]
      by (simp add: kc Un_assoc Un_commute Un_left_commute)
  next
    case False
    with Cons [of es] show ?thesis by (simp add: kc)
  qed
qed simp

definition active_users :: "module_info list \<Rightarrow> string \<Rightarrow> module_info list" where
  "active_users ms k = filter (\<lambda>m. \<not> mi_builtin m \<and> mi_enabled m \<and> k \<in> set (dict_keys (mi_config m))) ms"

lemma config_evaluation:
  assumes "modules_wf ms"
  shows "i \<in> set (dict_keys (evaluate_module_config_ownership ms)) \<longleftrightarrow>
    (\<exists>k. i \<in> mi_id ` set (active_users ms k) \<and> (k \<in> set CORE_CONFIG_KEYS \<or> builtin_setting ms k \<or> 1 < length (active_users ms k)))"
proof -
  let ?a = "filter (\<lambda>m. \<not> mi_builtin m \<and> mi_enabled m) ms" and ?p = "\<lambda>k. k \<in> set CORE_CONFIG_KEYS \<or> builtin_setting ms k"
  let ?cc = "claims (\<lambda>m. dict_keys (mi_config m)) ?a"
  have wf: "list_all (\<lambda>m. distinct (dict_keys (mi_config m))) ?a" using assms by (auto simp: modules_wf_def list_all_iff)
  have cc: "map_of ?cc k = (if active_users ms k \<noteq> [] then Some (active_users ms k) else None)" for k
    unfolding claims_get(2) [OF wf] by (auto simp: active_users_def filter_empty_conv conj_ac)
  have mem: "kc \<in> set ?cc \<longleftrightarrow> snd kc = active_users ms (fst kc) \<and> active_users ms (fst kc) \<noteq> []" for kc
    using map_of_eq_Some_iff_mem [OF claims_get(4) [OF wf], of "fst kc" "snd kc"] cc [of "fst kc"] by (auto split: if_splits)
  have prot: "mi_id ` set (filter (\<lambda>m. list_ex ?p (dict_keys (mi_config m))) ?a) = (\<Union>k \<in> {k. ?p k}. mi_id ` set (active_users ms k))"
    unfolding active_users_def list_ex_iff by fastforce
  have many: "(\<Union>kc \<in> set ?cc. if 1 < length (snd kc) then mi_id ` set (snd kc) else {}) =
      (\<Union>k \<in> {k. 1 < length (active_users ms k)}. mi_id ` set (active_users ms k))" (is "?l = ?r")
  proof
    show "?l \<subseteq> ?r" by (auto simp: mem split: if_splits)
    show "?r \<subseteq> ?l"
    proof
      fix i assume "i \<in> ?r"
      then obtain k where k: "1 < length (active_users ms k)" "i \<in> mi_id ` set (active_users ms k)" by blast
      then have "(k, active_users ms k) \<in> set ?cc" by (auto simp: mem)
      with k show "i \<in> ?l" by (intro UN_I [of "(k, active_users ms k)"]) simp_all
    qed
  qed
  have "set (dict_keys (evaluate_module_config_ownership ms)) =
      (\<Union>k \<in> {k. ?p k}. mi_id ` set (active_users ms k)) \<union> (\<Union>k \<in> {k. 1 < length (active_users ms k)}. mi_id ` set (active_users ms k))"
    unfolding evaluate_module_config_ownership_def Let_def conflict_keys blame_keys prot many by simp
  then show ?thesis by blast
qed

text \<open>
  An enabled community module has an error of its settings exactly when one of them is a setting
  of the core or of a built-in module, or is used by a second enabled community module.
\<close>

theorem config_ownership_exact:
  assumes "modules_wf ms"
  shows "i \<in> set (dict_keys (evaluate_module_config_ownership ms)) \<longleftrightarrow>
    (\<exists>k. i \<in> mi_id ` set (active_users ms k) \<and> (k \<in> set CORE_CONFIG_KEYS \<or> builtin_setting ms k \<or> 1 < length (active_users ms k)))"
  by (rule config_evaluation [OF assms])

definition plain_module :: "string \<Rightarrow> string list \<Rightarrow> string list \<Rightarrow> module_info" where
  "plain_module i settings secrets = (manifest_info [] [] False)\<lparr>mi_id := i, mi_config := map (\<lambda>k. (k, JStr [])) settings, mi_config_secrets := secrets\<rparr>"

text \<open>Two modules that use the same secret, and one with a secret of its own.\<close>

definition three_modules :: "module_info list" where
  "three_modules = [plain_module ''a.one'' [''shared_key'', ''own_key''] [''shared_key'', ''own_key''],
     plain_module ''a.two'' [''shared_key''] [], plain_module ''a.three'' [''modem_url''] []]"

lemma three_modules_wf: "modules_wf three_modules"
  by code_simp

lemma secret_ownership_exact_witness:
  "\<exists>resv owners errors. evaluate_module_secret_ownership initial_schema three_modules = (resv, owners, errors) \<and>
     map_of owners ''own_key'' = Some ''a.one'' \<and> ''a.two'' \<in> set (dict_keys errors)"
proof -
  obtain resv owners errors where e: "evaluate_module_secret_ownership initial_schema three_modules = (resv, owners, errors)"
    by (metis prod_cases3)
  note x = secret_ownership_exact [OF three_modules_wf e]
  have p: "\<not> protected_secret initial_schema three_modules ''own_key''" "\<not> protected_secret initial_schema three_modules ''shared_key''"
    by code_simp+
  have c: "map mi_id (secret_claimants three_modules ''own_key'') = [''a.one'']" "map mi_id (setting_users three_modules ''own_key'') = [''a.one'']"
    "map mi_id (secret_claimants three_modules ''shared_key'') = [''a.one'']" "map mi_id (setting_users three_modules ''shared_key'') = [''a.one'', ''a.two'']"
    by code_simp+
  have own: "map_of owners ''own_key'' = Some ''a.one''" using x [of "''own_key''" "''a.one''"] p c by blast
  have "map_of owners ''shared_key'' = None"
  proof (cases "map_of owners ''shared_key''")
    case (Some i)
    with x [of "''shared_key''" i] c show ?thesis by simp
  qed
  moreover have "''a.two'' \<in> mi_id ` set (setting_users three_modules ''shared_key'')"
    using arg_cong [OF c(4), of set] by simp
  moreover have "secret_claimants three_modules ''shared_key'' \<noteq> []" using c(3) by auto
  ultimately have "''a.two'' \<in> set (dict_keys errors)"
    using p(2) by (intro iffD2 [OF conjunct2 [OF conjunct2 [OF x]]] exI [of _ "''shared_key''"]) (simp add: image_Un)
  with own e show ?thesis by blast
qed

lemma config_ownership_exact_witness:
  "''a.three'' \<in> set (dict_keys (evaluate_module_config_ownership three_modules)) \<and>
   ''a.two'' \<in> set (dict_keys (evaluate_module_config_ownership three_modules))"
proof -
  have u: "map mi_id (active_users three_modules ''modem_url'') = [''a.three'']"
    "map mi_id (active_users three_modules ''shared_key'') = [''a.one'', ''a.two'']" by code_simp+
  have k: "''modem_url'' \<in> set CORE_CONFIG_KEYS" by code_simp
  have "''a.three'' \<in> mi_id ` set (active_users three_modules ''modem_url'')" "''a.two'' \<in> mi_id ` set (active_users three_modules ''shared_key'')"
    using arg_cong [OF u(1), of set] arg_cong [OF u(2), of set] by simp_all
  moreover have "1 < length (active_users three_modules ''shared_key'')" using arg_cong [OF u(2), of length] by simp
  ultimately show ?thesis
    using config_ownership_exact [OF three_modules_wf, of "''a.three''"] config_ownership_exact [OF three_modules_wf, of "''a.two''"] k
    by blast
qed

end
