(* ===== verification/Module_Loader.thy ===== *)
theory Module_Loader
  imports Module_Registry
begin

text \<open>
  \<^verbatim>\<open>ModuleLoader.load_all\<close> of \<^verbatim>\<open>app/module_loader.py\<close>, the route check of
  \<^verbatim>\<open>app/module_contributions.py\<close> and what \<^verbatim>\<open>register_plan\<close> of \<^verbatim>\<open>app/registration.py\<close> does to the schema of
  the settings.  Resolving a module's contributions reads files and imports code: it is a parameter,
  which gives the plan of its routes or the type and text of the exception; so is the preview of a
  disabled theme, which gives its error.
\<close>

section \<open>Routes of community modules\<close>

definition PROTECTED_ROUTES :: "string list" where
  "PROTECTED_ROUTES = [''/'', ''/login'', ''/logout'', ''/setup'', ''/settings'', ''/health'', ''/sw.js'']"

definition PROTECTED_API_PREFIXES :: "string list" where
  "PROTECTED_API_PREFIXES =
     [''/api/config'', ''/api/data'', ''/api/tokens'', ''/api/demo'',
      ''/api/poll'', ''/api/status'', ''/api/history'', ''/api/events'', ''/api/trends'',
      ''/api/export'', ''/api/correlation'', ''/api/modules/'', ''/api/themes/'']"

definition rstrip_slashes :: "string \<Rightarrow> string" where
  "rstrip_slashes s = rev (dropWhile (\<lambda>c. c = CHR ''/'') (rev s))"

definition own_route :: "string \<Rightarrow> string \<Rightarrow> bool" where
  "own_route module_id path \<longleftrightarrow>
     py_startswith path (''/api/modules/'' @ module_id @ ''/'') \<and>
     rstrip_slashes path \<notin> {''/api/modules/'' @ module_id @ ''/enable'', ''/api/modules/'' @ module_id @ ''/disable''}"

fun prefix_blocks :: "string \<Rightarrow> string \<Rightarrow> string list \<Rightarrow> bool" where
  "prefix_blocks module_id path [] = False"
| "prefix_blocks module_id path (p # ps) =
     (if py_startswith path p then
        (if p = ''/api/modules/'' \<and> own_route module_id path then prefix_blocks module_id path ps else True)
      else prefix_blocks module_id path ps)"

definition blocked_routes :: "string \<Rightarrow> planned_rule list \<Rightarrow> string list" where
  "blocked_routes module_id rules =
     filter (\<lambda>path. path \<in> set PROTECTED_ROUTES \<or> prefix_blocks module_id path PROTECTED_API_PREFIXES) (map pr_rule rules)"

text \<open>The last part of \<^verbatim>\<open>resolve_module_routes\<close>, on the blueprint the module exports.\<close>

definition check_routes :: "string \<Rightarrow> bool \<Rightarrow> planned_blueprint \<Rightarrow> module_error + plan" where
  "check_routes module_id builtin planned =
     (let blocked = (if builtin then [] else blocked_routes module_id (pb_rules planned)) in
      if blocked \<noteq> []
      then Inl (RegistrationError (''Module '' @ module_id @ '' has protected route conflicts: '' @ py_join '', '' (sort blocked)))
      else Inr (empty_plan\<lparr>rp_blueprints := [planned]\<rparr>))"

section \<open>Acceptance\<close>

definition contribution_of :: "module_info \<Rightarrow> contribution" where
  "contribution_of m =
     \<lparr>mc_module_id = mi_id m, mc_source = (if mi_builtin m then ''builtin:'' else ''community:'') @ mi_id m,
      mc_version = mi_version m, mc_builtin = mi_builtin m, mc_config = sort_key fst (mi_config m),
      mc_secret_keys = sort (mi_config_secrets m), mc_private_keys = (if mi_builtin m then sort (mi_config_private m) else [])\<rparr>"

definition candidate :: "plan \<Rightarrow> (contribution \<times> plan) list \<Rightarrow> plan" where
  "candidate base acc = combined (base # map snd acc @ [empty_plan\<lparr>rp_modules := map fst acc\<rparr>])"

fun validate_resolved :: "plan \<Rightarrow> planned_rule list \<Rightarrow> string list \<Rightarrow> (contribution \<times> plan) list \<Rightarrow> (contribution \<times> plan) list
    \<Rightarrow> module_error + ((contribution \<times> plan) list \<times> (string \<times> string) list)" where
  "validate_resolved base existing names acc [] = Inr (acc, [])"
| "validate_resolved base existing names acc ((item, http) # rs) =
     (case validate_plan existing names (candidate base (acc @ [(item, http)])) of
        Inr _ \<Rightarrow> validate_resolved base existing names (acc @ [(item, http)]) rs
      | Inl (RegistrationError msg) \<Rightarrow>
          if mc_builtin item
          then Inl (RegistrationError (''Built-in module '' @ mc_module_id item @ '' has a registration collision''))
          else map_sum id (\<lambda>(acc', es). (acc', (mc_module_id item, msg) # es)) (validate_resolved base existing names acc rs)
      | Inl e \<Rightarrow> Inl e)"

record loader_env =
  le_resolve :: "module_info \<Rightarrow> (string \<times> string) + plan"
  le_preview :: "module_info \<Rightarrow> (string + json)"
  le_base :: plan
  le_existing :: "planned_rule list"
  le_names :: "string list"

definition preview_theme :: "loader_env \<Rightarrow> module_info \<Rightarrow> module_info" where
  "preview_theme env m =
     (if \<not> mi_builtin m \<and> mi_type m = ''theme'' \<and> ''theme'' \<in> set (dict_keys (mi_contributes m)) then
        (case le_preview env m of Inl e \<Rightarrow> m\<lparr>mi_error := Some e\<rparr> | Inr t \<Rightarrow> m\<lparr>mi_theme := Some t\<rparr>)
      else m)"

fun resolve_all :: "loader_env \<Rightarrow> module_info list \<Rightarrow> module_error + (module_info list \<times> (contribution \<times> plan) list)" where
  "resolve_all env [] = Inr ([], [])"
| "resolve_all env (m # ms) =
     (if mi_error m \<noteq> None then
        (if mi_builtin m then Inl (RegistrationError (''Built-in module '' @ mi_id m @ '' failed ownership validation''))
         else map_sum id (\<lambda>(ms', rs). (m # ms', rs)) (resolve_all env ms))
      else if \<not> mi_enabled m then map_sum id (\<lambda>(ms', rs). (preview_theme env m # ms', rs)) (resolve_all env ms)
      else case le_resolve env m of
        Inr http \<Rightarrow> map_sum id (\<lambda>(ms', rs). (m # ms', (contribution_of m, http) # rs)) (resolve_all env ms)
      | Inl (kind, msg) \<Rightarrow>
          if mi_builtin m
          then Inl (RegistrationError (''Built-in module '' @ mi_id m @ '' failed contribution preflight: '' @ kind))
          else map_sum id (\<lambda>(ms', rs). (m\<lparr>mi_error := Some msg\<rparr> # ms', rs)) (resolve_all env ms))"

text \<open>The errors of ownership, an error of the secrets before one of the settings.\<close>

definition ownership_checked :: "schema \<Rightarrow> module_info list \<Rightarrow> module_info list" where
  "ownership_checked S ms =
     (let secret_errors = snd (snd (evaluate_module_secret_ownership S ms)); config_errors = evaluate_module_config_ownership ms in
      map (\<lambda>m. m\<lparr>mi_error := (case map_of secret_errors (mi_id m) of Some e \<Rightarrow> Some e | None \<Rightarrow> map_of config_errors (mi_id m))\<rparr>) ms)"

definition registry_modules :: "schema \<Rightarrow> module_info list \<Rightarrow> string list \<Rightarrow> module_info list" where
  "registry_modules S ms accepted_ids =
     filter (\<lambda>m. mi_id m \<in> set accepted_ids \<or> \<not> mi_enabled m \<or> mi_id m \<in> set (dict_keys (snd (snd (evaluate_module_secret_ownership S ms))))) ms"

definition registration_plan :: "schema \<Rightarrow> module_info list \<Rightarrow> (contribution \<times> plan) list \<Rightarrow> plan" where
  "registration_plan S ms accepted =
     (let http = combined (map snd accepted);
          (resv, owners, _) = evaluate_module_secret_ownership S (registry_modules S ms (map (mc_module_id \<circ> fst) accepted))
      in \<lparr>rp_rules = rp_rules http, rp_blueprints = rp_blueprints http, rp_modules = map fst accepted,
          rp_secret_keys = sort resv, rp_secret_owners = sort_key fst owners,
          rp_private_keys = sort (concat (map mi_config_private (filter mi_builtin ms)))\<rparr>)"

definition note_rejected :: "(string \<times> string) list \<Rightarrow> module_info \<Rightarrow> module_info" where
  "note_rejected rejected m =
     (case map_of rejected (mi_id m) of Some e \<Rightarrow> m\<lparr>mi_error := Some e\<rparr> | None \<Rightarrow> m)"

definition load_modules :: "loader_env \<Rightarrow> schema \<Rightarrow> module_info list \<Rightarrow> module_error + (module_info list \<times> plan)" where
  "load_modules env S ms =
     (if \<not> distinct (map mi_id (filter mi_builtin ms)) then Inl (RegistrationError ''Duplicate built-in module id'')
      else case resolve_all env (ownership_checked S ms) of
        Inl e \<Rightarrow> Inl e
      | Inr (ms', resolved) \<Rightarrow>
          (case validate_resolved (le_base env) (le_existing env) (le_names env) [] resolved of
             Inl e \<Rightarrow> Inl e
           | Inr (accepted, rejected) \<Rightarrow>
               Inr (map (note_rejected rejected) ms', registration_plan S ms accepted)))"

text \<open>\<^verbatim>\<open>load_all\<close>: the modules in the order of their discovery.\<close>

definition as_registration_error :: "module_error + 'a \<Rightarrow> module_error + 'a" where
  "as_registration_error r = (case r of Inl (ModuleRegistryError m) \<Rightarrow> Inl (RegistrationError m) | _ \<Rightarrow> r)"

definition then_modules :: "module_error + module_info list \<Rightarrow> (module_info list \<Rightarrow> module_error + 'a) \<Rightarrow> module_error + 'a" where
  "then_modules r f = (case r of Inl e \<Rightarrow> Inl e | Inr ms \<Rightarrow> f ms)"

record installation =
  in_files :: "string \<Rightarrow> manifest_file"
  in_dirs :: "string list"
  in_profiles :: "static_module list"
  in_themes :: "static_module list"
  in_search :: "(string \<times> directory option) list"

definition load_all :: "(json \<Rightarrow> string) \<Rightarrow> string option \<Rightarrow> installation \<Rightarrow> string list \<Rightarrow> loader_env \<Rightarrow> schema
    \<Rightarrow> module_error + (module_info list \<times> plan)" where
  "load_all str_of builtin_base inst disabled env S =
     then_modules
       (case builtin_base of
          None \<Rightarrow> Inr []
        | Some base \<Rightarrow>
            then_modules (as_registration_error (discover_builtin_modules str_of base (in_files inst) (in_dirs inst) disabled)) (\<lambda>ms.
            then_modules (as_registration_error (discover_builtin_threshold_modules disabled (in_profiles inst))) (\<lambda>ths.
            then_modules (as_registration_error (discover_builtin_theme_modules disabled (in_themes inst))) (\<lambda>themes.
              Inr (ms @ ths @ themes)))))
       (\<lambda>builtins. then_modules (discover_modules str_of (in_search inst) disabled (map mi_id builtins))
         (\<lambda>community. load_modules env S (builtins @ community)))"

section \<open>Registration\<close>

definition registration_of :: "contribution \<Rightarrow> registration" where
  "registration_of c = \<lparr>rg_config = mc_config c, rg_module = mc_module_id c, rg_builtin = mc_builtin c,
     rg_secrets = mc_secret_keys c, rg_private = mc_private_keys c\<rparr>"

definition register_settings :: "plan \<Rightarrow> plan \<Rightarrow> schema \<Rightarrow> schema" where
  "register_settings previous p S =
     (let complete = combined [previous, p];
          S1 = (if rp_modules complete \<noteq> [] \<or> rp_secret_keys complete \<noteq> [] \<or> rp_secret_owners complete \<noteq> [] \<or> rp_private_keys complete \<noteq> []
                then (let S0 = set_module_secret_registry (rp_secret_keys complete) (rp_secret_owners complete) S
                      in S0\<lparr>private_keys := fold add_key (rp_private_keys complete) (private_keys S0)\<rparr>)
                else S)
      in register_all (map registration_of (filter (\<lambda>c. mc_config c \<noteq> []) (rp_modules p))) S1)"

definition register_plan :: "planned_rule list \<Rightarrow> string list \<Rightarrow> plan \<Rightarrow> plan \<Rightarrow> schema \<Rightarrow> module_error + (schema \<times> plan)" where
  "register_plan existing names previous p S =
     (case validate_plan [] [] (empty_plan\<lparr>rp_modules := rp_modules previous @ rp_modules p,
             rp_secret_owners := rp_secret_owners previous @ rp_secret_owners p\<rparr>) of
        Inl e \<Rightarrow> Inl e
      | Inr _ \<Rightarrow>
          (case validate_plan existing names p of
             Inl e \<Rightarrow> Inl e
           | Inr _ \<Rightarrow> Inr (register_settings previous p S, combined [previous, p])))"

section \<open>Routes\<close>

definition route_allowed :: "string \<Rightarrow> string \<Rightarrow> bool" where
  "route_allowed module_id path \<longleftrightarrow> path \<notin> set PROTECTED_ROUTES \<and>
     list_all (\<lambda>p. py_startswith path p \<longrightarrow> p = ''/api/modules/'' \<and> own_route module_id path) PROTECTED_API_PREFIXES"

lemma prefix_blocks_iff:
  "prefix_blocks i path ps \<longleftrightarrow> \<not> list_all (\<lambda>p. py_startswith path p \<longrightarrow> p = ''/api/modules/'' \<and> own_route i path) ps"
  by (induction i path ps rule: prefix_blocks.induct) auto

text \<open>
  A community module's blueprint is planned exactly when none of its rules is a page of the
  application or lies under a protected part of the API, its own actions aside, and enabling or
  disabling itself is not one of those.
\<close>

theorem community_routes_checked:
  "check_routes module_id False bp = Inr p \<longleftrightarrow>
   p = empty_plan\<lparr>rp_blueprints := [bp]\<rparr> \<and> list_all (\<lambda>r. route_allowed module_id (pr_rule r)) (pb_rules bp)"
  by (auto simp: check_routes_def blocked_routes_def prefix_blocks_iff route_allowed_def Let_def filter_empty_conv list_all_iff)

section \<open>The accepted plan\<close>

lemma validate_resolved_valid:
  assumes "validate_resolved base existing names acc rs = Inr (acc', es)"
    and "validate_plan existing names (candidate base acc) = Inr ()"
  shows "validate_plan existing names (candidate base acc') = Inr () \<and> set acc' \<subseteq> set acc \<union> set rs"
  using assms
proof (induction base existing names acc rs arbitrary: es rule: validate_resolved.induct)
  case (2 base existing names acc item http rs)
  show ?case
  proof (cases "validate_plan existing names (candidate base (acc @ [(item, http)]))")
    case (Inl e)
    then obtain msg where e: "e = RegistrationError msg" by (auto simp: validate_plan_def Let_def split: if_splits)
    with Inl 2(3) have nb: "\<not> mc_builtin item" by auto
    with Inl 2(3) e obtain es' where "validate_resolved base existing names acc rs = Inr (acc', es')"
      by (auto simp: map_sum_def split: sum.splits)
    from 2(1) [OF Inl e nb this 2(4)] show ?thesis by auto
  next
    case (Inr u)
    with 2(3) have "validate_resolved base existing names (acc @ [(item, http)]) rs = Inr (acc', es)" by simp
    from 2(2) [OF Inr this] Inr show ?thesis by auto
  qed
qed simp

lemma resolve_all_from:
  "resolve_all env ms = Inr (ms', rs) \<Longrightarrow> (c, http) \<in> set rs \<Longrightarrow>
    \<exists>m \<in> set ms. c = contribution_of m \<and> mi_error m = None \<and> mi_enabled m"
proof (induction ms arbitrary: ms' rs)
  case (Cons m ms)
  obtain ms1 rs1 where r: "resolve_all env ms = Inr (ms1, rs1)"
      and "rs = rs1 \<or> (\<exists>h. rs = (contribution_of m, h) # rs1 \<and> mi_error m = None \<and> mi_enabled m)"
    using Cons.prems(1) by (auto simp: map_sum_def split: if_splits sum.splits)
  with Cons.prems(2) consider "c = contribution_of m" "mi_error m = None" "mi_enabled m" | "(c, http) \<in> set rs1" by auto
  then show ?case using Cons.IH [OF r] by cases auto
qed simp

lemma loaded:
  assumes "load_modules env S ms = Inr (ms', p)"
    and "validate_plan (le_existing env) (le_names env) (candidate (le_base env) []) = Inr ()"
  obtains acc where "p = registration_plan S ms acc"
    and "plan_valid (le_existing env) (le_names env) (candidate (le_base env) acc)"
    and "\<And>c http. (c, http) \<in> set acc \<Longrightarrow> \<exists>m \<in> set (ownership_checked S ms). c = contribution_of m \<and> mi_error m = None \<and> mi_enabled m"
proof -
  obtain ms1 rs where r: "resolve_all env (ownership_checked S ms) = Inr (ms1, rs)"
    using assms(1) by (auto simp: load_modules_def split: if_splits sum.splits)
  obtain acc es where v: "validate_resolved (le_base env) (le_existing env) (le_names env) [] rs = Inr (acc, es)"
      and p: "p = registration_plan S ms acc"
    using assms(1) r by (auto simp: load_modules_def split: if_splits sum.splits)
  note vr = validate_resolved_valid [OF v assms(2)]
  show ?thesis
  proof (rule that [OF p])
    show "plan_valid (le_existing env) (le_names env) (candidate (le_base env) acc)"
      using vr validate_plan_iff by blast
    show "\<exists>m \<in> set (ownership_checked S ms). c = contribution_of m \<and> mi_error m = None \<and> mi_enabled m"
      if "(c, http) \<in> set acc" for c http
      using vr that resolve_all_from [OF r, of c http] by auto
  qed
qed

text \<open>
  What the loader accepts can be registered together with the core: the plan of the core and
  the routes, blueprints and settings of every accepted module have no collision.
\<close>

theorem loaded_plan_valid:
  assumes "load_modules env S ms = Inr (ms', p)"
    and "validate_plan (le_existing env) (le_names env) (candidate (le_base env) []) = Inr ()"
  shows "\<exists>acc. plan_valid (le_existing env) (le_names env) (candidate (le_base env) acc) \<and> rp_modules p = map fst acc \<and>
    rp_rules p = concat (map (rp_rules \<circ> snd) acc) \<and> rp_blueprints p = concat (map (rp_blueprints \<circ> snd) acc)"
proof -
  obtain acc where "p = registration_plan S ms acc" "plan_valid (le_existing env) (le_names env) (candidate (le_base env) acc)"
    using loaded [OF assms] by blast
  then show ?thesis by (auto simp: registration_plan_def combined_def Let_def split: prod.splits)
qed

section \<open>Settings after registration\<close>

definition keeps_key :: "string \<Rightarrow> schema \<Rightarrow> schema \<Rightarrow> bool" where
  "keeps_key k S S' \<longleftrightarrow> k \<in> set (dict_keys (defaults S')) \<and> map_of (defaults S') k = map_of (defaults S) k \<and>
     (k \<in> set (int_keys S') \<longleftrightarrow> k \<in> set (int_keys S)) \<and> (k \<in> set (bool_keys S') \<longleftrightarrow> k \<in> set (bool_keys S))"

lemma keeps_key_trans: "keeps_key k S S' \<Longrightarrow> keeps_key k S' S'' \<Longrightarrow> keeps_key k S S''"
  by (simp add: keeps_key_def)

lemma add_key_mem [simp]: "x \<in> set (add_key k ks) \<longleftrightarrow> x = k \<or> x \<in> set ks"
  by (auto simp: add_key_def)

lemma type_key_keeps: "j \<noteq> k \<Longrightarrow> keeps_key k S S' \<Longrightarrow> keeps_key k S (type_key j v S')"
  by (cases v) (auto simp: type_key_def keeps_key_def)

lemma register_key_keeps:
  assumes "k \<in> set (dict_keys (defaults S))"
  shows "keeps_key k S (fst (register_key i b secrets privates (j, v) (S, r)))"
proof -
  have same: "keeps_key k S S" "keeps_key k S (S\<lparr>private_keys := ps\<rparr>)" for ps using assms by (simp_all add: keeps_key_def)
  have new: "keeps_key k S (declare_key b secrets privates j v S)" if "j \<notin> set (dict_keys (defaults S))"
  proof -
    have "j \<noteq> k" using assms that by blast
    then show ?thesis using assms set_keys_dict_set [of j v "defaults S"] by (auto simp: declare_key_def keeps_key_def)
  qed
  show ?thesis
  proof (cases "j \<in> set (dict_keys (defaults S))")
    case True
    with same show ?thesis by (simp add: register_key_def)
  next
    case False
    then have "j \<noteq> k" using assms by blast
    with same new [OF False] type_key_keeps [of j k S _ v] False show ?thesis by (simp add: register_key_def)
  qed
qed

lemma register_config_keeps:
  "k \<in> set (dict_keys (defaults S)) \<Longrightarrow> keeps_key k S (fst (register_module_config cfg i b secrets privates S))"
proof -
  have "k \<in> set (dict_keys (defaults S)) \<Longrightarrow> keeps_key k S (fst (fold (register_key i b secrets ps) cfg (S, r)))" for ps r
  proof (induction cfg arbitrary: S r)
    case (Cons e cfg)
    obtain j v where e: "e = (j, v)" by (cases e)
    obtain S1 r1 where s: "register_key i b secrets ps (j, v) (S, r) = (S1, r1)" by fastforce
    have "keeps_key k S S1" using register_key_keeps [OF Cons.prems, of i b secrets ps j v r] s by simp
    moreover from this have "keeps_key k S1 (fst (fold (register_key i b secrets ps) cfg (S1, r1)))"
      using Cons.IH [of S1 r1] by (simp add: keeps_key_def)
    ultimately show ?case using keeps_key_trans by (simp add: e s)
  qed (simp add: keeps_key_def)
  then show "k \<in> set (dict_keys (defaults S)) \<Longrightarrow> keeps_key k S (fst (register_module_config cfg i b secrets privates S))"
    by (simp add: register_module_config_def)
qed

lemma register_all_keeps: "k \<in> set (dict_keys (defaults S)) \<Longrightarrow> keeps_key k S (register_all gs S)"
proof (induction gs arbitrary: S)
  case (Cons g gs)
  let ?S1 = "fst (register_module_config (rg_config g) (rg_module g) (rg_builtin g) (rg_secrets g) (rg_private g) S)"
  have one: "keeps_key k S ?S1" using register_config_keeps [OF Cons.prems] .
  then have "keeps_key k ?S1 (register_all gs ?S1)" using Cons.IH [of ?S1] by (simp add: keeps_key_def)
  with one show ?case using keeps_key_trans by simp
qed (simp add: keeps_key_def)

lemma plan_secret_keys: "set (rp_secret_keys (registration_plan S ms acc)) =
    set (fst (evaluate_module_secret_ownership S (registry_modules S ms (map (mc_module_id \<circ> fst) acc))))"
  by (simp add: registration_plan_def Let_def split: prod.split)

text \<open>
  C31. Modules cannot change a setting of the core: after the accepted modules are registered it has
  the default it had, and is cast to a number or a truth value as before.
\<close>

theorem core_settings_survive:
  assumes "load_modules env S ms = Inr (ms', p)"
    and "validate_plan (le_existing env) (le_names env) (candidate (le_base env) []) = Inr ()"
    and "k \<in> set CORE_CONFIG_KEYS" and "k \<in> set (dict_keys (defaults S))"
  shows "keeps_key k S (register_settings empty_plan p S)"
proof -
  obtain acc where p: "p = registration_plan S ms acc" using loaded [OF assms(1,2)] by blast
  let ?c = "combined [empty_plan, p]"
  have "k \<notin> set (rp_secret_keys ?c)"
    using assms(3) by (auto simp: combined_def empty_plan_def p plan_secret_keys evaluate_module_secret_ownership_def Let_def protected_secret_def)
  then have set: "keeps_key k S ((set_module_secret_registry (rp_secret_keys ?c) owners S)\<lparr>private_keys := ps\<rparr>)" for owners ps
    using assms(4) by (simp add: keeps_key_def set_module_secret_registry_def)
  have none: "keeps_key k S S" using assms(4) by (simp add: keeps_key_def)
  have "keeps_key k S (register_all gs S1)" if "keeps_key k S S1" for gs S1
    using keeps_key_trans [OF that register_all_keeps [of k S1 gs]] that by (simp add: keeps_key_def)
  with set none show ?thesis by (simp add: register_settings_def Let_def)
qed

section \<open>Reserved secrets\<close>

lemma own_secret_distinct:
  "distinct (dict_keys (fst s)) \<Longrightarrow> distinct (dict_keys (fst (fold (own_secret prot cc) kcs s)))"
proof (induction kcs arbitrary: s)
  case (Cons kc kcs)
  obtain ow er where s: "s = (ow, er)" by (cases s)
  have "distinct (dict_keys (fst (own_secret prot cc kc s)))"
    using Cons.prems unfolding s own_secret_step by (cases "decided prot cc kc") simp_all
  from Cons.IH [OF this] show ?case by simp
qed simp

lemma owners_distinct:
  "evaluate_module_secret_ownership S ms = (resv, owners, errors) \<Longrightarrow> distinct (dict_keys owners)"
  using own_secret_distinct [of "([], [])"]
  by (auto simp: evaluate_module_secret_ownership_def Let_def) (metis distinct.simps(1) fst_conv list.simps(8))

lemma sort_key_map_of:
  assumes "distinct (dict_keys d)"
  shows "map_of (sort_key fst d) = map_of d"
proof -
  have "distinct (dict_keys (sort_key fst d))" using assms by (simp add: distinct_map)
  then have "map_of (sort_key fst d) k = Some v \<longleftrightarrow> map_of d k = Some v" for k v
    using assms by (simp add: map_of_eq_Some_iff_mem)
  then show ?thesis by (intro ext) (metis option.exhaust)
qed

lemma registry_sub: "m \<in> set (registry_modules S ms ids) \<Longrightarrow> m \<in> set ms"
  by (simp add: registry_modules_def)

lemma registry_wf: "modules_wf ms \<Longrightarrow> modules_wf (registry_modules S ms ids)"
  by (auto simp: modules_wf_def list_all_iff registry_modules_def)

lemma filter_single:
  assumes "map f (filter P xs) = [i]" and "x \<in> set (filter P (filter Q xs))"
  shows "map f (filter P (filter Q xs)) = [i]"
proof -
  obtain y where y: "filter P xs = [y]" "f y = i" using assms(1) by (auto simp: map_eq_Cons_conv)
  have "filter P (filter Q xs) = filter Q (filter P xs)" by (simp add: conj_commute)
  moreover have "x \<in> set (filter P xs)" "Q x" using assms(2) by simp_all
  ultimately show ?thesis using y by simp
qed

lemma checked_error:
  assumes "m \<in> set (ownership_checked S ms)" and "mi_error m = None"
  obtains m0 where "m0 \<in> set ms" and "m = m0\<lparr>mi_error := None\<rparr>"
    and "mi_id m0 \<notin> set (dict_keys (snd (snd (evaluate_module_secret_ownership S ms))))"
    and "mi_id m0 \<notin> set (dict_keys (evaluate_module_config_ownership ms))"
proof -
  let ?se = "snd (snd (evaluate_module_secret_ownership S ms))" and ?ce = "evaluate_module_config_ownership ms"
  obtain m0 where m0: "m0 \<in> set ms"
      "m = m0\<lparr>mi_error := (case map_of ?se (mi_id m0) of Some e \<Rightarrow> Some e | None \<Rightarrow> map_of ?ce (mi_id m0))\<rparr>"
    using assms(1) by (auto simp: ownership_checked_def Let_def)
  then have "(case map_of ?se (mi_id m0) of Some e \<Rightarrow> Some e | None \<Rightarrow> map_of ?ce (mi_id m0)) = None"
    using assms(2) by simp
  then have "map_of ?se (mi_id m0) = None" "map_of ?ce (mi_id m0) = None" by (simp_all split: option.splits)
  with m0 that show ?thesis by (simp add: map_of_eq_None_iff)
qed

text \<open>
  C39. An accepted community module that uses a reserved secret is the owner of it: no other module
  can read or set it under its own settings.
\<close>

theorem reserved_setting_owned:
  assumes "load_modules env S ms = Inr (ms', p)" and "modules_wf ms"
    and "validate_plan (le_existing env) (le_names env) (candidate (le_base env) []) = Inr ()"
    and "c \<in> set (rp_modules p)" and "\<not> mc_builtin c" and "k \<in> set (dict_keys (mc_config c))" and "k \<in> set (rp_secret_keys p)"
  shows "map_of (rp_secret_owners p) k = Some (mc_module_id c)"
proof -
  obtain acc where p: "p = registration_plan S ms acc"
    and src: "\<And>c http. (c, http) \<in> set acc \<Longrightarrow> \<exists>m \<in> set (ownership_checked S ms). c = contribution_of m \<and> mi_error m = None \<and> mi_enabled m"
    using loaded [OF assms(1,3)] by metis
  let ?R = "registry_modules S ms (map (mc_module_id \<circ> fst) acc)"
  have mods: "rp_modules p = map fst acc" by (simp add: p registration_plan_def Let_def split: prod.split)
  then obtain m where m: "m \<in> set (ownership_checked S ms)" "c = contribution_of m" "mi_error m = None" "mi_enabled m"
    using assms(4) src by fastforce
  obtain m0 where m0: "m0 \<in> set ms" "m = m0\<lparr>mi_error := None\<rparr>"
      and clean: "mi_id m0 \<notin> set (dict_keys (snd (snd (evaluate_module_secret_ownership S ms))))"
        "mi_id m0 \<notin> set (dict_keys (evaluate_module_config_ownership ms))"
    using checked_error [OF m(1,3)] by metis
  have c: "mc_module_id c = mi_id m0" "\<not> mi_builtin m0" "k \<in> set (dict_keys (mi_config m0))" "mi_enabled m0"
    using m m0 assms(5,6) by (simp_all add: contribution_of_def)
  have R: "m0 \<in> set ?R" using m0(1) assms(4) c(1) by (force simp: registry_modules_def mods)
  obtain r1 o1 e1 where ev1: "evaluate_module_secret_ownership S ms = (r1, o1, e1)" by (metis prod_cases3)
  obtain r2 o2 e2 where ev2: "evaluate_module_secret_ownership S ?R = (r2, o2, e2)" by (metis prod_cases3)
  have "k \<in> set r2" using assms(7) plan_secret_keys [of S ms acc] by (simp add: p ev2)
  then have res: "\<not> protected_secret S ?R k" "secret_claimants ?R k \<noteq> []"
    using secret_evaluation(1) [OF registry_wf [OF assms(2)] ev2] by simp_all
  then have cl: "secret_claimants ms k \<noteq> []" by (auto simp: secret_claimants_def filter_empty_conv dest: registry_sub)
  have users: "m0 \<in> set (setting_users ms k)" using m0(1) c by (simp add: setting_users_def)
  have "m0 \<in> set (active_users ms k)" using m0(1) c by (simp add: active_users_def)
  then have "\<not> builtin_setting ms k" using config_evaluation [OF assms(2), of "mi_id m0"] clean(2) by blast
  then have np: "\<not> protected_secret S ms k" using res(1) by (auto simp: protected_secret_def)
  have "map_of o1 k \<noteq> None"
    using secret_evaluation(3) [OF assms(2) ev1, of "mi_id m0"] clean(1) cl np users by (auto simp: ev1)
  then obtain i where "map_of o1 k = Some i" by blast
  then have one: "map mi_id (secret_claimants ms k) = [i]" "map mi_id (setting_users ms k) = [i]"
    using secret_evaluation(2) [OF assms(2) ev1] by simp_all
  then have i: "i = mi_id m0" using users by (auto simp: map_eq_Cons_conv)
  have "hd (secret_claimants ?R k) \<in> set (secret_claimants ?R k)" using res(2) by simp
  then have "map mi_id (secret_claimants ?R k) = [i]"
    unfolding secret_claimants_def registry_modules_def by (rule filter_single [OF one(1) [unfolded secret_claimants_def]])
  moreover have "map mi_id (setting_users ?R k) = [i]"
    using filter_single [OF one(2) [unfolded setting_users_def], of m0] R c
    unfolding setting_users_def registry_modules_def by simp
  ultimately have "map_of o2 k = Some i"
    using secret_evaluation(2) [OF registry_wf [OF assms(2)] ev2] res(1) by simp
  then show ?thesis
    using sort_key_map_of [OF owners_distinct [OF ev2]] i c(1) by (simp add: p registration_plan_def Let_def ev2)
qed

section \<open>Examples\<close>

definition weather_module :: module_info where
  "weather_module = (case validate_manifest (\<lambda>v. []) example_manifest ''/modules/b'' False of Inr m \<Rightarrow> m)"

definition sample_env :: loader_env where
  "sample_env = \<lparr>le_resolve = (\<lambda>m. Inr empty_plan), le_preview = (\<lambda>m. Inl []), le_base = empty_plan, le_existing = [], le_names = []\<rparr>"

definition sample_schema :: schema where
  "sample_schema = initial_schema\<lparr>defaults := [(''modem_url'', JStr [])], secret_keys := [''modem_password'']\<rparr>"

lemma sample_loads:
  "map_sum id (\<lambda>(ms, p). (map mi_error ms, rp_secret_keys p, rp_secret_owners p, map mc_module_id (rp_modules p)))
     (load_modules sample_env sample_schema [weather_module])
   = Inr ([None], [''weather_key''], [(''weather_key'', ''docsight.weather'')], [''docsight.weather''])"
  by code_simp

lemma sample_loaded:
  obtains ms p where "load_modules sample_env sample_schema [weather_module] = Inr (ms, p)"
    and "rp_secret_keys p = [''weather_key'']" and "map mc_module_id (rp_modules p) = [''docsight.weather'']"
  using sample_loads by (cases "load_modules sample_env sample_schema [weather_module]") auto

lemma sample_base:
  "validate_plan (le_existing sample_env) (le_names sample_env) (candidate (le_base sample_env) []) = Inr ()"
  by code_simp

lemma loaded_plan_valid_witness:
  "\<exists>ms p acc. load_modules sample_env sample_schema [weather_module] = Inr (ms, p) \<and> acc \<noteq> [] \<and>
     plan_valid [] [] (candidate empty_plan acc) \<and> rp_modules p = map fst acc"
proof -
  obtain ms p where l: "load_modules sample_env sample_schema [weather_module] = Inr (ms, p)"
      "map mc_module_id (rp_modules p) = [''docsight.weather'']" by (rule sample_loaded)
  with loaded_plan_valid [OF l(1) sample_base] show ?thesis by (fastforce simp: sample_env_def)
qed

lemma core_settings_survive_witness:
  "\<exists>ms p. load_modules sample_env sample_schema [weather_module] = Inr (ms, p) \<and> rp_modules p \<noteq> [] \<and>
     keeps_key ''modem_url'' sample_schema (register_settings empty_plan p sample_schema)"
proof -
  obtain ms p where l: "load_modules sample_env sample_schema [weather_module] = Inr (ms, p)"
      "map mc_module_id (rp_modules p) = [''docsight.weather'']" by (rule sample_loaded)
  have "''modem_url'' \<in> set CORE_CONFIG_KEYS" "''modem_url'' \<in> set (dict_keys (defaults sample_schema))" by code_simp+
  from core_settings_survive [OF l(1) sample_base this] l show ?thesis by auto
qed

lemma reserved_setting_owned_witness:
  "\<exists>ms p. load_modules sample_env sample_schema [weather_module] = Inr (ms, p) \<and>
     map_of (rp_secret_owners p) ''weather_key'' = Some ''docsight.weather''"
proof -
  obtain ms p where l: "load_modules sample_env sample_schema [weather_module] = Inr (ms, p)"
      "rp_secret_keys p = [''weather_key'']" "map mc_module_id (rp_modules p) = [''docsight.weather'']" by (rule sample_loaded)
  have c: "map_sum id (\<lambda>(ms, p). map (\<lambda>c. (mc_builtin c, dict_keys (mc_config c))) (rp_modules p))
      (load_modules sample_env sample_schema [weather_module]) = Inr [(False, [''weather_key''])]" by code_simp
  obtain c where m: "rp_modules p = [c]" using l(3) by (auto simp: map_eq_Cons_conv)
  have wf: "modules_wf [weather_module]" by code_simp
  from reserved_setting_owned [OF l(1) wf sample_base, of c "''weather_key''"] l c m show ?thesis by auto
qed

end
