(* ===== verification/Backup.thy ===== *)
theory Backup
  imports Json_Values Web_Paths
begin

text \<open>
  \<^verbatim>\<open>app/modules/backup/backup.py\<close>: writing, validating and restoring archives, keeping the newest, and
  the directory picker.  The data directory is an association list from file names to contents.
  The archive format, JSON, SQLite's copy and integrity check, the names \<^verbatim>\<open>mkstemp\<close> gives and the
  failures of the file system are parameters; an archive that \<^verbatim>\<open>tarfile\<close> rejects is its error text,
  and a member that is not a regular file has no data.  What a failed write leaves is removed again.
\<close>

section \<open>Archives\<close>

definition DATA_FILES :: "string list" where
  "DATA_FILES = [''docsis_history.db'', ''connection_monitor.db'', ''config.json'', ''.config_key'', ''.session_key'', ''.auth_state'']"

definition DATABASES :: "string list" where
  "DATABASES = [''docsis_history.db'', ''connection_monitor.db'']"

definition BACKUP_META_FILE :: string where "BACKUP_META_FILE = ''backup_meta.json''"
definition MAGIC :: string where "MAGIC = ''docsight-backup''"
definition FORMAT_VERSION :: int where "FORMAT_VERSION = 1"

type_synonym 'b disk = "(string \<times> 'b) list"

record 'b tar_member =
  tm_name :: string
  tm_data :: "'b option"

record 'b tools =
  tl_loads :: "'b \<Rightarrow> json res"
  tl_verify :: "'b \<Rightarrow> string option"
  tl_mkstemp :: "string \<Rightarrow> 'b disk \<Rightarrow> string"
  tl_write_fails :: "string \<Rightarrow> bool"
  tl_replace_fails :: "string \<Rightarrow> bool"

text \<open>
  What \<^verbatim>\<open>_write_backup_archive\<close> says of the archive: the time, the version of the program and the row
  counts of the copy of the main database, which stays empty without that database.
\<close>

definition backup_meta :: "string \<Rightarrow> string \<Rightarrow> (string \<times> json) list \<Rightarrow> (string \<times> json) list" where
  "backup_meta now version tables =
     [(''magic'', JStr MAGIC), (''format_version'', JInt FORMAT_VERSION), (''timestamp'', JStr now),
      (''app_version'', JStr version), (''tables'', JDict tables)]"

definition archive_meta :: "(string \<Rightarrow> 'b \<Rightarrow> 'b) \<Rightarrow> ('b \<Rightarrow> (string \<times> json) list) \<Rightarrow> string \<Rightarrow> string \<Rightarrow> 'b disk
    \<Rightarrow> (string \<times> json) list" where
  "archive_meta copy counts now version d =
     backup_meta now version
       (case map_of d ''docsis_history.db'' of None \<Rightarrow> [] | Some b \<Rightarrow> counts (copy ''docsis_history.db'' b))"

text \<open>\<^verbatim>\<open>copy\<close> is \<^verbatim>\<open>VACUUM INTO\<close> and the removal of demo data, \<^verbatim>\<open>dumps\<close> the bytes of \<^verbatim>\<open>json.dump\<close>.\<close>

definition write_backup_archive :: "(string \<Rightarrow> 'b \<Rightarrow> 'b) \<Rightarrow> (json \<Rightarrow> 'b) \<Rightarrow> ('b \<Rightarrow> (string \<times> json) list) \<Rightarrow> string \<Rightarrow> string
    \<Rightarrow> 'b disk \<Rightarrow> 'b tar_member list" where
  "write_backup_archive copy dumps counts now version d =
     (let file = (\<lambda>f n. case map_of d n of None \<Rightarrow> [] | Some b \<Rightarrow> [\<lparr>tm_name = n, tm_data = Some (f n b)\<rparr>]);
          meta = dumps (JDict (archive_meta copy counts now version d))
      in \<lparr>tm_name = BACKUP_META_FILE, tm_data = Some meta\<rparr> # concat (map (file copy) DATABASES)
         @ concat (map (file (\<lambda>n b. b)) (filter (\<lambda>n. n \<notin> set DATABASES) DATA_FILES)))"

definition unsafe_name :: "string \<Rightarrow> bool" where
  "unsafe_name n \<longleftrightarrow> py_startswith n ''/'' \<or> py_in ''..'' n"

text \<open>\<^verbatim>\<open>extractfile\<close> by name reads the last member of that name.\<close>

definition member_named :: "string \<Rightarrow> 'b tar_member list \<Rightarrow> 'b tar_member option" where
  "member_named n ms = (case filter (\<lambda>m. tm_name m = n) (rev ms) of [] \<Rightarrow> None | m # _ \<Rightarrow> Some m)"

definition validate_backup :: "'b tools \<Rightarrow> string + 'b tar_member list \<Rightarrow> (string \<times> json) list res" where
  "validate_backup tools archive =
     (case archive of
        Inl e \<Rightarrow> Inl (ValueError (''Invalid archive: '' @ e))
      | Inr ms \<Rightarrow>
     (case filter unsafe_name (map tm_name ms) of
        n # _ \<Rightarrow> Inl (ValueError (''Unsafe path in archive: '' @ n))
      | [] \<Rightarrow>
     (case member_named BACKUP_META_FILE ms of
        None \<Rightarrow> Inl (ValueError ''Missing backup_meta.json - not a valid DOCSight backup'')
      | Some m \<Rightarrow>
     (case tm_data m of
        None \<Rightarrow> Inl (ValueError ''Cannot read backup_meta.json'')
      | Some b \<Rightarrow>
          res_bind (tl_loads tools b) (\<lambda>meta.
            case meta of
              JDict d \<Rightarrow>
                if j_get d ''magic'' \<noteq> JStr MAGIC then Inl (ValueError ''Invalid backup: wrong magic value'')
                else let names = map tm_name ms in
                  Inr (dict_set ''has_config'' (JBool (''config.json'' \<in> set names))
                    (dict_set ''has_database'' (JBool (''docsis_history.db'' \<in> set names))
                    (dict_set ''files'' (JList (map JStr names)) d)))
            | _ \<Rightarrow> Inl AttributeError)))))"

section \<open>Restoring\<close>

text \<open>\<^verbatim>\<open>meta.get("format_version", 0) > FORMAT_VERSION\<close>, whose result is only logged.\<close>

definition version_compared :: "(string \<times> json) list \<Rightarrow> unit res" where
  "version_compared meta =
     (case dict_get meta ''format_version'' (JInt 0) of
        JInt n \<Rightarrow> Inr () | JBool b \<Rightarrow> Inr () | JFloat x \<Rightarrow> Inr () | _ \<Rightarrow> Inl TypeError)"

fun stage :: "'b tools \<Rightarrow> 'b tar_member list \<Rightarrow> 'b disk \<times> (string \<times> string) list
    \<Rightarrow> ('b disk \<times> (string \<times> string) list) \<times> py_error option" where
  "stage tools [] s = (s, None)"
| "stage tools (m # ms) (d, staged) =
     (if tm_name m = BACKUP_META_FILE \<or> tm_name m \<notin> set DATA_FILES then stage tools ms (d, staged)
      else case tm_data m of
        None \<Rightarrow> stage tools ms (d, staged)
      | Some b \<Rightarrow>
          let path = tl_mkstemp tools (tm_name m) d in
          if tl_write_fails tools (tm_name m) then ((dict_del path (dict_set path b d), staged), Some OSError)
          else stage tools ms (dict_set path b d, dict_set (tm_name m) path staged))"

fun verify_staged :: "'b tools \<Rightarrow> 'b disk \<Rightarrow> (string \<times> string) list \<Rightarrow> py_error option" where
  "verify_staged tools d [] = None"
| "verify_staged tools d ((name, path) # st) =
     (if name \<notin> set DATABASES then verify_staged tools d st
      else case tl_verify tools (the (map_of d path)) of
        None \<Rightarrow> Some (ValueError (''Restored database failed verification: '' @ name))
      | Some t \<Rightarrow>
          if py_lower t \<noteq> ''ok'' then Some (ValueError (''Restored database failed integrity check: '' @ name @ '': '' @ t))
          else verify_staged tools d st)"

definition replace_file :: "string \<Rightarrow> string \<Rightarrow> 'b disk \<Rightarrow> 'b disk" where
  "replace_file path name d =
     (let d1 = dict_set name (the (map_of d path)) (dict_del path d)
      in if name \<in> set DATABASES then dict_del (name @ ''-shm'') (dict_del (name @ ''-wal'') d1) else d1)"

fun commit :: "'b tools \<Rightarrow> (string \<times> string) list \<Rightarrow> 'b disk \<times> string list
    \<Rightarrow> 'b disk \<times> string list \<times> (string \<times> string) list" where
  "commit tools [] (d, restored) = (d, restored, [])"
| "commit tools ((name, path) # st) (d, restored) =
     (if tl_replace_fails tools name then (d, restored, (name, path) # st)
      else commit tools st (replace_file path name d, restored @ [name]))"

definition discard :: "(string \<times> string) list \<Rightarrow> 'b disk \<Rightarrow> 'b disk" where
  "discard staged d = fold (\<lambda>(name, path). dict_del path) staged d"

definition restore_backup :: "'b tools \<Rightarrow> string + 'b tar_member list \<Rightarrow> 'b disk
    \<Rightarrow> 'b disk \<times> (string list \<times> (string \<times> json) list) res" where
  "restore_backup tools archive d =
     (case validate_backup tools archive of
        Inl e \<Rightarrow> (d, Inl e)
      | Inr meta \<Rightarrow>
     (case version_compared meta of
        Inl e \<Rightarrow> (d, Inl e)
      | Inr _ \<Rightarrow>
     (case stage tools (case archive of Inl e \<Rightarrow> [] | Inr ms \<Rightarrow> ms) (d, []) of
        ((d1, staged), Some e) \<Rightarrow> (discard staged d1, Inl e)
      | ((d1, staged), None) \<Rightarrow>
     (case verify_staged tools d1 staged of
        Some e \<Rightarrow> (discard staged d1, Inl e)
      | None \<Rightarrow>
     (case commit tools staged (d1, []) of
        (d2, restored, []) \<Rightarrow> (d2, Inr (restored, meta))
      | (d2, restored, rest) \<Rightarrow> (discard rest d2, Inl OSError))))))"

section \<open>The backup directory\<close>

record backup_file =
  bf_name :: string
  bf_modified :: string
  bf_regular :: bool

definition is_backup :: "backup_file \<Rightarrow> bool" where
  "is_backup f \<longleftrightarrow> py_startswith (bf_name f) ''docsight_backup_'' \<and> py_endswith (bf_name f) ''.tar.gz'' \<and> bf_regular f"

text \<open>\<^verbatim>\<open>sort(reverse=True)\<close> keeps the order of equal keys.\<close>

definition list_backups :: "backup_file list \<Rightarrow> backup_file list" where
  "list_backups fs = rev (sort_key bf_modified (rev (filter is_backup fs)))"

definition cleanup_old_backups :: "(string \<Rightarrow> bool) \<Rightarrow> nat \<Rightarrow> backup_file list \<Rightarrow> backup_file list \<times> nat" where
  "cleanup_old_backups remove_fails keep fs =
     (let old = filter (\<lambda>n. \<not> remove_fails n) (map bf_name (drop keep (list_backups fs)))
      in (filter (\<lambda>f. bf_name f \<notin> set old) fs, length old))"

section \<open>The directory picker\<close>

definition in_roots :: "(string \<Rightarrow> string) \<Rightarrow> string list \<Rightarrow> string \<Rightarrow> bool" where
  "in_roots realpath roots p \<longleftrightarrow> list_ex (\<lambda>root. p = realpath root \<or> py_startswith p (realpath root @ ''/'')) roots"

record listing =
  ls_path :: string
  ls_parent :: "string option"
  ls_directories :: "string list"

text \<open>\<open>entries\<close> is the content of a directory with, for each entry, whether it is a directory.\<close>

definition browse_directory :: "(string \<Rightarrow> string) \<Rightarrow> (string \<Rightarrow> string) \<Rightarrow> (string \<Rightarrow> (string \<times> bool) list option)
    \<Rightarrow> string list \<Rightarrow> string \<Rightarrow> listing res" where
  "browse_directory realpath dirname entries roots path =
     (let real = realpath path in
      if \<not> in_roots realpath roots real then Inl (ValueError (''Path not allowed: '' @ path))
      else case entries real of
        None \<Rightarrow> Inl (ValueError (''Not a directory: '' @ path))
      | Some es \<Rightarrow>
          Inr \<lparr>ls_path = real,
               ls_parent = (if in_roots realpath roots (dirname real) then Some (dirname real) else None),
               ls_directories = map fst (filter (\<lambda>(n, dir). dir \<and> \<not> py_startswith n ''.'') (sort_key fst es))\<rparr>)"

section \<open>Staging\<close>

definition temp_name :: "string \<Rightarrow> bool" where
  "temp_name n \<longleftrightarrow> py_startswith n ''.docsight-restore-''"

text \<open>\<^verbatim>\<open>mkstemp\<close> gives a new name with the prefix asked for.\<close>

definition mkstemp_ok :: "'b tools \<Rightarrow> bool" where
  "mkstemp_ok tools \<longleftrightarrow> (\<forall>n d. tl_mkstemp tools n d \<notin> set (dict_keys d) \<and> temp_name (tl_mkstemp tools n d))"

lemma mkstemp_new: "mkstemp_ok tools \<Longrightarrow> map_of d (tl_mkstemp tools n d) = None"
  by (simp add: mkstemp_ok_def map_of_eq_None_iff)

lemma data_not_temp: "n \<in> set DATA_FILES \<Longrightarrow> \<not> temp_name n"
  by (auto simp: DATA_FILES_def temp_name_def)

definition restorable :: "'b tar_member \<Rightarrow> bool" where
  "restorable m \<longleftrightarrow> tm_name m \<noteq> BACKUP_META_FILE \<and> tm_name m \<in> set DATA_FILES \<and> tm_data m \<noteq> None"

text \<open>The data of the archive's data files; a later member replaces an earlier one.\<close>

definition archived :: "'b tar_member list \<Rightarrow> (string \<times> 'b) list" where
  "archived ms = map (\<lambda>m. (tm_name m, the (tm_data m))) (filter restorable (rev ms))"

definition staged_ok :: "'b disk \<Rightarrow> 'b disk \<Rightarrow> (string \<times> string) list \<Rightarrow> bool" where
  "staged_ok d0 d st \<longleftrightarrow> (\<forall>k. map_of d0 k \<noteq> None \<or> \<not> temp_name k \<longrightarrow> map_of d k = map_of d0 k) \<and>
     distinct (dict_keys st) \<and> inj_on (\<lambda>n. map_of st n) (set (dict_keys st)) \<and>
     (\<forall>n p. map_of st n = Some p \<longrightarrow> n \<in> set DATA_FILES \<and> temp_name p \<and> map_of d0 p = None \<and> map_of d p \<noteq> None)"

lemma staged_ok_start: "staged_ok d d []"
  by (simp add: staged_ok_def)

lemma staged_step:
  assumes "staged_ok d0 d st" and "mkstemp_ok tools" and "n \<in> set DATA_FILES" and "p = tl_mkstemp tools n d"
  shows "staged_ok d0 (dict_set p b d) (dict_set n p st)"
proof -
  have p: "map_of d p = None" "temp_name p" using mkstemp_new [OF assms(2)] assms(2) by (simp_all add: assms(4) mkstemp_ok_def)
  then have p0: "map_of d0 p = None" using assms(1) unfolding staged_ok_def by metis
  have new: "map_of st m \<noteq> Some p" for m using assms(1) p(1) unfolding staged_ok_def by metis
  have "inj_on (map_of (dict_set n p st)) (set (dict_keys (dict_set n p st)))"
  proof (rule inj_onI)
    fix x y
    assume xy: "x \<in> set (dict_keys (dict_set n p st))" "y \<in> set (dict_keys (dict_set n p st))"
      and eq: "map_of (dict_set n p st) x = map_of (dict_set n p st) y"
    show "x = y"
    proof (cases "x = n \<or> y = n")
      case True
      with eq new show ?thesis by (auto split: if_splits)
    next
      case False
      with xy eq have "x \<in> set (dict_keys st)" "y \<in> set (dict_keys st)" "map_of st x = map_of st y"
        using set_keys_dict_set [of n p st] by auto
      moreover have "inj_on (map_of st) (set (dict_keys st))" using assms(1) unfolding staged_ok_def by simp
      ultimately show ?thesis by (simp add: inj_on_eq_iff)
    qed
  qed
  then show ?thesis using assms(1,3) p p0 unfolding staged_ok_def by auto
qed

lemma stage_Cons:
  "stage tools (m # ms) (d, st) =
     (if \<not> restorable m then stage tools ms (d, st)
      else let p = tl_mkstemp tools (tm_name m) d; b = the (tm_data m) in
        if tl_write_fails tools (tm_name m) then ((dict_del p (dict_set p b d), st), Some OSError)
        else stage tools ms (dict_set p b d, dict_set (tm_name m) p st))"
  by (cases "tm_data m") (auto simp: restorable_def Let_def)

lemma stage_ok:
  assumes "stage tools ms (d, st) = ((d', st'), e)" and "staged_ok d0 d st" and "mkstemp_ok tools"
  shows "staged_ok d0 d' st'"
  using assms(1,2)
proof (induction ms arbitrary: d st)
  case (Cons m ms)
  let ?p = "tl_mkstemp tools (tm_name m) d" and ?b = "the (tm_data m)"
  show ?case
  proof (cases "restorable m")
    case False
    with Cons show ?thesis by (simp add: stage_Cons del: stage.simps)
  next
    case True
    then have n: "tm_name m \<in> set DATA_FILES" by (simp add: restorable_def)
    show ?thesis
    proof (cases "tl_write_fails tools (tm_name m)")
      case fails: True
      have "map_of (dict_del ?p (dict_set ?p ?b d)) = map_of d" using mkstemp_new [OF assms(3)] by (auto simp: fun_eq_iff)
      with Cons.prems True fails show ?thesis
        by (simp add: stage_Cons Let_def staged_ok_def del: stage.simps map_of_dict_del map_of_dict_set)
    next
      case False
      with Cons.IH [OF _ staged_step [OF Cons.prems(2) assms(3) n refl]] Cons.prems(1) True
      show ?thesis by (simp add: stage_Cons Let_def del: stage.simps)
    qed
  qed
qed simp

lemma archived_Cons: "archived (m # ms) = archived ms @ (if restorable m then [(tm_name m, the (tm_data m))] else [])"
  by (simp add: archived_def)

lemma stage_data:
  assumes "stage tools ms (d, st) = ((d', st'), None)" and "mkstemp_ok tools"
  shows "(case map_of (archived ms) n of Some b \<Rightarrow> (\<exists>p. map_of st' n = Some p \<and> map_of d' p = Some b) | None \<Rightarrow> map_of st' n = map_of st n) \<and>
    (map_of d k \<noteq> None \<longrightarrow> map_of d' k = map_of d k)"
  using assms(1)
proof (induction ms arbitrary: d st n k)
  case (Cons m ms)
  let ?p = "tl_mkstemp tools (tm_name m) d" and ?b = "the (tm_data m)"
  show ?case
  proof (cases "restorable m")
    case False
    with Cons.IH [of d st n k] Cons.prems show ?thesis by (simp add: stage_Cons archived_Cons del: stage.simps)
  next
    case True
    with Cons.prems have s: "stage tools ms (dict_set ?p ?b d, dict_set (tm_name m) ?p st) = ((d', st'), None)"
      by (simp add: stage_Cons Let_def del: stage.simps split: if_splits)
    note ih = Cons.IH [OF s, of n k] and ihp = Cons.IH [OF s, of n ?p]
    have new: "map_of d ?p = None" by (rule mkstemp_new [OF assms(2)])
    show ?thesis using ih ihp new True by (auto simp: archived_Cons map_add_def split: option.splits if_splits)
  qed
qed (simp add: archived_def)

definition no_leak :: "'b disk \<Rightarrow> 'b disk \<Rightarrow> (string \<times> string) list \<Rightarrow> bool" where
  "no_leak d0 d st \<longleftrightarrow> (\<forall>k. map_of d k \<noteq> None \<longrightarrow> map_of d0 k \<noteq> None \<or> k \<in> snd ` set st)"

lemma stage_no_leak:
  assumes "stage tools ms (d, st) = ((d', st'), e)" and "mkstemp_ok tools" and "no_leak d0 d st"
    and "distinct (map tm_name ms)" and "fst ` set st \<inter> tm_name ` set ms = {}"
  shows "no_leak d0 d' st'"
  using assms(1,3-)
proof (induction ms arbitrary: d st)
  case (Cons m ms)
  let ?p = "tl_mkstemp tools (tm_name m) d" and ?b = "the (tm_data m)"
  have new: "dict_set (tm_name m) ?p st = st @ [(tm_name m, ?p)]" using Cons.prems(4) by (simp add: keys_dict_set_new)
  have "map_of (dict_del ?p (dict_set ?p ?b d)) = map_of d" using mkstemp_new [OF assms(2)] by (auto simp: fun_eq_iff)
  then have f: "no_leak d0 (dict_del ?p (dict_set ?p ?b d)) st" using Cons.prems(2) by (simp only: no_leak_def)
  have ok: "no_leak d0 (dict_set ?p ?b d) (dict_set (tm_name m) ?p st)" using Cons.prems(2) by (auto simp: no_leak_def new)
  have dis: "fst ` set (dict_set (tm_name m) ?p st) \<inter> tm_name ` set ms = {}" using Cons.prems(3,4) by (auto simp: new)
  consider "\<not> restorable m" | "restorable m" "tl_write_fails tools (tm_name m)" | "restorable m" "\<not> tl_write_fails tools (tm_name m)" by blast
  then show ?case
  proof cases
    case 1
    with Cons.IH [of d st] Cons.prems show ?thesis by (simp add: stage_Cons del: stage.simps)
  next
    case 2
    with Cons.prems(1) f show ?thesis by (simp add: stage_Cons Let_def del: stage.simps)
  next
    case 3
    with Cons.IH [OF _ ok _ dis] Cons.prems(1,3) show ?thesis by (simp add: stage_Cons Let_def del: stage.simps)
  qed
qed simp

lemma discarded: "map_of (discard st d) k = (if k \<in> snd ` set st then None else map_of d k)"
proof (induction st arbitrary: d)
  case (Cons e st)
  obtain n p where e: "e = (n, p)" by (cases e)
  have "discard (e # st) d = discard st (dict_del p d)" by (simp add: discard_def e)
  with Cons.IH [of "dict_del p d"] show ?case by (auto simp: e)
qed (simp add: discard_def)

section \<open>Replacing\<close>

definition sidecars :: "string list \<Rightarrow> string list" where
  "sidecars ns = concat (map (\<lambda>n. if n \<in> set DATABASES then [n @ ''-wal'', n @ ''-shm''] else []) ns)"

lemma sidecar_names: "k \<in> set (sidecars ns) \<Longrightarrow> k \<notin> set DATA_FILES \<and> \<not> temp_name k"
  by (auto simp: sidecars_def DATABASES_def DATA_FILES_def temp_name_def split: if_splits)

lemma replaced:
  "map_of (replace_file p n d) k =
     (if k \<in> set (sidecars [n]) then None else if k = n then Some (the (map_of d p)) else if k = p then None else map_of d k)"
  by (auto simp: replace_file_def sidecars_def Let_def)

lemma commit_result:
  assumes "commit tools st (d, r) = (d', r', rest)" and "distinct (dict_keys st)" and "distinct (map snd st)"
    and "\<And>n p. (n, p) \<in> set st \<Longrightarrow> n \<in> set DATA_FILES \<and> temp_name p"
  shows "\<exists>done. st = done @ rest \<and> r' = r @ dict_keys done \<and>
    (\<forall>k. map_of d' k = (if k \<in> set (sidecars (dict_keys done)) then None
       else if k \<in> fst ` set done then Some (the (map_of d (the (map_of st k))))
       else if k \<in> snd ` set done then None else map_of d k))"
  using assms
proof (induction st arbitrary: d r)
  case (Cons e st)
  obtain n p where e: "e = (n, p)" by (cases e)
  have n: "n \<in> set DATA_FILES" "temp_name p" "n \<notin> fst ` set st" "p \<notin> snd ` set st" using Cons.prems(2,3) Cons.prems(4) [of n p] by (auto simp: e)
  show ?case
  proof (cases "tl_replace_fails tools n")
    case True
    with Cons.prems(1) show ?thesis by (intro exI [of _ "[]"]) (simp add: e sidecars_def)
  next
    case False
    with Cons.prems(1) have c: "commit tools st (replace_file p n d, r @ [n]) = (d', r', rest)" by (simp add: e)
    have "distinct (dict_keys st)" "distinct (map snd st)" using Cons.prems(2,3) by (simp_all add: e)
    from Cons.IH [OF c this Cons.prems(4)] obtain dn where dn: "st = dn @ rest" "r' = (r @ [n]) @ dict_keys dn"
      and m: "\<And>k. map_of d' k = (if k \<in> set (sidecars (dict_keys dn)) then None
         else if k \<in> fst ` set dn then Some (the (map_of (replace_file p n d) (the (map_of st k))))
         else if k \<in> snd ` set dn then None else map_of (replace_file p n d) k)" by auto
    have side: "set (sidecars (dict_keys ((n, p) # dn))) = set (sidecars [n]) \<union> set (sidecars (dict_keys dn))"
      by (simp add: sidecars_def)
    have data: "k \<in> set DATA_FILES \<and> the (map_of st k) \<in> snd ` set st" if "k \<in> fst ` set dn" for k
    proof -
      have "map_of st k \<noteq> None" using that dn(1) by (auto simp: map_of_eq_None_iff)
      then obtain q where "map_of st k = Some q" by blast
      then have "(k, q) \<in> set st" by (rule map_of_SomeD)
      with Cons.prems(4) [of k q] \<open>map_of st k = Some q\<close> show ?thesis by (force simp: e)
    qed
    have paths: "temp_name q" if "q \<in> snd ` set st" for q using that Cons.prems(4) by (force simp: e)
    have "map_of d' k = (if k \<in> set (sidecars (dict_keys ((n, p) # dn))) then None
       else if k \<in> fst ` set ((n, p) # dn) then Some (the (map_of d (the (map_of (e # st) k))))
       else if k \<in> snd ` set ((n, p) # dn) then None else map_of d k)" for k
    proof -
      have "the (map_of st k) \<noteq> n \<and> the (map_of st k) \<noteq> p \<and> the (map_of st k) \<notin> set (sidecars [n])" if "k \<in> fst ` set dn"
        using data [OF that] paths n data_not_temp sidecar_names by metis
      moreover have "n \<notin> snd ` set dn" using paths [of n] dn(1) data_not_temp [OF n(1)] by auto
      moreover have "n \<notin> fst ` set dn" using n(3) dn(1) by auto
      ultimately show ?thesis using m [of k] n(1,2) data_not_temp sidecar_names [of k] sidecar_names [of n] data [of k]
        unfolding side replaced by (auto simp: e)
    qed
    with dn show ?thesis by (intro exI [of _ "(n, p) # dn"]) (simp add: e)
  qed
qed (simp add: sidecars_def)

section \<open>What a restore does\<close>

lemma staged_paths:
  assumes "staged_ok d0 d st"
  shows "distinct (dict_keys st)" and "distinct (map snd st)"
    and "\<And>n p. (n, p) \<in> set st \<Longrightarrow> n \<in> set DATA_FILES \<and> temp_name p \<and> map_of d0 p = None"
proof -
  show dk: "distinct (dict_keys st)" using assms by (simp add: staged_ok_def)
  have m: "map_of st n = Some p" if "(n, p) \<in> set st" for n p using dk that by simp
  show "n \<in> set DATA_FILES \<and> temp_name p \<and> map_of d0 p = None" if "(n, p) \<in> set st" for n p
    using assms m [OF that] unfolding staged_ok_def by blast
  have inj: "inj_on (map_of st) (set (dict_keys st))" using assms by (simp add: staged_ok_def)
  have "inj_on snd (set st)"
  proof (rule inj_onI)
    fix x y assume xy: "x \<in> set st" "y \<in> set st" "snd x = snd y"
    have "(fst x, snd x) \<in> set st" "(fst y, snd y) \<in> set st" using xy(1,2) by (simp_all only: prod.collapse)
    then have "map_of st (fst x) = map_of st (fst y)" using m xy(3) by metis
    then have "fst x = fst y" using inj xy by (simp add: inj_on_eq_iff)
    with xy show "x = y" by (simp add: prod_eq_iff)
  qed
  then show "distinct (map snd st)" using dk by (simp add: distinct_map)
qed

lemma commit_stops:
  "commit tools st (d, r) = (d', r', rest) \<Longrightarrow> rest \<noteq> [] \<Longrightarrow> tl_replace_fails tools (fst (hd rest))"
  by (induction tools st "(d, r)" arbitrary: d r rule: commit.induct) (auto split: if_splits)

lemma restore_cases:
  assumes "restore_backup tools (Inr ms) d = (d', r)" and "mkstemp_ok tools"
  obtains (rejected) e where "d' = d" and "r = Inl e"
  | (unstaged) d1 st e where "staged_ok d d1 st" and "stage tools ms (d, []) = ((d1, st), e)" and "d' = discard st d1" and "r = Inl (the (if e = None then verify_staged tools d1 st else e))"
  | (committed) d1 st dn rest d2 where "staged_ok d d1 st" and "stage tools ms (d, []) = ((d1, st), None)" and "st = dn @ rest"
      and "\<And>k. map_of d2 k = (if k \<in> set (sidecars (dict_keys dn)) then None
         else if k \<in> fst ` set dn then Some (the (map_of d1 (the (map_of st k)))) else if k \<in> snd ` set dn then None else map_of d1 k)"
      and "d' = discard rest d2" and "if rest = [] then (\<exists>meta. r = Inr (dict_keys dn, meta)) else (r = Inl OSError \<and> tl_replace_fails tools (fst (hd rest)))"
proof (cases "validate_backup tools (Inr ms)")
  case (Inl e)
  with assms(1) show ?thesis by (intro rejected [of e]) (simp_all add: restore_backup_def)
next
  case (Inr meta)
  show ?thesis
  proof (cases "version_compared meta")
    case (Inl e)
    with assms(1) Inr show ?thesis by (intro rejected [of e]) (simp_all add: restore_backup_def)
  next
    case v: (Inr u)
    obtain d1 st e where s: "stage tools ms (d, []) = ((d1, st), e)" by (metis prod.exhaust)
    have ok: "staged_ok d d1 st" by (rule stage_ok [OF s staged_ok_start assms(2)])
    show ?thesis
    proof (cases "e = None \<and> verify_staged tools d1 st = None")
      case False
      then have "d' = discard st d1 \<and> r = Inl (the (if e = None then verify_staged tools d1 st else e))"
        using assms(1) Inr v s by (cases e) (auto simp: restore_backup_def split: option.splits)
      with unstaged [OF ok s] show ?thesis by blast
    next
      case True
      obtain d2 r2 rest where c: "commit tools st (d1, []) = (d2, r2, rest)" by (metis prod_cases3)
      have "d' = discard rest d2 \<and> (if rest = [] then r = Inr (r2, meta) else r = Inl OSError)"
        using assms(1) Inr v s True c by (cases rest) (auto simp: restore_backup_def discard_def)
      moreover obtain dn where "st = dn @ rest" "r2 = [] @ dict_keys dn"
        and "\<forall>k. map_of d2 k = (if k \<in> set (sidecars (dict_keys dn)) then None
         else if k \<in> fst ` set dn then Some (the (map_of d1 (the (map_of st k)))) else if k \<in> snd ` set dn then None else map_of d1 k)"
        using commit_result [OF c staged_paths(1,2) [OF ok]] staged_paths(3) [OF ok] by blast
      moreover have "rest \<noteq> [] \<Longrightarrow> tl_replace_fails tools (fst (hd rest))" by (rule commit_stops [OF c])
      ultimately show ?thesis using committed [OF ok, of dn rest d2] s True by auto
    qed
  qed
qed

text \<open>
  C22. A restore that fails before it replaces files changes nothing: every file of the data
  directory keeps its content, whatever the archive holds and wherever staging or verification stops.
\<close>

theorem failed_restore_changes_nothing:
  assumes "restore_backup tools (Inr ms) d = (d', Inl e)" and "mkstemp_ok tools" and "tl_replace_fails tools = (\<lambda>n. False)"
    and "\<not> temp_name k \<or> map_of d k \<noteq> None"
  shows "map_of d' k = map_of d k"
  using assms(1,2)
proof (cases rule: restore_cases)
  case (unstaged d1 st e')
  have "map_of d1 k = map_of d k" using unstaged(1) assms(4) unfolding staged_ok_def by blast
  moreover have "k \<notin> snd ` set st" using staged_paths(3) [OF unstaged(1)] assms(4) by force
  ultimately show ?thesis by (simp add: unstaged(3) discarded)
next
  case (committed d1 st dn rest d2)
  then show ?thesis using assms(3) by (simp split: if_splits)
next
  case (rejected e')
  then show ?thesis by simp
qed

lemma restored_exactly:
  assumes "restore_backup tools (Inr ms) d = (d', Inr (names, meta))" and "mkstemp_ok tools"
    and "\<not> temp_name k"
  shows "set names = fst ` set (archived ms) \<and>
    map_of d' k = (if k \<in> set (sidecars names) then None
      else case map_of (archived ms) k of Some b \<Rightarrow> Some b | None \<Rightarrow> map_of d k)"
  using assms(1,2)
proof (cases rule: restore_cases)
  case (committed d1 st dn rest d2)
  have rest: "rest = []" "names = dict_keys st" using committed(3,6) by (simp_all split: if_splits)
  note data = stage_data [OF committed(2) assms(2)]
  have st: "map_of st n = None" if "map_of (archived ms) n = None" for n using data [of n k] that by simp
  have st': "\<exists>p. map_of st n = Some p \<and> map_of d1 p = Some b" if "map_of (archived ms) n = Some b" for n b
    using data [of n k] that by simp
  have keys: "n \<in> fst ` set st \<longleftrightarrow> n \<in> fst ` set (archived ms)" for n
  proof -
    have "n \<in> fst ` set st \<longleftrightarrow> map_of st n \<noteq> None" "n \<in> fst ` set (archived ms) \<longleftrightarrow> map_of (archived ms) n \<noteq> None"
      by (simp_all add: map_of_eq_None_iff)
    then show ?thesis using st [of n] st' [of n] by (cases "map_of (archived ms) n") auto
  qed
  have "k \<notin> snd ` set st" using staged_paths(3) [OF committed(1)] assms(3) by force
  moreover have "map_of d1 k = map_of d k" using committed(1) assms(3) unfolding staged_ok_def by blast
  moreover have "d' = d2" "dn = st" using committed(3,5) rest by (simp_all add: discard_def)
  ultimately have "map_of d' k = (if k \<in> set (sidecars names) then None
      else case map_of (archived ms) k of Some b \<Rightarrow> Some b | None \<Rightarrow> map_of d k)"
    using committed(4) [of k] keys [of k] st' [of k] rest(2) map_of_eq_None_iff [of "archived ms" k]
    by (cases "map_of (archived ms) k") (auto split: if_splits)
  then show ?thesis using keys by (auto simp: rest(2))
qed (use assms(1) in simp_all)

text \<open>
  A restore that succeeds gives exactly the data files of the archive their content in it (of
  the last member of the name), removes the journals of the databases it replaced, and leaves every
  other file as it was.
\<close>

theorem restore_exact:
  assumes "restore_backup tools (Inr ms) d = (d', Inr (names, meta))" and "mkstemp_ok tools"
    and "\<not> temp_name k"
  shows "set names = fst ` set (archived ms) \<and>
    map_of d' k = (if k \<in> set (sidecars names) then None
      else case map_of (archived ms) k of Some b \<Rightarrow> Some b | None \<Rightarrow> map_of d k)"
  by (rule restored_exactly [OF assms])

text \<open>
  Whatever happens during a restore, no staging file remains beside the data files, if no name
  occurs twice in the archive.
\<close>

theorem restore_leaves_no_staging:
  assumes "restore_backup tools (Inr ms) d = (d', r)" and "mkstemp_ok tools" and "distinct (map tm_name ms)"
    and "map_of d' k \<noteq> None"
  shows "map_of d k \<noteq> None \<or> k \<in> set DATA_FILES"
proof -
  have start: "no_leak d d []" by (simp add: no_leak_def)
  show ?thesis
    using assms(1,2)
  proof (cases rule: restore_cases)
    case (rejected e)
    with assms(4) show ?thesis by simp
  next
    case (unstaged d1 st e)
    have "no_leak d d1 st" using stage_no_leak [OF unstaged(2) assms(2) start assms(3)] by simp
    then show ?thesis using assms(4) by (auto simp: unstaged(3) discarded no_leak_def split: if_splits)
  next
    case (committed d1 st dn rest d2)
    have "no_leak d d1 st" using stage_no_leak [OF committed(2) assms(2) start assms(3)] by simp
    moreover have "k \<notin> snd ` set rest" "map_of d2 k \<noteq> None" using assms(4) by (simp_all add: committed(5) discarded split: if_splits)
    moreover have "k \<in> set DATA_FILES" if "k \<in> fst ` set dn"
      using that committed(3) staged_paths(3) [OF committed(1)] by fastforce
    moreover have "k \<in> snd ` set st \<longleftrightarrow> k \<in> snd ` set dn \<or> k \<in> snd ` set rest" by (auto simp: committed(3))
    ultimately show ?thesis using committed(4) [of k] unfolding no_leak_def by (auto split: if_splits)
  qed
qed

section \<open>Backup and restore\<close>

lemma archived_distinct:
  assumes "distinct (map tm_name ms)"
  shows "map_of (archived ms) n = Some b \<longleftrightarrow> (\<exists>m \<in> set ms. restorable m \<and> tm_name m = n \<and> tm_data m = Some b)"
proof -
  have k: "dict_keys (archived ms) = map tm_name (filter restorable (rev ms))" by (simp add: archived_def o_def)
  have "distinct (map tm_name (rev ms))" using assms by (simp add: rev_map [symmetric])
  then have "distinct (dict_keys (archived ms))" unfolding k by (rule distinct_map_filter)
  then show ?thesis unfolding map_of_eq_Some_iff_mem [OF \<open>distinct (dict_keys (archived ms))\<close>]
    by (force simp: archived_def restorable_def)
qed

definition file_members :: "(string \<Rightarrow> 'b \<Rightarrow> 'b) \<Rightarrow> 'b disk \<Rightarrow> string list \<Rightarrow> 'b tar_member list" where
  "file_members f d ns = concat (map (\<lambda>n. case map_of d n of None \<Rightarrow> [] | Some b \<Rightarrow> [\<lparr>tm_name = n, tm_data = Some (f n b)\<rparr>]) ns)"

lemma file_members_set:
  "m \<in> set (file_members f d ns) \<longleftrightarrow> (\<exists>n b. n \<in> set ns \<and> map_of d n = Some b \<and> m = \<lparr>tm_name = n, tm_data = Some (f n b)\<rparr>)"
proof (induction ns)
  case (Cons a ns)
  then show ?case by (cases "map_of d a") (auto simp: file_members_def)
qed (simp add: file_members_def)

lemma file_members_names: "map tm_name (file_members f d ns) = filter (\<lambda>n. map_of d n \<noteq> None) ns"
  by (induction ns) (auto simp: file_members_def split: option.splits)

definition PLAIN_FILES :: "string list" where
  "PLAIN_FILES = [''config.json'', ''.config_key'', ''.session_key'', ''.auth_state'']"

lemma plain_files: "filter (\<lambda>n. n \<notin> set DATABASES) DATA_FILES = PLAIN_FILES" "set DATA_FILES = set DATABASES \<union> set PLAIN_FILES"
  "set DATABASES \<inter> set PLAIN_FILES = {}"
  by (simp_all add: DATABASES_def DATA_FILES_def PLAIN_FILES_def) auto

lemma archive_members:
  "write_backup_archive copy dumps counts now version d =
     \<lparr>tm_name = BACKUP_META_FILE, tm_data = Some (dumps (JDict (archive_meta copy counts now version d)))\<rparr>
     # file_members copy d DATABASES @ file_members (\<lambda>n b. b) d PLAIN_FILES"
  by (simp add: write_backup_archive_def file_members_def plain_files)

lemma archive_names:
  "distinct (map tm_name (write_backup_archive copy dumps counts now version d))"
  "set (map tm_name (write_backup_archive copy dumps counts now version d)) \<subseteq> insert BACKUP_META_FILE (set DATA_FILES)"
proof -
  have c: "distinct DATABASES" "distinct PLAIN_FILES" "BACKUP_META_FILE \<notin> set DATABASES" "BACKUP_META_FILE \<notin> set PLAIN_FILES"
    by code_simp+
  let ?P = "\<lambda>n. map_of d n \<noteq> None"
  have "map tm_name (write_backup_archive copy dumps counts now version d) = BACKUP_META_FILE # filter ?P DATABASES @ filter ?P PLAIN_FILES"
    by (simp add: archive_members file_members_names)
  moreover have "distinct (filter ?P DATABASES @ filter ?P PLAIN_FILES)"
    unfolding distinct_append set_filter using plain_files(3) by (intro conjI distinct_filter c(1,2)) blast
  moreover have "BACKUP_META_FILE \<notin> set (filter ?P DATABASES @ filter ?P PLAIN_FILES)"
    using c(3,4) unfolding set_append set_filter by blast
  ultimately show "distinct (map tm_name (write_backup_archive copy dumps counts now version d))" by (simp only: distinct.simps simp_thms)
  show "set (map tm_name (write_backup_archive copy dumps counts now version d)) \<subseteq> insert BACKUP_META_FILE (set DATA_FILES)"
    unfolding plain_files(2) by (auto simp: archive_members file_members_set)
qed

definition saved_content :: "(string \<Rightarrow> 'b \<Rightarrow> 'b) \<Rightarrow> string \<Rightarrow> 'b \<Rightarrow> 'b" where
  "saved_content copy n b = (if n \<in> set DATABASES then copy n b else b)"

lemma archive_content:
  "n \<in> set DATA_FILES \<Longrightarrow> map_of (archived (write_backup_archive copy dumps counts now version d)) n = map_option (saved_content copy n) (map_of d n)"
proof -
  assume n: "n \<in> set DATA_FILES"
  have meta: "n \<noteq> BACKUP_META_FILE" using n by (auto simp: DATA_FILES_def BACKUP_META_FILE_def)
  note ad = archived_distinct [OF archive_names(1) [of copy dumps counts now version d], of n]
  show ?thesis
  proof (cases "map_of d n")
    case None
    have "map_of (archived (write_backup_archive copy dumps counts now version d)) n \<noteq> Some b" for b
      using None meta unfolding ad unfolding archive_members by (auto simp: file_members_set)
    with None show ?thesis by (cases "map_of (archived (write_backup_archive copy dumps counts now version d)) n") auto
  next
    case (Some c)
    let ?m = "\<lparr>tm_name = n, tm_data = Some (saved_content copy n c)\<rparr>"
    have "n \<in> set DATABASES \<or> n \<in> set PLAIN_FILES" "n \<in> set PLAIN_FILES \<Longrightarrow> n \<notin> set DATABASES"
      using n plain_files(2,3) by blast+
    then have "?m \<in> set (write_backup_archive copy dumps counts now version d)"
      using Some unfolding archive_members saved_content_def by (auto simp: file_members_set)
    moreover have "restorable ?m" using n meta by (simp add: restorable_def)
    ultimately have "map_of (archived (write_backup_archive copy dumps counts now version d)) n = Some (saved_content copy n c)"
      unfolding ad by (intro bexI [of _ ?m]) simp_all
    with Some show ?thesis by simp
  qed
qed

definition tools_work :: "'b tools \<Rightarrow> bool" where
  "tools_work tools \<longleftrightarrow> mkstemp_ok tools \<and> tl_write_fails tools = (\<lambda>n. False) \<and> tl_replace_fails tools = (\<lambda>n. False)"

lemma stage_works: "tl_write_fails tools = (\<lambda>n. False) \<Longrightarrow> snd (stage tools ms (d, st)) = None"
  by (induction ms arbitrary: d st) (simp_all add: stage_Cons Let_def del: stage.simps(2))

lemma verify_passes:
  "(\<And>n p. (n, p) \<in> set st \<Longrightarrow> n \<in> set DATABASES \<Longrightarrow> tl_verify tools (the (map_of d p)) = Some ''ok'') \<Longrightarrow> verify_staged tools d st = None"
proof (induction tools d st rule: verify_staged.induct)
  case (2 tools d n p st)
  have low: "py_lower ''ok'' = ''ok''" by code_simp
  have rest: "tl_verify tools (the (map_of d q)) = Some ''ok''" if "(x, q) \<in> set st" "x \<in> set DATABASES" for x q
    using 2(3) [of x q] that by simp
  show ?case
  proof (cases "n \<in> set DATABASES")
    case True
    then have "tl_verify tools (the (map_of d p)) = Some ''ok''" using 2(3) [of n p] by simp
    with True low 2(2) [OF _ this _ rest] show ?thesis by simp
  next
    case False
    with 2(1) [OF _ rest] show ?thesis by simp
  qed
qed simp

lemma written_archive_valid:
  assumes "tl_loads tools (dumps (JDict (archive_meta copy counts now version d))) = Inr (JDict (archive_meta copy counts now version d))"
  shows "\<exists>info. validate_backup tools (Inr (write_backup_archive copy dumps counts now version d)) = Inr info \<and> version_compared info = Inr ()"
proof -
  let ?m = "archive_meta copy counts now version d"
  have m: "j_get ?m ''magic'' = JStr MAGIC" "map_of ?m ''format_version'' = Some (JInt 1)"
    by (simp_all add: archive_meta_def backup_meta_def j_get_def dict_get_def FORMAT_VERSION_def)
  let ?ms = "write_backup_archive copy dumps counts now version d"
  have safe: "\<not> unsafe_name x" if "x \<in> set (BACKUP_META_FILE # DATA_FILES)" for x
  proof -
    have "list_all (\<lambda>x. \<not> unsafe_name x) (BACKUP_META_FILE # DATA_FILES)" by code_simp
    with that show ?thesis by (auto simp: list_all_iff)
  qed
  then have "filter unsafe_name (map tm_name ?ms) = []" using archive_names(2) [of copy dumps counts now version d] by (auto simp: filter_empty_conv)
  moreover have "member_named BACKUP_META_FILE ?ms = Some \<lparr>tm_name = BACKUP_META_FILE, tm_data = Some (dumps (JDict ?m))\<rparr>"
  proof -
    have "BACKUP_META_FILE \<notin> tm_name ` set (file_members copy d DATABASES @ file_members (\<lambda>n b. b) d PLAIN_FILES)"
      using archive_names(1) [of copy dumps counts now version d] by (simp add: archive_members image_Un)
    then have "filter (\<lambda>m. tm_name m = BACKUP_META_FILE) (rev (file_members copy d DATABASES @ file_members (\<lambda>n b. b) d PLAIN_FILES)) = []"
      unfolding filter_empty_conv set_rev by (metis imageI)
    then show ?thesis by (simp add: member_named_def archive_members)
  qed
  ultimately obtain info where v: "validate_backup tools (Inr ?ms) = Inr info"
      and i: "map_of info ''format_version'' = map_of ?m ''format_version''"
    using assms m(1) by (auto simp: validate_backup_def)
  have c: "version_compared info = Inr ()" by (simp add: version_compared_def dict_get_def i m(2))
  with v show ?thesis by blast
qed

text \<open>
  C28. A backup restored into any data directory gives back every data file it was made of: the
  databases as their consistent copies, the configuration, keys and login state as they were.  That
  takes a JSON text that reads back as the metadata written, copies that pass the integrity check,
  and a file system that neither fails nor gives a staging file a name in use.
\<close>

theorem backup_round_trip:
  assumes "tools_work tools" and "tl_loads tools (dumps (JDict (archive_meta copy counts now version d))) = Inr (JDict (archive_meta copy counts now version d))"
    and "list_all (\<lambda>n. case map_of d n of None \<Rightarrow> True | Some b \<Rightarrow> tl_verify tools (copy n b) = Some ''ok'') DATABASES"
    and "n \<in> set DATA_FILES" and "map_of d n = Some b"
  shows "\<exists>d' names info. restore_backup tools (Inr (write_backup_archive copy dumps counts now version d)) d0 = (d', Inr (names, info)) \<and>
    n \<in> set names \<and> map_of d' n = Some (saved_content copy n b)"
proof -
  let ?ms = "write_backup_archive copy dumps counts now version d"
  have tools: "mkstemp_ok tools" using assms(1) by (simp add: tools_work_def)
  obtain info where v: "validate_backup tools (Inr ?ms) = Inr info" and c: "version_compared info = Inr ()"
    using written_archive_valid [of tools dumps copy counts now version d] assms(2) by blast
  obtain d1 st where s: "stage tools ?ms (d0, []) = ((d1, st), None)"
    using stage_works [of tools ?ms d0 "[]"] assms(1) by (cases "stage tools ?ms (d0, [])") (auto simp: tools_work_def)
  note ok = stage_ok [OF s staged_ok_start tools] and data = stage_data [OF s tools]
  have "verify_staged tools d1 st = None"
  proof (rule verify_passes)
    fix x p assume x: "(x, p) \<in> set st" "x \<in> set DATABASES"
    then have xp: "map_of st x = Some p" using staged_paths(1) [OF ok] by simp
    then obtain a where a: "map_of (archived ?ms) x = Some a" "map_of d1 p = Some a"
      using data [of x x] by (auto split: option.splits)
    then obtain c where "map_of d x = Some c" "a = copy x c"
      using archive_content [of x copy dumps counts now version d] x(2) plain_files(2) by (auto simp: saved_content_def)
    then show "tl_verify tools (the (map_of d1 p)) = Some ''ok''" using assms(3) x(2) a(2) by (auto simp: list_all_iff)
  qed
  moreover obtain d2 r2 rest where cm: "commit tools st (d1, []) = (d2, r2, rest)" by (metis prod_cases3)
  moreover have "rest = []" using commit_stops [OF cm] assms(1) by (auto simp: tools_work_def)
  ultimately have r: "restore_backup tools (Inr ?ms) d0 = (d2, Inr (r2, info))"
    using v c s by (simp add: restore_backup_def)
  have "\<not> temp_name n" by (rule data_not_temp [OF assms(4)])
  have e: "set r2 = fst ` set (archived ?ms) \<and> map_of d2 n = (if n \<in> set (sidecars r2) then None
      else case map_of (archived ?ms) n of Some b \<Rightarrow> Some b | None \<Rightarrow> map_of d0 n)"
    by (rule restored_exactly [OF r tools \<open>\<not> temp_name n\<close>])
  have a: "map_of (archived ?ms) n = Some (saved_content copy n b)" using archive_content [OF assms(4), of copy dumps counts now version d] assms(5) by simp
  then have "n \<in> set r2" using e by (metis domI dom_map_of_conv_image_fst)
  moreover have "n \<notin> set (sidecars r2)" using sidecar_names [of n r2] assms(4) by blast
  ultimately show ?thesis using r e a by auto
qed

section \<open>Keeping the newest\<close>

lemma listed_set: "set (list_backups fs) = {f \<in> set fs. is_backup f}"
  by (auto simp: list_backups_def)

lemma listed_sorted: "sorted_wrt (\<lambda>f g. bf_modified g \<le> bf_modified f) (list_backups fs)"
proof -
  have "sorted (map bf_modified (sort_key bf_modified (rev (filter is_backup fs))))" by simp
  then show ?thesis by (simp add: list_backups_def sorted_wrt_rev sorted_map)
qed

text \<open>
  The clean-up removes backups only, all but the newest, and none that is newer than one it
  keeps; what it counts is what it removed.
\<close>

theorem cleanup_keeps_newest:
  assumes "distinct (map bf_name fs)" and "cleanup_old_backups (\<lambda>n. False) keep fs = (fs', n)"
  shows "set fs' \<subseteq> set fs \<and> length (filter is_backup fs') = min keep (length (filter is_backup fs)) \<and>
    length fs' + n = length fs \<and> filter (\<lambda>f. \<not> is_backup f) fs' = filter (\<lambda>f. \<not> is_backup f) fs \<and>
    (\<forall>f \<in> set fs - set fs'. \<forall>g \<in> set (filter is_backup fs'). bf_modified f \<le> bf_modified g)"
proof -
  let ?L = "list_backups fs"
  let ?old = "\<lambda>f. f \<in> set (drop keep ?L)"
  have names: "inj_on bf_name (set fs)" "distinct fs" using assms(1) by (simp_all add: distinct_map)
  have L: "distinct ?L" "length ?L = length (filter is_backup fs)" using names(2) by (simp_all add: list_backups_def)
  have sub: "set (drop keep ?L) \<subseteq> {f \<in> set fs. is_backup f}" using set_drop_subset [of keep ?L] unfolding listed_set .
  have old: "bf_name f \<in> set (map bf_name (drop keep ?L)) \<longleftrightarrow> ?old f" if "f \<in> set fs" for f
    using sub names(1) that by (auto simp: inj_on_def)
  have fs': "fs' = filter (\<lambda>f. \<not> ?old f) fs" and n: "n = length (drop keep ?L)"
    using assms(2) old by (auto simp: cleanup_old_backups_def intro: filter_cong)
  have split: "set ?L = set (take keep ?L) \<union> set (drop keep ?L)" "set (take keep ?L) \<inter> set (drop keep ?L) = {}"
    using L(1) set_append [of "take keep ?L" "drop keep ?L"] distinct_append [of "take keep ?L" "drop keep ?L"] by simp_all
  have kept: "set (filter is_backup fs') = set (take keep ?L)"
    using split listed_set [of fs] by (auto simp: fs')
  have "length (filter is_backup fs') = card (set (filter is_backup fs'))"
    using names(2) by (intro distinct_card [symmetric]) (simp add: fs')
  then have len: "length (filter is_backup fs') = min keep (length (filter is_backup fs))"
    unfolding kept using L by (simp add: distinct_card min.commute)
  have "length (filter ?old fs) = card (set (filter ?old fs))" using names(2) by (intro distinct_card [symmetric]) simp
  moreover have "set (filter ?old fs) = set (drop keep ?L)" using sub by auto
  ultimately have "length (filter ?old fs) = n" using L(1) by (simp add: n distinct_card)
  then have count: "length fs' + n = length fs" using sum_length_filter_compl [of ?old fs] by (simp add: fs')
  have "sorted_wrt (\<lambda>f g. bf_modified g \<le> bf_modified f) (take keep ?L @ drop keep ?L)" using listed_sorted by simp
  then have "bf_modified f \<le> bf_modified g" if "f \<in> set (drop keep ?L)" "g \<in> set (take keep ?L)" for f g
    using that unfolding sorted_wrt_append by blast
  then have newest: "\<forall>f \<in> set fs - set fs'. \<forall>g \<in> set (filter is_backup fs'). bf_modified f \<le> bf_modified g"
    unfolding kept by (auto simp: fs')
  have "filter (\<lambda>f. \<not> is_backup f) fs' = filter (\<lambda>f. \<not> is_backup f) fs"
    unfolding fs' filter_filter using sub by (intro filter_cong) auto
  with len count newest show ?thesis by (auto simp: fs')
qed

section \<open>The directory picker stays inside\<close>

text \<open>
  The directory picker lists a directory only inside the allowed roots, offers its parent only
  if that is inside too, and no hidden directory.
\<close>

theorem browse_confined:
  assumes "browse_directory realpath dirname entries roots path = Inr l"
  shows "in_roots realpath roots (ls_path l) \<and> ls_path l = realpath path \<and>
    (case ls_parent l of None \<Rightarrow> True | Some p \<Rightarrow> in_roots realpath roots p) \<and>
    list_all (\<lambda>n. \<not> py_startswith n ''.'') (ls_directories l)"
  using assms by (auto simp: browse_directory_def Let_def list_all_iff split: if_splits option.splits)

lemma browse_confined_witness:
  "\<exists>l. browse_directory (\<lambda>p. p) (\<lambda>p. ''/backup'') (\<lambda>p. Some [(''new'', True), (''.old'', True), (''a.txt'', False)]) [''/backup''] ''/backup/2026'' = Inr l
     \<and> in_roots (\<lambda>p. p) [''/backup''] (ls_path l) \<and> ls_directories l = [''new'']"
proof -
  let ?r = "browse_directory (\<lambda>p. p) (\<lambda>p. ''/backup'') (\<lambda>p. Some [(''new'', True), (''.old'', True), (''a.txt'', False)]) [''/backup''] ''/backup/2026''"
  have d: "map_sum id ls_directories ?r = Inr [''new'']" by code_simp
  then obtain l where l: "?r = Inr l" by (cases ?r) auto
  with browse_confined [OF l] d show ?thesis by auto
qed

section \<open>Examples\<close>

definition fresh_temp :: "string \<Rightarrow> 'b disk \<Rightarrow> string" where
  "fresh_temp n d = ''.docsight-restore-'' @ n @ ''.'' @ concat (dict_keys d) @ ''.tmp''"

definition sample_tools :: "string option \<Rightarrow> string tools" where
  "sample_tools verdict = \<lparr>tl_loads = (\<lambda>b. Inr (JDict [(''magic'', JStr MAGIC), (''format_version'', JInt 1)])),
     tl_verify = (\<lambda>b. verdict), tl_mkstemp = fresh_temp, tl_write_fails = (\<lambda>n. False), tl_replace_fails = (\<lambda>n. False)\<rparr>"

lemma fresh_temp_ok: "fresh_temp n d \<notin> set (dict_keys d)" "temp_name (fresh_temp n d)"
proof -
  have len: "k \<in> set ks \<Longrightarrow> length k \<le> length (concat ks)" for k and ks :: "string list"
    by (induction ks) auto
  show "fresh_temp n d \<notin> set (dict_keys d)" using len [of "fresh_temp n d" "dict_keys d"] by (auto simp: fresh_temp_def)
  show "temp_name (fresh_temp n d)" by (simp add: temp_name_def fresh_temp_def)
qed

lemma fresh_temp_works: "tl_mkstemp tools = fresh_temp \<Longrightarrow> mkstemp_ok tools"
  unfolding mkstemp_ok_def using fresh_temp_ok by metis

lemma sample_tools_work: "tools_work (sample_tools v)"
  by (simp add: tools_work_def fresh_temp_works sample_tools_def)

text \<open>Files whose contents are JSON values.\<close>

definition json_tools :: "json tools" where
  "json_tools = \<lparr>tl_loads = Inr, tl_verify = (\<lambda>b. Some ''ok''), tl_mkstemp = fresh_temp,
     tl_write_fails = (\<lambda>n. False), tl_replace_fails = (\<lambda>n. False)\<rparr>"

lemma json_tools_work: "tools_work json_tools"
  by (simp add: tools_work_def fresh_temp_works json_tools_def)

definition json_disk :: "json disk" where
  "json_disk = [(''config.json'', JStr ''old''), (''docsis_history.db'', JList [JInt 1, JInt 2])]"

definition row_count :: "json \<Rightarrow> (string \<times> json) list" where
  "row_count db = (case db of JList rows \<Rightarrow> [(''snapshots'', JInt (int (length rows)))] | _ \<Rightarrow> [])"

lemmas sample_mkstemp = sample_tools_work [unfolded tools_work_def, THEN conjunct1]

definition sample_archive :: "string tar_member list" where
  "sample_archive = [\<lparr>tm_name = BACKUP_META_FILE, tm_data = Some ''{}''\<rparr>, \<lparr>tm_name = ''config.json'', tm_data = Some ''new''\<rparr>,
     \<lparr>tm_name = ''docsis_history.db'', tm_data = Some ''rows''\<rparr>, \<lparr>tm_name = ''notes.txt'', tm_data = Some ''x''\<rparr>]"

definition sample_disk :: "string disk" where
  "sample_disk = [(''config.json'', ''old''), (''docsis_history.db'', ''gone''), (''docsis_history.db-wal'', ''log''), (''other'', ''y'')]"

lemma failed_restore_changes_nothing_witness:
  "\<exists>d' e. restore_backup (sample_tools None) (Inr sample_archive) sample_disk = (d', Inl e) \<and> map_of d' ''config.json'' = Some ''old''"
proof -
  obtain d' e where r: "restore_backup (sample_tools None) (Inr sample_archive) sample_disk = (d', Inl e)"
  proof -
    have "isl (snd (restore_backup (sample_tools None) (Inr sample_archive) sample_disk))" by code_simp
    then show ?thesis using that by (metis isl_def prod.collapse)
  qed
  have "map_of d' ''config.json'' = map_of sample_disk ''config.json''"
  proof (rule failed_restore_changes_nothing [OF r sample_mkstemp])
    show "tl_replace_fails (sample_tools None) = (\<lambda>n. False)" by (simp add: sample_tools_def)
    show "\<not> temp_name ''config.json'' \<or> map_of sample_disk ''config.json'' \<noteq> None" by code_simp
  qed
  with r show ?thesis by (simp add: sample_disk_def)
qed

lemma sample_restored:
  obtains d' meta where "restore_backup (sample_tools (Some ''ok'')) (Inr sample_archive) sample_disk
    = (d', Inr ([''config.json'', ''docsis_history.db''], meta))"
proof -
  let ?r = "restore_backup (sample_tools (Some ''ok'')) (Inr sample_archive) sample_disk"
  have "map_sum id fst (snd ?r) = Inr [''config.json'', ''docsis_history.db'']" by code_simp
  then show ?thesis using that by (cases ?r; cases "snd ?r") auto
qed

lemma restore_exact_witness:
  "\<exists>d' names meta. restore_backup (sample_tools (Some ''ok'')) (Inr sample_archive) sample_disk = (d', Inr (names, meta)) \<and>
     map_of d' ''config.json'' = Some ''new'' \<and> map_of d' ''docsis_history.db-wal'' = None"
proof -
  obtain d' meta where r: "restore_backup (sample_tools (Some ''ok'')) (Inr sample_archive) sample_disk
    = (d', Inr ([''config.json'', ''docsis_history.db''], meta))" by (rule sample_restored)
  have n: "\<not> temp_name ''config.json''" "\<not> temp_name ''docsis_history.db-wal''" by code_simp+
  have "map_of (archived sample_archive) ''config.json'' = Some ''new''" by code_simp
  moreover have "''config.json'' \<notin> set (sidecars [''config.json'', ''docsis_history.db''])"
    "''docsis_history.db-wal'' \<in> set (sidecars [''config.json'', ''docsis_history.db''])" by code_simp+
  ultimately show ?thesis using r restore_exact [OF r sample_mkstemp n(1)] restore_exact [OF r sample_mkstemp n(2)] by simp
qed

lemma restore_leaves_no_staging_witness:
  "\<exists>d' r. restore_backup (sample_tools (Some ''ok'')) (Inr sample_archive) [] = (d', r) \<and>
     map_of d' ''config.json'' \<noteq> None \<and> (map_of [] ''config.json'' \<noteq> (None :: string option) \<or> ''config.json'' \<in> set DATA_FILES)"
proof -
  obtain d' r where r: "restore_backup (sample_tools (Some ''ok'')) (Inr sample_archive) [] = (d', r)" by (metis prod.exhaust)
  have "map_of (fst (restore_backup (sample_tools (Some ''ok'')) (Inr sample_archive) [])) ''config.json'' = Some ''new''" by code_simp
  then have c: "map_of d' ''config.json'' \<noteq> None" using r by simp
  have "distinct (map tm_name sample_archive)" by code_simp
  from restore_leaves_no_staging [OF r sample_mkstemp this c] r c show ?thesis by blast
qed

lemma backup_round_trip_witness:
  "\<exists>d' names info. restore_backup json_tools
       (Inr (write_backup_archive (\<lambda>n b. b) (\<lambda>v. v) row_count ''2026-01-01'' ''1.0'' json_disk)) [] = (d', Inr (names, info)) \<and>
     ''config.json'' \<in> set names \<and> map_of d' ''config.json'' = Some (saved_content (\<lambda>n b. b) ''config.json'' (JStr ''old''))"
proof (rule backup_round_trip [OF json_tools_work])
  show "list_all (\<lambda>n. case map_of json_disk n of None \<Rightarrow> True | Some b \<Rightarrow> tl_verify json_tools b = Some ''ok'') DATABASES"
    by (simp add: list_all_iff json_tools_def split: option.split)
qed (simp_all add: json_tools_def DATA_FILES_def json_disk_def)

text \<open>
  Two members of the same name leave the first one's content, here the key of the configuration,
  in a staging file beside the data files: only the staging file of the last one is ever removed.
\<close>

theorem duplicate_member_leaks:
  "\<exists>d' names meta. restore_backup (sample_tools (Some ''ok''))
       (Inr [\<lparr>tm_name = BACKUP_META_FILE, tm_data = Some ''{}''\<rparr>, \<lparr>tm_name = ''.config_key'', tm_data = Some ''first''\<rparr>,
             \<lparr>tm_name = ''.config_key'', tm_data = Some ''second''\<rparr>]) [] = (d', Inr (names, meta)) \<and>
     map_of d' ''.config_key'' = Some ''second'' \<and> map_of d' ''.docsight-restore-.config_key..tmp'' = Some ''first''"
proof -
  let ?r = "restore_backup (sample_tools (Some ''ok''))
       (Inr [\<lparr>tm_name = BACKUP_META_FILE, tm_data = Some ''{}''\<rparr>, \<lparr>tm_name = ''.config_key'', tm_data = Some ''first''\<rparr>,
             \<lparr>tm_name = ''.config_key'', tm_data = Some ''second''\<rparr>]) []"
  have "\<not> isl (snd ?r)" "map_of (fst ?r) ''.config_key'' = Some ''second''"
    "map_of (fst ?r) ''.docsight-restore-.config_key..tmp'' = Some ''first''" by code_simp+
  then show ?thesis by (cases ?r; cases "snd ?r") auto
qed

lemma cleanup_keeps_newest_witness:
  "\<exists>fs' n. cleanup_old_backups (\<lambda>n. False) 1 [\<lparr>bf_name = ''docsight_backup_a.tar.gz'', bf_modified = ''2026-01-01'', bf_regular = True\<rparr>,
       \<lparr>bf_name = ''docsight_backup_b.tar.gz'', bf_modified = ''2026-01-02'', bf_regular = True\<rparr>] = (fs', n) \<and> length fs' + n = 2 \<and>
     length (filter is_backup fs') = 1"
proof -
  let ?fs = "[\<lparr>bf_name = ''docsight_backup_a.tar.gz'', bf_modified = ''2026-01-01'', bf_regular = True\<rparr>,
       \<lparr>bf_name = ''docsight_backup_b.tar.gz'', bf_modified = ''2026-01-02'', bf_regular = True\<rparr>]"
  obtain fs' n where r: "cleanup_old_backups (\<lambda>n. False) 1 ?fs = (fs', n)" by (metis prod.exhaust)
  have "distinct (map bf_name ?fs)" "length (filter is_backup ?fs) = 2" by code_simp+
  from cleanup_keeps_newest [OF this(1) r] this(2) r show ?thesis by auto
qed

end
