(* ===== verification/Format_Values.thy ===== *)
theory Format_Values
  imports Json_Values Docsis_Utils
begin

text \<open>
  \<^verbatim>\<open>app/drivers/formats/primitives.py\<close> and \<^verbatim>\<open>contract.py\<close>: reading numbers, frequencies and modulation
  names out of modem payloads, the result of a parser, and the loop over rows that its profiles
  share.  The text of a modem is ASCII; \<open>show\<close> is \<^verbatim>\<open>str\<close> of a float, a list or a dictionary.
\<close>

section \<open>Text\<close>

text \<open>\<^verbatim>\<open>s.split()\<close> at white space.\<close>

fun words_loop :: "string \<Rightarrow> string \<Rightarrow> string list" where
  "words_loop w [] = (if w = [] then [] else [w])"
| "words_loop w (c # cs) =
     (if py_space c then (if w = [] then words_loop [] cs else w # words_loop [] cs) else words_loop (w @ [c]) cs)"

definition py_words :: "string \<Rightarrow> string list" where
  "py_words s = words_loop [] s"

text \<open>\<^verbatim>\<open>s.replace(p, "")\<close> for a non-empty text.\<close>

definition py_delete :: "string \<Rightarrow> string \<Rightarrow> string" where
  "py_delete p s = concat (py_split p s)"

text \<open>\<^verbatim>\<open>f"{x:.nf}"\<close> of a finite number, rounded half to even.\<close>

definition py_fixed :: "nat \<Rightarrow> rat \<Rightarrow> string" where
  "py_fixed n x =
     (let k = nat \<bar>rne (x * 10 ^ n)\<bar>; d = nat_str (k mod 10 ^ n)
      in (if x < 0 then ''-'' else []) @ nat_str (k div 10 ^ n)
         @ (if n = 0 then [] else ''.'' @ replicate (n - length d) CHR ''0'' @ d))"

fun j_float :: "json \<Rightarrow> f64 res" where
  "j_float (JBool b) = py_float (PBool b)"
| "j_float (JInt n) = py_float (PInt n)"
| "j_float (JFloat x) = Inr x"
| "j_float (JStr s) = py_float (PStr s)"
| "j_float JNull = Inl TypeError"
| "j_float (JList xs) = Inl TypeError"
| "j_float (JDict d) = Inl TypeError"

fun j_str :: "(json \<Rightarrow> string) \<Rightarrow> json \<Rightarrow> string" where
  "j_str show JNull = ''None''"
| "j_str show (JBool b) = (if b then ''True'' else ''False'')"
| "j_str show (JInt n) = int_str n"
| "j_str show (JStr s) = s"
| "j_str show v = show v"

fun j_is_number :: "json \<Rightarrow> bool" where
  "j_is_number (JBool b) = True"
| "j_is_number (JInt n) = True"
| "j_is_number (JFloat x) = True"
| "j_is_number v = False"

text \<open>\<^verbatim>\<open>x / 10**6\<close> and \<^verbatim>\<open>x / 10**3\<close> of a float.\<close>

abbreviation per_million :: "f64 \<Rightarrow> f64" where "per_million \<equiv> f_scale (1 / 1000000)"
abbreviation per_thousand :: "f64 \<Rightarrow> f64" where "per_thousand \<equiv> f_scale (1 / 1000)"

section \<open>Value primitives\<close>

text \<open>\<^verbatim>\<open>float(parts[0])\<close>, where a missing part raises \<^verbatim>\<open>IndexError\<close>.\<close>

definition first_float :: "string list \<Rightarrow> f64 option" where
  "first_float parts = (case parts of [] \<Rightarrow> None | p # _ \<Rightarrow> parse_float p)"

definition parse_number :: "string \<Rightarrow> f64" where
  "parse_number value = (case first_float (py_words (py_strip value)) of None \<Rightarrow> Fin 0 | Some x \<Rightarrow> x)"

definition parse_optional_finite_float :: "(json \<Rightarrow> string) \<Rightarrow> json \<Rightarrow> f64 option" where
  "parse_optional_finite_float show value =
     (case parse_float (py_strip (j_str show value)) of
        Some x \<Rightarrow> if finite_f x then Some x else None
      | None \<Rightarrow> None)"

definition mhz_text :: "f64 \<Rightarrow> string res" where
  "mhz_text mhz =
     (case mhz of
        Fin x \<Rightarrow> Inr ((if x = of_int (trunc_rat x) then int_str (trunc_rat x) else py_fixed 1 x) @ '' MHz'')
      | NaN \<Rightarrow> Inl (ValueError ''cannot convert float NaN to integer'')
      | _ \<Rightarrow> Inl OverflowError)"

definition unit_of :: "string list \<Rightarrow> string" where
  "unit_of parts = (if 1 < length parts then py_lower (parts ! 1) else [])"

definition unit_to_mhz :: "string \<Rightarrow> f64 \<Rightarrow> f64" where
  "unit_to_mhz unit val =
     (if unit = ''hz'' then per_million val
      else if unit = ''khz'' then per_thousand val
      else if unit = ''mhz'' then val
      else if f_lt (Fin 1000000) val then per_million val
      else if f_lt (Fin 1000) val then per_thousand val
      else val)"

definition hz_to_mhz :: "(json \<Rightarrow> string) \<Rightarrow> json \<Rightarrow> string res" where
  "hz_to_mhz show freq =
     (if j_is_number freq then
        (if \<not> j_truthy freq then Inr ''0 MHz''
         else res_bind (j_float freq) (\<lambda>x. mhz_text (per_million x)))
      else let freq_str = py_strip (j_str show freq) in
        if freq_str = [] then Inr []
        else case first_float (py_words freq_str) of
          None \<Rightarrow> Inr freq_str
        | Some val \<Rightarrow> mhz_text (unit_to_mhz (unit_of (py_words freq_str)) val))"

definition mod_separator :: "char \<Rightarrow> bool" where
  "mod_separator c \<longleftrightarrow> py_space c \<or> c = CHR ''_'' \<or> c = CHR ''-''"

definition normalize_modulation_text :: "string \<Rightarrow> string" where
  "normalize_modulation_text text =
     (let raw = py_strip text; m = py_lower (filter (\<lambda>c. \<not> mod_separator c) raw) in
      if raw = [] then []
      else if m = [] then py_upper raw
      else if py_in ''qpsk'' m then ''QPSK''
      else if py_in ''ofdma'' m then ''OFDMA''
      else if py_in ''ofdm'' m then ''OFDM''
      else if py_in ''atdma'' m then ''ATDMA''
      else if m = ''tdma'' then ''TDMA''
      else if py_in ''qam'' m then
        (let number = py_delete ''qam'' m in
         if number \<noteq> [] \<and> list_all is_digit number then number @ ''QAM''
         else if number = [] then ''QAM'' else py_upper number @ ''QAM'')
      else py_upper raw)"

definition normalize_modulation :: "(json \<Rightarrow> string) \<Rightarrow> json \<Rightarrow> string" where
  "normalize_modulation show m = (if m = JNull then [] else normalize_modulation_text (j_str show m))"

definition parse_mhz_value :: "string \<Rightarrow> f64" where
  "parse_mhz_value freq_str =
     (let parts = py_words (py_strip freq_str) in
      case first_float parts of None \<Rightarrow> Fin 0 | Some value \<Rightarrow> unit_to_mhz (unit_of parts) value)"

text \<open>The error of \<^verbatim>\<open>int(mhz)\<close> is caught when it is a \<^verbatim>\<open>ValueError\<close>.\<close>

definition normalize_mhz :: "string \<Rightarrow> string res" where
  "normalize_mhz freq_str =
     (case first_float (py_words (py_strip freq_str)) of
        None \<Rightarrow> Inr freq_str
      | Some mhz \<Rightarrow> catch_type_value (mhz_text mhz) freq_str)"

section \<open>Results of a parser\<close>

record parse_diagnostic =
  pd_family :: string
  pd_profile :: string
  pd_code :: string
  pd_direction :: "string option"
  pd_index :: "nat option"
  pd_field :: "string option"

type_synonym driver_channel = "(string \<times> json) list"
type_synonym 'a parse_result = "'a \<times> parse_diagnostic list"

record docsis_lanes =
  ln_ds30 :: "driver_channel list"
  ln_ds31 :: "driver_channel list"
  ln_us30 :: "driver_channel list"
  ln_us31 :: "driver_channel list"

definition docsis_split :: "driver_channel list \<Rightarrow> driver_channel list \<Rightarrow> driver_channel list \<Rightarrow> driver_channel list \<Rightarrow> docsis_lanes" where
  "docsis_split a b c d = \<lparr>ln_ds30 = a, ln_ds31 = b, ln_us30 = c, ln_us31 = d\<rparr>"

definition docsis_result ::
  "driver_channel list parse_result \<Rightarrow> driver_channel list parse_result \<Rightarrow> driver_channel list parse_result
   \<Rightarrow> driver_channel list parse_result \<Rightarrow> docsis_lanes parse_result" where
  "docsis_result a b c d = (docsis_split (fst a) (fst b) (fst c) (fst d), snd a @ snd b @ snd c @ snd d)"

text \<open>\<^verbatim>\<open>for index, row in enumerate(rows)\<close>: an iteration appends channels and diagnostics or raises.\<close>

fun parse_rows :: "(nat \<Rightarrow> 'r \<Rightarrow> 'c list parse_result res) \<Rightarrow> nat \<Rightarrow> 'r list \<Rightarrow> 'c list parse_result res" where
  "parse_rows step i [] = Inr ([], [])"
| "parse_rows step i (r # rs) =
     res_bind (step i r) (\<lambda>(c, d). map_sum id (\<lambda>(cs, ds). (c @ cs, d @ ds)) (parse_rows step (Suc i) rs))"

text \<open>\<^verbatim>\<open>except (ValueError, KeyError, TypeError)\<close> around the building of a channel.\<close>

fun value_error :: "py_error \<Rightarrow> bool" where
  "value_error (ValueError s) = True"
| "value_error TypeError = True"
| "value_error (KeyError k) = True"
| "value_error e = False"

definition or_diagnose :: "parse_diagnostic \<Rightarrow> 'c list parse_result res \<Rightarrow> 'c list parse_result res" where
  "or_diagnose issue r = (case r of Inl e \<Rightarrow> if value_error e then Inr ([], [issue]) else Inl e | Inr x \<Rightarrow> Inr x)"

text \<open>Channels with the lane they belong to, True for DOCSIS 3.1.\<close>

definition split_lanes :: "(bool \<times> 'c) list \<Rightarrow> 'c list \<times> 'c list" where
  "split_lanes cs = (map snd (filter (\<lambda>c. \<not> fst c) cs), map snd (filter fst cs))"

text \<open>Iterating over a value, \<^verbatim>\<open>row.get(k, default)\<close> and \<^verbatim>\<open>row[k]\<close>.\<close>

fun iter_rows :: "json \<Rightarrow> json list res" where
  "iter_rows (JList xs) = Inr xs"
| "iter_rows (JDict d) = Inr (map JStr (dict_keys d))"
| "iter_rows (JStr s) = Inr (map (\<lambda>c. JStr [c]) s)"
| "iter_rows v = Inl TypeError"

fun row_get :: "json \<Rightarrow> string \<Rightarrow> json \<Rightarrow> json res" where
  "row_get (JDict d) k dflt = Inr (dict_get d k dflt)"
| "row_get v k dflt = Inl AttributeError"

definition row_item :: "(string \<times> json) list \<Rightarrow> string \<Rightarrow> json res" where
  "row_item d k = (case map_of d k of None \<Rightarrow> Inl (KeyError k) | Some v \<Rightarrow> Inr v)"

abbreviation int_item :: "(string \<times> json) list \<Rightarrow> string \<Rightarrow> int res" where
  "int_item d k \<equiv> res_bind (row_item d k) j_int"

abbreviation float_item :: "(string \<times> json) list \<Rightarrow> string \<Rightarrow> f64 res" where
  "float_item d k \<equiv> res_bind (row_item d k) j_float"

definition payload_dict :: "json \<Rightarrow> (string \<times> json) list" where
  "payload_dict v = (case v of JDict d \<Rightarrow> d | _ \<Rightarrow> [])"

section \<open>Lemmas\<close>

text \<open>What a loop over rows returns is what its iterations append, in the order of the rows.\<close>

lemma res_bind_Inl_iff: "res_bind r f = Inl e \<longleftrightarrow> r = Inl e \<or> (\<exists>x. r = Inr x \<and> f x = Inl e)"
  by (cases r) auto

lemma parse_rows_steps:
  assumes "\<And>j r. j < length rs \<Longrightarrow> rs ! j = r \<Longrightarrow> step (i + j) r = Inr (f (i + j) r)"
  shows "parse_rows step i rs = Inr (concat (map (\<lambda>(j, r). fst (f j r)) (enumerate i rs)),
    concat (map (\<lambda>(j, r). snd (f j r)) (enumerate i rs)))"
  using assms
proof (induction rs arbitrary: i)
  case (Cons r rs)
  have "step i r = Inr (f i r)" using Cons.prems [of 0 r] by simp
  moreover have "step (Suc i + j) x = Inr (f (Suc i + j) x)" if "j < length rs" "rs ! j = x" for j x
    using Cons.prems [of "Suc j" x] that by simp
  note Cons.IH [of "Suc i", OF this]
  ultimately show ?case by (cases "f i r") simp
qed simp

lemma parse_rows_from:
  assumes "parse_rows step i rs = Inr (cs, ds)" and "c \<in> set cs"
  shows "\<exists>j r cs' ds'. r \<in> set rs \<and> step j r = Inr (cs', ds') \<and> c \<in> set cs'"
  using assms
proof (induction rs arbitrary: i cs ds)
  case (Cons r rs)
  then obtain c1 d1 c2 d2 where s: "step i r = Inr (c1, d1)" and t: "parse_rows step (Suc i) rs = Inr (c2, d2)"
    and cs: "cs = c1 @ c2"
    by (auto simp: res_bind_Inr_iff map_sum_Inr_iff)
  show ?case
  proof (cases "c \<in> set c1")
    case True
    with s show ?thesis by auto
  next
    case False
    with Cons.prems cs have "c \<in> set c2" by simp
    from Cons.IH [OF t this] show ?thesis by auto
  qed
qed simp

lemma or_diagnose_Inr:
  "or_diagnose issue r = Inr (cs, ds) \<longleftrightarrow> r = Inr (cs, ds) \<or> (\<exists>e. r = Inl e \<and> value_error e \<and> cs = [] \<and> ds = [issue])"
  by (cases r) (auto simp: or_diagnose_def)

text \<open>\<^verbatim>\<open>split\<close> at one character undoes \<^verbatim>\<open>join\<close> when no word contains it.\<close>

lemma py_split_plain: "c \<notin> set w \<Longrightarrow> py_split [c] w = [w]"
  by (induction w) (auto simp: py_split.simps)

lemma py_split_word1: "c \<notin> set w \<Longrightarrow> py_split [c] (w @ c # s) = w # py_split [c] s"
proof (induction w)
  case Nil
  show ?case using py_split_sep [of "[c]" s] by simp
qed (auto simp: py_split.simps)

lemma py_split_join1:
  assumes "\<forall>w \<in> set ws. c \<notin> set w" and "ws \<noteq> []"
  shows "py_split [c] (py_join [c] ws) = ws"
  using assms
proof (induction "[c]" ws rule: py_join.induct)
  case (3 x y zs)
  then show ?case using py_split_word1 [of c x "py_join [c] (y # zs)"] by simp
qed (simp_all add: py_split_plain)

section \<open>Numbers and their texts\<close>

lemma parse_int_int_str: "parse_int (int_str n) = Some n"
proof (cases "n < 0")
  case True
  let ?d = "nat_str (nat (- n))"
  have d: "list_all is_digit ?d" "?d \<noteq> []" using nat_str_digits by auto
  have "is_digit (last ?d)" using d by (auto simp: list_all_iff)
  then have "\<not> py_space (last ?d)" by (rule not_space_digit)
  moreover have "\<not> py_space CHR ''-''" by code_simp
  ultimately have "py_strip (CHR ''-'' # ?d) = CHR ''-'' # ?d" using d by (intro strip_no_space) auto
  with True d show ?thesis by (simp add: int_str_def parse_int_def unsign_def digit_group_digits digits_val_nat_str)
next
  case False
  then show ?thesis by (simp add: int_str_def parse_int_nat_str)
qed

lemma words_loop_append: "(\<forall>c \<in> set w. \<not> py_space c) \<Longrightarrow> words_loop a (w @ s) = words_loop (a @ w) s"
  by (induction w arbitrary: a) auto

lemma py_words_two:
  assumes "\<forall>c \<in> set w. \<not> py_space c" "w \<noteq> []" "\<forall>c \<in> set v. \<not> py_space c" "v \<noteq> []"
  shows "py_words (w @ '' '' @ v) = [w, v]"
proof -
  have "py_space CHR '' ''" by code_simp
  then show ?thesis
    using words_loop_append [of w "[]" "'' '' @ v"] words_loop_append [of v "[]" "[]"] assms by (simp add: py_words_def)
qed


text \<open>The texts of decimals.\<close>

definition plain_digits :: "string \<Rightarrow> bool" where
  "plain_digits s \<longleftrightarrow> list_all is_digit s \<and> s \<noteq> []"

lemma plain_nat_str: "plain_digits (nat_str n)"
  using nat_str_digits by (simp add: plain_digits_def)

lemma digit_facts:
  assumes "is_digit c"
  shows "py_lower_char c = c" "c \<noteq> CHR ''e''" "c \<noteq> CHR ''.''" "c \<noteq> CHR ''-''" "c \<noteq> CHR ''+''"
    "c \<noteq> CHR ''i''" "c \<noteq> CHR ''n''"
  using assms by (auto simp: is_digit_def py_lower_char_def Let_def)

lemma plain_hd: "plain_digits s \<Longrightarrow> \<exists>c cs. s = c # cs \<and> is_digit c \<and> list_all is_digit cs"
  by (cases s) (auto simp: plain_digits_def)

lemma lower_digits: "list_all is_digit s \<Longrightarrow> py_lower s = s"
  by (induction s) (auto simp: py_lower_def digit_facts)

lemma digits_without:
  assumes "list_all is_digit s"
  shows "CHR ''e'' \<notin> set s" "CHR ''.'' \<notin> set s"
  using assms digit_facts(2,3) by (auto simp: list_all_iff)

lemma takeWhile_without: "c \<notin> set s \<Longrightarrow> takeWhile (\<lambda>x. x \<noteq> c) s = s"
  by (induction s) auto

lemma takeWhile_upto: "c \<notin> set s \<Longrightarrow> takeWhile (\<lambda>x. x \<noteq> c) (s @ c # t) = s"
  by (induction s) auto

lemma parse_float_digits:
  assumes "plain_digits s"
  shows "parse_float s = Some (f64_of (of_nat (digits_val s)))"
proof -
  obtain c cs where s: "s = c # cs" "is_digit c" using plain_hd [OF assms] by blast
  have d: "list_all is_digit s" "s \<noteq> []" using assms by (simp_all add: plain_digits_def)
  have u: "unsign s = (False, s)" using s digit_facts [OF s(2)] by (simp add: unsign_def)
  have ni: "s \<notin> {''inf'', ''infinity''}" "s \<noteq> ''nan''" using s digit_facts [OF s(2)] by auto
  have m: "mantissa s = Some (s, 0)"
    using d digits_without [OF d(1)] by (simp add: mantissa_def takeWhile_without digit_group_digits)
  have "parse_decimal s = Some (of_nat (digits_val s))"
    using digits_without [OF d(1)] m by (simp add: parse_decimal_def takeWhile_without pow10_def)
  then show ?thesis using u ni d by (simp add: parse_float_def strip_digits lower_digits)
qed

lemma parse_float_point:
  assumes "plain_digits s" "plain_digits t"
  shows "parse_float (s @ ''.'' @ t) = Some (f64_of (of_nat (digits_val (s @ t)) / 10 ^ length t))"
proof -
  let ?x = "s @ ''.'' @ t"
  obtain c cs where s: "s = c # cs" "is_digit c" using plain_hd [OF assms(1)] by blast
  have d: "list_all is_digit s" "s \<noteq> []" "list_all is_digit t" "t \<noteq> []" using assms by (simp_all add: plain_digits_def)
  have "is_digit (last t)" using d(3,4) by (auto simp: list_all_iff)
  then have st: "py_strip ?x = ?x" using s(1,2) d not_space_digit by (intro strip_no_space) auto
  have lo: "py_lower ?x = ?x"
    using lower_digits [OF d(1)] lower_digits [OF d(3)] by (simp add: py_lower_def py_lower_char_def)
  have u: "unsign ?x = (False, ?x)" using s digit_facts [OF s(2)] by (simp add: unsign_def)
  have ni: "?x \<notin> {''inf'', ''infinity''}" "?x \<noteq> ''nan''" using s digit_facts [OF s(2)] by auto
  have ne: "CHR ''e'' \<notin> set ?x" using digits_without(1) [OF d(1)] digits_without(1) [OF d(3)] by simp
  have m: "mantissa ?x = Some (s @ t, length t)"
    using d takeWhile_upto [OF digits_without(2) [OF d(1)], of t]
    by (simp add: mantissa_def opt_group_def digit_group_digits)
  have "parse_decimal ?x = Some (of_nat (digits_val (s @ t)) / 10 ^ length t)"
    unfolding parse_decimal_def Let_def takeWhile_without [OF ne] m using d(4) by (simp add: pow10_def)
  then show ?thesis using u ni st lo by (simp add: parse_float_def)
qed

text \<open>Rounding to a float moves a value of moderate size by very little.\<close>

lemma fl_within:
  assumes "2 ^ j * \<bar>x\<bar> \<le> 2 ^ 53" and "j \<le> 1074"
  shows "\<bar>fl x - x\<bar> \<le> 1 / 2 ^ j"
proof -
  let ?y = "2 ^ j * x"
  have p: "(0 :: rat) < 2 ^ j" by simp
  have x: "- 9007199254740992 \<le> ?y" "?y \<le> 9007199254740992"
    using assms(1) abs_le_iff [of ?y "2 ^ 53"] by (simp_all add: abs_mult)
  have "- 9007199254740992 \<le> \<lfloor>?y\<rfloor>" "\<lceil>?y\<rceil> \<le> 9007199254740992" using x by (simp_all add: le_floor_iff ceiling_le_iff)
  moreover have "\<lfloor>?y\<rfloor> \<le> \<lceil>?y\<rceil>" "\<lfloor>?y\<rfloor> \<le> 9007199254740992" "- 9007199254740992 \<le> \<lceil>?y\<rceil>"
    using x by linarith+
  ultimately have "\<bar>\<lfloor>?y\<rfloor>\<bar> \<le> 9007199254740992" "\<bar>\<lceil>?y\<rceil>\<bar> \<le> 9007199254740992" by linarith+
  then have b: "\<bar>\<lfloor>?y\<rfloor>\<bar> \<le> 2 ^ 53" "\<bar>\<lceil>?y\<rceil>\<bar> \<le> 2 ^ 53" by simp_all
  have e: "fl (of_int \<lfloor>?y\<rfloor> / 2 ^ j) = of_int \<lfloor>?y\<rfloor> / 2 ^ j" "fl (of_int \<lceil>?y\<rceil> / 2 ^ j) = of_int \<lceil>?y\<rceil> / 2 ^ j"
    using b assms(2) by (simp_all only: fl_div_pow2)
  have "of_int \<lfloor>?y\<rfloor> \<le> ?y" "?y \<le> of_int \<lceil>?y\<rceil>" by linarith+
  then have le: "of_int \<lfloor>?y\<rfloor> / 2 ^ j \<le> x" "x \<le> of_int \<lceil>?y\<rceil> / 2 ^ j"
    by (simp_all add: pos_divide_le_eq pos_le_divide_eq mult.commute)
  have "of_int \<lfloor>?y\<rfloor> / 2 ^ j \<le> fl x" using le(1) e(1) by (rule fl_ge_exact)
  moreover have "fl x \<le> of_int \<lceil>?y\<rceil> / 2 ^ j" using le(2) e(2) by (rule fl_le_exact)
  moreover have "x - 1 / 2 ^ j \<le> of_int \<lfloor>?y\<rfloor> / 2 ^ j" "of_int \<lceil>?y\<rceil> / 2 ^ j \<le> x + 1 / 2 ^ j"
  proof -
    have "?y - 1 \<le> of_int \<lfloor>?y\<rfloor>" "of_int \<lceil>?y\<rceil> \<le> ?y + 1" by linarith+
    then have "(?y - 1) / 2 ^ j \<le> of_int \<lfloor>?y\<rfloor> / 2 ^ j" "of_int \<lceil>?y\<rceil> / 2 ^ j \<le> (?y + 1) / 2 ^ j"
      using p by (simp_all only: divide_right_mono less_imp_le)
    then show "x - 1 / 2 ^ j \<le> of_int \<lfloor>?y\<rfloor> / 2 ^ j" "of_int \<lceil>?y\<rceil> / 2 ^ j \<le> x + 1 / 2 ^ j"
      unfolding diff_divide_distrib add_divide_distrib by simp_all
  qed
  ultimately have "fl x \<le> x + 1 / 2 ^ j" "x - 1 / 2 ^ j \<le> fl x" by linarith+
  then show ?thesis by linarith
qed

lemma fl_near: "\<bar>x\<bar> \<le> 2 ^ 46 \<Longrightarrow> \<bar>fl x - x\<bar> \<le> 1 / 64"
  using fl_within [of 6 x] by simp

lemma digits_val_snoc: "digits_val (s @ [c]) = 10 * digits_val s + digit_val c"
  by (simp add: digits_val_def)

text \<open>A multiple of 100 kHz as the code writes it in MHz.\<close>

definition mhz_decimal :: "nat \<Rightarrow> string" where
  "mhz_decimal k = (if k mod 10 = 0 then nat_str (k div 10) else nat_str (k div 10) @ ''.'' @ nat_str (k mod 10))"

lemma mhz_decimal_facts:
  shows "parse_float (mhz_decimal k) = Some (f64_of (of_nat k / 10))" "\<forall>c \<in> set (mhz_decimal k). \<not> py_space c" "mhz_decimal k \<noteq> []"
proof -
  have d: "list_all is_digit (nat_str n)" "nat_str n \<noteq> []" for n using nat_str_digits by auto
  have one: "k mod 10 \<noteq> 0 \<Longrightarrow> nat_str (k mod 10) = [digit_char (k mod 10)]" by (simp add: nat_str.simps [of "k mod 10"])
  have sum: "10 * (k div 10) + k mod 10 = k" by simp
  have div: "(of_nat (k div 10) :: rat) = of_nat k / 10" if "k mod 10 = 0"
  proof -
    have "of_nat k = (10 * of_nat (k div 10) :: rat)" using sum that by (metis add_0_right of_nat_mult of_nat_numeral)
    then show ?thesis by simp
  qed
  show "parse_float (mhz_decimal k) = Some (f64_of (of_nat k / 10))"
  proof (cases "k mod 10 = 0")
    case True
    then show ?thesis using parse_float_digits [OF plain_nat_str, of "k div 10"] div by (simp add: mhz_decimal_def digits_val_nat_str)
  next
    case False
    then show ?thesis using parse_float_point [OF plain_nat_str plain_nat_str, of "k div 10" "k mod 10"] one sum
      by (simp add: mhz_decimal_def digits_val_snoc digits_val_nat_str digit_val_digit_char)
  qed
  have "\<not> py_space CHR ''.''" by code_simp
  then show "\<forall>c \<in> set (mhz_decimal k). \<not> py_space c" using d(1) not_space_digit by (auto simp: mhz_decimal_def list_all_iff)
  show "mhz_decimal k \<noteq> []" using d by (simp add: mhz_decimal_def)
qed

lemma mhz_text_decimal:
  assumes "k \<le> 1000000"
  shows "mhz_text (Fin (fl (of_nat k / 10))) = Inr (mhz_decimal k @ '' MHz'')"
proof -
  let ?x = "of_nat k / 10 :: rat"
  have x: "0 \<le> ?x" "?x \<le> 100000" using assms by simp_all
  have near: "\<bar>fl ?x - ?x\<bar> \<le> 1 / 64" using x by (intro fl_near) simp
  have pos: "0 \<le> fl ?x" using x by (intro fl_nonneg)
  show ?thesis
  proof (cases "k mod 10 = 0")
    case True
    define m where "m = k div 10"
    have k: "k = 10 * m" using True by (auto simp: m_def)
    then have "?x = of_int (int m)" by simp
    moreover have "fl (of_int (int m)) = of_int (int m)" using assms k by (intro fl_of_int) simp
    ultimately have "fl ?x = of_int (int m)" by simp
    then show ?thesis using k by (simp add: mhz_text_def trunc_rat_def mhz_decimal_def int_str_def)
  next
    case False
    define a b where "a = k div 10" and "b = k mod 10"
    have b: "0 < b" "b < 10" "k = 10 * a + b" using False by (simp_all add: a_def b_def)
    have xab: "?x = of_nat a + of_nat b / 10" using b(3) by simp
    have bb: "1 \<le> (of_nat b :: rat)" "(of_nat b :: rat) \<le> 9" using b by simp_all
    have lo: "of_nat a < fl ?x" and hi: "fl ?x < of_nat a + 1" using near xab bb by linarith+
    have fl': "\<lfloor>fl ?x\<rfloor> = int a" using lo hi by (simp add: floor_eq_iff)
    then have not_int: "fl ?x \<noteq> of_int (trunc_rat (fl ?x))" using pos lo by (simp add: trunc_rat_def)
    have r: "rne (fl ?x * 10 ^ 1) = int k" 
    proof (rule rne_unique)
      have "\<bar>of_nat k - fl ?x * 10\<bar> < 1 / 2" using near by linarith
      then show "\<bar>of_int (int k) - fl ?x * 10 ^ 1\<bar> < 1 / 2" by simp
    qed
    have "py_fixed 1 (fl ?x) = nat_str a @ ''.'' @ nat_str b"
      using r pos b(2) by (simp add: py_fixed_def a_def b_def nat_str.simps [of "k mod 10"])
    with not_int False show ?thesis by (simp add: mhz_text_def mhz_decimal_def a_def b_def)
  qed
qed

lemma hz_to_mhz_steps:
  assumes "k \<le> 1000000"
  shows "hz_to_mhz show (JInt (100000 * int k)) = Inr (mhz_decimal k @ '' MHz'')"
proof (cases "k = 0")
  case True
  then show ?thesis by (simp add: hz_to_mhz_def mhz_decimal_def)
next
  case False
  have i: "\<bar>100000 * int k\<bar> \<le> 2 ^ 53" using assms by simp
  have "f64_of (of_int (100000 * int k)) = Fin (of_int (100000 * int k))"
    using f64_of_bounded [of "of_int (100000 * int k)"] fl_of_int [OF i] assms by simp
  moreover have "of_int (100000 * int k) * (1 / 1000000) = (of_nat k / 10 :: rat)" by simp
  moreover have "f64_of (of_nat k / 10) = Fin (fl (of_nat k / 10))" using assms by (intro f64_of_bounded) simp
  ultimately show ?thesis using False mhz_text_decimal [OF assms] by (simp add: hz_to_mhz_def)
qed

text \<open>
  Any integer of Hz: the integer text of whole MHz, one decimal otherwise.  The tenths are those of
  the float nearest to the frequency, which are within 50 kHz of the frequency itself.
\<close>

definition hz_tenths :: "int \<Rightarrow> nat" where
  "hz_tenths hz = nat \<bar>rne (fl (of_int hz / 1000000) * 10)\<bar>"

definition mhz_shown :: "int \<Rightarrow> string" where
  "mhz_shown hz = (if 1000000 dvd hz then int_str (hz div 1000000)
     else (if hz < 0 then ''-'' else []) @ nat_str (hz_tenths hz div 10) @ ''.'' @ nat_str (hz_tenths hz mod 10))"

lemma mhz_float:
  fixes hz :: int
  assumes "\<bar>hz\<bar> \<le> 100000000000"
  shows "\<bar>fl (of_int hz / 1000000) - of_int hz / 1000000\<bar> \<le> 1 / 1073741824"
proof -
  have "\<bar>of_int hz :: rat\<bar> \<le> 100000000000" using assms by (metis of_int_abs of_int_le_iff of_int_numeral)
  then show ?thesis using fl_within [of 30 "of_int hz / 1000000"] by (simp add: abs_divide)
qed

lemma hz_tenths_near:
  assumes "\<bar>hz\<bar> \<le> 100000000000"
  shows "\<bar>\<bar>hz\<bar> - 100000 * int (hz_tenths hz)\<bar> \<le> 50000"
proof -
  let ?f = "fl (of_int hz / 1000000)" and ?r = "rne (fl (of_int hz / 1000000) * 10)"
  have "\<bar>of_int ?r - ?f * 10\<bar> \<le> 1 / 2" by (rule rne_error)
  moreover note mhz_float [OF assms]
  ultimately have "\<bar>of_int (100000 * ?r - hz) :: rat\<bar> < of_int 50001" by (simp add: abs_if field_simps split: if_splits)
  then have "\<bar>100000 * ?r - hz\<bar> < 50001" by (metis of_int_abs of_int_less_iff)
  then show ?thesis by (simp add: hz_tenths_def)
qed

lemma hz_to_mhz_int:
  assumes "\<bar>hz\<bar> \<le> 100000000000"
  shows "hz_to_mhz show (JInt hz) = Inr (mhz_shown hz @ '' MHz'')"
proof (cases "hz = 0")
  case True
  then show ?thesis by (simp add: hz_to_mhz_def mhz_shown_def int_str_def nat_str.simps [of 0])
next
  case False
  let ?x = "of_int hz / 1000000 :: rat"
  have r: "\<bar>of_int hz :: rat\<bar> \<le> 100000000000" using assms by (metis of_int_abs of_int_le_iff of_int_numeral)
  have "f64_of (of_int hz) = Fin (of_int hz)" using f64_of_bounded [of "of_int hz"] fl_of_int [of hz] r assms by simp
  moreover have "f64_of ?x = Fin (fl ?x)" using r by (intro f64_of_bounded) (simp add: abs_divide)
  ultimately have h: "hz_to_mhz show (JInt hz) = mhz_text (Fin (fl ?x))" using False by (simp add: hz_to_mhz_def)
  show ?thesis
  proof (cases "1000000 dvd hz")
    case True
    then obtain m where m: "hz = 1000000 * m" by blast
    then have "fl ?x = of_int m" using assms fl_of_int [of m] by simp
    then show ?thesis using m h by (simp add: mhz_text_def trunc_rat_def mhz_shown_def)
  next
    case False
    define a b where "a = hz div 1000000" and "b = hz mod 1000000"
    have ab: "hz = 1000000 * a + b" "1 \<le> b" "b \<le> 999999"
      using False by (auto simp: a_def b_def dvd_eq_mod_eq_0 int_one_le_iff_zero_less order_less_le)
    then have q: "(1 :: rat) \<le> of_int b" "(of_int b :: rat) \<le> 999999" by (simp_all add: of_int_le_iff [of _ 999999, simplified])
    have x: "?x = of_int a + of_int b / 1000000" by (simp add: ab(1) add_divide_distrib)
    have bounds: "of_int a < fl ?x" "fl ?x < of_int (a + 1)" using mhz_float [OF assms] x q by (simp_all add: abs_if field_simps split: if_splits)
    have ni: "fl ?x \<noteq> of_int n" for n using bounds by (metis of_int_less_iff linorder_not_less zless_iff_Suc_zadd add1_zle_eq)
    have "fl ?x < 0 \<longleftrightarrow> hz < 0"
    proof
      show "hz < 0" if "fl ?x < 0"
      proof -
        have "of_int a < (0 :: rat)" using bounds that by linarith
        then show ?thesis using ab by simp
      qed
      show "fl ?x < 0" if "hz < 0"
      proof -
        have "a + 1 \<le> 0" using that ab by simp
        then have "(of_int (a + 1) :: rat) \<le> 0" by (simp only: of_int_le_0_iff)
        then show ?thesis using bounds by linarith
      qed
    qed
    then have "py_fixed 1 (fl ?x) = (if hz < 0 then ''-'' else []) @ nat_str (hz_tenths hz div 10) @ ''.'' @ nat_str (hz_tenths hz mod 10)"
      by (simp add: py_fixed_def hz_tenths_def Let_def nat_str.simps [of "_ mod 10"])
    then show ?thesis using h ni False by (simp add: mhz_text_def mhz_shown_def)
  qed
qed

lemma mhz_shown_near:
  assumes "\<bar>hz\<bar> \<le> 100000000000"
  shows "if 1000000 dvd hz then mhz_shown hz = int_str (hz div 1000000)
    else \<exists>k. mhz_shown hz = (if hz < 0 then ''-'' else []) @ nat_str (k div 10) @ ''.'' @ nat_str (k mod 10)
      \<and> \<bar>\<bar>hz\<bar> - 100000 * int k\<bar> \<le> 50000 \<and> (100000 dvd hz \<longrightarrow> \<bar>hz\<bar> = 100000 * int k)"
proof (cases "1000000 dvd hz")
  case False
  note near = hz_tenths_near [OF assms]
  have "\<bar>hz\<bar> = 100000 * int (hz_tenths hz)" if "100000 dvd hz"
  proof -
    have "100000 dvd \<bar>hz\<bar> - 100000 * int (hz_tenths hz)" using that by simp
    moreover have "\<bar>\<bar>hz\<bar> - 100000 * int (hz_tenths hz)\<bar> < 100000" using near by simp
    ultimately have "\<bar>hz\<bar> - 100000 * int (hz_tenths hz) = 0" by (metis abs_numeral dvd_imp_le_int linorder_not_less)
    then show ?thesis by simp
  qed
  with False near show ?thesis by (auto simp: mhz_shown_def intro!: exI [of _ "hz_tenths hz"])
qed (simp add: mhz_shown_def)

lemma mhz_shown_steps: "k \<le> 1000000 \<Longrightarrow> mhz_shown (100000 * int k) = mhz_decimal k"
  using hz_to_mhz_steps [of k "\<lambda>v. []"] hz_to_mhz_int [of "100000 * int k" "\<lambda>v. []"] by simp

lemma mhz_words:
  "py_words (py_strip (mhz_decimal k @ '' MHz'')) = [mhz_decimal k, ''MHz'']" "py_strip (mhz_decimal k @ '' MHz'') \<noteq> []"
proof -
  have m: "\<not> py_space CHR ''M''" "\<not> py_space CHR ''H''" "\<not> py_space CHR ''z''" by code_simp+
  have "py_strip (mhz_decimal k @ '' MHz'') = mhz_decimal k @ '' MHz''"
    using mhz_decimal_facts(2,3) [of k] m by (intro strip_no_space) auto
  then show "py_words (py_strip (mhz_decimal k @ '' MHz'')) = [mhz_decimal k, ''MHz'']"
      "py_strip (mhz_decimal k @ '' MHz'') \<noteq> []"
    using py_words_two [of "mhz_decimal k" "''MHz''"] mhz_decimal_facts(2,3) [of k] m by simp_all
qed

text \<open>
  C32. A frequency that a modem gives in Hz, in steps of 100 kHz up to 100 GHz, becomes the decimal text
  in MHz; the text reads back as the float nearest to the frequency, and normalizing it again keeps it.
\<close>

theorem frequency_round_trip:
  assumes "k \<le> 1000000"
  shows "hz_to_mhz show (JInt (100000 * int k)) = Inr (mhz_decimal k @ '' MHz'')
    \<and> parse_mhz_value (mhz_decimal k @ '' MHz'') = Fin (fl (of_nat k / 10))
    \<and> hz_to_mhz show (JStr (mhz_decimal k @ '' MHz'')) = Inr (mhz_decimal k @ '' MHz'')
    \<and> normalize_mhz (mhz_decimal k @ '' MHz'') = Inr (mhz_decimal k @ '' MHz'')"
proof -
  have l: "py_lower ''MHz'' = ''mhz''" by code_simp
  have f: "f64_of (of_nat k / 10) = Fin (fl (of_nat k / 10))" using assms by (intro f64_of_bounded) simp
  note w = mhz_words [of k] and p = mhz_decimal_facts(1) [of k, unfolded f] and t = mhz_text_decimal [OF assms]
  have u: "unit_of [mhz_decimal k, ''MHz''] = ''mhz''" by (simp add: unit_of_def l)
  have "parse_mhz_value (mhz_decimal k @ '' MHz'') = Fin (fl (of_nat k / 10))"
    unfolding parse_mhz_value_def w(1) Let_def u by (simp add: first_float_def p unit_to_mhz_def)
  moreover have "hz_to_mhz show (JStr (mhz_decimal k @ '' MHz'')) = Inr (mhz_decimal k @ '' MHz'')"
    unfolding hz_to_mhz_def using w u by (simp add: Let_def first_float_def p unit_to_mhz_def t)
  moreover have "normalize_mhz (mhz_decimal k @ '' MHz'') = Inr (mhz_decimal k @ '' MHz'')"
    unfolding normalize_mhz_def w(1) by (simp add: first_float_def p t)
  ultimately show ?thesis using hz_to_mhz_steps [OF assms] by blast
qed

lemma frequency_round_trip_witness:
  "hz_to_mhz (\<lambda>v. []) (JInt 602500000) = Inr ''602.5 MHz'' \<and> hz_to_mhz (\<lambda>v. []) (JStr ''602.5 MHz'') = Inr ''602.5 MHz''"
proof -
  have m: "mhz_decimal 6025 = ''602.5''" by (simp add: mhz_decimal_def)
  have n: "100000 * int 6025 = 602500000" and k: "(6025 :: nat) \<le> 1000000" by simp_all
  show ?thesis using frequency_round_trip [OF k, of "\<lambda>v. []", unfolded m n append.simps] by blast
qed

section \<open>Modulation names\<close>

lemma upper_code: "(of_char (py_upper_char c) :: nat) = (let n = of_char c in if 97 \<le> n \<and> n \<le> 122 then n - 32 else n)"
  by (auto simp: py_upper_char_def Let_def intro!: mod_less)

lemma char_code: "c = CHR ''_'' \<longleftrightarrow> (of_char c :: nat) = 95" "c = CHR ''-'' \<longleftrightarrow> (of_char c :: nat) = 45"
proof -
  have "(of_char CHR ''_'' :: nat) = 95" "(of_char CHR ''-'' :: nat) = 45" by simp_all
  then show "c = CHR ''_'' \<longleftrightarrow> (of_char c :: nat) = 95" "c = CHR ''-'' \<longleftrightarrow> (of_char c :: nat) = 45"
    by (metis of_char_eq_iff)+
qed

lemma sep_upper: "mod_separator (py_upper_char c) \<longleftrightarrow> mod_separator c"
  by (auto simp: mod_separator_def py_space_def char_code upper_code Let_def)

lemma lower_upper: "py_lower_char (py_upper_char c) = py_lower_char c"
  by (simp add: py_lower_char_def [of "py_upper_char c"] upper_code Let_def) (auto simp: py_lower_char_def py_upper_char_def Let_def)

text \<open>Both modules reduce a name to the same letters.\<close>

definition bare :: "string \<Rightarrow> string" where
  "bare s = py_lower (filter (\<lambda>c. \<not> mod_separator c) s)"

lemma filter_strip: "filter (\<lambda>c. \<not> py_space c) (py_strip s) = filter (\<lambda>c. \<not> py_space c) s"
proof -
  have d: "filter (\<lambda>c. \<not> py_space c) (dropWhile py_space t) = filter (\<lambda>c. \<not> py_space c) t" for t by (induction t) auto
  have "filter (\<lambda>c. \<not> py_space c) (rev (dropWhile py_space (rev t))) = filter (\<lambda>c. \<not> py_space c) t" for t
    by (metis d rev_filter rev_rev_ident)
  then show ?thesis by (simp add: py_strip_def d)
qed

lemma bare_strip: "bare (py_strip s) = bare s"
proof -
  have f: "filter (\<lambda>c. \<not> mod_separator c) t = filter (\<lambda>c. c \<noteq> CHR ''_'' \<and> c \<noteq> CHR ''-'') (filter (\<lambda>c. \<not> py_space c) t)" for t
    by (induction t) (auto simp: mod_separator_def)
  show ?thesis by (simp add: bare_def f [of s] f [of "py_strip s"] filter_strip del: filter_filter)
qed

lemma bare_squash: "py_lower (filter (\<lambda>c. \<not> py_space c) (py_strip (squash m))) = bare m"
proof -
  have "filter (\<lambda>c. \<not> py_space c) (squash m) = py_upper (filter (\<lambda>c. \<not> mod_separator c) m)"
  proof (induction m)
    case (Cons c m)
    have "py_upper_char c \<noteq> CHR ''_'' \<and> py_upper_char c \<noteq> CHR ''-'' \<and> \<not> py_space (py_upper_char c) \<longleftrightarrow> \<not> mod_separator c"
      using sep_upper [of c] by (auto simp: mod_separator_def)
    with Cons show ?case by (auto simp: squash_def py_upper_def py_remove_def)
  qed (simp add: squash_def py_upper_def py_remove_def)
  then show ?thesis by (simp add: filter_strip bare_def py_lower_def py_upper_def lower_upper)
qed

lemma py_in_chars: "py_in p s \<Longrightarrow> set p \<subseteq> set s"
  by (auto simp: py_in_iff)

lemma py_split_found: "c \<notin> set d \<Longrightarrow> py_split (c # p) (d @ (c # p) @ t) = d # py_split (c # p) t"
proof (induction d)
  case Nil
  show ?case using py_split_sep [of "c # p" t] by simp
next
  case (Cons x d)
  then show ?case using py_split_step [of x "d @ (c # p) @ t" "c # p"] by auto
qed

lemma py_split_absent: "c \<notin> set d \<Longrightarrow> py_split (c # p) d = [d]"
proof (induction d)
  case (Cons x d)
  then show ?case using py_split_step [of x d "c # p"] by auto
qed simp

lemma digit_not_letters:
  assumes "is_digit c"
  shows "c \<noteq> CHR ''q''" "c \<noteq> CHR ''p''" "c \<noteq> CHR ''o''" "c \<noteq> CHR ''t''" "c \<noteq> CHR ''Q''"
  using assms by (auto simp: is_digit_def)

lemma normalized_qam:
  assumes d: "list_all is_digit d" "d \<noteq> []" and b: "bare m = d @ ''qam'' \<or> bare m = ''qam'' @ d"
  shows "normalize_modulation_text m = d @ ''QAM''"
proof -
  have nl: "CHR ''q'' \<notin> set d" "CHR ''p'' \<notin> set d" "CHR ''o'' \<notin> set d" "CHR ''t'' \<notin> set d"
    using d(1) digit_not_letters unfolding list_all_iff by metis+
  have cs: "set (bare m) = set d \<union> {CHR ''q'', CHR ''a'', CHR ''m''}" using b by auto
  have out: "CHR ''p'' \<notin> set (bare m)" "CHR ''o'' \<notin> set (bare m)" "CHR ''t'' \<notin> set (bare m)" using nl by (simp_all add: cs)
  have no: "\<not> py_in ''qpsk'' (bare m)" "\<not> py_in ''ofdma'' (bare m)" "\<not> py_in ''ofdm'' (bare m)" "\<not> py_in ''atdma'' (bare m)"
    using py_in_chars [of "''qpsk''" "bare m"] py_in_chars [of "''ofdma''" "bare m"] py_in_chars [of "''ofdm''" "bare m"]
      py_in_chars [of "''atdma''" "bare m"] out by auto
  have no': "bare m \<noteq> ''tdma''" using out(3) by auto
  have "py_in ''qam'' (bare m)" using b by (auto simp: py_in_iff) (metis append_Nil)+
  moreover have "py_delete ''qam'' (bare m) = d"
    using b py_split_found [OF nl(1), of "''am''" "[]"] py_split_found [of "CHR ''q''" "[]" "''am''" d] py_split_absent [OF nl(1), of "''am''"]
    by (auto simp: py_delete_def)
  moreover have "py_strip m \<noteq> []"
  proof
    assume "py_strip m = []"
    then have "bare m = []" using bare_strip [of m] by (simp add: bare_def py_lower_def)
    with b show False by auto
  qed
  moreover have "bare m \<noteq> []" using b by auto
  ultimately show ?thesis using no no' d bare_strip [of m]
    by (simp add: normalize_modulation_text_def Let_def bare_def [symmetric])
qed

lemma order_of_digits:
  assumes d: "list_all is_digit d" "d \<noteq> []"
  shows "parse_qam_order (Some (d @ ''QAM'')) = Some (digits_val d)"
proof -
  define s where "s = d @ ''QAM''"
  have sq: "squash s = s" using d by (simp add: s_def squash_append squash_digits qam_lit)
  have hd: "\<not> py_space (hd s)" "hd s \<noteq> CHR ''Q''" using d digit_not_letters(5) by (cases d; auto simp: s_def not_space_digit)+
  then have st: "py_strip s = s" using qam_chars by (intro strip_no_space) (auto simp: s_def)
  have "s \<noteq> ''QPSK''" using hd(2) by auto
  moreover have "match_order_qam s = Some d"
    using takeWhile_digits [OF d(1) qam_chars(1), of "''AM''"] d(2) qam_chars(3) by (simp add: match_order_qam_def s_def)
  ultimately show ?thesis using sq st by (simp add: parse_qam_order_def text_of_def s_def [symmetric]) (simp add: s_def)
qed

lemma dropWhile_split: "\<exists>sp. s = sp @ dropWhile P s \<and> list_all P sp"
  by (rule exI [of _ "takeWhile P s"]) (auto simp: list_all_iff dest: set_takeWhileD)

lemma without_spaces: "list_all py_space sp \<Longrightarrow> filter (\<lambda>c. \<not> py_space c) sp = []"
  "list_all is_digit d \<Longrightarrow> filter (\<lambda>c. \<not> py_space c) d = d"
  by (auto simp: list_all_iff not_space_digit filter_empty_conv filter_id_conv)

lemma bare_of_order:
  assumes "parse_qam_order (Some m) = Some n"
  shows "(n = 4 \<and> bare m = ''qpsk'') \<or>
    (\<exists>d. list_all is_digit d \<and> d \<noteq> [] \<and> digits_val d = n \<and> (bare m = d @ ''qam'' \<or> bare m = ''qam'' @ d))"
proof -
  define mo where "mo = py_strip (squash m)"
  have b: "bare m = py_lower (filter (\<lambda>c. \<not> py_space c) mo)" using bare_squash [of m] by (simp add: mo_def)
  have q: "py_lower (filter (\<lambda>c. \<not> py_space c) ''QPSK'') = ''qpsk''" "py_lower (filter (\<lambda>c. \<not> py_space c) ''QAM'') = ''qam''" by code_simp+
  from assms consider "mo = ''QPSK''" "n = 4" | d where "match_order_qam mo = Some d" "n = digits_val d"
    | d where "match_qam_order mo = Some d" "n = digits_val d"
    by (auto simp: parse_qam_order_def text_of_def mo_def [symmetric] Let_def split: if_splits option.splits)
  then show ?thesis
  proof cases
    case 1
    with b q show ?thesis by simp
  next
    case 2
    obtain sp where sp: "dropWhile is_digit mo = sp @ dropWhile py_space (dropWhile is_digit mo)" "list_all py_space sp"
      using dropWhile_split by blast
    from 2 have d: "d = takeWhile is_digit mo" "d \<noteq> []" "dropWhile py_space (dropWhile is_digit mo) = ''QAM''"
      by (auto simp: match_order_qam_def Let_def split: if_splits)
    have dg: "list_all is_digit d" by (auto simp: d(1) list_all_iff dest: set_takeWhileD)
    have mo: "mo = d @ sp @ ''QAM''" using sp(1) d by (metis takeWhile_dropWhile_id)
    have "bare m = d @ py_lower (filter (\<lambda>c. \<not> py_space c) ''QAM'')"
      unfolding b mo filter_append without_spaces(1) [OF sp(2)] without_spaces(2) [OF dg] append_Nil
      using lower_digits [OF dg] by (simp add: py_lower_def)
    then have "bare m = d @ ''qam''" unfolding q(2) .
    with 2 d dg show ?thesis by blast
  next
    case 3
    then have s: "py_startswith mo ''QAM''" and d: "d = dropWhile py_space (drop 3 mo)" "d \<noteq> []" "list_all is_digit d"
      by (auto simp: match_qam_order_def Let_def split: if_splits)
    obtain t where t: "mo = ''QAM'' @ t" using s by (auto simp: py_startswith_iff)
    obtain sp where sp: "t = sp @ dropWhile py_space t" "list_all py_space sp" using dropWhile_split by blast
    have mo: "mo = ''QAM'' @ sp @ d" using sp(1) d(1) t by simp
    have "bare m = py_lower (filter (\<lambda>c. \<not> py_space c) ''QAM'') @ d"
      unfolding b mo filter_append without_spaces(1) [OF sp(2)] without_spaces(2) [OF d(3)] append_Nil
      using lower_digits [OF d(3)] by (simp add: py_lower_def)
    then have "bare m = ''qam'' @ d" unfolding q(2) .
    with 3 d show ?thesis by blast
  qed
qed

text \<open>
  C21. Normalizing a modulation name of a modem keeps its order: whatever spelling the analyzer
  reads as n-QAM, the parsers of the drivers turn into one it reads as the same n-QAM.
\<close>

theorem normalizing_keeps_order:
  assumes "parse_qam_order (Some m) = Some n"
  shows "parse_qam_order (Some (normalize_modulation_text m)) = Some n"
  using bare_of_order [OF assms]
proof (elim disjE exE conjE)
  assume n: "n = 4" and b: "bare m = ''qpsk''"
  have "py_strip m \<noteq> []"
  proof
    assume "py_strip m = []"
    then have "bare m = []" using bare_strip [of m] by (simp add: bare_def py_lower_def)
    with b show False by simp
  qed
  then have "normalize_modulation_text m = ''QPSK''" using b bare_strip [of m]
    by (simp add: normalize_modulation_text_def Let_def bare_def [symmetric])
  moreover have "parse_qam_order (Some ''QPSK'') = Some 4" by code_simp
  ultimately show ?thesis using n by simp
qed (simp_all add: normalized_qam order_of_digits)

lemma normalizing_keeps_order_witness: "parse_qam_order (Some (normalize_modulation_text ''qam_256'')) = Some 256"
proof -
  have "parse_qam_order (Some ''qam_256'') = Some 256" by code_simp
  then show ?thesis by (rule normalizing_keeps_order)
qed

end
