(* ===== verification/Format_Vodafone.thy ===== *)
theory Format_Vodafone
  imports Format_Values
begin

text \<open>
  \<^verbatim>\<open>app/drivers/formats/vodafone.py\<close>: the Ultra Hub 7, the JSON of the CGA stations and the arrays that
  the TG stations embed in a script.  \<open>loads\<close> is \<^verbatim>\<open>json.loads\<close>.
\<close>

definition vodafone_issue :: "string \<Rightarrow> string \<Rightarrow> string option \<Rightarrow> nat option \<Rightarrow> parse_diagnostic" where
  "vodafone_issue profile code direction i = \<lparr>pd_family = ''vodafone'', pd_profile = profile, pd_code = code,
     pd_direction = direction, pd_index = i, pd_field = None\<rparr>"

definition int_text :: "f64 \<Rightarrow> string res" where
  "int_text x = map_sum id int_str (py_int (PFloat x))"

section \<open>Ultra Hub 7\<close>

definition ultra_value :: "(json \<Rightarrow> string) \<Rightarrow> json \<Rightarrow> f64" where
  "ultra_value show v =
     (if \<not> j_truthy v then Fin 0
      else case first_float (py_words (py_strip (j_str show v))) of None \<Rightarrow> Fin 0 | Some x \<Rightarrow> x)"

definition ultra_modulation :: "(json \<Rightarrow> string) \<Rightarrow> json \<Rightarrow> string" where
  "ultra_modulation show v = py_remove CHR ''-'' (py_upper (j_str show (if j_truthy v then v else JStr [])))"

definition ultra_row :: "(json \<Rightarrow> string) \<Rightarrow> bool \<Rightarrow> nat \<Rightarrow> json \<Rightarrow> driver_channel list parse_result res" where
  "ultra_row show down i row =
     or_diagnose (vodafone_issue ''ultrahub7_json'' ''invalid_channel'' (Some (if down then ''downstream'' else ''upstream'')) (Some i))
     (res_bind (res_bind (row_get row ''ChannelID'' (JStr ''0'')) j_int) (\<lambda>channel_id.
        let d = payload_dict row; num = (\<lambda>k dflt. ultra_value show (dict_get d k (JStr dflt)));
            modulation = ultra_modulation show (dict_get d ''Modulation'' (JStr []));
            snr = num ''SNRLevel'' [] in
        res_bind (int_text (num ''Frequency'' ''0'')) (\<lambda>mhz.
          Inr ([[(''channelID'', JStr (int_str channel_id)), (''type'', JStr modulation), (''frequency'', JStr (mhz @ '' MHz'')),
              (''powerLevel'', JFloat (num ''PowerLevel'' ''0''))]
            @ (if down then [(''mer'', if f_lt (Fin 0) snr then JFloat snr else JNull), (''mse'', JNull), (''latency'', JInt 0),
                 (''corrErrors'', JNull), (''nonCorrErrors'', JNull)]
               else [(''multiplex'', JStr [])])], []))))"

record ultra_data =
  ud_docsis :: string
  ud_downstream :: "driver_channel list"
  ud_upstream :: "driver_channel list"

definition parse_ultrahub7_json :: "(json \<Rightarrow> string) \<Rightarrow> json \<Rightarrow> ultra_data parse_result res" where
  "parse_ultrahub7_json show payload =
     (let data = payload_dict payload; lane = (\<lambda>k down. res_bind (iter_rows (dict_get data k (JList []))) (parse_rows (ultra_row show down) 0)) in
      res_bind (lane ''downstream'' True) (\<lambda>(d, di).
      res_bind (lane ''upstream'' False) (\<lambda>(u, ui).
        Inr (\<lparr>ud_docsis = ''3.1'', ud_downstream = d, ud_upstream = u\<rparr>, di @ ui))))"

section \<open>CGA\<close>

text \<open>\<^verbatim>\<open>parse_number\<close> of a value from JSON: a number that is not zero has no \<^verbatim>\<open>strip\<close>.\<close>

definition number_text :: "json \<Rightarrow> f64 res" where
  "number_text v = (if \<not> j_truthy v then Inr (Fin 0) else on_str parse_number v)"

definition parse_vodafone_number :: "json \<Rightarrow> f64 res" where
  "parse_vodafone_number v = (if j_is_str v then number_text v else j_float (if j_truthy v then v else JInt 0))"

definition above_million :: "f64 \<Rightarrow> f64" where
  "above_million x = (if f_lt (Fin 1000000) x then per_million x else x)"

definition cga_frequency :: "json \<Rightarrow> f64 res" where
  "cga_frequency v = map_sum id above_million (parse_vodafone_number v)"

definition cga_frequency_text :: "f64 \<Rightarrow> string res" where
  "cga_frequency_text x = (if x = Fin 0 then Inr [] else map_sum id (\<lambda>t. t @ '' MHz'') (int_text x))"

definition non_zero :: "f64 \<Rightarrow> json" where
  "non_zero x = (if x = Fin 0 then JNull else JFloat x)"

datatype cga_lane = Ds30 | Ds31 | Us30 | Us31

definition cga_downstream :: "string \<Rightarrow> (string \<Rightarrow> string) \<Rightarrow> (string \<times> json) list \<Rightarrow> driver_channel res" where
  "cga_downstream type_text key d =
     (let field = (\<lambda>k. dict_get d (key k) (JStr ''0'')) in
      res_bind (map_sum id f_abs (number_text (field ''SNR''))) (\<lambda>snr.
      res_bind (cga_frequency (field ''CentralFrequency'')) (\<lambda>frequency.
      res_bind (res_bind (number_text (field ''channelid'')) (\<lambda>x. py_int (PFloat x))) (\<lambda>channel_id.
      res_bind (cga_frequency_text frequency) (\<lambda>mhz.
      res_bind (number_text (field ''power'')) (\<lambda>pwr.
        Inr [(''channelID'', JInt channel_id), (''type'', JStr type_text), (''frequency'', JStr mhz), (''powerLevel'', JFloat pwr),
          (''mse'', non_zero (f_neg snr)), (''mer'', non_zero snr), (''latency'', JInt 0), (''corrError'', JInt 0),
          (''nonCorrError'', JInt 0)]))))))"

definition cga_upstream :: "(json \<Rightarrow> string) \<Rightarrow> bool \<Rightarrow> (string \<times> json) list \<Rightarrow> driver_channel res" where
  "cga_upstream show ofdma d =
     (let field = (\<lambda>k. dict_get d k (JStr ''0'')); modulation = normalize_modulation show (dict_get d ''FFT'' (JStr [])) in
      res_bind (cga_frequency (field ''CentralFrequency'')) (\<lambda>frequency.
      res_bind (res_bind (number_text (field ''channelidup'')) (\<lambda>x. py_int (PFloat x))) (\<lambda>channel_id.
      res_bind (cga_frequency_text frequency) (\<lambda>mhz.
      res_bind (number_text (field ''power'')) (\<lambda>pwr.
        Inr ([(''channelID'', JInt channel_id), (''type'', JStr (if ofdma then ''OFDMA'' else modulation)), (''frequency'', JStr mhz),
          (''powerLevel'', JFloat pwr), (''multiplex'', JStr [])]
          @ (if ofdma then [(''modulation'', JStr (if modulation = [] then ''OFDMA'' else modulation))] else [])))))))"

fun cga_channel :: "(json \<Rightarrow> string) \<Rightarrow> cga_lane \<Rightarrow> (string \<times> json) list \<Rightarrow> driver_channel res" where
  "cga_channel show Ds30 d = cga_downstream (normalize_modulation show (dict_get d ''FFT'' (JStr []))) (\<lambda>k. k) d"
| "cga_channel show Ds31 d = cga_downstream ''OFDM'' (\<lambda>k. k @ ''_ofdm'') d"
| "cga_channel show Us30 d = cga_upstream show False d"
| "cga_channel show Us31 d = cga_upstream show True d"

definition cga_issue :: "cga_lane \<Rightarrow> nat \<Rightarrow> parse_diagnostic" where
  "cga_issue lane i = vodafone_issue ''vodafone_station_cga_json'' ''invalid_channel''
     (Some (if lane \<in> {Ds30, Ds31} then ''downstream'' else ''upstream'')) (Some i)"

text \<open>A row that is no dictionary ends the lane without a value.\<close>

fun cga_rows :: "(json \<Rightarrow> string) \<Rightarrow> cga_lane \<Rightarrow> nat \<Rightarrow> json list \<Rightarrow> driver_channel list option parse_result res" where
  "cga_rows show lane i [] = Inr (Some [], [])"
| "cga_rows show lane i (JDict d # rows) =
     res_bind (or_diagnose (cga_issue lane i) (map_sum id (\<lambda>c. ([c], [])) (cga_channel show lane d))) (\<lambda>(c, issues).
       map_sum id (\<lambda>(cs, ds). (map_option ((@) c) cs, issues @ ds)) (cga_rows show lane (Suc i) rows))"
| "cga_rows show lane i (v # rows) = Inr (None, [cga_issue lane i])"

definition parse_cga_lane :: "(json \<Rightarrow> string) \<Rightarrow> json \<Rightarrow> cga_lane \<Rightarrow> driver_channel list option parse_result res" where
  "parse_cga_lane show rows lane = (case rows of JList rs \<Rightarrow> cga_rows show lane 0 rs | _ \<Rightarrow> Inr (Some [], []))"

definition parse_vodafone_station_cga_json :: "(json \<Rightarrow> string) \<Rightarrow> json \<Rightarrow> docsis_lanes option parse_result res" where
  "parse_vodafone_station_cga_json show payload =
     (let data = payload_dict payload; lane = (\<lambda>k. parse_cga_lane show (dict_get data k (JList []))) in
      res_bind (lane ''downstream'' Ds30) (\<lambda>a.
      res_bind (lane ''ofdm_downstream'' Ds31) (\<lambda>b.
      res_bind (lane ''upstream'' Us30) (\<lambda>c.
      res_bind (lane ''ofdma_upstream'' Us31) (\<lambda>e.
        Inr (case (fst a, fst b, fst c, fst e) of
            (Some w, Some x, Some y, Some z) \<Rightarrow> Some (docsis_split w x y z) | _ \<Rightarrow> None,
          snd a @ snd b @ snd c @ snd e))))))"

section \<open>TG\<close>

definition parse_tg_power :: "json \<Rightarrow> f64 res" where
  "parse_tg_power v =
     (if j_is_number v then j_float v
      else case v of
        JStr (c # cs) \<Rightarrow> Inr (parse_number (py_strip (py_delete ''dBuV'' (py_delete ''dBmV'' (hd (py_split ''/'' (c # cs)))))))
      | _ \<Rightarrow> Inr (Fin 0))"

definition parse_tg_frequency :: "json \<Rightarrow> f64 res" where
  "parse_tg_frequency v =
     (if j_is_number v then map_sum id above_million (j_float v)
      else case v of
        JStr (c # cs) \<Rightarrow> Inr (let s = c # cs; a = takeWhile (\<lambda>c. c \<noteq> CHR ''~'') s; r = drop (length a) s in
          if r = [] then above_million (parse_number s)
          else case (parse_float (py_strip a), parse_float (py_strip (tl r))) of
            (Some x, Some y) \<Rightarrow> above_million (f_scale (1 / 2) (f_add x y))
          | _ \<Rightarrow> Fin 0)
      | _ \<Rightarrow> Inr (Fin 0))"

fun tg_mhz_text :: "f64 \<Rightarrow> string" where
  "tg_mhz_text (Fin x) = (if x = 0 then [] else py_fixed 3 x @ '' MHz'')"
| "tg_mhz_text Inf = ''inf MHz''"
| "tg_mhz_text NInf = ''-inf MHz''"
| "tg_mhz_text NaN = ''nan MHz''"

text \<open>\<^verbatim>\<open>\[.+?\]\<close> up to the first closing bracket behind which only a semicolon follows.\<close>

fun lazy_array :: "string \<Rightarrow> string \<Rightarrow> string option" where
  "lazy_array acc [] = None"
| "lazy_array acc (c # cs) =
     (if acc \<noteq> [] \<and> c = CHR '']'' \<and> py_startswith (dropWhile py_space cs) '';'' then Some (''['' @ acc @ '']'')
      else lazy_array (acc @ [c]) cs)"

definition array_at :: "string \<Rightarrow> string \<Rightarrow> string option" where
  "array_at name s =
     (if \<not> py_startswith s name then None
      else case dropWhile py_space (drop (length name) s) of
        c # cs \<Rightarrow> if c \<noteq> CHR ''='' then None
          else (case dropWhile py_space cs of b # bs \<Rightarrow> if b = CHR ''['' then lazy_array [] bs else None | [] \<Rightarrow> None)
      | [] \<Rightarrow> None)"

fun search_array :: "string \<Rightarrow> string \<Rightarrow> string option" where
  "search_array name [] = array_at name []"
| "search_array name (c # cs) = (case array_at name (c # cs) of Some t \<Rightarrow> Some t | None \<Rightarrow> search_array name cs)"

definition tg_row :: "(json \<Rightarrow> string) \<Rightarrow> bool \<Rightarrow> nat \<Rightarrow> json \<Rightarrow> (bool \<times> driver_channel) list parse_result res" where
  "tg_row show down i row =
     (let issue = vodafone_issue ''vodafone_station_tg_embedded_json'' ''invalid_channel''
            (Some (if down then ''downstream'' else ''upstream'')) (Some i);
          r = res_bind (row_get row ''ChannelType'' (JStr ''SC-QAM'')) (\<lambda>channel_type.
            let d = payload_dict row; ofdm_name = (if down then ''OFDM'' else ''OFDMA'') in
            res_bind (parse_tg_frequency (dict_get d ''Frequency'' (JStr ''0''))) (\<lambda>frequency.
            res_bind (if down then map_sum id f_abs (parse_vodafone_number (dict_get d ''SNRLevel'' (JStr ''0''))) else Inr (Fin 0)) (\<lambda>snr.
            res_bind (on_str (\<lambda>t. py_in ofdm_name (py_upper t)) channel_type) (\<lambda>ofdm.
              let m = normalize_modulation show (dict_get d ''Modulation'' (JStr []));
                  modulation = (if ofdm \<and> m = [] then ofdm_name else m) in
            res_bind (res_bind (j_float (dict_get d ''ChannelID'' (JInt 0))) (\<lambda>x. py_int (PFloat x))) (\<lambda>channel_id.
            res_bind (parse_tg_power (dict_get d ''PowerLevel'' (JStr ''0''))) (\<lambda>pwr.
              Inr ([(ofdm, [(''channelID'', JInt channel_id), (''type'', JStr modulation), (''frequency'', JStr (tg_mhz_text frequency)),
                (''powerLevel'', JFloat pwr)]
                @ (if down then [(''mse'', non_zero (f_neg snr)), (''mer'', non_zero snr), (''latency'', JInt 0), (''corrError'', JInt 0),
                     (''nonCorrError'', JInt 0)] else [(''multiplex'', JStr [])]))], [])))))))
      in case r of Inl AttributeError \<Rightarrow> Inr ([], [issue]) | _ \<Rightarrow> or_diagnose issue r)"

definition load_rows :: "(string \<Rightarrow> json res) \<Rightarrow> string option \<Rightarrow> json res" where
  "load_rows loads m = (case m of None \<Rightarrow> Inr (JList []) | Some t \<Rightarrow> loads t)"

definition parse_vodafone_station_tg_embedded_json ::
  "(string \<Rightarrow> json res) \<Rightarrow> (json \<Rightarrow> string) \<Rightarrow> string \<Rightarrow> docsis_lanes option parse_result res" where
  "parse_vodafone_station_tg_embedded_json loads show html =
     (let ds = search_array ''json_dsData'' html; us = search_array ''json_usData'' html;
          failed = (\<lambda>code. (None, [vodafone_issue ''vodafone_station_tg_embedded_json'' code None None])) in
      if ds = None \<and> us = None then Inr (failed ''missing_data'')
      else case res_bind (load_rows loads ds) (\<lambda>a. map_sum id (Pair a) (load_rows loads us)) of
        Inl e \<Rightarrow> if value_error e then Inr (failed ''invalid_json'') else Inl e
      | Inr (drows, urows) \<Rightarrow>
          res_bind (res_bind (iter_rows drows) (parse_rows (tg_row show True) 0)) (\<lambda>(d, di).
          res_bind (res_bind (iter_rows urows) (parse_rows (tg_row show False) 0)) (\<lambda>(u, ui).
            Inr (Some (docsis_split (fst (split_lanes d)) (snd (split_lanes d)) (fst (split_lanes u)) (snd (split_lanes u))), di @ ui))))"

section \<open>What one row can discard\<close>

definition cga_sample :: "json \<Rightarrow> json" where
  "cga_sample p = JDict [(''downstream'', JList [JDict [(''power'', p)]])]"

text \<open>
  A CGA row whose power is a JSON number instead of a text raises \<^verbatim>\<open>AttributeError\<close> out of the
  parser: the number has no \<^verbatim>\<open>strip\<close>, and the guard catches only \<^verbatim>\<open>ValueError\<close> and \<^verbatim>\<open>TypeError\<close>.
\<close>

theorem numeric_field_aborts:
  "parse_vodafone_station_cga_json (\<lambda>v. []) (cga_sample (JInt 3)) = Inl AttributeError
    \<and> (\<exists>c. parse_vodafone_station_cga_json (\<lambda>v. []) (cga_sample (JStr ''3 dBmV'')) = Inr (Some (docsis_split [c] [] [] []), []))"
proof -
  have "plain_digits ''0''" by code_simp
  from parse_float_digits [OF this] have f: "parse_float ''0'' = Some (Fin 0)"
    by (simp add: digits_val_def digit_val_def f64_of_def)
  have w: "py_words (py_strip ''0'') = [''0'']" "normalize_modulation_text [] = []" by code_simp+
  have z: "parse_number ''0'' = Fin 0" by (simp add: parse_number_def w f first_float_def)
  show ?thesis
    by (simp add: parse_vodafone_station_cga_json_def cga_sample_def payload_dict_def dict_get_def parse_cga_lane_def cga_downstream_def
        number_text_def cga_frequency_def parse_vodafone_number_def above_million_def cga_frequency_text_def or_diagnose_def z trunc_rat_def Let_def)
      (simp add: docsis_split_def)
qed

end
