(* ===== verification/Format_Hnap.thy ===== *)
theory Format_Hnap
  imports Format_Values
begin

text \<open>
  \<^verbatim>\<open>app/drivers/formats/surfboard.py\<close>: the channel strings of the HNAP interface, entries separated
  by \<^verbatim>\<open>|+|\<close> and fields by \<^verbatim>\<open>^\<close>.  The locale \<open>hnap_lane\<close> has the round trip of a table of the modem, for the
  downstream and the upstream grammar.
\<close>

definition DOWNSTREAM_FIELDS :: nat where "DOWNSTREAM_FIELDS = 9"
definition UPSTREAM_FIELDS :: nat where "UPSTREAM_FIELDS = 7"

definition hnap_fields :: "string \<Rightarrow> string list" where
  "hnap_fields entry = (let fs = py_split ''^'' (py_strip entry) in if last fs = [] then butlast fs else fs)"

definition hnap_issue :: "string \<Rightarrow> nat \<Rightarrow> parse_diagnostic" where
  "hnap_issue direction i = \<lparr>pd_family = ''surfboard'', pd_profile = ''surfboard_hnap'', pd_code = ''invalid_channel'',
     pd_direction = Some direction, pd_index = Some i, pd_field = None\<rparr>"

definition text_int :: "string \<Rightarrow> int res" where "text_int s = j_int (JStr s)"
definition text_float :: "string \<Rightarrow> f64 res" where "text_float s = j_float (JStr (py_strip s))"
definition hz_int :: "int \<Rightarrow> string res" where "hz_int n = hz_to_mhz (\<lambda>v. []) (JInt n)"

definition downstream_channel :: "string list \<Rightarrow> (bool \<times> driver_channel) res" where
  "downstream_channel fs =
     (let modulation = py_strip (fs ! 2) in
      res_bind (text_int (fs ! 3)) (\<lambda>channel_id.
      res_bind (res_bind (text_int (fs ! 4)) hz_int) (\<lambda>frequency.
      res_bind (text_float (fs ! 5)) (\<lambda>pwr.
      res_bind (text_float (fs ! 6)) (\<lambda>snr.
      res_bind (text_int (fs ! 7)) (\<lambda>corrected.
      res_bind (text_int (fs ! 8)) (\<lambda>uncorrected.
        Inr (if py_in ''OFDM'' (py_upper modulation)
          then (True, [(''channelID'', JInt channel_id), (''type'', JStr ''OFDM''), (''frequency'', JStr frequency),
            (''powerLevel'', JFloat pwr), (''mer'', JFloat snr), (''mse'', JNull),
            (''corrErrors'', JInt corrected), (''nonCorrErrors'', JInt uncorrected)])
          else (False, [(''channelID'', JInt channel_id), (''frequency'', JStr frequency), (''powerLevel'', JFloat pwr),
            (''mer'', JFloat snr), (''mse'', JFloat (f_neg snr)), (''modulation'', JStr modulation),
            (''corrErrors'', JInt corrected), (''nonCorrErrors'', JInt uncorrected)])))))))))"

definition upstream_channel :: "string list \<Rightarrow> (bool \<times> driver_channel) res" where
  "upstream_channel fs =
     (let channel_type = py_strip (fs ! 2) in
      res_bind (text_int (fs ! 3)) (\<lambda>channel_id.
      res_bind (res_bind (text_int (fs ! 5)) hz_int) (\<lambda>frequency.
      res_bind (text_float (fs ! 6)) (\<lambda>pwr.
        Inr (if py_in ''OFDMA'' (py_upper channel_type)
          then (True, [(''channelID'', JInt channel_id), (''type'', JStr ''OFDMA''), (''frequency'', JStr frequency),
            (''powerLevel'', JFloat pwr), (''modulation'', JStr ''OFDMA''), (''multiplex'', JStr [])])
          else (False, [(''channelID'', JInt channel_id), (''frequency'', JStr frequency), (''powerLevel'', JFloat pwr),
            (''modulation'', JStr channel_type), (''multiplex'', JStr channel_type)]))))))"

definition hnap_entry :: "nat \<Rightarrow> (string list \<Rightarrow> (bool \<times> driver_channel) res) \<Rightarrow> string \<Rightarrow> nat \<Rightarrow> string
    \<Rightarrow> (bool \<times> driver_channel) list parse_result res" where
  "hnap_entry n build direction i entry =
     (if py_strip entry = [] then Inr ([], [])
      else let fs = hnap_fields entry in
        if length fs < n \<or> py_strip (fs ! 1) \<noteq> ''Locked'' then Inr ([], [])
        else or_diagnose (hnap_issue direction i) (map_sum id (\<lambda>c. ([c], [])) (build fs)))"

definition hnap_lanes :: "(nat \<Rightarrow> string \<Rightarrow> (bool \<times> driver_channel) list parse_result res) \<Rightarrow> string
    \<Rightarrow> (driver_channel list \<times> driver_channel list) parse_result res" where
  "hnap_lanes step raw = map_sum id (\<lambda>(cs, ds). (split_lanes cs, ds)) (parse_rows step 0 (py_split ''|+|'' raw))"

definition parse_surfboard_downstream :: "string \<Rightarrow> (driver_channel list \<times> driver_channel list) parse_result res" where
  "parse_surfboard_downstream = hnap_lanes (hnap_entry DOWNSTREAM_FIELDS downstream_channel ''downstream'')"

definition parse_surfboard_upstream :: "string \<Rightarrow> (driver_channel list \<times> driver_channel list) parse_result res" where
  "parse_surfboard_upstream = hnap_lanes (hnap_entry UPSTREAM_FIELDS upstream_channel ''upstream'')"

definition parse_surfboard_hnap :: "string \<Rightarrow> string \<Rightarrow> docsis_lanes parse_result res" where
  "parse_surfboard_hnap downstream_raw upstream_raw =
     res_bind (parse_surfboard_downstream downstream_raw) (\<lambda>(d, di).
     res_bind (parse_surfboard_upstream upstream_raw) (\<lambda>(u, ui).
       Inr (docsis_split (fst d) (snd d) (fst u) (snd u), di @ ui)))"


section \<open>Reading back what a modem writes\<close>

text \<open>
  A lane of the interface: the cells a modem writes for a row behind its index and its state, the
  channel the row stands for, and the law that the parser builds that channel from the cells.
\<close>

definition plain_cell :: "string \<Rightarrow> bool" where
  "plain_cell s \<longleftrightarrow> CHR ''^'' \<notin> set s \<and> CHR ''+'' \<notin> set s"

definition hnap_words :: "(nat \<times> bool) \<Rightarrow> string list \<Rightarrow> string list" where
  "hnap_words st cells = [nat_str (fst st), if snd st then ''Locked'' else ''Not Locked''] @ cells"

definition hnap_text :: "('r \<Rightarrow> bool) \<Rightarrow> ('r \<Rightarrow> string list) \<Rightarrow> 'r list \<Rightarrow> string" where
  "hnap_text locked cells rows = py_join ''|+|''
     (map (\<lambda>(i, r). py_join ''^'' (hnap_words (i, locked r) (cells r) @ [[]])) (enumerate 1 rows))"

locale hnap_lane =
  fixes n :: nat
    and build :: "string list \<Rightarrow> (bool \<times> driver_channel) res"
    and direction :: string
    and ok :: "'r \<Rightarrow> bool"
    and locked :: "'r \<Rightarrow> bool"
    and cells :: "'r \<Rightarrow> string list"
    and channel_of :: "'r \<Rightarrow> bool \<times> driver_channel"
  assumes plain: "ok r \<Longrightarrow> list_all plain_cell (cells r)"
    and enough: "ok r \<Longrightarrow> n \<le> length (cells r) + 2"
    and built: "ok r \<Longrightarrow> build (hnap_words st (cells r)) = Inr (channel_of r)"
begin

lemma state_words: "list_all plain_cell (hnap_words st [])"
proof -
  have "\<not> is_digit CHR ''^''" "\<not> is_digit CHR ''+''" by code_simp+
  then show ?thesis using nat_str_digits [of "fst st"] by (auto simp: hnap_words_def plain_cell_def list_all_iff)
qed

lemma words_plain: "ok r \<Longrightarrow> list_all plain_cell (hnap_words st (cells r) @ [[]])"
  using plain [of r] state_words [of st] by (auto simp: hnap_words_def plain_cell_def)

lemma fields_of_entry:
  fixes st
  assumes "ok r"
  defines "e \<equiv> py_join ''^'' (hnap_words st (cells r) @ [[]])"
  shows "py_strip e = e" "e \<noteq> []" "hnap_fields e = hnap_words st (cells r)"
proof -
  have join: "py_join ''^'' (ws @ [[]]) = concat (map (\<lambda>w. w @ ''^'') ws)" for ws
  proof (induction ws)
    case (Cons w ws)
    then show ?case by (cases ws) auto
  qed simp
  have e: "e = nat_str (fst st) @ ''^'' @ concat (map (\<lambda>w. w @ ''^'') (tl (hnap_words st (cells r))))"
    unfolding e_def join by (simp add: hnap_words_def)
  have lst: "last e = CHR ''^''" unfolding e_def join by (cases "hnap_words st (cells r)" rule: rev_cases) (auto simp: hnap_words_def)
  have d: "list_all is_digit (nat_str (fst st))" "nat_str (fst st) \<noteq> []" using nat_str_digits by auto
  then have "is_digit (hd e)" unfolding e by (cases "nat_str (fst st)") auto
  moreover have "\<not> py_space CHR ''^''" by code_simp
  moreover show ne: "e \<noteq> []" unfolding e by simp
  ultimately show st: "py_strip e = e" using lst by (intro strip_no_space) (simp_all add: not_space_digit)
  have "py_split ''^'' e = hnap_words st (cells r) @ [[]]"
    unfolding e_def using words_plain [OF assms(1), of st] by (intro py_split_join1) (auto simp: list_all_iff plain_cell_def)
  then show "hnap_fields e = hnap_words st (cells r)" by (simp add: hnap_fields_def st)
qed

lemma entry_read:
  assumes "ok r"
  shows "hnap_entry n build direction j (py_join ''^'' (hnap_words (i, locked r) (cells r) @ [[]]))
    = Inr (if locked r then [channel_of r] else [], [])"
proof -
  have "py_strip ''Locked'' = ''Locked''" "py_strip ''Not Locked'' = ''Not Locked''" by code_simp+
  then show ?thesis
    using fields_of_entry [OF assms, of "(i, locked r)"] enough [OF assms] built [OF assms, of "(i, locked r)"]
    by (simp add: hnap_entry_def or_diagnose_def Let_def) (simp add: hnap_words_def)
qed

lemma rows_read:
  assumes "list_all ok rows"
  shows "parse_rows (hnap_entry n build direction) j (map (\<lambda>(i, r). py_join ''^'' (hnap_words (i, locked r) (cells r) @ [[]])) (enumerate k rows))
    = Inr (map channel_of (filter locked rows), [])"
  using assms by (induction rows arbitrary: j k) (simp_all add: entry_read)

lemma text_read:
  assumes "list_all ok rows"
  shows "hnap_lanes (hnap_entry n build direction) (hnap_text locked cells rows) = Inr (split_lanes (map channel_of (filter locked rows)), [])"
proof (cases "rows = []")
  case True
  have "py_strip [] = []" by code_simp
  with True show ?thesis by (simp add: hnap_text_def hnap_lanes_def hnap_entry_def split_lanes_def)
next
  case False
  let ?es = "map (\<lambda>(i, r). py_join ''^'' (hnap_words (i, locked r) (cells r) @ [[]])) (enumerate 1 rows)"
  have join: "CHR ''+'' \<notin> set (py_join ''^'' ws)" if "list_all plain_cell ws" for ws
    using that by (induction "''^''" ws rule: py_join.induct) (auto simp: plain_cell_def)
  have all: "CHR ''+'' \<notin> set w" if w: "w \<in> set ?es" for w
  proof -
    from w obtain i r where r: "(i, r) \<in> set (enumerate 1 rows)" "w = py_join ''^'' (hnap_words (i, locked r) (cells r) @ [[]])" by auto
    then have "r \<in> set rows" by (auto simp: enumerate_eq_zip dest: set_zip_rightD)
    then have "ok r" using assms by (simp add: list_all_iff)
    from join [OF words_plain [OF this]] r(2) show ?thesis by simp
  qed
  then have "py_split ''|+|'' (hnap_text locked cells rows) = ?es"
    unfolding hnap_text_def using all False by (intro py_split_join) (simp, blast, cases rows, simp_all)
  then show ?thesis using rows_read [OF assms, of 0 1] by (simp add: hnap_lanes_def)
qed

end

text \<open>The rows of the two tables, with any frequency in Hz, and the levels as the modem writes them.\<close>

record hnap_down =
  hd_locked :: bool
  hd_modulation :: string
  hd_id :: int
  hd_hz :: int
  hd_power :: string
  hd_snr :: string
  hd_corrected :: int
  hd_uncorrected :: int

record hnap_up =
  hu_locked :: bool
  hu_type :: string
  hu_id :: int
  hu_rate :: string
  hu_hz :: int
  hu_power :: string

definition level :: "string \<Rightarrow> f64" where "level s = (case parse_float (py_strip s) of None \<Rightarrow> Fin 0 | Some x \<Rightarrow> x)"

definition down_cells :: "hnap_down \<Rightarrow> string list" where
  "down_cells r = [hd_modulation r, int_str (hd_id r), int_str (hd_hz r), hd_power r, hd_snr r,
     int_str (hd_corrected r), int_str (hd_uncorrected r)]"

definition up_cells :: "hnap_up \<Rightarrow> string list" where
  "up_cells r = [hu_type r, int_str (hu_id r), hu_rate r, int_str (hu_hz r), hu_power r]"

definition down_ok :: "hnap_down \<Rightarrow> bool" where
  "down_ok r \<longleftrightarrow> \<bar>hd_hz r\<bar> \<le> 100000000000 \<and> list_all plain_cell [hd_modulation r, hd_power r, hd_snr r]
     \<and> parse_float (py_strip (hd_power r)) \<noteq> None \<and> parse_float (py_strip (hd_snr r)) \<noteq> None"

definition up_ok :: "hnap_up \<Rightarrow> bool" where
  "up_ok r \<longleftrightarrow> \<bar>hu_hz r\<bar> \<le> 100000000000 \<and> list_all plain_cell [hu_type r, hu_rate r, hu_power r]
     \<and> parse_float (py_strip (hu_power r)) \<noteq> None"

definition down_channel :: "hnap_down \<Rightarrow> bool \<times> driver_channel" where
  "down_channel r =
     (let m = py_strip (hd_modulation r); ofdm = py_in ''OFDM'' (py_upper m);
          mhz = JStr (mhz_shown (hd_hz r) @ '' MHz'');
          errors = [(''corrErrors'', JInt (hd_corrected r)), (''nonCorrErrors'', JInt (hd_uncorrected r))] in
      (ofdm, if ofdm
        then [(''channelID'', JInt (hd_id r)), (''type'', JStr ''OFDM''), (''frequency'', mhz), (''powerLevel'', JFloat (level (hd_power r))),
          (''mer'', JFloat (level (hd_snr r))), (''mse'', JNull)] @ errors
        else [(''channelID'', JInt (hd_id r)), (''frequency'', mhz), (''powerLevel'', JFloat (level (hd_power r))),
          (''mer'', JFloat (level (hd_snr r))), (''mse'', JFloat (f_neg (level (hd_snr r)))), (''modulation'', JStr m)] @ errors))"

definition up_channel :: "hnap_up \<Rightarrow> bool \<times> driver_channel" where
  "up_channel r =
     (let t = py_strip (hu_type r); ofdma = py_in ''OFDMA'' (py_upper t); mhz = JStr (mhz_shown (hu_hz r) @ '' MHz'') in
      (ofdma, if ofdma
        then [(''channelID'', JInt (hu_id r)), (''type'', JStr ''OFDMA''), (''frequency'', mhz),
          (''powerLevel'', JFloat (level (hu_power r))), (''modulation'', JStr ''OFDMA''), (''multiplex'', JStr [])]
        else [(''channelID'', JInt (hu_id r)), (''frequency'', mhz), (''powerLevel'', JFloat (level (hu_power r))),
          (''modulation'', JStr t), (''multiplex'', JStr t)]))"

lemma text_int_str [simp]: "text_int (int_str n) = Inr n"
  by (simp add: text_int_def parse_int_int_str)

lemma text_level: "parse_float (py_strip s) \<noteq> None \<Longrightarrow> text_float s = Inr (level s)"
  by (auto simp: text_float_def level_def)

lemma hz_int_shown: "\<bar>hz\<bar> \<le> 100000000000 \<Longrightarrow> hz_int hz = Inr (mhz_shown hz @ '' MHz'')"
  by (simp add: hz_int_def hz_to_mhz_int)

lemma plain_int: "plain_cell (int_str n)"
proof -
  have "\<not> is_digit CHR ''^''" "\<not> is_digit CHR ''+''" by code_simp+
  then show ?thesis using nat_str_digits [of "nat n"] nat_str_digits [of "nat (- n)"]
    by (auto simp: plain_cell_def int_str_def list_all_iff)
qed

interpretation down: hnap_lane DOWNSTREAM_FIELDS downstream_channel "''downstream''" down_ok hd_locked down_cells down_channel
proof unfold_locales
  fix r st
  assume ok: "down_ok r"
  then show "list_all plain_cell (down_cells r)" by (simp add: down_ok_def down_cells_def plain_int)
  show "DOWNSTREAM_FIELDS \<le> length (down_cells r) + 2" by (simp add: DOWNSTREAM_FIELDS_def down_cells_def)
  show "downstream_channel (hnap_words st (down_cells r)) = Inr (down_channel r)"
    using ok by (simp add: down_ok_def downstream_channel_def hnap_words_def down_cells_def text_level hz_int_shown
        down_channel_def Let_def)
qed

interpretation up: hnap_lane UPSTREAM_FIELDS upstream_channel "''upstream''" up_ok hu_locked up_cells up_channel
proof unfold_locales
  fix r st
  assume ok: "up_ok r"
  then show "list_all plain_cell (up_cells r)" by (simp add: up_ok_def up_cells_def plain_int)
  show "UPSTREAM_FIELDS \<le> length (up_cells r) + 2" by (simp add: UPSTREAM_FIELDS_def up_cells_def)
  show "upstream_channel (hnap_words st (up_cells r)) = Inr (up_channel r)"
    using ok by (simp add: up_ok_def upstream_channel_def hnap_words_def up_cells_def text_level hz_int_shown
        up_channel_def Let_def)
qed

lemma hnap_read:
  assumes "list_all down_ok ds" and "list_all up_ok us"
  shows "parse_surfboard_hnap (hnap_text hd_locked down_cells ds) (hnap_text hu_locked up_cells us) =
    Inr (docsis_split (fst (split_lanes (map down_channel (filter hd_locked ds)))) (snd (split_lanes (map down_channel (filter hd_locked ds))))
      (fst (split_lanes (map up_channel (filter hu_locked us)))) (snd (split_lanes (map up_channel (filter hu_locked us)))), [])"
  using down.text_read [OF assms(1)] up.text_read [OF assms(2)]
  by (simp add: parse_surfboard_hnap_def parse_surfboard_downstream_def parse_surfboard_upstream_def split_beta)

text \<open>
  C27. The parser reads back what a modem writes: from the two channel strings it recovers exactly the
  locked rows, in their order and lane, with their numbers and levels, and reports nothing.  A frequency
  of up to 100 GHz comes back in MHz: whole if it is whole, and otherwise with one decimal, rounded to
  within 50 kHz and exact for a multiple of 100 kHz.  Texts contain no separator and levels are numbers.
\<close>

theorem surfboard_round_trip:
  assumes "list_all down_ok ds" and "list_all up_ok us"
  shows "parse_surfboard_hnap (hnap_text hd_locked down_cells ds) (hnap_text hu_locked up_cells us) =
    Inr (docsis_split (fst (split_lanes (map down_channel (filter hd_locked ds)))) (snd (split_lanes (map down_channel (filter hd_locked ds))))
      (fst (split_lanes (map up_channel (filter hu_locked us)))) (snd (split_lanes (map up_channel (filter hu_locked us)))), [])
    \<and> (\<forall>hz \<in> set (map hd_hz ds @ map hu_hz us).
      (if 1000000 dvd hz then mhz_shown hz = int_str (hz div 1000000)
       else \<exists>k. mhz_shown hz = (if hz < 0 then ''-'' else []) @ nat_str (k div 10) @ ''.'' @ nat_str (k mod 10)
         \<and> \<bar>\<bar>hz\<bar> - 100000 * int k\<bar> \<le> 50000 \<and> (100000 dvd hz \<longrightarrow> \<bar>hz\<bar> = 100000 * int k)))"
proof -
  have "\<bar>hz\<bar> \<le> 100000000000" if "hz \<in> set (map hd_hz ds @ map hu_hz us)" for hz
    using assms that by (auto simp: list_all_iff down_ok_def up_ok_def)
  then show ?thesis using hnap_read [OF assms] mhz_shown_near by blast
qed

definition sample_down :: hnap_down where
  "sample_down = \<lparr>hd_locked = True, hd_modulation = ''QAM256'', hd_id = 7, hd_hz = 602250000, hd_power = ''1.5'', hd_snr = ''40.0'',
     hd_corrected = 12, hd_uncorrected = 3\<rparr>"

definition sample_up :: hnap_up where
  "sample_up = \<lparr>hu_locked = False, hu_type = ''OFDMA'', hu_id = 2, hu_rate = ''0'', hu_hz = 37000000, hu_power = '' 41.0''\<rparr>"

lemma sample_ok: "down_ok sample_down" "up_ok sample_up"
proof -
  have "plain_digits ''1''" "plain_digits ''5''" "plain_digits ''40''" "plain_digits ''0''" "plain_digits ''41''" by code_simp+
  note parse_float_point [OF this(1,2)] parse_float_point [OF this(3,4)] parse_float_point [OF this(5,4)]
  moreover have "py_strip ''1.5'' = ''1.5''" "py_strip ''40.0'' = ''40.0''" "py_strip '' 41.0'' = ''41.0''" by code_simp+
  ultimately show "down_ok sample_down" "up_ok sample_up"
    by (simp_all add: down_ok_def up_ok_def sample_down_def sample_up_def plain_cell_def)
qed

lemma surfboard_round_trip_witness:
  "parse_surfboard_hnap (hnap_text hd_locked down_cells [sample_down]) (hnap_text hu_locked up_cells [sample_up]) =
    Inr (docsis_split [snd (down_channel sample_down)] [] [] [], [])
    \<and> (\<exists>k. mhz_shown 602250000 = nat_str (k div 10) @ ''.'' @ nat_str (k mod 10) \<and> \<bar>602250000 - 100000 * int k\<bar> \<le> 50000)"
proof -
  have s: "py_strip ''QAM256'' = ''QAM256''" "\<not> py_in ''OFDM'' (py_upper ''QAM256'')" by code_simp+
  have "\<not> fst (down_channel sample_down)" using s by (simp add: sample_down_def down_channel_def Let_def)
  moreover have "hd_locked sample_down" "\<not> hu_locked sample_up" by (simp_all add: sample_down_def sample_up_def)
  moreover have "hd_hz sample_down = 602250000" by (simp add: sample_down_def)
  moreover have "list_all down_ok [sample_down]" "list_all up_ok [sample_up]" using sample_ok by simp_all
  note surfboard_round_trip [OF this]
  ultimately show ?thesis by (simp add: split_lanes_def)
qed

end
