(* ===== verification/Payload_Analysis.thy ===== *)
theory Payload_Analysis
  imports Analyzer Format_Hnap
begin

text \<open>
  The way of a payload through the driver's parser into \<^verbatim>\<open>analyze\<close>: the dictionaries that the parsers
  of \<^verbatim>\<open>app/drivers/formats\<close> return are what \<^verbatim>\<open>app/analyzer.py\<close> reads field by field.
\<close>

section \<open>The fields of a parsed channel\<close>

fun scalar :: "json \<Rightarrow> pyval" where
  "scalar (JBool b) = PBool b"
| "scalar (JInt n) = PInt n"
| "scalar (JFloat x) = PFloat x"
| "scalar (JStr s) = PStr s"
| "scalar v = PNone"

definition as_raw :: "driver_channel \<Rightarrow> raw_channel" where
  "as_raw c = \<lparr>raw_text = (\<lambda>k. case map_of c k of Some (JStr s) \<Rightarrow> Some s | _ \<Rightarrow> None),
     raw_num = (\<lambda>k. case map_of c k of Some v \<Rightarrow> scalar v | None \<Rightarrow> PNone),
     raw_snr_valid = (case map_of c ''snr_valid'' of Some (JBool b) \<Rightarrow> Some b | _ \<Rightarrow> None)\<rparr>"

definition analysis_input :: "docsis_lanes \<Rightarrow> docsis_data" where
  "analysis_input L = Fritz (map as_raw (ln_ds30 L)) (map as_raw (ln_ds31 L)) (map as_raw (ln_us30 L)) (map as_raw (ln_us31 L))"

section \<open>What the analyzer is to report of a row\<close>

type_synonym channel_report = "int \<times> string \<times> string \<times> f64 option \<times> f64 option"

definition report :: "channel \<Rightarrow> channel_report" where
  "report c = (ch_id c, ch_family c, ch_frequency c, ch_power c, ch_snr c)"

definition down_report :: "hnap_down \<Rightarrow> channel_report" where
  "down_report r =
     (let ofdm = fst (down_channel r); snr = level (hd_snr r) in
      (hd_id r, if ofdm then ''ofdm'' else ''sc_qam'', mhz_shown (hd_hz r) @ '' MHz'', Some (level (hd_power r)),
       Some (if ofdm then snr else f_abs snr)))"

definition up_report :: "hnap_up \<Rightarrow> channel_report" where
  "up_report r = (hu_id r, if fst (up_channel r) then ''ofdma'' else ''sc_qam'', mhz_shown (hu_hz r) @ '' MHz'',
     Some (level (hu_power r)), None)"

text \<open>Numbers a float can hold, and counters that are not negative.\<close>

definition down_sound :: "hnap_down \<Rightarrow> bool" where
  "down_sound r \<longleftrightarrow> down_ok r \<and> \<bar>hd_id r\<bar> \<le> 2 ^ 53 \<and> level (hd_power r) \<notin> {Inf, NInf} \<and> level (hd_snr r) \<notin> {Inf, NInf}
     \<and> 0 \<le> hd_corrected r \<and> 0 \<le> hd_uncorrected r"

definition up_sound :: "hnap_up \<Rightarrow> bool" where
  "up_sound r \<longleftrightarrow> up_ok r \<and> \<bar>hu_id r\<bar> \<le> 2 ^ 53 \<and> level (hu_power r) \<notin> {Inf, NInf}"

lemma f_neg_finite: "x \<notin> {Inf, NInf} \<Longrightarrow> f_neg x \<notin> {Inf, NInf}"
  by (cases x) auto

lemma f_abs_neg: "f_abs (f_neg x) = f_abs x"
  by (cases x) auto

lemma down_raw_ok: "down_sound r \<Longrightarrow> raw_ok (as_raw (snd (down_channel r)))"
  using f_neg_finite [of "level (hd_snr r)"]
  by (auto simp: down_sound_def raw_ok_def as_raw_def down_channel_def Let_def counter_ok_def coerce_counter_def rate_ok_def)

lemma up_raw_ok: "up_sound r \<Longrightarrow> raw_ok (as_raw (snd (up_channel r)))"
  by (simp add: up_sound_def raw_ok_def as_raw_def up_channel_def Let_def counter_ok_def coerce_counter_def rate_ok_def)

lemma channel_id_kept: "\<bar>n\<bar> \<le> 2 ^ 53 \<Longrightarrow> parse_channel_id (PInt n) = Inr n"
  by (simp add: parse_channel_id_def int_float trunc_rat_def)

lemma made_report:
  assumes "make_channel ch pw snr multiplex version fam verdict mh profile valid bitrate = Inr c"
  shows "report c = (ch_id c, fam, text_of (raw_text ch ''frequency''), pw, snr) \<and> parse_channel_id (raw_num ch ''channelID'') = Inr (ch_id c)"
  using assms by (auto simp: make_channel_def Let_def res_bind_Inr_iff report_def)

lemma ofdm_texts: "py_in ''OFDM'' (compact_text [Some ''OFDM'', None])" "py_in ''OFDMA'' (compact_text [Some ''OFDMA'', None])"
  by code_simp+

text \<open>A channel whose readings are floats: its report, lane by lane.\<close>

definition readings :: "raw_channel \<Rightarrow> int \<Rightarrow> f64 \<Rightarrow> string \<Rightarrow> bool" where
  "readings ch n p freq \<longleftrightarrow> raw_num ch ''channelID'' = PInt n \<and> \<bar>n\<bar> \<le> 2 ^ 53 \<and> raw_num ch ''powerLevel'' = PFloat p
     \<and> text_of (raw_text ch ''frequency'') = freq"

lemma lane_reports:
  assumes "readings ch n p freq"
  shows "ds30_channel t ch = Inr c \<Longrightarrow> raw_num ch ''mse'' = PFloat (f_neg s) \<Longrightarrow> report c = (n, ''sc_qam'', freq, Some p, Some (f_abs s))"
    and "ds31_channel t ch = Inr c \<Longrightarrow> raw_num ch ''mer'' = PFloat s \<Longrightarrow> classify_ds (ds_view ch) = Ofdm
      \<Longrightarrow> report c = (n, ''ofdm'', freq, Some p, Some s)"
    and "us30_channel t ch = Inr c \<Longrightarrow> report c = (n, ''sc_qam'', freq, Some p, None)"
    and "us31_channel t ch = Inr c \<Longrightarrow> classify_us (us_view ch ''3.1'') = Ofdma \<Longrightarrow> report c = (n, ''ofdma'', freq, Some p, None)"
  using assms made_report [of ch] channel_id_kept [of n]
  by (fastforce simp: readings_def ds30_channel_def ds31_channel_def us30_channel_def us31_channel_def res_bind_Inr_iff Let_def
      float_unless_none_def float_or_none_def map_sum_Inr_iff f_abs_neg)+

lemma down_readings:
  assumes "\<bar>hd_id r\<bar> \<le> 2 ^ 53"
  shows "readings (as_raw (snd (down_channel r))) (hd_id r) (level (hd_power r)) (mhz_shown (hd_hz r) @ '' MHz'')"
    and "\<not> fst (down_channel r) \<Longrightarrow> raw_num (as_raw (snd (down_channel r))) ''mse'' = PFloat (f_neg (level (hd_snr r)))"
    and "fst (down_channel r) \<Longrightarrow> raw_num (as_raw (snd (down_channel r))) ''mer'' = PFloat (level (hd_snr r))"
    and "fst (down_channel r) \<Longrightarrow> classify_ds (ds_view (as_raw (snd (down_channel r)))) = Ofdm"
  using assms ofdm_texts(1)
  by (simp_all add: readings_def as_raw_def down_channel_def Let_def text_of_def classify_ds_def ds_view_def)

lemma up_readings:
  assumes "\<bar>hu_id r\<bar> \<le> 2 ^ 53"
  shows "readings (as_raw (snd (up_channel r))) (hu_id r) (level (hu_power r)) (mhz_shown (hu_hz r) @ '' MHz'')"
    and "fst (up_channel r) \<Longrightarrow> classify_us (us_view (as_raw (snd (up_channel r))) ''3.1'') = Ofdma"
  using assms ofdm_texts(2)
  by (simp_all add: readings_def as_raw_def up_channel_def Let_def text_of_def classify_us_def us_view_def)

lemma down_reported:
  assumes "\<bar>hd_id r\<bar> \<le> 2 ^ 53"
  shows "\<not> fst (down_channel r) \<Longrightarrow> ds30_channel t (as_raw (snd (down_channel r))) = Inr c \<Longrightarrow> report c = down_report r"
    and "fst (down_channel r) \<Longrightarrow> ds31_channel t (as_raw (snd (down_channel r))) = Inr c \<Longrightarrow> report c = down_report r"
  using lane_reports(1,2) [OF down_readings(1) [OF assms], of t c "level (hd_snr r)"] down_readings(2-4) [OF assms]
  by (simp_all add: down_report_def Let_def)

lemma up_reported:
  assumes "\<bar>hu_id r\<bar> \<le> 2 ^ 53"
  shows "\<not> fst (up_channel r) \<Longrightarrow> us30_channel t (as_raw (snd (up_channel r))) = Inr c \<Longrightarrow> report c = up_report r"
    and "fst (up_channel r) \<Longrightarrow> us31_channel t (as_raw (snd (up_channel r))) = Inr c \<Longrightarrow> report c = up_report r"
  using lane_reports(3,4) [OF up_readings(1) [OF assms], of t c] up_readings(2) [OF assms]
  by (simp_all add: up_report_def)

section \<open>From the strings of the modem to the analysis\<close>

lemma reports_of_rows:
  fixes f g :: "'r \<Rightarrow> 'e + 'c"
  assumes "mset (map Inr cs) = mset (map f (filter (\<lambda>r. \<not> P r) rows) @ map g (filter P rows))"
    and "\<And>r c. r \<in> set rows \<Longrightarrow> \<not> P r \<Longrightarrow> f r = Inr c \<Longrightarrow> h c = rep r"
    and "\<And>r c. r \<in> set rows \<Longrightarrow> P r \<Longrightarrow> g r = Inr c \<Longrightarrow> h c = rep r"
  shows "mset (map h cs) = mset (map rep rows)"
proof -
  define k where "k x = (case x of Inl e \<Rightarrow> None | Inr c \<Rightarrow> Some (h c))" for x :: "'e + 'c"
  have all: "\<exists>c. x = Inr c" if "x \<in> set (map f (filter (\<lambda>r. \<not> P r) rows) @ map g (filter P rows))" for x
    using that arg_cong [OF assms(1), of set_mset] by auto
  have kf: "k (f r) = Some (rep r)" if r: "r \<in> set rows" "\<not> P r" for r
  proof -
    obtain c where "f r = Inr c" using all [of "f r"] r by auto
    then show ?thesis using assms(2) [OF r] by (simp add: k_def)
  qed
  have kg: "k (g r) = Some (rep r)" if r: "r \<in> set rows" "P r" for r
  proof -
    obtain c where "g r = Inr c" using all [of "g r"] r by auto
    then show ?thesis using assms(3) [OF r] by (simp add: k_def)
  qed
  have "image_mset Some (mset (map h cs)) = image_mset k (mset (map Inr cs))" by (simp add: k_def multiset.map_comp comp_def)
  also have "\<dots> = mset (map (k \<circ> f) (filter (\<lambda>r. \<not> P r) rows)) + mset (map (k \<circ> g) (filter P rows))"
    unfolding assms(1) by (simp add: multiset.map_comp)
  also have "\<dots> = mset (map (Some \<circ> rep) (filter (\<lambda>r. \<not> P r) rows)) + mset (map (Some \<circ> rep) (filter P rows))"
    using kf kg by (intro arg_cong2 [of _ _ _ _ "(+)"] arg_cong [of _ _ mset] map_cong) auto
  also have "\<dots> = image_mset Some (mset (map rep rows))"
    by (induction rows) (simp_all add: add.commute multiset.map_comp)
  finally show ?thesis by (metis (no_types, lifting) injI multiset.inj_map inj_eq option.inject)
qed

lemma split_lanes_map:
  "fst (split_lanes (map ch rows)) = map (\<lambda>r. snd (ch r)) (filter (\<lambda>r. \<not> fst (ch r)) rows)"
  "snd (split_lanes (map ch rows)) = map (\<lambda>r. snd (ch r)) (filter (\<lambda>r. fst (ch r)) rows)"
  by (induction rows) (simp_all add: split_lanes_def)

text \<open>
  C2. From the strings of the modem to the assessment: the parser and \<^verbatim>\<open>analyze\<close> succeed, and the
  channels of the analysis are exactly the locked rows, each once, with the identifier, the family of
  its lane, the power and the signal-to-noise ratio the modem wrote (without its sign on a single-carrier
  channel), and its frequency as the text in MHz that rounds it to 100 kHz (\<open>mhz_shown\<close>, as in C27).  The
  texts of the rows contain no separator; they may have any frequency of up to 100 GHz, identifiers between -2^53 and 2^53, levels that are no infinities and counters that are not negative;
  the configured minimum of codewords is positive.
\<close>

theorem surfboard_rows_are_analyzed:
  assumes "list_all down_sound ds" and "list_all up_sound us" and "0 < min_codewords (get_uncorr_thresholds t)"
  shows "\<exists>L a. parse_surfboard_hnap (hnap_text hd_locked down_cells ds) (hnap_text hu_locked up_cells us) = Inr (L, [])
    \<and> analyze t (analysis_input L) = Inr a
    \<and> mset (map report (an_ds a)) = mset (map down_report (filter hd_locked ds))
    \<and> mset (map report (an_us a)) = mset (map up_report (filter hu_locked us))"
proof -
  let ?d = "filter hd_locked ds" and ?u = "filter hu_locked us"
  define L where "L = docsis_split (fst (split_lanes (map down_channel ?d))) (snd (split_lanes (map down_channel ?d)))
    (fst (split_lanes (map up_channel ?u))) (snd (split_lanes (map up_channel ?u)))"
  have sd: "down_sound r" if "r \<in> set ?d" for r using that assms(1) by (simp add: list_all_iff)
  have su: "up_sound r" if "r \<in> set ?u" for r using that assms(2) by (simp add: list_all_iff)
  have "list_all down_ok ds" "list_all up_ok us" using assms(1,2) by (simp_all add: list_all_iff down_sound_def up_sound_def)
  then have parsed: "parse_surfboard_hnap (hnap_text hd_locked down_cells ds) (hnap_text hu_locked up_cells us) = Inr (L, [])"
    unfolding L_def by (rule hnap_read)
  have lists: "raw_lists (analysis_input L) = ((map (\<lambda>r. as_raw (snd (down_channel r))) (filter (\<lambda>r. \<not> fst (down_channel r)) ?d),
      map (\<lambda>r. as_raw (snd (down_channel r))) (filter (\<lambda>r. fst (down_channel r)) ?d)),
     (map (\<lambda>r. as_raw (snd (up_channel r))) (filter (\<lambda>r. \<not> fst (up_channel r)) ?u),
      map (\<lambda>r. as_raw (snd (up_channel r))) (filter (\<lambda>r. fst (up_channel r)) ?u)))"
    unfolding analysis_input_def L_def docsis_split_def split_lanes_map by (simp add: comp_def)
  have "data_ok (analysis_input L)" unfolding data_ok_def lists using sd su down_raw_ok up_raw_ok by (auto simp: list_all_iff)
  from analyze_returns [OF this assms(3)] obtain a where a: "analyze t (analysis_input L) = Inr a" by blast
  note kept = channels_kept [OF a, unfolded lists fst_conv snd_conv map_map comp_def]
  have "mset (map report (an_ds a)) = mset (map down_report ?d)"
    by (rule reports_of_rows [OF conjunct1 [OF kept]]) (use sd down_reported in \<open>auto simp: down_sound_def\<close>)
  moreover have "mset (map report (an_us a)) = mset (map up_report ?u)"
    by (rule reports_of_rows [OF conjunct1 [OF conjunct2 [OF kept]]]) (use su up_reported in \<open>auto simp: up_sound_def\<close>)
  ultimately show ?thesis using parsed a by blast
qed

lemma surfboard_rows_are_analyzed_witness:
  "\<exists>L a. parse_surfboard_hnap (hnap_text hd_locked down_cells [sample_down]) (hnap_text hu_locked up_cells [sample_up]) = Inr (L, [])
    \<and> analyze FALLBACK_THRESHOLDS (analysis_input L) = Inr a \<and> map report (an_ds a) = [down_report sample_down] \<and> an_us a = []"
proof -
  have p: "plain_digits ''1''" "plain_digits ''5''" "plain_digits ''40''" "plain_digits ''0''" "plain_digits ''41''" by code_simp+
  have st: "py_strip ''1.5'' = ''1.5''" "py_strip ''40.0'' = ''40.0''" "py_strip '' 41.0'' = ''41.0''" by code_simp+
  have v: "digits_val ''15'' = 15" "digits_val ''400'' = 400" "digits_val ''410'' = 410" by (simp_all add: digits_val_def digit_val_def)
  have l: "level ''1.5'' = f64_of (15 / 10)" "level ''40.0'' = f64_of 40" "level '' 41.0'' = f64_of 41"
    using parse_float_point [OF p(1,2)] parse_float_point [OF p(3,4)] parse_float_point [OF p(5,4)] st v
    by (simp_all add: level_def)
  have f: "f64_of (15 / 10) = Fin (fl (15 / 10))" "f64_of 40 = Fin (fl 40)" "f64_of 41 = Fin (fl 41)" by (rule f64_of_bounded; simp)+
  have "list_all down_sound [sample_down]" "list_all up_sound [sample_up]"
    using sample_ok l f by (simp_all add: down_sound_def up_sound_def) (simp_all add: sample_down_def sample_up_def)
  moreover have "0 < min_codewords (get_uncorr_thresholds FALLBACK_THRESHOLDS)"
    by (simp add: get_uncorr_thresholds_def FALLBACK_THRESHOLDS_def get_or_def)
  ultimately have "\<exists>L a. parse_surfboard_hnap (hnap_text hd_locked down_cells [sample_down]) (hnap_text hu_locked up_cells [sample_up]) = Inr (L, [])
    \<and> analyze FALLBACK_THRESHOLDS (analysis_input L) = Inr a
    \<and> mset (map report (an_ds a)) = mset (map down_report (filter hd_locked [sample_down]))
    \<and> mset (map report (an_us a)) = mset (map up_report (filter hu_locked [sample_up]))"
    by (rule surfboard_rows_are_analyzed)
  moreover have "filter hd_locked [sample_down] = [sample_down]" "filter hu_locked [sample_up] = []"
    by (simp_all add: sample_down_def sample_up_def)
  ultimately obtain L a where r: "parse_surfboard_hnap (hnap_text hd_locked down_cells [sample_down]) (hnap_text hu_locked up_cells [sample_up]) = Inr (L, [])"
      "analyze FALLBACK_THRESHOLDS (analysis_input L) = Inr a" "mset (map report (an_ds a)) = {#down_report sample_down#}" "an_us a = []"
    by auto
  from r(3) have "map report (an_ds a) = [down_report sample_down]" by (simp only: mset_single_iff)
  with r(1,2,4) show ?thesis by (intro exI [of _ L] exI [of _ a] conjI)
qed

end
