(* ===== verification/Format_Sercom.thy ===== *)
theory Format_Sercom
  imports Format_Values
begin

text \<open>
  \<^verbatim>\<open>app/drivers/formats/sercom.py\<close>: the rows of the Sercom DM1000.  OFDMA data arrives with one row
  per quantity and one column per channel, which is pivoted first.
\<close>

definition sercom_issue :: "string \<Rightarrow> string option \<Rightarrow> string \<Rightarrow> nat \<Rightarrow> parse_diagnostic" where
  "sercom_issue direction field code i = \<lparr>pd_family = ''sercom'', pd_profile = ''sercom_dm1000_json'', pd_code = code,
     pd_direction = Some direction, pd_index = Some i, pd_field = field\<rparr>"

definition invalid_sercom :: "string \<Rightarrow> nat \<Rightarrow> parse_diagnostic" where
  "invalid_sercom direction = sercom_issue direction None ''invalid_row''"

definition no_modulation :: "string \<Rightarrow> bool" where
  "no_modulation m \<longleftrightarrow> m \<in> {[], ''QAM_NONE'', ''NONE''}"

definition upper_text :: "(json \<Rightarrow> string) \<Rightarrow> json \<Rightarrow> string" where
  "upper_text show v = py_upper (py_strip (j_str show v))"

section \<open>Downstream\<close>

definition sercom_ds_scqam_row :: "(json \<Rightarrow> string) \<Rightarrow> nat \<Rightarrow> json \<Rightarrow> driver_channel list parse_result res" where
  "sercom_ds_scqam_row show i row = or_diagnose (invalid_sercom ''downstream'' i)
     (res_bind (row_get row ''qamD'' (JStr [])) (\<lambda>m.
        let modulation = normalize_modulation show m; d = payload_dict row in
        if no_modulation modulation then Inr ([], [])
        else
          res_bind (float_item d ''SNRD'') (\<lambda>snr.
          res_bind (int_item d ''DCIDD'') (\<lambda>channel_id.
          res_bind (hz_to_mhz show (dict_get d ''FreqD'' (JStr []))) (\<lambda>frequency.
          res_bind (float_item d ''PowerD'') (\<lambda>pwr.
          res_bind (int_item d ''correctedsD'') (\<lambda>corrected.
          res_bind (int_item d ''uncorrectedsD'') (\<lambda>uncorrected.
            Inr ([[(''channelID'', JInt channel_id), (''frequency'', JStr frequency), (''powerLevel'', JFloat pwr),
              (''modulation'', JStr modulation), (''mer'', JFloat snr), (''mse'', JFloat (f_neg snr)),
              (''corrErrors'', JInt corrected), (''nonCorrErrors'', JInt uncorrected)]], [])))))))))"

text \<open>The two state checks stand outside the guard: a row that is no dictionary raises.\<close>

definition sercom_ds_ofdm_row :: "(json \<Rightarrow> string) \<Rightarrow> nat \<Rightarrow> json \<Rightarrow> driver_channel list parse_result res" where
  "sercom_ds_ofdm_row show i row =
     res_bind (row_get row ''PLC'' (JStr [])) (\<lambda>plc.
       let d = payload_dict row in
       if upper_text show plc \<noteq> ''YES'' then Inr ([], [])
       else if upper_text show (dict_get d ''MDC1'' (JStr [])) \<noteq> ''YES'' then Inr ([], [])
       else or_diagnose (invalid_sercom ''downstream'' i)
         (case (case parse_optional_finite_float show (j_get d ''AV_Data'') of
                  None \<Rightarrow> parse_optional_finite_float show (j_get d ''AV_PLC'') | Some x \<Rightarrow> Some x) of
            None \<Rightarrow> Inr ([], [])
          | Some mer \<Rightarrow>
              res_bind (int_item d ''num'') (\<lambda>channel_id.
              res_bind (hz_to_mhz show (dict_get d ''OFDMFreq'' (JStr []))) (\<lambda>frequency.
              res_bind (float_item d ''PLC_power'') (\<lambda>pwr.
                Inr ([[(''channelID'', JInt channel_id), (''type'', JStr ''OFDM''), (''frequency'', JStr frequency),
                  (''powerLevel'', JFloat pwr), (''modulation'', JStr ''OFDM''), (''mer'', JFloat mer), (''mse'', JNull),
                  (''corrErrors'', JNull), (''nonCorrErrors'', JNull)]], []))))))"

section \<open>Upstream\<close>

text \<open>\<^verbatim>\<open>int(round(number * 1000))\<close> when the product is finite.\<close>

definition symbol_rate :: "(json \<Rightarrow> string) \<Rightarrow> json \<Rightarrow> int option res" where
  "symbol_rate show v =
     (case parse_optional_finite_float show v of
        None \<Rightarrow> Inr None
      | Some number \<Rightarrow> (case f_scale 1000 number of Fin y \<Rightarrow> Inr (Some (rne y)) | _ \<Rightarrow> Inl OverflowError))"

definition sercom_us_scqam_row :: "(json \<Rightarrow> string) \<Rightarrow> nat \<Rightarrow> json \<Rightarrow> driver_channel list parse_result res" where
  "sercom_us_scqam_row show i row = or_diagnose (invalid_sercom ''upstream'' i)
     (res_bind (row_get row ''modulation'' (JStr [])) (\<lambda>m.
        let modulation = normalize_modulation show m; d = payload_dict row;
            upstream = py_strip (j_str show (dict_get d ''upstream'' (JStr [])));
            rate = py_strip (j_str show (dict_get d ''rate'' (JStr []))) in
        res_bind (float_item d ''rep_power'') (\<lambda>pwr.
          if no_modulation modulation \<or> upstream \<in> {[], ''---''} \<or> \<not> finite_f pwr \<or> py_lower rate = ''invalid''
          then Inr ([], [])
          else
            res_bind (j_int (JStr upstream)) (\<lambda>channel_id.
            res_bind (hz_to_mhz show (dict_get d ''Freq'' (JStr []))) (\<lambda>frequency.
            res_bind (symbol_rate show (JStr rate)) (\<lambda>sr.
              Inr ([[(''channelID'', JInt channel_id), (''frequency'', JStr frequency), (''powerLevel'', JFloat pwr),
                (''modulation'', JStr modulation), (''multiplex'', JStr ''ATDMA'')]
                @ (case sr of None \<Rightarrow> [] | Some n \<Rightarrow> [(''symbolRate'', JInt n)])], [])))))))"

text \<open>\<^verbatim>\<open>name.removeprefix("index")\<close> read as a number, 0 where it is none.\<close>

definition index_sort_key :: "string \<Rightarrow> int" where
  "index_sort_key name =
     (case parse_int (if py_startswith name ''index'' then drop 5 name else name) of None \<Rightarrow> 0 | Some n \<Rightarrow> n)"

type_synonym pivot = "(string \<times> (string \<times> json) list) list"

definition pivot_entry :: "string \<Rightarrow> string \<times> json \<Rightarrow> pivot \<Rightarrow> pivot" where
  "pivot_entry name e p =
     (if py_startswith (fst e) ''index'' then dict_set (fst e) (dict_set name (snd e) (dict_get p (fst e) [])) p else p)"

definition row_name :: "(json \<Rightarrow> string) \<Rightarrow> (string \<times> json) list \<Rightarrow> string" where
  "row_name show row = (let v = j_get row ''name'' in py_strip (j_str show (if j_truthy v then v else JStr [])))"

definition pivot_row :: "(json \<Rightarrow> string) \<Rightarrow> (string \<times> json) list \<Rightarrow> pivot \<Rightarrow> pivot" where
  "pivot_row show row p = (if row_name show row = [] then p else fold (pivot_entry (row_name show row)) row p)"

definition as_dict :: "json \<Rightarrow> (string \<times> json) list res" where
  "as_dict v = (case v of JDict d \<Rightarrow> Inr d | _ \<Rightarrow> Inl AttributeError)"

definition pivoted :: "(json \<Rightarrow> string) \<Rightarrow> (string \<times> json) list list \<Rightarrow> pivot" where
  "pivoted show rows = fold (pivot_row show) rows []"

definition pivot_sercom_indexed_rows :: "(json \<Rightarrow> string) \<Rightarrow> json list \<Rightarrow> (string \<times> json) list list res" where
  "pivot_sercom_indexed_rows show rows =
     map_sum id (\<lambda>ds. let p = pivoted show ds in map (\<lambda>k. dict_get p k []) (sort_key index_sort_key (dict_keys p)))
       (mapM_res as_dict rows)"

definition sercom_profile :: "(json \<Rightarrow> string) \<Rightarrow> json \<Rightarrow> string option res" where
  "sercom_profile show v =
     (case parse_float (py_strip (j_str show v)) of
        None \<Rightarrow> Inr None
      | Some x \<Rightarrow>
     (case py_int (PFloat x) of
        Inl e \<Rightarrow> (if value_error e then Inr None else Inl e)
      | Inr bits \<Rightarrow>
          Inr (if bits = 2 then Some ''QPSK''
               else if bits \<le> 0 \<or> 12 < bits then None
               else Some (int_str (2 ^ nat bits) @ ''QAM''))))"

definition sercom_us_ofdma_row :: "(json \<Rightarrow> string) \<Rightarrow> nat \<Rightarrow> (string \<times> json) list \<Rightarrow> driver_channel list parse_result res" where
  "sercom_us_ofdma_row show i column =
     (let state = upper_text show (dict_get column ''STATE'' (JStr []));
          frequency_value = j_get column ''Center Freq SC0'' in
      if upper_text show (dict_get column ''Power'' (JStr [])) \<noteq> ''ON'' \<or> state \<in> {[], ''DISABLED'', ''OFF''} then Inr ([], [])
      else case parse_optional_finite_float show frequency_value of
        None \<Rightarrow> Inr ([], [])
      | Some f \<Rightarrow>
          if f_le f (Fin 0) then Inr ([], [])
          else
            (let pwr = (case map_of column ''rep power1_6'' of None \<Rightarrow> None | Some v \<Rightarrow> parse_optional_finite_float show v);
                 missing = (if map_of column ''rep power1_6'' = None
                   then [sercom_issue ''upstream'' (Some ''rep power1_6'') ''missing_field'' i] else []) in
             map_sum id (\<lambda>(cs, ds). (cs, missing @ ds)) (or_diagnose (invalid_sercom ''upstream'' i)
               (res_bind (j_int (JStr (py_strip (j_str show (dict_get column ''CH'' (JStr [])))))) (\<lambda>channel_id.
                res_bind (hz_to_mhz show frequency_value) (\<lambda>frequency.
                res_bind (sercom_profile show (j_get column ''bit Loading'')) (\<lambda>profile.
                  Inr ([[(''channelID'', JInt channel_id), (''type'', JStr ''OFDMA''), (''frequency'', JStr frequency),
                    (''powerLevel'', case pwr of None \<Rightarrow> JNull | Some x \<Rightarrow> JFloat x),
                    (''modulation'', JStr ''OFDMA''), (''multiplex'', JStr ''OFDMA'')]
                    @ (case profile of None \<Rightarrow> [] | Some m \<Rightarrow> [(''profile_modulation'', JStr m)])], []))))))))"

definition parse_sercom_dm1000_json :: "(json \<Rightarrow> string) \<Rightarrow> json \<Rightarrow> docsis_lanes parse_result res" where
  "parse_sercom_dm1000_json show payload =
     (let data = payload_dict payload; rows = (\<lambda>k. iter_rows (dict_get data k (JList []))) in
      res_bind (res_bind (rows ''downstream'') (parse_rows (sercom_ds_scqam_row show) 0)) (\<lambda>a.
      res_bind (res_bind (rows ''downstream_ofdm'') (parse_rows (sercom_ds_ofdm_row show) 0)) (\<lambda>b.
      res_bind (res_bind (rows ''upstream'') (parse_rows (sercom_us_scqam_row show) 0)) (\<lambda>c.
      res_bind (res_bind (res_bind (rows ''upstream_ofdma'') (pivot_sercom_indexed_rows show))
        (parse_rows (sercom_us_ofdma_row show) 0)) (\<lambda>d.
        Inr (docsis_result a b c d))))))"

section \<open>The pivot\<close>

definition pivot_cell :: "pivot \<Rightarrow> string \<Rightarrow> string \<Rightarrow> json option" where
  "pivot_cell p k n = map_of (dict_get p k []) n"

definition indexed :: "string \<Rightarrow> bool" where "indexed k \<longleftrightarrow> py_startswith k ''index''"

lemma pivot_cell_entry:
  "pivot_cell (pivot_entry name e p) k n = (if indexed k \<and> k = fst e \<and> n = name then Some (snd e) else pivot_cell p k n)"
  by (auto simp: pivot_cell_def pivot_entry_def indexed_def dict_get_def)

lemma pivot_cell_entries:
  assumes "distinct (dict_keys row)"
  shows "pivot_cell (fold (pivot_entry name) row p) k n
    = (if indexed k \<and> n = name \<and> map_of row k \<noteq> None then map_of row k else pivot_cell p k n)"
  using assms
proof (induction row arbitrary: p)
  case (Cons e row)
  then have "map_of row (fst e) = None" by (simp add: map_of_eq_None_iff)
  with Cons show ?case by (cases e) (auto simp: pivot_cell_entry)
qed simp

lemma pivot_keys_entries: "set (dict_keys (fold (pivot_entry name) row p)) = set (dict_keys p) \<union> {k \<in> set (dict_keys row). indexed k}"
  by (induction row arbitrary: p) (auto simp: pivot_entry_def indexed_def simp del: set_map)

lemma pivot_distinct_entries: "distinct (dict_keys p) \<Longrightarrow> distinct (dict_keys (fold (pivot_entry name) row p))"
  by (induction row arbitrary: p) (simp_all add: pivot_entry_def)

text \<open>The value of the last row of a name in a column.\<close>

definition column_value :: "(json \<Rightarrow> string) \<Rightarrow> (string \<times> json) list list \<Rightarrow> string \<Rightarrow> string \<Rightarrow> json option" where
  "column_value show ds k n =
     (case filter (\<lambda>d. row_name show d = n \<and> map_of d k \<noteq> None) (rev ds) of [] \<Rightarrow> None | d # _ \<Rightarrow> map_of d k)"

definition column_names :: "(json \<Rightarrow> string) \<Rightarrow> (string \<times> json) list list \<Rightarrow> string set" where
  "column_names show ds = {k. indexed k \<and> (\<exists>d \<in> set ds. row_name show d \<noteq> [] \<and> k \<in> set (dict_keys d))}"

lemma pivoted_facts:
  assumes "\<forall>d \<in> set ds. distinct (dict_keys d)"
  shows "distinct (dict_keys (pivoted show ds)) \<and> set (dict_keys (pivoted show ds)) = column_names show ds
    \<and> (indexed k \<longrightarrow> n \<noteq> [] \<longrightarrow> pivot_cell (pivoted show ds) k n = column_value show ds k n)"
  using assms
proof (induction ds rule: rev_induct)
  case Nil
  show ?case by (simp add: pivoted_def column_names_def pivot_cell_def column_value_def dict_get_def)
next
  case (snoc d ds)
  let ?p = "pivoted show ds"
  have p: "pivoted show (ds @ [d]) = pivot_row show d ?p" by (simp add: pivoted_def)
  have IH: "distinct (dict_keys ?p)" "set (dict_keys ?p) = column_names show ds"
    "indexed k \<Longrightarrow> n \<noteq> [] \<Longrightarrow> pivot_cell ?p k n = column_value show ds k n" using snoc by auto
  have "distinct (dict_keys (pivot_row show d ?p))" using IH(1) by (simp add: pivot_row_def pivot_distinct_entries)
  moreover have "set (dict_keys (pivot_row show d ?p)) = column_names show (ds @ [d])"
    using IH(2) by (auto simp: pivot_row_def pivot_keys_entries column_names_def simp del: set_map)
  moreover have "pivot_cell (pivot_row show d ?p) k n = column_value show (ds @ [d]) k n" if "indexed k" "n \<noteq> []"
    using IH(3) [OF that] that snoc.prems pivot_cell_entries [of d "row_name show d" ?p k n]
    by (auto simp: pivot_row_def column_value_def)
  ultimately show ?case by (simp add: p)
qed

text \<open>
  C40. The pivot transposes: the columns of the OFDMA table come out once each, in the order of their
  numbers, and a column holds under every name the value the last row of that name has in it.
\<close>

theorem pivot_transposes:
  assumes "\<forall>d \<in> set ds. distinct (dict_keys d)"
  shows "\<exists>ks cols. pivot_sercom_indexed_rows show (map JDict ds) = Inr cols \<and> distinct ks \<and> set ks = column_names show ds
    \<and> sorted (map index_sort_key ks)
    \<and> list_all2 (\<lambda>k col. \<forall>n. n \<noteq> [] \<longrightarrow> map_of col n = column_value show ds k n) ks cols"
proof -
  let ?p = "pivoted show ds"
  let ?ks = "sort_key index_sort_key (dict_keys ?p)" and ?col = "\<lambda>k. dict_get ?p k []"
  note f = pivoted_facts [OF assms, of "show"]
  have "mapM_res as_dict (map JDict ds) = Inr ds" by (induction ds) (simp_all add: as_dict_def)
  then have "pivot_sercom_indexed_rows show (map JDict ds) = Inr (map ?col ?ks)"
    by (simp add: pivot_sercom_indexed_rows_def Let_def)
  moreover have "map_of (?col k) n = column_value show ds k n" if "k \<in> set ?ks" "n \<noteq> []" for k n
  proof -
    have "indexed k" using that(1) f by (auto simp: column_names_def simp del: set_map)
    with f that(2) show ?thesis unfolding pivot_cell_def by blast
  qed
  then have "list_all2 (\<lambda>k col. \<forall>n. n \<noteq> [] \<longrightarrow> map_of col n = column_value show ds k n) ?ks (map ?col ?ks)"
    by (auto simp: list_all2_map2 list_all2_same)
  moreover have "distinct ?ks" "set ?ks = column_names show ds" "sorted (map index_sort_key ?ks)" using f by auto
  ultimately show ?thesis by blast
qed

definition sample_columns :: "(string \<times> json) list list" where
  "sample_columns = [[(''name'', JStr ''CH''), (''index10'', JInt 6), (''index9'', JInt 5)], [(''name'', JStr ''STATE''), (''index9'', JStr ''OPERATE'')]]"

lemma pivot_transposes_witness:
  "\<exists>cols. pivot_sercom_indexed_rows (\<lambda>v. []) (map JDict sample_columns) = Inr cols \<and> length cols = 2"
proof -
  have d: "\<forall>d \<in> set sample_columns. distinct (dict_keys d)" by (simp add: sample_columns_def)
  have n: "row_name (\<lambda>v. []) [(''name'', JStr ''CH''), (''index10'', JInt 6), (''index9'', JInt 5)] = ''CH''"
    "row_name (\<lambda>v. []) [(''name'', JStr ''STATE''), (''index9'', JStr ''OPERATE'')] = ''STATE''" by code_simp+
  have "column_names (\<lambda>v. []) sample_columns = {''index10'', ''index9''}"
    unfolding column_names_def sample_columns_def using n by (auto simp: indexed_def)
  with pivot_transposes [OF d, of "\<lambda>v. []"] obtain ks cols where
    r: "pivot_sercom_indexed_rows (\<lambda>v. []) (map JDict sample_columns) = Inr cols" "distinct ks" "set ks = {''index10'', ''index9''}"
      "length ks = length cols" by (auto dest: list_all2_lengthD)
  from r(2,3) distinct_card [of ks] have "length ks = 2" by simp
  with r show ?thesis by auto
qed

end
