(* ===== verification/Format_Hitron.thy ===== *)
theory Format_Hitron
  imports Format_Values
begin

text \<open>
  \<^verbatim>\<open>app/drivers/formats/hitron.py\<close>: the JSON rows of the Hitron CODA-56 and CODA-4680, whose field names
  agree and whose modulations, multiplexes and OFDM rows do not.
\<close>

definition CODA56_MODULATION :: "(int \<times> string) list" where
  "CODA56_MODULATION = [(0, ''16QAM''), (1, ''64QAM''), (2, ''256QAM''), (3, ''1024QAM''), (4, ''32QAM''), (5, ''128QAM''), (6, ''QPSK'')]"

definition hitron_issue :: "string \<Rightarrow> string \<Rightarrow> string \<Rightarrow> string option \<Rightarrow> nat \<Rightarrow> parse_diagnostic" where
  "hitron_issue profile direction code field i = \<lparr>pd_family = ''hitron'', pd_profile = profile, pd_code = code,
     pd_direction = Some direction, pd_index = Some i, pd_field = field\<rparr>"

definition invalid_hitron :: "string \<Rightarrow> string \<Rightarrow> nat \<Rightarrow> parse_diagnostic" where
  "invalid_hitron profile direction = hitron_issue profile direction ''invalid_row'' None"

definition hitron_rows :: "string \<Rightarrow> string \<Rightarrow> ((string \<times> json) list \<Rightarrow> driver_channel res) \<Rightarrow> ((string \<times> json) list \<Rightarrow> bool)
    \<Rightarrow> nat \<Rightarrow> json \<Rightarrow> driver_channel list parse_result res" where
  "hitron_rows profile direction build active i row =
     (case row of
        JDict d \<Rightarrow> if \<not> active d then Inr ([], [])
          else or_diagnose (invalid_hitron profile direction i) (map_sum id (\<lambda>c. ([c], [])) (build d))
      | _ \<Rightarrow> Inr ([], [invalid_hitron profile direction i]))"

definition is_plc_locked :: "(json \<Rightarrow> string) \<Rightarrow> (string \<times> json) list \<Rightarrow> bool" where
  "is_plc_locked show d \<longleftrightarrow> py_upper (py_strip (j_str show (dict_get d ''plclock'' (JStr [])))) = ''YES''"

section \<open>CODA-56\<close>

definition coda56_ds_scqam :: "(json \<Rightarrow> string) \<Rightarrow> (string \<times> json) list \<Rightarrow> driver_channel res" where
  "coda56_ds_scqam show d =
     res_bind (j_int (dict_get d ''modulation'' (JInt (-1)))) (\<lambda>code.
     res_bind (float_item d ''snr'') (\<lambda>snr.
     res_bind (int_item d ''channelId'') (\<lambda>channel_id.
     res_bind (res_bind (row_item d ''frequency'') (hz_to_mhz show)) (\<lambda>frequency.
     res_bind (float_item d ''signalStrength'') (\<lambda>pwr.
     res_bind (int_item d ''correcteds'') (\<lambda>corrected.
     res_bind (int_item d ''uncorrect'') (\<lambda>uncorrected.
       Inr [(''channelID'', JInt channel_id), (''frequency'', JStr frequency), (''powerLevel'', JFloat pwr),
         (''modulation'', JStr (dict_get CODA56_MODULATION code (''Unknown('' @ int_str code @ '')''))),
         (''mer'', JFloat snr), (''mse'', JFloat (f_neg snr)),
         (''corrErrors'', JInt corrected), (''nonCorrErrors'', JInt uncorrected)])))))))"

definition coda56_us_scqam :: "(json \<Rightarrow> string) \<Rightarrow> (string \<times> json) list \<Rightarrow> driver_channel res" where
  "coda56_us_scqam show d =
     res_bind (int_item d ''channelId'') (\<lambda>channel_id.
     res_bind (res_bind (row_item d ''frequency'') (hz_to_mhz show)) (\<lambda>frequency.
     res_bind (float_item d ''signalStrength'') (\<lambda>pwr.
       Inr [(''channelID'', JInt channel_id), (''frequency'', JStr frequency), (''powerLevel'', JFloat pwr),
         (''modulation'', dict_get d ''modtype'' (JStr [])), (''multiplex'', dict_get d ''scdmaMode'' (JStr []))])))"

definition coda56_ds_ofdm :: "(json \<Rightarrow> string) \<Rightarrow> (string \<times> json) list \<Rightarrow> driver_channel res" where
  "coda56_ds_ofdm show d =
     res_bind (int_item d ''receive'') (\<lambda>channel_id.
     res_bind (hz_to_mhz show (dict_get d ''Subcarr0freqFreq'' (JStr ''0''))) (\<lambda>frequency.
     res_bind (float_item d ''plcpower'') (\<lambda>pwr.
     res_bind (float_item d ''SNR'') (\<lambda>snr.
     res_bind (int_item d ''correcteds'') (\<lambda>corrected.
     res_bind (int_item d ''uncorrect'') (\<lambda>uncorrected.
       Inr [(''channelID'', JInt channel_id), (''type'', JStr ''OFDM''), (''frequency'', JStr frequency),
         (''powerLevel'', JFloat pwr), (''modulation'', JStr ''OFDM''), (''mer'', JFloat snr), (''mse'', JNull),
         (''corrErrors'', JInt corrected), (''nonCorrErrors'', JInt uncorrected)]))))))"

text \<open>A row of the upstream OFDMA tables; the models differ in frequency and multiplex.\<close>

definition hitron_ofdma_row :: "string \<Rightarrow> (json \<Rightarrow> string) \<Rightarrow> ((string \<times> json) list \<Rightarrow> string res) \<Rightarrow> string
    \<Rightarrow> nat \<Rightarrow> json \<Rightarrow> driver_channel list parse_result res" where
  "hitron_ofdma_row profile show freq multiplex i row =
     res_bind (row_get row ''state'' (JStr [])) (\<lambda>st.
       let d = payload_dict row in
       if py_upper (py_strip (j_str show st)) \<noteq> ''OPERATE'' then Inr ([], [])
       else
         (let pwr = (case map_of d ''repPower1_6'' of None \<Rightarrow> None | Some v \<Rightarrow> parse_optional_finite_float show v);
              missing = (if map_of d ''repPower1_6'' = None
                then [hitron_issue profile ''upstream'' ''missing_field'' (Some ''repPower1_6'') i] else []) in
          map_sum id (\<lambda>(cs, ds). (cs, missing @ ds)) (or_diagnose (invalid_hitron profile ''upstream'' i)
            (res_bind (int_item d ''uschindex'') (\<lambda>channel_id.
             res_bind (freq d) (\<lambda>frequency.
               Inr ([[(''channelID'', JInt channel_id), (''type'', JStr ''OFDMA''), (''frequency'', JStr frequency),
                 (''powerLevel'', case pwr of None \<Rightarrow> JNull | Some x \<Rightarrow> JFloat x),
                 (''modulation'', JStr ''OFDMA''), (''multiplex'', JStr multiplex)]], [])))))))"

abbreviation all_rows :: "(string \<times> json) list \<Rightarrow> bool" where "all_rows \<equiv> (\<lambda>d. True)"

definition parse_hitron_coda56_json :: "(json \<Rightarrow> string) \<Rightarrow> json \<Rightarrow> docsis_lanes parse_result res" where
  "parse_hitron_coda56_json show payload =
     (let data = payload_dict payload; P = ''hitron_coda56_json'';
          lane = (\<lambda>k step. res_bind (iter_rows (dict_get data k (JList []))) (parse_rows step 0)) in
      res_bind (lane ''downstream'' (hitron_rows P ''downstream'' (coda56_ds_scqam show) all_rows)) (\<lambda>a.
      res_bind (lane ''downstream_ofdm'' (hitron_rows P ''downstream'' (coda56_ds_ofdm show) (is_plc_locked show))) (\<lambda>b.
      res_bind (lane ''upstream'' (hitron_rows P ''upstream'' (coda56_us_scqam show) all_rows)) (\<lambda>c.
      res_bind (lane ''upstream_ofdma''
        (hitron_ofdma_row P show (\<lambda>d. hz_to_mhz show (dict_get d ''frequency'' (JStr ''0''))) [])) (\<lambda>e.
        Inr (docsis_result a b c e))))))"

section \<open>CODA-4680\<close>

definition coda4680_ds_scqam :: "(json \<Rightarrow> string) \<Rightarrow> (string \<times> json) list \<Rightarrow> driver_channel res" where
  "coda4680_ds_scqam show d =
     res_bind (float_item d ''snr'') (\<lambda>snr.
     res_bind (int_item d ''channelId'') (\<lambda>channel_id.
     res_bind (res_bind (row_item d ''frequency'') (hz_to_mhz show)) (\<lambda>frequency.
     res_bind (float_item d ''signalStrength'') (\<lambda>pwr.
     res_bind (int_item d ''correcteds'') (\<lambda>corrected.
     res_bind (int_item d ''uncorrect'') (\<lambda>uncorrected.
       Inr [(''channelID'', JInt channel_id), (''frequency'', JStr frequency), (''powerLevel'', JFloat pwr),
         (''modulation'', JStr (normalize_modulation show (dict_get d ''modulation'' (JStr [])))),
         (''mer'', JFloat snr), (''mse'', JFloat (f_neg snr)),
         (''corrErrors'', JInt corrected), (''nonCorrErrors'', JInt uncorrected)]))))))"

text \<open>\<^verbatim>\<open>a or b\<close> of two values.\<close>

definition j_or :: "json \<Rightarrow> json \<Rightarrow> json" where "j_or a b = (if j_truthy a then a else b)"

definition coda4680_us_scqam :: "(json \<Rightarrow> string) \<Rightarrow> (string \<times> json) list \<Rightarrow> driver_channel res" where
  "coda4680_us_scqam show d =
     (let modulation = normalize_modulation show (j_or (j_get d ''modulationType'') (j_or (j_get d ''modtype'') (JStr []))) in
      res_bind (int_item d ''channelId'') (\<lambda>channel_id.
      res_bind (res_bind (row_item d ''frequency'') (hz_to_mhz show)) (\<lambda>frequency.
      res_bind (float_item d ''signalStrength'') (\<lambda>pwr.
      res_bind (if j_get d ''symbolrate'' = JNull then Inr []
                else map_sum id (\<lambda>n. [(''symbolRate'', JInt n)]) (int_item d ''symbolrate'')) (\<lambda>rate.
        Inr ([(''channelID'', JInt channel_id), (''frequency'', JStr frequency), (''powerLevel'', JFloat pwr),
          (''modulation'', JStr modulation), (''multiplex'', JStr ''ATDMA'')] @ rate))))))"

definition coda4680_ds_ofdm :: "(json \<Rightarrow> string) \<Rightarrow> (string \<times> json) list \<Rightarrow> driver_channel res" where
  "coda4680_ds_ofdm show d =
     res_bind (int_item d ''receive'') (\<lambda>channel_id.
     res_bind (hz_to_mhz show (dict_get d ''Subcarr0freqFreq'' (JStr []))) (\<lambda>frequency.
     res_bind (float_item d ''plcpower'') (\<lambda>pwr.
       Inr [(''channelID'', JInt channel_id), (''type'', JStr ''OFDM''), (''frequency'', JStr frequency),
         (''powerLevel'', JFloat pwr), (''modulation'', JStr ''OFDM''), (''mer'', JNull), (''mse'', JNull),
         (''corrErrors'', JNull), (''nonCorrErrors'', JNull)])))"

definition parse_hitron_coda4680_json :: "(json \<Rightarrow> string) \<Rightarrow> json \<Rightarrow> docsis_lanes parse_result res" where
  "parse_hitron_coda4680_json show payload =
     (let data = payload_dict payload; P = ''hitron_coda4680_json'';
          lane = (\<lambda>k l step. res_bind (row_get (dict_get data k (JDict [])) l (JList []))
            (\<lambda>rows. res_bind (iter_rows rows) (parse_rows step 0))) in
      res_bind (lane ''downstream'' ''Freq_List'' (hitron_rows P ''downstream'' (coda4680_ds_scqam show) all_rows)) (\<lambda>a.
      res_bind (lane ''downstream_ofdm'' ''OFDMs_List'' (hitron_rows P ''downstream'' (coda4680_ds_ofdm show) (is_plc_locked show))) (\<lambda>b.
      res_bind (lane ''upstream'' ''Freq_List'' (hitron_rows P ''upstream'' (coda4680_us_scqam show) all_rows)) (\<lambda>c.
      res_bind (lane ''upstream_ofdma'' ''OFDMAs_List'' (hitron_ofdma_row P show (\<lambda>d. Inr []) ''OFDMA'')) (\<lambda>e.
        Inr (docsis_result a b c e))))))"

section \<open>What one row can discard\<close>

definition hitron_sample :: "json \<Rightarrow> json" where
  "hitron_sample f = JDict [(''channelId'', JInt 5), (''frequency'', f), (''signalStrength'', JFloat (Fin 1)),
     (''snr'', JFloat (Fin 40)), (''correcteds'', JInt 0), (''uncorrect'', JInt 0)]"

definition hitron_payload :: "json list \<Rightarrow> json" where
  "hitron_payload rows = JDict [(''downstream'', JDict [(''Freq_List'', JList rows)])]"

text \<open>
  One row can discard all rows: a frequency that reads as infinity raises \<^verbatim>\<open>OverflowError\<close>, which the
  guard around a row does not catch, and the channels parsed before are lost with it.
\<close>

theorem infinite_frequency_aborts:
  "(\<exists>c. parse_hitron_coda4680_json (\<lambda>v. []) (hitron_payload [hitron_sample (JInt 602500000)]) = Inr (docsis_split [c] [] [] [], []))
    \<and> parse_hitron_coda4680_json (\<lambda>v. []) (hitron_payload [hitron_sample (JInt 602500000), hitron_sample (JStr ''inf'')]) = Inl OverflowError"
proof -
  have "hz_to_mhz (\<lambda>v. []) (JStr ''inf'') = Inl OverflowError" by code_simp
  moreover have "hz_to_mhz (\<lambda>v. []) (JInt 602500000) = Inr (mhz_decimal 6025 @ '' MHz'')"
  proof -
    have "100000 * int 6025 = 602500000" "(6025 :: nat) \<le> 1000000" by simp_all
    with hz_to_mhz_steps [of 6025 "\<lambda>v. []"] show ?thesis by metis
  qed
  ultimately show ?thesis
    by (simp add: parse_hitron_coda4680_json_def hitron_payload_def hitron_sample_def payload_dict_def dict_get_def hitron_rows_def
        coda4680_ds_scqam_def row_item_def or_diagnose_def docsis_result_def Let_def)
      (simp add: docsis_split_def)
qed

end
