(* ===== verification/Format_Sagemcom.thy ===== *)
theory Format_Sagemcom
  imports Format_Values
begin

text \<open>
  \<^verbatim>\<open>app/drivers/formats/sagemcom.py\<close>, \<^verbatim>\<open>fritzbox.py\<close> and \<^verbatim>\<open>boundaries.py\<close>: the XMO and F3896LG payloads, whose
  values reach the channels as they are, and the correction of the FRITZ!Box.
\<close>

definition sagemcom_issue :: "string \<Rightarrow> string \<Rightarrow> string \<Rightarrow> string option \<Rightarrow> nat \<Rightarrow> parse_diagnostic" where
  "sagemcom_issue profile direction code field i = \<lparr>pd_family = ''sagemcom'', pd_profile = profile, pd_code = code,
     pd_direction = Some direction, pd_index = Some i, pd_field = field\<rparr>"

section \<open>XMO\<close>

abbreviation xmo_issue :: "string \<Rightarrow> nat \<Rightarrow> parse_diagnostic" where
  "xmo_issue direction \<equiv> sagemcom_issue ''sagemcom_xmo_json'' direction ''invalid_channel'' None"

definition sagemcom_frequency :: "(json \<Rightarrow> string) \<Rightarrow> json \<Rightarrow> string res" where
  "sagemcom_frequency show v = (if j_truthy v then hz_to_mhz show v else Inr [])"

definition sagemcom_modulation :: "json \<Rightarrow> string res" where
  "sagemcom_modulation v =
     (if \<not> j_truthy v then Inr []
      else on_str (\<lambda>s. let t = py_strip s in if py_startswith (py_lower t) ''qam'' then drop 3 t @ ''QAM'' else t) v)"

text \<open>\<^verbatim>\<open>v > n\<close> for a value from JSON.\<close>

fun j_above :: "int \<Rightarrow> json \<Rightarrow> bool res" where
  "j_above n (JBool b) = Inr (n < of_bool b)"
| "j_above n (JInt k) = Inr (n < k)"
| "j_above n (JFloat x) = Inr (f_lt (Fin (of_int n)) x)"
| "j_above n v = Inl TypeError"

definition sagemcom_is_ofdm :: "json \<Rightarrow> json \<Rightarrow> bool res" where
  "sagemcom_is_ofdm modulation bandwidth =
     res_bind (if j_truthy bandwidth then j_above 8000000 bandwidth else Inr False) (\<lambda>wide.
       if wide then Inr True
       else if j_truthy modulation then on_str (\<lambda>s. py_startswith s ''256-QAM'') modulation
       else Inr False)"

fun j_is_bool :: "json \<Rightarrow> bool" where
  "j_is_bool (JBool b) = True"
| "j_is_bool v = False"

definition sagemcom_snr :: "json \<Rightarrow> f64 option res" where
  "sagemcom_snr raw_snr = (if j_is_bool raw_snr then Inr None else catch_type_value (map_sum id Some (j_float raw_snr)) None)"

text \<open>The ratio when it is finite and positive, and the flags of a channel without one.\<close>

definition snr_quality :: "f64 option \<Rightarrow> f64 option \<times> driver_channel" where
  "snr_quality snr =
     (case snr of
        None \<Rightarrow> (None, [(''snr_valid'', JBool False)])
      | Some x \<Rightarrow>
          if \<not> finite_f x \<or> f_le x (Fin 0)
          then (None, (''snr_valid'', JBool False) # (if x = Fin 0 then [(''snr_raw'', JFloat (Fin 0))] else []))
          else (Some x, []))"

definition xmo_down_row :: "(json \<Rightarrow> string) \<Rightarrow> nat \<Rightarrow> json \<Rightarrow> (bool \<times> driver_channel) list parse_result res" where
  "xmo_down_row show i row =
     (case row of
        JDict d \<Rightarrow>
          if \<not> j_truthy (dict_get d ''LockStatus'' (JBool False)) then Inr ([], [])
          else or_diagnose (xmo_issue ''downstream'' i)
            (let raw = (\<lambda>k. dict_get d k (JInt 0)); modulation = dict_get d ''Modulation'' (JStr []) in
             res_bind (sagemcom_frequency show (raw ''Frequency'')) (\<lambda>frequency.
             res_bind (sagemcom_snr (j_get d ''SNR'')) (\<lambda>value.
             case snr_quality value of (snr, quality) \<Rightarrow>
             res_bind (sagemcom_is_ofdm modulation (raw ''BandWidth'')) (\<lambda>ofdm.
             let mer = (case snr of None \<Rightarrow> JNull | Some x \<Rightarrow> JFloat x);
                 errors = [(''corrErrors'', raw ''CorrectableCodewords''), (''nonCorrErrors'', raw ''UncorrectableCodewords'')] in
             if ofdm
             then Inr ([(True, [(''channelID'', raw ''ChannelID''), (''type'', JStr ''OFDM''), (''frequency'', JStr frequency),
               (''powerLevel'', raw ''PowerLevel''), (''mer'', mer), (''mse'', JNull)] @ quality @ errors)], [])
             else res_bind (sagemcom_modulation modulation) (\<lambda>m.
               Inr ([(False, [(''channelID'', raw ''ChannelID''), (''frequency'', JStr frequency),
                 (''powerLevel'', raw ''PowerLevel''), (''mer'', mer),
                 (''mse'', case snr of None \<Rightarrow> JNull | Some x \<Rightarrow> JFloat (f_neg x))] @ quality @ (''modulation'', JStr m) # errors)], []))))))
      | _ \<Rightarrow> Inr ([], [xmo_issue ''downstream'' i]))"

text \<open>An upstream modulation that is no text ends the parse without a value.\<close>

fun xmo_up_rows :: "(json \<Rightarrow> string) \<Rightarrow> nat \<Rightarrow> json list \<Rightarrow> (bool \<times> driver_channel) list option parse_result res" where
  "xmo_up_rows show i [] = Inr (Some [], [])"
| "xmo_up_rows show i (row # rows) =
     (let skip = (\<lambda>issues. map_sum id (\<lambda>(cs, ds). (cs, issues @ ds)) (xmo_up_rows show (Suc i) rows)) in
      case row of
        JDict d \<Rightarrow>
          if \<not> j_truthy (dict_get d ''LockStatus'' (JBool False)) then skip []
          else let raw = (\<lambda>k. dict_get d k (JInt 0)) in
            (case sagemcom_frequency show (raw ''Frequency'') of
               Inl e \<Rightarrow> if value_error e then skip [xmo_issue ''upstream'' i] else Inl e
             | Inr frequency \<Rightarrow>
            (case dict_get d ''Modulation'' (JStr []) of
               JStr m \<Rightarrow>
                 let c = (if py_lower m = ''ofdma''
                   then (True, [(''channelID'', raw ''ChannelID''), (''type'', JStr ''OFDMA''), (''frequency'', JStr frequency),
                     (''powerLevel'', raw ''PowerLevel''), (''modulation'', JStr ''OFDMA''), (''multiplex'', JStr [])])
                   else (False, [(''channelID'', raw ''ChannelID''), (''frequency'', JStr frequency),
                     (''powerLevel'', raw ''PowerLevel''), (''modulation'', JStr (py_upper (py_strip m))),
                     (''multiplex'', JStr (py_upper m))]))
                 in map_sum id (\<lambda>(cs, ds). (map_option ((#) c) cs, ds)) (xmo_up_rows show (Suc i) rows)
             | _ \<Rightarrow> Inr (None, [sagemcom_issue ''sagemcom_xmo_json'' ''upstream'' ''invalid_field'' (Some ''Modulation'') i])))
      | _ \<Rightarrow> skip [xmo_issue ''upstream'' i])"

definition parse_sagemcom_xmo_json :: "(json \<Rightarrow> string) \<Rightarrow> json \<Rightarrow> docsis_lanes option parse_result res" where
  "parse_sagemcom_xmo_json show payload =
     (let data = payload_dict payload in
      res_bind (res_bind (iter_rows (dict_get data ''downstream'' (JList []))) (parse_rows (xmo_down_row show) 0)) (\<lambda>(d, di).
      res_bind (res_bind (iter_rows (dict_get data ''upstream'' (JList []))) (xmo_up_rows show 0)) (\<lambda>(u, ui).
        Inr (map_option (\<lambda>cs. docsis_split (fst (split_lanes d)) (snd (split_lanes d)) (fst (split_lanes cs)) (snd (split_lanes cs))) u, di @ ui))))"

section \<open>F3896LG\<close>

text \<open>\<^verbatim>\<open>f"{x:g}"\<close>: six significant digits without trailing zeros.\<close>

definition decimal_exponent :: "rat \<Rightarrow> int" where
  "decimal_exponent a =
     (if 1 \<le> a then int (length (nat_str (nat \<lfloor>a\<rfloor>))) - 1
      else - int (case filter (\<lambda>k. 1 \<le> a * 10 ^ k) [1..<400] of [] \<Rightarrow> 400 | k # _ \<Rightarrow> k))"

definition strip_zeros :: "string \<Rightarrow> string" where
  "strip_zeros s = rev (dropWhile (\<lambda>c. c = CHR ''.'') (rev (rev (dropWhile (\<lambda>c. c = CHR ''0'') (rev s)))))"

definition py_general :: "f64 \<Rightarrow> string" where
  "py_general v =
     (case v of
        Inf \<Rightarrow> ''inf'' | NInf \<Rightarrow> ''-inf'' | NaN \<Rightarrow> ''nan''
      | Fin x \<Rightarrow>
          if x = 0 then ''0''
          else let a = \<bar>x\<bar>; e0 = decimal_exponent a; m0 = rne (a * pow10 (5 - e0));
                   e = (if m0 = 1000000 then e0 + 1 else e0); m = rne (a * pow10 (5 - e));
                   sign = (if x < 0 then ''-'' else []) in
            if -4 \<le> e \<and> e < 6
            then sign @ (if e = 5 then nat_str (nat m) else strip_zeros (py_fixed (nat (5 - e)) (of_int m / pow10 (5 - e))))
            else sign @ strip_zeros (py_fixed 5 (of_int m / 100000)) @ (if e < 0 then ''e-'' else ''e+'')
              @ (if \<bar>e\<bar> < 10 then ''0'' else []) @ nat_str (nat \<bar>e\<bar>))"

definition f3896_frequency :: "json \<Rightarrow> string res" where
  "f3896_frequency v = (if \<not> j_truthy v then Inr [] else map_sum id (\<lambda>x. py_general (per_million x) @ '' MHz'') (j_float v))"

definition f3896_unscale :: "json \<Rightarrow> f64 option res" where
  "f3896_unscale v = (if v = JNull then Inr None else map_sum id (\<lambda>x. Some (f_scale (1 / 10) x)) (j_float v))"

definition f3896_modulation :: "json \<Rightarrow> string res" where
  "f3896_modulation v =
     on_str (\<lambda>s. let raw = py_lower s in if py_startswith raw ''qam_'' then drop 4 raw @ ''QAM'' else py_upper raw)
       (if j_truthy v then v else JStr [])"

abbreviation f3896_issue :: "string \<Rightarrow> string \<Rightarrow> string option \<Rightarrow> nat \<Rightarrow> parse_diagnostic" where
  "f3896_issue \<equiv> sagemcom_issue ''f3896lg_rest_json''"

text \<open>The inner guard of a scaled field: its value or a diagnostic.\<close>

definition scaled_field :: "string \<Rightarrow> string \<Rightarrow> nat \<Rightarrow> json \<Rightarrow> (f64 option \<times> parse_diagnostic list) res" where
  "scaled_field direction field i v =
     (case f3896_unscale v of
        Inl e \<Rightarrow> if value_error e then Inr (None, [f3896_issue direction ''invalid_field'' (Some field) i]) else Inl e
      | Inr x \<Rightarrow> Inr (x, []))"

fun j_neg :: "json \<Rightarrow> json res" where
  "j_neg (JBool b) = Inr (JInt (- of_bool b))"
| "j_neg (JInt n) = Inr (JInt (- n))"
| "j_neg (JFloat x) = Inr (JFloat (f_neg x))"
| "j_neg v = Inl TypeError"

fun hashable :: "json \<Rightarrow> bool" where
  "hashable (JList xs) = False"
| "hashable (JDict d) = False"
| "hashable v = True"

definition opt_float :: "f64 option \<Rightarrow> json" where
  "opt_float x = (case x of None \<Rightarrow> JNull | Some y \<Rightarrow> JFloat y)"

definition f3896_profile :: "(string \<times> json) list \<Rightarrow> driver_channel res" where
  "f3896_profile d = map_sum id (\<lambda>p. if p = [] then [] else [(''profile_modulation'', JStr p)])
     (f3896_modulation (dict_get d ''modulation'' (JStr [])))"

text \<open>A row that is locked and of a known type goes to \<open>build\<close>, which tells what its guard does not catch.\<close>

definition f3896_row :: "string \<Rightarrow> string list \<Rightarrow> (string \<Rightarrow> nat \<Rightarrow> (string \<times> json) list \<Rightarrow> (bool \<times> driver_channel) list parse_result res)
    \<Rightarrow> nat \<Rightarrow> json \<Rightarrow> (bool \<times> driver_channel) list parse_result res" where
  "f3896_row direction types build i row =
     (case row of
        JDict d \<Rightarrow>
          if \<not> j_truthy (dict_get d ''lockStatus'' (JBool False)) then Inr ([], [])
          else let t = j_get d ''channelType'' in
            if \<not> hashable t then Inl TypeError
            else if t \<notin> JStr ` set types
            then Inr ([], [f3896_issue direction ''unknown_channel_type'' (Some ''channelType'') i])
            else build (case t of JStr s \<Rightarrow> s | _ \<Rightarrow> []) i d
      | _ \<Rightarrow> Inr ([], []))"

definition f3896_down :: "string \<Rightarrow> nat \<Rightarrow> (string \<times> json) list \<Rightarrow> (bool \<times> driver_channel) list parse_result res" where
  "f3896_down t i d =
     (let invalid = f3896_issue ''downstream'' ''invalid_channel'' None i; mer = j_get d ''rxMer'';
          errors = [(''corrErrors'', j_get d ''correctedErrors''), (''nonCorrErrors'', j_get d ''uncorrectedErrors'')];
          channel_id = dict_get d ''channelId'' (JInt 0) in
      if t = ''ofdm'' then
        res_bind (scaled_field ''downstream'' ''power'' i (j_get d ''power'')) (\<lambda>(pwr, issues).
        res_bind (scaled_field ''downstream'' ''rxMer'' i mer) (\<lambda>(value, issues').
        map_sum id (\<lambda>(cs, ds). (cs, issues @ issues' @ ds)) (or_diagnose invalid
          (map_sum id (\<lambda>profile. ([(True, [(''channelID'', channel_id), (''type'', JStr ''OFDM''), (''frequency'', JStr []),
              (''powerLevel'', opt_float pwr), (''mer'', opt_float (if value = Some (Fin 0) then None else value)), (''mse'', JNull),
              (''modulation'', JStr ''OFDM'')] @ errors @ profile)], []))
            (f3896_profile d)))))
      else or_diagnose invalid
        (let snr = (if j_truthy (j_get d ''snr'') then j_get d ''snr'' else mer) in
         res_bind (f3896_frequency (j_get d ''frequency'')) (\<lambda>frequency.
         res_bind (if j_truthy snr then j_neg snr else Inr JNull) (\<lambda>mse.
         res_bind (f3896_modulation (dict_get d ''modulation'' (JStr []))) (\<lambda>modulation.
           Inr ([(False, [(''channelID'', channel_id), (''frequency'', JStr frequency), (''powerLevel'', j_get d ''power''),
             (''mer'', snr), (''mse'', mse), (''modulation'', JStr modulation)] @ errors)], []))))))"

definition f3896_up :: "string \<Rightarrow> nat \<Rightarrow> (string \<times> json) list \<Rightarrow> (bool \<times> driver_channel) list parse_result res" where
  "f3896_up t i d =
     (let invalid = f3896_issue ''upstream'' ''invalid_channel'' None i; channel_id = dict_get d ''channelId'' (JInt 0) in
      if t = ''ofdma'' then
        res_bind (scaled_field ''upstream'' ''power'' i (j_get d ''power'')) (\<lambda>(pwr, issues).
        map_sum id (\<lambda>(cs, ds). (cs, issues @ ds)) (or_diagnose invalid
          (map_sum id (\<lambda>profile. ([(True, [(''channelID'', channel_id), (''type'', JStr ''OFDMA''), (''frequency'', JStr []),
              (''powerLevel'', opt_float pwr), (''modulation'', JStr ''OFDMA''), (''multiplex'', JStr [])] @ profile)], []))
            (f3896_profile d))))
      else or_diagnose invalid
        (res_bind (f3896_frequency (j_get d ''frequency'')) (\<lambda>frequency.
         res_bind (f3896_modulation (dict_get d ''modulation'' (JStr []))) (\<lambda>modulation.
           Inr ([(False, [(''channelID'', channel_id), (''frequency'', JStr frequency), (''powerLevel'', j_get d ''power''),
             (''modulation'', JStr modulation), (''multiplex'', JStr (py_upper t)), (''symbolRate'', j_get d ''symbolRate'')])], [])))))"

definition parse_f3896lg_rest_json :: "json \<Rightarrow> docsis_lanes parse_result res" where
  "parse_f3896lg_rest_json payload =
     (let data = payload_dict payload in
      res_bind (res_bind (iter_rows (dict_get data ''downstream'' (JList [])))
        (parse_rows (f3896_row ''downstream'' [''sc_qam'', ''ofdm''] f3896_down) 0)) (\<lambda>(d, di).
      res_bind (res_bind (iter_rows (dict_get data ''upstream'' (JList [])))
        (parse_rows (f3896_row ''upstream'' [''atdma'', ''ofdma''] f3896_up) 0)) (\<lambda>(u, ui).
        Inr (docsis_split (fst (split_lanes d)) (snd (split_lanes d)) (fst (split_lanes u)) (snd (split_lanes u)), di @ ui))))"

section \<open>FRITZ!Box and devices without DOCSIS\<close>

definition UPSTREAM_31_POWER_OFFSET :: f64 where "UPSTREAM_31_POWER_OFFSET = Fin 6"

fun correct_powers :: "(json \<Rightarrow> string) \<Rightarrow> nat \<Rightarrow> json list \<Rightarrow> json list parse_result res" where
  "correct_powers show i [] = Inr ([], [])"
| "correct_powers show i (c # cs) =
     (case c of
        JDict d \<Rightarrow>
          let issue = \<lparr>pd_family = ''fritzbox'', pd_profile = ''fritzbox_data_lua'', pd_code = ''invalid_field'',
                pd_direction = Some ''upstream'', pd_index = Some i, pd_field = Some ''powerLevel''\<rparr>;
              go = (\<lambda>d' issues. map_sum id (\<lambda>(ys, ds). (JDict d' # ys, issues @ ds)) (correct_powers show (Suc i) cs)) in
          (case j_float (dict_get d ''powerLevel'' (JInt 0)) of
             Inl e \<Rightarrow> if value_error e then go d [issue] else Inl e
           | Inr raw \<Rightarrow> go (dict_set ''powerLevel'' (JStr (show (JFloat (f_round 1 (f_add raw UPSTREAM_31_POWER_OFFSET))))) d) [])
      | _ \<Rightarrow> Inl AttributeError)"

definition parse_fritzbox_data_lua :: "(json \<Rightarrow> string) \<Rightarrow> json \<Rightarrow> (string \<times> json) list parse_result res" where
  "parse_fritzbox_data_lua show payload =
     (let value = payload_dict payload in
      res_bind (row_get (dict_get value ''channelUs'' (JDict [])) ''docsis31'' (JList [])) (\<lambda>upstream.
      res_bind (iter_rows upstream) (\<lambda>cs.
      map_sum id (\<lambda>(ys, ds).
          (case j_get (payload_dict (j_get value ''channelUs'')) ''docsis31'' of
             JList xs \<Rightarrow> dict_set ''channelUs'' (JDict (dict_set ''docsis31'' (JList ys) (payload_dict (j_get value ''channelUs'')))) value
           | _ \<Rightarrow> value, ds))
        (correct_powers show 0 cs))))"

definition parse_generic_no_docsis :: "docsis_lanes parse_result" where
  "parse_generic_no_docsis = (docsis_split [] [] [] [], [])"

end
