(* ===== verification/Payload_Families.thy ===== *)
theory Payload_Families
  imports Payload_Analysis Format_Sercom Format_Hitron Format_Sagemcom
begin

text \<open>
  The lanes of the JSON profiles agree with the channel families of \<^verbatim>\<open>app/docsis_utils.py\<close>: what a parser
  puts among the DOCSIS 3.1 channels, the analyzer takes for OFDM downstream and OFDMA upstream.
\<close>

definition typed :: "string \<Rightarrow> driver_channel \<Rightarrow> bool" where
  "typed t c \<longleftrightarrow> map_of c ''type'' = Some (JStr t)"

lemma typed_families:
  shows "typed ''OFDM'' c \<Longrightarrow> classify_ds (ds_view (as_raw c)) = Ofdm"
    and "typed ''OFDMA'' c \<Longrightarrow> classify_us (us_view (as_raw c) ''3.1'') = Ofdma"
  using ofdm_texts by (simp_all add: typed_def as_raw_def classify_ds_def ds_view_def classify_us_def us_view_def Let_def text_of_def)

definition all_typed :: "string \<Rightarrow> driver_channel list parse_result res \<Rightarrow> bool" where
  "all_typed t r \<longleftrightarrow> (case r of Inl e \<Rightarrow> True | Inr (cs, ds) \<Rightarrow> list_all (typed t) cs)"

lemma all_typed_bind: "(\<And>x. r = Inr x \<Longrightarrow> all_typed t (f x)) \<Longrightarrow> all_typed t (res_bind r f)"
  by (cases r) (simp_all add: all_typed_def)

lemma all_typed_simps [simp]:
  "all_typed t (Inl e)" "all_typed t (Inr (cs, ds)) = list_all (typed t) cs"
  by (simp_all add: all_typed_def)

lemma all_typed_diagnose: "all_typed t r \<Longrightarrow> all_typed t (or_diagnose issue r)"
  by (auto simp: all_typed_def or_diagnose_def split: sum.splits)

lemma all_typed_add: "all_typed t r \<Longrightarrow> all_typed t (map_sum id (\<lambda>(cs, ds). (cs, g ds)) r)"
  by (auto simp: all_typed_def split: sum.splits)

lemma all_typed_rows:
  assumes "\<And>i r. all_typed t (step i r)" and "parse_rows step i rs = Inr (cs, ds)"
  shows "list_all (typed t) cs"
proof (unfold list_all_iff, rule ballI)
  fix c assume "c \<in> set cs"
  from parse_rows_from [OF assms(2) this] obtain j r cs' ds' where "step j r = Inr (cs', ds')" "c \<in> set cs'" by blast
  with assms(1) [of j r] show "typed t c" by (simp add: list_all_iff)
qed

lemma sercom_typed:
  "all_typed ''OFDM'' (sercom_ds_ofdm_row show i row)" "all_typed ''OFDMA'' (sercom_us_ofdma_row show i col)"
  unfolding sercom_ds_ofdm_row_def sercom_us_ofdma_row_def Let_def
  by (auto intro!: all_typed_bind all_typed_diagnose all_typed_add simp: typed_def sum.map_id split: option.split)

lemma hitron_typed:
  "(\<And>d. case build d of Inl e \<Rightarrow> True | Inr c \<Rightarrow> typed t c) \<Longrightarrow> all_typed t (hitron_rows profile dir build active i row)"
  "all_typed ''OFDMA'' (hitron_ofdma_row profile show freq multiplex i row)"
proof -
  assume b: "\<And>d. case build d of Inl e \<Rightarrow> True | Inr c \<Rightarrow> typed t c"
  have "all_typed t (map_sum id (\<lambda>c. ([c], [])) (build d))" for d
    using b [of d] by (cases "build d") auto
  then show "all_typed t (hitron_rows profile dir build active i row)"
    by (auto simp: hitron_rows_def intro!: all_typed_diagnose split: json.split)
next
  show "all_typed ''OFDMA'' (hitron_ofdma_row profile show freq multiplex i row)"
    unfolding hitron_ofdma_row_def Let_def
    by (auto intro!: all_typed_bind all_typed_diagnose all_typed_add simp: typed_def sum.map_id split: option.split)
qed

lemma hitron_builds:
  "case coda56_ds_ofdm show d of Inl e \<Rightarrow> True | Inr c \<Rightarrow> typed ''OFDM'' c"
  "case coda4680_ds_ofdm show d of Inl e \<Rightarrow> True | Inr c \<Rightarrow> typed ''OFDM'' c"
  by (auto simp: coda56_ds_ofdm_def coda4680_ds_ofdm_def res_bind_Inr_iff typed_def split: sum.split)

text \<open>The lanes of a result whose loops type their channels.\<close>

definition families_agree :: "docsis_lanes \<Rightarrow> bool" where
  "families_agree L \<longleftrightarrow> (\<forall>c \<in> set (ln_ds31 L). classify_ds (ds_view (as_raw c)) = Ofdm)
     \<and> (\<forall>c \<in> set (ln_us31 L). classify_us (us_view (as_raw c) ''3.1'') = Ofdma)"

lemma families_agreeI: "list_all (typed ''OFDM'') (ln_ds31 L) \<Longrightarrow> list_all (typed ''OFDMA'') (ln_us31 L) \<Longrightarrow> families_agree L"
  by (auto simp: families_agree_def list_all_iff typed_families)

lemma sercom_families: "parse_sercom_dm1000_json show payload = Inr (L, ds) \<Longrightarrow> families_agree L"
  by (auto simp: parse_sercom_dm1000_json_def Let_def res_bind_Inr_iff docsis_result_def docsis_split_def
      intro!: families_agreeI elim!: all_typed_rows [rotated] intro: sercom_typed)

lemma hitron_families:
  "parse_hitron_coda56_json show payload = Inr (L, ds) \<Longrightarrow> families_agree L"
  "parse_hitron_coda4680_json show payload = Inr (L, ds) \<Longrightarrow> families_agree L"
  by (auto simp: parse_hitron_coda56_json_def parse_hitron_coda4680_json_def Let_def res_bind_Inr_iff docsis_result_def docsis_split_def
      intro!: families_agreeI elim!: all_typed_rows [rotated] intro: hitron_typed(2) hitron_typed(1) [OF hitron_builds(1)] hitron_typed(1) [OF hitron_builds(2)])

section \<open>Lanes by flag\<close>

definition flag_typed :: "string \<Rightarrow> (bool \<times> driver_channel) list parse_result res \<Rightarrow> bool" where
  "flag_typed t r \<longleftrightarrow> (case r of Inl e \<Rightarrow> True | Inr (cs, ds) \<Rightarrow> list_all (\<lambda>c. fst c \<longrightarrow> typed t (snd c)) cs)"

lemma flag_typed_simps [simp]:
  "flag_typed t (Inl e)" "flag_typed t (Inr (cs, ds)) = list_all (\<lambda>c. fst c \<longrightarrow> typed t (snd c)) cs"
  by (simp_all add: flag_typed_def)

lemma flag_typed_bind: "(\<And>x. r = Inr x \<Longrightarrow> flag_typed t (f x)) \<Longrightarrow> flag_typed t (res_bind r f)"
  by (cases r) simp_all

lemma flag_typed_diagnose: "flag_typed t r \<Longrightarrow> flag_typed t (or_diagnose issue r)"
  by (cases r) (auto simp: or_diagnose_def)

lemma flag_typed_add: "flag_typed t r \<Longrightarrow> flag_typed t (map_sum id (\<lambda>(cs, ds). (cs, g ds)) r)"
  by (cases r) auto

lemma flag_typed_last: "(\<And>x. list_all (\<lambda>c. fst c \<longrightarrow> typed t (snd c)) (C x)) \<Longrightarrow> flag_typed t (map_sum id (\<lambda>x. (C x, [])) r)"
  by (cases r) simp_all

lemma f3896_typed:
  "flag_typed ''OFDM'' (f3896_row dir types f3896_down i row)" "flag_typed ''OFDMA'' (f3896_row dir types f3896_up i row)"
  unfolding f3896_row_def f3896_down_def f3896_up_def Let_def
  by (auto intro!: flag_typed_bind flag_typed_diagnose flag_typed_add flag_typed_last simp: typed_def split: json.split)

lemma flag_typed_rows:
  assumes "\<And>i r. flag_typed t (step i r)" and "parse_rows step i rs = Inr (cs, ds)"
  shows "list_all (typed t) (snd (split_lanes cs))"
proof (unfold list_all_iff, rule ballI)
  fix c assume "c \<in> set (snd (split_lanes cs))"
  then have "(True, c) \<in> set cs" by (auto simp: split_lanes_def)
  from parse_rows_from [OF assms(2) this] obtain j r cs' ds' where "step j r = Inr (cs', ds')" "(True, c) \<in> set cs'" by blast
  with assms(1) [of j r] show "typed t c" by (auto simp: list_all_iff)
qed

lemma f3896_families: "parse_f3896lg_rest_json payload = Inr (L, ds) \<Longrightarrow> families_agree L"
  by (auto simp: parse_f3896lg_rest_json_def Let_def res_bind_Inr_iff docsis_split_def
      intro!: families_agreeI elim!: flag_typed_rows [rotated] intro: f3896_typed)

text \<open>
  C18. Lanes and families agree: whatever payload a Sercom, Hitron or F3896LG modem sends, every channel
  that its parser returns as DOCSIS 3.1 is an OFDM channel downstream and an OFDMA channel upstream
  for the analyzer.
\<close>

theorem lanes_keep_family:
  assumes "parse \<in> {parse_sercom_dm1000_json show, parse_hitron_coda56_json show, parse_hitron_coda4680_json show, parse_f3896lg_rest_json}"
    and "parse payload = Inr (L, issues)"
  shows "(\<forall>c \<in> set (ln_ds31 L). classify_ds (ds_view (as_raw c)) = Ofdm)
    \<and> (\<forall>c \<in> set (ln_us31 L). classify_us (us_view (as_raw c) ''3.1'') = Ofdma)"
  using assms sercom_families hitron_families f3896_families unfolding families_agree_def by blast

definition sample_payload :: json where
  "sample_payload = JDict [(''downstream'', JList [JDict [(''lockStatus'', JBool True), (''channelType'', JStr ''ofdm''),
     (''channelId'', JInt 33), (''modulation'', JStr ''qam_4096'')]])]"

lemma lanes_keep_family_witness:
  "\<exists>c. parse_f3896lg_rest_json sample_payload = Inr (docsis_split [] [c] [] [], []) \<and> classify_ds (ds_view (as_raw c)) = Ofdm"
proof -
  have "py_startswith (py_lower ''qam_4096'') ''qam_''" by code_simp
  then have "\<exists>c. parse_f3896lg_rest_json sample_payload = Inr (docsis_split [] [c] [] [], [])"
    by (simp add: docsis_split_def sample_payload_def parse_f3896lg_rest_json_def payload_dict_def dict_get_def f3896_row_def j_get_def f3896_down_def
        scaled_field_def f3896_unscale_def or_diagnose_def f3896_profile_def f3896_modulation_def split_lanes_def Let_def)
  then obtain c where c: "parse_f3896lg_rest_json sample_payload = Inr (docsis_split [] [c] [] [], [])" by blast
  have "parse_f3896lg_rest_json \<in> {parse_sercom_dm1000_json (\<lambda>v. []), parse_hitron_coda56_json (\<lambda>v. []),
      parse_hitron_coda4680_json (\<lambda>v. []), parse_f3896lg_rest_json}" by simp
  from lanes_keep_family [OF this c] c show ?thesis by (auto simp: docsis_split_def)
qed

end
