(* ===== verification/Spec2Isabelle.thy ===== *)
theory Spec2Isabelle
  imports Collector_Schedule Login_Limiter Analyzer Event_Detector Notifier Smart_Capture Compensation Web_Paths
    Gaming_Index Connection_Monitor Sample_Store Device_Tracking Modem_Poll Modulation Migrations Retention Settings_Routes Segment_Utilization Module_Loader Backup
    Format_Vodafone Payload_Families
begin

text \<open>
  DOCSight reads the status pages of a cable modem at intervals, assesses the DOCSIS channels,
  stores snapshots, derives events, notifies, runs speed tests on degradations (Smart Capture)
  and probes hosts (Connection Monitor).  This library is a shallow embedding of the part of
  \<^verbatim>\<open>app/\<close> that decides; each theory names its source files in its opening text and keeps the names
  of the code (a name that clashes with the library gets a suffix).

  \<^bold>\<open>Foundation.\<close>  Py_Prelude has errors as values (\<^verbatim>\<open>py_error + 'a\<close>), insertion-ordered
  dictionaries as association lists, and the string methods; Py_Float is IEEE binary64 as the code
  uses it (rounding to nearest even, infinities, NaN, \<^verbatim>\<open>round\<close>, \<^verbatim>\<open>sum\<close>) with monotonicity and exactness
  lemmas; Py_Values has dynamic values and the conversions \<^verbatim>\<open>int\<close>, \<^verbatim>\<open>float\<close> and \<^verbatim>\<open>str\<close>.  Clock readings
  and ages are rationals or integers, identifiers and counts are integers.

  \<^bold>\<open>Polling.\<close>  Collector_Schedule (\<^verbatim>\<open>collectors/base.py\<close>, the loop of \<^verbatim>\<open>main.py\<close>) is the due check and
  the back-off as a step relation.  Device_Tracking and Modem_Poll (\<^verbatim>\<open>collectors/modem.py\<close>) compose one
  poll: device events, the event detector, Smart Capture.

  \<^bold>\<open>Drivers.\<close>  Format_Values has the numbers, frequencies and modulation names of modem payloads and
  the loop over rows with its diagnostics; Format_Hnap (Surfboard), Format_Sercom, Format_Hitron,
  Format_Vodafone and Format_Sagemcom (with the FRITZ!Box) are the parsers of \<^verbatim>\<open>drivers/formats\<close> over text
  and JSON; a frequency in Hz becomes a text in MHz rounded to 100 kHz.  Payload_Analysis leads the strings of a modem through parser and analyzer;
  Payload_Families shows that the lanes of the JSON parsers agree with the families of the analyzer.

  \<^bold>\<open>Assessment.\<close>  Docsis_Utils classifies modulation labels and channel families; Thresholds,
  Channel_Health, Signal_Families and Analyzer are \<^verbatim>\<open>analyzer.py\<close>: the threshold profile, the verdict
  on each channel, the summaries per signal family and \<^verbatim>\<open>analyze\<close> with its two post-processing
  steps.  Counter_Unwrap reconstructs wrapped 32-bit counters, Error_Counters aggregates them.
  Modulation is the engine of the modulation report, Gaming_Index the rating of a speed test.

  \<^bold>\<open>Events and actions.\<close>  Event_Detector compares consecutive snapshots; its state is the last
  snapshot and a hysteresis counter per health.  Guardrails and Smart_Capture match events with
  triggers, pass them through the guard chain, store executions (Execution_Store) and settle them
  by import or expiry; the life cycle of an execution is stated over the single database statements of the
  concurrent operations, in any interleaving (\<^verbatim>\<open>running\<close>).  Notifier routes events to the notification channels.  Cooldowns holds
  the locales \<^verbatim>\<open>sliding_window\<close> and \<^verbatim>\<open>fire_memory\<close>, the laws of a pruned history, which Guardrails,
  Notifier and Connection_Monitor interpret on their own operations.

  \<^bold>\<open>Connection Monitor.\<close>  Probe_Engine has the packets, the checksum and the reply loop;
  Connection_Monitor the event rules, the trace queue and one collector cycle; Sample_Store the
  rows, their aggregation into buckets and the outages derived from them.

  \<^bold>\<open>Storage and time.\<close>  Calendar and Timestamps are the civil calendar, the text of instants and the
  local days of \<^verbatim>\<open>tz.py\<close> over a zone given by its offsets; Migrations applies ordered schema steps with
  a recorded version, each in a transaction whose view, commit and rollback are modelled; Retention deletes old rows; Segment_Utilization finds
  the runs of a loaded segment and replaces old rows by averages without losing their events.

  \<^bold>\<open>Configuration and authentication.\<close>  Json_Values is what \<^verbatim>\<open>json.load\<close> returns.  Config_Store keeps
  settings, encrypts and hashes secrets and writes the file, which a crash may tear (\<^verbatim>\<open>at_rest\<close> says what a
  stored secret may be); Settings_Routes is
  the save of a settings page.  Api_Tokens and Web_Auth decide which request is answered: tokens and
  their scopes, sessions bound to the password's generation, and the log-in page with the lockout of
  Login_Limiter (\<^verbatim>\<open>runtime.py\<close>).

  \<^bold>\<open>Modules and backups.\<close>  Module_Manifest reads and discovers manifests, Module_Registry settles which
  module owns a setting or a secret and validates registration plans, Module_Loader composes them to
  the load of all modules.  Backup writes, checks and restores archives.

  \<^bold>\<open>Web and rules.\<close>  Web_Paths is the mount path and the containment of module files; Compensation the
  German rules for outages.

  \<^bold>\<open>What the lemmas show.\<close>  Each component has an invariant kept by every operation, the
  behaviour of every branch, and where it has a contract a refinement: the guard chain refines
  limits over the full history, the dispatcher a cooldown over all sent events, the executions a
  life cycle, outages the maximal runs of lost samples, the compensation the table of the law.
  Where the code does not keep what it promises, the theorem states the behaviour of the code
  and its witness is the input on which it shows.

  \<^bold>\<open>Termination.\<close>  Every function is total, with two exceptions of form: the offset loop of
  Counter_Unwrap and the runs of Sample_Store have a measure, and the reply loop of Probe_Engine,
  which ends only when its clock passes the deadline, is a \<^verbatim>\<open>partial_function\<close> of the option monad,
  with a theorem that it returns once a reading of the clock reaches the deadline.

  \<^bold>\<open>Parameters.\<close>  What is not under \<^verbatim>\<open>app/\<close> is an argument: the clock, the operating system's
  sockets and name resolution, werkzeug's list parser, the resolution of symbolic links, the
  answers of the speed test service and of the push services, the text of a float or a container, the ciphers and hashes of
  \<^verbatim>\<open>cryptography\<close> and \<^verbatim>\<open>werkzeug\<close>, how a write of a file ends, SQLite's average, the decoding of JSON,
  tar archives and \<^verbatim>\<open>mkstemp\<close>, and the code a module's manifest names.

  \<^bold>\<open>Not modelled.\<close>  The sessions of the drivers with a modem (HTTP and ciphers) and the parsers of HTML,
  XML and JavaScript pages (over parsers that are not part of the repository), the other web pages
  and routes, reports and letters (layout), themes, glossary and translations (data), the desktop
  packaging (operating system calls), the demo collector (random data), exports, the clients of other
  services, and the tables SQLite keeps for modules other than those named above.
\<close>

end
